(* ===== verification/Prelude.thy ===== *)
theory Prelude
  imports Main "HOL-Library.Word" "HOL-Library.Monad_Syntax"
begin

unbundle bit_operations_syntax

text \<open>
  Prelude of the NEAT development: the C types the components share, the reading of assertion
  failures and undefined behaviour as \<^const>\<open>None\<close>, the list operations of the BSD queue macros
  and the generic facts on bits, words and lists that the component theories use.

  Conventions. A C function whose execution can run into \<open>assert\<close>, \<open>abort()\<close>, a read outside
  an array or a null dereference returns an \<open>option\<close>: \<^const>\<open>None\<close> is such an execution, and the
  theorems that state \<open>= Some \<dots>\<close> exclude it. A C \<open>int\<close> that only carries small values (a
  descriptor, a return code) is an \<^typ>\<open>int\<close>; where a conversion or an overflow can matter it is
  written out with \<open>to_int32\<close> or the value is kept as a word of its width.
\<close>

section \<open>C types\<close>

type_synonym u8 = "8 word"
type_synonym u16 = "16 word"
type_synonym u32 = "32 word"
type_synonym u64 = "64 word"

text \<open>The conversion of an integer value to a 32-bit two's complement \<open>int\<close>.\<close>

definition to_int32 :: "int \<Rightarrow> int" where
  "to_int32 k = signed_take_bit 31 k"

lemma to_int32_id [simp]: "- (2 ^ 31) \<le> k \<Longrightarrow> k < 2 ^ 31 \<Longrightarrow> to_int32 k = k"
  by (simp add: to_int32_def signed_take_bit_int_eq_self)

lemma to_int32_unat:
  assumes "unat e < 2 ^ 31"
  shows "to_int32 (uint e) = int (unat e)"
proof -
  have "- (2 ^ 31) \<le> uint e" by (rule order.trans [of _ 0]) simp_all
  moreover have "int (unat e) < int (2 ^ 31)" using assms by (simp only: of_nat_less_iff)
  ultimately show ?thesis by simp
qed

section \<open>Assertions\<close>

text \<open>\<open>assert(b)\<close> of the C library: the program continues only when the condition holds.\<close>

definition c_assert :: "bool \<Rightarrow> unit option" where
  "c_assert b = (if b then Some () else None)"

lemma c_assert_True [simp]: "c_assert True = Some ()"
  by (simp add: c_assert_def)

lemma c_assert_eq_Some [simp]: "c_assert b = Some u \<longleftrightarrow> b"
  by (simp add: c_assert_def)

section \<open>Strings\<close>

text \<open>\<open>strtok\<close> and \<open>strtok_r\<close> called until they return no more: the parts between the separators that are not empty.\<close>

fun split_string :: "string \<Rightarrow> string \<Rightarrow> string list" where
  "split_string delim [] = [[]]"
| "split_string delim (x # xs) =
     (if x \<in> set delim then [] # split_string delim xs
      else (case split_string delim xs of [] \<Rightarrow> [[x]] | t # ts \<Rightarrow> (x # t) # ts))"

definition strtok :: "string \<Rightarrow> string \<Rightarrow> string list" where
  "strtok delim str = filter (\<lambda>t. t \<noteq> []) (split_string delim str)"

section \<open>Collections of facts\<close>

named_theorems ibm_simps \<open>rewrite rules of the identifier bitmap\<close>
named_theorems wf_intros \<open>well-formedness is preserved\<close>
named_theorems queue_simps \<open>rewrite rules of the queue operations\<close>
named_theorems flow_simps \<open>rewrite rules of flow operations\<close>

section \<open>Bits of words\<close>

lemma and_exp_neq_0 [simp]: "(w AND 2 ^ n \<noteq> 0) \<longleftrightarrow> bit (w :: 'a::len word) n"
  by (simp add: and_exp_eq_0_iff_not_bit)

lemma and_exp_eq_0 [simp]: "(w AND 2 ^ n = 0) \<longleftrightarrow> \<not> bit (w :: 'a::len word) n"
  by (simp add: and_exp_eq_0_iff_not_bit)

lemma bit_or_exp:
  "n < LENGTH('a) \<Longrightarrow> bit (w OR 2 ^ n :: 'a::len word) k \<longleftrightarrow> k = n \<or> bit w k"
  by (auto simp: bit_or_iff bit_exp_iff)

lemma bit_and_not_exp:
  "bit (w AND NOT (2 ^ n) :: 'a::len word) k \<longleftrightarrow> k \<noteq> n \<and> bit w k"
  by (auto simp: bit_and_iff bit_not_iff bit_exp_iff dest: bit_imp_le_length)

lemma word_not_full_has_clear_bit:
  assumes "(w :: 'a::len word) \<noteq> NOT 0"
  shows "\<exists>j < LENGTH('a). \<not> bit w j"
proof (rule ccontr)
  assume "\<not> ?thesis"
  then have "\<And>j. bit w j = bit (NOT 0 :: 'a word) j"
    by (auto simp: bit_not_iff dest: bit_imp_le_length)
  with assms show False by (simp add: bit_eq_iff)
qed

lemma unat_plus_1: "(i :: 'a::len word) \<noteq> - 1 \<Longrightarrow> unat (i + 1) = Suc (unat i)"
  using unatSuc [of i] by (metis add.commute add_eq_0_iff)

lemma unat_plus_1_u32: "unat (i :: u32) < k \<Longrightarrow> k < 2 ^ 32 \<Longrightarrow> unat (i + 1) = Suc (unat i)"
proof (rule unat_plus_1)
  assume "unat i < k" and "k < 2 ^ 32"
  then have "unat i < 2 ^ 32 - 1" by simp
  moreover have "unat (- 1 :: u32) = 2 ^ 32 - 1"
    by (simp add: unsigned_minus_1_eq_mask mask_eq_exp_minus_1)
  ultimately show "i \<noteq> - 1" by (metis less_irrefl_nat)
qed

lemma unat_plus_1_less: "(i :: 'a::len word) < k \<Longrightarrow> unat (i + 1) = Suc (unat i)"
  by (rule unat_plus_1) (use word_order.extremum_strict in auto)

lemma unat_of_nat_small: "n < 2 ^ LENGTH('a) \<Longrightarrow> unat (of_nat n :: 'a::len word) = n"
  by (simp add: unsigned_of_nat take_bit_nat_eq_self)

lemma int_less_uint [simp]: "int k < uint w \<longleftrightarrow> k < unat w"
  by (metis of_nat_less_iff uint_nat)

lemma ucast_of_nat_small:
  "n < 2 ^ LENGTH('a) \<Longrightarrow> ucast (of_nat n :: 'a::len word) = (of_nat n :: 'b::len word)"
  by (metis unat_of_nat_small of_nat_unat)

lemma and_not_mask: "(x :: 'a::len word) AND NOT (mask n) = push_bit n (drop_bit n x)"
  by (rule bit_word_eqI) (auto simp: bit_simps)

lemma unat_add_le: "unat (a + b :: 'a::len word) \<le> unat a + unat b"
  by (simp add: unat_word_ariths)

text \<open>Clearing the low bits loses less than their weight.\<close>

lemma and_not_mask_ge: "unat (x :: 'a::len word) \<le> unat (x AND NOT (mask n)) + (2 ^ n - 1)"
proof -
  have "unat x \<le> unat (push_bit n (drop_bit n x)) + unat (take_bit n x)"
    by (metis bits_ident unat_add_le)
  moreover have "unat (take_bit n x) < 2 ^ n"
    by (simp add: unsigned_take_bit_eq)
  ultimately show ?thesis by (simp add: and_not_mask)
qed

section \<open>Lists\<close>

text \<open>
  The intrusive lists of \<open>neat_queue.h\<close> (\<open>LIST\<close>, \<open>TAILQ\<close>) are lists of the linked elements,
  head first: \<open>LIST_INSERT_HEAD\<close> is \<open>x # xs\<close>, \<open>TAILQ_INSERT_TAIL\<close> is \<open>xs @ [x]\<close> and the
  remove macros are \<^const>\<open>remove1\<close>.
\<close>

lemma nth_list_update_if:
  "i < length xs \<Longrightarrow> xs[i := v] ! j = (if i = j then v else xs ! j)"
  by simp

lemma card_insert_new:
  "finite A \<Longrightarrow> x \<notin> A \<Longrightarrow> card (insert x A) = Suc (card A)"
  by simp

end
