(* ===== verification/Identifier_Bitmap.thy ===== *)
theory Identifier_Bitmap
  imports Prelude
begin

text \<open>
  The identifier bitmap of \<open>socketapi/identifierbitmap.c\<close>, from which the socket API takes its
  descriptors: the record, its five operations on 64-bit slots, the set of identifiers a bitmap
  stands for, the invariant and the proof that the operations implement allocation of the least
  free identifier. The contract is the locale \<open>id_allocator\<close>, interpreted on the operations.
\<close>

section \<open>The data and the operations\<close>

text \<open>
  \<open>struct identifier_bitmap\<close>. The flexible array member \<open>bitmap\<close> is the list of its slots;
  \<open>ibm_new\<close> allocates one slot more than \<open>slots\<close>.
\<close>

record identifier_bitmap =
  entries :: u64
  available :: u64
  slots :: u64
  bitmap :: "u64 list"

text \<open>\<open>identifier_bitmap_slotsize\<close>: \<open>sizeof(unsigned long) * 8\<close>.\<close>

definition identifier_bitmap_slotsize :: u64 where
  "identifier_bitmap_slotsize = 64"

text \<open>\<open>ibm_new\<close>; the argument says whether \<open>malloc\<close> succeeds, \<^const>\<open>None\<close> is the null pointer.\<close>

definition ibm_new :: "bool \<Rightarrow> u64 \<Rightarrow> identifier_bitmap option" where
  "ibm_new malloc_ok ents =
     (let sl = (ents + (identifier_bitmap_slotsize - (ents mod identifier_bitmap_slotsize)))
               div identifier_bitmap_slotsize
      in if malloc_ok
         then Some \<lparr>entries = ents, available = ents, slots = sl,
                    bitmap = replicate (unat sl + 1) 0\<rparr>
         else None)"

text \<open>\<open>ibm_delete\<close> clears the number of entries before the memory is freed.\<close>

definition ibm_delete :: "identifier_bitmap \<Rightarrow> identifier_bitmap" where
  "ibm_delete b = b\<lparr>entries := 0\<rparr>"

text \<open>
  The first loop of \<open>ibm_allocate_id\<close>: the first slot that is not full, with the 32-bit index
  \<open>i\<close> of the source. A read past the array and an index that wraps around (the loop then runs
  over the same full slots for ever) are \<^const>\<open>None\<close>.
\<close>

function find_slot :: "u64 list \<Rightarrow> u32 \<Rightarrow> u32 option" where
  "find_slot bm i =
     (if unat i < length bm
      then (if bm ! unat i = NOT 0
            then (if i = NOT 0 then None else find_slot bm (i + 1))
            else Some i)
      else None)"
  by pat_completeness auto
termination
proof (relation "measure (\<lambda>(bm, i). 2 ^ 32 - unat i)", goal_cases)
  case (2 bm i)
  then have "unat (i + 1) = Suc (unat i)" by (simp add: unat_plus_1)
  moreover have "unat i < 2 ^ 32" using unsigned_less [of i] by simp
  ultimately show ?case by simp
qed simp

text \<open>
  The second loop: the first clear bit \<open>j\<close> of the slot, with \<open>id\<close> counting along. The shift
  \<open>1UL << j\<close> is only evaluated for \<open>j < 64\<close>.
\<close>

function find_bit :: "u64 \<Rightarrow> int \<Rightarrow> u32 \<Rightarrow> int \<Rightarrow> u32 \<times> int" where
  "find_bit w ents j n =
     (if j < 64 \<and> n < ents \<and> w AND push_bit (unat j) 1 \<noteq> 0
      then find_bit w ents (j + 1) (n + 1)
      else (j, n))"
  by pat_completeness auto
termination
  by (relation "measure (\<lambda>(w, ents, j, n). 64 - unat j)")
    (auto simp: unat_plus_1_u32 word_less_nat_alt)

declare find_slot.simps [simp del] find_bit.simps [simp del]

text \<open>
  \<open>ibm_allocate_id\<close>: the identifier (or -1) and the bitmap after the call. \<open>(int)entries\<close> and the
  assignment of \<open>i * identifier_bitmap_slotsize\<close> to an \<open>int\<close> are the conversions of the source.
\<close>

definition ibm_allocate_id :: "identifier_bitmap \<Rightarrow> (int \<times> identifier_bitmap) option" where
  "ibm_allocate_id b =
     (if available b > 0
      then do {
        i \<leftarrow> find_slot (bitmap b) 0;
        let n0 = to_int32 (uint (ucast i * identifier_bitmap_slotsize));
        let ents = to_int32 (uint (entries b));
        let (j, n) = find_bit (bitmap b ! unat i) ents 0 n0;
        c_assert (n < ents);
        Some (n, b\<lparr>bitmap := (bitmap b)[unat i := bitmap b ! unat i OR push_bit (unat j) 1],
                    available := available b - 1\<rparr>)
      }
      else Some (- 1, b))"

text \<open>\<open>ibm_allocate_specific_id\<close>: the requested identifier, or -1 if it is taken.\<close>

definition ibm_allocate_specific_id :: "identifier_bitmap \<Rightarrow> int \<Rightarrow> (int \<times> identifier_bitmap) option" where
  "ibm_allocate_specific_id b n = do {
     c_assert (0 \<le> n \<and> n < to_int32 (uint (entries b)));
     let i = nat n div 64;
     let j = nat n mod 64;
     c_assert (i < length (bitmap b));
     if bitmap b ! i AND push_bit j 1 \<noteq> 0 then Some (- 1, b)
     else Some (n, b\<lparr>bitmap := (bitmap b)[i := bitmap b ! i OR push_bit j 1],
                      available := available b - 1\<rparr>)
   }"

text \<open>\<open>ibm_free_id\<close>.\<close>

definition ibm_free_id :: "identifier_bitmap \<Rightarrow> int \<Rightarrow> identifier_bitmap option" where
  "ibm_free_id b n = do {
     c_assert (0 \<le> n \<and> n < to_int32 (uint (entries b)));
     let i = nat n div 64;
     let j = nat n mod 64;
     c_assert (i < length (bitmap b));
     c_assert (bitmap b ! i AND push_bit j 1 \<noteq> 0);
     Some (b\<lparr>bitmap := (bitmap b)[i := bitmap b ! i AND NOT (push_bit j 1)],
             available := available b + 1\<rparr>)
   }"

section \<open>Abstraction and invariant\<close>

text \<open>The bit that stands for identifier \<open>k\<close>, and the set of allocated identifiers.\<close>

definition ibm_taken :: "identifier_bitmap \<Rightarrow> nat \<Rightarrow> bool" where
  "ibm_taken b k = bit (bitmap b ! (k div 64)) (k mod 64)"

definition ibm_ids :: "identifier_bitmap \<Rightarrow> nat set" where
  "ibm_ids b = set (filter (ibm_taken b) [0..<unat (entries b)])"

text \<open>
  The invariant. The bound on \<open>entries\<close> is what the comparisons with \<open>(int)entries\<close> need; the
  bits behind the last entry are clear.
\<close>

definition ibm_inv :: "identifier_bitmap \<Rightarrow> bool" where
  "ibm_inv b \<longleftrightarrow>
     unat (entries b) < 2 ^ 31 \<and>
     unat (slots b) = unat (entries b) div 64 + 1 \<and>
     length (bitmap b) = unat (slots b) + 1 \<and>
     (\<forall>k \<in> set [unat (entries b)..<64 * length (bitmap b)]. \<not> ibm_taken b k) \<and>
     unat (available b) + card (ibm_ids b) = unat (entries b)"

lemma mem_ibm_ids [ibm_simps]: "k \<in> ibm_ids b \<longleftrightarrow> k < unat (entries b) \<and> ibm_taken b k"
  by (auto simp: ibm_ids_def)

lemma finite_ibm_ids [simp]: "finite (ibm_ids b)"
  by (simp add: ibm_ids_def)

lemma ibm_inv_entries: "ibm_inv b \<Longrightarrow> to_int32 (uint (entries b)) = int (unat (entries b))"
  unfolding ibm_inv_def by (rule to_int32_unat) blast

lemma ibm_inv_slot_bound: "ibm_inv b \<Longrightarrow> k < unat (entries b) \<Longrightarrow> k div 64 < length (bitmap b)"
  by (auto simp: ibm_inv_def div_le_mono less_Suc_eq_le)

text \<open>Setting and clearing one bit changes the set by exactly one identifier.\<close>

definition ibm_set_bit :: "identifier_bitmap \<Rightarrow> nat \<Rightarrow> identifier_bitmap" where
  "ibm_set_bit b k = b\<lparr>bitmap := (bitmap b)[k div 64 := bitmap b ! (k div 64) OR 2 ^ (k mod 64)],
                       available := available b - 1\<rparr>"

definition ibm_clear_bit :: "identifier_bitmap \<Rightarrow> nat \<Rightarrow> identifier_bitmap" where
  "ibm_clear_bit b k =
     b\<lparr>bitmap := (bitmap b)[k div 64 := bitmap b ! (k div 64) AND NOT (2 ^ (k mod 64))],
       available := available b + 1\<rparr>"

lemma same_id: "(q::nat) div 64 = k div 64 \<Longrightarrow> q mod 64 = k mod 64 \<Longrightarrow> q = k"
  by (metis div_mult_mod_eq)

lemma ibm_taken_set_bit [ibm_simps]:
  "k div 64 < length (bitmap b) \<Longrightarrow> ibm_taken (ibm_set_bit b k) q \<longleftrightarrow> q = k \<or> ibm_taken b q"
  by (auto simp: ibm_taken_def ibm_set_bit_def nth_list_update_if bit_or_exp dest: same_id)

lemma ibm_taken_clear_bit [ibm_simps]:
  "k div 64 < length (bitmap b) \<Longrightarrow> ibm_taken (ibm_clear_bit b k) q \<longleftrightarrow> q \<noteq> k \<and> ibm_taken b q"
  by (auto simp: ibm_taken_def ibm_clear_bit_def nth_list_update_if bit_and_not_exp dest: same_id)

lemma ibm_ids_set_bit [ibm_simps]:
  assumes "ibm_inv b" and "k < unat (entries b)"
  shows "ibm_ids (ibm_set_bit b k) = insert k (ibm_ids b)"
  using ibm_inv_slot_bound [OF assms] assms(2)
  by (auto simp: mem_ibm_ids ibm_taken_set_bit) (simp_all add: ibm_set_bit_def)

lemma ibm_ids_clear_bit [ibm_simps]:
  assumes "ibm_inv b" and "k < unat (entries b)"
  shows "ibm_ids (ibm_clear_bit b k) = ibm_ids b - {k}"
  using ibm_inv_slot_bound [OF assms] assms(2)
  by (auto simp: mem_ibm_ids ibm_taken_clear_bit) (simp_all add: ibm_clear_bit_def)


lemma card_ibm_ids_le: "card (ibm_ids b) \<le> unat (entries b)"
proof -
  have "ibm_ids b \<subseteq> {..<unat (entries b)}" by (auto simp: mem_ibm_ids)
  then show ?thesis by (metis card_lessThan card_mono finite_lessThan)
qed

lemma ibm_inv_set_bit [wf_intros]:
  assumes inv: "ibm_inv b" and k: "k < unat (entries b)" and free: "\<not> ibm_taken b k"
  shows "ibm_inv (ibm_set_bit b k)"
proof -
  have ids: "ibm_ids (ibm_set_bit b k) = insert k (ibm_ids b)"
    by (rule ibm_ids_set_bit [OF inv k])
  have new: "k \<notin> ibm_ids b" using free by (simp add: mem_ibm_ids)
  have "card (insert k (ibm_ids b)) \<le> unat (entries b)"
    using card_ibm_ids_le [of "ibm_set_bit b k"] ids by (simp add: ibm_set_bit_def)
  with inv new have pos: "0 < unat (available b)" by (simp add: ibm_inv_def)
  then have avail: "unat (available b - 1) = unat (available b) - 1"
    by (simp add: unat_minus_one unat_gt_0)
  have taken: "\<not> ibm_taken (ibm_set_bit b k) q"
    if "unat (entries b) \<le> q" "q < 64 * length (bitmap b)" for q
    using that k inv ibm_inv_slot_bound [OF inv k] by (auto simp: ibm_taken_set_bit ibm_inv_def)
  show ?thesis
    using inv new pos taken
    by (simp add: ibm_inv_def ids) (simp add: ibm_set_bit_def avail)
qed

lemma ibm_inv_clear_bit [wf_intros]:
  assumes inv: "ibm_inv b" and k: "k < unat (entries b)" and taken: "ibm_taken b k"
  shows "ibm_inv (ibm_clear_bit b k)"
proof -
  have ids: "ibm_ids (ibm_clear_bit b k) = ibm_ids b - {k}"
    by (rule ibm_ids_clear_bit [OF inv k])
  have mem: "k \<in> ibm_ids b" using taken k by (simp add: mem_ibm_ids)
  then have card: "card (ibm_ids b) = Suc (card (ibm_ids b - {k}))"
    by (rule card.remove [OF finite_ibm_ids])
  with inv have "unat (available b) < unat (entries b)" by (simp add: ibm_inv_def)
  then have avail: "unat (available b + 1) = Suc (unat (available b))"
    by (intro unat_plus_1_less [of _ "entries b"]) (simp add: word_less_nat_alt)
  have free: "\<not> ibm_taken (ibm_clear_bit b k) q"
    if "unat (entries b) \<le> q" "q < 64 * length (bitmap b)" for q
    using that k inv ibm_inv_slot_bound [OF inv k] by (auto simp: ibm_taken_clear_bit ibm_inv_def)
  show ?thesis
    using inv card free
    by (simp add: ibm_inv_def ids) (simp add: ibm_clear_bit_def avail)
qed

section \<open>The loops of the allocation\<close>

lemma find_slot_least:
  assumes "unat i \<le> k" and "k < length bm" and "bm ! k \<noteq> NOT 0" and "k < 2 ^ 32"
    and "\<And>q. unat i \<le> q \<Longrightarrow> q < k \<Longrightarrow> bm ! q = NOT 0"
  shows "find_slot bm i = Some (of_nat k)"
  using assms
proof (induction bm i rule: find_slot.induct)
  case (1 bm i)
  show ?case
  proof (cases "unat i = k")
    case True
    with "1.prems" show ?thesis by (subst find_slot.simps) auto
  next
    case False
    with "1.prems" have lt: "unat i < k" by simp
    then have suc: "unat (i + 1) = Suc (unat i)"
      using "1.prems"(4) by (rule unat_plus_1_u32)
    have full: "bm ! unat i = NOT 0" using "1.prems"(5) [of "unat i"] lt by simp
    have ne: "i \<noteq> NOT 0" using suc by auto
    have "find_slot bm (i + 1) = Some (of_nat k)"
      using lt full ne suc "1.prems" by (intro "1.IH") auto
    with lt full ne "1.prems"(2) show ?thesis by (subst find_slot.simps) simp
  qed
qed

lemma find_bit_least:
  assumes "unat j \<le> p" and "p < 64" and "\<not> bit w p" and "n + int (p - unat j) < ents"
    and "\<And>q. unat j \<le> q \<Longrightarrow> q < p \<Longrightarrow> bit w q"
  shows "find_bit w ents j n = (of_nat p, n + int (p - unat j))"
  using assms
proof (induction w ents j n rule: find_bit.induct)
  case (1 w ents j n)
  show ?case
  proof (cases "unat j = p")
    case True
    with "1.prems" show ?thesis by (subst find_bit.simps) auto
  next
    case False
    with "1.prems" have lt: "unat j < p" by simp
    then have suc: "unat (j + 1) = Suc (unat j)"
      using "1.prems"(2) by (intro unat_plus_1_u32 [of j p]) auto
    have "n < ents" using "1.prems"(4) of_nat_0_le_iff [of "p - unat j"] by linarith
    with lt "1.prems"(2,5) have guard: "j < 64 \<and> n < ents \<and> w AND push_bit (unat j) 1 \<noteq> 0"
      by (auto simp: word_less_nat_alt)
    have "find_bit w ents (j + 1) (n + 1) = (of_nat p, (n + 1) + int (p - unat (j + 1)))"
      using lt suc "1.prems" by (intro "1.IH" [OF guard]) auto
    with guard lt suc show ?thesis by (subst find_bit.simps) simp
  qed
qed


section \<open>Functional correctness\<close>

lemma ibm_allocate_id_none:
  "available b = 0 \<Longrightarrow> ibm_allocate_id b = Some (- 1, b)"
  by (simp add: ibm_allocate_id_def)

text \<open>The least free identifier is the one the two loops find.\<close>

lemma ibm_slot_full:
  assumes "\<And>q. q < k \<Longrightarrow> ibm_taken b q" and "64 * m + 63 < k"
  shows "bitmap b ! m = NOT 0"
proof (rule bit_word_eqI)
  fix r :: nat
  assume r: "r < LENGTH(64)"
  then have "ibm_taken b (64 * m + r)" using assms by simp
  with r show "bit (bitmap b ! m) r = bit (NOT 0 :: u64) r" by (simp add: ibm_taken_def)
qed

lemma ibm_allocate_id_least:
  assumes inv: "ibm_inv b" and k: "k < unat (entries b)" and free: "\<not> ibm_taken b k"
    and least: "\<And>q. q < k \<Longrightarrow> ibm_taken b q" and avail: "available b > 0"
  shows "ibm_allocate_id b = Some (int k, ibm_set_bit b k)"
proof -
  have bound: "unat (entries b) < 2 ^ 31" using inv by (simp add: ibm_inv_def)
  have slot: "find_slot (bitmap b) 0 = Some (of_nat (k div 64))"
  proof (rule find_slot_least)
    show "k div 64 < length (bitmap b)" by (rule ibm_inv_slot_bound [OF inv k])
    have "\<not> bit (bitmap b ! (k div 64)) (k mod 64)" using free by (simp add: ibm_taken_def)
    then show "bitmap b ! (k div 64) \<noteq> NOT 0" by (auto simp: bit_not_iff)
    show "bitmap b ! q = NOT 0" if "q < k div 64" for q
      using that by (intro ibm_slot_full [OF least]) auto
  qed (use k bound in auto)
  have nat_i: "unat (of_nat (k div 64) :: u32) = k div 64"
    using k bound by (simp add: unat_of_nat_small)
  have "ucast (of_nat (k div 64) :: u32) * 64 = (of_nat (64 * (k div 64)) :: u64)"
    using k bound by (simp add: ucast_of_nat_small)
  moreover have "unat (of_nat (64 * (k div 64)) :: u64) = 64 * (k div 64)"
    using k bound by (intro unat_of_nat_small) simp
  ultimately have n0:
    "to_int32 (uint (ucast (of_nat (k div 64) :: u32) * 64 :: u64)) = int (64 * (k div 64))"
    using k bound by (subst to_int32_unat) simp_all
  have sum: "int (64 * (k div 64)) + int (k mod 64 - unat (0 :: u32)) = int k"
    by (metis diff_zero mult_div_mod_eq of_nat_add unsigned_0)
  have bit: "find_bit (bitmap b ! (k div 64)) (int (unat (entries b))) 0 (int (64 * (k div 64)))
             = (of_nat (k mod 64), int k)"
  proof -
    have "find_bit (bitmap b ! (k div 64)) (int (unat (entries b))) 0 (int (64 * (k div 64)))
          = (of_nat (k mod 64), int (64 * (k div 64)) + int (k mod 64 - unat (0 :: u32)))"
    proof (rule find_bit_least)
      show "bit (bitmap b ! (k div 64)) q" if "q < k mod 64" for q
        using least [of "64 * (k div 64) + q"] that mult_div_mod_eq [of 64 k]
        by (simp add: ibm_taken_def)
      show "int (64 * (k div 64)) + int (k mod 64 - unat (0 :: u32)) < int (unat (entries b))"
        using k by (simp only: sum of_nat_less_iff)
    qed (use free in \<open>auto simp: ibm_taken_def\<close>)
    then show ?thesis by (simp only: sum)
  qed
  have nat_j: "unat (of_nat (k mod 64) :: u32) = k mod 64"
    by (simp add: unat_of_nat_small)
  show ?thesis
    using avail k slot nat_i n0 bit nat_j
    by (simp add: ibm_allocate_id_def ibm_inv_entries [OF inv] identifier_bitmap_slotsize_def
        ibm_set_bit_def Let_def c_assert_def)
qed


lemma ibm_free_exists:
  assumes inv: "ibm_inv b" and avail: "available b > 0"
  shows "\<exists>k. k < unat (entries b) \<and> \<not> ibm_taken b k \<and> (\<forall>q<k. ibm_taken b q)"
proof -
  have "\<exists>k. k < unat (entries b) \<and> \<not> ibm_taken b k"
  proof (rule ccontr)
    assume "\<not> ?thesis"
    then have "ibm_ids b = {..<unat (entries b)}" by (auto simp: mem_ibm_ids)
    then have "unat (available b) = 0" using inv by (simp add: ibm_inv_def)
    with avail show False by (simp add: word_gt_0 unat_eq_zero)
  qed
  then obtain k0 where k0: "k0 < unat (entries b)" "\<not> ibm_taken b k0" by blast
  define k where "k = (LEAST k. \<not> ibm_taken b k)"
  have "\<not> ibm_taken b k" unfolding k_def using k0(2) by (rule LeastI)
  moreover have "k \<le> k0" unfolding k_def using k0(2) by (rule Least_le)
  moreover have "ibm_taken b q" if "q < k" for q
    using that unfolding k_def by (auto dest: not_less_Least)
  ultimately show ?thesis using k0(1) by (intro exI [of _ k]) auto
qed

lemma ibm_available_0_iff:
  assumes "ibm_inv b"
  shows "available b = 0 \<longleftrightarrow> ibm_ids b = {..<unat (entries b)}"
proof
  assume "available b = 0"
  with assms have "card (ibm_ids b) = card {..<unat (entries b)}" by (simp add: ibm_inv_def)
  moreover have "ibm_ids b \<subseteq> {..<unat (entries b)}" by (auto simp: mem_ibm_ids)
  ultimately show "ibm_ids b = {..<unat (entries b)}" by (simp add: card_subset_eq)
next
  assume "ibm_ids b = {..<unat (entries b)}"
  with assms show "available b = 0" by (simp add: ibm_inv_def unat_eq_0)
qed

lemma entries_set_bit [simp]: "entries (ibm_set_bit b k) = entries b"
  by (simp add: ibm_set_bit_def)

lemma entries_clear_bit [simp]: "entries (ibm_clear_bit b k) = entries b"
  by (simp add: ibm_clear_bit_def)

lemma ibm_allocate_specific_id_eq:
  assumes "ibm_inv b" and "0 \<le> n" and "n < int (unat (entries b))"
  shows "ibm_allocate_specific_id b n =
           Some (if ibm_taken b (nat n) then (- 1, b) else (n, ibm_set_bit b (nat n)))"
proof -
  have "nat n div 64 < length (bitmap b)"
    using assms by (intro ibm_inv_slot_bound) (auto simp: nat_less_iff)
  with assms show ?thesis
    by (simp add: ibm_allocate_specific_id_def ibm_inv_entries ibm_taken_def ibm_set_bit_def
        c_assert_def Let_def)
qed

lemma ibm_free_id_eq:
  assumes "ibm_inv b" and "0 \<le> n" and "n < int (unat (entries b))" and "ibm_taken b (nat n)"
  shows "ibm_free_id b n = Some (ibm_clear_bit b (nat n))"
proof -
  have "nat n div 64 < length (bitmap b)"
    using assms by (intro ibm_inv_slot_bound) (auto simp: nat_less_iff)
  with assms show ?thesis
    by (simp add: ibm_free_id_def ibm_inv_entries ibm_taken_def ibm_clear_bit_def c_assert_def Let_def)
qed

section \<open>The allocator contract\<close>

text \<open>
  What a client of an identifier allocator relies on: the live identifiers are a subset of
  \<open>{..<cap}\<close>, an allocation takes the least free one and fails only when all are live, a specific
  allocation fails only for a live one, and a live one can be freed.
\<close>

locale id_allocator =
  fixes invar :: "'b \<Rightarrow> bool"
    and ids :: "'b \<Rightarrow> nat set"
    and cap :: "'b \<Rightarrow> nat"
    and alloc :: "'b \<Rightarrow> (int \<times> 'b) option"
    and alloc_at :: "'b \<Rightarrow> int \<Rightarrow> (int \<times> 'b) option"
    and free :: "'b \<Rightarrow> int \<Rightarrow> 'b option"
  assumes ids_cap: "invar b \<Longrightarrow> ids b \<subseteq> {..<cap b}"
    and alloc_full: "invar b \<Longrightarrow> ids b = {..<cap b} \<Longrightarrow> alloc b = Some (- 1, b)"
    and alloc_least: "invar b \<Longrightarrow> ids b \<noteq> {..<cap b} \<Longrightarrow>
       \<exists>k b'. alloc b = Some (int k, b') \<and> k < cap b \<and> k \<notin> ids b \<and> {..<k} \<subseteq> ids b \<and>
              ids b' = insert k (ids b) \<and> cap b' = cap b \<and> invar b'"
    and alloc_at_taken: "invar b \<Longrightarrow> k \<in> ids b \<Longrightarrow> alloc_at b (int k) = Some (- 1, b)"
    and alloc_at_free: "invar b \<Longrightarrow> k < cap b \<Longrightarrow> k \<notin> ids b \<Longrightarrow>
       \<exists>b'. alloc_at b (int k) = Some (int k, b') \<and> ids b' = insert k (ids b) \<and>
            cap b' = cap b \<and> invar b'"
    and free_live: "invar b \<Longrightarrow> k \<in> ids b \<Longrightarrow>
       \<exists>b'. free b (int k) = Some b' \<and> ids b' = ids b - {k} \<and> cap b' = cap b \<and> invar b'"
begin

text \<open>A run of allocations: the identifiers handed out, in order.\<close>

fun alloc_n :: "nat \<Rightarrow> 'b \<Rightarrow> (int list \<times> 'b) option" where
  "alloc_n 0 b = Some ([], b)"
| "alloc_n (Suc n) b = do { (i, b') \<leftarrow> alloc b; (is, b'') \<leftarrow> alloc_n n b'; Some (i # is, b'') }"

lemma finite_ids: "invar b \<Longrightarrow> finite (ids b)"
  using ids_cap finite_subset by blast

lemma alloc_n_distinct:
  assumes "invar b" and "n + card (ids b) \<le> cap b"
  shows "\<exists>ks b'. alloc_n n b = Some (map int ks, b') \<and> length ks = n \<and> distinct ks \<and>
           set ks \<inter> ids b = {} \<and> ids b' = set ks \<union> ids b \<and> cap b' = cap b \<and> invar b'"
  using assms
proof (induction n arbitrary: b)
  case 0
  then show ?case by (intro exI [of _ "[]"] exI [of _ b]) simp
next
  case (Suc n)
  have "card (ids b) < cap b" using Suc.prems(2) by simp
  then have "ids b \<noteq> {..<cap b}" by (metis card_lessThan less_irrefl_nat)
  then obtain k b1 where s: "alloc b = Some (int k, b1)" "k \<notin> ids b" "ids b1 = insert k (ids b)"
      "cap b1 = cap b" "invar b1"
    using alloc_least [OF Suc.prems(1)] by blast
  have "n + card (ids b1) \<le> cap b1"
    using Suc.prems s finite_ids [OF Suc.prems(1)] by simp
  from Suc.IH [OF s(5) this] obtain ks b2 where r: "alloc_n n b1 = Some (map int ks, b2)"
      "length ks = n" "distinct ks" "set ks \<inter> ids b1 = {}" "ids b2 = set ks \<union> ids b1"
      "cap b2 = cap b1" "invar b2"
    by blast
  show ?case
    by (rule exI [of _ "k # ks"], rule exI [of _ b2]) (use s r in auto)
qed

lemma free_then_alloc_at:
  assumes "invar b" and "k \<in> ids b"
  shows "\<exists>b1 b2. free b (int k) = Some b1 \<and> alloc_at b1 (int k) = Some (int k, b2) \<and> ids b2 = ids b"
proof -
  from free_live [OF assms] obtain b1 where b1: "free b (int k) = Some b1" "ids b1 = ids b - {k}"
      "cap b1 = cap b" "invar b1" by blast
  have "k < cap b1" "k \<notin> ids b1" using ids_cap [OF assms(1)] assms(2) b1 by auto
  from alloc_at_free [OF b1(4) this] obtain b2 where
      "alloc_at b1 (int k) = Some (int k, b2)" "ids b2 = insert k (ids b1)" by blast
  with b1 assms(2) show ?thesis by auto
qed

end

interpretation ibm: id_allocator ibm_inv ibm_ids "\<lambda>b. unat (entries b)"
  ibm_allocate_id ibm_allocate_specific_id ibm_free_id
proof (unfold_locales, goal_cases)
  case (1 b)
  then show ?case by (auto simp: mem_ibm_ids)
next
  case (2 b)
  then show ?case by (intro ibm_allocate_id_none) (simp add: ibm_available_0_iff)
next
  case (3 b)
  then have avail: "available b > 0" by (simp add: ibm_available_0_iff word_gt_0)
  from ibm_free_exists [OF 3(1) this] obtain k where k: "k < unat (entries b)" "\<not> ibm_taken b k"
      "\<forall>q<k. ibm_taken b q" by blast
  with ibm_allocate_id_least [OF 3(1) k(1,2) _ avail] show ?case
    by (intro exI [of _ k] exI [of _ "ibm_set_bit b k"])
      (auto simp: mem_ibm_ids ibm_ids_set_bit [OF 3(1)] intro: ibm_inv_set_bit 3(1))
next
  case (4 b k)
  then show ?case by (simp add: ibm_allocate_specific_id_eq mem_ibm_ids)
next
  case (5 b k)
  then show ?case
    by (auto simp: ibm_allocate_specific_id_eq mem_ibm_ids ibm_ids_set_bit intro: ibm_inv_set_bit)
next
  case (6 b k)
  then show ?case
    by (auto simp: ibm_free_id_eq mem_ibm_ids ibm_ids_clear_bit intro: ibm_inv_clear_bit)
qed


section \<open>Properties\<close>

lemma ibm_new_slots:
  assumes "unat ents < 2 ^ 31"
  shows "unat ((ents + (64 - ents mod 64)) div 64 :: u64) = unat ents div 64 + 1"
proof -
  have m: "unat (ents mod 64) = unat ents mod 64" by (simp add: unat_mod)
  have "unat (64 - ents mod 64 :: u64) = 64 - unat ents mod 64"
    using m by (subst unat_sub) (simp_all add: word_le_nat_alt)
  moreover have "unat ents + (64 - unat ents mod 64) < 2 ^ 64" using assms by simp
  ultimately have "unat (ents + (64 - ents mod 64)) = unat ents + (64 - unat ents mod 64)"
    by (simp add: unat_word_ariths)
  also have "\<dots> = 64 * (unat ents div 64 + 1)"
    by presburger
  finally show ?thesis by (simp add: unat_div)
qed

text \<open>The bitmap \<open>ibm_new\<close> returns.\<close>

definition ibm_fresh :: "u64 \<Rightarrow> identifier_bitmap" where
  "ibm_fresh ents = \<lparr>entries = ents, available = ents,
     slots = (ents + (64 - ents mod 64)) div 64,
     bitmap = replicate (unat ((ents + (64 - ents mod 64)) div 64) + 1) 0\<rparr>"

lemma ibm_new_fresh: "ibm_new True ents = Some (ibm_fresh ents)"
  by (simp add: ibm_new_def ibm_fresh_def identifier_bitmap_slotsize_def Let_def)

lemma entries_fresh [simp]: "entries (ibm_fresh ents) = ents"
  by (simp add: ibm_fresh_def)

lemma available_fresh [simp]: "available (ibm_fresh ents) = ents"
  by (simp add: ibm_fresh_def)

lemma length_fresh: "unat ents < 2 ^ 31 \<Longrightarrow> length (bitmap (ibm_fresh ents)) = unat ents div 64 + 2"
  by (simp add: ibm_fresh_def ibm_new_slots)

lemma ibm_taken_fresh:
  "unat ents < 2 ^ 31 \<Longrightarrow> k < 64 * length (bitmap (ibm_fresh ents)) \<Longrightarrow> \<not> ibm_taken (ibm_fresh ents) k"
proof -
  assume "k < 64 * length (bitmap (ibm_fresh ents))"
  then have "k div 64 < length (bitmap (ibm_fresh ents))" by simp
  then have "bitmap (ibm_fresh ents) ! (k div 64) = 0"
    by (simp add: ibm_fresh_def del: replicate_Suc)
  then show ?thesis by (simp add: ibm_taken_def)
qed

lemma ibm_ids_fresh: "unat ents < 2 ^ 31 \<Longrightarrow> ibm_ids (ibm_fresh ents) = {}"
  using ibm_taken_fresh [of ents] by (auto simp: mem_ibm_ids length_fresh)

lemma ibm_inv_fresh: "unat ents < 2 ^ 31 \<Longrightarrow> ibm_inv (ibm_fresh ents)"
  unfolding ibm_inv_def using ibm_taken_fresh [of ents] ibm_new_slots [of ents]
  by (simp add: ibm_ids_fresh length_fresh) (simp add: ibm_fresh_def)

text \<open>A bitmap made by \<open>ibm_new\<close> for fewer than \<open>2^31\<close> entries satisfies the invariant,
  has no identifier allocated and all of them available.\<close>

theorem ibm_new_correct:
  assumes "unat ents < 2 ^ 31"
  shows "\<exists>b. ibm_new True ents = Some b \<and> ibm_inv b \<and> ibm_ids b = {} \<and>
             entries b = ents \<and> available b = ents"
  using assms by (simp add: ibm_new_fresh ibm_inv_fresh ibm_ids_fresh)

theorem ibm_new_correct_witness:
  "\<exists>b. ibm_new True 1024 = Some b \<and> ibm_inv b \<and> ibm_ids b = {} \<and> entries b = 1024 \<and> available b = 1024"
  by (rule ibm_new_correct) simp

text \<open>C20. While identifiers are available, \<open>ibm_allocate_id\<close> finishes both loops inside the
  bitmap, its assertion holds, and it returns the least free identifier, adds exactly that one to
  the allocated set and keeps the invariant.\<close>

theorem ibm_allocate_id_correct:
  assumes "ibm_inv b" and "available b > 0"
  shows "\<exists>k b'. ibm_allocate_id b = Some (int k, b') \<and> k < unat (entries b) \<and> k \<notin> ibm_ids b \<and>
           {..<k} \<subseteq> ibm_ids b \<and> ibm_ids b' = insert k (ibm_ids b) \<and>
           entries b' = entries b \<and> available b' = available b - 1 \<and> ibm_inv b'"
proof -
  from ibm_free_exists [OF assms] obtain k where k: "k < unat (entries b)" "\<not> ibm_taken b k"
      "\<forall>q<k. ibm_taken b q" by blast
  with ibm_allocate_id_least [OF assms(1) k(1,2) _ assms(2)] show ?thesis
    by (intro exI [of _ k] exI [of _ "ibm_set_bit b k"])
      (auto simp: mem_ibm_ids ibm_ids_set_bit [OF assms(1)] intro: ibm_inv_set_bit assms(1),
       simp add: ibm_set_bit_def)
qed

theorem ibm_allocate_id_correct_witness:
  "\<exists>k b'. ibm_allocate_id (ibm_fresh 1024) = Some (int k, b') \<and> k < 1024 \<and>
     ibm_ids b' = {k} \<and> available b' = 1023 \<and> ibm_inv b'"
proof -
  have "ibm_inv (ibm_fresh 1024)" by (rule ibm_inv_fresh) simp
  from ibm_allocate_id_correct [OF this] show ?thesis by (auto simp: ibm_ids_fresh)
qed

text \<open>C21. Freeing an allocated identifier succeeds, removes exactly that identifier, keeps the
  invariant, and the same identifier can be allocated again, which restores the allocated set.\<close>

theorem ibm_free_id_roundtrip:
  assumes "ibm_inv b" and "k \<in> ibm_ids b"
  shows "\<exists>b1 b2. ibm_free_id b (int k) = Some b1 \<and> ibm_ids b1 = ibm_ids b - {k} \<and> ibm_inv b1 \<and>
           ibm_allocate_specific_id b1 (int k) = Some (int k, b2) \<and> ibm_ids b2 = ibm_ids b"
  using ibm.free_live [OF assms] ibm.free_then_alloc_at [OF assms] by auto

theorem ibm_free_id_roundtrip_witness:
  "\<exists>b1 b2. ibm_free_id (ibm_set_bit (ibm_fresh 1024) 7) 7 = Some b1 \<and> ibm_ids b1 = {} \<and>
     ibm_allocate_specific_id b1 7 = Some (7, b2) \<and> ibm_ids b2 = {7}"
proof -
  let ?f = "ibm_fresh 1024" and ?b = "ibm_set_bit (ibm_fresh 1024) 7"
  have f: "ibm_inv ?f" by (rule ibm_inv_fresh) simp
  have "\<not> ibm_taken ?f 7" by (rule ibm_taken_fresh) (simp_all add: length_fresh)
  with f have b: "ibm_inv ?b" by (intro ibm_inv_set_bit) simp_all
  have ids: "ibm_ids ?b = {7}" using ibm_ids_set_bit [OF f, of 7] by (simp add: ibm_ids_fresh)
  then have "7 \<in> ibm_ids ?b" by simp
  from ibm_free_id_roundtrip [OF b this] ids show ?thesis by auto
qed

end
