(* ===== verification/Notification_Queue.thy ===== *)
theory Notification_Queue
  imports Prelude
begin

text \<open>
  The notification queue of \<open>socketapi/notificationqueue.c\<close>: two singly linked lists of heap nodes
  (pre-read and post-read) with head and last pointers, and an event mask. The heap is an explicit
  store of nodes, because the operations share and overwrite \<open>nqn_next\<close> pointers. The pointer
  operations are proved to implement two independent FIFO queues (locale \<open>fifo\<close>).
\<close>

section \<open>Nodes, heap and queue\<close>

type_synonym addr = nat

text \<open>A pointer; \<^const>\<open>None\<close> is \<open>NULL\<close>.\<close>

type_synonym nptr = "addr option"

text \<open>\<open>struct notification_queue_node\<close> with the header fields of \<open>union neat_notification\<close>.\<close>

record notification_queue_node =
  nqn_next :: nptr
  nnh_type :: u16
  nnh_flags :: u16
  nnh_length :: u32

type_synonym nheap = "addr \<rightharpoonup> notification_queue_node"

text \<open>\<open>struct notification_queue\<close>.\<close>

record notification_queue =
  nq_pre_read_queue :: nptr
  nq_pre_read_last :: nptr
  nq_post_read_queue :: nptr
  nq_post_read_last :: nptr
  nq_event_mask :: u32

section \<open>Operations\<close>

text \<open>A write through a pointer; a dangling pointer is undefined behaviour.\<close>

definition node_update :: "nheap \<Rightarrow> addr \<Rightarrow> (notification_queue_node \<Rightarrow> notification_queue_node) \<Rightarrow> nheap option" where
  "node_update h a f = (case h a of None \<Rightarrow> None | Some n \<Rightarrow> Some (h(a \<mapsto> f n)))"

definition nqn_new :: "nheap \<Rightarrow> addr \<Rightarrow> nheap option" where
  "nqn_new h a = node_update h a (\<lambda>n. n\<lparr>nqn_next := None\<rparr>)"

definition nqn_delete :: "nheap \<Rightarrow> addr \<Rightarrow> nheap option" where
  "nqn_delete h a = do {
     h1 \<leftarrow> node_update h a (\<lambda>n. n\<lparr>nqn_next := None\<rparr>);
     Some (h1(a := None))
   }"

definition nq_new :: "notification_queue" where
  "nq_new = \<lparr>nq_pre_read_queue = None, nq_pre_read_last = None,
             nq_post_read_queue = None, nq_post_read_last = None, nq_event_mask = 0\<rparr>"

text \<open>One of the two loops of \<open>nq_clear\<close>: free the nodes from the head on.\<close>

partial_function (option) nq_free_list :: "nheap \<Rightarrow> nptr \<Rightarrow> nheap option" where
  "nq_free_list h p =
     (case p of
        None \<Rightarrow> Some h
      | Some a \<Rightarrow> (case h a of
          None \<Rightarrow> None
        | Some n \<Rightarrow> nq_free_list (h(a := None)) (nqn_next n)))"

declare nq_free_list.simps [code]

definition nq_clear :: "nheap \<Rightarrow> notification_queue \<Rightarrow> (nheap \<times> notification_queue) option" where
  "nq_clear h q = do {
     h1 \<leftarrow> nq_free_list h (nq_pre_read_queue q);
     let q1 = q\<lparr>nq_pre_read_queue := None, nq_pre_read_last := None\<rparr>;
     h2 \<leftarrow> nq_free_list h1 (nq_post_read_queue q1);
     Some (h2, q1\<lparr>nq_post_read_queue := None, nq_post_read_last := None\<rparr>)
   }"

definition nq_delete :: "nheap \<Rightarrow> notification_queue \<Rightarrow> (nheap \<times> notification_queue) option" where
  "nq_delete h q = nq_clear h q"

definition nq_has_data :: "notification_queue \<Rightarrow> bool" where
  "nq_has_data q \<longleftrightarrow> nq_pre_read_queue q \<noteq> None \<or> nq_post_read_queue q \<noteq> None"

text \<open>
  \<open>nq_enqueue\<close>. \<open>new\<close> is what \<open>malloc\<close> returns, \<open>sz\<close> is \<open>sizeof(nqn_content)\<close>. The shift
  \<open>1 << type\<close> of an \<open>int\<close> is undefined for \<open>type\<close> of 31 and more.
\<close>

definition nq_enqueue ::
  "u32 \<Rightarrow> nptr \<Rightarrow> nheap \<Rightarrow> notification_queue \<Rightarrow> bool \<Rightarrow> u16 \<Rightarrow>
   (nptr \<times> nheap \<times> notification_queue) option" where
  "nq_enqueue sz new h q isPreRead ty = do {
     c_assert (unat ty < 31);
     if push_bit (unat ty) 1 AND nq_event_mask q \<noteq> 0
     then (case new of
        None \<Rightarrow> Some (None, h, q)
      | Some a \<Rightarrow> do {
          let h0 = h(a \<mapsto> \<lparr>nqn_next = None, nnh_type = 0, nnh_flags = 0, nnh_length = 0\<rparr>);
          h1 \<leftarrow> nqn_new h0 a;
          h2 \<leftarrow> node_update h1 a (\<lambda>n. n\<lparr>nnh_type := ty, nnh_flags := 0, nnh_length := sz\<rparr>);
          if isPreRead
          then (case nq_pre_read_last q of
                  Some l \<Rightarrow> do {
                    h3 \<leftarrow> node_update h2 l (\<lambda>n. n\<lparr>nqn_next := Some a\<rparr>);
                    Some (Some a, h3, q\<lparr>nq_pre_read_last := Some a\<rparr>) }
                | None \<Rightarrow> Some (Some a, h2, q\<lparr>nq_pre_read_queue := Some a, nq_pre_read_last := Some a\<rparr>))
          else (case nq_post_read_last q of
                  Some l \<Rightarrow> do {
                    h3 \<leftarrow> node_update h2 l (\<lambda>n. n\<lparr>nqn_next := Some a\<rparr>);
                    Some (Some a, h3, q\<lparr>nq_post_read_last := Some a\<rparr>) }
                | None \<Rightarrow> Some (Some a, h2, q\<lparr>nq_post_read_queue := Some a, nq_post_read_last := Some a\<rparr>))
        })
     else Some (None, h, q)
   }"

text \<open>\<open>nq_dequeue\<close>: unlink the head of one list; the caller frees the node.\<close>

definition nq_dequeue ::
  "nheap \<Rightarrow> notification_queue \<Rightarrow> bool \<Rightarrow> (nptr \<times> notification_queue) option" where
  "nq_dequeue h q fromPreRead =
     (if fromPreRead
      then do {
        let node = nq_pre_read_queue q;
        q1 \<leftarrow> (case node of
                 None \<Rightarrow> Some q
               | Some a \<Rightarrow> do { n \<leftarrow> h a; Some (q\<lparr>nq_pre_read_queue := nqn_next n\<rparr>) });
        Some (node, if node = nq_pre_read_last q1 then q1\<lparr>nq_pre_read_last := None\<rparr> else q1) }
      else do {
        let node = nq_post_read_queue q;
        q1 \<leftarrow> (case node of
                 None \<Rightarrow> Some q
               | Some a \<Rightarrow> do { n \<leftarrow> h a; Some (q\<lparr>nq_post_read_queue := nqn_next n\<rparr>) });
        Some (node, if node = nq_post_read_last q1 then q1\<lparr>nq_post_read_last := None\<rparr> else q1) })"

section \<open>Linked lists in the heap\<close>

text \<open>The nodes from a pointer to \<open>NULL\<close>, in order.\<close>

fun linked :: "nheap \<Rightarrow> nptr \<Rightarrow> addr list \<Rightarrow> bool" where
  "linked h p [] \<longleftrightarrow> p = None"
| "linked h p (a # as) \<longleftrightarrow> p = Some a \<and> (\<exists>n. h a = Some n \<and> linked h (nqn_next n) as)"

definition last_ptr :: "addr list \<Rightarrow> nptr" where
  "last_ptr as = (if as = [] then None else Some (last as))"

text \<open>The representation of a queue by the two lists of its nodes.\<close>

definition nq_repr :: "nheap \<Rightarrow> notification_queue \<Rightarrow> addr list \<Rightarrow> addr list \<Rightarrow> bool" where
  "nq_repr h q pre post \<longleftrightarrow>
     linked h (nq_pre_read_queue q) pre \<and> nq_pre_read_last q = last_ptr pre \<and>
     linked h (nq_post_read_queue q) post \<and> nq_post_read_last q = last_ptr post \<and>
     distinct (pre @ post)"

lemma last_ptr_simps [queue_simps]:
  "last_ptr [] = None" "last_ptr (as @ [a]) = Some a"
  "last_ptr (a # as) = Some (if as = [] then a else last as)"
  by (simp_all add: last_ptr_def)

lemma linked_frame: "a \<notin> set as \<Longrightarrow> linked (h(a := v)) p as = linked h p as"
  by (induction as arbitrary: p) auto

lemma linked_append_node:
  assumes "linked h p as" and "as \<noteq> []" and "distinct as" and "a \<notin> set as"
    and "h (last as) = Some l" and "h a = Some n" and "nqn_next n = None"
  shows "linked (h(last as \<mapsto> l\<lparr>nqn_next := Some a\<rparr>)) p (as @ [a])"
  using assms
proof (induction as arbitrary: p)
  case (Cons b as)
  show ?case
  proof (cases "as = []")
    case True
    with Cons.prems show ?thesis by auto
  next
    case False
    with Cons.prems have ne: "b \<noteq> last as" by auto
    from Cons.prems obtain m where m: "p = Some b" "h b = Some m" "linked h (nqn_next m) as" by auto
    have "linked (h(last as \<mapsto> l\<lparr>nqn_next := Some a\<rparr>)) (nqn_next m) (as @ [a])"
      by (rule Cons.IH) (use Cons.prems False m in auto)
    moreover have "last (b # as) = last as" using False by simp
    moreover have "(h(last as \<mapsto> l\<lparr>nqn_next := Some a\<rparr>)) b = Some m" using m ne by simp
    ultimately show ?thesis using m by (simp only: append_Cons linked.simps) blast
  qed
qed simp

lemma linked_last: "linked h p as \<Longrightarrow> as \<noteq> [] \<Longrightarrow> \<exists>n. h (last as) = Some n"
  by (induction as arbitrary: p) (auto split: if_splits)

lemma linked_dom: "linked h p as \<Longrightarrow> set as \<subseteq> dom h"
  by (induction as arbitrary: p) auto

lemma linked_same_ends: "linked h p as \<Longrightarrow> (p = None) = (as = [])"
  by (cases as) auto

text \<open>Freeing a list terminates and removes exactly its nodes.\<close>

lemma nq_free_list_correct:
  "linked h p as \<Longrightarrow> distinct as \<Longrightarrow> nq_free_list h p = Some (h |` (- set as))"
proof (induction as arbitrary: h p)
  case Nil
  then show ?case by (simp add: nq_free_list.simps)
next
  case (Cons a as)
  then obtain n where n: "p = Some a" "h a = Some n" "linked h (nqn_next n) as" by auto
  with Cons.prems have "linked (h(a := None)) (nqn_next n) as" by (simp add: linked_frame)
  then have "nq_free_list (h(a := None)) (nqn_next n) = Some ((h(a := None)) |` (- set as))"
    by (rule Cons.IH) (use Cons.prems in simp)
  moreover have "(h(a := None)) |` (- set as) = h |` (- set (a # as))"
    by (auto simp: restrict_map_def fun_eq_iff)
  ultimately show ?case using n by (simp add: nq_free_list.simps)
qed


section \<open>The operations on the representation\<close>

lemma nq_repr_new: "nq_repr h nq_new [] []"
  by (simp add: nq_repr_def nq_new_def last_ptr_def)

lemma nq_repr_dom: "nq_repr h q pre post \<Longrightarrow> set (pre @ post) \<subseteq> dom h"
  by (auto simp: nq_repr_def dest: linked_dom)

text \<open>The node \<open>nq_enqueue\<close> initialises.\<close>

definition nq_node :: "u32 \<Rightarrow> u16 \<Rightarrow> notification_queue_node" where
  "nq_node sz ty = \<lparr>nqn_next = None, nnh_type = ty, nnh_flags = 0, nnh_length = sz\<rparr>"

lemma nq_enqueue_unmasked:
  assumes "unat ty < 31" and "\<not> bit (nq_event_mask q) (unat ty)"
  shows "nq_enqueue sz new h q isPre ty = Some (None, h, q)"
  using assms by (simp add: nq_enqueue_def and.commute [of "2 ^ _"])

lemma nq_enqueue_pre:
  assumes r: "nq_repr h q pre post" and a: "a \<notin> dom h"
    and ty: "unat ty < 31" "bit (nq_event_mask q) (unat ty)"
  shows "\<exists>h' q'. nq_enqueue sz (Some a) h q True ty = Some (Some a, h', q') \<and>
           nq_repr h' q' (pre @ [a]) post \<and> nq_event_mask q' = nq_event_mask q \<and>
           dom h' = insert a (dom h) \<and> map_option nnh_type (h' a) = Some ty"
proof -
  let ?h = "h(a \<mapsto> nq_node sz ty)"
  have fresh: "a \<notin> set pre" "a \<notin> set post" using nq_repr_dom [OF r] a by auto
  show ?thesis
  proof (cases "pre = []")
    case True
    with r ty fresh show ?thesis
      by (auto simp: nq_enqueue_def nq_repr_def node_update_def nqn_new_def nq_node_def last_ptr_def
          linked_frame and.commute [of "2 ^ _"])
  next
    case False
    from r have lp: "linked h (nq_pre_read_queue q) pre" "distinct pre" by (simp_all add: nq_repr_def)
    from linked_last [OF lp(1) False] obtain l where l: "h (last pre) = Some l" by blast
    have ne: "last pre \<noteq> a" using fresh False by auto
    let ?h' = "?h(last pre \<mapsto> l\<lparr>nqn_next := Some a\<rparr>)"
    have "linked ?h' (nq_pre_read_queue q) (pre @ [a])"
      using lp False fresh l ne by (intro linked_append_node) (auto simp: linked_frame nq_node_def)
    moreover have "last pre \<notin> set post" using r last_in_set [OF False] by (auto simp: nq_repr_def)
    then have "linked ?h' (nq_post_read_queue q) post"
      using r fresh by (simp add: nq_repr_def linked_frame)
    ultimately have "nq_repr ?h' (q\<lparr>nq_pre_read_last := Some a\<rparr>) (pre @ [a]) post"
      using r fresh by (auto simp: nq_repr_def last_ptr_def)
    moreover have "nq_enqueue sz (Some a) h q True ty = Some (Some a, ?h', q\<lparr>nq_pre_read_last := Some a\<rparr>)"
      using r ty l ne False
      by (simp add: nq_enqueue_def nq_repr_def node_update_def nqn_new_def nq_node_def last_ptr_def
          and.commute [of "2 ^ _"])
    ultimately show ?thesis using ne l by (auto simp: nq_node_def)
  qed
qed

lemma nq_enqueue_post:
  assumes r: "nq_repr h q pre post" and a: "a \<notin> dom h"
    and ty: "unat ty < 31" "bit (nq_event_mask q) (unat ty)"
  shows "\<exists>h' q'. nq_enqueue sz (Some a) h q False ty = Some (Some a, h', q') \<and>
           nq_repr h' q' pre (post @ [a]) \<and> nq_event_mask q' = nq_event_mask q \<and>
           dom h' = insert a (dom h) \<and> map_option nnh_type (h' a) = Some ty"
proof -
  let ?h = "h(a \<mapsto> nq_node sz ty)"
  have fresh: "a \<notin> set pre" "a \<notin> set post" using nq_repr_dom [OF r] a by auto
  show ?thesis
  proof (cases "post = []")
    case True
    with r ty fresh show ?thesis
      by (auto simp: nq_enqueue_def nq_repr_def node_update_def nqn_new_def nq_node_def last_ptr_def
          linked_frame and.commute [of "2 ^ _"])
  next
    case False
    from r have lp: "linked h (nq_post_read_queue q) post" "distinct post" by (simp_all add: nq_repr_def)
    from linked_last [OF lp(1) False] obtain l where l: "h (last post) = Some l" by blast
    have ne: "last post \<noteq> a" using fresh False by auto
    let ?h' = "?h(last post \<mapsto> l\<lparr>nqn_next := Some a\<rparr>)"
    have "linked ?h' (nq_post_read_queue q) (post @ [a])"
      using lp False fresh l ne by (intro linked_append_node) (auto simp: linked_frame nq_node_def)
    moreover have "last post \<notin> set pre" using r last_in_set [OF False] by (auto simp: nq_repr_def)
    then have "linked ?h' (nq_pre_read_queue q) pre"
      using r fresh by (simp add: nq_repr_def linked_frame)
    ultimately have "nq_repr ?h' (q\<lparr>nq_post_read_last := Some a\<rparr>) pre (post @ [a])"
      using r fresh by (auto simp: nq_repr_def last_ptr_def)
    moreover have "nq_enqueue sz (Some a) h q False ty = Some (Some a, ?h', q\<lparr>nq_post_read_last := Some a\<rparr>)"
      using r ty l ne False
      by (simp add: nq_enqueue_def nq_repr_def node_update_def nqn_new_def nq_node_def last_ptr_def
          and.commute [of "2 ^ _"])
    ultimately show ?thesis using ne l by (auto simp: nq_node_def)
  qed
qed

lemma nq_dequeue_empty:
  assumes "nq_repr h q pre post" and "(if isPre then pre else post) = []"
  shows "nq_dequeue h q isPre = Some (None, q)"
  using assms by (cases isPre) (auto simp: nq_repr_def nq_dequeue_def last_ptr_def)

lemma nq_dequeue_pre:
  assumes "nq_repr h q (a # pre) post"
  shows "\<exists>q'. nq_dequeue h q True = Some (Some a, q') \<and> nq_repr h q' pre post \<and>
              nq_event_mask q' = nq_event_mask q"
  using assms by (cases "pre = []") (auto simp: nq_repr_def nq_dequeue_def last_ptr_def)

lemma nq_dequeue_post:
  assumes "nq_repr h q pre (a # post)"
  shows "\<exists>q'. nq_dequeue h q False = Some (Some a, q') \<and> nq_repr h q' pre post \<and>
              nq_event_mask q' = nq_event_mask q"
  using assms by (cases "post = []") (auto simp: nq_repr_def nq_dequeue_def last_ptr_def)

lemma linked_restrict: "linked h p as \<Longrightarrow> set as \<inter> A = {} \<Longrightarrow> linked (h |` (- A)) p as"
  by (induction as arbitrary: p) auto

lemma nq_clear_repr:
  assumes "nq_repr h q pre post"
  shows "nq_clear h q = Some (h |` (- set (pre @ post)), nq_new\<lparr>nq_event_mask := nq_event_mask q\<rparr>)"
proof -
  from assms have l: "linked h (nq_pre_read_queue q) pre" "linked h (nq_post_read_queue q) post"
      "distinct pre" "distinct post" "set post \<inter> set pre = {}"
    by (auto simp: nq_repr_def)
  have "linked (h |` (- set pre)) (nq_post_read_queue q) post"
    by (rule linked_restrict) (use l in auto)
  then have "nq_free_list (h |` (- set pre)) (nq_post_read_queue q) = Some (h |` (- set pre) |` (- set post))"
    using l by (intro nq_free_list_correct) auto
  then show ?thesis
    using nq_free_list_correct [OF l(1,3)]
    by (simp add: nq_clear_def nq_new_def restrict_restrict Int_commute)
qed


section \<open>Two first-in-first-out queues\<close>

text \<open>
  The contract of one queue, for a client that only enqueues fresh nodes and dequeues:
  \<open>repr s xs\<close> says that the state holds the elements \<open>xs\<close>, \<open>live\<close> are the names in use.
\<close>

locale fifo =
  fixes repr :: "'s \<Rightarrow> 'a list \<Rightarrow> bool"
    and live :: "'s \<Rightarrow> 'a set"
    and enq :: "'a \<Rightarrow> 's \<Rightarrow> 's option"
    and deq :: "'s \<Rightarrow> ('a option \<times> 's) option"
  assumes enq: "repr s xs \<Longrightarrow> a \<notin> live s \<Longrightarrow>
       \<exists>s'. enq a s = Some s' \<and> repr s' (xs @ [a]) \<and> live s' = insert a (live s)"
    and deq_Nil: "repr s [] \<Longrightarrow> deq s = Some (None, s)"
    and deq_Cons: "repr s (a # xs) \<Longrightarrow> \<exists>s'. deq s = Some (Some a, s') \<and> repr s' xs"
begin

fun enq_list :: "'a list \<Rightarrow> 's \<Rightarrow> 's option" where
  "enq_list [] s = Some s"
| "enq_list (a # as) s = do { s' \<leftarrow> enq a s; enq_list as s' }"

fun deq_n :: "nat \<Rightarrow> 's \<Rightarrow> ('a option list \<times> 's) option" where
  "deq_n 0 s = Some ([], s)"
| "deq_n (Suc n) s = do { (x, s') \<leftarrow> deq s; (xs, s'') \<leftarrow> deq_n n s'; Some (x # xs, s'') }"

lemma enq_list_repr:
  "repr s xs \<Longrightarrow> distinct as \<Longrightarrow> set as \<inter> live s = {} \<Longrightarrow>
   \<exists>s'. enq_list as s = Some s' \<and> repr s' (xs @ as)"
proof (induction as arbitrary: s xs)
  case (Cons a as)
  from enq [OF Cons.prems(1), of a] Cons.prems(3) obtain s1 where
      s1: "enq a s = Some s1" "repr s1 (xs @ [a])" "live s1 = insert a (live s)" by auto
  have "set as \<inter> live s1 = {}" using Cons.prems s1(3) by auto
  from Cons.IH [OF s1(2) _ this] Cons.prems(2) s1(1) show ?case by auto
qed simp

lemma deq_n_repr:
  "repr s (xs @ ys) \<Longrightarrow> \<exists>s'. deq_n (length xs) s = Some (map Some xs, s') \<and> repr s' ys"
proof (induction xs arbitrary: s)
  case (Cons a xs)
  from deq_Cons [of s a "xs @ ys"] Cons.prems obtain s1 where
      "deq s = Some (Some a, s1)" "repr s1 (xs @ ys)" by auto
  with Cons.IH [of s1] show ?case by auto
qed simp

lemma fifo_order:
  assumes "repr s xs" and "distinct as" and "set as \<inter> live s = {}"
  shows "\<exists>s1 s2. enq_list as s = Some s1 \<and>
           deq_n (length (xs @ as)) s1 = Some (map Some (xs @ as), s2) \<and> deq s2 = Some (None, s2)"
proof -
  from enq_list_repr [OF assms] obtain s1 where s1: "enq_list as s = Some s1" "repr s1 (xs @ as)"
    by blast
  with deq_n_repr [of s1 "xs @ as" "[]"] obtain s2 where
      "deq_n (length (xs @ as)) s1 = Some (map Some (xs @ as), s2)" "repr s2 []" by auto
  with s1 deq_Nil show ?thesis by blast
qed

end

text \<open>Enqueueing and dequeueing on the heap, with the node address as the element.\<close>

definition nq_enq :: "u32 \<Rightarrow> bool \<Rightarrow> u16 \<Rightarrow> addr \<Rightarrow> nheap \<times> notification_queue \<Rightarrow> (nheap \<times> notification_queue) option" where
  "nq_enq sz isPre ty a s =
     (case nq_enqueue sz (Some a) (fst s) (snd s) isPre ty of
        Some (Some _, s') \<Rightarrow> Some s'
      | _ \<Rightarrow> None)"

definition nq_deq :: "bool \<Rightarrow> nheap \<times> notification_queue \<Rightarrow> (addr option \<times> nheap \<times> notification_queue) option" where
  "nq_deq isPre s = do { (x, q') \<leftarrow> nq_dequeue (fst s) (snd s) isPre; Some (x, fst s, q') }"

definition nq_wants :: "notification_queue \<Rightarrow> u16 \<Rightarrow> bool" where
  "nq_wants q ty \<longleftrightarrow> unat ty < 31 \<and> bit (nq_event_mask q) (unat ty)"

interpretation pre_read: fifo
  "\<lambda>s xs. nq_repr (fst s) (snd s) xs post \<and> nq_wants (snd s) ty" "\<lambda>s. dom (fst s)"
  "nq_enq sz True ty" "nq_deq True" for post ty sz
proof (unfold_locales, goal_cases)
  case (1 s xs a)
  then have "nq_repr (fst s) (snd s) xs post" "unat ty < 31" "bit (nq_event_mask (snd s)) (unat ty)"
    by (simp_all add: nq_wants_def)
  from nq_enqueue_pre [OF this(1) 1(2) this(2,3), of sz] show ?case
    using 1 by (fastforce simp: nq_enq_def nq_wants_def)
next
  case (2 s)
  then show ?case using nq_dequeue_empty [of "fst s" "snd s" "[]" post True] by (simp add: nq_deq_def)
next
  case (3 s a xs)
  then show ?case using nq_dequeue_pre [of "fst s" "snd s" a xs post] by (auto simp: nq_deq_def nq_wants_def)
qed

interpretation post_read: fifo
  "\<lambda>s xs. nq_repr (fst s) (snd s) pre xs \<and> nq_wants (snd s) ty" "\<lambda>s. dom (fst s)"
  "nq_enq sz False ty" "nq_deq False" for pre ty sz
proof (unfold_locales, goal_cases)
  case (1 s xs a)
  then have "nq_repr (fst s) (snd s) pre xs" "unat ty < 31" "bit (nq_event_mask (snd s)) (unat ty)"
    by (simp_all add: nq_wants_def)
  from nq_enqueue_post [OF this(1) 1(2) this(2,3), of sz] show ?case
    using 1 by (fastforce simp: nq_enq_def nq_wants_def)
next
  case (2 s)
  then show ?case using nq_dequeue_empty [of "fst s" "snd s" pre "[]" False] by (simp add: nq_deq_def)
next
  case (3 s a xs)
  then show ?case using nq_dequeue_post [of "fst s" "snd s" pre a xs] by (auto simp: nq_deq_def nq_wants_def)
qed

section \<open>Runs of operations\<close>

text \<open>
  Any interleaving of the operations, on the heap and on the pair of lists it stands for. An
  enqueue of an event that is not in the mask, or for which \<open>malloc\<close> fails, adds nothing.
\<close>

datatype nq_op = Enqueue nptr bool u16 | Dequeue bool | Clear

fun nq_exec :: "u32 \<Rightarrow> nq_op \<Rightarrow> nheap \<times> notification_queue \<Rightarrow> (nptr \<times> nheap \<times> notification_queue) option" where
  "nq_exec sz (Enqueue new isPre ty) (h, q) = nq_enqueue sz new h q isPre ty"
| "nq_exec sz (Dequeue isPre) (h, q) = do { (x, q') \<leftarrow> nq_dequeue h q isPre; Some (x, h, q') }"
| "nq_exec sz Clear (h, q) = do { (h', q') \<leftarrow> nq_clear h q; Some (None, h', q') }"

fun nq_run :: "u32 \<Rightarrow> nq_op list \<Rightarrow> nheap \<times> notification_queue \<Rightarrow> (nptr list \<times> nheap \<times> notification_queue) option" where
  "nq_run sz [] s = Some ([], s)"
| "nq_run sz (op # ops) s = do {
     (x, s') \<leftarrow> nq_exec sz op s; (xs, s'') \<leftarrow> nq_run sz ops s'; Some (x # xs, s'') }"

fun nq_spec :: "u32 \<Rightarrow> nq_op \<Rightarrow> addr list \<times> addr list \<Rightarrow> nptr \<times> addr list \<times> addr list" where
  "nq_spec emask (Enqueue None isPre ty) s = (None, s)"
| "nq_spec emask (Enqueue (Some a) isPre ty) (pre, post) =
     (if \<not> bit emask (unat ty) then (None, pre, post)
      else if isPre then (Some a, pre @ [a], post) else (Some a, pre, post @ [a]))"
| "nq_spec emask (Dequeue True) (pre, post) =
     (case pre of [] \<Rightarrow> (None, pre, post) | a # as \<Rightarrow> (Some a, as, post))"
| "nq_spec emask (Dequeue False) (pre, post) =
     (case post of [] \<Rightarrow> (None, pre, post) | a # as \<Rightarrow> (Some a, pre, as))"
| "nq_spec emask Clear s = (None, [], [])"

fun nq_spec_run :: "u32 \<Rightarrow> nq_op list \<Rightarrow> addr list \<times> addr list \<Rightarrow> nptr list \<times> addr list \<times> addr list" where
  "nq_spec_run emask [] s = ([], s)"
| "nq_spec_run emask (op # ops) s =
     (let (x, s') = nq_spec emask op s; (xs, s'') = nq_spec_run emask ops s' in (x # xs, s''))"

text \<open>The addresses \<open>malloc\<close> returns in a run, and the event types it is given.\<close>

fun op_new :: "nq_op \<Rightarrow> addr list" where
  "op_new (Enqueue (Some a) isPre ty) = [a]"
| "op_new op = []"

fun op_type_ok :: "nq_op \<Rightarrow> bool" where
  "op_type_ok (Enqueue new isPre ty) \<longleftrightarrow> unat ty < 31"
| "op_type_ok op \<longleftrightarrow> True"

lemma nq_exec_refines:
  assumes r: "nq_repr h q pre post" and "op_type_ok op" and "set (op_new op) \<inter> dom h = {}"
    and s: "nq_spec (nq_event_mask q) op (pre, post) = (x, pre', post')"
  shows "\<exists>h' q'. nq_exec sz op (h, q) = Some (x, h', q') \<and> nq_repr h' q' pre' post' \<and>
           nq_event_mask q' = nq_event_mask q \<and> dom h' \<subseteq> dom h \<union> set (op_new op)"
proof (cases op)
  case (Enqueue new isPre ty)
  show ?thesis
  proof (cases "bit (nq_event_mask q) (unat ty) \<and> new \<noteq> None")
    case True
    then obtain a where a: "new = Some a" by blast
    with assms True Enqueue nq_enqueue_pre [OF r, of a ty sz] nq_enqueue_post [OF r, of a ty sz]
    show ?thesis by (cases isPre) auto
  next
    case False
    with assms Enqueue nq_enqueue_unmasked [of ty q sz new h isPre] show ?thesis
      by (cases new) (auto simp: nq_enqueue_def split: if_splits)
  qed
next
  case (Dequeue isPre)
  with assms nq_dequeue_empty [OF r, of isPre]
    nq_dequeue_pre [of h q "hd pre" "tl pre" post] nq_dequeue_post [of h q pre "hd post" "tl post"]
  show ?thesis by (cases isPre) (auto split: list.splits)
next
  case Clear
  with assms nq_clear_repr [OF r] show ?thesis
    by (auto simp: nq_repr_def nq_new_def last_ptr_def dom_def restrict_map_def)
qed

text \<open>C23. Any run of enqueue, dequeue and clear operations with fresh nodes and valid event types
  executes without undefined behaviour and returns exactly the nodes that two first-in-first-out
  lists, filtered by the event mask, would return; the pointers represent those lists after it.\<close>

theorem nq_run_refines_lists:
  assumes "nq_repr h q pre post" and "list_all op_type_ok ops"
    and "distinct (concat (map op_new ops))" and "set (concat (map op_new ops)) \<inter> dom h = {}"
    and "nq_spec_run (nq_event_mask q) ops (pre, post) = (xs, pre', post')"
  shows "\<exists>h' q'. nq_run sz ops (h, q) = Some (xs, h', q') \<and> nq_repr h' q' pre' post' \<and>
           nq_has_data q' = (pre' @ post' \<noteq> [])"
  using assms
proof (induction ops arbitrary: h q pre post xs)
  case Nil
  then show ?case by (auto simp: nq_repr_def nq_has_data_def dest!: linked_same_ends)
next
  case (Cons op ops)
  obtain x pre1 post1 where sp: "nq_spec (nq_event_mask q) op (pre, post) = (x, pre1, post1)"
    by (metis prod_cases3)
  obtain xs1 where rest: "nq_spec_run (nq_event_mask q) ops (pre1, post1) = (xs1, pre', post')"
      and xs: "xs = x # xs1"
    using Cons.prems(5) sp by (auto simp: Let_def split: prod.splits)
  from nq_exec_refines [OF Cons.prems(1) _ _ sp, of sz] Cons.prems obtain h1 q1 where
      e: "nq_exec sz op (h, q) = Some (x, h1, q1)" "nq_repr h1 q1 pre1 post1"
         "nq_event_mask q1 = nq_event_mask q" "dom h1 \<subseteq> dom h \<union> set (op_new op)"
    by (auto simp: Int_Un_distrib)
  have "set (concat (map op_new ops)) \<inter> set (op_new op) = {}" using Cons.prems(3) by auto
  moreover have "set (concat (map op_new ops)) \<inter> dom h = {}"
    using Cons.prems(4) by (simp add: Int_Un_distrib2)
  ultimately have "set (concat (map op_new ops)) \<inter> dom h1 = {}" using e(4) by blast
  with Cons.IH [OF e(2)] Cons.prems rest e xs show ?case by auto
qed

theorem nq_run_refines_lists_witness:
  "\<exists>h' q'. nq_run 8 [Enqueue (Some 5) True 1, Enqueue (Some 6) True 1, Dequeue True]
       (Map.empty, nq_new\<lparr>nq_event_mask := 2\<rparr>) = Some ([Some 5, Some 6, Some 5], h', q') \<and>
     nq_repr h' q' [6] [] \<and> nq_has_data q'"
proof -
  have "nq_repr Map.empty (nq_new\<lparr>nq_event_mask := 2\<rparr>) [] []"
    by (simp add: nq_repr_def nq_new_def last_ptr_def)
  from nq_run_refines_lists [OF this,
      of "[Enqueue (Some 5) True 1, Enqueue (Some 6) True 1, Dequeue True]"
         "[Some 5, Some 6, Some 5]" "[6]" "[]" 8]
  show ?thesis by (simp add: bit_numeral_rec)
qed

text \<open>On a well-formed queue \<open>nq_clear\<close> terminates, frees exactly the nodes of the two lists
  (each once, leaving the rest of the heap alone) and leaves the empty queue with the same event
  mask.\<close>

theorem nq_clear_frees_all:
  assumes "nq_repr h q pre post"
  shows "\<exists>q'. nq_clear h q = Some (h |` (- set (pre @ post)), q') \<and> nq_repr (h |` (- set (pre @ post))) q' [] [] \<and>
           \<not> nq_has_data q' \<and> nq_event_mask q' = nq_event_mask q"
  using nq_clear_repr [OF assms] by (simp add: nq_repr_def nq_new_def nq_has_data_def last_ptr_def)

theorem nq_clear_frees_all_witness:
  "\<exists>q'. nq_clear [3 \<mapsto> nq_node 8 1, 4 \<mapsto> nq_node 8 2]
      (nq_new\<lparr>nq_pre_read_queue := Some 3, nq_pre_read_last := Some 3\<rparr>) =
     Some ([3 \<mapsto> nq_node 8 1, 4 \<mapsto> nq_node 8 2] |` (- {3}), q') \<and> \<not> nq_has_data q'"
proof -
  have "nq_repr [3 \<mapsto> nq_node 8 1, 4 \<mapsto> nq_node 8 2]
      (nq_new\<lparr>nq_pre_read_queue := Some 3, nq_pre_read_last := Some 3\<rparr>) [3] []"
    by (simp add: nq_repr_def nq_new_def last_ptr_def nq_node_def)
  from nq_clear_frees_all [OF this] show ?thesis by auto
qed

text \<open>Each of the two queues is first in, first out: nodes appended to the pre-read queue come
  out of it after the ones already there, in the order they were appended, and the queue is then
  empty.\<close>

theorem nq_pre_read_fifo:
  assumes "nq_repr h q xs post" and "nq_wants q ty" and "distinct as" and "set as \<inter> dom h = {}"
  shows "\<exists>s1 s2. fifo.enq_list (nq_enq sz True ty) as (h, q) = Some s1 \<and>
     fifo.deq_n (nq_deq True) (length (xs @ as)) s1 = Some (map Some (xs @ as), s2) \<and>
     nq_deq True s2 = Some (None, s2)"
  using pre_read.fifo_order [of "(h, q)" xs post ty as sz] assms by simp

theorem nq_pre_read_fifo_witness:
  "\<exists>s1 s2. fifo.enq_list (nq_enq 8 True 1) [5, 6] (Map.empty, nq_new\<lparr>nq_event_mask := 2\<rparr>) = Some s1 \<and>
     fifo.deq_n (nq_deq True) 2 s1 = Some ([Some 5, Some 6], s2) \<and> nq_deq True s2 = Some (None, s2)"
  using nq_pre_read_fifo [of Map.empty "nq_new\<lparr>nq_event_mask := 2\<rparr>" "[]" "[]" 1 "[5, 6]" 8]
  by (simp add: nq_repr_def nq_new_def last_ptr_def nq_wants_def bit_numeral_rec numeral_2_eq_2)

end
