(* ===== verification/Event_Signal.thy ===== *)
theory Event_Signal
  imports Prelude
begin

text \<open>
  The event signals of \<open>socketapi/eventsignal.c\<close>: a flag, a condition variable and a list of parent
  signals to which firing propagates recursively. The signals live in a store, since parents are
  shared; the recursion of \<open>es_fire\<close> carries the depth of the call stack as fuel and is shown to
  need no more than the rank of the signal in an acyclic parent graph.
\<close>

section \<open>Signals and their store\<close>

type_synonym sig_ptr = nat

text \<open>
  \<open>struct event_signal\<close>. The condition variable is the list of the threads waiting on it; the mutex
  is recursive and is held for the whole of every operation but the wait, so an operation is one
  step of the store.
\<close>

record event_signal =
  es_condition :: "nat list"
  es_fired :: bool
  es_parent_list :: "sig_ptr list"

type_synonym es_store = "sig_ptr \<rightharpoonup> event_signal"

text \<open>\<open>pthread_cond_signal\<close> is only required to wake one of the waiting threads.\<close>

definition pthread_cond_signal :: "event_signal \<Rightarrow> event_signal" where
  "pthread_cond_signal s = s\<lparr>es_condition := tl (es_condition s)\<rparr>"

section \<open>Operations\<close>

text \<open>
  \<open>es_fire\<close>. The parents are fired in list order, each with everything above it, before the next
  one. \<^const>\<open>None\<close> is a dangling pointer or a call stack deeper than the fuel.
\<close>

fun es_fire :: "nat \<Rightarrow> es_store \<Rightarrow> sig_ptr \<Rightarrow> bool \<Rightarrow> es_store option"
  and es_fire_parents :: "nat \<Rightarrow> es_store \<Rightarrow> sig_ptr list \<Rightarrow> bool \<Rightarrow> es_store option" where
  "es_fire 0 st e broadcast = None"
| "es_fire (Suc n) st e broadcast =
     (case st e of
        None \<Rightarrow> None
      | Some s \<Rightarrow> es_fire_parents n (st(e \<mapsto> pthread_cond_signal (s\<lparr>es_fired := True\<rparr>)))
                                   (es_parent_list s) broadcast)"
| "es_fire_parents n st [] broadcast = Some st"
| "es_fire_parents n st (p # ps) broadcast =
     do { st' \<leftarrow> es_fire n st p broadcast; es_fire_parents n st' ps broadcast }"

definition es_signal :: "nat \<Rightarrow> es_store \<Rightarrow> sig_ptr \<Rightarrow> es_store option" where
  "es_signal n st e = es_fire n st e False"

definition es_broadcast :: "nat \<Rightarrow> es_store \<Rightarrow> sig_ptr \<Rightarrow> es_store option" where
  "es_broadcast n st e = es_fire n st e True"

text \<open>\<open>es_add_parent\<close>; a null parent is ignored. The list node is \<open>malloc\<close>ed (asserted).\<close>

definition es_add_parent :: "nat \<Rightarrow> bool \<Rightarrow> es_store \<Rightarrow> sig_ptr \<Rightarrow> sig_ptr option \<Rightarrow> es_store option" where
  "es_add_parent n malloc_ok st e parent =
     (case parent of
        None \<Rightarrow> Some st
      | Some p \<Rightarrow> (case st e of
          None \<Rightarrow> None
        | Some s \<Rightarrow> do {
            c_assert malloc_ok;
            let st1 = st(e \<mapsto> s\<lparr>es_parent_list := es_parent_list s @ [p]\<rparr>);
            if es_fired s then es_broadcast n st1 p else Some st1
          }))"

text \<open>\<open>es_remove_parent\<close>: the first node with that parent.\<close>

definition es_remove_parent :: "es_store \<Rightarrow> sig_ptr \<Rightarrow> sig_ptr option \<Rightarrow> es_store option" where
  "es_remove_parent st e parent =
     (case parent of
        None \<Rightarrow> Some st
      | Some p \<Rightarrow> (case st e of
          None \<Rightarrow> None
        | Some s \<Rightarrow> Some (st(e \<mapsto> s\<lparr>es_parent_list := remove1 p (es_parent_list s)\<rparr>))))"

definition es_new :: "nat \<Rightarrow> bool \<Rightarrow> es_store \<Rightarrow> sig_ptr \<Rightarrow> sig_ptr option \<Rightarrow> es_store option" where
  "es_new n malloc_ok st e parent =
     es_add_parent n malloc_ok (st(e \<mapsto> \<lparr>es_condition = [], es_fired = False, es_parent_list = []\<rparr>)) e parent"

text \<open>\<open>es_delete\<close> frees the parent nodes, which the list owns, and destroys condition and mutex.\<close>

definition es_delete :: "es_store \<Rightarrow> sig_ptr \<Rightarrow> es_store option" where
  "es_delete st e = (case st e of None \<Rightarrow> None | Some s \<Rightarrow> Some (st(e := None)))"

text \<open>\<open>es_has_fired\<close> reads and clears the flag, \<open>es_peek_has_fired\<close> only reads it.\<close>

definition es_has_fired :: "es_store \<Rightarrow> sig_ptr \<Rightarrow> (bool \<times> es_store) option" where
  "es_has_fired st e = do { s \<leftarrow> st e; Some (es_fired s, st(e \<mapsto> s\<lparr>es_fired := False\<rparr>)) }"

definition es_peek_has_fired :: "es_store \<Rightarrow> sig_ptr \<Rightarrow> bool option" where
  "es_peek_has_fired st e = do { s \<leftarrow> st e; Some (es_fired s) }"

text \<open>
  The waits. While a thread waits the mutex is released and other threads act on the store;
  \<open>others\<close> is what they do until the wait returns, whatever ends it (a signal, the timeout or a
  spurious wake-up).
\<close>

definition pthread_cond_wait :: "nat \<Rightarrow> (es_store \<Rightarrow> es_store) \<Rightarrow> es_store \<Rightarrow> sig_ptr \<Rightarrow> es_store" where
  "pthread_cond_wait me others st e =
     (let st1 = others (st(e := map_option (\<lambda>s. s\<lparr>es_condition := es_condition s @ [me]\<rparr>) (st e)))
      in st1(e := map_option (\<lambda>s. s\<lparr>es_condition := remove1 me (es_condition s)\<rparr>) (st1 e)))"

definition es_wait :: "nat \<Rightarrow> (es_store \<Rightarrow> es_store) \<Rightarrow> es_store \<Rightarrow> sig_ptr \<Rightarrow> es_store option" where
  "es_wait me others st e = do {
     s \<leftarrow> st e;
     Some (if \<not> es_fired s then pthread_cond_wait me others st e else st) }"

text \<open>The deadline of \<open>es_timed_wait\<close>: \<open>(tv_sec, tv_nsec)\<close> from the time of day and the timeout.\<close>

definition es_deadline :: "int \<Rightarrow> int \<Rightarrow> int \<Rightarrow> int \<times> int" where
  "es_deadline now_sec now_usec microseconds =
     (let sec = now_sec + microseconds div 1000000;
          nsec = (now_usec + microseconds mod 1000000) * 1000
      in if nsec \<ge> 1000000000 then (sec + 1, nsec - 1000000000) else (sec, nsec))"

text \<open>
  \<open>others\<close> takes the deadline of the wait, or \<^const>\<open>None\<close> when the wait has none.
\<close>

definition es_timed_wait ::
  "nat \<Rightarrow> ((int \<times> int) option \<Rightarrow> es_store \<Rightarrow> es_store) \<Rightarrow> int \<times> int \<Rightarrow> es_store \<Rightarrow> sig_ptr \<Rightarrow> int \<Rightarrow> (bool \<times> es_store) option" where
  "es_timed_wait me others now st e microseconds = do {
     s \<leftarrow> st e;
     let st1 = (if \<not> es_fired s
                then (if microseconds > 0
                      then pthread_cond_wait me (others (Some (es_deadline (fst now) (snd now) microseconds))) st e
                      else if microseconds < 0 then pthread_cond_wait me (others None) st e
                      else st)
                else st);
     s1 \<leftarrow> st1 e;
     Some (es_fired s1, st1(e \<mapsto> s1\<lparr>es_fired := False\<rparr>)) }"

section \<open>The parent graph\<close>

definition es_parents :: "es_store \<Rightarrow> (sig_ptr \<times> sig_ptr) set" where
  "es_parents st = {(e, p). \<exists>s. st e = Some s \<and> p \<in> set (es_parent_list s)}"

definition fired_at :: "es_store \<Rightarrow> sig_ptr \<Rightarrow> bool" where
  "fired_at st e \<longleftrightarrow> (case st e of None \<Rightarrow> False | Some s \<Rightarrow> es_fired s)"

text \<open>No dangling parents, and a rank that decreases from a signal to its parents.\<close>

definition es_ranked :: "(sig_ptr \<Rightarrow> nat) \<Rightarrow> es_store \<Rightarrow> bool" where
  "es_ranked rank st \<longleftrightarrow> (\<forall>(e, p) \<in> es_parents st. p \<in> dom st \<and> rank p < rank e)"

text \<open>The parent lists, which firing leaves unchanged.\<close>

definition es_graph :: "es_store \<Rightarrow> sig_ptr \<Rightarrow> sig_ptr list option" where
  "es_graph st e = map_option es_parent_list (st e)"

lemma es_parents_graph: "es_parents st = {(e, p). \<exists>ps. es_graph st e = Some ps \<and> p \<in> set ps}"
  by (auto simp: es_parents_def es_graph_def)

lemma dom_es_graph: "dom st = dom (es_graph st)"
  by (auto simp: es_graph_def dom_def)

lemma es_ranked_graph: "es_graph st' = es_graph st \<Longrightarrow> es_ranked rank st' = es_ranked rank st"
  by (simp add: es_ranked_def es_parents_graph dom_es_graph)

lemma es_graph_fire [simp]:
  "st e = Some s \<Longrightarrow> es_graph (st(e \<mapsto> pthread_cond_signal (s\<lparr>es_fired := b\<rparr>))) = es_graph st"
  by (auto simp: es_graph_def pthread_cond_signal_def)

lemma fired_at_fire [simp]:
  "fired_at (st(e \<mapsto> pthread_cond_signal (s\<lparr>es_fired := True\<rparr>))) x \<longleftrightarrow> x = e \<or> fired_at st x"
  by (simp add: fired_at_def pthread_cond_signal_def)

lemma es_parents_rtrancl_step:
  assumes "es_graph st e = Some ps"
  shows "(e, x) \<in> (es_parents st)\<^sup>* \<longleftrightarrow> x = e \<or> (\<exists>p \<in> set ps. (p, x) \<in> (es_parents st)\<^sup>*)"
proof -
  have "(e, p) \<in> es_parents st \<longleftrightarrow> p \<in> set ps" for p
    using assms by (simp add: es_parents_graph)
  then show ?thesis
    by (metis converse_rtranclE converse_rtrancl_into_rtrancl rtrancl.rtrancl_refl)
qed

section \<open>Firing reaches exactly the ancestors\<close>

lemma es_fire_ancestors:
  shows "es_ranked rank st \<Longrightarrow> e \<in> dom st \<Longrightarrow> rank e < n \<Longrightarrow>
         \<exists>st'. es_fire n st e b = Some st' \<and> es_graph st' = es_graph st \<and>
           (\<forall>x. fired_at st' x \<longleftrightarrow> fired_at st x \<or> (e, x) \<in> (es_parents st)\<^sup>*)"
    and "es_ranked rank st \<Longrightarrow> set ps \<subseteq> dom st \<Longrightarrow> \<forall>p \<in> set ps. rank p < n \<Longrightarrow>
         \<exists>st'. es_fire_parents n st ps b = Some st' \<and> es_graph st' = es_graph st \<and>
           (\<forall>x. fired_at st' x \<longleftrightarrow> fired_at st x \<or> (\<exists>p \<in> set ps. (p, x) \<in> (es_parents st)\<^sup>*))"
proof (induction n st e b and n st ps b rule: es_fire_es_fire_parents.induct)
  case (2 n st e b)
  then obtain s where s: "st e = Some s" by blast
  let ?st = "st(e \<mapsto> pthread_cond_signal (s\<lparr>es_fired := True\<rparr>))"
  have g: "es_graph ?st = es_graph st" using s by simp
  have pr: "es_parents ?st = es_parents st" using g by (simp only: es_parents_graph)
  have ps: "p \<in> dom st \<and> rank p < rank e" if "p \<in> set (es_parent_list s)" for p
    using "2.prems"(1) s that by (auto simp: es_ranked_def es_parents_def)
  have "\<exists>st'. es_fire_parents n ?st (es_parent_list s) b = Some st' \<and> es_graph st' = es_graph ?st \<and>
      (\<forall>x. fired_at st' x \<longleftrightarrow> fired_at ?st x \<or> (\<exists>p \<in> set (es_parent_list s). (p, x) \<in> (es_parents ?st)\<^sup>*))"
  proof (rule "2.IH" [OF s])
    show "es_ranked rank ?st" using "2.prems"(1) es_ranked_graph [OF g] by blast
    show "set (es_parent_list s) \<subseteq> dom ?st" using ps by auto
    show "\<forall>p \<in> set (es_parent_list s). rank p < n" using ps "2.prems"(3) by fastforce
  qed
  then obtain st' where st': "es_fire_parents n ?st (es_parent_list s) b = Some st'"
      "es_graph st' = es_graph st"
      "\<And>x. fired_at st' x \<longleftrightarrow> fired_at ?st x \<or> (\<exists>p \<in> set (es_parent_list s). (p, x) \<in> (es_parents st)\<^sup>*)"
    unfolding g pr by blast
  have "es_graph st e = Some (es_parent_list s)" using s by (simp add: es_graph_def)
  from es_parents_rtrancl_step [OF this] st' s show ?case by auto
next
  case (4 n st p ps b)
  from "4.IH"(1) "4.prems" obtain st1 where st1: "es_fire n st p b = Some st1"
      "es_graph st1 = es_graph st"
      "\<And>x. fired_at st1 x \<longleftrightarrow> fired_at st x \<or> (p, x) \<in> (es_parents st)\<^sup>*" by auto
  have r: "es_ranked rank st1" using "4.prems"(1) es_ranked_graph [OF st1(2)] by blast
  have pr: "es_parents st1 = es_parents st" using st1(2) by (simp only: es_parents_graph)
  have d: "set ps \<subseteq> dom st1" using "4.prems"(2) st1(2) by (simp add: dom_es_graph)
  from "4.IH"(2) [OF st1(1) r d] "4.prems"(3) st1 pr show ?case by auto
qed (auto simp: es_graph_def)

text \<open>C22. Firing a signal in an acyclic parent graph terminates with a call stack no deeper than
  the signal's rank, keeps the graph, and afterwards exactly the signals fired before and the
  ancestors of the fired one (itself included) have the flag set; \<open>broadcast\<close> makes no
  difference.\<close>

theorem es_fire_correct:
  assumes "es_ranked rank st" and "e \<in> dom st" and "rank e < n"
  shows "\<exists>st'. es_fire n st e broadcast = Some st' \<and> es_graph st' = es_graph st \<and>
           (\<forall>x. fired_at st' x \<longleftrightarrow> fired_at st x \<or> (e, x) \<in> (es_parents st)\<^sup>*)"
  by (rule es_fire_ancestors(1) [OF assms])

text \<open>A child signal 1 below a global signal 0, as \<open>nsa_poll\<close> builds them.\<close>

definition es_example :: es_store where
  "es_example = [0 \<mapsto> \<lparr>es_condition = [], es_fired = False, es_parent_list = []\<rparr>,
                 1 \<mapsto> \<lparr>es_condition = [7], es_fired = False, es_parent_list = [0]\<rparr>]"

lemma es_parents_example: "es_parents es_example = {(1, 0)}"
  by (auto simp: es_parents_def es_example_def split: if_splits)

lemma es_ranked_example: "es_ranked (\<lambda>x. x) es_example"
  by (simp add: es_ranked_def es_parents_example) (simp add: es_example_def)

theorem es_fire_correct_witness:
  "\<exists>st'. es_fire 2 es_example 1 True = Some st' \<and> fired_at st' 0 \<and> fired_at st' 1 \<and> \<not> fired_at st' 2"
proof -
  have "1 \<in> dom es_example" "\<not> fired_at es_example 2" by (simp_all add: es_example_def fired_at_def)
  moreover have "(1, x) \<in> {(1::nat, 0)}\<^sup>* \<longleftrightarrow> x = 0 \<or> x = 1" for x
    by (auto elim: rtranclE)
  ultimately show ?thesis
    using es_fire_correct [OF es_ranked_example, of 1 2 True] by (auto simp: es_parents_example)
qed

section \<open>Parents and waits\<close>

lemma es_add_parent_graph:
  assumes "es_ranked rank st" and "st e = Some s" and "p \<in> dom st" and "rank p < rank e"
    and "rank p < n"
  shows "\<exists>st'. es_add_parent n True st e (Some p) = Some st' \<and>
           es_graph st' = (es_graph st)(e \<mapsto> es_parent_list s @ [p]) \<and>
           (\<forall>x. fired_at st' x \<longleftrightarrow> fired_at st x \<or> es_fired s \<and> (p, x) \<in> (es_parents st')\<^sup>*)"
proof -
  let ?st = "st(e \<mapsto> s\<lparr>es_parent_list := es_parent_list s @ [p]\<rparr>)"
  have g: "es_graph ?st = (es_graph st)(e \<mapsto> es_parent_list s @ [p])"
    by (auto simp: es_graph_def)
  have f: "fired_at ?st = fired_at st" using assms(2) by (simp add: fired_at_def fun_eq_iff)
  have pr: "es_parents ?st = insert (e, p) (es_parents st)"
    using assms(2) by (auto simp: es_parents_def split: if_splits)
  have "es_ranked rank ?st" using assms by (auto simp: es_ranked_def pr)
  moreover have "p \<in> dom ?st" using assms(3) by auto
  ultimately obtain st' where "es_fire n ?st p True = Some st'" "es_graph st' = es_graph ?st"
      "\<forall>x. fired_at st' x \<longleftrightarrow> fired_at ?st x \<or> (p, x) \<in> (es_parents ?st)\<^sup>*"
    using es_fire_ancestors(1) assms(5) by blast
  with assms(2) g f show ?thesis
    by (cases "es_fired s") (auto simp: es_add_parent_def es_broadcast_def es_parents_graph)
qed

text \<open>Registering a parent with a signal that has already fired loses no event: afterwards the
  parent is in the list of the signal and, if the signal had fired, the parent and all its
  ancestors are fired too.\<close>

theorem es_add_parent_no_lost_event:
  assumes "es_ranked rank st" and "st e = Some s" and "p \<in> dom st" and "rank p < rank e"
    and "rank p < n"
  shows "\<exists>st'. es_add_parent n True st e (Some p) = Some st' \<and>
           es_graph st' = (es_graph st)(e \<mapsto> es_parent_list s @ [p]) \<and>
           (\<forall>x. fired_at st' x \<longleftrightarrow> fired_at st x \<or> es_fired s \<and> (p, x) \<in> (es_parents st')\<^sup>*)"
  by (rule es_add_parent_graph [OF assms])

theorem es_add_parent_no_lost_event_witness:
  "\<exists>st'. es_add_parent 1 True
      [0 \<mapsto> \<lparr>es_condition = [], es_fired = False, es_parent_list = []\<rparr>,
       1 \<mapsto> \<lparr>es_condition = [], es_fired = True, es_parent_list = []\<rparr>] 1 (Some 0) = Some st' \<and>
     fired_at st' 0"
proof -
  let ?st = "[0 \<mapsto> \<lparr>es_condition = [], es_fired = False, es_parent_list = []\<rparr>,
       1 \<mapsto> \<lparr>es_condition = [], es_fired = True, es_parent_list = []\<rparr>] :: es_store"
  have "es_ranked (\<lambda>x. x) ?st" by (auto simp: es_ranked_def es_parents_def split: if_splits)
  from es_add_parent_no_lost_event [OF this, of 1 _ 0 1] show ?thesis by auto
qed

text \<open>The deadline of a timed wait is a normalised time that lies exactly the timeout after the
  time of day.\<close>

theorem es_deadline_exact:
  assumes "0 \<le> usec" and "usec < 1000000" and "0 \<le> timeout"
    and "es_deadline sec usec timeout = (dsec, dnsec)"
  shows "0 \<le> dnsec \<and> dnsec < 1000000000 \<and>
         dsec * 1000000000 + dnsec = (sec * 1000000 + usec + timeout) * 1000"
proof -
  define q r where "q = timeout div 1000000" and "r = timeout mod 1000000"
  then have "timeout = q * 1000000 + r" "0 \<le> r" "r < 1000000" by simp_all
  then show ?thesis
    using assms unfolding es_deadline_def Let_def q_def [symmetric] r_def [symmetric]
    by (simp split: if_splits)
qed

theorem es_deadline_exact_witness:
  "es_deadline 10 900000 2500000 = (13, 400000000) \<and>
   13 * 1000000000 + 400000000 = (10 * 1000000 + 900000 + 2500000) * (1000 :: int)"
  using es_deadline_exact [of 900000 2500000 10 13 400000000] by (simp add: es_deadline_def)

text \<open>A timed wait returns whether the signal had fired before or fired while waiting, and
  consumes the event: the flag is clear afterwards. A zero timeout does not wait.\<close>

theorem es_timed_wait_consumes:
  assumes "st e = Some s"
    and "\<And>d. e \<in> dom (others d (st(e \<mapsto> s\<lparr>es_condition := es_condition s @ [me]\<rparr>)))"
  shows "\<exists>fired st'. es_timed_wait me others now st e t = Some (fired, st') \<and> \<not> fired_at st' e \<and>
           (es_fired s \<or> t = 0 \<longrightarrow> fired = es_fired s) \<and>
           (\<not> es_fired s \<and> t \<noteq> 0 \<longrightarrow> fired =
              fired_at (others (if t > 0 then Some (es_deadline (fst now) (snd now) t) else None)
                          (st(e \<mapsto> s\<lparr>es_condition := es_condition s @ [me]\<rparr>))) e)"
proof -
  define d where "d = (if t > 0 then Some (es_deadline (fst now) (snd now) t) else None)"
  define w where "w = others d (st(e \<mapsto> s\<lparr>es_condition := es_condition s @ [me]\<rparr>))"
  obtain s1 where s1: "w e = Some s1" using assms(2) [of d] unfolding w_def by blast
  show ?thesis
  proof (cases "es_fired s \<or> t = 0")
    case True
    with assms(1) show ?thesis by (auto simp: es_timed_wait_def fired_at_def)
  next
    case False
    then have "es_timed_wait me others now st e t =
        (let st1 = pthread_cond_wait me (others d) st e
         in do { s1 \<leftarrow> st1 e; Some (es_fired s1, st1(e \<mapsto> s1\<lparr>es_fired := False\<rparr>)) })"
      using assms(1) by (simp add: es_timed_wait_def d_def)
    moreover have "pthread_cond_wait me (others d) st e =
        w(e \<mapsto> s1\<lparr>es_condition := remove1 me (es_condition s1)\<rparr>)"
      using assms(1) s1 by (simp add: pthread_cond_wait_def w_def [symmetric])
    ultimately show ?thesis
      using False s1 by (simp add: fired_at_def Let_def d_def [symmetric] w_def [symmetric])
  qed
qed

theorem es_timed_wait_consumes_witness:
  "\<exists>st'. es_timed_wait 3 (\<lambda>d st. the (es_fire 2 st 1 True)) (0, 0) es_example 0 5 = Some (True, st') \<and>
     \<not> fired_at st' 0"
  using es_timed_wait_consumes [of es_example 0 _ "\<lambda>d st. the (es_fire 2 st 1 True)" 3 "(0, 0)" 5]
  by (auto simp: es_example_def pthread_cond_signal_def fired_at_def numeral_2_eq_2)

end
