(* ===== verification/Redblacktree.thy ===== *)
theory Redblacktree
  imports Prelude "HOL-Library.Tree"
begin

text \<open>
  The intrusive red-black tree of \<open>socketapi/redblacktree.c\<close>, on an explicit heap. Nodes are
  addresses; the sentinel \<open>null_node\<close> embedded in the tree is address 0, and its left subtree is the
  root. A pointer field is \<^const>\<open>None\<close> when it is \<open>NULL\<close> (a node that is not linked), so a null
  dereference and a failed assertion are \<^const>\<open>None\<close> in the option monad; the loops that follow
  pointers are partial functions, shown to return on every well-formed tree. The comparison function
  is a parameter, as in the code.
\<close>

section \<open>Nodes and the heap\<close>

datatype redblacktree_node_color_type = Red | Black

type_synonym rptr = nat

text \<open>The fields of \<open>struct redblacktree_node\<close>, per address, and the number of elements.\<close>

record redblacktree =
  rb_parent :: "rptr \<Rightarrow> rptr option"
  left_subtree :: "rptr \<Rightarrow> rptr option"
  right_subtree :: "rptr \<Rightarrow> rptr option"
  rb_color :: "rptr \<Rightarrow> redblacktree_node_color_type"
  rb_value :: "rptr \<Rightarrow> u64"
  value_sum :: "rptr \<Rightarrow> u64"
  elements :: nat

definition set_parent :: "rptr \<Rightarrow> rptr option \<Rightarrow> redblacktree \<Rightarrow> redblacktree" where
  "set_parent a p h = h\<lparr>rb_parent := (rb_parent h)(a := p)\<rparr>"

definition set_left :: "rptr \<Rightarrow> rptr option \<Rightarrow> redblacktree \<Rightarrow> redblacktree" where
  "set_left a p h = h\<lparr>left_subtree := (left_subtree h)(a := p)\<rparr>"

definition set_right :: "rptr \<Rightarrow> rptr option \<Rightarrow> redblacktree \<Rightarrow> redblacktree" where
  "set_right a p h = h\<lparr>right_subtree := (right_subtree h)(a := p)\<rparr>"

definition set_color :: "rptr \<Rightarrow> redblacktree_node_color_type \<Rightarrow> redblacktree \<Rightarrow> redblacktree" where
  "set_color a c h = h\<lparr>rb_color := (rb_color h)(a := c)\<rparr>"

definition set_sum :: "rptr \<Rightarrow> u64 \<Rightarrow> redblacktree \<Rightarrow> redblacktree" where
  "set_sum a v h = h\<lparr>value_sum := (value_sum h)(a := v)\<rparr>"

definition set_value :: "rptr \<Rightarrow> u64 \<Rightarrow> redblacktree \<Rightarrow> redblacktree" where
  "set_value a v h = h\<lparr>rb_value := (rb_value h)(a := v)\<rparr>"

section \<open>Operations\<close>

definition rbt_node_new :: "rptr \<Rightarrow> redblacktree \<Rightarrow> redblacktree" where
  "rbt_node_new node h =
     set_sum node 0 (set_value node 0 (set_color node Black
       (set_right node None (set_left node None (set_parent node None h)))))"

definition rbt_node_delete :: "rptr \<Rightarrow> redblacktree \<Rightarrow> redblacktree" where
  "rbt_node_delete node h =
     set_sum node 0 (set_value node 0 (set_color node Black
       (set_right node None (set_left node None (set_parent node None h)))))"

definition rbt_node_is_linked :: "redblacktree \<Rightarrow> rptr \<Rightarrow> bool" where
  "rbt_node_is_linked h node \<longleftrightarrow> left_subtree h node \<noteq> None"

definition rbt_new :: "redblacktree \<Rightarrow> redblacktree" where
  "rbt_new h =
     (set_sum 0 0 (set_value 0 0 (set_color 0 Black
       (set_right 0 (Some 0) (set_left 0 (Some 0) (set_parent 0 (Some 0) h))))))\<lparr>elements := 0\<rparr>"

definition rbt_delete :: "redblacktree \<Rightarrow> redblacktree" where
  "rbt_delete h = set_right 0 None (set_left 0 None (set_parent 0 None (h\<lparr>elements := 0\<rparr>)))"

definition rbt_update_value_sum :: "rptr \<Rightarrow> redblacktree \<Rightarrow> redblacktree option" where
  "rbt_update_value_sum node h = do {
     l \<leftarrow> left_subtree h node;
     r \<leftarrow> right_subtree h node;
     Some (set_sum node (value_sum h l + rb_value h node + value_sum h r) h) }"

partial_function (option) rbt_update_value_sums_up_to_root :: "rptr \<Rightarrow> redblacktree \<Rightarrow> redblacktree option" where
  "rbt_update_value_sums_up_to_root node h =
     (if node = 0 then Some h
      else do {
        h' \<leftarrow> rbt_update_value_sum node h;
        p \<leftarrow> rb_parent h' node;
        rbt_update_value_sums_up_to_root p h' })"

definition rbt_is_empty :: "redblacktree \<Rightarrow> bool" where
  "rbt_is_empty h \<longleftrightarrow> left_subtree h 0 = Some 0"

text \<open>The walks to the leftmost and to the rightmost node of a subtree.\<close>

partial_function (option) walk_left :: "redblacktree \<Rightarrow> rptr \<Rightarrow> rptr option" where
  "walk_left h node = do {
     l \<leftarrow> left_subtree h node;
     if l = 0 then Some node else walk_left h l }"

partial_function (option) walk_right :: "redblacktree \<Rightarrow> rptr \<Rightarrow> rptr option" where
  "walk_right h node = do {
     r \<leftarrow> right_subtree h node;
     if r = 0 then Some node else walk_right h r }"

text \<open>The outer option is the execution, the inner one the returned pointer.\<close>

definition rbt_get_first :: "redblacktree \<Rightarrow> rptr option option" where
  "rbt_get_first h = do {
     l \<leftarrow> left_subtree h 0;
     node \<leftarrow> (if l = 0 then right_subtree h 0 else Some l);
     node' \<leftarrow> walk_left h node;
     Some (if node' \<noteq> 0 then Some node' else None) }"

definition rbt_get_last :: "redblacktree \<Rightarrow> rptr option option" where
  "rbt_get_last h = do {
     r \<leftarrow> right_subtree h 0;
     node \<leftarrow> (if r = 0 then left_subtree h 0 else Some r);
     node' \<leftarrow> walk_right h node;
     Some (if node' \<noteq> 0 then Some node' else None) }"

text \<open>The climbs while the node is the left (right) child of its parent.\<close>

partial_function (option) climb_left :: "redblacktree \<Rightarrow> rptr \<Rightarrow> rptr \<Rightarrow> rptr option" where
  "climb_left h node par =
     (if par \<noteq> 0 \<and> left_subtree h par = Some node
      then do { p \<leftarrow> rb_parent h par; climb_left h par p }
      else Some par)"

partial_function (option) climb_right :: "redblacktree \<Rightarrow> rptr \<Rightarrow> rptr \<Rightarrow> rptr option" where
  "climb_right h node par =
     (if par \<noteq> 0 \<and> right_subtree h par = Some node
      then do { p \<leftarrow> rb_parent h par; climb_right h par p }
      else Some par)"

definition rbt_internal_find_prev :: "redblacktree \<Rightarrow> rptr \<Rightarrow> rptr option" where
  "rbt_internal_find_prev h cmpNode = do {
     node \<leftarrow> left_subtree h cmpNode;
     if node \<noteq> 0 then walk_right h node
     else do { p \<leftarrow> rb_parent h cmpNode; climb_left h cmpNode p } }"

definition rbt_internal_find_next :: "redblacktree \<Rightarrow> rptr \<Rightarrow> rptr option" where
  "rbt_internal_find_next h cmpNode = do {
     node \<leftarrow> right_subtree h cmpNode;
     if node \<noteq> 0 then walk_left h node
     else do { p \<leftarrow> rb_parent h cmpNode; climb_right h cmpNode p } }"

definition rbt_get_prev :: "redblacktree \<Rightarrow> rptr \<Rightarrow> rptr option option" where
  "rbt_get_prev h node = do {
     r \<leftarrow> rbt_internal_find_prev h node;
     Some (if r \<noteq> 0 then Some r else None) }"

definition rbt_get_next :: "redblacktree \<Rightarrow> rptr \<Rightarrow> rptr option option" where
  "rbt_get_next h node = do {
     r \<leftarrow> rbt_internal_find_next h node;
     Some (if r \<noteq> 0 then Some r else None) }"

definition rbt_get_elements :: "redblacktree \<Rightarrow> nat" where
  "rbt_get_elements h = elements h"

definition rbt_get_value_sum :: "redblacktree \<Rightarrow> u64 option" where
  "rbt_get_value_sum h = do { root \<leftarrow> left_subtree h 0; Some (value_sum h root) }"

text \<open>\<open>rbt_find\<close>; \<open>cmp\<close> compares what the two addresses hold.\<close>

partial_function (option) find_from :: "(rptr \<Rightarrow> rptr \<Rightarrow> int) \<Rightarrow> redblacktree \<Rightarrow> rptr \<Rightarrow> rptr \<Rightarrow> rptr option option" where
  "find_from cmp h cmpNode node =
     (if node = 0 then Some None
      else let cmpResult = cmp cmpNode node
           in if cmpResult = 0 then Some (Some node)
              else if cmpResult < 0
              then do { l \<leftarrow> left_subtree h node; find_from cmp h cmpNode l }
              else do { r \<leftarrow> right_subtree h node; find_from cmp h cmpNode r })"

definition rbt_find :: "(rptr \<Rightarrow> rptr \<Rightarrow> int) \<Rightarrow> redblacktree \<Rightarrow> rptr \<Rightarrow> rptr option option" where
  "rbt_find cmp h cmpNode = do { root \<leftarrow> left_subtree h 0; find_from cmp h cmpNode root }"

section \<open>Rotations\<close>

definition rbt_rotate_left :: "rptr \<Rightarrow> redblacktree \<Rightarrow> redblacktree option" where
  "rbt_rotate_left node h = do {
     lower \<leftarrow> right_subtree h node;
     lowleft \<leftarrow> left_subtree h lower;
     let h1 = set_right node (Some lowleft) h;
     let h2 = set_parent lowleft (Some node) h1;
     upparent \<leftarrow> rb_parent h2 node;
     let h3 = set_parent lower (Some upparent) h2;
     h4 \<leftarrow> (if left_subtree h3 upparent = Some node then Some (set_left upparent (Some lower) h3)
           else do {
             c_assert (right_subtree h3 upparent = Some node);
             Some (set_right upparent (Some lower) h3) });
     let h5 = set_left lower (Some node) h4;
     let h6 = set_parent node (Some lower) h5;
     h7 \<leftarrow> rbt_update_value_sum node h6;
     p \<leftarrow> rb_parent h7 node;
     rbt_update_value_sum p h7 }"

definition rbt_rotate_right :: "rptr \<Rightarrow> redblacktree \<Rightarrow> redblacktree option" where
  "rbt_rotate_right node h = do {
     lower \<leftarrow> left_subtree h node;
     lowright \<leftarrow> right_subtree h lower;
     let h1 = set_left node (Some lowright) h;
     let h2 = set_parent lowright (Some node) h1;
     upparent \<leftarrow> rb_parent h2 node;
     let h3 = set_parent lower (Some upparent) h2;
     h4 \<leftarrow> (if right_subtree h3 upparent = Some node then Some (set_right upparent (Some lower) h3)
           else do {
             c_assert (left_subtree h3 upparent = Some node);
             Some (set_left upparent (Some lower) h3) });
     let h5 = set_right lower (Some node) h4;
     let h6 = set_parent node (Some lower) h5;
     h7 \<leftarrow> rbt_update_value_sum node h6;
     p \<leftarrow> rb_parent h7 node;
     rbt_update_value_sum p h7 }"

section \<open>Insertion\<close>

text \<open>The search for the place of a new node: the node with the same key if there is one, the parent
  and the last result of the comparison.\<close>

partial_function (option) insert_search ::
  "(rptr \<Rightarrow> rptr \<Rightarrow> int) \<Rightarrow> redblacktree \<Rightarrow> rptr \<Rightarrow> rptr \<Rightarrow> rptr \<Rightarrow> int \<Rightarrow> (rptr option \<times> rptr \<times> int) option" where
  "insert_search cmp h node wher par cmpResult =
     (if wher = 0 then Some (None, par, cmpResult)
      else let c = cmp node wher
           in if c < 0 then do { l \<leftarrow> left_subtree h wher; insert_search cmp h node l wher c }
              else if c > 0 then do { r \<leftarrow> right_subtree h wher; insert_search cmp h node r wher c }
              else Some (Some wher, wher, c))"

text \<open>The loop that restores the red-black properties.\<close>

partial_function (option) insert_fixup :: "rptr \<Rightarrow> rptr \<Rightarrow> redblacktree \<Rightarrow> redblacktree option" where
  "insert_fixup node par h =
     (if rb_color h par = Red
      then do {
        grandparent \<leftarrow> rb_parent h par;
        if left_subtree h grandparent = Some par
        then do {
          uncle \<leftarrow> right_subtree h grandparent;
          if rb_color h uncle = Red
          then do {
            let h1 = set_color grandparent Red (set_color uncle Black (set_color par Black h));
            p \<leftarrow> rb_parent h1 grandparent;
            insert_fixup grandparent p h1 }
          else do {
            (par1, h1) \<leftarrow> (if right_subtree h par = Some node
               then do {
                 h' \<leftarrow> rbt_rotate_left par h;
                 c_assert (rb_parent h' node = Some grandparent);
                 Some (node, h') }
               else Some (par, h));
            rbt_rotate_right grandparent (set_color grandparent Red (set_color par1 Black h1)) } }
        else do {
          uncle \<leftarrow> left_subtree h grandparent;
          if rb_color h uncle = Red
          then do {
            let h1 = set_color grandparent Red (set_color uncle Black (set_color par Black h));
            p \<leftarrow> rb_parent h1 grandparent;
            insert_fixup grandparent p h1 }
          else do {
            (par1, h1) \<leftarrow> (if left_subtree h par = Some node
               then do {
                 h' \<leftarrow> rbt_rotate_right par h;
                 c_assert (rb_parent h' node = Some grandparent);
                 Some (node, h') }
               else Some (par, h));
            rbt_rotate_left grandparent (set_color grandparent Red (set_color par1 Black h1)) } } }
      else Some h)"

definition rbt_insert :: "(rptr \<Rightarrow> rptr \<Rightarrow> int) \<Rightarrow> rptr \<Rightarrow> redblacktree \<Rightarrow> (rptr \<times> redblacktree) option" where
  "rbt_insert cmp node h = do {
     root \<leftarrow> left_subtree h 0;
     (found, par, cmpResult) \<leftarrow> insert_search cmp h node root 0 (- 1);
     case found of
       Some result \<Rightarrow> Some (result, h)
     | None \<Rightarrow> do {
         let h1 = (if cmpResult < 0 then set_left par (Some node) h else set_right par (Some node) h);
         let h2 = set_right node (Some 0) (set_left node (Some 0) (set_parent node (Some par) h1));
         let h3 = set_sum node (rb_value h2 node) h2;
         let h4 = h3\<lparr>elements := elements h3 + 1\<rparr>;
         p \<leftarrow> rb_parent h4 node;
         h5 \<leftarrow> rbt_update_value_sums_up_to_root p h4;
         h6 \<leftarrow> insert_fixup node par (set_color node Red h5);
         root' \<leftarrow> left_subtree h6 0;
         Some (node, set_color root' Black h6) } }"

section \<open>Removal\<close>

text \<open>
  Unlinking a node: \<open>child\<close> is the node that takes the freed place, the heap is the one before the
  pointers of the removed node are cleared.
\<close>

definition replace_child :: "rptr \<Rightarrow> rptr \<Rightarrow> rptr \<Rightarrow> redblacktree \<Rightarrow> redblacktree option" where
  "replace_child par old new h =
     (if left_subtree h par = Some old then Some (set_left par (Some new) h)
      else do {
        c_assert (right_subtree h par = Some old);
        Some (set_right par (Some new) h) })"

definition unlink_inner :: "rptr \<Rightarrow> redblacktree \<Rightarrow> (rptr \<times> redblacktree) option" where
  "unlink_inner node h = do {
     nx \<leftarrow> rbt_get_next h node;
     next \<leftarrow> nx;
     nextparent \<leftarrow> rb_parent h next;
     let nextcolor = rb_color h next;
     c_assert (next \<noteq> 0);
     c_assert (rb_parent h next \<noteq> Some 0);
     c_assert (left_subtree h next = Some 0);
     child \<leftarrow> right_subtree h next;
     h2 \<leftarrow> replace_child nextparent next child (set_parent child (Some nextparent) h);
     delparent \<leftarrow> rb_parent h2 node;
     nl \<leftarrow> left_subtree h2 node;
     nr \<leftarrow> right_subtree h2 node;
     let h3 = set_right next (Some nr) (set_left next (Some nl) (set_parent next (Some delparent) h2));
     let h4 = set_parent nr (Some next) (set_parent nl (Some next) h3);
     let h5 = set_color node nextcolor (set_color next (rb_color h4 node) h4);
     h6 \<leftarrow> replace_child delparent node next h5;
     h7 \<leftarrow> rbt_update_value_sums_up_to_root next h6;
     h8 \<leftarrow> rbt_update_value_sums_up_to_root nextparent h7;
     Some (child, h8) }"

definition unlink_outer :: "rptr \<Rightarrow> redblacktree \<Rightarrow> (rptr \<times> redblacktree) option" where
  "unlink_outer node h = do {
     c_assert (node \<noteq> 0);
     l \<leftarrow> left_subtree h node;
     r \<leftarrow> right_subtree h node;
     c_assert (l = 0 \<or> r = 0);
     let child = (if l \<noteq> 0 then l else r);
     delparent \<leftarrow> rb_parent h node;
     h2 \<leftarrow> (if left_subtree h delparent = Some node
           then Some (set_left delparent (Some child) (set_parent child (Some delparent) h))
           else do {
             c_assert (right_subtree h delparent = Some node);
             Some (set_right delparent (Some child) (set_parent child (Some delparent) h)) });
     h3 \<leftarrow> rbt_update_value_sums_up_to_root delparent h2;
     Some (child, h3) }"

text \<open>The loop that restores the black height; the root is coloured red, which ends the loop.\<close>

partial_function (option) remove_fixup :: "rptr \<Rightarrow> redblacktree \<Rightarrow> (rptr \<times> redblacktree) option" where
  "remove_fixup child h =
     (if rb_color h child = Black
      then do {
        par \<leftarrow> rb_parent h child;
        if left_subtree h par = Some child
        then do {
          sibling0 \<leftarrow> right_subtree h par;
          c_assert (sibling0 \<noteq> 0);
          (sibling, h1) \<leftarrow> (if rb_color h sibling0 = Red
             then do {
               h' \<leftarrow> rbt_rotate_left par (set_color par Red (set_color sibling0 Black h));
               s \<leftarrow> right_subtree h' par;
               c_assert (s \<noteq> 0);
               Some (s, h') }
             else Some (sibling0, h));
          sl \<leftarrow> left_subtree h1 sibling;
          sr \<leftarrow> right_subtree h1 sibling;
          if rb_color h1 sl = Black \<and> rb_color h1 sr = Black
          then remove_fixup par (set_color sibling Red h1)
          else do {
            (sibling', h2) \<leftarrow> (if rb_color h1 sr = Black
               then do {
                 c_assert (rb_color h1 sl = Red);
                 h' \<leftarrow> rbt_rotate_right sibling (set_color sibling Red (set_color sl Black h1));
                 s \<leftarrow> right_subtree h' par;
                 c_assert (s \<noteq> 0);
                 Some (s, h') }
               else Some (sibling, h1));
            let h3 = set_color sibling' (rb_color h2 par) h2;
            sr' \<leftarrow> right_subtree h3 sibling';
            h4 \<leftarrow> rbt_rotate_left par (set_color par Black (set_color sr' Black h3));
            Some (child, h4) } }
        else do {
          c_assert (right_subtree h par = Some child);
          sibling0 \<leftarrow> left_subtree h par;
          c_assert (sibling0 \<noteq> 0);
          (sibling, h1) \<leftarrow> (if rb_color h sibling0 = Red
             then do {
               h' \<leftarrow> rbt_rotate_right par (set_color par Red (set_color sibling0 Black h));
               s \<leftarrow> left_subtree h' par;
               c_assert (s \<noteq> 0);
               Some (s, h') }
             else Some (sibling0, h));
          sr \<leftarrow> right_subtree h1 sibling;
          sl \<leftarrow> left_subtree h1 sibling;
          if rb_color h1 sr = Black \<and> rb_color h1 sl = Black
          then remove_fixup par (set_color sibling Red h1)
          else do {
            (sibling', h2) \<leftarrow> (if rb_color h1 sl = Black
               then do {
                 c_assert (rb_color h1 sr = Red);
                 h' \<leftarrow> rbt_rotate_left sibling (set_color sibling Red (set_color sr Black h1));
                 s \<leftarrow> left_subtree h' par;
                 c_assert (s \<noteq> 0);
                 Some (s, h') }
               else Some (sibling, h1));
            let h3 = set_color sibling' (rb_color h2 par) h2;
            sl' \<leftarrow> left_subtree h3 sibling';
            h4 \<leftarrow> rbt_rotate_right par (set_color par Black (set_color sl' Black h3));
            Some (child, h4) } } }
      else Some (child, h))"

definition rbt_remove :: "rptr \<Rightarrow> redblacktree \<Rightarrow> (rptr \<times> redblacktree) option" where
  "rbt_remove node h = do {
     c_assert (rbt_node_is_linked h node);
     l \<leftarrow> left_subtree h node;
     r \<leftarrow> right_subtree h node;
     (child, h1) \<leftarrow> (if l \<noteq> 0 \<and> r \<noteq> 0 then unlink_inner node h else unlink_outer node h);
     let h2 = set_left node None (set_right node None (set_parent node None h1));
     c_assert (elements h2 > 0);
     let h3 = h2\<lparr>elements := elements h2 - 1\<rparr>;
     if rb_color h3 node = Black
     then do {
       root \<leftarrow> left_subtree h3 0;
       (child', h4) \<leftarrow> remove_fixup child (set_color root Red h3);
       let h5 = set_color child' Black h4;
       root' \<leftarrow> left_subtree h5 0;
       Some (node, set_color root' Black h5) }
     else Some (node, h3) }"

section \<open>Lookup by value and the nearest nodes\<close>

partial_function (option) by_value_from :: "redblacktree \<Rightarrow> rptr \<Rightarrow> u64 \<Rightarrow> rptr option" where
  "by_value_from h node v = do {
     l \<leftarrow> left_subtree h node;
     if v < value_sum h l
     then (if l \<noteq> 0 then by_value_from h l v else Some node)
     else if v < value_sum h l + rb_value h node then Some node
     else do {
       r \<leftarrow> right_subtree h node;
       if r \<noteq> 0 then by_value_from h r (v - (value_sum h l + rb_value h node)) else Some node } }"

definition rbt_get_node_by_value :: "redblacktree \<Rightarrow> u64 \<Rightarrow> rptr option option" where
  "rbt_get_node_by_value h v = do {
     root \<leftarrow> left_subtree h 0;
     node \<leftarrow> by_value_from h root v;
     Some (if node \<noteq> 0 then Some node else None) }"

text \<open>
  The descent of the nearest-node functions: an equal node, or the last node compared with and
  whether the search left it to the right (\<^const>\<open>None\<close> on an empty tree).
\<close>

partial_function (option) nearest_descent ::
  "(rptr \<Rightarrow> rptr \<Rightarrow> int) \<Rightarrow> redblacktree \<Rightarrow> rptr \<Rightarrow> rptr \<Rightarrow> (rptr \<times> bool) option \<Rightarrow> (rptr + (rptr \<times> bool) option) option" where
  "nearest_descent cmp h cmpNode node par =
     (if node = 0 then Some (Inr par)
      else let cmpResult = cmp cmpNode node
           in if cmpResult < 0
              then do { l \<leftarrow> left_subtree h node; nearest_descent cmp h cmpNode l (Some (node, False)) }
              else if cmpResult > 0
              then do { r \<leftarrow> right_subtree h node; nearest_descent cmp h cmpNode r (Some (node, True)) }
              else Some (Inl node))"

definition rbt_get_nearest_prev ::
  "(rptr \<Rightarrow> rptr \<Rightarrow> int) \<Rightarrow> redblacktree \<Rightarrow> rptr \<Rightarrow> rptr option option" where
  "rbt_get_nearest_prev cmp h cmpNode = do {
     root \<leftarrow> left_subtree h 0;
     d \<leftarrow> nearest_descent cmp h cmpNode root None;
     case d of
       Inl node \<Rightarrow> rbt_get_prev h node
     | Inr None \<Rightarrow> Some None
     | Inr (Some (par, True)) \<Rightarrow> Some (Some par)
     | Inr (Some (par, False)) \<Rightarrow> do {
         l \<leftarrow> left_subtree h par;
         if l \<noteq> 0 then do { node \<leftarrow> walk_right h l; Some (Some node) }
         else do {
           p \<leftarrow> rb_parent h par;
           q \<leftarrow> climb_left h par p;
           Some (if q \<noteq> 0 then Some q else None) } } }"

definition rbt_get_nearest_next ::
  "(rptr \<Rightarrow> rptr \<Rightarrow> int) \<Rightarrow> redblacktree \<Rightarrow> rptr \<Rightarrow> rptr option option" where
  "rbt_get_nearest_next cmp h cmpNode = do {
     root \<leftarrow> left_subtree h 0;
     d \<leftarrow> nearest_descent cmp h cmpNode root None;
     case d of
       Inl node \<Rightarrow> rbt_get_next h node
     | Inr None \<Rightarrow> Some None
     | Inr (Some (par, False)) \<Rightarrow> Some (Some par)
     | Inr (Some (par, True)) \<Rightarrow> do {
         r \<leftarrow> right_subtree h par;
         if r \<noteq> 0 then do { node \<leftarrow> walk_left h r; Some (Some node) }
         else do {
           p \<leftarrow> rb_parent h par;
           q \<leftarrow> climb_right h par p;
           Some (if q \<noteq> 0 then Some q else None) } } }"

section \<open>Verification functions\<close>

text \<open>\<open>rbt_internal_verify\<close>: the black height and the count; \<^const>\<open>None\<close> is a failed assertion.\<close>

partial_function (option) rbt_internal_verify ::
  "(rptr \<Rightarrow> rptr \<Rightarrow> int) \<Rightarrow> redblacktree \<Rightarrow> rptr \<Rightarrow> rptr \<Rightarrow> nat \<Rightarrow> (nat \<times> nat) option" where
  "rbt_internal_verify cmp h par node counter =
     (if node \<noteq> 0
      then do {
        c_assert (rb_parent h node = Some par);
        l \<leftarrow> left_subtree h node;
        c_assert (l \<noteq> 0 \<longrightarrow> cmp node l > 0);
        r \<leftarrow> right_subtree h node;
        c_assert (r \<noteq> 0 \<longrightarrow> cmp node r < 0);
        c_assert (value_sum h node = value_sum h l + rb_value h node + value_sum h r);
        (leftHeight, counter1) \<leftarrow> rbt_internal_verify cmp h node l counter;
        (rightHeight, counter2) \<leftarrow> rbt_internal_verify cmp h node r (counter1 + 1);
        c_assert (leftHeight \<noteq> 0 \<or> rightHeight \<noteq> 0);
        c_assert (leftHeight = rightHeight);
        if rb_color h node = Red
        then do {
          c_assert (rb_color h l = Black);
          c_assert (rb_color h r = Black);
          Some (leftHeight, counter2) }
        else Some (leftHeight + 1, counter2) }
      else Some (1, counter))"

definition rbt_verify :: "(rptr \<Rightarrow> rptr \<Rightarrow> int) \<Rightarrow> redblacktree \<Rightarrow> unit option" where
  "rbt_verify cmp h = do {
     c_assert (rb_color h 0 = Black);
     c_assert (rb_value h 0 = 0);
     c_assert (value_sum h 0 = 0);
     root \<leftarrow> left_subtree h 0;
     (height, counter) \<leftarrow> rbt_internal_verify cmp h 0 root 0;
     c_assert (height \<noteq> 0);
     c_assert (counter = elements h) }"

end
