(* ===== verification/Rbt_Shape.thy ===== *)
theory Rbt_Shape
  imports Redblacktree
begin

text \<open>
  The trees a red-black heap stands for: a functional tree of addresses with colours, the relation
  \<open>is_tree\<close> between heap and tree, contexts (a tree with a hole, from the hole to the root) that name
  the place where the code works, the effect of colour changes and rotations at such a place, and
  the walks to the first, last, previous and next node.
\<close>

section \<open>Trees, contexts and the heap\<close>

type_synonym ctree = "(rptr \<times> redblacktree_node_color_type) tree"

fun root_ptr :: "ctree \<Rightarrow> rptr" where
  "root_ptr Leaf = 0"
| "root_ptr (Node l a r) = fst a"

fun root_color :: "ctree \<Rightarrow> redblacktree_node_color_type" where
  "root_color Leaf = Black"
| "root_color (Node l a r) = snd a"

definition addrs :: "ctree \<Rightarrow> rptr list" where
  "addrs t = map fst (inorder t)"

lemma addrs_simps [simp]: "addrs Leaf = []" "addrs (Node l a r) = addrs l @ fst a # addrs r"
  by (simp_all add: addrs_def)

lemma root_ptr_cases: "t = Leaf \<and> root_ptr t = 0 \<or> root_ptr t \<in> set (addrs t)"
  by (cases t) auto

text \<open>The subtree that hangs below \<open>p\<close>.\<close>

fun shape :: "redblacktree \<Rightarrow> rptr \<Rightarrow> ctree \<Rightarrow> bool" where
  "shape h p Leaf \<longleftrightarrow> True"
| "shape h p (Node l a r) \<longleftrightarrow>
     rb_parent h (fst a) = Some p \<and> rb_color h (fst a) = snd a \<and>
     left_subtree h (fst a) = Some (root_ptr l) \<and> right_subtree h (fst a) = Some (root_ptr r) \<and>
     shape h (fst a) l \<and> shape h (fst a) r"

text \<open>A frame of a context: the hole is the left or the right child.\<close>

datatype frame = FL "rptr \<times> redblacktree_node_color_type" ctree | FR ctree "rptr \<times> redblacktree_node_color_type"

fun plug :: "ctree \<Rightarrow> frame list \<Rightarrow> ctree" where
  "plug t [] = t"
| "plug t (FL a r # c) = plug (Node t a r) c"
| "plug t (FR l a # c) = plug (Node l a t) c"

fun top_ptr :: "frame list \<Rightarrow> rptr" where
  "top_ptr [] = 0"
| "top_ptr (FL a r # c) = fst a"
| "top_ptr (FR l a # c) = fst a"

fun hole :: "redblacktree \<Rightarrow> frame list \<Rightarrow> rptr option" where
  "hole h [] = left_subtree h 0"
| "hole h (FL a r # c) = left_subtree h (fst a)"
| "hole h (FR l a # c) = right_subtree h (fst a)"

fun cshape :: "redblacktree \<Rightarrow> frame list \<Rightarrow> bool" where
  "cshape h [] \<longleftrightarrow> True"
| "cshape h (FL a r # c) \<longleftrightarrow>
     rb_parent h (fst a) = Some (top_ptr c) \<and> rb_color h (fst a) = snd a \<and>
     right_subtree h (fst a) = Some (root_ptr r) \<and> shape h (fst a) r \<and>
     hole h c = Some (fst a) \<and> cshape h c"
| "cshape h (FR l a # c) \<longleftrightarrow>
     rb_parent h (fst a) = Some (top_ptr c) \<and> rb_color h (fst a) = snd a \<and>
     left_subtree h (fst a) = Some (root_ptr l) \<and> shape h (fst a) l \<and>
     hole h c = Some (fst a) \<and> cshape h c"

fun caddrs :: "frame list \<Rightarrow> rptr list" where
  "caddrs [] = []"
| "caddrs (FL a r # c) = fst a # addrs r @ caddrs c"
| "caddrs (FR l a # c) = fst a # addrs l @ caddrs c"

text \<open>The tree at the root, without the colour of the sentinel (which \<open>rbt_remove\<close> may set).\<close>

definition at_root :: "redblacktree \<Rightarrow> ctree \<Rightarrow> bool" where
  "at_root h t \<longleftrightarrow> left_subtree h 0 = Some (root_ptr t) \<and> right_subtree h 0 = Some 0 \<and>
     shape h 0 t \<and> distinct (0 # addrs t) \<and> rb_value h 0 = 0 \<and> value_sum h 0 = 0"

definition is_tree :: "redblacktree \<Rightarrow> ctree \<Rightarrow> bool" where
  "is_tree h t \<longleftrightarrow> at_root h t \<and> rb_color h 0 = Black"

lemma set_addrs_plug: "set (addrs (plug t c)) = set (addrs t) \<union> set (caddrs c)"
  by (induction t c rule: plug.induct) auto

lemma distinct_addrs_plug: "distinct (addrs (plug t c)) \<longleftrightarrow> distinct (addrs t @ caddrs c)"
  by (induction t c rule: plug.induct) (auto simp del: distinct_append simp: distinct_append[symmetric], auto)

lemma shape_plug:
  "left_subtree h 0 = Some (root_ptr (plug t c)) \<and> shape h 0 (plug t c) \<longleftrightarrow>
   hole h c = Some (root_ptr t) \<and> cshape h c \<and> shape h (top_ptr c) t"
proof (induction t c rule: plug.induct)
  case (2 t a r c)
  then show ?case by (cases a) auto
next
  case (3 t l a c)
  then show ?case by (cases a) auto
qed simp

lemma top_ptr_cases: "top_ptr c \<in> insert 0 (set (caddrs c))"
  by (cases c rule: top_ptr.cases) auto

text \<open>Focusing on the hole of a context.\<close>

lemma at_root_plug:
  "at_root h (plug t c) \<longleftrightarrow>
     hole h c = Some (root_ptr t) \<and> cshape h c \<and> shape h (top_ptr c) t \<and> right_subtree h 0 = Some 0 \<and>
     distinct (addrs t @ caddrs c) \<and> 0 \<notin> set (addrs t) \<and> 0 \<notin> set (caddrs c) \<and>
     rb_value h 0 = 0 \<and> value_sum h 0 = 0"
  unfolding at_root_def using shape_plug [of h t c]
  by (auto simp: set_addrs_plug distinct_addrs_plug)

section \<open>Field updates\<close>

lemma set_parent_simps [simp]:
  "rb_parent (set_parent a v h) = (rb_parent h)(a := v)"
  "left_subtree (set_parent a v h) = left_subtree h"
  "right_subtree (set_parent a v h) = right_subtree h"
  "rb_color (set_parent a v h) = rb_color h"
  "rb_value (set_parent a v h) = rb_value h"
  "value_sum (set_parent a v h) = value_sum h"
  "elements (set_parent a v h) = elements h"
  by (simp_all add: set_parent_def)

lemma set_left_simps [simp]:
  "rb_parent (set_left a v h) = rb_parent h"
  "left_subtree (set_left a v h) = (left_subtree h)(a := v)"
  "right_subtree (set_left a v h) = right_subtree h"
  "rb_color (set_left a v h) = rb_color h"
  "rb_value (set_left a v h) = rb_value h"
  "value_sum (set_left a v h) = value_sum h"
  "elements (set_left a v h) = elements h"
  by (simp_all add: set_left_def)

lemma set_right_simps [simp]:
  "rb_parent (set_right a v h) = rb_parent h"
  "left_subtree (set_right a v h) = left_subtree h"
  "right_subtree (set_right a v h) = (right_subtree h)(a := v)"
  "rb_color (set_right a v h) = rb_color h"
  "rb_value (set_right a v h) = rb_value h"
  "value_sum (set_right a v h) = value_sum h"
  "elements (set_right a v h) = elements h"
  by (simp_all add: set_right_def)

lemma set_color_simps [simp]:
  "rb_parent (set_color a v h) = rb_parent h"
  "left_subtree (set_color a v h) = left_subtree h"
  "right_subtree (set_color a v h) = right_subtree h"
  "rb_color (set_color a v h) = (rb_color h)(a := v)"
  "rb_value (set_color a v h) = rb_value h"
  "value_sum (set_color a v h) = value_sum h"
  "elements (set_color a v h) = elements h"
  by (simp_all add: set_color_def)

lemma set_sum_simps [simp]:
  "rb_parent (set_sum a v h) = rb_parent h"
  "left_subtree (set_sum a v h) = left_subtree h"
  "right_subtree (set_sum a v h) = right_subtree h"
  "rb_color (set_sum a v h) = rb_color h"
  "rb_value (set_sum a v h) = rb_value h"
  "value_sum (set_sum a v h) = (value_sum h)(a := v)"
  "elements (set_sum a v h) = elements h"
  by (simp_all add: set_sum_def)

lemma set_value_simps [simp]:
  "rb_parent (set_value a v h) = rb_parent h"
  "left_subtree (set_value a v h) = left_subtree h"
  "right_subtree (set_value a v h) = right_subtree h"
  "rb_color (set_value a v h) = rb_color h"
  "rb_value (set_value a v h) = (rb_value h)(a := v)"
  "value_sum (set_value a v h) = value_sum h"
  "elements (set_value a v h) = elements h"
  by (simp_all add: set_value_def)

section \<open>Framing\<close>

definition same_node :: "redblacktree \<Rightarrow> redblacktree \<Rightarrow> rptr \<Rightarrow> bool" where
  "same_node h h' a \<longleftrightarrow> rb_parent h' a = rb_parent h a \<and> left_subtree h' a = left_subtree h a \<and>
     right_subtree h' a = right_subtree h a \<and> rb_color h' a = rb_color h a"

lemma shape_frame: "\<forall>a \<in> set (addrs t). same_node h h' a \<Longrightarrow> shape h' p t = shape h p t"
proof (induction t arbitrary: p)
  case (Node l a r)
  then show ?case by (cases a) (auto simp: same_node_def)
qed simp

text \<open>A subtree whose root gets another parent.\<close>

lemma shape_reparent:
  assumes "shape h p t" and "distinct (addrs t)"
    and "\<forall>a \<in> set (addrs t) - {root_ptr t}. same_node h h' a"
    and "t \<noteq> Leaf \<Longrightarrow> rb_parent h' (root_ptr t) = Some q \<and> left_subtree h' (root_ptr t) = left_subtree h (root_ptr t) \<and>
       right_subtree h' (root_ptr t) = right_subtree h (root_ptr t) \<and> rb_color h' (root_ptr t) = rb_color h (root_ptr t)"
  shows "shape h' q t"
proof (cases t)
  case (Node l a r)
  obtain x k where a: "a = (x, k)" by (cases a)
  have "shape h' x l = shape h x l" by (rule shape_frame) (use assms(2,3) Node a in auto)
  moreover have "shape h' x r = shape h x r" by (rule shape_frame) (use assms(2,3) Node a in auto)
  ultimately show ?thesis using assms(1,4) Node a by auto
qed simp

lemma cshape_frame:
  "\<forall>a \<in> set (caddrs c). same_node h h' a \<Longrightarrow> left_subtree h' 0 = left_subtree h 0 \<Longrightarrow>
   cshape h' c = cshape h c \<and> hole h' c = hole h c"
proof (induction h c rule: cshape.induct)
  case (2 h a r c)
  then have "shape h' (fst a) r = shape h (fst a) r" by (intro shape_frame) auto
  with 2 show ?case by (auto simp: same_node_def)
next
  case (3 h l a c)
  then have "shape h' (fst a) l = shape h (fst a) l" by (intro shape_frame) auto
  with 3 show ?case by (auto simp: same_node_def)
qed simp

text \<open>A context of which only the pointer at the hole changes.\<close>

lemma cshape_hole:
  assumes "cshape h c" and "distinct (caddrs c)" and "0 \<notin> set (caddrs c)"
    and "\<forall>a \<in> set (caddrs c) - {top_ptr c}. same_node h h' a"
    and "c \<noteq> [] \<Longrightarrow> left_subtree h' 0 = left_subtree h 0"
    and "c \<noteq> [] \<Longrightarrow> rb_parent h' (top_ptr c) = rb_parent h (top_ptr c) \<and> rb_color h' (top_ptr c) = rb_color h (top_ptr c)"
    and "case c of FL a r # c' \<Rightarrow> right_subtree h' (fst a) = right_subtree h (fst a)
         | FR l a # c' \<Rightarrow> left_subtree h' (fst a) = left_subtree h (fst a) | [] \<Rightarrow> True"
  shows "cshape h' c"
proof (cases c)
  case (Cons f c')
  show ?thesis
  proof (cases f)
    case (FL a r)
    obtain x k where a: "a = (x, k)" by (cases a)
    have "shape h' x r = shape h x r" by (rule shape_frame) (use assms(2,4) Cons FL a in auto)
    moreover have "cshape h' c' = cshape h c' \<and> hole h' c' = hole h c'"
      by (rule cshape_frame) (use assms(2,4,5) Cons FL a in auto)
    ultimately show ?thesis using assms Cons FL a by auto
  next
    case (FR l a)
    obtain x k where a: "a = (x, k)" by (cases a)
    have "shape h' x l = shape h x l" by (rule shape_frame) (use assms(2,4) Cons FR a in auto)
    moreover have "cshape h' c' = cshape h c' \<and> hole h' c' = hole h c'"
      by (rule cshape_frame) (use assms(2,4,5) Cons FR a in auto)
    ultimately show ?thesis using assms Cons FR a by auto
  qed
qed simp

section \<open>Colour changes\<close>

lemma recolor_tree:
  assumes "at_root h (plug (Node l (x, k0) r) c)"
  shows "at_root (set_color x k h) (plug (Node l (x, k) r) c)"
proof -
  from assms have a: "hole h c = Some x" "cshape h c" "shape h (top_ptr c) (Node l (x, k0) r)"
      "distinct (addrs (Node l (x, k0) r) @ caddrs c)"
    by (simp_all add: at_root_plug)
  have "cshape (set_color x k h) c = cshape h c \<and> hole (set_color x k h) c = hole h c"
    by (rule cshape_frame) (use a(4) in \<open>auto simp: same_node_def\<close>)
  moreover have "shape (set_color x k h) x l = shape h x l"
    by (rule shape_frame) (use a(4) in \<open>auto simp: same_node_def\<close>)
  moreover have "shape (set_color x k h) x r = shape h x r"
    by (rule shape_frame) (use a(4) in \<open>auto simp: same_node_def\<close>)
  ultimately show ?thesis using assms by (simp add: at_root_plug)
qed

section \<open>Rotations\<close>

text \<open>What an operation leaves alone: the nodes outside the tree, the values and the size.\<close>

definition keeps :: "redblacktree \<Rightarrow> redblacktree \<Rightarrow> rptr set \<Rightarrow> bool" where
  "keeps h h' A \<longleftrightarrow> (\<forall>a. a \<notin> A \<longrightarrow> a \<noteq> 0 \<longrightarrow> same_node h h' a) \<and>
     rb_value h' = rb_value h \<and> elements h' = elements h"

lemma keeps_refl [simp]: "keeps h h A"
  by (simp add: keeps_def same_node_def)

lemma keeps_trans: "keeps h h' A \<Longrightarrow> keeps h' h'' A \<Longrightarrow> keeps h h'' A"
  by (auto simp: keeps_def same_node_def)

lemma keeps_color: "x \<in> A \<Longrightarrow> keeps h (set_color x k h) A"
  by (auto simp: keeps_def same_node_def)

lemma rotate_left_fields:
  assumes "shape h (top_ptr c) (Node A (x, kx) (Node B (y, ky) C))" and "hole h c = Some x"
    and "x \<notin> {0, y, root_ptr B, top_ptr c}" and "y \<notin> {0, root_ptr B, top_ptr c}"
    and "side = (left_subtree h (top_ptr c) = Some x)"
  shows "\<exists>h'. rbt_rotate_left x h = Some h' \<and>
     rb_parent h' = (rb_parent h)(root_ptr B := Some x, y := Some (top_ptr c), x := Some y) \<and>
     left_subtree h' = (left_subtree h)(top_ptr c := (if side then Some y else left_subtree h (top_ptr c)), y := Some x) \<and>
     right_subtree h' = (right_subtree h)(x := Some (root_ptr B), top_ptr c := (if side then right_subtree h (top_ptr c) else Some y)) \<and>
     rb_color h' = rb_color h \<and>
     rb_value h' = rb_value h \<and>
     elements h' = elements h \<and>
     value_sum h' 0 = value_sum h 0"
proof -
  have "side \<or> \<not> side \<and> right_subtree h (top_ptr c) = Some x"
    using assms(2,5) by (cases c rule: top_ptr.cases) auto
  with assms show ?thesis
    by (cases side) (auto simp: rbt_rotate_left_def rbt_update_value_sum_def Let_def fun_upd_twist)
qed

lemma rotate_left_result:
  assumes t: "at_root h (plug (Node A (x, kx) (Node B (y, ky) C)) c)"
    and ne: "x \<notin> {0, y, root_ptr B, top_ptr c}" "y \<notin> {0, root_ptr B, top_ptr c}"
    and "side = (left_subtree h (top_ptr c) = Some x)"
    and h': "rb_parent h' = (rb_parent h)(root_ptr B := Some x, y := Some (top_ptr c), x := Some y)"
      "left_subtree h' = (left_subtree h)(top_ptr c := (if side then Some y else left_subtree h (top_ptr c)), y := Some x)"
      "right_subtree h' = (right_subtree h)(x := Some (root_ptr B), top_ptr c := (if side then right_subtree h (top_ptr c) else Some y))"
      "rb_color h' = rb_color h"
      "rb_value h' = rb_value h"
      "elements h' = elements h"
      "value_sum h' 0 = value_sum h 0"
  shows "at_root h' (plug (Node (Node A (x, kx) B) (y, ky) C) c)"
proof -
  from t have d: "distinct (addrs (Node A (x, kx) (Node B (y, ky) C)) @ caddrs c)" "0 \<notin> set (addrs (Node A (x, kx) (Node B (y, ky) C)))" "0 \<notin> set (caddrs c)"
    and sh: "hole h c = Some x" "cshape h c" "shape h (top_ptr c) (Node A (x, kx) (Node B (y, ky) C))" "right_subtree h 0 = Some 0"
      "rb_value h 0 = 0" "value_sum h 0 = 0"
    by (simp_all add: at_root_plug)
  have same: "same_node h h' a" if "a \<notin> {x, y, root_ptr B, top_ptr c}" for a
    using that by (simp add: same_node_def h')
  have B: "root_ptr B \<in> insert 0 (set (addrs B))" and B': "B \<noteq> Leaf \<Longrightarrow> root_ptr B \<in> set (addrs B)"
    using root_ptr_cases [of B] by auto
  note T = top_ptr_cases [of c]
  have sepA: "set (addrs A) \<inter> insert x (insert y (insert 0 (set (addrs B) \<union> set (caddrs c)))) = {}"
    and sepC: "set (addrs C) \<inter> insert x (insert y (insert 0 (set (addrs B) \<union> set (caddrs c)))) = {}"
    and sepB: "set (addrs B) \<inter> insert x (insert y (insert 0 (set (caddrs c)))) = {}"
    and sepc: "set (caddrs c) \<inter> insert x (insert y (insert 0 (set (addrs B)))) = {}"
    using d by auto
  have xc: "x \<notin> set (caddrs c)" using sepc by blast
  have NIL: "side" if "c = []" using that sh(1) by (simp add: assms(4))
  have FR: "\<not> side" if "c = FR l a # c'" for l a c'
    using that sh(2) ne root_ptr_cases [of l] xc by (cases a) (auto simp: assms(4))
  have "cshape h' c"
  proof (rule cshape_hole [OF sh(2)])
    show "distinct (caddrs c)" "0 \<notin> set (caddrs c)" using d by simp_all
    show "\<forall>a \<in> set (caddrs c) - {top_ptr c}. same_node h h' a"
      using sepc B by (intro ballI same) blast
    show "c \<noteq> [] \<Longrightarrow> left_subtree h' 0 = left_subtree h 0"
      and "c \<noteq> [] \<Longrightarrow> rb_parent h' (top_ptr c) = rb_parent h (top_ptr c) \<and> rb_color h' (top_ptr c) = rb_color h (top_ptr c)"
      using ne sepc B by (cases c rule: top_ptr.cases; auto simp: h')+
    show "case c of FL a r # c' \<Rightarrow> right_subtree h' (fst a) = right_subtree h (fst a)
         | FR l a # c' \<Rightarrow> left_subtree h' (fst a) = left_subtree h (fst a) | [] \<Rightarrow> True"
      using sh(1) ne NIL FR by (cases c rule: top_ptr.cases) (auto simp: h' assms(4))
  qed
  moreover have "hole h' c = Some y"
    using sh(1) ne NIL FR by (cases c rule: top_ptr.cases) (auto simp: h' assms(4))
  moreover have "shape h' x A" "shape h' y C"
    using sh(3) sepA sepC B T same shape_frame [of A h h' x] shape_frame [of C h h' y] by (simp, blast)+
  moreover have "shape h' x B"
  proof (rule shape_reparent [of h y])
    show "shape h y B" "distinct (addrs B)" using sh(3) d(1) by simp_all
    show "\<forall>a \<in> set (addrs B) - {root_ptr B}. same_node h h' a"
      using sepB T by (intro ballI same) blast
    assume "B \<noteq> Leaf"
    then have "root_ptr B \<noteq> top_ptr c" using B' sepB T by auto
    then show "rb_parent h' (root_ptr B) = Some x \<and> left_subtree h' (root_ptr B) = left_subtree h (root_ptr B) \<and>
        right_subtree h' (root_ptr B) = right_subtree h (root_ptr B) \<and> rb_color h' (root_ptr B) = rb_color h (root_ptr B)"
      using ne by (simp add: h')
  qed
  moreover have "right_subtree h' 0 = Some 0" using sh(4) ne NIL d(3) by (cases c rule: top_ptr.cases) (auto simp: h')
  ultimately show ?thesis using sh d ne by (auto simp: at_root_plug h')
qed

lemma rotate_left_tree:
  assumes t: "at_root h (plug (Node A (x, kx) (Node B (y, ky) C)) c)"
  shows "\<exists>h'. rbt_rotate_left x h = Some h' \<and> at_root h' (plug (Node (Node A (x, kx) B) (y, ky) C) c) \<and> rb_color h' = rb_color h \<and>
     keeps h h' (set (addrs (plug (Node A (x, kx) (Node B (y, ky) C)) c))) \<and> (B \<noteq> Leaf \<longrightarrow> rb_parent h' 0 = rb_parent h 0)"
proof -
  let ?t = "Node A (x, kx) (Node B (y, ky) C)"
  define side where "side = (left_subtree h (top_ptr c) = Some x)"
  from t have d: "distinct (addrs ?t @ caddrs c)" "0 \<notin> set (addrs ?t)" and sh: "hole h c = Some x" "shape h (top_ptr c) ?t"
    by (simp_all add: at_root_plug)
  note B = root_ptr_cases [of B] and T = top_ptr_cases [of c]
  have "x \<notin> insert 0 (insert y (set (addrs B) \<union> set (caddrs c)))" "y \<notin> insert 0 (set (addrs B) \<union> set (caddrs c))"
    using d by auto
  then have ne: "x \<notin> {0, y, root_ptr B, top_ptr c}" "y \<notin> {0, root_ptr B, top_ptr c}" using B T by auto
  from rotate_left_fields [OF sh(2,1) ne side_def] obtain h' where e: "rbt_rotate_left x h = Some h'"
    and h': "rb_parent h' = (rb_parent h)(root_ptr B := Some x, y := Some (top_ptr c), x := Some y)"
      "left_subtree h' = (left_subtree h)(top_ptr c := (if side then Some y else left_subtree h (top_ptr c)), y := Some x)"
      "right_subtree h' = (right_subtree h)(x := Some (root_ptr B), top_ptr c := (if side then right_subtree h (top_ptr c) else Some y))"
      "rb_color h' = rb_color h"
      "rb_value h' = rb_value h"
      "elements h' = elements h"
      "value_sum h' 0 = value_sum h 0" by blast
  have "keeps h h' (set (addrs (plug ?t c)))"
    using B T by (auto simp: keeps_def same_node_def h' set_addrs_plug)
  moreover have "B \<noteq> Leaf \<longrightarrow> rb_parent h' 0 = rb_parent h 0"
    using B d(2) ne by (auto simp: h')
  ultimately show ?thesis using e rotate_left_result [OF t ne side_def h'] h' by blast
qed

lemma rotate_right_fields:
  assumes "shape h (top_ptr c) (Node (Node C (y, ky) B) (x, kx) A)" and "hole h c = Some x"
    and "x \<notin> {0, y, root_ptr B, top_ptr c}" and "y \<notin> {0, root_ptr B, top_ptr c}"
    and "side = (right_subtree h (top_ptr c) = Some x)"
  shows "\<exists>h'. rbt_rotate_right x h = Some h' \<and>
     rb_parent h' = (rb_parent h)(root_ptr B := Some x, y := Some (top_ptr c), x := Some y) \<and>
     right_subtree h' = (right_subtree h)(top_ptr c := (if side then Some y else right_subtree h (top_ptr c)), y := Some x) \<and>
     left_subtree h' = (left_subtree h)(x := Some (root_ptr B), top_ptr c := (if side then left_subtree h (top_ptr c) else Some y)) \<and>
     rb_color h' = rb_color h \<and>
     rb_value h' = rb_value h \<and>
     elements h' = elements h \<and>
     value_sum h' 0 = value_sum h 0"
proof -
  have "side \<or> \<not> side \<and> left_subtree h (top_ptr c) = Some x"
    using assms(2,5) by (cases c rule: top_ptr.cases) auto
  with assms show ?thesis
    by (cases side) (auto simp: rbt_rotate_right_def rbt_update_value_sum_def Let_def fun_upd_twist)
qed

lemma rotate_right_result:
  assumes t: "at_root h (plug (Node (Node C (y, ky) B) (x, kx) A) c)"
    and ne: "x \<notin> {0, y, root_ptr B, top_ptr c}" "y \<notin> {0, root_ptr B, top_ptr c}"
    and "side = (right_subtree h (top_ptr c) = Some x)"
    and h': "rb_parent h' = (rb_parent h)(root_ptr B := Some x, y := Some (top_ptr c), x := Some y)"
      "right_subtree h' = (right_subtree h)(top_ptr c := (if side then Some y else right_subtree h (top_ptr c)), y := Some x)"
      "left_subtree h' = (left_subtree h)(x := Some (root_ptr B), top_ptr c := (if side then left_subtree h (top_ptr c) else Some y))"
      "rb_color h' = rb_color h"
      "rb_value h' = rb_value h"
      "elements h' = elements h"
      "value_sum h' 0 = value_sum h 0"
  shows "at_root h' (plug (Node C (y, ky) (Node B (x, kx) A)) c)"
proof -
  from t have d: "distinct (addrs (Node (Node C (y, ky) B) (x, kx) A) @ caddrs c)" "0 \<notin> set (addrs (Node (Node C (y, ky) B) (x, kx) A))" "0 \<notin> set (caddrs c)"
    and sh: "hole h c = Some x" "cshape h c" "shape h (top_ptr c) (Node (Node C (y, ky) B) (x, kx) A)" "right_subtree h 0 = Some 0"
      "rb_value h 0 = 0" "value_sum h 0 = 0"
    by (simp_all add: at_root_plug)
  have same: "same_node h h' a" if "a \<notin> {x, y, root_ptr B, top_ptr c}" for a
    using that by (simp add: same_node_def h')
  have B: "root_ptr B \<in> insert 0 (set (addrs B))" and B': "B \<noteq> Leaf \<Longrightarrow> root_ptr B \<in> set (addrs B)"
    using root_ptr_cases [of B] by auto
  note T = top_ptr_cases [of c]
  have sepA: "set (addrs A) \<inter> insert x (insert y (insert 0 (set (addrs B) \<union> set (caddrs c)))) = {}"
    and sepC: "set (addrs C) \<inter> insert x (insert y (insert 0 (set (addrs B) \<union> set (caddrs c)))) = {}"
    and sepB: "set (addrs B) \<inter> insert x (insert y (insert 0 (set (caddrs c)))) = {}"
    and sepc: "set (caddrs c) \<inter> insert x (insert y (insert 0 (set (addrs B)))) = {}"
    using d by auto
  have xc: "x \<notin> set (caddrs c)" using sepc by blast
  have NIL: "\<not> side" if "c = []" using that sh(4) ne by (simp add: assms(4))
  have FL: "\<not> side" if "c = FL a r # c'" for a r c'
    using that sh(2) ne root_ptr_cases [of r] xc by (cases a) (auto simp: assms(4))
  have "cshape h' c"
  proof (rule cshape_hole [OF sh(2)])
    show "distinct (caddrs c)" "0 \<notin> set (caddrs c)" using d by simp_all
    show "\<forall>a \<in> set (caddrs c) - {top_ptr c}. same_node h h' a"
      using sepc B by (intro ballI same) blast
    show "c \<noteq> [] \<Longrightarrow> left_subtree h' 0 = left_subtree h 0"
      and "c \<noteq> [] \<Longrightarrow> rb_parent h' (top_ptr c) = rb_parent h (top_ptr c) \<and> rb_color h' (top_ptr c) = rb_color h (top_ptr c)"
      using ne sepc B by (cases c rule: top_ptr.cases; auto simp: h')+
    show "case c of FL a r # c' \<Rightarrow> right_subtree h' (fst a) = right_subtree h (fst a)
         | FR l a # c' \<Rightarrow> left_subtree h' (fst a) = left_subtree h (fst a) | [] \<Rightarrow> True"
      using sh(1) ne NIL FL by (cases c rule: top_ptr.cases) (auto simp: h' assms(4))
  qed
  moreover have "hole h' c = Some y"
    using sh(1) ne NIL FL by (cases c rule: top_ptr.cases) (auto simp: h' assms(4))
  moreover have "shape h' x A" "shape h' y C"
    using sh(3) sepA sepC B T same shape_frame [of A h h' x] shape_frame [of C h h' y] by (simp, blast)+
  moreover have "shape h' x B"
  proof (rule shape_reparent [of h y])
    show "shape h y B" "distinct (addrs B)" using sh(3) d(1) by simp_all
    show "\<forall>a \<in> set (addrs B) - {root_ptr B}. same_node h h' a"
      using sepB T by (intro ballI same) blast
    assume "B \<noteq> Leaf"
    then have "root_ptr B \<noteq> top_ptr c" using B' sepB T by auto
    then show "rb_parent h' (root_ptr B) = Some x \<and> left_subtree h' (root_ptr B) = left_subtree h (root_ptr B) \<and>
        right_subtree h' (root_ptr B) = right_subtree h (root_ptr B) \<and> rb_color h' (root_ptr B) = rb_color h (root_ptr B)"
      using ne by (simp add: h')
  qed
  moreover have "right_subtree h' 0 = Some 0" using sh(4) ne NIL d(3) by (cases c rule: top_ptr.cases) (auto simp: h')
  ultimately show ?thesis using sh d ne by (auto simp: at_root_plug h')
qed

lemma rotate_right_tree:
  assumes t: "at_root h (plug (Node (Node C (y, ky) B) (x, kx) A) c)"
  shows "\<exists>h'. rbt_rotate_right x h = Some h' \<and> at_root h' (plug (Node C (y, ky) (Node B (x, kx) A)) c) \<and> rb_color h' = rb_color h \<and>
     keeps h h' (set (addrs (plug (Node (Node C (y, ky) B) (x, kx) A) c))) \<and> (B \<noteq> Leaf \<longrightarrow> rb_parent h' 0 = rb_parent h 0)"
proof -
  let ?t = "Node (Node C (y, ky) B) (x, kx) A"
  define side where "side = (right_subtree h (top_ptr c) = Some x)"
  from t have d: "distinct (addrs ?t @ caddrs c)" "0 \<notin> set (addrs ?t)" and sh: "hole h c = Some x" "shape h (top_ptr c) ?t"
    by (simp_all add: at_root_plug)
  note B = root_ptr_cases [of B] and T = top_ptr_cases [of c]
  have "x \<notin> insert 0 (insert y (set (addrs B) \<union> set (caddrs c)))" "y \<notin> insert 0 (set (addrs B) \<union> set (caddrs c))"
    using d by auto
  then have ne: "x \<notin> {0, y, root_ptr B, top_ptr c}" "y \<notin> {0, root_ptr B, top_ptr c}" using B T by auto
  from rotate_right_fields [OF sh(2,1) ne side_def] obtain h' where e: "rbt_rotate_right x h = Some h'"
    and h': "rb_parent h' = (rb_parent h)(root_ptr B := Some x, y := Some (top_ptr c), x := Some y)"
      "right_subtree h' = (right_subtree h)(top_ptr c := (if side then Some y else right_subtree h (top_ptr c)), y := Some x)"
      "left_subtree h' = (left_subtree h)(x := Some (root_ptr B), top_ptr c := (if side then left_subtree h (top_ptr c) else Some y))"
      "rb_color h' = rb_color h"
      "rb_value h' = rb_value h"
      "elements h' = elements h"
      "value_sum h' 0 = value_sum h 0" by blast
  have "keeps h h' (set (addrs (plug ?t c)))"
    using B T by (auto simp: keeps_def same_node_def h' set_addrs_plug)
  moreover have "B \<noteq> Leaf \<longrightarrow> rb_parent h' 0 = rb_parent h 0"
    using B d(2) ne by (auto simp: h')
  ultimately show ?thesis using e rotate_right_result [OF t ne side_def h'] h' by blast
qed

end
