(* ===== verification/Rbt_Insert.thy ===== *)
theory Rbt_Insert
  imports Rbt_Shape
begin

text \<open>
  The red-black invariants of the trees and of the contexts around a hole, and the repair loop of
  \<open>rbt_insert\<close>: it terminates, never fails an assertion, keeps the order of the nodes and restores the
  red-black properties.
\<close>

section \<open>Red-black invariants\<close>

lemma not_Red [simp]: "k \<noteq> Red \<longleftrightarrow> k = Black"
  by (cases k) auto

lemma not_Black [simp]: "k \<noteq> Black \<longleftrightarrow> k = Red"
  by (cases k) auto

fun invc :: "ctree \<Rightarrow> bool" where
  "invc Leaf \<longleftrightarrow> True"
| "invc (Node l a r) \<longleftrightarrow> (snd a = Red \<longrightarrow> root_color l = Black \<and> root_color r = Black) \<and> invc l \<and> invc r"

fun bheight :: "ctree \<Rightarrow> nat" where
  "bheight Leaf = 0"
| "bheight (Node l a r) = bheight l + (if snd a = Black then 1 else 0)"

fun invh :: "ctree \<Rightarrow> bool" where
  "invh Leaf \<longleftrightarrow> True"
| "invh (Node l a r) \<longleftrightarrow> bheight l = bheight r \<and> invh l \<and> invh r"

text \<open>The colour invariant everywhere but at the root.\<close>

fun invc2 :: "ctree \<Rightarrow> bool" where
  "invc2 Leaf \<longleftrightarrow> True"
| "invc2 (Node l a r) \<longleftrightarrow> invc l \<and> invc r"

fun paint :: "redblacktree_node_color_type \<Rightarrow> ctree \<Rightarrow> ctree" where
  "paint k Leaf = Leaf"
| "paint k (Node l a r) = Node l (fst a, k) r"

fun top_color :: "frame list \<Rightarrow> redblacktree_node_color_type" where
  "top_color [] = Black"
| "top_color (FL a r # c) = snd a"
| "top_color (FR l a # c) = snd a"

text \<open>The colour of the root frame.\<close>

fun root_frame_color :: "frame list \<Rightarrow> redblacktree_node_color_type" where
  "root_frame_color [] = Black"
| "root_frame_color [f] = top_color [f]"
| "root_frame_color (f # c) = root_frame_color c"

text \<open>
  A context into which a tree of black height \<open>m\<close> fits; the colours at the root are left open, since
  the root is painted black in the end (and red in between, by \<open>rbt_remove\<close>).
\<close>

fun cok :: "frame list \<Rightarrow> nat \<Rightarrow> bool" where
  "cok [] m \<longleftrightarrow> True"
| "cok (FL a s # c) m \<longleftrightarrow> invc s \<and> invh s \<and> bheight s = m \<and>
     (snd a = Red \<and> c \<noteq> [] \<longrightarrow> root_color s = Black) \<and> (snd a = Red \<and> length c > 1 \<longrightarrow> top_color c = Black) \<and>
     cok c (m + (if snd a = Black then 1 else 0))"
| "cok (FR s a # c) m \<longleftrightarrow> invc s \<and> invh s \<and> bheight s = m \<and>
     (snd a = Red \<and> c \<noteq> [] \<longrightarrow> root_color s = Black) \<and> (snd a = Red \<and> length c > 1 \<longrightarrow> top_color c = Black) \<and>
     cok c (m + (if snd a = Black then 1 else 0))"

lemma cok_plug:
  assumes "cok c (bheight t)" and "invc t" and "invh t"
    and "root_color t = Red \<longrightarrow> length c > 1 \<longrightarrow> top_color c = Black"
  shows "invh (plug t c) \<and> (if c = [] then invc (plug t c) else invc2 (plug t c))"
  using assms
proof (induction t c rule: plug.induct)
  case (2 t a s c)
  show ?case
  proof (cases "c = []")
    case False
    with "2.prems" have "top_color c = Black" if "snd a = Red" "length c > 1" using that by simp
    with "2.prems" False have "invh (plug (Node t a s) c) \<and>
        (if c = [] then invc (plug (Node t a s) c) else invc2 (plug (Node t a s) c))"
      by (intro "2.IH") auto
    with False show ?thesis by simp
  qed (use "2.prems" in auto)
next
  case (3 t s a c)
  show ?case
  proof (cases "c = []")
    case False
    with "3.prems" have "top_color c = Black" if "snd a = Red" "length c > 1" using that by simp
    with "3.prems" False have "invh (plug (Node s a t) c) \<and>
        (if c = [] then invc (plug (Node s a t) c) else invc2 (plug (Node s a t) c))"
      by (intro "3.IH") auto
    with False show ?thesis by simp
  qed (use "3.prems" in auto)
qed simp

lemma invc_invc2: "invc t \<Longrightarrow> invc2 t"
  by (cases t) auto

lemma cok_plug2:
  assumes "cok c (bheight t)" and "invc t" and "invh t"
    and "root_color t = Red \<longrightarrow> length c > 1 \<longrightarrow> top_color c = Black"
  shows "invh (plug t c) \<and> invc2 (plug t c)"
  using cok_plug [OF assms] invc_invc2 by (auto split: if_splits)

text \<open>What lies left and right of the hole.\<close>

fun lefts :: "frame list \<Rightarrow> rptr list" where
  "lefts [] = []"
| "lefts (FL a r # c) = lefts c"
| "lefts (FR l a # c) = lefts c @ addrs l @ [fst a]"

fun rights :: "frame list \<Rightarrow> rptr list" where
  "rights [] = []"
| "rights (FL a r # c) = fst a # addrs r @ rights c"
| "rights (FR l a # c) = rights c"

lemma addrs_plug: "addrs (plug t c) = lefts c @ addrs t @ rights c"
  by (induction t c rule: plug.induct) auto

lemma set_caddrs: "set (caddrs c) = set (lefts c) \<union> set (rights c)"
  by (induction c rule: caddrs.induct) auto

text \<open>The colours of the heap at the places a tree and a context name.\<close>

lemma shape_root_color: "shape h p t \<Longrightarrow> rb_color h 0 = Black \<Longrightarrow> rb_color h (root_ptr t) = root_color t"
  by (cases t) auto

lemma cshape_top_color: "cshape h c \<Longrightarrow> rb_color h 0 = Black \<Longrightarrow> rb_color h (top_ptr c) = top_color c"
  by (cases c rule: top_ptr.cases) auto

section \<open>The insertion loop\<close>

lemma at_root_focus:
  assumes "at_root h (plug (Node l (x, k) r) c)"
  shows "rb_parent h x = Some (top_ptr c)" "left_subtree h x = Some (root_ptr l)"
    "right_subtree h x = Some (root_ptr r)" "rb_color h x = k" "x \<noteq> 0"
    "x \<notin> set (addrs l)" "x \<notin> set (addrs r)" "x \<notin> set (caddrs c)"
  using assms by (auto simp: at_root_plug)

text \<open>The goal of the loop: the tree with the same nodes in the same order, red-black but for the
  colour of the root.\<close>

definition fixed :: "redblacktree \<Rightarrow> rptr list \<Rightarrow> redblacktree \<Rightarrow> bool" where
  "fixed h as h' \<longleftrightarrow> rb_color h' 0 = Black \<and> keeps h h' (set as) \<and>
     (\<exists>T. at_root h' T \<and> addrs T = as \<and> invh T \<and> invc2 T)"

lemma fixed_keeps: "keeps h h1 (set as) \<Longrightarrow> fixed h1 as h2 \<Longrightarrow> fixed h as h2"
  by (auto simp: fixed_def intro: keeps_trans)

lemma fixedI:
  "at_root h' T \<Longrightarrow> addrs T = as \<Longrightarrow> rb_color h' 0 = Black \<Longrightarrow> keeps h h' (set as) \<Longrightarrow>
   invh T \<and> invc2 T \<Longrightarrow> fixed h as h'"
  by (auto simp: fixed_def)

text \<open>A red parent and a red uncle: recolouring.\<close>

lemma insert_recolor:
  assumes "at_root h (plug (Node (Node pl (p, kp) pr) (g, kg) (Node ul (u, ku) ur)) c)"
  shows "at_root (set_color g Red (set_color u Black (set_color p Black h)))
           (plug (Node (Node pl (p, Black) pr) (g, Red) (Node ul (u, Black) ur)) c)"
    and "at_root (set_color g Red (set_color p Black (set_color u Black h)))
           (plug (Node (Node pl (p, Black) pr) (g, Red) (Node ul (u, Black) ur)) c)"
proof -
  have u: "at_root (set_color u Black h') (plug (Node P (g, k) (Node ul (u, Black) ur)) c)"
    if "at_root h' (plug (Node P (g, k) (Node ul (u, ku) ur)) c)" for h' P k
    using recolor_tree [of h' ul u ku ur "FR P (g, k) # c" Black] that by simp
  have p: "at_root (set_color p Black h') (plug (Node (Node pl (p, Black) pr) (g, k) U) c)"
    if "at_root h' (plug (Node (Node pl (p, kp) pr) (g, k) U) c)" for h' U k
    using recolor_tree [of h' pl p kp pr "FL (g, k) U # c" Black] that by simp
  show "at_root (set_color g Red (set_color u Black (set_color p Black h)))
           (plug (Node (Node pl (p, Black) pr) (g, Red) (Node ul (u, Black) ur)) c)"
    "at_root (set_color g Red (set_color p Black (set_color u Black h)))
           (plug (Node (Node pl (p, Black) pr) (g, Red) (Node ul (u, Black) ur)) c)"
    using assms by (auto intro: recolor_tree u p)
qed

text \<open>A black uncle: one rotation at the grandparent.\<close>

lemma insert_rotate_right:
  assumes "at_root h (plug (Node (Node t (p, kp) s) (g, kg) U) c)"
  shows "\<exists>h'. rbt_rotate_right g (set_color g Red (set_color p Black h)) = Some h' \<and>
     at_root h' (plug (Node t (p, Black) (Node s (g, Red) U)) c) \<and>
     rb_color h' 0 = rb_color h 0 \<and> keeps h h' (set (addrs (plug (Node (Node t (p, kp) s) (g, kg) U) c)))"
proof -
  let ?h = "set_color g Red (set_color p Black h)"
  have "at_root (set_color p Black h) (plug (Node (Node t (p, Black) s) (g, kg) U) c)"
    using recolor_tree [of h t p kp s "FL (g, kg) U # c" Black] assms by simp
  then have "at_root ?h (plug (Node (Node t (p, Black) s) (g, Red) U) c)" by (rule recolor_tree)
  from rotate_right_tree [OF this] obtain h' where h': "rbt_rotate_right g ?h = Some h'"
    "at_root h' (plug (Node t (p, Black) (Node s (g, Red) U)) c)" "rb_color h' = rb_color ?h"
    "keeps ?h h' (set (addrs (plug (Node (Node t (p, Black) s) (g, Red) U) c)))" by blast
  have "p \<noteq> 0" "g \<noteq> 0" using assms by (auto simp: at_root_plug)
  moreover have "keeps h h' (set (addrs (plug (Node (Node t (p, kp) s) (g, kg) U) c)))"
    using h'(4) by (auto simp: keeps_def same_node_def set_addrs_plug)
  ultimately show ?thesis using h' by auto
qed

lemma insert_rotate_left:
  assumes "at_root h (plug (Node U (g, kg) (Node s (p, kp) t)) c)"
  shows "\<exists>h'. rbt_rotate_left g (set_color g Red (set_color p Black h)) = Some h' \<and>
     at_root h' (plug (Node (Node U (g, Red) s) (p, Black) t) c) \<and>
     rb_color h' 0 = rb_color h 0 \<and> keeps h h' (set (addrs (plug (Node U (g, kg) (Node s (p, kp) t)) c)))"
proof -
  let ?h = "set_color g Red (set_color p Black h)"
  have "at_root (set_color p Black h) (plug (Node U (g, kg) (Node s (p, Black) t)) c)"
    using recolor_tree [of h s p kp t "FR U (g, kg) # c" Black] assms by simp
  then have "at_root ?h (plug (Node U (g, Red) (Node s (p, Black) t)) c)" by (rule recolor_tree)
  from rotate_left_tree [OF this] obtain h' where h': "rbt_rotate_left g ?h = Some h'"
    "at_root h' (plug (Node (Node U (g, Red) s) (p, Black) t) c)" "rb_color h' = rb_color ?h"
    "keeps ?h h' (set (addrs (plug (Node U (g, Red) (Node s (p, Black) t)) c)))" by blast
  have "p \<noteq> 0" "g \<noteq> 0" using assms by (auto simp: at_root_plug)
  moreover have "keeps h h' (set (addrs (plug (Node U (g, kg) (Node s (p, kp) t)) c)))"
    using h'(4) by (auto simp: keeps_def same_node_def set_addrs_plug)
  ultimately show ?thesis using h' by auto
qed

lemma insert_unfold_left:
  assumes t: "at_root h (plug (Node (Node (a) (p, Red) (b)) (g, kg) (U)) c)" and col: "rb_color h 0 = Black"
  shows "root_color U = Red \<Longrightarrow> insert_fixup n p h = insert_fixup g (top_ptr c)
           (set_color g Red (set_color (root_ptr U) Black (set_color p Black h)))"
    and "root_color U = Black \<Longrightarrow> root_ptr b \<noteq> n \<Longrightarrow>
         insert_fixup n p h = rbt_rotate_right g (set_color g Red (set_color p Black h))"
    and "root_color U = Black \<Longrightarrow> root_ptr b = n \<Longrightarrow> rbt_rotate_left p h = Some h' \<Longrightarrow> rb_parent h' n = Some g \<Longrightarrow>
         insert_fixup n p h = rbt_rotate_right g (set_color g Red (set_color n Black h'))"
proof -
  from t have s: "shape h (top_ptr c) (Node (Node (a) (p, Red) (b)) (g, kg) (U))"
    by (simp add: at_root_plug)
  have u: "rb_color h (root_ptr U) = root_color U"
    using s col by (intro shape_root_color [of h g]) auto
  show "root_color U = Red \<Longrightarrow> insert_fixup n p h = insert_fixup g (top_ptr c)
           (set_color g Red (set_color (root_ptr U) Black (set_color p Black h)))"
    and "root_color U = Black \<Longrightarrow> root_ptr b \<noteq> n \<Longrightarrow>
         insert_fixup n p h = rbt_rotate_right g (set_color g Red (set_color p Black h))"
    and "root_color U = Black \<Longrightarrow> root_ptr b = n \<Longrightarrow> rbt_rotate_left p h = Some h' \<Longrightarrow> rb_parent h' n = Some g \<Longrightarrow>
         insert_fixup n p h = rbt_rotate_right g (set_color g Red (set_color n Black h'))"
    using s u by (subst insert_fixup.simps; simp)+
qed

lemma insert_outer_left:
  assumes t: "at_root h (plug (Node (Node (Node l (n, Red) r) (p, Red) (s)) (g, kg) (U)) c)" and col: "rb_color h 0 = Black" and U: "root_color U = Black"
    and rb: "invc (Node l (n, Red) r)" "invh (Node l (n, Red) r)" "invc s" "invh s" "bheight s = bheight l"
      "root_color s = Black" "invc U" "invh U" "bheight U = bheight l" "cok c (bheight l + 1)"
  shows "\<exists>h'. insert_fixup n p h = Some h' \<and> fixed h (addrs (plug (Node (Node (Node l (n, Red) r) (p, Red) (s)) (g, kg) (U)) c)) h'"
proof -
  from t have "root_ptr s \<noteq> n" using root_ptr_cases [of s] by (auto simp: at_root_plug)
  with insert_unfold_left(2) [OF t col U] have e: "insert_fixup n p h =
      rbt_rotate_right g (set_color g Red (set_color p Black h))" by simp
  from insert_rotate_right [OF t] obtain h' where h': "rbt_rotate_right g (set_color g Red (set_color p Black h)) = Some h'"
    "at_root h' (plug (Node (Node l (n, Red) r) (p, Black) (Node (s) (g, Red) (U))) c)" "rb_color h' 0 = rb_color h 0"
    "keeps h h' (set (addrs (plug (Node (Node (Node l (n, Red) r) (p, Red) (s)) (g, kg) (U)) c)))" by blast
  have "invh (plug (Node (Node l (n, Red) r) (p, Black) (Node (s) (g, Red) (U))) c) \<and> invc2 (plug (Node (Node l (n, Red) r) (p, Black) (Node (s) (g, Red) (U))) c)"
    by (rule cok_plug2) (use rb U in auto)
  with e h' col show ?thesis by (auto simp: addrs_plug intro!: fixedI)
qed

lemma insert_inner_left:
  assumes t: "at_root h (plug (Node (Node (s) (p, Red) (Node l (n, Red) r)) (g, kg) (U)) c)" and col: "rb_color h 0 = Black" and U: "root_color U = Black"
    and rb: "invc (Node l (n, Red) r)" "invh (Node l (n, Red) r)" "invc s" "invh s" "bheight s = bheight l"
      "root_color s = Black" "invc U" "invh U" "bheight U = bheight l" "cok c (bheight l + 1)"
  shows "\<exists>h'. insert_fixup n p h = Some h' \<and> fixed h (addrs (plug (Node (Node (s) (p, Red) (Node l (n, Red) r)) (g, kg) (U)) c)) h'"
proof -
  have "at_root h (plug (Node (s) (p, Red) (Node l (n, Red) r)) (FL (g, kg) U # c))" using t by simp
  from rotate_left_tree [OF this] obtain h1 where h1: "rbt_rotate_left p h = Some h1"
    "at_root h1 (plug (Node (Node (Node (s) (p, Red) (l)) (n, Red) (r)) (g, kg) (U)) c)" "rb_color h1 = rb_color h" "keeps h h1 (set (addrs (plug (Node (Node (s) (p, Red) (Node l (n, Red) r)) (g, kg) (U)) c)))" by auto
  have "rb_parent h1 n = Some g" using h1(2) by (simp add: at_root_plug)
  with insert_unfold_left(3) [OF t col U _ h1(1)] have e: "insert_fixup n p h =
      rbt_rotate_right g (set_color g Red (set_color n Black h1))" by simp
  from insert_rotate_right [OF h1(2)] obtain h' where h': "rbt_rotate_right g (set_color g Red (set_color n Black h1)) = Some h'"
    "at_root h' (plug (Node (Node (s) (p, Red) (l)) (n, Black) (Node (r) (g, Red) (U))) c)" "rb_color h' 0 = rb_color h1 0"
    "keeps h1 h' (set (addrs (plug (Node (Node (Node (s) (p, Red) (l)) (n, Red) (r)) (g, kg) (U)) c)))" by blast
  have "invh (plug (Node (Node (s) (p, Red) (l)) (n, Black) (Node (r) (g, Red) (U))) c) \<and> invc2 (plug (Node (Node (s) (p, Red) (l)) (n, Black) (Node (r) (g, Red) (U))) c)"
    by (rule cok_plug2) (use rb U in auto)
  moreover have "keeps h h' (set (addrs (plug (Node (Node (s) (p, Red) (Node l (n, Red) r)) (g, kg) (U)) c)))"
    by (rule keeps_trans [OF h1(4)]) (use h'(4) in \<open>simp add: addrs_plug\<close>)
  ultimately show ?thesis using e h' h1(3) col by (auto simp: addrs_plug intro!: fixedI)
qed

lemma insert_unfold_right:
  assumes t: "at_root h (plug (Node (U) (g, kg) (Node (b) (p, Red) (a))) c)" and col: "rb_color h 0 = Black"
  shows "root_color U = Red \<Longrightarrow> insert_fixup n p h = insert_fixup g (top_ptr c)
           (set_color g Red (set_color (root_ptr U) Black (set_color p Black h)))"
    and "root_color U = Black \<Longrightarrow> root_ptr b \<noteq> n \<Longrightarrow>
         insert_fixup n p h = rbt_rotate_left g (set_color g Red (set_color p Black h))"
    and "root_color U = Black \<Longrightarrow> root_ptr b = n \<Longrightarrow> rbt_rotate_right p h = Some h' \<Longrightarrow> rb_parent h' n = Some g \<Longrightarrow>
         insert_fixup n p h = rbt_rotate_left g (set_color g Red (set_color n Black h'))"
proof -
  from t have s: "shape h (top_ptr c) (Node (U) (g, kg) (Node (b) (p, Red) (a)))"
    by (simp add: at_root_plug)
  have u: "rb_color h (root_ptr U) = root_color U"
    using s col by (intro shape_root_color [of h g]) auto
  have ne: "left_subtree h g \<noteq> Some p" using s root_ptr_cases [of U] t by (auto simp: at_root_plug)
  show "root_color U = Red \<Longrightarrow> insert_fixup n p h = insert_fixup g (top_ptr c)
           (set_color g Red (set_color (root_ptr U) Black (set_color p Black h)))"
    and "root_color U = Black \<Longrightarrow> root_ptr b \<noteq> n \<Longrightarrow>
         insert_fixup n p h = rbt_rotate_left g (set_color g Red (set_color p Black h))"
    and "root_color U = Black \<Longrightarrow> root_ptr b = n \<Longrightarrow> rbt_rotate_right p h = Some h' \<Longrightarrow> rb_parent h' n = Some g \<Longrightarrow>
         insert_fixup n p h = rbt_rotate_left g (set_color g Red (set_color n Black h'))"
    using s u ne by (subst insert_fixup.simps; simp)+
qed

lemma insert_outer_right:
  assumes t: "at_root h (plug (Node (U) (g, kg) (Node (s) (p, Red) (Node l (n, Red) r))) c)" and col: "rb_color h 0 = Black" and U: "root_color U = Black"
    and rb: "invc (Node l (n, Red) r)" "invh (Node l (n, Red) r)" "invc s" "invh s" "bheight s = bheight l"
      "root_color s = Black" "invc U" "invh U" "bheight U = bheight l" "cok c (bheight l + 1)"
  shows "\<exists>h'. insert_fixup n p h = Some h' \<and> fixed h (addrs (plug (Node (U) (g, kg) (Node (s) (p, Red) (Node l (n, Red) r))) c)) h'"
proof -
  from t have "root_ptr s \<noteq> n" using root_ptr_cases [of s] by (auto simp: at_root_plug)
  with insert_unfold_right(2) [OF t col U] have e: "insert_fixup n p h =
      rbt_rotate_left g (set_color g Red (set_color p Black h))" by simp
  from insert_rotate_left [OF t] obtain h' where h': "rbt_rotate_left g (set_color g Red (set_color p Black h)) = Some h'"
    "at_root h' (plug (Node (Node (U) (g, Red) (s)) (p, Black) (Node l (n, Red) r)) c)" "rb_color h' 0 = rb_color h 0"
    "keeps h h' (set (addrs (plug (Node (U) (g, kg) (Node (s) (p, Red) (Node l (n, Red) r))) c)))" by blast
  have "invh (plug (Node (Node (U) (g, Red) (s)) (p, Black) (Node l (n, Red) r)) c) \<and> invc2 (plug (Node (Node (U) (g, Red) (s)) (p, Black) (Node l (n, Red) r)) c)"
    by (rule cok_plug2) (use rb U in auto)
  with e h' col show ?thesis by (auto simp: addrs_plug intro!: fixedI)
qed

lemma insert_inner_right:
  assumes t: "at_root h (plug (Node (U) (g, kg) (Node (Node l (n, Red) r) (p, Red) (s))) c)" and col: "rb_color h 0 = Black" and U: "root_color U = Black"
    and rb: "invc (Node l (n, Red) r)" "invh (Node l (n, Red) r)" "invc s" "invh s" "bheight s = bheight l"
      "root_color s = Black" "invc U" "invh U" "bheight U = bheight l" "cok c (bheight l + 1)"
  shows "\<exists>h'. insert_fixup n p h = Some h' \<and> fixed h (addrs (plug (Node (U) (g, kg) (Node (Node l (n, Red) r) (p, Red) (s))) c)) h'"
proof -
  have "at_root h (plug (Node (Node l (n, Red) r) (p, Red) (s)) (FR U (g, kg) # c))" using t by simp
  from rotate_right_tree [OF this] obtain h1 where h1: "rbt_rotate_right p h = Some h1"
    "at_root h1 (plug (Node (U) (g, kg) (Node (l) (n, Red) (Node (r) (p, Red) (s)))) c)" "rb_color h1 = rb_color h" "keeps h h1 (set (addrs (plug (Node (U) (g, kg) (Node (Node l (n, Red) r) (p, Red) (s))) c)))" by auto
  have "rb_parent h1 n = Some g" using h1(2) by (simp add: at_root_plug)
  with insert_unfold_right(3) [OF t col U _ h1(1)] have e: "insert_fixup n p h =
      rbt_rotate_left g (set_color g Red (set_color n Black h1))" by simp
  from insert_rotate_left [OF h1(2)] obtain h' where h': "rbt_rotate_left g (set_color g Red (set_color n Black h1)) = Some h'"
    "at_root h' (plug (Node (Node (U) (g, Red) (l)) (n, Black) (Node (r) (p, Red) (s))) c)" "rb_color h' 0 = rb_color h1 0"
    "keeps h1 h' (set (addrs (plug (Node (U) (g, kg) (Node (l) (n, Red) (Node (r) (p, Red) (s)))) c)))" by blast
  have "invh (plug (Node (Node (U) (g, Red) (l)) (n, Black) (Node (r) (p, Red) (s))) c) \<and> invc2 (plug (Node (Node (U) (g, Red) (l)) (n, Black) (Node (r) (p, Red) (s))) c)"
    by (rule cok_plug2) (use rb U in auto)
  moreover have "keeps h h' (set (addrs (plug (Node (U) (g, kg) (Node (Node l (n, Red) r) (p, Red) (s))) c)))"
    by (rule keeps_trans [OF h1(4)]) (use h'(4) in \<open>simp add: addrs_plug\<close>)
  ultimately show ?thesis using e h' h1(3) col by (auto simp: addrs_plug intro!: fixedI)
qed

text \<open>A red uncle: the loop goes on two levels up.\<close>

lemma insert_red_uncle:
  assumes t: "at_root h (plug (Node a (p, Red) b) (f # c))" and col: "rb_color h 0 = Black"
    and f: "f = FL (g, kg) U \<or> f = FR U (g, kg)" and U: "root_color U = Red"
    and rb: "invc (Node a (p, Black) b)" "invh (Node a (p, Black) b)" "invc U" "invh U" "bheight U = bheight a"
      "cok c (bheight a + 1)"
  obtains l r h1 where "insert_fixup n p h = insert_fixup g (top_ptr c) h1" and "at_root h1 (plug (Node l (g, Red) r) c)"
    and "rb_color h1 0 = Black" and "invc (Node l (g, Red) r)" and "invh (Node l (g, Red) r)" and "cok c (bheight l)"
    and "addrs (plug (Node l (g, Red) r) c) = addrs (plug (Node a (p, Red) b) (f # c))"
    and "keeps h h1 (set (addrs (plug (Node a (p, Red) b) (f # c))))"
proof -
  obtain ul u ur where Un: "U = Node ul (u, Red) ur" using U by (cases U) auto
  define h1 where "h1 = set_color g Red (set_color (root_ptr U) Black (set_color p Black h))"
  have z: "p \<noteq> 0" "g \<noteq> 0" "u \<noteq> 0" using t f Un by (auto simp: at_root_plug)
  then have c0: "rb_color h1 0 = Black" using col Un by (simp add: h1_def)
  have k: "keeps h h1 (set (addrs (plug (Node a (p, Red) b) (f # c))))"
    using f Un by (auto simp: h1_def keeps_def same_node_def set_addrs_plug)
  from f show thesis
  proof
    assume f: "f = FL (g, kg) U"
    with t have t': "at_root h (plug (Node (Node a (p, Red) b) (g, kg) U) c)" by simp
    have "at_root h1 (plug (Node (Node a (p, Black) b) (g, Red) (Node ul (u, Black) ur)) c)"
      using insert_recolor(1) [of h a p Red b g kg ul u Red ur c] t' Un by (simp add: h1_def)
    with insert_unfold_left(1) [OF t' col U] c0 k rb f Un show thesis
      by (intro that [of h1 "Node a (p, Black) b" "Node ul (u, Black) ur"]) (auto simp: h1_def addrs_plug)
  next
    assume f: "f = FR U (g, kg)"
    with t have t': "at_root h (plug (Node U (g, kg) (Node a (p, Red) b)) c)" by simp
    have "at_root h1 (plug (Node (Node ul (u, Black) ur) (g, Red) (Node a (p, Black) b)) c)"
      using insert_recolor(2) [of h ul u Red ur g kg a p Red b c] t' Un by (simp add: h1_def)
    moreover have "insert_fixup n p h = insert_fixup g (top_ptr c) h1"
      using insert_unfold_right(1) [of h U g kg a p b c n] t' col U by (simp add: h1_def)
    ultimately show thesis using c0 k rb f Un
      by (intro that [of h1 "Node ul (u, Black) ur" "Node a (p, Black) b"]) (auto simp: addrs_plug)
  qed
qed

text \<open>The loop, by induction on the depth.\<close>

lemma insert_fixup_black_parent:
  "rb_color h par = Black \<Longrightarrow> insert_fixup node par h = Some h"
  by (subst insert_fixup.simps) simp

lemma insert_fixup_fixed:
  assumes "at_root h (plug (Node l (n, Red) r) c)" and "rb_color h 0 = Black"
    and "invc (Node l (n, Red) r)" and "invh (Node l (n, Red) r)" and "cok c (bheight l)"
    and "root_frame_color c = Black"
  shows "\<exists>h'. insert_fixup n (top_ptr c) h = Some h' \<and> fixed h (addrs (plug (Node l (n, Red) r) c)) h'"
  using assms
proof (induction "length c" arbitrary: c l n r h rule: less_induct)
  case less
  let ?t = "Node l (n, Red) r"
  have cs: "cshape h c" using less.prems(1) by (simp add: at_root_plug)
  have top: "rb_color h (top_ptr c) = top_color c"
    by (rule cshape_top_color [OF cs less.prems(2)])
  show ?case
  proof (cases "top_color c = Black")
    case True
    have "invh (plug ?t c) \<and> invc2 (plug ?t c)"
      by (rule cok_plug2) (use less.prems True in auto)
    with True top less.prems show ?thesis
      by (auto simp: insert_fixup_black_parent intro: fixedI)
  next
    case False
    then obtain f1 f2 c2 where c: "c = f1 # f2 # c2"
      using less.prems(6) by (cases c rule: root_frame_color.cases) auto
    then obtain p s where f1: "f1 = FL (p, Red) s \<or> f1 = FR s (p, Red)"
      using False c by (cases f1) auto
    obtain g kg U where f2: "f2 = FL (g, kg) U \<or> f2 = FR U (g, kg)" by (cases f2) auto
    define a where "a = (if f1 = FL (p, Red) s then ?t else s)"
    define b where "b = (if f1 = FL (p, Red) s then s else ?t)"
    have P: "plug ?t c = plug (Node a (p, Red) b) (f2 # c2)" using f1 c by (auto simp: a_def b_def)
    have top: "top_ptr c = p" using c f1 by auto
    have rb: "invc s" "invh s" "bheight s = bheight l" "root_color s = Black" "invc U" "invh U"
        "bheight U = bheight l" "kg = Black" "cok c2 (bheight l + 1)" "root_frame_color c2 = Black"
      using less.prems(5,6) c f1 f2 by (cases c2; auto)+
    show ?thesis
    proof (cases "root_color U = Red")
      case True
      have "at_root h (plug (Node a (p, Red) b) (f2 # c2))" using less.prems(1) P by simp
      moreover have "invc (Node a (p, Black) b)" "invh (Node a (p, Black) b)" "bheight a = bheight l"
        using rb less.prems(3,4) by (auto simp: a_def b_def)
      ultimately obtain l' r' h1 where s: "insert_fixup n p h = insert_fixup g (top_ptr c2) h1"
        "at_root h1 (plug (Node l' (g, Red) r') c2)" "rb_color h1 0 = Black"
        "invc (Node l' (g, Red) r')" "invh (Node l' (g, Red) r')" "cok c2 (bheight l')"
        "addrs (plug (Node l' (g, Red) r') c2) = addrs (plug (Node a (p, Red) b) (f2 # c2))"
        "keeps h h1 (set (addrs (plug (Node a (p, Red) b) (f2 # c2))))"
        using rb by (auto intro: insert_red_uncle [OF _ less.prems(2) f2 True, of a p b c2 n])
      from less.hyps [OF _ s(2-6) rb(10)] c s(1,7,8) top show ?thesis
        unfolding P by (auto intro: fixed_keeps)
    next
      case False
      then have "root_color U = Black" by simp
      note inst = less.prems(2) this less.prems(3,4) rb(1-7,9)
      show ?thesis
        using f1 f2
      proof (elim disjE)
        assume "f1 = FL (p, Red) s" "f2 = FL (g, kg) U"
        with less.prems(1) c top show ?thesis using insert_outer_left [OF _ inst] by auto
      next
        assume "f1 = FL (p, Red) s" "f2 = FR U (g, kg)"
        with less.prems(1) c top show ?thesis using insert_inner_right [OF _ inst] by auto
      next
        assume "f1 = FR s (p, Red)" "f2 = FL (g, kg) U"
        with less.prems(1) c top show ?thesis using insert_inner_left [OF _ inst] by auto
      next
        assume "f1 = FR s (p, Red)" "f2 = FR U (g, kg)"
        with less.prems(1) c top show ?thesis using insert_outer_right [OF _ inst] by auto
      qed
    qed
  qed
qed

end
