(* ===== verification/Rbt_Search.thy ===== *)
theory Rbt_Search
  imports Rbt_Insert
begin

text \<open>
  Searching and inserting in the red-black tree of \<open>redblacktree.c\<close>: the descent of \<open>rbt_find\<close> and
  of the search half of \<open>rbt_insert\<close> against the list of the addresses in key order, the step that
  hangs the new node into the empty place the search found, and the correctness of the whole
  \<open>rbt_insert\<close> on top of the loop of the theory \<open>Rbt_Insert\<close>.
\<close>

section \<open>Searching\<close>

text \<open>The comparison function orders the addresses by a key.\<close>

definition cmp_ok :: "(rptr \<Rightarrow> 'k::linorder) \<Rightarrow> (rptr \<Rightarrow> rptr \<Rightarrow> int) \<Rightarrow> bool" where
  "cmp_ok key cmp \<longleftrightarrow> (\<forall>a b. (cmp a b < 0 \<longleftrightarrow> key a < key b) \<and> (cmp a b = 0 \<longleftrightarrow> key a = key b))"

abbreviation key_sorted :: "(rptr \<Rightarrow> 'k::linorder) \<Rightarrow> rptr list \<Rightarrow> bool" where
  "key_sorted key \<equiv> sorted_wrt (\<lambda>a b. key a < key b)"

lemma find_append: "List.find P (xs @ ys) = (case List.find P xs of None \<Rightarrow> List.find P ys | Some x \<Rightarrow> Some x)"
  by (induction xs) auto

lemma find_None: "(\<And>x. x \<in> set xs \<Longrightarrow> \<not> P x) \<Longrightarrow> List.find P xs = None"
  by (simp add: find_None_iff)

lemma find_from_shape:
  assumes "cmp_ok key cmp" and "shape h p t" and "0 \<notin> set (addrs t)" and "key_sorted key (addrs t)"
  shows "find_from cmp h n (root_ptr t) = Some (List.find (\<lambda>x. key x = key n) (addrs t))"
  using assms(2-4)
proof (induction t arbitrary: p)
  case Leaf
  then show ?case by (simp add: find_from.simps)
next
  case (Node l a r)
  let ?x = "fst a"
  have cmp: "cmp n ?x < 0 \<longleftrightarrow> key n < key ?x" "cmp n ?x = 0 \<longleftrightarrow> key n = key ?x"
    using assms(1) by (auto simp: cmp_ok_def)
  have srt: "\<forall>y \<in> set (addrs l). key y < key ?x" "\<forall>y \<in> set (addrs r). key ?x < key y"
    using Node.prems(3) by (auto simp: sorted_wrt_append)
  have IHl: "find_from cmp h n (root_ptr l) = Some (List.find (\<lambda>x. key x = key n) (addrs l))"
    by (rule Node.IH(1)) (use Node.prems in \<open>auto simp: sorted_wrt_append\<close>)
  have IHr: "find_from cmp h n (root_ptr r) = Some (List.find (\<lambda>x. key x = key n) (addrs r))"
    by (rule Node.IH(2)) (use Node.prems in \<open>auto simp: sorted_wrt_append\<close>)
  consider "key n < key ?x" | "key n = key ?x" | "key ?x < key n" by force
  then show ?case
  proof cases
    case 1
    then have "List.find (\<lambda>x. key x = key n) (addrs r) = None"
      using srt(2) by (intro find_None) force
    with 1 Node.prems cmp IHl show ?thesis
      by (subst find_from.simps) (auto simp: find_append split: option.splits)
  next
    case 2
    then have "List.find (\<lambda>x. key x = key n) (addrs l) = None"
      using srt(1) by (intro find_None) force
    with 2 Node.prems cmp show ?thesis by (subst find_from.simps) (auto simp: find_append)
  next
    case 3
    then have "List.find (\<lambda>x. key x = key n) (addrs l) = None"
      using srt(1) by (intro find_None) force
    with 3 Node.prems cmp IHr show ?thesis
      by (subst find_from.simps) (auto simp: find_append)
  qed
qed

lemma rbt_find_tree:
  assumes "cmp_ok key cmp" and "at_root h t" and "key_sorted key (addrs t)"
  shows "rbt_find cmp h n = Some (List.find (\<lambda>x. key x = key n) (addrs t))"
  using find_from_shape [OF assms(1), of h 0 t n] assms(2,3) by (auto simp: rbt_find_def at_root_def)

text \<open>The search of the insertion ends at a node with the same key, or at the hole where the new node
  belongs.\<close>

definition hole_left :: "frame list \<Rightarrow> bool" where
  "hole_left c \<longleftrightarrow> (case c of FR l a # c' \<Rightarrow> False | _ \<Rightarrow> True)"

definition fits :: "(rptr \<Rightarrow> 'k::linorder) \<Rightarrow> rptr \<Rightarrow> frame list \<Rightarrow> bool" where
  "fits key n c \<longleftrightarrow> (\<forall>a \<in> set (lefts c). key a < key n) \<and> (\<forall>a \<in> set (rights c). key n < key a)"

lemma insert_search_correct:
  assumes "cmp_ok key cmp" and "at_root h (plug t c)" and "key_sorted key (addrs t)" and "fits key n c"
    and "t = Leaf \<longrightarrow> (cr < 0) = hole_left c"
  shows "(\<exists>x q. insert_search cmp h n (root_ptr t) (top_ptr c) cr = Some (Some x, q) \<and>
            x \<in> set (addrs t) \<and> key x = key n) \<or>
         (\<exists>c' cr'. insert_search cmp h n (root_ptr t) (top_ptr c) cr = Some (None, top_ptr c', cr') \<and>
            plug Leaf c' = plug t c \<and> (cr' < 0) = hole_left c' \<and> fits key n c')"
  using assms(2-5)
proof (induction t arbitrary: c cr)
  case Leaf
  then show ?case by (auto simp: insert_search.simps)
next
  case (Node l a r)
  let ?x = "fst a"
  have cmp: "cmp n ?x < 0 \<longleftrightarrow> key n < key ?x" "cmp n ?x = 0 \<longleftrightarrow> key n = key ?x"
    using assms(1) by (auto simp: cmp_ok_def)
  have f: "?x \<noteq> 0" "left_subtree h ?x = Some (root_ptr l)" "right_subtree h ?x = Some (root_ptr r)"
    using Node.prems(1) by (auto simp: at_root_plug)
  have srt: "\<forall>y \<in> set (addrs l). key y < key ?x" "\<forall>y \<in> set (addrs r). key ?x < key y"
      "key_sorted key (addrs l)" "key_sorted key (addrs r)"
    using Node.prems(2) by (auto simp: sorted_wrt_append)
  consider "key n < key ?x" | "key n = key ?x" | "key ?x < key n" by force
  then show ?case
  proof cases
    case 1
    then have e: "insert_search cmp h n (root_ptr (Node l a r)) (top_ptr c) cr =
        insert_search cmp h n (root_ptr l) (top_ptr (FL a r # c)) (cmp n ?x)"
      using f cmp by (subst insert_search.simps) simp
    have "fits key n (FL a r # c)" using Node.prems(3) 1 srt(2) by (auto simp: fits_def)
    from Node.IH(1) [OF _ srt(3) this, of "cmp n ?x"] Node.prems(1) 1 cmp e show ?thesis
      by (fastforce simp: hole_left_def)
  next
    case 2
    with f cmp show ?thesis by (subst insert_search.simps) simp
  next
    case 3
    then have "0 < cmp n ?x" using cmp by force
    then have e: "insert_search cmp h n (root_ptr (Node l a r)) (top_ptr c) cr =
        insert_search cmp h n (root_ptr r) (top_ptr (FR l a # c)) (cmp n ?x)"
      using f by (subst insert_search.simps) (simp add: Let_def)
    have "fits key n (FR l a # c)" using Node.prems(3) 3 srt(1) by (auto simp: fits_def)
    from Node.IH(2) [OF _ srt(4) this, of "cmp n ?x"] Node.prems(1) 3 cmp e show ?thesis
      by (fastforce simp: hole_left_def)
  qed
qed

section \<open>Linking the new node\<close>

text \<open>Heaps that differ in value sums only.\<close>

definition same_links :: "redblacktree \<Rightarrow> redblacktree \<Rightarrow> bool" where
  "same_links h h' \<longleftrightarrow> rb_parent h' = rb_parent h \<and> left_subtree h' = left_subtree h \<and>
     right_subtree h' = right_subtree h \<and> rb_color h' = rb_color h \<and> rb_value h' = rb_value h \<and>
     elements h' = elements h \<and> value_sum h' 0 = value_sum h 0"

lemma same_links_trans: "same_links h h' \<Longrightarrow> same_links h' h'' \<Longrightarrow> same_links h h''"
  by (simp add: same_links_def)

lemma at_root_same_links: "same_links h h' \<Longrightarrow> at_root h' t = at_root h t"
proof -
  assume s: "same_links h h'"
  then have "shape h' 0 t = shape h 0 t"
    by (intro shape_frame) (simp add: same_node_def same_links_def)
  with s show ?thesis by (simp add: at_root_def same_links_def)
qed

lemma update_value_sum_links:
  assumes "left_subtree h x = Some l" and "right_subtree h x = Some r" and "x \<noteq> 0"
  shows "\<exists>h'. rbt_update_value_sum x h = Some h' \<and> same_links h h'"
  using assms by (simp add: rbt_update_value_sum_def same_links_def)

lemma sums_up_to_root:
  assumes "at_root h (plug t c)"
  shows "\<exists>h'. rbt_update_value_sums_up_to_root (top_ptr c) h = Some h' \<and> same_links h h'"
  using assms
proof (induction c arbitrary: t h)
  case Nil
  then show ?case by (simp add: rbt_update_value_sums_up_to_root.simps same_links_def)
next
  case (Cons f c)
  obtain l a r where T: "plug t (f # c) = plug (Node l a r) c" and x: "top_ptr (f # c) = fst a"
    by (cases f) auto
  have f: "fst a \<noteq> 0" "left_subtree h (fst a) = Some (root_ptr l)" "right_subtree h (fst a) = Some (root_ptr r)"
      "rb_parent h (fst a) = Some (top_ptr c)"
    using Cons.prems T by (auto simp: at_root_plug)
  from update_value_sum_links [OF f(2,3,1)] obtain h1 where
    h1: "rbt_update_value_sum (fst a) h = Some h1" "same_links h h1" by blast
  have "at_root h1 (plug (Node l a r) c)" using at_root_same_links [OF h1(2)] Cons.prems T by simp
  from Cons.IH [OF this] obtain h2 where "rbt_update_value_sums_up_to_root (top_ptr c) h1 = Some h2" "same_links h1 h2"
    by blast
  moreover have "rb_parent h1 (fst a) = Some (top_ptr c)" using h1(2) f(4) by (simp add: same_links_def)
  ultimately show ?case using h1 f(1) same_links_trans [OF h1(2)]
    by (subst rbt_update_value_sums_up_to_root.simps) (auto simp: x)
qed

text \<open>The new node in the hole.\<close>

definition link_node :: "rptr \<Rightarrow> frame list \<Rightarrow> redblacktree \<Rightarrow> redblacktree" where
  "link_node n c h =
     (let h1 = (if hole_left c then set_left (top_ptr c) (Some n) h else set_right (top_ptr c) (Some n) h);
          h2 = set_right n (Some 0) (set_left n (Some 0) (set_parent n (Some (top_ptr c)) h1));
          h3 = set_sum n (rb_value h2 n) h2
      in h3\<lparr>elements := elements h3 + 1\<rparr>)"

lemma link_node_tree:
  assumes t: "at_root h (plug Leaf c)" and n: "n \<notin> set (caddrs c)" "n \<noteq> 0"
  shows "at_root (link_node n c h) (plug (Node Leaf (n, rb_color h n) Leaf) c)"
proof -
  let ?h = "link_node n c h"
  from t have d: "distinct (caddrs c)" "0 \<notin> set (caddrs c)" and sh: "hole h c = Some 0" "cshape h c"
      "right_subtree h 0 = Some 0" "rb_value h 0 = 0" "value_sum h 0 = 0"
    by (simp_all add: at_root_plug)
  have top0: "top_ptr c \<noteq> 0" if "c \<noteq> []" using d(2) that by (cases c rule: top_ptr.cases) auto
  have ne: "n \<noteq> top_ptr c" using top_ptr_cases [of c] n by auto
  have flds: "rb_parent ?h = (rb_parent h)(n := Some (top_ptr c))"
    "left_subtree ?h = (if hole_left c then (left_subtree h)(top_ptr c := Some n) else left_subtree h)(n := Some 0)"
    "right_subtree ?h = (if hole_left c then right_subtree h else (right_subtree h)(top_ptr c := Some n))(n := Some 0)"
    "rb_color ?h = rb_color h" "rb_value ?h = rb_value h" "value_sum ?h 0 = value_sum h 0"
    using n by (auto simp: link_node_def Let_def)
  have "cshape ?h c"
  proof (rule cshape_hole [OF sh(2) d])
    show "\<forall>a \<in> set (caddrs c) - {top_ptr c}. same_node h ?h a"
      using n by (auto simp: same_node_def flds)
    show "left_subtree ?h 0 = left_subtree h 0" if "c \<noteq> []"
      using n(2) top0 [OF that] by (simp add: flds)
    show "rb_parent ?h (top_ptr c) = rb_parent h (top_ptr c) \<and> rb_color ?h (top_ptr c) = rb_color h (top_ptr c)"
      using ne by (simp add: flds)
    show "case c of FL a r # c' \<Rightarrow> right_subtree ?h (fst a) = right_subtree h (fst a)
         | FR l a # c' \<Rightarrow> left_subtree ?h (fst a) = left_subtree h (fst a) | [] \<Rightarrow> True"
      unfolding flds using ne by (cases c rule: top_ptr.cases) (auto simp: hole_left_def)
  qed
  moreover have "hole ?h c = Some n" 
    using ne n by (cases c rule: top_ptr.cases) (auto simp: hole_left_def link_node_def Let_def)
  moreover have "right_subtree ?h 0 = Some 0"
    unfolding flds using sh(3) n(2) top0 by (cases "c = []") (auto simp: hole_left_def)
  ultimately show ?thesis using n d sh(4,5) flds by (simp add: at_root_plug)
qed

text \<open>A place in a red-black tree.\<close>

lemma invc_plug: "invc (plug t c) \<Longrightarrow> invc t \<and> (root_color t = Red \<longrightarrow> top_color c = Black)"
  by (induction t c rule: plug.induct) auto

lemma invh_plug: "invh (plug t c) \<Longrightarrow> invh t"
  by (induction t c rule: plug.induct) auto

lemma root_color_plug: "c \<noteq> [] \<Longrightarrow> root_color (plug t c) = root_frame_color c"
proof (induction c arbitrary: t rule: root_frame_color.induct)
  case (2 f)
  then show ?case by (cases f) auto
next
  case (3 f g c)
  then show ?case by (cases f) auto
qed simp

lemma cok_of_plug:
  assumes "invc (plug t c)" and "invh (plug t c)"
  shows "cok c (bheight t)"
  using assms
proof (induction t c rule: plug.induct)
  case (2 t a s c)
  then show ?case using invc_plug [of "Node t a s" c] invh_plug [of "Node t a s" c] by auto
next
  case (3 t s a c)
  then show ?case using invc_plug [of "Node s a t" c] invh_plug [of "Node s a t" c] by auto
qed simp

section \<open>The whole insertion\<close>

text \<open>The invariant of the tree \<open>T\<close> that the heap holds.\<close>

definition rbt_ok :: "(rptr \<Rightarrow> 'k::linorder) \<Rightarrow> redblacktree \<Rightarrow> ctree \<Rightarrow> bool" where
  "rbt_ok key h T \<longleftrightarrow> is_tree h T \<and> invc T \<and> invh T \<and> root_color T = Black \<and>
     key_sorted key (addrs T) \<and> elements h = length (addrs T)"

text \<open>The loop leaves the root of any colour; painting it black ends the insertion.\<close>

lemma fixed_blacken:
  assumes "fixed h as h'"
  shows "\<exists>r T. left_subtree h' 0 = Some r \<and> is_tree (set_color r Black h') T \<and> addrs T = as \<and>
     invc T \<and> invh T \<and> root_color T = Black \<and> keeps h (set_color r Black h') (set as)"
proof -
  from assms obtain T where T: "at_root h' T" "addrs T = as" "invh T" "invc2 T" "rb_color h' 0 = Black"
      "keeps h h' (set as)"
    by (auto simp: fixed_def)
  show ?thesis
  proof (cases T)
    case Leaf
    then have "set_color 0 Black h' = h'" using T(5) by (simp add: set_color_def fun_upd_idem_iff)
    moreover have "left_subtree h' 0 = Some 0" using T(1) Leaf by (simp add: at_root_def)
    ultimately show ?thesis using T Leaf by (intro exI [of _ 0] exI [of _ T]) (simp add: is_tree_def)
  next
    case (Node l a r)
    obtain x k where a: "a = (x, k)" by (cases a)
    have x: "x \<noteq> 0" "left_subtree h' 0 = Some x" using T(1) Node a by (auto simp: at_root_def)
    have "at_root (set_color x Black h') (Node l (x, Black) r)"
      using recolor_tree [of h' l x k r "[]" Black] T(1) Node a by simp
    moreover have "keeps h (set_color x Black h') (set as)"
      using keeps_trans [OF T(6) keeps_color] T(2) Node a by auto
    ultimately show ?thesis using T Node a x
      by (intro exI [of _ x] exI [of _ "Node l (x, Black) r"]) (auto simp: is_tree_def)
  qed
qed

lemma key_sorted_hole:
  assumes "key_sorted key (lefts c @ rights c)" and "fits key n c"
  shows "key_sorted key (lefts c @ n # rights c)"
  using assms by (auto simp: sorted_wrt_append fits_def)

lemma insert_at_hole:
  assumes ok: "rbt_ok key h (plug Leaf c)" and n: "n \<noteq> 0" "n \<notin> set (caddrs c)" and f: "fits key n c"
    and h1: "rbt_update_value_sums_up_to_root (top_ptr c) (link_node n c h) = Some h1"
      "same_links (link_node n c h) h1"
  shows "\<exists>h2 r T. insert_fixup n (top_ptr c) (set_color n Red h1) = Some h2 \<and> left_subtree h2 0 = Some r \<and>
     rbt_ok key (set_color r Black h2) T \<and> addrs T = lefts c @ n # rights c \<and>
     (\<forall>a. a \<notin> set (addrs T) \<longrightarrow> a \<noteq> 0 \<longrightarrow> same_node h (set_color r Black h2) a) \<and>
     rb_value (set_color r Black h2) = rb_value h"
proof -
  let ?k = "rb_color h n" and ?h = "set_color n Red h1" and ?as = "lefts c @ n # rights c"
  have t: "at_root h (plug Leaf c)" "rb_color h 0 = Black" "invc (plug Leaf c)" "invh (plug Leaf c)"
      "root_color (plug Leaf c) = Black" "key_sorted key (lefts c @ rights c)"
      "elements h = length (lefts c @ rights c)"
    using ok by (auto simp: rbt_ok_def is_tree_def addrs_plug)
  have "at_root h1 (plug (Node Leaf (n, ?k) Leaf) c)"
    using link_node_tree [OF t(1) n(2,1)] at_root_same_links [OF h1(2)] by simp
  then have h: "at_root ?h (plug (Node Leaf (n, Red) Leaf) c)" by (rule recolor_tree)
  have cb: "rb_color (link_node n c h) = rb_color h" "rb_value (link_node n c h) = rb_value h"
      "elements (link_node n c h) = elements h + 1"
    by (auto simp: link_node_def Let_def)
  have "rb_color ?h 0 = Black" using n(1) t(2) h1(2) cb by (simp add: same_links_def)
  moreover have "root_frame_color c = Black" using root_color_plug [of c Leaf] t(5) by (cases "c = []") auto
  moreover have "cok c 0" using cok_of_plug [OF t(3,4)] by simp
  ultimately obtain h2 where h2: "insert_fixup n (top_ptr c) ?h = Some h2" "fixed ?h ?as h2"
    using insert_fixup_fixed [OF h] by (auto simp: addrs_plug)
  from fixed_blacken [OF h2(2)] obtain r T where r: "left_subtree h2 0 = Some r"
      "is_tree (set_color r Black h2) T" "addrs T = ?as" "invc T" "invh T" "root_color T = Black"
      "keeps ?h (set_color r Black h2) (set ?as)"
    by blast
  have el: "elements (set_color r Black h2) = length ?as" "rb_value (set_color r Black h2) = rb_value h"
    using r(7) h1(2) cb t(7) by (auto simp: keeps_def same_links_def)
  have "same_node h (set_color r Black h2) a" if a: "a \<notin> set ?as" "a \<noteq> 0" for a
  proof -
    have "same_node ?h (set_color r Black h2) a" using r(7) a by (simp add: keeps_def)
    moreover have "a \<noteq> n" "a \<noteq> top_ptr c" using a top_ptr_cases [of c] by (auto simp: set_caddrs)
    then have "same_node h ?h a"
      using h1(2) by (auto simp: same_node_def same_links_def link_node_def Let_def)
    ultimately show ?thesis by (simp add: same_node_def)
  qed
  with h2(1) r el key_sorted_hole [OF t(6) f] show ?thesis
    by (intro exI [of _ h2] exI [of _ r] exI [of _ T]) (auto simp: rbt_ok_def)
qed

lemma find_key_sorted:
  assumes "key_sorted key xs" and "x \<in> set xs" and "key x = key n"
  shows "List.find (\<lambda>y. key y = key n) xs = Some x"
  using assms by (induction xs) auto

text \<open>The whole of \<open>rbt_insert\<close>.\<close>

lemma rbt_insert_whole:
  fixes key :: "rptr \<Rightarrow> 'k::linorder"
  assumes cmp: "cmp_ok key cmp" and ok: "rbt_ok key h T" and n: "n \<noteq> 0"
  shows "case List.find (\<lambda>x. key x = key n) (addrs T) of
      Some x \<Rightarrow> rbt_insert cmp n h = Some (x, h)
    | None \<Rightarrow> \<exists>h' T'. rbt_insert cmp n h = Some (n, h') \<and> rbt_ok key h' T' \<and>
        set (addrs T') = insert n (set (addrs T)) \<and> rb_value h' = rb_value h \<and>
        (\<forall>a. a \<notin> set (addrs T') \<longrightarrow> a \<noteq> 0 \<longrightarrow> same_node h h' a)"
proof -
  have t: "at_root h (plug T [])" "key_sorted key (addrs T)" "left_subtree h 0 = Some (root_ptr T)"
    using ok by (auto simp: rbt_ok_def is_tree_def at_root_def)
  have "fits key n []" by (simp add: fits_def)
  from insert_search_correct [OF cmp t(1,2) this, of "-1"]
  consider (found) x q where "insert_search cmp h n (root_ptr T) 0 (-1) = Some (Some x, q)"
      "x \<in> set (addrs T)" "key x = key n"
    | (hole) c cr where "insert_search cmp h n (root_ptr T) 0 (-1) = Some (None, top_ptr c, cr)"
      "plug Leaf c = T" "(cr < 0) = hole_left c" "fits key n c"
    by (auto simp: hole_left_def)
  then show ?thesis
  proof cases
    case found
    then have "List.find (\<lambda>y. key y = key n) (addrs T) = Some x"
      using t(2) find_key_sorted by metis
    with found t(3) show ?thesis by (cases q) (simp add: rbt_insert_def)
  next
    case hole
    have as: "addrs T = lefts c @ rights c" using hole(2) addrs_plug [of Leaf c] by simp
    have none: "List.find (\<lambda>y. key y = key n) (addrs T) = None"
      using hole(4) by (intro find_None) (auto simp: as fits_def)
    have fresh: "n \<notin> set (caddrs c)" using hole(4) by (auto simp: set_caddrs fits_def)
    have "at_root (link_node n c h) (plug (Node Leaf (n, rb_color h n) Leaf) c)"
      using link_node_tree [OF _ fresh n] t(1) hole(2) by simp
    from sums_up_to_root [OF this] obtain h1 where
      h1: "rbt_update_value_sums_up_to_root (top_ptr c) (link_node n c h) = Some h1" "same_links (link_node n c h) h1"
      by blast
    from insert_at_hole [OF _ n fresh hole(4) h1] ok hole(2) obtain h2 r T' where
      fin: "insert_fixup n (top_ptr c) (set_color n Red h1) = Some h2" "left_subtree h2 0 = Some r"
        "rbt_ok key (set_color r Black h2) T'" "addrs T' = lefts c @ n # rights c"
        "\<forall>a. a \<notin> set (addrs T') \<longrightarrow> a \<noteq> 0 \<longrightarrow> same_node h (set_color r Black h2) a"
        "rb_value (set_color r Black h2) = rb_value h"
      by blast
    have "rb_parent (link_node n c h) n = Some (top_ptr c)" by (simp add: link_node_def Let_def)
    then have "rbt_insert cmp n h = Some (n, set_color r Black h2)"
      using t(3) hole(1,3) h1(1) fin(1,2) by (simp add: rbt_insert_def link_node_def Let_def)
    with none fin(3-6) as show ?thesis
      by (auto intro!: exI [of _ "set_color r Black h2"] exI [of _ T'])
  qed
qed
end
