(* ===== verification/Rbt_Repair.thy ===== *)
theory Rbt_Repair
  imports Rbt_Search
begin

text \<open>
  The loop of \<open>rbt_remove\<close> that restores the black height after a black node has been taken out:
  one iteration on either side, its three cases (red sibling, two black nephews, a red nephew), and
  the loop by induction on the distance to the root.
\<close>

section \<open>The loop after a removal\<close>

text \<open>The part of an iteration with a black sibling.\<close>

definition nephews_left :: "rptr \<Rightarrow> rptr \<Rightarrow> rptr \<Rightarrow> redblacktree \<Rightarrow> (rptr \<times> redblacktree) option" where
  "nephews_left child par sibling h = do {
     sl \<leftarrow> left_subtree h sibling;
     sr \<leftarrow> right_subtree h sibling;
     if rb_color h sl = Black \<and> rb_color h sr = Black
     then remove_fixup par (set_color sibling Red h)
     else do {
       (sibling', h2) \<leftarrow> (if rb_color h sr = Black
          then do {
            c_assert (rb_color h sl = Red);
            h' \<leftarrow> rbt_rotate_right sibling (set_color sibling Red (set_color sl Black h));
            s \<leftarrow> right_subtree h' par;
            c_assert (s \<noteq> 0);
            Some (s, h') }
          else Some (sibling, h));
       let h3 = set_color sibling' (rb_color h2 par) h2;
       sr' \<leftarrow> right_subtree h3 sibling';
       h4 \<leftarrow> rbt_rotate_left par (set_color par Black (set_color sr' Black h3));
       Some (child, h4) } }"

definition nephews_right :: "rptr \<Rightarrow> rptr \<Rightarrow> rptr \<Rightarrow> redblacktree \<Rightarrow> (rptr \<times> redblacktree) option" where
  "nephews_right child par sibling h = do {
     sr \<leftarrow> right_subtree h sibling;
     sl \<leftarrow> left_subtree h sibling;
     if rb_color h sr = Black \<and> rb_color h sl = Black
     then remove_fixup par (set_color sibling Red h)
     else do {
       (sibling', h2) \<leftarrow> (if rb_color h sl = Black
          then do {
            c_assert (rb_color h sr = Red);
            h' \<leftarrow> rbt_rotate_left sibling (set_color sibling Red (set_color sr Black h));
            s \<leftarrow> left_subtree h' par;
            c_assert (s \<noteq> 0);
            Some (s, h') }
          else Some (sibling, h));
       let h3 = set_color sibling' (rb_color h2 par) h2;
       sl' \<leftarrow> left_subtree h3 sibling';
       h4 \<leftarrow> rbt_rotate_right par (set_color par Black (set_color sl' Black h3));
       Some (child, h4) } }"

lemma remove_fixup_red: "rb_color h child = Red \<Longrightarrow> remove_fixup child h = Some (child, h)"
  by (subst remove_fixup.simps) simp

lemma remove_fixup_left:
  assumes "rb_color h child = Black" and "rb_parent h child = Some par" and "left_subtree h par = Some child"
    and "right_subtree h par = Some s" and "s \<noteq> 0"
  shows "rb_color h s = Black \<Longrightarrow> remove_fixup child h = nephews_left child par s h"
    and "rb_color h s = Red \<Longrightarrow> rbt_rotate_left par (set_color par Red (set_color s Black h)) = Some h' \<Longrightarrow>
       right_subtree h' par = Some s' \<Longrightarrow> s' \<noteq> 0 \<Longrightarrow> remove_fixup child h = nephews_left child par s' h'"
  using assms by (simp_all add: remove_fixup.simps [of child h] nephews_left_def)

lemma remove_fixup_right:
  assumes "rb_color h child = Black" and "rb_parent h child = Some par" and "left_subtree h par \<noteq> Some child"
    and "right_subtree h par = Some child" and "left_subtree h par = Some s" and "s \<noteq> 0"
  shows "rb_color h s = Black \<Longrightarrow> remove_fixup child h = nephews_right child par s h"
    and "rb_color h s = Red \<Longrightarrow> rbt_rotate_right par (set_color par Red (set_color s Black h)) = Some h' \<Longrightarrow>
       left_subtree h' par = Some s' \<Longrightarrow> s' \<noteq> 0 \<Longrightarrow> remove_fixup child h = nephews_right child par s' h'"
  using assms by (simp_all add: remove_fixup.simps [of child h] nephews_right_def)

text \<open>What the loop reaches, after \<open>child->color = Black\<close>.\<close>

definition repaired :: "redblacktree \<Rightarrow> rptr list \<Rightarrow> (rptr \<times> redblacktree) option \<Rightarrow> bool" where
  "repaired h as res \<longleftrightarrow> (\<exists>x h'. res = Some (x, h') \<and> fixed h as (set_color x Black h'))"

lemma set_color_idem: "rb_color h x = k \<Longrightarrow> set_color x k h = h"
  by (simp add: set_color_def fun_upd_idem_iff)

text \<open>The last rotation: the outer nephew is red.\<close>

lemma outer_nephew_left:
  assumes t: "at_root h (plug (Node t (x, k) (Node sl (y, ky) (Node b (z, kz) d))) c)" and col: "rb_color h 0 = Black"
    and rb: "root_color t = Black" "invc t" "invh t" "invc sl" "invh sl" "invc b" "invh b" "invc d" "invh d"
      "bheight sl = bheight t" "bheight b = bheight t" "bheight d = bheight t"
      "k = Red \<longrightarrow> length c > 1 \<longrightarrow> top_color c = Black" "cok c (bheight t + 1 + (if k = Black then 1 else 0))"
  shows "repaired h (addrs (plug (Node t (x, k) (Node sl (y, ky) (Node b (z, kz) d))) c))
     (do { h4 \<leftarrow> rbt_rotate_left x (set_color x Black (set_color z Black (set_color y k h))); Some (root_ptr t, h4) })"
proof -
  let ?as = "addrs (plug (Node t (x, k) (Node sl (y, ky) (Node b (z, kz) d))) c)"
  let ?h = "set_color x Black (set_color z Black (set_color y k h))"
  let ?T = "Node (Node t (x, Black) sl) (y, k) (Node b (z, Black) d)"
  have "at_root (set_color y k h) (plug (Node t (x, k) (Node sl (y, k) (Node b (z, kz) d))) c)"
    using recolor_tree [of h sl y ky "Node b (z, kz) d" "FR t (x, k) # c" k] t by simp
  then have "at_root (set_color z Black (set_color y k h)) (plug (Node t (x, k) (Node sl (y, k) (Node b (z, Black) d))) c)"
    using recolor_tree [of "set_color y k h" b z kz d "FR sl (y, k) # FR t (x, k) # c" Black] by simp
  then have "at_root ?h (plug (Node t (x, Black) (Node sl (y, k) (Node b (z, Black) d))) c)" by (rule recolor_tree)
  from rotate_left_tree [OF this] obtain h' where h': "rbt_rotate_left x ?h = Some h'" "at_root h' (plug ?T c)"
    "rb_color h' = rb_color ?h" "keeps ?h h' (set ?as)" by (auto simp: addrs_plug)
  have ne: "x \<noteq> 0" "y \<noteq> 0" "z \<noteq> 0" "x \<in> set ?as" "y \<in> set ?as" "z \<in> set ?as"
    using t by (auto simp: at_root_plug addrs_plug)
  have c0: "rb_color h' 0 = Black" using h'(3) col ne(1-3) by simp
  have "shape h' x t" using h'(2) by (auto simp: at_root_plug)
  from shape_root_color [OF this c0] rb(1) have "set_color (root_ptr t) Black h' = h'"
    by (simp add: set_color_idem)
  moreover have "keeps h h' (set ?as)"
    using h'(4) ne(4-6) by (blast intro: keeps_trans keeps_color)
  moreover have "invh (plug ?T c) \<and> invc2 (plug ?T c)"
    by (rule cok_plug2) (use rb in \<open>auto simp: add.commute split: if_splits\<close>)
  ultimately show ?thesis using h'(1,2) c0 by (auto simp: repaired_def addrs_plug intro!: fixedI)
qed

lemma nephews_left_black:
  assumes "at_root h (plug (Node t (x, k) (Node sl (y, Black) sr)) c)" and "rb_color h 0 = Black"
    and "root_color sl = Black" and "root_color sr = Black"
  shows "nephews_left (root_ptr t) x y h = remove_fixup x (set_color y Red h)"
proof -
  from assms(1) have "shape h y sl" "shape h y sr" "left_subtree h y = Some (root_ptr sl)"
      "right_subtree h y = Some (root_ptr sr)"
    by (auto simp: at_root_plug)
  with assms(2-4) show ?thesis by (simp add: nephews_left_def shape_root_color)
qed

lemma nephews_left_repaired:
  assumes t: "at_root h (plug (Node t (x, k) (Node sl (y, Black) sr)) c)" and col: "rb_color h 0 = Black"
    and rb: "root_color t = Black" "invc t" "invh t" "invc sl" "invh sl" "invc sr" "invh sr"
      "bheight sl = bheight t" "bheight sr = bheight t"
      "k = Red \<longrightarrow> length c > 1 \<longrightarrow> top_color c = Black" "cok c (bheight t + 1 + (if k = Black then 1 else 0))"
    and red: "root_color sl = Red \<or> root_color sr = Red"
  shows "repaired h (addrs (plug (Node t (x, k) (Node sl (y, Black) sr)) c)) (nephews_left (root_ptr t) x y h)"
proof (cases "root_color sr")
  case Red
  then obtain b z d where sr: "sr = Node b (z, Red) d" by (cases sr) auto
  have f: "left_subtree h y = Some (root_ptr sl)" "right_subtree h y = Some z" "rb_color h z = Red"
      "rb_color h x = k" "y \<noteq> z"
    using t sr by (auto simp: at_root_plug)
  then have "nephews_left (root_ptr t) x y h =
      do { h4 \<leftarrow> rbt_rotate_left x (set_color x Black (set_color z Black (set_color y k h))); Some (root_ptr t, h4) }"
    by (simp add: nephews_left_def)
  moreover note outer_nephew_left [of h t x k sl y Black b z Red d c, OF _ col rb(1-5)]
  ultimately show ?thesis using t sr rb by auto
next
  case Black
  with red obtain b z d where sl: "sl = Node b (z, Red) d" by (cases sl) auto
  let ?as = "addrs (plug (Node t (x, k) (Node sl (y, Black) sr)) c)"
  let ?h = "set_color y Red (set_color z Black h)"
  let ?T = "plug (Node t (x, k) (Node b (z, Black) (Node d (y, Red) sr))) c"
  have f: "left_subtree h y = Some z" "right_subtree h y = Some (root_ptr sr)" "rb_color h z = Red"
      "rb_color h x = k" "shape h y sr" "x \<noteq> y" "x \<noteq> z" "y \<noteq> 0" "z \<noteq> 0" "y \<in> set ?as" "z \<in> set ?as"
    using t sl by (auto simp: at_root_plug addrs_plug)
  have "at_root (set_color z Black h) (plug (Node t (x, k) (Node (Node b (z, Black) d) (y, Black) sr)) c)"
    using recolor_tree [of h b z Red d "FL (y, Black) sr # FR t (x, k) # c" Black] t sl by simp
  then have "at_root ?h (plug (Node (Node b (z, Black) d) (y, Red) sr) (FR t (x, k) # c))"
    using recolor_tree [of "set_color z Black h" "Node b (z, Black) d" y Black sr "FR t (x, k) # c" Red] by simp
  from rotate_right_tree [OF this] obtain h' where h': "rbt_rotate_right y ?h = Some h'" "at_root h' ?T"
    "rb_color h' = rb_color ?h" "keeps ?h h' (set ?as)" using sl by (auto simp: addrs_plug)
  have g: "right_subtree h' x = Some z" "right_subtree h' z = Some y" using h'(2) by (auto simp: at_root_plug)
  have "rb_color h (root_ptr sr) = Black" using shape_root_color [OF f(5) col] Black by simp
  then have e: "nephews_left (root_ptr t) x y h =
      do { h4 \<leftarrow> rbt_rotate_left x (set_color x Black (set_color y Black (set_color z k h'))); Some (root_ptr t, h4) }"
    using f h'(1,3) g by (simp add: nephews_left_def c_assert_def)
  have "rb_color h' 0 = Black" using h'(3) col f by simp
  from outer_nephew_left [OF h'(2) this] rb sl have "repaired h' (addrs ?T) (nephews_left (root_ptr t) x y h)"
    unfolding e by auto
  moreover have "addrs ?T = ?as" using sl by (simp add: addrs_plug)
  moreover have "keeps h h' (set ?as)" using h'(4) f(10,11) by (blast intro: keeps_trans keeps_color)
  ultimately show ?thesis by (auto simp: repaired_def intro: fixed_keeps)
qed

text \<open>A red sibling is rotated away first.\<close>

lemma red_sibling_left:
  assumes t: "at_root h (plug (Node t (x, k) (Node sl (y, Red) sr)) c)" and sl: "sl \<noteq> Leaf"
  shows "\<exists>h'. rbt_rotate_left x (set_color x Red (set_color y Black h)) = Some h' \<and>
     at_root h' (plug (Node t (x, Red) sl) (FL (y, Black) sr # c)) \<and>
     (rb_color h 0 = Black \<longrightarrow> rb_color h' 0 = Black) \<and> rb_parent h' 0 = rb_parent h 0 \<and>
     keeps h h' (set (addrs (plug (Node t (x, k) (Node sl (y, Red) sr)) c)))"
proof -
  let ?as = "addrs (plug (Node t (x, k) (Node sl (y, Red) sr)) c)"
  let ?h = "set_color x Red (set_color y Black h)"
  have "at_root (set_color y Black h) (plug (Node t (x, k) (Node sl (y, Black) sr)) c)"
    using recolor_tree [of h sl y Red sr "FR t (x, k) # c" Black] t by simp
  then have "at_root ?h (plug (Node t (x, Red) (Node sl (y, Black) sr)) c)" by (rule recolor_tree)
  from rotate_left_tree [OF this] sl obtain h' where h': "rbt_rotate_left x ?h = Some h'"
    "at_root h' (plug (Node (Node t (x, Red) sl) (y, Black) sr) c)"
    "rb_color h' = rb_color ?h" "keeps ?h h' (set ?as)" "rb_parent h' 0 = rb_parent ?h 0"
    by (auto simp: addrs_plug)
  have "x \<noteq> 0" "y \<noteq> 0" "x \<in> set ?as" "y \<in> set ?as" using t by (auto simp: at_root_plug addrs_plug)
  moreover from this have "keeps h h' (set ?as)" using h'(4) by (blast intro: keeps_trans keeps_color)
  ultimately show ?thesis using h' by auto
qed

text \<open>The mirror images.\<close>

lemma outer_nephew_right:
  assumes t: "at_root h (plug (Node (Node (Node d (z, kz) b) (y, ky) sr) (x, k) t) c)" and col: "rb_color h 0 = Black"
    and rb: "root_color t = Black" "invc t" "invh t" "invc sr" "invh sr" "invc b" "invh b" "invc d" "invh d"
      "bheight sr = bheight t" "bheight b = bheight t" "bheight d = bheight t"
      "k = Red \<longrightarrow> length c > 1 \<longrightarrow> top_color c = Black" "cok c (bheight t + 1 + (if k = Black then 1 else 0))"
  shows "repaired h (addrs (plug (Node (Node (Node d (z, kz) b) (y, ky) sr) (x, k) t) c))
     (do { h4 \<leftarrow> rbt_rotate_right x (set_color x Black (set_color z Black (set_color y k h))); Some (root_ptr t, h4) })"
proof -
  let ?as = "addrs (plug (Node (Node (Node d (z, kz) b) (y, ky) sr) (x, k) t) c)"
  let ?h = "set_color x Black (set_color z Black (set_color y k h))"
  let ?T = "Node (Node d (z, Black) b) (y, k) (Node sr (x, Black) t)"
  have "at_root (set_color y k h) (plug (Node (Node (Node d (z, kz) b) (y, k) sr) (x, k) t) c)"
    using recolor_tree [of h "Node d (z, kz) b" y ky sr "FL (x, k) t # c" k] t by simp
  then have "at_root (set_color z Black (set_color y k h)) (plug (Node (Node (Node d (z, Black) b) (y, k) sr) (x, k) t) c)"
    using recolor_tree [of "set_color y k h" d z kz b "FL (y, k) sr # FL (x, k) t # c" Black] by simp
  then have "at_root ?h (plug (Node (Node (Node d (z, Black) b) (y, k) sr) (x, Black) t) c)" by (rule recolor_tree)
  from rotate_right_tree [OF this] obtain h' where h': "rbt_rotate_right x ?h = Some h'" "at_root h' (plug ?T c)"
    "rb_color h' = rb_color ?h" "keeps ?h h' (set ?as)" by (auto simp: addrs_plug)
  have ne: "x \<noteq> 0" "y \<noteq> 0" "z \<noteq> 0" "x \<in> set ?as" "y \<in> set ?as" "z \<in> set ?as"
    using t by (auto simp: at_root_plug addrs_plug)
  have c0: "rb_color h' 0 = Black" using h'(3) col ne(1-3) by simp
  have "shape h' x t" using h'(2) by (auto simp: at_root_plug)
  from shape_root_color [OF this c0] rb(1) have "set_color (root_ptr t) Black h' = h'"
    by (simp add: set_color_idem)
  moreover have "keeps h h' (set ?as)"
    using h'(4) ne(4-6) by (blast intro: keeps_trans keeps_color)
  moreover have "invh (plug ?T c) \<and> invc2 (plug ?T c)"
    by (rule cok_plug2) (use rb in \<open>auto simp: add.commute split: if_splits\<close>)
  ultimately show ?thesis using h'(1,2) c0 by (auto simp: repaired_def addrs_plug intro!: fixedI)
qed

lemma nephews_right_black:
  assumes "at_root h (plug (Node (Node sl (y, Black) sr) (x, k) t) c)" and "rb_color h 0 = Black"
    and "root_color sr = Black" and "root_color sl = Black"
  shows "nephews_right (root_ptr t) x y h = remove_fixup x (set_color y Red h)"
proof -
  from assms(1) have "shape h y sr" "shape h y sl" "right_subtree h y = Some (root_ptr sr)"
      "left_subtree h y = Some (root_ptr sl)"
    by (auto simp: at_root_plug)
  with assms(2-4) show ?thesis by (simp add: nephews_right_def shape_root_color)
qed

lemma nephews_right_repaired:
  assumes t: "at_root h (plug (Node (Node sl (y, Black) sr) (x, k) t) c)" and col: "rb_color h 0 = Black"
    and rb: "root_color t = Black" "invc t" "invh t" "invc sr" "invh sr" "invc sl" "invh sl"
      "bheight sr = bheight t" "bheight sl = bheight t"
      "k = Red \<longrightarrow> length c > 1 \<longrightarrow> top_color c = Black" "cok c (bheight t + 1 + (if k = Black then 1 else 0))"
    and red: "root_color sr = Red \<or> root_color sl = Red"
  shows "repaired h (addrs (plug (Node (Node sl (y, Black) sr) (x, k) t) c)) (nephews_right (root_ptr t) x y h)"
proof (cases "root_color sl")
  case Red
  then obtain b z d where sl: "sl = Node d (z, Red) b" by (cases sl) auto
  have f: "right_subtree h y = Some (root_ptr sr)" "left_subtree h y = Some z" "rb_color h z = Red"
      "rb_color h x = k" "y \<noteq> z"
    using t sl by (auto simp: at_root_plug)
  then have "nephews_right (root_ptr t) x y h =
      do { h4 \<leftarrow> rbt_rotate_right x (set_color x Black (set_color z Black (set_color y k h))); Some (root_ptr t, h4) }"
    by (simp add: nephews_right_def)
  moreover note outer_nephew_right [of h d z Red b y Black sr x k t c, OF _ col rb(1-5)]
  ultimately show ?thesis using t sl rb by auto
next
  case Black
  with red obtain b z d where sr: "sr = Node d (z, Red) b" by (cases sr) auto
  let ?as = "addrs (plug (Node (Node sl (y, Black) sr) (x, k) t) c)"
  let ?h = "set_color y Red (set_color z Black h)"
  let ?T = "plug (Node (Node (Node sl (y, Red) d) (z, Black) b) (x, k) t) c"
  have f: "right_subtree h y = Some z" "left_subtree h y = Some (root_ptr sl)" "rb_color h z = Red"
      "rb_color h x = k" "shape h y sl" "x \<noteq> y" "x \<noteq> z" "y \<noteq> 0" "z \<noteq> 0" "y \<in> set ?as" "z \<in> set ?as"
    using t sr by (auto simp: at_root_plug addrs_plug)
  have "at_root (set_color z Black h) (plug (Node (Node sl (y, Black) (Node d (z, Black) b)) (x, k) t) c)"
    using recolor_tree [of h d z Red b "FR sl (y, Black) # FL (x, k) t # c" Black] t sr by simp
  then have "at_root ?h (plug (Node sl (y, Red) (Node d (z, Black) b)) (FL (x, k) t # c))"
    using recolor_tree [of "set_color z Black h" sl y Black "Node d (z, Black) b" "FL (x, k) t # c" Red] by simp
  from rotate_left_tree [OF this] obtain h' where h': "rbt_rotate_left y ?h = Some h'" "at_root h' ?T"
    "rb_color h' = rb_color ?h" "keeps ?h h' (set ?as)" using sr by (auto simp: addrs_plug)
  have g: "left_subtree h' x = Some z" "left_subtree h' z = Some y" using h'(2) by (auto simp: at_root_plug)
  have "rb_color h (root_ptr sl) = Black" using shape_root_color [OF f(5) col] Black by simp
  then have e: "nephews_right (root_ptr t) x y h =
      do { h4 \<leftarrow> rbt_rotate_right x (set_color x Black (set_color y Black (set_color z k h'))); Some (root_ptr t, h4) }"
    using f h'(1,3) g by (simp add: nephews_right_def c_assert_def)
  have "rb_color h' 0 = Black" using h'(3) col f by simp
  from outer_nephew_right [OF h'(2) this] rb sr have "repaired h' (addrs ?T) (nephews_right (root_ptr t) x y h)"
    unfolding e by auto
  moreover have "addrs ?T = ?as" using sr by (simp add: addrs_plug)
  moreover have "keeps h h' (set ?as)" using h'(4) f(10,11) by (blast intro: keeps_trans keeps_color)
  ultimately show ?thesis by (auto simp: repaired_def intro: fixed_keeps)
qed

lemma red_sibling_right:
  assumes t: "at_root h (plug (Node (Node sl (y, Red) sr) (x, k) t) c)" and sr: "sr \<noteq> Leaf"
  shows "\<exists>h'. rbt_rotate_right x (set_color x Red (set_color y Black h)) = Some h' \<and>
     at_root h' (plug (Node sr (x, Red) t) (FR sl (y, Black) # c)) \<and>
     (rb_color h 0 = Black \<longrightarrow> rb_color h' 0 = Black) \<and> rb_parent h' 0 = rb_parent h 0 \<and>
     keeps h h' (set (addrs (plug (Node (Node sl (y, Red) sr) (x, k) t) c)))"
proof -
  let ?as = "addrs (plug (Node (Node sl (y, Red) sr) (x, k) t) c)"
  let ?h = "set_color x Red (set_color y Black h)"
  have "at_root (set_color y Black h) (plug (Node (Node sl (y, Black) sr) (x, k) t) c)"
    using recolor_tree [of h sl y Red sr "FL (x, k) t # c" Black] t by simp
  then have "at_root ?h (plug (Node (Node sl (y, Black) sr) (x, Red) t) c)" by (rule recolor_tree)
  from rotate_right_tree [OF this] sr obtain h' where h': "rbt_rotate_right x ?h = Some h'"
    "at_root h' (plug (Node sl (y, Black) (Node sr (x, Red) t)) c)"
    "rb_color h' = rb_color ?h" "keeps ?h h' (set ?as)" "rb_parent h' 0 = rb_parent ?h 0"
    by (auto simp: addrs_plug)
  have "x \<noteq> 0" "y \<noteq> 0" "x \<in> set ?as" "y \<in> set ?as" using t by (auto simp: at_root_plug addrs_plug)
  moreover from this have "keeps h h' (set ?as)" using h'(4) by (blast intro: keeps_trans keeps_color)
  ultimately show ?thesis using h' by auto
qed

text \<open>The invariant of the loop: the black height of the tree at the hole is one too small, and its
  root may be red below a red parent.\<close>

definition short :: "redblacktree \<Rightarrow> ctree \<Rightarrow> frame list \<Rightarrow> bool" where
  "short h t c \<longleftrightarrow> at_root h (plug t c) \<and> rb_color h 0 = Black \<and> rb_parent h (root_ptr t) = Some (top_ptr c) \<and>
     invc (paint Black t) \<and> invh t \<and> cok c (bheight t + 1)"

lemma short_red:
  assumes s: "short h t c" and "root_color t = Red"
  shows "repaired h (addrs (plug t c)) (remove_fixup (root_ptr t) h)"
proof -
  from assms(2) obtain l x r where t: "t = Node l (x, Red) r" by (cases t) auto
  have h: "at_root h (plug (Node l (x, Red) r) c)" using s t by (simp add: short_def)
  then have "x \<noteq> 0" "rb_color h x = Red" by (auto simp: at_root_plug)
  moreover have "at_root (set_color x Black h) (plug (Node l (x, Black) r) c)" by (rule recolor_tree [OF h])
  moreover have "invh (plug (Node l (x, Black) r) c) \<and> invc2 (plug (Node l (x, Black) r) c)"
    by (rule cok_plug2) (use s t in \<open>auto simp: short_def\<close>)
  ultimately show ?thesis using s t
    by (auto simp: repaired_def remove_fixup_red short_def addrs_plug intro!: fixedI keeps_color)
qed

lemma short_black: "root_color t = Black \<Longrightarrow> paint Black t = t"
  by (cases t) auto

lemma repaired_keeps: "keeps h h1 (set as) \<Longrightarrow> repaired h1 as res \<Longrightarrow> repaired h as res"
  by (auto simp: repaired_def intro: fixed_keeps)

lemma nephews_left_step:
  assumes s: "short h t (FL (x, k) (Node sl (y, Black) sr) # c)" and b: "root_color t = Black"
  shows "repaired h (addrs (plug t (FL (x, k) (Node sl (y, Black) sr) # c))) (nephews_left (root_ptr t) x y h) \<or>
     nephews_left (root_ptr t) x y h = remove_fixup x (set_color y Red h) \<and>
     short (set_color y Red h) (Node t (x, k) (Node sl (y, Red) sr)) c"
proof -
  have t: "at_root h (plug (Node t (x, k) (Node sl (y, Black) sr)) c)" "rb_color h 0 = Black" "invc t" "invh t"
      "invc sl" "invh sl" "invc sr" "invh sr" "bheight sl = bheight t" "bheight sr = bheight t"
      "k = Red \<longrightarrow> length c > 1 \<longrightarrow> top_color c = Black" "cok c (bheight t + 1 + (if k = Black then 1 else 0))"
    using s short_black [OF b] by (auto simp: short_def)
  show ?thesis
  proof (cases "root_color sl = Red \<or> root_color sr = Red")
    case True
    from nephews_left_repaired [OF t(1,2) b t(3-12) True] show ?thesis by simp
  next
    case False
    then have nb: "root_color sl = Black" "root_color sr = Black" by auto
    have "at_root (set_color y Red h) (plug (Node t (x, k) (Node sl (y, Red) sr)) c)"
      using recolor_tree [of h sl y Black sr "FR t (x, k) # c" Red] t(1) by simp
    moreover have "rb_color (set_color y Red h) 0 = Black" "rb_parent (set_color y Red h) x = Some (top_ptr c)"
      using t(1,2) by (auto simp: at_root_plug)
    ultimately have "short (set_color y Red h) (Node t (x, k) (Node sl (y, Red) sr)) c"
      using t b nb by (auto simp: short_def add.commute)
    with nephews_left_black [OF t(1,2) nb] show ?thesis by simp
  qed
qed

lemma short_left:
  assumes s: "short h t (FL (x, k) sib # c)" and b: "root_color t = Black"
  shows "repaired h (addrs (plug t (FL (x, k) sib # c))) (remove_fixup (root_ptr t) h) \<or>
     (\<exists>h' sib'. remove_fixup (root_ptr t) h = remove_fixup x h' \<and> short h' (Node t (x, k) sib') c \<and>
       addrs sib' = addrs sib \<and> keeps h h' (set (addrs (plug t (FL (x, k) sib # c)))))"
proof -
  let ?as = "addrs (plug t (FL (x, k) sib # c))"
  from s have "bheight sib = bheight t + 1" by (simp add: short_def)
  then obtain sl y ky sr where sib: "sib = Node sl (y, ky) sr" by (cases sib) auto
  have t: "at_root h (plug (Node t (x, k) (Node sl (y, ky) sr)) c)" "rb_color h 0 = Black" "invc sib"
      "rb_parent h (root_ptr t) = Some x"
    using s sib by (auto simp: short_def)
  have f: "rb_color h y = ky" "left_subtree h x = Some (root_ptr t)" "right_subtree h x = Some y" "y \<noteq> 0"
      "x \<noteq> 0" "rb_color h (root_ptr t) = Black" "y \<noteq> root_ptr t" "y \<in> set ?as"
    using t(1) shape_root_color [of h x t] b t(2) sib root_ptr_cases [of t] by (auto simp: at_root_plug addrs_plug)
  show ?thesis
  proof (cases ky)
    case Black
    from nephews_left_step [of h t x k sl y sr c] s b sib Black
    have "repaired h ?as (nephews_left (root_ptr t) x y h) \<or>
     nephews_left (root_ptr t) x y h = remove_fixup x (set_color y Red h) \<and>
     short (set_color y Red h) (Node t (x, k) (Node sl (y, Red) sr)) c" by simp
    moreover have "remove_fixup (root_ptr t) h = nephews_left (root_ptr t) x y h"
      using remove_fixup_left(1) [OF f(6) t(4) f(2,3)] f(1,4) Black by simp
    ultimately show ?thesis using keeps_color [OF f(8), of h Red] sib
      by (metis addrs_simps(2) fst_conv)
  next
    case Red
    have sl: "root_color sl = Black" "root_color sr = Black" "bheight sl = bheight t + 1" "sl \<noteq> Leaf"
      using s sib Red by (auto simp: short_def)
    from red_sibling_left [of h t x k sl y sr c] t(1) Red sl(4) obtain h1 where
      h1: "rbt_rotate_left x (set_color x Red (set_color y Black h)) = Some h1"
      "at_root h1 (plug (Node t (x, Red) sl) (FL (y, Black) sr # c))"
      "rb_color h1 0 = Black" "rb_parent h1 0 = rb_parent h 0" "keeps h h1 (set ?as)"
      using t(2) sib by auto
    obtain a z d where sl': "sl = Node a (z, Black) d" using sl by (cases sl) auto
    have "right_subtree h1 x = Some z" "z \<noteq> 0" using h1(2) sl' by (auto simp: at_root_plug)
    with remove_fixup_left(2) [OF f(6) t(4) f(2,3,4) _ h1(1)] f(1) Red
    have e: "remove_fixup (root_ptr t) h = nephews_left (root_ptr t) x z h1" by simp
    have "rb_parent h1 (root_ptr t) = Some x"
      using h1(2,4) t(4) by (cases t) (auto simp: at_root_plug)
    then have sh: "short h1 t (FL (x, Red) (Node a (z, Black) d) # FL (y, Black) sr # c)"
      using h1(2,3) s sib sl sl' Red by (cases "c = []") (auto simp: short_def)
    have as: "addrs (plug t (FL (x, Red) (Node a (z, Black) d) # FL (y, Black) sr # c)) = ?as"
      using sib sl' by (simp add: addrs_plug)
    have "repaired h1 ?as (nephews_left (root_ptr t) x z h1)"
    proof (rule disjE [OF nephews_left_step [OF sh b]])
      assume n: "nephews_left (root_ptr t) x z h1 = remove_fixup x (set_color z Red h1) \<and>
        short (set_color z Red h1) (Node t (x, Red) (Node a (z, Red) d)) (FL (y, Black) sr # c)"
      have "addrs (plug (Node t (x, Red) (Node a (z, Red) d)) (FL (y, Black) sr # c)) = ?as"
        using sib sl' by (simp add: addrs_plug)
      with short_red [OF conjunct2 [OF n]] have "repaired (set_color z Red h1) ?as (remove_fixup x (set_color z Red h1))"
        by (simp only: root_color.simps root_ptr.simps fst_conv snd_conv simp_thms)
      moreover have "z \<in> set ?as" using sib sl' by (simp add: addrs_plug)
      ultimately show ?thesis using n by (simp only: repaired_keeps [OF keeps_color])
    qed (simp only: as)
    with h1(5) e show ?thesis by (simp add: repaired_keeps)
  qed
qed

lemma nephews_right_step:
  assumes s: "short h t (FR (Node sl (y, Black) sr) (x, k) # c)" and b: "root_color t = Black"
  shows "repaired h (addrs (plug t (FR (Node sl (y, Black) sr) (x, k) # c))) (nephews_right (root_ptr t) x y h) \<or>
     nephews_right (root_ptr t) x y h = remove_fixup x (set_color y Red h) \<and>
     short (set_color y Red h) (Node (Node sl (y, Red) sr) (x, k) t) c"
proof -
  have t: "at_root h (plug (Node (Node sl (y, Black) sr) (x, k) t) c)" "rb_color h 0 = Black" "invc t" "invh t"
      "invc sr" "invh sr" "invc sl" "invh sl" "bheight sr = bheight t" "bheight sl = bheight t"
      "k = Red \<longrightarrow> length c > 1 \<longrightarrow> top_color c = Black" "cok c (bheight t + 1 + (if k = Black then 1 else 0))"
    using s short_black [OF b] by (auto simp: short_def)
  show ?thesis
  proof (cases "root_color sr = Red \<or> root_color sl = Red")
    case True
    from nephews_right_repaired [OF t(1,2) b t(3-12) True] show ?thesis by simp
  next
    case False
    then have nb: "root_color sr = Black" "root_color sl = Black" by auto
    have "at_root (set_color y Red h) (plug (Node (Node sl (y, Red) sr) (x, k) t) c)"
      using recolor_tree [of h sl y Black sr "FL (x, k) t # c" Red] t(1) by simp
    moreover have "rb_color (set_color y Red h) 0 = Black" "rb_parent (set_color y Red h) x = Some (top_ptr c)"
      using t(1,2) by (auto simp: at_root_plug)
    ultimately have "short (set_color y Red h) (Node (Node sl (y, Red) sr) (x, k) t) c"
      using t b nb by (auto simp: short_def add.commute)
    with nephews_right_black [OF t(1,2) nb] show ?thesis by simp
  qed
qed

lemma short_right:
  assumes s: "short h t (FR sib (x, k) # c)" and b: "root_color t = Black"
  shows "repaired h (addrs (plug t (FR sib (x, k) # c))) (remove_fixup (root_ptr t) h) \<or>
     (\<exists>h' sib'. remove_fixup (root_ptr t) h = remove_fixup x h' \<and> short h' (Node sib' (x, k) t) c \<and>
       addrs sib' = addrs sib \<and> keeps h h' (set (addrs (plug t (FR sib (x, k) # c)))))"
proof -
  let ?as = "addrs (plug t (FR sib (x, k) # c))"
  from s have "bheight sib = bheight t + 1" by (simp add: short_def)
  then obtain sr y ky sl where sib: "sib = Node sl (y, ky) sr" by (cases sib) auto
  have t: "at_root h (plug (Node (Node sl (y, ky) sr) (x, k) t) c)" "rb_color h 0 = Black" "invc sib"
      "rb_parent h (root_ptr t) = Some x"
    using s sib by (auto simp: short_def)
  have f: "rb_color h y = ky" "right_subtree h x = Some (root_ptr t)" "left_subtree h x = Some y" "y \<noteq> 0"
      "x \<noteq> 0" "rb_color h (root_ptr t) = Black" "y \<noteq> root_ptr t" "y \<in> set ?as"
    using t(1) shape_root_color [of h x t] b t(2) sib root_ptr_cases [of t] by (auto simp: at_root_plug addrs_plug)
  show ?thesis
  proof (cases ky)
    case Black
    from nephews_right_step [of h t sl y sr x k c] s b sib Black
    have "repaired h ?as (nephews_right (root_ptr t) x y h) \<or>
     nephews_right (root_ptr t) x y h = remove_fixup x (set_color y Red h) \<and>
     short (set_color y Red h) (Node (Node sl (y, Red) sr) (x, k) t) c" by simp
    moreover have "remove_fixup (root_ptr t) h = nephews_right (root_ptr t) x y h"
      using remove_fixup_right(1) [OF f(6) t(4) _ f(2,3)] f(1,3,4,7) Black by simp
    ultimately show ?thesis using keeps_color [OF f(8), of h Red] sib
      by (metis addrs_simps(2) fst_conv)
  next
    case Red
    have sr: "root_color sr = Black" "root_color sl = Black" "bheight sr = bheight t + 1" "sr \<noteq> Leaf"
      using s sib Red by (auto simp: short_def)
    from red_sibling_right [of h sl y sr x k t c] t(1) Red sr(4) obtain h1 where
      h1: "rbt_rotate_right x (set_color x Red (set_color y Black h)) = Some h1"
      "at_root h1 (plug (Node sr (x, Red) t) (FR sl (y, Black) # c))"
      "rb_color h1 0 = Black" "rb_parent h1 0 = rb_parent h 0" "keeps h h1 (set ?as)"
      using t(2) sib by auto
    obtain a z d where sr': "sr = Node d (z, Black) a" using sr by (cases sr) auto
    have "left_subtree h1 x = Some z" "z \<noteq> 0" using h1(2) sr' by (auto simp: at_root_plug)
    with remove_fixup_right(2) [OF f(6) t(4) _ f(2,3,4) _ h1(1)] f(1,3,7) Red
    have e: "remove_fixup (root_ptr t) h = nephews_right (root_ptr t) x z h1" by simp
    have "rb_parent h1 (root_ptr t) = Some x"
      using h1(2,4) t(4) by (cases t) (auto simp: at_root_plug)
    then have sh: "short h1 t (FR (Node d (z, Black) a) (x, Red) # FR sl (y, Black) # c)"
      using h1(2,3) s sib sr sr' Red by (cases "c = []") (auto simp: short_def)
    have as: "addrs (plug t (FR (Node d (z, Black) a) (x, Red) # FR sl (y, Black) # c)) = ?as"
      using sib sr' by (simp add: addrs_plug)
    have "repaired h1 ?as (nephews_right (root_ptr t) x z h1)"
    proof (rule disjE [OF nephews_right_step [OF sh b]])
      assume n: "nephews_right (root_ptr t) x z h1 = remove_fixup x (set_color z Red h1) \<and>
        short (set_color z Red h1) (Node (Node d (z, Red) a) (x, Red) t) (FR sl (y, Black) # c)"
      have "addrs (plug (Node (Node d (z, Red) a) (x, Red) t) (FR sl (y, Black) # c)) = ?as"
        using sib sr' by (simp add: addrs_plug)
      with short_red [OF conjunct2 [OF n]] have "repaired (set_color z Red h1) ?as (remove_fixup x (set_color z Red h1))"
        by (simp only: root_color.simps root_ptr.simps fst_conv snd_conv simp_thms)
      moreover have "z \<in> set ?as" using sib sr' by (simp add: addrs_plug)
      ultimately show ?thesis using n by (simp only: repaired_keeps [OF keeps_color])
    qed (simp only: as)
    with h1(5) e show ?thesis by (simp add: repaired_keeps)
  qed
qed

lemma remove_fixup_repaired:
  assumes "short h t c" and "(if c = [] then root_color t else root_frame_color c) = Red"
  shows "repaired h (addrs (plug t c)) (remove_fixup (root_ptr t) h)"
  using assms
proof (induction "length c" arbitrary: c t h rule: less_induct)
  case less
  show ?case
  proof (cases "root_color t")
    case Red
    with less.prems(1) show ?thesis by (rule short_red)
  next
    case Black
    then obtain f c' where c: "c = f # c'" using less.prems(2) by (cases c) auto
    obtain x k s where f: "f = FL (x, k) s \<or> f = FR s (x, k)" by (cases f) auto
    have root: "(if c' = [] then k else root_frame_color c') = Red"
      using less.prems(2) c f by (cases c') (auto split: if_splits)
    have IH: "repaired h (addrs (plug t c)) (remove_fixup x h')"
      if "short h' t' c'" "root_ptr t' = x" "root_color t' = k" "addrs (plug t' c') = addrs (plug t c)"
        "keeps h h' (set (addrs (plug t c)))" for h' t'
      using less.hyps [OF _ that(1)] c root that by (auto intro: repaired_keeps split: if_splits)
    from f show ?thesis
    proof
      assume f: "f = FL (x, k) s"
      from short_left [of h t x k s c'] less.prems(1) Black f c consider
          "repaired h (addrs (plug t c)) (remove_fixup (root_ptr t) h)"
        | h' s' where "remove_fixup (root_ptr t) h = remove_fixup x h'" "short h' (Node t (x, k) s') c'"
            "addrs s' = addrs s" "keeps h h' (set (addrs (plug t c)))"
        by auto
      then show ?thesis
      proof cases
        case 2
        with IH [OF 2(2)] f c show ?thesis by (simp add: addrs_plug)
      qed
    next
      assume f: "f = FR s (x, k)"
      from short_right [of h t s x k c'] less.prems(1) Black f c consider
          "repaired h (addrs (plug t c)) (remove_fixup (root_ptr t) h)"
        | h' s' where "remove_fixup (root_ptr t) h = remove_fixup x h'" "short h' (Node s' (x, k) t) c'"
            "addrs s' = addrs s" "keeps h h' (set (addrs (plug t c)))"
        by auto
      then show ?thesis
      proof cases
        case 2
        with IH [OF 2(2)] f c show ?thesis by (simp add: addrs_plug)
      qed
    qed
  qed
qed

end
