(* ===== verification/Rbt_Remove.thy ===== *)
theory Rbt_Remove
  imports Rbt_Repair
begin

text \<open>
  \<open>rbt_remove\<close> of \<open>redblacktree.c\<close>: unlinking a node with at most one child, unlinking an inner node
  by moving its successor into its place, and the whole removal on top of the loop of the theory
  \<open>Rbt_Repair\<close>.
\<close>

section \<open>Putting a tree into a hole\<close>

definition put_hole :: "rptr \<Rightarrow> frame list \<Rightarrow> redblacktree \<Rightarrow> redblacktree" where
  "put_hole p c h = (if hole_left c then set_left (top_ptr c) (Some p) h else set_right (top_ptr c) (Some p) h)"

lemma put_hole_simps [simp]:
  "rb_parent (put_hole p c h) = rb_parent h" "rb_color (put_hole p c h) = rb_color h"
  "rb_value (put_hole p c h) = rb_value h" "value_sum (put_hole p c h) = value_sum h"
  "elements (put_hole p c h) = elements h"
  "a \<noteq> top_ptr c \<Longrightarrow> left_subtree (put_hole p c h) a = left_subtree h a"
  "a \<noteq> top_ptr c \<Longrightarrow> right_subtree (put_hole p c h) a = right_subtree h a"
  by (auto simp: put_hole_def)

lemma put_hole_frame: "a \<noteq> top_ptr c \<Longrightarrow> same_node h (put_hole p c h) a"
  by (simp add: same_node_def)

lemma hole_put_hole: "hole (put_hole p c h) c = Some p"
  by (cases c rule: top_ptr.cases) (auto simp: put_hole_def hole_left_def)

lemma put_hole_tree:
  assumes t0: "at_root h (plug t0 c)"
    and fr: "\<forall>a \<in> set (caddrs c). same_node h h' a" "left_subtree h' 0 = left_subtree h 0"
      "right_subtree h' 0 = right_subtree h 0" "rb_value h' 0 = rb_value h 0" "value_sum h' 0 = value_sum h 0"
    and t: "shape h' (top_ptr c) t" "distinct (addrs t @ caddrs c)" "0 \<notin> set (addrs t)"
  shows "at_root (put_hole (root_ptr t) c h') (plug t c)"
proof -
  let ?h = "put_hole (root_ptr t) c h'"
  from t0 have d: "distinct (caddrs c)" "0 \<notin> set (caddrs c)" "right_subtree h 0 = Some 0" "rb_value h 0 = 0" "value_sum h 0 = 0"
    and "cshape h c" by (simp_all add: at_root_plug)
  then have cs: "cshape h' c" using cshape_frame [OF fr(1,2)] by simp
  have top0: "top_ptr c \<noteq> 0" if "c \<noteq> []" using d(2) that by (cases c rule: top_ptr.cases) auto
  have "cshape ?h c"
  proof (rule cshape_hole [OF cs d(1,2)])
    show "\<forall>a \<in> set (caddrs c) - {top_ptr c}. same_node h' ?h a" by (simp add: same_node_def)
    show "left_subtree ?h 0 = left_subtree h' 0" if "c \<noteq> []" using top0 [OF that] by simp
    show "case c of FL a r # c' \<Rightarrow> right_subtree ?h (fst a) = right_subtree h' (fst a)
         | FR l a # c' \<Rightarrow> left_subtree ?h (fst a) = left_subtree h' (fst a) | [] \<Rightarrow> True"
      by (cases c rule: top_ptr.cases) (auto simp: put_hole_def hole_left_def)
  qed simp
  moreover have "shape ?h (top_ptr c) t = shape h' (top_ptr c) t"
  proof (rule shape_frame)
    have "top_ptr c \<notin> set (addrs t)" using t(2,3) top_ptr_cases [of c] by auto
    then show "\<forall>a \<in> set (addrs t). same_node h' ?h a" by (metis put_hole_frame)
  qed
  moreover have "right_subtree ?h 0 = Some 0"
    using d(3) fr(3) top0 by (cases "c = []") (auto simp: put_hole_def hole_left_def)
  ultimately show ?thesis using t d fr by (simp add: at_root_plug hole_put_hole)
qed

lemma replace_child_hole:
  assumes "at_root h (plug t0 c)" and "t0 \<noteq> Leaf"
    and "left_subtree h' (top_ptr c) = left_subtree h (top_ptr c)"
    and "right_subtree h' (top_ptr c) = right_subtree h (top_ptr c)"
  shows "replace_child (top_ptr c) (root_ptr t0) p h' = Some (put_hole p c h')"
proof (cases c rule: top_ptr.cases)
  case 1
  with assms show ?thesis by (simp add: replace_child_def put_hole_def hole_left_def at_root_def)
next
  case (2 a r c')
  with assms show ?thesis by (simp add: replace_child_def put_hole_def hole_left_def at_root_plug)
next
  case (3 l a c')
  have "root_ptr t0 \<in> set (addrs t0)" using assms(2) root_ptr_cases [of t0] by auto
  then have "root_ptr l \<noteq> root_ptr t0" using assms(1) 3 root_ptr_cases [of l] by (auto simp: at_root_plug)
  with assms 3 show ?thesis by (simp add: replace_child_def put_hole_def hole_left_def at_root_plug)
qed

section \<open>A node with at most one child\<close>

lemma child_into_hole:
  assumes t: "at_root h (plug (Node l (n, k) r) c)" and "t = l \<or> t = r"
  shows "at_root (put_hole (root_ptr t) c (set_parent (root_ptr t) (Some (top_ptr c)) h)) (plug t c)"
proof (rule put_hole_tree [OF t])
  let ?h = "set_parent (root_ptr t) (Some (top_ptr c)) h"
  have d: "distinct (addrs t @ caddrs c)" "0 \<notin> set (addrs t)" "0 \<notin> set (caddrs c)" "shape h n t"
    using t assms(2) by (auto simp: at_root_plug)
  then show "distinct (addrs t @ caddrs c)" "0 \<notin> set (addrs t)" by simp_all
  show "\<forall>a \<in> set (caddrs c). same_node h ?h a"
    using d root_ptr_cases [of t] by (auto simp: same_node_def)
  show "shape ?h (top_ptr c) t"
    by (rule shape_reparent [OF d(4)]) (use d in \<open>auto simp: same_node_def\<close>)
qed simp_all

lemma unlink_outer_correct:
  assumes t: "at_root h (plug (Node l (n, k) r) c)" and lr: "l = Leaf \<or> r = Leaf"
    and ch: "ch = (if l \<noteq> Leaf then l else r)"
  shows "\<exists>h'. unlink_outer n h = Some (root_ptr ch, h') \<and> at_root h' (plug ch c) \<and>
     rb_parent h' (root_ptr ch) = Some (top_ptr c) \<and> rb_color h' = rb_color h \<and>
     keeps h h' (set (addrs (plug (Node l (n, k) r) c)))"
proof -
  let ?h = "put_hole (root_ptr ch) c (set_parent (root_ptr ch) (Some (top_ptr c)) h)"
  have f: "left_subtree h n = Some (root_ptr l)" "right_subtree h n = Some (root_ptr r)"
      "rb_parent h n = Some (top_ptr c)" "n \<noteq> 0" "l \<noteq> Leaf \<Longrightarrow> root_ptr l \<noteq> 0"
    using t root_ptr_cases [of l] by (auto simp: at_root_plug)
  have "at_root ?h (plug ch c)" by (rule child_into_hole [OF t]) (simp add: ch)
  from sums_up_to_root [OF this] obtain h' where h': "rbt_update_value_sums_up_to_root (top_ptr c) ?h = Some h'"
    "same_links ?h h'" by blast
  have "replace_child (top_ptr c) n (root_ptr ch) (set_parent (root_ptr ch) (Some (top_ptr c)) h) = Some ?h"
    using replace_child_hole [OF t] by simp
  then have "unlink_outer n h = Some (root_ptr ch, h')"
    using f lr ch h'(1) by (auto simp: unlink_outer_def replace_child_def c_assert_def split: if_splits)
  moreover have "keeps h h' (set (addrs (plug (Node l (n, k) r) c)))"
  proof -
    have "same_node h h' a" if "a \<notin> set (addrs (plug (Node l (n, k) r) c))" "a \<noteq> 0" for a
    proof -
      have "a \<noteq> top_ptr c" "a \<noteq> root_ptr ch"
        using that top_ptr_cases [of c] root_ptr_cases [of ch] ch by (auto simp: set_addrs_plug)
      with h'(2) show ?thesis by (simp add: same_node_def same_links_def)
    qed
    with h'(2) show ?thesis by (auto simp: keeps_def same_links_def)
  qed
  ultimately show ?thesis using h'(2) at_root_same_links [OF h'(2)] \<open>at_root ?h (plug ch c)\<close>
    by (simp add: same_links_def)
qed

section \<open>A node with two children\<close>

lemma plug_append: "plug t (c @ d) = plug (plug t c) d"
  by (induction t c rule: plug.induct) auto

lemma top_ptr_append: "c \<noteq> [] \<Longrightarrow> top_ptr (c @ d) = top_ptr c"
  by (cases c rule: top_ptr.cases) auto

lemma plug_Leaf: "plug t c = Leaf \<longleftrightarrow> t = Leaf \<and> c = []"
  by (induction t c rule: plug.induct) auto

lemma lefts_append: "lefts (c @ d) = lefts d @ lefts c"
  by (induction c rule: lefts.induct) auto

lemma set_caddrs_append: "set (caddrs (c @ d)) = set (caddrs c) \<union> set (caddrs d)"
  by (induction c rule: caddrs.induct) auto

text \<open>The leftmost node of a subtree.\<close>

lemma leftmost:
  assumes "shape h p t" and "0 \<notin> set (addrs t)" and "t \<noteq> Leaf"
  shows "\<exists>m km rr cr. t = plug (Node Leaf (m, km) rr) cr \<and> lefts cr = [] \<and> walk_left h (root_ptr t) = Some m"
  using assms
proof (induction t arbitrary: p)
  case (Node l a r)
  obtain x kx where a: "a = (x, kx)" by (cases a)
  show ?case
  proof (cases "l = Leaf")
    case True
    then have "walk_left h x = Some x" using Node.prems a by (subst walk_left.simps) simp
    with True a show ?thesis by (intro exI [of _ x] exI [of _ kx] exI [of _ r] exI [of _ "[]"]) simp
  next
    case False
    have "shape h x l" "0 \<notin> set (addrs l)" using Node.prems a by auto
    from Node.IH(1) [OF this False] obtain m km rr cr where
      l: "l = plug (Node Leaf (m, km) rr) cr" "lefts cr = []" "walk_left h (root_ptr l) = Some m" by blast
    have "root_ptr l \<noteq> 0" using False \<open>0 \<notin> set (addrs l)\<close> root_ptr_cases [of l] by metis
    then have "walk_left h x = Some m" using Node.prems a l(3) by (subst walk_left.simps) simp
    with l a show ?thesis
      by (intro exI [of _ m] exI [of _ km] exI [of _ rr] exI [of _ "cr @ [FL a r]"])
        (simp add: plug_append lefts_append)
  qed
qed simp

text \<open>The successor takes the place of the node.\<close>

definition take_place :: "rptr \<Rightarrow> rptr \<Rightarrow> redblacktree_node_color_type \<Rightarrow> rptr \<Rightarrow> rptr \<Rightarrow> rptr \<Rightarrow> redblacktree \<Rightarrow> redblacktree" where
  "take_place m n km dp nl nr h =
     (let h4 = set_parent nr (Some m) (set_parent nl (Some m) (set_right m (Some nr) (set_left m (Some nl) (set_parent m (Some dp) h))))
      in set_color n km (set_color m (rb_color h4 n) h4))"

lemma take_place_simps [simp]:
  "rb_parent (take_place m n km dp nl nr h) = (rb_parent h)(m := Some dp, nl := Some m, nr := Some m)"
  "left_subtree (take_place m n km dp nl nr h) = (left_subtree h)(m := Some nl)"
  "right_subtree (take_place m n km dp nl nr h) = (right_subtree h)(m := Some nr)"
  "rb_color (take_place m n km dp nl nr h) = (rb_color h)(m := rb_color h n, n := km)"
  "rb_value (take_place m n km dp nl nr h) = rb_value h" "value_sum (take_place m n km dp nl nr h) = value_sum h"
  "elements (take_place m n km dp nl nr h) = elements h"
  by (simp_all add: take_place_def Let_def)

lemma take_place_tree:
  assumes t: "at_root h (plug (Node l (n, k) r) c)" and m: "m \<notin> set (addrs (plug (Node l (n, k) r) c))" "m \<noteq> 0"
    and l: "l \<noteq> Leaf"
  shows "at_root (put_hole m c (take_place m n km (top_ptr c) (root_ptr l) (root_ptr r) h)) (plug (Node l (m, k) r) c)"
proof -
  let ?h = "take_place m n km (top_ptr c) (root_ptr l) (root_ptr r) h"
  have d: "distinct (addrs (Node l (n, k) r) @ caddrs c)" "0 \<notin> set (addrs (Node l (n, k) r))" "0 \<notin> set (caddrs c)"
      "shape h n l" "shape h n r" "rb_color h n = k"
    using t by (auto simp: at_root_plug)
  have fresh: "m \<noteq> n" "m \<notin> set (addrs l)" "m \<notin> set (addrs r)" "m \<notin> set (caddrs c)"
    using m by (auto simp: set_addrs_plug)
  have rl: "root_ptr l \<in> set (addrs l)" using l root_ptr_cases [of l] by auto
  have rr: "root_ptr r = 0 \<or> root_ptr r \<in> set (addrs r)" using root_ptr_cases [of r] by auto
  have sl: "shape ?h m l"
    by (rule shape_reparent [OF d(4)]) (use d fresh rl rr in \<open>auto simp: same_node_def\<close>)
  have sr: "shape ?h m r"
    by (rule shape_reparent [OF d(5)]) (use d fresh rl rr root_ptr_cases [of r] in \<open>auto simp: same_node_def\<close>)
  have rm: "root_ptr l \<noteq> m" "root_ptr r \<noteq> m" using rl rr fresh m(2) by auto
  have "at_root (put_hole (root_ptr (Node l (m, k) r)) c ?h) (plug (Node l (m, k) r) c)"
  proof (rule put_hole_tree [OF t])
    show "\<forall>a \<in> set (caddrs c). same_node h ?h a"
      using d rl rr fresh by (auto simp: same_node_def)
    show "shape ?h (top_ptr c) (Node l (m, k) r)" using sl sr rm d(6) fresh(1) by simp
  qed (use d m fresh in auto)
  then show ?thesis by simp
qed

text \<open>Updating the value sums from the node that is being unlinked.\<close>

lemma sums_from_unlinked:
  assumes "left_subtree h n = Some a" and "right_subtree h n = Some b" and "rb_parent h n = Some (top_ptr c)"
    and "n \<noteq> 0" and t: "at_root h (plug t c)"
  shows "\<exists>h'. rbt_update_value_sums_up_to_root n h = Some h' \<and> same_links h h'"
proof -
  from update_value_sum_links [OF assms(1,2,4)] obtain h1 where
    h1: "rbt_update_value_sum n h = Some h1" "same_links h h1" by blast
  then have "at_root h1 (plug t c)" using at_root_same_links t by simp
  from sums_up_to_root [OF this] obtain h2 where
    h2: "rbt_update_value_sums_up_to_root (top_ptr c) h1 = Some h2" "same_links h1 h2" by blast
  have "rb_parent h1 n = Some (top_ptr c)" using h1(2) assms(3) by (simp add: same_links_def)
  with h1 h2 assms(4) same_links_trans [OF h1(2) h2(2)] show ?thesis
    by (subst rbt_update_value_sums_up_to_root.simps) auto
qed

lemma inner_sums:
  assumes t: "at_root h (plug rr (cr @ FR l (m, k) # c))"
    and n: "left_subtree h n = Some a" "right_subtree h n = Some b" "rb_parent h n = Some (top_ptr c)" "n \<noteq> 0"
  shows "\<exists>h7 h8. rbt_update_value_sums_up_to_root m h = Some h7 \<and>
     rbt_update_value_sums_up_to_root (top_ptr (cr @ FR l (n, k) # c)) h7 = Some h8 \<and> same_links h h8"
proof -
  from t have "at_root h (plug (plug rr cr) (FR l (m, k) # c))" by (simp add: plug_append)
  from sums_up_to_root [OF this] obtain h7 where
    h7: "rbt_update_value_sums_up_to_root m h = Some h7" "same_links h h7" by auto
  have t7: "at_root h7 (plug rr (cr @ FR l (m, k) # c))" using t at_root_same_links [OF h7(2)] by simp
  have "\<exists>h8. rbt_update_value_sums_up_to_root (top_ptr (cr @ FR l (n, k) # c)) h7 = Some h8 \<and> same_links h7 h8"
  proof (cases "cr = []")
    case True
    have "left_subtree h7 n = Some a" "right_subtree h7 n = Some b" "rb_parent h7 n = Some (top_ptr c)"
      using h7(2) n by (auto simp: same_links_def)
    from sums_from_unlinked [OF this n(4), of "Node l (m, k) rr"] t7 True show ?thesis by simp
  next
    case False
    with sums_up_to_root [OF t7] show ?thesis by (simp add: top_ptr_append)
  qed
  with h7 show ?thesis by (blast intro: same_links_trans)
qed

lemma inner_keeps:
  assumes "same_links (put_hole m c (take_place m n km (top_ptr c) nl nr
      (put_hole q C (set_parent q (Some (top_ptr C)) h)))) h'"
    and "{m, n, nl, nr, q, top_ptr c, top_ptr C} \<subseteq> insert 0 A"
  shows "keeps h h' A"
proof -
  have "same_node h h' a" if "a \<notin> A" "a \<noteq> 0" for a
  proof -
    have "a \<notin> {m, n, nl, nr, q, top_ptr c, top_ptr C}"
      by (rule contra_subsetD [OF assms(2)]) (use that in simp)
    with assms(1) show ?thesis by (simp add: same_node_def same_links_def)
  qed
  then show ?thesis using assms(1) unfolding keeps_def by (simp add: same_links_def)
qed

lemma unlink_inner_correct:
  assumes t: "at_root h (plug (Node l (n, k) r) c)" and l: "l \<noteq> Leaf" and r: "r \<noteq> Leaf"
  shows "\<exists>m km rr cr h'. r = plug (Node Leaf (m, km) rr) cr \<and> lefts cr = [] \<and>
     unlink_inner n h = Some (root_ptr rr, h') \<and> at_root h' (plug rr (cr @ FR l (m, k) # c)) \<and>
     rb_parent h' (root_ptr rr) = Some (top_ptr (cr @ FR l (m, k) # c)) \<and>
     rb_color h' = (rb_color h)(m := k, n := km) \<and> keeps h h' (set (addrs (plug (Node l (n, k) r) c)))"
proof -
  have f: "left_subtree h n = Some (root_ptr l)" "right_subtree h n = Some (root_ptr r)" "shape h n r"
      "0 \<notin> set (addrs r)" "rb_parent h n = Some (top_ptr c)" "rb_color h n = k" "n \<noteq> 0"
    using t by (auto simp: at_root_plug)
  from leftmost [OF f(3,4) r] obtain m km rr cr where
    m: "r = plug (Node Leaf (m, km) rr) cr" "lefts cr = []" "walk_left h (root_ptr r) = Some m" by blast
  have r0: "root_ptr r \<noteq> 0" using r f(4) root_ptr_cases [of r] by metis
  let ?C = "cr @ FR l (n, k) # c" and ?D = "cr @ FR l (m, k) # c" and ?r = "plug rr cr"
  let ?as = "set (addrs (plug (Node l (n, k) r) c))"
  have tC: "at_root h (plug (Node Leaf (m, km) rr) ?C)" using t m(1) by (simp add: plug_append)
  note g = at_root_focus [OF tC]
  have topC: "top_ptr ?C \<noteq> 0" using tC top_ptr_cases [of ?C] by (cases cr rule: top_ptr.cases) (auto simp: at_root_plug)
  have nx: "rbt_get_next h n = Some (Some m)"
    using f(2) r0 m(3) g(5) by (simp add: rbt_get_next_def rbt_internal_find_next_def)
  define h2 where "h2 = put_hole (root_ptr rr) ?C (set_parent (root_ptr rr) (Some (top_ptr ?C)) h)"
  have t2: "at_root h2 (plug (Node l (n, k) ?r) c)"
    using child_into_hole [OF tC, of rr] by (simp add: h2_def plug_append)
  have e2: "replace_child (top_ptr ?C) m (root_ptr rr) (set_parent (root_ptr rr) (Some (top_ptr ?C)) h) = Some h2"
    using replace_child_hole [OF tC, of "set_parent (root_ptr rr) (Some (top_ptr ?C)) h"] by (simp add: h2_def)
  have c2: "rb_color h2 = rb_color h" "rb_parent h2 = (rb_parent h)(root_ptr rr := Some (top_ptr ?C))" by (simp_all add: h2_def)
  note g2 = at_root_focus [OF t2]
  have fresh: "m \<notin> set (addrs (plug (Node l (n, k) ?r) c))" "m \<noteq> n"
    using g(5-8) by (auto simp: set_addrs_plug set_caddrs_append)
  define h5 where "h5 = take_place m n km (top_ptr c) (root_ptr l) (root_ptr ?r) h2"
  let ?h6 = "put_hole m c h5"
  have t6: "at_root ?h6 (plug (Node l (m, k) ?r) c)"
    unfolding h5_def by (rule take_place_tree [OF t2 fresh(1) g(5) l])
  have mt: "m \<noteq> top_ptr c" using fresh(1) g(5) top_ptr_cases [of c] by (auto simp: set_addrs_plug)
  have nt: "n \<noteq> top_ptr c" using g2(5,8) top_ptr_cases [of c] by auto
  have e6: "replace_child (top_ptr c) n m h5 = Some ?h6"
    using replace_child_hole [OF t2, of h5] mt by (simp add: h5_def)
  have n6: "left_subtree ?h6 n = Some (root_ptr l)" "right_subtree ?h6 n = Some (root_ptr ?r)"
      "rb_parent ?h6 n = Some (top_ptr c)"
    using g2 nt fresh(2) root_ptr_cases [of l] root_ptr_cases [of ?r] by (auto simp: h5_def)
  have "at_root ?h6 (plug rr ?D)" using t6 by (simp add: plug_append)
  from inner_sums [OF this n6 f(7)] obtain h7 h8 where
    h8: "rbt_update_value_sums_up_to_root m ?h6 = Some h7" "rbt_update_value_sums_up_to_root (top_ptr ?C) h7 = Some h8"
      "same_links ?h6 h8" by blast
  have u: "unlink_inner n h = Some (root_ptr rr, h8)"
    using nx g(1-5) topC e2 g2(1-3) e6 h8(1,2)
    by (simp add: unlink_inner_def h5_def take_place_def Let_def)
  have t8: "at_root h8 (plug rr ?D)" using t6 at_root_same_links [OF h8(3)] by (simp add: plug_append)
  have p8: "rb_parent h8 = (rb_parent h2)(m := Some (top_ptr c), root_ptr l := Some m, root_ptr ?r := Some m)"
    using h8(3) by (simp add: same_links_def h5_def)
  have par: "rb_parent h8 (root_ptr rr) = Some (top_ptr ?D)"
  proof (cases "rr = Leaf \<and> cr \<noteq> []")
    case True
    then have "root_ptr ?r \<noteq> 0" "root_ptr l \<noteq> 0"
      using g2(6,7) t2 l root_ptr_cases [of l] root_ptr_cases [of ?r] by (auto simp: at_root_plug plug_Leaf)
    with True g(5) show ?thesis by (simp add: p8 c2 top_ptr_append)
  next
    case False
    then show ?thesis using t8 by (cases rr) (auto simp: at_root_plug p8)
  qed
  have "keeps h h8 ?as"
  proof (rule inner_keeps [OF h8(3) [unfolded h5_def h2_def]])
    have A: "insert 0 ?as = {0, m, n} \<union> set (addrs l) \<union> set (addrs rr) \<union> set (caddrs cr) \<union> set (caddrs c)"
      using m(1) by (auto simp: set_addrs_plug)
    have "root_ptr l \<in> insert 0 (set (addrs l))" "root_ptr rr \<in> insert 0 (set (addrs rr))"
        "root_ptr ?r \<in> insert 0 (set (addrs rr) \<union> set (caddrs cr))"
      using root_ptr_cases [of l] root_ptr_cases [of rr] root_ptr_cases [of ?r] by (auto simp: set_addrs_plug)
    moreover have "top_ptr ?C \<in> insert 0 (insert n (set (addrs l) \<union> set (caddrs cr) \<union> set (caddrs c)))"
      using top_ptr_cases [of ?C] by (auto simp: set_caddrs_append)
    ultimately show "{m, n, root_ptr l, root_ptr ?r, root_ptr rr, top_ptr c, top_ptr ?C} \<subseteq> insert 0 ?as"
      unfolding A using top_ptr_cases [of c] by auto
  qed
  then show ?thesis using m u t8 par h8(3) c2 f(6)
    by (intro exI [of _ m] exI [of _ km] exI [of _ rr] exI [of _ cr] exI [of _ h8]) (simp add: same_links_def h5_def)
qed

section \<open>The whole removal\<close>

text \<open>What follows the unlinking.\<close>

definition finish_removal :: "rptr \<Rightarrow> rptr \<Rightarrow> redblacktree \<Rightarrow> (rptr \<times> redblacktree) option" where
  "finish_removal node child h1 = do {
     let h2 = set_left node None (set_right node None (set_parent node None h1));
     c_assert (elements h2 > 0);
     let h3 = h2\<lparr>elements := elements h2 - 1\<rparr>;
     if rb_color h3 node = Black
     then do {
       root \<leftarrow> left_subtree h3 0;
       (child', h4) \<leftarrow> remove_fixup child (set_color root Red h3);
       let h5 = set_color child' Black h4;
       root' \<leftarrow> left_subtree h5 0;
       Some (node, set_color root' Black h5) }
     else Some (node, h3) }"

lemma rbt_remove_steps:
  "rbt_remove node h = do {
     c_assert (rbt_node_is_linked h node);
     l \<leftarrow> left_subtree h node;
     r \<leftarrow> right_subtree h node;
     (child, h1) \<leftarrow> (if l \<noteq> 0 \<and> r \<noteq> 0 then unlink_inner node h else unlink_outer node h);
     finish_removal node child h1 }"
  unfolding rbt_remove_def finish_removal_def by (rule refl)

text \<open>The root painted red, seen from the hole.\<close>

fun paint_frame :: "redblacktree_node_color_type \<Rightarrow> frame \<Rightarrow> frame" where
  "paint_frame k (FL a r) = FL (fst a, k) r"
| "paint_frame k (FR l a) = FR l (fst a, k)"

fun redden :: "frame list \<Rightarrow> frame list" where
  "redden [] = []"
| "redden (f # c) = (if c = [] then [paint_frame Red f] else f # redden c)"

lemma redden_Nil [simp]: "redden c = [] \<longleftrightarrow> c = []"
  by (cases c) auto

lemma redden_plug: "c \<noteq> [] \<Longrightarrow> plug t (redden c) = paint Red (plug t c)"
proof (induction c arbitrary: t)
  case (Cons f c)
  then show ?case by (cases f) auto
qed simp

lemma redden_top: "top_ptr (redden c) = top_ptr c" "top_color c = Black \<Longrightarrow> length c > 1 \<Longrightarrow> top_color (redden c) = Black"
  by (cases c rule: top_ptr.cases; simp)+

lemma redden_root: "c \<noteq> [] \<Longrightarrow> root_frame_color (redden c) = Red"
proof (induction c)
  case (Cons f c)
  then show ?case by (cases f; cases c; cases "redden c") auto
qed simp

lemma redden_length [simp]: "length (redden c) = length c"
  by (induction c) auto

lemma redden_cok: "cok c m \<Longrightarrow> cok (redden c) m"
proof (induction c arbitrary: m)
  case (Cons f c)
  then show ?case using redden_top(2) [of c] by (cases f) auto
qed simp

lemma addrs_paint [simp]: "addrs (paint k t) = addrs t"
  by (cases t) auto

lemma redden_heap:
  assumes "at_root h t"
  shows "at_root (set_color (root_ptr t) Red h) (paint Red t)"
proof (cases t)
  case Leaf
  with assms show ?thesis by (simp add: at_root_def)
next
  case (Node l a r)
  with recolor_tree [of h l "fst a" "snd a" r "[]" Red] assms show ?thesis by simp
qed

text \<open>Clearing the fields of the unlinked node.\<close>

definition cleared :: "rptr \<Rightarrow> redblacktree \<Rightarrow> redblacktree" where
  "cleared n h = (set_left n None (set_right n None (set_parent n None h)))\<lparr>elements := elements h - 1\<rparr>"

lemma cleared_tree:
  assumes "at_root h T" and "n \<notin> set (addrs T)" and "n \<noteq> 0"
  shows "at_root (cleared n h) T"
proof -
  have "shape (cleared n h) 0 T = shape h 0 T"
    by (rule shape_frame) (use assms(2) in \<open>auto simp: same_node_def cleared_def\<close>)
  with assms show ?thesis by (auto simp: at_root_def cleared_def)
qed

lemma keeps_root_color: "root_ptr t \<in> insert 0 (set as) \<Longrightarrow> keeps h (set_color (root_ptr t) k h) (set as)"
  by (auto simp: keeps_def same_node_def)

lemma repair_from_root:
  assumes t: "at_root h (plug t c)" and p: "rb_parent h (root_ptr t) = Some (top_ptr c)" and col: "rb_color h 0 = Black"
    and rb: "invc t" "invh t" "cok c (bheight t + 1)"
  shows "repaired h (addrs (plug t c)) (remove_fixup (root_ptr t) (set_color (root_ptr (plug t c)) Red h))"
proof (cases "plug t c = Leaf")
  case True
  then have "t = Leaf" "c = []" by (simp_all add: plug_Leaf)
  with t col show ?thesis
    by (auto simp: repaired_def remove_fixup_red fixed_def keeps_def same_node_def at_root_def intro!: exI [of _ Leaf])
next
  case False
  let ?r = "root_ptr (plug t c)"
  let ?h = "set_color ?r Red h"
  have r: "?r \<in> set (addrs (plug t c))" using False root_ptr_cases [of "plug t c"] by simp
  moreover have "0 \<notin> set (addrs (plug t c))" using t by (simp add: at_root_def)
  ultimately have r0: "?r \<noteq> 0" by metis
  have T: "at_root ?h (paint Red (plug t c))" by (rule redden_heap [OF t])
  have "repaired ?h (addrs (plug t c)) (remove_fixup (root_ptr t) ?h)"
  proof (cases "c = []")
    case True
    with False have "short ?h (paint Red t) []" "root_color (paint Red t) = Red" "root_ptr (paint Red t) = root_ptr t"
      using T p col rb r0 by (cases t; auto simp: short_def)+
    with remove_fixup_repaired [of ?h "paint Red t" "[]"] True show ?thesis by simp
  next
    case c: False
    have "short ?h t (redden c)"
      using T p col rb r0 redden_cok c by (cases t) (auto simp: short_def redden_plug redden_top)
    with remove_fixup_repaired [of ?h t "redden c"] c redden_root [OF c] show ?thesis by (simp add: redden_plug)
  qed
  then show ?thesis by (rule repaired_keeps [OF keeps_color [OF r]])
qed

lemma finish_removal_correct:
  assumes t: "at_root h (plug t c)" and p: "rb_parent h (root_ptr t) = Some (top_ptr c)"
    and n: "n \<notin> set (addrs (plug t c))" "n \<noteq> 0" and col: "rb_color h 0 = Black"
    and rb: "invc t" "invh t" "cok c (bheight t + (if rb_color h n = Black then 1 else 0))"
      "c \<noteq> [] \<longrightarrow> root_frame_color c = Black" "rb_color h n = Red \<longrightarrow> c \<noteq> [] \<and> root_color t = Black"
    and el: "elements h > 0"
  shows "\<exists>h' T. finish_removal n (root_ptr t) h = Some (n, h') \<and> is_tree h' T \<and> invc T \<and> invh T \<and>
     root_color T = Black \<and> addrs T = addrs (plug t c) \<and> keeps (cleared n h) h' (set (addrs T))"
proof -
  let ?h = "cleared n h"
  have t3: "at_root ?h (plug t c)" by (rule cleared_tree [OF t n])
  have f3: "left_subtree ?h 0 = Some (root_ptr (plug t c))" "rb_color ?h = rb_color h"
    using t3 by (simp_all add: at_root_def cleared_def)
  have "root_ptr t \<noteq> n" using n root_ptr_cases [of t] by (auto simp: set_addrs_plug)
  then have p3: "rb_parent ?h (root_ptr t) = Some (top_ptr c)" using p by (simp add: cleared_def)
  have e: "finish_removal n (root_ptr t) h = (if rb_color h n = Black then do {
       root \<leftarrow> left_subtree ?h 0;
       (child', h4) \<leftarrow> remove_fixup (root_ptr t) (set_color root Red ?h);
       root' \<leftarrow> left_subtree (set_color child' Black h4) 0;
       Some (n, set_color root' Black (set_color child' Black h4)) } else Some (n, ?h))"
    using el by (simp add: finish_removal_def cleared_def Let_def)
  show ?thesis
  proof (cases "rb_color h n")
    case Red
    with rb have c: "c \<noteq> []" "cok c (bheight t)" "root_frame_color c = Black" "root_color t = Black" by auto
    from cok_plug2 [OF c(2) rb(1,2)] c(4) have i: "invh (plug t c)" "invc2 (plug t c)" by auto
    have rc: "root_color (plug t c) = Black" using root_color_plug [OF c(1)] c(3) by simp
    with i(2) have "invc (plug t c)" by (cases "plug t c") auto
    with Red e t3 i rc col f3 show ?thesis by (auto simp: is_tree_def)
  next
    case Black
    then have "cok c (bheight t + 1)" using rb(3) by simp
    from repair_from_root [OF t3 p3 _ rb(1,2) this] col f3 obtain x h4 where
      h4: "remove_fixup (root_ptr t) (set_color (root_ptr (plug t c)) Red ?h) = Some (x, h4)"
        "fixed ?h (addrs (plug t c)) (set_color x Black h4)"
      by (auto simp: repaired_def)
    from fixed_blacken [OF h4(2)] obtain r T where
      r: "left_subtree (set_color x Black h4) 0 = Some r" "is_tree (set_color r Black (set_color x Black h4)) T"
        "addrs T = addrs (plug t c)" "invc T" "invh T" "root_color T = Black"
        "keeps ?h (set_color r Black (set_color x Black h4)) (set (addrs (plug t c)))"
      by blast
    then show ?thesis using e Black f3(1) h4(1)
      by (intro exI [of _ "set_color r Black (set_color x Black h4)"] exI [of _ T]) simp
  qed
qed

lemma focus_node: "n \<in> set (addrs T) \<Longrightarrow> \<exists>l k r c. T = plug (Node l (n, k) r) c"
proof (induction T)
  case (Node l a r)
  consider "n \<in> set (addrs l)" | "n = fst a" | "n \<in> set (addrs r)" using Node.prems by auto
  then show ?case
  proof cases
    case 1
    with Node.IH(1) obtain l' k r' c where "l = plug (Node l' (n, k) r') c" by blast
    then have "Node l a r = plug (Node l' (n, k) r') (c @ [FL a r])" by (simp add: plug_append)
    then show ?thesis by blast
  next
    case 2
    then have "Node l a r = plug (Node l (n, snd a) r) []" by simp
    then show ?thesis by blast
  next
    case 3
    with Node.IH(2) obtain l' k r' c where "r = plug (Node l' (n, k) r') c" by blast
    then have "Node l a r = plug (Node l' (n, k) r') (c @ [FR l a])" by (simp add: plug_append)
    then show ?thesis by blast
  qed
qed simp

lemma top_color_rename: "top_color (cr @ FR l (m, k) # c) = top_color (cr @ FR l (n, k) # c)"
  by (cases cr rule: top_color.cases) auto

lemma cok_rename: "cok (cr @ FR l (m, k) # c) j = cok (cr @ FR l (n, k) # c) j"
proof (induction cr arbitrary: j)
  case (Cons f cr)
  then show ?case using top_color_rename [of cr l m k c n] by (cases f) auto
qed simp

lemma root_frame_rename: "root_frame_color (cr @ FR l (m, k) # c) = root_frame_color (cr @ FR l (n, k) # c)"
proof (induction cr)
  case Nil
  show ?case by (cases c) auto
next
  case (Cons f cr)
  then show ?case by (cases cr) auto
qed

lemma rights_append: "rights (c @ d) = rights c @ rights d"
  by (induction c rule: rights.induct) auto

text \<open>The outcome of the unlinking: a place in the tree without the node, of black height one too
  small if the colour that left the tree is black.\<close>

definition unlinked :: "redblacktree \<Rightarrow> ctree \<Rightarrow> rptr \<Rightarrow> ctree \<Rightarrow> frame list \<Rightarrow> redblacktree \<Rightarrow> bool" where
  "unlinked h T n t c h1 \<longleftrightarrow> at_root h1 (plug t c) \<and> rb_parent h1 (root_ptr t) = Some (top_ptr c) \<and>
     rb_color h1 0 = Black \<and> addrs (plug t c) = remove1 n (addrs T) \<and> invc t \<and> invh t \<and>
     cok c (bheight t + (if rb_color h1 n = Black then 1 else 0)) \<and>
     (c \<noteq> [] \<longrightarrow> root_frame_color c = Black) \<and> (rb_color h1 n = Red \<longrightarrow> c \<noteq> [] \<and> root_color t = Black) \<and>
     keeps h h1 (set (addrs T))"

lemma rbt_ok_place:
  assumes "rbt_ok key h (plug t c)"
  shows "at_root h (plug t c)" "rb_color h 0 = Black" "invc t" "invh t" "cok c (bheight t)"
    "c \<noteq> [] \<longrightarrow> root_frame_color c = Black" "root_color t = Red \<longrightarrow> c \<noteq> []" "distinct (addrs (plug t c))"
  using assms invc_plug [of t c] invh_plug [of t c] cok_of_plug [of t c] root_color_plug [of c t]
  by (auto simp: rbt_ok_def is_tree_def at_root_def)

lemma unlink_outer_unlinked:
  assumes ok: "rbt_ok key h (plug (Node l (n, k) r) c)" and lr: "l = Leaf \<or> r = Leaf"
  shows "\<exists>t h1. unlink_outer n h = Some (root_ptr t, h1) \<and> unlinked h (plug (Node l (n, k) r) c) n t c h1"
proof -
  note t = rbt_ok_place [OF ok]
  define ch where "ch = (if l \<noteq> Leaf then l else r)"
  from unlink_outer_correct [OF t(1) lr ch_def] obtain h1 where
    u: "unlink_outer n h = Some (root_ptr ch, h1)" "at_root h1 (plug ch c)"
      "rb_parent h1 (root_ptr ch) = Some (top_ptr c)" "rb_color h1 = rb_color h"
      "keeps h h1 (set (addrs (plug (Node l (n, k) r) c)))" by blast
  have "bheight ch = bheight l" "invc ch" "invh ch" "k = Red \<longrightarrow> root_color ch = Black"
    "addrs ch = addrs l @ addrs r" using t(3,4) lr by (auto simp: ch_def)
  moreover have "remove1 n (addrs (plug (Node l (n, k) r) c)) = lefts c @ addrs l @ addrs r @ rights c"
    using t(8) by (auto simp: addrs_plug remove1_append)
  ultimately have "unlinked h (plug (Node l (n, k) r) c) n ch c h1"
    using u(2-5) t(2,5-7) at_root_focus(4) [OF t(1)] by (auto simp: unlinked_def addrs_plug)
  with u(1) show ?thesis by blast
qed

lemma unlink_inner_unlinked:
  assumes ok: "rbt_ok key h (plug (Node l (n, k) r) c)" and lr: "l \<noteq> Leaf" "r \<noteq> Leaf"
  shows "\<exists>t c' h1. unlink_inner n h = Some (root_ptr t, h1) \<and> unlinked h (plug (Node l (n, k) r) c) n t c' h1"
proof -
  note o = rbt_ok_place [OF ok]
  from unlink_inner_correct [OF o(1) lr] obtain m km rr cr h1 where
    u: "r = plug (Node Leaf (m, km) rr) cr" "lefts cr = []" "unlink_inner n h = Some (root_ptr rr, h1)"
      "at_root h1 (plug rr (cr @ FR l (m, k) # c))"
      "rb_parent h1 (root_ptr rr) = Some (top_ptr (cr @ FR l (m, k) # c))"
      "rb_color h1 = (rb_color h)(m := k, n := km)" "keeps h h1 (set (addrs (plug (Node l (n, k) r) c)))" by blast
  let ?C = "cr @ FR l (n, k) # c" and ?D = "cr @ FR l (m, k) # c" and ?m = "Node Leaf (m, km) rr"
  have P: "plug (Node l (n, k) r) c = plug ?m ?C" using u(1) by (simp add: plug_append)
  from ok have "rbt_ok key h (plug ?m ?C)" unfolding P .
  note i = rbt_ok_place [OF this]
  have "m \<noteq> 0" "n \<noteq> 0" using o(1) i(1) at_root_focus(5) by blast+
  moreover have "cok ?D (bheight rr + (if km = Black then 1 else 0))"
    using i(4,5) by (simp add: cok_rename [of cr l m k c _ n])
  moreover have "root_frame_color ?D = Black" using i(6) root_frame_rename [of cr l m k c n] by simp
  moreover have "addrs (plug rr ?D) = remove1 n (addrs (plug (Node l (n, k) r) c))"
    using o(8) u(1,2) by (auto simp: addrs_plug lefts_append rights_append remove1_append)
  ultimately have "unlinked h (plug (Node l (n, k) r) c) n rr ?D h1"
    using u(4-7) i(2-4) by (simp add: unlinked_def)
  with u(3) show ?thesis by blast
qed

lemma same_node_trans: "same_node h h1 a \<Longrightarrow> same_node h1 h2 a \<Longrightarrow> same_node h h2 a"
  by (simp add: same_node_def)

lemma same_node_cleared: "a \<noteq> n \<Longrightarrow> same_node h (cleared n h) a"
  by (simp add: same_node_def cleared_def)

lemma finish_unlinked:
  assumes u: "unlinked h T n t c h1" and n: "n \<in> set (addrs T)" "n \<noteq> 0"
    and T: "distinct (addrs T)" "elements h = length (addrs T)"
  shows "\<exists>h' T'. finish_removal n (root_ptr t) h1 = Some (n, h') \<and> is_tree h' T' \<and> invc T' \<and> invh T' \<and>
     root_color T' = Black \<and> addrs T' = remove1 n (addrs T) \<and> elements h' = length (addrs T') \<and>
     \<not> rbt_node_is_linked h' n \<and> rb_value h' = rb_value h \<and>
     (\<forall>a. a \<notin> set (addrs T) \<longrightarrow> a \<noteq> 0 \<longrightarrow> same_node h h' a)"
proof -
  have q: "at_root h1 (plug t c)" "rb_parent h1 (root_ptr t) = Some (top_ptr c)" "rb_color h1 0 = Black" "invc t" "invh t"
      "cok c (bheight t + (if rb_color h1 n = Black then 1 else 0))" "c \<noteq> [] \<longrightarrow> root_frame_color c = Black"
      "rb_color h1 n = Red \<longrightarrow> c \<noteq> [] \<and> root_color t = Black"
    and as: "addrs (plug t c) = remove1 n (addrs T)" and k: "keeps h h1 (set (addrs T))"
    using u unfolding unlinked_def by blast+
  have el: "elements h1 = length (addrs T)" using T(2) k by (simp add: keeps_def)
  then have pos: "elements h1 > 0" using n(1) by (auto intro: length_pos_if_in_set)
  have fresh: "n \<notin> set (addrs (plug t c))" unfolding as using T(1) by simp
  from finish_removal_correct [OF q(1,2) fresh n(2) q(3-8) pos] obtain h' T' where
    h': "finish_removal n (root_ptr t) h1 = Some (n, h')" "is_tree h' T'" "invc T'" "invh T'" "root_color T' = Black"
      "addrs T' = addrs (plug t c)" "keeps (cleared n h1) h' (set (addrs T'))"
    by blast
  have out: "same_node (cleared n h1) h' a" if "a \<notin> set (addrs T')" "a \<noteq> 0" for a
    using that h'(7) by (simp add: keeps_def)
  have "left_subtree h' n = None" using out [of n] fresh h'(6) n(2) by (simp add: same_node_def cleared_def)
  moreover have "same_node h h' a" if a: "a \<notin> set (addrs T)" "a \<noteq> 0" for a
  proof -
    have "a \<noteq> n" "a \<notin> set (addrs T')" using a n(1) notin_set_remove1 [of a "addrs T" n] as h'(6) by auto
    moreover have "same_node h h1 a" using k a by (simp add: keeps_def)
    ultimately show ?thesis using out a(2) by (blast intro: same_node_trans same_node_cleared)
  qed
  moreover have "elements h' = length (addrs T')" "rb_value h' = rb_value h"
    using h'(6,7) el as n(1) k by (auto simp: keeps_def cleared_def length_remove1)
  ultimately show ?thesis using h'(1-6) as by (auto simp: rbt_node_is_linked_def)
qed

lemma key_sorted_remove1: "key_sorted key xs \<Longrightarrow> key_sorted key (remove1 x xs)"
  by (induction xs) (auto dest: notin_set_remove1)

text \<open>The whole of \<open>rbt_remove\<close>.\<close>

lemma rbt_remove_whole:
  assumes ok: "rbt_ok key h T" and n: "n \<in> set (addrs T)"
  shows "\<exists>h' T'. rbt_remove n h = Some (n, h') \<and> rbt_ok key h' T' \<and> addrs T' = remove1 n (addrs T) \<and>
     \<not> rbt_node_is_linked h' n \<and> rb_value h' = rb_value h \<and>
     (\<forall>a. a \<notin> set (addrs T) \<longrightarrow> a \<noteq> 0 \<longrightarrow> same_node h h' a)"
proof -
  from focus_node [OF n] obtain l k r c where T: "T = plug (Node l (n, k) r) c" by blast
  note o = rbt_ok_place [OF ok [unfolded T]]
  note f = at_root_focus [OF o(1)]
  have z: "root_ptr l \<noteq> 0 \<longleftrightarrow> l \<noteq> Leaf" "root_ptr r \<noteq> 0 \<longleftrightarrow> r \<noteq> Leaf"
    using o(1) root_ptr_cases [of l] root_ptr_cases [of r] by (auto simp: at_root_plug; metis)+
  have "\<exists>t c' h1. (if root_ptr l \<noteq> 0 \<and> root_ptr r \<noteq> 0 then unlink_inner n h else unlink_outer n h) =
      Some (root_ptr t, h1) \<and> unlinked h T n t c' h1"
    using unlink_inner_unlinked [OF ok [unfolded T]] unlink_outer_unlinked [OF ok [unfolded T]] z T
    by (cases "l = Leaf \<or> r = Leaf") auto
  then obtain t c' h1 where u: "(if root_ptr l \<noteq> 0 \<and> root_ptr r \<noteq> 0 then unlink_inner n h else unlink_outer n h) =
      Some (root_ptr t, h1)" "unlinked h T n t c' h1" by blast
  have "rbt_remove n h = finish_removal n (root_ptr t) h1"
    using f(2,3) u(1) by (simp add: rbt_remove_steps rbt_node_is_linked_def)
  moreover have T3: "distinct (addrs T)" "elements h = length (addrs T)" "key_sorted key (addrs T)"
    using ok o(8) T by (auto simp: rbt_ok_def)
  moreover from finish_unlinked [OF u(2) n f(5) T3(1,2)] obtain h' T' where
    "finish_removal n (root_ptr t) h1 = Some (n, h')" "is_tree h' T'" "invc T'" "invh T'" "root_color T' = Black"
    "addrs T' = remove1 n (addrs T)" "elements h' = length (addrs T')" "\<not> rbt_node_is_linked h' n"
    "rb_value h' = rb_value h" "\<forall>a. a \<notin> set (addrs T) \<longrightarrow> a \<noteq> 0 \<longrightarrow> same_node h h' a"
    by blast
  ultimately show ?thesis
    using key_sorted_remove1 [of key "addrs T" n] by (intro exI [of _ h'] exI [of _ T']) (simp add: rbt_ok_def)
qed
end
