(* ===== verification/Rbt_Index.thy ===== *)
theory Rbt_Index
  imports Rbt_Remove
begin

text \<open>
  The red-black tree as its users see it: the walks in key order, and the index of nodes by key that
  the socket table relies on, stated as a locale and discharged by
  \<open>rbt_find\<close>, \<open>rbt_insert\<close> and \<open>rbt_remove\<close>.
\<close>

section \<open>Walking in key order\<close>

lemma rightmost:
  assumes "shape h p t" and "0 \<notin> set (addrs t)" and "t \<noteq> Leaf"
  shows "walk_right h (root_ptr t) = Some (last (addrs t))"
  using assms
proof (induction t arbitrary: p)
  case (Node l a r)
  show ?case
  proof (cases "r = Leaf")
    case True
    then show ?thesis using Node.prems by (subst walk_right.simps) simp
  next
    case False
    then have "root_ptr r \<in> set (addrs r)" using root_ptr_cases [of r] by simp
    with False Node show ?thesis by (subst walk_right.simps) (auto simp: last_append)
  qed
qed simp

lemma leftmost_hd:
  assumes "shape h p t" and "0 \<notin> set (addrs t)" and "t \<noteq> Leaf"
  shows "walk_left h (root_ptr t) = Some (hd (addrs t))"
  using leftmost [OF assms] by (auto simp: addrs_plug)

lemma climb_right_shape:
  assumes "cshape h c" and "hole h c = Some x" and "distinct (x # caddrs c)" and "0 \<notin> set (caddrs c)" and "x \<noteq> 0"
  shows "climb_right h x (top_ptr c) = Some (case rights c of [] \<Rightarrow> 0 | y # ys \<Rightarrow> y)"
  using assms
proof (induction c arbitrary: x rule: rights.induct)
  case 1
  show ?case by (subst climb_right.simps) simp
next
  case (2 a r c)
  then have "right_subtree h (fst a) \<noteq> Some x" using root_ptr_cases [of r] by auto
  then show ?case by (subst climb_right.simps) simp
next
  case (3 l a c)
  then have "climb_right h (fst a) (top_ptr c) = Some (case rights c of [] \<Rightarrow> 0 | y # ys \<Rightarrow> y)" by auto
  with "3.prems" show ?case by (subst climb_right.simps) auto
qed

lemma climb_left_shape:
  assumes "cshape h c" and "hole h c = Some x" and "distinct (x # caddrs c)" and "0 \<notin> set (caddrs c)" and "x \<noteq> 0"
  shows "climb_left h x (top_ptr c) = Some (if lefts c = [] then 0 else last (lefts c))"
  using assms
proof (induction c arbitrary: x rule: rights.induct)
  case 1
  show ?case by (subst climb_left.simps) simp
next
  case (2 a r c)
  then have "climb_left h (fst a) (top_ptr c) = Some (if lefts c = [] then 0 else last (lefts c))" by auto
  with "2.prems" show ?case by (subst climb_left.simps) auto
next
  case (3 l a c)
  then have "left_subtree h (fst a) \<noteq> Some x" using root_ptr_cases [of l] by auto
  then show ?case by (subst climb_left.simps) simp
qed

lemma next_prev_place:
  assumes t: "at_root h (plug (Node l (x, k) r) c)"
  shows "rbt_get_next h x = Some (case addrs r @ rights c of [] \<Rightarrow> None | y # ys \<Rightarrow> Some y)"
    and "rbt_get_prev h x = Some (if lefts c @ addrs l = [] then None else Some (last (lefts c @ addrs l)))"
proof -
  have f: "hole h c = Some x" "cshape h c" "distinct (x # caddrs c)" "0 \<notin> set (caddrs c)" "rb_parent h x = Some (top_ptr c)"
      "left_subtree h x = Some (root_ptr l)" "right_subtree h x = Some (root_ptr r)" "shape h x l" "shape h x r"
      "0 \<notin> set (addrs l)" "0 \<notin> set (addrs r)"
    using t by (auto simp: at_root_plug)
  have x0: "x \<noteq> 0" by (rule at_root_focus(5) [OF t])
  note n0 = set_caddrs [of c]
  have z: "root_ptr l \<noteq> 0 \<longleftrightarrow> l \<noteq> Leaf" "root_ptr r \<noteq> 0 \<longleftrightarrow> r \<noteq> Leaf"
    using f(10,11) root_ptr_cases [of l] root_ptr_cases [of r] by (metis root_ptr.simps(1))+
  have ends: "t = Leaf \<or> hd (addrs t) \<in> set (addrs t) \<and> last (addrs t) \<in> set (addrs t)" for t
    using hd_in_set [of "addrs t"] last_in_set [of "addrs t"] by (cases t) auto
  show "rbt_get_next h x = Some (case addrs r @ rights c of [] \<Rightarrow> None | y # ys \<Rightarrow> Some y)"
  proof (cases "r = Leaf")
    case True
    with climb_right_shape [OF f(2,1,3,4) x0] f n0 show ?thesis
      by (auto simp: rbt_get_next_def rbt_internal_find_next_def split: list.splits)
  next
    case False
    with leftmost_hd [OF f(9,11)] f z ends [of r] show ?thesis
      by (cases "addrs r") (auto simp: rbt_get_next_def rbt_internal_find_next_def)
  qed
  show "rbt_get_prev h x = Some (if lefts c @ addrs l = [] then None else Some (last (lefts c @ addrs l)))"
  proof (cases "l = Leaf")
    case True
    have "lefts c \<noteq> [] \<Longrightarrow> last (lefts c) \<noteq> 0" using last_in_set [of "lefts c"] f(4) n0 by (metis UnI1)
    with True climb_left_shape [OF f(2,1,3,4) x0] f(5,6) show ?thesis
      by (cases "lefts c = []") (simp_all add: rbt_get_prev_def rbt_internal_find_prev_def)
  next
    case False
    moreover from False have "addrs l \<noteq> []" by (cases l) auto
    moreover have "last (addrs l) \<noteq> 0" using False ends [of l] f(10) by metis
    ultimately show ?thesis using rightmost [OF f(8,10)] f(6) z
      by (simp add: rbt_get_prev_def rbt_internal_find_prev_def)
  qed
qed

section \<open>The nearest nodes\<close>

text \<open>The descent of the nearest-node functions ends at an equal node or at the hole where the node
  would be inserted.\<close>

definition last_step :: "frame list \<Rightarrow> (rptr \<times> bool) option" where
  "last_step c = (case c of [] \<Rightarrow> None | FL a r # c' \<Rightarrow> Some (fst a, False) | FR l a # c' \<Rightarrow> Some (fst a, True))"

lemma nearest_descent_correct:
  assumes "cmp_ok key cmp" and "at_root h (plug t c)" and "key_sorted key (addrs t)" and "fits key n c"
  shows "(\<exists>x. nearest_descent cmp h n (root_ptr t) (last_step c) = Some (Inl x) \<and> x \<in> set (addrs t) \<and> key x = key n) \<or>
         (\<exists>c'. nearest_descent cmp h n (root_ptr t) (last_step c) = Some (Inr (last_step c')) \<and>
            plug Leaf c' = plug t c \<and> fits key n c')"
  using assms(2-4)
proof (induction t arbitrary: c)
  case Leaf
  then show ?case by (auto simp: nearest_descent.simps)
next
  case (Node l a r)
  let ?x = "fst a"
  have cmp: "cmp n ?x < 0 \<longleftrightarrow> key n < key ?x" "cmp n ?x = 0 \<longleftrightarrow> key n = key ?x"
    using assms(1) by (auto simp: cmp_ok_def)
  have f: "?x \<noteq> 0" "left_subtree h ?x = Some (root_ptr l)" "right_subtree h ?x = Some (root_ptr r)"
    using Node.prems(1) by (auto simp: at_root_plug)
  have srt: "\<forall>y \<in> set (addrs l). key y < key ?x" "\<forall>y \<in> set (addrs r). key ?x < key y"
      "key_sorted key (addrs l)" "key_sorted key (addrs r)"
    using Node.prems(2) by (auto simp: sorted_wrt_append)
  consider "key n < key ?x" | "key n = key ?x" | "key ?x < key n" by force
  then show ?case
  proof cases
    case 1
    then have e: "nearest_descent cmp h n (root_ptr (Node l a r)) (last_step c) =
        nearest_descent cmp h n (root_ptr l) (last_step (FL a r # c))"
      using f cmp by (subst nearest_descent.simps) (simp add: last_step_def)
    have "fits key n (FL a r # c)" using Node.prems(3) 1 srt(2) by (auto simp: fits_def)
    from Node.IH(1) [OF _ srt(3) this] Node.prems(1) e show ?thesis by auto
  next
    case 2
    with f cmp show ?thesis by (subst nearest_descent.simps) simp
  next
    case 3
    then have "0 < cmp n ?x" using cmp by force
    then have e: "nearest_descent cmp h n (root_ptr (Node l a r)) (last_step c) =
        nearest_descent cmp h n (root_ptr r) (last_step (FR l a # c))"
      using f by (subst nearest_descent.simps) (simp add: Let_def last_step_def)
    have "fits key n (FR l a # c)" using Node.prems(3) 3 srt(1) by (auto simp: fits_def)
    from Node.IH(2) [OF _ srt(4) this] Node.prems(1) e show ?thesis by auto
  qed
qed

text \<open>The neighbours of a key in a sorted list of nodes.\<close>

definition below :: "(rptr \<Rightarrow> 'k::linorder) \<Rightarrow> rptr \<Rightarrow> rptr list \<Rightarrow> rptr option" where
  "below key n xs = (let ys = filter (\<lambda>x. key x < key n) xs in if ys = [] then None else Some (last ys))"

definition above :: "(rptr \<Rightarrow> 'k::linorder) \<Rightarrow> rptr \<Rightarrow> rptr list \<Rightarrow> rptr option" where
  "above key n xs = (case filter (\<lambda>x. key n < key x) xs of [] \<Rightarrow> None | y # _ \<Rightarrow> Some y)"

lemma below_above_split:
  assumes "\<forall>a \<in> set xs. key a < key n" and "\<forall>a \<in> set ys. key n < key a" and "\<forall>a \<in> set m. key a = key n"
  shows "below key n (xs @ m @ ys) = (if xs = [] then None else Some (last xs))"
    and "above key n (xs @ m @ ys) = (case ys of [] \<Rightarrow> None | y # _ \<Rightarrow> Some y)"
proof -
  have "filter (\<lambda>x. key x < key n) (xs @ m @ ys) = xs" "filter (\<lambda>x. key n < key x) (xs @ m @ ys) = ys"
    using assms by (auto simp: filter_empty_conv filter_id_conv intro!: filter_True dest: less_asym)
  then show "below key n (xs @ m @ ys) = (if xs = [] then None else Some (last xs))"
    and "above key n (xs @ m @ ys) = (case ys of [] \<Rightarrow> None | y # _ \<Rightarrow> Some y)"
    by (simp_all only: below_def above_def Let_def)
qed

lemma nearest_at_hole:
  assumes t: "at_root h (plug Leaf c)" and r: "left_subtree h 0 = Some root"
    and n: "nearest_descent cmp h n root None = Some (Inr (last_step c))"
  shows "rbt_get_nearest_prev cmp h n = Some (if lefts c = [] then None else Some (last (lefts c)))"
   and "rbt_get_nearest_next cmp h n = Some (case rights c of [] \<Rightarrow> None | y # _ \<Rightarrow> Some y)"
proof -
  have d: "distinct (caddrs c)" "0 \<notin> set (caddrs c)" "cshape h c" "hole h c = Some 0" using t by (simp_all add: at_root_plug)
  have l0: "lefts c = [] \<or> last (lefts c) \<noteq> 0" if "0 \<notin> set (caddrs c)" for c
    using that last_in_set [of "lefts c"] by (metis UnI1 set_caddrs)
  have r0: "rights c = [] \<or> hd (rights c) \<noteq> 0" if "0 \<notin> set (caddrs c)" for c
    using that hd_in_set [of "rights c"] by (metis UnI2 set_caddrs)
  show "rbt_get_nearest_prev cmp h n = Some (if lefts c = [] then None else Some (last (lefts c)))"
  proof (cases c rule: lefts.cases)
    case (2 a r c')
    with d climb_left_shape [of h c' "fst a"] l0 [of c'] r n show ?thesis
      by (cases "lefts c' = []") (simp_all add: last_step_def rbt_get_nearest_prev_def)
  qed (use r n in \<open>simp_all add: last_step_def rbt_get_nearest_prev_def\<close>)
  show "rbt_get_nearest_next cmp h n = Some (case rights c of [] \<Rightarrow> None | y # _ \<Rightarrow> Some y)"
  proof (cases c rule: rights.cases)
    case (3 l a c')
    with d climb_right_shape [of h c' "fst a"] r0 [of c'] r n show ?thesis
      by (cases "rights c'") (simp_all add: last_step_def rbt_get_nearest_next_def)
  qed (use r n in \<open>simp_all add: last_step_def rbt_get_nearest_next_def\<close>)
qed

section \<open>The index of nodes by key\<close>

text \<open>
  \<open>holds key h S\<close>: the structure \<open>h\<close> has exactly the nodes \<open>S\<close>, ordered by \<open>key\<close>. The laws are what a
  client may rely on; it never sees the links.
\<close>

locale node_index =
  fixes holds :: "(rptr \<Rightarrow> 'k::linorder) \<Rightarrow> 'h \<Rightarrow> rptr set \<Rightarrow> bool"
    and find :: "(rptr \<Rightarrow> rptr \<Rightarrow> int) \<Rightarrow> 'h \<Rightarrow> rptr \<Rightarrow> rptr option option"
    and ins :: "(rptr \<Rightarrow> rptr \<Rightarrow> int) \<Rightarrow> rptr \<Rightarrow> 'h \<Rightarrow> (rptr \<times> 'h) option"
    and rem :: "rptr \<Rightarrow> 'h \<Rightarrow> (rptr \<times> 'h) option"
  assumes keys_unique: "holds key h S \<Longrightarrow> inj_on key S \<and> finite S \<and> 0 \<notin> S"
    and other_keys: "holds key h S \<Longrightarrow> (\<And>a. a \<in> S \<Longrightarrow> key' a = key a) \<Longrightarrow> holds key' h S"
    and find_some: "holds key h S \<Longrightarrow> cmp_ok key cmp \<Longrightarrow> a \<in> S \<Longrightarrow> key a = key n \<Longrightarrow> find cmp h n = Some (Some a)"
    and find_none: "holds key h S \<Longrightarrow> cmp_ok key cmp \<Longrightarrow> (\<And>a. a \<in> S \<Longrightarrow> key a \<noteq> key n) \<Longrightarrow> find cmp h n = Some None"
    and ins_new: "holds key h S \<Longrightarrow> cmp_ok key cmp \<Longrightarrow> n \<noteq> 0 \<Longrightarrow> (\<And>a. a \<in> S \<Longrightarrow> key a \<noteq> key n) \<Longrightarrow>
        \<exists>h'. ins cmp n h = Some (n, h') \<and> holds key h' (insert n S)"
    and ins_old: "holds key h S \<Longrightarrow> cmp_ok key cmp \<Longrightarrow> n \<noteq> 0 \<Longrightarrow> a \<in> S \<Longrightarrow> key a = key n \<Longrightarrow> ins cmp n h = Some (a, h)"
    and rem_node: "holds key h S \<Longrightarrow> n \<in> S \<Longrightarrow> \<exists>h'. rem n h = Some (n, h') \<and> holds key h' (S - {n})"
begin

lemma find_after_ins:
  assumes "holds key h S" and "cmp_ok key cmp" and "n \<noteq> 0" and "\<And>a. a \<in> S \<Longrightarrow> key a \<noteq> key n"
  shows "\<exists>h'. ins cmp n h = Some (n, h') \<and> holds key h' (insert n S) \<and>
     (\<forall>q. find cmp h' q = (if key q = key n then Some (Some n) else find cmp h q))"
proof -
  from ins_new [OF assms] obtain h' where h': "ins cmp n h = Some (n, h')" "holds key h' (insert n S)" by blast
  have "find cmp h' q = (if key q = key n then Some (Some n) else find cmp h q)" for q
  proof (cases "\<exists>a \<in> insert n S. key a = key q")
    case True
    then obtain a where a: "a \<in> insert n S" "key a = key q" by blast
    from find_some [OF h'(2) assms(2) a] find_some [OF assms(1,2) _ a(2)] a assms(4) show ?thesis
      by (metis insertE)
  next
    case False
    with find_none [OF h'(2) assms(2)] find_none [OF assms(1,2)] show ?thesis by (metis insertCI)
  qed
  with h' show ?thesis by blast
qed

lemma find_after_rem:
  assumes "holds key h S" and "cmp_ok key cmp" and "n \<in> S"
  shows "\<exists>h'. rem n h = Some (n, h') \<and> holds key h' (S - {n}) \<and>
     (\<forall>q. find cmp h' q = (if key q = key n then Some None else find cmp h q))"
proof -
  from rem_node [OF assms(1,3)] obtain h' where h': "rem n h = Some (n, h')" "holds key h' (S - {n})" by blast
  have inj: "inj_on key S" using keys_unique [OF assms(1)] by simp
  have "find cmp h' q = (if key q = key n then Some None else find cmp h q)" for q
  proof (cases "\<exists>a \<in> S - {n}. key a = key q")
    case True
    then obtain a where a: "a \<in> S - {n}" "key a = key q" by blast
    then have "key q \<noteq> key n" using inj assms(3) by (metis DiffD1 DiffD2 inj_onD insertI1)
    with find_some [OF h'(2) assms(2) a] find_some [OF assms(1,2) _ a(2)] a show ?thesis by simp
  next
    case False
    have "key q \<noteq> key n \<Longrightarrow> find cmp h q = Some None" using False by (intro find_none [OF assms(1,2)]) auto
    moreover have "find cmp h' q = Some None" using False by (intro find_none [OF h'(2) assms(2)]) blast
    ultimately show ?thesis by simp
  qed
  with h' show ?thesis by blast
qed

end

text \<open>The red-black tree is such an index.\<close>

definition rbt_holds :: "(rptr \<Rightarrow> 'k::linorder) \<Rightarrow> redblacktree \<Rightarrow> rptr set \<Rightarrow> bool" where
  "rbt_holds key h S \<longleftrightarrow> (\<exists>T. rbt_ok key h T \<and> set (addrs T) = S)"

lemma sorted_key_inj: "key_sorted key xs \<Longrightarrow> inj_on key (set xs)"
proof (induction xs)
  case (Cons x xs)
  then have "key x \<notin> key ` set xs" by auto
  with Cons show ?case by auto
qed simp

lemma rbt_ok_find:
  assumes "rbt_ok key h T" and "cmp_ok key cmp"
  shows "rbt_find cmp h n = Some (List.find (\<lambda>x. key x = key n) (addrs T))"
  by (rule rbt_find_tree) (use assms in \<open>auto simp: rbt_ok_def is_tree_def\<close>)

interpretation rbt: node_index rbt_holds rbt_find rbt_insert rbt_remove
proof (unfold_locales, goal_cases)
  case (1 key h S)
  then show ?case by (auto simp: rbt_holds_def rbt_ok_def is_tree_def at_root_def sorted_key_inj)
next
  case (2 key h S key')
  then obtain T where T: "rbt_ok key h T" "set (addrs T) = S" by (auto simp: rbt_holds_def)
  have "key_sorted key' (addrs T)"
    by (rule sorted_wrt_mono_rel [of _ "\<lambda>a b. key a < key b"]) (use T 2 in \<open>auto simp: rbt_ok_def\<close>)
  with T show ?case by (auto simp: rbt_holds_def rbt_ok_def)
next
  case (3 key h S cmp a n)
  then obtain T where T: "rbt_ok key h T" "set (addrs T) = S" by (auto simp: rbt_holds_def)
  with 3 show ?case using rbt_ok_find [OF T(1)] find_key_sorted [of key "addrs T" a n] by (auto simp: rbt_ok_def)
next
  case (4 key h S cmp n)
  then obtain T where T: "rbt_ok key h T" "set (addrs T) = S" by (auto simp: rbt_holds_def)
  have "List.find (\<lambda>x. key x = key n) (addrs T) = None" using 4(3) T(2) by (intro find_None) blast
  with rbt_ok_find [OF T(1) 4(2)] show ?case by simp
next
  case (5 key h S cmp n)
  then obtain T where T: "rbt_ok key h T" "set (addrs T) = S" by (auto simp: rbt_holds_def)
  have "List.find (\<lambda>x. key x = key n) (addrs T) = None" using 5(4) T(2) by (intro find_None) blast
  with rbt_insert_whole [OF 5(2) T(1) 5(3)] T(2) show ?case by (auto simp: rbt_holds_def)
next
  case (6 key h S cmp n a)
  then obtain T where T: "rbt_ok key h T" "set (addrs T) = S" by (auto simp: rbt_holds_def)
  then have "List.find (\<lambda>x. key x = key n) (addrs T) = Some a"
    using 6 by (intro find_key_sorted) (auto simp: rbt_ok_def)
  with rbt_insert_whole [OF 6(2) T(1) 6(3)] show ?case by auto
next
  case (7 key h S n)
  then obtain T where T: "rbt_ok key h T" "set (addrs T) = S" by (auto simp: rbt_holds_def)
  then have d: "distinct (addrs T)" by (simp add: rbt_ok_def is_tree_def at_root_def)
  from rbt_remove_whole [OF T(1)] 7(2) T(2) d show ?case by (fastforce simp: rbt_holds_def)
qed

text \<open>
  A client that also asks whether a node is linked: the nodes of the index are, a removed or freshly
  initialised node is not, and nodes outside the index are left alone.
\<close>

locale linked_index = node_index +
  fixes linked :: "'b \<Rightarrow> rptr \<Rightarrow> bool"
    and init :: "rptr \<Rightarrow> 'b \<Rightarrow> 'b"
    and count :: "'b \<Rightarrow> nat"
  assumes linked_held: "holds key h S \<Longrightarrow> a \<in> S \<Longrightarrow> linked h a"
    and count_held: "holds key h S \<Longrightarrow> count h = card S"
    and ins_linked: "holds key h S \<Longrightarrow> cmp_ok key cmp \<Longrightarrow> n \<noteq> 0 \<Longrightarrow> ins cmp n h = Some (m, h') \<Longrightarrow>
        a \<notin> insert n S \<Longrightarrow> a \<noteq> 0 \<Longrightarrow> linked h' a = linked h a"
    and rem_linked: "holds key h S \<Longrightarrow> n \<in> S \<Longrightarrow> rem n h = Some (m, h') \<Longrightarrow>
        \<not> linked h' n \<and> (\<forall>a. a \<notin> S \<longrightarrow> a \<noteq> 0 \<longrightarrow> linked h' a = linked h a)"
    and init_node: "holds key h S \<Longrightarrow> n \<notin> S \<Longrightarrow> n \<noteq> 0 \<Longrightarrow>
        holds key (init n h) S \<and> \<not> linked (init n h) n \<and> (\<forall>a. a \<noteq> n \<longrightarrow> linked (init n h) a = linked h a)"
begin

text \<open>A node that is initialised and inserted.\<close>

lemma ins_init:
  assumes h: "holds key h S" and c: "cmp_ok key' cmp" and n: "n \<noteq> 0" "n \<notin> S"
    and k: "\<And>a. a \<in> S \<Longrightarrow> key' a = key a" "\<And>a. a \<in> S \<Longrightarrow> key a \<noteq> key' n"
  shows "\<exists>h'. ins cmp n (init n h) = Some (n, h') \<and> holds key' h' (insert n S) \<and>
     (\<forall>a. a \<notin> insert n S \<longrightarrow> a \<noteq> 0 \<longrightarrow> linked h' a = linked h a)"
proof -
  note i = init_node [OF h n(2,1)]
  then have h1: "holds key' (init n h) S" using other_keys [of key "init n h" S key'] k(1) by simp
  have "key' a \<noteq> key' n" if "a \<in> S" for a using k that by metis
  from ins_new [OF h1 c n(1) this] obtain h' where
    h': "ins cmp n (init n h) = Some (n, h')" "holds key' h' (insert n S)" by blast
  moreover have "linked h' a = linked h a" if "a \<notin> insert n S" "a \<noteq> 0" for a
    using ins_linked [OF h1 c n(1) h'(1) that] i that by simp
  ultimately show ?thesis by blast
qed

end

lemma same_node_linked: "same_node h h' a \<Longrightarrow> rbt_node_is_linked h' a = rbt_node_is_linked h a"
  by (simp add: same_node_def rbt_node_is_linked_def)

lemma shape_linked: "shape h p t \<Longrightarrow> a \<in> set (addrs t) \<Longrightarrow> rbt_node_is_linked h a"
  by (induction t arbitrary: p) (auto simp: rbt_node_is_linked_def)

lemma rbt_node_new_tree:
  assumes ok: "rbt_ok key h T" and n: "n \<notin> set (addrs T)" "n \<noteq> 0"
  shows "rbt_ok key (rbt_node_new n h) T"
proof -
  have "shape (rbt_node_new n h) 0 T = shape h 0 T"
    by (rule shape_frame) (use n in \<open>auto simp: same_node_def rbt_node_new_def\<close>)
  with assms show ?thesis by (auto simp: rbt_ok_def is_tree_def at_root_def rbt_node_new_def)
qed

interpretation rbtl: linked_index rbt_holds rbt_find rbt_insert rbt_remove rbt_node_is_linked rbt_node_new rbt_get_elements
proof (unfold_locales, goal_cases)
  case (1 key h S a)
  then show ?case using shape_linked by (fastforce simp: rbt_holds_def rbt_ok_def is_tree_def at_root_def)
next
  case (2 key h S)
  then show ?case
    by (auto simp: rbt_holds_def rbt_ok_def rbt_get_elements_def is_tree_def at_root_def distinct_card)
next
  case (3 key h S cmp n m h' a)
  then obtain T where T: "rbt_ok key h T" "set (addrs T) = S" by (auto simp: rbt_holds_def)
  from rbt_insert_whole [OF 3(2) T(1) 3(3)] 3(4-6) T(2) show ?case
    by (auto simp: same_node_linked split: option.splits)
next
  case (4 key h S n m h')
  then obtain T where T: "rbt_ok key h T" "set (addrs T) = S" by (auto simp: rbt_holds_def)
  from rbt_remove_whole [OF T(1), of n] 4(2,3) T(2) show ?case by (auto simp: same_node_linked)
next
  case (5 key h S n)
  then obtain T where T: "rbt_ok key h T" "set (addrs T) = S" by (auto simp: rbt_holds_def)
  with rbt_node_new_tree [OF T(1)] 5(2,3) have "rbt_holds key (rbt_node_new n h) S" by (auto simp: rbt_holds_def)
  then show ?case by (simp add: rbt_node_is_linked_def rbt_node_new_def)
qed
section \<open>Properties\<close>

lemma rbt_new_ok: "rbt_ok key (rbt_new h) Leaf"
  by (simp add: rbt_ok_def is_tree_def at_root_def rbt_new_def)

text \<open>A memory in which no node is linked, and a tree with one node, for the examples.\<close>

definition blank_heap :: redblacktree where
  "blank_heap = \<lparr>rb_parent = \<lambda>_. None, left_subtree = \<lambda>_. None, right_subtree = \<lambda>_. None,
     rb_color = \<lambda>_. Black, rb_value = \<lambda>_. 0, value_sum = \<lambda>_. 0, elements = 0\<rparr>"

definition single_heap :: "rptr \<Rightarrow> redblacktree" where
  "single_heap n = (set_left 0 (Some n) (set_right n (Some 0) (set_left n (Some 0) (set_parent n (Some 0)
     (rbt_new blank_heap)))))\<lparr>elements := 1\<rparr>"

lemma single_heap_ok: "n \<noteq> 0 \<Longrightarrow> rbt_ok key (single_heap n) (Node Leaf (n, Black) Leaf)"
  by (simp add: rbt_ok_def is_tree_def at_root_def single_heap_def rbt_new_def blank_heap_def)

lemma cmp_ok_int: "cmp_ok (\<lambda>a. int a) (\<lambda>a b. int a - int b)"
  by (auto simp: cmp_ok_def)

text \<open>C18. \<open>rbt_insert\<close> on every red-black tree ordered by its comparison function: if a node with the
  key of the new one is linked, that node is returned and nothing changes; otherwise the loop ends
  without failing an assertion, the new node is returned, and the tree holds exactly one node more,
  is ordered, red-black with a black root and counts its elements. Nodes outside the tree and all
  values stay as they are.\<close>

theorem rbt_insert_correct:
  fixes key :: "rptr \<Rightarrow> 'k::linorder"
  assumes "cmp_ok key cmp" and "rbt_ok key h T" and "n \<noteq> 0"
  shows "case List.find (\<lambda>x. key x = key n) (addrs T) of
      Some x \<Rightarrow> rbt_insert cmp n h = Some (x, h)
    | None \<Rightarrow> \<exists>h' T'. rbt_insert cmp n h = Some (n, h') \<and> rbt_ok key h' T' \<and>
        set (addrs T') = insert n (set (addrs T)) \<and> rb_value h' = rb_value h \<and>
        (\<forall>a. a \<notin> set (addrs T') \<longrightarrow> a \<noteq> 0 \<longrightarrow> same_node h h' a)"
  by (rule rbt_insert_whole [OF assms])

theorem rbt_insert_correct_witness:
  "\<exists>h' T'. rbt_insert (\<lambda>a b. int a - int b) 7 (single_heap 5) = Some (7, h') \<and> rbt_ok (\<lambda>a. int a) h' T' \<and>
     set (addrs T') = {7, 5} \<and> rb_value h' = rb_value (single_heap 5) \<and>
     (\<forall>a. a \<notin> set (addrs T') \<longrightarrow> a \<noteq> 0 \<longrightarrow> same_node (single_heap 5) h' a)"
  using rbt_insert_correct [OF cmp_ok_int single_heap_ok [of 5], of 7] by simp

text \<open>C19. \<open>rbt_remove\<close> of a linked node of a red-black tree terminates without failing an assertion
  and returns the node; the tree then holds the remaining nodes in the same order, is red-black with
  a black root and counts its elements, the node is unlinked, and nodes outside the tree and all
  values stay as they are.\<close>

theorem rbt_remove_correct:
  assumes "rbt_ok key h T" and "n \<in> set (addrs T)"
  shows "\<exists>h' T'. rbt_remove n h = Some (n, h') \<and> rbt_ok key h' T' \<and> addrs T' = remove1 n (addrs T) \<and>
     \<not> rbt_node_is_linked h' n \<and> rb_value h' = rb_value h \<and>
     (\<forall>a. a \<notin> set (addrs T) \<longrightarrow> a \<noteq> 0 \<longrightarrow> same_node h h' a)"
  by (rule rbt_remove_whole [OF assms])

theorem rbt_remove_correct_witness:
  "\<exists>h' T'. rbt_remove 5 (single_heap 5) = Some (5, h') \<and> rbt_ok (\<lambda>a. int a) h' T' \<and> addrs T' = [] \<and>
     \<not> rbt_node_is_linked h' 5 \<and> rb_value h' = rb_value (single_heap 5) \<and>
     (\<forall>a. a \<notin> {5} \<longrightarrow> a \<noteq> 0 \<longrightarrow> same_node (single_heap 5) h' a)"
  using rbt_remove_correct [OF single_heap_ok [of 5 "\<lambda>a. int a"], of 5] by simp

text \<open>The descent of \<open>rbt_find\<close> terminates and finds what a search through all linked nodes finds:
  the node with the key that is asked for, NULL if there is none.\<close>

theorem rbt_find_correct:
  assumes "rbt_ok key h T" and "cmp_ok key cmp"
  shows "rbt_find cmp h n = Some (List.find (\<lambda>x. key x = key n) (addrs T))"
  by (rule rbt_ok_find [OF assms])

theorem rbt_find_correct_witness:
  "rbt_find (\<lambda>a b. int a - int b) (single_heap 5) 5 = Some (Some 5) \<and>
   rbt_find (\<lambda>a b. int a - int b) (single_heap 5) 6 = Some None"
  using rbt_find_correct [OF single_heap_ok [of 5] cmp_ok_int, of 5]
    rbt_find_correct [OF single_heap_ok [of 5] cmp_ok_int, of 6] by simp

text \<open>Round trip through the index: after the insertion of a node with a new key, lookups find the
  node under its key and are unchanged for every other key; after its removal, every lookup
  answers as before the insertion.\<close>

theorem rbt_insert_remove_roundtrip:
  fixes key :: "rptr \<Rightarrow> 'k::linorder"
  assumes h: "rbt_holds key h S" and c: "cmp_ok key cmp" and n: "n \<noteq> 0" "\<And>a. a \<in> S \<Longrightarrow> key a \<noteq> key n"
  shows "\<exists>h1 h2. rbt_insert cmp n h = Some (n, h1) \<and> rbt_remove n h1 = Some (n, h2) \<and> rbt_holds key h2 S \<and>
     (\<forall>q. rbt_find cmp h1 q = (if key q = key n then Some (Some n) else rbt_find cmp h q)) \<and>
     (\<forall>q. rbt_find cmp h2 q = rbt_find cmp h q)"
proof -
  from rbt.find_after_ins [OF h c n] obtain h1 where
    h1: "rbt_insert cmp n h = Some (n, h1)" "rbt_holds key h1 (insert n S)"
      "\<forall>q. rbt_find cmp h1 q = (if key q = key n then Some (Some n) else rbt_find cmp h q)" by blast
  from rbt.find_after_rem [OF h1(2) c, of n] obtain h2 where
    h2: "rbt_remove n h1 = Some (n, h2)" "rbt_holds key h2 (insert n S - {n})"
      "\<forall>q. rbt_find cmp h2 q = (if key q = key n then Some None else rbt_find cmp h1 q)" by blast
  have "n \<notin> S" using n(2) by blast
  then have "insert n S - {n} = S" by simp
  moreover have "rbt_find cmp h q = Some None" if "key q = key n" for q
    by (rule rbt.find_none [OF h c]) (use n(2) that in simp)
  ultimately show ?thesis using h1 h2 by simp
qed

theorem rbt_insert_remove_roundtrip_witness:
  "\<exists>h1 h2. rbt_insert (\<lambda>a b. int a - int b) 3 (rbt_new blank_heap) = Some (3, h1) \<and> rbt_remove 3 h1 = Some (3, h2) \<and>
     rbt_holds int h2 {} \<and>
     (\<forall>q. rbt_find (\<lambda>a b. int a - int b) h1 q =
       (if int q = int 3 then Some (Some 3) else rbt_find (\<lambda>a b. int a - int b) (rbt_new blank_heap) q)) \<and>
     (\<forall>q. rbt_find (\<lambda>a b. int a - int b) h2 q = rbt_find (\<lambda>a b. int a - int b) (rbt_new blank_heap) q)"
proof -
  have "rbt_holds int (rbt_new blank_heap) {}" using rbt_new_ok [of int blank_heap] by (auto simp: rbt_holds_def intro!: exI [of _ Leaf])
  from rbt_insert_remove_roundtrip [OF this cmp_ok_int, of 3] show ?thesis by simp
qed

text \<open>Walking a red-black tree visits the nodes in key order: \<open>rbt_get_first\<close> and \<open>rbt_get_last\<close>
  return the ends, \<open>rbt_get_next\<close> and \<open>rbt_get_prev\<close> the neighbours of every linked node, and NULL at
  the ends; all four terminate.\<close>

theorem rbt_walk_in_order:
  assumes ok: "rbt_ok key h T" and x: "addrs T = xs @ x # ys"
  shows "rbt_get_first h = Some (Some (hd (addrs T))) \<and> rbt_get_last h = Some (Some (last (addrs T))) \<and>
     rbt_get_next h x = Some (case ys of [] \<Rightarrow> None | y # _ \<Rightarrow> Some y) \<and>
     rbt_get_prev h x = Some (if xs = [] then None else Some (last xs))"
proof -
  have t: "at_root h T" using ok by (simp add: rbt_ok_def is_tree_def)
  have f: "shape h 0 T" "0 \<notin> set (addrs T)" "T \<noteq> Leaf" "left_subtree h 0 = Some (root_ptr T)"
      "right_subtree h 0 = Some 0" "distinct (addrs T)"
    using t x by (auto simp: at_root_def)
  have r0: "root_ptr T \<noteq> 0" "hd (addrs T) \<noteq> 0" "last (addrs T) \<noteq> 0"
    using f(2,3) root_ptr_cases [of T] x by (metis, metis hd_in_set append_is_Nil_conv list.distinct(1), metis last_in_set append_is_Nil_conv list.distinct(1))
  obtain l k r c where T: "T = plug (Node l (x, k) r) c" using focus_node [of x T] x by auto
  have "lefts c @ addrs l @ x # addrs r @ rights c = xs @ x # ys" using x T by (simp add: addrs_plug)
  moreover have "x \<notin> set xs" "x \<notin> set ys" using f(6) unfolding x by simp_all
  moreover have "x \<notin> set (lefts c @ addrs l)" using f(6) unfolding T by (simp add: addrs_plug)
  ultimately have "xs = lefts c @ addrs l" "ys = addrs r @ rights c"
    by (metis append_assoc append_Cons_eq_iff)+
  with next_prev_place [of h l x k r c] t T leftmost_hd [OF f(1-3)] rightmost [OF f(1-3)] f r0 show ?thesis
    by (simp add: rbt_get_first_def rbt_get_last_def)
qed

theorem rbt_walk_in_order_witness:
  "rbt_get_first (single_heap 5) = Some (Some 5) \<and> rbt_get_last (single_heap 5) = Some (Some 5) \<and>
   rbt_get_next (single_heap 5) 5 = Some None \<and> rbt_get_prev (single_heap 5) 5 = Some None"
  using rbt_walk_in_order [OF single_heap_ok [of 5 id], of "[]" 5 "[]"] by simp

text \<open>\<open>rbt_get_nearest_prev\<close> and \<open>rbt_get_nearest_next\<close> terminate and return, for a key that may or
  may not be in the tree, the linked node with the greatest smaller and the one with the least
  greater key, NULL if there is none.\<close>

theorem rbt_nearest_correct:
  fixes key :: "rptr \<Rightarrow> 'k::linorder"
  assumes cmp: "cmp_ok key cmp" and ok: "rbt_ok key h T"
  shows "rbt_get_nearest_prev cmp h n = Some (below key n (addrs T)) \<and>
     rbt_get_nearest_next cmp h n = Some (above key n (addrs T))"
proof -
  have t: "at_root h (plug T [])" "key_sorted key (addrs T)" "left_subtree h 0 = Some (root_ptr T)"
    using ok by (auto simp: rbt_ok_def is_tree_def at_root_def)
  have "fits key n []" by (simp add: fits_def)
  from nearest_descent_correct [OF cmp t(1,2) this]
  consider (eq) x where "nearest_descent cmp h n (root_ptr T) None = Some (Inl x)" "x \<in> set (addrs T)" "key x = key n"
    | (hole) c where "nearest_descent cmp h n (root_ptr T) None = Some (Inr (last_step c))" "plug Leaf c = T" "fits key n c"
    by (auto simp: last_step_def)
  then show ?thesis
  proof cases
    case eq
    from focus_node [OF eq(2)] obtain l k r c where T: "T = plug (Node l (x, k) r) c" by blast
    have as: "addrs T = (lefts c @ addrs l) @ [x] @ (addrs r @ rights c)" by (simp add: T addrs_plug)
    have "\<forall>a \<in> set (lefts c @ addrs l). key a < key n" "\<forall>a \<in> set (addrs r @ rights c). key n < key a"
      using t(2) eq(3) unfolding as sorted_wrt_append by auto
    from below_above_split [OF this, of "[x]"] next_prev_place [of h l x k r c] t(1) T eq t(3) show ?thesis
      unfolding as by (simp add: rbt_get_nearest_prev_def rbt_get_nearest_next_def)
  next
    case hole
    have as: "addrs T = lefts c @ [] @ rights c" using hole(2) addrs_plug [of Leaf c] by simp
    from below_above_split [of "lefts c" key n "rights c" "[]"] hole(3)
      nearest_at_hole [OF _ t(3) hole(1)] t(1) hole(2) show ?thesis
      unfolding as by (simp add: fits_def)
  qed
qed

theorem rbt_nearest_correct_witness:
  "rbt_get_nearest_prev (\<lambda>a b. int a - int b) (single_heap 5) 8 = Some (Some 5) \<and>
   rbt_get_nearest_next (\<lambda>a b. int a - int b) (single_heap 5) 8 = Some None"
  using rbt_nearest_correct [OF cmp_ok_int single_heap_ok [of 5], of 8] by (simp add: below_def above_def)

end
