(* ===== verification/Neat_Flow.thy ===== *)
theory Neat_Flow
  imports Prelude
begin

text \<open>
  The data of the transport core (\<open>neat.h\<close>, \<open>neat_internal.h\<close>) that the data path works on: error
  codes, protocol stacks, optional arguments, pollable sockets, flows and buffered messages, with
  the classification functions of \<open>neat_core.c\<close> on them.

  Configuration. The preprocessor symbols are those of a Linux build with kernel SCTP:
  \<open>HAVE_NETINET_SCTP_H\<close>, \<open>IPPROTO_SCTP\<close>, \<open>IPPROTO_UDPLITE\<close>, \<open>SCTP_SNDINFO\<close>, \<open>SCTP_PRINFO\<close>,
  \<open>SCTP_RCVINFO\<close>, \<open>SCTP_EXPLICIT_EOR\<close>, \<open>SCTP_MULTISTREAMING\<close>, \<open>MSG_NOTIFICATION\<close> and
  \<open>MSG_NOSIGNAL\<close> are defined; \<open>USRSCTP_SUPPORT\<close>, \<open>WEBRTC_SUPPORT\<close>, \<open>MPTCP_SUPPORT\<close> and
  \<open>NEAT_SCTP_DTLS\<close> are not. Calls of the logger have no effect on the state and are left out.
\<close>

section \<open>Error codes, stacks and states\<close>

text \<open>The \<open>NEAT_ERROR_\<dots>\<close> constants.\<close>

datatype neat_error_code =
    NEAT_OK | NEAT_ERROR_WOULD_BLOCK | NEAT_ERROR_BAD_ARGUMENT | NEAT_ERROR_IO | NEAT_ERROR_DNS
  | NEAT_ERROR_INTERNAL | NEAT_ERROR_SECURITY | NEAT_ERROR_UNABLE | NEAT_ERROR_MESSAGE_TOO_BIG
  | NEAT_ERROR_REMOTE | NEAT_ERROR_OUT_OF_MEMORY

text \<open>\<open>struct sockaddr_storage\<close>, with numbers in host byte order.\<close>

datatype sockaddr_storage = SS_INET u16 u32 | SS_INET6 u16 u32 u32 "u8 list" | SS_OTHER nat

text \<open>\<open>neat_protocol_stack_type\<close>; the last constructor is 0 and every other integer.\<close>

datatype neat_protocol_stack_type =
    NEAT_STACK_UDP | NEAT_STACK_UDPLITE | NEAT_STACK_TCP | NEAT_STACK_MPTCP | NEAT_STACK_SCTP
  | NEAT_STACK_SCTP_UDP | NEAT_STACK_WEBRTC | NEAT_STACK_NONE

datatype neat_flow_states =
    NEAT_FLOW_CLOSED | NEAT_FLOW_CONNECTING | NEAT_FLOW_OPEN | NEAT_FLOW_CLOSING | NEAT_FLOW_WAITING

text \<open>The protocol numbers, and the protocol of a stack.\<close>

datatype ipproto = IPPROTO_UDP | IPPROTO_UDPLITE | IPPROTO_TCP | IPPROTO_SCTP | IPPROTO_0

fun nt_stack_to_protocol :: "neat_protocol_stack_type \<Rightarrow> ipproto" where
  "nt_stack_to_protocol NEAT_STACK_UDP = IPPROTO_UDP"
| "nt_stack_to_protocol NEAT_STACK_UDPLITE = IPPROTO_UDPLITE"
| "nt_stack_to_protocol NEAT_STACK_MPTCP = IPPROTO_0"
| "nt_stack_to_protocol NEAT_STACK_TCP = IPPROTO_TCP"
| "nt_stack_to_protocol NEAT_STACK_SCTP_UDP = IPPROTO_SCTP"
| "nt_stack_to_protocol NEAT_STACK_WEBRTC = IPPROTO_SCTP"
| "nt_stack_to_protocol NEAT_STACK_SCTP = IPPROTO_SCTP"
| "nt_stack_to_protocol NEAT_STACK_NONE = IPPROTO_0"

fun nt_base_stack :: "neat_protocol_stack_type \<Rightarrow> neat_protocol_stack_type" where
  "nt_base_stack NEAT_STACK_SCTP_UDP = NEAT_STACK_WEBRTC"
| "nt_base_stack NEAT_STACK_WEBRTC = NEAT_STACK_WEBRTC"
| "nt_base_stack NEAT_STACK_NONE = NEAT_STACK_NONE"
| "nt_base_stack stack = stack"

text \<open>\<open>sctp_to_neat_code\<close> on the cause codes of RFC 4960 (\<open>neat_core.h\<close>).\<close>

definition sctp_to_neat_code :: "u16 \<Rightarrow> neat_error_code" where
  "sctp_to_neat_code sctp_code =
     (if sctp_code = 0x0001 \<or> sctp_code = 0x0005 \<or> sctp_code = 0x0006 \<or> sctp_code = 0x0007 \<or>
         sctp_code = 0x0008 \<or> sctp_code = 0x0009 \<or> sctp_code = 0x0002 \<or> sctp_code = 0x0003
      then NEAT_ERROR_BAD_ARGUMENT
      else if sctp_code = 0x0004 then NEAT_ERROR_IO
      else if sctp_code = 0x000a \<or> sctp_code = 0x000d \<or> sctp_code = 0x000b then NEAT_ERROR_INTERNAL
      else if sctp_code = 0x000c then NEAT_ERROR_REMOTE
      else NEAT_ERROR_INTERNAL)"

section \<open>Optional arguments\<close>

datatype neat_tlv_tag =
    NEAT_TAG_STREAM_ID | NEAT_TAG_STREAM_COUNT | NEAT_TAG_LOCAL_NAME | NEAT_TAG_LOCAL_ADDRESS
  | NEAT_TAG_SERVICE_NAME | NEAT_TAG_CONTEXT | NEAT_TAG_PARTIAL_RELIABILITY_METHOD
  | NEAT_TAG_PARTIAL_RELIABILITY_VALUE | NEAT_TAG_PARTIAL_MESSAGE_RECEIVED
  | NEAT_TAG_PARTIAL_SEQNUM | NEAT_TAG_UNORDERED | NEAT_TAG_UNORDERED_SEQNUM
  | NEAT_TAG_DESTINATION_IP_ADDRESS | NEAT_TAG_PRIORITY | NEAT_TAG_FLOW_GROUP
  | NEAT_TAG_CC_ALGORITHM | NEAT_TAG_TRANSPORT_STACK | NEAT_TAG_CHANNEL_NAME | NEAT_TAG_LAST

text \<open>The type tag and the union of \<open>struct neat_tlv\<close>; a float is not interpreted.\<close>

datatype neat_tlv_value = TLV_INTEGER int | TLV_FLOAT | TLV_STRING string

record neat_tlv =
  tlv_tag :: neat_tlv_tag
  tlv_value :: neat_tlv_value

text \<open>
  One \<open>OPTIONAL_INTEGER_PRESENT\<close> clause of the loop over the optional arguments: the variable and
  the presence flag, set by every argument with the tag and integer type.
\<close>

fun optional_integer_present :: "neat_tlv_tag \<Rightarrow> neat_tlv list \<Rightarrow> int \<times> bool \<Rightarrow> int \<times> bool" where
  "optional_integer_present tag [] r = r"
| "optional_integer_present tag (a # as) r =
     optional_integer_present tag as
       (if tlv_tag a = tag then (case tlv_value a of TLV_INTEGER i \<Rightarrow> (i, True) | _ \<Rightarrow> r) else r)"

section \<open>Messages, sockets and flows\<close>

text \<open>
  \<open>struct neat_buffered_message\<close>. \<open>buffered\<close> is the allocated memory, so its length is
  \<open>bufferedAllocation\<close> as long as the allocations succeed; the null pointer is the empty list.
\<close>

record neat_buffered_message =
  buffered :: "u8 list"
  bufferedOffset :: nat
  bufferedSize :: nat
  bufferedAllocation :: nat
  bm_stream_id :: u16
  bm_unordered :: u8
  bm_pr_method :: u8
  bm_pr_value :: u32

text \<open>\<open>struct neat_pollable_socket\<close>; sockets are referred to by number, flows too.\<close>

record neat_pollable_socket =
  fd :: int
  stack :: neat_protocol_stack_type
  write_limit :: nat
  write_size :: nat
  read_size :: nat
  multistream :: bool
  is_closed :: bool
  sctp_explicit_eor :: bool
  sctp_partial_reliability :: bool
  sctp_streams_available :: u16
  sctp_notification_wait :: bool
  sctp_notification_recvd :: bool
  sctp_stream_reset :: bool
  sctp_neat_peer :: bool
  sctp_streams_used :: u16
  sctp_multistream_flows :: "nat list"

text \<open>\<open>struct neat_flow_operations\<close>: which callbacks are set, and what the last one was given.\<close>

record neat_flow_operations =
  op_status :: neat_error_code
  op_stream_id :: u16
  transport_protocol :: neat_protocol_stack_type
  on_connected :: bool
  on_error :: bool
  on_readable :: bool
  on_writable :: bool
  on_all_written :: bool
  on_network_status_changed :: bool
  on_aborted :: bool
  on_timeout :: bool
  on_close :: bool
  on_send_failure :: bool
  on_slowdown :: bool
  on_rate_hint :: bool

text \<open>\<open>struct neat_flow_statistics\<close>.\<close>

record neat_flow_statistics =
  bytes_sent :: u64
  bytes_received :: u64

text \<open>\<open>struct neat_read_queue_message\<close> is its buffer.\<close>

record neat_flow =
  flow_state :: neat_flow_states
  operations :: neat_flow_operations
  bufferedMessages :: "neat_buffered_message list"
  flow_stats :: neat_flow_statistics
  readBuffer :: "u8 list"
  readBufferSize :: nat
  readBufferAllocation :: nat
  readBufferMsgComplete :: bool
  firstWritePending :: bool
  acceptPending :: bool
  isPolling :: bool
  isDraining :: bool
  security_needed :: bool
  isClosing :: bool
  notifyDrainPending :: bool
  preserveMessageBoundaries :: bool
  eofSeen :: bool
  multistream_id :: u16
  multistream_reset_in :: bool
  multistream_reset_out :: bool
  multistream_read_queue :: "u8 list list"

section \<open>The kernel interface of the data path\<close>

text \<open>The error numbers the code distinguishes.\<close>

datatype errno = EWOULDBLOCK | ENOENT | ECONNRESET | EOTHER

text \<open>
  What \<open>sendmsg\<close> is given: one buffer, and for SCTP the \<open>SCTP_SNDINFO\<close> and \<open>SCTP_PRINFO\<close> control
  messages.
\<close>

record sctp_sndinfo =
  snd_sid :: u16
  snd_unordered :: bool
  snd_eor :: bool

record sctp_prinfo =
  pr_policy :: u16
  pr_value :: u32

record msghdr =
  msg_iov :: "u8 list"
  msg_sndinfo :: "sctp_sndinfo option"
  msg_prinfo :: "sctp_prinfo option"

type_synonym 'k sendmsg_fn = "'k \<Rightarrow> int \<Rightarrow> msghdr \<Rightarrow> int \<times> errno \<times> 'k"

section \<open>Polling\<close>

text \<open>The events \<open>nt_update_poll_handle\<close> registers for one flow: readable and writable.\<close>

definition poll_readable :: "neat_pollable_socket \<Rightarrow> neat_flow \<Rightarrow> bool" where
  "poll_readable sock flow \<longleftrightarrow>
     on_readable (operations flow) \<or>
     (nt_base_stack (stack sock) = NEAT_STACK_SCTP \<and>
      (on_close (operations flow) \<or> on_network_status_changed (operations flow) \<or>
       on_send_failure (operations flow))) \<or>
     sctp_notification_wait sock"

definition poll_writable :: "neat_pollable_socket \<Rightarrow> neat_flow \<Rightarrow> bool" where
  "poll_writable sock flow \<longleftrightarrow>
     on_writable (operations flow) \<or>
     (nt_base_stack (stack sock) = NEAT_STACK_SCTP \<and> firstWritePending flow) \<or>
     isDraining flow"

definition update_polling :: "neat_pollable_socket \<Rightarrow> neat_flow \<Rightarrow> neat_flow" where
  "update_polling sock flow = flow\<lparr>isPolling := (poll_readable sock flow \<or> poll_writable sock flow)\<rparr>"

text \<open>
  \<open>nt_update_poll_handle\<close> for the flows it iterates over: the flows of a multistreamed socket in list
  order, or the one flow of another socket. \<open>active\<close> says that the handle has a loop and is not
  closing. The result is the flows and the call of libuv: \<^const>\<open>None\<close> when the function returns
  early, otherwise the events (\<open>uv_poll_stop\<close> when both are false).
\<close>

definition nt_update_poll_handle ::
  "bool \<Rightarrow> neat_pollable_socket \<Rightarrow> neat_flow list \<Rightarrow> neat_flow list \<times> (bool \<times> bool) option" where
  "nt_update_poll_handle active sock flows =
     (if flows = [] \<or> \<not> active then (flows, None)
      else (map (update_polling sock) flows,
            Some (list_ex (poll_readable sock) flows, list_ex (poll_writable sock) flows)))"

lemma nt_base_stack_SCTP [simp]: "nt_base_stack s = NEAT_STACK_SCTP \<longleftrightarrow> s = NEAT_STACK_SCTP"
  by (cases s) auto

lemma nt_base_stack_TCP [simp]: "nt_base_stack s = NEAT_STACK_TCP \<longleftrightarrow> s = NEAT_STACK_TCP"
  by (cases s) auto

lemma optional_integer_present_absent:
  "tag \<notin> tlv_tag ` set as \<Longrightarrow> optional_integer_present tag as r = r"
  by (induction as arbitrary: r) auto

lemma optional_integer_present_default:
  "optional_integer_present tag as r = (v, False) \<Longrightarrow> r = (v, False)"
  by (induction as arbitrary: r) (auto split: if_splits neat_tlv_value.splits)

section \<open>Example values\<close>

text \<open>A connected socket of a stack and a fresh flow, for the concrete instances of the theorems.\<close>

definition example_socket :: "neat_protocol_stack_type \<Rightarrow> neat_pollable_socket" where
  "example_socket st = \<lparr>fd = 5, stack = st, write_limit = 0, write_size = 0, read_size = 0,
     multistream = False, is_closed = False, sctp_explicit_eor = False,
     sctp_partial_reliability = False, sctp_streams_available = 1, sctp_notification_wait = False,
     sctp_notification_recvd = False, sctp_stream_reset = False, sctp_neat_peer = False,
     sctp_streams_used = 0, sctp_multistream_flows = []\<rparr>"

definition example_flow :: "neat_flow" where
  "example_flow = \<lparr>flow_state = NEAT_FLOW_OPEN,
     operations = \<lparr>op_status = NEAT_OK, op_stream_id = 0, transport_protocol = NEAT_STACK_TCP,
       on_connected = False, on_error = False, on_readable = False, on_writable = False,
       on_all_written = False, on_network_status_changed = False, on_aborted = False,
       on_timeout = False, on_close = False, on_send_failure = False, on_slowdown = False,
       on_rate_hint = False\<rparr>,
     bufferedMessages = [], flow_stats = \<lparr>bytes_sent = 0, bytes_received = 0\<rparr>,
     readBuffer = [], readBufferSize = 0, readBufferAllocation = 0, readBufferMsgComplete = False,
     firstWritePending = False, acceptPending = False, isPolling = False, isDraining = False,
     security_needed = False, isClosing = False, notifyDrainPending = False,
     preserveMessageBoundaries = False, eofSeen = False, multistream_id = 0,
     multistream_reset_in = False, multistream_reset_out = False, multistream_read_queue = []\<rparr>"

end
