(* ===== verification/Socket_Table.thy ===== *)
theory Socket_Table
  imports Rbt_Index Identifier_Bitmap Event_Signal Notification_Queue Neat_Flow
begin

text \<open>
  The socket table of the socket API (\<open>neat-socketapi-internals.h\<close>, \<open>neat-socketapi-internals.c\<close>,
  \<open>nsa_close\<close> of \<open>neat-socketapi.c\<close>): the sockets, the red-black tree that finds them by descriptor,
  the bitmap that hands the descriptors out, and the closing of sockets through the transport core,
  which calls back into the table.

  A socket is an address; the tree node, the three event signals and the accept list embedded in
  \<open>struct neat_socket\<close> belong to the address. An access to a freed socket is \<^const>\<open>None\<close>, as a failed
  assertion is. The locks are recursive and held for the whole of a function except around waits, so
  each function is one step here; what other threads do during a wait is a parameter. The operating
  system and the parts of the transport core that the table does not look into are the functions of
  \<open>nsa_env\<close> on an uninterpreted world.
\<close>

section \<open>State\<close>

definition NSAF_READABLE :: u32 where "NSAF_READABLE = 1"
definition NSAF_WRITABLE :: u32 where "NSAF_WRITABLE = 2"
definition NSAF_LISTENING :: u32 where "NSAF_LISTENING = 4"
definition NSAF_CONNECTED :: u32 where "NSAF_CONNECTED = 8"
definition NSAF_BAD :: u32 where "NSAF_BAD = 16"
definition NSAF_TIMEOUT :: u32 where "NSAF_TIMEOUT = 32"
definition NSAF_NONBLOCKING :: u32 where "NSAF_NONBLOCKING = 64"
definition NSAF_CLOSE_ON_REMOVAL :: u32 where "NSAF_CLOSE_ON_REMOVAL = 128"

text \<open>\<open>errno\<close>; the last constructor is a value set by a system call.\<close>

datatype nsa_errno =
    E_NONE | E_NOMEM | E_MFILE | E_BADF | E_NXIO | E_INVAL | E_NOTSUP | E_OPNOTSUPP | E_INPROGRESS
  | E_IO | E_NOENT | E_AGAIN | E_MSGSIZE | E_SYS int

text \<open>
  The callbacks a socket registers with its flow: the user data, the two that are switched on and
  off, and the ten others, which are set together.
\<close>

record nsa_ops =
  ops_userData :: "nat option"
  ops_on_readable :: bool
  ops_on_writable :: bool
  ops_others :: bool

record neat_socket =
  ns_descriptor :: int
  ns_flags :: u32
  ns_flow :: "nat option"
  ns_flow_ops :: nsa_ops
  ns_socket_domain :: int
  ns_socket_type :: int
  ns_socket_protocol :: int
  ns_socket_sd :: int
  ns_port :: u16
  ns_options :: "neat_tlv list option"
  ns_optcount :: int
  ns_listen_backlog :: int
  ns_accept_list :: "nat list"
  ns_acceptor :: "nat option"
  ns_notifications :: notification_queue

text \<open>What the table sees of a flow of the transport core.\<close>

record core_flow =
  cf_operations :: nsa_ops
  cf_closed :: bool

text \<open>
  \<open>struct neat_socketapi_internals\<close> (\<open>nsi_allocated\<close> says that \<open>gSocketAPIInternals\<close> is not null; the
  pipe, the thread and the context of the core are kept as far as \<open>nsa_cleanup\<close> looks at them), the
  memory of sockets and signals, and the world.
\<close>

record 'k nsa =
  nsi_allocated :: bool
  nsi_neat_context :: bool
  nsi_main_loop_thread :: bool
  nsi_main_loop_pipe :: "int \<times> int"
  nsi_socket_identifier_bitmap :: identifier_bitmap
  nsi_socket_set :: redblacktree
  nsa_sockets :: "nat \<rightharpoonup> neat_socket"
  nsa_signals :: es_store
  nsa_queues :: nheap
  nsa_flows :: "nat \<rightharpoonup> core_flow"
  nsa_errno :: nsa_errno
  nsa_wakeups :: nat
  nsa_world :: 'k

text \<open>The callbacks by which the core only reports something about a flow.\<close>

datatype core_notice =
    N_error | N_readable | N_writable | N_all_written | N_network_status_changed | N_aborted | N_timeout
  | N_send_failure | N_slowdown | N_rate_hint

text \<open>Socket addresses, as far as they are looked into; the port is in network byte order.\<close>

datatype sa_family = AF_INET | AF_INET6 | AF_OTHER

record sockaddr =
  sa_family :: sa_family
  sa_port :: u16

text \<open>
  The environment. \<open>calloc\<close> knows the live addresses; \<open>env_close_flow\<close> is the closing of the
  transport socket of a flow in \<open>neat_close\<close>, \<open>env_linger\<close> the socket option set by \<open>neat_abort\<close>. The
  calls into the core return the error code, the callbacks that the core makes before it returns and
  the world. \<open>env_sys\<close> is a system call by name, with the \<open>errno\<close> it sets, and \<open>env_pair\<close> one that
  returns two descriptors; pointers among the arguments are addresses. \<open>env_others\<close> is what all other threads do while a thread waits.
\<close>

record 'k nsa_env =
  env_calloc :: "(nat \<Rightarrow> bool) \<Rightarrow> 'k \<Rightarrow> nat option \<times> 'k"
  env_malloc :: "nat \<Rightarrow> 'k \<Rightarrow> bool \<times> 'k"
  env_socket :: "int \<Rightarrow> int \<Rightarrow> int \<Rightarrow> 'k \<Rightarrow> int \<times> 'k"
  env_close :: "int \<Rightarrow> 'k \<Rightarrow> 'k"
  env_close_flow :: "nat \<Rightarrow> 'k \<Rightarrow> 'k"
  env_linger :: "nat \<Rightarrow> 'k \<Rightarrow> 'k"
  env_new_flow :: "(nat \<Rightarrow> bool) \<Rightarrow> 'k \<Rightarrow> nat option \<times> 'k"
  env_set_property :: "nat \<Rightarrow> string \<Rightarrow> 'k \<Rightarrow> neat_error_code \<times> 'k"
  env_open :: "nat \<Rightarrow> string \<Rightarrow> u16 \<Rightarrow> neat_tlv list option \<Rightarrow> 'k \<Rightarrow> neat_error_code \<times> (nat \<times> core_notice) list \<times> 'k"
  env_accept :: "nat \<Rightarrow> u16 \<Rightarrow> neat_tlv list option \<Rightarrow> 'k \<Rightarrow> neat_error_code \<times> (nat \<times> core_notice) list \<times> 'k"
  env_shutdown :: "nat \<Rightarrow> 'k \<Rightarrow> neat_error_code \<times> (nat \<times> core_notice) list \<times> 'k"
  env_write :: "nat \<Rightarrow> u8 list \<Rightarrow> 'k \<Rightarrow> neat_error_code \<times> (nat \<times> core_notice) list \<times> 'k"
  env_read :: "nat \<Rightarrow> nat \<Rightarrow> 'k \<Rightarrow> (neat_error_code \<times> u8 list) \<times> (nat \<times> core_notice) list \<times> 'k"
  env_getlpaddrs :: "nat \<Rightarrow> bool \<Rightarrow> 'k \<Rightarrow> sockaddr list option \<times> 'k"
  env_getnameinfo :: "sockaddr \<Rightarrow> 'k \<Rightarrow> (string \<times> u16) option \<times> 'k"
  env_sys :: "string \<Rightarrow> int list \<Rightarrow> 'k \<Rightarrow> int \<times> nsa_errno option \<times> 'k"
  env_pair :: "string \<Rightarrow> int list \<Rightarrow> 'k \<Rightarrow> (int \<times> int) option \<times> nsa_errno option \<times> 'k"
  env_now :: "'k \<Rightarrow> int \<times> int"
  env_others :: "nat \<Rightarrow> (int \<times> int) option \<Rightarrow> 'k nsa \<Rightarrow> 'k nsa"

text \<open>The signals of a socket, and the four of the \<open>poll_storage\<close> of a thread in \<open>nsa_poll\<close>; parents are
  always of lower rank, so three nested calls of \<open>es_fire\<close> are enough.\<close>

definition read_signal :: "nat \<Rightarrow> sig_ptr" where "read_signal a = 8 * a"
definition write_signal :: "nat \<Rightarrow> sig_ptr" where "write_signal a = 8 * a + 1"
definition exception_signal :: "nat \<Rightarrow> sig_ptr" where "exception_signal a = 8 * a + 2"

definition ps_global_signal :: "nat \<Rightarrow> sig_ptr" where "ps_global_signal p = 8 * p + 4"
definition ps_read_signal :: "nat \<Rightarrow> sig_ptr" where "ps_read_signal p = 8 * p + 5"
definition ps_write_signal :: "nat \<Rightarrow> sig_ptr" where "ps_write_signal p = 8 * p + 6"
definition ps_exception_signal :: "nat \<Rightarrow> sig_ptr" where "ps_exception_signal p = 8 * p + 7"

definition sig_rank :: "sig_ptr \<Rightarrow> nat" where
  "sig_rank e = (if e mod 8 < 4 then 2 else if e mod 8 = 4 then 0 else 1)"

definition es_depth :: nat where "es_depth = 3"

text \<open>A field update through a pointer to a live socket.\<close>

definition modify_socket :: "nat \<Rightarrow> (neat_socket \<Rightarrow> neat_socket) \<Rightarrow> 'k nsa \<Rightarrow> 'k nsa" where
  "modify_socket a f s = s\<lparr>nsa_sockets := (nsa_sockets s)(a := map_option f (nsa_sockets s a))\<rparr>"

definition descriptor_of :: "'k nsa \<Rightarrow> nat \<Rightarrow> int" where
  "descriptor_of s a = (case nsa_sockets s a of Some k \<Rightarrow> ns_descriptor k | None \<Rightarrow> - 1)"

section \<open>Lookup\<close>

definition nsa_socket_comparison_function :: "(nat \<Rightarrow> int) \<Rightarrow> nat \<Rightarrow> nat \<Rightarrow> int" where
  "nsa_socket_comparison_function d node1 node2 =
     (if d node1 < d node2 then - 1 else if d node1 > d node2 then 1 else 0)"

text \<open>The \<open>cmpSocket\<close> on the stack stands at address 0, which is never the address of a linked node.\<close>

definition nsa_get_socket_for_descriptor :: "int \<Rightarrow> 'k nsa \<Rightarrow> nat option option" where
  "nsa_get_socket_for_descriptor sd s =
     rbt_find (nsa_socket_comparison_function ((descriptor_of s)(0 := sd))) (nsi_socket_set s) 0"

section \<open>Creating sockets\<close>

text \<open>The part of \<open>neat_set_operations\<close> that stores the callbacks.\<close>

definition neat_set_operations :: "nat \<Rightarrow> nsa_ops \<Rightarrow> 'k nsa \<Rightarrow> 'k nsa option" where
  "neat_set_operations f ops s = do {
     cf \<leftarrow> nsa_flows s f;
     Some (s\<lparr>nsa_flows := (nsa_flows s)(f \<mapsto> cf\<lparr>cf_operations := ops\<rparr>)\<rparr>) }"

definition no_ops :: nsa_ops where
  "no_ops = \<lparr>ops_userData = None, ops_on_readable = False, ops_on_writable = False, ops_others = False\<rparr>"

definition socket_ops :: "nat \<Rightarrow> nsa_ops" where
  "socket_ops a = \<lparr>ops_userData = Some a, ops_on_readable = True, ops_on_writable = True, ops_others = True\<rparr>"

definition zero_socket :: neat_socket where
  "zero_socket = \<lparr>ns_descriptor = 0, ns_flags = 0, ns_flow = None, ns_flow_ops = no_ops, ns_socket_domain = 0,
     ns_socket_type = 0, ns_socket_protocol = 0, ns_socket_sd = 0, ns_port = 0, ns_options = None, ns_optcount = 0,
     ns_listen_backlog = 0, ns_accept_list = [], ns_acceptor = None, ns_notifications = nq_new\<rparr>"

text \<open>The memory of a socket, with its signals, is given back.\<close>

definition free_socket :: "nat \<Rightarrow> 'k nsa \<Rightarrow> 'k nsa" where
  "free_socket a s = s\<lparr>nsa_sockets := (nsa_sockets s)(a := None),
     nsa_signals := (nsa_signals s)(read_signal a := None, write_signal a := None, exception_signal a := None)\<rparr>"

text \<open>The three kinds of socket: a flow, a new system socket, an existing descriptor.\<close>

definition socket_kind ::
  "'k nsa_env \<Rightarrow> int \<Rightarrow> int \<Rightarrow> int \<Rightarrow> int \<Rightarrow> nat option \<Rightarrow> nat \<Rightarrow> 'k nsa \<Rightarrow> (neat_socket \<times> 'k nsa) option" where
  "socket_kind env domain type protocol customFD flow a s =
     (case flow of
        Some f \<Rightarrow> do {
          s1 \<leftarrow> neat_set_operations f (socket_ops a) s;
          Some (zero_socket\<lparr>ns_socket_sd := - 1, ns_flow := Some f, ns_flow_ops := socket_ops a\<rparr>, s1) }
      | None \<Rightarrow>
          if customFD < 0
          then (case env_socket env domain type protocol (nsa_world s) of
                  (sd, w) \<Rightarrow> Some (zero_socket\<lparr>ns_socket_sd := sd, ns_flags := NSAF_CLOSE_ON_REMOVAL\<rparr>, s\<lparr>nsa_world := w\<rparr>))
          else Some (zero_socket\<lparr>ns_socket_sd := customFD\<rparr>, s))"

definition nsa_socket_internal ::
  "'k nsa_env \<Rightarrow> int \<Rightarrow> int \<Rightarrow> int \<Rightarrow> int \<Rightarrow> nat option \<Rightarrow> int \<Rightarrow> 'k nsa \<Rightarrow> (int \<times> 'k nsa) option" where
  "nsa_socket_internal env domain type protocol customFD flow requestedSD s =
     (case env_calloc env (\<lambda>a. nsa_sockets s a \<noteq> None) (nsa_world s) of
        (None, w) \<Rightarrow> Some (- 1, s\<lparr>nsa_world := w, nsa_errno := E_NOMEM\<rparr>)
      | (Some a, w) \<Rightarrow> do {
          (k1, s1) \<leftarrow> socket_kind env domain type protocol customFD flow a (s\<lparr>nsa_world := w\<rparr>);
          let t = rbt_node_new a (nsi_socket_set s1);
          g1 \<leftarrow> es_new es_depth True (nsa_signals s1) (read_signal a) None;
          g2 \<leftarrow> es_new es_depth True g1 (write_signal a) None;
          g3 \<leftarrow> es_new es_depth True g2 (exception_signal a) None;
          let k2 = k1\<lparr>ns_notifications := nq_new, ns_descriptor := - 1, ns_socket_domain := domain,
                      ns_socket_type := type, ns_socket_protocol := protocol, ns_accept_list := []\<rparr>;
          (d, b) \<leftarrow> (if requestedSD < 0 then ibm_allocate_id (nsi_socket_identifier_bitmap s1)
                    else ibm_allocate_specific_id (nsi_socket_identifier_bitmap s1) requestedSD);
          let s2 = s1\<lparr>nsi_socket_set := t, nsa_signals := g3, nsi_socket_identifier_bitmap := b,
                      nsa_sockets := (nsa_sockets s1)(a \<mapsto> k2\<lparr>ns_descriptor := d\<rparr>)\<rparr>;
          if d \<ge> 0
          then do {
            (n, t') \<leftarrow> rbt_insert (nsa_socket_comparison_function (descriptor_of s2)) a (nsi_socket_set s2);
            c_assert (n = a);
            Some (d, s2\<lparr>nsi_socket_set := t'\<rparr>) }
          else
            (let w' = (if ns_flags k2 AND NSAF_CLOSE_ON_REMOVAL \<noteq> 0 then env_close env (ns_socket_sd k2) (nsa_world s2)
                       else nsa_world s2)
             in Some (- 1, free_socket a (s2\<lparr>nsa_world := w', nsa_errno := E_MFILE\<rparr>))) })"

section \<open>Closing sockets\<close>

definition nsa_notify_main_loop :: "'k nsa \<Rightarrow> 'k nsa" where
  "nsa_notify_main_loop s = s\<lparr>nsa_wakeups := nsa_wakeups s + 1\<rparr>"

text \<open>The last part of \<open>nsa_close_internal\<close>: the flow or the system socket, the descriptor, the memory.\<close>

definition detach :: "neat_socket \<Rightarrow> neat_socket" where
  "detach k = (if ns_flow k \<noteq> None then k\<lparr>ns_flow := None\<rparr>
     else if ns_socket_sd k \<ge> 0 then k\<lparr>ns_socket_sd := - 1\<rparr> else k)"

definition unlink_node :: "nat \<Rightarrow> redblacktree \<Rightarrow> redblacktree option" where
  "unlink_node a t = (if rbt_node_is_linked t a then do { (_, t') \<leftarrow> rbt_remove a t; Some t' } else Some t)"

definition remove_socket :: "'k nsa_env \<Rightarrow> nat \<Rightarrow> 'k nsa \<Rightarrow> 'k nsa option" where
  "remove_socket env a s = do {
     k \<leftarrow> nsa_sockets s a;
     let w = (if ns_flow k = None \<and> ns_socket_sd k \<ge> 0 \<and> ns_flags k AND NSAF_CLOSE_ON_REMOVAL \<noteq> 0
              then env_close env (ns_socket_sd k) (nsa_world s) else nsa_world s);
     let s1 = modify_socket a detach (s\<lparr>nsa_world := w\<rparr>);
     t \<leftarrow> unlink_node a (nsi_socket_set s1);
     b \<leftarrow> ibm_free_id (nsi_socket_identifier_bitmap s1) (ns_descriptor k);
     let s2 = s1\<lparr>nsi_socket_set := t, nsi_socket_identifier_bitmap := b\<rparr>;
     r \<leftarrow> nsa_get_socket_for_descriptor (ns_descriptor k) s2;
     c_assert (r = None);
     let s3 = modify_socket a (\<lambda>k. if ns_options k = None then k\<lparr>ns_descriptor := - 1\<rparr>
                else k\<lparr>ns_descriptor := - 1, ns_options := None, ns_optcount := 0\<rparr>) s2;
     (nh, q) \<leftarrow> nq_delete (nsa_queues s3) (ns_notifications k);
     g1 \<leftarrow> es_delete (nsa_signals s3) (exception_signal a);
     g2 \<leftarrow> es_delete g1 (write_signal a);
     g3 \<leftarrow> es_delete g2 (read_signal a);
     Some (free_socket a (s3\<lparr>nsa_queues := nh, nsa_signals := g3\<rparr>)) }"

text \<open>\<open>on_close\<close> wakes every waiting thread before it closes the socket.\<close>

definition wake_all :: "nat \<Rightarrow> 'k nsa \<Rightarrow> 'k nsa option" where
  "wake_all a s = do {
     c_assert (nsa_sockets s a \<noteq> None);
     g1 \<leftarrow> es_broadcast es_depth (nsa_signals s) (read_signal a);
     g2 \<leftarrow> es_broadcast es_depth g1 (write_signal a);
     g3 \<leftarrow> es_broadcast es_depth g2 (exception_signal a);
     Some (s\<lparr>nsa_signals := g3\<rparr>) }"

text \<open>The removal of a socket from the accept list of the socket that accepted it. \<open>TAILQ_REMOVE\<close> of a
  socket that was just taken from the head of the list writes what is there already.\<close>

definition leave_acceptor :: "nat \<Rightarrow> 'k nsa \<Rightarrow> 'k nsa option" where
  "leave_acceptor a s = do {
     k \<leftarrow> nsa_sockets s a;
     case ns_acceptor k of
       None \<Rightarrow> Some s
     | Some p \<Rightarrow> do {
         kp \<leftarrow> nsa_sockets s p;
         Some (modify_socket a (\<lambda>k. k\<lparr>ns_acceptor := None\<rparr>)
                (modify_socket p (\<lambda>k. k\<lparr>ns_accept_list := remove1 a (ns_accept_list k)\<rparr>) s)) } }"

text \<open>
  \<open>nsa_close\<close>, \<open>neat_close\<close> of the core with \<open>nt_notify_close\<close> and the callback \<open>on_close\<close>,
  \<open>nsa_close_internal\<close> and its loop over the accepted sockets call each other; the first argument
  bounds the depth of the calls.
\<close>

fun nsa_close_at :: "nat \<Rightarrow> 'k nsa_env \<Rightarrow> int \<Rightarrow> 'k nsa \<Rightarrow> (int \<times> 'k nsa) option"
  and neat_close_at :: "nat \<Rightarrow> 'k nsa_env \<Rightarrow> nat \<Rightarrow> 'k nsa \<Rightarrow> 'k nsa option"
  and nsa_close_internal_at :: "nat \<Rightarrow> 'k nsa_env \<Rightarrow> nat \<Rightarrow> 'k nsa \<Rightarrow> 'k nsa option"
  and close_accepted_at :: "nat \<Rightarrow> 'k nsa_env \<Rightarrow> nat \<Rightarrow> 'k nsa \<Rightarrow> 'k nsa option" where
  "nsa_close_at 0 env sockfd s = None"
| "nsa_close_at (Suc n) env sockfd s = do {
     r \<leftarrow> nsa_get_socket_for_descriptor sockfd s;
     case r of
       None \<Rightarrow> Some (- 1, s\<lparr>nsa_errno := E_BADF\<rparr>)
     | Some a \<Rightarrow> do {
         k \<leftarrow> nsa_sockets s a;
         case ns_flow k of
           Some f \<Rightarrow> do {
             (_, t) \<leftarrow> rbt_remove a (nsi_socket_set s);
             s1 \<leftarrow> neat_close_at n env f (s\<lparr>nsi_socket_set := t\<rparr>);
             Some (0, nsa_notify_main_loop s1) }
         | None \<Rightarrow> do { s1 \<leftarrow> nsa_close_internal_at n env a s; Some (0, s1) } } }"
| "neat_close_at 0 env f s = None"
| "neat_close_at (Suc n) env f s = do {
     cf \<leftarrow> nsa_flows s f;
     let s1 = s\<lparr>nsa_world := env_close_flow env f (nsa_world s)\<rparr>;
     if cf_closed cf then Some s1
     else do {
       let s2 = s1\<lparr>nsa_flows := (nsa_flows s1)(f \<mapsto> cf\<lparr>cf_closed := True\<rparr>)\<rparr>;
       s3 \<leftarrow> (if ops_others (cf_operations cf)
             then do {
               a \<leftarrow> ops_userData (cf_operations cf);
               s' \<leftarrow> wake_all a s2;
               nsa_close_internal_at n env a s' }
             else Some s2);
       Some (s3\<lparr>nsa_flows := (nsa_flows s3)(f := None)\<rparr>) } }"
| "nsa_close_internal_at 0 env a s = None"
| "nsa_close_internal_at (Suc n) env a s = do {
     s1 \<leftarrow> leave_acceptor a s;
     s2 \<leftarrow> close_accepted_at n env a s1;
     remove_socket env a s2 }"
| "close_accepted_at 0 env a s = None"
| "close_accepted_at (Suc n) env a s = do {
     k \<leftarrow> nsa_sockets s a;
     case ns_accept_list k of
       [] \<Rightarrow> Some s
     | x # xs \<Rightarrow> do {
         kx \<leftarrow> nsa_sockets s x;
         (_, s1) \<leftarrow> nsa_close_at n env (ns_descriptor kx)
                     (modify_socket a (\<lambda>k. k\<lparr>ns_accept_list := xs\<rparr>) s);
         close_accepted_at n env a s1 } }"

text \<open>Every level of the recursion takes a socket out of the tree.\<close>

definition close_depth :: "'k nsa \<Rightarrow> nat" where
  "close_depth s = 5 * (rbt_get_elements (nsi_socket_set s) + 1)"

definition nsa_close :: "'k nsa_env \<Rightarrow> int \<Rightarrow> 'k nsa \<Rightarrow> (int \<times> 'k nsa) option" where
  "nsa_close env sockfd s = nsa_close_at (close_depth s) env sockfd s"

definition neat_close :: "'k nsa_env \<Rightarrow> nat \<Rightarrow> 'k nsa \<Rightarrow> 'k nsa option" where
  "neat_close env f s = neat_close_at (close_depth s) env f s"

definition nsa_close_internal :: "'k nsa_env \<Rightarrow> nat \<Rightarrow> 'k nsa \<Rightarrow> 'k nsa option" where
  "nsa_close_internal env a s = nsa_close_internal_at (close_depth s) env a s"

end
