(* ===== verification/Socket_Close.thy ===== *)
theory Socket_Close
  imports Socket_Table
begin

text \<open>
  The invariant of the socket table and its proof for the closing of sockets: the recursion between
  \<open>nsa_close\<close>, \<open>neat_close\<close>, \<open>on_close\<close> and \<open>nsa_close_internal\<close> ends, fails no assertion, touches no
  freed memory and gives back exactly the descriptors of the sockets it removes.
\<close>

section \<open>The invariant\<close>

abbreviation live :: "'k nsa \<Rightarrow> nat set" where
  "live s \<equiv> dom (nsa_sockets s)"

text \<open>\<open>C\<close> is the set of sockets that have left the tree and are being closed.\<close>

definition table_ok :: "nat set \<Rightarrow> 'k nsa \<Rightarrow> bool" where
  "table_ok C s \<longleftrightarrow> rbt_holds (descriptor_of s) (nsi_socket_set s) (live s - C) \<and> C \<subseteq> live s \<and>
     (\<forall>a \<in> C. \<not> rbt_node_is_linked (nsi_socket_set s) a) \<and> 0 \<notin> live s \<and> finite (live s)"

definition ids_ok :: "'k nsa \<Rightarrow> bool" where
  "ids_ok s \<longleftrightarrow> ibm_inv (nsi_socket_identifier_bitmap s) \<and> unat (entries (nsi_socket_identifier_bitmap s)) = 1024 \<and>
     ibm_ids (nsi_socket_identifier_bitmap s) = nat ` descriptor_of s ` live s \<and>
     (\<forall>a \<in> live s. 0 \<le> descriptor_of s a) \<and> inj_on (descriptor_of s) (live s)"

text \<open>The signals are those of the live sockets and of the poll storages; the parents of the latter are their own.\<close>

definition socket_signals :: "nat \<Rightarrow> sig_ptr set" where
  "socket_signals a = {read_signal a, write_signal a, exception_signal a}"

definition signals_tidy :: "nat set \<Rightarrow> es_store \<Rightarrow> bool" where
  "signals_tidy L g \<longleftrightarrow> (\<forall>e ps. es_graph g e = Some ps \<longrightarrow>
     (if e mod 8 < 4 then \<exists>a \<in> L. e \<in> socket_signals a else set ps \<subseteq> {ps_global_signal (e div 8)}))"

definition signals_ok :: "'k nsa \<Rightarrow> bool" where
  "signals_ok s \<longleftrightarrow> es_ranked sig_rank (nsa_signals s) \<and> signals_tidy (live s) (nsa_signals s) \<and>
     (\<forall>a \<in> live s. {read_signal a, write_signal a, exception_signal a} \<subseteq> dom (nsa_signals s))"

text \<open>
  One socket: nothing enqueues notifications; a system socket accepts nothing; the flow of a socket
  knows the socket; the accept list and the back pointers agree, except for the socket \<open>E\<close> that is
  leaving its acceptor.
\<close>

definition flow_ok :: "'k nsa \<Rightarrow> nat \<Rightarrow> neat_socket \<Rightarrow> bool" where
  "flow_ok s a k \<longleftrightarrow> (\<forall>f. ns_flow k = Some f \<longrightarrow> (\<exists>cf. nsa_flows s f = Some cf \<and> \<not> cf_closed cf \<and>
     cf_operations cf = ns_flow_ops k \<and> ops_userData (ns_flow_ops k) = Some a \<and> ops_others (ns_flow_ops k)))"

definition accept_ok :: "nat set \<Rightarrow> nat set \<Rightarrow> 'k nsa \<Rightarrow> nat \<Rightarrow> neat_socket \<Rightarrow> bool" where
  "accept_ok C E s a k \<longleftrightarrow> distinct (ns_accept_list k) \<and>
     (\<forall>x \<in> set (ns_accept_list k). (x \<notin> E \<longrightarrow> x \<notin> C) \<and> (\<exists>kx. nsa_sockets s x = Some kx \<and> ns_acceptor kx = Some a)) \<and>
     (\<forall>p. ns_acceptor k = Some p \<longrightarrow> (\<exists>kp. nsa_sockets s p = Some kp \<and> (a \<notin> E \<longrightarrow> a \<in> set (ns_accept_list kp))))"

definition socket_ok :: "nat set \<Rightarrow> nat set \<Rightarrow> 'k nsa \<Rightarrow> nat \<Rightarrow> neat_socket \<Rightarrow> bool" where
  "socket_ok C E s a k \<longleftrightarrow> ns_notifications k = nq_new \<and>
     (ns_flow k = None \<longrightarrow> ns_accept_list k = [] \<and> ns_acceptor k = None) \<and>
     (a \<notin> C \<longrightarrow> flow_ok s a k) \<and> accept_ok C E s a k"

definition sockets_ok :: "nat set \<Rightarrow> nat set \<Rightarrow> 'k nsa \<Rightarrow> bool" where
  "sockets_ok C E s \<longleftrightarrow> (\<forall>a k. nsa_sockets s a = Some k \<longrightarrow> socket_ok C E s a k)"

definition nsa_inv :: "nat set \<Rightarrow> nat set \<Rightarrow> 'k nsa \<Rightarrow> bool" where
  "nsa_inv C E s \<longleftrightarrow> table_ok C s \<and> ids_ok s \<and> signals_ok s \<and> sockets_ok C E s"

lemma nsa_inv_mono: "nsa_inv C E s \<Longrightarrow> E \<subseteq> E' \<Longrightarrow> nsa_inv C E' s"
  by (auto simp: nsa_inv_def sockets_ok_def socket_ok_def accept_ok_def subset_iff) blast+

lemma sockets_okD: "sockets_ok C E s \<Longrightarrow> nsa_sockets s a = Some k \<Longrightarrow> socket_ok C E s a k"
  by (simp add: sockets_ok_def)

lemma nsa_inv_sockets:
  assumes "nsa_inv C E s" and "live s' = live s" and "descriptor_of s' = descriptor_of s"
    and "nsi_socket_set s' = nsi_socket_set s" and "nsi_socket_identifier_bitmap s' = nsi_socket_identifier_bitmap s"
    and "nsa_signals s' = nsa_signals s" and "sockets_ok C E' s'"
  shows "nsa_inv C E' s'"
  using assms by (simp add: nsa_inv_def table_ok_def ids_ok_def signals_ok_def)

section \<open>Lookup\<close>

lemma cmp_ok_sockets: "cmp_ok d (nsa_socket_comparison_function d)"
  by (auto simp: cmp_ok_def nsa_socket_comparison_function_def)

lemma lookup_some:
  assumes "table_ok C s" and "a \<in> live s - C"
  shows "nsa_get_socket_for_descriptor (descriptor_of s a) s = Some (Some a)"
proof -
  let ?d = "(descriptor_of s)(0 := descriptor_of s a)"
  have h: "rbt_holds (descriptor_of s) (nsi_socket_set s) (live s - C)" and z: "0 \<notin> live s" and "a \<noteq> 0"
    using assms by (auto simp: table_ok_def)
  have "rbt_holds ?d (nsi_socket_set s) (live s - C)"
    by (rule rbt.other_keys [OF h]) (use z in auto)
  from rbt.find_some [OF this cmp_ok_sockets, of a 0] assms(2) \<open>a \<noteq> 0\<close> show ?thesis
    by (simp add: nsa_get_socket_for_descriptor_def)
qed

lemma lookup_none:
  assumes "table_ok C s" and "\<And>a. a \<in> live s - C \<Longrightarrow> descriptor_of s a \<noteq> d"
  shows "nsa_get_socket_for_descriptor d s = Some None"
proof -
  let ?d = "(descriptor_of s)(0 := d)"
  have h: "rbt_holds (descriptor_of s) (nsi_socket_set s) (live s - C)" and z: "0 \<notin> live s"
    using assms by (auto simp: table_ok_def)
  have "rbt_holds ?d (nsi_socket_set s) (live s - C)"
    by (rule rbt.other_keys [OF h]) (use z in auto)
  then show ?thesis unfolding nsa_get_socket_for_descriptor_def
  proof (rule rbt.find_none [OF _ cmp_ok_sockets])
    fix a assume a: "a \<in> live s - C"
    with z have "a \<noteq> 0" by auto
    with assms(2) [OF a] show "?d a \<noteq> ?d 0" by simp
  qed
qed

section \<open>Signals\<close>

lemma es_graph_dom: "es_graph st' = es_graph st \<Longrightarrow> dom st' = dom st"
  by (simp only: dom_es_graph)

lemma socket_signals_rank:
  "sig_rank (read_signal a) = 2" "sig_rank (write_signal a) = 2" "sig_rank (exception_signal a) = 2"
  by (simp_all add: sig_rank_def read_signal_def write_signal_def exception_signal_def, presburger+)

lemma sig_mod: "read_signal a mod 8 < 4" "write_signal a mod 8 < 4" "exception_signal a mod 8 < 4"
  unfolding read_signal_def write_signal_def exception_signal_def by presburger+

text \<open>A signal of a socket is nobody's parent, so it can be deleted.\<close>

lemma es_ranked_delete:
  assumes "es_ranked sig_rank st" and "sig_rank e = 2"
  shows "es_ranked sig_rank (st(e := None))"
  unfolding es_ranked_def
proof (clarify)
  fix x p assume "(x, p) \<in> es_parents (st(e := None))"
  then have "(x, p) \<in> es_parents st" by (auto simp: es_parents_def split: if_splits)
  then have p: "p \<in> dom st" "sig_rank p < sig_rank x" using assms(1) by (auto simp: es_ranked_def)
  have "sig_rank x \<le> 2" by (simp add: sig_rank_def)
  with p(2) have "sig_rank p \<noteq> sig_rank e" unfolding assms(2) by linarith
  then have "p \<noteq> e" by blast
  with p show "p \<in> dom (st(e := None)) \<and> sig_rank p < sig_rank x" by simp
qed

lemma signals_tidy_graph: "es_graph g' = es_graph g \<Longrightarrow> signals_tidy L g' = signals_tidy L g"
  by (simp only: signals_tidy_def)

lemma signals_tidy_remove:
  assumes "signals_tidy L g"
  shows "signals_tidy (L - {a}) (g(exception_signal a := None, write_signal a := None, read_signal a := None))"
  unfolding signals_tidy_def
proof (intro allI impI)
  fix e ps assume "es_graph (g(exception_signal a := None, write_signal a := None, read_signal a := None)) e = Some ps"
  then have e: "e \<notin> socket_signals a" "es_graph g e = Some ps" by (auto simp: es_graph_def socket_signals_def split: if_splits)
  from assms e(2) have t: "if e mod 8 < 4 then \<exists>b \<in> L. e \<in> socket_signals b else set ps \<subseteq> {ps_global_signal (e div 8)}"
    unfolding signals_tidy_def by blast
  show "if e mod 8 < 4 then \<exists>b \<in> L - {a}. e \<in> socket_signals b else set ps \<subseteq> {ps_global_signal (e div 8)}"
    using t e(1) by (auto split: if_splits)
qed

lemma broadcast_ok:
  assumes "es_ranked sig_rank st" and "e \<in> dom st"
  shows "\<exists>st'. es_broadcast es_depth st e = Some st' \<and> es_graph st' = es_graph st \<and> es_ranked sig_rank st' \<and> dom st' = dom st \<and>
     (\<forall>x. fired_at st' x \<longleftrightarrow> fired_at st x \<or> (e, x) \<in> (es_parents st)\<^sup>*)"
proof -
  have "sig_rank e < es_depth" by (simp add: sig_rank_def es_depth_def)
  from es_fire_ancestors(1) [OF assms this] obtain st' where
    st': "es_fire es_depth st e True = Some st'" "es_graph st' = es_graph st"
      "\<forall>x. fired_at st' x \<longleftrightarrow> fired_at st x \<or> (e, x) \<in> (es_parents st)\<^sup>*" by blast
  from es_ranked_graph [OF st'(2), of sig_rank] es_graph_dom [OF st'(2)] st' assms(1) show ?thesis
    by (intro exI [of _ st']) (simp add: es_broadcast_def)
qed

section \<open>Removing one socket\<close>

lemma modify_socket_simps [simp]:
  "nsa_sockets (modify_socket a f s) = (nsa_sockets s)(a := map_option f (nsa_sockets s a))"
  "nsi_socket_identifier_bitmap (modify_socket a f s) = nsi_socket_identifier_bitmap s"
  "nsi_socket_set (modify_socket a f s) = nsi_socket_set s" "nsa_signals (modify_socket a f s) = nsa_signals s"
  "nsa_queues (modify_socket a f s) = nsa_queues s" "nsa_flows (modify_socket a f s) = nsa_flows s"
  "nsa_errno (modify_socket a f s) = nsa_errno s" "nsa_wakeups (modify_socket a f s) = nsa_wakeups s"
  "nsa_world (modify_socket a f s) = nsa_world s"
  by (simp_all add: modify_socket_def)

lemma live_modify [simp]: "dom ((nsa_sockets s)(a := map_option f (nsa_sockets s a))) = live s"
  by (auto split: if_splits)

lemma descriptor_of_cong: "(\<And>a. map_option ns_descriptor (nsa_sockets s' a) = map_option ns_descriptor (nsa_sockets s a)) \<Longrightarrow>
  descriptor_of s' = descriptor_of s"
proof
  fix a assume "\<And>a. map_option ns_descriptor (nsa_sockets s' a) = map_option ns_descriptor (nsa_sockets s a)"
  from this [of a] show "descriptor_of s' a = descriptor_of s a"
    by (auto simp: descriptor_of_def split: option.splits)
qed

lemma descriptor_of_modify [simp]:
  "(\<And>k. ns_descriptor (f k) = ns_descriptor k) \<Longrightarrow> descriptor_of (modify_socket a f s) = descriptor_of s"
  by (rule descriptor_of_cong) (simp add: map_option.compositionality comp_def)

lemma descriptor_of_simps [simp]:
  "descriptor_of (s\<lparr>nsi_socket_identifier_bitmap := b\<rparr>) = descriptor_of s"
  "descriptor_of (s\<lparr>nsi_socket_set := t\<rparr>) = descriptor_of s"
  "descriptor_of (s\<lparr>nsa_signals := g\<rparr>) = descriptor_of s"
  "descriptor_of (s\<lparr>nsa_queues := q\<rparr>) = descriptor_of s"
  "descriptor_of (s\<lparr>nsa_flows := fl\<rparr>) = descriptor_of s"
  "descriptor_of (s\<lparr>nsa_errno := e\<rparr>) = descriptor_of s"
  "descriptor_of (s\<lparr>nsa_wakeups := n\<rparr>) = descriptor_of s"
  "descriptor_of (s\<lparr>nsa_world := w\<rparr>) = descriptor_of s"
  by (simp_all add: descriptor_of_def fun_eq_iff)

text \<open>The node leaves the tree if it is still in it.\<close>

lemma unlink_node_ok:
  assumes tab: "table_ok D s" and a: "a \<in> live s"
  shows "\<exists>t. unlink_node a (nsi_socket_set s) = Some t \<and> rbt_holds (descriptor_of s) t (live s - insert a D) \<and>
     (\<forall>b \<in> insert a D. \<not> rbt_node_is_linked t b)"
proof (cases "a \<in> D")
  case True
  then have "insert a D = D" by auto
  with tab True show ?thesis by (auto simp: table_ok_def unlink_node_def)
next
  case False
  have h: "rbt_holds (descriptor_of s) (nsi_socket_set s) (live s - D)" and al: "a \<in> live s - D" and z: "0 \<notin> D"
    using tab a False by (auto simp: table_ok_def)
  from rbt.rem_node [OF h al] obtain t where
    t: "rbt_remove a (nsi_socket_set s) = Some (a, t)" "rbt_holds (descriptor_of s) t (live s - D - {a})" by blast
  have "live s - D - {a} = live s - insert a D" by auto
  moreover have "\<not> rbt_node_is_linked t b" if "b \<in> insert a D" for b
    using rbtl.rem_linked [OF h al t(1)] that tab z by (auto simp: table_ok_def)
  ultimately show ?thesis using t rbtl.linked_held [OF h al] by (simp add: unlink_node_def)
qed

lemma descriptor_free:
  assumes ids: "ids_ok s" and a: "a \<in> live s"
  shows "\<exists>b. ibm_free_id (nsi_socket_identifier_bitmap s) (descriptor_of s a) = Some b \<and> ibm_inv b \<and>
     unat (entries b) = 1024 \<and> ibm_ids b = nat ` descriptor_of s ` (live s - {a})"
proof -
  let ?b = "nsi_socket_identifier_bitmap s" and ?d = "descriptor_of s"
  have i: "ibm_inv ?b" "unat (entries ?b) = 1024" "ibm_ids ?b = nat ` ?d ` live s" "0 \<le> ?d a" "inj_on ?d (live s)"
      "\<forall>x \<in> live s. 0 \<le> ?d x"
    using ids a by (auto simp: ids_ok_def)
  have "nat (?d a) \<in> ibm_ids ?b" using i(3) a by auto
  from ibm.free_live [OF i(1) this] i(4) obtain b where
    b: "ibm_free_id ?b (?d a) = Some b" "ibm_ids b = ibm_ids ?b - {nat (?d a)}" "unat (entries b) = unat (entries ?b)" "ibm_inv b"
    by auto
  have "inj_on (nat \<circ> ?d) (live s)"
    by (rule comp_inj_on [OF i(5)]) (use i(6) in \<open>auto simp: inj_on_def eq_nat_nat_iff\<close>)
  then have "(nat \<circ> ?d) ` (live s - {a}) = (nat \<circ> ?d) ` live s - {(nat \<circ> ?d) a}"
    using a by (auto simp: inj_on_def)
  with b i show ?thesis by (simp add: image_comp)
qed

lemma nq_delete_new [simp]: "nq_delete h nq_new = Some (h, nq_new)"
  by (simp add: nq_delete_def nq_clear_def nq_new_def nq_free_list.simps)

lemma signal_distinct [simp]:
  "read_signal a \<noteq> write_signal b" "write_signal a \<noteq> read_signal b" "read_signal a \<noteq> exception_signal b"
  "exception_signal a \<noteq> read_signal b" "write_signal a \<noteq> exception_signal b" "exception_signal a \<noteq> write_signal b"
  "read_signal a = read_signal b \<longleftrightarrow> a = b" "write_signal a = write_signal b \<longleftrightarrow> a = b"
  "exception_signal a = exception_signal b \<longleftrightarrow> a = b"
  by (auto simp: read_signal_def write_signal_def exception_signal_def; presburger)+

lemma es_delete_dom: "e \<in> dom st \<Longrightarrow> es_delete st e = Some (st(e := None))"
  by (auto simp: es_delete_def)

lemma detach_descriptor [simp]: "ns_descriptor (detach k) = ns_descriptor k"
  by (simp add: detach_def)

lemma remove_socket_result:
  assumes k: "nsa_sockets s a = Some k" and q: "ns_notifications k = nq_new"
    and t: "unlink_node a (nsi_socket_set s) = Some t"
    and b: "ibm_free_id (nsi_socket_identifier_bitmap s) (descriptor_of s a) = Some b"
    and l: "nsa_get_socket_for_descriptor (descriptor_of s a) (s\<lparr>nsi_socket_set := t, nsi_socket_identifier_bitmap := b\<rparr>) = Some None"
    and g: "{read_signal a, write_signal a, exception_signal a} \<subseteq> dom (nsa_signals s)"
  shows "\<exists>s'. remove_socket env a s = Some s' \<and> nsa_sockets s' = (nsa_sockets s)(a := None) \<and>
     nsi_socket_set s' = t \<and> nsi_socket_identifier_bitmap s' = b \<and> nsa_flows s' = nsa_flows s \<and>
     nsa_signals s' = (nsa_signals s)(exception_signal a := None, write_signal a := None, read_signal a := None)"
proof -
  have d: "ns_descriptor k = descriptor_of s a" using k by (simp add: descriptor_of_def)
  have l': "nsa_get_socket_for_descriptor (descriptor_of s a)
      ((modify_socket a detach (s\<lparr>nsa_world := w\<rparr>))\<lparr>nsi_socket_set := t, nsi_socket_identifier_bitmap := b\<rparr>) = Some None" for w
    using l by (simp add: nsa_get_socket_for_descriptor_def)
  show ?thesis
    using k q t b l' g d
    by (simp add: remove_socket_def es_delete_dom free_socket_def fun_upd_twist)
qed

lemma table_ok_insert_result:
  assumes "rbt_holds (descriptor_of s) t (live s - insert a D)" and "\<forall>b \<in> insert a D. \<not> rbt_node_is_linked t b"
    and "table_ok D s" and "a \<in> live s"
  shows "table_ok (insert a D) (s\<lparr>nsi_socket_set := t\<rparr>)"
  using assms by (auto simp: table_ok_def)

lemma remove_socket_sockets:
  assumes ok: "sockets_ok D {} s" and k: "nsa_sockets s a = Some k" "ns_accept_list k = []" "ns_acceptor k = None"
    and s': "nsa_sockets s' = (nsa_sockets s)(a := None)" "nsa_flows s' = nsa_flows s"
  shows "sockets_ok (D - {a}) {} s'"
  unfolding sockets_ok_def
proof (intro allI impI)
  fix b kb assume "nsa_sockets s' b = Some kb"
  then have b: "b \<noteq> a" "nsa_sockets s b = Some kb" using s'(1) by (auto split: if_splits)
  note o = sockets_okD [OF ok b(2)]
  then have acc: "accept_ok D {} s b kb" by (simp add: socket_ok_def)
  have x: "x \<noteq> a" if "x \<in> set (ns_accept_list kb)" for x using acc that k by (auto simp: accept_ok_def)
  have p: "q \<noteq> a" if "ns_acceptor kb = Some q" for q using acc that k by (auto simp: accept_ok_def)
  have "accept_ok (D - {a}) {} s' b kb" using acc x p s'(1) by (auto simp: accept_ok_def)
  moreover have "b \<notin> D - {a} \<longrightarrow> flow_ok s' b kb" using o b(1) s'(2) by (auto simp: socket_ok_def flow_ok_def)
  ultimately show "socket_ok (D - {a}) {} s' b kb" using o by (simp add: socket_ok_def)
qed

lemma remove_socket_ok:
  assumes inv: "nsa_inv D {} s" and k: "nsa_sockets s a = Some k" "ns_accept_list k = []" "ns_acceptor k = None"
  shows "\<exists>s'. remove_socket env a s = Some s' \<and> nsa_inv (D - {a}) {} s' \<and>
     nsa_sockets s' = (nsa_sockets s)(a := None) \<and> nsa_flows s' = nsa_flows s"
proof -
  have tab: "table_ok D s" and ids: "ids_ok s" and sg: "signals_ok s" and sk: "sockets_ok D {} s"
    using inv by (auto simp: nsa_inv_def)
  have al: "a \<in> live s" using k(1) by blast
  have q: "ns_notifications k = nq_new" using sockets_okD [OF sk k(1)] by (simp add: socket_ok_def)
  from unlink_node_ok [OF tab al] obtain t where
    t: "unlink_node a (nsi_socket_set s) = Some t" "rbt_holds (descriptor_of s) t (live s - insert a D)"
      "\<forall>b \<in> insert a D. \<not> rbt_node_is_linked t b" by blast
  from descriptor_free [OF ids al] obtain b where
    b: "ibm_free_id (nsi_socket_identifier_bitmap s) (descriptor_of s a) = Some b" "ibm_inv b"
      "unat (entries b) = 1024" "ibm_ids b = nat ` descriptor_of s ` (live s - {a})" by blast
  have inj: "inj_on (descriptor_of s) (live s)" using ids by (simp add: ids_ok_def)
  have "nsa_get_socket_for_descriptor (descriptor_of s a) (s\<lparr>nsi_socket_set := t, nsi_socket_identifier_bitmap := b\<rparr>) = Some None"
  proof (rule lookup_none)
    show "table_ok (insert a D) (s\<lparr>nsi_socket_set := t, nsi_socket_identifier_bitmap := b\<rparr>)"
      using table_ok_insert_result [OF t(2,3) tab al] by (simp add: table_ok_def)
  qed (use inj al in \<open>auto simp: inj_on_def\<close>)
  moreover have "{read_signal a, write_signal a, exception_signal a} \<subseteq> dom (nsa_signals s)"
    using sg al by (auto simp: signals_ok_def)
  ultimately obtain s' where s': "remove_socket env a s = Some s'" "nsa_sockets s' = (nsa_sockets s)(a := None)"
      "nsi_socket_set s' = t" "nsi_socket_identifier_bitmap s' = b" "nsa_flows s' = nsa_flows s"
      "nsa_signals s' = (nsa_signals s)(exception_signal a := None, write_signal a := None, read_signal a := None)"
    using remove_socket_result [OF k(1) q t(1) b(1)] by blast
  have lv: "live s' = live s - {a}" by (simp add: s'(2))
  have ds: "descriptor_of s' x = descriptor_of s x" if "x \<noteq> a" for x using that by (simp add: descriptor_of_def s'(2))
  have "table_ok (D - {a}) s'"
  proof -
    have "live s - insert a D = live s' - (D - {a})" using lv by auto
    then have "rbt_holds (descriptor_of s') t (live s' - (D - {a}))"
      using rbt.other_keys [OF t(2), of "descriptor_of s'"] ds lv by auto
    with tab t(3) lv s'(3) show ?thesis by (auto simp: table_ok_def)
  qed
  moreover have "ids_ok s'"
  proof -
    have "descriptor_of s' ` live s' = descriptor_of s ` (live s - {a})" using ds lv by (auto simp: image_iff)
    moreover have "inj_on (descriptor_of s') (live s')" using inj ds lv by (auto simp: inj_on_def)
    ultimately show ?thesis using b ids ds lv s'(4) by (auto simp: ids_ok_def)
  qed
  moreover have "signals_ok s'"
    using sg lv by (auto simp: signals_ok_def s'(6) socket_signals_rank intro!: es_ranked_delete signals_tidy_remove)
  moreover have "sockets_ok (D - {a}) {} s'" by (rule remove_socket_sockets [OF sk k s'(2,5)])
  ultimately show ?thesis using s' by (auto simp: nsa_inv_def)
qed

section \<open>Leaving the acceptor\<close>

text \<open>Which socket waits in the accept list of which, and the sockets accepted through a socket.\<close>

definition acceptors :: "'k nsa \<Rightarrow> (nat \<times> nat) set" where
  "acceptors s = {(y, p). \<exists>k. nsa_sockets s y = Some k \<and> ns_acceptor k = Some p}"

definition accepted_by :: "'k nsa \<Rightarrow> nat \<Rightarrow> nat set" where
  "accepted_by s x = {y. (y, x) \<in> (acceptors s)\<^sup>*}"

lemma accepted_by_self [simp]: "x \<in> accepted_by s x"
  by (simp add: accepted_by_def)

lemma accepted_by_step: "(x, a) \<in> acceptors s \<Longrightarrow> accepted_by s x \<subseteq> accepted_by s a"
  by (auto simp: accepted_by_def intro: rtrancl_into_rtrancl)

text \<open>What closing leaves of the other sockets: they only lose members of their accept lists.\<close>

definition shrinks :: "nat set \<Rightarrow> 'k nsa \<Rightarrow> 'k nsa \<Rightarrow> bool" where
  "shrinks A s s' \<longleftrightarrow> live s' \<subseteq> live s \<and> nsa_flows s' \<subseteq>\<^sub>m nsa_flows s \<and> acceptors s' \<subseteq> acceptors s \<and>
     (\<forall>y k'. y \<notin> A \<longrightarrow> nsa_sockets s' y = Some k' \<longrightarrow>
        (\<exists>k. nsa_sockets s y = Some k \<and> k' = k\<lparr>ns_accept_list := ns_accept_list k'\<rparr> \<and>
             set (ns_accept_list k') \<subseteq> set (ns_accept_list k))) \<and>
     (\<forall>y k f. y \<notin> A \<longrightarrow> nsa_sockets s y = Some k \<longrightarrow> ns_flow k = Some f \<longrightarrow> y \<notin> live s' \<longrightarrow> nsa_flows s' f = None)"

lemma shrinks_refl: "shrinks A s s"
  by (auto simp: shrinks_def)

lemma shrinks_trans:
  assumes "shrinks A s s1" and "shrinks A s1 s2"
  shows "shrinks A s s2"
  unfolding shrinks_def
proof (intro conjI allI impI)
  show "live s2 \<subseteq> live s" "nsa_flows s2 \<subseteq>\<^sub>m nsa_flows s" "acceptors s2 \<subseteq> acceptors s"
    using assms unfolding shrinks_def by (blast, blast intro: map_le_trans, blast)
  {
    fix y k f assume y: "y \<notin> A" "nsa_sockets s y = Some k" "ns_flow k = Some f" "y \<notin> live s2"
    have sub: "nsa_flows s2 \<subseteq>\<^sub>m nsa_flows s1" using assms(2) unfolding shrinks_def by blast
    show "nsa_flows s2 f = None"
    proof (cases "nsa_sockets s1 y")
      case None
      then have "y \<notin> live s1" by blast
      with assms(1) y have "nsa_flows s1 f = None" unfolding shrinks_def by blast
      with sub show ?thesis by (metis domIff map_le_def)
    next
      case (Some k1)
      with assms(1) y obtain ys where "k1 = k\<lparr>ns_accept_list := ys\<rparr>" unfolding shrinks_def by fastforce
      with y(3) have "ns_flow k1 = Some f" by simp
      with assms(2) y(1,4) Some show ?thesis unfolding shrinks_def by blast
    qed
  }
  fix y k2 assume y: "y \<notin> A" "nsa_sockets s2 y = Some k2"
  with assms(2) obtain k1 where k1: "nsa_sockets s1 y = Some k1" "k2 = k1\<lparr>ns_accept_list := ns_accept_list k2\<rparr>"
      "set (ns_accept_list k2) \<subseteq> set (ns_accept_list k1)" unfolding shrinks_def by blast
  with assms(1) y obtain k where k: "nsa_sockets s y = Some k" "k1 = k\<lparr>ns_accept_list := ns_accept_list k1\<rparr>"
      "set (ns_accept_list k1) \<subseteq> set (ns_accept_list k)" unfolding shrinks_def by blast
  have "k2 = k\<lparr>ns_accept_list := ns_accept_list k2\<rparr>" 
  proof -
    obtain xs ys where "k1 = k\<lparr>ns_accept_list := xs\<rparr>" "k2 = k1\<lparr>ns_accept_list := ys\<rparr>" using k1(2) k(2) by blast
    then show ?thesis by simp
  qed
  with k k1(3) show "\<exists>k. nsa_sockets s y = Some k \<and> k2 = k\<lparr>ns_accept_list := ns_accept_list k2\<rparr> \<and>
      set (ns_accept_list k2) \<subseteq> set (ns_accept_list k)" by blast
qed

lemma shrinks_live: "shrinks A s s' \<Longrightarrow> live s' \<subseteq> live s"
  unfolding shrinks_def by blast

lemma shrinks_socket:
  assumes "shrinks A s s'" and "nsa_sockets s' y = Some k'" and "y \<notin> A"
  shows "\<exists>k ys. nsa_sockets s y = Some k \<and> k' = k\<lparr>ns_accept_list := ys\<rparr> \<and> set ys \<subseteq> set (ns_accept_list k)"
  using assms unfolding shrinks_def by blast

lemma accepted_by_shrinks: "shrinks A s s' \<Longrightarrow> accepted_by s' x \<subseteq> accepted_by s x"
  using rtrancl_mono [of "acceptors s'" "acceptors s"] by (auto simp: shrinks_def accepted_by_def)

lemma leave_acceptor_ok:
  assumes inv: "nsa_inv D E s" and E: "E \<subseteq> {a}" and k: "nsa_sockets s a = Some k"
  shows "\<exists>s1 k1. leave_acceptor a s = Some s1 \<and> nsa_inv D {} s1 \<and> nsa_sockets s1 a = Some k1 \<and> ns_acceptor k1 = None \<and>
     live s1 = live s \<and> nsa_flows s1 = nsa_flows s \<and> shrinks {a} s s1 \<and> ns_flow k1 = ns_flow k \<and>
     descriptor_of s1 = descriptor_of s \<and> nsi_socket_set s1 = nsi_socket_set s"
proof (cases "ns_acceptor k")
  case None
  have "sockets_ok D {} s"
    unfolding sockets_ok_def
  proof (intro allI impI)
    fix b kb assume b: "nsa_sockets s b = Some kb"
    have o: "socket_ok D E s b kb" using inv b by (auto simp: nsa_inv_def sockets_ok_def)
    moreover have "x \<noteq> a" if "x \<in> set (ns_accept_list kb)" for x
      using o that k None by (auto simp: socket_ok_def accept_ok_def)
    moreover have "b \<noteq> a" if "ns_acceptor kb = Some p" for p using that b k None by auto
    ultimately show "socket_ok D {} s b kb" using E unfolding socket_ok_def accept_ok_def by blast
  qed
  then have "nsa_inv D {} s" using inv by (simp add: nsa_inv_def)
  with k None show ?thesis by (auto simp: leave_acceptor_def shrinks_refl)
next
  case (Some p)
  have sk: "sockets_ok D E s" using inv by (simp add: nsa_inv_def)
  from sockets_okD [OF sk k] Some obtain kp where kp: "nsa_sockets s p = Some kp"
    by (auto simp: socket_ok_def accept_ok_def)
  define s1 where "s1 = modify_socket a (\<lambda>k. k\<lparr>ns_acceptor := None\<rparr>)
                (modify_socket p (\<lambda>k. k\<lparr>ns_accept_list := remove1 a (ns_accept_list k)\<rparr>) s)"
  have e: "leave_acceptor a s = Some s1" using k kp Some by (simp add: leave_acceptor_def s1_def)
  have same: "live s1 = live s" "descriptor_of s1 = descriptor_of s" "nsi_socket_set s1 = nsi_socket_set s"
      "nsi_socket_identifier_bitmap s1 = nsi_socket_identifier_bitmap s" "nsa_signals s1 = nsa_signals s"
      "nsa_flows s1 = nsa_flows s"
    by (auto simp: s1_def)
  have at: "nsa_sockets s1 b = map_option (\<lambda>k. k\<lparr>ns_accept_list := (if b = p then remove1 a (ns_accept_list k) else ns_accept_list k),
      ns_acceptor := (if b = a then None else ns_acceptor k)\<rparr>) (nsa_sockets s b)" for b
    using k kp by (auto simp: s1_def option.map_ident)
  have "sockets_ok D {} s1"
    unfolding sockets_ok_def
  proof (intro allI impI)
    fix b kb assume "nsa_sockets s1 b = Some kb"
    then obtain k0 where k0: "nsa_sockets s b = Some k0"
      "kb = k0\<lparr>ns_accept_list := (if b = p then remove1 a (ns_accept_list k0) else ns_accept_list k0),
              ns_acceptor := (if b = a then None else ns_acceptor k0)\<rparr>"
      unfolding at by blast
    note o = sockets_okD [OF sk k0(1)]
    have dist: "distinct (ns_accept_list k0)" using o by (simp add: socket_ok_def accept_ok_def)
    have mem: "x \<in> set (ns_accept_list k0) \<and> x \<noteq> a" if "x \<in> set (ns_accept_list kb)" for x
    proof -
      have "x \<in> set (ns_accept_list k0)" 
        using that k0(2) set_remove1_subset [of a "ns_accept_list k0"] by (auto split: if_splits)
      moreover have "x \<noteq> a"
      proof
        assume "x = a"
        with \<open>x \<in> set (ns_accept_list k0)\<close> o k Some have "b = p" by (auto simp: socket_ok_def accept_ok_def)
        with that k0(2) dist \<open>x = a\<close> show False by simp
      qed
      ultimately show ?thesis by simp
    qed
    have "accept_ok D {} s1 b kb"
      unfolding accept_ok_def
    proof (intro conjI ballI allI impI)
      show "distinct (ns_accept_list kb)" using dist k0(2) by auto
      fix x assume "x \<in> set (ns_accept_list kb)"
      from mem [OF this] have x: "x \<in> set (ns_accept_list k0)" "x \<noteq> a" by auto
      then show "x \<notin> D" using o E by (auto simp: socket_ok_def accept_ok_def)
      from x(1) o obtain kx where "nsa_sockets s x = Some kx" "ns_acceptor kx = Some b"
        by (auto simp: socket_ok_def accept_ok_def)
      with x(2) show "\<exists>kx. nsa_sockets s1 x = Some kx \<and> ns_acceptor kx = Some b" by (simp add: at)
    next
      fix q assume q: "ns_acceptor kb = Some q"
      then have q0: "b \<noteq> a" "ns_acceptor k0 = Some q" using k0(2) by (auto split: if_splits)
      with o E obtain kq where "nsa_sockets s q = Some kq" "b \<in> set (ns_accept_list kq)"
        by (auto simp: socket_ok_def accept_ok_def)
      with q0(1) show "\<exists>kp. nsa_sockets s1 q = Some kp \<and> (b \<notin> {} \<longrightarrow> b \<in> set (ns_accept_list kp))"
        by (auto simp: at)
    qed
    then show "socket_ok D {} s1 b kb" using o k0(2) same(6) by (auto simp: socket_ok_def flow_ok_def)
  qed
  then have "nsa_inv D {} s1" using nsa_inv_sockets [OF inv same(1-5)] by blast
  moreover have "shrinks {a} s s1"
    unfolding shrinks_def
  proof (intro conjI allI impI)
    show "acceptors s1 \<subseteq> acceptors s"
    proof (clarify)
      fix y q assume "(y, q) \<in> acceptors s1"
      then obtain k1 where k1: "nsa_sockets s1 y = Some k1" "ns_acceptor k1 = Some q" unfolding acceptors_def by blast
      then obtain k0 where k0: "nsa_sockets s y = Some k0" "ns_acceptor k1 = (if y = a then None else ns_acceptor k0)"
        by (auto simp: at)
      then have "ns_acceptor k0 = Some q" using k1(2) by (simp split: if_splits)
      with k0(1) show "(y, q) \<in> acceptors s" by (simp add: acceptors_def)
    qed
    show "live s1 \<subseteq> live s" "nsa_flows s1 \<subseteq>\<^sub>m nsa_flows s" by (simp_all add: same)
    fix y k' assume "y \<notin> {a}" and "nsa_sockets s1 y = Some k'"
    then obtain k0 where "nsa_sockets s y = Some k0"
      "k' = k0\<lparr>ns_accept_list := (if y = p then remove1 a (ns_accept_list k0) else ns_accept_list k0)\<rparr>" by (auto simp: at)
    then show "\<exists>k. nsa_sockets s y = Some k \<and> k' = k\<lparr>ns_accept_list := ns_accept_list k'\<rparr> \<and>
        set (ns_accept_list k') \<subseteq> set (ns_accept_list k)" by (simp add: set_remove1_subset)
  next
    fix y ky f assume "nsa_sockets s y = Some ky" and "y \<notin> live s1"
    with same(1) show "nsa_flows s1 f = None" by blast
  qed
  ultimately show ?thesis using e same k by (auto simp: at)
qed

section \<open>Waking the waiting threads\<close>

lemma wake_all_ok:
  assumes inv: "nsa_inv D E s" and a: "a \<in> live s"
  shows "\<exists>g. wake_all a s = Some (s\<lparr>nsa_signals := g\<rparr>) \<and> nsa_inv D E (s\<lparr>nsa_signals := g\<rparr>)"
proof -
  have r: "es_ranked sig_rank (nsa_signals s)" and
    d: "read_signal a \<in> dom (nsa_signals s)" "write_signal a \<in> dom (nsa_signals s)" "exception_signal a \<in> dom (nsa_signals s)"
    using inv a by (auto simp: nsa_inv_def signals_ok_def)
  from broadcast_ok [OF r d(1)] obtain g1 where
    g1: "es_broadcast es_depth (nsa_signals s) (read_signal a) = Some g1" "es_ranked sig_rank g1" "dom g1 = dom (nsa_signals s)"
      "es_graph g1 = es_graph (nsa_signals s)" by blast
  have d2: "write_signal a \<in> dom g1" using d(2) g1(3) by simp
  from broadcast_ok [OF g1(2) d2] obtain g2 where
    g2: "es_broadcast es_depth g1 (write_signal a) = Some g2" "es_ranked sig_rank g2" "dom g2 = dom g1" "es_graph g2 = es_graph g1" by blast
  have d3: "exception_signal a \<in> dom g2" using d(3) g1(3) g2(3) by simp
  from broadcast_ok [OF g2(2) d3] obtain g3 where
    g3: "es_broadcast es_depth g2 (exception_signal a) = Some g3" "es_ranked sig_rank g3" "dom g3 = dom g2" "es_graph g3 = es_graph g2" by blast
  have "wake_all a s = Some (s\<lparr>nsa_signals := g3\<rparr>)" using g1(1) g2(1) g3(1) a by (auto simp: wake_all_def)
  moreover have "signals_tidy (live s) g3"
    using inv signals_tidy_graph [of g3 "nsa_signals s"] g1(4) g2(4) g3(4) by (simp add: nsa_inv_def signals_ok_def)
  then have "nsa_inv D E (s\<lparr>nsa_signals := g3\<rparr>)"
    using inv g3(2,3) g2(3) g1(3) by (simp add: nsa_inv_def table_ok_def ids_ok_def signals_ok_def sockets_ok_def socket_ok_def flow_ok_def accept_ok_def)
  ultimately show ?thesis by blast
qed

section \<open>The recursion\<close>

text \<open>Putting a socket into the closing set, and forgetting a flow that is closed.\<close>

lemma nsa_inv_start:
  assumes inv: "nsa_inv C {a} s" and k: "nsa_sockets s a = Some k" and a: "a \<notin> C"
    and t: "rbt_remove a (nsi_socket_set s) = Some (m, t)"
  shows "nsa_inv (insert a C) {a} (s\<lparr>nsi_socket_set := t\<rparr>)"
proof -
  have tab: "table_ok C s" and al: "a \<in> live s - C" using inv k a by (auto simp: nsa_inv_def)
  then have "rbt_node_is_linked (nsi_socket_set s) a"
    by (intro rbtl.linked_held [of "descriptor_of s" _ "live s - C"]) (simp_all add: table_ok_def)
  with unlink_node_ok [OF tab, of a] t al have
    "rbt_holds (descriptor_of s) t (live s - insert a C)" "\<forall>b \<in> insert a C. \<not> rbt_node_is_linked t b"
    by (auto simp: unlink_node_def)
  with table_ok_insert_result [OF _ _ tab] al have "table_ok (insert a C) (s\<lparr>nsi_socket_set := t\<rparr>)" by simp
  with inv show ?thesis
    by (auto simp: nsa_inv_def ids_ok_def signals_ok_def sockets_ok_def socket_ok_def flow_ok_def accept_ok_def)
qed

lemma nsa_inv_flow:
  assumes inv: "nsa_inv C E s" and other: "\<And>a k. nsa_sockets s a = Some k \<Longrightarrow> ns_flow k = Some f \<Longrightarrow> a \<in> C"
  shows "nsa_inv C E (s\<lparr>nsa_flows := (nsa_flows s)(f := x)\<rparr>)"
proof -
  have "flow_ok (s\<lparr>nsa_flows := (nsa_flows s)(f := x)\<rparr>) a k" if "nsa_sockets s a = Some k" "a \<notin> C" for a k
  proof -
    have "flow_ok s a k" using inv that by (auto simp: nsa_inv_def sockets_ok_def socket_ok_def)
    moreover have "ns_flow k \<noteq> Some f" using other that by blast
    ultimately show ?thesis by (auto simp: flow_ok_def)
  qed
  with inv show ?thesis
    by (simp add: nsa_inv_def table_ok_def ids_ok_def signals_ok_def sockets_ok_def socket_ok_def accept_ok_def)
qed

lemma nsa_inv_cong:
  assumes "nsa_inv C E s" and "nsa_sockets s' = nsa_sockets s" and "nsi_socket_set s' = nsi_socket_set s"
    and "nsi_socket_identifier_bitmap s' = nsi_socket_identifier_bitmap s" and "nsa_signals s' = nsa_signals s"
    and "nsa_flows s' = nsa_flows s"
  shows "nsa_inv C E s'"
proof -
  have "descriptor_of s' = descriptor_of s" by (rule descriptor_of_cong) (simp add: assms(2))
  with assms show ?thesis
    by (simp add: nsa_inv_def table_ok_def ids_ok_def signals_ok_def sockets_ok_def socket_ok_def flow_ok_def accept_ok_def)
qed

text \<open>The claims of the induction: on \<open>nsa_close\<close>, on the loop and on \<open>nsa_close_internal\<close>.\<close>

definition close_claim :: "'k nsa_env \<Rightarrow> nat \<Rightarrow> bool" where
  "close_claim env m \<longleftrightarrow> (\<forall>C E s x n. nsa_inv C E s \<longrightarrow> E \<subseteq> {x} \<longrightarrow> x \<in> live s - C \<longrightarrow> card (live s - C) = m \<longrightarrow> 4 * m \<le> n \<longrightarrow>
     (\<exists>s'. nsa_close_at n env (descriptor_of s x) s = Some (0, s') \<and> nsa_inv C {} s' \<and> x \<notin> live s' \<and> shrinks {} s s' \<and>
        live s - live s' \<subseteq> accepted_by s x))"

definition loop_claim :: "'k nsa_env \<Rightarrow> nat \<Rightarrow> bool" where
  "loop_claim env m \<longleftrightarrow> (\<forall>C s a n. nsa_inv C {} s \<longrightarrow> a \<in> C \<longrightarrow> card (live s - C) = m \<longrightarrow> 4 * m + 1 \<le> n \<longrightarrow>
     (\<exists>s' k. close_accepted_at n env a s = Some s' \<and> nsa_inv C {} s' \<and> nsa_sockets s' a = Some k \<and>
        ns_accept_list k = [] \<and> shrinks {} s s' \<and> live s - live s' \<subseteq> accepted_by s a))"

lemma close_claimD:
  assumes "close_claim env m" and "nsa_inv C E s" and "E \<subseteq> {x}" and "x \<in> live s - C" and "card (live s - C) = m"
    and "4 * m \<le> n"
  shows "\<exists>s'. nsa_close_at n env (descriptor_of s x) s = Some (0, s') \<and> nsa_inv C {} s' \<and> x \<notin> live s' \<and> shrinks {} s s' \<and>
     live s - live s' \<subseteq> accepted_by s x"
  using assms unfolding close_claim_def by blast

text \<open>Taking the first socket from an accept list.\<close>

lemma take_accepted:
  assumes inv: "nsa_inv C {} s" and k: "nsa_sockets s a = Some k" "ns_accept_list k = x # xs"
  shows "nsa_inv C {x} (modify_socket a (\<lambda>k. k\<lparr>ns_accept_list := xs\<rparr>) s)"
    and "shrinks {} s (modify_socket a (\<lambda>k. k\<lparr>ns_accept_list := xs\<rparr>) s)"
proof -
  let ?s = "modify_socket a (\<lambda>k. k\<lparr>ns_accept_list := xs\<rparr>) s"
  have sk: "sockets_ok C {} s" using inv by (simp add: nsa_inv_def)
  have at: "nsa_sockets ?s = (nsa_sockets s)(a \<mapsto> k\<lparr>ns_accept_list := xs\<rparr>)" using k(1) by simp
  have "sockets_ok C {x} ?s"
    unfolding sockets_ok_def
  proof (intro allI impI)
    fix b kb assume b: "nsa_sockets ?s b = Some kb"
    then obtain k0 where k0: "nsa_sockets s b = Some k0" "kb = (if b = a then k0\<lparr>ns_accept_list := xs\<rparr> else k0)"
      using k(1) by (auto split: if_splits)
    note o = sockets_okD [OF sk k0(1)]
    have sub: "set (ns_accept_list kb) \<subseteq> set (ns_accept_list k0)" "distinct (ns_accept_list kb)"
      using o k0 k by (auto simp: socket_ok_def accept_ok_def split: if_splits)
    have "\<exists>ky. nsa_sockets ?s y = Some ky \<and> ns_acceptor ky = Some b" if "y \<in> set (ns_accept_list kb)" for y
    proof -
      from that sub(1) o obtain ky where "nsa_sockets s y = Some ky" "ns_acceptor ky = Some b"
        unfolding socket_ok_def accept_ok_def by blast
      then show ?thesis by (cases "y = a") auto
    qed
    moreover have "y \<notin> C" if "y \<in> set (ns_accept_list kb)" for y
      using that sub(1) o by (auto simp: socket_ok_def accept_ok_def)
    moreover have "\<exists>kq. nsa_sockets ?s q = Some kq \<and> (b \<notin> {x} \<longrightarrow> b \<in> set (ns_accept_list kq))"
      if "ns_acceptor kb = Some q" for q
    proof -
      from that k0(2) have "ns_acceptor k0 = Some q" by (auto split: if_splits)
      with o obtain kq where "nsa_sockets s q = Some kq" "b \<in> set (ns_accept_list kq)"
        by (auto simp: socket_ok_def accept_ok_def)
      with k show ?thesis by auto
    qed
    ultimately have "accept_ok C {x} ?s b kb" using sub(2) by (simp only: accept_ok_def) blast
    with o k0 k show "socket_ok C {x} ?s b kb" by (auto simp: socket_ok_def flow_ok_def split: if_splits)
  qed
  then show "nsa_inv C {x} ?s" by (rule nsa_inv_sockets [OF inv, rotated -1]) (auto simp: k)
  show "shrinks {} s ?s" using k by (auto simp: shrinks_def acceptors_def split: if_splits)
qed

lemma loop_claim_step:
  fixes env :: "'k nsa_env"
  assumes close: "close_claim env m" and loop: "\<And>m'. m' < m \<Longrightarrow> loop_claim env m'"
  shows "loop_claim env m"
  unfolding loop_claim_def
proof (intro allI impI)
  fix C and s :: "'k nsa" and a n
  assume inv: "nsa_inv C {} s" and a: "a \<in> C" and m: "card (live s - C) = m" and n: "4 * m + 1 \<le> n"
  have sk: "sockets_ok C {} s" and "C \<subseteq> live s" and fin: "finite (live s)"
    using inv by (auto simp: nsa_inv_def table_ok_def)
  then obtain k where k: "nsa_sockets s a = Some k" using a by blast
  obtain n' where n': "n = Suc n'" using n by (cases n) auto
  show "\<exists>s' k. close_accepted_at n env a s = Some s' \<and> nsa_inv C {} s' \<and> nsa_sockets s' a = Some k \<and>
      ns_accept_list k = [] \<and> shrinks {} s s' \<and> live s - live s' \<subseteq> accepted_by s a"
  proof (cases "ns_accept_list k")
    case Nil
    with inv k n' show ?thesis by (auto simp: shrinks_refl)
  next
    case (Cons x xs)
    note o = sockets_okD [OF sk k]
    from o Cons obtain kx where kx: "nsa_sockets s x = Some kx" "ns_acceptor kx = Some a" "x \<notin> C"
      by (auto simp: socket_ok_def accept_ok_def)
    define s1 where "s1 = modify_socket a (\<lambda>k. k\<lparr>ns_accept_list := xs\<rparr>) s"
    have same: "live s1 = live s" "descriptor_of s1 = descriptor_of s" by (auto simp: s1_def)
    have inv1: "nsa_inv C {x} s1" and sh1: "shrinks {} s s1"
      unfolding s1_def by (rule take_accepted [OF inv k Cons])+
    have "x \<in> live s1 - C" using kx same by auto
    from close_claimD [OF close inv1 subset_refl this, of n'] same m n n' obtain s2 where s2: "nsa_close_at n' env (descriptor_of s1 x) s1 = Some (0, s2)" "nsa_inv C {} s2"
      "x \<notin> live s2" "shrinks {} s1 s2" "live s1 - live s2 \<subseteq> accepted_by s1 x" by auto
    have "live s2 - C \<subset> live s - C" using s2(3,4) kx same by (auto simp: shrinks_def)
    then have lt: "card (live s2 - C) < m" using fin m by (metis finite_Diff psubset_card_mono)
    then have "4 * card (live s2 - C) + 1 \<le> n'" using n n' by simp
    with loop [OF lt] s2(2) a obtain s3 k3 where
      s3: "close_accepted_at n' env a s2 = Some s3" "nsa_inv C {} s3" "nsa_sockets s3 a = Some k3"
        "ns_accept_list k3 = []" "shrinks {} s2 s3" "live s2 - live s3 \<subseteq> accepted_by s2 a"
      unfolding loop_claim_def by blast
    have "(x, a) \<in> acceptors s" using kx by (simp add: acceptors_def)
    then have "live s1 - live s2 \<subseteq> accepted_by s a"
      using s2(5) accepted_by_step accepted_by_shrinks [OF sh1] by blast
    moreover have "live s2 - live s3 \<subseteq> accepted_by s a"
      using s3(6) accepted_by_shrinks [OF shrinks_trans [OF sh1 s2(4)]] by blast
    ultimately have "live s - live s3 \<subseteq> accepted_by s a" using same(1) by blast
    moreover
    have "ns_descriptor kx = descriptor_of s1 x" using kx same by (simp add: descriptor_of_def)
    then have "close_accepted_at n env a s = Some s3" using k kx(1) Cons n' s2(1) s3(1) by (simp add: s1_def)
    ultimately show ?thesis using s3 shrinks_trans [OF sh1 shrinks_trans [OF s2(4) s3(5)]] by blast
  qed
qed

lemma close_internal_ok:
  assumes loop: "loop_claim env m" and inv: "nsa_inv C E s" and E: "E \<subseteq> {x}" and x: "x \<in> C"
    and m: "card (live s - C) = m" and n: "4 * m + 2 \<le> n"
  shows "\<exists>s'. nsa_close_internal_at n env x s = Some s' \<and> nsa_inv (C - {x}) {} s' \<and> x \<notin> live s' \<and>
     shrinks {x} s s' \<and> live s - live s' \<subseteq> accepted_by s x"
proof -
  obtain n' where n': "n = Suc n'" "4 * m + 1 \<le> n'" using n by (cases n) auto
  from inv x obtain k where k: "nsa_sockets s x = Some k" by (auto simp: nsa_inv_def table_ok_def)
  from leave_acceptor_ok [OF inv E k] obtain s1 k1 where s1: "leave_acceptor x s = Some s1" "nsa_inv C {} s1"
    "nsa_sockets s1 x = Some k1" "ns_acceptor k1 = None" "live s1 = live s" "shrinks {x} s s1" by blast
  with loop x m n'(2) obtain s2 k2 where s2: "close_accepted_at n' env x s1 = Some s2" "nsa_inv C {} s2"
    "nsa_sockets s2 x = Some k2" "ns_accept_list k2 = []" "shrinks {} s1 s2" "live s1 - live s2 \<subseteq> accepted_by s1 x"
    unfolding loop_claim_def by metis
  from shrinks_socket [OF s2(5,3)] s1(3) obtain ys where "k2 = k1\<lparr>ns_accept_list := ys\<rparr>" by auto
  with s1(4) have "ns_acceptor k2 = None" by simp
  from remove_socket_ok [OF s2(2,3,4) this] obtain s3 where s3: "remove_socket env x s2 = Some s3"
    "nsa_inv (C - {x}) {} s3" "nsa_sockets s3 = (nsa_sockets s2)(x := None)" "nsa_flows s3 = nsa_flows s2" by blast
  have "shrinks {x} s1 s2" using s2(5) by (auto simp: shrinks_def)
  moreover have "shrinks {x} s2 s3" using s3(3,4) by (auto simp: shrinks_def acceptors_def split: if_splits)
  ultimately have "shrinks {x} s s3" using s1(6) shrinks_trans by blast
  moreover have "live s - live s3 \<subseteq> accepted_by s x"
    using s2(6) s1(5) accepted_by_shrinks [OF s1(6), of x] s3(3) by auto
  moreover have "x \<notin> live s3" by (simp add: s3(3))
  ultimately show ?thesis using n'(1) s1(1) s2(1) s3(1,2) by auto
qed

lemma shrinks_closed:
  assumes "shrinks {x} s s'" and "x \<notin> live s'" and "nsa_sockets s x = Some k" and "\<And>f. ns_flow k = Some f \<Longrightarrow> nsa_flows s' f = None"
  shows "shrinks {} s s'"
  unfolding shrinks_def
proof (intro conjI allI impI)
  show "live s' \<subseteq> live s" "nsa_flows s' \<subseteq>\<^sub>m nsa_flows s" "acceptors s' \<subseteq> acceptors s"
    using assms(1) unfolding shrinks_def by blast+
  fix y k' assume "nsa_sockets s' y = Some k'"
  moreover from this have "y \<notin> {x}" using assms(2) by blast
  ultimately show "\<exists>k. nsa_sockets s y = Some k \<and> k' = k\<lparr>ns_accept_list := ns_accept_list k'\<rparr> \<and>
      set (ns_accept_list k') \<subseteq> set (ns_accept_list k)" using assms(1) unfolding shrinks_def by blast
next
  fix y ky f assume y: "nsa_sockets s y = Some ky" "ns_flow ky = Some f" "y \<notin> live s'"
  show "nsa_flows s' f = None"
  proof (cases "y = x")
    case True
    with y assms(3,4) show ?thesis by simp
  next
    case False
    with y assms(1) show ?thesis unfolding shrinks_def by blast
  qed
qed

lemma neat_close_ok:
  assumes loop: "loop_claim env m" and inv: "nsa_inv C E s" and E: "E \<subseteq> {x}" and x: "x \<in> C"
    and k: "nsa_sockets s x = Some k" "ns_flow k = Some f" and fl: "flow_ok s x k"
    and m: "card (live s - C) = m" and n: "4 * m + 3 \<le> n"
  shows "\<exists>s'. neat_close_at n env f s = Some s' \<and> nsa_inv (C - {x}) {} s' \<and> x \<notin> live s' \<and>
     shrinks {} s s' \<and> live s - live s' \<subseteq> accepted_by s x"
proof -
  obtain n' where n': "n = Suc n'" "4 * m + 2 \<le> n'" using n by (cases n) auto
  from fl k(2) obtain cf where cf: "nsa_flows s f = Some cf" "\<not> cf_closed cf"
    "ops_userData (cf_operations cf) = Some x" "ops_others (cf_operations cf)" by (auto simp: flow_ok_def)
  have only: "a \<in> C" if "nsa_sockets t a = Some ka" "ns_flow ka = Some f" "nsa_inv C E' t" "nsa_flows t = nsa_flows s" for a ka t E'
  proof (rule ccontr)
    assume a: "a \<notin> C"
    with that have "flow_ok t a ka" by (auto simp: nsa_inv_def sockets_ok_def socket_ok_def)
    with that cf have "a = x" by (auto simp: flow_ok_def)
    with a x show False by simp
  qed
  define s1 where "s1 = s\<lparr>nsa_world := env_close_flow env f (nsa_world s)\<rparr>"
  have inv1: "nsa_inv C E s1" by (rule nsa_inv_cong [OF inv]) (simp_all add: s1_def)
  define s2 where "s2 = s1\<lparr>nsa_flows := (nsa_flows s1)(f \<mapsto> cf\<lparr>cf_closed := True\<rparr>)\<rparr>"
  have inv2: "nsa_inv C E s2"
    unfolding s2_def by (rule nsa_inv_flow [OF inv1]) (rule only [OF _ _ inv1], simp_all add: s1_def)
  have "x \<in> live s2" using k(1) by (auto simp: s2_def s1_def)
  from wake_all_ok [OF inv2 this] obtain g where g: "wake_all x s2 = Some (s2\<lparr>nsa_signals := g\<rparr>)"
    "nsa_inv C E (s2\<lparr>nsa_signals := g\<rparr>)" by blast
  have "card (live (s2\<lparr>nsa_signals := g\<rparr>) - C) = m" using m by (simp add: s2_def s1_def)
  from close_internal_ok [OF loop g(2) E x this n'(2)] obtain s3 where
    s3: "nsa_close_internal_at n' env x (s2\<lparr>nsa_signals := g\<rparr>) = Some s3" "nsa_inv (C - {x}) {} s3" "x \<notin> live s3"
      "shrinks {x} (s2\<lparr>nsa_signals := g\<rparr>) s3" "live (s2\<lparr>nsa_signals := g\<rparr>) - live s3 \<subseteq> accepted_by (s2\<lparr>nsa_signals := g\<rparr>) x" by blast
  have other: "a \<in> C - {x}" if a: "nsa_sockets s3 a = Some ka" "ns_flow ka = Some f" for a ka
  proof -
    have "a \<noteq> x" using a s3(3) by blast
    with s3(4) a(1) obtain k0 ys where "nsa_sockets s a = Some k0" "ka = k0\<lparr>ns_accept_list := ys\<rparr>"
      using shrinks_socket [OF s3(4), of a ka] by (auto simp: s2_def s1_def)
    with only [OF _ _ inv, of a k0] a(2) \<open>a \<noteq> x\<close> show ?thesis by simp
  qed
  have inv4: "nsa_inv (C - {x}) {} (s3\<lparr>nsa_flows := (nsa_flows s3)(f := None)\<rparr>)"
    by (rule nsa_inv_flow [OF s3(2) other])
  have "nsa_flows s3 \<subseteq>\<^sub>m (nsa_flows s)(f \<mapsto> cf\<lparr>cf_closed := True\<rparr>)"
    using s3(4) by (simp add: shrinks_def s2_def s1_def)
  then have "(nsa_flows s3)(f := None) \<subseteq>\<^sub>m nsa_flows s" by (auto simp: map_le_def split: if_splits)
  with s3(3,4) have "shrinks {x} s (s3\<lparr>nsa_flows := (nsa_flows s3)(f := None)\<rparr>)"
    by (simp add: shrinks_def s2_def s1_def acceptors_def)
  then have "shrinks {} s (s3\<lparr>nsa_flows := (nsa_flows s3)(f := None)\<rparr>)" by (rule shrinks_closed [OF _ _ k(1)]) (use k(2) s3(3) in simp_all)
  moreover have "neat_close_at n env f s = Some (s3\<lparr>nsa_flows := (nsa_flows s3)(f := None)\<rparr>)"
    using n'(1) cf g(1) s3(1) by (simp add: s2_def s1_def)
  moreover have "live s - live s3 \<subseteq> accepted_by s x" using s3(5) by (simp add: s2_def s1_def accepted_by_def acceptors_def)
  ultimately show ?thesis using inv4 s3(3) by auto
qed

lemma close_claim_step:
  fixes env :: "'k nsa_env"
  assumes loop: "\<And>m'. m' < m \<Longrightarrow> loop_claim env m'"
  shows "close_claim env m"
  unfolding close_claim_def
proof (intro allI impI)
  fix C E and s :: "'k nsa" and x n
  assume inv: "nsa_inv C E s" and E: "E \<subseteq> {x}" and x: "x \<in> live s - C" and m: "card (live s - C) = m" and n: "4 * m \<le> n"
  from x obtain k where k: "nsa_sockets s x = Some k" by blast
  have tab: "table_ok C s" and fin: "finite (live s)" and ok: "socket_ok C E s x k"
    using inv k by (auto simp: nsa_inv_def table_ok_def sockets_ok_def)
  have m0: "0 < m" using m x fin card_gt_0_iff [of "live s - C"] by blast
  obtain n' where n': "n = Suc n'" using n m0 by (cases n) auto
  note lk = lookup_some [OF tab x]
  show "\<exists>s'. nsa_close_at n env (descriptor_of s x) s = Some (0, s') \<and> nsa_inv C {} s' \<and> x \<notin> live s' \<and> shrinks {} s s' \<and>
      live s - live s' \<subseteq> accepted_by s x"
  proof (cases "ns_flow k")
    case None
    from leave_acceptor_ok [OF inv E k] None ok k have inv': "nsa_inv C {} s" by (auto simp: leave_acceptor_def socket_ok_def)
    have acc: "ns_accept_list k = []" "ns_acceptor k = None" using ok None by (auto simp: socket_ok_def)
    from remove_socket_ok [OF inv' k acc] x obtain s1 where s1: "remove_socket env x s = Some s1" "nsa_inv C {} s1"
      "nsa_sockets s1 = (nsa_sockets s)(x := None)" "nsa_flows s1 = nsa_flows s" by auto
    obtain n2 where "n' = Suc (Suc n2)" using n n' m0 by (cases n'; cases "n' - 1") auto
    with k acc s1(1) have "nsa_close_internal_at n' env x s = Some s1" by (simp add: leave_acceptor_def)
    moreover have "shrinks {} s s1" using s1(3,4) k None by (auto simp: shrinks_def acceptors_def split: if_splits)
    moreover have "live s - live s1 \<subseteq> accepted_by s x" by (auto simp: s1(3))
    ultimately show ?thesis using n' lk k None s1 by auto
  next
    case (Some f)
    have h: "rbt_holds (descriptor_of s) (nsi_socket_set s) (live s - C)" using tab by (simp add: table_ok_def)
    from rbt.rem_node [OF h x] obtain t where t: "rbt_remove x (nsi_socket_set s) = Some (x, t)" by blast
    define s1 where "s1 = s\<lparr>nsi_socket_set := t\<rparr>"
    have inv1: "nsa_inv (insert x C) {x} s1"
      unfolding s1_def using nsa_inv_start [OF nsa_inv_mono [OF inv E] k _ t] x by simp
    have "live s1 - insert x C = live s - C - {x}" by (auto simp: s1_def)
    then have card: "card (live s1 - insert x C) = m - 1" using x m fin by simp
    have fl: "flow_ok s1 x k" using ok x by (auto simp: socket_ok_def flow_ok_def s1_def)
    have "loop_claim env (m - 1)" using loop m0 by simp
    moreover have "4 * (m - 1) + 3 \<le> n'" using n n' m0 by linarith
    moreover have "nsa_sockets s1 x = Some k" using k by (simp add: s1_def)
    ultimately obtain s2 where
      s2: "neat_close_at n' env f s1 = Some s2" "nsa_inv (insert x C - {x}) {} s2" "x \<notin> live s2" "shrinks {} s1 s2"
      "live s1 - live s2 \<subseteq> accepted_by s1 x"
      using neat_close_ok [OF _ inv1 subset_refl insertI1 _ Some fl card] by blast
    have "nsa_inv C {} (nsa_notify_main_loop s2)"
      by (rule nsa_inv_cong [of _ _ s2]) (use s2(2) x in \<open>auto simp: nsa_notify_main_loop_def\<close>)
    moreover have "shrinks {} s (nsa_notify_main_loop s2)"
      using s2(4) by (simp add: shrinks_def s1_def nsa_notify_main_loop_def acceptors_def)
    moreover have "live s - live s2 \<subseteq> accepted_by s x" using s2(5) by (simp add: s1_def accepted_by_def acceptors_def)
    ultimately show ?thesis using n' lk k Some t s2(1,3) by (auto simp: s1_def nsa_notify_main_loop_def)
  qed
qed

lemma close_claims: "close_claim env m \<and> loop_claim env m"
proof (induction m rule: less_induct)
  case (less m)
  have "close_claim env m" by (rule close_claim_step) (use less in blast)
  moreover from this have "loop_claim env m" by (rule loop_claim_step) (use less in blast)
  ultimately show ?case by blast
qed

section \<open>The results of nsa_close\<close>

lemma elements_live:
  assumes "nsa_inv {} {} s"
  shows "rbt_get_elements (nsi_socket_set s) = card (live s)"
  using assms rbtl.count_held [of "descriptor_of s" "nsi_socket_set s" "live s"] by (simp add: nsa_inv_def table_ok_def)

lemma nsa_close_live:
  assumes inv: "nsa_inv {} {} s" and x: "x \<in> live s"
  shows "\<exists>s'. nsa_close env (descriptor_of s x) s = Some (0, s') \<and> nsa_inv {} {} s' \<and> x \<notin> live s' \<and> shrinks {} s s' \<and>
     live s - live s' \<subseteq> accepted_by s x"
proof -
  have "4 * card (live s) \<le> close_depth s" using elements_live [OF inv] by (simp add: close_depth_def)
  with close_claimD [OF conjunct1 [OF close_claims] inv, of x] x show ?thesis by (simp add: nsa_close_def)
qed

abbreviation descriptors :: "'k nsa \<Rightarrow> int set" where
  "descriptors s \<equiv> descriptor_of s ` live s"

lemma nsa_close_unknown:
  assumes inv: "nsa_inv {} {} s" and x: "d \<notin> descriptors s"
  shows "nsa_close env d s = Some (- 1, s\<lparr>nsa_errno := E_BADF\<rparr>)"
proof -
  have "nsa_get_socket_for_descriptor d s = Some None"
    by (rule lookup_none [of "{}"]) (use inv x in \<open>auto simp: nsa_inv_def\<close>)
  moreover obtain n where "close_depth s = Suc n" by (cases "close_depth s") (auto simp: close_depth_def)
  ultimately show ?thesis by (simp add: nsa_close_def)
qed

lemma shrinks_descriptor:
  assumes "shrinks {} s s'" and "y \<in> live s'"
  shows "y \<in> live s" and "descriptor_of s' y = descriptor_of s y"
proof -
  from assms(2) obtain k' where k': "nsa_sockets s' y = Some k'" by blast
  from shrinks_socket [OF assms(1) this] obtain k ys where "nsa_sockets s y = Some k" "k' = k\<lparr>ns_accept_list := ys\<rparr>" by blast
  with k' show "y \<in> live s" "descriptor_of s' y = descriptor_of s y" by (auto simp: descriptor_of_def)
qed

lemma shrinks_descriptors:
  assumes inv: "nsa_inv {} {} s" and sh: "shrinks {} s s'"
  shows "descriptors s' = descriptors s - descriptor_of s ` (live s - live s')"
proof -
  have "inj_on (descriptor_of s) (live s)" using inv by (simp add: nsa_inv_def ids_ok_def)
  moreover have "descriptors s' = descriptor_of s ` live s'" using shrinks_descriptor [OF sh] by (auto simp: image_iff)
  moreover have "live s - (live s - live s') = live s'" using shrinks_live [OF sh] by blast
  moreover have "live s' \<subseteq> live s" by (rule shrinks_live [OF sh])
  ultimately show ?thesis
    using inj_on_image_set_diff [of "descriptor_of s" "live s" "live s" "live s - live s'"] by simp
qed

end
