(* ===== verification/Socket_Create.thy ===== *)
theory Socket_Create
  imports Socket_Close
begin

text \<open>
  The creation of sockets: \<open>nsa_socket_internal\<close> takes a free descriptor (the least one, or the one
  asked for), enters the socket into the tree and keeps the invariant of the socket table; it changes
  no other socket, and on failure no socket at all.
\<close>

section \<open>What the environment promises\<close>

text \<open>\<open>calloc\<close> returns memory that is not in use.\<close>

definition calloc_ok :: "'k nsa_env \<Rightarrow> bool" where
  "calloc_ok env \<longleftrightarrow> (\<forall>used w a w'. env_calloc env used w = (Some a, w') \<longrightarrow> \<not> used a \<and> a \<noteq> 0)"

text \<open>A flow that no socket uses yet.\<close>

definition flow_free :: "'k nsa \<Rightarrow> nat \<Rightarrow> bool" where
  "flow_free s f \<longleftrightarrow> (\<exists>cf. nsa_flows s f = Some cf \<and> \<not> cf_closed cf) \<and>
     (\<forall>a k. nsa_sockets s a = Some k \<longrightarrow> ns_flow k \<noteq> Some f)"

text \<open>The descriptor that a creation may get: the least free one, or the one asked for.\<close>

definition gets_descriptor :: "int \<Rightarrow> int set \<Rightarrow> int \<Rightarrow> bool" where
  "gets_descriptor requestedSD D d \<longleftrightarrow> 0 \<le> d \<and> d < 1024 \<and> d \<notin> D \<and>
     (if requestedSD < 0 then {0..<d} \<subseteq> D else d = requestedSD)"

definition no_descriptor :: "int \<Rightarrow> int set \<Rightarrow> bool" where
  "no_descriptor requestedSD D \<longleftrightarrow> (if requestedSD < 0 then {0..<1024} \<subseteq> D else requestedSD \<in> D)"

section \<open>Descriptors\<close>

lemma descriptor_taken:
  assumes "ids_ok s" and "0 \<le> d"
  shows "nat d \<in> ibm_ids (nsi_socket_identifier_bitmap s) \<longleftrightarrow> d \<in> descriptors s"
proof
  assume "nat d \<in> ibm_ids (nsi_socket_identifier_bitmap s)"
  with assms obtain a where "a \<in> live s" "nat d = nat (descriptor_of s a)" "0 \<le> descriptor_of s a"
    by (auto simp: ids_ok_def)
  with assms(2) show "d \<in> descriptors s" by (auto simp: eq_nat_nat_iff)
next
  assume "d \<in> descriptors s"
  with assms(1) show "nat d \<in> ibm_ids (nsi_socket_identifier_bitmap s)" by (auto simp: ids_ok_def)
qed

lemma take_descriptor:
  assumes ids: "ids_ok s" and r: "requestedSD < 1024"
  shows "\<exists>d b. (if requestedSD < 0 then ibm_allocate_id (nsi_socket_identifier_bitmap s)
                else ibm_allocate_specific_id (nsi_socket_identifier_bitmap s) requestedSD) = Some (d, b) \<and>
     (d = - 1 \<and> b = nsi_socket_identifier_bitmap s \<and> no_descriptor requestedSD (descriptors s) \<or>
      gets_descriptor requestedSD (descriptors s) d \<and> ibm_inv b \<and> unat (entries b) = 1024 \<and>
        ibm_ids b = insert (nat d) (ibm_ids (nsi_socket_identifier_bitmap s)))"
proof -
  let ?b = "nsi_socket_identifier_bitmap s"
  have inv: "ibm_inv ?b" and e: "unat (entries ?b) = 1024" using ids by (auto simp: ids_ok_def)
  show ?thesis
  proof (cases "requestedSD < 0")
    case neg: True
    show ?thesis
    proof (cases "ibm_ids ?b = {..<1024}")
      case True
      have "{0..<1024} \<subseteq> descriptors s"
      proof
        fix d :: int assume "d \<in> {0..<1024}"
        then have "nat d \<in> ibm_ids ?b" "0 \<le> d" unfolding True by auto
        then show "d \<in> descriptors s" using descriptor_taken [OF ids] by blast
      qed
      with ibm.alloc_full [OF inv] True e neg show ?thesis by (simp add: no_descriptor_def)
    next
      case False
      with ibm.alloc_least [OF inv] e obtain k b where k: "ibm_allocate_id ?b = Some (int k, b)" "k < 1024"
        "k \<notin> ibm_ids ?b" "{..<k} \<subseteq> ibm_ids ?b" "ibm_ids b = insert k (ibm_ids ?b)" "unat (entries b) = 1024" "ibm_inv b"
        by auto
      have "{0..<int k} \<subseteq> descriptors s"
      proof
        fix d :: int assume "d \<in> {0..<int k}"
        then have "nat d \<in> {..<k}" "0 \<le> d" by auto
        then show "d \<in> descriptors s" using k(4) descriptor_taken [OF ids] by blast
      qed
      moreover have "int k \<notin> descriptors s" using k(3) descriptor_taken [OF ids, of "int k"] by simp
      ultimately show ?thesis using k neg by (simp add: gets_descriptor_def)
    qed
  next
    case False
    then have n: "requestedSD = int (nat requestedSD)" "nat requestedSD < 1024" using r by auto
    show ?thesis
    proof (cases "nat requestedSD \<in> ibm_ids ?b")
      case True
      with ibm.alloc_at_taken [OF inv True] n False descriptor_taken [OF ids] show ?thesis
        by (simp add: no_descriptor_def)
    next
      case free: False
      with ibm.alloc_at_free [OF inv, of "nat requestedSD"] n e obtain b where
        "ibm_allocate_specific_id ?b requestedSD = Some (requestedSD, b)"
        "ibm_ids b = insert (nat requestedSD) (ibm_ids ?b)" "unat (entries b) = 1024" "ibm_inv b" by auto
      moreover have "requestedSD \<notin> descriptors s" using free False descriptor_taken [OF ids] by simp
      ultimately show ?thesis using False r by (simp add: gets_descriptor_def)
    qed
  qed
qed

section \<open>Entering a socket\<close>

lemma es_new_free: "es_new n m st e None = Some (st(e \<mapsto> \<lparr>es_condition = [], es_fired = False, es_parent_list = []\<rparr>))"
  by (simp add: es_new_def es_add_parent_def)

lemma es_ranked_fresh:
  assumes "es_ranked r st"
  shows "es_ranked r (st(e \<mapsto> \<lparr>es_condition = [], es_fired = False, es_parent_list = []\<rparr>))"
  using assms by (auto simp: es_ranked_def es_parents_def split: if_splits)

lemma signals_tidy_new:
  assumes "signals_tidy L g"
  shows "signals_tidy (insert a L) (g(read_signal a \<mapsto> x, write_signal a \<mapsto> y, exception_signal a \<mapsto> z))"
  using assms sig_mod [of a] unfolding signals_tidy_def by (auto simp: es_graph_def socket_signals_def split: if_splits) blast+

lemma sockets_ok_new:
  assumes ok: "sockets_ok {} {} s" and a: "nsa_sockets s a = None"
    and k: "ns_notifications k = nq_new" "ns_accept_list k = []" "ns_acceptor k = None" "flow_ok s a k"
    and s': "nsa_sockets s' = (nsa_sockets s)(a \<mapsto> k)" "nsa_flows s' = nsa_flows s"
  shows "sockets_ok {} {} s'"
  unfolding sockets_ok_def
proof (intro allI impI)
  fix b kb assume b: "nsa_sockets s' b = Some kb"
  show "socket_ok {} {} s' b kb"
  proof (cases "b = a")
    case True
    with b k s' show ?thesis by (auto simp: socket_ok_def flow_ok_def accept_ok_def)
  next
    case False
    with b s' have b': "nsa_sockets s b = Some kb" by simp
    have o: "socket_ok {} {} s b kb" by (rule sockets_okD [OF ok b'])
    have "x \<noteq> a" if "x \<in> set (ns_accept_list kb)" for x using o that a by (auto simp: socket_ok_def accept_ok_def)
    moreover have "p \<noteq> a" if "ns_acceptor kb = Some p" for p using o that a by (auto simp: socket_ok_def accept_ok_def)
    ultimately show ?thesis using o s' by (auto simp: socket_ok_def flow_ok_def accept_ok_def)
  qed
qed

lemma enter_socket_ok:
  assumes inv: "nsa_inv {} {} s" and a: "nsa_sockets s a = None" "a \<noteq> 0"
    and k: "ns_notifications k = nq_new" "ns_accept_list k = []" "ns_acceptor k = None" "flow_ok s a k" "ns_descriptor k = d"
    and d: "0 \<le> d" "d \<notin> descriptors s"
    and b: "ibm_inv b" "unat (entries b) = 1024" "ibm_ids b = insert (nat d) (ibm_ids (nsi_socket_identifier_bitmap s))"
    and g: "es_ranked sig_rank g" "signals_tidy (insert a (live s)) g" "{read_signal a, write_signal a, exception_signal a} \<union> dom (nsa_signals s) \<subseteq> dom g"
    and s2: "s2 = s\<lparr>nsi_socket_set := rbt_node_new a (nsi_socket_set s), nsa_signals := g,
                     nsi_socket_identifier_bitmap := b, nsa_sockets := (nsa_sockets s)(a \<mapsto> k)\<rparr>"
  shows "\<exists>t. rbt_insert (nsa_socket_comparison_function (descriptor_of s2)) a (nsi_socket_set s2) = Some (a, t) \<and>
     nsa_inv {} {} (s2\<lparr>nsi_socket_set := t\<rparr>)"
proof -
  have tab: "table_ok {} s" and ids: "ids_ok s" and sg: "signals_ok s" and sk: "sockets_ok {} {} s"
    using inv by (auto simp: nsa_inv_def)
  have lv: "live s2 = insert a (live s)" by (simp add: s2)
  have ds: "descriptor_of s2 x = (if x = a then d else descriptor_of s x)" for x
    by (simp add: descriptor_of_def s2 k(5))
  have al: "a \<notin> live s" using a by blast
  have h: "rbt_holds (descriptor_of s) (nsi_socket_set s) (live s)" using tab by (simp add: table_ok_def)
  have old: "descriptor_of s2 x = descriptor_of s x" if "x \<in> live s" for x using that al ds by auto
  have new: "descriptor_of s x \<noteq> descriptor_of s2 a" if "x \<in> live s" for x using that d(2) ds by auto
  from rbtl.ins_init [OF h cmp_ok_sockets a(2) al old new] obtain t where
    t: "rbt_insert (nsa_socket_comparison_function (descriptor_of s2)) a (rbt_node_new a (nsi_socket_set s)) = Some (a, t)"
      "rbt_holds (descriptor_of s2) t (insert a (live s))" by blast
  let ?s = "s2\<lparr>nsi_socket_set := t\<rparr>"
  have lv': "live ?s = insert a (live s)" using lv by simp
  have "table_ok {} ?s" using t(2) tab a(2) lv' by (simp add: table_ok_def)
  moreover have "ids_ok ?s"
  proof -
    have old': "descriptor_of s2 ` live s = descriptors s" using old by (auto simp: image_iff)
    have "inj_on (descriptor_of s2) (live s)" using ids old by (simp add: ids_ok_def inj_on_def)
    moreover have "descriptor_of s2 a \<notin> descriptor_of s2 ` live s" unfolding old' using d(2) ds [of a] by simp
    ultimately have "inj_on (descriptor_of s2) (insert a (live s))" using al by simp
    moreover have "\<forall>x \<in> insert a (live s). 0 \<le> descriptor_of s2 x" using ids d(1) ds by (auto simp: ids_ok_def)
    moreover have "ibm_ids b = nat ` descriptor_of s2 ` insert a (live s)"
      using b(3) ids old' ds [of a] by (simp add: ids_ok_def)
    moreover have "nsi_socket_identifier_bitmap ?s = b" by (simp add: s2)
    ultimately show ?thesis using b lv' by (simp add: ids_ok_def del: inj_on_insert)
  qed
  moreover have "signals_ok ?s" using g sg lv' by (auto simp: signals_ok_def s2)
  moreover have "sockets_ok {} {} ?s" by (rule sockets_ok_new [OF sk a(1) k(1-4)]) (simp_all add: s2)
  ultimately show ?thesis using t(1) by (auto simp: nsa_inv_def s2)
qed

section \<open>nsa_socket_internal\<close>

text \<open>The socket that the three kinds of request produce.\<close>

definition created :: "int \<Rightarrow> int \<Rightarrow> int \<Rightarrow> nat option \<Rightarrow> nat \<Rightarrow> int \<Rightarrow> neat_socket \<Rightarrow> bool" where
  "created domain type protocol flow a d k \<longleftrightarrow> ns_descriptor k = d \<and> ns_flow k = flow \<and> ns_accept_list k = [] \<and>
     ns_acceptor k = None \<and> ns_options k = None \<and> ns_port k = 0 \<and> ns_notifications k = nq_new \<and>
     ns_socket_domain k = domain \<and> ns_socket_type k = type \<and> ns_socket_protocol k = protocol \<and>
     (case flow of None \<Rightarrow> ns_flags k \<in> {0, NSAF_CLOSE_ON_REMOVAL}
        | Some f \<Rightarrow> ns_flags k = 0 \<and> ns_flow_ops k = socket_ops a \<and> ns_socket_sd k = - 1)"

lemma socket_kind_ok:
  assumes inv: "nsa_inv {} {} s" and f: "\<And>f. flow = Some f \<Longrightarrow> flow_free s f"
  shows "\<exists>k1 s1. socket_kind env domain type protocol customFD flow a s = Some (k1, s1) \<and> nsa_inv {} {} s1 \<and>
     nsa_sockets s1 = nsa_sockets s \<and> nsi_socket_set s1 = nsi_socket_set s \<and> nsa_signals s1 = nsa_signals s \<and>
     nsi_socket_identifier_bitmap s1 = nsi_socket_identifier_bitmap s \<and> descriptor_of s1 = descriptor_of s \<and>
     flow_ok s1 a k1 \<and> (\<forall>d. created domain type protocol flow a d (k1\<lparr>ns_notifications := nq_new,
       ns_socket_domain := domain, ns_socket_type := type, ns_socket_protocol := protocol, ns_accept_list := [], ns_descriptor := d\<rparr>)) \<and>
     dom (nsa_flows s1) = dom (nsa_flows s) \<and> (\<forall>q. flow \<noteq> Some q \<longrightarrow> nsa_flows s1 q = nsa_flows s q)"
proof (cases flow)
  case None
  show ?thesis
  proof (cases "customFD < 0")
    case True
    obtain sd w where w: "env_socket env domain type protocol (nsa_world s) = (sd, w)" by fastforce
    have "nsa_inv {} {} (s\<lparr>nsa_world := w\<rparr>)" by (rule nsa_inv_cong [OF inv]) simp_all
    with None True w show ?thesis by (simp add: socket_kind_def flow_ok_def created_def zero_socket_def)
  next
    case False
    with None inv show ?thesis by (simp add: socket_kind_def flow_ok_def created_def zero_socket_def)
  qed
next
  case (Some f)
  from f [OF this] obtain cf where cf: "nsa_flows s f = Some cf" "\<not> cf_closed cf"
    and nobody: "\<And>a k. nsa_sockets s a = Some k \<Longrightarrow> ns_flow k \<noteq> Some f" by (auto simp: flow_free_def)
  have "nsa_inv {} {} (s\<lparr>nsa_flows := (nsa_flows s)(f \<mapsto> cf\<lparr>cf_operations := socket_ops a\<rparr>)\<rparr>)"
    by (rule nsa_inv_flow [OF inv]) (use nobody in blast)
  with Some cf show ?thesis
    by (auto simp: socket_kind_def neat_set_operations_def flow_ok_def created_def zero_socket_def socket_ops_def)
qed

lemma nsa_socket_internal_ok:
  assumes inv: "nsa_inv {} {} s" and env: "calloc_ok env" and f: "\<forall>f. flow = Some f \<longrightarrow> flow_free s f"
    and r: "requestedSD < 1024"
  shows "\<exists>d s'. nsa_socket_internal env domain type protocol customFD flow requestedSD s = Some (d, s') \<and> nsa_inv {} {} s' \<and>
     (d = - 1 \<and> nsa_sockets s' = nsa_sockets s \<and>
        (nsa_errno s' = E_NOMEM \<and> fst (env_calloc env (\<lambda>a. nsa_sockets s a \<noteq> None) (nsa_world s)) = None \<or>
         nsa_errno s' = E_MFILE \<and> no_descriptor requestedSD (descriptors s) \<and>
           (\<forall>f. flow = Some f \<longrightarrow> (\<exists>a cf. nsa_sockets s a = None \<and> nsa_flows s' f = Some cf \<and> cf_operations cf = socket_ops a \<and>
              \<not> cf_closed cf))) \<or>
      gets_descriptor requestedSD (descriptors s) d \<and>
        (\<exists>a k. nsa_sockets s a = None \<and> a \<noteq> 0 \<and> nsa_sockets s' = (nsa_sockets s)(a \<mapsto> k) \<and>
               created domain type protocol flow a d k)) \<and>
     dom (nsa_flows s') = dom (nsa_flows s) \<and> (\<forall>q. flow \<noteq> Some q \<longrightarrow> nsa_flows s' q = nsa_flows s q)"
proof -
  obtain ao w where w: "env_calloc env (\<lambda>a. nsa_sockets s a \<noteq> None) (nsa_world s) = (ao, w)" by fastforce
  let ?s = "s\<lparr>nsa_world := w\<rparr>"
  show ?thesis
  proof (cases ao)
    case None
    have "nsa_inv {} {} (s\<lparr>nsa_world := w, nsa_errno := E_NOMEM\<rparr>)" by (rule nsa_inv_cong [OF inv]) simp_all
    with w None show ?thesis by (simp add: nsa_socket_internal_def)
  next
    case (Some a)
    have a: "nsa_sockets s a = None" "a \<noteq> 0" using env w Some unfolding calloc_ok_def by blast+
    have inv0: "nsa_inv {} {} ?s" by (rule nsa_inv_cong [OF inv]) simp_all
    have f0: "flow_free ?s f" if "flow = Some f" for f using f that by (simp add: flow_free_def)
    from socket_kind_ok [OF inv0 f0, where env = env and domain = domain and type = type and protocol = protocol
        and customFD = customFD and a = a and flow = flow] obtain k1 s1 where
      k1: "socket_kind env domain type protocol customFD flow a ?s = Some (k1, s1)" and inv1: "nsa_inv {} {} s1" and
      s1: "nsa_sockets s1 = nsa_sockets s" "nsi_socket_set s1 = nsi_socket_set s" "nsa_signals s1 = nsa_signals s"
        "nsi_socket_identifier_bitmap s1 = nsi_socket_identifier_bitmap s" "descriptor_of s1 = descriptor_of s"
      and fl: "flow_ok s1 a k1" and cr: "\<And>d. created domain type protocol flow a d (k1\<lparr>ns_notifications := nq_new,
        ns_socket_domain := domain, ns_socket_type := type, ns_socket_protocol := protocol, ns_accept_list := [], ns_descriptor := d\<rparr>)"
      and fs: "dom (nsa_flows s1) = dom (nsa_flows s)" "\<forall>q. flow \<noteq> Some q \<longrightarrow> nsa_flows s1 q = nsa_flows s q"
      by auto
    let ?k = "\<lambda>d. k1\<lparr>ns_notifications := nq_new, ns_socket_domain := domain,
                      ns_socket_type := type, ns_socket_protocol := protocol, ns_accept_list := [], ns_descriptor := d\<rparr>"
    let ?e = "\<lparr>es_condition = [], es_fired = False, es_parent_list = []\<rparr>"
    define g where "g = (nsa_signals s1)(read_signal a \<mapsto> ?e, write_signal a \<mapsto> ?e, exception_signal a \<mapsto> ?e)"
    have ids1: "ids_ok s1" and rk1: "es_ranked sig_rank (nsa_signals s1)"
      using inv1 by (auto simp: nsa_inv_def signals_ok_def)
    have g: "es_ranked sig_rank g" unfolding g_def by (intro es_ranked_fresh rk1)
    from take_descriptor [OF ids1 r] obtain d b where
      db: "(if requestedSD < 0 then ibm_allocate_id (nsi_socket_identifier_bitmap s1)
            else ibm_allocate_specific_id (nsi_socket_identifier_bitmap s1) requestedSD) = Some (d, b)" and
      dc: "d = - 1 \<and> b = nsi_socket_identifier_bitmap s1 \<and> no_descriptor requestedSD (descriptors s1) \<or>
        gets_descriptor requestedSD (descriptors s1) d \<and> ibm_inv b \<and> unat (entries b) = 1024 \<and>
        ibm_ids b = insert (nat d) (ibm_ids (nsi_socket_identifier_bitmap s1))" by blast
    define s2 where "s2 = s1\<lparr>nsi_socket_set := rbt_node_new a (nsi_socket_set s1), nsa_signals := g,
                     nsi_socket_identifier_bitmap := b, nsa_sockets := (nsa_sockets s1)(a \<mapsto> ?k d)\<rparr>"
    have ds: "descriptors s1 = descriptors s" using s1 by simp
    show ?thesis
    proof (cases "d \<ge> 0")
      case True
      with dc have d: "gets_descriptor requestedSD (descriptors s) d" "ibm_inv b" "unat (entries b) = 1024"
        "ibm_ids b = insert (nat d) (ibm_ids (nsi_socket_identifier_bitmap s1))" using ds by auto
      have dn: "d \<notin> descriptors s1" using d(1) ds by (simp add: gets_descriptor_def)
      have acc: "ns_acceptor k1 = None" using cr [of 0] by (simp add: created_def)
      have fl': "flow_ok s1 a (?k d)" using fl by (simp add: flow_ok_def)
      have gt: "signals_tidy (insert a (live s1)) g" unfolding g_def
        by (rule signals_tidy_new) (use inv1 in \<open>simp add: nsa_inv_def signals_ok_def\<close>)
      have gd: "{read_signal a, write_signal a, exception_signal a} \<union> dom (nsa_signals s1) \<subseteq> dom g" by (auto simp: g_def)
      from enter_socket_ok [OF inv1 _ a(2) _ _ _ fl' _ True dn d(2-4) g gt gd s2_def] a(1) s1(1) acc obtain t where
        t: "rbt_insert (nsa_socket_comparison_function (descriptor_of s2)) a (nsi_socket_set s2) = Some (a, t)"
          "nsa_inv {} {} (s2\<lparr>nsi_socket_set := t\<rparr>)" by auto
      have "nsa_socket_internal env domain type protocol customFD flow requestedSD s = Some (d, s2\<lparr>nsi_socket_set := t\<rparr>)"
        using w Some k1 db True t(1) unfolding nsa_socket_internal_def
        by (simp add: es_new_free Let_def s2_def g_def del: if_split cong: if_cong)
      moreover have "nsa_sockets (s2\<lparr>nsi_socket_set := t\<rparr>) = (nsa_sockets s)(a \<mapsto> ?k d)" by (simp add: s2_def s1)
      moreover have "nsa_flows (s2\<lparr>nsi_socket_set := t\<rparr>) = nsa_flows s1" by (simp add: s2_def)
      ultimately show ?thesis using t(2) d(1) a cr [of d] fs
        by (intro exI [of _ d] exI [of _ "s2\<lparr>nsi_socket_set := t\<rparr>"] conjI disjI2 exI [of _ a] exI [of _ "?k d"]) simp_all
    next
      case False
      with dc have nd: "d = - 1" "b = nsi_socket_identifier_bitmap s1" "no_descriptor requestedSD (descriptors s)"
        using ds by (auto simp: gets_descriptor_def)
      define w' where "w' = (if ns_flags k1 AND NSAF_CLOSE_ON_REMOVAL \<noteq> 0 then env_close env (ns_socket_sd k1) (nsa_world s2)
                       else nsa_world s2)"
      define s3 where "s3 = free_socket a (s2\<lparr>nsa_world := w', nsa_errno := E_MFILE\<rparr>)"
      have r: "nsa_socket_internal env domain type protocol customFD flow requestedSD s = Some (- 1, s3)"
        using w Some k1 db nd unfolding nsa_socket_internal_def
        by (simp add: es_new_free Let_def s3_def w'_def s2_def g_def del: if_split cong: if_cong)
      have s3: "nsa_sockets s3 = nsa_sockets s1" "nsa_flows s3 = nsa_flows s1" "nsa_errno s3 = E_MFILE"
          "nsi_socket_identifier_bitmap s3 = nsi_socket_identifier_bitmap s1"
          "nsi_socket_set s3 = rbt_node_new a (nsi_socket_set s1)"
          "nsa_signals s3 = g(read_signal a := None, write_signal a := None, exception_signal a := None)"
        using a s1 nd by (auto simp: s3_def free_socket_def s2_def)
      have al: "a \<notin> live s1" using a s1 by auto
      have tab1: "table_ok {} s1" and sk1: "sockets_ok {} {} s1" and sg1: "signals_ok s1" using inv1 by (auto simp: nsa_inv_def)
      have ds3: "descriptor_of s3 = descriptor_of s1" by (rule descriptor_of_cong) (simp add: s3)
      have "table_ok {} s3"
        using tab1 rbtl.init_node [of "descriptor_of s1" "nsi_socket_set s1" "live s1" a] al a(2) s3 ds3
        by (simp add: table_ok_def)
      moreover have "signals_tidy (live s1) (nsa_signals s3)"
      proof -
        have "signals_tidy (insert a (live s1)) g" unfolding g_def
          by (rule signals_tidy_new) (use sg1 in \<open>simp add: signals_ok_def\<close>)
        from signals_tidy_remove [OF this, of a] al show ?thesis by (simp add: s3 fun_upd_twist)
      qed
      then have "signals_ok s3"
        using g sg1 al by (auto simp: signals_ok_def s3 socket_signals_rank g_def intro!: es_ranked_delete)
      moreover have "ids_ok s3" using ids1 s3 ds3 by (simp add: ids_ok_def)
      moreover have "sockets_ok {} {} s3"
        using sk1 s3 by (simp add: sockets_ok_def socket_ok_def flow_ok_def accept_ok_def)
      moreover have "\<exists>cf. nsa_flows s3 f = Some cf \<and> cf_operations cf = socket_ops a \<and> \<not> cf_closed cf" if "flow = Some f" for f
        using fl cr [of 0] that s3(2) by (auto simp: flow_ok_def created_def)
      ultimately show ?thesis using r nd s1 s3 fs a(1) by (simp add: nsa_inv_def) blast
    qed
  qed
qed

text \<open>A socket for a flow, with the least free descriptor.\<close>

lemma create_flow_socket:
  assumes inv: "nsa_inv {} {} s" and env: "calloc_ok env" and free: "flow_free s g"
  shows "(\<exists>s'. nsa_socket_internal env domain type protocol customFD (Some g) (- 1) s = Some (- 1, s') \<and> nsa_inv {} {} s' \<and>
       nsa_sockets s' = nsa_sockets s \<and>
       (fst (env_calloc env (\<lambda>a. nsa_sockets s a \<noteq> None) (nsa_world s)) = None \<or>
        {0..<1024} \<subseteq> descriptors s \<and>
          (\<exists>n cf. nsa_sockets s n = None \<and> nsa_flows s' g = Some cf \<and> cf_operations cf = socket_ops n \<and> \<not> cf_closed cf))) \<or>
     (\<exists>d s' n k. nsa_socket_internal env domain type protocol customFD (Some g) (- 1) s = Some (d, s') \<and> nsa_inv {} {} s' \<and>
       gets_descriptor (- 1) (descriptors s) d \<and> nsa_sockets s n = None \<and> nsa_sockets s' = (nsa_sockets s)(n \<mapsto> k) \<and>
       created domain type protocol (Some g) n d k \<and> dom (nsa_flows s') = dom (nsa_flows s) \<and>
       (\<forall>q. q \<noteq> g \<longrightarrow> nsa_flows s' q = nsa_flows s q))"
proof -
  have ff: "\<forall>x. Some g = Some x \<longrightarrow> flow_free s x" using free by simp
  have r: "(- 1 :: int) < 1024" by simp
  from nsa_socket_internal_ok [where flow = "Some g" and domain = domain and type = type and protocol = protocol and
      customFD = customFD, OF inv env ff r] obtain d s' where
    A: "nsa_socket_internal env domain type protocol customFD (Some g) (- 1) s = Some (d, s')" "nsa_inv {} {} s'" and
    B: "d = - 1 \<and> nsa_sockets s' = nsa_sockets s \<and>
        (nsa_errno s' = E_NOMEM \<and> fst (env_calloc env (\<lambda>a. nsa_sockets s a \<noteq> None) (nsa_world s)) = None \<or>
         nsa_errno s' = E_MFILE \<and> no_descriptor (- 1) (descriptors s) \<and>
           (\<forall>f. Some g = Some f \<longrightarrow> (\<exists>a cf. nsa_sockets s a = None \<and> nsa_flows s' f = Some cf \<and> cf_operations cf = socket_ops a \<and>
              \<not> cf_closed cf))) \<or>
      gets_descriptor (- 1) (descriptors s) d \<and>
        (\<exists>a k. nsa_sockets s a = None \<and> a \<noteq> 0 \<and> nsa_sockets s' = (nsa_sockets s)(a \<mapsto> k) \<and>
               created domain type protocol (Some g) a d k)" and
    C: "dom (nsa_flows s') = dom (nsa_flows s)" "\<forall>q. Some g \<noteq> Some q \<longrightarrow> nsa_flows s' q = nsa_flows s q"
    by (elim exE conjE) (rule that)
  from B show ?thesis
  proof (elim disjE conjE exE)
    assume "d = - 1" "nsa_sockets s' = nsa_sockets s" "fst (env_calloc env (\<lambda>a. nsa_sockets s a \<noteq> None) (nsa_world s)) = None"
    with A show ?thesis by (intro disjI1 exI [of _ s']) simp
  next
    assume "d = - 1" "nsa_sockets s' = nsa_sockets s" "no_descriptor (- 1) (descriptors s)" and
      "\<forall>f. Some g = Some f \<longrightarrow> (\<exists>a cf. nsa_sockets s a = None \<and> nsa_flows s' f = Some cf \<and> cf_operations cf = socket_ops a \<and>
              \<not> cf_closed cf)"
    with A show ?thesis by (intro disjI1 exI [of _ s']) (simp add: no_descriptor_def)
  next
    fix a k assume "gets_descriptor (- 1) (descriptors s) d" "nsa_sockets s a = None"
      "nsa_sockets s' = (nsa_sockets s)(a \<mapsto> k)" "created domain type protocol (Some g) a d k"
    with A C show ?thesis by (intro disjI2 exI [of _ d] exI [of _ s'] exI [of _ a] exI [of _ k]) simp
  qed
qed

end
