(* ===== verification/Socket_Events.thy ===== *)
theory Socket_Events
  imports Socket_Create
begin

text \<open>
  The callbacks by which the transport core drives the socket table (\<open>neat-socketapi-internals.c\<close>),
  and the switching of the read and write events. A callback is entered with the \<open>userData\<close> of the
  operations of its flow; a socket that is gone is \<^const>\<open>None\<close>.
\<close>

section \<open>Operations\<close>

definition nsa_set_socket_event_on_read :: "nat \<Rightarrow> bool \<Rightarrow> 'k nsa \<Rightarrow> 'k nsa option" where
  "nsa_set_socket_event_on_read a r s = do {
     k \<leftarrow> nsa_sockets s a;
     let ops = (ns_flow_ops k)\<lparr>ops_on_readable := r\<rparr>;
     f \<leftarrow> ns_flow k;
     neat_set_operations f ops (modify_socket a (\<lambda>k. k\<lparr>ns_flow_ops := ops\<rparr>) s) }"

definition nsa_set_socket_event_on_write :: "nat \<Rightarrow> bool \<Rightarrow> 'k nsa \<Rightarrow> 'k nsa option" where
  "nsa_set_socket_event_on_write a w s = do {
     k \<leftarrow> nsa_sockets s a;
     let ops = (ns_flow_ops k)\<lparr>ops_on_writable := w\<rparr>;
     f \<leftarrow> ns_flow k;
     neat_set_operations f ops (modify_socket a (\<lambda>k. k\<lparr>ns_flow_ops := ops\<rparr>) s) }"

definition set_flag :: "nat \<Rightarrow> u32 \<Rightarrow> 'k nsa \<Rightarrow> 'k nsa" where
  "set_flag a x s = modify_socket a (\<lambda>k. k\<lparr>ns_flags := ns_flags k OR x\<rparr>) s"

definition clear_flag :: "nat \<Rightarrow> u32 \<Rightarrow> 'k nsa \<Rightarrow> 'k nsa" where
  "clear_flag a x s = modify_socket a (\<lambda>k. k\<lparr>ns_flags := ns_flags k AND NOT x\<rparr>) s"

definition broadcast :: "sig_ptr \<Rightarrow> 'k nsa \<Rightarrow> 'k nsa option" where
  "broadcast e s = do { g \<leftarrow> es_broadcast es_depth (nsa_signals s) e; Some (s\<lparr>nsa_signals := g\<rparr>) }"

text \<open>\<open>es_has_fired\<close>, called to clear a signal.\<close>

definition clear_signal :: "sig_ptr \<Rightarrow> 'k nsa \<Rightarrow> 'k nsa option" where
  "clear_signal e s = do { (_, g) \<leftarrow> es_has_fired (nsa_signals s) e; Some (s\<lparr>nsa_signals := g\<rparr>) }"

definition on_error_callback :: "nat \<Rightarrow> 'k nsa \<Rightarrow> 'k nsa option" where
  "on_error_callback a s = do {
     _ \<leftarrow> nsa_sockets s a;
     broadcast (read_signal a) (set_flag a NSAF_BAD s) }"

definition on_readable_callback :: "nat \<Rightarrow> 'k nsa \<Rightarrow> 'k nsa option" where
  "on_readable_callback a s = do {
     _ \<leftarrow> nsa_sockets s a;
     s1 \<leftarrow> broadcast (read_signal a) (set_flag a NSAF_READABLE s);
     nsa_set_socket_event_on_read a False s1 }"

definition on_writable_callback :: "nat \<Rightarrow> 'k nsa \<Rightarrow> 'k nsa option" where
  "on_writable_callback a s = do {
     _ \<leftarrow> nsa_sockets s a;
     s1 \<leftarrow> broadcast (write_signal a) (set_flag a NSAF_WRITABLE s);
     nsa_set_socket_event_on_write a False s1 }"

definition on_all_written_callback :: "nat \<Rightarrow> 'k nsa \<Rightarrow> 'k nsa option" where
  "on_all_written_callback a s = do {
     _ \<leftarrow> nsa_sockets s a;
     s1 \<leftarrow> broadcast (write_signal a) (set_flag a NSAF_WRITABLE s);
     nsa_set_socket_event_on_write a False s1 }"

definition on_network_status_changed_callback :: "nat \<Rightarrow> 'k nsa \<Rightarrow> 'k nsa option" where
  "on_network_status_changed_callback a s = do { _ \<leftarrow> nsa_sockets s a; Some s }"

definition on_aborted_callback :: "nat \<Rightarrow> 'k nsa \<Rightarrow> 'k nsa option" where
  "on_aborted_callback a s = do { _ \<leftarrow> nsa_sockets s a; Some (set_flag a NSAF_BAD s) }"

definition on_timeout_callback :: "nat \<Rightarrow> 'k nsa \<Rightarrow> 'k nsa option" where
  "on_timeout_callback a s = do { _ \<leftarrow> nsa_sockets s a; Some (set_flag a NSAF_TIMEOUT s) }"

definition on_send_failure_callback :: "nat \<Rightarrow> 'k nsa \<Rightarrow> 'k nsa option" where
  "on_send_failure_callback a s = do { _ \<leftarrow> nsa_sockets s a; Some (set_flag a NSAF_BAD s) }"

definition on_slowdown_callback :: "nat \<Rightarrow> 'k nsa \<Rightarrow> 'k nsa option" where
  "on_slowdown_callback a s = do { _ \<leftarrow> nsa_sockets s a; Some s }"

definition on_rate_hint_callback :: "nat \<Rightarrow> 'k nsa \<Rightarrow> 'k nsa option" where
  "on_rate_hint_callback a s = do { _ \<leftarrow> nsa_sockets s a; Some s }"

text \<open>\<open>neat_abort\<close>: no lingering, then \<open>neat_close\<close>.\<close>

definition neat_abort :: "'k nsa_env \<Rightarrow> nat \<Rightarrow> 'k nsa \<Rightarrow> 'k nsa option" where
  "neat_abort env f s = neat_close env f (s\<lparr>nsa_world := env_linger env f (nsa_world s)\<rparr>)"

text \<open>\<open>on_connected\<close> for the flow \<open>f\<close>, which for a listening socket is a new one.\<close>

definition on_connected_callback :: "'k nsa_env \<Rightarrow> nat \<Rightarrow> nat \<Rightarrow> 'k nsa \<Rightarrow> (neat_error_code \<times> 'k nsa) option" where
  "on_connected_callback env a f s = do {
     k \<leftarrow> nsa_sockets s a;
     if ns_flags k AND NSAF_LISTENING \<noteq> 0
     then do {
       (newSD, s1) \<leftarrow> nsa_socket_internal env 0 0 0 0 (Some f) (- 1) s;
       if newSD \<ge> 0
       then do {
         r \<leftarrow> nsa_get_socket_for_descriptor newSD s1;
         n \<leftarrow> r;
         kn \<leftarrow> nsa_sockets s1 n;
         let s2 = modify_socket n (\<lambda>k. k\<lparr>ns_acceptor := Some a\<rparr>) s1;
         g \<leftarrow> ns_flow kn;
         s3 \<leftarrow> neat_set_operations g (ns_flow_ops kn) s2;
         let s4 = modify_socket a (\<lambda>k. k\<lparr>ns_accept_list := ns_accept_list k @ [n]\<rparr>) s3;
         s5 \<leftarrow> broadcast (read_signal a) s4;
         Some (NEAT_OK, s5) }
       else do {
         s2 \<leftarrow> neat_abort env f s1;
         Some (NEAT_ERROR_INTERNAL, s2) } }
     else do {
       s1 \<leftarrow> broadcast (read_signal a) (set_flag a NSAF_CONNECTED s);
       Some (NEAT_OK, s1) } }"

text \<open>The dispatch of a callback through the operations of a flow; there is no call for a flow that is gone.\<close>

definition notice_callback :: "core_notice \<Rightarrow> nat \<Rightarrow> 'k nsa \<Rightarrow> 'k nsa option" where
  "notice_callback n = (case n of
      N_error \<Rightarrow> on_error_callback | N_readable \<Rightarrow> on_readable_callback | N_writable \<Rightarrow> on_writable_callback
    | N_all_written \<Rightarrow> on_all_written_callback | N_network_status_changed \<Rightarrow> on_network_status_changed_callback
    | N_aborted \<Rightarrow> on_aborted_callback | N_timeout \<Rightarrow> on_timeout_callback | N_send_failure \<Rightarrow> on_send_failure_callback
    | N_slowdown \<Rightarrow> on_slowdown_callback | N_rate_hint \<Rightarrow> on_rate_hint_callback)"

definition notice_enabled :: "core_notice \<Rightarrow> nsa_ops \<Rightarrow> bool" where
  "notice_enabled n ops = (case n of N_readable \<Rightarrow> ops_on_readable ops | N_writable \<Rightarrow> ops_on_writable ops | _ \<Rightarrow> ops_others ops)"

definition core_notify :: "nat \<times> core_notice \<Rightarrow> 'k nsa \<Rightarrow> 'k nsa option" where
  "core_notify x s = (case nsa_flows s (fst x) of
      None \<Rightarrow> Some s
    | Some cf \<Rightarrow>
        if notice_enabled (snd x) (cf_operations cf)
        then do { a \<leftarrow> ops_userData (cf_operations cf); notice_callback (snd x) a s }
        else Some s)"

fun core_notify_all :: "(nat \<times> core_notice) list \<Rightarrow> 'k nsa \<Rightarrow> 'k nsa option" where
  "core_notify_all [] s = Some s"
| "core_notify_all (x # xs) s = do { s1 \<leftarrow> core_notify x s; core_notify_all xs s1 }"

text \<open>
  A connection to a listening flow: \<open>do_accept\<close> makes a new flow with the callbacks and the
  \<open>userData\<close> of the listening one and reports it as connected.
\<close>

definition core_accept :: "'k nsa_env \<Rightarrow> nat \<Rightarrow> 'k nsa \<Rightarrow> 'k nsa option" where
  "core_accept env f s = do {
     cf \<leftarrow> nsa_flows s f;
     case env_new_flow env (\<lambda>f. nsa_flows s f \<noteq> None) (nsa_world s) of
       (None, w) \<Rightarrow> core_notify (f, N_error) (s\<lparr>nsa_world := w\<rparr>)
     | (Some g, w) \<Rightarrow> do {
         let s1 = s\<lparr>nsa_world := w, nsa_flows := (nsa_flows s)(g \<mapsto> \<lparr>cf_operations = cf_operations cf, cf_closed = False\<rparr>)\<rparr>;
         if ops_others (cf_operations cf)
         then do { a \<leftarrow> ops_userData (cf_operations cf);
                   (_, s2) \<leftarrow> on_connected_callback env a g s1; Some s2 }
         else Some s1 } }"

section \<open>What a callback leaves alone\<close>

text \<open>
  The frame of the callbacks that only report: every socket stays, with its descriptor, its flow and
  its place in the accept lists.
\<close>

definition core_of :: "neat_socket \<Rightarrow> neat_socket" where
  "core_of k = k\<lparr>ns_flags := 0, ns_flow_ops := (ns_flow_ops k)\<lparr>ops_on_readable := True, ops_on_writable := True\<rparr>\<rparr>"

definition flow_core :: "core_flow \<Rightarrow> core_flow" where
  "flow_core cf = (if ops_userData (cf_operations cf) = None then cf
     else cf\<lparr>cf_operations := (cf_operations cf)\<lparr>ops_on_readable := True, ops_on_writable := True\<rparr>\<rparr>)"

definition same_sockets :: "'k nsa \<Rightarrow> 'k nsa \<Rightarrow> bool" where
  "same_sockets s s' \<longleftrightarrow> (\<forall>a. map_option core_of (nsa_sockets s' a) = map_option core_of (nsa_sockets s a)) \<and>
     (\<forall>f. map_option flow_core (nsa_flows s' f) = map_option flow_core (nsa_flows s f)) \<and>
     nsi_socket_set s' = nsi_socket_set s \<and> nsi_socket_identifier_bitmap s' = nsi_socket_identifier_bitmap s \<and>
     es_graph (nsa_signals s') = es_graph (nsa_signals s)"

lemma same_sockets_refl [simp]: "same_sockets s s"
  by (simp add: same_sockets_def)

lemma same_sockets_trans: "same_sockets s s1 \<Longrightarrow> same_sockets s1 s2 \<Longrightarrow> same_sockets s s2"
  by (simp add: same_sockets_def)

lemma core_of_eqD:
  assumes "core_of k' = core_of k"
  shows "ns_descriptor k' = ns_descriptor k" "ns_flow k' = ns_flow k" "ns_accept_list k' = ns_accept_list k"
    "ns_acceptor k' = ns_acceptor k" "ns_notifications k' = ns_notifications k" "ns_socket_sd k' = ns_socket_sd k"
    "ops_userData (ns_flow_ops k') = ops_userData (ns_flow_ops k)" "ops_others (ns_flow_ops k') = ops_others (ns_flow_ops k)"
    "ns_options k' = ns_options k" "ns_port k' = ns_port k"
  using assms by (cases k; cases k'; cases "ns_flow_ops k"; cases "ns_flow_ops k'"; simp add: core_of_def)+

lemma same_sockets_socket:
  assumes "same_sockets s s'" and "nsa_sockets s a = Some k"
  shows "\<exists>k'. nsa_sockets s' a = Some k' \<and> core_of k' = core_of k"
proof -
  have "map_option core_of (nsa_sockets s' a) = Some (core_of k)" using assms by (simp add: same_sockets_def)
  then show ?thesis by auto
qed

lemma same_sockets_live: "same_sockets s s' \<Longrightarrow> live s' = live s"
proof -
  assume "same_sockets s s'"
  then have "map_option core_of (nsa_sockets s' a) = map_option core_of (nsa_sockets s a)" for a
    by (simp add: same_sockets_def)
  then have "a \<in> live s' \<longleftrightarrow> a \<in> live s" for a
    by (metis domIff map_option_is_None)
  then show ?thesis by blast
qed

lemma same_sockets_descriptor_of: "same_sockets s s' \<Longrightarrow> descriptor_of s' = descriptor_of s"
proof
  fix a assume h: "same_sockets s s'"
  have "map_option core_of (nsa_sockets s' a) = map_option core_of (nsa_sockets s a)" using h by (simp add: same_sockets_def)
  then show "descriptor_of s' a = descriptor_of s a"
    by (cases "nsa_sockets s a") (auto simp: descriptor_of_def dest: core_of_eqD)
qed

section \<open>The invariant\<close>

text \<open>The operations of a flow and of its socket stay equal; everything else is in the frame.\<close>

definition ops_agree :: "'k nsa \<Rightarrow> bool" where
  "ops_agree s \<longleftrightarrow> (\<forall>a k f cf. nsa_sockets s a = Some k \<longrightarrow> ns_flow k = Some f \<longrightarrow> nsa_flows s f = Some cf \<longrightarrow>
     cf_operations cf = ns_flow_ops k)"

lemma nsa_inv_agree: "nsa_inv {} E s \<Longrightarrow> ops_agree s"
  by (fastforce simp: nsa_inv_def sockets_ok_def socket_ok_def flow_ok_def ops_agree_def)

lemma same_sockets_inv:
  assumes inv: "nsa_inv {} E s" and same: "same_sockets s s'" and agree: "ops_agree s'"
  shows "nsa_inv {} E s'"
proof -
  have tab: "table_ok {} s" and ids: "ids_ok s" and sg: "signals_ok s" and sk: "sockets_ok {} E s"
    using inv by (auto simp: nsa_inv_def)
  note lv = same_sockets_live [OF same] and ds = same_sockets_descriptor_of [OF same]
  have gr: "es_graph (nsa_signals s') = es_graph (nsa_signals s)" and st: "nsi_socket_set s' = nsi_socket_set s"
    "nsi_socket_identifier_bitmap s' = nsi_socket_identifier_bitmap s" using same by (auto simp: same_sockets_def)
  have "table_ok {} s'" using tab lv ds st by (simp add: table_ok_def)
  moreover have "ids_ok s'" using ids lv ds st by (simp add: ids_ok_def)
  moreover have "signals_ok s'"
    using sg lv es_ranked_graph [OF gr, of sig_rank] es_graph_dom [OF gr] signals_tidy_graph [OF gr] by (simp add: signals_ok_def)
  moreover have "sockets_ok {} E s'"
    unfolding sockets_ok_def
  proof (intro allI impI)
    fix b kb' assume b': "nsa_sockets s' b = Some kb'"
    then obtain kb where b: "nsa_sockets s b = Some kb" using lv by blast
    with same_sockets_socket [OF same b] b' have c: "core_of kb' = core_of kb" by simp
    note e = core_of_eqD [OF c] and o = sockets_okD [OF sk b]
    have other: "\<exists>kx'. nsa_sockets s' x = Some kx' \<and> ns_acceptor kx' = ns_acceptor kx \<and> ns_accept_list kx' = ns_accept_list kx"
      if "nsa_sockets s x = Some kx" for x kx
      using same_sockets_socket [OF same that] by (auto dest: core_of_eqD)
    have acc: "accept_ok {} E s' b kb'"
      unfolding accept_ok_def e
    proof (intro conjI ballI allI impI)
      show "distinct (ns_accept_list kb)" using o by (simp add: socket_ok_def accept_ok_def)
      fix x assume x: "x \<in> set (ns_accept_list kb)"
      show "x \<notin> {}" by simp
      from x o obtain kx where kx: "nsa_sockets s x = Some kx" "ns_acceptor kx = Some b"
        unfolding socket_ok_def accept_ok_def by blast
      from other [OF kx(1)] kx(2) show "\<exists>kx. nsa_sockets s' x = Some kx \<and> ns_acceptor kx = Some b" by auto
    next
      fix p assume "ns_acceptor kb = Some p"
      with o obtain kp where kp: "nsa_sockets s p = Some kp" "b \<notin> E \<longrightarrow> b \<in> set (ns_accept_list kp)"
        unfolding socket_ok_def accept_ok_def by blast
      from other [OF kp(1)] kp(2) show "\<exists>kp. nsa_sockets s' p = Some kp \<and> (b \<notin> E \<longrightarrow> b \<in> set (ns_accept_list kp))" by auto
    qed
    moreover have "flow_ok s' b kb'"
      unfolding flow_ok_def
    proof (intro allI impI)
      fix f assume f: "ns_flow kb' = Some f"
      then obtain cf where cf: "nsa_flows s f = Some cf" "\<not> cf_closed cf" "ops_userData (ns_flow_ops kb) = Some b" "ops_others (ns_flow_ops kb)"
        using o e(2) by (auto simp: socket_ok_def flow_ok_def)
      have "map_option flow_core (nsa_flows s' f) = Some (flow_core cf)" using same cf(1) by (simp add: same_sockets_def)
      then obtain cf' where cf': "nsa_flows s' f = Some cf'" "flow_core cf' = flow_core cf" by auto
      then have "cf_closed cf' = cf_closed cf" by (cases cf; cases cf') (auto simp: flow_core_def split: if_splits)
      moreover have "cf_operations cf' = ns_flow_ops kb'" using agree b' f cf'(1) unfolding ops_agree_def by blast
      ultimately show "\<exists>cf. nsa_flows s' f = Some cf \<and> \<not> cf_closed cf \<and> cf_operations cf = ns_flow_ops kb' \<and>
          ops_userData (ns_flow_ops kb') = Some b \<and> ops_others (ns_flow_ops kb')"
        using cf(2-4) cf'(1) e(7,8) by simp
    qed
    ultimately show "socket_ok {} E s' b kb'" using o e by (simp add: socket_ok_def)
  qed
  ultimately show ?thesis by (simp add: nsa_inv_def)
qed


section \<open>Every callback keeps the invariant\<close>

lemma same_sockets_modify:
  assumes "\<And>k. core_of (f k) = core_of k"
  shows "same_sockets s (modify_socket a f s)"
  using assms by (simp add: same_sockets_def option.map_comp comp_def)

lemma core_of_flags [simp]: "core_of (k\<lparr>ns_flags := x\<rparr>) = core_of k"
  by (simp add: core_of_def)

lemma core_of_read [simp]: "core_of (k\<lparr>ns_flow_ops := (ns_flow_ops k)\<lparr>ops_on_readable := r\<rparr>\<rparr>) = core_of k"
  by (simp add: core_of_def)

lemma core_of_write [simp]: "core_of (k\<lparr>ns_flow_ops := (ns_flow_ops k)\<lparr>ops_on_writable := r\<rparr>\<rparr>) = core_of k"
  by (simp add: core_of_def)

lemma set_flag_ok: "nsa_inv {} E s \<Longrightarrow> nsa_inv {} E (set_flag a x s) \<and> same_sockets s (set_flag a x s)"
proof -
  assume inv: "nsa_inv {} E s"
  have same: "same_sockets s (set_flag a x s)" unfolding set_flag_def by (rule same_sockets_modify) simp
  moreover have "ops_agree (set_flag a x s)" using nsa_inv_agree [OF inv] by (auto simp: ops_agree_def set_flag_def)
  ultimately show ?thesis using same_sockets_inv [OF inv] by blast
qed

lemma clear_flag_ok: "nsa_inv {} E s \<Longrightarrow> nsa_inv {} E (clear_flag a x s) \<and> same_sockets s (clear_flag a x s)"
proof -
  assume inv: "nsa_inv {} E s"
  have same: "same_sockets s (clear_flag a x s)" unfolding clear_flag_def by (rule same_sockets_modify) simp
  moreover have "ops_agree (clear_flag a x s)" using nsa_inv_agree [OF inv] by (auto simp: ops_agree_def clear_flag_def)
  ultimately show ?thesis using same_sockets_inv [OF inv] by blast
qed

lemma same_sockets_signals: "es_graph g = es_graph (nsa_signals s) \<Longrightarrow> same_sockets s (s\<lparr>nsa_signals := g\<rparr>)"
  by (simp add: same_sockets_def)

lemma signals_ok_inv:
  assumes inv: "nsa_inv {} E s" and "es_graph g = es_graph (nsa_signals s)"
  shows "nsa_inv {} E (s\<lparr>nsa_signals := g\<rparr>)"
  by (rule same_sockets_inv [OF inv same_sockets_signals [OF assms(2)]])
    (use nsa_inv_agree [OF inv] in \<open>simp add: ops_agree_def\<close>)

lemma live_signals:
  assumes "nsa_inv C E s" and "a \<in> live s"
  shows "read_signal a \<in> dom (nsa_signals s)" "write_signal a \<in> dom (nsa_signals s)" "exception_signal a \<in> dom (nsa_signals s)"
  using assms by (auto simp: nsa_inv_def signals_ok_def)

lemma broadcast_signal_ok:
  assumes inv: "nsa_inv {} E s" and e: "e \<in> dom (nsa_signals s)"
  shows "\<exists>g. broadcast e s = Some (s\<lparr>nsa_signals := g\<rparr>) \<and> nsa_inv {} E (s\<lparr>nsa_signals := g\<rparr>) \<and> same_sockets s (s\<lparr>nsa_signals := g\<rparr>) \<and>
     (\<forall>x. fired_at g x \<longleftrightarrow> fired_at (nsa_signals s) x \<or> (e, x) \<in> (es_parents (nsa_signals s))\<^sup>*)"
proof -
  have "es_ranked sig_rank (nsa_signals s)" using inv by (simp add: nsa_inv_def signals_ok_def)
  from broadcast_ok [OF this e] obtain g where
    g: "es_broadcast es_depth (nsa_signals s) e = Some g" "es_graph g = es_graph (nsa_signals s)"
      "\<forall>x. fired_at g x \<longleftrightarrow> fired_at (nsa_signals s) x \<or> (e, x) \<in> (es_parents (nsa_signals s))\<^sup>*" by blast
  with signals_ok_inv [OF inv g(2)] same_sockets_signals [OF g(2)] show ?thesis by (auto simp: broadcast_def)
qed

lemma clear_signal_ok:
  assumes inv: "nsa_inv {} E s" and e: "e \<in> dom (nsa_signals s)"
  shows "\<exists>g. clear_signal e s = Some (s\<lparr>nsa_signals := g\<rparr>) \<and> nsa_inv {} E (s\<lparr>nsa_signals := g\<rparr>) \<and> same_sockets s (s\<lparr>nsa_signals := g\<rparr>)"
proof -
  from e obtain x where x: "nsa_signals s e = Some x" by blast
  let ?g = "(nsa_signals s)(e \<mapsto> x\<lparr>es_fired := False\<rparr>)"
  have g: "es_graph ?g = es_graph (nsa_signals s)" using x by (auto simp: es_graph_def)
  with signals_ok_inv [OF inv g] same_sockets_signals [OF g] x show ?thesis
    by (intro exI [of _ ?g]) (simp add: clear_signal_def es_has_fired_def)
qed

lemma flow_user:
  assumes inv: "nsa_inv {} E s" and k: "nsa_sockets s a = Some k" "ns_flow k = Some f"
  shows "\<exists>cf. nsa_flows s f = Some cf \<and> \<not> cf_closed cf \<and> cf_operations cf = ns_flow_ops k \<and>
     ops_userData (ns_flow_ops k) = Some a \<and> ops_others (ns_flow_ops k)"
  using assms by (auto simp: nsa_inv_def sockets_ok_def socket_ok_def flow_ok_def)

lemma flow_unique:
  assumes inv: "nsa_inv {} E s" and "nsa_sockets s a = Some k" "ns_flow k = Some f" and "nsa_sockets s b = Some kb" "ns_flow kb = Some f"
  shows "a = b"
  using flow_user [OF inv assms(2,3)] flow_user [OF inv assms(4,5)] by auto

lemma set_operations_ok:
  assumes inv: "nsa_inv {} E s" and k: "nsa_sockets s a = Some k" "ns_flow k = Some f"
    and ops: "core_of (k\<lparr>ns_flow_ops := ops\<rparr>) = core_of k"
      "\<And>cf. ops_userData (ns_flow_ops k) = Some a \<Longrightarrow>
         flow_core (cf\<lparr>cf_operations := ops\<rparr>) = flow_core (cf\<lparr>cf_operations := ns_flow_ops k\<rparr>)"
  shows "\<exists>s'. neat_set_operations f ops (modify_socket a (\<lambda>k. k\<lparr>ns_flow_ops := ops\<rparr>) s) = Some s' \<and>
     nsa_inv {} E s' \<and> same_sockets s s' \<and> nsa_sockets s' = (nsa_sockets s)(a \<mapsto> k\<lparr>ns_flow_ops := ops\<rparr>) \<and>
     nsa_signals s' = nsa_signals s"
proof -
  from flow_user [OF inv k] obtain cf where cf: "nsa_flows s f = Some cf" "\<not> cf_closed cf" "cf_operations cf = ns_flow_ops k"
    "ops_userData (ns_flow_ops k) = Some a" by blast
  define s' where "s' = (modify_socket a (\<lambda>k. k\<lparr>ns_flow_ops := ops\<rparr>) s)\<lparr>nsa_flows := (nsa_flows s)(f \<mapsto> cf\<lparr>cf_operations := ops\<rparr>)\<rparr>"
  have e: "neat_set_operations f ops (modify_socket a (\<lambda>k. k\<lparr>ns_flow_ops := ops\<rparr>) s) = Some s'"
    using cf by (simp add: neat_set_operations_def s'_def)
  have sk: "nsa_sockets s' = (nsa_sockets s)(a \<mapsto> k\<lparr>ns_flow_ops := ops\<rparr>)" using k by (simp add: s'_def)
  have fl: "nsa_flows s' = (nsa_flows s)(f \<mapsto> cf\<lparr>cf_operations := ops\<rparr>)" by (simp add: s'_def)
  have "flow_core (cf\<lparr>cf_operations := ops\<rparr>) = flow_core cf" using ops(2) [OF cf(4), of cf] cf(3) by (cases cf) simp
  then have same: "same_sockets s s'"
    unfolding same_sockets_def sk fl using k ops(1) cf(1) by (simp add: s'_def)
  have "ops_agree s'"
    unfolding ops_agree_def
  proof (intro allI impI)
    fix b kb q cq assume b: "nsa_sockets s' b = Some kb" "ns_flow kb = Some q" "nsa_flows s' q = Some cq"
    show "cf_operations cq = ns_flow_ops kb"
    proof (cases "b = a")
      case True
      with b k fl sk show ?thesis by auto
    next
      case False
      with b sk have b0: "nsa_sockets s b = Some kb" by simp
      with flow_unique [OF inv k b0] b(2) False have "q \<noteq> f" by blast
      with b fl b0 nsa_inv_agree [OF inv] show ?thesis by (simp add: ops_agree_def)
    qed
  qed
  with same_sockets_inv [OF inv same] e same sk show ?thesis by (simp add: s'_def)
qed

lemma set_event_on_read_ok:
  assumes inv: "nsa_inv {} E s" and k: "nsa_sockets s a = Some k" "ns_flow k = Some f"
  shows "\<exists>s'. nsa_set_socket_event_on_read a r s = Some s' \<and> nsa_inv {} E s' \<and> same_sockets s s' \<and>
     nsa_sockets s' = (nsa_sockets s)(a \<mapsto> k\<lparr>ns_flow_ops := (ns_flow_ops k)\<lparr>ops_on_readable := r\<rparr>\<rparr>) \<and> nsa_signals s' = nsa_signals s"
  using set_operations_ok [OF assms, of "(ns_flow_ops k)\<lparr>ops_on_readable := r\<rparr>"] k
  by (simp add: nsa_set_socket_event_on_read_def flow_core_def Let_def)

lemma set_event_on_write_ok:
  assumes inv: "nsa_inv {} E s" and k: "nsa_sockets s a = Some k" "ns_flow k = Some f"
  shows "\<exists>s'. nsa_set_socket_event_on_write a r s = Some s' \<and> nsa_inv {} E s' \<and> same_sockets s s' \<and>
     nsa_sockets s' = (nsa_sockets s)(a \<mapsto> k\<lparr>ns_flow_ops := (ns_flow_ops k)\<lparr>ops_on_writable := r\<rparr>\<rparr>) \<and> nsa_signals s' = nsa_signals s"
  using set_operations_ok [OF assms, of "(ns_flow_ops k)\<lparr>ops_on_writable := r\<rparr>"] k
  by (simp add: nsa_set_socket_event_on_write_def flow_core_def Let_def)


section \<open>Flows and their users\<close>

text \<open>Every flow with callbacks belongs to a live socket that owns the flow.\<close>

definition users_ok :: "'k nsa \<Rightarrow> bool" where
  "users_ok s \<longleftrightarrow> (\<forall>f cf. nsa_flows s f = Some cf \<longrightarrow>
     (case ops_userData (cf_operations cf) of None \<Rightarrow> cf_operations cf = no_ops
        | Some a \<Rightarrow> \<exists>k. nsa_sockets s a = Some k \<and> ns_flow k = Some f))"

definition nsa_ok :: "'k nsa \<Rightarrow> bool" where
  "nsa_ok s \<longleftrightarrow> nsa_inv {} {} s \<and> users_ok s"

lemma users_okD:
  assumes "users_ok s" and "nsa_flows s f = Some cf" and "ops_userData (cf_operations cf) = Some a"
  shows "\<exists>k. nsa_sockets s a = Some k \<and> ns_flow k = Some f"
  using assms unfolding users_ok_def by fastforce

lemma users_ok_no_ops:
  assumes "users_ok s" and "nsa_flows s f = Some cf" and "ops_userData (cf_operations cf) = None"
  shows "cf_operations cf = no_ops"
  using assms unfolding users_ok_def by fastforce

lemma same_sockets_users:
  assumes "users_ok s" and same: "same_sockets s s'"
  shows "users_ok s'"
  unfolding users_ok_def
proof (intro allI impI)
  fix f cf' assume f: "nsa_flows s' f = Some cf'"
  have "map_option flow_core (nsa_flows s f) = Some (flow_core cf')" using same f by (metis same_sockets_def option.simps(9))
  then obtain cf where cf: "nsa_flows s f = Some cf" "flow_core cf = flow_core cf'" by auto
  then have u: "ops_userData (cf_operations cf') = ops_userData (cf_operations cf)"
    by (cases cf; cases cf'; cases "cf_operations cf"; cases "cf_operations cf'") (auto simp: flow_core_def split: if_splits)
  show "case ops_userData (cf_operations cf') of None \<Rightarrow> cf_operations cf' = no_ops
      | Some a \<Rightarrow> \<exists>k. nsa_sockets s' a = Some k \<and> ns_flow k = Some f"
  proof (cases "ops_userData (cf_operations cf)")
    case None
    with cf u have "cf' = cf" by (simp add: flow_core_def)
    with None users_ok_no_ops [OF assms(1) cf(1)] show ?thesis by simp
  next
    case (Some a)
    with users_okD [OF assms(1) cf(1)] obtain k where k: "nsa_sockets s a = Some k" "ns_flow k = Some f" by blast
    from same_sockets_socket [OF same k(1)] k(2) Some u show ?thesis by (auto dest: core_of_eqD)
  qed
qed

lemma nsa_ok_frame: "nsa_ok s \<Longrightarrow> nsa_inv {} {} s' \<Longrightarrow> same_sockets s s' \<Longrightarrow> nsa_ok s'"
  using same_sockets_users unfolding nsa_ok_def by blast

text \<open>An operation that keeps the invariant and the frame.\<close>

definition reports :: "('k nsa \<Rightarrow> 'k nsa option) \<Rightarrow> 'k nsa \<Rightarrow> bool" where
  "reports F s \<longleftrightarrow> (\<exists>s'. F s = Some s' \<and> nsa_inv {} {} s' \<and> same_sockets s s')"

lemma reports_bind:
  assumes "reports F s" and "\<And>s1. nsa_inv {} {} s1 \<Longrightarrow> same_sockets s s1 \<Longrightarrow> reports G s1"
  shows "reports (\<lambda>s. do { s1 \<leftarrow> F s; G s1 }) s"
proof -
  from assms(1) obtain s1 where s1: "F s = Some s1" "nsa_inv {} {} s1" "same_sockets s s1" by (auto simp: reports_def)
  from assms(2) [OF s1(2,3)] obtain s2 where "G s1 = Some s2" "nsa_inv {} {} s2" "same_sockets s1 s2" by (auto simp: reports_def)
  with s1 same_sockets_trans show ?thesis by (fastforce simp: reports_def)
qed

lemma reports_flag: "nsa_inv {} {} s \<Longrightarrow> reports (\<lambda>s. Some (set_flag a x s)) s"
  using set_flag_ok by (auto simp: reports_def)

lemma reports_unflag: "nsa_inv {} {} s \<Longrightarrow> reports (\<lambda>s. Some (clear_flag a x s)) s"
  using clear_flag_ok by (auto simp: reports_def)

lemma reports_broadcast: "nsa_inv {} {} s \<Longrightarrow> e \<in> dom (nsa_signals s) \<Longrightarrow> reports (broadcast e) s"
  using broadcast_signal_ok by (fastforce simp: reports_def)

lemma reports_clear: "nsa_inv {} {} s \<Longrightarrow> e \<in> dom (nsa_signals s) \<Longrightarrow> reports (clear_signal e) s"
  using clear_signal_ok by (fastforce simp: reports_def)

lemma reports_none: "nsa_inv {} {} s \<Longrightarrow> reports Some s"
  by (auto simp: reports_def)

text \<open>The sockets of the frame are still live and still have their flow.\<close>

lemma same_sockets_flow:
  assumes "same_sockets s s'" and "nsa_sockets s a = Some k" "ns_flow k = Some f"
  shows "\<exists>k'. nsa_sockets s' a = Some k' \<and> ns_flow k' = Some f"
  using same_sockets_socket [OF assms(1,2)] assms(3) by (auto dest: core_of_eqD)

lemma reports_event:
  assumes "nsa_inv {} {} s" and "nsa_sockets s a = Some k" "ns_flow k = Some f"
  shows "reports (nsa_set_socket_event_on_read a r) s" "reports (nsa_set_socket_event_on_write a r) s"
  using set_event_on_read_ok [OF assms] set_event_on_write_ok [OF assms] by (auto simp: reports_def)

lemma reports_flag_signal:
  assumes inv: "nsa_inv {} {} s" and a: "a \<in> live s" and e: "e \<in> {read_signal a, write_signal a}"
  shows "reports (\<lambda>s. broadcast e (set_flag a x s)) s"
proof -
  have "reports (\<lambda>s. do { s1 \<leftarrow> Some (set_flag a x s); broadcast e s1 }) s"
  proof (rule reports_bind [OF reports_flag [OF inv]])
    fix s1 assume s1: "nsa_inv {} {} s1" "same_sockets s s1"
    then have "a \<in> live s1" using a same_sockets_live by blast
    with live_signals [OF s1(1)] e have "e \<in> dom (nsa_signals s1)" by blast
    then show "reports (broadcast e) s1" by (rule reports_broadcast [OF s1(1)])
  qed
  then show ?thesis by simp
qed

lemma reports_flag_signal_event:
  assumes inv: "nsa_inv {} {} s" and k: "nsa_sockets s a = Some k" "ns_flow k = Some f"
  shows "reports (\<lambda>s. do { s1 \<leftarrow> broadcast (read_signal a) (set_flag a x s); nsa_set_socket_event_on_read a r s1 }) s"
    and "reports (\<lambda>s. do { s1 \<leftarrow> broadcast (write_signal a) (set_flag a x s); nsa_set_socket_event_on_write a r s1 }) s"
proof -
  have a: "a \<in> live s" using k by blast
  show "reports (\<lambda>s. do { s1 \<leftarrow> broadcast (read_signal a) (set_flag a x s); nsa_set_socket_event_on_read a r s1 }) s"
    by (rule reports_bind [OF reports_flag_signal [OF inv a]])
      (simp, use same_sockets_flow [OF _ k] reports_event(1) in blast)
  show "reports (\<lambda>s. do { s1 \<leftarrow> broadcast (write_signal a) (set_flag a x s); nsa_set_socket_event_on_write a r s1 }) s"
    by (rule reports_bind [OF reports_flag_signal [OF inv a]])
      (simp, use same_sockets_flow [OF _ k] reports_event(2) in blast)
qed

lemmas callback_defs = on_error_callback_def on_readable_callback_def on_writable_callback_def on_all_written_callback_def
  on_network_status_changed_callback_def on_aborted_callback_def on_timeout_callback_def on_send_failure_callback_def
  on_slowdown_callback_def on_rate_hint_callback_def

lemma notice_callback_ok:
  assumes inv: "nsa_inv {} {} s" and k: "nsa_sockets s a = Some k" "ns_flow k = Some f"
  shows "reports (notice_callback n a) s"
proof -
  have "a \<in> live s" using k by blast
  note facts = reports_flag_signal [OF inv this] reports_flag_signal_event [OF inv k] reports_flag [OF inv] reports_none [OF inv]
  show ?thesis
    using facts k by (cases n) (auto simp: notice_callback_def callback_defs reports_def)
qed

lemma core_notify_ok:
  assumes ok: "nsa_ok s"
  shows "\<exists>s'. core_notify x s = Some s' \<and> nsa_ok s' \<and> same_sockets s s'"
proof (cases "nsa_flows s (fst x)")
  case None
  with ok show ?thesis by (simp add: core_notify_def)
next
  case (Some cf)
  have inv: "nsa_inv {} {} s" using ok by (simp add: nsa_ok_def)
  show ?thesis
  proof (cases "notice_enabled (snd x) (cf_operations cf)")
    case True
    have "cf_operations cf \<noteq> no_ops"
      using True by (auto simp: notice_enabled_def no_ops_def split: core_notice.splits)
    then have "ops_userData (cf_operations cf) \<noteq> None"
      using ok Some users_ok_no_ops by (auto simp: nsa_ok_def)
    then obtain a where a: "ops_userData (cf_operations cf) = Some a" by blast
    with ok Some users_okD obtain k where k: "nsa_sockets s a = Some k" "ns_flow k = Some (fst x)"
      unfolding nsa_ok_def by blast
    from notice_callback_ok [OF inv k, of "snd x"] obtain s' where
      "notice_callback (snd x) a s = Some s'" "nsa_inv {} {} s'" "same_sockets s s'" by (auto simp: reports_def)
    with Some True a nsa_ok_frame [OF ok] show ?thesis by (auto simp: core_notify_def)
  next
    case False
    with ok Some show ?thesis by (simp add: core_notify_def)
  qed
qed

lemma core_notify_all_ok:
  assumes "nsa_ok s"
  shows "\<exists>s'. core_notify_all xs s = Some s' \<and> nsa_ok s' \<and> same_sockets s s'"
  using assms
proof (induction xs arbitrary: s)
  case Nil
  then show ?case by simp
next
  case (Cons x xs)
  from core_notify_ok [OF Cons.prems, of x] obtain s1 where
    s1: "core_notify x s = Some s1" "nsa_ok s1" "same_sockets s s1" by blast
  from Cons.IH [OF s1(2)] obtain s2 where "core_notify_all xs s1 = Some s2" "nsa_ok s2" "same_sockets s1 s2" by blast
  with s1 same_sockets_trans show ?case by (auto intro: same_sockets_trans)
qed


section \<open>Accepting a connection\<close>

definition new_flow_ok :: "'k nsa_env \<Rightarrow> bool" where
  "new_flow_ok env \<longleftrightarrow> (\<forall>used w f w'. env_new_flow env used w = (Some f, w') \<longrightarrow> \<not> used f)"

lemma sockets_flows:
  assumes "nsa_inv {} E s" and "nsa_sockets s a = Some k" "ns_flow k = Some f"
  shows "nsa_flows s f \<noteq> None"
  using flow_user [OF assms] by auto

text \<open>A flow that appears is nobody's.\<close>

lemma new_flow_inv:
  assumes inv: "nsa_inv {} {} s" and g: "nsa_flows s g = None" and c: "\<not> cf_closed c"
  shows "nsa_inv {} {} (s\<lparr>nsa_world := w, nsa_flows := (nsa_flows s)(g \<mapsto> c)\<rparr>)"
    and "flow_free (s\<lparr>nsa_world := w, nsa_flows := (nsa_flows s)(g \<mapsto> c)\<rparr>) g"
proof -
  have nobody: "ns_flow k \<noteq> Some g" if "nsa_sockets s a = Some k" for a k
    using sockets_flows [OF inv that, of g] g by blast
  have "nsa_inv {} {} (s\<lparr>nsa_flows := (nsa_flows s)(g \<mapsto> c)\<rparr>)"
    by (rule nsa_inv_flow [OF inv]) (use nobody in blast)
  then show "nsa_inv {} {} (s\<lparr>nsa_world := w, nsa_flows := (nsa_flows s)(g \<mapsto> c)\<rparr>)"
    by (rule nsa_inv_cong) simp_all
  show "flow_free (s\<lparr>nsa_world := w, nsa_flows := (nsa_flows s)(g \<mapsto> c)\<rparr>) g"
    using nobody c by (auto simp: flow_free_def)
qed

text \<open>A socket enters an accept list.\<close>

lemma enqueue_accepted_ok:
  assumes inv: "nsa_inv {} {} s" and a: "nsa_sockets s a = Some ka" "ns_flow ka \<noteq> None"
    and n: "nsa_sockets s n = Some kn" "ns_flow kn \<noteq> None" "ns_acceptor kn = None" and an: "a \<noteq> n"
    and s': "s' = modify_socket a (\<lambda>k. k\<lparr>ns_accept_list := ns_accept_list k @ [n]\<rparr>)
                   (modify_socket n (\<lambda>k. k\<lparr>ns_acceptor := Some a\<rparr>) s)"
  shows "nsa_inv {} {} s'"
proof -
  have sk: "sockets_ok {} {} s" using inv by (simp add: nsa_inv_def)
  have at: "nsa_sockets s' = (nsa_sockets s)(n \<mapsto> kn\<lparr>ns_acceptor := Some a\<rparr>, a \<mapsto> ka\<lparr>ns_accept_list := ns_accept_list ka @ [n]\<rparr>)"
    using a(1) n(1) an by (simp add: s')
  have notin: "n \<notin> set (ns_accept_list k)" if "nsa_sockets s b = Some k" for b k
    using sockets_okD [OF sk that] n by (auto simp: socket_ok_def accept_ok_def)
  have "sockets_ok {} {} s'"
    unfolding sockets_ok_def
  proof (intro allI impI)
    fix b kb assume b: "nsa_sockets s' b = Some kb"
    then obtain k0 where k0: "nsa_sockets s b = Some k0"
      "kb = (if b = a then k0\<lparr>ns_accept_list := ns_accept_list k0 @ [n]\<rparr> else if b = n then k0\<lparr>ns_acceptor := Some a\<rparr> else k0)"
      unfolding at using a n an by (auto split: if_splits)
    note o = sockets_okD [OF sk k0(1)]
    have mem: "\<exists>kx. nsa_sockets s' x = Some kx \<and> ns_acceptor kx = Some b" if "x \<in> set (ns_accept_list kb)" for x
    proof (cases "b = a \<and> x = n")
      case True
      with at an show ?thesis by simp
    next
      case False
      with that k0 have x: "x \<in> set (ns_accept_list k0)" by (auto split: if_splits)
      with o obtain kx where kx: "nsa_sockets s x = Some kx" "ns_acceptor kx = Some b"
        unfolding socket_ok_def accept_ok_def by blast
      then have "x \<noteq> n" using n by auto
      with kx at a show ?thesis by (cases "x = a") auto
    qed
    have dist: "distinct (ns_accept_list kb)" using o k0 notin [OF k0(1)] by (auto simp: socket_ok_def accept_ok_def)
    have up: "\<exists>kp. nsa_sockets s' p = Some kp \<and> b \<in> set (ns_accept_list kp)" if "ns_acceptor kb = Some p" for p
    proof (cases "b = n")
      case True
      with that k0(2) an have "p = a" by auto
      with True at show ?thesis by simp
    next
      case False
      with that k0(2) have "ns_acceptor k0 = Some p" by (auto split: if_splits)
      with o obtain kp where kp: "nsa_sockets s p = Some kp" "b \<in> set (ns_accept_list kp)"
        unfolding socket_ok_def accept_ok_def by blast
      with at a n show ?thesis by (cases "p = a"; cases "p = n") auto
    qed
    have "accept_ok {} {} s' b kb" unfolding accept_ok_def using dist mem up by blast
    moreover have "flow_ok s' b kb" using o k0(2) by (auto simp: socket_ok_def flow_ok_def s')
    moreover have "ns_notifications kb = nq_new" using o k0(2) by (auto simp: socket_ok_def)
    moreover have "ns_flow kb \<noteq> None" if "b = a \<or> b = n" using that k0 a n by auto
    moreover have "kb = k0" if "b \<noteq> a" "b \<noteq> n" using that k0(2) by simp
    ultimately show "socket_ok {} {} s' b kb"
      using o unfolding socket_ok_def by (cases "b = a \<or> b = n") auto
  qed
  then show ?thesis
    by (rule nsa_inv_sockets [OF inv, rotated -1]) (auto simp: s' a(1) n(1))
qed

text \<open>The socket that a creation for a flow produces owns the flow.\<close>

lemma create_users:
  assumes users: "users_ok s" and new: "nsa_sockets s n = None"
    and s': "nsa_sockets s' = (nsa_sockets s)(n \<mapsto> k)" "ns_flow k = Some g" "dom (nsa_flows s') = insert g (dom (nsa_flows s))"
      "\<And>q. q \<noteq> g \<Longrightarrow> nsa_flows s' q = nsa_flows s q"
      "\<And>cf. nsa_flows s' g = Some cf \<Longrightarrow> ops_userData (cf_operations cf) = Some n"
  shows "users_ok s'"
  unfolding users_ok_def
proof (intro allI impI)
  fix q cf assume q: "nsa_flows s' q = Some cf"
  show "case ops_userData (cf_operations cf) of None \<Rightarrow> cf_operations cf = no_ops
      | Some a \<Rightarrow> \<exists>k. nsa_sockets s' a = Some k \<and> ns_flow k = Some q"
  proof (cases "q = g")
    case True
    with q s' show ?thesis by simp
  next
    case False
    with q s'(4) have old: "nsa_flows s q = Some cf" by simp
    show ?thesis
    proof (cases "ops_userData (cf_operations cf)")
      case None
      with users_ok_no_ops [OF users old] show ?thesis by simp
    next
      case (Some a)
      with users_okD [OF users old] new s'(1) show ?thesis by auto
    qed
  qed
qed

lemma users_ok_sockets:
  assumes users: "users_ok s" and "nsa_flows s' = nsa_flows s"
    and keep: "\<And>x k. nsa_sockets s x = Some k \<Longrightarrow> \<exists>k'. nsa_sockets s' x = Some k' \<and> ns_flow k' = ns_flow k"
  shows "users_ok s'"
  unfolding users_ok_def
proof (intro allI impI)
  fix q cf assume "nsa_flows s' q = Some cf"
  then have q: "nsa_flows s q = Some cf" using assms(2) by simp
  show "case ops_userData (cf_operations cf) of None \<Rightarrow> cf_operations cf = no_ops
      | Some a \<Rightarrow> \<exists>k. nsa_sockets s' a = Some k \<and> ns_flow k = Some q"
  proof (cases "ops_userData (cf_operations cf)")
    case None
    with users_ok_no_ops [OF users q] show ?thesis by simp
  next
    case (Some a)
    from users_okD [OF users q Some] keep obtain k' where "nsa_sockets s' a = Some k'" "ns_flow k' = Some q" by metis
    with Some show ?thesis by simp
  qed
qed

lemma listening_socket:
  assumes ok: "nsa_ok s" and a: "nsa_sockets s a = Some ka" "ns_flow ka = Some f"
  shows "\<exists>cf. nsa_flows s f = Some cf \<and> ops_userData (cf_operations cf) = Some a \<and> ops_others (cf_operations cf)"
  using flow_user [of "{}" s, OF _ a] ok by (auto simp: nsa_ok_def)

lemma core_accept_full:
  assumes ok: "nsa_ok s" and env: "calloc_ok env" and a: "nsa_sockets s a = Some ka" "ns_flow ka = Some f"
    and l: "ns_flags ka AND NSAF_LISTENING \<noteq> 0" and full: "{0..<1024} \<subseteq> descriptors s"
    and g: "env_new_flow env (\<lambda>f. nsa_flows s f \<noteq> None) (nsa_world s) = (Some g, w)" "nsa_flows s g = None"
    and mem: "\<And>w. fst (env_calloc env (\<lambda>a. nsa_sockets s a \<noteq> None) w) \<noteq> None"
  shows "core_accept env f s = None"
proof -
  have inv: "nsa_inv {} {} s" using ok by (simp add: nsa_ok_def)
  from listening_socket [OF ok a] obtain cf where cf: "nsa_flows s f = Some cf"
    "ops_userData (cf_operations cf) = Some a" "ops_others (cf_operations cf)" by blast
  let ?c = "\<lparr>cf_operations = cf_operations cf, cf_closed = False\<rparr>"
  define s1 where "s1 = s\<lparr>nsa_world := w, nsa_flows := (nsa_flows s)(g \<mapsto> ?c)\<rparr>"
  have inv1: "nsa_inv {} {} s1" and free: "flow_free s1 g" unfolding s1_def by (rule new_flow_inv [OF inv g(2)], simp)+
  have lv: "nsa_sockets s1 = nsa_sockets s" "descriptor_of s1 = descriptor_of s" by (simp_all add: s1_def descriptor_of_def fun_eq_iff)
  have nogo: "\<not> gets_descriptor (- 1) (descriptors s) d" for d
    unfolding gets_descriptor_def using full by (auto simp: subset_iff)
  from create_flow_socket [OF inv1 env free, of 0 0 0 0] nogo obtain s2 where
    s2: "nsa_socket_internal env 0 0 0 0 (Some g) (- 1) s1 = Some (- 1, s2)" "nsa_sockets s2 = nsa_sockets s"
      "fst (env_calloc env (\<lambda>a. nsa_sockets s a \<noteq> None) (nsa_world s1)) = None \<or>
       (\<exists>n cf. nsa_sockets s n = None \<and> nsa_flows s2 g = Some cf \<and> cf_operations cf = socket_ops n \<and> \<not> cf_closed cf)"
    unfolding lv by blast
  from s2(3) mem [of "nsa_world s1"] obtain n cg where n: "nsa_sockets s n = None" "nsa_flows s2 g = Some cg" "cf_operations cg = socket_ops n"
    "\<not> cf_closed cg" by (elim disjE exE conjE) simp_all
  obtain m where m: "close_depth (s2\<lparr>nsa_world := env_linger env g (nsa_world s2)\<rparr>) = Suc m"
    by (cases "close_depth (s2\<lparr>nsa_world := env_linger env g (nsa_world s2)\<rparr>)") (simp_all add: close_depth_def)
  have "neat_abort env g s2 = None"
    using n s2(2) lv(1) by (simp add: neat_abort_def neat_close_def m socket_ops_def wake_all_def c_assert_def)
  then have "on_connected_callback env a g s1 = None"
    using s2(1) a l lv(1) by (simp add: on_connected_callback_def)
  with cf g show ?thesis by (simp add: core_accept_def s1_def)
qed

lemma modify_socket_flows: "(modify_socket n F s)\<lparr>nsa_flows := nsa_flows s\<rparr> = modify_socket n F s"
  by (cases s) (simp add: modify_socket_def)

lemma core_accept_ok:
  assumes ok: "nsa_ok s" and env: "calloc_ok env" and a: "nsa_sockets s a = Some ka" "ns_flow ka = Some f"
    and l: "ns_flags ka AND NSAF_LISTENING \<noteq> 0" and room: "\<not> {0..<1024} \<subseteq> descriptors s"
    and g: "env_new_flow env (\<lambda>f. nsa_flows s f \<noteq> None) (nsa_world s) = (Some g, w)" "nsa_flows s g = None"
    and mem: "\<And>w. fst (env_calloc env (\<lambda>a. nsa_sockets s a \<noteq> None) w) \<noteq> None"
  shows "\<exists>s' n d kn. core_accept env f s = Some s' \<and> nsa_ok s' \<and> nsa_sockets s n = None \<and> gets_descriptor (- 1) (descriptors s) d \<and>
     nsa_sockets s' = (nsa_sockets s)(n \<mapsto> kn, a \<mapsto> ka\<lparr>ns_accept_list := ns_accept_list ka @ [n]\<rparr>) \<and>
     ns_descriptor kn = d \<and> ns_flow kn = Some g \<and> ns_acceptor kn = Some a \<and> fired_at (nsa_signals s') (read_signal a)"
proof -
  have inv: "nsa_inv {} {} s" and users: "users_ok s" using ok by (auto simp: nsa_ok_def)
  from listening_socket [OF ok a] obtain cf where cf: "nsa_flows s f = Some cf"
    "ops_userData (cf_operations cf) = Some a" "ops_others (cf_operations cf)" by blast
  let ?c = "\<lparr>cf_operations = cf_operations cf, cf_closed = False\<rparr>"
  define s1 where "s1 = s\<lparr>nsa_world := w, nsa_flows := (nsa_flows s)(g \<mapsto> ?c)\<rparr>"
  have inv1: "nsa_inv {} {} s1" and free: "flow_free s1 g" unfolding s1_def by (rule new_flow_inv [OF inv g(2)], simp)+
  have lv: "nsa_sockets s1 = nsa_sockets s" "descriptor_of s1 = descriptor_of s" by (simp_all add: s1_def descriptor_of_def fun_eq_iff)
  from create_flow_socket [OF inv1 env free, of 0 0 0 0] room mem [of "nsa_world s1"] obtain d s2 n kn where
    s2: "nsa_socket_internal env 0 0 0 0 (Some g) (- 1) s1 = Some (d, s2)" "nsa_inv {} {} s2" "gets_descriptor (- 1) (descriptors s) d"
      "nsa_sockets s n = None" "nsa_sockets s2 = (nsa_sockets s)(n \<mapsto> kn)" "created 0 0 0 (Some g) n d kn"
      "dom (nsa_flows s2) = dom (nsa_flows s1)" "\<forall>q. q \<noteq> g \<longrightarrow> nsa_flows s2 q = nsa_flows s1 q"
    unfolding lv by blast
  have kn: "ns_descriptor kn = d" "ns_flow kn = Some g" "ns_acceptor kn = None" "ns_accept_list kn = []" "ns_flow_ops kn = socket_ops n"
    using s2(6) by (auto simp: created_def)
  have an: "a \<noteq> n" using a s2(4) by auto
  have n2: "nsa_sockets s2 n = Some kn" "nsa_sockets s2 a = Some ka" using s2(5) an a by auto
  from flow_user [OF s2(2) n2(1) kn(2)] kn(5) obtain cg where cg: "nsa_flows s2 g = Some cg" "cf_operations cg = socket_ops n" by auto
  have "nsa_get_socket_for_descriptor (descriptor_of s2 n) s2 = Some (Some n)"
    by (rule lookup_some [of "{}"]) (use s2(2) n2 in \<open>auto simp: nsa_inv_def\<close>)
  then have lk: "nsa_get_socket_for_descriptor d s2 = Some (Some n)" using n2 kn(1) by (simp add: descriptor_of_def)
  define s4 where "s4 = modify_socket a (\<lambda>k. k\<lparr>ns_accept_list := ns_accept_list k @ [n]\<rparr>)
                   (modify_socket n (\<lambda>k. k\<lparr>ns_acceptor := Some a\<rparr>) s2)"
  have inv4: "nsa_inv {} {} s4"
    by (rule enqueue_accepted_ok [OF s2(2) n2(2) _ n2(1) _ kn(3) an s4_def]) (simp_all add: a kn)
  have sk4: "nsa_sockets s4 = (nsa_sockets s)(n \<mapsto> kn\<lparr>ns_acceptor := Some a\<rparr>, a \<mapsto> ka\<lparr>ns_accept_list := ns_accept_list ka @ [n]\<rparr>)"
    using s2(5) an a by (simp add: s4_def)
  have "cg\<lparr>cf_operations := socket_ops n\<rparr> = cg" using cg(2) by (cases cg) simp
  then have same_flows: "(nsa_flows s2)(g \<mapsto> cg\<lparr>cf_operations := socket_ops n\<rparr>) = nsa_flows s2" using cg by (simp add: fun_upd_idem)
  have "users_ok s2"
    by (rule create_users [OF users s2(4,5) kn(2)])
      (use s2(7,8) cg in \<open>auto simp: s1_def socket_ops_def\<close>)
  then have users4: "users_ok s4"
    by (rule users_ok_sockets) (use n2 in \<open>auto simp: s4_def\<close>)
  have "read_signal a \<in> dom (nsa_signals s4)" using live_signals(1) [OF inv4, of a] sk4 by simp
  from broadcast_signal_ok [OF inv4 this] obtain gg where
    gg: "broadcast (read_signal a) s4 = Some (s4\<lparr>nsa_signals := gg\<rparr>)" "nsa_inv {} {} (s4\<lparr>nsa_signals := gg\<rparr>)"
      "same_sockets s4 (s4\<lparr>nsa_signals := gg\<rparr>)" "fired_at gg (read_signal a)" by blast
  have "d \<ge> 0" using s2(3) by (simp add: gets_descriptor_def)
  then have "on_connected_callback env a g s1 = Some (NEAT_OK, s4\<lparr>nsa_signals := gg\<rparr>)"
    using a l lv(1) s2(1) lk n2 kn(2,5) cg gg(1) same_flows
    by (simp add: on_connected_callback_def neat_set_operations_def s4_def modify_socket_flows)
  then have "core_accept env f s = Some (s4\<lparr>nsa_signals := gg\<rparr>)" using cf g by (simp add: core_accept_def s1_def)
  moreover have "nsa_ok (s4\<lparr>nsa_signals := gg\<rparr>)"
    using inv4 users4 nsa_ok_frame [OF _ gg(2,3)] by (simp add: nsa_ok_def)
  ultimately show ?thesis using s2(3,4) sk4 kn gg(4)
    by (intro exI [of _ "s4\<lparr>nsa_signals := gg\<rparr>"] exI [of _ n] exI [of _ d] exI [of _ "kn\<lparr>ns_acceptor := Some a\<rparr>"]) simp
qed

end
