(* ===== verification/Socket_Poll.thy ===== *)
theory Socket_Poll
  imports Socket_Events
begin

text \<open>
  \<open>neat-socketapi-poll.c\<close> and \<open>nsa_wait_for_event\<close>: waiting for events of several sockets. \<open>nsa_poll\<close>
  registers the four signals of a \<open>struct poll_storage\<close> on its stack as parents of the signals of the
  sockets, waits for the global one, and takes them out again. The theorems show that no socket keeps
  a pointer into the stack frame after the return, whatever other threads do during the wait, and that
  the returned events are those of the sockets.

  The thread is identified with its poll storage \<open>p\<close>. The list nodes of \<open>es_add_parent\<close> are allocated
  (the code asserts it).
\<close>

section \<open>nsa_poll\<close>

definition POLLIN :: u16 where "POLLIN = 1"
definition POLLOUT :: u16 where "POLLOUT = 4"
definition POLLERR :: u16 where "POLLERR = 8"
definition POLLHUP :: u16 where "POLLHUP = 16"
definition POLLNVAL :: u16 where "POLLNVAL = 32"

record pollfd =
  pfd_fd :: int
  pfd_events :: u16
  pfd_revents :: u16

definition add_parent :: "sig_ptr \<Rightarrow> sig_ptr \<Rightarrow> 'k nsa \<Rightarrow> 'k nsa option" where
  "add_parent e q s = do { g \<leftarrow> es_add_parent es_depth True (nsa_signals s) e (Some q); Some (s\<lparr>nsa_signals := g\<rparr>) }"

definition remove_parent :: "sig_ptr \<Rightarrow> sig_ptr \<Rightarrow> 'k nsa \<Rightarrow> 'k nsa option" where
  "remove_parent e q s = do { g \<leftarrow> es_remove_parent (nsa_signals s) e (Some q); Some (s\<lparr>nsa_signals := g\<rparr>) }"

text \<open>The construction and the destruction of the poll storage.\<close>

definition poll_storage_new :: "nat \<Rightarrow> 'k nsa \<Rightarrow> 'k nsa option" where
  "poll_storage_new p s = do {
     g1 \<leftarrow> es_new es_depth True (nsa_signals s) (ps_global_signal p) None;
     g2 \<leftarrow> es_new es_depth True g1 (ps_read_signal p) (Some (ps_global_signal p));
     g3 \<leftarrow> es_new es_depth True g2 (ps_write_signal p) (Some (ps_global_signal p));
     g4 \<leftarrow> es_new es_depth True g3 (ps_exception_signal p) (Some (ps_global_signal p));
     Some (s\<lparr>nsa_signals := g4\<rparr>) }"

definition poll_storage_delete :: "nat \<Rightarrow> 'k nsa \<Rightarrow> 'k nsa option" where
  "poll_storage_delete p s = do {
     g1 \<leftarrow> es_delete (nsa_signals s) (ps_read_signal p);
     g2 \<leftarrow> es_delete g1 (ps_write_signal p);
     g3 \<leftarrow> es_delete g2 (ps_exception_signal p);
     g4 \<leftarrow> es_delete g3 (ps_global_signal p);
     Some (s\<lparr>nsa_signals := g4\<rparr>) }"

text \<open>The first loop. A system socket ends in \<open>abort()\<close>.\<close>

fun poll_collect :: "nat \<Rightarrow> pollfd list \<Rightarrow> int \<Rightarrow> 'k nsa \<Rightarrow> (int \<times> 'k nsa) option" where
  "poll_collect p [] result s = Some (result, s)"
| "poll_collect p (u # us) result s = do {
     x \<leftarrow> nsa_get_socket_for_descriptor (pfd_fd u) s;
     case x of
       None \<Rightarrow> poll_collect p us (- 1) (s\<lparr>nsa_errno := E_BADF\<rparr>)
     | Some a \<Rightarrow> do {
         k \<leftarrow> nsa_sockets s a;
         c_assert (ns_flow k \<noteq> None);
         s1 \<leftarrow> (if pfd_events u AND POLLIN \<noteq> 0 then add_parent (read_signal a) (ps_read_signal p) s else Some s);
         let r1 = (if pfd_events u AND POLLIN \<noteq> 0 \<and> ns_flags k AND (NSAF_READABLE OR NSAF_BAD) \<noteq> 0
                   then result + 1 else result);
         s2 \<leftarrow> (if pfd_events u AND POLLOUT \<noteq> 0 then add_parent (write_signal a) (ps_write_signal p) s1 else Some s1);
         let r2 = (if pfd_events u AND POLLOUT \<noteq> 0 \<and> ns_flags k AND NSAF_WRITABLE \<noteq> 0 then r1 + 1 else r1);
         s3 \<leftarrow> add_parent (exception_signal a) (ps_exception_signal p) s2;
         poll_collect p us r2 s3 } }"

text \<open>The wait: the thread enters the queue of the signal, the others run, the thread leaves the queue.\<close>

definition thread_wait :: "'k nsa_env \<Rightarrow> nat \<Rightarrow> (int \<times> int) option \<Rightarrow> sig_ptr \<Rightarrow> 'k nsa \<Rightarrow> 'k nsa" where
  "thread_wait env p deadline e s =
     (let s1 = env_others env p deadline (s\<lparr>nsa_signals :=
                 (nsa_signals s)(e := map_option (\<lambda>x. x\<lparr>es_condition := es_condition x @ [p]\<rparr>) (nsa_signals s e))\<rparr>)
      in s1\<lparr>nsa_signals := (nsa_signals s1)(e := map_option (\<lambda>x. x\<lparr>es_condition := remove1 p (es_condition x)\<rparr>) (nsa_signals s1 e))\<rparr>)"

definition nsa_timed_wait :: "'k nsa_env \<Rightarrow> nat \<Rightarrow> sig_ptr \<Rightarrow> int \<Rightarrow> 'k nsa \<Rightarrow> (bool \<times> 'k nsa) option" where
  "nsa_timed_wait env p e microseconds s = do {
     x \<leftarrow> nsa_signals s e;
     let s1 = (if es_fired x \<or> microseconds = 0 then s
               else thread_wait env p (if microseconds > 0
                      then Some (es_deadline (fst (env_now env (nsa_world s))) (snd (env_now env (nsa_world s))) microseconds)
                      else None) e s);
     x1 \<leftarrow> nsa_signals s1 e;
     Some (es_fired x1, s1\<lparr>nsa_signals := (nsa_signals s1)(e \<mapsto> x1\<lparr>es_fired := False\<rparr>)\<rparr>) }"

text \<open>The events of a flow socket.\<close>

definition socket_events :: "neat_socket \<Rightarrow> u16 \<Rightarrow> u16" where
  "socket_events k events =
     (if events AND POLLIN \<noteq> 0 \<and> (ns_flags k AND (NSAF_READABLE OR NSAF_BAD) \<noteq> 0 \<or> nq_has_data (ns_notifications k) \<or>
                                   ns_accept_list k \<noteq> []) then POLLIN else 0) OR
     (if events AND POLLOUT \<noteq> 0 \<and> ns_flags k AND NSAF_WRITABLE \<noteq> 0 then POLLOUT else 0) OR
     (if ns_flags k AND NSAF_BAD \<noteq> 0 then POLLERR else 0)"

text \<open>The second loop; it counts the entries with events.\<close>

fun poll_results :: "nat \<Rightarrow> pollfd list \<Rightarrow> 'k nsa \<Rightarrow> (int \<times> pollfd list \<times> 'k nsa) option" where
  "poll_results p [] s = Some (0, [], s)"
| "poll_results p (u # us) s = do {
     x \<leftarrow> nsa_get_socket_for_descriptor (pfd_fd u) s;
     (v, s3) \<leftarrow> (case x of
         None \<Rightarrow> Some (POLLNVAL, s)
       | Some a \<Rightarrow> do {
           k \<leftarrow> nsa_sockets s a;
           c_assert (ns_flow k \<noteq> None);
           s1 \<leftarrow> remove_parent (exception_signal a) (ps_exception_signal p) s;
           s2 \<leftarrow> (if pfd_events u AND POLLOUT \<noteq> 0 then remove_parent (write_signal a) (ps_write_signal p) s1 else Some s1);
           s3 \<leftarrow> (if pfd_events u AND POLLIN \<noteq> 0 then remove_parent (read_signal a) (ps_read_signal p) s2 else Some s2);
           Some (socket_events k (pfd_events u), s3) });
     (n, vs, s4) \<leftarrow> poll_results p us s3;
     Some (if v \<noteq> 0 then n + 1 else n, u\<lparr>pfd_revents := v\<rparr> # vs, s4) }"

definition nsa_poll :: "'k nsa_env \<Rightarrow> nat \<Rightarrow> pollfd list \<Rightarrow> int \<Rightarrow> 'k nsa \<Rightarrow> (int \<times> pollfd list \<times> 'k nsa) option" where
  "nsa_poll env p ufds timeout s = do {
     s1 \<leftarrow> poll_storage_new p s;
     (pending, s2) \<leftarrow> poll_collect p ufds 0 s1;
     s3 \<leftarrow> (if pending = 0
           then do { (_, s') \<leftarrow> nsa_timed_wait env p (ps_global_signal p) (1000 * timeout) s2; Some s' }
           else Some s2);
     (result, vs, s4) \<leftarrow> poll_results p ufds s3;
     s5 \<leftarrow> poll_storage_delete p s4;
     Some (result, vs, s5) }"

section \<open>nsa_select and nsa_wait_for_event\<close>

text \<open>One entry of the \<open>pollfd\<close> array of \<open>nsa_select\<close>.\<close>

definition select_entry :: "int set option \<Rightarrow> int set option \<Rightarrow> int set option \<Rightarrow> int \<Rightarrow> pollfd" where
  "select_entry readfds writefds exceptfds i =
     (let is_set = (\<lambda>fds. case fds of None \<Rightarrow> False | Some S \<Rightarrow> i \<in> S)
      in \<lparr>pfd_fd = i, pfd_events = (if is_set readfds then POLLIN else 0) OR (if is_set writefds then POLLOUT else 0) OR
            (if is_set exceptfds then NOT (POLLIN OR POLLOUT) else 0), pfd_revents = 0\<rparr>)"

definition select_fds :: "int \<Rightarrow> int set option \<Rightarrow> int set option \<Rightarrow> int set option \<Rightarrow> pollfd list" where
  "select_fds n readfds writefds exceptfds =
     filter (\<lambda>u. pfd_events u \<noteq> 0) (map (select_entry readfds writefds exceptfds) (map int [0..<nat n]))"

text \<open>The waiting time in milliseconds; the division of C rounds towards zero.\<close>

definition select_timeout :: "int \<Rightarrow> int \<Rightarrow> int" where
  "select_timeout tv_sec tv_usec =
     to_int32 (1000 * tv_sec + to_int32 (if tv_usec + 999 < 0 then - ((- (tv_usec + 999)) div 1000) else (tv_usec + 999) div 1000))"

definition clear_unless :: "u16 \<Rightarrow> pollfd list \<Rightarrow> int set option \<Rightarrow> int set option" where
  "clear_unless wanted us fds = map_option (\<lambda>S. S - pfd_fd ` set (filter (\<lambda>u. pfd_revents u AND wanted = 0) us)) fds"

definition nsa_select ::
  "'k nsa_env \<Rightarrow> nat \<Rightarrow> int \<Rightarrow> int set option \<Rightarrow> int set option \<Rightarrow> int set option \<Rightarrow> (int \<times> int) option \<Rightarrow> 'k nsa \<Rightarrow>
   (int \<times> int set option \<times> int set option \<times> int set option \<times> 'k nsa) option" where
  "nsa_select env p n readfds writefds exceptfds timeout s =
     (if n > 1024 then Some (- 1, readfds, writefds, exceptfds, s\<lparr>nsa_errno := E_INVAL\<rparr>)
      else do {
        (tv_sec, tv_usec) \<leftarrow> timeout;
        (result, us, s1) \<leftarrow> nsa_poll env p (select_fds n readfds writefds exceptfds) (select_timeout tv_sec tv_usec) s;
        if result > 0
        then Some (result, clear_unless POLLIN us readfds, clear_unless POLLOUT us writefds,
                   clear_unless (POLLIN OR POLLHUP OR POLLNVAL) us exceptfds, s1)
        else Some (result, readfds, writefds, exceptfds, s1) })"

definition nsa_wait_for_event :: "'k nsa_env \<Rightarrow> nat \<Rightarrow> nat \<Rightarrow> u16 \<Rightarrow> int \<Rightarrow> 'k nsa \<Rightarrow> (u16 \<times> 'k nsa) option" where
  "nsa_wait_for_event env p a eventMask timeout s = do {
     k \<leftarrow> nsa_sockets s a;
     (result, us, s1) \<leftarrow> nsa_poll env p [\<lparr>pfd_fd = ns_descriptor k, pfd_events = eventMask, pfd_revents = 0\<rparr>] timeout s;
     u \<leftarrow> (case us of [u] \<Rightarrow> Some u | _ \<Rightarrow> None);
     Some (if result > 0 \<and> pfd_revents u AND eventMask \<noteq> 0 then pfd_revents u else 0, s1) }"

section \<open>Parent lists\<close>

definition ps_signals :: "nat \<Rightarrow> sig_ptr set" where
  "ps_signals p = {ps_global_signal p, ps_read_signal p, ps_write_signal p, ps_exception_signal p}"

definition add_to :: "sig_ptr \<Rightarrow> sig_ptr \<Rightarrow> (sig_ptr \<rightharpoonup> sig_ptr list) \<Rightarrow> sig_ptr \<rightharpoonup> sig_ptr list" where
  "add_to e q G = G(e := map_option (\<lambda>ps. ps @ [q]) (G e))"

definition take_from :: "sig_ptr \<Rightarrow> sig_ptr \<Rightarrow> (sig_ptr \<rightharpoonup> sig_ptr list) \<Rightarrow> sig_ptr \<rightharpoonup> sig_ptr list" where
  "take_from e q G = G(e := map_option (remove1 q) (G e))"

text \<open>The parents of a signal that lie in the poll storage \<open>p\<close>.\<close>

definition mine :: "nat \<Rightarrow> (sig_ptr \<rightharpoonup> sig_ptr list) \<Rightarrow> sig_ptr \<Rightarrow> sig_ptr list" where
  "mine p G e = (case G e of None \<Rightarrow> [] | Some ps \<Rightarrow> filter (\<lambda>q. q \<in> ps_signals p) ps)"

lemma mine_add:
  "q \<in> ps_signals p \<Longrightarrow> G e \<noteq> None \<Longrightarrow> mine p (add_to e q G) x = (if x = e then mine p G x @ [q] else mine p G x)"
  by (auto simp: mine_def add_to_def split: option.splits)

lemma filter_remove1_in: "P q \<Longrightarrow> filter P (remove1 q xs) = remove1 q (filter P xs)"
  by (induction xs) auto

lemma mine_take:
  "q \<in> ps_signals p \<Longrightarrow> mine p (take_from e q G) x = (if x = e then remove1 q (mine p G x) else mine p G x)"
  by (auto simp: mine_def take_from_def filter_remove1_in split: option.splits)

lemma ps_ranks [simp]:
  "sig_rank (ps_global_signal p) = 0" "sig_rank (ps_read_signal p) = 1" "sig_rank (ps_write_signal p) = 1"
  "sig_rank (ps_exception_signal p) = 1"
  by (simp_all add: sig_rank_def ps_global_signal_def ps_read_signal_def ps_write_signal_def ps_exception_signal_def mod_add_left_eq [symmetric])

lemma dom_add_to [simp]: "dom (add_to e q G) = dom G"
  by (auto simp: add_to_def)

lemma dom_take_from [simp]: "dom (take_from e q G) = dom G"
  by (auto simp: take_from_def)

section \<open>States that differ in the signals\<close>

definition sig_change :: "'k nsa \<Rightarrow> 'k nsa \<Rightarrow> bool" where
  "sig_change s s' \<longleftrightarrow> s' = s\<lparr>nsa_signals := nsa_signals s', nsa_errno := nsa_errno s'\<rparr>"

lemma sig_change_refl [simp]: "sig_change s s"
  by (simp add: sig_change_def)

lemma sig_changeD:
  assumes "sig_change s s'"
  shows "nsa_sockets s' = nsa_sockets s" "nsi_socket_set s' = nsi_socket_set s" "nsa_flows s' = nsa_flows s"
    "nsi_socket_identifier_bitmap s' = nsi_socket_identifier_bitmap s" "nsa_world s' = nsa_world s" "nsa_wakeups s' = nsa_wakeups s"
    "descriptor_of s' = descriptor_of s" "nsa_queues s' = nsa_queues s"
proof -
  have e: "s' = s\<lparr>nsa_signals := nsa_signals s', nsa_errno := nsa_errno s'\<rparr>" using assms by (simp add: sig_change_def)
  show "nsa_sockets s' = nsa_sockets s" by (subst e) simp
  show "nsi_socket_set s' = nsi_socket_set s" by (subst e) simp
  show "nsa_flows s' = nsa_flows s" by (subst e) simp
  show "nsi_socket_identifier_bitmap s' = nsi_socket_identifier_bitmap s" by (subst e) simp
  show "nsa_world s' = nsa_world s" by (subst e) simp
  show "nsa_wakeups s' = nsa_wakeups s" by (subst e) simp
  show "descriptor_of s' = descriptor_of s" by (subst e) simp
  show "nsa_queues s' = nsa_queues s" by (subst e) simp
qed

lemma sig_change_trans: "sig_change s s1 \<Longrightarrow> sig_change s1 s2 \<Longrightarrow> sig_change s s2"
  by (cases s; cases s1; cases s2) (simp add: sig_change_def)

lemma sig_change_signals [simp]: "sig_change s (s\<lparr>nsa_signals := g\<rparr>)"
  by (simp add: sig_change_def)

lemma sig_change_errno [simp]: "sig_change s (s\<lparr>nsa_errno := e\<rparr>)"
  by (simp add: sig_change_def)

lemma sig_change_lookup: "sig_change s s' \<Longrightarrow> nsa_get_socket_for_descriptor d s' = nsa_get_socket_for_descriptor d s"
  by (simp add: nsa_get_socket_for_descriptor_def sig_changeD)

text \<open>The invariant depends on the signals only by their ranks and domain.\<close>

lemma nsa_ok_signals:
  assumes ok: "nsa_ok s" and ch: "sig_change s s'" and r: "es_ranked sig_rank (nsa_signals s')"
    and t: "signals_tidy (live s) (nsa_signals s')"
    and d: "\<And>a. a \<in> live s \<Longrightarrow> {read_signal a, write_signal a, exception_signal a} \<subseteq> dom (nsa_signals s')"
  shows "nsa_ok s'"
proof -
  note e = sig_changeD [OF ch]
  have "nsa_inv {} {} s'"
    using ok r t d by (simp add: nsa_ok_def nsa_inv_def table_ok_def ids_ok_def signals_ok_def sockets_ok_def socket_ok_def
        flow_ok_def accept_ok_def e)
  moreover have "users_ok s'" by (rule users_ok_sockets [of s]) (use ok in \<open>auto simp: nsa_ok_def e\<close>)
  ultimately show ?thesis by (simp add: nsa_ok_def)
qed

lemma nsa_ok_ranked: "nsa_ok s \<Longrightarrow> es_ranked sig_rank (nsa_signals s)"
  by (simp add: nsa_ok_def nsa_inv_def signals_ok_def)

lemma nsa_ok_tidy: "nsa_ok s \<Longrightarrow> signals_tidy (live s) (nsa_signals s)"
  by (simp add: nsa_ok_def nsa_inv_def signals_ok_def)

lemma signals_tidy_parents:
  assumes "signals_tidy L g" and "dom (es_graph g') = dom (es_graph g)" and "\<And>x. x \<noteq> e \<Longrightarrow> es_graph g' x = es_graph g x" and "e mod 8 < 4"
  shows "signals_tidy L g'"
  unfolding signals_tidy_def
proof (intro allI impI)
  fix x ps assume x: "es_graph g' x = Some ps"
  show "if x mod 8 < 4 then \<exists>a \<in> L. x \<in> socket_signals a else set ps \<subseteq> {ps_global_signal (x div 8)}"
  proof (cases "x = e")
    case True
    obtain qs where "es_graph g x = Some qs" using x assms(2) by blast
    with assms(1,4) True show ?thesis unfolding signals_tidy_def by auto
  next
    case False
    with x assms(1,3) show ?thesis unfolding signals_tidy_def by auto
  qed
qed

lemma nsa_ok_live_signals: "nsa_ok s \<Longrightarrow> a \<in> live s \<Longrightarrow> {read_signal a, write_signal a, exception_signal a} \<subseteq> dom (nsa_signals s)"
  by (auto simp: nsa_ok_def nsa_inv_def signals_ok_def)

lemma es_ranked_add:
  assumes "es_ranked r st" and "es_graph st' = add_to e q (es_graph st)" and "q \<in> dom st" and "r q < r e"
  shows "es_ranked r st'"
  unfolding es_ranked_def
proof (clarify)
  fix x y assume "(x, y) \<in> es_parents st'"
  then have xy: "(x, y) \<in> es_parents st \<or> x = e \<and> y = q"
    unfolding es_parents_graph assms(2) by (auto simp: add_to_def split: if_splits)
  have "dom st' = dom st" unfolding dom_es_graph [of st'] dom_es_graph [of st] assms(2) by simp
  with xy assms(1,3,4) show "y \<in> dom st' \<and> r y < r x" by (auto simp: es_ranked_def)
qed

lemma es_ranked_take:
  assumes "es_ranked r st" and "es_graph st' = take_from e q (es_graph st)"
  shows "es_ranked r st'"
  unfolding es_ranked_def
proof (clarify)
  fix x y assume "(x, y) \<in> es_parents st'"
  then have xy: "(x, y) \<in> es_parents st"
    unfolding es_parents_graph assms(2) using set_remove1_subset by (fastforce simp: take_from_def split: if_splits)
  have "dom st' = dom st" unfolding dom_es_graph [of st'] dom_es_graph [of st] assms(2) by simp
  with xy assms(1) show "y \<in> dom st' \<and> r y < r x" by (auto simp: es_ranked_def)
qed

lemma rank_mod: "sig_rank e = 2 \<Longrightarrow> e mod 8 < 4"
  by (simp add: sig_rank_def split: if_splits)

lemma add_parent_ok:
  assumes ok: "nsa_ok s" and e: "e \<in> dom (nsa_signals s)" "sig_rank e = 2" and q: "q \<in> dom (nsa_signals s)" "sig_rank q = 1"
  shows "\<exists>s'. add_parent e q s = Some s' \<and> nsa_ok s' \<and> sig_change s s' \<and>
     es_graph (nsa_signals s') = add_to e q (es_graph (nsa_signals s))"
proof -
  from e obtain x where x: "nsa_signals s e = Some x" by blast
  have "sig_rank q < sig_rank e" "sig_rank q < es_depth" using e q by (simp_all add: es_depth_def)
  from es_add_parent_graph [OF nsa_ok_ranked [OF ok] x q(1) this] obtain g where
    g: "es_add_parent es_depth True (nsa_signals s) e (Some q) = Some g"
      "es_graph g = (es_graph (nsa_signals s))(e \<mapsto> es_parent_list x @ [q])" by blast
  have g2: "es_graph g = add_to e q (es_graph (nsa_signals s))" using g(2) x by (simp add: add_to_def es_graph_def)
  have dm: "dom g = dom (nsa_signals s)" unfolding dom_es_graph [of g] dom_es_graph [of "nsa_signals s"] g2 by simp
  have "es_ranked sig_rank g" by (rule es_ranked_add [OF nsa_ok_ranked [OF ok] g2 q(1)]) (use e q in simp)
  moreover have "signals_tidy (live s) g"
    by (rule signals_tidy_parents [OF nsa_ok_tidy [OF ok] _ _ rank_mod [OF e(2)]]) (simp_all add: g2, simp add: add_to_def)
  ultimately have "nsa_ok (s\<lparr>nsa_signals := g\<rparr>)"
    using nsa_ok_live_signals [OF ok] dm by (intro nsa_ok_signals [OF ok sig_change_signals]) auto
  with g(1) g2 show ?thesis by (auto simp: add_parent_def)
qed

lemma remove_parent_ok:
  assumes ok: "nsa_ok s" and e: "e \<in> dom (nsa_signals s)" "e mod 8 < 4"
  shows "\<exists>s'. remove_parent e q s = Some s' \<and> nsa_ok s' \<and> sig_change s s' \<and>
     es_graph (nsa_signals s') = take_from e q (es_graph (nsa_signals s))"
proof -
  from e obtain x where x: "nsa_signals s e = Some x" by blast
  let ?g = "(nsa_signals s)(e \<mapsto> x\<lparr>es_parent_list := remove1 q (es_parent_list x)\<rparr>)"
  have g2: "es_graph ?g = take_from e q (es_graph (nsa_signals s))" using x by (auto simp: take_from_def es_graph_def)
  have "es_ranked sig_rank ?g" by (rule es_ranked_take [OF nsa_ok_ranked [OF ok] g2])
  moreover have "signals_tidy (live s) ?g"
    by (rule signals_tidy_parents [OF nsa_ok_tidy [OF ok] _ _ e(2)]) (simp_all add: g2, simp add: take_from_def)
  ultimately have "nsa_ok (s\<lparr>nsa_signals := ?g\<rparr>)"
    using nsa_ok_live_signals [OF ok] by (intro nsa_ok_signals [OF ok sig_change_signals]) auto
  with x g2 show ?thesis by (auto simp: remove_parent_def es_remove_parent_def)
qed

section \<open>The two loops\<close>

text \<open>The parent lists of one socket, before and after.\<close>

definition parents_added :: "nat \<Rightarrow> nat \<Rightarrow> u16 \<Rightarrow> (sig_ptr \<rightharpoonup> sig_ptr list) \<Rightarrow> sig_ptr \<rightharpoonup> sig_ptr list" where
  "parents_added p a ev G =
     (let G1 = (if ev AND POLLIN \<noteq> 0 then add_to (read_signal a) (ps_read_signal p) G else G);
          G2 = (if ev AND POLLOUT \<noteq> 0 then add_to (write_signal a) (ps_write_signal p) G1 else G1)
      in add_to (exception_signal a) (ps_exception_signal p) G2)"

definition parents_removed :: "nat \<Rightarrow> nat \<Rightarrow> u16 \<Rightarrow> (sig_ptr \<rightharpoonup> sig_ptr list) \<Rightarrow> sig_ptr \<rightharpoonup> sig_ptr list" where
  "parents_removed p a ev G =
     (let G1 = take_from (exception_signal a) (ps_exception_signal p) G;
          G2 = (if ev AND POLLOUT \<noteq> 0 then take_from (write_signal a) (ps_write_signal p) G1 else G1)
      in if ev AND POLLIN \<noteq> 0 then take_from (read_signal a) (ps_read_signal p) G2 else G2)"

lemma ps_in [simp]:
  "ps_global_signal p \<in> ps_signals p" "ps_read_signal p \<in> ps_signals p" "ps_write_signal p \<in> ps_signals p"
  "ps_exception_signal p \<in> ps_signals p"
  by (simp_all add: ps_signals_def)

lemma dom_parents_added [simp]: "dom (parents_added p a ev G) = dom G"
  by (simp add: parents_added_def Let_def)

lemma dom_parents_removed [simp]: "dom (parents_removed p a ev G) = dom G"
  by (simp add: parents_removed_def Let_def)

lemma mine_added:
  assumes "{read_signal a, write_signal a, exception_signal a} \<subseteq> dom G"
  shows "mine p (parents_added p a ev G) (read_signal b) =
      mine p G (read_signal b) @ (if b = a \<and> ev AND POLLIN \<noteq> 0 then [ps_read_signal p] else [])"
    and "mine p (parents_added p a ev G) (write_signal b) =
      mine p G (write_signal b) @ (if b = a \<and> ev AND POLLOUT \<noteq> 0 then [ps_write_signal p] else [])"
    and "mine p (parents_added p a ev G) (exception_signal b) =
      mine p G (exception_signal b) @ (if b = a then [ps_exception_signal p] else [])"
proof -
  have d: "G (read_signal a) \<noteq> None" "G (write_signal a) \<noteq> None" "G (exception_signal a) \<noteq> None" using assms by auto
  have d': "add_to x q G e \<noteq> None" if "G e \<noteq> None" for x q e using that by (auto simp: add_to_def)
  have d2: "add_to x q (add_to y r G) e \<noteq> None" if "G e \<noteq> None" for x y q r e using that by (auto simp: add_to_def)
  show "mine p (parents_added p a ev G) (read_signal b) =
      mine p G (read_signal b) @ (if b = a \<and> ev AND POLLIN \<noteq> 0 then [ps_read_signal p] else [])"
    "mine p (parents_added p a ev G) (write_signal b) =
      mine p G (write_signal b) @ (if b = a \<and> ev AND POLLOUT \<noteq> 0 then [ps_write_signal p] else [])"
    "mine p (parents_added p a ev G) (exception_signal b) =
      mine p G (exception_signal b) @ (if b = a then [ps_exception_signal p] else [])"
    unfolding parents_added_def Let_def
    using d d' [OF d(1)] d' [OF d(2)] d' [OF d(3)] d2 [OF d(2)] d2 [OF d(3)] by (simp_all add: mine_add)
qed

lemma mine_removed:
  "mine p (parents_removed p a ev G) (read_signal b) =
     (if b = a \<and> ev AND POLLIN \<noteq> 0 then remove1 (ps_read_signal p) (mine p G (read_signal b)) else mine p G (read_signal b))"
  "mine p (parents_removed p a ev G) (write_signal b) =
     (if b = a \<and> ev AND POLLOUT \<noteq> 0 then remove1 (ps_write_signal p) (mine p G (write_signal b)) else mine p G (write_signal b))"
  "mine p (parents_removed p a ev G) (exception_signal b) =
     (if b = a then remove1 (ps_exception_signal p) (mine p G (exception_signal b)) else mine p G (exception_signal b))"
  by (simp_all add: parents_removed_def Let_def mine_take)

text \<open>The number of parents that the entries for a descriptor add.\<close>

definition entries_for :: "int \<Rightarrow> u16 option \<Rightarrow> pollfd list \<Rightarrow> nat" where
  "entries_for d ev us = length (filter (\<lambda>u. pfd_fd u = d \<and> (case ev of None \<Rightarrow> True | Some x \<Rightarrow> pfd_events u AND x \<noteq> 0)) us)"

lemma entries_for_Cons:
  "entries_for d ev (u # us) = (if pfd_fd u = d \<and> (case ev of None \<Rightarrow> True | Some x \<Rightarrow> pfd_events u AND x \<noteq> 0) then 1 else 0) + entries_for d ev us"
  by (simp add: entries_for_def)

definition flow_fds :: "'k nsa \<Rightarrow> pollfd list \<Rightarrow> bool" where
  "flow_fds s us \<longleftrightarrow> (\<forall>u \<in> set us. \<forall>a k. nsa_sockets s a = Some k \<longrightarrow> ns_descriptor k = pfd_fd u \<longrightarrow> ns_flow k \<noteq> None)"

text \<open>The lookup of a descriptor finds the socket with it, or there is none.\<close>

lemma lookup_cases:
  assumes "nsa_inv {} {} s"
  obtains (none) "nsa_get_socket_for_descriptor d s = Some None" "d \<notin> descriptors s"
    | (some) a k where "nsa_get_socket_for_descriptor d s = Some (Some a)" "nsa_sockets s a = Some k" "ns_descriptor k = d"
      "\<And>b. b \<in> live s \<Longrightarrow> descriptor_of s b = d \<longleftrightarrow> b = a"
proof (cases "d \<in> descriptors s")
  case True
  then obtain a k where a: "nsa_sockets s a = Some k" "descriptor_of s a = d" by blast
  have "nsa_get_socket_for_descriptor (descriptor_of s a) s = Some (Some a)"
    by (rule lookup_some [of "{}"]) (use assms a in \<open>auto simp: nsa_inv_def\<close>)
  moreover have "descriptor_of s b = d \<longleftrightarrow> b = a" if "b \<in> live s" for b
    using assms a that unfolding nsa_inv_def ids_ok_def inj_on_def by blast
  moreover have "ns_descriptor k = d" using a by (simp add: descriptor_of_def)
  ultimately show thesis using a some [of a k] by simp
next
  case False
  have "nsa_get_socket_for_descriptor d s = Some None"
    by (rule lookup_none [of "{}"]) (use assms False in \<open>auto simp: nsa_inv_def\<close>)
  then show thesis using False by (rule none)
qed

lemma add_three_ok:
  assumes ok: "nsa_ok s" and ps: "ps_signals p \<subseteq> dom (nsa_signals s)" and a: "a \<in> live s"
  shows "\<exists>s1 s2 s3. (if ev AND POLLIN \<noteq> 0 then add_parent (read_signal a) (ps_read_signal p) s else Some s) = Some s1 \<and>
     (if ev AND POLLOUT \<noteq> 0 then add_parent (write_signal a) (ps_write_signal p) s1 else Some s1) = Some s2 \<and>
     add_parent (exception_signal a) (ps_exception_signal p) s2 = Some s3 \<and> nsa_ok s3 \<and> sig_change s s3 \<and>
     es_graph (nsa_signals s3) = parents_added p a ev (es_graph (nsa_signals s))"
proof -
  have step: "\<exists>s1. (if b then add_parent e q s0 else Some s0) = Some s1 \<and> nsa_ok s1 \<and> sig_change s s1 \<and>
      es_graph (nsa_signals s1) = (if b then add_to e q (es_graph (nsa_signals s0)) else es_graph (nsa_signals s0)) \<and>
      dom (nsa_signals s1) = dom (nsa_signals s0)"
    if "nsa_ok s0" "sig_change s s0" "e \<in> dom (nsa_signals s0)" "sig_rank e = 2" "q \<in> dom (nsa_signals s0)" "sig_rank q = 1" for b e q s0
  proof (cases b)
    case True
    from add_parent_ok [OF that(1,3-6)] obtain s1 where s1: "add_parent e q s0 = Some s1" "nsa_ok s1" "sig_change s0 s1"
      "es_graph (nsa_signals s1) = add_to e q (es_graph (nsa_signals s0))" by blast
    moreover have "dom (nsa_signals s1) = dom (nsa_signals s0)"
      unfolding dom_es_graph [of "nsa_signals s1"] dom_es_graph [of "nsa_signals s0"] s1(4) by simp
    ultimately show ?thesis using True that(2) sig_change_trans by auto
  next
    case False
    with that show ?thesis by simp
  qed
  have d: "read_signal a \<in> dom (nsa_signals s)" "write_signal a \<in> dom (nsa_signals s)" "exception_signal a \<in> dom (nsa_signals s)"
      "ps_read_signal p \<in> dom (nsa_signals s)" "ps_write_signal p \<in> dom (nsa_signals s)" "ps_exception_signal p \<in> dom (nsa_signals s)"
    using nsa_ok_live_signals [OF ok a] ps by (auto simp: ps_signals_def)
  from step [OF ok sig_change_refl d(1) socket_signals_rank(1) d(4) ps_ranks(2), of "ev AND POLLIN \<noteq> 0"] obtain s1 where
    s1: "(if ev AND POLLIN \<noteq> 0 then add_parent (read_signal a) (ps_read_signal p) s else Some s) = Some s1" "nsa_ok s1" "sig_change s s1"
      "es_graph (nsa_signals s1) = (if ev AND POLLIN \<noteq> 0 then add_to (read_signal a) (ps_read_signal p) (es_graph (nsa_signals s)) else es_graph (nsa_signals s))"
      "dom (nsa_signals s1) = dom (nsa_signals s)" by blast
  have d1: "write_signal a \<in> dom (nsa_signals s1)" "ps_write_signal p \<in> dom (nsa_signals s1)" using d s1(5) by auto
  from step [OF s1(2,3) d1(1) socket_signals_rank(2) d1(2) ps_ranks(3), of "ev AND POLLOUT \<noteq> 0"] obtain s2 where
    s2: "(if ev AND POLLOUT \<noteq> 0 then add_parent (write_signal a) (ps_write_signal p) s1 else Some s1) = Some s2" "nsa_ok s2" "sig_change s s2"
      "es_graph (nsa_signals s2) = (if ev AND POLLOUT \<noteq> 0 then add_to (write_signal a) (ps_write_signal p) (es_graph (nsa_signals s1)) else es_graph (nsa_signals s1))"
      "dom (nsa_signals s2) = dom (nsa_signals s1)" by blast
  have d2: "exception_signal a \<in> dom (nsa_signals s2)" "ps_exception_signal p \<in> dom (nsa_signals s2)" using d s1(5) s2(5) by auto
  from step [OF s2(2,3) d2(1) socket_signals_rank(3) d2(2) ps_ranks(4), of True] obtain s3 where
    "add_parent (exception_signal a) (ps_exception_signal p) s2 = Some s3" "nsa_ok s3" "sig_change s s3"
      "es_graph (nsa_signals s3) = add_to (exception_signal a) (ps_exception_signal p) (es_graph (nsa_signals s2))" by auto
  with s1 s2 show ?thesis by (intro exI [of _ s1] exI [of _ s2] exI [of _ s3]) (simp add: parents_added_def Let_def)
qed

lemma remove_three_ok:
  assumes ok: "nsa_ok s" and a: "a \<in> live s"
  shows "\<exists>s1 s2 s3. remove_parent (exception_signal a) (ps_exception_signal p) s = Some s1 \<and>
     (if ev AND POLLOUT \<noteq> 0 then remove_parent (write_signal a) (ps_write_signal p) s1 else Some s1) = Some s2 \<and>
     (if ev AND POLLIN \<noteq> 0 then remove_parent (read_signal a) (ps_read_signal p) s2 else Some s2) = Some s3 \<and>
     nsa_ok s3 \<and> sig_change s s3 \<and> es_graph (nsa_signals s3) = parents_removed p a ev (es_graph (nsa_signals s))"
proof -
  have step: "\<exists>s1. (if b then remove_parent e q s0 else Some s0) = Some s1 \<and> nsa_ok s1 \<and> sig_change s s1 \<and>
      es_graph (nsa_signals s1) = (if b then take_from e q (es_graph (nsa_signals s0)) else es_graph (nsa_signals s0))"
    if "nsa_ok s0" "sig_change s s0" "e \<in> {read_signal a, write_signal a, exception_signal a}" for b e q s0
  proof (cases b)
    case True
    have "e \<in> dom (nsa_signals s0)" using nsa_ok_live_signals [OF that(1), of a] a that(2,3) by (auto simp: sig_changeD)
    moreover have "e mod 8 < 4" using that(3) sig_mod by auto
    ultimately show ?thesis using remove_parent_ok [OF that(1), of e q] True that(2) sig_change_trans by auto
  next
    case False
    with that show ?thesis by simp
  qed
  from step [OF ok sig_change_refl, of "exception_signal a" True "ps_exception_signal p"] obtain s1 where
    s1: "remove_parent (exception_signal a) (ps_exception_signal p) s = Some s1" "nsa_ok s1" "sig_change s s1"
      "es_graph (nsa_signals s1) = take_from (exception_signal a) (ps_exception_signal p) (es_graph (nsa_signals s))" by auto
  from step [OF s1(2,3), of "write_signal a" "ev AND POLLOUT \<noteq> 0" "ps_write_signal p"] obtain s2 where
    s2: "(if ev AND POLLOUT \<noteq> 0 then remove_parent (write_signal a) (ps_write_signal p) s1 else Some s1) = Some s2" "nsa_ok s2" "sig_change s s2"
      "es_graph (nsa_signals s2) = (if ev AND POLLOUT \<noteq> 0 then take_from (write_signal a) (ps_write_signal p) (es_graph (nsa_signals s1)) else es_graph (nsa_signals s1))"
    by blast
  from step [OF s2(2,3), of "read_signal a" "ev AND POLLIN \<noteq> 0" "ps_read_signal p"] obtain s3 where
    "(if ev AND POLLIN \<noteq> 0 then remove_parent (read_signal a) (ps_read_signal p) s2 else Some s2) = Some s3" "nsa_ok s3" "sig_change s s3"
      "es_graph (nsa_signals s3) = (if ev AND POLLIN \<noteq> 0 then take_from (read_signal a) (ps_read_signal p) (es_graph (nsa_signals s2)) else es_graph (nsa_signals s2))"
    by blast
  with s1 s2 show ?thesis by (intro exI [of _ s1] exI [of _ s2] exI [of _ s3]) (simp add: parents_removed_def Let_def)
qed

lemma flow_fds_change: "sig_change s s' \<Longrightarrow> flow_fds s' us = flow_fds s us"
  by (simp add: flow_fds_def sig_changeD)

lemma nsa_ok_errno: "nsa_ok s \<Longrightarrow> nsa_ok (s\<lparr>nsa_errno := e\<rparr>)"
  by (rule nsa_ok_signals) (auto simp: nsa_ok_ranked nsa_ok_def nsa_inv_def signals_ok_def)

text \<open>What the first loop adds to the parents of the signals of a socket.\<close>

definition gained :: "nat \<Rightarrow> pollfd list \<Rightarrow> 'k nsa \<Rightarrow> 'k nsa \<Rightarrow> nat \<Rightarrow> bool" where
  "gained p us s s' a \<longleftrightarrow>
     mine p (es_graph (nsa_signals s')) (read_signal a) =
       mine p (es_graph (nsa_signals s)) (read_signal a) @ replicate (entries_for (descriptor_of s a) (Some POLLIN) us) (ps_read_signal p) \<and>
     mine p (es_graph (nsa_signals s')) (write_signal a) =
       mine p (es_graph (nsa_signals s)) (write_signal a) @ replicate (entries_for (descriptor_of s a) (Some POLLOUT) us) (ps_write_signal p) \<and>
     mine p (es_graph (nsa_signals s')) (exception_signal a) =
       mine p (es_graph (nsa_signals s)) (exception_signal a) @ replicate (entries_for (descriptor_of s a) None us) (ps_exception_signal p)"

lemma poll_collect_ok:
  assumes "nsa_ok s" and "ps_signals p \<subseteq> dom (nsa_signals s)" and "flow_fds s us"
  shows "\<exists>r s'. poll_collect p us r0 s = Some (r, s') \<and> nsa_ok s' \<and> sig_change s s' \<and>
     dom (nsa_signals s') = dom (nsa_signals s) \<and> (\<forall>a \<in> live s. gained p us s s' a)"
  using assms
proof (induction us arbitrary: s r0)
  case Nil
  then show ?case by (simp add: entries_for_def gained_def)
next
  case (Cons u us)
  have inv: "nsa_inv {} {} s" using Cons.prems(1) by (simp add: nsa_ok_def)
  have fl: "flow_fds s us" using Cons.prems(3) by (simp add: flow_fds_def)
  show ?case
  proof (cases rule: lookup_cases [OF inv, of "pfd_fd u", case_names none some])
    case none
    let ?s = "s\<lparr>nsa_errno := E_BADF\<rparr>"
    have ent: "entries_for (descriptor_of s a) ev (u # us) = entries_for (descriptor_of s a) ev us" if "a \<in> live s" for a ev
      using none(2) that by (auto simp: entries_for_Cons)
    have fl': "flow_fds ?s us" using fl by (simp add: flow_fds_def)
    from Cons.IH [OF nsa_ok_errno [OF Cons.prems(1), of E_BADF] _ fl', of "- 1"] Cons.prems(2) obtain r s' where
      s': "poll_collect p us (- 1) ?s = Some (r, s')" "nsa_ok s'" "sig_change ?s s'" "dom (nsa_signals s') = dom (nsa_signals s)"
      and m: "\<And>a. a \<in> live s \<Longrightarrow> gained p us ?s s' a" by auto
    have "gained p (u # us) s s' a" if "a \<in> live s" for a using m [OF that] ent [OF that] by (simp add: gained_def)
    moreover have "poll_collect p (u # us) r0 s = Some (r, s')" using none(1) s'(1) by simp
    moreover have "sig_change s s'" using s'(3) sig_change_errno sig_change_trans by blast
    ultimately show ?thesis using s' by (intro exI [of _ r] exI [of _ s']) simp
  next
    case (some a k)
    have al: "a \<in> live s" using some(2) by blast
    from add_three_ok [OF Cons.prems(1,2) al, of "pfd_events u"] obtain s1 s2 s3 where
      e: "(if pfd_events u AND POLLIN \<noteq> 0 then add_parent (read_signal a) (ps_read_signal p) s else Some s) = Some s1"
        "(if pfd_events u AND POLLOUT \<noteq> 0 then add_parent (write_signal a) (ps_write_signal p) s1 else Some s1) = Some s2"
        "add_parent (exception_signal a) (ps_exception_signal p) s2 = Some s3" and
      s3: "nsa_ok s3" "sig_change s s3" "es_graph (nsa_signals s3) = parents_added p a (pfd_events u) (es_graph (nsa_signals s))" by blast
    note c3 = sig_changeD [OF s3(2)]
    have d3: "dom (nsa_signals s3) = dom (nsa_signals s)"
      unfolding dom_es_graph [of "nsa_signals s3"] dom_es_graph [of "nsa_signals s"] s3(3) by simp
    have fl3: "flow_fds s3 us" using fl flow_fds_change [OF s3(2)] by simp
    obtain r2 where r2: "poll_collect p (u # us) r0 s = poll_collect p us r2 s3"
      using some(1,2) e Cons.prems(3) some(3) by (fastforce simp: flow_fds_def Let_def)
    have p3: "ps_signals p \<subseteq> dom (nsa_signals s3)" using d3 Cons.prems(2) by simp
    from Cons.IH [OF s3(1) p3 fl3, of r2] obtain r s' where
      s': "poll_collect p us r2 s3 = Some (r, s')" "nsa_ok s'" "sig_change s3 s'" "dom (nsa_signals s') = dom (nsa_signals s3)"
      and m: "\<And>b. b \<in> live s \<Longrightarrow> gained p us s3 s' b" unfolding c3 by blast
    have dg: "{read_signal a, write_signal a, exception_signal a} \<subseteq> dom (es_graph (nsa_signals s))"
      using nsa_ok_live_signals [OF Cons.prems(1) al] unfolding dom_es_graph [symmetric] .
    have "gained p (u # us) s s' b" if "b \<in> live s" for b
    proof -
      have "pfd_fd u = descriptor_of s b \<longleftrightarrow> b = a" using some(4) [OF that] by auto
      with m [OF that] show ?thesis unfolding gained_def s3(3) mine_added [OF dg] c3 by (simp add: entries_for_Cons)
    qed
    moreover have "sig_change s s'" using s3(2) s'(3) sig_change_trans by blast
    ultimately show ?thesis using r2 s' d3 by (intro exI [of _ r] exI [of _ s']) simp
  qed
qed

text \<open>What the second loop takes from the parents, and what it reports.\<close>

definition lost :: "nat \<Rightarrow> pollfd list \<Rightarrow> 'k nsa \<Rightarrow> 'k nsa \<Rightarrow> nat \<Rightarrow> bool" where
  "lost p us s s' a \<longleftrightarrow>
     mine p (es_graph (nsa_signals s')) (read_signal a) = (remove1 (ps_read_signal p) ^^ entries_for (descriptor_of s a) (Some POLLIN) us)
       (mine p (es_graph (nsa_signals s)) (read_signal a)) \<and>
     mine p (es_graph (nsa_signals s')) (write_signal a) = (remove1 (ps_write_signal p) ^^ entries_for (descriptor_of s a) (Some POLLOUT) us)
       (mine p (es_graph (nsa_signals s)) (write_signal a)) \<and>
     mine p (es_graph (nsa_signals s')) (exception_signal a) = (remove1 (ps_exception_signal p) ^^ entries_for (descriptor_of s a) None us)
       (mine p (es_graph (nsa_signals s)) (exception_signal a))"

definition answers :: "'k nsa \<Rightarrow> pollfd \<Rightarrow> pollfd \<Rightarrow> bool" where
  "answers s u v \<longleftrightarrow> v = u\<lparr>pfd_revents := pfd_revents v\<rparr> \<and> (pfd_fd u \<notin> descriptors s \<longrightarrow> pfd_revents v = POLLNVAL) \<and>
     (\<forall>a k. nsa_sockets s a = Some k \<longrightarrow> ns_descriptor k = pfd_fd u \<longrightarrow> pfd_revents v = socket_events k (pfd_events u))"

lemma answers_change: "sig_change s s' \<Longrightarrow> answers s' u v = answers s u v"
  by (simp add: answers_def sig_changeD)

lemma remove1_funpow: "(remove1 x ^^ n) (remove1 x xs) = (remove1 x ^^ Suc n) xs"
  by (simp only: funpow_Suc_right comp_apply)

lemma poll_results_ok:
  assumes "nsa_ok s" and "flow_fds s us"
  shows "\<exists>vs s'. poll_results p us s = Some (int (length (filter (\<lambda>v. pfd_revents v \<noteq> 0) vs)), vs, s') \<and> nsa_ok s' \<and> sig_change s s' \<and>
     dom (nsa_signals s') = dom (nsa_signals s) \<and> (\<forall>a \<in> live s. lost p us s s' a) \<and> list_all2 (answers s) us vs"
  using assms
proof (induction us arbitrary: s)
  case Nil
  then show ?case by (simp add: entries_for_def lost_def)
next
  case (Cons u us)
  have inv: "nsa_inv {} {} s" using Cons.prems(1) by (simp add: nsa_ok_def)
  have fl: "flow_fds s us" using Cons.prems(2) by (simp add: flow_fds_def)
  show ?case
  proof (cases rule: lookup_cases [OF inv, of "pfd_fd u", case_names none some])
    case none
    from Cons.IH [OF Cons.prems(1) fl] obtain vs s' where
      s': "poll_results p us s = Some (int (length (filter (\<lambda>v. pfd_revents v \<noteq> 0) vs)), vs, s')" "nsa_ok s'" "sig_change s s'"
        "dom (nsa_signals s') = dom (nsa_signals s)" "\<forall>a \<in> live s. lost p us s s' a" "list_all2 (answers s) us vs" by blast
    have ent: "entries_for (descriptor_of s a) ev (u # us) = entries_for (descriptor_of s a) ev us" if "a \<in> live s" for a ev
      using none(2) that by (auto simp: entries_for_Cons)
    have "lost p (u # us) s s' a" if "a \<in> live s" for a using s'(5) that ent [OF that] by (simp add: lost_def)
    moreover have "answers s u (u\<lparr>pfd_revents := POLLNVAL\<rparr>)"
      using none(2) by (auto simp: answers_def descriptor_of_def image_iff) (metis domI option.simps(5))
    moreover have "poll_results p (u # us) s = Some (int (length (filter (\<lambda>v. pfd_revents v \<noteq> 0) (u\<lparr>pfd_revents := POLLNVAL\<rparr> # vs))),
        u\<lparr>pfd_revents := POLLNVAL\<rparr> # vs, s')"
      using none(1) s'(1) by simp
    ultimately show ?thesis using s' by (intro exI [of _ "u\<lparr>pfd_revents := POLLNVAL\<rparr> # vs"] exI [of _ s']) simp
  next
    case (some a k)
    have al: "a \<in> live s" using some(2) by blast
    from remove_three_ok [OF Cons.prems(1) al, of p "pfd_events u"] obtain s1 s2 s3 where
      e: "remove_parent (exception_signal a) (ps_exception_signal p) s = Some s1"
        "(if pfd_events u AND POLLOUT \<noteq> 0 then remove_parent (write_signal a) (ps_write_signal p) s1 else Some s1) = Some s2"
        "(if pfd_events u AND POLLIN \<noteq> 0 then remove_parent (read_signal a) (ps_read_signal p) s2 else Some s2) = Some s3" and
      s3: "nsa_ok s3" "sig_change s s3" "es_graph (nsa_signals s3) = parents_removed p a (pfd_events u) (es_graph (nsa_signals s))" by blast
    note c3 = sig_changeD [OF s3(2)]
    have d3: "dom (nsa_signals s3) = dom (nsa_signals s)"
      unfolding dom_es_graph [of "nsa_signals s3"] dom_es_graph [of "nsa_signals s"] s3(3) by simp
    have fl3: "flow_fds s3 us" using fl flow_fds_change [OF s3(2)] by simp
    from Cons.IH [OF s3(1) fl3] obtain vs s' where
      s': "poll_results p us s3 = Some (int (length (filter (\<lambda>v. pfd_revents v \<noteq> 0) vs)), vs, s')" "nsa_ok s'" "sig_change s3 s'"
        "dom (nsa_signals s') = dom (nsa_signals s3)" "\<forall>a \<in> live s. lost p us s3 s' a" "list_all2 (answers s3) us vs" unfolding c3 by blast
    let ?v = "u\<lparr>pfd_revents := socket_events k (pfd_events u)\<rparr>"
    have fk: "ns_flow k \<noteq> None" using Cons.prems(2) some(2,3) by (auto simp: flow_fds_def)
    have "poll_results p (u # us) s = Some (int (length (filter (\<lambda>v. pfd_revents v \<noteq> 0) (?v # vs))), ?v # vs, s')"
      using some(1,2) e fk s'(1) by simp
    moreover have "lost p (u # us) s s' b" if "b \<in> live s" for b
    proof -
      have "pfd_fd u = descriptor_of s b \<longleftrightarrow> b = a" using some(4) [OF that] by auto
      moreover have "lost p us s3 s' b" using s'(5) that by blast
      ultimately show ?thesis unfolding lost_def s3(3) mine_removed c3 by (simp add: entries_for_Cons remove1_funpow del: funpow.simps)
    qed
    moreover have "answers s u ?v"
    proof -
      have "kb = k" if "nsa_sockets s b = Some kb" "ns_descriptor kb = pfd_fd u" for b kb
      proof -
        have "b \<in> live s" "descriptor_of s b = pfd_fd u" using that by (auto simp: descriptor_of_def)
        with some(4) that(1) some(2) show ?thesis by auto
      qed
      moreover have "pfd_fd u \<in> descriptors s" using al some(2,3) by (force simp: descriptor_of_def)
      ultimately show ?thesis by (simp add: answers_def)
    qed
    moreover have "list_all2 (answers s) us vs"
      using s'(6) by (rule list_all2_mono) (simp add: answers_change [OF s3(2)])
    moreover have "sig_change s s'" using s3(2) s'(3) sig_change_trans by blast
    ultimately show ?thesis using s'(2,4) d3 by (intro exI [of _ "?v # vs"] exI [of _ s']) simp
  qed
qed

section \<open>The poll storage\<close>

lemma ps_distinct [simp]:
  "ps_global_signal p \<noteq> ps_read_signal p" "ps_global_signal p \<noteq> ps_write_signal p" "ps_global_signal p \<noteq> ps_exception_signal p"
  "ps_read_signal p \<noteq> ps_write_signal p" "ps_read_signal p \<noteq> ps_exception_signal p" "ps_write_signal p \<noteq> ps_exception_signal p"
  by (simp_all add: ps_global_signal_def ps_read_signal_def ps_write_signal_def ps_exception_signal_def)

lemma ps_frame: "e \<in> ps_signals p \<longleftrightarrow> e div 8 = p \<and> \<not> e mod 8 < 4"
proof
  assume "e \<in> ps_signals p"
  then show "e div 8 = p \<and> \<not> e mod 8 < 4"
    by (auto simp: ps_signals_def ps_global_signal_def ps_read_signal_def ps_write_signal_def ps_exception_signal_def)
next
  assume e: "e div 8 = p \<and> \<not> e mod 8 < 4"
  have "e mod 8 < 8" by simp
  with e have "e mod 8 = 4 \<or> e mod 8 = 5 \<or> e mod 8 = 6 \<or> e mod 8 = 7" by linarith
  moreover have "e = 8 * p + e mod 8" using e by (metis mult_div_mod_eq)
  ultimately show "e \<in> ps_signals p"
    unfolding ps_signals_def ps_global_signal_def ps_read_signal_def ps_write_signal_def ps_exception_signal_def by auto
qed

lemma socket_signal_mod: "e \<in> socket_signals a \<Longrightarrow> e mod 8 < 4"
  using sig_mod by (auto simp: socket_signals_def)

lemma mine_none:
  assumes r: "es_ranked r g" and d: "ps_signals p \<inter> dom g = {}"
  shows "mine p (es_graph g) e = []"
proof (cases "es_graph g e")
  case (Some ps)
  have "q \<notin> ps_signals p" if "q \<in> set ps" for q
  proof -
    have "(e, q) \<in> es_parents g" using Some that by (simp add: es_parents_graph)
    then have "q \<in> dom g" using r by (auto simp: es_ranked_def)
    with d show ?thesis by blast
  qed
  with Some show ?thesis by (simp add: mine_def)
qed (simp add: mine_def)

lemma poll_storage_new_ok:
  assumes ok: "nsa_ok s" and d: "ps_signals p \<inter> dom (nsa_signals s) = {}"
  shows "\<exists>s1. poll_storage_new p s = Some s1 \<and> nsa_ok s1 \<and> sig_change s s1 \<and>
     dom (nsa_signals s1) = dom (nsa_signals s) \<union> ps_signals p \<and> (\<forall>a \<in> live s. \<forall>e \<in> socket_signals a. mine p (es_graph (nsa_signals s1)) e = [])"
proof -
  let ?f = "\<lambda>ps. \<lparr>es_condition = [], es_fired = False, es_parent_list = ps\<rparr>"
  define g where "g = (nsa_signals s)(ps_global_signal p \<mapsto> ?f [], ps_read_signal p \<mapsto> ?f [ps_global_signal p],
    ps_write_signal p \<mapsto> ?f [ps_global_signal p], ps_exception_signal p \<mapsto> ?f [ps_global_signal p])"
  have e: "poll_storage_new p s = Some (s\<lparr>nsa_signals := g\<rparr>)"
    by (simp add: poll_storage_new_def es_new_def es_add_parent_def g_def)
  have dg: "dom g = dom (nsa_signals s) \<union> ps_signals p" by (auto simp: g_def ps_signals_def)
  have old: "es_graph g x = es_graph (nsa_signals s) x" if "x \<notin> ps_signals p" for x
    using that by (simp add: g_def es_graph_def ps_signals_def)
  have new: "es_graph g x = Some (if x = ps_global_signal p then [] else [ps_global_signal p])" if "x \<in> ps_signals p" for x
    using that by (auto simp: g_def es_graph_def ps_signals_def)
  have "es_ranked sig_rank g"
    unfolding es_ranked_def
  proof (clarify)
    fix x q assume "(x, q) \<in> es_parents g"
    then obtain ps where x: "es_graph g x = Some ps" "q \<in> set ps" by (auto simp: es_parents_graph)
    show "q \<in> dom g \<and> sig_rank q < sig_rank x"
    proof (cases "x \<in> ps_signals p")
      case True
      with x new [OF True] have "q = ps_global_signal p" "x \<noteq> ps_global_signal p" by (auto split: if_splits)
      with True show ?thesis unfolding dg by (auto simp: ps_signals_def)
    next
      case False
      with x old have "(x, q) \<in> es_parents (nsa_signals s)" by (simp add: es_parents_graph)
      with nsa_ok_ranked [OF ok] show ?thesis unfolding dg by (auto simp: es_ranked_def)
    qed
  qed
  moreover have "signals_tidy (live s) g"
    unfolding signals_tidy_def
  proof (intro allI impI)
    fix x ps assume x: "es_graph g x = Some ps"
    show "if x mod 8 < 4 then \<exists>a \<in> live s. x \<in> socket_signals a else set ps \<subseteq> {ps_global_signal (x div 8)}"
    proof (cases "x \<in> ps_signals p")
      case True
      with x new [OF True] ps_frame [of x p] show ?thesis by (auto split: if_splits)
    next
      case False
      with x old nsa_ok_tidy [OF ok] show ?thesis unfolding signals_tidy_def by auto
    qed
  qed
  ultimately have "nsa_ok (s\<lparr>nsa_signals := g\<rparr>)"
    using nsa_ok_live_signals [OF ok] dg by (intro nsa_ok_signals [OF ok sig_change_signals]) auto
  moreover have "mine p (es_graph g) x = []" if "a \<in> live s" "x \<in> socket_signals a" for a x
  proof -
    have "x \<notin> ps_signals p" using socket_signal_mod [OF that(2)] ps_frame by blast
    then show ?thesis using mine_none [OF nsa_ok_ranked [OF ok] d, of x] by (simp add: mine_def old)
  qed
  ultimately show ?thesis using e dg by auto
qed

lemma poll_storage_delete_ok:
  assumes ok: "nsa_ok s" and d: "ps_signals p \<subseteq> dom (nsa_signals s)"
    and m: "\<forall>a \<in> live s. \<forall>e \<in> socket_signals a. mine p (es_graph (nsa_signals s)) e = []"
  shows "\<exists>s1. poll_storage_delete p s = Some s1 \<and> nsa_ok s1 \<and> sig_change s s1 \<and> dom (nsa_signals s1) = dom (nsa_signals s) - ps_signals p"
proof -
  define g where "g = (nsa_signals s)(ps_read_signal p := None, ps_write_signal p := None, ps_exception_signal p := None, ps_global_signal p := None)"
  have e: "poll_storage_delete p s = Some (s\<lparr>nsa_signals := g\<rparr>)"
    using d by (simp add: poll_storage_delete_def ps_signals_def es_delete_dom g_def ps_distinct [symmetric])
  have dg: "dom g = dom (nsa_signals s) - ps_signals p" by (auto simp: g_def ps_signals_def)
  have old: "x \<notin> ps_signals p \<and> es_graph (nsa_signals s) x = Some ps" if "es_graph g x = Some ps" for x ps
    using that by (auto simp: g_def es_graph_def ps_signals_def split: if_splits)
  have tidy: "signals_tidy (live s) (nsa_signals s)" by (rule nsa_ok_tidy [OF ok])
  have "es_ranked sig_rank g"
    unfolding es_ranked_def
  proof (clarify)
    fix x q assume "(x, q) \<in> es_parents g"
    then obtain ps where x: "es_graph g x = Some ps" "q \<in> set ps" by (auto simp: es_parents_graph)
    note o = old [OF x(1)]
    then have "(x, q) \<in> es_parents (nsa_signals s)" using x(2) by (simp add: es_parents_graph)
    then have q: "q \<in> dom (nsa_signals s)" "sig_rank q < sig_rank x" using nsa_ok_ranked [OF ok] by (auto simp: es_ranked_def)
    have "q \<notin> ps_signals p"
    proof (cases "x mod 8 < 4")
      case True
      with tidy o obtain a where "a \<in> live s" "x \<in> socket_signals a" unfolding signals_tidy_def by metis
      then have "mine p (es_graph (nsa_signals s)) x = []" using m by blast
      with o x(2) show ?thesis by (auto simp: mine_def filter_empty_conv)
    next
      case False
      with tidy o have "set ps \<subseteq> {ps_global_signal (x div 8)}" unfolding signals_tidy_def by metis
      with x(2) have "q = ps_global_signal (x div 8)" by blast
      moreover have "x div 8 \<noteq> p" using o False ps_frame by blast
      moreover have "ps_global_signal (x div 8) \<in> ps_signals (x div 8)" by simp
      ultimately show ?thesis using ps_frame by metis
    qed
    with q dg show "q \<in> dom g \<and> sig_rank q < sig_rank x" by blast
  qed
  moreover have "signals_tidy (live s) g" using tidy old unfolding signals_tidy_def by blast
  moreover have "{read_signal a, write_signal a, exception_signal a} \<subseteq> dom g" if "a \<in> live s" for a
  proof -
    have "x \<notin> ps_signals p" if "x \<in> socket_signals a" for x using socket_signal_mod [OF that] ps_frame by blast
    with nsa_ok_live_signals [OF ok that] dg show ?thesis by (auto simp: socket_signals_def)
  qed
  ultimately have "nsa_ok (s\<lparr>nsa_signals := g\<rparr>)" by (intro nsa_ok_signals [OF ok sig_change_signals]) simp_all
  with e dg show ?thesis by auto
qed

section \<open>What the other threads may do\<close>

text \<open>
  The other threads keep the invariant, leave the poll storage of the waiting thread alone, register
  nothing with it, and bind no system socket to a polled descriptor. Sockets may appear and go.
\<close>

definition kept :: "nat \<Rightarrow> pollfd list \<Rightarrow> 'k nsa \<Rightarrow> 'k nsa \<Rightarrow> bool" where
  "kept p us s s' \<longleftrightarrow> (\<forall>e \<in> ps_signals p. es_graph (nsa_signals s') e = es_graph (nsa_signals s) e) \<and>
     (\<forall>a \<in> live s'. \<forall>e \<in> socket_signals a. mine p (es_graph (nsa_signals s')) e = [] \<or>
        a \<in> live s \<and> descriptor_of s' a = descriptor_of s a \<and> mine p (es_graph (nsa_signals s')) e = mine p (es_graph (nsa_signals s)) e) \<and>
     (flow_fds s us \<longrightarrow> flow_fds s' us)"

definition others_ok :: "'k nsa_env \<Rightarrow> nat \<Rightarrow> pollfd list \<Rightarrow> bool" where
  "others_ok env p us \<longleftrightarrow> (\<forall>deadline s. nsa_ok s \<longrightarrow>
     nsa_ok (env_others env p deadline s) \<and> kept p us s (env_others env p deadline s))"

lemma kept_refl [simp]: "kept p us s s"
  by (simp add: kept_def)

lemma kept_trans:
  assumes "kept p us s s1" and "kept p us s1 s2"
  shows "kept p us s s2"
  unfolding kept_def
proof (intro conjI ballI)
  fix e assume "e \<in> ps_signals p"
  with assms show "es_graph (nsa_signals s2) e = es_graph (nsa_signals s) e" unfolding kept_def by simp
next
  fix a e assume a: "a \<in> live s2" "e \<in> socket_signals a"
  with assms(2) consider "mine p (es_graph (nsa_signals s2)) e = []"
    | "a \<in> live s1" "descriptor_of s2 a = descriptor_of s1 a" "mine p (es_graph (nsa_signals s2)) e = mine p (es_graph (nsa_signals s1)) e"
    unfolding kept_def by blast
  then show "mine p (es_graph (nsa_signals s2)) e = [] \<or> a \<in> live s \<and> descriptor_of s2 a = descriptor_of s a \<and>
      mine p (es_graph (nsa_signals s2)) e = mine p (es_graph (nsa_signals s)) e"
  proof cases
    case 2
    with assms(1) a(2) have "mine p (es_graph (nsa_signals s1)) e = [] \<or>
        a \<in> live s \<and> descriptor_of s1 a = descriptor_of s a \<and> mine p (es_graph (nsa_signals s1)) e = mine p (es_graph (nsa_signals s)) e"
      unfolding kept_def by blast
    with 2 show ?thesis by auto
  qed simp
next
  show "flow_fds s us \<longrightarrow> flow_fds s2 us" using assms unfolding kept_def by blast
qed

lemma kept_graph:
  assumes "sig_change s s'" and "es_graph (nsa_signals s') = es_graph (nsa_signals s)"
  shows "kept p us s s'"
  using assms by (simp add: kept_def sig_changeD flow_fds_change [OF assms(1)])

lemma nsa_ok_graph:
  assumes ok: "nsa_ok s" and ch: "sig_change s s'" and g: "es_graph (nsa_signals s') = es_graph (nsa_signals s)"
  shows "nsa_ok s'"
  using nsa_ok_ranked [OF ok] nsa_ok_tidy [OF ok] nsa_ok_live_signals [OF ok] es_ranked_graph [OF g, of sig_rank]
    signals_tidy_graph [OF g] es_graph_dom [OF g] by (intro nsa_ok_signals [OF ok ch]) simp_all

lemma graph_update: "(\<And>x. es_parent_list (F x) = es_parent_list x) \<Longrightarrow> es_graph (g(e := map_option F (g e))) = es_graph g"
  by (auto simp: es_graph_def option.map_comp comp_def)

lemma thread_wait_ok:
  assumes ok: "nsa_ok s" and others: "others_ok env p us"
  shows "nsa_ok (thread_wait env p deadline e s) \<and> kept p us s (thread_wait env p deadline e s)"
proof -
  define s0 where "s0 = s\<lparr>nsa_signals := (nsa_signals s)(e := map_option (\<lambda>x. x\<lparr>es_condition := es_condition x @ [p]\<rparr>) (nsa_signals s e))\<rparr>"
  define s1 where "s1 = env_others env p deadline s0"
  have c0: "sig_change s s0" "es_graph (nsa_signals s0) = es_graph (nsa_signals s)" by (simp_all add: s0_def graph_update)
  then have "nsa_ok s1" "kept p us s0 s1"
    using others nsa_ok_graph [OF ok c0] by (auto simp: others_ok_def s1_def)
  moreover have "thread_wait env p deadline e s =
      s1\<lparr>nsa_signals := (nsa_signals s1)(e := map_option (\<lambda>x. x\<lparr>es_condition := remove1 p (es_condition x)\<rparr>) (nsa_signals s1 e))\<rparr>"
    by (simp add: thread_wait_def s0_def s1_def Let_def)
  then have c2: "sig_change s1 (thread_wait env p deadline e s)"
      "es_graph (nsa_signals (thread_wait env p deadline e s)) = es_graph (nsa_signals s1)" by (simp_all add: graph_update)
  ultimately show ?thesis using kept_trans [OF kept_graph [OF c0]] kept_trans [OF _ kept_graph [OF c2]] nsa_ok_graph [OF _ c2] by blast
qed

lemma nsa_timed_wait_ok:
  assumes ok: "nsa_ok s" and others: "others_ok env p us" and e: "e \<in> ps_signals p" "e \<in> dom (nsa_signals s)"
  shows "\<exists>fired s'. nsa_timed_wait env p e microseconds s = Some (fired, s') \<and> nsa_ok s' \<and> kept p us s s'"
proof -
  from e(2) obtain x where x: "nsa_signals s e = Some x" by blast
  define s1 where "s1 = (if es_fired x \<or> microseconds = 0 then s
               else thread_wait env p (if microseconds > 0
                      then Some (es_deadline (fst (env_now env (nsa_world s))) (snd (env_now env (nsa_world s))) microseconds)
                      else None) e s)"
  have s1: "nsa_ok s1" "kept p us s s1" using thread_wait_ok [OF ok others] ok by (auto simp: s1_def)
  have "es_graph (nsa_signals s1) e = es_graph (nsa_signals s) e" using s1(2) e(1) by (simp add: kept_def)
  then obtain x1 where x1: "nsa_signals s1 e = Some x1" using x by (auto simp: es_graph_def)
  let ?s = "s1\<lparr>nsa_signals := (nsa_signals s1)(e \<mapsto> x1\<lparr>es_fired := False\<rparr>)\<rparr>"
  have "es_graph (nsa_signals ?s) = es_graph (nsa_signals s1)" using x1 by (auto simp: es_graph_def)
  then have "nsa_ok ?s" "kept p us s ?s"
    using nsa_ok_graph [OF s1(1)] kept_trans [OF s1(2) kept_graph] by (blast intro: sig_change_signals)+
  moreover have "nsa_timed_wait env p e microseconds s = Some (es_fired x1, ?s)"
    unfolding nsa_timed_wait_def using x x1 by (simp add: s1_def [symmetric])
  ultimately show ?thesis by blast
qed

section \<open>nsa_poll\<close>

lemma funpow_remove1_Nil: "(remove1 x ^^ n) [] = []"
  by (induction n) simp_all

lemma funpow_remove1_replicate: "(remove1 x ^^ n) (replicate n x) = []"
  by (induction n) (simp_all add: funpow_swap1)

lemma nsa_poll_ok:
  assumes ok: "nsa_ok s" and d: "ps_signals p \<inter> dom (nsa_signals s) = {}" and fl: "flow_fds s ufds" and others: "others_ok env p ufds"
  shows "\<exists>vs s'. nsa_poll env p ufds timeout s = Some (int (length (filter (\<lambda>v. pfd_revents v \<noteq> 0) vs)), vs, s') \<and> nsa_ok s' \<and>
     ps_signals p \<inter> dom (nsa_signals s') = {} \<and> list_all2 (answers s') ufds vs \<and> flow_fds s' ufds"
proof -
  from poll_storage_new_ok [OF ok d] obtain s1 where s1: "poll_storage_new p s = Some s1" "nsa_ok s1" "sig_change s s1"
    "dom (nsa_signals s1) = dom (nsa_signals s) \<union> ps_signals p"
    and m1: "\<And>a e. a \<in> live s \<Longrightarrow> e \<in> socket_signals a \<Longrightarrow> mine p (es_graph (nsa_signals s1)) e = []" by blast
  have p1: "ps_signals p \<subseteq> dom (nsa_signals s1)" and fl1: "flow_fds s1 ufds"
    using s1(4) fl flow_fds_change [OF s1(3)] by auto
  from poll_collect_ok [OF s1(2) p1 fl1, of 0] obtain r s2 where s2: "poll_collect p ufds 0 s1 = Some (r, s2)" "nsa_ok s2"
    "sig_change s1 s2" "dom (nsa_signals s2) = dom (nsa_signals s1)" and g2: "\<And>a. a \<in> live s1 \<Longrightarrow> gained p ufds s1 s2 a" by blast
  note c1 = sig_changeD [OF s1(3)] and c2 = sig_changeD [OF s2(3)]
  have e2: "ps_global_signal p \<in> dom (nsa_signals s2)" using p1 s2(4) by (auto simp: ps_signals_def)
  obtain s3 where s3: "(if r = 0 then do { (_, s') \<leftarrow> nsa_timed_wait env p (ps_global_signal p) (1000 * timeout) s2; Some s' }
      else Some s2) = Some s3" "nsa_ok s3" "kept p ufds s2 s3"
  proof (cases "r = 0")
    case True
    from nsa_timed_wait_ok [OF s2(2) others _ e2, of "1000 * timeout"] True that show ?thesis by auto
  next
    case False
    with s2(2) that [of s2] show ?thesis by simp
  qed
  have fl2: "flow_fds s2 ufds" using fl1 flow_fds_change [OF s2(3)] by simp
  have fl3: "flow_fds s3 ufds" using s3(3) fl2 by (simp add: kept_def)
  from poll_results_ok [OF s3(2) fl3, of p] obtain vs s4 where
    s4: "poll_results p ufds s3 = Some (int (length (filter (\<lambda>v. pfd_revents v \<noteq> 0) vs)), vs, s4)" "nsa_ok s4" "sig_change s3 s4"
      "dom (nsa_signals s4) = dom (nsa_signals s3)" "list_all2 (answers s3) ufds vs" and l4: "\<And>a. a \<in> live s3 \<Longrightarrow> lost p ufds s3 s4 a" by blast
  note c4 = sig_changeD [OF s4(3)]
  have empty: "mine p (es_graph (nsa_signals s4)) e = []" if a: "a \<in> live s4" and e: "e \<in> socket_signals a" for a e
  proof -
    have a3: "a \<in> live s3" using a c4 by simp
    from s3(3) a3 e have k: "mine p (es_graph (nsa_signals s3)) e = [] \<or> a \<in> live s1 \<and> descriptor_of s3 a = descriptor_of s1 a \<and>
        mine p (es_graph (nsa_signals s3)) e = mine p (es_graph (nsa_signals s2)) e"
      unfolding kept_def c2 by blast
    from k show ?thesis
    proof (elim disjE conjE)
      assume "mine p (es_graph (nsa_signals s3)) e = []"
      with l4 [OF a3] e show ?thesis by (auto simp: socket_signals_def lost_def funpow_remove1_Nil)
    next
      assume a1: "a \<in> live s1" "descriptor_of s3 a = descriptor_of s1 a"
        and m3: "mine p (es_graph (nsa_signals s3)) e = mine p (es_graph (nsa_signals s2)) e"
      have "mine p (es_graph (nsa_signals s1)) e = []" using m1 [OF _ e] a1(1) c1 by simp
      with g2 [OF a1(1)] l4 [OF a3] e m3 a1(2) show ?thesis
        unfolding socket_signals_def gained_def lost_def by (auto simp: funpow_remove1_replicate)
    qed
  qed
  have "ps_signals p \<subseteq> dom (es_graph (nsa_signals s3))"
  proof
    fix x assume x: "x \<in> ps_signals p"
    then have "es_graph (nsa_signals s3) x = es_graph (nsa_signals s2) x" using s3(3) by (simp add: kept_def)
    moreover have "x \<in> dom (es_graph (nsa_signals s2))" using x p1 s2(4) unfolding dom_es_graph [symmetric] by blast
    ultimately show "x \<in> dom (es_graph (nsa_signals s3))" by auto
  qed
  then have p4: "ps_signals p \<subseteq> dom (nsa_signals s4)" unfolding dom_es_graph [symmetric] s4(4) .
  have "\<forall>a \<in> live s4. \<forall>e \<in> socket_signals a. mine p (es_graph (nsa_signals s4)) e = []" using empty by blast
  from poll_storage_delete_ok [OF s4(2) p4 this] obtain s5 where s5: "poll_storage_delete p s4 = Some s5" "nsa_ok s5" "sig_change s4 s5"
    "dom (nsa_signals s5) = dom (nsa_signals s4) - ps_signals p" by blast
  have "sig_change s3 s5" using s4(3) s5(3) sig_change_trans by blast
  then have "flow_fds s5 ufds" using fl3 flow_fds_change by blast
  moreover have "answers s5 = answers s3" using \<open>sig_change s3 s5\<close> by (intro ext) (rule answers_change)
  then have "list_all2 (answers s5) ufds vs" using s4(5) by simp
  moreover have "nsa_poll env p ufds timeout s = Some (int (length (filter (\<lambda>v. pfd_revents v \<noteq> 0) vs)), vs, s5)"
    using s1(1) s2(1) s3(1) s4(1) s5(1) by (simp add: nsa_poll_def split: if_splits)
  ultimately show ?thesis using s5(2,4) by auto
qed

end
