(* ===== verification/Socket_Calls.thy ===== *)
theory Socket_Calls
  imports Socket_Poll
begin

text \<open>
  The calls of \<open>neat-socketapi.c\<close>, with \<open>nsa_initialize\<close>, \<open>nsa_cleanup\<close> and \<open>nsa_connectx_internal\<close> of
  \<open>neat-socketapi-internals.c\<close>. A call takes the state, and the thread \<open>p\<close> when it may wait, and returns
  its result and the state; \<open>errno\<close> is part of the state. The configuration is the one with
  \<open>HAVE_NETINET_SCTP_H\<close>.
\<close>

section \<open>Helpers\<close>

text \<open>\<open>GET_NEAT_SOCKET\<close>.\<close>

definition get_neat_socket :: "int \<Rightarrow> 'k nsa \<Rightarrow> (nat \<Rightarrow> neat_socket \<Rightarrow> (int \<times> 'k nsa) option) \<Rightarrow> (int \<times> 'k nsa) option" where
  "get_neat_socket sockfd s body = do {
     r \<leftarrow> nsa_get_socket_for_descriptor sockfd s;
     case r of
       None \<Rightarrow> Some (- 1, s\<lparr>nsa_errno := E_BADF\<rparr>)
     | Some a \<Rightarrow> do { k \<leftarrow> nsa_sockets s a; body a k } }"

definition fail :: "nsa_errno \<Rightarrow> 'k nsa \<Rightarrow> (int \<times> 'k nsa) option" where
  "fail e s = Some (- 1, s\<lparr>nsa_errno := e\<rparr>)"

definition sys_call :: "'k nsa_env \<Rightarrow> string \<Rightarrow> int list \<Rightarrow> 'k nsa \<Rightarrow> int \<times> 'k nsa" where
  "sys_call env name args s = (case env_sys env name args (nsa_world s) of
     (r, e, w) \<Rightarrow> (r, s\<lparr>nsa_world := w, nsa_errno := (case e of None \<Rightarrow> nsa_errno s | Some x \<Rightarrow> x)\<rparr>))"

definition sys_pair :: "'k nsa_env \<Rightarrow> string \<Rightarrow> int list \<Rightarrow> 'k nsa \<Rightarrow> (int \<times> int) option \<times> 'k nsa" where
  "sys_pair env name args s = (case env_pair env name args (nsa_world s) of
     (r, e, w) \<Rightarrow> (r, s\<lparr>nsa_world := w, nsa_errno := (case e of None \<Rightarrow> nsa_errno s | Some x \<Rightarrow> x)\<rparr>))"

definition sys_close :: "'k nsa_env \<Rightarrow> int \<Rightarrow> 'k nsa \<Rightarrow> 'k nsa" where
  "sys_close env sd s = s\<lparr>nsa_world := env_close env sd (nsa_world s)\<rparr>"

text \<open>A call into the core: the callbacks it makes run before it returns.\<close>

definition core_call :: "'r \<times> (nat \<times> core_notice) list \<times> 'k \<Rightarrow> 'k nsa \<Rightarrow> ('r \<times> 'k nsa) option" where
  "core_call res s = (case res of (r, ns, w) \<Rightarrow> do { s1 \<leftarrow> core_notify_all ns (s\<lparr>nsa_world := w\<rparr>); Some (r, s1) })"

definition ntohs :: "u16 \<Rightarrow> u16" where
  "ntohs x = push_bit 8 x OR drop_bit 8 x"

definition get_socklen :: "sockaddr \<Rightarrow> nat" where
  "get_socklen address = (case sa_family address of AF_INET \<Rightarrow> 16 | AF_INET6 \<Rightarrow> 28 | AF_OTHER \<Rightarrow> 0)"

definition get_port :: "sockaddr option \<Rightarrow> int" where
  "get_port address = (case address of
      None \<Rightarrow> - 1
    | Some x \<Rightarrow> (case sa_family x of AF_OTHER \<Rightarrow> - 1 | _ \<Rightarrow> uint (ntohs (sa_port x))))"

section \<open>Initialisation\<close>

definition nsa_map_socket :: "'k nsa_env \<Rightarrow> int \<Rightarrow> int \<Rightarrow> 'k nsa \<Rightarrow> (int \<times> 'k nsa) option" where
  "nsa_map_socket env systemSD neatSD s = nsa_socket_internal env 0 0 0 systemSD None neatSD s"

definition nsa_unmap_socket :: "'k nsa_env \<Rightarrow> int \<Rightarrow> 'k nsa \<Rightarrow> (int \<times> 'k nsa) option" where
  "nsa_unmap_socket env neatSD s = nsa_close env neatSD s"

text \<open>
  \<open>nsa_cleanup\<close>: the main loop thread is told to end and joined, the standard descriptors are unmapped
  and everything is released. Sockets that the application has left open are not closed.
\<close>

definition stop_main_loop :: "'k nsa_env \<Rightarrow> 'k nsa \<Rightarrow> 'k nsa" where
  "stop_main_loop env s =
     (let s1 = (if nsi_main_loop_thread s then nsa_notify_main_loop s\<lparr>nsi_main_loop_thread := False\<rparr> else s);
          s2 = (if fst (nsi_main_loop_pipe s1) \<ge> 0 then sys_close env (fst (nsi_main_loop_pipe s1)) s1 else s1);
          s3 = (if snd (nsi_main_loop_pipe s2) \<ge> 0 then sys_close env (snd (nsi_main_loop_pipe s2)) s2 else s2)
      in s3\<lparr>nsi_main_loop_pipe := (- 1, - 1)\<rparr>)"

definition free_internals :: "'k nsa_env \<Rightarrow> 'k nsa \<Rightarrow> 'k nsa" where
  "free_internals env s =
     (let s1 = (if nsi_neat_context s then snd (sys_call env ''neat_free_ctx'' [] s)\<lparr>nsi_neat_context := False\<rparr> else s)
      in s1\<lparr>nsi_socket_identifier_bitmap := ibm_delete (nsi_socket_identifier_bitmap s1),
            nsi_socket_set := rbt_delete (nsi_socket_set s1), nsi_allocated := False\<rparr>)"

definition nsa_cleanup :: "'k nsa_env \<Rightarrow> 'k nsa \<Rightarrow> 'k nsa option" where
  "nsa_cleanup env s =
     (if \<not> nsi_allocated s then Some s
      else do {
        (_, s1) \<leftarrow> nsa_unmap_socket env 2 (stop_main_loop env s);
        (_, s2) \<leftarrow> nsa_unmap_socket env 0 s1;
        (_, s3) \<leftarrow> nsa_unmap_socket env 1 s2;
        Some (free_internals env s3) })"

text \<open>Setting up the pipe of the main loop and starting its thread.\<close>

definition set_non_blocking :: "'k nsa_env \<Rightarrow> int \<Rightarrow> 'k nsa \<Rightarrow> bool \<times> 'k nsa" where
  "set_non_blocking env sd s = (case sys_call env ''fcntl F_GETFL'' [sd] s of (flags, s1) \<Rightarrow>
     if flags = - 1 then (False, s1)
     else case sys_call env ''fcntl F_SETFL'' [sd, or flags 2048] s1 of (r, s2) \<Rightarrow> (r = 0, s2))"

definition start_main_loop :: "'k nsa_env \<Rightarrow> 'k nsa \<Rightarrow> bool \<times> 'k nsa" where
  "start_main_loop env s = (case sys_pair env ''pipe'' [] s of
      (None, s1) \<Rightarrow> (False, s1)
    | (Some fds, s1) \<Rightarrow>
        (let s2 = snd (set_non_blocking env (fst fds) (s1\<lparr>nsi_main_loop_pipe := fds\<rparr>));
             s3 = snd (set_non_blocking env (snd fds) s2)
         in case sys_call env ''pthread_create'' [] s3 of (t, s4) \<Rightarrow>
              if t = 0 then (True, s4\<lparr>nsi_main_loop_thread := True\<rparr>) else (False, s4)))"

text \<open>
  The standard descriptors. The assertions that map them are only evaluated when assertions are compiled in.
\<close>

definition map_standard :: "'k nsa_env \<Rightarrow> 'k nsa \<Rightarrow> 'k nsa option" where
  "map_standard env s = do {
     (d1, s1) \<leftarrow> nsa_map_socket env 1 1 s;
     c_assert (d1 = 1);
     (d0, s2) \<leftarrow> nsa_map_socket env 0 0 s1;
     c_assert (d0 = 0);
     (d2, s3) \<leftarrow> nsa_map_socket env 2 2 s2;
     c_assert (d2 = 2);
     Some s3 }"

text \<open>
  \<open>nsa_initialize\<close>. The bitmap and the tree of a state that is not allocated are memory without content.
\<close>

definition nsa_initialize :: "'k nsa_env \<Rightarrow> 'k nsa \<Rightarrow> (bool \<times> 'k nsa) option" where
  "nsa_initialize env s =
     (let give_up = (\<lambda>s. do { s1 \<leftarrow> nsa_cleanup env s; Some (False, s1) })
      in if nsi_allocated s then Some (True, s)
      else case sys_call env ''calloc'' [] s of (m, s0) \<Rightarrow>
        if m = 0 then give_up s0
        else case sys_call env ''malloc'' [] (s0\<lparr>nsi_allocated := True, nsi_neat_context := False, nsi_main_loop_thread := False,
               nsi_main_loop_pipe := (- 1, - 1), nsi_socket_set := rbt_new (nsi_socket_set s0)\<rparr>) of (b, s1) \<Rightarrow>
          case ibm_new (b \<noteq> 0) 1024 of
            None \<Rightarrow> give_up s1
          | Some bm \<Rightarrow>
              (case sys_call env ''neat_init_ctx'' [] (s1\<lparr>nsi_socket_identifier_bitmap := bm\<rparr>) of (c, s2) \<Rightarrow>
                 if c = 0 then give_up s2
                 else do {
                   s3 \<leftarrow> map_standard env (s2\<lparr>nsi_neat_context := True\<rparr>);
                   case start_main_loop env s3 of (started, s4) \<Rightarrow> if started then Some (True, s4) else give_up s4 }))"

definition nsa_init :: "'k nsa_env \<Rightarrow> 'k nsa \<Rightarrow> (int \<times> 'k nsa) option" where
  "nsa_init env s = do { (ok, s1) \<leftarrow> nsa_initialize env s; Some (if ok then 0 else - 1, s1) }"

section \<open>Sockets\<close>

definition nsa_socket :: "'k nsa_env \<Rightarrow> int \<Rightarrow> int \<Rightarrow> int \<Rightarrow> string option \<Rightarrow> 'k nsa \<Rightarrow> (int \<times> 'k nsa) option" where
  "nsa_socket env domain type protocol properties s = do {
     (ok, s1) \<leftarrow> nsa_initialize env s;
     if ok
     then (case properties of
             Some props \<Rightarrow>
               (case env_new_flow env (\<lambda>f. nsa_flows s1 f \<noteq> None) (nsa_world s1) of
                  (None, w) \<Rightarrow> fail E_INVAL (s1\<lparr>nsa_world := w\<rparr>)
                | (Some f, w) \<Rightarrow>
                    (case env_set_property env f props w of (c, w') \<Rightarrow>
                       let s2 = s1\<lparr>nsa_world := w', nsa_flows := (nsa_flows s1)(f \<mapsto> \<lparr>cf_operations = no_ops, cf_closed = False\<rparr>)\<rparr>
                       in if c = NEAT_OK then nsa_socket_internal env 0 0 0 (- 1) (Some f) (- 1) s2
                          else do { s3 \<leftarrow> neat_close env f s2; fail E_INVAL s3 }))
           | None \<Rightarrow> nsa_socket_internal env domain type protocol (- 1) None (- 1) s1)
     else fail E_NXIO s1 }"

text \<open>Two system descriptors that become two sockets (\<open>nsa_socketpair\<close> and \<open>nsa_pipe\<close> share this text).\<close>

definition map_pair :: "'k nsa_env \<Rightarrow> int \<times> int \<Rightarrow> int \<times> int \<Rightarrow> 'k nsa \<Rightarrow> (int \<times> (int \<times> int) \<times> 'k nsa) option" where
  "map_pair env sv fds s = do {
     (d0, s1) \<leftarrow> nsa_socket_internal env 0 0 0 (fst fds) None (- 1) s;
     if d0 \<ge> 0
     then do {
       (d1, s2) \<leftarrow> nsa_socket_internal env 0 0 0 (snd fds) None (- 1) s1;
       if d1 \<ge> 0 then Some (0, (d0, d1), s2)
       else do {
         (_, s3) \<leftarrow> nsa_close env d0 s2;
         Some (- 1, (- 1, d1), sys_close env (snd fds) (sys_close env (fst fds) (s3\<lparr>nsa_errno := E_NOMEM\<rparr>))) } }
     else Some (- 1, (d0, snd sv), sys_close env (snd fds) (sys_close env (fst fds) (s1\<lparr>nsa_errno := E_NOMEM\<rparr>))) }"

definition nsa_socketpair ::
  "'k nsa_env \<Rightarrow> int \<Rightarrow> int \<Rightarrow> int \<Rightarrow> int \<times> int \<Rightarrow> 'k nsa \<Rightarrow> (int \<times> (int \<times> int) \<times> 'k nsa) option" where
  "nsa_socketpair env domain type protocol sv s = do {
     (ok, s1) \<leftarrow> nsa_initialize env s;
     if ok
     then (case sys_pair env ''socketpair'' [domain, type, protocol] s1 of
             (None, s2) \<Rightarrow> Some (- 1, sv, s2)
           | (Some fds, s2) \<Rightarrow> map_pair env sv fds s2)
     else Some (- 1, sv, s1\<lparr>nsa_errno := E_NXIO\<rparr>) }"

text \<open>\<open>nsa_fcntl\<close>: only the blocking mode is looked at; \<open>O_NONBLOCK\<close> is 2048 on Linux.\<close>

definition O_NONBLOCK :: u64 where "O_NONBLOCK = 2048"

definition nsa_fcntl :: "int \<Rightarrow> bool \<Rightarrow> u64 \<Rightarrow> 'k nsa \<Rightarrow> (int \<times> 'k nsa) option" where
  "nsa_fcntl sockfd is_getfl arg s = get_neat_socket sockfd s (\<lambda>a k.
     if is_getfl then Some (if ns_flags k AND NSAF_NONBLOCKING \<noteq> 0 then uint O_NONBLOCK else 0, s)
     else Some (0, if arg AND O_NONBLOCK \<noteq> 0 then set_flag a NSAF_NONBLOCKING s else clear_flag a NSAF_NONBLOCKING s))"

section \<open>Binding and connecting\<close>

text \<open>\<open>copy_options\<close> on the options of socket \<open>a\<close>; the count is the length of the array.\<close>

definition copy_options :: "'k nsa_env \<Rightarrow> nat \<Rightarrow> neat_tlv list option \<Rightarrow> 'k nsa \<Rightarrow> (int \<times> 'k nsa) option" where
  "copy_options env a newOptions s = do {
     k \<leftarrow> nsa_sockets s a;
     let s1 = (if ns_options k = None then s else modify_socket a (\<lambda>k. k\<lparr>ns_options := None, ns_optcount := 0\<rparr>) s);
     case newOptions of
       None \<Rightarrow> Some (0, s1)
     | Some opts \<Rightarrow>
         (case env_malloc env (length opts) (nsa_world s1) of
            (False, w) \<Rightarrow> fail E_NOMEM (s1\<lparr>nsa_world := w\<rparr>)
          | (True, w) \<Rightarrow> Some (0, modify_socket a (\<lambda>k. k\<lparr>ns_options := Some opts, ns_optcount := int (length opts)\<rparr>) (s1\<lparr>nsa_world := w\<rparr>))) }"

definition set_port :: "nat \<Rightarrow> int \<Rightarrow> 'k nsa \<Rightarrow> 'k nsa" where
  "set_port a port s = modify_socket a (\<lambda>k. k\<lparr>ns_port := word_of_int port\<rparr>) s"

definition nsa_bindn :: "'k nsa_env \<Rightarrow> int \<Rightarrow> u16 \<Rightarrow> neat_tlv list option \<Rightarrow> 'k nsa \<Rightarrow> (int \<times> 'k nsa) option" where
  "nsa_bindn env sockfd port opt s = get_neat_socket sockfd s (\<lambda>a k.
     if ns_flow k \<noteq> None
     then do {
       (r, s1) \<leftarrow> copy_options env a opt s;
       if r < 0 then Some (- 1, s1) else Some (0, set_port a (uint port) s1) }
     else fail E_NOTSUP s)"

text \<open>\<open>addresses\<close> is the array of addresses (the pointer of an empty one is not followed), \<open>ptr\<close> its address.\<close>

definition nsa_bindx :: "'k nsa_env \<Rightarrow> int \<Rightarrow> int \<Rightarrow> sockaddr list \<Rightarrow> int \<Rightarrow> neat_tlv list option \<Rightarrow> 'k nsa \<Rightarrow> (int \<times> 'k nsa) option" where
  "nsa_bindx env sockfd ptr addresses flags opt s = get_neat_socket sockfd s (\<lambda>a k.
     if ns_flow k \<noteq> None
     then (case addresses of
             [] \<Rightarrow> fail E_INVAL s
           | x # _ \<Rightarrow> do {
               (r, s1) \<leftarrow> copy_options env a opt s;
               if r < 0 then Some (- 1, s1) else Some (0, set_port a (get_port (Some x)) s1) })
     else (case addresses of
             [x] \<Rightarrow> if flags = 0 then Some (sys_call env ''bind'' [ns_socket_sd k, ptr, int (get_socklen x)] s)
                    else Some (sys_call env ''sctp_bindx'' [ns_socket_sd k, ptr, 1, flags] s)
           | _ \<Rightarrow> Some (sys_call env ''sctp_bindx'' [ns_socket_sd k, ptr, int (length addresses), flags] s)))"

definition nsa_bind :: "'k nsa_env \<Rightarrow> int \<Rightarrow> int \<Rightarrow> sockaddr \<Rightarrow> neat_tlv list option \<Rightarrow> 'k nsa \<Rightarrow> (int \<times> 'k nsa) option" where
  "nsa_bind env sockfd ptr addr opt s = nsa_bindx env sockfd ptr [addr] 0 opt s"

text \<open>The end of \<open>nsa_connectx_internal\<close>: the return value and \<open>errno\<close> for the result of the core.\<close>

definition connect_result :: "neat_error_code \<Rightarrow> 'k nsa \<Rightarrow> (int \<times> 'k nsa) option" where
  "connect_result result s = (case result of
      NEAT_OK \<Rightarrow> Some (0, s)
    | NEAT_ERROR_WOULD_BLOCK \<Rightarrow> fail E_INPROGRESS s
    | NEAT_ERROR_IO \<Rightarrow> fail E_IO s
    | NEAT_ERROR_OUT_OF_MEMORY \<Rightarrow> fail E_NOMEM s
    | _ \<Rightarrow> fail E_NOENT s)"

definition nsa_connectx_internal ::
  "'k nsa_env \<Rightarrow> nat \<Rightarrow> nat \<Rightarrow> string \<Rightarrow> u16 \<Rightarrow> neat_tlv list option \<Rightarrow> 'k nsa \<Rightarrow> (int \<times> 'k nsa) option" where
  "nsa_connectx_internal env p a name port opt s = do {
     k0 \<leftarrow> nsa_sockets s a;
     f \<leftarrow> ns_flow k0;
     (result, s1) \<leftarrow> core_call (env_open env f name port opt (nsa_world s)) s;
     k \<leftarrow> nsa_sockets s1 a;
     if result = NEAT_OK \<and> ns_flags k AND NSAF_NONBLOCKING = 0
     then do {
       s2 \<leftarrow> clear_signal (read_signal a) (nsa_notify_main_loop s1);
       s3 \<leftarrow> nsa_set_socket_event_on_read a True s2;
       (_, s4) \<leftarrow> nsa_wait_for_event env p a POLLIN (- 1) s3;
       r \<leftarrow> nsa_get_socket_for_descriptor (ns_descriptor k) s4;
       if r \<noteq> Some a then fail E_BADF s4
       else do {
         k4 \<leftarrow> nsa_sockets s4 a;
         s5 \<leftarrow> clear_signal (read_signal a) s4;
         connect_result (if ns_flags k4 AND NSAF_BAD \<noteq> 0 then NEAT_ERROR_IO else NEAT_OK) s5 } }
     else do {
       s2 \<leftarrow> clear_signal (read_signal a) s1;
       connect_result (if result = NEAT_OK then NEAT_ERROR_WOULD_BLOCK else result) s2 } }"

definition nsa_connectn ::
  "'k nsa_env \<Rightarrow> nat \<Rightarrow> int \<Rightarrow> string \<Rightarrow> u16 \<Rightarrow> neat_tlv list option \<Rightarrow> 'k nsa \<Rightarrow> (int \<times> 'k nsa) option" where
  "nsa_connectn env p sockfd name port opt s = get_neat_socket sockfd s (\<lambda>a k.
     if ns_flow k \<noteq> None then nsa_connectx_internal env p a name port opt s else fail E_NOTSUP s)"

text \<open>\<open>getnameinfo\<close> gives the numeric host and service, the latter read back as a number.\<close>

definition nsa_connectx ::
  "'k nsa_env \<Rightarrow> nat \<Rightarrow> int \<Rightarrow> int \<Rightarrow> sockaddr list \<Rightarrow> int \<Rightarrow> neat_tlv list option \<Rightarrow> 'k nsa \<Rightarrow> (int \<times> 'k nsa) option" where
  "nsa_connectx env p sockfd ptr addresses idp opt s = get_neat_socket sockfd s (\<lambda>a k.
     if ns_flow k \<noteq> None
     then (case addresses of
             [] \<Rightarrow> fail E_INVAL s
           | x # _ \<Rightarrow>
               (case env_getnameinfo env x (nsa_world s) of
                  (None, w) \<Rightarrow> fail E_INVAL (s\<lparr>nsa_world := w\<rparr>)
                | (Some (host, port), w) \<Rightarrow> nsa_connectx_internal env p a host port opt (s\<lparr>nsa_world := w\<rparr>)))
     else (case addresses of
             [x] \<Rightarrow> if idp = 0 then Some (sys_call env ''connect'' [ns_socket_sd k, ptr, int (get_socklen x)] s)
                    else Some (sys_call env ''sctp_connectx'' [ns_socket_sd k, ptr, 1, idp] s)
           | _ \<Rightarrow> Some (sys_call env ''sctp_connectx'' [ns_socket_sd k, ptr, int (length addresses), idp] s)))"

definition nsa_connect ::
  "'k nsa_env \<Rightarrow> nat \<Rightarrow> int \<Rightarrow> int \<Rightarrow> sockaddr \<Rightarrow> neat_tlv list option \<Rightarrow> 'k nsa \<Rightarrow> (int \<times> 'k nsa) option" where
  "nsa_connect env p sockfd ptr addr opt s = nsa_connectx env p sockfd ptr [addr] 0 opt s"

section \<open>Listening and accepting\<close>

definition listen_result :: "neat_error_code \<Rightarrow> 'k nsa \<Rightarrow> (int \<times> 'k nsa) option" where
  "listen_result result s = (case result of
      NEAT_OK \<Rightarrow> Some (0, s)
    | NEAT_ERROR_UNABLE \<Rightarrow> fail E_OPNOTSUPP s
    | NEAT_ERROR_BAD_ARGUMENT \<Rightarrow> fail E_INVAL s
    | NEAT_ERROR_OUT_OF_MEMORY \<Rightarrow> fail E_NOMEM s
    | _ \<Rightarrow> fail E_NOENT s)"

definition nsa_listen :: "'k nsa_env \<Rightarrow> int \<Rightarrow> int \<Rightarrow> 'k nsa \<Rightarrow> (int \<times> 'k nsa) option" where
  "nsa_listen env sockfd backlog s = get_neat_socket sockfd s (\<lambda>a k.
     case ns_flow k of
       None \<Rightarrow> Some (sys_call env ''listen'' [ns_socket_sd k, backlog] s)
     | Some f \<Rightarrow> do {
         (result, s1) \<leftarrow> (if ns_flags k AND NSAF_LISTENING = 0
                         then core_call (env_accept env f (ns_port k) (ns_options k) (nsa_world s)) s
                         else Some (NEAT_OK, s));
         let s2 = (if result = NEAT_OK
                   then (let s' = modify_socket a (\<lambda>k. k\<lparr>ns_listen_backlog := backlog\<rparr>) s1
                         in if backlog > 0 then set_flag a NSAF_LISTENING s' else clear_flag a NSAF_LISTENING s')
                   else s1);
         listen_result result s2 })"

text \<open>The addresses of a flow; \<open>sctp_getladdrs\<close> is given the descriptor of the socket API.\<close>

definition nsa_getlpaddrs :: "'k nsa_env \<Rightarrow> int \<Rightarrow> int \<Rightarrow> bool \<Rightarrow> 'k nsa \<Rightarrow> ((int \<times> sockaddr list) \<times> 'k nsa) option" where
  "nsa_getlpaddrs env sockfd assoc local s = do {
     r \<leftarrow> nsa_get_socket_for_descriptor sockfd s;
     case r of
       None \<Rightarrow> Some ((- 1, []), s\<lparr>nsa_errno := E_BADF\<rparr>)
     | Some a \<Rightarrow> do {
         k \<leftarrow> nsa_sockets s a;
         case ns_flow k of
           Some f \<Rightarrow> (case env_getlpaddrs env f local (nsa_world s) of
              (None, w) \<Rightarrow> Some ((- 1, []), s\<lparr>nsa_world := w\<rparr>)
            | (Some xs, w) \<Rightarrow> Some ((int (length xs), xs), s\<lparr>nsa_world := w\<rparr>))
         | None \<Rightarrow> (case sys_call env (if local then ''sctp_getladdrs'' else ''sctp_getpaddrs'') [sockfd, assoc] s of
              (n, s1) \<Rightarrow> Some ((n, []), s1)) } }"

definition nsa_getladdrs :: "'k nsa_env \<Rightarrow> int \<Rightarrow> int \<Rightarrow> 'k nsa \<Rightarrow> ((int \<times> sockaddr list) \<times> 'k nsa) option" where
  "nsa_getladdrs env sockfd assoc s = nsa_getlpaddrs env sockfd assoc True s"

definition nsa_getpaddrs :: "'k nsa_env \<Rightarrow> int \<Rightarrow> int \<Rightarrow> 'k nsa \<Rightarrow> ((int \<times> sockaddr list) \<times> 'k nsa) option" where
  "nsa_getpaddrs env sockfd assoc s = nsa_getlpaddrs env sockfd assoc False s"

text \<open>\<open>nsa_getlpname\<close>: the first address and the length that is written, for a buffer of \<open>namelen\<close> bytes.\<close>

definition nsa_getlpname :: "'k nsa_env \<Rightarrow> int \<Rightarrow> nat \<Rightarrow> bool \<Rightarrow> 'k nsa \<Rightarrow> ((int \<times> (sockaddr \<times> nat) option) \<times> 'k nsa) option" where
  "nsa_getlpname env sockfd namelen local s =
     (if namelen \<ge> 16
      then do {
        (r, s1) \<leftarrow> nsa_getlpaddrs env sockfd 0 local s;
        case r of
          (n, x # xs) \<Rightarrow> if n > 0 then Some ((0, Some (x, min namelen (get_socklen x))), s1)
                         else Some ((- 1, None), s1\<lparr>nsa_errno := E_BADF\<rparr>)
        | (n, []) \<Rightarrow> if n > 0 then None else Some ((- 1, None), s1\<lparr>nsa_errno := E_BADF\<rparr>) }
      else Some ((- 1, None), s\<lparr>nsa_errno := E_INVAL\<rparr>))"

definition nsa_getsockname :: "'k nsa_env \<Rightarrow> int \<Rightarrow> nat \<Rightarrow> 'k nsa \<Rightarrow> ((int \<times> (sockaddr \<times> nat) option) \<times> 'k nsa) option" where
  "nsa_getsockname env sockfd namelen s = nsa_getlpname env sockfd namelen True s"

definition nsa_getpeername :: "'k nsa_env \<Rightarrow> int \<Rightarrow> nat \<Rightarrow> 'k nsa \<Rightarrow> ((int \<times> (sockaddr \<times> nat) option) \<times> 'k nsa) option" where
  "nsa_getpeername env sockfd namelen s = nsa_getlpname env sockfd namelen False s"

text \<open>
  The wait for a connection in \<open>nsa_accept4\<close>: the result says whether the socket is still there.
  A spurious wake-up repeats the wait, so the number of rounds is bounded by fuel.
\<close>

fun await_connection :: "nat \<Rightarrow> 'k nsa_env \<Rightarrow> nat \<Rightarrow> int \<Rightarrow> nat \<Rightarrow> 'k nsa \<Rightarrow> (bool \<times> 'k nsa) option" where
  "await_connection 0 env p sockfd a s = None"
| "await_connection (Suc n) env p sockfd a s = do {
     k \<leftarrow> nsa_sockets s a;
     if ns_accept_list k \<noteq> [] \<or> ns_flags k AND NSAF_NONBLOCKING \<noteq> 0 then Some (True, s)
     else do {
       s1 \<leftarrow> clear_signal (read_signal a) s;
       s2 \<leftarrow> nsa_set_socket_event_on_read a True s1;
       (_, s3) \<leftarrow> nsa_wait_for_event env p a POLLIN (- 1) s2;
       r \<leftarrow> nsa_get_socket_for_descriptor sockfd s3;
       if r \<noteq> Some a then Some (False, s3\<lparr>nsa_errno := E_BADF\<rparr>)
       else await_connection n env p sockfd a s3 } }"

text \<open>
  Taking the first socket from the accept list: \<open>socket_flags\<close> is what \<open>fcntl\<close> of the system is asked to
  set, on the descriptor of the socket API.
\<close>

definition SOCK_NONBLOCK :: u32 where "SOCK_NONBLOCK = 2048"
definition SOCK_CLOEXEC :: u32 where "SOCK_CLOEXEC = 524288"

definition take_connection :: "'k nsa_env \<Rightarrow> nat \<Rightarrow> nat option \<Rightarrow> u32 \<Rightarrow> 'k nsa \<Rightarrow> (int \<times> nat option \<times> 'k nsa) option" where
  "take_connection env a addrlen flags s = do {
     k \<leftarrow> nsa_sockets s a;
     case ns_accept_list k of
       [] \<Rightarrow> Some (- 1, addrlen, s)
     | n # rest \<Rightarrow> do {
         kn \<leftarrow> nsa_sockets s n;
         let s1 = modify_socket n (\<lambda>k. k\<lparr>ns_acceptor := None\<rparr>) (modify_socket a (\<lambda>k. k\<lparr>ns_accept_list := rest\<rparr>) s);
         let s2 = (if flags \<noteq> 0
                   then (case sys_call env ''fcntl F_GETFL'' [ns_descriptor kn] s1 of (fl, s') \<Rightarrow>
                      snd (sys_call env ''fcntl F_SETFL'' [ns_descriptor kn,
                        or (or fl (if flags AND SOCK_NONBLOCK \<noteq> 0 then 2048 else 0)) (if flags AND SOCK_CLOEXEC \<noteq> 0 then 524288 else 0)] s'))
                   else s1);
         case addrlen of
           None \<Rightarrow> Some (ns_descriptor kn, None, s2)
         | Some len \<Rightarrow> do {
             (r, s3) \<leftarrow> nsa_getpeername env (ns_descriptor kn) len s2;
             Some (ns_descriptor kn, Some (case snd r of None \<Rightarrow> 0 | Some (_, l) \<Rightarrow> l), s3) } } }"

text \<open>The end of \<open>nsa_accept4\<close>: take a connection, and reset the event when it was the last one.\<close>

definition finish_accept :: "'k nsa_env \<Rightarrow> nat \<Rightarrow> nat option \<Rightarrow> u32 \<Rightarrow> 'k nsa \<Rightarrow> (int \<times> nat option \<times> 'k nsa) option" where
  "finish_accept env a addrlen flags s = do {
     (result, len, s1) \<leftarrow> take_connection env a addrlen flags s;
     k \<leftarrow> nsa_sockets s1 a;
     s2 \<leftarrow> (if ns_accept_list k = [] then clear_signal (read_signal a) (clear_flag a NSAF_READABLE s1) else Some s1);
     Some (result, len, s2) }"

definition nsa_accept4 ::
  "nat \<Rightarrow> 'k nsa_env \<Rightarrow> nat \<Rightarrow> int \<Rightarrow> nat option \<Rightarrow> u32 \<Rightarrow> 'k nsa \<Rightarrow> (int \<times> nat option \<times> 'k nsa) option" where
  "nsa_accept4 fuel env p sockfd addrlen flags s = do {
     r \<leftarrow> nsa_get_socket_for_descriptor sockfd s;
     case r of
       None \<Rightarrow> Some (- 1, addrlen, s\<lparr>nsa_errno := E_BADF\<rparr>)
     | Some a \<Rightarrow> do {
         k \<leftarrow> nsa_sockets s a;
         if ns_flow k = None
         then (case sys_call env ''accept'' [ns_socket_sd k] s of (x, s1) \<Rightarrow> Some (x, addrlen, s1))
         else if (case addrlen of None \<Rightarrow> True | Some len \<Rightarrow> len = 0 \<or> len \<ge> 16)
         then (if ns_flags k AND NSAF_LISTENING \<noteq> 0
               then do {
                 (there, s1) \<leftarrow> await_connection fuel env p sockfd a s;
                 if there then finish_accept env a addrlen flags s1 else Some (- 1, addrlen, s1) }
               else Some (- 1, addrlen, s\<lparr>nsa_errno := E_OPNOTSUPP\<rparr>))
         else Some (- 1, addrlen, s\<lparr>nsa_errno := E_INVAL\<rparr>) } }"

definition nsa_accept :: "nat \<Rightarrow> 'k nsa_env \<Rightarrow> nat \<Rightarrow> int \<Rightarrow> nat option \<Rightarrow> 'k nsa \<Rightarrow> (int \<times> nat option \<times> 'k nsa) option" where
  "nsa_accept fuel env p sockfd addrlen s = nsa_accept4 fuel env p sockfd addrlen 0 s"

section \<open>Shutdown and options\<close>

definition nsa_shutdown :: "'k nsa_env \<Rightarrow> int \<Rightarrow> int \<Rightarrow> 'k nsa \<Rightarrow> (int \<times> 'k nsa) option" where
  "nsa_shutdown env sockfd how s = get_neat_socket sockfd s (\<lambda>a k.
     case ns_flow k of
       None \<Rightarrow> Some (sys_call env ''shutdown'' [ns_socket_sd k, how] s)
     | Some f \<Rightarrow> do {
         (result, s1) \<leftarrow> core_call (env_shutdown env f (nsa_world s)) s;
         case result of
           NEAT_OK \<Rightarrow> Some (0, s1)
         | NEAT_ERROR_IO \<Rightarrow> fail E_IO s1
         | _ \<Rightarrow> fail E_NOENT s1 })"

definition nsa_peeloff :: "'k nsa_env \<Rightarrow> int \<Rightarrow> int \<Rightarrow> 'k nsa \<Rightarrow> (int \<times> 'k nsa) option" where
  "nsa_peeloff env sockfd assoc s = get_neat_socket sockfd s (\<lambda>a k.
     if ns_flow k \<noteq> None then Some (0, s) else Some (sys_call env ''sctp_peeloff'' [ns_socket_sd k, assoc] s))"

text \<open>\<open>SOL_SOCKET\<close>, \<open>SO_SNDBUF\<close> and \<open>SO_RCVBUF\<close> are 1, 7 and 8 on Linux. The buffer sizes are constant.\<close>

definition nsa_getsockopt :: "'k nsa_env \<Rightarrow> int \<Rightarrow> int \<Rightarrow> int \<Rightarrow> int \<Rightarrow> nat \<Rightarrow> 'k nsa \<Rightarrow> (int \<times> (int \<times> nat) option \<times> 'k nsa) option" where
  "nsa_getsockopt env sockfd level optname ptr optlen s = do {
     r \<leftarrow> nsa_get_socket_for_descriptor sockfd s;
     case r of
       None \<Rightarrow> Some (- 1, None, s\<lparr>nsa_errno := E_BADF\<rparr>)
     | Some a \<Rightarrow> do {
         k \<leftarrow> nsa_sockets s a;
         if ns_flow k = None
         then (case sys_call env ''getsockopt'' [ns_socket_sd k, level, optname, ptr] s of (x, s1) \<Rightarrow> Some (x, None, s1))
         else if level = 1
         then (if optname = 8 \<or> optname = 7
               then (if optlen \<ge> 4 then Some (0, Some (1024 * 1024, 4), s) else Some (- 1, None, s\<lparr>nsa_errno := E_INVAL\<rparr>))
               else Some (- 1, None, s\<lparr>nsa_errno := E_OPNOTSUPP\<rparr>))
         else Some (- 1, None, s\<lparr>nsa_errno := E_OPNOTSUPP\<rparr>) } }"

definition nsa_setsockopt :: "'k nsa_env \<Rightarrow> int \<Rightarrow> int \<Rightarrow> int \<Rightarrow> int \<Rightarrow> nat \<Rightarrow> 'k nsa \<Rightarrow> (int \<times> 'k nsa) option" where
  "nsa_setsockopt env sockfd level optname ptr optlen s = get_neat_socket sockfd s (\<lambda>a k.
     if ns_flow k = None then Some (sys_call env ''setsockopt'' [ns_socket_sd k, level, optname, ptr, int optlen] s)
     else if level = 1
     then (if optname = 8 \<or> optname = 7 then (if optlen \<ge> 4 then Some (0, s) else fail E_INVAL s) else fail E_OPNOTSUPP s)
     else fail E_OPNOTSUPP s)"

definition nsa_opt_info :: "'k nsa_env \<Rightarrow> int \<Rightarrow> int \<Rightarrow> int \<Rightarrow> int \<Rightarrow> 'k nsa \<Rightarrow> (int \<times> 'k nsa) option" where
  "nsa_opt_info env sockfd assoc opt arg s = get_neat_socket sockfd s (\<lambda>a k.
     if ns_flow k \<noteq> None then fail E_OPNOTSUPP s
     else Some (sys_call env ''sctp_opt_info'' [ns_socket_sd k, assoc, opt, arg] s))"

text \<open>\<open>nsa_set_secure_identity\<close> of a flow ends in \<open>assert(false)\<close>.\<close>

definition nsa_set_secure_identity :: "int \<Rightarrow> 'k nsa \<Rightarrow> (int \<times> 'k nsa) option" where
  "nsa_set_secure_identity sockfd s = get_neat_socket sockfd s (\<lambda>a k.
     if ns_flow k \<noteq> None then None else fail E_OPNOTSUPP s)"

end
