(* ===== verification/Socket_IO.thy ===== *)
theory Socket_IO
  imports Socket_Calls
begin

text \<open>
  The transfer of data (\<open>neat-socketapi-io.c\<close>) and the calls on files and descriptors
  (\<open>neat-socketapi-file.c\<close>). A buffer is the list of its bytes; the calls on system descriptors pass
  their arguments on, a buffer as its address.
\<close>

section \<open>Sending and receiving\<close>

definition neat_writev :: "'k nsa_env \<Rightarrow> nat \<Rightarrow> u8 list list \<Rightarrow> nat \<Rightarrow> 'k nsa \<Rightarrow> (neat_error_code \<times> 'k nsa) option" where
  "neat_writev env f iov iovlen s = do {
     c_assert (iovlen = 1);
     buf \<leftarrow> (case iov of [] \<Rightarrow> None | b # _ \<Rightarrow> Some b);
     core_call (env_write env f buf (nsa_world s)) s }"

text \<open>\<open>neat_readv\<close> into a first buffer of the given length: the code and the bytes that were read.\<close>

definition neat_readv :: "'k nsa_env \<Rightarrow> nat \<Rightarrow> nat list \<Rightarrow> nat \<Rightarrow> 'k nsa \<Rightarrow> ((neat_error_code \<times> u8 list) \<times> 'k nsa) option" where
  "neat_readv env f lens iovlen s = do {
     c_assert (iovlen = 1);
     len \<leftarrow> (case lens of [] \<Rightarrow> None | l # _ \<Rightarrow> Some l);
     core_call (env_read env f len (nsa_world s)) s }"

text \<open>The sum is computed over \<open>iovlen\<close> entries; an entry past the array is undefined.\<close>

definition get_iov_sum :: "u8 list list \<Rightarrow> nat \<Rightarrow> int option" where
  "get_iov_sum iov iovlen = do { c_assert (iovlen \<le> length iov); Some (int (sum_list (map length (take iovlen iov)))) }"

definition MSG_DONTWAIT :: u32 where "MSG_DONTWAIT = 64"

definition sendmsg_result :: "neat_error_code \<Rightarrow> u8 list list \<Rightarrow> nat \<Rightarrow> 'k nsa \<Rightarrow> (int \<times> 'k nsa) option" where
  "sendmsg_result result iov iovlen s = (case result of
      NEAT_OK \<Rightarrow> do { n \<leftarrow> get_iov_sum iov iovlen; Some (n, s) }
    | NEAT_ERROR_WOULD_BLOCK \<Rightarrow> fail E_AGAIN s
    | NEAT_ERROR_IO \<Rightarrow> fail E_IO s
    | NEAT_ERROR_BAD_ARGUMENT \<Rightarrow> fail E_INVAL s
    | NEAT_ERROR_OUT_OF_MEMORY \<Rightarrow> fail E_NOMEM s
    | _ \<Rightarrow> fail E_NOENT s)"

text \<open>Asking for the next write or read event: clear the flag and the signal, enable the callback.\<close>

definition rearm_write :: "nat \<Rightarrow> 'k nsa \<Rightarrow> 'k nsa option" where
  "rearm_write a s = do {
     s1 \<leftarrow> clear_signal (write_signal a) (clear_flag a NSAF_WRITABLE s);
     nsa_set_socket_event_on_write a True s1 }"

definition rearm_read :: "nat \<Rightarrow> 'k nsa \<Rightarrow> 'k nsa option" where
  "rearm_read a s = do {
     s1 \<leftarrow> clear_signal (read_signal a) (clear_flag a NSAF_READABLE s);
     nsa_set_socket_event_on_read a True s1 }"

definition nsa_sendmsg ::
  "'k nsa_env \<Rightarrow> nat \<Rightarrow> int \<Rightarrow> u8 list list \<Rightarrow> nat \<Rightarrow> u32 \<Rightarrow> int \<Rightarrow> 'k nsa \<Rightarrow> (int \<times> 'k nsa) option" where
  "nsa_sendmsg env p sockfd iov iovlen flags ptr s = get_neat_socket sockfd s (\<lambda>a k.
     case ns_flow k of
       None \<Rightarrow> Some (sys_call env ''sendmsg'' [ns_socket_sd k, ptr, uint flags] s)
     | Some f \<Rightarrow> do {
         (r1, s1) \<leftarrow> neat_writev env f iov iovlen s;
         k1 \<leftarrow> nsa_sockets s1 a;
         (result, s2) \<leftarrow>
           (if r1 = NEAT_ERROR_WOULD_BLOCK \<and> ns_flags k1 AND NSAF_NONBLOCKING = 0 \<and> flags AND MSG_DONTWAIT = 0
            then do {
              s2 \<leftarrow> rearm_write a s1;
              (_, s3) \<leftarrow> nsa_wait_for_event env p a POLLOUT (- 1) s2;
              r \<leftarrow> nsa_get_socket_for_descriptor sockfd s3;
              if r \<noteq> Some a then Some (None, s3)
              else do {
                k3 \<leftarrow> nsa_sockets s3 a;
                f3 \<leftarrow> ns_flow k3;
                (r3, s4) \<leftarrow> neat_writev env f3 iov iovlen s3;
                Some (Some r3, s4) } }
            else Some (Some r1, s1));
         case result of
           None \<Rightarrow> fail E_BADF s2
         | Some r \<Rightarrow> do {
             s3 \<leftarrow> (if r = NEAT_ERROR_WOULD_BLOCK then rearm_write a s2 else Some s2);
             sendmsg_result r iov iovlen s3 } })"

definition recvmsg_result :: "neat_error_code \<times> u8 list \<Rightarrow> 'k nsa \<Rightarrow> (int \<times> u8 list \<times> 'k nsa) option" where
  "recvmsg_result r s =
     (let error = (\<lambda>e. Some (- 1, snd r, s\<lparr>nsa_errno := e\<rparr>))
      in case fst r of
           NEAT_OK \<Rightarrow> Some (int (length (snd r)), snd r, s)
         | NEAT_ERROR_WOULD_BLOCK \<Rightarrow> error E_AGAIN
         | NEAT_ERROR_IO \<Rightarrow> error E_IO
         | NEAT_ERROR_MESSAGE_TOO_BIG \<Rightarrow> error E_MSGSIZE
         | NEAT_ERROR_BAD_ARGUMENT \<Rightarrow> error E_INVAL
         | _ \<Rightarrow> error E_NOENT)"

text \<open>\<open>nsa_recvmsg\<close>: the result, the bytes written to the buffer of the caller and the state.\<close>

definition nsa_recvmsg ::
  "'k nsa_env \<Rightarrow> nat \<Rightarrow> int \<Rightarrow> nat list \<Rightarrow> nat \<Rightarrow> u32 \<Rightarrow> int \<Rightarrow> 'k nsa \<Rightarrow> (int \<times> u8 list \<times> 'k nsa) option" where
  "nsa_recvmsg env p sockfd lens iovlen flags ptr s = do {
     x \<leftarrow> nsa_get_socket_for_descriptor sockfd s;
     case x of
       None \<Rightarrow> Some (- 1, [], s\<lparr>nsa_errno := E_BADF\<rparr>)
     | Some a \<Rightarrow> do {
         k \<leftarrow> nsa_sockets s a;
         case ns_flow k of
           None \<Rightarrow> (case sys_call env ''recvmsg'' [ns_socket_sd k, ptr, uint flags] s of (n, s1) \<Rightarrow> Some (n, [], s1))
         | Some f \<Rightarrow> do {
             (r1, s1) \<leftarrow> neat_readv env f lens iovlen s;
             k1 \<leftarrow> nsa_sockets s1 a;
             (result, s2) \<leftarrow>
               (if fst r1 = NEAT_ERROR_WOULD_BLOCK \<and> ns_flags k1 AND NSAF_NONBLOCKING = 0 \<and> flags AND MSG_DONTWAIT = 0
                then do {
                  s2 \<leftarrow> rearm_read a s1;
                  (_, s3) \<leftarrow> nsa_wait_for_event env p a POLLIN (- 1) s2;
                  r \<leftarrow> nsa_get_socket_for_descriptor sockfd s3;
                  if r \<noteq> Some a then Some (None, s3)
                  else do {
                    k3 \<leftarrow> nsa_sockets s3 a;
                    f3 \<leftarrow> ns_flow k3;
                    (r3, s4) \<leftarrow> neat_readv env f3 lens iovlen s3;
                    Some (Some r3, s4) } }
                else Some (Some r1, s1));
             case result of
               None \<Rightarrow> Some (0, [], s2)
             | Some r \<Rightarrow> do {
                 s3 \<leftarrow> (if fst r = NEAT_ERROR_WOULD_BLOCK then rearm_read a s2 else Some s2);
                 recvmsg_result r s3 } } } }"

section \<open>The variants of write and read\<close>

definition nsa_write :: "'k nsa_env \<Rightarrow> nat \<Rightarrow> int \<Rightarrow> u8 list \<Rightarrow> int \<Rightarrow> 'k nsa \<Rightarrow> (int \<times> 'k nsa) option" where
  "nsa_write env p sockfd buf ptr s = get_neat_socket sockfd s (\<lambda>a k.
     if ns_flow k \<noteq> None then nsa_sendmsg env p sockfd [buf] 1 0 ptr s
     else Some (sys_call env ''write'' [ns_socket_sd k, ptr, int (length buf)] s))"

text \<open>\<open>nsa_writev\<close> passes the length 1, whatever the length of the vector is.\<close>

definition nsa_writev :: "'k nsa_env \<Rightarrow> nat \<Rightarrow> int \<Rightarrow> u8 list list \<Rightarrow> int \<Rightarrow> 'k nsa \<Rightarrow> (int \<times> 'k nsa) option" where
  "nsa_writev env p sockfd iov ptr s = get_neat_socket sockfd s (\<lambda>a k.
     if ns_flow k \<noteq> None then nsa_sendmsg env p sockfd iov 1 0 ptr s
     else Some (sys_call env ''writev'' [ns_socket_sd k, ptr, int (length iov)] s))"

definition nsa_pwrite :: "'k nsa_env \<Rightarrow> nat \<Rightarrow> int \<Rightarrow> u8 list \<Rightarrow> int \<Rightarrow> int \<Rightarrow> 'k nsa \<Rightarrow> (int \<times> 'k nsa) option" where
  "nsa_pwrite env p sockfd buf ptr offset s = get_neat_socket sockfd s (\<lambda>a k.
     if ns_flow k \<noteq> None then do { c_assert (offset = 0); nsa_sendmsg env p sockfd [buf] 1 0 ptr s }
     else Some (sys_call env ''pwrite'' [ns_socket_sd k, ptr, int (length buf), offset] s))"

definition nsa_pwritev :: "'k nsa_env \<Rightarrow> nat \<Rightarrow> int \<Rightarrow> u8 list list \<Rightarrow> int \<Rightarrow> int \<Rightarrow> 'k nsa \<Rightarrow> (int \<times> 'k nsa) option" where
  "nsa_pwritev env p sockfd iov ptr offset s = get_neat_socket sockfd s (\<lambda>a k.
     if ns_flow k \<noteq> None then do { c_assert (offset = 0); nsa_sendmsg env p sockfd iov (length iov) 0 ptr s }
     else Some (sys_call env ''pwritev'' [ns_socket_sd k, ptr, int (length iov), offset] s))"

definition nsa_pwrite64 :: "'k nsa_env \<Rightarrow> nat \<Rightarrow> int \<Rightarrow> u8 list \<Rightarrow> int \<Rightarrow> int \<Rightarrow> 'k nsa \<Rightarrow> (int \<times> 'k nsa) option" where
  "nsa_pwrite64 env p sockfd buf ptr offset s = get_neat_socket sockfd s (\<lambda>a k.
     if ns_flow k \<noteq> None then do { c_assert (offset = 0); nsa_sendmsg env p sockfd [buf] 1 0 ptr s }
     else Some (sys_call env ''pwrite64'' [ns_socket_sd k, ptr, int (length buf), offset] s))"

definition nsa_pwritev64 :: "'k nsa_env \<Rightarrow> nat \<Rightarrow> int \<Rightarrow> u8 list list \<Rightarrow> int \<Rightarrow> int \<Rightarrow> 'k nsa \<Rightarrow> (int \<times> 'k nsa) option" where
  "nsa_pwritev64 env p sockfd iov ptr offset s = get_neat_socket sockfd s (\<lambda>a k.
     if ns_flow k \<noteq> None then do { c_assert (offset = 0); nsa_sendmsg env p sockfd iov (length iov) 0 ptr s }
     else Some (sys_call env ''pwritev64'' [ns_socket_sd k, ptr, int (length iov), offset] s))"

definition nsa_send :: "'k nsa_env \<Rightarrow> nat \<Rightarrow> int \<Rightarrow> u8 list \<Rightarrow> u32 \<Rightarrow> int \<Rightarrow> 'k nsa \<Rightarrow> (int \<times> 'k nsa) option" where
  "nsa_send env p sockfd buf flags ptr s = nsa_sendmsg env p sockfd [buf] 1 flags ptr s"

text \<open>The address is put into the message header, which a flow ignores.\<close>

definition nsa_sendto :: "'k nsa_env \<Rightarrow> nat \<Rightarrow> int \<Rightarrow> u8 list \<Rightarrow> u32 \<Rightarrow> int \<Rightarrow> 'k nsa \<Rightarrow> (int \<times> 'k nsa) option" where
  "nsa_sendto env p sockfd buf flags ptr s = nsa_sendmsg env p sockfd [buf] 1 flags ptr s"

definition nsa_sendv :: "'k nsa_env \<Rightarrow> nat \<Rightarrow> int \<Rightarrow> u8 list list \<Rightarrow> u32 \<Rightarrow> int \<Rightarrow> 'k nsa \<Rightarrow> (int \<times> 'k nsa) option" where
  "nsa_sendv env p sockfd iov flags ptr s = nsa_sendmsg env p sockfd iov (length iov) flags ptr s"

text \<open>The reading calls: a flow, or a system descriptor with the call of the same name; \<open>count\<close> is the length
  or the number of buffers.\<close>

definition read_call ::
  "'k nsa_env \<Rightarrow> nat \<Rightarrow> string \<Rightarrow> int \<Rightarrow> nat list \<Rightarrow> int \<Rightarrow> int \<Rightarrow> int option \<Rightarrow> 'k nsa \<Rightarrow> (int \<times> u8 list \<times> 'k nsa) option" where
  "read_call env p name sockfd lens count ptr offset s = do {
     x \<leftarrow> nsa_get_socket_for_descriptor sockfd s;
     case x of
       None \<Rightarrow> Some (- 1, [], s\<lparr>nsa_errno := E_BADF\<rparr>)
     | Some a \<Rightarrow> do {
         k \<leftarrow> nsa_sockets s a;
         if ns_flow k \<noteq> None
         then do { c_assert (offset = None \<or> offset = Some 0); nsa_recvmsg env p sockfd lens (length lens) 0 ptr s }
         else (case sys_call env name ([ns_socket_sd k, ptr, count] @ (case offset of None \<Rightarrow> [] | Some o' \<Rightarrow> [o'])) s of
                 (n, s1) \<Rightarrow> Some (n, [], s1)) } }"

definition nsa_read :: "'k nsa_env \<Rightarrow> nat \<Rightarrow> int \<Rightarrow> nat \<Rightarrow> int \<Rightarrow> 'k nsa \<Rightarrow> (int \<times> u8 list \<times> 'k nsa) option" where
  "nsa_read env p sockfd len ptr s = read_call env p ''read'' sockfd [len] (int len) ptr None s"

definition nsa_readv :: "'k nsa_env \<Rightarrow> nat \<Rightarrow> int \<Rightarrow> nat list \<Rightarrow> int \<Rightarrow> 'k nsa \<Rightarrow> (int \<times> u8 list \<times> 'k nsa) option" where
  "nsa_readv env p sockfd lens ptr s = read_call env p ''readv'' sockfd lens (int (length lens)) ptr None s"

definition nsa_pread :: "'k nsa_env \<Rightarrow> nat \<Rightarrow> int \<Rightarrow> nat \<Rightarrow> int \<Rightarrow> int \<Rightarrow> 'k nsa \<Rightarrow> (int \<times> u8 list \<times> 'k nsa) option" where
  "nsa_pread env p sockfd len ptr offset s = read_call env p ''pread'' sockfd [len] (int len) ptr (Some offset) s"

definition nsa_preadv :: "'k nsa_env \<Rightarrow> nat \<Rightarrow> int \<Rightarrow> nat list \<Rightarrow> int \<Rightarrow> int \<Rightarrow> 'k nsa \<Rightarrow> (int \<times> u8 list \<times> 'k nsa) option" where
  "nsa_preadv env p sockfd lens ptr offset s = read_call env p ''preadv'' sockfd lens (int (length lens)) ptr (Some offset) s"

definition nsa_pread64 :: "'k nsa_env \<Rightarrow> nat \<Rightarrow> int \<Rightarrow> nat \<Rightarrow> int \<Rightarrow> int \<Rightarrow> 'k nsa \<Rightarrow> (int \<times> u8 list \<times> 'k nsa) option" where
  "nsa_pread64 env p sockfd len ptr offset s = read_call env p ''pread64'' sockfd [len] (int len) ptr (Some offset) s"

definition nsa_preadv64 :: "'k nsa_env \<Rightarrow> nat \<Rightarrow> int \<Rightarrow> nat list \<Rightarrow> int \<Rightarrow> int \<Rightarrow> 'k nsa \<Rightarrow> (int \<times> u8 list \<times> 'k nsa) option" where
  "nsa_preadv64 env p sockfd lens ptr offset s = read_call env p ''preadv64'' sockfd lens (int (length lens)) ptr (Some offset) s"

definition nsa_recv :: "'k nsa_env \<Rightarrow> nat \<Rightarrow> int \<Rightarrow> nat \<Rightarrow> u32 \<Rightarrow> int \<Rightarrow> 'k nsa \<Rightarrow> (int \<times> u8 list \<times> 'k nsa) option" where
  "nsa_recv env p sockfd len flags ptr s = nsa_recvmsg env p sockfd [len] 1 flags ptr s"

text \<open>\<open>nsa_recvfrom\<close> and \<open>nsa_recvv\<close> keep the result in an \<open>int\<close>; a flow does not change the length of the name.\<close>

definition nsa_recvfrom :: "'k nsa_env \<Rightarrow> nat \<Rightarrow> int \<Rightarrow> nat \<Rightarrow> u32 \<Rightarrow> int \<Rightarrow> 'k nsa \<Rightarrow> (int \<times> u8 list \<times> 'k nsa) option" where
  "nsa_recvfrom env p sockfd len flags ptr s = do {
     (n, bytes, s1) \<leftarrow> nsa_recvmsg env p sockfd [len] 1 flags ptr s;
     Some (to_int32 n, bytes, s1) }"

definition nsa_recvv :: "'k nsa_env \<Rightarrow> nat \<Rightarrow> int \<Rightarrow> nat list \<Rightarrow> int \<Rightarrow> 'k nsa \<Rightarrow> (int \<times> u8 list \<times> 'k nsa) option" where
  "nsa_recvv env p sockfd lens ptr s = do {
     (n, bytes, s1) \<leftarrow> nsa_recvmsg env p sockfd lens (length lens) 0 ptr s;
     Some (to_int32 n, bytes, s1) }"

section \<open>Files\<close>

text \<open>A new system descriptor becomes a socket (\<open>nsa_open\<close> and \<open>nsa_creat\<close> share this text).\<close>

definition map_file :: "'k nsa_env \<Rightarrow> int \<Rightarrow> 'k nsa \<Rightarrow> (int \<times> 'k nsa) option" where
  "map_file env sd s = do {
     (newFD, s1) \<leftarrow> nsa_socket_internal env 0 0 0 sd None (- 1) s;
     if newFD \<ge> 0 then Some (newFD, s1) else Some (- 1, sys_close env sd (s1\<lparr>nsa_errno := E_NOMEM\<rparr>)) }"

definition nsa_open :: "'k nsa_env \<Rightarrow> int \<Rightarrow> int \<Rightarrow> int \<Rightarrow> 'k nsa \<Rightarrow> (int \<times> 'k nsa) option" where
  "nsa_open env pathname flags mode s = do {
     (ok, s1) \<leftarrow> nsa_initialize env s;
     if ok
     then (case sys_call env ''open'' [pathname, flags, mode] s1 of (sd, s2) \<Rightarrow>
             if sd \<ge> 0 then map_file env sd s2 else Some (- 1, s2))
     else fail E_NXIO s1 }"

definition nsa_creat :: "'k nsa_env \<Rightarrow> int \<Rightarrow> int \<Rightarrow> 'k nsa \<Rightarrow> (int \<times> 'k nsa) option" where
  "nsa_creat env pathname mode s = do {
     (ok, s1) \<leftarrow> nsa_initialize env s;
     if ok
     then (case sys_call env ''creat'' [pathname, mode] s1 of (sd, s2) \<Rightarrow>
             if sd \<ge> 0 then map_file env sd s2 else Some (- 1, s2))
     else fail E_NXIO s1 }"

text \<open>The calls that a flow does not support and a system descriptor passes on.\<close>

definition file_call :: "'k nsa_env \<Rightarrow> string \<Rightarrow> int \<Rightarrow> int list \<Rightarrow> 'k nsa \<Rightarrow> (int \<times> 'k nsa) option" where
  "file_call env name sockfd args s = get_neat_socket sockfd s (\<lambda>a k.
     if ns_flow k \<noteq> None then fail E_OPNOTSUPP s else Some (sys_call env name (ns_socket_sd k # args) s))"

definition nsa_fchown :: "'k nsa_env \<Rightarrow> int \<Rightarrow> int \<Rightarrow> int \<Rightarrow> 'k nsa \<Rightarrow> (int \<times> 'k nsa) option" where
  "nsa_fchown env sockfd owner gid s = file_call env ''fchown'' sockfd [owner, gid] s"
definition nsa_fsync :: "'k nsa_env \<Rightarrow> int \<Rightarrow> 'k nsa \<Rightarrow> (int \<times> 'k nsa) option" where
  "nsa_fsync env sockfd s = file_call env ''fsync'' sockfd [] s"
definition nsa_fdatasync :: "'k nsa_env \<Rightarrow> int \<Rightarrow> 'k nsa \<Rightarrow> (int \<times> 'k nsa) option" where
  "nsa_fdatasync env sockfd s = file_call env ''fdatasync'' sockfd [] s"
definition nsa_syncfs :: "'k nsa_env \<Rightarrow> int \<Rightarrow> 'k nsa \<Rightarrow> (int \<times> 'k nsa) option" where
  "nsa_syncfs env sockfd s = file_call env ''syncfs'' sockfd [] s"
definition nsa_lockf :: "'k nsa_env \<Rightarrow> int \<Rightarrow> int \<Rightarrow> int \<Rightarrow> 'k nsa \<Rightarrow> (int \<times> 'k nsa) option" where
  "nsa_lockf env sockfd cmd len s = file_call env ''lockf'' sockfd [cmd, len] s"
definition nsa_lockf64 :: "'k nsa_env \<Rightarrow> int \<Rightarrow> int \<Rightarrow> int \<Rightarrow> 'k nsa \<Rightarrow> (int \<times> 'k nsa) option" where
  "nsa_lockf64 env sockfd cmd len s = file_call env ''lockf64'' sockfd [cmd, len] s"
definition nsa_flock :: "'k nsa_env \<Rightarrow> int \<Rightarrow> int \<Rightarrow> 'k nsa \<Rightarrow> (int \<times> 'k nsa) option" where
  "nsa_flock env sockfd operation s = file_call env ''flock'' sockfd [operation] s"
definition nsa_fstat :: "'k nsa_env \<Rightarrow> int \<Rightarrow> int \<Rightarrow> 'k nsa \<Rightarrow> (int \<times> 'k nsa) option" where
  "nsa_fstat env sockfd buf s = file_call env ''fstat'' sockfd [buf] s"
definition nsa_fpathconf :: "'k nsa_env \<Rightarrow> int \<Rightarrow> int \<Rightarrow> 'k nsa \<Rightarrow> (int \<times> 'k nsa) option" where
  "nsa_fpathconf env sockfd name s = file_call env ''fpathconf'' sockfd [name] s"
definition nsa_lseek :: "'k nsa_env \<Rightarrow> int \<Rightarrow> int \<Rightarrow> int \<Rightarrow> 'k nsa \<Rightarrow> (int \<times> 'k nsa) option" where
  "nsa_lseek env sockfd offset whence s = file_call env ''lseek'' sockfd [offset, whence] s"
definition nsa_lseek64 :: "'k nsa_env \<Rightarrow> int \<Rightarrow> int \<Rightarrow> int \<Rightarrow> 'k nsa \<Rightarrow> (int \<times> 'k nsa) option" where
  "nsa_lseek64 env sockfd offset whence s = file_call env ''lseek64'' sockfd [offset, whence] s"
definition nsa_ftruncate :: "'k nsa_env \<Rightarrow> int \<Rightarrow> int \<Rightarrow> 'k nsa \<Rightarrow> (int \<times> 'k nsa) option" where
  "nsa_ftruncate env sockfd len s = file_call env ''ftruncate'' sockfd [len] s"
definition nsa_ftruncate64 :: "'k nsa_env \<Rightarrow> int \<Rightarrow> int \<Rightarrow> 'k nsa \<Rightarrow> (int \<times> 'k nsa) option" where
  "nsa_ftruncate64 env sockfd len s = file_call env ''ftruncate64'' sockfd [len] s"

text \<open>\<open>nsa_ioctl\<close> passes the descriptor of the socket API as the request.\<close>

definition nsa_ioctl :: "'k nsa_env \<Rightarrow> int \<Rightarrow> int \<Rightarrow> int \<Rightarrow> 'k nsa \<Rightarrow> (int \<times> 'k nsa) option" where
  "nsa_ioctl env sockfd request argp s = file_call env ''ioctl'' sockfd [sockfd, request, argp] s"

section \<open>Duplication\<close>

definition nsa_dup :: "'k nsa_env \<Rightarrow> int \<Rightarrow> 'k nsa \<Rightarrow> (int \<times> 'k nsa) option" where
  "nsa_dup env oldfd s = get_neat_socket oldfd s (\<lambda>a k.
     if ns_flow k \<noteq> None then fail E_OPNOTSUPP s
     else case sys_call env ''dup'' [ns_socket_sd k] s of (sd, s1) \<Rightarrow>
       if sd \<ge> 0
       then do {
         (result, s2) \<leftarrow> nsa_socket_internal env 0 0 0 sd None (- 1) s1;
         if result \<ge> 0 then Some (result, s2) else Some (- 1, sys_close env sd s2) }
       else Some (- 1, s1))"

text \<open>The common part of \<open>nsa_dup2\<close> and \<open>nsa_dup3\<close>: the socket on the new descriptor is closed first.\<close>

definition dup_to :: "'k nsa_env \<Rightarrow> int \<Rightarrow> int \<Rightarrow> 'k nsa \<Rightarrow> (int \<times> 'k nsa) option" where
  "dup_to env sd newfd s = do {
     (_, s1) \<leftarrow> nsa_close env newfd s;
     (result, s2) \<leftarrow> nsa_socket_internal env 0 0 0 sd None newfd s1;
     if result \<ge> 0 then Some (result, s2) else Some (- 1, sys_close env sd s2) }"

definition nsa_dup2 :: "'k nsa_env \<Rightarrow> int \<Rightarrow> int \<Rightarrow> 'k nsa \<Rightarrow> (int \<times> 'k nsa) option" where
  "nsa_dup2 env oldfd newfd s = get_neat_socket oldfd s (\<lambda>a k.
     if ns_flow k \<noteq> None then fail E_OPNOTSUPP s
     else if oldfd = newfd then fail E_OPNOTSUPP s
     else case sys_call env ''dup'' [ns_socket_sd k] s of (sd, s1) \<Rightarrow>
       if sd \<ge> 0 then dup_to env sd newfd s1 else Some (- 1, s1))"

text \<open>\<open>nsa_dup3\<close> compares the descriptors after it has duplicated the system descriptor.\<close>

definition nsa_dup3 :: "'k nsa_env \<Rightarrow> int \<Rightarrow> int \<Rightarrow> 'k nsa \<Rightarrow> (int \<times> 'k nsa) option" where
  "nsa_dup3 env oldfd newfd s = get_neat_socket oldfd s (\<lambda>a k.
     if ns_flow k \<noteq> None then fail E_OPNOTSUPP s
     else case sys_call env ''dup'' [ns_socket_sd k] s of (sd, s1) \<Rightarrow>
       if sd \<ge> 0
       then (if oldfd = newfd then fail E_OPNOTSUPP s1 else dup_to env sd newfd s1)
       else Some (- 1, s1))"

definition nsa_pipe :: "'k nsa_env \<Rightarrow> int \<times> int \<Rightarrow> 'k nsa \<Rightarrow> (int \<times> (int \<times> int) \<times> 'k nsa) option" where
  "nsa_pipe env fds s = do {
     (ok, s1) \<leftarrow> nsa_initialize env s;
     if ok
     then (case sys_pair env ''pipe'' [] s1 of
             (None, s2) \<Rightarrow> Some (- 1, fds, s2)
           | (Some sys, s2) \<Rightarrow> map_pair env fds sys s2)
     else Some (- 1, fds, s1\<lparr>nsa_errno := E_NXIO\<rparr>) }"

end
