(* ===== verification/Socket_Safe.thy ===== *)
theory Socket_Safe
  imports Socket_IO
begin

text \<open>
  Every call of the socket API returns, in a state that satisfies the invariant, to a state that
  satisfies it: no assertion fails, no freed socket is used and no loop runs forever, as long as the
  environment keeps its promises.
\<close>

section \<open>Changes that the invariant does not see\<close>

lemma nsa_ok_cong:
  assumes ok: "nsa_ok s" and "nsa_sockets s' = nsa_sockets s" and "nsi_socket_set s' = nsi_socket_set s"
    and "nsi_socket_identifier_bitmap s' = nsi_socket_identifier_bitmap s" and "nsa_signals s' = nsa_signals s"
    and "nsa_flows s' = nsa_flows s"
  shows "nsa_ok s'"
proof -
  have "nsa_inv {} {} s'" by (rule nsa_inv_cong [of _ _ s]) (use ok assms(2-6) in \<open>simp_all add: nsa_ok_def\<close>)
  moreover have "users_ok s'" by (rule users_ok_sockets [of s]) (use ok assms(2,6) in \<open>simp_all add: nsa_ok_def\<close>)
  ultimately show ?thesis by (simp add: nsa_ok_def)
qed

lemma nsa_ok_simps [simp]:
  "nsa_ok (s\<lparr>nsa_errno := e\<rparr>) = nsa_ok s" "nsa_ok (s\<lparr>nsa_world := w\<rparr>) = nsa_ok s" "nsa_ok (s\<lparr>nsa_wakeups := n\<rparr>) = nsa_ok s"
  "nsa_ok (s\<lparr>nsi_main_loop_pipe := q\<rparr>) = nsa_ok s" "nsa_ok (s\<lparr>nsi_main_loop_thread := b\<rparr>) = nsa_ok s"
  "nsa_ok (s\<lparr>nsi_neat_context := b\<rparr>) = nsa_ok s" "nsa_ok (s\<lparr>nsi_allocated := b\<rparr>) = nsa_ok s"
  by (rule iffI; rule nsa_ok_cong; assumption?; simp)+

text \<open>Results that are defined and keep the invariant.\<close>

definition safe :: "('r \<times> 'k nsa) option \<Rightarrow> bool" where
  "safe x \<longleftrightarrow> (\<exists>r s'. x = Some (r, s') \<and> nsa_ok s')"

lemma safe_Some [simp]: "safe (Some (r, s)) = nsa_ok s"
  by (simp add: safe_def)

lemma safe_bind: "safe x \<Longrightarrow> (\<And>r s. nsa_ok s \<Longrightarrow> x = Some (r, s) \<Longrightarrow> safe (f (r, s))) \<Longrightarrow> safe (x \<bind> f)"
  by (auto simp: safe_def)

lemma safe_fail [simp]: "nsa_ok s \<Longrightarrow> safe (fail e s)"
  by (simp add: fail_def)

lemma safe_sys_call [simp]: "safe (Some (sys_call env name args s)) = nsa_ok s"
  by (simp add: sys_call_def split: prod.splits)

lemma nsa_ok_sys_call: "sys_call env name args s = (r, s') \<Longrightarrow> nsa_ok s' = nsa_ok s"
  by (auto simp: sys_call_def split: prod.splits)

lemma nsa_ok_sys_pair: "sys_pair env name args s = (r, s') \<Longrightarrow> nsa_ok s' = nsa_ok s"
  by (auto simp: sys_pair_def split: prod.splits)

lemma nsa_ok_sys_close [simp]: "nsa_ok (sys_close env sd s) = nsa_ok s"
  by (simp add: sys_close_def)

lemma safe_get_neat_socket:
  assumes ok: "nsa_ok s" and body: "\<And>a k. nsa_sockets s a = Some k \<Longrightarrow> ns_descriptor k = d \<Longrightarrow> safe (body a k)"
  shows "safe (get_neat_socket d s body)"
proof -
  have inv: "nsa_inv {} {} s" using ok by (simp add: nsa_ok_def)
  show ?thesis
  proof (cases rule: lookup_cases [OF inv, of d, case_names none some])
    case none
    with ok show ?thesis by (simp add: get_neat_socket_def)
  next
    case (some a k)
    with body show ?thesis by (simp add: get_neat_socket_def)
  qed
qed

section \<open>Sockets that appear and go\<close>

lemma nsa_close_safe:
  assumes ok: "nsa_ok s"
  shows "safe (nsa_close env d s)"
proof (cases "d \<in> descriptors s")
  case False
  have "nsa_close env d s = Some (- 1, s\<lparr>nsa_errno := E_BADF\<rparr>)"
    by (rule nsa_close_unknown) (use ok False in \<open>auto simp: nsa_ok_def\<close>)
  with ok show ?thesis by simp
next
  case True
  then obtain x where x: "x \<in> live s" "d = descriptor_of s x" by blast
  have inv: "nsa_inv {} {} s" and users: "users_ok s" using ok by (auto simp: nsa_ok_def)
  from nsa_close_live [OF inv x(1), of env] x(2) obtain s' where
    s': "nsa_close env d s = Some (0, s')" "nsa_inv {} {} s'" "shrinks {} s s'" by blast
  have "users_ok s'"
    unfolding users_ok_def
  proof (intro allI impI)
    fix f cf assume "nsa_flows s' f = Some cf"
    moreover have "nsa_flows s' \<subseteq>\<^sub>m nsa_flows s" using s'(3) by (simp add: shrinks_def)
    ultimately have f: "nsa_flows s f = Some cf" by (metis domI map_le_def)
    show "case ops_userData (cf_operations cf) of None \<Rightarrow> cf_operations cf = no_ops
        | Some a \<Rightarrow> \<exists>k. nsa_sockets s' a = Some k \<and> ns_flow k = Some f"
    proof (cases "ops_userData (cf_operations cf)")
      case None
      with users_ok_no_ops [OF users f] show ?thesis by simp
    next
      case (Some a)
      from users_okD [OF users f Some] obtain k where k: "nsa_sockets s a = Some k" "ns_flow k = Some f" by blast
      have "a \<in> live s'" using s'(3) k \<open>nsa_flows s' f = Some cf\<close> unfolding shrinks_def by fastforce
      then obtain k' where k': "nsa_sockets s' a = Some k'" by blast
      from shrinks_socket [OF s'(3) k'] k obtain ys where "k' = k\<lparr>ns_accept_list := ys\<rparr>" by auto
      with Some k k' show ?thesis by simp
    qed
  qed
  with s' show ?thesis by (simp add: safe_def nsa_ok_def)
qed

lemma create_safe:
  assumes ok: "nsa_ok s" and env: "calloc_ok env" and r: "requestedSD < 1024"
  shows "safe (nsa_socket_internal env domain type protocol customFD None requestedSD s)"
proof -
  have inv: "nsa_inv {} {} s" and users: "users_ok s" using ok by (auto simp: nsa_ok_def)
  have nf: "\<forall>f. None = Some f \<longrightarrow> flow_free s f" by simp
  from nsa_socket_internal_ok [OF inv env nf r, of domain type protocol customFD] obtain d s' where
    s': "nsa_socket_internal env domain type protocol customFD None requestedSD s = Some (d, s')" "nsa_inv {} {} s'"
      "nsa_sockets s' = nsa_sockets s \<or> (\<exists>a k. nsa_sockets s a = None \<and> nsa_sockets s' = (nsa_sockets s)(a \<mapsto> k))"
      "\<forall>q. nsa_flows s' q = nsa_flows s q" by auto
  have "nsa_flows s' = nsa_flows s" using s'(4) by blast
  then have "users_ok s'" by (rule users_ok_sockets [OF users]) (use s'(3) in \<open>auto split: if_splits\<close>)
  with s'(1,2) show ?thesis by (simp add: safe_def nsa_ok_def)
qed

text \<open>A new flow without a socket is closed again without a callback.\<close>

lemma neat_close_unused:
  assumes ok: "nsa_ok s" and f: "nsa_flows s f = None"
  shows "\<exists>s'. neat_close env f (s\<lparr>nsa_world := w, nsa_flows := (nsa_flows s)(f \<mapsto> \<lparr>cf_operations = no_ops, cf_closed = False\<rparr>)\<rparr>) = Some s' \<and> nsa_ok s'"
proof -
  let ?s = "s\<lparr>nsa_world := w, nsa_flows := (nsa_flows s)(f \<mapsto> \<lparr>cf_operations = no_ops, cf_closed = False\<rparr>)\<rparr>"
  obtain n where n: "close_depth ?s = Suc n" by (cases "close_depth ?s") (simp_all add: close_depth_def)
  have "((nsa_flows s)(f := None)) = nsa_flows s" using f by (simp add: fun_upd_idem)
  then have "neat_close env f ?s = Some (s\<lparr>nsa_world := env_close_flow env f w, nsa_flows := nsa_flows s\<rparr>)"
    unfolding neat_close_def n by (simp add: no_ops_def)
  moreover have "nsa_ok (s\<lparr>nsa_world := env_close_flow env f w, nsa_flows := nsa_flows s\<rparr>)"
    by (rule nsa_ok_cong [OF ok]) simp_all
  ultimately show ?thesis by blast
qed

section \<open>Calls into the core\<close>

lemma core_call_ok:
  assumes "nsa_ok s"
  shows "\<exists>s'. core_call (r, ns, w) s = Some (r, s') \<and> nsa_ok s' \<and> same_sockets s s'"
proof -
  have "nsa_ok (s\<lparr>nsa_world := w\<rparr>)" using assms by simp
  from core_notify_all_ok [OF this, of ns] obtain s' where
    "core_notify_all ns (s\<lparr>nsa_world := w\<rparr>) = Some s'" "nsa_ok s'" "same_sockets (s\<lparr>nsa_world := w\<rparr>) s'" by blast
  moreover have "same_sockets s (s\<lparr>nsa_world := w\<rparr>)" by (simp add: same_sockets_def)
  ultimately show ?thesis using same_sockets_trans by (auto simp: core_call_def)
qed

lemma core_call_ok':
  assumes "nsa_ok s"
  shows "\<exists>s'. core_call res s = Some (fst res, s') \<and> nsa_ok s' \<and> same_sockets s s'"
  using core_call_ok [OF assms] by (cases res; cases "snd res") auto

text \<open>The invariant under changes of one socket that its relations to the others do not see.\<close>

lemma reports_ok: "nsa_ok s \<Longrightarrow> reports F s \<Longrightarrow> \<exists>s'. F s = Some s' \<and> nsa_ok s' \<and> same_sockets s s'"
  using nsa_ok_frame by (fastforce simp: reports_def)

lemma nsa_ok_modify:
  assumes ok: "nsa_ok s"
    and f: "\<And>k. ns_descriptor (F k) = ns_descriptor k" "\<And>k. ns_flow (F k) = ns_flow k" "\<And>k. ns_flow_ops (F k) = ns_flow_ops k"
      "\<And>k. ns_accept_list (F k) = ns_accept_list k" "\<And>k. ns_acceptor (F k) = ns_acceptor k" "\<And>k. ns_notifications (F k) = ns_notifications k"
  shows "nsa_ok (modify_socket a F s)"
proof -
  let ?s = "modify_socket a F s"
  have sk: "sockets_ok {} {} s" and inv: "nsa_inv {} {} s" using ok by (auto simp: nsa_ok_def nsa_inv_def)
  have other: "\<exists>kx'. nsa_sockets ?s x = Some kx' \<and> ns_acceptor kx' = ns_acceptor kx \<and> ns_accept_list kx' = ns_accept_list kx \<and> ns_flow kx' = ns_flow kx"
    if "nsa_sockets s x = Some kx" for x kx using that f by auto
  have "sockets_ok {} {} ?s"
    unfolding sockets_ok_def
  proof (intro allI impI)
    fix b kb assume "nsa_sockets ?s b = Some kb"
    then obtain k0 where k0: "nsa_sockets s b = Some k0" "kb = (if b = a then F k0 else k0)" by (auto split: if_splits)
    note o = sockets_okD [OF sk k0(1)]
    have e: "ns_flow kb = ns_flow k0" "ns_flow_ops kb = ns_flow_ops k0" "ns_accept_list kb = ns_accept_list k0"
      "ns_acceptor kb = ns_acceptor k0" "ns_notifications kb = ns_notifications k0" using k0(2) f by auto
    have "accept_ok {} {} ?s b kb"
      unfolding accept_ok_def e
    proof (intro conjI ballI allI impI)
      show "distinct (ns_accept_list k0)" using o by (simp add: socket_ok_def accept_ok_def)
      fix x assume x: "x \<in> set (ns_accept_list k0)"
      show "x \<notin> {}" by simp
      from x o obtain kx where kx: "nsa_sockets s x = Some kx" "ns_acceptor kx = Some b"
        unfolding socket_ok_def accept_ok_def by blast
      from other [OF kx(1)] kx(2) show "\<exists>kx. nsa_sockets ?s x = Some kx \<and> ns_acceptor kx = Some b" by auto
    next
      fix q assume "ns_acceptor k0 = Some q"
      with o obtain kp where kp: "nsa_sockets s q = Some kp" "b \<in> set (ns_accept_list kp)"
        unfolding socket_ok_def accept_ok_def by blast
      from other [OF kp(1)] kp(2) show "\<exists>kp. nsa_sockets ?s q = Some kp \<and> (b \<notin> {} \<longrightarrow> b \<in> set (ns_accept_list kp))" by auto
    qed
    with o show "socket_ok {} {} ?s b kb" by (simp add: socket_ok_def flow_ok_def e)
  qed
  then have "nsa_inv {} {} ?s" by (rule nsa_inv_sockets [OF inv, rotated -1]) (auto simp: f)
  moreover have "users_ok ?s"
    by (rule users_ok_sockets [of s]) (use ok f(2) in \<open>auto simp: nsa_ok_def\<close>)
  ultimately show ?thesis by (simp add: nsa_ok_def)
qed

lemma nsa_ok_set_flag: "nsa_ok s \<Longrightarrow> nsa_ok (set_flag a x s)"
  unfolding set_flag_def by (rule nsa_ok_modify) simp_all

lemma nsa_ok_clear_flag: "nsa_ok s \<Longrightarrow> nsa_ok (clear_flag a x s)"
  unfolding clear_flag_def by (rule nsa_ok_modify) simp_all

section \<open>Simple calls\<close>

lemma nsa_fcntl_safe: "nsa_ok s \<Longrightarrow> safe (nsa_fcntl sockfd is_getfl arg s)"
  unfolding nsa_fcntl_def by (rule safe_get_neat_socket) (simp_all add: nsa_ok_set_flag nsa_ok_clear_flag)

lemma copy_options_safe:
  assumes "nsa_ok s" and "nsa_sockets s a = Some k"
  shows "safe (copy_options env a opt s)"
proof -
  let ?s = "if ns_options k = None then s else modify_socket a (\<lambda>k. k\<lparr>ns_options := None, ns_optcount := 0\<rparr>) s"
  have "nsa_ok ?s" using assms(1) by (auto intro: nsa_ok_modify)
  then show ?thesis
    using assms(2) unfolding copy_options_def Let_def
    by (auto simp: nsa_ok_modify split: option.splits prod.splits bool.splits)
qed

lemma bind_common_safe:
  assumes "nsa_ok s" and "nsa_sockets s a = Some k"
  shows "safe (do { (r, s1) \<leftarrow> copy_options env a opt s; if r < 0 then Some (- 1, s1) else Some (0, set_port a port s1) })"
proof -
  from copy_options_safe [OF assms, of env opt] obtain r s1 where "copy_options env a opt s = Some (r, s1)" "nsa_ok s1"
    by (auto simp: safe_def)
  then show ?thesis by (simp add: set_port_def nsa_ok_modify)
qed

lemma nsa_bindn_safe: "nsa_ok s \<Longrightarrow> safe (nsa_bindn env sockfd port opt s)"
  unfolding nsa_bindn_def by (rule safe_get_neat_socket) (simp_all add: bind_common_safe)

lemma nsa_bindx_safe: "nsa_ok s \<Longrightarrow> safe (nsa_bindx env sockfd ptr addresses flags opt s)"
  unfolding nsa_bindx_def
  by (rule safe_get_neat_socket) (auto simp: bind_common_safe split: list.splits)

lemma nsa_listen_safe:
  assumes ok: "nsa_ok s"
  shows "safe (nsa_listen env sockfd backlog s)"
  unfolding nsa_listen_def
proof (rule safe_get_neat_socket [OF ok])
  fix a k
  have res: "safe (listen_result r s1)" if "nsa_ok s1" for r and s1 :: "'a nsa"
    using that by (simp add: listen_result_def split: neat_error_code.splits)
  show "safe (case ns_flow k of None \<Rightarrow> Some (sys_call env ''listen'' [ns_socket_sd k, backlog] s)
     | Some f \<Rightarrow> do {
         (result, s1) \<leftarrow> (if ns_flags k AND NSAF_LISTENING = 0
                         then core_call (env_accept env f (ns_port k) (ns_options k) (nsa_world s)) s
                         else Some (NEAT_OK, s));
         let s2 = (if result = NEAT_OK
                   then (let s' = modify_socket a (\<lambda>k. k\<lparr>ns_listen_backlog := backlog\<rparr>) s1
                         in if backlog > 0 then set_flag a NSAF_LISTENING s' else clear_flag a NSAF_LISTENING s')
                   else s1);
         listen_result result s2 })"
  proof (cases "ns_flow k")
    case None
    with ok show ?thesis by simp
  next
    case (Some f)
    from core_call_ok' [OF ok, of "env_accept env f (ns_port k) (ns_options k) (nsa_world s)"] obtain s1 where
      "core_call (env_accept env f (ns_port k) (ns_options k) (nsa_world s)) s = Some (fst (env_accept env f (ns_port k) (ns_options k) (nsa_world s)), s1)"
      "nsa_ok s1" by blast
    with Some ok show ?thesis by (auto simp: res Let_def nsa_ok_set_flag nsa_ok_clear_flag nsa_ok_modify)
  qed
qed

lemma nsa_shutdown_safe:
  assumes ok: "nsa_ok s"
  shows "safe (nsa_shutdown env sockfd how s)"
  unfolding nsa_shutdown_def
proof (rule safe_get_neat_socket [OF ok])
  fix a k
  show "safe (case ns_flow k of None \<Rightarrow> Some (sys_call env ''shutdown'' [ns_socket_sd k, how] s)
     | Some f \<Rightarrow> do {
         (result, s1) \<leftarrow> core_call (env_shutdown env f (nsa_world s)) s;
         case result of
           NEAT_OK \<Rightarrow> Some (0, s1)
         | NEAT_ERROR_IO \<Rightarrow> fail E_IO s1
         | _ \<Rightarrow> fail E_NOENT s1 })"
  proof (cases "ns_flow k")
    case None
    with ok show ?thesis by simp
  next
    case (Some f)
    from core_call_ok' [OF ok, of "env_shutdown env f (nsa_world s)"] Some show ?thesis
      by (auto split: neat_error_code.splits)
  qed
qed

lemma option_calls_safe:
  assumes "nsa_ok s"
  shows "safe (nsa_setsockopt env sockfd level optname ptr optlen s)" and "safe (nsa_opt_info env sockfd assoc opt arg s)"
    and "safe (nsa_peeloff env sockfd assoc s)" and "safe (file_call env name sockfd args s)"
  unfolding nsa_setsockopt_def nsa_opt_info_def nsa_peeloff_def file_call_def
  by (rule safe_get_neat_socket [OF assms]; use assms in simp)+

section \<open>Duplicates and pairs\<close>

lemma dup_to_safe:
  assumes ok: "nsa_ok s" and env: "calloc_ok env" and "newfd < 1024"
  shows "safe (dup_to env sd newfd s)"
proof -
  from nsa_close_safe [OF ok, of env newfd] obtain r s1 where s1: "nsa_close env newfd s = Some (r, s1)" "nsa_ok s1"
    by (auto simp: safe_def)
  from create_safe [OF s1(2) env assms(3), of 0 0 0 sd] obtain d s2 where
    "nsa_socket_internal env 0 0 0 sd None newfd s1 = Some (d, s2)" "nsa_ok s2" by (auto simp: safe_def)
  with s1 show ?thesis by (simp add: dup_to_def)
qed

lemma create_any_safe:
  assumes "nsa_ok s" and "calloc_ok env"
  shows "safe (nsa_socket_internal env domain type protocol customFD None (- 1) s)"
  by (rule create_safe [OF assms]) simp

lemma nsa_dup_safe:
  assumes ok: "nsa_ok s" and env: "calloc_ok env"
  shows "safe (nsa_dup env oldfd s)"
  unfolding nsa_dup_def
proof (rule safe_get_neat_socket [OF ok])
  fix a k
  obtain sd s1 where s1: "sys_call env ''dup'' [ns_socket_sd k] s = (sd, s1)" by fastforce
  with ok have ok1: "nsa_ok s1" using nsa_ok_sys_call by blast
  from create_any_safe [OF ok1 env, of 0 0 0 sd] obtain d s2 where
    "nsa_socket_internal env 0 0 0 sd None (- 1) s1 = Some (d, s2)" "nsa_ok s2" by (auto simp: safe_def)
  with s1 ok ok1 show "safe (if ns_flow k \<noteq> None then fail E_OPNOTSUPP s
     else case sys_call env ''dup'' [ns_socket_sd k] s of (sd, s1) \<Rightarrow>
       if sd \<ge> 0
       then do {
         (result, s2) \<leftarrow> nsa_socket_internal env 0 0 0 sd None (- 1) s1;
         if result \<ge> 0 then Some (result, s2) else Some (- 1, sys_close env sd s2) }
       else Some (- 1, s1))" by simp
qed

lemma nsa_dup2_safe:
  assumes ok: "nsa_ok s" and env: "calloc_ok env" and n: "newfd < 1024"
  shows "safe (nsa_dup2 env oldfd newfd s)" and "safe (nsa_dup3 env oldfd newfd s)"
  unfolding nsa_dup2_def nsa_dup3_def
  by (rule safe_get_neat_socket [OF ok];
      use ok in \<open>auto simp: nsa_ok_sys_call dup_to_safe [OF _ env n] split: prod.splits dest: nsa_ok_sys_call\<close>)+

definition safe3 :: "('r \<times> 'q \<times> 'k nsa) option \<Rightarrow> bool" where
  "safe3 x \<longleftrightarrow> (\<exists>r q s'. x = Some (r, q, s') \<and> nsa_ok s')"

lemma map_pair_safe:
  assumes ok: "nsa_ok s" and env: "calloc_ok env"
  shows "safe3 (map_pair env sv fds s)"
proof -
  from create_any_safe [OF ok env, of 0 0 0 "fst fds"] obtain d0 s1 where
    s1: "nsa_socket_internal env 0 0 0 (fst fds) None (- 1) s = Some (d0, s1)" "nsa_ok s1" by (auto simp: safe_def)
  from create_any_safe [OF s1(2) env, of 0 0 0 "snd fds"] obtain d1 s2 where
    s2: "nsa_socket_internal env 0 0 0 (snd fds) None (- 1) s1 = Some (d1, s2)" "nsa_ok s2" by (auto simp: safe_def)
  from nsa_close_safe [OF s2(2), of env d0] obtain r s3 where "nsa_close env d0 s2 = Some (r, s3)" "nsa_ok s3"
    by (auto simp: safe_def)
  with s1 s2 show ?thesis by (simp add: map_pair_def safe3_def)
qed

section \<open>Waiting\<close>

definition idle :: "nat \<Rightarrow> 'k nsa \<Rightarrow> bool" where
  "idle p s \<longleftrightarrow> ps_signals p \<inter> dom (nsa_signals s) = {}"

lemma same_sockets_idle: "same_sockets s s' \<Longrightarrow> idle p s' = idle p s"
  using es_graph_dom [of "nsa_signals s'" "nsa_signals s"] by (simp add: same_sockets_def idle_def)

definition entry :: "int \<Rightarrow> u16 \<Rightarrow> pollfd" where
  "entry d ev = \<lparr>pfd_fd = d, pfd_events = ev, pfd_revents = 0\<rparr>"

lemma flow_fds_entry:
  assumes inv: "nsa_inv {} {} s" and k: "nsa_sockets s a = Some k" "ns_flow k \<noteq> None"
  shows "flow_fds s [entry (ns_descriptor k) ev]"
proof -
  have "kb = k" if "nsa_sockets s b = Some kb" "ns_descriptor kb = ns_descriptor k" for b kb
  proof -
    have "descriptor_of s b = descriptor_of s a" using that k by (simp add: descriptor_of_def)
    moreover have "a \<in> live s" "b \<in> live s" using that k by auto
    moreover have "inj_on (descriptor_of s) (live s)" using inv by (simp add: nsa_inv_def ids_ok_def)
    ultimately have "b = a" by (metis inj_onD)
    with that k show ?thesis by simp
  qed
  with k(2) show ?thesis by (auto simp: flow_fds_def entry_def)
qed

lemma nsa_wait_for_event_ok:
  assumes ok: "nsa_ok s" and i: "idle p s" and k: "nsa_sockets s a = Some k" "ns_flow k \<noteq> None"
    and others: "others_ok env p [entry (ns_descriptor k) ev]"
  shows "\<exists>v s'. nsa_wait_for_event env p a ev t s = Some (v, s') \<and> nsa_ok s' \<and> idle p s' \<and> flow_fds s' [entry (ns_descriptor k) ev]"
proof -
  have inv: "nsa_inv {} {} s" using ok by (simp add: nsa_ok_def)
  have d: "ps_signals p \<inter> dom (nsa_signals s) = {}" using i by (simp add: idle_def)
  from nsa_poll_ok [OF ok d flow_fds_entry [OF inv k] others, of t] obtain vs s' where
    s': "nsa_poll env p [entry (ns_descriptor k) ev] t s = Some (int (length (filter (\<lambda>v. pfd_revents v \<noteq> 0) vs)), vs, s')"
      "nsa_ok s'" "idle p s'" "list_all2 (answers s') [entry (ns_descriptor k) ev] vs" "flow_fds s' [entry (ns_descriptor k) ev]"
    unfolding idle_def by blast
  from s'(4) obtain v where "vs = [v]" by (auto simp: list_all2_Cons1)
  with s' k show ?thesis by (simp add: nsa_wait_for_event_def entry_def [symmetric])
qed

text \<open>After the wait the descriptor either names the same address, which then has a flow, or it does not.\<close>

lemma after_wait:
  assumes ok: "nsa_ok s" and fl: "flow_fds s [entry d ev]"
  shows "\<exists>r. nsa_get_socket_for_descriptor d s = Some r \<and>
     (r = Some a \<longrightarrow> (\<exists>k f. nsa_sockets s a = Some k \<and> ns_flow k = Some f \<and> ns_descriptor k = d))"
proof -
  have inv: "nsa_inv {} {} s" using ok by (simp add: nsa_ok_def)
  show ?thesis
  proof (cases rule: lookup_cases [OF inv, of d, case_names none some])
    case none
    then show ?thesis by simp
  next
    case (some b k)
    with fl show ?thesis by (auto simp: flow_fds_def entry_def)
  qed
qed

lemma same_sockets_kept:
  assumes "same_sockets s s'" and "nsa_sockets s a = Some k"
  shows "\<exists>k'. nsa_sockets s' a = Some k' \<and> ns_flow k' = ns_flow k \<and> ns_descriptor k' = ns_descriptor k"
proof -
  from same_sockets_socket [OF assms] obtain k' where "nsa_sockets s' a = Some k'" "core_of k' = core_of k" by blast
  then show ?thesis using core_of_eqD(1,2) by blast
qed

text \<open>The waiting part that the blocking calls share: ask for an event, wait for it, look the descriptor up again.\<close>

lemma ask_and_wait:
  assumes "\<exists>s2. asked = Some s2 \<and> nsa_ok s2 \<and> same_sockets s s2" and i: "idle p s"
    and k: "nsa_sockets s a = Some k" "ns_flow k \<noteq> None" "ns_descriptor k = d" and others: "others_ok env p [entry d ev]"
  shows "\<exists>s2 v s3 x. asked = Some s2 \<and> nsa_wait_for_event env p a ev (- 1) s2 = Some (v, s3) \<and> nsa_ok s3 \<and> idle p s3 \<and>
     nsa_get_socket_for_descriptor d s3 = Some x \<and>
     (x = Some a \<longrightarrow> (\<exists>k f. nsa_sockets s3 a = Some k \<and> ns_flow k = Some f \<and> ns_descriptor k = d))"
proof -
  from assms(1) obtain s2 where s2: "asked = Some s2" "nsa_ok s2" "same_sockets s s2" by blast
  have i2: "idle p s2" using i same_sockets_idle [OF s2(3)] by simp
  from same_sockets_kept [OF s2(3) k(1)] k obtain k2 where
    k2: "nsa_sockets s2 a = Some k2" "ns_flow k2 \<noteq> None" "ns_descriptor k2 = d" by auto
  from nsa_wait_for_event_ok [OF s2(2) i2 k2(1,2), of env ev "- 1"] k2(3) others obtain v s3 where
    s3: "nsa_wait_for_event env p a ev (- 1) s2 = Some (v, s3)" "nsa_ok s3" "idle p s3" "flow_fds s3 [entry d ev]" by auto
  from after_wait [OF s3(2,4), of a] s2 s3 show ?thesis by blast
qed

section \<open>Sending\<close>

lemma rearm_ok:
  assumes ok: "nsa_ok s" and k: "nsa_sockets s a = Some k" "ns_flow k = Some f"
  shows "\<exists>s'. rearm_write a s = Some s' \<and> nsa_ok s' \<and> same_sockets s s'" and "\<exists>s'. rearm_read a s = Some s' \<and> nsa_ok s' \<and> same_sockets s s'"
proof -
  have inv: "nsa_inv {} {} s" and al: "a \<in> live s" using ok k by (auto simp: nsa_ok_def)
  have flag: "reports (\<lambda>s. do { s1 \<leftarrow> Some (clear_flag a x s); clear_signal e s1 }) s" if "e \<in> {read_signal a, write_signal a}" for e x
  proof (rule reports_bind [OF reports_unflag [OF inv]])
    fix s1 assume s1: "nsa_inv {} {} s1" "same_sockets s s1"
    then have "a \<in> live s1" using al same_sockets_live by blast
    with live_signals [OF s1(1)] that show "reports (clear_signal e) s1" by (intro reports_clear [OF s1(1)]) blast
  qed
  have "reports (\<lambda>s. do { s1 \<leftarrow> clear_signal (write_signal a) (clear_flag a NSAF_WRITABLE s); nsa_set_socket_event_on_write a True s1 }) s"
    by (rule reports_bind) (use flag [of "write_signal a"] same_sockets_flow [OF _ k] reports_event(2) in \<open>simp, blast\<close>)
  then show "\<exists>s'. rearm_write a s = Some s' \<and> nsa_ok s' \<and> same_sockets s s'"
    using reports_ok [OF ok] by (simp add: rearm_write_def)
  have "reports (\<lambda>s. do { s1 \<leftarrow> clear_signal (read_signal a) (clear_flag a NSAF_READABLE s); nsa_set_socket_event_on_read a True s1 }) s"
    by (rule reports_bind) (use flag [of "read_signal a"] same_sockets_flow [OF _ k] reports_event(1) in \<open>simp, blast\<close>)
  then show "\<exists>s'. rearm_read a s = Some s' \<and> nsa_ok s' \<and> same_sockets s s'"
    using reports_ok [OF ok] by (simp add: rearm_read_def)
qed

lemma neat_writev_ok:
  assumes "nsa_ok s"
  shows "\<exists>s'. neat_writev env f (b # bs) 1 s = Some (fst (env_write env f b (nsa_world s)), s') \<and> nsa_ok s' \<and> same_sockets s s'"
  using core_call_ok' [OF assms, of "env_write env f b (nsa_world s)"] by (simp add: neat_writev_def)

lemma neat_readv_ok:
  assumes "nsa_ok s"
  shows "\<exists>s'. neat_readv env f (n # ns) 1 s = Some (fst (env_read env f n (nsa_world s)), s') \<and> nsa_ok s' \<and> same_sockets s s'"
  using core_call_ok' [OF assms, of "env_read env f n (nsa_world s)"] by (simp add: neat_readv_def)

text \<open>The \<open>errno\<close> for the codes of the core.\<close>

fun send_errno :: "neat_error_code \<Rightarrow> nsa_errno" where
  "send_errno NEAT_ERROR_WOULD_BLOCK = E_AGAIN"
| "send_errno NEAT_ERROR_IO = E_IO"
| "send_errno NEAT_ERROR_BAD_ARGUMENT = E_INVAL"
| "send_errno NEAT_ERROR_OUT_OF_MEMORY = E_NOMEM"
| "send_errno _ = E_NOENT"

fun receive_errno :: "neat_error_code \<Rightarrow> nsa_errno" where
  "receive_errno NEAT_ERROR_WOULD_BLOCK = E_AGAIN"
| "receive_errno NEAT_ERROR_IO = E_IO"
| "receive_errno NEAT_ERROR_MESSAGE_TOO_BIG = E_MSGSIZE"
| "receive_errno NEAT_ERROR_BAD_ARGUMENT = E_INVAL"
| "receive_errno _ = E_NOENT"

lemma sendmsg_result_eq:
  "sendmsg_result r [b] 1 s = Some (if r = NEAT_OK then (int (length b), s) else (- 1, s\<lparr>nsa_errno := send_errno r\<rparr>))"
  by (cases r) (simp_all add: sendmsg_result_def get_iov_sum_def fail_def)

lemma recvmsg_result_eq:
  "recvmsg_result r s = Some (if fst r = NEAT_OK then (int (length (snd r)), snd r, s) else (- 1, snd r, s\<lparr>nsa_errno := receive_errno (fst r)\<rparr>))"
  by (cases "fst r") (simp_all add: recvmsg_result_def)

text \<open>One attempt to write, with its answer.\<close>

definition sent :: "'k nsa_env \<Rightarrow> u8 list \<Rightarrow> int \<Rightarrow> 'k nsa \<Rightarrow> bool" where
  "sent env b r s \<longleftrightarrow> (\<exists>f w. fst (env_write env f b w) = NEAT_OK) \<and> r = int (length b) \<or>
     r = - 1 \<and> (nsa_errno s = E_BADF \<or> (\<exists>f w. fst (env_write env f b w) \<noteq> NEAT_OK \<and> nsa_errno s = send_errno (fst (env_write env f b w))))"

lemma finish_send:
  assumes ok: "nsa_ok s" and i: "idle p s" and k: "nsa_sockets s a = Some k" "ns_flow k = Some f" and c: "c = fst (env_write env f' b w)"
  shows "\<exists>r s'. (do { s3 \<leftarrow> (if c = NEAT_ERROR_WOULD_BLOCK then rearm_write a s else Some s); sendmsg_result c [b] 1 s3 }) = Some (r, s') \<and>
     nsa_ok s' \<and> idle p s' \<and> sent env b r s'"
proof -
  obtain s3 where s3: "(if c = NEAT_ERROR_WOULD_BLOCK then rearm_write a s else Some s) = Some s3" "nsa_ok s3" "same_sockets s s3"
    using rearm_ok(1) [OF ok k] ok by (cases "c = NEAT_ERROR_WOULD_BLOCK") auto
  have "idle p s3" using i same_sockets_idle [OF s3(3)] by simp
  then have "idle p (s3\<lparr>nsa_errno := e\<rparr>)" for e by (simp add: idle_def)
  with s3 \<open>idle p s3\<close> c show ?thesis
    by (auto simp: sendmsg_result_eq sent_def simp del: One_nat_def)
qed

lemma nsa_sendmsg_ok:
  assumes ok: "nsa_ok s" and i: "idle p s" and k: "nsa_sockets s a = Some k" "ns_flow k = Some f" "ns_descriptor k = d"
    and others: "others_ok env p [entry d POLLOUT]"
  shows "\<exists>r s'. nsa_sendmsg env p d [b] 1 flags ptr s = Some (r, s') \<and> nsa_ok s' \<and> idle p s' \<and> sent env b r s'"
proof -
  have inv: "nsa_inv {} {} s" using ok by (simp add: nsa_ok_def)
  have lk: "nsa_get_socket_for_descriptor d s = Some (Some a)"
    using lookup_some [of "{}" s a] inv k by (auto simp: nsa_inv_def descriptor_of_def)
  from neat_writev_ok [OF ok, of env f b "[]"] obtain s1 where
    s1: "neat_writev env f [b] 1 s = Some (fst (env_write env f b (nsa_world s)), s1)" "nsa_ok s1" "same_sockets s s1" by blast
  define c where "c = fst (env_write env f b (nsa_world s))"
  have i1: "idle p s1" using i same_sockets_idle [OF s1(3)] by simp
  from same_sockets_kept [OF s1(3) k(1)] k obtain k1 where
    k1: "nsa_sockets s1 a = Some k1" "ns_flow k1 = Some f" "ns_descriptor k1 = d" by auto
  show ?thesis
  proof (cases "c = NEAT_ERROR_WOULD_BLOCK \<and> ns_flags k1 AND NSAF_NONBLOCKING = 0 \<and> flags AND MSG_DONTWAIT = 0")
    case False
    from finish_send [OF s1(2) i1 k1(1,2) c_def] obtain r s' where
      "(do { s3 \<leftarrow> (if c = NEAT_ERROR_WOULD_BLOCK then rearm_write a s1 else Some s1); sendmsg_result c [b] 1 s3 }) = Some (r, s')"
      "nsa_ok s'" "idle p s'" "sent env b r s'" by blast
    then show ?thesis using lk k s1(1) k1 c_def [symmetric]
      by (intro exI [of _ r] exI [of _ s']) (simp add: nsa_sendmsg_def get_neat_socket_def False del: One_nat_def split del: if_split cong: if_cong)
  next
    case True
    from ask_and_wait [OF rearm_ok(1) [OF s1(2) k1(1,2)] i1 k1(1) _ k1(3) others] k1(2) obtain s2 v s3 x where
      s2: "rearm_write a s1 = Some s2" and s3: "nsa_wait_for_event env p a POLLOUT (- 1) s2 = Some (v, s3)" "nsa_ok s3" "idle p s3"
      and x: "nsa_get_socket_for_descriptor d s3 = Some x"
      "x = Some a \<longrightarrow> (\<exists>k f. nsa_sockets s3 a = Some k \<and> ns_flow k = Some f \<and> ns_descriptor k = d)" by auto
    show ?thesis
    proof (cases "x = Some a")
      case False
      have "nsa_sendmsg env p d [b] 1 flags ptr s = Some (- 1, s3\<lparr>nsa_errno := E_BADF\<rparr>)"
        using True False lk k s1(1) k1 c_def [symmetric] s2 s3(1) x(1)
        by (simp add: nsa_sendmsg_def get_neat_socket_def fail_def del: One_nat_def)
      with s3(2,3) show ?thesis by (simp add: sent_def idle_def)
    next
      case again: True
      from x(2) again obtain k3 f3 where k3: "nsa_sockets s3 a = Some k3" "ns_flow k3 = Some f3" by blast
      from neat_writev_ok [OF s3(2), of env f3 b "[]"] obtain s4 where
        s4: "neat_writev env f3 [b] 1 s3 = Some (fst (env_write env f3 b (nsa_world s3)), s4)" "nsa_ok s4" "same_sockets s3 s4" by blast
      define c3 where "c3 = fst (env_write env f3 b (nsa_world s3))"
      have i4: "idle p s4" using s3(3) same_sockets_idle [OF s4(3)] by simp
      from same_sockets_kept [OF s4(3) k3(1)] k3 obtain k4 where
        k4: "nsa_sockets s4 a = Some k4" "ns_flow k4 = Some f3" by auto
      from finish_send [OF s4(2) i4 k4 c3_def] obtain r s' where
        "(do { s5 \<leftarrow> (if c3 = NEAT_ERROR_WOULD_BLOCK then rearm_write a s4 else Some s4); sendmsg_result c3 [b] 1 s5 }) = Some (r, s')"
        "nsa_ok s'" "idle p s'" "sent env b r s'" by blast
      then show ?thesis using True again lk k s1(1) k1 c_def [symmetric] c3_def [symmetric] s2 s3(1) x(1) k3 s4(1)
        by (intro exI [of _ r] exI [of _ s']) (simp add: nsa_sendmsg_def get_neat_socket_def del: One_nat_def split del: if_split cong: if_cong)
    qed
  qed
qed

section \<open>Receiving\<close>

text \<open>One attempt to read, with its answer: after a wait in which the socket was closed the result is 0.\<close>

definition received :: "'k nsa_env \<Rightarrow> nat \<Rightarrow> int \<Rightarrow> u8 list \<Rightarrow> 'k nsa \<Rightarrow> bool" where
  "received env n r bytes s \<longleftrightarrow> r = 0 \<and> bytes = [] \<or>
     (\<exists>f w. fst (env_read env f n w) = (NEAT_OK, bytes)) \<and> r = int (length bytes) \<or>
     r = - 1 \<and> (\<exists>f w c. fst (env_read env f n w) = (c, bytes) \<and> c \<noteq> NEAT_OK \<and> nsa_errno s = receive_errno c)"

lemma finish_receive:
  assumes ok: "nsa_ok s" and i: "idle p s" and k: "nsa_sockets s a = Some k" "ns_flow k = Some f" and c: "c = fst (env_read env f' n w)"
  shows "\<exists>r bytes s'. (do { s3 \<leftarrow> (if fst c = NEAT_ERROR_WOULD_BLOCK then rearm_read a s else Some s); recvmsg_result c s3 }) = Some (r, bytes, s') \<and>
     nsa_ok s' \<and> idle p s' \<and> received env n r bytes s'"
proof -
  obtain s3 where s3: "(if fst c = NEAT_ERROR_WOULD_BLOCK then rearm_read a s else Some s) = Some s3" "nsa_ok s3" "same_sockets s s3"
    using rearm_ok(2) [OF ok k] ok by (cases "fst c = NEAT_ERROR_WOULD_BLOCK") auto
  have "idle p s3" using i same_sockets_idle [OF s3(3)] by simp
  then have "idle p (s3\<lparr>nsa_errno := e\<rparr>)" for e by (simp add: idle_def)
  moreover obtain e bytes where e: "c = (e, bytes)" by (cases c)
  with c have read: "fst (env_read env f' n w) = (e, bytes)" by simp
  have "received env n (if e = NEAT_OK then int (length bytes) else - 1) bytes (if e = NEAT_OK then s3 else s3\<lparr>nsa_errno := receive_errno e\<rparr>)"
    unfolding received_def using read by (cases "e = NEAT_OK") (simp, blast, simp, blast)
  ultimately show ?thesis using s3 \<open>idle p s3\<close>
    by (cases "e = NEAT_OK") (simp_all add: recvmsg_result_eq e)
qed

lemma nsa_recvmsg_ok:
  assumes ok: "nsa_ok s" and i: "idle p s" and k: "nsa_sockets s a = Some k" "ns_flow k = Some f" "ns_descriptor k = d"
    and others: "others_ok env p [entry d POLLIN]"
  shows "\<exists>r bytes s'. nsa_recvmsg env p d [n] 1 flags ptr s = Some (r, bytes, s') \<and> nsa_ok s' \<and> idle p s' \<and> received env n r bytes s'"
proof -
  have inv: "nsa_inv {} {} s" using ok by (simp add: nsa_ok_def)
  have lk: "nsa_get_socket_for_descriptor d s = Some (Some a)"
    using lookup_some [of "{}" s a] inv k by (auto simp: nsa_inv_def descriptor_of_def)
  from neat_readv_ok [OF ok, of env f n "[]"] obtain s1 where
    s1: "neat_readv env f [n] 1 s = Some (fst (env_read env f n (nsa_world s)), s1)" "nsa_ok s1" "same_sockets s s1" by blast
  define c where "c = fst (env_read env f n (nsa_world s))"
  have i1: "idle p s1" using i same_sockets_idle [OF s1(3)] by simp
  from same_sockets_kept [OF s1(3) k(1)] k obtain k1 where
    k1: "nsa_sockets s1 a = Some k1" "ns_flow k1 = Some f" "ns_descriptor k1 = d" by auto
  show ?thesis
  proof (cases "fst c = NEAT_ERROR_WOULD_BLOCK \<and> ns_flags k1 AND NSAF_NONBLOCKING = 0 \<and> flags AND MSG_DONTWAIT = 0")
    case False
    from finish_receive [OF s1(2) i1 k1(1,2) c_def] obtain r bytes s' where
      "(do { s3 \<leftarrow> (if fst c = NEAT_ERROR_WOULD_BLOCK then rearm_read a s1 else Some s1); recvmsg_result c s3 }) = Some (r, bytes, s')"
      "nsa_ok s'" "idle p s'" "received env n r bytes s'" by blast
    then show ?thesis using lk k s1(1) k1 c_def [symmetric]
      by (intro exI [of _ r] exI [of _ bytes] exI [of _ s']) (simp add: nsa_recvmsg_def False del: One_nat_def split del: if_split cong: if_cong)
  next
    case True
    from ask_and_wait [OF rearm_ok(2) [OF s1(2) k1(1,2)] i1 k1(1) _ k1(3) others] k1(2) obtain s2 v s3 x where
      s2: "rearm_read a s1 = Some s2" and s3: "nsa_wait_for_event env p a POLLIN (- 1) s2 = Some (v, s3)" "nsa_ok s3" "idle p s3"
      and x: "nsa_get_socket_for_descriptor d s3 = Some x"
      "x = Some a \<longrightarrow> (\<exists>k f. nsa_sockets s3 a = Some k \<and> ns_flow k = Some f \<and> ns_descriptor k = d)" by auto
    show ?thesis
    proof (cases "x = Some a")
      case False
      have "nsa_recvmsg env p d [n] 1 flags ptr s = Some (0, [], s3)"
        using True False lk k s1(1) k1 c_def [symmetric] s2 s3(1) x(1)
        by (simp add: nsa_recvmsg_def del: One_nat_def)
      with s3(2,3) show ?thesis by (simp add: received_def)
    next
      case again: True
      from x(2) again obtain k3 f3 where k3: "nsa_sockets s3 a = Some k3" "ns_flow k3 = Some f3" by blast
      from neat_readv_ok [OF s3(2), of env f3 n "[]"] obtain s4 where
        s4: "neat_readv env f3 [n] 1 s3 = Some (fst (env_read env f3 n (nsa_world s3)), s4)" "nsa_ok s4" "same_sockets s3 s4" by blast
      define c3 where "c3 = fst (env_read env f3 n (nsa_world s3))"
      have i4: "idle p s4" using s3(3) same_sockets_idle [OF s4(3)] by simp
      from same_sockets_kept [OF s4(3) k3(1)] k3 obtain k4 where
        k4: "nsa_sockets s4 a = Some k4" "ns_flow k4 = Some f3" by auto
      from finish_receive [OF s4(2) i4 k4 c3_def] obtain r bytes s' where
        "(do { s5 \<leftarrow> (if fst c3 = NEAT_ERROR_WOULD_BLOCK then rearm_read a s4 else Some s4); recvmsg_result c3 s5 }) = Some (r, bytes, s')"
        "nsa_ok s'" "idle p s'" "received env n r bytes s'" by blast
      then show ?thesis using True again lk k s1(1) k1 c_def [symmetric] c3_def [symmetric] s2 s3(1) x(1) k3 s4(1)
        by (intro exI [of _ r] exI [of _ bytes] exI [of _ s']) (simp add: nsa_recvmsg_def del: One_nat_def split del: if_split cong: if_cong)
    qed
  qed
qed

end
