(* ===== verification/Socket_Accept.thy ===== *)
theory Socket_Accept
  imports Socket_Safe
begin

text \<open>
  \<open>nsa_connectx_internal\<close> and \<open>nsa_accept4\<close>: what their results mean, and that they keep the invariant
  of the socket table when other threads close the socket during the wait.
\<close>

section \<open>Asking for a connection\<close>

lemma clear_read_ok:
  assumes ok: "nsa_ok s" and k: "nsa_sockets s a = Some k"
  shows "\<exists>s'. clear_signal (read_signal a) s = Some s' \<and> nsa_ok s' \<and> same_sockets s s' \<and> nsa_sockets s' = nsa_sockets s"
proof -
  have inv: "nsa_inv {} {} s" and "a \<in> live s" using ok k by (auto simp: nsa_ok_def)
  then have "read_signal a \<in> dom (nsa_signals s)" using live_signals by blast
  then have "reports (clear_signal (read_signal a)) s" by (rule reports_clear [OF inv])
  with reports_ok [OF ok] obtain s' where "clear_signal (read_signal a) s = Some s'" "nsa_ok s'" "same_sockets s s'" by blast
  moreover from this(1) have "nsa_sockets s' = nsa_sockets s" by (auto simp: clear_signal_def Let_def split: bind_splits)
  ultimately show ?thesis by blast
qed

lemma clear_and_ask_ok:
  assumes ok: "nsa_ok s" and k: "nsa_sockets s a = Some k" "ns_flow k = Some f"
  shows "\<exists>s'. (do { s1 \<leftarrow> clear_signal (read_signal a) s; nsa_set_socket_event_on_read a True s1 }) = Some s' \<and>
     nsa_ok s' \<and> same_sockets s s'"
proof -
  from clear_read_ok [OF ok k(1)] obtain s1 where
    s1: "clear_signal (read_signal a) s = Some s1" "nsa_ok s1" "same_sockets s s1" "nsa_sockets s1 = nsa_sockets s" by blast
  have "nsa_inv {} {} s1" using s1(2) by (simp add: nsa_ok_def)
  from reports_event(1) [OF this, of a k f] k s1(4) reports_ok [OF s1(2)] obtain s2 where
    "nsa_set_socket_event_on_read a True s1 = Some s2" "nsa_ok s2" "same_sockets s1 s2" by auto
  with s1 same_sockets_trans show ?thesis by auto
qed

lemma nsa_ok_notify_main_loop [simp]: "nsa_ok (nsa_notify_main_loop s) = nsa_ok s"
  by (simp add: nsa_notify_main_loop_def)

lemma notify_main_loop_simps [simp]:
  "nsa_sockets (nsa_notify_main_loop s) = nsa_sockets s" "idle p (nsa_notify_main_loop s) = idle p s"
  by (simp_all add: nsa_notify_main_loop_def idle_def)

text \<open>The \<open>errno\<close> of \<open>connect\<close> for the codes of the core.\<close>

fun connect_errno :: "neat_error_code \<Rightarrow> nsa_errno" where
  "connect_errno NEAT_ERROR_WOULD_BLOCK = E_INPROGRESS"
| "connect_errno NEAT_ERROR_IO = E_IO"
| "connect_errno NEAT_ERROR_OUT_OF_MEMORY = E_NOMEM"
| "connect_errno _ = E_NOENT"

lemma connect_result_eq:
  "connect_result r s = Some (if r = NEAT_OK then (0, s) else (- 1, s\<lparr>nsa_errno := connect_errno r\<rparr>))"
  by (cases r) (simp_all add: connect_result_def fail_def)

text \<open>A successful \<open>connect\<close> has waited, and found its socket neither closed nor bad.\<close>

definition connect_outcome :: "neat_error_code \<Rightarrow> nat \<Rightarrow> int \<Rightarrow> 'k nsa \<Rightarrow> bool" where
  "connect_outcome c a r s \<longleftrightarrow>
     (if c \<noteq> NEAT_OK then r = - 1 \<and> nsa_errno s = connect_errno c
      else r = 0 \<and> (\<exists>k. nsa_sockets s a = Some k \<and> ns_flow k \<noteq> None \<and> ns_flags k AND NSAF_BAD = 0) \<or>
           r = - 1 \<and> nsa_errno s \<in> {E_INPROGRESS, E_IO, E_BADF})"

lemma idle_errno [simp]: "idle p (s\<lparr>nsa_errno := e\<rparr>) = idle p s"
  by (simp add: idle_def)

lemma nsa_connectx_internal_ok:
  assumes ok: "nsa_ok s" and i: "idle p s" and k: "nsa_sockets s a = Some k" "ns_flow k = Some f" "ns_descriptor k = d"
    and others: "others_ok env p [entry d POLLIN]"
  shows "\<exists>r s'. nsa_connectx_internal env p a name port opt s = Some (r, s') \<and> nsa_ok s' \<and> idle p s' \<and>
     connect_outcome (fst (env_open env f name port opt (nsa_world s))) a r s'"
proof -
  define c where "c = fst (env_open env f name port opt (nsa_world s))"
  from core_call_ok' [OF ok, of "env_open env f name port opt (nsa_world s)"] obtain s1 where
    s1: "core_call (env_open env f name port opt (nsa_world s)) s = Some (c, s1)" "nsa_ok s1" "same_sockets s s1"
    unfolding c_def by blast
  have i1: "idle p s1" using i same_sockets_idle [OF s1(3)] by simp
  from same_sockets_kept [OF s1(3) k(1)] k obtain k1 where
    k1: "nsa_sockets s1 a = Some k1" "ns_flow k1 = Some f" "ns_descriptor k1 = d" by auto
  show ?thesis unfolding c_def [symmetric]
  proof (cases "c = NEAT_OK \<and> ns_flags k1 AND NSAF_NONBLOCKING = 0")
    case False
    from clear_read_ok [OF s1(2) k1(1)] obtain s2 where
      s2: "clear_signal (read_signal a) s1 = Some s2" "nsa_ok s2" "same_sockets s1 s2" by blast
    have i2: "idle p s2" using i1 same_sockets_idle [OF s2(3)] by simp
    define e where "e = (if c = NEAT_OK then NEAT_ERROR_WOULD_BLOCK else c)"
    have "nsa_connectx_internal env p a name port opt s = Some (- 1, s2\<lparr>nsa_errno := connect_errno e\<rparr>)"
      using k s1(1) k1 s2(1) by (simp add: nsa_connectx_internal_def False connect_result_eq e_def)
    then show "\<exists>r s'. nsa_connectx_internal env p a name port opt s = Some (r, s') \<and> nsa_ok s' \<and> idle p s' \<and> connect_outcome c a r s'"
      using s2(2) i2 by (simp add: connect_outcome_def e_def)
  next
    case True
    let ?n = "nsa_notify_main_loop s1"
    have n: "nsa_ok ?n" "nsa_sockets ?n a = Some k1" "idle p ?n" using s1(2) k1(1) i1 by simp_all
    from ask_and_wait [OF clear_and_ask_ok [OF n(1,2) k1(2)] n(3,2) _ k1(3) others] k1(2) obtain s3 v s4 x where
      s3: "(do { s1 \<leftarrow> clear_signal (read_signal a) ?n; nsa_set_socket_event_on_read a True s1 }) = Some s3"
      and s4: "nsa_wait_for_event env p a POLLIN (- 1) s3 = Some (v, s4)" "nsa_ok s4" "idle p s4"
      and x: "nsa_get_socket_for_descriptor d s4 = Some x"
      "x = Some a \<longrightarrow> (\<exists>k f. nsa_sockets s4 a = Some k \<and> ns_flow k = Some f \<and> ns_descriptor k = d)" by auto
    from s3 obtain s2 where s2: "clear_signal (read_signal a) ?n = Some s2" "nsa_set_socket_event_on_read a True s2 = Some s3"
      by (auto split: bind_splits)
    show "\<exists>r s'. nsa_connectx_internal env p a name port opt s = Some (r, s') \<and> nsa_ok s' \<and> idle p s' \<and> connect_outcome c a r s'"
    proof (cases "x = Some a")
      case False
      have "nsa_connectx_internal env p a name port opt s = Some (- 1, s4\<lparr>nsa_errno := E_BADF\<rparr>)"
        using k s1(1) k1 s2 s4(1) x(1) True False by (simp add: nsa_connectx_internal_def fail_def)
      then show ?thesis using s4 True by (simp add: connect_outcome_def)
    next
      case again: True
      with x(2) obtain k4 f4 where k4: "nsa_sockets s4 a = Some k4" "ns_flow k4 = Some f4" by blast
      from clear_read_ok [OF s4(2) k4(1)] obtain s5 where
        s5: "clear_signal (read_signal a) s4 = Some s5" "nsa_ok s5" "same_sockets s4 s5" "nsa_sockets s5 = nsa_sockets s4" by blast
      have i5: "idle p s5" using s4(3) same_sockets_idle [OF s5(3)] by simp
      define e where "e = (if ns_flags k4 AND NSAF_BAD \<noteq> 0 then NEAT_ERROR_IO else NEAT_OK)"
      have "nsa_connectx_internal env p a name port opt s = connect_result e s5"
        using k s1(1) k1 s2 s4(1) x(1) True again k4(1) s5(1) by (simp add: nsa_connectx_internal_def e_def)
      then show ?thesis using s5 i5 True k4 by (auto simp: connect_outcome_def connect_result_eq e_def)
    qed
  qed
qed

section \<open>Taking a connection\<close>

text \<open>Calls that change only the world and \<open>errno\<close>.\<close>

definition outside :: "'k nsa \<Rightarrow> 'k nsa \<Rightarrow> bool" where
  "outside s s' \<longleftrightarrow> s' = s\<lparr>nsa_world := nsa_world s', nsa_errno := nsa_errno s'\<rparr>"

lemma outside_refl [simp]: "outside s s" and outside_errno [simp]: "outside s (s\<lparr>nsa_errno := e\<rparr>)"
  and outside_world [simp]: "outside s (s\<lparr>nsa_world := w\<rparr>)" and outside_both [simp]: "outside s (s\<lparr>nsa_world := w, nsa_errno := e\<rparr>)"
  by (simp_all add: outside_def)

lemma outside_trans: "outside s s1 \<Longrightarrow> outside s1 s2 \<Longrightarrow> outside s s2"
  by (cases s; cases s1; cases s2) (simp add: outside_def)

lemma outsideD:
  assumes "outside s s'"
  shows "nsa_ok s' = nsa_ok s" "nsa_sockets s' = nsa_sockets s" "idle p s' = idle p s" "nsa_signals s' = nsa_signals s"
    "nsa_flows s' = nsa_flows s"
proof -
  have e: "s' = s\<lparr>nsa_world := nsa_world s', nsa_errno := nsa_errno s'\<rparr>" using assms by (simp add: outside_def)
  show "nsa_ok s' = nsa_ok s" by (subst e) simp
  show "nsa_sockets s' = nsa_sockets s" by (subst e) simp
  show "idle p s' = idle p s" by (subst e) (simp add: idle_def)
  show "nsa_signals s' = nsa_signals s" by (subst e) simp
  show "nsa_flows s' = nsa_flows s" by (subst e) simp
qed

lemma outside_sys_call: "outside s (snd (sys_call env name args s))"
  by (simp add: sys_call_def split: prod.splits)

lemma outside_sys_calls:
  "outside s (case sys_call env name1 args1 s of (r, s') \<Rightarrow> snd (sys_call env name2 (args2 r) s'))"
proof -
  obtain r s' where e: "sys_call env name1 args1 s = (r, s')" by fastforce
  with outside_sys_call [of s env name1 args1] have "outside s s'" by simp
  from outside_trans [OF this outside_sys_call] e show ?thesis by simp
qed

lemma lookup_live:
  assumes "nsa_ok s" and "nsa_sockets s a = Some k"
  shows "nsa_get_socket_for_descriptor (ns_descriptor k) s = Some (Some a)"
  using lookup_some [of "{}" s a] assms by (auto simp: nsa_ok_def nsa_inv_def descriptor_of_def)

lemma getlpname_flow:
  assumes ok: "nsa_ok s" and k: "nsa_sockets s a = Some k" "ns_flow k = Some f"
  shows "\<exists>r s'. nsa_getlpname env (ns_descriptor k) len local s = Some (r, s') \<and> outside s s'"
proof -
  obtain xs w where "env_getlpaddrs env f local (nsa_world s) = (xs, w)" by fastforce
  then show ?thesis
    using k lookup_live [OF ok k(1)] by (cases xs) (auto simp: nsa_getlpname_def nsa_getlpaddrs_def split: list.splits)
qed

text \<open>The accept list and the back pointer when the first socket is taken.\<close>

definition taken :: "nat \<Rightarrow> nat \<Rightarrow> nat list \<Rightarrow> 'k nsa \<Rightarrow> 'k nsa" where
  "taken a n rest s = modify_socket n (\<lambda>k. k\<lparr>ns_acceptor := None\<rparr>) (modify_socket a (\<lambda>k. k\<lparr>ns_accept_list := rest\<rparr>) s)"

lemma taken_ok:
  assumes ok: "nsa_ok s" and k: "nsa_sockets s a = Some k" "ns_accept_list k = n # rest"
  shows "\<exists>kn. nsa_sockets s n = Some kn \<and> ns_flow kn \<noteq> None \<and> nsa_ok (taken a n rest s)"
proof -
  have inv: "nsa_inv {} {} s" and users: "users_ok s" and sk: "sockets_ok {} {} s" using ok by (auto simp: nsa_ok_def nsa_inv_def)
  from sockets_okD [OF sk k(1)] k(2) obtain kn where kn: "nsa_sockets s n = Some kn" "ns_acceptor kn = Some a"
    by (auto simp: socket_ok_def accept_ok_def)
  have fl: "ns_flow kn \<noteq> None" using sockets_okD [OF sk kn(1)] kn(2) by (auto simp: socket_ok_def)
  have "leave_acceptor n s = Some (taken a n rest s)"
    using kn k by (simp add: leave_acceptor_def modify_socket_def taken_def)
  with leave_acceptor_ok [OF inv _ kn(1)] have s1: "nsa_inv {} {} (taken a n rest s)" by auto
  moreover have "users_ok (taken a n rest s)"
    by (rule users_ok_sockets [OF users]) (auto simp: taken_def)
  ultimately show ?thesis using kn fl by (auto simp: nsa_ok_def)
qed

lemma idle_modify [simp]: "idle p (modify_socket a F s) = idle p s"
  by (simp add: idle_def)

lemma take_connection_ok:
  assumes ok: "nsa_ok s" and k: "nsa_sockets s a = Some k" "ns_accept_list k = n # rest"
  shows "\<exists>kn len s'. nsa_sockets s n = Some kn \<and> take_connection env a addrlen flags s = Some (ns_descriptor kn, len, s') \<and>
     outside (taken a n rest s) s' \<and> nsa_ok s'"
proof -
  from taken_ok [OF ok k] obtain kn where kn: "nsa_sockets s n = Some kn" "ns_flow kn \<noteq> None" and tk: "nsa_ok (taken a n rest s)" by blast
  define s2 where "s2 = (if flags \<noteq> 0
                   then (case sys_call env ''fcntl F_GETFL'' [ns_descriptor kn] (taken a n rest s) of (fl, s') \<Rightarrow>
                      snd (sys_call env ''fcntl F_SETFL'' [ns_descriptor kn,
                        or (or fl (if flags AND SOCK_NONBLOCK \<noteq> 0 then 2048 else 0)) (if flags AND SOCK_CLOEXEC \<noteq> 0 then 524288 else 0)] s'))
                   else taken a n rest s)"
  have o: "outside (taken a n rest s) s2"
    unfolding s2_def using outside_sys_calls by (cases "flags = 0") auto
  have ok2: "nsa_ok s2" using tk outsideD(1) [OF o] by simp
  obtain kn2 where kn2: "nsa_sockets s2 n = Some kn2" "ns_flow kn2 = ns_flow kn" "ns_descriptor kn2 = ns_descriptor kn"
    using outsideD(2) [OF o] kn by (cases "a = n") (auto simp: taken_def)
  from kn(2) kn2(2) obtain g where g: "ns_flow kn2 = Some g" by auto
  have t: "take_connection env a addrlen flags s = (case addrlen of
           None \<Rightarrow> Some (ns_descriptor kn, None, s2)
         | Some len \<Rightarrow> do {
             (r, s3) \<leftarrow> nsa_getpeername env (ns_descriptor kn) len s2;
             Some (ns_descriptor kn, Some (case snd r of None \<Rightarrow> 0 | Some (_, l) \<Rightarrow> l), s3) })"
    using k kn unfolding s2_def by (simp add: take_connection_def taken_def [symmetric] Let_def split del: if_split cong: if_cong)
  show ?thesis
  proof (cases addrlen)
    case None
    with t kn o ok2 show ?thesis by simp
  next
    case (Some l)
    from getlpname_flow [OF ok2 kn2(1) g, of env l False] kn2(3) obtain r s3 where
      s3: "nsa_getpeername env (ns_descriptor kn) l s2 = Some (r, s3)" "outside s2 s3" by (auto simp: nsa_getpeername_def)
    with t Some kn outside_trans [OF o s3(2)] outsideD(1) [OF s3(2)] ok2 show ?thesis by auto
  qed
qed

lemma reset_event_ok:
  assumes ok: "nsa_ok s" and k: "nsa_sockets s a = Some k"
  shows "\<exists>s'. clear_signal (read_signal a) (clear_flag a NSAF_READABLE s) = Some s' \<and> nsa_ok s' \<and> live s' = live s \<and> idle p s' = idle p s \<and>
     nsa_errno s' = nsa_errno s \<and> nsa_sockets s' a = Some (k\<lparr>ns_flags := ns_flags k AND NOT NSAF_READABLE\<rparr>)"
proof -
  have c: "nsa_ok (clear_flag a NSAF_READABLE s)" "nsa_sockets (clear_flag a NSAF_READABLE s) a = Some (k\<lparr>ns_flags := ns_flags k AND NOT NSAF_READABLE\<rparr>)"
    using ok k by (simp_all add: nsa_ok_clear_flag) (simp add: clear_flag_def)
  from clear_read_ok [OF c] obtain s' where
    s': "clear_signal (read_signal a) (clear_flag a NSAF_READABLE s) = Some s'" "nsa_ok s'" "same_sockets (clear_flag a NSAF_READABLE s) s'"
      "nsa_sockets s' = nsa_sockets (clear_flag a NSAF_READABLE s)" by blast
  have "live (clear_flag a NSAF_READABLE s) = live s" using k by (auto simp: clear_flag_def)
  moreover have "idle p s' = idle p s" using same_sockets_idle [OF s'(3), of p] by (simp add: clear_flag_def)
  moreover have "nsa_errno s' = nsa_errno s" using s'(1) by (auto simp: clear_signal_def clear_flag_def split: bind_splits)
  ultimately show ?thesis using s' c(2) by auto
qed

lemma finish_accept_ok:
  assumes ok: "nsa_ok s" and k: "nsa_sockets s a = Some k" "ns_accept_list k = n # rest"
  shows "\<exists>kn len s' k'. nsa_sockets s n = Some kn \<and> finish_accept env a addrlen flags s = Some (ns_descriptor kn, len, s') \<and>
     nsa_ok s' \<and> nsa_sockets s' a = Some k' \<and> ns_accept_list k' = rest \<and> live s' = live s \<and> idle p s' = idle p s"
proof -
  from take_connection_ok [OF ok k, of env addrlen flags] obtain kn len' s2 where
    kn: "nsa_sockets s n = Some kn" and s2: "take_connection env a addrlen flags s = Some (ns_descriptor kn, len', s2)"
      "outside (taken a n rest s) s2" "nsa_ok s2" by blast
  note o = outsideD [OF s2(2)]
  obtain k2 where k2: "nsa_sockets s2 a = Some k2" "ns_accept_list k2 = rest" using o(2) k(1) by (cases "a = n") (auto simp: taken_def)
  have lv: "live s2 = live s" using o(2) k kn by (auto simp: taken_def)
  have i2: "idle p s2 = idle p s" using o(3) by (simp add: taken_def)
  show ?thesis
  proof (cases "rest = []")
    case False
    with s2 k2 kn lv i2 show ?thesis by (auto simp: finish_accept_def)
  next
    case True
    with reset_event_ok [OF s2(3) k2(1), of p] s2 k2 kn lv i2 show ?thesis by (auto simp: finish_accept_def)
  qed
qed

lemma finish_accept_empty:
  assumes ok: "nsa_ok s" and k: "nsa_sockets s a = Some k" "ns_accept_list k = []"
  shows "\<exists>s'. finish_accept env a addrlen flags s = Some (- 1, addrlen, s') \<and> nsa_ok s' \<and> idle p s' = idle p s \<and> nsa_errno s' = nsa_errno s"
  using reset_event_ok [OF ok k(1), of p] k by (auto simp: finish_accept_def take_connection_def)

section \<open>Waiting for a connection\<close>

text \<open>
  One round of the wait either ends it or leads, in a state that satisfies the invariant, to the next one:
  the loop fails no assertion and uses no freed socket, however often it wakes up in vain.
\<close>

lemma await_round:
  assumes ok: "nsa_ok s" and i: "idle p s" and k: "nsa_sockets s a = Some k" "ns_flow k = Some f" "ns_descriptor k = d"
    and others: "others_ok env p [entry d POLLIN]"
  shows "(\<exists>b s'. (\<forall>m. await_connection (Suc m) env p d a s = Some (b, s')) \<and> nsa_ok s' \<and> idle p s' \<and>
        (b \<longrightarrow> s' = s \<and> (ns_accept_list k \<noteq> [] \<or> ns_flags k AND NSAF_NONBLOCKING \<noteq> 0)) \<and> (\<not> b \<longrightarrow> nsa_errno s' = E_BADF)) \<or>
     (\<exists>s' k' f'. (\<forall>m. await_connection (Suc m) env p d a s = await_connection m env p d a s') \<and> nsa_ok s' \<and> idle p s' \<and>
        nsa_sockets s' a = Some k' \<and> ns_flow k' = Some f' \<and> ns_descriptor k' = d)"
proof (cases "ns_accept_list k \<noteq> [] \<or> ns_flags k AND NSAF_NONBLOCKING \<noteq> 0")
  case True
  with k ok i show ?thesis by auto
next
  case False
  from ask_and_wait [OF clear_and_ask_ok [OF ok k(1,2)] i k(1) _ k(3) others] k(2) obtain s2 v s3 x where
    s2: "(do { s1 \<leftarrow> clear_signal (read_signal a) s; nsa_set_socket_event_on_read a True s1 }) = Some s2"
    and s3: "nsa_wait_for_event env p a POLLIN (- 1) s2 = Some (v, s3)" "nsa_ok s3" "idle p s3"
    and x: "nsa_get_socket_for_descriptor d s3 = Some x"
      "x = Some a \<longrightarrow> (\<exists>k f. nsa_sockets s3 a = Some k \<and> ns_flow k = Some f \<and> ns_descriptor k = d)" by auto
  from s2 obtain s1 where s1: "clear_signal (read_signal a) s = Some s1" "nsa_set_socket_event_on_read a True s1 = Some s2"
    by (auto split: bind_splits)
  have step: "await_connection (Suc m) env p d a s =
      (if x \<noteq> Some a then Some (False, s3\<lparr>nsa_errno := E_BADF\<rparr>) else await_connection m env p d a s3)" for m
    using k False s1 s3(1) x(1) by simp
  show ?thesis
  proof (cases "x = Some a")
    case True
    with x(2) step s3 show ?thesis by auto
  next
    case False
    with step s3 show ?thesis by auto
  qed
qed

text \<open>So a wait that ends is safe.\<close>

lemma await_connection_ok:
  assumes "await_connection m env p d a s = Some (b, s')" and "nsa_ok s" "idle p s" "others_ok env p [entry d POLLIN]"
    and "nsa_sockets s a = Some k" "ns_flow k = Some f" "ns_descriptor k = d"
  shows "nsa_ok s' \<and> idle p s' \<and> (b \<longrightarrow> (\<exists>k f. nsa_sockets s' a = Some k \<and> ns_flow k = Some f \<and> ns_descriptor k = d \<and>
      (ns_accept_list k \<noteq> [] \<or> ns_flags k AND NSAF_NONBLOCKING \<noteq> 0))) \<and> (\<not> b \<longrightarrow> nsa_errno s' = E_BADF)"
  using assms
proof (induction m arbitrary: s k f)
  case 0
  then show ?case by simp
next
  case (Suc m)
  from await_round [OF Suc.prems(2,3,5,6,7,4)] show ?case
  proof (elim disjE exE conjE)
    fix b1 s1 assume "\<forall>m. await_connection (Suc m) env p d a s = Some (b1, s1)" "nsa_ok s1" "idle p s1"
      "b1 \<longrightarrow> s1 = s \<and> (ns_accept_list k \<noteq> [] \<or> ns_flags k AND NSAF_NONBLOCKING \<noteq> 0)" "\<not> b1 \<longrightarrow> nsa_errno s1 = E_BADF"
    with Suc.prems show ?case by auto
  next
    fix s1 k1 f1 assume "\<forall>m. await_connection (Suc m) env p d a s = await_connection m env p d a s1" "nsa_ok s1" "idle p s1"
      "nsa_sockets s1 a = Some k1" "ns_flow k1 = Some f1" "ns_descriptor k1 = d"
    with Suc.IH [of s1 k1 f1] Suc.prems show ?case by auto
  qed
qed

section \<open>nsa_accept4\<close>

definition accept_args_ok :: "nat option \<Rightarrow> bool" where
  "accept_args_ok addrlen \<longleftrightarrow> (case addrlen of None \<Rightarrow> True | Some len \<Rightarrow> len = 0 \<or> len \<ge> 16)"

lemma nsa_accept4_flow:
  assumes ok: "nsa_ok s" and k: "nsa_sockets s a = Some k" "ns_flow k = Some f" "ns_descriptor k = d"
  shows "nsa_accept4 m env p d addrlen flags s =
     (if \<not> accept_args_ok addrlen then Some (- 1, addrlen, s\<lparr>nsa_errno := E_INVAL\<rparr>)
      else if ns_flags k AND NSAF_LISTENING = 0 then Some (- 1, addrlen, s\<lparr>nsa_errno := E_OPNOTSUPP\<rparr>)
      else do {
        (there, s1) \<leftarrow> await_connection m env p d a s;
        if there then finish_accept env a addrlen flags s1 else Some (- 1, addrlen, s1) })"
  using lookup_live [OF ok k(1)] k by (simp add: nsa_accept4_def accept_args_ok_def [symmetric])

text \<open>When a connection is there the oldest one is taken, without a wait.\<close>

lemma nsa_accept4_ready:
  assumes ok: "nsa_ok s" and k: "nsa_sockets s a = Some k" "ns_flow k = Some f" "ns_descriptor k = d"
    and l: "ns_flags k AND NSAF_LISTENING \<noteq> 0" and len: "accept_args_ok addrlen" and list: "ns_accept_list k = n # rest"
  shows "\<exists>kn len s' k'. nsa_sockets s n = Some kn \<and> nsa_accept4 (Suc m) env p d addrlen flags s = Some (ns_descriptor kn, len, s') \<and>
     nsa_ok s' \<and> nsa_sockets s' a = Some k' \<and> ns_accept_list k' = rest \<and> live s' = live s"
  using finish_accept_ok [OF ok k(1) list, of env addrlen flags p] k l len list by (auto simp: nsa_accept4_flow [OF ok k])

text \<open>Without a connection a non-blocking socket returns at once; \<open>errno\<close> is left as it was.\<close>

lemma nsa_accept4_empty:
  assumes ok: "nsa_ok s" and k: "nsa_sockets s a = Some k" "ns_flow k = Some f" "ns_descriptor k = d"
    and l: "ns_flags k AND NSAF_LISTENING \<noteq> 0" and len: "accept_args_ok addrlen" and list: "ns_accept_list k = []"
    and nb: "ns_flags k AND NSAF_NONBLOCKING \<noteq> 0"
  shows "\<exists>s'. nsa_accept4 (Suc m) env p d addrlen flags s = Some (- 1, addrlen, s') \<and> nsa_ok s' \<and> nsa_errno s' = nsa_errno s"
  using finish_accept_empty [OF ok k(1) list, of env addrlen flags p] k l len list nb by (auto simp: nsa_accept4_flow [OF ok k])

lemma nsa_accept4_safe:
  assumes r: "nsa_accept4 m env p d addrlen flags s = Some (r, len, s')" and ok: "nsa_ok s" and i: "idle p s"
    and others: "others_ok env p [entry d POLLIN]"
  shows "nsa_ok s' \<and> idle p s'"
proof (cases rule: lookup_cases [of s d, case_names inv none some])
  case inv
  then show ?case using ok by (simp add: nsa_ok_def)
next
  case none
  with r ok i show ?thesis by (auto simp: nsa_accept4_def)
next
  case (some a k)
  show ?thesis
  proof (cases "ns_flow k")
    case None
    obtain x s1 where x: "sys_call env ''accept'' [ns_socket_sd k] s = (x, s1)" by fastforce
    with outside_sys_call [of s env "''accept''" "[ns_socket_sd k]"] have o: "outside s s1" by simp
    from some None r x have "s' = s1" by (simp add: nsa_accept4_def)
    with ok i outsideD(1,3) [OF o] show ?thesis by simp
  next
    case (Some f)
    note eq = nsa_accept4_flow [OF ok some(2) Some some(3)]
    show ?thesis
    proof (cases "accept_args_ok addrlen \<and> ns_flags k AND NSAF_LISTENING \<noteq> 0")
      case False
      with r eq ok i show ?thesis by (auto split: if_splits)
    next
      case True
      with r eq obtain b s1 where s1: "await_connection m env p d a s = Some (b, s1)"
        "(if b then finish_accept env a addrlen flags s1 else Some (- 1, addrlen, s1)) = Some (r, len, s')"
        by (auto split: bind_splits)
      from await_connection_ok [OF s1(1) ok i others some(2) Some some(3)] have s1': "nsa_ok s1" "idle p s1"
        "b \<longrightarrow> (\<exists>k. nsa_sockets s1 a = Some k)" by auto
      show ?thesis
      proof (cases b)
        case False
        with s1 s1' show ?thesis by simp
      next
        case True
        with s1' obtain k1 where k1: "nsa_sockets s1 a = Some k1" by blast
        show ?thesis
          using finish_accept_ok [OF s1'(1) k1, of _ _ env addrlen flags p] finish_accept_empty [OF s1'(1) k1, of env addrlen flags p] s1(2) s1'(2) True
          by (cases "ns_accept_list k1") auto
      qed
    qed
  qed
qed

end
