(* ===== verification/Socket_Run.thy ===== *)
theory Socket_Run
  imports Socket_Accept
begin

text \<open>
  The life of the socket API: \<open>nsa_initialize\<close> builds a table that satisfies the invariant and
  \<open>nsa_cleanup\<close> takes it down; in between every call and every callback of the core is a step, and the
  invariant holds in all states that the steps reach.
\<close>

section \<open>Initialisation\<close>

text \<open>Memory for a socket is found while no more sockets exist than there are descriptors.\<close>

definition calloc_total :: "'k nsa_env \<Rightarrow> bool" where
  "calloc_total env \<longleftrightarrow> (\<forall>used w. finite (Collect used) \<longrightarrow> card (Collect used) \<le> 1024 \<longrightarrow> fst (env_calloc env used w) \<noteq> None)"

definition starting :: "'k nsa \<Rightarrow> bool" where
  "starting s \<longleftrightarrow> \<not> nsi_allocated s \<and> nsa_sockets s = Map.empty \<and> nsa_signals s = Map.empty \<and> nsa_flows s = Map.empty"

lemma live_card:
  assumes "nsa_ok s"
  shows "finite (live s) \<and> card (live s) \<le> 1024"
proof -
  have ids: "ids_ok s" and fin: "finite (live s)" using assms by (auto simp: nsa_ok_def nsa_inv_def table_ok_def)
  have "inj_on nat {0..}" by (intro inj_onI) (simp add: eq_nat_nat_iff)
  moreover have "descriptors s \<subseteq> {0..}" using ids by (auto simp: ids_ok_def)
  ultimately have "inj_on nat (descriptors s)" by (rule inj_on_subset)
  moreover have "inj_on (descriptor_of s) (live s)" using ids by (simp add: ids_ok_def)
  ultimately have "card (live s) = card (nat ` descriptors s)" by (simp add: card_image)
  also have "\<dots> = card (ibm_ids (nsi_socket_identifier_bitmap s))" using ids by (simp add: ids_ok_def)
  also have "\<dots> \<le> 1024" using ids card_ibm_ids_le [of "nsi_socket_identifier_bitmap s"] by (simp add: ids_ok_def)
  finally show ?thesis using fin by simp
qed

lemma calloc_totalD: "calloc_total env \<Longrightarrow> nsa_ok s \<Longrightarrow> fst (env_calloc env (\<lambda>a. nsa_sockets s a \<noteq> None) w) \<noteq> None"
  using live_card [of s] unfolding calloc_total_def dom_def by blast

lemma fresh_ok:
  assumes "nsa_sockets s = Map.empty" "nsa_signals s = Map.empty" "nsa_flows s = Map.empty"
    and "nsi_socket_identifier_bitmap s = ibm_fresh 1024" and "nsi_socket_set s = rbt_new t"
  shows "nsa_ok s"
proof -
  have "rbt_holds (descriptor_of s) (rbt_new t) {}"
    unfolding rbt_holds_def using rbt_new_ok [of "descriptor_of s" t] by (intro exI [of _ Leaf]) simp
  then have "table_ok {} s" using assms by (simp add: table_ok_def)
  moreover have "ids_ok s" using assms ibm_inv_fresh [of 1024] ibm_ids_fresh [of 1024] by (simp add: ids_ok_def)
  moreover have "signals_ok s" using assms by (simp add: signals_ok_def es_ranked_def es_parents_def signals_tidy_def es_graph_def)
  moreover have "sockets_ok {} {} s" using assms by (simp add: sockets_ok_def)
  moreover have "users_ok s" using assms by (simp add: users_ok_def)
  ultimately show ?thesis by (simp add: nsa_ok_def nsa_inv_def)
qed

lemma descriptors_new:
  assumes "nsa_sockets s a = None" and "nsa_sockets s' = (nsa_sockets s)(a \<mapsto> k)"
  shows "descriptors s' = insert (ns_descriptor k) (descriptors s)"
proof -
  have "descriptor_of s' x = (if x = a then ns_descriptor k else descriptor_of s x)" for x
    using assms by (simp add: descriptor_of_def)
  with assms show ?thesis by (auto simp: image_iff)
qed

lemma socket_internal_allocated:
  assumes "nsa_socket_internal env domain type protocol customFD None requestedSD s = Some (d, s')"
  shows "nsi_allocated s' = nsi_allocated s"
  using assms
  by (auto simp: nsa_socket_internal_def socket_kind_def free_socket_def Let_def
      split: prod.splits option.splits if_splits bind_splits)

lemma nsa_map_socket_ok:
  assumes ok: "nsa_ok s" and env: "calloc_ok env" "calloc_total env" and d: "0 \<le> d" "d < 1024" "d \<notin> descriptors s"
  shows "\<exists>s' a k. nsa_map_socket env sd d s = Some (d, s') \<and> nsa_ok s' \<and> nsa_sockets s a = None \<and>
     nsa_sockets s' = (nsa_sockets s)(a \<mapsto> k) \<and> ns_descriptor k = d \<and> ns_flow k = None \<and>
     descriptors s' = insert d (descriptors s) \<and> nsi_allocated s' = nsi_allocated s \<and> nsa_flows s' = nsa_flows s"
proof -
  have inv: "nsa_inv {} {} s" using ok by (simp add: nsa_ok_def)
  have nf: "\<forall>f. None = Some f \<longrightarrow> flow_free s f" by simp
  from create_safe [OF ok env(1) d(2), of 0 0 0 sd] obtain d' s' where
    s': "nsa_socket_internal env 0 0 0 sd None d s = Some (d', s')" "nsa_ok s'" by (auto simp: safe_def)
  from nsa_socket_internal_ok [OF inv env(1) nf d(2), of 0 0 0 sd] s'(1)
  have c: "d' = - 1 \<and> (fst (env_calloc env (\<lambda>a. nsa_sockets s a \<noteq> None) (nsa_world s)) = None \<or> no_descriptor d (descriptors s)) \<or>
       gets_descriptor d (descriptors s) d' \<and>
        (\<exists>a k. nsa_sockets s a = None \<and> nsa_sockets s' = (nsa_sockets s)(a \<mapsto> k) \<and> created 0 0 0 None a d' k)"
    and fl: "nsa_flows s' = nsa_flows s"
    by (elim exE conjE disjE; (simp, blast)?; simp add: fun_eq_iff)+
  have "\<not> no_descriptor d (descriptors s)" using d by (simp add: no_descriptor_def)
  with c calloc_totalD [OF env(2) ok, of "nsa_world s"] d(1) obtain a k where
    "d' = d" "nsa_sockets s a = None" "nsa_sockets s' = (nsa_sockets s)(a \<mapsto> k)" "created 0 0 0 None a d' k"
    by (auto simp: gets_descriptor_def)
  with s' descriptors_new [of s a s' k] socket_internal_allocated [OF s'(1)] fl show ?thesis
    by (auto simp: nsa_map_socket_def created_def)
qed

lemma map_standard_ok:
  assumes ok: "nsa_ok s" and env: "calloc_ok env" "calloc_total env" and e: "live s = {}"
  shows "\<exists>s'. map_standard env s = Some s' \<and> nsa_ok s' \<and> descriptors s' = {0, 1, 2} \<and>
     (\<forall>a k. nsa_sockets s' a = Some k \<longrightarrow> ns_flow k = None) \<and> nsi_allocated s' = nsi_allocated s"
proof -
  have d0: "descriptors s = {}" using e by simp
  from nsa_map_socket_ok [OF ok env, of 1 1] d0 obtain s1 a1 k1 where
    s1: "nsa_map_socket env 1 1 s = Some (1, s1)" "nsa_ok s1" "nsa_sockets s1 = (nsa_sockets s)(a1 \<mapsto> k1)" "ns_flow k1 = None"
      "descriptors s1 = {1}" "nsi_allocated s1 = nsi_allocated s" by auto
  from nsa_map_socket_ok [OF s1(2) env, of 0 0] s1(5) obtain s2 a2 k2 where
    s2: "nsa_map_socket env 0 0 s1 = Some (0, s2)" "nsa_ok s2" "nsa_sockets s2 = (nsa_sockets s1)(a2 \<mapsto> k2)" "ns_flow k2 = None"
      "descriptors s2 = {0, 1}" "nsi_allocated s2 = nsi_allocated s1" by auto
  from nsa_map_socket_ok [OF s2(2) env, of 2 2] s2(5) obtain s3 a3 k3 where
    s3: "nsa_map_socket env 2 2 s2 = Some (2, s3)" "nsa_ok s3" "nsa_sockets s3 = (nsa_sockets s2)(a3 \<mapsto> k3)" "ns_flow k3 = None"
      "descriptors s3 = {2, 0, 1}" "nsi_allocated s3 = nsi_allocated s2" by auto
  have "nsa_sockets s = Map.empty" using e by simp
  with s1 s2 s3 show ?thesis by (auto simp: map_standard_def c_assert_def)
qed

text \<open>The rest of the initialisation does not touch the table.\<close>

definition same_table :: "'k nsa \<Rightarrow> 'k nsa \<Rightarrow> bool" where
  "same_table s s' \<longleftrightarrow> nsa_sockets s' = nsa_sockets s \<and> nsi_socket_set s' = nsi_socket_set s \<and>
     nsi_socket_identifier_bitmap s' = nsi_socket_identifier_bitmap s \<and> nsa_signals s' = nsa_signals s \<and>
     nsa_flows s' = nsa_flows s \<and> nsi_allocated s' = nsi_allocated s"

lemma same_table_ok: "same_table s s' \<Longrightarrow> nsa_ok s \<Longrightarrow> nsa_ok s'"
  unfolding same_table_def by (rule nsa_ok_cong) auto

lemma same_table_trans: "same_table s s1 \<Longrightarrow> same_table s1 s2 \<Longrightarrow> same_table s s2"
  by (simp add: same_table_def)

lemma same_table_descriptors: "same_table s s' \<Longrightarrow> descriptors s' = descriptors s"
  by (simp add: same_table_def descriptor_of_def)

lemma same_table_sys_call: "same_table s (snd (sys_call env name args s))"
  by (simp add: sys_call_def same_table_def split: prod.splits)

lemma same_table_non_blocking: "same_table s (snd (set_non_blocking env sd s))"
proof -
  obtain r s1 where e: "sys_call env ''fcntl F_GETFL'' [sd] s = (r, s1)" by fastforce
  with same_table_sys_call [of s env "''fcntl F_GETFL''" "[sd]"] have "same_table s s1" by simp
  with e same_table_trans [OF this same_table_sys_call] show ?thesis by (simp add: set_non_blocking_def split: prod.splits) (metis snd_conv)
qed

lemma same_table_start: "same_table s (snd (start_main_loop env s))"
proof -
  obtain r s1 where e: "sys_pair env ''pipe'' [] s = (r, s1)" by fastforce
  then have s1: "same_table s s1" by (auto simp: sys_pair_def same_table_def split: prod.splits)
  show ?thesis
  proof (cases r)
    case None
    with e s1 show ?thesis by (simp add: start_main_loop_def)
  next
    case (Some fds)
    let ?s1 = "s1\<lparr>nsi_main_loop_pipe := fds\<rparr>"
    let ?s2 = "snd (set_non_blocking env (fst fds) ?s1)"
    let ?s3 = "snd (set_non_blocking env (snd fds) ?s2)"
    have "same_table s1 ?s1" by (simp add: same_table_def)
    then have "same_table s ?s3" using s1 same_table_trans same_table_non_blocking by blast
    moreover obtain t s4 where t: "sys_call env ''pthread_create'' [] ?s3 = (t, s4)" by fastforce
    ultimately have "same_table s s4" using same_table_trans [OF _ same_table_sys_call] by (metis snd_conv)
    then show ?thesis using e Some t by (simp add: start_main_loop_def Let_def same_table_def)
  qed
qed

section \<open>Cleaning up\<close>

text \<open>When only the standard descriptors are left, \<open>nsa_cleanup\<close> gives all memory back.\<close>

lemma unmap_ok:
  assumes ok: "nsa_ok s" and nf: "\<forall>a k. nsa_sockets s a = Some k \<longrightarrow> ns_flow k = None"
  shows "\<exists>r s'. nsa_unmap_socket env d s = Some (r, s') \<and> nsa_ok s' \<and> descriptors s' = descriptors s - {d} \<and>
     (\<forall>a k. nsa_sockets s' a = Some k \<longrightarrow> ns_flow k = None)"
proof (cases "d \<in> descriptors s")
  case False
  have "nsa_close env d s = Some (- 1, s\<lparr>nsa_errno := E_BADF\<rparr>)"
    by (rule nsa_close_unknown) (use ok False in \<open>auto simp: nsa_ok_def\<close>)
  with ok nf False show ?thesis by (simp add: nsa_unmap_socket_def)
next
  case True
  then obtain x where x: "x \<in> live s" "d = descriptor_of s x" by blast
  have inv: "nsa_inv {} {} s" using ok by (auto simp: nsa_ok_def)
  from nsa_close_live [OF inv x(1), of env] x(2) obtain s' where
    s': "nsa_close env d s = Some (0, s')" "nsa_inv {} {} s'" "x \<notin> live s'" "shrinks {} s s'" "live s - live s' \<subseteq> accepted_by s x" by blast
  from nsa_close_safe [OF ok, of env d] s'(1) have ok': "nsa_ok s'" by (simp add: safe_def)
  have sk: "sockets_ok {} {} s" using inv by (simp add: nsa_inv_def)
  have "acceptors s = {}"
    unfolding acceptors_def using sockets_okD [OF sk] nf by (auto simp: socket_ok_def)
  then have "accepted_by s x = {x}" by (simp add: accepted_by_def)
  with s'(3,5) x have "live s - live s' = {x}" by blast
  with shrinks_descriptors [OF inv s'(4)] x have "descriptors s' = descriptors s - {d}" by simp
  moreover have "ns_flow k = None" if "nsa_sockets s' a = Some k" for a k
  proof -
    from shrinks_socket [OF s'(4) that] obtain k0 ys where "nsa_sockets s a = Some k0" "k = k0\<lparr>ns_accept_list := ys\<rparr>" by auto
    with nf show ?thesis by simp
  qed
  ultimately show ?thesis using s'(1) ok' by (auto simp: nsa_unmap_socket_def)
qed

definition removable :: "'k nsa \<Rightarrow> bool" where
  "removable s \<longleftrightarrow> live s = {} \<and> table_ok {} s \<or> nsa_ok s \<and> (\<forall>a k. nsa_sockets s a = Some k \<longrightarrow> ns_flow k = None)"

lemma removable_unmap:
  assumes "removable s"
  shows "\<exists>r s'. nsa_unmap_socket env d s = Some (r, s') \<and> removable s' \<and> descriptors s' = descriptors s - {d}"
proof (cases "live s = {} \<and> table_ok {} s")
  case True
  have "nsa_get_socket_for_descriptor d s = Some None" by (rule lookup_none [of "{}"]) (use True in auto)
  moreover obtain n where "close_depth s = Suc n" by (cases "close_depth s") (auto simp: close_depth_def)
  ultimately have "nsa_unmap_socket env d s = Some (- 1, s\<lparr>nsa_errno := E_BADF\<rparr>)" by (simp add: nsa_unmap_socket_def nsa_close_def)
  moreover have "table_ok {} (s\<lparr>nsa_errno := E_BADF\<rparr>)" using True by (auto simp: table_ok_def)
  ultimately show ?thesis using True by (auto simp: removable_def)
next
  case False
  with assms have r: "nsa_ok s" "\<forall>a k. nsa_sockets s a = Some k \<longrightarrow> ns_flow k = None" by (auto simp: removable_def)
  from unmap_ok [OF r, of env d] obtain r s' where "nsa_unmap_socket env d s = Some (r, s')" "nsa_ok s'"
    "descriptors s' = descriptors s - {d}" "\<forall>a k. nsa_sockets s' a = Some k \<longrightarrow> ns_flow k = None" by (elim exE conjE) (rule that)
  then show ?thesis by (simp add: removable_def)
qed

lemma removable_cong:
  assumes "removable s" and "nsa_sockets s' = nsa_sockets s" "nsi_socket_set s' = nsi_socket_set s"
    "nsi_socket_identifier_bitmap s' = nsi_socket_identifier_bitmap s" "nsa_signals s' = nsa_signals s" "nsa_flows s' = nsa_flows s"
  shows "removable s' \<and> descriptors s' = descriptors s"
proof -
  have d: "descriptor_of s' = descriptor_of s" using assms(2) by (simp add: descriptor_of_def fun_eq_iff)
  then have "table_ok {} s' = table_ok {} s" using assms by (simp add: table_ok_def)
  moreover have "nsa_ok s \<Longrightarrow> nsa_ok s'" by (rule nsa_ok_cong) (use assms in auto)
  ultimately show ?thesis using assms d by (auto simp: removable_def)
qed

lemma nsa_cleanup_ok:
  assumes rem: "removable s" and d: "descriptors s \<subseteq> {0, 1, 2}" and al: "nsi_allocated s"
  shows "\<exists>s'. nsa_cleanup env s = Some s' \<and> \<not> nsi_allocated s' \<and> live s' = {}"
proof -
  let ?s = "stop_main_loop env s"
  have "same_table s ?s" by (simp add: stop_main_loop_def Let_def same_table_def nsa_notify_main_loop_def sys_close_def)
  then have "removable ?s \<and> descriptors ?s = descriptors s"
    by (intro removable_cong [OF rem]) (simp_all add: same_table_def)
  with removable_unmap [of ?s env 2] obtain r1 s1 where
    s1: "nsa_unmap_socket env 2 ?s = Some (r1, s1)" "removable s1" "descriptors s1 = descriptors s - {2}" by auto
  from removable_unmap [OF s1(2), of env 0] obtain r2 s2 where
    s2: "nsa_unmap_socket env 0 s1 = Some (r2, s2)" "removable s2" "descriptors s2 = descriptors s1 - {0}" by (elim exE conjE) (rule that)
  from removable_unmap [OF s2(2), of env 1] obtain r3 s3 where
    s3: "nsa_unmap_socket env 1 s2 = Some (r3, s3)" "removable s3" "descriptors s3 = descriptors s2 - {1}" by (elim exE conjE) (rule that)
  have "descriptors s3 = {}" unfolding s3(3) s2(3) s1(3) using d by blast
  then have "live s3 = {}" by (simp only: image_is_empty)
  moreover have "nsa_sockets (free_internals env s3) = nsa_sockets s3"
    using same_table_sys_call [of s3 env "''neat_free_ctx''" "[]"] by (simp add: free_internals_def same_table_def Let_def)
  moreover have "\<not> nsi_allocated (free_internals env s3)" by (simp add: free_internals_def Let_def)
  ultimately show ?thesis using al s1(1) s2(1) s3(1) by (simp add: nsa_cleanup_def)
qed

section \<open>nsa_initialize\<close>

text \<open>The last part, once the table is set up.\<close>

definition initialised :: "bool \<Rightarrow> 'k nsa \<Rightarrow> bool" where
  "initialised ok s \<longleftrightarrow> nsi_allocated s = ok \<and>
     (if ok then nsa_ok s \<and> descriptors s = {0, 1, 2} \<and> (\<forall>a k. nsa_sockets s a = Some k \<longrightarrow> ns_flow k = None) else live s = {})"

lemma give_up_ok:
  assumes "removable s" and "descriptors s \<subseteq> {0, 1, 2}" and "nsi_allocated s"
  shows "\<exists>s'. (do { s1 \<leftarrow> nsa_cleanup env s; Some (False, s1) }) = Some (False, s') \<and> initialised False s'"
  using nsa_cleanup_ok [OF assms, of env] by (auto simp: initialised_def)

lemma start_up_ok:
  assumes ok: "nsa_ok s" and e: "live s = {}" "nsi_allocated s" and env: "calloc_ok env" "calloc_total env"
  shows "\<exists>ok s'. (do {
       s3 \<leftarrow> map_standard env (s\<lparr>nsi_neat_context := True\<rparr>);
       case start_main_loop env s3 of (started, s4) \<Rightarrow>
         if started then Some (True, s4) else do { s1 \<leftarrow> nsa_cleanup env s4; Some (False, s1) } }) = Some (ok, s') \<and> initialised ok s'"
proof -
  have "nsa_ok (s\<lparr>nsi_neat_context := True\<rparr>)" using ok by simp
  from map_standard_ok [OF this env] e obtain s3 where
    s3: "map_standard env (s\<lparr>nsi_neat_context := True\<rparr>) = Some s3" "nsa_ok s3" "descriptors s3 = {0, 1, 2}"
      "\<forall>a k. nsa_sockets s3 a = Some k \<longrightarrow> ns_flow k = None" "nsi_allocated s3" by auto
  obtain started s4 where s4: "start_main_loop env s3 = (started, s4)" by fastforce
  with same_table_start [of s3 env] have t4: "same_table s3 s4" by simp
  have ok4: "nsa_ok s4" "descriptors s4 = {0, 1, 2}" "\<forall>a k. nsa_sockets s4 a = Some k \<longrightarrow> ns_flow k = None" "nsi_allocated s4"
    using same_table_ok [OF t4 s3(2)] same_table_descriptors [OF t4] s3 t4 by (auto simp: same_table_def)
  then have "removable s4" by (simp add: removable_def)
  from give_up_ok [OF this, of env] ok4 s3(1) s4 show ?thesis
    by (cases started) (auto simp: initialised_def)
qed

lemma nsa_initialize_ok:
  assumes st: "starting s" and env: "calloc_ok env" "calloc_total env"
  shows "\<exists>ok s'. nsa_initialize env s = Some (ok, s') \<and> initialised ok s'"
proof -
  obtain m s0 where m: "sys_call env ''calloc'' [] s = (m, s0)" by fastforce
  with same_table_sys_call [of s env "''calloc''" "[]"] have t0: "same_table s s0" by simp
  let ?s0 = "s0\<lparr>nsi_allocated := True, nsi_neat_context := False, nsi_main_loop_thread := False,
             nsi_main_loop_pipe := (- 1, - 1), nsi_socket_set := rbt_new (nsi_socket_set s0)\<rparr>"
  obtain b s1 where b: "sys_call env ''malloc'' [] ?s0 = (b, s1)" by fastforce
  with same_table_sys_call [of ?s0 env "''malloc''" "[]"] have t1: "same_table ?s0 s1" by simp
  let ?s1 = "s1\<lparr>nsi_socket_identifier_bitmap := ibm_fresh 1024\<rparr>"
  obtain c s2 where c: "sys_call env ''neat_init_ctx'' [] ?s1 = (c, s2)" by fastforce
  with same_table_sys_call [of ?s1 env "''neat_init_ctx''" "[]"] have t2: "same_table ?s1 s2" by simp
  have ok2: "nsa_ok s2" "live s2 = {}" "nsi_allocated s2"
    using fresh_ok [of s2] st t0 t1 t2 by (auto simp: starting_def same_table_def)
  consider "m = 0" | "m \<noteq> 0" "b = 0" | "m \<noteq> 0" "b \<noteq> 0" "c = 0" | "m \<noteq> 0" "b \<noteq> 0" "c \<noteq> 0" by blast
  then show ?thesis
  proof cases
    case 1
    with st m t0 show ?thesis by (auto simp: nsa_initialize_def nsa_cleanup_def starting_def same_table_def initialised_def)
  next
    case 2
    have "rbt_holds (descriptor_of s1) (rbt_new (nsi_socket_set s0)) {}"
      unfolding rbt_holds_def using rbt_new_ok by (intro exI [of _ Leaf]) simp
    with st t0 t1 have "removable s1" "descriptors s1 \<subseteq> {0, 1, 2}" "nsi_allocated s1"
      by (auto simp: removable_def table_ok_def starting_def same_table_def)
    with give_up_ok [OF this, of env] st m b 2 show ?thesis by (simp add: nsa_initialize_def starting_def ibm_new_def) blast
  next
    case 3
    have "removable s2" "descriptors s2 \<subseteq> {0, 1, 2}" using ok2 by (auto simp: removable_def)
    from give_up_ok [OF this ok2(3), of env] st m b c 3 show ?thesis by (simp add: nsa_initialize_def starting_def ibm_new_fresh) blast
  next
    case 4
    from start_up_ok [OF ok2 env] st m b c 4 show ?thesis by (simp add: nsa_initialize_def starting_def ibm_new_fresh Let_def)
  qed
qed

section \<open>Sockets of the application\<close>

lemma nsa_initialize_allocated: "nsi_allocated s \<Longrightarrow> nsa_initialize env s = Some (True, s)"
  by (simp add: nsa_initialize_def Let_def)

text \<open>A new flow gets a socket.\<close>

lemma flow_socket_ok:
  assumes ok: "nsa_ok s" and env: "calloc_ok env" "calloc_total env" and room: "\<not> {0..<1024} \<subseteq> descriptors s"
    and g: "nsa_flows s g = None"
  shows "\<exists>d s'. nsa_socket_internal env domain type protocol customFD (Some g) (- 1)
       (s\<lparr>nsa_world := w, nsa_flows := (nsa_flows s)(g \<mapsto> \<lparr>cf_operations = no_ops, cf_closed = False\<rparr>)\<rparr>) = Some (d, s') \<and> nsa_ok s' \<and>
     gets_descriptor (- 1) (descriptors s) d \<and> descriptors s' = insert d (descriptors s) \<and> dom (nsa_flows s') = insert g (dom (nsa_flows s)) \<and>
     (\<exists>n kn. nsa_sockets s n = None \<and> nsa_sockets s' = (nsa_sockets s)(n \<mapsto> kn) \<and> created domain type protocol (Some g) n d kn)"
proof -
  have inv: "nsa_inv {} {} s" and users: "users_ok s" using ok by (auto simp: nsa_ok_def)
  define s1 where "s1 = s\<lparr>nsa_world := w, nsa_flows := (nsa_flows s)(g \<mapsto> \<lparr>cf_operations = no_ops, cf_closed = False\<rparr>)\<rparr>"
  have inv1: "nsa_inv {} {} s1" and free: "flow_free s1 g" unfolding s1_def by (rule new_flow_inv [OF inv g], simp)+
  have lv: "nsa_sockets s1 = nsa_sockets s" "descriptor_of s1 = descriptor_of s" by (simp_all add: s1_def descriptor_of_def fun_eq_iff)
  from create_flow_socket [OF inv1 env(1) free, of domain type protocol customFD] room calloc_totalD [OF env(2) ok, of "nsa_world s1"]
  obtain d s2 n kn where
    s2: "nsa_socket_internal env domain type protocol customFD (Some g) (- 1) s1 = Some (d, s2)" "nsa_inv {} {} s2"
      "gets_descriptor (- 1) (descriptors s) d" "nsa_sockets s n = None" "nsa_sockets s2 = (nsa_sockets s)(n \<mapsto> kn)"
      "created domain type protocol (Some g) n d kn" "dom (nsa_flows s2) = dom (nsa_flows s1)" "\<forall>q. q \<noteq> g \<longrightarrow> nsa_flows s2 q = nsa_flows s1 q"
    unfolding lv by blast
  have kn: "ns_descriptor kn = d" "ns_flow kn = Some g" "ns_flow_ops kn = socket_ops n" using s2(6) by (auto simp: created_def)
  from flow_user [OF s2(2), of n kn g] s2(5) kn obtain cg where "nsa_flows s2 g = Some cg" "cf_operations cg = socket_ops n" by auto
  then have "users_ok s2"
    by (intro create_users [OF users s2(4,5) kn(2)]) (use s2(7,8) in \<open>auto simp: s1_def socket_ops_def\<close>)
  then have "nsa_ok s2" using s2(2) by (simp add: nsa_ok_def)
  moreover have "dom (nsa_flows s2) = insert g (dom (nsa_flows s))" unfolding s2(7) by (simp add: s1_def)
  ultimately show ?thesis using s2(1,3-6) kn(1) descriptors_new [OF s2(4,5)] unfolding s1_def by blast
qed

lemma nsa_socket_safe:
  assumes ok: "nsa_ok s" and al: "nsi_allocated s" and env: "calloc_ok env" "calloc_total env" "new_flow_ok env"
    and room: "\<not> {0..<1024} \<subseteq> descriptors s"
  shows "safe (nsa_socket env domain type protocol properties s)"
proof (cases properties)
  case None
  with create_any_safe [OF ok env(1)] show ?thesis by (simp add: nsa_socket_def nsa_initialize_allocated [OF al])
next
  case (Some props)
  obtain x w where x: "env_new_flow env (\<lambda>f. nsa_flows s f \<noteq> None) (nsa_world s) = (x, w)" by fastforce
  show ?thesis
  proof (cases x)
    case None
    with Some x ok show ?thesis by (simp add: nsa_socket_def nsa_initialize_allocated [OF al])
  next
    case (Some g)
    from env(3) x Some have "\<not> nsa_flows s g \<noteq> None" unfolding new_flow_ok_def by blast
    then have g: "nsa_flows s g = None" by simp
    obtain c w' where c: "env_set_property env g props w = (c, w')" by fastforce
    from flow_socket_ok [OF ok env(1,2) room g, of 0 0 0 "- 1" w'] neat_close_unused [OF ok g, of env w']
    show ?thesis using x Some c \<open>properties = Some props\<close>
      by (cases "c = NEAT_OK") (auto simp: nsa_socket_def nsa_initialize_allocated [OF al] safe_def fail_def)
  qed
qed

section \<open>Calls on any descriptor\<close>

lemma nsa_sendmsg_safe:
  assumes ok: "nsa_ok s" and i: "idle p s" and others: "others_ok env p [entry d POLLOUT]"
  shows "safe (nsa_sendmsg env p d [b] 1 flags ptr s)"
proof -
  have inv: "nsa_inv {} {} s" using ok by (simp add: nsa_ok_def)
  show ?thesis
  proof (cases rule: lookup_cases [OF inv, of d, case_names none some])
    case none
    with ok show ?thesis by (simp add: nsa_sendmsg_def get_neat_socket_def)
  next
    case (some a k)
    show ?thesis
    proof (cases "ns_flow k")
      case None
      with some ok show ?thesis by (simp add: nsa_sendmsg_def get_neat_socket_def)
    next
      case (Some f)
      from nsa_sendmsg_ok [OF ok i some(2) Some some(3) others, of b flags ptr] show ?thesis by (auto simp: safe_def)
    qed
  qed
qed

lemma nsa_recvmsg_safe:
  assumes ok: "nsa_ok s" and i: "idle p s" and others: "others_ok env p [entry d POLLIN]"
  shows "safe3 (nsa_recvmsg env p d [n] 1 flags ptr s)"
proof -
  have inv: "nsa_inv {} {} s" using ok by (simp add: nsa_ok_def)
  show ?thesis
  proof (cases rule: lookup_cases [OF inv, of d, case_names none some])
    case none
    with ok show ?thesis by (simp add: nsa_recvmsg_def safe3_def)
  next
    case (some a k)
    show ?thesis
    proof (cases "ns_flow k")
      case None
      obtain x s1 where x: "sys_call env ''recvmsg'' [ns_socket_sd k, ptr, uint flags] s = (x, s1)" by fastforce
      with some ok None nsa_ok_sys_call [OF x] show ?thesis by (auto simp: nsa_recvmsg_def safe3_def)
    next
      case (Some f)
      from nsa_recvmsg_ok [OF ok i some(2) Some some(3) others, of n flags ptr] show ?thesis by (auto simp: safe3_def)
    qed
  qed
qed

lemma nsa_connectn_safe:
  assumes ok: "nsa_ok s" and i: "idle p s" and others: "others_ok env p [entry d POLLIN]"
  shows "safe (nsa_connectn env p d name port opt s)"
  unfolding nsa_connectn_def
proof (rule safe_get_neat_socket [OF ok])
  fix a k assume k: "nsa_sockets s a = Some k" "ns_descriptor k = d"
  show "safe (if ns_flow k \<noteq> None then nsa_connectx_internal env p a name port opt s else fail E_NOTSUP s)"
  proof (cases "ns_flow k")
    case None
    with ok show ?thesis by simp
  next
    case (Some f)
    from nsa_connectx_internal_ok [OF ok i k(1) Some k(2) others, of name port opt] Some show ?thesis by (auto simp: safe_def)
  qed
qed

lemma core_incoming_ok:
  assumes ok: "nsa_ok s" and env: "calloc_ok env" "calloc_total env" "new_flow_ok env"
    and a: "nsa_sockets s a = Some ka" "ns_flow ka = Some f" "ns_flags ka AND NSAF_LISTENING \<noteq> 0"
    and room: "\<not> {0..<1024} \<subseteq> descriptors s"
  shows "\<exists>s'. core_accept env f s = Some s' \<and> nsa_ok s'"
proof -
  obtain x w where x: "env_new_flow env (\<lambda>f. nsa_flows s f \<noteq> None) (nsa_world s) = (x, w)" by fastforce
  show ?thesis
  proof (cases x)
    case None
    from listening_socket [OF ok a(1,2)] obtain cf where "nsa_flows s f = Some cf" by blast
    with None x core_notify_ok [of "s\<lparr>nsa_world := w\<rparr>" "(f, N_error)"] ok show ?thesis by (auto simp: core_accept_def)
  next
    case (Some g)
    with env(3) x have "nsa_flows s g = None" unfolding new_flow_ok_def by blast
    from core_accept_ok [OF ok env(1) a room x [unfolded Some] this] calloc_totalD [OF env(2) ok] show ?thesis by blast
  qed
qed

section \<open>Reachable states\<close>

definition env_ok :: "'k nsa_env \<Rightarrow> bool" where
  "env_ok env \<longleftrightarrow> calloc_ok env \<and> calloc_total env \<and> new_flow_ok env"

abbreviation has_room :: "'k nsa \<Rightarrow> bool" where
  "has_room s \<equiv> \<not> {0..<1024} \<subseteq> descriptors s"

text \<open>
  The calls of the application and the callbacks of the core. A blocking call is one step; what
  happens during its wait is the action of the other threads, which keep the invariant.
\<close>

inductive nsa_step :: "'k nsa_env \<Rightarrow> 'k nsa \<Rightarrow> 'k nsa \<Rightarrow> bool" for env where
  notice: "core_notify x s = Some s' \<Longrightarrow> nsa_step env s s'"
| incoming: "nsa_sockets s a = Some k \<Longrightarrow> ns_flow k = Some f \<Longrightarrow> ns_flags k AND NSAF_LISTENING \<noteq> 0 \<Longrightarrow> has_room s \<Longrightarrow>
    core_accept env f s = Some s' \<Longrightarrow> nsa_step env s s'"
| socket: "nsi_allocated s \<Longrightarrow> has_room s \<Longrightarrow> nsa_socket env domain type protocol properties s = Some (r, s') \<Longrightarrow> nsa_step env s s'"
| pair: "map_pair env sv fds s = Some (r, q, s') \<Longrightarrow> nsa_step env s s'"
| close: "nsa_close env d s = Some (r, s') \<Longrightarrow> nsa_step env s s'"
| dup: "nsa_dup env d s = Some (r, s') \<Longrightarrow> nsa_step env s s'"
| dup2: "newfd < 1024 \<Longrightarrow> nsa_dup2 env d newfd s = Some (r, s') \<Longrightarrow> nsa_step env s s'"
| dup3: "newfd < 1024 \<Longrightarrow> nsa_dup3 env d newfd s = Some (r, s') \<Longrightarrow> nsa_step env s s'"
| fcntl: "nsa_fcntl d is_getfl arg s = Some (r, s') \<Longrightarrow> nsa_step env s s'"
| bindn: "nsa_bindn env d port opt s = Some (r, s') \<Longrightarrow> nsa_step env s s'"
| bindx: "nsa_bindx env d ptr addresses flags opt s = Some (r, s') \<Longrightarrow> nsa_step env s s'"
| listen: "nsa_listen env d backlog s = Some (r, s') \<Longrightarrow> nsa_step env s s'"
| shutdown: "nsa_shutdown env d how s = Some (r, s') \<Longrightarrow> nsa_step env s s'"
| setsockopt: "nsa_setsockopt env d level optname ptr optlen s = Some (r, s') \<Longrightarrow> nsa_step env s s'"
| file_op: "file_call env name d args s = Some (r, s') \<Longrightarrow> nsa_step env s s'"
| connect: "idle p s \<Longrightarrow> others_ok env p [entry d POLLIN] \<Longrightarrow> nsa_connectn env p d name port opt s = Some (r, s') \<Longrightarrow> nsa_step env s s'"
| accept: "idle p s \<Longrightarrow> others_ok env p [entry d POLLIN] \<Longrightarrow> nsa_accept4 m env p d addrlen flags s = Some (r, len, s') \<Longrightarrow> nsa_step env s s'"
| send: "idle p s \<Longrightarrow> others_ok env p [entry d POLLOUT] \<Longrightarrow> nsa_sendmsg env p d [b] 1 flags ptr s = Some (r, s') \<Longrightarrow> nsa_step env s s'"
| receive: "idle p s \<Longrightarrow> others_ok env p [entry d POLLIN] \<Longrightarrow> nsa_recvmsg env p d [n] 1 flags ptr s = Some (r, bytes, s') \<Longrightarrow> nsa_step env s s'"
| poll: "idle p s \<Longrightarrow> flow_fds s us \<Longrightarrow> others_ok env p us \<Longrightarrow> nsa_poll env p us timeout s = Some (r, vs, s') \<Longrightarrow> nsa_step env s s'"

inductive nsa_reachable :: "'k nsa_env \<Rightarrow> 'k nsa \<Rightarrow> bool" for env where
  init: "starting s0 \<Longrightarrow> nsa_initialize env s0 = Some (True, s) \<Longrightarrow> nsa_reachable env s"
| step: "nsa_reachable env s \<Longrightarrow> nsa_step env s s' \<Longrightarrow> nsa_reachable env s'"

lemma safeD: "safe x \<Longrightarrow> x = Some (r, s') \<Longrightarrow> nsa_ok s'"
  by (auto simp: safe_def)

lemma safe3D: "safe3 x \<Longrightarrow> x = Some (r, q, s') \<Longrightarrow> nsa_ok s'"
  by (auto simp: safe3_def)

lemma nsa_step_ok:
  assumes "nsa_step env s s'" and "nsa_ok s" and "env_ok env"
  shows "nsa_ok s'"
  using assms
proof (induction rule: nsa_step.induct)
  case (notice x s s')
  then show ?case using core_notify_ok [of s x] by auto
next
  case (incoming s a k f s')
  then show ?case using core_incoming_ok [of s env a k f] by (auto simp: env_ok_def)
next
  case (poll p s us timeout r vs s')
  then show ?case using nsa_poll_ok [of s p us env timeout] by (auto simp: idle_def)
next
  case (accept p s d m addrlen flags r len s')
  then show ?case using nsa_accept4_safe by blast
qed (auto simp: env_ok_def simp del: One_nat_def dest!: safeD [rotated] safe3D [rotated]
    intro: nsa_socket_safe map_pair_safe nsa_close_safe nsa_dup_safe nsa_dup2_safe nsa_fcntl_safe nsa_bindn_safe nsa_bindx_safe
      nsa_listen_safe nsa_shutdown_safe option_calls_safe nsa_connectn_safe nsa_sendmsg_safe nsa_recvmsg_safe)

lemma nsa_reachable_ok:
  assumes "nsa_reachable env s" and "env_ok env"
  shows "nsa_ok s"
  using assms
proof (induction rule: nsa_reachable.induct)
  case (init s0 s)
  then show ?case using nsa_initialize_ok [of s0 env] by (auto simp: env_ok_def initialised_def)
next
  case (step s s')
  then show ?case using nsa_step_ok by blast
qed

end
