(* ===== verification/Socket_Demo.thy ===== *)
theory Socket_Demo
  imports Socket_Run
begin

text \<open>
  A concrete environment, in which every system call succeeds, and states of a small program on it, for
  the witnesses of the theorems about the socket API: \<open>demo_state\<close> has one socket with a flow.
\<close>

definition demo_env :: "unit nsa_env" where
  "demo_env = \<lparr>env_calloc = (\<lambda>used w. (find (\<lambda>a. \<not> used a) [1..<2000], w)), env_malloc = (\<lambda>n w. (True, w)),
     env_socket = (\<lambda>domain type protocol w. (5, w)), env_close = (\<lambda>sd w. w), env_close_flow = (\<lambda>f w. w), env_linger = (\<lambda>f w. w),
     env_new_flow = (\<lambda>used w. (find (\<lambda>f. \<not> used f) [1..<2000], w)), env_set_property = (\<lambda>f props w. (NEAT_OK, w)),
     env_open = (\<lambda>f name port opt w. (NEAT_OK, [], w)), env_accept = (\<lambda>f port opt w. (NEAT_OK, [], w)),
     env_shutdown = (\<lambda>f w. (NEAT_OK, [], w)), env_write = (\<lambda>f buf w. (NEAT_OK, [], w)),
     env_read = (\<lambda>f n w. ((NEAT_OK, replicate n 0), [], w)), env_getlpaddrs = (\<lambda>f local w. (None, w)),
     env_getnameinfo = (\<lambda>x w. (None, w)), env_sys = (\<lambda>name args w. (if name = ''pthread_create'' then 0 else 1, None, w)),
     env_pair = (\<lambda>name args w. (Some (8, 9), None, w)), env_now = (\<lambda>w. (0, 0)), env_others = (\<lambda>p deadline s. s)\<rparr>"

lemma find_fresh:
  assumes "find (\<lambda>a. \<not> used a) [1..<2000] = Some (a::nat)"
  shows "\<not> used a \<and> a \<noteq> 0"
  using assms by (auto simp: find_Some_iff)

lemma find_first: "\<not> used 1 \<Longrightarrow> find (\<lambda>a. \<not> used a) [1..<2000] = Some (1::nat)"
  by (subst upt_conv_Cons) simp_all

lemma demo_env_ok: "env_ok demo_env"
proof -
  have "find (\<lambda>a. \<not> used a) [1..<2000] \<noteq> None" if "finite (Collect used)" "card (Collect used) \<le> 1024" for used :: "nat \<Rightarrow> bool"
  proof
    assume "find (\<lambda>a. \<not> used a) [1..<2000] = None"
    then have "{1..<2000} \<subseteq> Collect used" by (auto simp: find_None_iff)
    from card_mono [OF that(1) this] that(2) show False by simp
  qed
  then have "calloc_total demo_env" by (simp add: calloc_total_def demo_env_def)
  moreover have "calloc_ok demo_env" "new_flow_ok demo_env"
    using find_fresh by (auto simp: calloc_ok_def new_flow_ok_def demo_env_def)
  ultimately show ?thesis by (simp add: env_ok_def)
qed

lemmas demo_env_oks = demo_env_ok [unfolded env_ok_def, THEN conjunct1] demo_env_ok [unfolded env_ok_def, THEN conjunct2, THEN conjunct1]
  demo_env_ok [unfolded env_ok_def, THEN conjunct2, THEN conjunct2]

lemma demo_others_ok: "others_ok demo_env p us"
  by (simp add: others_ok_def demo_env_def)

text \<open>Before the initialisation, with an empty table, and with one socket.\<close>

definition demo_start :: "unit nsa" where
  "demo_start = \<lparr>nsi_allocated = False, nsi_neat_context = False, nsi_main_loop_thread = False, nsi_main_loop_pipe = (- 1, - 1),
     nsi_socket_identifier_bitmap = ibm_fresh 1024, nsi_socket_set = rbt_new blank_heap, nsa_sockets = Map.empty,
     nsa_signals = Map.empty, nsa_queues = Map.empty, nsa_flows = Map.empty, nsa_errno = E_NONE, nsa_wakeups = 0, nsa_world = ()\<rparr>"

definition demo_blank :: "unit nsa" where
  "demo_blank = demo_start\<lparr>nsi_allocated := True\<rparr>"

definition demo_state :: "unit nsa" where
  "demo_state = snd (the (nsa_socket demo_env 0 0 0 (Some ''{}'') demo_blank))"

lemma demo_blank_ok: "nsa_ok demo_blank" and demo_blank_live: "live demo_blank = {}" and demo_blank_idle: "idle p demo_blank"
  by (rule fresh_ok; simp add: demo_blank_def demo_start_def) (simp_all add: demo_blank_def demo_start_def idle_def)

text \<open>The signals of a new socket are its own.\<close>

lemma create_idle:
  assumes "nsa_socket_internal env domain type protocol customFD flow requestedSD s = Some (d, s')" and "idle p s"
  shows "idle p s'"
proof -
  have new: "ps_signals p \<inter> {read_signal a, write_signal a, exception_signal a} = {}" for a
    using ps_frame sig_mod by blast
  have k: "nsa_signals s1 = nsa_signals s0" if "socket_kind env domain type protocol customFD flow a s0 = Some (k, s1)"
    for a k and s0 s1 :: "'a nsa"
    using that by (auto simp: socket_kind_def neat_set_operations_def split: option.splits if_splits prod.splits bind_splits)
  show ?thesis
    using assms new
    by (fastforce simp: nsa_socket_internal_def es_new_free Let_def idle_def free_socket_def c_assert_def
        dest!: k split: prod.splits option.splits if_splits bind_splits)
qed

lemma demo_state_facts:
  "nsa_ok demo_state \<and> idle p demo_state \<and> descriptors demo_state = {0} \<and> dom (nsa_flows demo_state) = {1} \<and>
   (\<exists>a k. nsa_sockets demo_state = [a \<mapsto> k] \<and> ns_flow k = Some 1 \<and> ns_descriptor k = 0 \<and> ns_flags k = 0 \<and> ns_accept_list k = [])"
proof -
  have g: "env_new_flow demo_env (\<lambda>f. nsa_flows demo_blank f \<noteq> None) () = (Some 1, ())"
    using find_first [of "\<lambda>f. nsa_flows demo_blank f \<noteq> None"] by (simp add: demo_env_def demo_blank_def demo_start_def)
  have room: "\<not> {0..<1024::int} \<subseteq> descriptors demo_blank" unfolding demo_blank_live by simp
  have f: "nsa_flows demo_blank 1 = None" by (simp add: demo_blank_def demo_start_def)
  let ?s = "demo_blank\<lparr>nsa_world := (), nsa_flows := (nsa_flows demo_blank)(1 \<mapsto> \<lparr>cf_operations = no_ops, cf_closed = False\<rparr>)\<rparr>"
  from flow_socket_ok [OF demo_blank_ok demo_env_oks(1,2) room f, of 0 0 0 "- 1" "()"] obtain d s' n kn where
    s': "nsa_socket_internal demo_env 0 0 0 (- 1) (Some 1) (- 1) ?s = Some (d, s')" "nsa_ok s'"
      "gets_descriptor (- 1) (descriptors demo_blank) d" "descriptors s' = insert d (descriptors demo_blank)" "dom (nsa_flows s') = insert 1 (dom (nsa_flows demo_blank))"
      "nsa_sockets s' = (nsa_sockets demo_blank)(n \<mapsto> kn)" "created 0 0 0 (Some 1) n d kn"
    by blast
  have d: "d = 0" using s'(3) unfolding demo_blank_live by (auto simp: gets_descriptor_def)
  have "idle p ?s" using demo_blank_idle by (simp add: idle_def)
  from create_idle [OF s'(1) this] have "idle p s'" .
  moreover have "demo_state = s'"
    using s'(1) g by (simp add: demo_state_def nsa_socket_def nsa_initialize_allocated demo_blank_def demo_start_def demo_env_def)
  moreover have "nsa_sockets demo_blank = Map.empty" "nsa_flows demo_blank = Map.empty" by (simp_all add: demo_blank_def demo_start_def)
  ultimately show ?thesis using s' d unfolding demo_blank_live by (auto simp: created_def)
qed

end
