(* ===== verification/Socket_Ready.thy ===== *)
theory Socket_Ready
  imports Socket_Poll
begin

text \<open>
  \<open>nsa_poll\<close> when a polled socket is ready at the call: the first loop counts the event, so the wait is
  skipped and the result is positive.
\<close>

section \<open>Events that are there already\<close>

definition ready_now :: "'k nsa \<Rightarrow> pollfd \<Rightarrow> bool" where
  "ready_now s u \<longleftrightarrow> (\<exists>a k. nsa_sockets s a = Some k \<and> ns_descriptor k = pfd_fd u \<and>
     (pfd_events u AND POLLIN \<noteq> 0 \<and> ns_flags k AND (NSAF_READABLE OR NSAF_BAD) \<noteq> 0 \<or>
      pfd_events u AND POLLOUT \<noteq> 0 \<and> ns_flags k AND NSAF_WRITABLE \<noteq> 0))"

definition pending :: "'k nsa \<Rightarrow> pollfd list \<Rightarrow> bool" where
  "pending s us \<longleftrightarrow> (\<forall>u \<in> set us. pfd_fd u \<in> descriptors s) \<and> (\<exists>u \<in> set us. ready_now s u)"

definition lookups_ok :: "'k nsa \<Rightarrow> bool" where
  "lookups_ok s \<longleftrightarrow> (\<forall>d \<in> descriptors s. \<exists>a k. nsa_get_socket_for_descriptor d s = Some (Some a) \<and> nsa_sockets s a = Some k \<and>
     (\<forall>b kb. nsa_sockets s b = Some kb \<longrightarrow> ns_descriptor kb = d \<longrightarrow> b = a))"

lemma nsa_inv_lookups:
  assumes inv: "nsa_inv {} {} s"
  shows "lookups_ok s"
  unfolding lookups_ok_def
proof
  fix d assume d: "d \<in> descriptors s"
  show "\<exists>a k. nsa_get_socket_for_descriptor d s = Some (Some a) \<and> nsa_sockets s a = Some k \<and>
     (\<forall>b kb. nsa_sockets s b = Some kb \<longrightarrow> ns_descriptor kb = d \<longrightarrow> b = a)"
  proof (cases rule: lookup_cases [OF inv, of d, case_names none some])
    case none
    with d show ?thesis by simp
  next
    case (some a k)
    have "b = a" if "nsa_sockets s b = Some kb" "ns_descriptor kb = d" for b kb
      using some(4) [of b] that by (auto simp: descriptor_of_def)
    with some show ?thesis by blast
  qed
qed

lemma lookups_change: "sig_change s s' \<Longrightarrow> lookups_ok s' = lookups_ok s"
  by (simp add: lookups_ok_def sig_changeD sig_change_lookup)

lemma ready_change: "sig_change s s' \<Longrightarrow> ready_now s' u = ready_now s u"
  by (simp add: ready_now_def sig_changeD)

lemma add_parent_change: "add_parent e q s = Some s' \<Longrightarrow> sig_change s s'"
  by (auto simp: add_parent_def split: bind_splits)

lemma poll_collect_counts:
  assumes "poll_collect p us r0 s = Some (r, s')" and "lookups_ok s" and "\<forall>u \<in> set us. pfd_fd u \<in> descriptors s"
  shows "r0 \<le> r \<and> ((\<exists>u \<in> set us. ready_now s u) \<longrightarrow> r0 < r)"
  using assms
proof (induction us arbitrary: s r0)
  case Nil
  then show ?case by simp
next
  case (Cons u us)
  from Cons.prems(2,3) obtain a k where a: "nsa_get_socket_for_descriptor (pfd_fd u) s = Some (Some a)" "nsa_sockets s a = Some k"
    and only: "\<And>b kb. nsa_sockets s b = Some kb \<Longrightarrow> ns_descriptor kb = pfd_fd u \<Longrightarrow> b = a"
    unfolding lookups_ok_def by fastforce
  let ?in = "pfd_events u AND POLLIN \<noteq> 0 \<and> ns_flags k AND (NSAF_READABLE OR NSAF_BAD) \<noteq> 0"
  let ?out = "pfd_events u AND POLLOUT \<noteq> 0 \<and> ns_flags k AND NSAF_WRITABLE \<noteq> 0"
  define r1 where "r1 = (if ?in then r0 + 1 else r0)"
  define r2 where "r2 = (if ?out then r1 + 1 else r1)"
  from Cons.prems(1) a obtain s1 s2 s3 where
    "(if pfd_events u AND POLLIN \<noteq> 0 then add_parent (read_signal a) (ps_read_signal p) s else Some s) = Some s1"
    "(if pfd_events u AND POLLOUT \<noteq> 0 then add_parent (write_signal a) (ps_write_signal p) s1 else Some s1) = Some s2"
    "add_parent (exception_signal a) (ps_exception_signal p) s2 = Some s3" and rest: "poll_collect p us r2 s3 = Some (r, s')"
    unfolding r2_def r1_def by (auto simp: Let_def split: bind_splits)
  then have ch: "sig_change s s3"
    using add_parent_change sig_change_trans sig_change_refl by (metis option.inject)
  have "lookups_ok s3" "\<forall>x \<in> set us. pfd_fd x \<in> descriptors s3"
    using Cons.prems(2,3) lookups_change [OF ch] sig_changeD(1,7) [OF ch] by auto
  from Cons.IH [OF rest this] have IH: "r2 \<le> r" "(\<exists>u \<in> set us. ready_now s u) \<longrightarrow> r2 < r"
    unfolding ready_change [OF ch] by auto
  have up: "r0 \<le> r1" "r1 \<le> r2" by (simp_all add: r1_def r2_def)
  have "r0 < r2" if "ready_now s u"
  proof -
    from that only a(2) have "?in \<or> ?out" unfolding ready_now_def by (metis option.inject)
    then show ?thesis by (auto simp: r1_def r2_def)
  qed
  with IH up show ?case by auto
qed

text \<open>With such an event \<open>nsa_poll\<close> does not wait: what other threads would do does not matter.\<close>

lemma nsa_poll_no_wait:
  assumes ok: "nsa_ok s" and d: "ps_signals p \<inter> dom (nsa_signals s) = {}" and fl: "flow_fds s us" and pend: "pending s us"
  shows "\<exists>vs s'. (\<forall>others. nsa_poll (env\<lparr>env_others := others\<rparr>) p us timeout s = Some (int (length (filter (\<lambda>v. pfd_revents v \<noteq> 0) vs)), vs, s')) \<and>
     nsa_sockets s' = nsa_sockets s \<and> list_all2 (answers s) us vs"
proof -
  let ?env = "env\<lparr>env_others := \<lambda>p deadline s. s\<rparr>"
  from poll_storage_new_ok [OF ok d] obtain s1 where s1: "poll_storage_new p s = Some s1" "nsa_ok s1" "sig_change s s1"
    "dom (nsa_signals s1) = dom (nsa_signals s) \<union> ps_signals p" by blast
  have p1: "ps_signals p \<subseteq> dom (nsa_signals s1)" and fl1: "flow_fds s1 us"
    using s1(4) fl flow_fds_change [OF s1(3)] by auto
  from poll_collect_ok [OF s1(2) p1 fl1, of 0] obtain r s2 where s2: "poll_collect p us 0 s1 = Some (r, s2)" "nsa_ok s2" "sig_change s1 s2" by blast
  have "lookups_ok s1" using nsa_inv_lookups s1(2) by (auto simp: nsa_ok_def)
  moreover have "\<forall>u \<in> set us. pfd_fd u \<in> descriptors s1" "\<exists>u \<in> set us. ready_now s1 u"
    using pend sig_changeD(1,7) [OF s1(3)] ready_change [OF s1(3)] by (auto simp: pending_def)
  ultimately have r: "r \<noteq> 0" using poll_collect_counts [OF s2(1)] by auto
  have "others_ok ?env p us" by (simp add: others_ok_def)
  from nsa_poll_ok [OF ok d fl this, of timeout] obtain vs s' where
    e: "nsa_poll ?env p us timeout s = Some (int (length (filter (\<lambda>v. pfd_revents v \<noteq> 0) vs)), vs, s')" "list_all2 (answers s') us vs" by blast
  have same: "nsa_poll (env\<lparr>env_others := others\<rparr>) p us timeout s = nsa_poll ?env p us timeout s" for others
    using s1(1) s2(1) r by (simp add: nsa_poll_def)
  have fl2: "flow_fds s2 us" using fl1 flow_fds_change [OF s2(3)] by simp
  from poll_results_ok [OF s2(2) fl2, of p] obtain vs2 s4 where
    s4: "poll_results p us s2 = Some (int (length (filter (\<lambda>v. pfd_revents v \<noteq> 0) vs2)), vs2, s4)" "sig_change s2 s4" by blast
  from e(1) s1(1) s2(1) r s4(1) have "poll_storage_delete p s4 = Some s'" by (auto simp: nsa_poll_def split: bind_splits)
  then have "sig_change s4 s'" by (auto simp: poll_storage_delete_def split: bind_splits)
  then have ch: "sig_change s s'" using s1(3) s2(3) s4(2) sig_change_trans by blast
  have "answers s' = answers s" using ch by (intro ext) (rule answers_change)
  with e same sig_changeD(1) [OF ch] show ?thesis by auto
qed

end
