(* ===== verification/Socket_Props.thy ===== *)
theory Socket_Props
  imports Socket_Demo Socket_Ready
begin

text \<open>
  The properties of the socket API. Each is stated for an arbitrary environment that keeps the named
  promises and is applied to the demonstration environment by its witness.
\<close>

section \<open>Closing\<close>


lemma demo_flow: "\<exists>a k. nsa_sockets demo_state = [a \<mapsto> k] \<and> ns_flow k = Some 1 \<and> ns_descriptor k = 0 \<and> ns_flags k = 0 \<and> ns_accept_list k = []"
  and demo_ok: "nsa_ok demo_state" and demo_idle: "idle p demo_state" and demo_descriptors: "descriptors demo_state = {0}"
  using demo_state_facts by auto


section \<open>Polling\<close>


lemma demo_flow_fds: "flow_fds demo_state us"
  using demo_flow by (auto simp: flow_fds_def split: if_splits)


lemma socket_events_ready:
  assumes "pfd_events u AND POLLIN \<noteq> 0 \<and> ns_flags k AND (NSAF_READABLE OR NSAF_BAD) \<noteq> 0 \<or>
      pfd_events u AND POLLOUT \<noteq> 0 \<and> ns_flags k AND NSAF_WRITABLE \<noteq> 0"
  shows "socket_events k (pfd_events u) \<noteq> 0"
  using assms unfolding socket_events_def by (auto simp: or_eq_0_iff POLLIN_def POLLOUT_def)



section \<open>Connections to a listening socket\<close>

lemma incoming_connection:
  assumes "nsa_ok s" and "env_ok env" and "nsa_sockets s a = Some ka" and "ns_flow ka = Some f" and "ns_flags ka AND NSAF_LISTENING \<noteq> 0"
    and "has_room s" and "env_new_flow env (\<lambda>f. nsa_flows s f \<noteq> None) (nsa_world s) = (Some g, w)"
  shows "\<exists>s' n kn. core_accept env f s = Some s' \<and> nsa_ok s' \<and> nsa_sockets s n = None \<and>
     nsa_sockets s' = (nsa_sockets s)(n \<mapsto> kn, a \<mapsto> ka\<lparr>ns_accept_list := ns_accept_list ka @ [n]\<rparr>) \<and>
     gets_descriptor (- 1) (descriptors s) (ns_descriptor kn) \<and> ns_flow kn = Some g \<and> ns_acceptor kn = Some a \<and>
     fired_at (nsa_signals s') (read_signal a)"
proof -
  have env: "calloc_ok env" "calloc_total env" "new_flow_ok env" using assms(2) by (auto simp: env_ok_def)
  have "nsa_flows s g = None" using env(3) assms(7) unfolding new_flow_ok_def by blast
  from core_accept_ok [OF assms(1) env(1) assms(3-7) this calloc_totalD [OF env(2) assms(1)]] show ?thesis by blast
qed


text \<open>A listening socket of the demonstration.\<close>

lemma demo_listening:
  "\<exists>a k. nsa_ok (set_flag a NSAF_LISTENING demo_state) \<and> nsa_sockets (set_flag a NSAF_LISTENING demo_state) = [a \<mapsto> k] \<and> ns_flow k = Some 1 \<and>
     ns_descriptor k = 0 \<and> ns_flags k AND NSAF_LISTENING \<noteq> 0 \<and> ns_accept_list k = [] \<and> has_room (set_flag a NSAF_LISTENING demo_state) \<and>
     (\<exists>g w. env_new_flow demo_env (\<lambda>f. nsa_flows (set_flag a NSAF_LISTENING demo_state) f \<noteq> None)
        (nsa_world (set_flag a NSAF_LISTENING demo_state)) = (Some g, w))"
proof -
  from demo_flow obtain a k where a: "nsa_sockets demo_state = [a \<mapsto> k]" "ns_flow k = Some 1" "ns_descriptor k = 0" "ns_flags k = 0"
    "ns_accept_list k = []" by blast
  let ?s = "set_flag a NSAF_LISTENING demo_state"
  have at: "nsa_sockets ?s = [a \<mapsto> k\<lparr>ns_flags := 4\<rparr>]" using a by (simp add: set_flag_def NSAF_LISTENING_def)
  have d: "descriptors ?s = {0}" using at a by (simp add: descriptor_of_def)
  have "(1::int) \<in> {0..<1024}" "(1::int) \<notin> {0}" by simp_all
  then have room: "has_room ?s" unfolding d by blast
  have "dom (nsa_flows demo_state) = {1}" using demo_state_facts [of 0] by blast
  then have "2 \<notin> dom (nsa_flows demo_state)" by simp
  then have "nsa_flows demo_state 2 = None" by blast
  then have "nsa_flows ?s 2 = None" by (simp add: set_flag_def)
  then have "find (\<lambda>f. \<not> nsa_flows ?s f \<noteq> None) [1..<2000] \<noteq> None"
    unfolding find_None_iff by (auto intro!: exI [of _ 2])
  then show ?thesis using a at room nsa_ok_set_flag [OF demo_ok, of a NSAF_LISTENING]
    by (intro exI [of _ a] exI [of _ "k\<lparr>ns_flags := 4\<rparr>"]) (auto simp: NSAF_LISTENING_def demo_env_def)
qed


text \<open>When all descriptors are taken, a connection to a listening flow makes \<open>on_connected\<close> free the socket that it has
  just registered as user data of the new flow; the \<open>neat_abort\<close> that follows calls \<open>on_close\<close> with the freed socket.
  The model, in which such an access has no result, does not return.\<close>

theorem core_accept_full_table:
  assumes "nsa_ok s" and "env_ok env" and "nsa_sockets s a = Some ka" and "ns_flow ka = Some f" and "ns_flags ka AND NSAF_LISTENING \<noteq> 0"
    and "{0..<1024} \<subseteq> descriptors s" and "env_new_flow env (\<lambda>f. nsa_flows s f \<noteq> None) (nsa_world s) = (Some g, w)"
  shows "core_accept env f s = None"
proof -
  have env: "calloc_ok env" "calloc_total env" "new_flow_ok env" using assms(2) by (auto simp: env_ok_def)
  have "nsa_flows s g = None" using env(3) assms(7) unfolding new_flow_ok_def by blast
  from core_accept_full [OF assms(1) env(1) assms(3-7) this calloc_totalD [OF env(2) assms(1)]] show ?thesis .
qed

lemma fill_table:
  fixes env :: "'k nsa_env" and s :: "'k nsa"
  assumes "nsa_ok s" and "env_ok env" and "descriptors s = {0..<int m}" and "m \<le> 1024"
  shows "\<exists>s' :: 'k nsa. nsa_ok s' \<and> descriptors s' = {0..<1024} \<and> nsa_sockets s \<subseteq>\<^sub>m nsa_sockets s' \<and> nsa_flows s' = nsa_flows s"
  using assms
proof (induction "1024 - m" arbitrary: m s)
  case 0
  then have "m = 1024" by simp
  with 0 show ?case by auto
next
  case (Suc n)
  have m: "0 \<le> int m" "int m < 1024" "int m \<notin> descriptors s" using Suc.hyps(2) Suc.prems(3) by auto
  have env: "calloc_ok env" "calloc_total env" using Suc.prems(2) by (auto simp: env_ok_def)
  from nsa_map_socket_ok [OF Suc.prems(1) env m, of 1] obtain s1 :: "'k nsa" and a k where
    s1: "nsa_ok s1" "nsa_sockets s a = None" "nsa_sockets s1 = (nsa_sockets s)(a \<mapsto> k)" "descriptors s1 = insert (int m) (descriptors s)"
      "nsa_flows s1 = nsa_flows s" by blast
  have d1: "descriptors s1 = {0..<int (Suc m)}" unfolding s1(4) Suc.prems(3) by auto
  have le: "n = 1024 - Suc m" "Suc m \<le> 1024" using Suc.hyps(2) by auto
  from Suc.hyps(1) [OF le(1) s1(1) Suc.prems(2) d1 le(2)] obtain s' :: "'k nsa" where
    s': "nsa_ok s'" "descriptors s' = {0..<1024}" "nsa_sockets s1 \<subseteq>\<^sub>m nsa_sockets s'" "nsa_flows s' = nsa_flows s1" by blast
  have "nsa_sockets s \<subseteq>\<^sub>m nsa_sockets s1" using s1(2,3) by (auto simp: map_le_def)
  from map_le_trans [OF this s'(3)] s'(1,2,4) s1(5) show ?case by (intro exI [of _ s']) simp
qed

theorem core_accept_full_table_witness:
  "\<exists>s. nsa_ok s \<and> descriptors s = {0..<1024} \<and> core_accept demo_env 1 s = None"
proof -
  from demo_listening obtain a k g w where
    l: "nsa_ok (set_flag a NSAF_LISTENING demo_state)" "nsa_sockets (set_flag a NSAF_LISTENING demo_state) = [a \<mapsto> k]" "ns_flow k = Some 1"
      "ns_flags k AND NSAF_LISTENING \<noteq> 0" "ns_descriptor k = 0"
      "env_new_flow demo_env (\<lambda>f. nsa_flows (set_flag a NSAF_LISTENING demo_state) f \<noteq> None)
        (nsa_world (set_flag a NSAF_LISTENING demo_state)) = (Some g, w)" by blast
  have "descriptors (set_flag a NSAF_LISTENING demo_state) = {0..<int 1}" using l(2,5) by (auto simp: descriptor_of_def)
  from fill_table [OF l(1) demo_env_ok this] obtain s :: "unit nsa" where
    s: "nsa_ok s" "descriptors s = {0..<1024}" "nsa_sockets (set_flag a NSAF_LISTENING demo_state) \<subseteq>\<^sub>m nsa_sockets s"
      "nsa_flows s = nsa_flows (set_flag a NSAF_LISTENING demo_state)" by auto
  have at: "nsa_sockets s a = Some k" using s(3) l(2) by (simp add: map_le_def)
  have full: "{0..<1024} \<subseteq> descriptors s" unfolding s(2) by simp
  have "env_new_flow demo_env (\<lambda>f. nsa_flows s f \<noteq> None) (nsa_world s) = (Some g, w)" using l(6) unfolding s(4) by simp
  from core_accept_full_table [OF s(1) demo_env_ok at l(3,4) full this] s(1,2) show ?thesis by blast
qed



section \<open>Connecting and transferring data\<close>







section \<open>Initialisation and reachable states\<close>

text \<open>\<open>nsa_initialize\<close> on a process without a table returns. When it succeeds the table satisfies the invariant and
  holds exactly the three standard descriptors, none of them a flow; when memory, the context of the core,
  the pipe or the thread cannot be had, everything is given back and no socket is left.\<close>

theorem nsa_initialize_correct:
  assumes "starting s" and "env_ok env"
  shows "\<exists>ok s'. nsa_initialize env s = Some (ok, s') \<and> nsi_allocated s' = ok \<and>
     (if ok then nsa_ok s' \<and> descriptors s' = {0, 1, 2} \<and> (\<forall>a k. nsa_sockets s' a = Some k \<longrightarrow> ns_flow k = None) else live s' = {})"
  using nsa_initialize_ok [of s env] assms by (auto simp: env_ok_def initialised_def)

lemma demo_starting: "starting demo_start"
  by (simp add: starting_def demo_start_def)

lemma demo_initialised: "\<exists>s'. nsa_initialize demo_env demo_start = Some (True, s') \<and> initialised True s'"
proof -
  from nsa_initialize_ok [OF demo_starting demo_env_oks(1,2)] obtain ok s' where
    i: "nsa_initialize demo_env demo_start = Some (ok, s')" "initialised ok s'" by blast
  have "ok" using i(1)
    by (auto simp: nsa_initialize_def sys_call_def start_main_loop_def sys_pair_def set_non_blocking_def demo_env_def demo_start_def
        ibm_new_fresh Let_def split: if_splits bind_splits)
  with i show ?thesis by auto
qed

theorem nsa_initialize_correct_witness:
  "\<exists>ok s'. nsa_initialize demo_env demo_start = Some (ok, s') \<and> nsi_allocated s' = ok \<and>
     (if ok then nsa_ok s' \<and> descriptors s' = {0, 1, 2} \<and> (\<forall>a k. nsa_sockets s' a = Some k \<longrightarrow> ns_flow k = None) else live s' = {})"
  by (rule nsa_initialize_correct [OF demo_starting demo_env_ok])


lemma demo_reached: "\<exists>s r s'. nsa_reachable demo_env s \<and> descriptors s = {0, 1, 2} \<and> nsa_close demo_env 2 s = Some (r, s') \<and> nsa_reachable demo_env s'"
proof -
  from demo_initialised obtain s where s: "nsa_initialize demo_env demo_start = Some (True, s)" "nsa_ok s" "descriptors s = {0, 1, 2}"
    by (auto simp: initialised_def)
  have r: "nsa_reachable demo_env s" by (rule nsa_reachable.init [OF demo_starting s(1)])
  from nsa_close_safe [OF s(2), of demo_env 2] obtain x s' where c: "nsa_close demo_env 2 s = Some (x, s')" by (auto simp: safe_def)
  from nsa_reachable.step [OF r nsa_step.close [OF c]] r s(3) c show ?thesis by blast
qed




section \<open>Descriptors\<close>

text \<open>\<open>nsa_socket_internal\<close> for all three kinds of socket. It returns; on success there is one new socket, with the
  least free descriptor or the requested one and the fields of its kind, and every flow but its own is as before; on
  failure no socket is added, and \<open>errno\<close> is \<open>ENOMEM\<close> without memory and \<open>EMFILE\<close> without a descriptor.\<close>

theorem nsa_socket_internal_correct:
  assumes "nsa_ok s" and "calloc_ok env" and "\<forall>f. flow = Some f \<longrightarrow> flow_free s f" and "requestedSD < 1024"
  shows "\<exists>d s'. nsa_socket_internal env domain type protocol customFD flow requestedSD s = Some (d, s') \<and>
     (d = - 1 \<and> nsa_sockets s' = nsa_sockets s \<and>
        (nsa_errno s' = E_NOMEM \<and> fst (env_calloc env (\<lambda>a. nsa_sockets s a \<noteq> None) (nsa_world s)) = None \<or>
         nsa_errno s' = E_MFILE \<and> no_descriptor requestedSD (descriptors s)) \<or>
      gets_descriptor requestedSD (descriptors s) d \<and>
        (\<exists>a k. nsa_sockets s a = None \<and> nsa_sockets s' = (nsa_sockets s)(a \<mapsto> k) \<and> created domain type protocol flow a d k \<and>
               nsa_get_socket_for_descriptor d s' = Some (Some a))) \<and>
     (\<forall>q. flow \<noteq> Some q \<longrightarrow> nsa_flows s' q = nsa_flows s q)"
proof -
  have inv: "nsa_inv {} {} s" using assms(1) by (simp add: nsa_ok_def)
  from nsa_socket_internal_ok [OF inv assms(2-4), of domain type protocol customFD] obtain d s' where
    A: "nsa_socket_internal env domain type protocol customFD flow requestedSD s = Some (d, s')" "nsa_inv {} {} s'"
    and B: "d = - 1 \<and> nsa_sockets s' = nsa_sockets s \<and>
        (nsa_errno s' = E_NOMEM \<and> fst (env_calloc env (\<lambda>a. nsa_sockets s a \<noteq> None) (nsa_world s)) = None \<or>
         nsa_errno s' = E_MFILE \<and> no_descriptor requestedSD (descriptors s) \<and>
           (\<forall>f. flow = Some f \<longrightarrow> (\<exists>a cf. nsa_sockets s a = None \<and> nsa_flows s' f = Some cf \<and> cf_operations cf = socket_ops a \<and>
              \<not> cf_closed cf))) \<or>
      gets_descriptor requestedSD (descriptors s) d \<and>
        (\<exists>a k. nsa_sockets s a = None \<and> a \<noteq> 0 \<and> nsa_sockets s' = (nsa_sockets s)(a \<mapsto> k) \<and>
               created domain type protocol flow a d k)"
    and C: "\<forall>q. flow \<noteq> Some q \<longrightarrow> nsa_flows s' q = nsa_flows s q" by (elim exE conjE) (rule that)
  have "nsa_get_socket_for_descriptor d s' = Some (Some a)" if "nsa_sockets s' = (nsa_sockets s)(a \<mapsto> k)" "created domain type protocol flow a d k" for a k
    using lookup_some [of "{}" s' a] A(2) that by (simp add: nsa_inv_def descriptor_of_def created_def)
  with B have "d = - 1 \<and> nsa_sockets s' = nsa_sockets s \<and>
        (nsa_errno s' = E_NOMEM \<and> fst (env_calloc env (\<lambda>a. nsa_sockets s a \<noteq> None) (nsa_world s)) = None \<or>
         nsa_errno s' = E_MFILE \<and> no_descriptor requestedSD (descriptors s)) \<or>
      gets_descriptor requestedSD (descriptors s) d \<and>
        (\<exists>a k. nsa_sockets s a = None \<and> nsa_sockets s' = (nsa_sockets s)(a \<mapsto> k) \<and> created domain type protocol flow a d k \<and>
               nsa_get_socket_for_descriptor d s' = Some (Some a))" by metis
  with A(1) C show ?thesis by blast
qed

theorem nsa_socket_internal_correct_witness:
  "\<exists>d s'. nsa_socket_internal demo_env 2 1 0 (- 1) None (- 1) demo_state = Some (d, s') \<and>
     (d = - 1 \<and> nsa_sockets s' = nsa_sockets demo_state \<or> gets_descriptor (- 1) {0} d)"
proof -
  have nf: "\<forall>f. None = Some f \<longrightarrow> flow_free demo_state f" by simp
  have r: "(- 1 :: int) < 1024" by simp
  from nsa_socket_internal_correct [OF demo_ok demo_env_oks(1) nf r, of 2 1 0 "- 1"] show ?thesis unfolding demo_descriptors by blast
qed

text \<open>Closing another descriptor keeps a system socket.\<close>

lemma nsa_close_keeps:
  assumes ok: "nsa_ok s" and a: "nsa_sockets s a = Some k" "ns_flow k = None" "ns_descriptor k \<noteq> d"
  shows "\<exists>r s'. nsa_close env d s = Some (r, s') \<and> nsa_ok s' \<and> d \<notin> descriptors s' \<and> a \<in> live s'"
proof (cases "d \<in> descriptors s")
  case False
  have "nsa_close env d s = Some (- 1, s\<lparr>nsa_errno := E_BADF\<rparr>)"
    by (rule nsa_close_unknown) (use ok False in \<open>auto simp: nsa_ok_def\<close>)
  with ok a False show ?thesis by auto
next
  case True
  then obtain x where x: "x \<in> live s" "d = descriptor_of s x" by blast
  have inv: "nsa_inv {} {} s" using ok by (auto simp: nsa_ok_def)
  from nsa_close_live [OF inv x(1), of env] x(2) obtain s' where
    s': "nsa_close env d s = Some (0, s')" "x \<notin> live s'" "shrinks {} s s'" "live s - live s' \<subseteq> accepted_by s x" by blast
  have ok': "nsa_ok s'" using nsa_close_safe [OF ok, of env d] s'(1) by (simp add: safe_def)
  have sk: "sockets_ok {} {} s" using inv by (simp add: nsa_inv_def)
  have "ns_acceptor k = None" using sockets_okD [OF sk a(1)] a(2) by (simp add: socket_ok_def)
  then have "(a, y) \<notin> acceptors s" for y using a(1) by (simp add: acceptors_def)
  moreover have ax: "a \<noteq> x" using a x by (auto simp: descriptor_of_def)
  ultimately have "a \<notin> accepted_by s x" unfolding accepted_by_def by (auto elim: converse_rtranclE)
  then have "a \<in> live s'" using s'(4) a(1) by blast
  moreover have "d \<notin> descriptors s'" using shrinks_descriptors [OF inv s'(3)] x s'(2) by auto
  ultimately show ?thesis using s'(1) ok' by blast
qed

text \<open>\<open>nsa_dup2\<close> of a system socket onto another descriptor below \<open>FD_SETSIZE\<close>: whatever was open there is closed, and
  the descriptor then names a new socket for the duplicate; the socket that was duplicated stays.\<close>

theorem nsa_dup2_correct:
  assumes "nsa_ok s" and "env_ok env" and "nsa_sockets s a = Some k" and "ns_flow k = None" and "ns_descriptor k \<noteq> newfd"
    and "0 \<le> newfd" and "newfd < 1024" and "0 \<le> fst (sys_call env ''dup'' [ns_socket_sd k] s)"
  shows "\<exists>s' b kb. nsa_dup2 env (ns_descriptor k) newfd s = Some (newfd, s') \<and> nsa_ok s' \<and> nsa_sockets s' b = Some kb \<and>
     ns_descriptor kb = newfd \<and> ns_flow kb = None \<and> a \<in> live s'"
proof -
  have env: "calloc_ok env" "calloc_total env" using assms(2) by (auto simp: env_ok_def)
  obtain sd s1 where s1: "sys_call env ''dup'' [ns_socket_sd k] s = (sd, s1)" by fastforce
  have t: "same_table s s1" using same_table_sys_call [of s env "''dup''" "[ns_socket_sd k]"] s1 by simp
  have ok1: "nsa_ok s1" by (rule same_table_ok [OF t assms(1)])
  have a1: "nsa_sockets s1 a = Some k" using t assms(3) by (simp add: same_table_def)
  from nsa_close_keeps [OF ok1 a1 assms(4,5), of env] obtain r s2 where
    s2: "nsa_close env newfd s1 = Some (r, s2)" "nsa_ok s2" "newfd \<notin> descriptors s2" "a \<in> live s2" by blast
  from nsa_map_socket_ok [OF s2(2) env assms(6,7) s2(3), of sd] obtain s3 b kb where
    s3: "nsa_map_socket env sd newfd s2 = Some (newfd, s3)" "nsa_ok s3" "nsa_sockets s3 = (nsa_sockets s2)(b \<mapsto> kb)"
      "ns_descriptor kb = newfd" "ns_flow kb = None" by blast
  have "nsa_dup2 env (ns_descriptor k) newfd s = Some (newfd, s3)"
    using lookup_live [OF assms(1,3)] assms(3-6,8) s1 s2(1) s3(1)
    by (simp add: nsa_dup2_def get_neat_socket_def dup_to_def nsa_map_socket_def)
  with s3 s2(4) show ?thesis by auto
qed

theorem nsa_dup2_correct_witness:
  "\<exists>(s :: unit nsa) s' b kb. nsa_dup2 demo_env 0 2 s = Some (2, s') \<and> nsa_ok s' \<and> nsa_sockets s' b = Some kb \<and> ns_descriptor kb = 2"
proof -
  from demo_initialised obtain s :: "unit nsa" where s: "nsa_ok s" "descriptors s = {0, 1, 2}" "\<forall>a k. nsa_sockets s a = Some k \<longrightarrow> ns_flow k = None"
    by (auto simp: initialised_def)
  then have "0 \<in> descriptors s" by simp
  then obtain a k where a: "nsa_sockets s a = Some k" "ns_descriptor k = 0" by (auto simp: descriptor_of_def)
  have k: "ns_flow k = None" "ns_descriptor k \<noteq> 2" using s(3) a by auto
  have "0 \<le> fst (sys_call demo_env ''dup'' [ns_socket_sd k] s)" by (simp add: sys_call_def demo_env_def)
  from nsa_dup2_correct [OF s(1) demo_env_ok a(1) k _ _ this] show ?thesis unfolding a(2) by auto
qed

text \<open>The blocking mode that \<open>F_SETFL\<close> stores is the one that \<open>F_GETFL\<close> reads back, for every descriptor and every argument.\<close>

theorem nsa_fcntl_roundtrip:
  assumes "nsa_ok s" and "nsa_sockets s a = Some k"
  shows "\<exists>s'. nsa_fcntl (ns_descriptor k) False arg s = Some (0, s') \<and> nsa_ok s' \<and>
     nsa_fcntl (ns_descriptor k) True x s' = Some (if arg AND O_NONBLOCK \<noteq> 0 then uint O_NONBLOCK else 0, s')"
proof -
  let ?s = "if arg AND O_NONBLOCK \<noteq> 0 then set_flag a NSAF_NONBLOCKING s else clear_flag a NSAF_NONBLOCKING s"
  have w: "nsa_fcntl (ns_descriptor k) False arg s = Some (0, ?s)"
    using lookup_live [OF assms] assms(2) by (simp add: nsa_fcntl_def get_neat_socket_def)
  have ok: "nsa_ok ?s" using assms(1) by (simp add: nsa_ok_set_flag nsa_ok_clear_flag)
  have bits: "(f OR NSAF_NONBLOCKING) AND NSAF_NONBLOCKING \<noteq> 0" "(f AND NOT NSAF_NONBLOCKING) AND NSAF_NONBLOCKING = 0" for f :: u32
    by (simp_all add: bit.conj_disj_distrib2 and.assoc) (simp add: NSAF_NONBLOCKING_def)
  obtain k' where k': "nsa_sockets ?s a = Some k'" "ns_descriptor k' = ns_descriptor k"
    "(ns_flags k' AND NSAF_NONBLOCKING \<noteq> 0) = (arg AND O_NONBLOCK \<noteq> 0)"
    using assms(2) bits by (cases "arg AND O_NONBLOCK = 0") (auto simp: set_flag_def clear_flag_def)
  have "nsa_fcntl (ns_descriptor k) True x ?s = Some (if arg AND O_NONBLOCK \<noteq> 0 then uint O_NONBLOCK else 0, ?s)"
    using lookup_live [OF ok k'(1)] k' by (simp add: nsa_fcntl_def get_neat_socket_def)
  with w ok show ?thesis by blast
qed

theorem nsa_fcntl_roundtrip_witness:
  "\<exists>s'. nsa_fcntl 0 False 2048 demo_state = Some (0, s') \<and> nsa_ok s' \<and> nsa_fcntl 0 True 0 s' = Some (2048, s')"
proof -
  from demo_flow obtain a k where a: "nsa_sockets demo_state = [a \<mapsto> k]" "ns_descriptor k = 0" by blast
  then have at: "nsa_sockets demo_state a = Some k" by simp
  from nsa_fcntl_roundtrip [OF demo_ok at, of 2048 0] show ?thesis unfolding a(2) by (simp add: O_NONBLOCK_def)
qed

end
