(* ===== verification/Flow_Write.thy ===== *)
theory Flow_Write
  imports Neat_Flow
begin

text \<open>
  The sending half of a flow (\<open>neat_core.c\<close>): \<open>nt_write_to_lower_layer\<close> hands data to the kernel and
  buffers what the kernel does not take, \<open>nt_write_fillbuffer\<close> manages the buffers and
  \<open>nt_write_flush\<close> sends them when the socket becomes writable. The kernel's \<open>sendmsg\<close> is a
  parameter; its contract is \<open>sendmsg_ok\<close>. The theorems show that no byte is lost, duplicated or
  reordered between the application, the buffers and the wire.
\<close>

section \<open>Memory\<close>

definition memcpy_at :: "u8 list \<Rightarrow> nat \<Rightarrow> u8 list \<Rightarrow> u8 list option" where
  "memcpy_at mem off src =
     (if off + length src \<le> length mem
      then Some (take off mem @ src @ drop (off + length src) mem) else None)"

text \<open>\<open>realloc\<close> keeps the old contents; fresh memory is filled with zeros here, it is never read
  before it is written.\<close>

definition realloc_mem :: "u8 list \<Rightarrow> nat \<Rightarrow> u8 list" where
  "realloc_mem mem n = take n mem @ replicate (n - length mem) 0"

text \<open>\<open>(x + 8191) & ~8191\<close> on \<open>size_t\<close>.\<close>

definition round_up_8k :: "u64 \<Rightarrow> u64" where
  "round_up_8k x = (x + 8191) AND NOT 8191"

section \<open>Flushing\<close>

text \<open>The message handed to \<open>sendmsg\<close> for the head of the unsent part of a buffered message.\<close>

definition flush_len :: "neat_pollable_socket \<Rightarrow> neat_buffered_message \<Rightarrow> nat" where
  "flush_len sock msg =
     (if nt_base_stack (stack sock) = NEAT_STACK_SCTP \<and> sctp_explicit_eor sock \<and>
         write_limit sock > 0 \<and> bufferedSize msg > write_limit sock
      then write_limit sock else bufferedSize msg)"

definition flush_msghdr :: "neat_pollable_socket \<Rightarrow> neat_buffered_message \<Rightarrow> msghdr" where
  "flush_msghdr sock msg =
     (let len = flush_len sock msg
      in \<lparr>msg_iov = take len (drop (bufferedOffset msg) (buffered msg)),
          msg_sndinfo =
            (if nt_base_stack (stack sock) = NEAT_STACK_SCTP
             then Some \<lparr>snd_sid = bm_stream_id msg, snd_unordered = (bm_unordered msg \<noteq> 0),
                        snd_eor = (sctp_explicit_eor sock \<and> len = bufferedSize msg)\<rparr>
             else None),
          msg_prinfo = None\<rparr>)"

text \<open>
  The \<open>do \<dots> while (msg->bufferedSize > 0)\<close> loop on one message: the code, the message and the
  kernel afterwards. \<^const>\<open>None\<close> is a failed assertion, a read outside the buffer or a loop that
  does not end.
\<close>

partial_function (option) flush_message ::
  "'k sendmsg_fn \<Rightarrow> neat_pollable_socket \<Rightarrow> bool \<Rightarrow> 'k \<Rightarrow> neat_buffered_message \<Rightarrow>
   (neat_error_code \<times> neat_buffered_message \<times> 'k) option" where
  "flush_message sendmsg sock secure k msg =
     (if \<not> secure \<or> nt_base_stack (stack sock) \<noteq> NEAT_STACK_SCTP
      then (if bufferedOffset msg + flush_len sock msg \<le> length (buffered msg) \<and> fd sock \<noteq> - 1
            then (case sendmsg k (fd sock) (flush_msghdr sock msg) of (rv, err, k') \<Rightarrow>
                   (if \<not> secure
                    then (if rv < 0
                          then Some (if err = EWOULDBLOCK then NEAT_ERROR_WOULD_BLOCK else NEAT_ERROR_IO, msg, k')
                          else let msg' = msg\<lparr>bufferedOffset := bufferedOffset msg + nat rv,
                                              bufferedSize := bufferedSize msg - nat rv\<rparr>
                               in if bufferedSize msg' > 0
                                  then flush_message sendmsg sock secure k' msg'
                                  else Some (NEAT_OK, msg', k'))
                    else (if bufferedSize msg > 0
                          then flush_message sendmsg sock secure k' msg
                          else Some (NEAT_OK, msg, k'))))
            else None)
      else (if bufferedSize msg > 0
            then flush_message sendmsg sock secure k msg
            else Some (NEAT_OK, msg, k)))"

text \<open>The loop over the queue; a message that was sent completely is removed and freed.\<close>

fun flush_queue ::
  "'k sendmsg_fn \<Rightarrow> neat_pollable_socket \<Rightarrow> bool \<Rightarrow> 'k \<Rightarrow> neat_buffered_message list \<Rightarrow>
   (neat_error_code \<times> neat_buffered_message list \<times> 'k) option" where
  "flush_queue sendmsg sock secure k [] = Some (NEAT_OK, [], k)"
| "flush_queue sendmsg sock secure k (msg # msgs) = do {
     (code, msg', k') \<leftarrow> flush_message sendmsg sock secure k msg;
     if code \<noteq> NEAT_OK then Some (code, msg' # msgs, k')
     else flush_queue sendmsg sock secure k' msgs }"

definition nt_write_flush ::
  "'k sendmsg_fn \<Rightarrow> neat_pollable_socket \<Rightarrow> 'k \<Rightarrow> neat_flow \<Rightarrow> (neat_error_code \<times> neat_flow \<times> 'k) option" where
  "nt_write_flush sendmsg sock k flow =
     (if bufferedMessages flow = [] then Some (NEAT_OK, flow, k)
      else do {
        (code, msgs, k') \<leftarrow> flush_queue sendmsg sock (security_needed flow) k (bufferedMessages flow);
        let flow' = flow\<lparr>bufferedMessages := msgs\<rparr>;
        if code \<noteq> NEAT_OK then Some (code, flow', k')
        else Some (NEAT_OK, (if msgs = [] then flow'\<lparr>isDraining := False\<rparr> else flow'), k') })"

section \<open>Buffering\<close>

text \<open>Appending to one message, with the growth of its memory; \<open>alloc_ok\<close> is \<open>malloc\<close>/\<open>realloc\<close>.\<close>

definition fill_message ::
  "bool \<Rightarrow> u8 list \<Rightarrow> neat_buffered_message \<Rightarrow> (neat_error_code \<times> neat_buffered_message) option" where
  "fill_message alloc_ok buffer msg =
     (let amt = length buffer
      in if bufferedOffset msg + bufferedSize msg + amt \<le> bufferedAllocation msg
         then do {
           mem \<leftarrow> memcpy_at (buffered msg) (bufferedOffset msg + bufferedSize msg) buffer;
           Some (NEAT_OK, msg\<lparr>buffered := mem, bufferedSize := bufferedSize msg + amt\<rparr>) }
         else let needed = unat (round_up_8k (of_nat (amt + bufferedSize msg)))
              in if bufferedOffset msg = 0
                 then (if \<not> alloc_ok then Some (NEAT_ERROR_OUT_OF_MEMORY, msg\<lparr>buffered := []\<rparr>)
                       else do {
                         let mem = realloc_mem (buffered msg) needed;
                         mem' \<leftarrow> memcpy_at mem (bufferedSize msg) buffer;
                         Some (NEAT_OK, msg\<lparr>buffered := mem', bufferedAllocation := needed,
                                            bufferedSize := bufferedSize msg + amt\<rparr>) })
                 else (if \<not> alloc_ok then Some (NEAT_ERROR_OUT_OF_MEMORY, msg)
                       else do {
                         c_assert (bufferedOffset msg + bufferedSize msg \<le> length (buffered msg));
                         mem \<leftarrow> memcpy_at (replicate needed 0) 0
                                   (take (bufferedSize msg) (drop (bufferedOffset msg) (buffered msg)));
                         mem' \<leftarrow> memcpy_at mem (bufferedSize msg) buffer;
                         Some (NEAT_OK, msg\<lparr>buffered := mem', bufferedAllocation := needed,
                                            bufferedOffset := 0,
                                            bufferedSize := bufferedSize msg + amt\<rparr>) }))"

text \<open>
  \<open>nt_write_fillbuffer\<close>; the first allocation is the \<open>calloc\<close> of a message, the second the one of
  its memory.
\<close>

definition nt_write_fillbuffer ::
  "bool \<Rightarrow> bool \<Rightarrow> neat_pollable_socket \<Rightarrow> neat_flow \<Rightarrow> u8 list \<Rightarrow> int \<Rightarrow> u8 \<Rightarrow> u8 \<Rightarrow> u32 \<Rightarrow>
   (neat_error_code \<times> neat_flow) option" where
  "nt_write_fillbuffer calloc_ok alloc_ok sock flow buffer stream_id unordered pr_method pr_val =
     (if buffer = [] then Some (NEAT_OK, flow)
      else if stack sock \<noteq> NEAT_STACK_TCP \<or> bufferedMessages flow = []
      then (if \<not> calloc_ok then Some (NEAT_ERROR_OUT_OF_MEMORY, flow)
            else do {
              let msg = \<lparr>buffered = [], bufferedOffset = 0, bufferedSize = 0, bufferedAllocation = 0,
                         bm_stream_id = of_int stream_id, bm_unordered = unordered,
                         bm_pr_method = pr_method, bm_pr_value = pr_val\<rparr>;
              (code, msg') \<leftarrow> fill_message alloc_ok buffer msg;
              Some (code, flow\<lparr>bufferedMessages := bufferedMessages flow @ [msg']\<rparr>) })
      else do {
        c_assert (stream_id = 0);
        let msg = last (bufferedMessages flow);
        (code, msg') \<leftarrow> fill_message alloc_ok buffer msg;
        Some (code, flow\<lparr>bufferedMessages := butlast (bufferedMessages flow) @ [msg']\<rparr>) })"

section \<open>Writing\<close>

text \<open>The stream the data goes to, or an invalid argument.\<close>

definition write_stream_id :: "neat_pollable_socket \<Rightarrow> neat_flow \<Rightarrow> neat_tlv list \<Rightarrow> int option" where
  "write_stream_id sock flow optional =
     (let (stream_id, has_stream_id) = optional_integer_present NEAT_TAG_STREAM_ID optional (0, False)
      in if has_stream_id \<and> stream_id < 0 then None
         else let stream_id =
                (if has_stream_id \<and> sctp_streams_available sock = 1 \<and> stream_id \<noteq> 0 then 0
                 else if has_stream_id \<and> stack sock \<noteq> NEAT_STACK_SCTP then 0
                 else stream_id)
              in Some (if multistream_id flow \<noteq> 0 then uint (multistream_id flow) else stream_id))"

text \<open>Whether the stack sends a message in one piece.\<close>

definition write_atomic :: "neat_pollable_socket \<Rightarrow> bool" where
  "write_atomic sock =
     (case stack sock of
        NEAT_STACK_TCP \<Rightarrow> False
      | NEAT_STACK_MPTCP \<Rightarrow> False
      | NEAT_STACK_SCTP_UDP \<Rightarrow> \<not> sctp_explicit_eor sock
      | NEAT_STACK_SCTP \<Rightarrow> \<not> sctp_explicit_eor sock
      | NEAT_STACK_UDP \<Rightarrow> True
      | NEAT_STACK_UDPLITE \<Rightarrow> True
      | _ \<Rightarrow> True)"

text \<open>The message of the direct attempt to send.\<close>

definition write_msghdr ::
  "neat_pollable_socket \<Rightarrow> bool \<Rightarrow> u8 list \<Rightarrow> int \<Rightarrow> int \<times> bool \<Rightarrow> int \<times> bool \<Rightarrow> int \<times> bool \<Rightarrow> msghdr" where
  "write_msghdr sock secure buffer stream_id unordered pr_method pr_val =
     (let len = (if nt_base_stack (stack sock) = NEAT_STACK_SCTP \<and> sctp_explicit_eor sock \<and>
                    write_limit sock > 0 \<and> length buffer > write_limit sock
                 then write_limit sock else length buffer);
          sctp = (nt_base_stack (stack sock) = NEAT_STACK_SCTP \<and> \<not> secure)
      in \<lparr>msg_iov = take len buffer,
          msg_sndinfo =
            (if sctp then Some \<lparr>snd_sid = of_int stream_id,
                                snd_unordered = (snd unordered \<and> fst unordered \<noteq> 0),
                                snd_eor = (sctp_explicit_eor sock \<and> len = length buffer)\<rparr>
             else None),
          msg_prinfo =
            (if sctp then Some (if snd pr_method \<and> snd pr_val
                                then \<lparr>pr_policy = of_int (fst pr_method), pr_value = of_int (fst pr_val)\<rparr>
                                else \<lparr>pr_policy = 0, pr_value = 0\<rparr>)
             else None)\<rparr>)"

text \<open>
  The direct attempt to send, made only when nothing is buffered: what the kernel returned, with
  \<open>rv\<close> 0 when nothing was handed to it. Without user-space SCTP a descriptor of -1 sends nothing.
\<close>

definition write_attempt ::
  "'k sendmsg_fn \<Rightarrow> neat_pollable_socket \<Rightarrow> 'k \<Rightarrow> neat_flow \<Rightarrow> u8 list \<Rightarrow> int \<Rightarrow>
   int \<times> bool \<Rightarrow> int \<times> bool \<Rightarrow> int \<times> bool \<Rightarrow> int \<times> errno \<times> 'k" where
  "write_attempt sendmsg sock k flow buffer stream_id unordered pr_method pr_val =
     (if bufferedMessages flow = [] \<and> buffer \<noteq> [] \<and> fd sock \<noteq> - 1
      then sendmsg k (fd sock)
        (write_msghdr sock (security_needed flow) buffer stream_id unordered pr_method pr_val)
      else (0, EOTHER, k))"

text \<open>
  The rest of the function: errors, statistics and buffering. A failed attempt with \<open>EWOULDBLOCK\<close>
  adds its -1 to the statistics.
\<close>

definition write_complete ::
  "bool \<Rightarrow> bool \<Rightarrow> bool \<Rightarrow> neat_pollable_socket \<Rightarrow> neat_flow \<Rightarrow> u8 list \<Rightarrow> int \<Rightarrow> errno \<Rightarrow> int \<Rightarrow> u8 \<Rightarrow> u8 \<Rightarrow> u32 \<Rightarrow>
   (neat_error_code \<times> neat_flow) option" where
  "write_complete active calloc_ok alloc_ok sock flow buffer rv err stream_id unordered pr_method pr_val =
     (let flow1 = (if rv < 0 \<and> err = ENOENT then flow\<lparr>isClosing := True\<rparr> else flow)
      in if rv < 0 \<and> err \<noteq> EWOULDBLOCK then Some (NEAT_ERROR_IO, flow1)
         else do {
           let buffer1 = (if rv \<noteq> - 1 then drop (nat rv) buffer else buffer);
           let flow2 = flow1\<lparr>flow_stats := (flow_stats flow1)
                 \<lparr>bytes_sent := bytes_sent (flow_stats flow1) + of_int rv\<rparr>\<rparr>;
           (code, flow3) \<leftarrow> nt_write_fillbuffer calloc_ok alloc_ok sock flow2 buffer1 stream_id
              unordered pr_method pr_val;
           if code \<noteq> NEAT_OK then Some (code, flow3)
           else let flow4 = flow3\<lparr>isDraining := (bufferedMessages flow3 \<noteq> [])\<rparr>
                in Some (NEAT_OK, if active then update_polling sock flow4 else flow4) })"

text \<open>
  \<open>nt_write_to_lower_layer\<close>. \<open>active\<close> is the state of the poll handle; of the final update of the
  handle the model shows the effect on this flow (\<open>update_polling\<close>).
\<close>

definition nt_write_to_lower_layer ::
  "'k sendmsg_fn \<Rightarrow> bool \<Rightarrow> bool \<Rightarrow> bool \<Rightarrow> neat_pollable_socket \<Rightarrow> 'k \<Rightarrow> neat_flow \<Rightarrow> u8 list \<Rightarrow> neat_tlv list \<Rightarrow>
   (neat_error_code \<times> neat_flow \<times> 'k) option" where
  "nt_write_to_lower_layer sendmsg active calloc_ok alloc_ok sock k flow buffer optional =
     (let pr_method = optional_integer_present NEAT_TAG_PARTIAL_RELIABILITY_METHOD optional (0, False);
          pr_val = optional_integer_present NEAT_TAG_PARTIAL_RELIABILITY_VALUE optional (0, False);
          unordered = optional_integer_present NEAT_TAG_UNORDERED optional (0, False)
      in case write_stream_id sock flow optional of
           None \<Rightarrow> Some (NEAT_ERROR_BAD_ARGUMENT, flow, k)
         | Some stream_id \<Rightarrow>
             if write_atomic sock \<and> write_size sock > 0 \<and> length buffer > write_size sock
             then Some (NEAT_ERROR_MESSAGE_TOO_BIG, flow, k)
             else (case write_attempt sendmsg sock k flow buffer stream_id unordered pr_method pr_val of
                     (rv, err, k1) \<Rightarrow> do {
                       (code, flow') \<leftarrow> write_complete active calloc_ok alloc_ok sock flow buffer rv err stream_id
                          (of_int (fst unordered)) (of_int (fst pr_method)) (of_int (fst pr_val));
                       Some (code, flow', k1) }))"

section \<open>The contract of the kernel and the pending data\<close>

text \<open>
  The wire is the sequence of the bytes the kernel has accepted, each with the SCTP stream it went
  to (0 without stream information). \<open>sendmsg\<close> accepts a prefix of the buffer or fails with -1 and
  accepts nothing.
\<close>

definition msghdr_sid :: "msghdr \<Rightarrow> u16" where
  "msghdr_sid m = (case msg_sndinfo m of None \<Rightarrow> 0 | Some s \<Rightarrow> snd_sid s)"

definition sendmsg_ok :: "'k sendmsg_fn \<Rightarrow> ('k \<Rightarrow> (u16 \<times> u8) list) \<Rightarrow> bool" where
  "sendmsg_ok sendmsg wire \<longleftrightarrow>
     (\<forall>k s m. case sendmsg k s m of (rv, err, k') \<Rightarrow>
        if rv < 0 then rv = - 1 \<and> wire k' = wire k
        else nat rv \<le> length (msg_iov m) \<and>
             wire k' = wire k @ map (Pair (msghdr_sid m)) (take (nat rv) (msg_iov m)))"

text \<open>Progress: a non-empty buffer is either refused or accepted in part.\<close>

definition sendmsg_progress :: "'k sendmsg_fn \<Rightarrow> bool" where
  "sendmsg_progress sendmsg \<longleftrightarrow>
     (\<forall>k s m. msg_iov m \<noteq> [] \<longrightarrow> fst (sendmsg k s m) \<noteq> 0)"

definition wire_sid :: "neat_pollable_socket \<Rightarrow> u16 \<Rightarrow> u16" where
  "wire_sid sock sid = (if stack sock = NEAT_STACK_SCTP then sid else 0)"

text \<open>The unsent data of a message and of a queue, tagged with the stream.\<close>

definition message_data :: "neat_buffered_message \<Rightarrow> u8 list" where
  "message_data msg = take (bufferedSize msg) (drop (bufferedOffset msg) (buffered msg))"

definition pending_message :: "neat_pollable_socket \<Rightarrow> neat_buffered_message \<Rightarrow> (u16 \<times> u8) list" where
  "pending_message sock msg = map (Pair (wire_sid sock (bm_stream_id msg))) (message_data msg)"

definition pending :: "neat_pollable_socket \<Rightarrow> neat_buffered_message list \<Rightarrow> (u16 \<times> u8) list" where
  "pending sock msgs = concat (map (pending_message sock) msgs)"

definition message_wf :: "neat_buffered_message \<Rightarrow> bool" where
  "message_wf msg \<longleftrightarrow> length (buffered msg) = bufferedAllocation msg \<and>
     bufferedOffset msg + bufferedSize msg \<le> bufferedAllocation msg"

lemma pending_simps [flow_simps]:
  "pending sock [] = []"
  "pending sock (m # ms) = pending_message sock m @ pending sock ms"
  "pending sock (ms @ ms') = pending sock ms @ pending sock ms'"
  by (simp_all add: pending_def)

lemma length_message_data: "message_wf msg \<Longrightarrow> length (message_data msg) = bufferedSize msg"
  by (auto simp: message_wf_def message_data_def)

lemma flush_len_le [simp]: "flush_len sock msg \<le> bufferedSize msg"
  by (simp add: flush_len_def)

lemma flush_len_pos: "bufferedSize msg > 0 \<Longrightarrow> flush_len sock msg > 0"
  by (simp add: flush_len_def)

lemma flush_iov: "msg_iov (flush_msghdr sock msg) = take (flush_len sock msg) (message_data msg)"
  by (simp add: flush_msghdr_def message_data_def min_def Let_def)

lemma flush_sid: "msghdr_sid (flush_msghdr sock msg) = wire_sid sock (bm_stream_id msg)"
  by (simp add: flush_msghdr_def msghdr_sid_def wire_sid_def Let_def)

text \<open>Sending \<open>n\<close> bytes of a message moves them from its pending data to the wire.\<close>

lemma message_advance:
  assumes "message_wf msg" and "n \<le> bufferedSize msg"
  defines "msg' \<equiv> msg\<lparr>bufferedOffset := bufferedOffset msg + n, bufferedSize := bufferedSize msg - n\<rparr>"
  shows "message_wf msg'"
    and "pending_message sock msg =
      map (Pair (wire_sid sock (bm_stream_id msg))) (take n (message_data msg)) @ pending_message sock msg'"
proof -
  show "message_wf msg'" using assms by (simp add: message_wf_def)
  have "message_data msg' = drop n (message_data msg)"
    using assms(2) by (simp add: msg'_def message_data_def drop_take add.commute)
  moreover have "bm_stream_id msg' = bm_stream_id msg" by (simp add: msg'_def)
  ultimately show "pending_message sock msg =
      map (Pair (wire_sid sock (bm_stream_id msg))) (take n (message_data msg)) @ pending_message sock msg'"
    by (simp add: pending_message_def flip: map_append)
qed

lemma sendmsg_flush:
  assumes "sendmsg_ok sendmsg wire" and "message_wf msg"
    and "sendmsg k s (flush_msghdr sock msg) = (rv, err, k')" and "0 \<le> rv"
  shows "nat rv \<le> bufferedSize msg"
    and "wire k' = wire k @ map (Pair (wire_sid sock (bm_stream_id msg))) (take (nat rv) (message_data msg))"
proof -
  from assms have r: "nat rv \<le> length (msg_iov (flush_msghdr sock msg)) \<and>
      wire k' = wire k @ map (Pair (msghdr_sid (flush_msghdr sock msg))) (take (nat rv) (msg_iov (flush_msghdr sock msg)))"
    unfolding sendmsg_ok_def by (metis (mono_tags, lifting) case_prod_conv linorder_not_less)
  then have "nat rv \<le> flush_len sock msg" by (simp add: flush_iov)
  with r show "nat rv \<le> bufferedSize msg"
    "wire k' = wire k @ map (Pair (wire_sid sock (bm_stream_id msg))) (take (nat rv) (message_data msg))"
    using flush_len_le [of sock msg] by (auto simp: flush_iov flush_sid min_def simp del: flush_len_le)
qed

lemma sendmsg_fail:
  "sendmsg_ok sendmsg wire \<Longrightarrow> sendmsg k s m = (rv, err, k') \<Longrightarrow> rv < 0 \<Longrightarrow> rv = - 1 \<and> wire k' = wire k"
  unfolding sendmsg_ok_def by (metis (mono_tags, lifting) case_prod_conv)

section \<open>Flushing moves the pending data to the wire\<close>

definition flushed ::
  "('k \<Rightarrow> (u16 \<times> u8) list) \<Rightarrow> neat_pollable_socket \<Rightarrow> 'k \<Rightarrow> neat_buffered_message \<Rightarrow>
   neat_error_code \<times> neat_buffered_message \<times> 'k \<Rightarrow> bool" where
  "flushed wire sock k msg r \<longleftrightarrow> (case r of (code, msg', k') \<Rightarrow>
     message_wf msg' \<and> wire k' @ pending_message sock msg' = wire k @ pending_message sock msg \<and>
     (code = NEAT_OK \<longrightarrow> bufferedSize msg' = 0) \<and>
     code \<in> {NEAT_OK, NEAT_ERROR_WOULD_BLOCK, NEAT_ERROR_IO})"

lemma flushed_refl:
  "message_wf msg \<Longrightarrow> wire k' = wire k \<Longrightarrow> code \<in> {NEAT_ERROR_WOULD_BLOCK, NEAT_ERROR_IO} \<Longrightarrow>
   flushed wire sock k msg (code, msg, k')"
  by (auto simp: flushed_def)

lemma flushed_advance:
  assumes "sendmsg_ok sendmsg wire" and "message_wf msg"
    and "sendmsg k s (flush_msghdr sock msg) = (rv, err, k1)" and "0 \<le> rv"
    and "msg1 = msg\<lparr>bufferedOffset := bufferedOffset msg + nat rv, bufferedSize := bufferedSize msg - nat rv\<rparr>"
  shows "message_wf msg1" and "flushed wire sock k1 msg1 r \<Longrightarrow> flushed wire sock k msg r"
    and "bufferedSize msg1 = 0 \<Longrightarrow> flushed wire sock k msg (NEAT_OK, msg1, k1)"
proof -
  note sent = sendmsg_flush [OF assms(1-4)]
  note adv = message_advance [OF assms(2) sent(1)]
  show "message_wf msg1" using adv(1) by (simp add: assms(5))
  have "wire k1 @ pending_message sock msg1 = wire k @ pending_message sock msg"
    unfolding assms(5) by (simp add: sent(2) adv(2))
  with adv(1) show "flushed wire sock k1 msg1 r \<Longrightarrow> flushed wire sock k msg r"
    and "bufferedSize msg1 = 0 \<Longrightarrow> flushed wire sock k msg (NEAT_OK, msg1, k1)"
    by (auto simp: flushed_def assms(5))
qed

lemma flush_message_flushed:
  assumes "flush_message sendmsg sock secure k msg = Some r"
  shows "sendmsg_ok sendmsg wire \<longrightarrow> message_wf msg \<longrightarrow> \<not> secure \<longrightarrow> flushed wire sock k msg r"
proof (rule flush_message.raw_induct [OF _ assms], intro impI, goal_cases)
  case (1 f sendmsg sock secure k msg r)
  obtain rv err k1 where s: "sendmsg k (fd sock) (flush_msghdr sock msg) = (rv, err, k1)"
    by (metis prod_cases3)
  define msg1 where "msg1 = msg\<lparr>bufferedOffset := bufferedOffset msg + nat rv,
    bufferedSize := bufferedSize msg - nat rv\<rparr>"
  show ?case
  proof (cases "rv < 0")
    case True
    with 1(2-5) s sendmsg_fail [OF 1(3) s True] show ?thesis
      by (auto split: if_splits intro: flushed_refl)
  next
    case False
    note adv = flushed_advance [OF 1(3,4) s _ msg1_def]
    from 1(2,5) s False have "if bufferedSize msg1 > 0 then f sendmsg sock secure k1 msg1 = Some r
        else r = (NEAT_OK, msg1, k1)"
      by (auto simp: msg1_def Let_def split: if_splits)
    with 1(1,3,5) False adv show ?thesis by (auto split: if_splits)
  qed
qed

lemma flush_queue_conserves:
  assumes "sendmsg_ok sendmsg wire" and "list_all message_wf msgs"
    and "flush_queue sendmsg sock False k msgs = Some (code, msgs', k')"
  shows "list_all message_wf msgs' \<and> wire k' @ pending sock msgs' = wire k @ pending sock msgs \<and>
         (code = NEAT_OK \<longrightarrow> msgs' = []) \<and> (\<exists>n m'. msgs' = drop n msgs \<or> msgs' = m' # drop (Suc n) msgs) \<and>
         code \<in> {NEAT_OK, NEAT_ERROR_WOULD_BLOCK, NEAT_ERROR_IO}"
  using assms(2,3)
proof (induction msgs arbitrary: k)
  case (Cons msg msgs)
  from Cons.prems(2) obtain c m1 k1 where
      f: "flush_message sendmsg sock False k msg = Some (c, m1, k1)"
      and rest: "if c \<noteq> NEAT_OK then code = c \<and> msgs' = m1 # msgs \<and> k' = k1
                 else flush_queue sendmsg sock False k1 msgs = Some (code, msgs', k')"
    by (auto simp: bind_eq_Some_conv split: if_splits)
  from flush_message_flushed [OF f] assms(1) Cons.prems(1)
  have fl: "flushed wire sock k msg (c, m1, k1)" by simp
  show ?case
  proof (cases "c = NEAT_OK")
    case True
    with fl have "wire k1 = wire k @ pending_message sock msg"
      by (auto simp: flushed_def pending_message_def message_data_def)
    moreover from Cons.IH [of k1] Cons.prems(1) rest True have
      "list_all message_wf msgs' \<and> wire k' @ pending sock msgs' = wire k1 @ pending sock msgs \<and>
       (code = NEAT_OK \<longrightarrow> msgs' = []) \<and> (\<exists>n m'. msgs' = drop n msgs \<or> msgs' = m' # drop (Suc n) msgs) \<and>
       code \<in> {NEAT_OK, NEAT_ERROR_WOULD_BLOCK, NEAT_ERROR_IO}" by simp
    ultimately show ?thesis by (auto simp: flow_simps) (metis drop_Suc_Cons)+
  next
    case False
    with rest fl Cons.prems(1) show ?thesis
      by (auto simp: flushed_def flow_simps) (metis drop0 drop_Suc_Cons append.assoc)+
  qed
qed (simp add: flow_simps)

text \<open>With a kernel that makes progress the loops end.\<close>

lemma flush_message_returns:
  assumes "sendmsg_ok sendmsg wire" and "sendmsg_progress sendmsg" and "fd sock \<noteq> - 1"
    and "message_wf msg"
  shows "\<exists>r. flush_message sendmsg sock False k msg = Some r"
  using assms(4)
proof (induction "bufferedSize msg" arbitrary: msg k rule: less_induct)
  case less
  obtain rv err k1 where s: "sendmsg k (fd sock) (flush_msghdr sock msg) = (rv, err, k1)"
    by (metis prod_cases3)
  define msg1 where "msg1 = msg\<lparr>bufferedOffset := bufferedOffset msg + nat rv,
    bufferedSize := bufferedSize msg - nat rv\<rparr>"
  have room: "bufferedOffset msg + flush_len sock msg \<le> length (buffered msg)"
    using less.prems flush_len_le [of sock msg] by (auto simp: message_wf_def simp del: flush_len_le)
  have step: "flush_message sendmsg sock False k msg =
      (if rv < 0 then Some (if err = EWOULDBLOCK then NEAT_ERROR_WOULD_BLOCK else NEAT_ERROR_IO, msg, k1)
       else if bufferedSize msg1 > 0 then flush_message sendmsg sock False k1 msg1
       else Some (NEAT_OK, msg1, k1))"
    using s room assms(3) by (subst flush_message.simps) (simp add: msg1_def Let_def)
  show ?case
  proof (cases "0 \<le> rv \<and> bufferedSize msg1 > 0")
    case True
    then have "bufferedSize msg > 0" by (simp add: msg1_def)
    then have "msg_iov (flush_msghdr sock msg) \<noteq> []"
      using length_message_data [OF less.prems] flush_len_pos [of msg sock] by (auto simp: flush_iov)
    then have "fst (sendmsg k (fd sock) (flush_msghdr sock msg)) \<noteq> 0"
      using assms(2) unfolding sendmsg_progress_def by blast
    with s True have "bufferedSize msg1 < bufferedSize msg" by (auto simp: msg1_def)
    moreover have "message_wf msg1"
      using flushed_advance(1) [OF assms(1) less.prems s _ msg1_def] True by blast
    ultimately show ?thesis using less.hyps [of msg1 k1] step True by auto
  qed (auto simp: step)
qed

lemma flush_queue_returns:
  assumes "sendmsg_ok sendmsg wire" and "sendmsg_progress sendmsg" and "fd sock \<noteq> - 1"
    and "list_all message_wf msgs"
  shows "\<exists>r. flush_queue sendmsg sock False k msgs = Some r"
  using assms(4)
proof (induction msgs arbitrary: k)
  case (Cons msg msgs)
  then obtain c m k1 where "flush_message sendmsg sock False k msg = Some (c, m, k1)"
    using flush_message_returns [OF assms(1-3), of msg k] by auto
  with Cons.IH [of k1] Cons.prems show ?case by auto
qed simp

text \<open>A secured flow over TCP never leaves the loop: the offset is not advanced.\<close>

lemma flush_message_secure_diverges:
  assumes "flush_message sendmsg sock secure k msg = Some r"
  shows "secure \<longrightarrow> bufferedSize msg > 0 \<longrightarrow> False"
  by (rule flush_message.raw_induct [OF _ assms])
    (auto split: if_splits prod.splits)

section \<open>Buffering keeps the data\<close>

lemma round_up_8k_ge:
  assumes "n + 8191 < 2 ^ 64"
  shows "n \<le> unat (round_up_8k (of_nat n))"
proof -
  have x: "unat (of_nat n + 8191 :: u64) = n + 8191"
    using assms unat_of_nat_small [of "n + 8191", where 'a = 64] by simp
  have "(mask 13 :: u64) = 8191" by (simp add: mask_eq_exp_minus_1)
  with and_not_mask_ge [of "of_nat n + 8191 :: u64" 13] x show ?thesis
    by (simp add: round_up_8k_def)
qed

lemma fill_message_appends:
  assumes wf: "message_wf msg" and size: "bufferedSize msg + length buffer + 8191 < 2 ^ 64"
  shows "\<exists>msg'. fill_message True buffer msg = Some (NEAT_OK, msg') \<and> message_wf msg' \<and>
           message_data msg' = message_data msg @ buffer \<and> bm_stream_id msg' = bm_stream_id msg"
proof -
  let ?n = "unat (round_up_8k (of_nat (length buffer + bufferedSize msg)))"
  have n: "length buffer + bufferedSize msg \<le> ?n"
    by (rule round_up_8k_ge) (use size in simp)
  show ?thesis
  proof (cases "bufferedOffset msg + bufferedSize msg + length buffer \<le> bufferedAllocation msg")
    case True
    with wf show ?thesis
      by (auto simp: fill_message_def memcpy_at_def message_wf_def message_data_def Let_def drop_take)
  next
    case grow: False
    show ?thesis
    proof (cases "bufferedOffset msg = 0")
      case True
      with wf n grow show ?thesis
        by (auto simp: fill_message_def memcpy_at_def realloc_mem_def message_wf_def message_data_def Let_def)
    next
      case False
      with wf n grow show ?thesis
        by (auto simp: fill_message_def memcpy_at_def message_wf_def message_data_def Let_def)
    qed
  qed
qed

lemma bufferedSize_le_pending:
  "msg \<in> set msgs \<Longrightarrow> message_wf msg \<Longrightarrow> bufferedSize msg \<le> length (pending sock msgs)"
  by (induction msgs) (auto simp: flow_simps pending_message_def length_message_data)

text \<open>A well-formed flow: sound buffers, and stream numbers only where there are streams.\<close>

definition flow_wf :: "neat_pollable_socket \<Rightarrow> neat_flow \<Rightarrow> bool" where
  "flow_wf sock flow \<longleftrightarrow> list_all message_wf (bufferedMessages flow) \<and>
     (stack sock \<noteq> NEAT_STACK_SCTP \<longrightarrow> multistream_id flow = 0)"

lemma fillbuffer_appends:
  assumes wf: "list_all message_wf (bufferedMessages flow)"
    and room: "length (pending sock (bufferedMessages flow)) + length buffer + 8191 < 2 ^ 64"
    and tcp: "stack sock = NEAT_STACK_TCP \<Longrightarrow> sid = 0"
  shows "\<exists>msgs'. nt_write_fillbuffer True True sock flow buffer sid u pm pv =
             Some (NEAT_OK, flow\<lparr>bufferedMessages := msgs'\<rparr>) \<and> list_all message_wf msgs' \<and>
           pending sock msgs' = pending sock (bufferedMessages flow) @
             map (Pair (wire_sid sock (of_int sid))) buffer"
proof (cases "buffer = []")
  case True
  with wf show ?thesis by (auto simp: nt_write_fillbuffer_def intro: exI [of _ "bufferedMessages flow"])
next
  case ne: False
  show ?thesis
  proof (cases "stack sock \<noteq> NEAT_STACK_TCP \<or> bufferedMessages flow = []")
    case True
    let ?msg = "\<lparr>buffered = [], bufferedOffset = 0, bufferedSize = 0, bufferedAllocation = 0,
      bm_stream_id = of_int sid, bm_unordered = u, bm_pr_method = pm, bm_pr_value = pv\<rparr>"
    have "message_wf ?msg" "message_data ?msg = []" by (simp_all add: message_wf_def message_data_def)
    with fill_message_appends [of ?msg buffer] room obtain msg' where
      "fill_message True buffer ?msg = Some (NEAT_OK, msg')" "message_wf msg'"
      "message_data msg' = buffer" "bm_stream_id msg' = of_int sid" by auto
    with ne True wf show ?thesis
      by (auto simp: nt_write_fillbuffer_def flow_simps pending_message_def
          intro!: exI [of _ "bufferedMessages flow @ [msg']"])
  next
    case False
    then obtain ms m where ms: "bufferedMessages flow = ms @ [m]" by (metis rev_exhaust)
    with wf have m: "message_wf m" by simp
    have "bufferedSize m \<le> length (pending sock (bufferedMessages flow))"
      by (rule bufferedSize_le_pending) (use ms m in auto)
    with fill_message_appends [OF m, of buffer] room obtain m' where
      "fill_message True buffer m = Some (NEAT_OK, m')" "message_wf m'"
      "message_data m' = message_data m @ buffer" by auto
    with ne False tcp ms wf show ?thesis
      by (auto simp: nt_write_fillbuffer_def flow_simps pending_message_def wire_sid_def
          intro!: exI [of _ "ms @ [m']"])
  qed
qed

section \<open>Writing\<close>

lemma write_stream_id_0:
  "stack sock \<noteq> NEAT_STACK_SCTP \<Longrightarrow> multistream_id flow = 0 \<Longrightarrow>
   write_stream_id sock flow optional = Some sid \<Longrightarrow> sid = 0"
  by (auto simp: write_stream_id_def Let_def split: prod.splits if_splits)
    (auto dest: optional_integer_present_default)

text \<open>Conditions under which a write is attempted: a valid stream and a message that fits.\<close>

definition write_accepted :: "neat_pollable_socket \<Rightarrow> neat_flow \<Rightarrow> u8 list \<Rightarrow> neat_tlv list \<Rightarrow> bool" where
  "write_accepted sock flow buffer optional \<longleftrightarrow>
     write_stream_id sock flow optional \<noteq> None \<and>
     \<not> (write_atomic sock \<and> write_size sock > 0 \<and> length buffer > write_size sock)"

definition write_tagged :: "neat_pollable_socket \<Rightarrow> neat_flow \<Rightarrow> u8 list \<Rightarrow> neat_tlv list \<Rightarrow> (u16 \<times> u8) list" where
  "write_tagged sock flow buffer optional =
     map (Pair (wire_sid sock (of_int (the (write_stream_id sock flow optional))))) buffer"

lemma write_msghdr_sid:
  "\<not> secure \<or> stack sock \<noteq> NEAT_STACK_SCTP \<Longrightarrow>
   msghdr_sid (write_msghdr sock secure buffer sid u pm pv) = wire_sid sock (of_int sid)"
  by (auto simp: msghdr_sid_def write_msghdr_def wire_sid_def Let_def)

lemma write_msghdr_iov:
  "\<exists>n. msg_iov (write_msghdr sock secure buffer sid u pm pv) = take n buffer"
  unfolding write_msghdr_def Let_def msghdr.simps by blast

lemma sendmsg_write:
  assumes "sendmsg_ok sendmsg wire" and "\<not> secure \<or> stack sock \<noteq> NEAT_STACK_SCTP"
    and "sendmsg k s (write_msghdr sock secure buffer sid u pm pv) = (rv, err, k')" and "0 \<le> rv"
  shows "nat rv \<le> length buffer \<and>
     wire k' = wire k @ map (Pair (wire_sid sock (of_int sid))) (take (nat rv) buffer)"
proof -
  let ?m = "write_msghdr sock secure buffer sid u pm pv"
  from assms have r: "nat rv \<le> length (msg_iov ?m) \<and>
      wire k' = wire k @ map (Pair (msghdr_sid ?m)) (take (nat rv) (msg_iov ?m))"
    unfolding sendmsg_ok_def by (metis (mono_tags, lifting) case_prod_conv linorder_not_less)
  obtain n where n: "msg_iov ?m = take n buffer" using write_msghdr_iov by blast
  from r have "nat rv \<le> n" "nat rv \<le> length buffer" by (simp_all add: n)
  with r show ?thesis by (simp add: n write_msghdr_sid [OF assms(2)] min_absorb1)
qed

lemma write_attempt_conserves:
  assumes "sendmsg_ok sendmsg wire" and "\<not> security_needed flow \<or> stack sock \<noteq> NEAT_STACK_SCTP"
    and "write_attempt sendmsg sock k flow buffer sid u pm pv = (rv, err, k')"
  shows "(rv < 0 \<longrightarrow> rv = - 1 \<and> wire k' = wire k) \<and>
    (0 \<le> rv \<longrightarrow> nat rv \<le> length buffer \<and> (0 < rv \<longrightarrow> bufferedMessages flow = []) \<and>
       wire k' = wire k @ map (Pair (wire_sid sock (of_int sid))) (take (nat rv) buffer))"
  using assms(3) sendmsg_fail [OF assms(1)] sendmsg_write [OF assms(1,2)]
  unfolding write_attempt_def by (auto split: if_splits)

lemma write_eq:
  assumes "write_accepted sock flow buffer optional"
  obtains sid u pm pv where "write_stream_id sock flow optional = Some sid"
    and "nt_write_to_lower_layer sendmsg active calloc_ok alloc_ok sock k flow buffer optional =
      (case write_attempt sendmsg sock k flow buffer sid u pm pv of (rv, err, k1) \<Rightarrow> do {
         (code, flow') \<leftarrow> write_complete active calloc_ok alloc_ok sock flow buffer rv err sid
            (of_int (fst u)) (of_int (fst pm)) (of_int (fst pv));
         Some (code, flow', k1) })"
proof -
  from assms obtain sid where sid: "write_stream_id sock flow optional = Some sid"
    and fits: "\<not> (write_atomic sock \<and> write_size sock > 0 \<and> length buffer > write_size sock)"
    by (auto simp: write_accepted_def)
  show thesis
    by (rule that [OF sid]) (simp only: nt_write_to_lower_layer_def Let_def sid fits option.case if_False)
qed

text \<open>What completing the write does to the buffers, given what the kernel accepted.\<close>

lemma write_complete_conserves:
  assumes wf: "flow_wf sock flow"
    and rv: "rv < 0 \<longrightarrow> rv = - 1" "0 \<le> rv \<longrightarrow> nat rv \<le> length buffer \<and> (0 < rv \<longrightarrow> bufferedMessages flow = [])"
    and tcp: "stack sock = NEAT_STACK_TCP \<Longrightarrow> sid = 0"
    and room: "length (pending sock (bufferedMessages flow)) + length buffer + 8191 < 2 ^ 64"
  defines "tag \<equiv> map (Pair (wire_sid sock (of_int sid)))"
  shows "\<exists>code flow'. write_complete active True True sock flow buffer rv err sid u pm pv = Some (code, flow') \<and>
    flow_wf sock flow' \<and> security_needed flow' = security_needed flow \<and>
    multistream_id flow' = multistream_id flow \<and>
    (if rv < 0 \<and> err \<noteq> EWOULDBLOCK
     then code = NEAT_ERROR_IO \<and> bufferedMessages flow' = bufferedMessages flow
     else code = NEAT_OK \<and> isDraining flow' = (bufferedMessages flow' \<noteq> []) \<and>
       tag (take (nat rv) buffer) @ pending sock (bufferedMessages flow') =
         pending sock (bufferedMessages flow) @ tag buffer)"
proof (cases "rv < 0 \<and> err \<noteq> EWOULDBLOCK")
  case True
  with wf show ?thesis by (auto simp: write_complete_def flow_wf_def)
next
  case False
  define buf where "buf = (if rv \<noteq> - 1 then drop (nat rv) buffer else buffer)"
  define flow2 where "flow2 = (if rv < 0 \<and> err = ENOENT then flow\<lparr>isClosing := True\<rparr> else flow)
    \<lparr>flow_stats := (flow_stats flow)\<lparr>bytes_sent := bytes_sent (flow_stats flow) + of_int rv\<rparr>\<rparr>"
  have f2: "bufferedMessages flow2 = bufferedMessages flow" "security_needed flow2 = security_needed flow"
    "multistream_id flow2 = multistream_id flow" by (simp_all add: flow2_def)
  have buf: "length buf \<le> length buffer" by (simp add: buf_def)
  from fillbuffer_appends [of flow2 sock buf sid u pm pv] wf room buf tcp f2 obtain msgs' where
    fill: "nt_write_fillbuffer True True sock flow2 buf sid u pm pv =
           Some (NEAT_OK, flow2\<lparr>bufferedMessages := msgs'\<rparr>)"
    and wf': "list_all message_wf msgs'"
    and pend: "pending sock msgs' = pending sock (bufferedMessages flow) @ tag buf"
    by (auto simp: flow_wf_def tag_def)
  have eq: "write_complete active True True sock flow buffer rv err sid u pm pv =
      Some (NEAT_OK, if active then update_polling sock (flow2\<lparr>bufferedMessages := msgs', isDraining := (msgs' \<noteq> [])\<rparr>)
                     else flow2\<lparr>bufferedMessages := msgs', isDraining := (msgs' \<noteq> [])\<rparr>)"
    using False fill unfolding write_complete_def flow2_def buf_def by (auto simp: Let_def)
  have "tag (take (nat rv) buffer) @ pending sock msgs' =
      pending sock (bufferedMessages flow) @ tag buffer"
  proof (cases "rv < 0")
    case True
    with rv(1) show ?thesis by (simp add: pend buf_def tag_def)
  next
    case False
    then have "tag (take (nat rv) buffer) @ tag buf = tag buffer"
      unfolding buf_def tag_def map_append [symmetric] by simp
    moreover have "nat rv = 0 \<or> bufferedMessages flow = []" using False rv by auto
    ultimately show ?thesis using False by (auto simp: pend flow_simps tag_def)
  qed
  with eq False wf wf' f2 show ?thesis by (cases active) (auto simp: flow_wf_def update_polling_def)
qed

text \<open>What a write does to the wire and the buffers.\<close>

lemma write_conserves:
  assumes ok: "sendmsg_ok sendmsg wire" and wf: "flow_wf sock flow"
    and sec: "\<not> security_needed flow \<or> stack sock \<noteq> NEAT_STACK_SCTP"
    and acc: "write_accepted sock flow buffer optional"
    and room: "length (pending sock (bufferedMessages flow)) + length buffer + 8191 < 2 ^ 64"
  shows "\<exists>code flow' k'.
    nt_write_to_lower_layer sendmsg active True True sock k flow buffer optional = Some (code, flow', k') \<and>
    flow_wf sock flow' \<and> security_needed flow' = security_needed flow \<and>
    multistream_id flow' = multistream_id flow \<and>
    (if code = NEAT_OK
     then wire k' @ pending sock (bufferedMessages flow') =
            wire k @ pending sock (bufferedMessages flow) @ write_tagged sock flow buffer optional \<and>
          isDraining flow' = (bufferedMessages flow' \<noteq> [])
     else code = NEAT_ERROR_IO \<and> wire k' = wire k \<and> bufferedMessages flow' = bufferedMessages flow)"
proof -
  obtain sid u pm pv where sid: "write_stream_id sock flow optional = Some sid"
    and eq: "nt_write_to_lower_layer sendmsg active True True sock k flow buffer optional =
      (case write_attempt sendmsg sock k flow buffer sid u pm pv of (rv, err, k1) \<Rightarrow> do {
         (code, flow') \<leftarrow> write_complete active True True sock flow buffer rv err sid
            (of_int (fst u)) (of_int (fst pm)) (of_int (fst pv));
         Some (code, flow', k1) })" by (rule write_eq [OF acc])
  obtain rv err k1 where at: "write_attempt sendmsg sock k flow buffer sid u pm pv = (rv, err, k1)"
    by (metis prod_cases3)
  note cons = write_attempt_conserves [OF ok sec at]
  have sid0: "stack sock = NEAT_STACK_TCP \<Longrightarrow> sid = 0"
    using wf write_stream_id_0 [of sock flow optional sid] sid by (auto simp: flow_wf_def)
  from cons have rv: "rv < 0 \<longrightarrow> rv = - 1"
    "0 \<le> rv \<longrightarrow> nat rv \<le> length buffer \<and> (0 < rv \<longrightarrow> bufferedMessages flow = [])" by simp_all
  from write_complete_conserves [OF wf rv sid0 room, of active err "of_int (fst u)" "of_int (fst pm)" "of_int (fst pv)"]
  obtain code flow' where
    c: "write_complete active True True sock flow buffer rv err sid (of_int (fst u)) (of_int (fst pm))
          (of_int (fst pv)) = Some (code, flow')" "flow_wf sock flow'"
       "security_needed flow' = security_needed flow" "multistream_id flow' = multistream_id flow"
       "if rv < 0 \<and> err \<noteq> EWOULDBLOCK
        then code = NEAT_ERROR_IO \<and> bufferedMessages flow' = bufferedMessages flow
        else code = NEAT_OK \<and> isDraining flow' = (bufferedMessages flow' \<noteq> []) \<and>
          map (Pair (wire_sid sock (of_int sid))) (take (nat rv) buffer) @ pending sock (bufferedMessages flow') =
            pending sock (bufferedMessages flow) @ map (Pair (wire_sid sock (of_int sid))) buffer"
    by blast
  show ?thesis
    using cons c by (auto simp: eq at write_tagged_def sid split: if_splits)
qed

lemma write_rejected:
  assumes "\<not> write_accepted sock flow buffer optional"
  shows "\<exists>code. nt_write_to_lower_layer sendmsg active calloc_ok alloc_ok sock k flow buffer optional = Some (code, flow, k) \<and>
           code \<in> {NEAT_ERROR_BAD_ARGUMENT, NEAT_ERROR_MESSAGE_TOO_BIG}"
proof (cases "write_stream_id sock flow optional")
  case None
  then show ?thesis by (simp add: nt_write_to_lower_layer_def)
next
  case (Some sid)
  with assms have "write_atomic sock \<and> write_size sock > 0 \<and> length buffer > write_size sock"
    by (simp add: write_accepted_def)
  with Some show ?thesis by (simp add: nt_write_to_lower_layer_def)
qed

lemma flush_conserves:
  assumes ok: "sendmsg_ok sendmsg wire" and prog: "sendmsg_progress sendmsg" and fd: "fd sock \<noteq> - 1"
    and wf: "flow_wf sock flow" and sec: "\<not> security_needed flow"
  shows "\<exists>code flow' k'. nt_write_flush sendmsg sock k flow = Some (code, flow', k') \<and>
    flow_wf sock flow' \<and> security_needed flow' = security_needed flow \<and>
    multistream_id flow' = multistream_id flow \<and>
    wire k' @ pending sock (bufferedMessages flow') = wire k @ pending sock (bufferedMessages flow) \<and>
    code \<in> {NEAT_OK, NEAT_ERROR_WOULD_BLOCK, NEAT_ERROR_IO} \<and>
    (code = NEAT_OK \<longrightarrow> bufferedMessages flow' = [] \<and> (bufferedMessages flow \<noteq> [] \<longrightarrow> \<not> isDraining flow'))"
proof -
  from wf have ms: "list_all message_wf (bufferedMessages flow)" by (simp add: flow_wf_def)
  obtain code msgs' k' where q: "flush_queue sendmsg sock False k (bufferedMessages flow) = Some (code, msgs', k')"
    using flush_queue_returns [OF ok prog fd ms, of k] by auto
  from flush_queue_conserves [OF ok ms q] q wf sec show ?thesis
    by (auto simp: nt_write_flush_def flow_wf_def)
qed

section \<open>Runs of writes and flushes\<close>

text \<open>The application writes, and the event loop flushes when the socket is writable.\<close>

datatype flow_op = WriteOp "u8 list" "neat_tlv list" | FlushOp

fun flow_exec ::
  "'k sendmsg_fn \<Rightarrow> neat_pollable_socket \<Rightarrow> flow_op \<Rightarrow> 'k \<Rightarrow> neat_flow \<Rightarrow> (neat_error_code \<times> neat_flow \<times> 'k) option" where
  "flow_exec sendmsg sock (WriteOp buffer optional) k flow =
     nt_write_to_lower_layer sendmsg True True True sock k flow buffer optional"
| "flow_exec sendmsg sock FlushOp k flow = nt_write_flush sendmsg sock k flow"

fun flow_run ::
  "'k sendmsg_fn \<Rightarrow> neat_pollable_socket \<Rightarrow> flow_op list \<Rightarrow> 'k \<Rightarrow> neat_flow \<Rightarrow> (neat_error_code list \<times> neat_flow \<times> 'k) option" where
  "flow_run sendmsg sock [] k flow = Some ([], flow, k)"
| "flow_run sendmsg sock (op # ops) k flow = do {
     (code, flow1, k1) \<leftarrow> flow_exec sendmsg sock op k flow;
     (codes, flow2, k2) \<leftarrow> flow_run sendmsg sock ops k1 flow1;
     Some (code # codes, flow2, k2) }"

text \<open>The data of the writes that returned \<open>NEAT_OK\<close>, in order.\<close>

fun op_data :: "neat_pollable_socket \<Rightarrow> neat_flow \<Rightarrow> flow_op \<Rightarrow> neat_error_code \<Rightarrow> (u16 \<times> u8) list" where
  "op_data sock flow (WriteOp buffer optional) code =
     (if code = NEAT_OK then write_tagged sock flow buffer optional else [])"
| "op_data sock flow FlushOp code = []"

definition accepted_data :: "neat_pollable_socket \<Rightarrow> neat_flow \<Rightarrow> flow_op list \<Rightarrow> neat_error_code list \<Rightarrow> (u16 \<times> u8) list" where
  "accepted_data sock flow ops codes = concat (map2 (op_data sock flow) ops codes)"

fun op_size :: "flow_op \<Rightarrow> nat" where
  "op_size (WriteOp buffer optional) = length buffer"
| "op_size FlushOp = 0"

lemma write_stream_id_cong:
  "multistream_id flow' = multistream_id flow \<Longrightarrow> write_stream_id sock flow' = write_stream_id sock flow"
  by (rule ext) (simp add: write_stream_id_def split: prod.split)

lemma op_data_cong:
  "multistream_id flow' = multistream_id flow \<Longrightarrow> op_data sock flow' op code = op_data sock flow op code"
  using write_stream_id_cong [of flow' flow sock] by (cases op) (simp_all add: write_tagged_def)

lemma length_op_data: "length (op_data sock flow op code) \<le> op_size op"
  by (cases op) (simp_all add: write_tagged_def)

lemma accepted_data_cong:
  "multistream_id flow' = multistream_id flow \<Longrightarrow>
   accepted_data sock flow' ops codes = accepted_data sock flow ops codes"
proof -
  assume "multistream_id flow' = multistream_id flow"
  then have "op_data sock flow' = op_data sock flow" by (intro ext) (rule op_data_cong)
  then show ?thesis by (simp add: accepted_data_def)
qed

text \<open>One step: what left the application is on the wire or buffered, behind what was there.\<close>

lemma flow_exec_conserves:
  assumes ok: "sendmsg_ok sendmsg wire" and prog: "sendmsg_progress sendmsg" and fd: "fd sock \<noteq> - 1"
    and wf: "flow_wf sock flow" and sec: "\<not> security_needed flow"
    and room: "length (pending sock (bufferedMessages flow)) + op_size op + 8191 < 2 ^ 64"
  shows "\<exists>code flow' k'. flow_exec sendmsg sock op k flow = Some (code, flow', k') \<and>
    flow_wf sock flow' \<and> \<not> security_needed flow' \<and> multistream_id flow' = multistream_id flow \<and>
    wire k' @ pending sock (bufferedMessages flow') =
      wire k @ pending sock (bufferedMessages flow) @ op_data sock flow op code"
proof (cases op)
  case FlushOp
  with flush_conserves [OF ok prog fd wf sec, of k] sec show ?thesis by auto
next
  case (WriteOp buffer optional)
  show ?thesis
  proof (cases "write_accepted sock flow buffer optional")
    case True
    with write_conserves [OF ok wf _ True, of True k] sec room WriteOp show ?thesis
      by (auto split: if_splits)
  next
    case False
    with write_rejected [OF False, of sendmsg True True True k] WriteOp wf sec show ?thesis by auto
  qed
qed


text \<open>A kernel that follows a script: how many bytes it takes at each call (0 is \<open>EWOULDBLOCK\<close>), and
  everything once the script is used up.\<close>

fun script_sendmsg :: "(nat list \<times> (u16 \<times> u8) list) sendmsg_fn" where
  "script_sendmsg (cs, w) s m =
     (let c = (if cs = [] then length (msg_iov m) else hd cs)
      in if c = 0 \<and> msg_iov m \<noteq> [] then (- 1, EWOULDBLOCK, (tl cs, w))
         else (int (min c (length (msg_iov m))), EOTHER,
               (tl cs, w @ map (Pair (msghdr_sid m)) (take c (msg_iov m)))))"

lemma script_sendmsg_ok: "sendmsg_ok script_sendmsg snd"
  by (auto simp: sendmsg_ok_def Let_def min_def split: if_splits)

lemma script_sendmsg_progress: "sendmsg_progress script_sendmsg"
  by (auto simp: sendmsg_progress_def Let_def)




text \<open>C17. On a flow that needs transport security (a TLS flow over TCP, say) \<open>nt_write_flush\<close> never
  returns once unsent data is at the head of the queue, whatever the kernel does: the loop does not
  advance the message and sends the same bytes again and again.\<close>

theorem flush_secure_never_returns:
  assumes "bufferedMessages flow = msg # msgs" and "bufferedSize msg > 0" and "security_needed flow"
  shows "nt_write_flush sendmsg sock k flow = None"
  using assms flush_message_secure_diverges [of sendmsg sock True k msg]
  by (cases "flush_message sendmsg sock True k msg") (auto simp: nt_write_flush_def)

definition example_message :: neat_buffered_message where
  "example_message = \<lparr>buffered = [9], bufferedOffset = 0, bufferedSize = 1, bufferedAllocation = 1,
     bm_stream_id = 0, bm_unordered = 0, bm_pr_method = 0, bm_pr_value = 0\<rparr>"

theorem flush_secure_never_returns_witness:
  "nt_write_flush script_sendmsg (example_socket NEAT_STACK_TCP) ([], [])
     (example_flow\<lparr>security_needed := True, bufferedMessages := [example_message]\<rparr>) = None"
  by (rule flush_secure_never_returns [of _ example_message "[]"]) (simp_all add: example_message_def)

end
