(* ===== verification/Flow_Read.thy ===== *)
theory Flow_Read
  imports Neat_Flow
begin

text \<open>
  The receiving half of a flow (\<open>neat_core.c\<close>): the growth of the read buffer, the read from the
  buffer, from the queue of a multistreamed flow or from the kernel, the optional return values, the
  filters between the flow and the application, and the callbacks that notify the application.
  \<open>recv\<close>, the filters and the application's callbacks are parameters.
\<close>

section \<open>Callbacks\<close>

text \<open>The callbacks of \<open>struct neat_flow_operations\<close> with the arguments they get besides it.\<close>

datatype callback =
    CB_connected | CB_error | CB_readable | CB_writable | CB_all_written | CB_network_status_changed
  | CB_aborted | CB_timeout | CB_close | CB_send_failure int "u8 list" | CB_slowdown int u32
  | CB_rate_hint u32

text \<open>
  The application: what running a callback does to the flow and to the rest of the world (it may
  call the library again).
\<close>

type_synonym 'k app = "callback \<Rightarrow> neat_flow \<times> 'k \<Rightarrow> neat_flow \<times> 'k"

text \<open>\<open>READYCALLBACKSTRUCT\<close>: status and stream of the operations; \<open>NEAT_INVALID_STREAM\<close> is -1.\<close>

definition ready_callback :: "neat_error_code \<Rightarrow> u16 \<Rightarrow> neat_flow \<Rightarrow> neat_flow" where
  "ready_callback code stream_id flow =
     flow\<lparr>operations := (operations flow)\<lparr>op_status := code, op_stream_id := stream_id\<rparr>\<rparr>"

definition notify :: "'k app \<Rightarrow> (neat_flow_operations \<Rightarrow> bool) \<Rightarrow> callback \<Rightarrow> neat_error_code \<Rightarrow> neat_flow \<times> 'k \<Rightarrow> neat_flow \<times> 'k" where
  "notify app isset cb code s =
     (if \<not> isset (operations (fst s)) then s
      else app cb (ready_callback code (- 1) (fst s), snd s))"

definition nt_io_error :: "'k app \<Rightarrow> neat_error_code \<Rightarrow> neat_flow \<times> 'k \<Rightarrow> neat_flow \<times> 'k" where
  "nt_io_error app code s = notify app on_error CB_error code s"

definition nt_notify_cc_congestion :: "'k app \<Rightarrow> int \<Rightarrow> u32 \<Rightarrow> neat_flow \<times> 'k \<Rightarrow> neat_flow \<times> 'k" where
  "nt_notify_cc_congestion app ecn rate s = notify app on_slowdown (CB_slowdown ecn rate) NEAT_OK s"

definition nt_notify_cc_hint :: "'k app \<Rightarrow> int \<Rightarrow> u32 \<Rightarrow> neat_flow \<times> 'k \<Rightarrow> neat_flow \<times> 'k" where
  "nt_notify_cc_hint app ecn rate s = notify app on_rate_hint (CB_rate_hint rate) NEAT_OK s"

definition nt_notify_send_failure ::
  "'k app \<Rightarrow> neat_error_code \<Rightarrow> int \<Rightarrow> u8 list \<Rightarrow> neat_flow \<times> 'k \<Rightarrow> neat_flow \<times> 'k" where
  "nt_notify_send_failure app code context unsent s =
     notify app on_send_failure (CB_send_failure context unsent) code s"

definition nt_notify_timeout :: "'k app \<Rightarrow> neat_flow \<times> 'k \<Rightarrow> neat_flow \<times> 'k" where
  "nt_notify_timeout app s = notify app on_timeout CB_timeout NEAT_OK s"

definition nt_notify_aborted :: "'k app \<Rightarrow> neat_flow \<times> 'k \<Rightarrow> neat_flow \<times> 'k" where
  "nt_notify_aborted app s = notify app on_aborted CB_aborted NEAT_OK s"

definition nt_notify_network_status_changed ::
  "'k app \<Rightarrow> neat_error_code \<Rightarrow> neat_flow \<times> 'k \<Rightarrow> neat_flow \<times> 'k" where
  "nt_notify_network_status_changed app code s =
     notify app on_network_status_changed CB_network_status_changed code s"

definition io_timeout :: "'k app \<Rightarrow> neat_flow \<times> 'k \<Rightarrow> neat_flow \<times> 'k" where
  "io_timeout app s = notify app on_timeout CB_timeout NEAT_OK s"

text \<open>\<open>io_all_written\<close> reports an emptied buffer once per write.\<close>

definition io_all_written :: "'k app \<Rightarrow> neat_flow \<times> 'k \<Rightarrow> neat_flow \<times> 'k" where
  "io_all_written app s =
     (if \<not> on_all_written (operations (fst s)) \<or> \<not> notifyDrainPending (fst s) then s
      else app CB_all_written (ready_callback NEAT_OK (- 1) ((fst s)\<lparr>notifyDrainPending := False\<rparr>), snd s))"

section \<open>The read buffer\<close>

datatype read_status = READ_OK | READ_WITH_ERROR | READ_WITH_ZERO

text \<open>The free space below which the buffer grows: a quarter of \<open>SO_RCVBUF\<close> in units of 8 KiB.\<close>

definition space_threshold :: "neat_pollable_socket \<Rightarrow> nat" where
  "space_threshold sock =
     (if read_size sock > 0 then (read_size sock div 4 + 8191) div 8192 * 8192 else 8192)"

definition resize_read_buffer ::
  "bool \<Rightarrow> neat_pollable_socket \<Rightarrow> neat_flow \<Rightarrow> read_status \<times> neat_flow" where
  "resize_read_buffer realloc_ok sock flow =
     (let spaceFree = int (readBufferAllocation flow) - int (readBufferSize flow);
          spaceThreshold = space_threshold sock
      in if spaceFree < int spaceThreshold
         then let spaceNeeded = (if readBufferAllocation flow = 0 then spaceThreshold
                                 else 2 * readBufferAllocation flow)
              in if \<not> realloc_ok
                 then (READ_WITH_ERROR, flow\<lparr>readBuffer := [], readBufferAllocation := 0\<rparr>)
                 else (READ_OK, flow\<lparr>readBuffer := take spaceNeeded (readBuffer flow) @
                                       replicate (spaceNeeded - length (readBuffer flow)) 0,
                                     readBufferAllocation := spaceNeeded\<rparr>)
         else (READ_OK, flow))"

text \<open>Copying out of the read buffer; what is left is moved to the front.\<close>

definition read_copy :: "nat \<Rightarrow> neat_flow \<Rightarrow> (u8 list \<times> neat_flow) option" where
  "read_copy amt flow =
     (if readBuffer flow = [] \<or> length (readBuffer flow) < readBufferSize flow then None
      else if readBufferSize flow > amt
      then let rest = readBufferSize flow - amt
           in Some (take amt (readBuffer flow),
                    flow\<lparr>readBuffer := take rest (drop amt (readBuffer flow)) @ drop rest (readBuffer flow),
                         readBufferSize := rest\<rparr>)
      else Some (take (readBufferSize flow) (readBuffer flow),
                 flow\<lparr>readBufferSize := 0, readBufferMsgComplete := False\<rparr>))"

text \<open>The optional return values.\<close>

definition tlv_stack_value :: "neat_protocol_stack_type \<Rightarrow> int" where
  "tlv_stack_value st =
     (case st of NEAT_STACK_UDP \<Rightarrow> 1 | NEAT_STACK_UDPLITE \<Rightarrow> 2 | NEAT_STACK_TCP \<Rightarrow> 3 | NEAT_STACK_MPTCP \<Rightarrow> 4
      | NEAT_STACK_SCTP \<Rightarrow> 5 | NEAT_STACK_SCTP_UDP \<Rightarrow> 6 | NEAT_STACK_WEBRTC \<Rightarrow> 7 | NEAT_STACK_NONE \<Rightarrow> 0)"

definition fill_optional :: "neat_pollable_socket \<Rightarrow> int \<Rightarrow> neat_tlv \<Rightarrow> neat_tlv" where
  "fill_optional sock stream_id t =
     (case tlv_tag t of
        NEAT_TAG_STREAM_ID \<Rightarrow> t\<lparr>tlv_value := TLV_INTEGER stream_id\<rparr>
      | NEAT_TAG_PARTIAL_MESSAGE_RECEIVED \<Rightarrow> t\<lparr>tlv_value := TLV_INTEGER 0\<rparr>
      | NEAT_TAG_PARTIAL_SEQNUM \<Rightarrow> t\<lparr>tlv_value := TLV_INTEGER 0\<rparr>
      | NEAT_TAG_UNORDERED \<Rightarrow> t\<lparr>tlv_value := TLV_INTEGER 0\<rparr>
      | NEAT_TAG_UNORDERED_SEQNUM \<Rightarrow> t\<lparr>tlv_value := TLV_INTEGER 0\<rparr>
      | NEAT_TAG_TRANSPORT_STACK \<Rightarrow> t\<lparr>tlv_value := TLV_INTEGER (tlv_stack_value (stack sock))\<rparr>
      | _ \<Rightarrow> t)"

section \<open>Reading\<close>

text \<open>
  What a read returns: the code, \<open>*actualAmt\<close> (\<^const>\<open>None\<close> when it is not written), the bytes put
  into the caller's buffer, and the optional arguments.
\<close>

record read_result =
  rr_code :: neat_error_code
  rr_actual :: "nat option"
  rr_data :: "u8 list"
  rr_optional :: "neat_tlv list"

definition read_error :: "neat_error_code \<Rightarrow> neat_tlv list \<Rightarrow> read_result" where
  "read_error code optional = \<lparr>rr_code = code, rr_actual = None, rr_data = [], rr_optional = optional\<rparr>"

definition read_done :: "neat_pollable_socket \<Rightarrow> int \<Rightarrow> u8 list \<Rightarrow> neat_tlv list \<Rightarrow> read_result" where
  "read_done sock stream_id data optional =
     \<lparr>rr_code = NEAT_OK, rr_actual = Some (length data), rr_data = data,
      rr_optional = map (fill_optional sock stream_id) optional\<rparr>"

text \<open>The part for datagram and SCTP sockets: the multistream queue or the read buffer.\<close>

definition read_buffered ::
  "neat_pollable_socket \<Rightarrow> neat_flow \<Rightarrow> nat \<Rightarrow> neat_tlv list \<Rightarrow> (read_result \<times> neat_flow) option" where
  "read_buffered sock flow amt optional =
     (if multistream sock
      then (case multistream_read_queue flow of
              [] \<Rightarrow> if multistream_reset_in flow then Some (read_done sock 0 [] optional, flow)
                    else Some (read_error NEAT_ERROR_WOULD_BLOCK optional, flow)
            | m # ms \<Rightarrow> if amt < length m then Some (read_error NEAT_ERROR_MESSAGE_TOO_BIG optional, flow)
                        else Some (read_done sock (uint (multistream_id flow)) m optional,
                                   flow\<lparr>multistream_read_queue := ms\<rparr>))
      else if preserveMessageBoundaries flow \<and> \<not> readBufferMsgComplete flow
      then Some (read_error NEAT_ERROR_WOULD_BLOCK optional, flow)
      else if preserveMessageBoundaries flow \<and> readBufferSize flow > amt
      then Some (read_error NEAT_ERROR_MESSAGE_TOO_BIG optional, flow)
      else if \<not> preserveMessageBoundaries flow \<and> readBufferSize flow = 0
      then (if eofSeen flow then Some (read_error NEAT_OK optional, flow\<lparr>eofSeen := False\<rparr>)
            else Some (read_error NEAT_ERROR_WOULD_BLOCK optional, flow))
      else do {
        (data, flow') \<leftarrow> read_copy amt flow;
        Some (read_done sock 0 data optional, flow') })"

text \<open>
  \<open>nt_read_from_lower_layer\<close>. \<open>recv k fd amt\<close> gives the bytes received (their number is the return
  value) or the error number, and the kernel afterwards.
\<close>

definition nt_read_from_lower_layer ::
  "'k app \<Rightarrow> ('k \<Rightarrow> int \<Rightarrow> nat \<Rightarrow> (errno + u8 list) \<times> 'k) \<Rightarrow> neat_pollable_socket \<Rightarrow> neat_flow \<times> 'k \<Rightarrow>
   nat \<Rightarrow> neat_tlv list \<Rightarrow> (read_result \<times> neat_flow \<times> 'k) option" where
  "nt_read_from_lower_layer app recv sock s amt optional =
     (if stack sock = NEAT_STACK_WEBRTC
      then do {
        (data, flow') \<leftarrow> read_copy amt (fst s);
        Some (read_done sock 0 data optional, flow', snd s) }
      else if nt_base_stack (stack sock) = NEAT_STACK_UDP \<or> nt_base_stack (stack sock) = NEAT_STACK_UDPLITE \<or>
              nt_base_stack (stack sock) = NEAT_STACK_SCTP
      then do {
        (r, flow') \<leftarrow> read_buffered sock (fst s) amt optional;
        Some (r, flow', snd s) }
      else (case recv (snd s) (fd sock) amt of
          (Inl err, k') \<Rightarrow>
            (case err of
               ECONNRESET \<Rightarrow> Some (read_error NEAT_ERROR_IO optional, nt_notify_aborted app (fst s, k'))
             | EWOULDBLOCK \<Rightarrow> Some (read_error NEAT_ERROR_WOULD_BLOCK optional, fst s, k')
             | _ \<Rightarrow> Some (read_error NEAT_ERROR_IO optional, fst s, k'))
        | (Inr data, k') \<Rightarrow>
            Some (read_done sock 0 data optional,
                  (fst s)\<lparr>flow_stats := (flow_stats (fst s))
                     \<lparr>bytes_received := bytes_received (flow_stats (fst s)) +
                        of_int (to_int32 (int (length data)))\<rparr>\<rparr>, k')))"

section \<open>Filters\<close>

text \<open>
  \<open>struct neat_iofilter\<close>: the read function of a filter maps the data it is given (and the flow) to
  its own result; \<^const>\<open>None\<close> is an unset function pointer.
\<close>

type_synonym 's filter_read = "('s \<Rightarrow> u8 list \<Rightarrow> neat_error_code \<times> u8 list \<times> 's) option"

text \<open>\<open>nt_recursive_filter_read\<close>: the filters of the list, last one first.\<close>

fun nt_recursive_filter_read :: "'s filter_read list \<Rightarrow> 's \<Rightarrow> u8 list \<Rightarrow> neat_error_code \<times> u8 list \<times> 's" where
  "nt_recursive_filter_read [] s data = (NEAT_OK, data, s)"
| "nt_recursive_filter_read (f # fs) s data =
     (case nt_recursive_filter_read fs s data of (rv, data1, s1) \<Rightarrow>
        if rv \<noteq> NEAT_OK then (rv, data1, s1)
        else case f of
               None \<Rightarrow> (NEAT_OK, data1, s1)
             | Some readfx \<Rightarrow> if data1 = [] then (NEAT_OK, data1, s1) else readfx s1 data1)"

text \<open>\<open>neat_read\<close>; the lower read is \<open>flow->readfx\<close>.\<close>

definition neat_read ::
  "('s \<Rightarrow> (read_result \<times> 's) option) \<Rightarrow> 's filter_read list \<Rightarrow> 's \<Rightarrow> (neat_error_code \<times> u8 list \<times> 's) option" where
  "neat_read readfx filters s = do {
     (r, s1) \<leftarrow> readfx s;
     if rr_code r \<noteq> NEAT_OK then Some (rr_code r, [], s1)
     else Some (nt_recursive_filter_read filters s1 (rr_data r)) }"

text \<open>\<open>neat_write\<close>: the first filter with a write function, or the flow's own.\<close>

fun first_write :: "('s \<Rightarrow> 'r) option list \<Rightarrow> ('s \<Rightarrow> 'r) \<Rightarrow> 's \<Rightarrow> 'r" where
  "first_write [] writefx s = writefx s"
| "first_write (None # fs) writefx s = first_write fs writefx s"
| "first_write (Some f # fs) writefx s = f s"

definition neat_write ::
  "(neat_flow \<times> 'k \<Rightarrow> 'r option) option list \<Rightarrow> (neat_flow \<times> 'k \<Rightarrow> 'r option) \<Rightarrow> neat_flow \<times> 'k \<Rightarrow> 'r option" where
  "neat_write filters writefx s = do {
     c_assert (\<not> multistream_reset_out (fst s));
     first_write filters writefx ((fst s)\<lparr>notifyDrainPending := True\<rparr>, snd s) }"

section \<open>Correctness of the read path\<close>

text \<open>The received data that waits in the buffer, and a sound buffer.\<close>

definition read_content :: "neat_flow \<Rightarrow> u8 list" where
  "read_content flow = take (readBufferSize flow) (readBuffer flow)"

definition read_wf :: "neat_flow \<Rightarrow> bool" where
  "read_wf flow \<longleftrightarrow> length (readBuffer flow) = readBufferAllocation flow \<and>
     readBufferSize flow \<le> readBufferAllocation flow"

lemma read_copy_conserves:
  assumes "read_wf flow" and "readBuffer flow \<noteq> []"
  shows "\<exists>data flow'. read_copy amt flow = Some (data, flow') \<and> read_wf flow' \<and> readBuffer flow' \<noteq> [] \<and>
           data = take amt (read_content flow) \<and> read_content flow' = drop amt (read_content flow)"
proof (cases "readBufferSize flow > amt")
  case True
  let ?rest = "readBufferSize flow - amt"
  have "read_copy amt flow = Some (take amt (readBuffer flow),
      flow\<lparr>readBuffer := take ?rest (drop amt (readBuffer flow)) @ drop ?rest (readBuffer flow),
           readBufferSize := ?rest\<rparr>)"
    using assms True by (simp add: read_copy_def read_wf_def Let_def)
  then show ?thesis using assms True by (auto simp: read_wf_def read_content_def drop_take min_def)
next
  case False
  with assms show ?thesis by (auto simp: read_copy_def read_wf_def read_content_def min_def)
qed

text \<open>C39. Reading from a flow whose received data is buffered (UDP, UDP-Lite, SCTP) returns the oldest
  bytes, at most as many as asked for, and leaves exactly the rest for the next read; with message
  boundaries preserved a read returns the whole message or fails without consuming anything.\<close>

theorem read_buffered_conserves:
  assumes "read_wf flow" and "readBuffer flow \<noteq> []" and "\<not> multistream sock"
  shows "\<exists>r flow'. read_buffered sock flow amt optional = Some (r, flow') \<and> read_wf flow' \<and>
     rr_data r @ read_content flow' = read_content flow \<and> length (rr_data r) \<le> amt \<and>
     (rr_code r \<noteq> NEAT_OK \<longrightarrow> flow' = flow) \<and>
     (rr_code r = NEAT_OK \<and> preserveMessageBoundaries flow \<longrightarrow>
        readBufferMsgComplete flow \<and> rr_data r = read_content flow \<and> \<not> readBufferMsgComplete flow')"
proof -
  from read_copy_conserves [OF assms(1,2), of amt] obtain data flow' where
    c: "read_copy amt flow = Some (data, flow')" "read_wf flow'" "data = take amt (read_content flow)"
       "read_content flow' = drop amt (read_content flow)" by blast
  have msg: "readBufferSize flow \<le> amt \<Longrightarrow> data = read_content flow \<and> \<not> readBufferMsgComplete flow'"
    using c(1) assms by (auto simp: read_copy_def read_content_def split: if_splits)
  show ?thesis
  proof (cases "preserveMessageBoundaries flow")
    case True
    with c msg assms show ?thesis
      by (auto simp: read_buffered_def read_error_def read_done_def)
  next
    case False
    have "read_content (flow\<lparr>eofSeen := False\<rparr>) = read_content flow" "read_wf (flow\<lparr>eofSeen := False\<rparr>)"
      using assms(1) by (simp_all add: read_content_def read_wf_def)
    with False c assms show ?thesis
      by (auto simp: read_buffered_def read_error_def read_done_def)
  qed
qed

text \<open>A flow holding a buffered message of three bytes.\<close>

definition example_read_flow :: neat_flow where
  "example_read_flow = example_flow\<lparr>readBuffer := [1, 2, 3, 0], readBufferSize := 3, readBufferAllocation := 4,
     readBufferMsgComplete := True, preserveMessageBoundaries := False\<rparr>"

theorem read_buffered_conserves_witness:
  "\<exists>r flow'. read_buffered (example_socket NEAT_STACK_UDP) example_read_flow 2 [] = Some (r, flow') \<and>
     rr_data r @ read_content flow' = [1, 2, 3]"
  using read_buffered_conserves [of example_read_flow "example_socket NEAT_STACK_UDP" 2 "[]"]
  by (auto simp: example_read_flow_def example_socket_def read_wf_def read_content_def)

text \<open>When the read buffer is grown successfully, it keeps the data received so far and has room
  for at least the threshold of new bytes.\<close>

theorem resize_read_buffer_room:
  assumes "read_wf flow" and "readBufferAllocation flow = 0 \<or> space_threshold sock \<le> readBufferAllocation flow"
    and "resize_read_buffer realloc_ok sock flow = (READ_OK, flow')"
  shows "read_wf flow' \<and> read_content flow' = read_content flow \<and>
         readBufferSize flow' + space_threshold sock \<le> readBufferAllocation flow' \<and>
         space_threshold sock \<le> readBufferAllocation flow'"
  using assms by (auto simp: resize_read_buffer_def read_wf_def read_content_def Let_def split: if_splits)

theorem resize_read_buffer_room_witness:
  "8192 \<le> readBufferAllocation (snd (resize_read_buffer True (example_socket NEAT_STACK_SCTP) example_flow))"
  using resize_read_buffer_room [of example_flow "example_socket NEAT_STACK_SCTP" True
    "snd (resize_read_buffer True (example_socket NEAT_STACK_SCTP) example_flow)"]
  by (simp add: resize_read_buffer_def space_threshold_def example_flow_def example_socket_def read_wf_def Let_def)

text \<open>The read filters run from the last one in the list to the first, each on the data of the
  one before, and the chain stops at the first error.\<close>

theorem filter_read_append:
  "nt_recursive_filter_read (fs @ gs) s data =
     (case nt_recursive_filter_read gs s data of (rv, data1, s1) \<Rightarrow>
        if rv \<noteq> NEAT_OK then (rv, data1, s1) else nt_recursive_filter_read fs s1 data1)"
  by (induction fs) (auto split: prod.splits option.splits)

end
