(* ===== verification/Json.thy ===== *)
theory Json
  imports Prelude "HOL-Library.AList"
begin

text \<open>
  JSON values, and the operations on them that the transport core and the policy manager use. The values are
  those of the JSON standard, the operations have the names and the documented behaviour of the Jansson library:
  members of an object are visited in the order of their insertion, setting a member keeps its place, an
  operation on a value of another type or on a null pointer fails without an effect. A pointer that may be null is
  an \<open>option\<close>. A value is a tree: copies made by \<open>json_deep_copy\<close> and references are the same.
\<close>

section \<open>Values\<close>

text \<open>An object is a list of members with different keys. The real number \<open>JSON_REAL m e\<close> is \<open>m * 2 ^ e\<close>.\<close>

datatype json = JSON_NULL | JSON_TRUE | JSON_FALSE | JSON_INTEGER int | JSON_REAL int int | JSON_STRING string
  | JSON_ARRAY "json list" | JSON_OBJECT "(string \<times> json) list"

datatype json_type = TYPE_OBJECT | TYPE_ARRAY | TYPE_STRING | TYPE_INTEGER | TYPE_REAL | TYPE_TRUE | TYPE_FALSE | TYPE_NULL

fun json_typeof :: "json \<Rightarrow> json_type" where
  "json_typeof (JSON_OBJECT _) = TYPE_OBJECT"
| "json_typeof (JSON_ARRAY _) = TYPE_ARRAY"
| "json_typeof (JSON_STRING _) = TYPE_STRING"
| "json_typeof (JSON_INTEGER _) = TYPE_INTEGER"
| "json_typeof (JSON_REAL _ _) = TYPE_REAL"
| "json_typeof JSON_TRUE = TYPE_TRUE"
| "json_typeof JSON_FALSE = TYPE_FALSE"
| "json_typeof JSON_NULL = TYPE_NULL"

fun json_object_get :: "json \<Rightarrow> string \<Rightarrow> json option" where
  "json_object_get (JSON_OBJECT ms) key = map_of ms key"
| "json_object_get _ key = None"

text \<open>On a pointer that may be null.\<close>

definition json_get :: "json option \<Rightarrow> string \<Rightarrow> json option" where
  "json_get p key = Option.bind p (\<lambda>j. json_object_get j key)"

fun json_string_value :: "json \<Rightarrow> string option" where
  "json_string_value (JSON_STRING v) = Some v"
| "json_string_value _ = None"

fun json_integer_value :: "json \<Rightarrow> int" where
  "json_integer_value (JSON_INTEGER v) = v"
| "json_integer_value _ = 0"

definition json_bool :: "bool \<Rightarrow> json" where "json_bool b = (if b then JSON_TRUE else JSON_FALSE)"

text \<open>The members that \<open>json_object_foreach\<close> visits, and the elements that \<open>json_array_foreach\<close> visits.\<close>

fun json_members :: "json \<Rightarrow> (string \<times> json) list" where
  "json_members (JSON_OBJECT ms) = ms"
| "json_members _ = []"

fun json_elements :: "json \<Rightarrow> json list" where
  "json_elements (JSON_ARRAY xs) = xs"
| "json_elements _ = []"

fun json_object_set :: "json \<Rightarrow> string \<Rightarrow> json option \<Rightarrow> json" where
  "json_object_set (JSON_OBJECT ms) key (Some v) = JSON_OBJECT (AList.update key v ms)"
| "json_object_set j key _ = j"

fun json_object_update :: "json \<Rightarrow> json \<Rightarrow> json" where
  "json_object_update (JSON_OBJECT ms) (JSON_OBJECT ns) = JSON_OBJECT (fold (\<lambda>(key, v). AList.update key v) ns ms)"
| "json_object_update j _ = j"

text \<open>The members of the first object, and those of the second whose key the first does not have.\<close>

fun json_object_update_missing :: "json \<Rightarrow> json \<Rightarrow> json option" where
  "json_object_update_missing (JSON_OBJECT ms) (JSON_OBJECT ns) = Some (JSON_OBJECT (ms @ filter (\<lambda>(key, _). map_of ms key = None) ns))"
| "json_object_update_missing _ _ = None"

fun json_object_del :: "json \<Rightarrow> string \<Rightarrow> json" where
  "json_object_del (JSON_OBJECT ms) key = JSON_OBJECT (filter (\<lambda>(k, _). k \<noteq> key) ms)"
| "json_object_del j key = j"

text \<open>Two numbers \<open>m * 2 ^ e\<close> are equal.\<close>

definition real_equal :: "int \<Rightarrow> int \<Rightarrow> int \<Rightarrow> int \<Rightarrow> bool" where
  "real_equal m e n g = (m * 2 ^ nat (e - min e g) = n * 2 ^ nat (g - min e g))"

text \<open>The order of the members does not matter for the equality of objects.\<close>

fun json_equal :: "json \<Rightarrow> json \<Rightarrow> bool" and equal_members :: "(string \<times> json) list \<Rightarrow> (string \<times> json) list \<Rightarrow> bool"
  and equal_elements :: "json list \<Rightarrow> json list \<Rightarrow> bool" where
  "json_equal (JSON_OBJECT ms) (JSON_OBJECT ns) = (length ms = length ns \<and> equal_members ms ns)"
| "json_equal (JSON_ARRAY xs) (JSON_ARRAY ys) = equal_elements xs ys"
| "json_equal (JSON_REAL m e) (JSON_REAL n g) = real_equal m e n g"
| "json_equal x y = (x = y)"
| "equal_members [] ns = True"
| "equal_members ((key, v) # ms) ns = (case map_of ns key of None \<Rightarrow> False | Some w \<Rightarrow> json_equal v w \<and> equal_members ms ns)"
| "equal_elements (x # xs) (y # ys) = (json_equal x y \<and> equal_elements xs ys)"
| "equal_elements xs ys = (xs = [] \<and> ys = [])"

text \<open>A null pointer is not equal to anything.\<close>

fun json_equal_ptr :: "json option \<Rightarrow> json option \<Rightarrow> bool" where
  "json_equal_ptr (Some x) (Some y) = json_equal x y"
| "json_equal_ptr _ _ = False"

section \<open>Objects as maps\<close>

text \<open>A value in which the keys of every object are different.\<close>

fun json_ok :: "json \<Rightarrow> bool" where
  "json_ok (JSON_OBJECT ms) = (distinct (map fst ms) \<and> list_all (\<lambda>m. json_ok (snd m)) ms)"
| "json_ok (JSON_ARRAY xs) = list_all json_ok xs"
| "json_ok _ = True"

lemma json_get_simps [simp]: "json_get None key = None" "json_get (Some j) key = json_object_get j key"
  by (simp_all add: json_get_def)

lemma json_object_get_ok: "json_ok j \<Longrightarrow> json_object_get j key = Some v \<Longrightarrow> json_ok v"
  by (cases j) (auto simp: list_all_iff dest!: map_of_SomeD)

lemma json_object_get_set [simp]:
  "json_object_get (json_object_set j key (Some v)) k =
     (if k = key \<and> json_typeof j = TYPE_OBJECT then Some v else json_object_get j k)"
  by (cases j) (auto simp: update_conv)

lemma json_typeof_set [simp]: "json_typeof (json_object_set j key p) = json_typeof j"
  by (cases j; cases p) simp_all

lemma json_members_set_ok:
  "distinct (map fst ms) \<Longrightarrow> list_all (\<lambda>m. json_ok (snd m)) ms \<Longrightarrow> json_ok v \<Longrightarrow> list_all (\<lambda>m. json_ok (snd m)) (AList.update key v ms)"
  by (induction ms) auto

lemma json_get_ok [simp]: "json_ok j \<Longrightarrow> pred_option json_ok (json_object_get j key)"
  using json_object_get_ok [of j key] by (cases "json_object_get j key") simp_all

lemma json_object_set_ok [simp]: "json_ok j \<Longrightarrow> pred_option json_ok p \<Longrightarrow> json_ok (json_object_set j key p)"
  by (cases j; cases p) (simp_all add: distinct_update json_members_set_ok)

lemma json_object_del_ok [simp]: "json_ok j \<Longrightarrow> json_ok (json_object_del j key)"
  by (cases j) (auto simp: list_all_iff distinct_map inj_on_def)

lemma json_object_update_ok [simp]: "json_ok j \<Longrightarrow> json_ok u \<Longrightarrow> json_ok (json_object_update j u)"
proof (cases j; cases u)
  fix ms ns assume j: "json_ok j" "json_ok u" "j = JSON_OBJECT ms" "u = JSON_OBJECT ns"
  have "distinct (map fst (fold (\<lambda>(key, v). AList.update key v) ns ms)) \<and> list_all (\<lambda>m. json_ok (snd m)) (fold (\<lambda>(key, v). AList.update key v) ns ms)"
    if "list_all (\<lambda>m. json_ok (snd m)) ns" "distinct (map fst ms)" "list_all (\<lambda>m. json_ok (snd m)) ms" for ms
    using that by (induction ns arbitrary: ms) (auto simp: distinct_update json_members_set_ok)
  with j show ?thesis by simp
qed simp_all

text \<open>The equality of well-formed values is reflexive.\<close>

lemma equal_members_refl:
  "\<forall>m \<in> set ms. json_equal (snd m) (snd m) \<Longrightarrow> distinct (map fst ns) \<Longrightarrow> set ms \<subseteq> set ns \<Longrightarrow> equal_members ms ns"
  by (induction ms) auto

lemma equal_elements_refl: "\<forall>v \<in> set xs. json_equal v v \<Longrightarrow> equal_elements xs xs"
  by (induction xs) auto

lemma json_equal_refl [simp]: "json_ok j \<Longrightarrow> json_equal j j"
proof (induction j)
  case (JSON_OBJECT ms)
  then have "\<forall>m \<in> set ms. json_equal (snd m) (snd m)" by (auto simp: list_all_iff)
  with JSON_OBJECT.prems show ?case by (simp add: equal_members_refl)
next
  case (JSON_ARRAY xs)
  then show ?case by (simp add: equal_elements_refl list_all_iff)
qed (simp_all add: real_equal_def)

end
