(* ===== verification/Json_Helpers.thy ===== *)
theory Json_Helpers
  imports Neat_Flow Json
begin

text \<open>
  The helper functions of \<open>neat_json_helpers.c\<close> for the properties of flows and candidates: the names of the
  protocol stacks, the stacks a property enables, and typed access to a property. A write past the end of an array and a string function on
  a null pointer have no result (\<^const>\<open>None\<close>).
\<close>

section \<open>The helper functions\<close>

definition neat_transports :: "(string \<times> neat_protocol_stack_type) list" where
  "neat_transports = [(''TCP'', NEAT_STACK_TCP), (''MPTCP'', NEAT_STACK_MPTCP), (''SCTP'', NEAT_STACK_SCTP), (''UDP'', NEAT_STACK_UDP),
     (''UDPlite'', NEAT_STACK_UDPLITE), (''UDPLite'', NEAT_STACK_UDPLITE), (''UDP-Lite'', NEAT_STACK_UDPLITE),
     (''UDP-lite'', NEAT_STACK_UDPLITE), (''UDPLITE'', NEAT_STACK_UDPLITE), (''SCTP/UDP'', NEAT_STACK_SCTP_UDP),
     (''WEBRTC'', NEAT_STACK_WEBRTC)]"

definition string_to_stack :: "string \<Rightarrow> neat_protocol_stack_type" where
  "string_to_stack str = (case find (\<lambda>t. str = fst t) neat_transports of None \<Rightarrow> NEAT_STACK_NONE | Some t \<Rightarrow> snd t)"

text \<open>\<^const>\<open>None\<close> is the null pointer.\<close>

definition stack_to_string :: "neat_protocol_stack_type \<Rightarrow> string option" where
  "stack_to_string st = map_option fst (find (\<lambda>t. st = snd t) neat_transports)"

definition NEAT_STACK_MAX_NUM :: nat where "NEAT_STACK_MAX_NUM = 6"

text \<open>\<open>*(stack_ptr++) = stack\<close> in an array of \<^const>\<open>NEAT_STACK_MAX_NUM\<close> elements.\<close>

definition store_stack :: "neat_protocol_stack_type \<Rightarrow> neat_protocol_stack_type list \<Rightarrow> neat_protocol_stack_type list option" where
  "store_stack st out = (if length out < NEAT_STACK_MAX_NUM then Some (out @ [st]) else None)"

fun enabled_stacks :: "json list \<Rightarrow> neat_protocol_stack_type list \<Rightarrow> neat_protocol_stack_type list option" where
  "enabled_stacks [] out = Some out"
| "enabled_stacks (t # ts) out = do {
     v \<leftarrow> json_string_value t;
     out1 \<leftarrow> (if string_to_stack v \<noteq> NEAT_STACK_NONE then store_stack (string_to_stack v) out else Some out);
     enabled_stacks ts out1 }"

definition fallback_transports :: json where
  "fallback_transports = JSON_OBJECT [(''value'', JSON_ARRAY [JSON_STRING ''TCP'', JSON_STRING ''SCTP'', JSON_STRING ''MPTCP''])]"

text \<open>The callers pass no array for the precedences. The result is the filled part of the array.\<close>

definition nt_find_enabled_stacks :: "json \<Rightarrow> neat_protocol_stack_type list option" where
  "nt_find_enabled_stacks j = (
     let transports = (case json_object_get j ''transport'' of None \<Rightarrow> fallback_transports | Some t \<Rightarrow> t)
     in if json_typeof transports = TYPE_OBJECT
        then do {
          val \<leftarrow> json_object_get transports ''value'';
          (case val of
             JSON_STRING v \<Rightarrow> if string_to_stack v \<noteq> NEAT_STACK_NONE then store_stack (string_to_stack v) [] else Some []
           | JSON_ARRAY ts \<Rightarrow> enabled_stacks ts []
           | _ \<Rightarrow> Some []) }
        else Some [])"

definition get_property :: "json \<Rightarrow> string \<Rightarrow> json_type \<Rightarrow> json option" where
  "get_property j key expected_type = do {
     p \<leftarrow> json_object_get j key;
     v \<leftarrow> json_object_get p ''value'';
     if json_typeof v \<noteq> expected_type then None else Some v }"

text \<open>The test of a property that is a flag, as in \<open>neat_open\<close>, \<open>neat_accept\<close> and \<open>install_security\<close>.\<close>

definition property_is :: "json \<Rightarrow> string \<Rightarrow> json_type \<Rightarrow> bool" where
  "property_is j key t = (get_property j key t \<noteq> None)"

section \<open>Names and stacks\<close>

lemma string_to_stack_of_name: "st \<noteq> NEAT_STACK_NONE \<Longrightarrow> string_to_stack (the (stack_to_string st)) = st"
  by (cases st) (simp_all add: stack_to_string_def string_to_stack_def neat_transports_def)

lemma stack_to_string_known: "stack_to_string st = None \<longleftrightarrow> st = NEAT_STACK_NONE"
  by (cases st) (simp_all add: stack_to_string_def neat_transports_def)

text \<open>The stacks of the known names, in their order.\<close>

definition known_stacks :: "string list \<Rightarrow> neat_protocol_stack_type list" where
  "known_stacks vs = filter (\<lambda>t. t \<noteq> NEAT_STACK_NONE) (map string_to_stack vs)"

lemma known_stacks_Cons:
  "known_stacks (v # vs) = (if string_to_stack v \<noteq> NEAT_STACK_NONE then string_to_stack v # known_stacks vs else known_stacks vs)"
  by (simp add: known_stacks_def)

lemma enabled_stacks_known:
  "length out \<le> NEAT_STACK_MAX_NUM \<Longrightarrow> enabled_stacks (map JSON_STRING vs) out =
     (if length out + length (known_stacks vs) \<le> NEAT_STACK_MAX_NUM then Some (out @ known_stacks vs) else None)"
proof (induction vs arbitrary: out)
  case (Cons v vs)
  then show ?case using Cons.IH [of "out @ [string_to_stack v]"] Cons.IH [of out]
    by (auto simp: known_stacks_Cons store_stack_def)
qed (simp add: known_stacks_def)

text \<open>C38. For a list of names \<open>nt_find_enabled_stacks\<close> gives the stacks of the names it knows, in their order, as long as the array of the
  caller has room for them; with more names than that it writes past the end of the array.\<close>

theorem nt_find_enabled_stacks_bounds:
  assumes "json_object_get j ''transport'' = Some (JSON_OBJECT fs)" and "json_object_get (JSON_OBJECT fs) ''value'' = Some (JSON_ARRAY (map JSON_STRING vs))"
  shows "nt_find_enabled_stacks j = (if length (known_stacks vs) \<le> NEAT_STACK_MAX_NUM then Some (known_stacks vs) else None)"
  using assms enabled_stacks_known [of "[]" vs] by (simp add: nt_find_enabled_stacks_def)

theorem nt_find_enabled_stacks_bounds_witness:
  "nt_find_enabled_stacks (JSON_OBJECT [(''transport'', JSON_OBJECT [(''value'', JSON_ARRAY (map JSON_STRING [''SCTP'', ''QUIC'', ''TCP'']))])]) =
     Some [NEAT_STACK_SCTP, NEAT_STACK_TCP] \<and>
   nt_find_enabled_stacks (JSON_OBJECT [(''transport'', JSON_OBJECT [(''value'', JSON_ARRAY (map JSON_STRING (replicate 7 ''TCP'')))])]) = None"
proof
  show "nt_find_enabled_stacks (JSON_OBJECT [(''transport'', JSON_OBJECT [(''value'', JSON_ARRAY (map JSON_STRING [''SCTP'', ''QUIC'', ''TCP'']))])]) =
     Some [NEAT_STACK_SCTP, NEAT_STACK_TCP]"
    by (subst nt_find_enabled_stacks_bounds [where fs = "[(''value'', JSON_ARRAY (map JSON_STRING [''SCTP'', ''QUIC'', ''TCP'']))]" and vs = "[''SCTP'', ''QUIC'', ''TCP'']"])
      (simp_all add: known_stacks_def string_to_stack_def neat_transports_def NEAT_STACK_MAX_NUM_def)
  show "nt_find_enabled_stacks (JSON_OBJECT [(''transport'', JSON_OBJECT [(''value'', JSON_ARRAY (map JSON_STRING (replicate 7 ''TCP'')))])]) = None"
    by (subst nt_find_enabled_stacks_bounds [where fs = "[(''value'', JSON_ARRAY (map JSON_STRING (replicate 7 ''TCP'')))]" and vs = "replicate 7 ''TCP''"])
      (simp_all add: known_stacks_def string_to_stack_def neat_transports_def NEAT_STACK_MAX_NUM_def)
qed

end
