(* ===== verification/Core_Streams.thy ===== *)
theory Core_Streams
  imports Flow_Write Flow_Read Json_Helpers
begin

text \<open>
  The event side of the transport core (\<open>neat_core.c\<close>): what happens when the event loop finds a socket
  readable or writable, the SCTP notifications, and multistreaming, where several flows share one SCTP
  association and each has a stream of it. Flows, sockets and the candidates of a connection attempt are
  objects in a store, because they refer to each other and are freed while pointers to them are held; an
  access to a freed object is \<^const>\<open>None\<close>.

  Configuration. As in the theory \<open>Neat_Flow\<close>, with \<open>SCTP_RESET_STREAMS\<close>, \<open>SCTP_STATUS\<close>,
  \<open>SCTP_ASSOC_SUPPORTS_PR\<close> and \<open>SCTP_ASSOC_SUPPORTS_RE_CONFIG\<close> defined and without
  \<open>HAVE_SCTP_SEND_FAILED_EVENT\<close>.
\<close>

section \<open>The store\<close>

text \<open>What libuv knows of the poll handle of a socket: a handle that is closing is freed by a callback later.\<close>

datatype uv_handle = UV_UNKNOWN_HANDLE | UV_POLLING | UV_STOPPED | UV_CLOSING

text \<open>The types of sockets, and 0.\<close>

datatype sock_type = SOCK_STREAM | SOCK_DGRAM | SOCK_NONE

text \<open>
  The handle of a candidate: none, its own (which it has from the start of the connection attempts), the one
  that the socket of its flow has taken over, or one that libuv has freed since.
\<close>

datatype he_handle = HANDLE_NULL | HANDLE_OWN uv_handle | HANDLE_OF_SOCKET nat | HANDLE_FREED

datatype neat_he_sockopt = NEAT_SOCKOPT_INT int int int | NEAT_SOCKOPT_STRING int int string

text \<open>
  \<open>struct neat_he_candidate\<close> with its \<open>pollable_socket\<close>; of the timer the time after which it fires.
\<close>

record candidate_obj =
  ca_socket :: neat_pollable_socket
  ca_family :: nat
  ca_type :: sock_type
  ca_port :: u16
  ca_dst_address :: string
  ca_src_address :: string
  ca_dst_sockaddr :: sockaddr_storage
  ca_src_sockaddr :: sockaddr_storage
  ca_nr_local_addr :: nat
  ca_flow :: "nat option"
  ca_handle :: he_handle
  ca_prio_timer :: "u64 option"
  ca_if_idx :: u32
  ca_if_name :: string
  ca_priority :: int
  ca_properties :: json
  ca_sock_opts :: "neat_he_sockopt list"
  ca_to_be_removed :: bool

text \<open>
  \<open>struct neat_flow\<close> with its pointers; the data path sees the part \<open>fo_flow\<close>. The list of candidates is
  empty when the pointer \<open>candidate_list\<close> is null.
\<close>

record flow_obj =
  fo_flow :: neat_flow
  fo_socket :: nat
  fo_name :: string
  fo_port :: u16
  fo_group :: u32
  fo_everConnected :: bool
  fo_isServer :: bool
  fo_hefirstConnect :: bool
  fo_multistream_check :: bool
  fo_multistream_shutdown :: bool
  fo_multistream_timer :: bool
  fo_candidates :: "nat list"
  fo_heConnectAttemptCount :: u8
  fo_listen_sockets :: "nat list"
  fo_userData :: nat
  fo_properties :: json
  fo_isMultihoming :: bool
  fo_cc_algorithm :: "string option"
  fo_tproxy :: bool
  fo_user_ips :: "json option"
  fo_skipCertVerification :: bool

text \<open>\<open>struct neat_pollable_socket\<close> with its pointers.\<close>

record socket_obj =
  so_socket :: neat_pollable_socket
  so_flow :: "nat option"
  so_listen_socket :: "nat option"
  so_src_sockaddr :: sockaddr_storage
  so_dst_sockaddr :: sockaddr_storage
  so_family :: nat
  so_type :: sock_type
  so_handle :: uv_handle

text \<open>The flows, sockets and candidates by address, the list \<open>ctx->flows\<close> and the rest of the world.\<close>

record 'k core =
  co_flows :: "nat \<rightharpoonup> flow_obj"
  co_sockets :: "nat \<rightharpoonup> socket_obj"
  co_candidates :: "nat \<rightharpoonup> candidate_obj"
  co_flow_list :: "nat list"
  co_world :: 'k

text \<open>\<open>union sctp_notification\<close>: the events with the fields the code reads.\<close>

datatype sctp_sac_state = SCTP_COMM_UP | SCTP_COMM_LOST | SCTP_RESTART | SCTP_SHUTDOWN_COMP | SCTP_CANT_STR_ASSOC

datatype sctp_feature = SCTP_ASSOC_SUPPORTS_PR | SCTP_ASSOC_SUPPORTS_RE_CONFIG | SCTP_ASSOC_SUPPORTS_OTHER

datatype sctp_notification =
    SCTP_ASSOC_CHANGE sctp_sac_state "sctp_feature list"
  | SCTP_SEND_FAILED u32 int "u8 list"
  | SCTP_PEER_ADDR_CHANGE | SCTP_REMOTE_ERROR | SCTP_SHUTDOWN_EVENT
  | SCTP_ADAPTATION_INDICATION u32
  | SCTP_PARTIAL_DELIVERY_EVENT
  | SCTP_STREAM_RESET_EVENT bool bool "u16 list"
  | SCTP_OTHER_EVENT

text \<open>
  What \<open>recvmsg\<close> returns: the number of bytes or a negative number, the bytes, the stream of the
  \<open>SCTP_RCVINFO\<close> message or -1, the flags, and the bytes read as a notification.
\<close>

record recv_result =
  rm_n :: int
  rm_data :: "u8 list"
  rm_sid :: int
  rm_notification :: bool
  rm_eor :: bool
  rm_event :: sctp_notification

text \<open>The values of \<open>SO_ERROR\<close> the code distinguishes.\<close>

datatype so_error = SO_NONE | SO_ETIMEDOUT | SO_ECONNRESET | SO_EPIPE | SO_EOTHER

text \<open>What \<open>connect\<close> returns, with the value of \<open>errno\<close> that the code distinguishes.\<close>

datatype connect_result = CONNECTED | CONNECT_EINPROGRESS | CONNECT_ERROR

text \<open>
  The application, whose callbacks may call the library again, the allocator, which is told the
  addresses in use, the system calls, the environment variables, the message to the policy manager, and
  the installation of TLS on a flow.
\<close>

record 'k core_env =
  ce_app :: "callback \<Rightarrow> nat \<Rightarrow> 'k core \<Rightarrow> 'k core"
  ce_calloc :: "(nat \<Rightarrow> bool) \<Rightarrow> 'k \<Rightarrow> nat option \<times> 'k"
  ce_malloc :: "nat \<Rightarrow> 'k \<Rightarrow> bool \<times> 'k"
  ce_recvmsg :: "int \<Rightarrow> nat \<Rightarrow> 'k \<Rightarrow> recv_result \<times> 'k"
  ce_recvfrom :: "int \<Rightarrow> nat \<Rightarrow> 'k \<Rightarrow> u8 list option \<times> sockaddr_storage \<times> 'k"
  ce_peek :: "int \<Rightarrow> 'k \<Rightarrow> int \<times> 'k"
  ce_sendmsg :: "'k sendmsg_fn"
  ce_socket :: "nat \<Rightarrow> sock_type \<Rightarrow> ipproto \<Rightarrow> 'k \<Rightarrow> int \<times> 'k"
  ce_bind :: "int \<Rightarrow> sockaddr_storage \<Rightarrow> 'k \<Rightarrow> int \<times> 'k"
  ce_bindx :: "int \<Rightarrow> string list \<Rightarrow> nat \<Rightarrow> 'k \<Rightarrow> int \<times> 'k"
  ce_listen :: "int \<Rightarrow> 'k \<Rightarrow> int \<times> 'k"
  ce_connect :: "int \<Rightarrow> sockaddr_storage \<Rightarrow> 'k \<Rightarrow> connect_result \<times> 'k"
  ce_accept :: "int \<Rightarrow> 'k \<Rightarrow> int \<times> 'k"
  ce_getpeername :: "int \<Rightarrow> 'k \<Rightarrow> bool \<times> 'k"
  ce_setsockopt :: "string \<Rightarrow> int \<Rightarrow> int list \<Rightarrow> 'k \<Rightarrow> int \<times> 'k"
  ce_getsockopt :: "string \<Rightarrow> int \<Rightarrow> 'k \<Rightarrow> nat option \<times> 'k"
  ce_if_indextoname :: "u32 \<Rightarrow> 'k \<Rightarrow> string option \<times> 'k"
  ce_getenv :: "string \<Rightarrow> 'k \<Rightarrow> string option"
  ce_pm_send :: "string \<Rightarrow> json \<Rightarrow> 'k \<Rightarrow> 'k"
  ce_sctp_status :: "int \<Rightarrow> 'k \<Rightarrow> (u16 \<times> u16) option \<times> 'k"
  ce_so_error :: "int \<Rightarrow> 'k \<Rightarrow> so_error option \<times> 'k"
  ce_shutdown :: "int \<Rightarrow> 'k \<Rightarrow> int \<times> 'k"
  ce_close :: "int \<Rightarrow> 'k \<Rightarrow> 'k"
  ce_security_install :: "nat \<Rightarrow> 'k core \<Rightarrow> neat_error_code \<times> 'k core"

text \<open>Field updates through a pointer to an object that is allocated.\<close>

definition modify_flow :: "nat \<Rightarrow> (neat_flow \<Rightarrow> neat_flow) \<Rightarrow> 'k core \<Rightarrow> 'k core" where
  "modify_flow f u s = s\<lparr>co_flows := (co_flows s)(f := map_option (\<lambda>k. k\<lparr>fo_flow := u (fo_flow k)\<rparr>) (co_flows s f))\<rparr>"

definition modify_flow_obj :: "nat \<Rightarrow> (flow_obj \<Rightarrow> flow_obj) \<Rightarrow> 'k core \<Rightarrow> 'k core" where
  "modify_flow_obj f u s = s\<lparr>co_flows := (co_flows s)(f := map_option u (co_flows s f))\<rparr>"

definition modify_pollable :: "nat \<Rightarrow> (neat_pollable_socket \<Rightarrow> neat_pollable_socket) \<Rightarrow> 'k core \<Rightarrow> 'k core" where
  "modify_pollable sk u s =
     s\<lparr>co_sockets := (co_sockets s)(sk := map_option (\<lambda>k. k\<lparr>so_socket := u (so_socket k)\<rparr>) (co_sockets s sk))\<rparr>"

definition modify_candidate :: "nat \<Rightarrow> (candidate_obj \<Rightarrow> candidate_obj) \<Rightarrow> 'k core \<Rightarrow> 'k core" where
  "modify_candidate c u s = s\<lparr>co_candidates := (co_candidates s)(c := map_option u (co_candidates s c))\<rparr>"

definition free_candidate :: "nat \<Rightarrow> 'k core \<Rightarrow> 'k core" where
  "free_candidate c s = s\<lparr>co_candidates := (co_candidates s)(c := None)\<rparr>"

definition modify_socket_obj :: "nat \<Rightarrow> (socket_obj \<Rightarrow> socket_obj) \<Rightarrow> 'k core \<Rightarrow> 'k core" where
  "modify_socket_obj sk u s = s\<lparr>co_sockets := (co_sockets s)(sk := map_option u (co_sockets s sk))\<rparr>"

text \<open>A system call with no other effect than on the world.\<close>

definition world_call :: "('k \<Rightarrow> 'a \<times> 'k) \<Rightarrow> 'k core \<Rightarrow> 'a \<times> 'k core" where
  "world_call c s = (case c (co_world s) of (r, w) \<Rightarrow> (r, s\<lparr>co_world := w\<rparr>))"

text \<open>The invocation of a callback of a flow: the test of the pointer, \<open>READYCALLBACKSTRUCT\<close> and the call.\<close>

definition run_callback ::
  "'k core_env \<Rightarrow> (neat_flow_operations \<Rightarrow> bool) \<Rightarrow> callback \<Rightarrow> neat_error_code \<Rightarrow> u16 \<Rightarrow> nat \<Rightarrow> 'k core \<Rightarrow> 'k core option" where
  "run_callback env isset cb code sid f s = do {
     k \<leftarrow> co_flows s f;
     Some (if isset (operations (fo_flow k)) then ce_app env cb f (modify_flow f (ready_callback code sid) s) else s) }"

section \<open>Creating and freeing flows\<close>

definition fresh_flow :: "nat \<Rightarrow> flow_obj" where
  "fresh_flow sk = \<lparr>fo_flow = \<lparr>flow_state = NEAT_FLOW_CLOSED,
       operations = \<lparr>op_status = NEAT_OK, op_stream_id = 0, transport_protocol = NEAT_STACK_NONE,
         on_connected = False, on_error = False, on_readable = False, on_writable = False,
         on_all_written = False, on_network_status_changed = False, on_aborted = False,
         on_timeout = False, on_close = False, on_send_failure = False, on_slowdown = False,
         on_rate_hint = False\<rparr>,
       bufferedMessages = [], flow_stats = \<lparr>bytes_sent = 0, bytes_received = 0\<rparr>,
       readBuffer = [], readBufferSize = 0, readBufferAllocation = 0, readBufferMsgComplete = False,
       firstWritePending = False, acceptPending = False, isPolling = False, isDraining = False,
       security_needed = False, isClosing = False, notifyDrainPending = False,
       preserveMessageBoundaries = False, eofSeen = False, multistream_id = 0,
       multistream_reset_in = False, multistream_reset_out = False, multistream_read_queue = []\<rparr>,
     fo_socket = sk, fo_name = '''', fo_port = 0, fo_group = 0, fo_everConnected = False, fo_isServer = False,
     fo_hefirstConnect = False, fo_multistream_check = False, fo_multistream_shutdown = False,
     fo_multistream_timer = False, fo_candidates = [], fo_heConnectAttemptCount = 0, fo_listen_sockets = [], fo_userData = 0,
     fo_properties = JSON_OBJECT [], fo_isMultihoming = False, fo_cc_algorithm = None, fo_tproxy = False, fo_user_ips = None, fo_skipCertVerification = False\<rparr>"

definition fresh_socket :: "nat \<Rightarrow> socket_obj" where
  "fresh_socket f = \<lparr>so_socket = \<lparr>fd = 0, stack = NEAT_STACK_NONE, write_limit = 0, write_size = 0, read_size = 0,
       multistream = False, is_closed = False, sctp_explicit_eor = False,
       sctp_partial_reliability = False, sctp_streams_available = 0, sctp_notification_wait = False,
       sctp_notification_recvd = False, sctp_stream_reset = False, sctp_neat_peer = False,
       sctp_streams_used = 0, sctp_multistream_flows = []\<rparr>,
     so_flow = Some f, so_listen_socket = None, so_src_sockaddr = SS_OTHER 0, so_dst_sockaddr = SS_OTHER 0,
     so_family = 0, so_type = SOCK_NONE, so_handle = UV_UNKNOWN_HANDLE\<rparr>"

text \<open>\<open>neat_new_flow\<close>: the flow, its socket and the handle, or nothing when memory is short.\<close>

definition neat_new_flow :: "'k core_env \<Rightarrow> 'k core \<Rightarrow> nat option \<times> 'k core" where
  "neat_new_flow env s =
     (case world_call (ce_calloc env (\<lambda>a. co_flows s a \<noteq> None \<or> co_sockets s a \<noteq> None)) s of
        (None, s1) \<Rightarrow> (None, s1)
      | (Some f, s1) \<Rightarrow>
          (case world_call (ce_calloc env (\<lambda>a. a = f \<or> co_flows s a \<noteq> None \<or> co_sockets s a \<noteq> None)) s1 of
             (None, s2) \<Rightarrow> (None, s2)
           | (Some sk, s2) \<Rightarrow>
               (case world_call (ce_malloc env 1) s2 of
                  (False, s3) \<Rightarrow> (None, s3)
                | (True, s3) \<Rightarrow>
                    (Some f, s3\<lparr>co_flows := (co_flows s3)(f \<mapsto> fresh_flow sk), co_sockets := (co_sockets s3)(sk \<mapsto> fresh_socket f),
                               co_flow_list := f # co_flow_list s3\<rparr>))))"

text \<open>\<open>synchronous_free\<close>: the socket goes with the flow unless other flows of the association use it.\<close>

definition synchronous_free :: "nat \<Rightarrow> 'k core \<Rightarrow> 'k core option" where
  "synchronous_free f s = do {
     k \<leftarrow> co_flows s f;
     o' \<leftarrow> co_sockets s (fo_socket k);
     let s1 = (if \<not> multistream (so_socket o') \<or> sctp_streams_used (so_socket o') = 0
               then s\<lparr>co_sockets := (co_sockets s)(fo_socket k := None)\<rparr> else s);
     Some (s1\<lparr>co_flows := (co_flows s1)(f := None)\<rparr>) }"

text \<open>The callback of \<open>uv_close\<close> on the handle of a socket.\<close>

fun free_streams :: "nat \<Rightarrow> nat list \<Rightarrow> 'k core \<Rightarrow> 'k core option" where
  "free_streams sk [] s = Some s"
| "free_streams sk (f # fs) s = do {
     s1 \<leftarrow> synchronous_free f (modify_pollable sk (\<lambda>k. k\<lparr>sctp_multistream_flows := remove1 f (sctp_multistream_flows k)\<rparr>) s);
     free_streams sk fs s1 }"

definition socket_handle_free_cb :: "nat \<Rightarrow> 'k core \<Rightarrow> 'k core option" where
  "socket_handle_free_cb sk s = do {
     k \<leftarrow> co_sockets s sk;
     if multistream (so_socket k) then free_streams sk (sctp_multistream_flows (so_socket k)) s
     else do { f \<leftarrow> so_flow k; synchronous_free f s } }"

text \<open>Starting to close a handle, which \<open>uv_close\<close> must not be told twice.\<close>

definition close_handle :: "nat \<Rightarrow> 'k core \<Rightarrow> 'k core" where
  "close_handle sk s = modify_socket_obj sk (\<lambda>k. k\<lparr>so_handle := UV_CLOSING\<rparr>) s"

text \<open>
  \<open>nt_free_candidate\<close>. A handle that is polling is closed first and the rest is done by the callback
  \<open>on_handle_closed_candidate\<close>; a handle that the socket of the flow has taken over is left to the flow.
\<close>

definition nt_free_candidate :: "'k core_env \<Rightarrow> nat \<Rightarrow> 'k core \<Rightarrow> 'k core option" where
  "nt_free_candidate env c s = do {
     ca \<leftarrow> co_candidates s c;
     if ca_handle ca = HANDLE_NULL then Some (free_candidate c s)
     else do {
       f \<leftarrow> ca_flow ca;
       k \<leftarrow> co_flows s f;
       _ \<leftarrow> co_sockets s (fo_socket k);
       if ca_handle ca = HANDLE_OF_SOCKET (fo_socket k) \<or> fd (ca_socket ca) = - 1 \<or> ca_handle ca = HANDLE_OWN UV_CLOSING
       then Some (free_candidate c s)
       else (case ca_handle ca of
           HANDLE_OWN _ \<Rightarrow>
             Some (modify_candidate c (\<lambda>k. k\<lparr>ca_handle := HANDLE_OWN UV_CLOSING, ca_prio_timer := None\<rparr>)
               (snd (world_call (ce_setsockopt env ''SO_LINGER'' (fd (ca_socket ca)) [1, 0]) s)))
         | _ \<Rightarrow> None) } }"

fun nt_free_candidates :: "'k core_env \<Rightarrow> nat list \<Rightarrow> 'k core \<Rightarrow> 'k core option" where
  "nt_free_candidates env [] s = Some s"
| "nt_free_candidates env (c # cs) s = do { s1 \<leftarrow> nt_free_candidate env c s; nt_free_candidates env cs s1 }"

definition on_handle_closed_candidate :: "'k core_env \<Rightarrow> nat \<Rightarrow> 'k core \<Rightarrow> 'k core option" where
  "on_handle_closed_candidate env c s = do {
     ca \<leftarrow> co_candidates s c;
     Some (free_candidate c (s\<lparr>co_world := ce_close env (fd (ca_socket ca)) (co_world s)\<rparr>)) }"

definition nt_free_flow :: "'k core_env \<Rightarrow> nat \<Rightarrow> 'k core \<Rightarrow> 'k core option" where
  "nt_free_flow env f s = do {
     k \<leftarrow> co_flows s f;
     s0 \<leftarrow> nt_free_candidates env (fo_candidates k) (s\<lparr>co_flow_list := remove1 f (co_flow_list s)\<rparr>);
     let s1 = modify_flow_obj f (\<lambda>k. k\<lparr>fo_candidates := []\<rparr>) s0;
     let s2 = foldl (\<lambda>s l. close_handle l s) s1 (fo_listen_sockets k);
     o' \<leftarrow> co_sockets s2 (fo_socket k);
     let s3 = (if multistream (so_socket o')
               then modify_pollable (fo_socket k) (\<lambda>k. k\<lparr>sctp_multistream_flows := remove1 f (sctp_multistream_flows k)\<rparr>) s2 else s2);
     if so_handle o' \<noteq> UV_UNKNOWN_HANDLE \<and> (\<not> multistream (so_socket o') \<or> sctp_streams_used (so_socket o') = 0)
     then Some (close_handle (fo_socket k) s3)
     else synchronous_free f s3 }"

definition nt_notify_close :: "'k core_env \<Rightarrow> nat \<Rightarrow> 'k core \<Rightarrow> 'k core option" where
  "nt_notify_close env f s = do {
     k \<leftarrow> co_flows s f;
     if flow_state (fo_flow k) = NEAT_FLOW_CLOSED then Some s
     else do {
       s1 \<leftarrow> run_callback env on_close CB_close NEAT_OK (- 1) f (modify_flow f (\<lambda>k. k\<lparr>flow_state := NEAT_FLOW_CLOSED\<rparr>) s);
       nt_free_flow env f s1 } }"

text \<open>\<open>nt_close_socket\<close>: the descriptors of the listening sockets and of the flow.\<close>

fun close_listening :: "'k core_env \<Rightarrow> nat list \<Rightarrow> 'k core \<Rightarrow> 'k core option" where
  "close_listening env [] s = Some s"
| "close_listening env (l # ls) s = do {
     k \<leftarrow> co_sockets s l;
     c_assert (fd (so_socket k) > 0);
     close_listening env ls (s\<lparr>co_world := ce_close env (fd (so_socket k)) (co_world s)\<rparr>) }"

definition nt_close_socket :: "'k core_env \<Rightarrow> nat \<Rightarrow> 'k core \<Rightarrow> 'k core option" where
  "nt_close_socket env f s = do {
     k \<leftarrow> co_flows s f;
     s1 \<leftarrow> close_listening env (fo_listen_sockets k) s;
     o' \<leftarrow> co_sockets s1 (fo_socket k);
     Some (s1\<lparr>co_world := ce_close env (fd (so_socket o')) (co_world s1)\<rparr>) }"

definition core_close :: "'k core_env \<Rightarrow> nat \<Rightarrow> 'k core \<Rightarrow> (neat_error_code \<times> 'k core) option" where
  "core_close env f s = do {
     k \<leftarrow> co_flows s f;
     o1 \<leftarrow> co_sockets s (fo_socket k);
     let s1 = (if multistream (so_socket o1) \<and> flow_state (fo_flow k) = NEAT_FLOW_OPEN
               then modify_pollable (fo_socket k) (\<lambda>k. k\<lparr>sctp_streams_used := sctp_streams_used k - 1\<rparr>) s else s);
     o2 \<leftarrow> co_sockets s1 (fo_socket k);
     s3 \<leftarrow> (if \<not> multistream (so_socket o2) \<or> sctp_streams_used (so_socket o2) = 0
           then (let s2 = (if isPolling (fo_flow k) \<and> so_handle o2 = UV_POLLING
                           then modify_socket_obj (fo_socket k) (\<lambda>k. k\<lparr>so_handle := UV_STOPPED\<rparr>) s1 else s1)
                 in nt_close_socket env f s2)
           else Some s1);
     s4 \<leftarrow> nt_notify_close env f s3;
     Some (NEAT_OK, s4) }"

definition core_abort :: "'k core_env \<Rightarrow> nat \<Rightarrow> 'k core \<Rightarrow> (neat_error_code \<times> 'k core) option" where
  "core_abort env f s = do {
     k \<leftarrow> co_flows s f;
     o1 \<leftarrow> co_sockets s (fo_socket k);
     (_, s2) \<leftarrow> core_close env f (snd (world_call (ce_setsockopt env ''SO_LINGER'' (fd (so_socket o1)) [1, 0]) s));
     Some (NEAT_OK, s2) }"

section \<open>Multistreaming\<close>

text \<open>\<open>nt_sctp_get_flow_by_sid\<close>; the inner option is the null pointer.\<close>

fun find_sid :: "nat list \<Rightarrow> u16 \<Rightarrow> 'k core \<Rightarrow> nat option option" where
  "find_sid [] sid s = Some None"
| "find_sid (f # fs) sid s = do {
     k \<leftarrow> co_flows s f;
     if multistream_id (fo_flow k) = sid then Some (Some f) else find_sid fs sid s }"

definition nt_sctp_get_flow_by_sid :: "nat \<Rightarrow> u16 \<Rightarrow> 'k core \<Rightarrow> nat option option" where
  "nt_sctp_get_flow_by_sid sk sid s = do {
     k \<leftarrow> co_sockets s sk;
     if \<not> multistream (so_socket k) then Some None else find_sid (sctp_multistream_flows (so_socket k)) sid s }"

definition nt_sctp_reset_stream :: "'k core_env \<Rightarrow> nat \<Rightarrow> u16 \<Rightarrow> 'k core \<Rightarrow> 'k core option" where
  "nt_sctp_reset_stream env sk sid s =
     (case world_call (ce_malloc env 1) s of
        (False, s1) \<Rightarrow> Some s1
      | (True, s1) \<Rightarrow> do {
          k \<leftarrow> co_sockets s1 sk;
          Some (snd (world_call (ce_setsockopt env ''SCTP_RESET_STREAMS'' (fd (so_socket k)) [uint sid]) s1)) })"

definition nt_sctp_open_stream :: "'k core_env \<Rightarrow> nat \<Rightarrow> u16 \<Rightarrow> 'k core \<Rightarrow> (neat_error_code \<times> 'k core) option" where
  "nt_sctp_open_stream env sk sid s = do {
     k \<leftarrow> co_sockets s sk;
     let ((rv, err), s1) = world_call (\<lambda>w. case ce_sendmsg env w (fd (so_socket k))
            \<lparr>msg_iov = [1], msg_sndinfo = Some \<lparr>snd_sid = sid, snd_unordered = False, snd_eor = True\<rparr>, msg_prinfo = None\<rparr>
          of (rv, err, w') \<Rightarrow> ((rv, err), w')) s;
     Some (if rv < 0 then (if err = EWOULDBLOCK then NEAT_ERROR_WOULD_BLOCK else NEAT_ERROR_IO) else NEAT_OK, s1) }"

text \<open>\<open>nt_find_multistream_socket\<close>: the socket of another flow to the same host with streams left.\<close>

fun find_multistream :: "nat list \<Rightarrow> nat \<Rightarrow> flow_obj \<Rightarrow> 'k core \<Rightarrow> nat option option" where
  "find_multistream [] f k s = Some None"
| "find_multistream (g # gs) f k s =
     (if g = f then find_multistream gs f k s
      else do {
        kg \<leftarrow> co_flows s g;
        og \<leftarrow> co_sockets s (fo_socket kg);
        if fd (so_socket og) < 1 \<or> acceptPending (fo_flow kg) then find_multistream gs f k s
        else if fo_name kg = fo_name k \<and> fo_group kg = fo_group k \<and> stack (so_socket og) = NEAT_STACK_SCTP \<and>
            sctp_neat_peer (so_socket og) \<and> sctp_streams_used (so_socket og) < sctp_streams_available (so_socket og)
        then Some (Some (fo_socket kg))
        else find_multistream gs f k s })"

definition nt_find_multistream_socket :: "nat \<Rightarrow> 'k core \<Rightarrow> nat option option" where
  "nt_find_multistream_socket f s = do { k \<leftarrow> co_flows s f; find_multistream (co_flow_list s) f k s }"

text \<open>\<open>nt_wait_for_multistream_socket\<close>: another flow to the same host is connecting with an SCTP candidate.\<close>

fun any_sctp :: "nat list \<Rightarrow> 'k core \<Rightarrow> bool option" where
  "any_sctp [] s = Some False"
| "any_sctp (c # cs) s = do {
     ca \<leftarrow> co_candidates s c;
     if stack (ca_socket ca) = NEAT_STACK_SCTP then Some True else any_sctp cs s }"

fun wait_for_multistream :: "nat list \<Rightarrow> nat \<Rightarrow> flow_obj \<Rightarrow> 'k core \<Rightarrow> bool option" where
  "wait_for_multistream [] f k s = Some False"
| "wait_for_multistream (g # gs) f k s =
     (if g = f then wait_for_multistream gs f k s
      else do {
        kg \<leftarrow> co_flows s g;
        if \<not> acceptPending (fo_flow kg) \<and> fo_name kg = fo_name k \<and> fo_hefirstConnect kg \<and> fo_group kg = fo_group k
        then do { found \<leftarrow> any_sctp (fo_candidates kg) s; if found then Some True else wait_for_multistream gs f k s }
        else wait_for_multistream gs f k s })"

definition nt_wait_for_multistream_socket :: "nat \<Rightarrow> 'k core \<Rightarrow> bool option" where
  "nt_wait_for_multistream_socket f s = do { k \<leftarrow> co_flows s f; wait_for_multistream (co_flow_list s) f k s }"

text \<open>
  The block that makes a socket multistreamed, when the peer runs NEAT and can reset streams: the flow
  of the socket becomes the first flow of its list, on stream 0.
\<close>

definition enable_multistream :: "nat \<Rightarrow> 'k core \<Rightarrow> 'k core option" where
  "enable_multistream f s = do {
     k \<leftarrow> co_flows s f;
     o' \<leftarrow> co_sockets s (fo_socket k);
     let s1 = modify_socket_obj (fo_socket k) (\<lambda>k. k\<lparr>so_flow := None\<rparr>)
                (modify_pollable (fo_socket k) (\<lambda>k. k\<lparr>multistream := True, sctp_streams_used := 1\<rparr>) s);
     let s2 = modify_flow f (\<lambda>k. k\<lparr>multistream_id := 0\<rparr>) s1;
     c_assert (sctp_multistream_flows (so_socket o') = []);
     Some (modify_pollable (fo_socket k) (\<lambda>k. k\<lparr>sctp_multistream_flows := f # sctp_multistream_flows k\<rparr>) s2) }"

section \<open>SCTP notifications\<close>

fun assoc_features :: "nat \<Rightarrow> sctp_feature list \<Rightarrow> 'k core \<Rightarrow> 'k core option" where
  "assoc_features f [] s = Some s"
| "assoc_features f (x # xs) s = do {
     k \<leftarrow> co_flows s f;
     o' \<leftarrow> co_sockets s (fo_socket k);
     s1 \<leftarrow> (case x of
         SCTP_ASSOC_SUPPORTS_PR \<Rightarrow> Some (modify_pollable (fo_socket k) (\<lambda>k. k\<lparr>sctp_partial_reliability := True\<rparr>) s)
       | SCTP_ASSOC_SUPPORTS_RE_CONFIG \<Rightarrow>
           (let s' = modify_pollable (fo_socket k) (\<lambda>k. k\<lparr>sctp_stream_reset := True\<rparr>) s
            in if sctp_neat_peer (so_socket o') then enable_multistream f s' else Some s')
       | SCTP_ASSOC_SUPPORTS_OTHER \<Rightarrow> Some s);
     assoc_features f xs s1 }"

text \<open>\<open>handle_sctp_assoc_change\<close>; the state 2 (\<open>SCTP_RESTART\<close>) is passed on as an error code.\<close>

definition handle_sctp_assoc_change :: "'k core_env \<Rightarrow> nat \<Rightarrow> sctp_sac_state \<Rightarrow> sctp_feature list \<Rightarrow> 'k core \<Rightarrow> 'k core option" where
  "handle_sctp_assoc_change env f state info s = do {
     s1 \<leftarrow> (if state = SCTP_RESTART
           then run_callback env on_network_status_changed CB_network_status_changed NEAT_ERROR_BAD_ARGUMENT (- 1) f s else Some s);
     if (state = SCTP_COMM_UP \<or> state = SCTP_RESTART) \<and> info \<noteq> [] then assoc_features f info s1 else Some s1 }"

definition handle_sctp_send_failed :: "'k core_env \<Rightarrow> nat \<Rightarrow> u32 \<Rightarrow> int \<Rightarrow> u8 list \<Rightarrow> 'k core \<Rightarrow> 'k core option" where
  "handle_sctp_send_failed env f error context unsent s =
     run_callback env on_send_failure (CB_send_failure context unsent) (sctp_to_neat_code (ucast error)) (- 1) f s"

text \<open>
  One stream of a reset event. The code reads \<open>flow->ctx\<close> before it tests the flow for null, so an
  unknown stream is an invalid access.
\<close>

definition stream_reset_close :: "'k core_env \<Rightarrow> nat \<Rightarrow> 'k core \<Rightarrow> 'k core option" where
  "stream_reset_close env f s = do {
     k \<leftarrow> co_flows s f;
     o' \<leftarrow> co_sockets s (fo_socket k);
     nt_notify_close env f (modify_pollable (fo_socket k) (\<lambda>k. k\<lparr>sctp_streams_used := sctp_streams_used k - 1\<rparr>) s) }"

definition reset_incoming :: "'k core_env \<Rightarrow> nat \<Rightarrow> u16 \<Rightarrow> 'k core \<Rightarrow> 'k core option" where
  "reset_incoming env f sid s = do {
     k \<leftarrow> co_flows s f;
     c_assert (\<not> multistream_reset_in (fo_flow k));
     let s1 = modify_flow f (\<lambda>k. k\<lparr>multistream_reset_in := True\<rparr>) s;
     if multistream_reset_out (fo_flow k) then stream_reset_close env f s1
     else run_callback env on_readable CB_readable NEAT_OK sid f s1 }"

definition reset_outgoing :: "'k core_env \<Rightarrow> nat \<Rightarrow> 'k core \<Rightarrow> 'k core option" where
  "reset_outgoing env f s = do {
     k \<leftarrow> co_flows s f;
     c_assert (\<not> multistream_reset_out (fo_flow k));
     let s1 = modify_flow f (\<lambda>k. k\<lparr>multistream_reset_out := True\<rparr>) s;
     if multistream_reset_in (fo_flow k) then stream_reset_close env f s1 else Some s1 }"

fun nt_sctp_handle_reset_stream :: "'k core_env \<Rightarrow> nat \<Rightarrow> bool \<Rightarrow> bool \<Rightarrow> u16 list \<Rightarrow> 'k core \<Rightarrow> 'k core option" where
  "nt_sctp_handle_reset_stream env sk incoming outgoing [] s = Some s"
| "nt_sctp_handle_reset_stream env sk incoming outgoing (sid # sids) s = do {
     r \<leftarrow> nt_sctp_get_flow_by_sid sk sid s;
     f \<leftarrow> r;
     s1 \<leftarrow> (if incoming then reset_incoming env f sid s else Some s);
     s2 \<leftarrow> (if outgoing then reset_outgoing env f s1 else Some s1);
     nt_sctp_handle_reset_stream env sk incoming outgoing sids s2 }"

definition SCTP_ADAPTATION_NEAT :: u32 where "SCTP_ADAPTATION_NEAT = 1207"

definition handle_sctp_event :: "'k core_env \<Rightarrow> nat \<Rightarrow> sctp_notification \<Rightarrow> 'k core \<Rightarrow> (read_status \<times> 'k core) option" where
  "handle_sctp_event env f notfn s = do {
     k \<leftarrow> co_flows s f;
     o' \<leftarrow> co_sockets s (fo_socket k);
     let s1 = modify_pollable (fo_socket k) (\<lambda>k. k\<lparr>sctp_notification_recvd := True\<rparr>) s;
     case notfn of
       SCTP_ASSOC_CHANGE state info \<Rightarrow> do { s2 \<leftarrow> handle_sctp_assoc_change env f state info s1; Some (READ_OK, s2) }
     | SCTP_SEND_FAILED error context unsent \<Rightarrow> do { s2 \<leftarrow> handle_sctp_send_failed env f error context unsent s1; Some (READ_OK, s2) }
     | SCTP_SHUTDOWN_EVENT \<Rightarrow>
         Some (READ_WITH_ZERO, modify_flow f (\<lambda>k. k\<lparr>eofSeen := True, readBufferMsgComplete := True\<rparr>) s1)
     | SCTP_ADAPTATION_INDICATION ind \<Rightarrow>
         if ind = SCTP_ADAPTATION_NEAT
         then (let s2 = modify_pollable (fo_socket k) (\<lambda>k. k\<lparr>sctp_neat_peer := True\<rparr>) s1
               in if sctp_stream_reset (so_socket o') then do { s3 \<leftarrow> enable_multistream f s2; Some (READ_OK, s3) }
                  else Some (READ_OK, s2))
         else Some (READ_OK, s1)
     | SCTP_STREAM_RESET_EVENT incoming outgoing sids \<Rightarrow> do {
         s2 \<leftarrow> nt_sctp_handle_reset_stream env (fo_socket k) incoming outgoing sids s1;
         Some (READ_OK, s2) }
     | _ \<Rightarrow> Some (READ_OK, s1) }"

section \<open>Connecting, writing and shutting down\<close>

definition io_connected :: "'k core_env \<Rightarrow> nat \<Rightarrow> neat_error_code \<Rightarrow> 'k core \<Rightarrow> 'k core option" where
  "io_connected env f code s = do {
     k \<leftarrow> co_flows s f;
     o' \<leftarrow> co_sockets s (fo_socket k);
     let s1 = (if stack (so_socket o') = NEAT_STACK_SCTP
               then (case world_call (ce_sctp_status env (fd (so_socket o'))) s of (r, s') \<Rightarrow>
                       modify_pollable (fo_socket k)
                         (\<lambda>k. k\<lparr>sctp_streams_available := (case r of None \<Rightarrow> 1 | Some (_, outstrms) \<Rightarrow> min outstrms outstrms)\<rparr>) s')
               else s);
     let s2 = modify_flow f (\<lambda>k. k\<lparr>operations := (operations k)\<lparr>transport_protocol := stack (so_socket o')\<rparr>,
                                    flow_state := NEAT_FLOW_OPEN\<rparr>) s1;
     run_callback env on_connected CB_connected code (- 1) f s2 }"

fun all_closed :: "nat list \<Rightarrow> 'k core \<Rightarrow> bool option" where
  "all_closed [] s = Some True"
| "all_closed (g # gs) s = do {
     k \<leftarrow> co_flows s g;
     if flow_state (fo_flow k) \<noteq> NEAT_FLOW_CLOSED then Some False else all_closed gs s }"

definition nt_shutdown_via_kernel :: "'k core_env \<Rightarrow> nat \<Rightarrow> 'k core \<Rightarrow> (neat_error_code \<times> 'k core) option" where
  "nt_shutdown_via_kernel env f s = do {
     k \<leftarrow> co_flows s f;
     o' \<leftarrow> co_sockets s (fo_socket k);
     if multistream (so_socket o') \<and> fo_multistream_shutdown k then Some (NEAT_OK, s)
     else do {
       s1 \<leftarrow> (if multistream (so_socket o')
             then nt_sctp_reset_stream env (fo_socket k) (multistream_id (fo_flow k)) (modify_flow_obj f (\<lambda>k. k\<lparr>fo_multistream_shutdown := True\<rparr>) s)
             else Some s);
       closed \<leftarrow> (if multistream (so_socket o') then all_closed (sctp_multistream_flows (so_socket o')) s1 else Some True);
       if \<not> closed then Some (NEAT_OK, s1)
       else (case world_call (ce_shutdown env (fd (so_socket o'))) s1 of (rc, s2) \<Rightarrow>
               Some (if rc = 0 then NEAT_OK else NEAT_ERROR_IO, s2)) } }"

definition core_shutdown :: "'k core_env \<Rightarrow> nat \<Rightarrow> 'k core \<Rightarrow> (neat_error_code \<times> 'k core) option" where
  "core_shutdown env f s = do {
     k \<leftarrow> co_flows s f;
     let s1 = modify_flow f (\<lambda>k. k\<lparr>isClosing := True\<rparr>) s;
     if isDraining (fo_flow k) then Some (NEAT_OK, s1) else nt_shutdown_via_kernel env f s1 }"

text \<open>\<open>io_writable\<close>: buffered data is sent first; the application is told when there is none.\<close>

definition drain_flow :: "'k core_env \<Rightarrow> nat \<Rightarrow> 'k core \<Rightarrow> (neat_error_code \<times> 'k core) option" where
  "drain_flow env f s = do {
     k \<leftarrow> co_flows s f;
     o' \<leftarrow> co_sockets s (fo_socket k);
     (code, flow, w) \<leftarrow> nt_write_flush (ce_sendmsg env) (so_socket o') (co_world s) (fo_flow k);
     Some (code, modify_flow f (\<lambda>_. flow) (s\<lparr>co_world := w\<rparr>)) }"

definition core_all_written :: "'k core_env \<Rightarrow> nat \<Rightarrow> 'k core \<Rightarrow> 'k core option" where
  "core_all_written env f s = do {
     k \<leftarrow> co_flows s f;
     if notifyDrainPending (fo_flow k)
     then run_callback env on_all_written CB_all_written NEAT_OK (- 1) f
            (if on_all_written (operations (fo_flow k)) then modify_flow f (\<lambda>k. k\<lparr>notifyDrainPending := False\<rparr>) s else s)
     else Some s }"

definition io_writable :: "'k core_env \<Rightarrow> nat \<Rightarrow> neat_error_code \<Rightarrow> 'k core \<Rightarrow> 'k core option" where
  "io_writable env f code s = do {
     k \<leftarrow> co_flows s f;
     (failed, s1) \<leftarrow>
       (if isDraining (fo_flow k)
        then do {
          (code, s1) \<leftarrow> drain_flow env f s;
          if code \<noteq> NEAT_OK \<and> code \<noteq> NEAT_ERROR_WOULD_BLOCK
          then do {
            s2 \<leftarrow> run_callback env on_aborted CB_aborted NEAT_OK (- 1) f s1;
            s3 \<leftarrow> run_callback env on_error CB_error code (- 1) f s2;
            Some (True, s3) }
          else Some (False, s1) }
        else do { s1 \<leftarrow> run_callback env on_writable CB_writable code (- 1) f s; Some (False, s1) });
     if failed then Some s1
     else do {
       k1 \<leftarrow> co_flows s1 f;
       if isDraining (fo_flow k1) then Some s1
       else if isClosing (fo_flow k1) then do { (_, s2) \<leftarrow> core_shutdown env f s1; Some s2 }
       else core_all_written env f s1 } }"

section \<open>Updating the poll handle\<close>

definition core_update_poll :: "nat \<Rightarrow> nat option \<Rightarrow> 'k core \<Rightarrow> 'k core option" where
  "core_update_poll sk flow s = do {
     o' \<leftarrow> co_sockets s sk;
     fs \<leftarrow> (if multistream (so_socket o') then Some (sctp_multistream_flows (so_socket o')) else do { f \<leftarrow> flow; Some [f] });
     ks \<leftarrow> those (map (co_flows s) fs);
     case nt_update_poll_handle (so_handle o' \<noteq> UV_UNKNOWN_HANDLE \<and> so_handle o' \<noteq> UV_CLOSING) (so_socket o') (map fo_flow ks) of
       (_, None) \<Rightarrow> Some s
     | (flows, Some (readable, writable)) \<Rightarrow>
         Some (modify_socket_obj sk (\<lambda>k. k\<lparr>so_handle := (if readable \<or> writable then UV_POLLING else UV_STOPPED)\<rparr>)
                (fold (\<lambda>(f, flow). modify_flow f (\<lambda>_. flow)) (zip fs flows) s)) }"

section \<open>The callback of the event loop\<close>

text \<open>\<open>LIST_NEXT\<close>.\<close>

fun list_next :: "nat \<Rightarrow> nat list \<Rightarrow> nat option" where
  "list_next f [] = None"
| "list_next f (x # xs) = (if x = f then (case xs of [] \<Rightarrow> None | y # _ \<Rightarrow> Some y) else list_next f xs)"

text \<open>
  The loop over the flows of the socket. The reader is \<open>io_readable\<close>. The result is the value of the
  variable \<open>flow\<close> after the loop. The next flow is read before the callbacks run.
\<close>

partial_function (option) poll_flows ::
  "'k core_env \<Rightarrow> (nat \<Rightarrow> nat \<Rightarrow> 'k core \<Rightarrow> (read_status \<times> 'k core) option) \<Rightarrow> nat \<Rightarrow> bool \<Rightarrow> bool \<Rightarrow> nat \<Rightarrow> 'k core \<Rightarrow>
   (nat option \<times> 'k core) option" where
  "poll_flows env reader sk readable writable f s = do {
     k \<leftarrow> co_flows s f;
     o' \<leftarrow> co_sockets s (fo_socket k);
     if sctp_notification_wait (so_socket o')
     then (if readable then do { (_, s1) \<leftarrow> reader f sk s; Some (Some f, s1) }
           else if sctp_notification_recvd (so_socket o')
           then Some (Some f, modify_pollable (fo_socket k) (\<lambda>k. k\<lparr>sctp_notification_wait := False\<rparr>) s)
           else Some (Some f, s))
     else do {
       let next_flow = list_next f (sctp_multistream_flows (so_socket o'));
       s1 \<leftarrow> (if writable \<and> firstWritePending (fo_flow k)
             then io_connected env f NEAT_OK (modify_flow f (\<lambda>k. k\<lparr>firstWritePending := False\<rparr>) s) else Some s);
       s2 \<leftarrow> (if writable then io_writable env f NEAT_OK s1 else Some s1);
       (result, s3) \<leftarrow> (if readable then reader f sk s2 else Some (READ_OK, s2));
       if result = READ_WITH_ZERO \<or> result = READ_WITH_ERROR then Some (Some f, s3)
       else do {
         o3 \<leftarrow> co_sockets s3 sk;
         case next_flow of
           None \<Rightarrow> Some (None, s3)
         | Some g \<Rightarrow> if multistream (so_socket o3) then poll_flows env reader sk readable writable g s3 else Some (Some g, s3) } } }"

text \<open>The loop that closes all flows of a multistreamed socket.\<close>

partial_function (option) close_streams :: "'k core_env \<Rightarrow> nat \<Rightarrow> 'k core \<Rightarrow> 'k core option" where
  "close_streams env sk s = do {
     o' \<leftarrow> co_sockets s sk;
     case sctp_multistream_flows (so_socket o') of
       [] \<Rightarrow> Some s
     | f # fs \<Rightarrow> do {
         s1 \<leftarrow> nt_notify_close env f (modify_pollable sk (\<lambda>k. k\<lparr>sctp_multistream_flows := fs\<rparr>) s);
         close_streams env sk s1 } }"

definition poll_error :: "'k core_env \<Rightarrow> nat \<Rightarrow> nat \<Rightarrow> 'k core \<Rightarrow> 'k core option" where
  "poll_error env sk f s = do {
     k \<leftarrow> co_flows s f;
     o' \<leftarrow> co_sockets s sk;
     ofl \<leftarrow> co_sockets s (fo_socket k);
     let internal_error = run_callback env on_error CB_error NEAT_ERROR_INTERNAL (- 1) f;
     if stack (so_socket o') = NEAT_STACK_TCP \<or> stack (so_socket o') = NEAT_STACK_SCTP
     then (case world_call (ce_so_error env (fd (so_socket ofl))) s of
             (None, s1) \<Rightarrow> internal_error s1
           | (Some e, s1) \<Rightarrow>
               if e = SO_ETIMEDOUT then run_callback env on_timeout CB_timeout NEAT_OK (- 1) f s1
               else if e = SO_ECONNRESET \<or> e = SO_EPIPE
               then do { s2 \<leftarrow> run_callback env on_aborted CB_aborted NEAT_OK (- 1) f s1; internal_error s2 }
               else internal_error s1)
     else internal_error s }"

text \<open>The end of the callback: a closed socket is taken down, otherwise the events are registered again.\<close>

definition poll_finish :: "'k core_env \<Rightarrow> nat \<Rightarrow> nat option \<Rightarrow> 'k core \<Rightarrow> 'k core option" where
  "poll_finish env sk flow s = do {
     o' \<leftarrow> co_sockets s sk;
     if is_closed (so_socket o')
     then (let s1 = (if so_handle o' = UV_CLOSING then s else modify_socket_obj sk (\<lambda>k. k\<lparr>so_handle := UV_STOPPED\<rparr>) s)
           in if multistream (so_socket o') then close_streams env sk s1
              else do {
                f \<leftarrow> flow;
                s2 \<leftarrow> nt_close_socket env f s1;
                nt_notify_close env f s2 })
     else core_update_poll sk (so_flow o') s }"

text \<open>
  \<open>uvpollable_cb\<close>, on the functions that accept a connection and read. The flow of a multistreamed
  socket is the first of its list.
\<close>

definition poll_event ::
  "'k core_env \<Rightarrow> (nat \<Rightarrow> nat \<Rightarrow> 'k core \<Rightarrow> (nat option \<times> 'k core) option) \<Rightarrow>
   (nat \<Rightarrow> nat \<Rightarrow> 'k core \<Rightarrow> (read_status \<times> 'k core) option) \<Rightarrow> nat \<Rightarrow> int \<Rightarrow> bool \<Rightarrow> bool \<Rightarrow> 'k core \<Rightarrow> 'k core option" where
  "poll_event env acceptor reader sk status readable writable s = do {
     o' \<leftarrow> co_sockets s sk;
     c_assert (multistream (so_socket o') \<longrightarrow> sctp_multistream_flows (so_socket o') \<noteq> []);
     let first = (if multistream (so_socket o') then Some (hd (sctp_multistream_flows (so_socket o'))) else so_flow o');
     f \<leftarrow> first;
     k \<leftarrow> co_flows s f;
     if readable \<and> \<not> multistream (so_socket o') \<and> acceptPending (fo_flow k)
     then (if stack (so_socket o') = NEAT_STACK_UDP \<or> stack (so_socket o') = NEAT_STACK_UDPLITE
           then do { (_, s1) \<leftarrow> reader f sk s; Some s1 }
           else do { (_, s1) \<leftarrow> acceptor f sk s; Some s1 })
     else if status < 0
     then (if multistream (so_socket o') then Some s else poll_error env sk f s)
     else do {
       (flow, s1) \<leftarrow> poll_flows env reader sk readable writable f s;
       poll_finish env sk flow s1 } }"

text \<open>Without events neither of the two functions is called.\<close>

definition poll_no_event :: "'k core_env \<Rightarrow> nat \<Rightarrow> 'k core \<Rightarrow> 'k core option" where
  "poll_no_event env sk s = poll_event env (\<lambda>_ _ _. None) (\<lambda>_ _ _. None) sk 0 False False s"

section \<open>Accepting\<close>

text \<open>\<open>nt_sctp_init_events\<close>: one asserted call for each of the eight types of events.\<close>

definition sctp_event_types :: "int list" where
  "sctp_event_types = map int [0..<8]"

fun nt_sctp_init_events :: "'k core_env \<Rightarrow> int list \<Rightarrow> int \<Rightarrow> 'k core \<Rightarrow> 'k core option" where
  "nt_sctp_init_events env [] d s = Some s"
| "nt_sctp_init_events env (t # ts) d s = do {
     let (rc, s1) = world_call (ce_setsockopt env ''SCTP_EVENT'' d [t, 1]) s;
     c_assert (rc \<ge> 0);
     nt_sctp_init_events env ts d s1 }"

text \<open>What the new flow takes from the listening flow and the listening socket; properties and certificates are left out.\<close>

definition accepted_flow :: "flow_obj \<Rightarrow> flow_obj \<Rightarrow> flow_obj" where
  "accepted_flow l k = k\<lparr>fo_name := fo_name l, fo_port := fo_port l, fo_everConnected := True, fo_isServer := True,
     fo_isMultihoming := fo_isMultihoming l, fo_userData := fo_userData l,
     fo_flow := (fo_flow k)\<lparr>security_needed := security_needed (fo_flow l), eofSeen := False,
       operations := (operations (fo_flow k))
         \<lparr>on_connected := on_connected (operations (fo_flow l)), on_readable := on_readable (operations (fo_flow l)),
          on_writable := on_writable (operations (fo_flow l)), on_close := on_close (operations (fo_flow l)),
          on_error := on_error (operations (fo_flow l))\<rparr>\<rparr>\<rparr>"

definition accepted_socket :: "nat \<Rightarrow> socket_obj \<Rightarrow> socket_obj \<Rightarrow> socket_obj" where
  "accepted_socket lsk l k = k\<lparr>so_listen_socket := Some lsk, so_src_sockaddr := so_src_sockaddr l, so_dst_sockaddr := so_dst_sockaddr l,
     so_type := so_type l, so_family := so_family l,
     so_socket := (so_socket k)\<lparr>stack := stack (so_socket l), write_limit := write_limit (so_socket l), write_size := write_size (so_socket l),
       read_size := read_size (so_socket l), sctp_explicit_eor := sctp_explicit_eor (so_socket l)\<rparr>\<rparr>"

text \<open>The end of every branch: the handle is set up, the application is told and the events are registered.\<close>

definition accept_connected :: "'k core_env \<Rightarrow> nat \<Rightarrow> nat \<Rightarrow> 'k core \<Rightarrow> 'k core option" where
  "accept_connected env f sk s = do {
     s1 \<leftarrow> io_connected env f NEAT_OK s;
     k \<leftarrow> co_flows s1 f;
     poll_no_event env (fo_socket k) s1 }"

definition init_handle :: "nat \<Rightarrow> 'k core \<Rightarrow> 'k core" where
  "init_handle sk s = modify_socket_obj sk (\<lambda>k. k\<lparr>so_handle := UV_STOPPED\<rparr>) s"

definition accept_failed :: "'k core_env \<Rightarrow> nat \<Rightarrow> 'k core \<Rightarrow> (nat option \<times> 'k core) option" where
  "accept_failed env f s = do { s1 \<leftarrow> nt_free_flow env f s; Some (None, s1) }"

definition install_server_security :: "'k core_env \<Rightarrow> nat \<Rightarrow> nat \<Rightarrow> 'k core \<Rightarrow> 'k core option" where
  "install_server_security env l f s =
     (case ce_security_install env f s of (code, s1) \<Rightarrow>
        if code \<noteq> NEAT_OK then run_callback env on_error CB_error NEAT_ERROR_SECURITY (- 1) l s1 else Some s1)"

definition accept_sctp :: "'k core_env \<Rightarrow> nat \<Rightarrow> nat \<Rightarrow> int \<Rightarrow> 'k core \<Rightarrow> (nat option \<times> 'k core) option" where
  "accept_sctp env f sk lfd s =
     (case world_call (ce_accept env lfd) s of (d, s1) \<Rightarrow>
        let s2 = modify_pollable sk (\<lambda>k. k\<lparr>fd := d\<rparr>) s1
        in if d = - 1 then accept_failed env f s2
           else do {
             s3 \<leftarrow> nt_sctp_init_events env sctp_event_types d s2;
             s4 \<leftarrow> accept_connected env f sk (init_handle sk s3);
             k \<leftarrow> co_flows s4 f;
             o' \<leftarrow> co_sockets s4 (fo_socket k);
             let s5 = snd (world_call (ce_setsockopt env ''SCTP_RECVRCVINFO'' (fd (so_socket o')) [1]) s4);
             Some (Some f, snd (world_call (ce_setsockopt env ''SCTP_RECVNXTINFO'' (fd (so_socket o')) [1]) s5)) })"

definition accept_datagram :: "'k core_env \<Rightarrow> nat \<Rightarrow> nat \<Rightarrow> nat \<Rightarrow> 'k core \<Rightarrow> (nat option \<times> 'k core) option" where
  "accept_datagram env l f sk s = do {
     o' \<leftarrow> co_sockets s sk;
     k \<leftarrow> co_flows s f;
     let (d, s1) = world_call (ce_socket env (so_family o') (so_type o') (if stack (so_socket o') = NEAT_STACK_UDP then IPPROTO_UDP else IPPROTO_UDPLITE)) s;
     let s2 = modify_pollable sk (\<lambda>k. k\<lparr>fd := d\<rparr>) s1;
     if d = - 1 then accept_failed env f s2
     else do {
       s3 \<leftarrow> (if stack (so_socket o') = NEAT_STACK_UDP \<and> security_needed (fo_flow k) then install_server_security env l f s2 else Some s2);
       let s4 = snd (world_call (ce_setsockopt env ''SO_REUSEADDR'' d [1]) s3);
       let s5 = snd (world_call (ce_setsockopt env ''SO_REUSEPORT'' d [1]) s4);
       let (b, s6) = world_call (ce_bind env d (so_src_sockaddr o')) s5;
       if b < 0 then Some (None, s6)
       else (case world_call (ce_connect env d (so_dst_sockaddr o')) s6 of (c, s7) \<Rightarrow>
               if c \<noteq> CONNECTED then Some (None, s7)
               else do {
                 s8 \<leftarrow> accept_connected env f sk (init_handle sk (modify_flow_obj f (\<lambda>k. k\<lparr>fo_everConnected := True\<rparr>) s7));
                 Some (Some f, s8) }) } }"

definition accept_stream :: "'k core_env \<Rightarrow> nat \<Rightarrow> nat \<Rightarrow> nat \<Rightarrow> int \<Rightarrow> 'k core \<Rightarrow> (nat option \<times> 'k core) option" where
  "accept_stream env l f sk lfd s =
     (case world_call (ce_accept env lfd) s of (d, s1) \<Rightarrow>
        let s2 = modify_pollable sk (\<lambda>k. k\<lparr>fd := d\<rparr>) s1
        in if d = - 1 then accept_failed env f s2
           else do {
             o' \<leftarrow> co_sockets s2 sk;
             k \<leftarrow> co_flows s2 f;
             let s3 = init_handle sk s2;
             let (ok, s4) = (if d > 0 then world_call (ce_getpeername env d) s3 else (True, s3));
             c_assert ok;
             let s5 = modify_flow f (\<lambda>k. k\<lparr>acceptPending := False\<rparr>) s4;
             s6 \<leftarrow> (if security_needed (fo_flow k) \<and> stack (so_socket o') = NEAT_STACK_TCP
                   then install_server_security env l f s5 else accept_connected env f sk s5);
             Some (Some f, s6) })"

definition accept_streams_available :: "'k core_env \<Rightarrow> nat option \<times> 'k core \<Rightarrow> (nat option \<times> 'k core) option" where
  "accept_streams_available env r = (case r of
      (None, s) \<Rightarrow> Some (None, s)
    | (Some f, s) \<Rightarrow> do {
        k \<leftarrow> co_flows s f;
        o' \<leftarrow> co_sockets s (fo_socket k);
        Some (Some f, if stack (so_socket o') = NEAT_STACK_SCTP
          then (case world_call (ce_sctp_status env (fd (so_socket o'))) s of (r, s1) \<Rightarrow>
                  modify_pollable (fo_socket k)
                    (\<lambda>k. k\<lparr>sctp_streams_available := (case r of None \<Rightarrow> 1 | Some (instrms, outstrms) \<Rightarrow> min instrms outstrms)\<rparr>) s1)
          else s) })"

definition do_accept :: "'k core_env \<Rightarrow> nat \<Rightarrow> nat \<Rightarrow> 'k core \<Rightarrow> (nat option \<times> 'k core) option" where
  "do_accept env l lsk s =
     (case neat_new_flow env s of
        (None, s1) \<Rightarrow> do { s2 \<leftarrow> run_callback env on_error CB_error NEAT_ERROR_OUT_OF_MEMORY (- 1) l s1; Some (None, s2) }
      | (Some f, s1) \<Rightarrow>
          (case world_call (ce_malloc env 1) s1 of
             (False, s2) \<Rightarrow> do { s3 \<leftarrow> run_callback env on_error CB_error NEAT_ERROR_OUT_OF_MEMORY (- 1) f s2; Some (None, s3) }
           | (True, s2) \<Rightarrow> do {
               kl \<leftarrow> co_flows s2 l;
               ol \<leftarrow> co_sockets s2 lsk;
               k \<leftarrow> co_flows s2 f;
               let sk = fo_socket k;
               let s3 = modify_socket_obj sk (accepted_socket lsk ol) (modify_flow_obj f (accepted_flow kl) s2);
               r \<leftarrow> (case stack (so_socket ol) of
                   NEAT_STACK_SCTP_UDP \<Rightarrow> accept_sctp env f sk (fd (so_socket ol)) s3
                 | NEAT_STACK_SCTP \<Rightarrow> accept_sctp env f sk (fd (so_socket ol)) s3
                 | NEAT_STACK_UDP \<Rightarrow> accept_datagram env l f sk s3
                 | NEAT_STACK_UDPLITE \<Rightarrow> accept_datagram env l f sk s3
                 | _ \<Rightarrow> accept_stream env l f sk (fd (so_socket ol)) s3);
               accept_streams_available env r }))"

section \<open>Looking up flows by address\<close>

text \<open>\<open>memcmp\<close> up to the sign.\<close>

fun memcmp :: "u8 list \<Rightarrow> u8 list \<Rightarrow> int" where
  "memcmp (x # xs) (y # ys) = (if x < y then - 1 else if y < x then 1 else memcmp xs ys)"
| "memcmp _ _ = 0"

fun ss_family :: "sockaddr_storage \<Rightarrow> nat" where
  "ss_family (SS_INET _ _) = 2"
| "ss_family (SS_INET6 _ _ _ _) = 10"
| "ss_family (SS_OTHER n) = n"

text \<open>The macro \<open>CMP\<close>; what follows it is the last argument.\<close>

definition CMP :: "'a::linorder \<Rightarrow> 'a \<Rightarrow> int option \<Rightarrow> int option" where
  "CMP a b rest = (if a \<noteq> b then Some (if a < b then - 1 else 1) else rest)"

text \<open>\<open>sockaddr_storage_cmp\<close>; the port of an IPv6 address is compared with itself.\<close>

definition sockaddr_storage_cmp :: "sockaddr_storage \<Rightarrow> sockaddr_storage \<Rightarrow> int option" where
  "sockaddr_storage_cmp a b =
     CMP (ss_family a) (ss_family b)
       (case (a, b) of
          (SS_INET pa xa, SS_INET pb xb) \<Rightarrow> CMP pa pb (CMP xa xb (Some 0))
        | (SS_INET6 pa fa sa xa, SS_INET6 pb fb sb xb) \<Rightarrow> CMP pa pa (CMP fa fb (CMP sa sb (Some (memcmp xa xb))))
        | _ \<Rightarrow> None)"

fun find_flow :: "nat list \<Rightarrow> sockaddr_storage \<Rightarrow> sockaddr_storage \<Rightarrow> 'k core \<Rightarrow> nat option option" where
  "find_flow [] src dst s = Some None"
| "find_flow (f # fs) src dst s = do {
     k \<leftarrow> co_flows s f;
     o' \<leftarrow> co_sockets s (fo_socket k);
     if acceptPending (fo_flow k) then find_flow fs src dst s
     else do {
       d \<leftarrow> sockaddr_storage_cmp (so_dst_sockaddr o') dst;
       if d \<noteq> 0 then find_flow fs src dst s
       else do {
         c \<leftarrow> sockaddr_storage_cmp (so_src_sockaddr o') src;
         if c \<noteq> 0 then find_flow fs src dst s else Some (Some f) } } }"

definition nt_find_flow :: "sockaddr_storage \<Rightarrow> sockaddr_storage \<Rightarrow> 'k core \<Rightarrow> nat option option" where
  "nt_find_flow src dst s = find_flow (co_flow_list s) src dst s"

section \<open>Reading\<close>

definition core_resize :: "'k core_env \<Rightarrow> nat \<Rightarrow> 'k core \<Rightarrow> (read_status \<times> 'k core) option" where
  "core_resize env f s = do {
     k \<leftarrow> co_flows s f;
     o' \<leftarrow> co_sockets s (fo_socket k);
     let (ok, s1) = world_call (ce_malloc env (space_threshold (so_socket o'))) s;
     let (r, flow) = resize_read_buffer ok (so_socket o') (fo_flow k);
     Some (r, modify_flow f (\<lambda>_. flow) s1) }"

text \<open>Handing a datagram that came in on a listening socket to the flow of its sender.\<close>

definition udp_hand_over ::
  "'k core_env \<Rightarrow> (nat \<Rightarrow> nat \<Rightarrow> 'k core \<Rightarrow> (read_status \<times> 'k core) option) \<Rightarrow> nat \<Rightarrow> nat \<Rightarrow> sockaddr_storage \<Rightarrow> nat \<Rightarrow> 'k core \<Rightarrow>
   (read_status \<times> 'k core) option" where
  "udp_hand_over env again f sk peer n s = do {
     let s0 = modify_flow f (\<lambda>k. k\<lparr>readBufferMsgComplete := False\<rparr>) s;
     o' \<leftarrow> co_sockets s0 sk;
     found \<leftarrow> nt_find_flow (so_src_sockaddr o') peer s0;
     (newFlow, s1) \<leftarrow> (case found of
         Some g \<Rightarrow> Some (Some g, s0)
       | None \<Rightarrow> do_accept env f sk (modify_socket_obj sk (\<lambda>k. k\<lparr>so_dst_sockaddr := peer\<rparr>) s0));
     g \<leftarrow> newFlow;
     (r, s2) \<leftarrow> core_resize env g s1;
     if r \<noteq> READ_OK then Some (READ_WITH_ERROR, s2)
     else do {
       k \<leftarrow> co_flows s2 f;
       kg \<leftarrow> co_flows s2 g;
       mem \<leftarrow> memcpy_at (readBuffer (fo_flow kg)) 0 (take n (readBuffer (fo_flow k)));
       let s3 = modify_flow g (\<lambda>k. k\<lparr>readBufferSize := n, readBufferMsgComplete := True, readBuffer := mem, acceptPending := False\<rparr>) s2;
       (_, s4) \<leftarrow> again g (fo_socket kg) s3;
       Some (READ_WITH_ZERO, s4) } }"

text \<open>
  The part of \<open>io_readable\<close> for UDP. The result is the status, if the function returns there, and the
  variable \<open>n\<close>.
\<close>

definition udp_receive ::
  "'k core_env \<Rightarrow> (nat \<Rightarrow> nat \<Rightarrow> 'k core \<Rightarrow> (read_status \<times> 'k core) option) \<Rightarrow> nat \<Rightarrow> nat \<Rightarrow> 'k core \<Rightarrow>
   (read_status option \<times> int \<times> 'k core) option" where
  "udp_receive env again f sk s = do {
     (r, s1) \<leftarrow> core_resize env f s;
     k \<leftarrow> co_flows s1 f;
     o' \<leftarrow> co_sockets s1 sk;
     if r \<noteq> READ_OK \<or> \<not> acceptPending (fo_flow k) \<and> \<not> on_readable (operations (fo_flow k)) then Some (Some READ_WITH_ERROR, 0, s1)
     else (case world_call (\<lambda>w. case ce_recvfrom env (fd (so_socket o')) (readBufferAllocation (fo_flow k)) w of (d, p, w') \<Rightarrow> ((d, p), w')) s1 of
         ((None, _), s2) \<Rightarrow> Some (Some READ_WITH_ERROR, 0, s2)
       | ((Some data, peer), s2) \<Rightarrow> do {
           mem \<leftarrow> memcpy_at (readBuffer (fo_flow k)) 0 data;
           let s3 = modify_flow f (\<lambda>k. k\<lparr>readBuffer := mem, readBufferSize := length data, readBufferMsgComplete := (data \<noteq> [])\<rparr>) s2;
           if data = [] then Some (Some READ_WITH_ZERO, 0, s3)
           else if acceptPending (fo_flow k)
           then do { (r, s4) \<leftarrow> udp_hand_over env again f sk peer (length data) s3; Some (Some r, int (length data), s4) }
           else Some (None, int (length data), s3) }) }"

text \<open>A message on a stream that no flow has yet: a new flow of the listening socket. The message itself is dropped.\<close>

definition stream_flow :: "nat \<Rightarrow> u16 \<Rightarrow> flow_obj \<Rightarrow> flow_obj \<Rightarrow> flow_obj" where
  "stream_flow sk sid l k = k\<lparr>fo_name := fo_name l, fo_port := fo_port l, fo_everConnected := True, fo_socket := sk, fo_isServer := True,
     fo_userData := fo_userData l,
     fo_flow := (fo_flow k)\<lparr>multistream_id := sid, flow_state := NEAT_FLOW_OPEN,
       operations := (operations (fo_flow k))
         \<lparr>on_connected := on_connected (operations (fo_flow l)), on_readable := on_readable (operations (fo_flow l)),
          on_writable := on_writable (operations (fo_flow l)), on_close := on_close (operations (fo_flow l)),
          on_error := on_error (operations (fo_flow l))\<rparr>\<rparr>\<rparr>"

definition open_stream_flow :: "'k core_env \<Rightarrow> nat \<Rightarrow> nat \<Rightarrow> u16 \<Rightarrow> 'k core \<Rightarrow> (read_status \<times> 'k core) option" where
  "open_stream_flow env f sk sid s = do {
     k \<leftarrow> co_flows s f;
     o' \<leftarrow> co_sockets s (fo_socket k);
     lsk \<leftarrow> so_listen_socket o';
     ol \<leftarrow> co_sockets s lsk;
     case neat_new_flow env s of
       (None, s1) \<Rightarrow> Some (READ_WITH_ERROR, s1)
     | (Some g, s1) \<Rightarrow> do {
         l \<leftarrow> so_flow ol;
         kl \<leftarrow> co_flows s1 l;
         let (ok, s2) = world_call (ce_malloc env 1) s1;
         if \<not> ok then Some (READ_WITH_ERROR, s2)
         else do {
           let s3 = modify_flow_obj g (stream_flow sk sid kl) s2;
           let s4 = modify_pollable (fo_socket k) (\<lambda>k. k\<lparr>sctp_multistream_flows := g # sctp_multistream_flows k\<rparr>) s3;
           let s5 = modify_pollable sk (\<lambda>k. k\<lparr>sctp_streams_used := sctp_streams_used k + 1\<rparr>) s4;
           c_assert (on_connected (operations (fo_flow kl)));
           Some (READ_OK, ce_app env CB_connected g s5) } } }"

text \<open>
  A message for a flow of a multistreamed socket is queued. The callback structure that is prepared is
  the one of the flow the event loop looked at. A failed allocation returns \<open>NEAT_ERROR_UNABLE\<close>, which no
  caller tells from \<open>READ_OK\<close>.
\<close>

definition queue_message :: "'k core_env \<Rightarrow> nat \<Rightarrow> nat \<Rightarrow> u16 \<Rightarrow> u8 list \<Rightarrow> 'k core \<Rightarrow> (read_status \<times> 'k core) option" where
  "queue_message env f sk sid data s = do {
     r \<leftarrow> nt_sctp_get_flow_by_sid sk sid s;
     g \<leftarrow> r;
     let (ok, s1) = world_call (ce_malloc env 1) s;
     if \<not> ok then Some (READ_OK, s1)
     else do {
       let s2 = modify_flow g (\<lambda>k. k\<lparr>multistream_read_queue := multistream_read_queue k @ [data]\<rparr>) s1;
       kg \<leftarrow> co_flows s2 g;
       Some (READ_OK, if on_readable (operations (fo_flow kg))
                      then ce_app env CB_readable g (modify_flow f (ready_callback NEAT_OK sid) s2) else s2) } }"

text \<open>Data for a socket with one flow goes into the read buffer behind what is there.\<close>

definition append_message :: "nat \<Rightarrow> recv_result \<Rightarrow> 'k core \<Rightarrow> (read_status option \<times> 'k core) option" where
  "append_message f m s = do {
     k \<leftarrow> co_flows s f;
     mem \<leftarrow> memcpy_at (readBuffer (fo_flow k)) (readBufferSize (fo_flow k)) (rm_data m);
     let complete = (readBufferMsgComplete (fo_flow k) \<or> rm_eor m \<or> rm_n m = 0);
     let s1 = modify_flow f (\<lambda>k. k\<lparr>readBuffer := mem, readBufferSize := readBufferSize k + length (rm_data m),
                                   readBufferMsgComplete := complete\<rparr>) s;
     Some (if \<not> complete \<and> preserveMessageBoundaries (fo_flow k) then Some READ_WITH_ERROR else None, s1) }"

text \<open>What follows \<open>recvmsg\<close> on an SCTP socket.\<close>

definition sctp_message :: "'k core_env \<Rightarrow> nat \<Rightarrow> nat \<Rightarrow> recv_result \<Rightarrow> 'k core \<Rightarrow> (read_status option \<times> 'k core) option" where
  "sctp_message env f sk m s = do {
     let s1 = (if rm_n m = 0 then modify_flow f (\<lambda>k. k\<lparr>eofSeen := True\<rparr>) s else s);
     let return = (\<lambda>(r, s). (Some r, s));
     if rm_notification m
     then (if \<not> rm_eor m then Some (Some READ_WITH_ERROR, s1)
           else map_option return (handle_sctp_event env f (rm_event m) s1))
     else do {
       let s2 = modify_pollable sk (\<lambda>k. k\<lparr>sctp_notification_wait := False\<rparr>) s1;
       o' \<leftarrow> co_sockets s2 sk;
       known \<leftarrow> (if rm_sid m > 0 \<and> sctp_neat_peer (so_socket o') then nt_sctp_get_flow_by_sid sk (of_int (rm_sid m)) s2 else Some (Some f));
       if known = None then map_option return (open_stream_flow env f sk (of_int (rm_sid m)) s2)
       else if multistream (so_socket o') \<and> rm_n m > 0
       then map_option return (queue_message env f sk (of_int (rm_sid m)) (rm_data m) s2)
       else append_message f m s2 } }"

definition sctp_receive :: "'k core_env \<Rightarrow> nat \<Rightarrow> nat \<Rightarrow> 'k core \<Rightarrow> (read_status option \<times> int \<times> int \<times> 'k core) option" where
  "sctp_receive env f sk s = do {
     o' \<leftarrow> co_sockets s sk;
     (r, s1) \<leftarrow> core_resize env f s;
     if r \<noteq> READ_OK then Some (Some READ_WITH_ERROR, 0, - 1, s1)
     else do {
       (r, s2) \<leftarrow> (if multistream (so_socket o')
            then Some (case world_call (ce_malloc env (read_size (so_socket o'))) s1 of (ok, s') \<Rightarrow>
                         (if ok then READ_OK else READ_WITH_ERROR, s'))
            else core_resize env f s1);
       if r \<noteq> READ_OK then Some (Some READ_WITH_ERROR, 0, - 1, s2)
       else do {
         k \<leftarrow> co_flows s2 f;
         let room = (if multistream (so_socket o') then read_size (so_socket o')
                     else readBufferAllocation (fo_flow k) - readBufferSize (fo_flow k));
         let (m, s3) = world_call (ce_recvmsg env (fd (so_socket o')) room) s2;
         if rm_n m < 0 then Some (Some READ_WITH_ERROR, rm_n m, - 1, s3)
         else do {
           (r, s4) \<leftarrow> sctp_message env f sk m s3;
           Some (r, rm_n m, rm_sid m, s4) } } } }"

text \<open>The end of \<open>io_readable\<close>: a closed connection is noted, otherwise the application is told.\<close>

definition io_deliver :: "'k core_env \<Rightarrow> nat \<Rightarrow> nat \<Rightarrow> int \<Rightarrow> int \<Rightarrow> 'k core \<Rightarrow> (read_status \<times> 'k core) option" where
  "io_deliver env f sk n sid s = do {
     k \<leftarrow> co_flows s f;
     o' \<leftarrow> co_sockets s sk;
     ofl \<leftarrow> co_sockets s (fo_socket k);
     let (n1, s1) = (if stack (so_socket o') = NEAT_STACK_TCP then world_call (ce_peek env (fd (so_socket ofl))) s else (n, s));
     if stack (so_socket o') = NEAT_STACK_TCP \<and> n1 \<le> 0 \<or>
        stack (so_socket o') = NEAT_STACK_SCTP \<and> n1 = 0 \<and> readBufferSize (fo_flow k) = 0
     then Some (READ_WITH_ZERO, modify_pollable sk (\<lambda>k. k\<lparr>is_closed := True\<rparr>) s1)
     else do { s2 \<leftarrow> run_callback env on_readable CB_readable NEAT_OK (of_int sid) f s1; Some (READ_OK, s2) } }"

definition io_readable_with ::
  "'k core_env \<Rightarrow> (nat \<Rightarrow> nat \<Rightarrow> 'k core \<Rightarrow> (read_status \<times> 'k core) option) \<Rightarrow> nat \<Rightarrow> nat \<Rightarrow> 'k core \<Rightarrow> (read_status \<times> 'k core) option" where
  "io_readable_with env again f sk s = do {
     k \<leftarrow> co_flows s f;
     o' \<leftarrow> co_sockets s sk;
     let udp = (stack (so_socket o') = NEAT_STACK_UDP \<or> stack (so_socket o') = NEAT_STACK_UDPLITE);
     if \<not> on_readable (operations (fo_flow k)) \<and> acceptPending (fo_flow k) \<and> \<not> udp then Some (READ_WITH_ERROR, s)
     else do {
       (r, n, s1) \<leftarrow> (if udp \<and> \<not> readBufferMsgComplete (fo_flow k) then udp_receive env again f sk s else Some (None, 0, s));
       case r of
         Some st \<Rightarrow> Some (st, s1)
       | None \<Rightarrow> do {
           (r, n, sid, s2) \<leftarrow> (if stack (so_socket o') = NEAT_STACK_SCTP \<and>
                   (\<not> readBufferMsgComplete (fo_flow k) \<or> multistream (so_socket o'))
                then sctp_receive env f sk s1 else Some (None, n, - 1, s1));
           case r of
             Some st \<Rightarrow> Some (st, s2)
           | None \<Rightarrow> io_deliver env f sk n sid s2 } } }"

text \<open>The recursive call is made for a flow that has a complete message, and makes none itself.\<close>

definition io_readable :: "'k core_env \<Rightarrow> nat \<Rightarrow> nat \<Rightarrow> 'k core \<Rightarrow> (read_status \<times> 'k core) option" where
  "io_readable env = io_readable_with env (io_readable_with env (\<lambda>_ _ _. None))"

definition uvpollable_cb :: "'k core_env \<Rightarrow> nat \<Rightarrow> int \<Rightarrow> bool \<Rightarrow> bool \<Rightarrow> 'k core \<Rightarrow> 'k core option" where
  "uvpollable_cb env = poll_event env (do_accept env) (io_readable env)"

section \<open>Opening a flow on an existing association\<close>

text \<open>The flow becomes a flow of the socket; the number of streams in use becomes its stream.\<close>

definition he_join :: "nat \<Rightarrow> nat \<Rightarrow> 'k core \<Rightarrow> (u16 \<times> 'k core) option" where
  "he_join f sk s = do {
     o' \<leftarrow> co_sockets s sk;
     let used = sctp_streams_used (so_socket o') + 1;
     let s1 = modify_pollable sk (\<lambda>k. k\<lparr>sctp_multistream_flows := f # sctp_multistream_flows k, sctp_streams_used := used\<rparr>) s;
     let s2 = modify_flow f (\<lambda>k. k\<lparr>multistream_id := used, isPolling := True, firstWritePending := True\<rparr>) s1;
     Some (used, modify_flow_obj f (\<lambda>k. k\<lparr>fo_everConnected := True, fo_socket := sk\<rparr>) s2) }"

text \<open>
  The part of \<open>nt_he_open\<close> for multistreaming: a flow with an SCTP candidate joins an association to the
  same host and its candidates are freed. \<^const>\<open>False\<close> means that the function goes on with the connection attempts.
\<close>

definition he_open_stream :: "'k core_env \<Rightarrow> nat \<Rightarrow> nat list \<Rightarrow> 'k core \<Rightarrow> (bool \<times> 'k core) option" where
  "he_open_stream env f candidates s = do {
     k \<leftarrow> co_flows s f;
     multistream_probe \<leftarrow> any_sctp candidates s;
     let s1 = modify_flow_obj f (\<lambda>k. k\<lparr>fo_candidates := candidates\<rparr>) s;
     if \<not> multistream_probe then Some (False, s1)
     else do {
       found \<leftarrow> nt_find_multistream_socket f s1;
       case found of
         Some sk \<Rightarrow> do {
           (used, s2) \<leftarrow> he_join f sk s1;
           s3 \<leftarrow> nt_free_candidates env candidates (modify_flow_obj f (\<lambda>k. k\<lparr>fo_candidates := []\<rparr>) s2);
           (_, s4) \<leftarrow> nt_sctp_open_stream env sk used s3;
           s5 \<leftarrow> uvpollable_cb env sk 0 False True s4;
           Some (True, s5) }
       | None \<Rightarrow> do {
           wait \<leftarrow> (if fo_multistream_check k then Some False else nt_wait_for_multistream_socket f s1);
           if wait
           then (case world_call (ce_malloc env 1) s1 of (ok, s2) \<Rightarrow> do {
                   c_assert ok;
                   Some (True, modify_flow_obj f (\<lambda>k. k\<lparr>fo_multistream_check := True, fo_multistream_timer := True\<rparr>) s2) })
           else Some (False, s1) } } }"

end
