(* ===== verification/Stream_Demux.thy ===== *)
theory Stream_Demux
  imports Core_Streams
begin

text \<open>
  Receiving on a multistreamed socket: every message goes to the flow of its stream, in order, and a
  message on an unknown stream opens a flow. The contracts of the application, the allocator and the
  kernel are predicates on the environment; what the application has read from the queue of a flow is
  recorded by the parameter \<open>delivered\<close>, what the kernel still holds by \<open>held\<close>.
\<close>

section \<open>Updates of the store\<close>

lemma modify_flow_simps [simp]:
  "co_flows (modify_flow f u s) = (co_flows s)(f := map_option (\<lambda>k. k\<lparr>fo_flow := u (fo_flow k)\<rparr>) (co_flows s f))"
  "co_sockets (modify_flow f u s) = co_sockets s" "co_world (modify_flow f u s) = co_world s"
  "co_flow_list (modify_flow f u s) = co_flow_list s" "co_candidates (modify_flow f u s) = co_candidates s"
  by (simp_all add: modify_flow_def)

lemma modify_flow_obj_simps [simp]:
  "co_flows (modify_flow_obj f v s) = (co_flows s)(f := map_option v (co_flows s f))"
  "co_sockets (modify_flow_obj f v s) = co_sockets s" "co_world (modify_flow_obj f v s) = co_world s"
  "co_flow_list (modify_flow_obj f v s) = co_flow_list s" "co_candidates (modify_flow_obj f v s) = co_candidates s"
  by (simp_all add: modify_flow_obj_def)

lemma modify_pollable_simps [simp]:
  "co_sockets (modify_pollable sk u s) = (co_sockets s)(sk := map_option (\<lambda>k. k\<lparr>so_socket := u (so_socket k)\<rparr>) (co_sockets s sk))"
  "co_flows (modify_pollable sk u s) = co_flows s" "co_world (modify_pollable sk u s) = co_world s"
  "co_flow_list (modify_pollable sk u s) = co_flow_list s" "co_candidates (modify_pollable sk u s) = co_candidates s"
  by (simp_all add: modify_pollable_def)

lemma modify_socket_obj_simps [simp]:
  "co_sockets (modify_socket_obj sk v s) = (co_sockets s)(sk := map_option v (co_sockets s sk))"
  "co_flows (modify_socket_obj sk v s) = co_flows s" "co_world (modify_socket_obj sk v s) = co_world s"
  "co_flow_list (modify_socket_obj sk v s) = co_flow_list s" "co_candidates (modify_socket_obj sk v s) = co_candidates s"
  by (simp_all add: modify_socket_obj_def)

lemma modify_candidate_simps [simp]:
  "co_candidates (modify_candidate c u s) = (co_candidates s)(c := map_option u (co_candidates s c))"
  "co_flows (modify_candidate c u s) = co_flows s" "co_sockets (modify_candidate c u s) = co_sockets s"
  "co_world (modify_candidate c u s) = co_world s" "co_flow_list (modify_candidate c u s) = co_flow_list s"
  by (simp_all add: modify_candidate_def)

lemma free_candidate_simps [simp]:
  "co_candidates (free_candidate c s) = (co_candidates s)(c := None)" "co_flows (free_candidate c s) = co_flows s"
  "co_sockets (free_candidate c s) = co_sockets s" "co_world (free_candidate c s) = co_world s" "co_flow_list (free_candidate c s) = co_flow_list s"
  by (simp_all add: free_candidate_def)

lemma world_call_simps [simp]:
  "fst (world_call c s) = fst (c (co_world s))" "snd (world_call c s) = s\<lparr>co_world := snd (c (co_world s))\<rparr>"
  by (simp_all add: world_call_def split: prod.split)

lemma world_call_eq: "world_call c s = (fst (c (co_world s)), s\<lparr>co_world := snd (c (co_world s))\<rparr>)"
  by (simp add: world_call_def split: prod.split)

section \<open>The calls that do not recur\<close>

text \<open>\<open>io_readable\<close> makes its recursive call for a flow with a complete message; that call makes none.\<close>

lemma io_readable_no_recursion:
  assumes "co_flows s f = Some k" and "readBufferMsgComplete (fo_flow k)"
  shows "io_readable_with env again f sk s = io_readable_with env again' f sk s"
  using assms by (cases "co_sockets s sk") (simp_all add: io_readable_with_def)

text \<open>Without events the callback of the event loop neither reads nor accepts.\<close>

lemma poll_flows_no_event:
  assumes "co_sockets s sk = Some k" and "\<not> multistream (so_socket k)"
  shows "poll_flows env reader sk False False f s = poll_flows env reader' sk False False f s"
proof (cases "co_flows s f")
  case (Some kf)
  then show ?thesis using assms
    by (cases "co_sockets s (fo_socket kf)") (simp_all add: poll_flows.simps [of _ _ _ _ _ f s] split: option.split)
qed (simp add: poll_flows.simps [of _ _ _ _ _ f s])

lemma poll_event_no_event:
  assumes "co_sockets s sk = Some k" and "\<not> multistream (so_socket k)"
  shows "poll_event env acceptor reader sk 0 False False s = poll_no_event env sk s"
  using assms by (simp add: poll_event_def poll_no_event_def poll_flows_no_event [OF assms, where reader = reader and reader' = "\<lambda>_ _ _. None"])

section \<open>The streams of a socket\<close>

definition flows_of :: "nat \<Rightarrow> 'k core \<Rightarrow> nat list" where
  "flows_of sk s = (case co_sockets s sk of None \<Rightarrow> [] | Some k \<Rightarrow> sctp_multistream_flows (so_socket k))"

definition sid_of :: "'k core \<Rightarrow> nat \<Rightarrow> u16" where
  "sid_of s f = (case co_flows s f of None \<Rightarrow> 0 | Some k \<Rightarrow> multistream_id (fo_flow k))"

definition queue_of :: "'k core \<Rightarrow> nat \<Rightarrow> u8 list list" where
  "queue_of s f = (case co_flows s f of None \<Rightarrow> [] | Some k \<Rightarrow> multistream_read_queue (fo_flow k))"

text \<open>A flow that is open on a stream of the socket.\<close>

definition stream_flow_ok :: "nat \<Rightarrow> flow_obj \<Rightarrow> bool" where
  "stream_flow_ok sk k \<longleftrightarrow> fo_socket k = sk \<and> flow_state (fo_flow k) = NEAT_FLOW_OPEN \<and> \<not> acceptPending (fo_flow k)"

definition stream_socket_ok :: "socket_obj \<Rightarrow> bool" where
  "stream_socket_ok k \<longleftrightarrow> stack (so_socket k) = NEAT_STACK_SCTP \<and> multistream (so_socket k) \<and> sctp_neat_peer (so_socket k) \<and>
     distinct (sctp_multistream_flows (so_socket k)) \<and> sctp_streams_used (so_socket k) = of_nat (length (sctp_multistream_flows (so_socket k)))"

text \<open>The socket on which an association came in is listening for the application.\<close>

definition listener_ok :: "nat \<Rightarrow> 'k core \<Rightarrow> bool" where
  "listener_ok sk s \<longleftrightarrow> (\<exists>k lsk ol l kl. co_sockets s sk = Some k \<and> so_listen_socket k = Some lsk \<and> co_sockets s lsk = Some ol \<and>
     so_flow ol = Some l \<and> co_flows s l = Some kl \<and> acceptPending (fo_flow kl) \<and> on_connected (operations (fo_flow kl)))"

text \<open>The candidates a flow still has are its own, and their handles have not been freed.\<close>

definition candidate_ok :: "nat \<Rightarrow> nat \<Rightarrow> candidate_obj \<Rightarrow> bool" where
  "candidate_ok f sk ca \<longleftrightarrow> ca_flow ca = Some f \<and> ca_handle ca \<noteq> HANDLE_FREED \<and> (\<forall>a. ca_handle ca = HANDLE_OF_SOCKET a \<longrightarrow> a = sk)"

definition candidates_ok :: "'k core \<Rightarrow> nat \<Rightarrow> bool" where
  "candidates_ok s f \<longleftrightarrow> (\<forall>k. co_flows s f = Some k \<longrightarrow> distinct (fo_candidates k) \<and>
     (\<forall>c \<in> set (fo_candidates k). \<exists>ca. co_candidates s c = Some ca \<and> candidate_ok f (fo_socket k) ca))"

text \<open>The invariant of a multistreamed socket, and the one of a server, where flows come in.\<close>

definition assoc_ok :: "nat \<Rightarrow> 'k core \<Rightarrow> bool" where
  "assoc_ok sk s \<longleftrightarrow> (\<exists>k. co_sockets s sk = Some k \<and> stream_socket_ok k) \<and>
     (\<forall>f \<in> set (flows_of sk s). (\<exists>k. co_flows s f = Some k \<and> stream_flow_ok sk k) \<and> candidates_ok s f) \<and> inj_on (sid_of s) (set (flows_of sk s)) \<and>
     finite (dom (co_flows s)) \<and> finite (dom (co_sockets s))"

definition streams_ok :: "nat \<Rightarrow> 'k core \<Rightarrow> bool" where
  "streams_ok sk s \<longleftrightarrow> assoc_ok sk s \<and> listener_ok sk s"

lemma streams_ok_assoc: "streams_ok sk s \<Longrightarrow> assoc_ok sk s"
  by (simp add: streams_ok_def)

lemma find_sid_find:
  "(\<And>f. f \<in> set fs \<Longrightarrow> co_flows s f \<noteq> None) \<Longrightarrow> find_sid fs sid s = Some (find (\<lambda>f. sid_of s f = sid) fs)"
proof (induction fs)
  case (Cons f fs)
  then obtain k where "co_flows s f = Some k" by fastforce
  with Cons show ?case by (simp add: sid_of_def)
qed simp

lemma get_flow_by_sid:
  assumes "assoc_ok sk s"
  shows "nt_sctp_get_flow_by_sid sk sid s = Some (find (\<lambda>f. sid_of s f = sid) (flows_of sk s))"
proof -
  from assms obtain k where k: "co_sockets s sk = Some k" "multistream (so_socket k)" by (auto simp: streams_ok_def assoc_ok_def stream_socket_ok_def)
  then have "flows_of sk s = sctp_multistream_flows (so_socket k)" by (simp add: flows_of_def)
  moreover have "find_sid (flows_of sk s) sid s = Some (find (\<lambda>f. sid_of s f = sid) (flows_of sk s))"
    by (rule find_sid_find) (use assms in \<open>auto simp: streams_ok_def assoc_ok_def\<close>)
  ultimately show ?thesis using k by (simp add: nt_sctp_get_flow_by_sid_def)
qed

section \<open>Steps that leave the streams alone\<close>

definition same_flow :: "flow_obj \<Rightarrow> flow_obj \<Rightarrow> bool" where
  "same_flow k k' \<longleftrightarrow> fo_socket k' = fo_socket k \<and> multistream_id (fo_flow k') = multistream_id (fo_flow k) \<and>
     flow_state (fo_flow k') = flow_state (fo_flow k) \<and> acceptPending (fo_flow k') = acceptPending (fo_flow k) \<and>
     on_connected (operations (fo_flow k')) = on_connected (operations (fo_flow k)) \<and> fo_candidates k' = fo_candidates k"

definition same_socket :: "socket_obj \<Rightarrow> socket_obj \<Rightarrow> bool" where
  "same_socket k k' \<longleftrightarrow> so_flow k' = so_flow k \<and> so_listen_socket k' = so_listen_socket k \<and> stack (so_socket k') = stack (so_socket k) \<and>
     multistream (so_socket k') = multistream (so_socket k) \<and> sctp_neat_peer (so_socket k') = sctp_neat_peer (so_socket k) \<and>
     sctp_streams_used (so_socket k') = sctp_streams_used (so_socket k) \<and> read_size (so_socket k') = read_size (so_socket k) \<and>
     sctp_multistream_flows (so_socket k') = sctp_multistream_flows (so_socket k)"

text \<open>
  What has been received for a flow is what the application has read and what is queued. A quiet step
  keeps this for every flow, the structure of flows and sockets, and what the kernel holds.
\<close>

definition quiet :: "('k \<Rightarrow> nat \<Rightarrow> u8 list list) \<Rightarrow> ('k \<Rightarrow> 'm) \<Rightarrow> 'k core \<Rightarrow> 'k core \<Rightarrow> bool" where
  "quiet delivered held s s' \<longleftrightarrow> (\<forall>f. rel_option same_flow (co_flows s f) (co_flows s' f)) \<and>
     (\<forall>a. rel_option same_socket (co_sockets s a) (co_sockets s' a)) \<and> co_candidates s' = co_candidates s \<and> held (co_world s') = held (co_world s) \<and>
     (\<forall>f. delivered (co_world s') f @ queue_of s' f = delivered (co_world s) f @ queue_of s f)"

definition contents :: "('k \<Rightarrow> nat \<Rightarrow> u8 list list) \<Rightarrow> nat \<Rightarrow> 'k core \<Rightarrow> u16 \<Rightarrow> u8 list list option" where
  "contents delivered sk s sid =
     map_option (\<lambda>f. delivered (co_world s) f @ queue_of s f) (find (\<lambda>f. sid_of s f = sid) (flows_of sk s))"

lemma same_flow_refl [simp]: "same_flow k k" by (simp add: same_flow_def)
lemma same_socket_refl [simp]: "same_socket k k" by (simp add: same_socket_def)

lemma rel_option_same_refl [simp]: "rel_option same_flow x x" "rel_option same_socket y y"
  by (simp_all add: option.rel_refl)

lemma quiet_refl [simp]: "quiet d p s s" by (simp add: quiet_def)

lemma rel_same_trans:
  "rel_option same_flow a b \<Longrightarrow> rel_option same_flow b c \<Longrightarrow> rel_option same_flow a c"
  "rel_option same_socket x y \<Longrightarrow> rel_option same_socket y z \<Longrightarrow> rel_option same_socket x z"
  by (cases a; cases b; cases c; simp add: same_flow_def) (cases x; cases y; cases z; simp add: same_socket_def)

lemma quiet_trans [trans]:
  assumes "quiet d p s s1" and "quiet d p s1 s2" shows "quiet d p s s2"
  using assms unfolding quiet_def by (auto intro: rel_same_trans)

lemma quiet_rel:
  "quiet d p s s' \<Longrightarrow> rel_option same_flow (co_flows s f) (co_flows s' f)"
  "quiet d p s s' \<Longrightarrow> rel_option same_socket (co_sockets s a) (co_sockets s' a)"
  by (simp_all add: quiet_def)

lemma quietD:
  assumes "quiet d p s s'"
  shows "co_flows s f = Some k \<Longrightarrow> \<exists>k'. co_flows s' f = Some k' \<and> same_flow k k'"
    and "co_sockets s a = Some o' \<Longrightarrow> \<exists>o''. co_sockets s' a = Some o'' \<and> same_socket o' o''"
    and "co_flows s f = None \<Longrightarrow> co_flows s' f = None"
proof -
  assume "co_flows s f = Some k"
  then show "\<exists>k'. co_flows s' f = Some k' \<and> same_flow k k'" using assms unfolding quiet_def by (metis option_rel_Some1)
next
  assume "co_sockets s a = Some o'"
  then show "\<exists>o''. co_sockets s' a = Some o'' \<and> same_socket o' o''" using assms unfolding quiet_def by (metis option_rel_Some1)
next
  assume "co_flows s f = None"
  then show "co_flows s' f = None" using assms unfolding quiet_def by (metis rel_option_None1)
qed

lemma quiet_dom:
  assumes "quiet d p s s'" shows "dom (co_flows s') = dom (co_flows s)" "dom (co_sockets s') = dom (co_sockets s)"
proof -
  have "(co_flows s' f = None) = (co_flows s f = None)" "(co_sockets s' f = None) = (co_sockets s f = None)" for f
    using assms unfolding quiet_def by (metis option.rel_sel option.rel_distinct)+
  then show "dom (co_flows s') = dom (co_flows s)" "dom (co_sockets s') = dom (co_sockets s)" by (simp_all add: dom_def)
qed

lemma quiet_sid_of: "quiet d p s s' \<Longrightarrow> sid_of s' f = sid_of s f"
  by (cases "co_flows s f") (auto simp: sid_of_def same_flow_def dest: quietD)

lemma quiet_flows_of: "quiet d p s s' \<Longrightarrow> flows_of sk s' = flows_of sk s"
  unfolding quiet_def flows_of_def by (erule conjE, drule spec [of _ sk], erule conjE, drule spec [of _ sk])
     (auto simp: same_socket_def elim: option.rel_cases split: option.splits)

lemma quiet_contents: "quiet d p s s' \<Longrightarrow> contents d sk s' = contents d sk s"
  by (rule ext) (simp add: contents_def quiet_flows_of quiet_sid_of, simp add: quiet_def)

lemma quiet_held: "quiet d p s s' \<Longrightarrow> p (co_world s') = p (co_world s)"
  by (simp add: quiet_def)

lemma quiet_listener_ok:
  assumes "quiet d p s s'" and "listener_ok sk s" shows "listener_ok sk s'"
proof -
  from assms(2) obtain k lsk ol l kl where
    l: "co_sockets s sk = Some k" "so_listen_socket k = Some lsk" "co_sockets s lsk = Some ol" "so_flow ol = Some l" "co_flows s l = Some kl"
      "on_connected (operations (fo_flow kl))" "acceptPending (fo_flow kl)" by (auto simp: listener_ok_def)
  from quietD(2) [OF assms(1) l(1)] quietD(2) [OF assms(1) l(3)] quietD(1) [OF assms(1) l(5)] obtain k' ol' kl' where
    "co_sockets s' sk = Some k'" "same_socket k k'" "co_sockets s' lsk = Some ol'" "same_socket ol ol'" "co_flows s' l = Some kl'" "same_flow kl kl'"
    by blast
  with l show ?thesis by (auto simp: listener_ok_def same_socket_def same_flow_def)
qed

lemma candidates_ok_modify_flow [simp]: "candidates_ok (modify_flow g u s) f = candidates_ok s f"
  by (cases "co_flows s f") (auto simp: candidates_ok_def)

lemma quiet_candidates_ok:
  assumes "quiet d p s s'" and "candidates_ok s f" shows "candidates_ok s' f"
  unfolding candidates_ok_def
proof (intro allI impI)
  fix k' assume k': "co_flows s' f = Some k'"
  then obtain k where k: "co_flows s f = Some k" using quietD(3) [OF assms(1), of f] by (cases "co_flows s f") auto
  have "same_flow k k'" using quietD(1) [OF assms(1) k] k' by auto
  moreover have "co_candidates s' = co_candidates s" using assms(1) by (simp add: quiet_def)
  ultimately show "distinct (fo_candidates k') \<and> (\<forall>c \<in> set (fo_candidates k'). \<exists>ca. co_candidates s' c = Some ca \<and> candidate_ok f (fo_socket k') ca)"
    using assms(2) k by (simp add: candidates_ok_def same_flow_def)
qed

lemma quiet_assoc_ok:
  assumes "quiet d p s s'" and "assoc_ok sk s" shows "assoc_ok sk s'"
proof -
  from assms(2) obtain k where k: "co_sockets s sk = Some k" "stream_socket_ok k" by (auto simp: assoc_ok_def)
  from quietD(2) [OF assms(1) k(1)] k(2) have 1: "\<exists>k'. co_sockets s' sk = Some k' \<and> stream_socket_ok k'"
    by (auto simp: same_socket_def stream_socket_ok_def)
  have 2: "\<exists>k'. co_flows s' f = Some k' \<and> stream_flow_ok sk k'" if "f \<in> set (flows_of sk s)" for f
    using assms that quietD(1) [OF assms(1), of f] by (fastforce simp: assoc_ok_def same_flow_def stream_flow_ok_def)
  have "inj_on (sid_of s') (set (flows_of sk s))" using assms by (simp add: assoc_ok_def quiet_sid_of [OF assms(1)] inj_on_def)
  with 1 2 assms(2) show ?thesis
    by (simp add: assoc_ok_def quiet_flows_of [OF assms(1)] quiet_dom [OF assms(1)] quiet_candidates_ok [OF assms(1)])
qed

lemma quiet_streams_ok: "quiet d p s s' \<Longrightarrow> streams_ok sk s \<Longrightarrow> streams_ok sk s'"
  by (simp add: streams_ok_def quiet_assoc_ok quiet_listener_ok)

text \<open>Single steps.\<close>

lemma quiet_world:
  assumes "p w = p (co_world s)" and "\<And>f. d w f = d (co_world s) f" shows "quiet d p s (s\<lparr>co_world := w\<rparr>)"
  using assms by (simp add: quiet_def queue_of_def)

lemma quiet_modify_flow:
  assumes "\<And>k. co_flows s f = Some k \<Longrightarrow> same_flow k (k\<lparr>fo_flow := u (fo_flow k)\<rparr>) \<and> multistream_read_queue (u (fo_flow k)) = multistream_read_queue (fo_flow k)"
  shows "quiet d p s (modify_flow f u s)"
  using assms by (auto simp: quiet_def queue_of_def option.rel_map split: option.splits intro: option.rel_refl_strong)

lemma quiet_modify_pollable:
  assumes "\<And>k. co_sockets s sk = Some k \<Longrightarrow> same_socket k (k\<lparr>so_socket := u (so_socket k)\<rparr>)"
  shows "quiet d p s (modify_pollable sk u s)"
  using assms by (auto simp: quiet_def queue_of_def option.rel_map intro: option.rel_refl_strong)

section \<open>Contracts of the environment\<close>

text \<open>The application may read from its flows and do what it likes besides, but it does not close or open flows in the callback; setting
  the options of a socket changes nothing that has been received.\<close>

definition app_quiet :: "'k core_env \<Rightarrow> ('k \<Rightarrow> nat \<Rightarrow> u8 list list) \<Rightarrow> ('k \<Rightarrow> 'm) \<Rightarrow> bool" where
  "app_quiet env d p \<longleftrightarrow> (\<forall>cb f s. quiet d p s (ce_app env cb f s)) \<and>
     (\<forall>n x v w. p (snd (ce_setsockopt env n x v w)) = p w \<and> d (snd (ce_setsockopt env n x v w)) = d w)"

text \<open>Memory is not short: \<open>malloc\<close> succeeds and \<open>calloc\<close> gives an address that is not in use.\<close>

definition memory_ok :: "'k core_env \<Rightarrow> ('k \<Rightarrow> nat \<Rightarrow> u8 list list) \<Rightarrow> ('k \<Rightarrow> 'm) \<Rightarrow> bool" where
  "memory_ok env d p \<longleftrightarrow> (\<forall>n w. \<exists>w'. ce_malloc env n w = (True, w') \<and> p w' = p w \<and> d w' = d w) \<and>
     (\<forall>used w. finite (Collect used) \<longrightarrow> (\<exists>a w'. ce_calloc env used w = (Some a, w') \<and> \<not> used a \<and> p w' = p w \<and> d w' = d w))"

text \<open>The kernel delivers the messages that it holds, each with its stream, when there is room.\<close>

definition kernel_ok :: "'k core_env \<Rightarrow> ('k \<Rightarrow> nat \<Rightarrow> u8 list list) \<Rightarrow> ('k \<Rightarrow> (u16 \<times> u8 list) list) \<Rightarrow> bool" where
  "kernel_ok env d p \<longleftrightarrow> (\<forall>w sid data ms n x. p w = (sid, data) # ms \<longrightarrow> length data \<le> n \<longrightarrow>
     (\<exists>r w'. ce_recvmsg env x n w = (r, w') \<and> rm_n r = int (length data) \<and> rm_data r = data \<and> rm_sid r = uint sid \<and>
        \<not> rm_notification r \<and> p w' = ms \<and> d w' = d w))"

text \<open>Nothing has been read from a flow that does not exist.\<close>

definition unread_fresh :: "('k \<Rightarrow> nat \<Rightarrow> u8 list list) \<Rightarrow> 'k core \<Rightarrow> bool" where
  "unread_fresh d s \<longleftrightarrow> (\<forall>f. co_flows s f = None \<longrightarrow> d (co_world s) f = [])"

lemma quiet_unread_fresh: "quiet d p s s' \<Longrightarrow> unread_fresh d s \<Longrightarrow> unread_fresh d s'"
  unfolding unread_fresh_def
proof (intro allI impI)
  fix f assume q: "quiet d p s s'" and u: "\<forall>f. co_flows s f = None \<longrightarrow> d (co_world s) f = []" and n: "co_flows s' f = None"
  have "co_flows s f = None" using quiet_dom(1) [OF q] n by blast
  moreover have "d (co_world s') f @ queue_of s' f = d (co_world s) f @ queue_of s f" using q by (simp add: quiet_def)
  ultimately show "d (co_world s') f = []" using u n by (simp add: queue_of_def)
qed

lemma memory_okD:
  assumes "memory_ok env d p"
  shows "\<exists>w'. ce_malloc env n w = (True, w') \<and> p w' = p w \<and> d w' = d w"
    and "finite (Collect used) \<Longrightarrow> \<exists>a w'. ce_calloc env used w = (Some a, w') \<and> \<not> used a \<and> p w' = p w \<and> d w' = d w"
  using assms unfolding memory_ok_def by simp_all

lemma malloc_quiet:
  assumes "memory_ok env d p"
  shows "\<exists>s'. world_call (ce_malloc env n) s = (True, s') \<and> quiet d p s s' \<and> co_sockets s' = co_sockets s \<and> co_flows s' = co_flows s"
proof -
  from assms obtain w' where "ce_malloc env n (co_world s) = (True, w')" "p w' = p (co_world s)" "d w' = d (co_world s)"
    unfolding memory_ok_def by blast
  then show ?thesis by (intro exI [of _ "s\<lparr>co_world := w'\<rparr>"]) (simp add: world_call_def quiet_world)
qed

lemma calloc_quiet:
  assumes "memory_ok env d p" and "finite (Collect used)"
  shows "\<exists>a s'. world_call (ce_calloc env used) s = (Some a, s') \<and> \<not> used a \<and> quiet d p s s' \<and> co_sockets s' = co_sockets s \<and>
     co_flows s' = co_flows s \<and> co_flow_list s' = co_flow_list s"
proof -
  from assms obtain a w' where "ce_calloc env used (co_world s) = (Some a, w')" "\<not> used a" "p w' = p (co_world s)" "d w' = d (co_world s)"
    unfolding memory_ok_def by blast
  then show ?thesis by (intro exI [of _ a] exI [of _ "s\<lparr>co_world := w'\<rparr>"]) (simp add: world_call_def quiet_world)
qed

text \<open>The directions of the stream of a flow that have been reset.\<close>

definition resets_of :: "'k core \<Rightarrow> nat \<Rightarrow> (bool \<times> bool) option" where
  "resets_of s f = map_option (\<lambda>k. (multistream_reset_in (fo_flow k), multistream_reset_out (fo_flow k))) (co_flows s f)"

lemma core_resize_quiet:
  assumes "memory_ok env d p" and "co_flows s f = Some k" and "co_sockets s (fo_socket k) = Some o'"
  shows "\<exists>s'. core_resize env f s = Some (READ_OK, s') \<and> quiet d p s s' \<and> resets_of s' = resets_of s"
proof -
  from malloc_quiet [OF assms(1), of "space_threshold (so_socket o')" s] obtain s1 where
    s1: "world_call (ce_malloc env (space_threshold (so_socket o'))) s = (True, s1)" "quiet d p s s1" "co_sockets s1 = co_sockets s"
      "co_flows s1 = co_flows s" by blast
  have "\<exists>flow. resize_read_buffer True (so_socket o') (fo_flow k) = (READ_OK, flow) \<and>
    same_flow k (k\<lparr>fo_flow := flow\<rparr>) \<and> multistream_read_queue flow = multistream_read_queue (fo_flow k) \<and>
    multistream_reset_in flow = multistream_reset_in (fo_flow k) \<and> multistream_reset_out flow = multistream_reset_out (fo_flow k)"
    by (simp add: resize_read_buffer_def same_flow_def Let_def)
  then obtain flow where r: "resize_read_buffer True (so_socket o') (fo_flow k) = (READ_OK, flow)"
    "same_flow k (k\<lparr>fo_flow := flow\<rparr>)" "multistream_read_queue flow = multistream_read_queue (fo_flow k)"
    "multistream_reset_in flow = multistream_reset_in (fo_flow k)" "multistream_reset_out flow = multistream_reset_out (fo_flow k)" by blast
  have "quiet d p s1 (modify_flow f (\<lambda>_. flow) s1)"
    by (rule quiet_modify_flow) (use r(2,3) s1(4) assms(2) in auto)
  moreover have "resets_of (modify_flow f (\<lambda>_. flow) s1) = resets_of s" using s1(4) assms(2) r(4,5) by (auto simp: resets_of_def)
  ultimately show ?thesis using quiet_trans [OF s1(2)] assms(2,3) s1 r(1) by (simp add: core_resize_def)
qed

lemma new_flow_quiet:
  assumes "memory_ok env d p" and "finite (dom (co_flows s))" and "finite (dom (co_sockets s))"
  shows "\<exists>g a s1. neat_new_flow env s = (Some g, s1\<lparr>co_flows := (co_flows s)(g \<mapsto> fresh_flow a), co_sockets := (co_sockets s)(a \<mapsto> fresh_socket g),
       co_flow_list := g # co_flow_list s\<rparr>) \<and> co_flows s g = None \<and> co_sockets s a = None \<and>
     p (co_world s1) = p (co_world s) \<and> d (co_world s1) = d (co_world s) \<and> co_candidates s1 = co_candidates s"
proof -
  let ?used = "\<lambda>a. co_flows s a \<noteq> None \<or> co_sockets s a \<noteq> None"
  have fin: "finite (Collect ?used)"
    by (rule finite_subset [of _ "dom (co_flows s) \<union> dom (co_sockets s)"]) (use assms in auto)
  from memory_okD(2) [OF assms(1) fin, of "co_world s"] obtain g w1 where
    g: "ce_calloc env ?used (co_world s) = (Some g, w1)" "\<not> ?used g" "p w1 = p (co_world s)" "d w1 = d (co_world s)" by (elim exE conjE) (rule that)
  have "finite (Collect (\<lambda>a. a = g \<or> ?used a))" using fin by (simp add: Collect_disj_eq)
  from memory_okD(2) [OF assms(1) this, of w1] obtain a w2 where
    a: "ce_calloc env (\<lambda>a. a = g \<or> ?used a) w1 = (Some a, w2)" "\<not> (a = g \<or> ?used a)" "p w2 = p w1" "d w2 = d w1" by (elim exE conjE) (rule that)
  from memory_okD(1) [OF assms(1), of 1 w2] obtain w3 where m: "ce_malloc env 1 w2 = (True, w3)" "p w3 = p w2" "d w3 = d w2" by blast
  show ?thesis using g a m
    by (intro exI [of _ g] exI [of _ a] exI [of _ "s\<lparr>co_world := w3\<rparr>"]) (simp add: neat_new_flow_def world_call_def)
qed

text \<open>The messages the socket can take: not empty and not larger than its receive buffer.\<close>

definition msg_fits :: "nat \<Rightarrow> 'k core \<Rightarrow> u16 \<times> u8 list \<Rightarrow> bool" where
  "msg_fits sk s m \<longleftrightarrow> snd m \<noteq> [] \<and> (\<forall>k. co_sockets s sk = Some k \<longrightarrow> length (snd m) \<le> read_size (so_socket k))"

lemma msg_fits_same: "quiet d p s s' \<Longrightarrow> msg_fits sk s m \<Longrightarrow> msg_fits sk s' m"
proof -
  assume q: "quiet d p s s'" and f: "msg_fits sk s m"
  have "length (snd m) \<le> read_size (so_socket k')" if k': "co_sockets s' sk = Some k'" for k'
  proof -
    from k' quiet_dom(2) [OF q] obtain k where k: "co_sockets s sk = Some k" by blast
    with quietD(2) [OF q k] k' f show ?thesis by (auto simp: msg_fits_def same_socket_def)
  qed
  with f show ?thesis by (simp add: msg_fits_def)
qed

lemma flows_of_modify_flow [simp]: "flows_of sk (modify_flow g u s) = flows_of sk s"
  by (simp add: flows_of_def)

text \<open>The socket has at least the flows it had and takes the same messages.\<close>

definition grows :: "nat \<Rightarrow> 'k core \<Rightarrow> 'k core \<Rightarrow> bool" where
  "grows sk s s' \<longleftrightarrow> set (flows_of sk s) \<subseteq> set (flows_of sk s') \<and> (\<forall>m. msg_fits sk s m \<longrightarrow> msg_fits sk s' m)"

lemma grows_trans [trans]: "grows sk s s1 \<Longrightarrow> grows sk s1 s2 \<Longrightarrow> grows sk s s2"
  by (auto simp: grows_def)

lemma quiet_grows: "quiet d p s s' \<Longrightarrow> grows sk s s'"
  by (simp add: grows_def quiet_flows_of msg_fits_same)

lemma modify_flow_grows: "grows sk s (modify_flow g u s)"
  by (simp add: grows_def msg_fits_def)

section \<open>A message for a known stream\<close>

definition push_message :: "u8 list \<Rightarrow> neat_flow \<Rightarrow> neat_flow" where
  "push_message data k = k\<lparr>multistream_read_queue := multistream_read_queue k @ [data]\<rparr>"

lemma queue_message_ok:
  assumes "streams_ok sk s" and "memory_ok env d p" and "app_quiet env d p" and "find (\<lambda>f. sid_of s f = sid) (flows_of sk s) = Some g"
  shows "\<exists>s'. queue_message env f sk sid data s = Some (READ_OK, s') \<and> quiet d p (modify_flow g (push_message data) s) s'"
proof -
  from memory_okD(1) [OF assms(2), of 1 "co_world s"] obtain w where
    w: "ce_malloc env 1 (co_world s) = (True, w)" "p w = p (co_world s)" "d w = d (co_world s)" by blast
  let ?s = "modify_flow g (push_message data) (s\<lparr>co_world := w\<rparr>)"
  have g: "g \<in> set (flows_of sk s)" using assms(4) by (auto simp: find_Some_iff)
  then obtain k where k: "co_flows s g = Some k" using assms(1) by (auto simp: streams_ok_def assoc_ok_def)
  have eq: "?s = (modify_flow g (push_message data) s)\<lparr>co_world := w\<rparr>" by (simp add: modify_flow_def)
  have q: "quiet d p (modify_flow g (push_message data) s) ?s" unfolding eq by (rule quiet_world) (use w in simp_all)
  have r: "quiet d p ?s (modify_flow f (ready_callback NEAT_OK sid) ?s)"
    by (rule quiet_modify_flow) (simp add: ready_callback_def same_flow_def)
  have "quiet d p x (ce_app env CB_readable g x)" for x using assms(3) by (simp add: app_quiet_def)
  with quiet_trans [OF q r] q show ?thesis using k w(1)
    by (auto simp: queue_message_def get_flow_by_sid [OF streams_ok_assoc [OF assms(1)]] assms(4) world_call_def push_message_def [abs_def] Let_def intro: quiet_trans)
qed

lemma sid_of_push: "sid_of (modify_flow g (push_message data) s) f = sid_of s f"
  by (simp add: sid_of_def push_message_def split: option.split)

lemma push_streams_ok:
  assumes "streams_ok sk s" shows "streams_ok sk (modify_flow g (push_message data) s)"
proof -
  have "listener_ok sk (modify_flow g (push_message data) s)" using assms unfolding streams_ok_def assoc_ok_def listener_ok_def
    by (fastforce simp: push_message_def)
  moreover have "\<exists>k'. co_flows (modify_flow g (push_message data) s) f = Some k' \<and> stream_flow_ok sk k'" if "f \<in> set (flows_of sk s)" for f
    using assms that by (fastforce simp: streams_ok_def assoc_ok_def stream_flow_ok_def push_message_def)
  moreover have "finite (dom (co_flows (modify_flow g (push_message data) s)))"
    by (rule finite_subset [of _ "dom (co_flows s)"]) (use assms in \<open>auto simp: streams_ok_def assoc_ok_def split: if_splits\<close>)
  ultimately show ?thesis using assms by (simp add: streams_ok_def assoc_ok_def sid_of_push inj_on_def)
qed

lemma push_contents:
  assumes "streams_ok sk s" and "find (\<lambda>f. sid_of s f = sid) (flows_of sk s) = Some g"
  shows "\<exists>q. contents d sk s sid = Some q \<and> contents d sk (modify_flow g (push_message data) s) = (contents d sk s)(sid \<mapsto> q @ [data])"
proof -
  have g: "g \<in> set (flows_of sk s)" "sid_of s g = sid" using assms(2) by (auto simp: find_Some_iff)
  then obtain k where k: "co_flows s g = Some k" using assms(1) by (auto simp: streams_ok_def assoc_ok_def)
  have q: "queue_of (modify_flow g (push_message data) s) = (queue_of s)(g := queue_of s g @ [data])"
    using k by (auto simp: queue_of_def push_message_def)
  have "contents d sk (modify_flow g (push_message data) s) t = ((contents d sk s)(sid \<mapsto> d (co_world s) g @ queue_of s g @ [data])) t" for t
  proof (cases "t = sid")
    case True
    with assms(2) show ?thesis by (simp add: contents_def sid_of_push q)
  next
    case False
    have "f \<noteq> g" if "find (\<lambda>f. sid_of s f = t) (flows_of sk s) = Some f" for f
      using that False g(2) by (auto simp: find_Some_iff)
    with False show ?thesis by (auto simp: contents_def sid_of_push q intro!: map_option_cong)
  qed
  with assms(2) show ?thesis by (auto simp: contents_def)
qed

section \<open>A message on a new stream\<close>

lemma open_stream_flow_ok:
  assumes ok: "streams_ok sk s" and mem: "memory_ok env d p" and app: "app_quiet env d p" and unread: "unread_fresh d s"
    and none: "find (\<lambda>f. sid_of s f = sid) (flows_of sk s) = None" and f: "f \<in> set (flows_of sk s)"
  shows "\<exists>s'. open_stream_flow env f sk sid s = Some (READ_OK, s') \<and> streams_ok sk s' \<and> unread_fresh d s' \<and> p (co_world s') = p (co_world s) \<and>
     contents d sk s' = (contents d sk s)(sid \<mapsto> []) \<and> grows sk s s'"
proof -
  from ok f obtain k where k: "co_flows s f = Some k" "fo_socket k = sk" by (auto simp: streams_ok_def assoc_ok_def stream_flow_ok_def)
  from ok obtain os lsk ol l kl where
    l: "co_sockets s sk = Some os" "so_listen_socket os = Some lsk" "co_sockets s lsk = Some ol" "so_flow ol = Some l" "co_flows s l = Some kl"
      "on_connected (operations (fo_flow kl))" "acceptPending (fo_flow kl)" by (auto simp: streams_ok_def listener_ok_def)
  have so: "stream_socket_ok os" using ok l(1) by (auto simp: streams_ok_def assoc_ok_def)
  from ok new_flow_quiet [OF mem] obtain g a s0 where
    n: "neat_new_flow env s = (Some g, s0\<lparr>co_flows := (co_flows s)(g \<mapsto> fresh_flow a), co_sockets := (co_sockets s)(a \<mapsto> fresh_socket g),
        co_flow_list := g # co_flow_list s\<rparr>)" "co_flows s g = None" "co_sockets s a = None"
      "p (co_world s0) = p (co_world s)" "d (co_world s0) = d (co_world s)" "co_candidates s0 = co_candidates s" unfolding streams_ok_def assoc_ok_def by blast
  from memory_okD(1) [OF mem, of 1 "co_world s0"] obtain w where
    w: "ce_malloc env 1 (co_world s0) = (True, w)" "p w = p (co_world s)" "d w = d (co_world s)" using n(4,5) by auto
  define kn where "kn = stream_flow sk sid kl (fresh_flow a)"
  define on where "on = os\<lparr>so_socket := (so_socket os)\<lparr>sctp_multistream_flows := g # sctp_multistream_flows (so_socket os),
     sctp_streams_used := sctp_streams_used (so_socket os) + 1\<rparr>\<rparr>"
  define s5 where "s5 = s0\<lparr>co_flow_list := g # co_flow_list s, co_world := w, co_flows := (co_flows s)(g \<mapsto> kn),
     co_sockets := (co_sockets s)(a \<mapsto> fresh_socket g, sk \<mapsto> on)\<rparr>"
  have ne: "l \<noteq> g" "a \<noteq> sk" "a \<noteq> lsk" using n(2,3) l by auto
  have run: "open_stream_flow env f sk sid s = Some (READ_OK, ce_app env CB_connected g s5)"
    using k l n(1) ne w(1) by (simp add: open_stream_flow_def world_call_def s5_def kn_def on_def modify_flow_obj_def modify_pollable_def fun_upd_twist)
  have sid: "sid_of s5 = (sid_of s)(g := sid)" by (auto simp: s5_def sid_of_def kn_def stream_flow_def)
  have queue: "queue_of s5 = (queue_of s)(g := [])" by (auto simp: s5_def queue_of_def kn_def stream_flow_def fresh_flow_def)
  have fl: "flows_of sk s5 = g # flows_of sk s" using l(1) by (simp add: s5_def flows_of_def on_def)
  have gn: "g \<notin> set (flows_of sk s)" using ok n(2) by (auto simp: streams_ok_def assoc_ok_def)
  have ids: "sid \<notin> sid_of s ` set (flows_of sk s)" using none by (auto simp: find_None_iff)
  have "streams_ok sk s5" unfolding streams_ok_def assoc_ok_def
  proof (intro conjI)
    show "\<exists>k. co_sockets s5 sk = Some k \<and> stream_socket_ok k"
      using so gn l(1) by (auto simp: s5_def on_def stream_socket_ok_def flows_of_def)
    have "l \<noteq> g \<and> (lsk = sk \<longrightarrow> ol = os)" using ne l by auto
    then show "listener_ok sk s5" unfolding listener_ok_def
      using l ne by (intro exI [of _ on] exI [of _ lsk] exI [of _ "if lsk = sk then on else ol"] exI [of _ l] exI [of _ kl])
        (auto simp: s5_def on_def)
    have "candidates_ok s5 f" if "f \<in> set (flows_of sk s5)" for f
      using ok that gn unfolding candidates_ok_def fl by (auto simp: s5_def n(6) streams_ok_def assoc_ok_def candidates_ok_def kn_def stream_flow_def fresh_flow_def)
    moreover have "\<exists>k. co_flows s5 f = Some k \<and> stream_flow_ok sk k" if "f \<in> set (flows_of sk s5)" for f
      using ok gn that by (auto simp: fl) (auto simp: s5_def streams_ok_def assoc_ok_def kn_def stream_flow_def stream_flow_ok_def fresh_flow_def)
    ultimately show "\<forall>f \<in> set (flows_of sk s5). (\<exists>k. co_flows s5 f = Some k \<and> stream_flow_ok sk k) \<and> candidates_ok s5 f" by blast
    show "inj_on (sid_of s5) (set (flows_of sk s5))"
      using ok gn ids by (auto simp: fl sid streams_ok_def assoc_ok_def inj_on_def)
    show "finite (dom (co_flows s5))" "finite (dom (co_sockets s5))" using ok by (simp_all add: s5_def streams_ok_def assoc_ok_def)
  qed
  moreover have "unread_fresh d s5" using unread w(3) by (simp add: unread_fresh_def s5_def)
  moreover have "p (co_world s5) = p (co_world s)" using w(2) by (simp add: s5_def)
  moreover have "contents d sk s5 = (contents d sk s)(sid \<mapsto> [])"
  proof
    fix t
    have "find (\<lambda>f. sid_of s5 f = t) (flows_of sk s) = find (\<lambda>f. sid_of s f = t) (flows_of sk s)"
      using gn by (intro find_cong) (auto simp: sid)
    moreover have "g \<noteq> f" if "find (\<lambda>f. sid_of s f = t) (flows_of sk s) = Some f" for f using that gn by (auto simp: find_Some_iff)
    moreover have "d w g = []" using unread n(2) w(3) by (simp add: unread_fresh_def)
    moreover have "co_world s5 = w" "sid_of s5 g = sid" by (simp add: s5_def, simp add: sid)
    ultimately show "contents d sk s5 t = ((contents d sk s)(sid \<mapsto> [])) t"
      using w(3) by (cases "t = sid") (auto simp: contents_def fl queue intro!: map_option_cong)
  qed
  moreover have q: "quiet d p s5 (ce_app env CB_connected g s5)" using app by (simp add: app_quiet_def)
  moreover have "grows sk s s5" using l(1) fl by (auto simp: grows_def msg_fits_def s5_def on_def)
  ultimately show ?thesis using run quiet_held [OF q]
    by (intro exI [of _ "ce_app env CB_connected g s5"])
      (simp add: quiet_contents [OF q] quiet_streams_ok [OF q] quiet_unread_fresh [OF q] grows_trans [OF _ quiet_grows [OF q]])
qed

section \<open>Receiving\<close>

text \<open>What a message does to the streams: it is appended to its stream, or opens the stream.\<close>

definition demux :: "u16 \<times> u8 list \<Rightarrow> (u16 \<Rightarrow> u8 list list option) \<Rightarrow> u16 \<Rightarrow> u8 list list option" where
  "demux m c = (case c (fst m) of None \<Rightarrow> c(fst m \<mapsto> []) | Some q \<Rightarrow> c(fst m \<mapsto> q @ [snd m]))"

lemma contents_find: "contents d sk s sid = None \<longleftrightarrow> find (\<lambda>f. sid_of s f = sid) (flows_of sk s) = None"
  by (simp add: contents_def)

text \<open>The part of the function after \<open>recvmsg\<close>, for a data message.\<close>

lemma sctp_message_ok:
  assumes ok: "streams_ok sk s" and mem: "memory_ok env d p" and app: "app_quiet env d p" and unread: "unread_fresh d s"
    and f: "f \<in> set (flows_of sk s)" and zero: "contents d sk s 0 \<noteq> None"
    and m: "rm_n m = int (length data)" "data \<noteq> []" "rm_data m = data" "rm_sid m = uint sid" "\<not> rm_notification m"
  shows "\<exists>s'. sctp_message env f sk m s = Some (Some READ_OK, s') \<and> streams_ok sk s' \<and> unread_fresh d s' \<and> p (co_world s') = p (co_world s) \<and>
     contents d sk s' = demux (sid, data) (contents d sk s) \<and> grows sk s s'"
proof -
  let ?s = "modify_pollable sk (\<lambda>k. k\<lparr>sctp_notification_wait := False\<rparr>) s"
  have q: "quiet d p s ?s" by (rule quiet_modify_pollable) (simp add: same_socket_def)
  have ok': "streams_ok sk ?s" by (rule quiet_streams_ok [OF q ok])
  have f': "f \<in> set (flows_of sk ?s)" using f by (simp add: quiet_flows_of [OF q])
  have c: "contents d sk ?s = contents d sk s" by (rule quiet_contents [OF q])
  from ok' obtain os where os: "co_sockets ?s sk = Some os" "multistream (so_socket os)" "sctp_neat_peer (so_socket os)"
    by (auto simp: streams_ok_def assoc_ok_def stream_socket_ok_def)
  have n: "rm_n m > 0" "rm_n m \<noteq> 0" using m(1,2) by auto
  have u: "of_int (rm_sid m) = sid" using m(4) by simp
  have msg: "sctp_message env f sk m s =
    (do { known \<leftarrow> (if rm_sid m > 0 then nt_sctp_get_flow_by_sid sk sid ?s else Some (Some f));
          if known = None then map_option (\<lambda>(r, s). (Some r, s)) (open_stream_flow env f sk sid ?s)
          else map_option (\<lambda>(r, s). (Some r, s)) (queue_message env f sk sid data ?s) })"
    using os n m(5) unfolding sctp_message_def u m(3) by (simp add: Let_def del: modify_pollable_simps)
  show ?thesis
  proof (cases "find (\<lambda>f. sid_of ?s f = sid) (flows_of sk ?s)")
    case None
    have "sid \<noteq> 0" using None zero c contents_find [of d sk ?s sid] by auto
    then have "rm_sid m > 0" using m(4) by (simp add: word_neq_0_conv word_less_def)
    moreover from open_stream_flow_ok [OF ok' mem app quiet_unread_fresh [OF q unread] None f'] obtain s' where
      "open_stream_flow env f sk sid ?s = Some (READ_OK, s')" "streams_ok sk s'" "unread_fresh d s'" "p (co_world s') = p (co_world ?s)"
      "contents d sk s' = (contents d sk ?s)(sid \<mapsto> [])" "grows sk ?s s'" by blast
    moreover have "contents d sk s sid = None" using None contents_find [of d sk ?s sid] c by simp
    ultimately show ?thesis using None unfolding msg
      by (intro exI [of _ s']) (simp add: get_flow_by_sid [OF streams_ok_assoc [OF ok']] demux_def c grows_trans [OF quiet_grows [OF q]])
  next
    case (Some g)
    from queue_message_ok [OF ok' mem app Some, of f data] obtain s' where
      s': "queue_message env f sk sid data ?s = Some (READ_OK, s')" "quiet d p (modify_flow g (push_message data) ?s) s'" by blast
    have run: "sctp_message env f sk m s = Some (Some READ_OK, s')" using Some s'(1) unfolding msg by (simp add: get_flow_by_sid [OF streams_ok_assoc [OF ok']])
    from push_contents [OF ok' Some, of d data] obtain b where
      b: "contents d sk ?s sid = Some b" "contents d sk (modify_flow g (push_message data) ?s) = (contents d sk ?s)(sid \<mapsto> b @ [data])" by blast
    have "unread_fresh d (modify_flow g (push_message data) ?s)"
      using quiet_unread_fresh [OF q unread] by (auto simp: unread_fresh_def split: if_splits)
    then have "streams_ok sk s'" "unread_fresh d s'"
      using quiet_streams_ok [OF s'(2) push_streams_ok [OF ok']] quiet_unread_fresh [OF s'(2)] by blast+
    moreover have "contents d sk s' = demux (sid, data) (contents d sk s)"
      using b c by (simp add: quiet_contents [OF s'(2)] demux_def)
    moreover have "grows sk s s'" by (rule grows_trans [OF grows_trans [OF quiet_grows [OF q] modify_flow_grows] quiet_grows [OF s'(2)]])
    ultimately show ?thesis using run quiet_held [OF s'(2)] by (intro exI [of _ s']) simp
  qed
qed

text \<open>Up to the call of \<open>recvmsg\<close> nothing changes that the streams depend on; the rest is \<^const>\<open>sctp_message\<close>.\<close>

lemma io_readable_recv:
  assumes ok: "assoc_ok sk s" and f: "f \<in> set (flows_of sk s)" and mem: "memory_ok env d p" and os: "co_sockets s sk = Some os"
  shows "\<exists>s2. quiet d p s s2 \<and> resets_of s2 = resets_of s \<and> (\<forall>m w r s'. ce_recvmsg env (fd (so_socket os)) (read_size (so_socket os)) (co_world s2) = (m, w) \<longrightarrow> 0 \<le> rm_n m \<longrightarrow>
     sctp_message env f sk m (s2\<lparr>co_world := w\<rparr>) = Some (Some r, s') \<longrightarrow> io_readable env f sk s = Some (r, s'))"
proof -
  from ok f obtain k where k: "co_flows s f = Some k" "fo_socket k = sk" "\<not> acceptPending (fo_flow k)"
    by (auto simp: assoc_ok_def stream_flow_ok_def)
  have so: "stack (so_socket os) = NEAT_STACK_SCTP" "multistream (so_socket os)" using ok os by (auto simp: assoc_ok_def stream_socket_ok_def)
  from core_resize_quiet [OF mem k(1)] k(2) os obtain s1 where
    s1: "core_resize env f s = Some (READ_OK, s1)" "quiet d p s s1" "resets_of s1 = resets_of s" by blast
  from malloc_quiet [OF mem, of "read_size (so_socket os)" s1] obtain s2 where
    s2: "world_call (ce_malloc env (read_size (so_socket os))) s1 = (True, s2)" "quiet d p s1 s2" "co_flows s2 = co_flows s1" by blast
  have q2: "quiet d p s s2" by (rule quiet_trans [OF s1(2) s2(2)])
  from quietD(1) [OF q2 k(1)] obtain k2 where k2: "co_flows s2 f = Some k2" by blast
  have "io_readable env f sk s = Some (r, s')"
    if m: "ce_recvmsg env (fd (so_socket os)) (read_size (so_socket os)) (co_world s2) = (m, w)" "0 \<le> rm_n m"
      "sctp_message env f sk m (s2\<lparr>co_world := w\<rparr>) = Some (Some r, s')" for m w r s'
  proof -
    have "sctp_receive env f sk s = Some (Some r, rm_n m, rm_sid m, s')"
      using os so s1(1) s2(1) k2 m by (simp add: sctp_receive_def world_call_def)
    then show ?thesis using k os so by (simp add: io_readable_def io_readable_with_def)
  qed
  moreover have "resets_of s2 = resets_of s" using s1(3) s2(3) by (simp add: resets_of_def fun_eq_iff)
  ultimately show ?thesis using q2 by blast
qed

text \<open>Taking something from the kernel changes what the kernel holds and nothing else.\<close>

lemma recv_quiet: "quiet d p s s2 \<Longrightarrow> d w = d (co_world s2) \<Longrightarrow> quiet d (\<lambda>_. ()) s (s2\<lparr>co_world := w\<rparr>)"
  by (simp add: quiet_def queue_of_def)

text \<open>One call of \<open>io_readable\<close> for any of the flows of the socket takes one message.\<close>

lemma io_readable_demux:
  assumes ok: "streams_ok sk s" and mem: "memory_ok env d p" and app: "app_quiet env d p" and kernel: "kernel_ok env d p" and unread: "unread_fresh d s"
    and f: "f \<in> set (flows_of sk s)" and zero: "contents d sk s 0 \<noteq> None" and held: "p (co_world s) = (sid, data) # ms" and msg_fits: "msg_fits sk s (sid, data)"
  shows "\<exists>s'. io_readable env f sk s = Some (READ_OK, s') \<and> streams_ok sk s' \<and> unread_fresh d s' \<and> p (co_world s') = ms \<and>
     contents d sk s' = demux (sid, data) (contents d sk s) \<and> grows sk s s'"
proof -
  from ok obtain os where os: "co_sockets s sk = Some os" by (auto simp: streams_ok_def assoc_ok_def)
  from io_readable_recv [OF streams_ok_assoc [OF ok] f mem os] obtain s2 where
    s2: "quiet d p s s2" "\<forall>m w r s'. ce_recvmsg env (fd (so_socket os)) (read_size (so_socket os)) (co_world s2) = (m, w) \<longrightarrow> 0 \<le> rm_n m \<longrightarrow>
      sctp_message env f sk m (s2\<lparr>co_world := w\<rparr>) = Some (Some r, s') \<longrightarrow> io_readable env f sk s = Some (r, s')" by blast
  have "p (co_world s2) = (sid, data) # ms" "length data \<le> read_size (so_socket os)"
    using quiet_held [OF s2(1)] held msg_fits os by (auto simp: msg_fits_def)
  with kernel obtain m w where
    m: "ce_recvmsg env (fd (so_socket os)) (read_size (so_socket os)) (co_world s2) = (m, w)" "rm_n m = int (length data)" "rm_data m = data"
      "rm_sid m = uint sid" "\<not> rm_notification m" "p w = ms" "d w = d (co_world s2)" unfolding kernel_ok_def by blast
  let ?s3 = "s2\<lparr>co_world := w\<rparr>"
  have q: "quiet d (\<lambda>_. ()) s ?s3" by (rule recv_quiet [OF s2(1) m(7)])
  have data: "data \<noteq> []" using msg_fits by (simp add: msg_fits_def)
  have f3: "f \<in> set (flows_of sk ?s3)" and z3: "contents d sk ?s3 0 \<noteq> None"
    using f zero by (simp_all add: quiet_flows_of [OF q] quiet_contents [OF q])
  from sctp_message_ok [OF quiet_streams_ok [OF q ok] mem app quiet_unread_fresh [OF q unread] f3 z3 m(2) data m(3-5)] obtain s' where
    s': "sctp_message env f sk m ?s3 = Some (Some READ_OK, s')" "streams_ok sk s'" "unread_fresh d s'" "p (co_world s') = p (co_world ?s3)"
      "contents d sk s' = demux (sid, data) (contents d sk ?s3)" "grows sk ?s3 s'" by (elim exE conjE) (rule that)
  have "0 \<le> rm_n m" using m(2) by simp
  with s2(2) m(1) s'(1) have "io_readable env f sk s = Some (READ_OK, s')" by blast
  with s' show ?thesis using m(6) by (intro exI [of _ s']) (simp add: quiet_contents [OF q] grows_trans [OF quiet_grows [OF q]])
qed

text \<open>A sequence of readable events; the list says which flow the event loop looks at.\<close>

fun receive_run :: "'k core_env \<Rightarrow> nat \<Rightarrow> nat list \<Rightarrow> 'k core \<Rightarrow> 'k core option" where
  "receive_run env sk [] s = Some s"
| "receive_run env sk (f # fs) s = do { (_, s1) \<leftarrow> io_readable env f sk s; receive_run env sk fs s1 }"

lemma demux_stream_0: "c 0 \<noteq> None \<Longrightarrow> demux m c 0 \<noteq> None"
  by (auto simp: demux_def split: option.split)

text \<open>Any run of events on the socket hands the held messages out to their streams, in order.\<close>

lemma receive_run_demux:
  assumes "memory_ok env d p" and "app_quiet env d p" and "kernel_ok env d p"
    and "streams_ok sk s" and "unread_fresh d s" and "contents d sk s 0 \<noteq> None" and "p (co_world s) = ms" and "list_all (msg_fits sk s) ms"
    and "length fs = length ms" and "set fs \<subseteq> set (flows_of sk s)"
  shows "\<exists>s'. receive_run env sk fs s = Some s' \<and> streams_ok sk s' \<and> p (co_world s') = [] \<and> contents d sk s' = fold demux ms (contents d sk s)"
  using assms(4-)
proof (induction ms arbitrary: s fs)
  case (Cons m ms)
  obtain sid data where m: "m = (sid, data)" by (cases m)
  from Cons.prems(6) obtain f gs where fs: "fs = f # gs" by (cases fs) auto
  have f: "f \<in> set (flows_of sk s)" using Cons.prems(7) fs by simp
  have held: "p (co_world s) = (sid, data) # ms" and fit: "msg_fits sk s (sid, data)" using Cons.prems(4,5) m by simp_all
  from io_readable_demux [OF Cons.prems(1) assms(1-3) Cons.prems(2) f Cons.prems(3) held fit] obtain s1 where
    s1: "io_readable env f sk s = Some (READ_OK, s1)" "streams_ok sk s1" "unread_fresh d s1" "p (co_world s1) = ms"
      "contents d sk s1 = demux (sid, data) (contents d sk s)" "grows sk s s1" by (elim exE conjE) (rule that)
  have z: "contents d sk s1 0 \<noteq> None" unfolding s1(5) by (rule demux_stream_0) (rule Cons.prems(3))
  have fit1: "list_all (msg_fits sk s1) ms" using Cons.prems(5) s1(6) by (auto simp: grows_def list_all_iff)
  have "length gs = length ms" "set gs \<subseteq> set (flows_of sk s1)" using Cons.prems(6,7) fs s1(6) by (auto simp: grows_def)
  from Cons.IH [OF s1(2,3) z s1(4) fit1 this] show ?case unfolding fs m using s1(1,5) by simp
qed simp

end
