(* ===== verification/Stream_Life.thy ===== *)
theory Stream_Life
  imports Stream_Demux
begin

text \<open>
  The end of a stream: a flow of a multistreamed socket is closed by the application or by the resets of
  both directions. The flow is freed and the other flows of the association stay as they are.
\<close>

section \<open>Freeing a flow of a shared socket\<close>

lemma close_handles:
  "co_flows (foldl (\<lambda>s l. close_handle l s) s ls) = co_flows s" "co_world (foldl (\<lambda>s l. close_handle l s) s ls) = co_world s"
  "co_candidates (foldl (\<lambda>s l. close_handle l s) s ls) = co_candidates s"
  "rel_option same_socket (co_sockets s a) (co_sockets (foldl (\<lambda>s l. close_handle l s) s ls) a)"
proof (induction ls arbitrary: s)
  case (Cons l ls)
  {
    case 1
    then show ?case using Cons(1) [of "close_handle l s"] by (simp add: close_handle_def)
  next
    case 2
    then show ?case using Cons(2) [of "close_handle l s"] by (simp add: close_handle_def)
  next
    case 3
    then show ?case using Cons(3) [of "close_handle l s"] by (simp add: close_handle_def)
  next
    case 4
    have "rel_option same_socket (co_sockets s a) (co_sockets (close_handle l s) a)"
      by (auto simp: close_handle_def option.rel_map same_socket_def intro: option.rel_refl_strong)
    from rel_same_trans(2) [OF this Cons(4)] show ?case by simp
  }
qed simp_all

text \<open>Freeing a candidate, and all candidates of a flow, changes the candidates and what the kernel knows of their sockets.\<close>

lemma free_candidate_ok:
  assumes "co_candidates s c = Some ca" and "candidate_ok f sk ca" and "co_flows s f = Some k" and "fo_socket k = sk"
    and "co_sockets s sk = Some o'" and "app_quiet env d p"
  shows "\<exists>x w. nt_free_candidate env c s = Some (s\<lparr>co_candidates := (co_candidates s)(c := x), co_world := w\<rparr>) \<and>
     p w = p (co_world s) \<and> d w = d (co_world s)"
proof -
  let ?linger = "snd (ce_setsockopt env ''SO_LINGER'' (fd (ca_socket ca)) [1, 0] (co_world s))"
  let ?u = "\<lambda>k. k\<lparr>ca_handle := HANDLE_OWN UV_CLOSING, ca_prio_timer := None\<rparr>"
  have "p ?linger = p (co_world s)" "d ?linger = d (co_world s)" using assms(6) by (simp_all add: app_quiet_def)
  moreover have "nt_free_candidate env c s = Some (free_candidate c s) \<or> nt_free_candidate env c s = Some (modify_candidate c ?u (s\<lparr>co_world := ?linger\<rparr>))"
    using assms(1-5) by (cases "ca_handle ca") (simp_all add: nt_free_candidate_def candidate_ok_def)
  moreover have "free_candidate c s = s\<lparr>co_candidates := (co_candidates s)(c := None), co_world := co_world s\<rparr>" by (simp add: free_candidate_def)
  moreover have "modify_candidate c ?u (s\<lparr>co_world := ?linger\<rparr>) = s\<lparr>co_candidates := (co_candidates s)(c := Some (?u ca)), co_world := ?linger\<rparr>"
    using assms(1) by (simp add: modify_candidate_def)
  ultimately show ?thesis by metis
qed

lemma free_candidates_ok:
  assumes "distinct cs" and "\<forall>c \<in> set cs. \<exists>ca. co_candidates s c = Some ca \<and> candidate_ok f sk ca" and "co_flows s f = Some k" and "fo_socket k = sk"
    and "co_sockets s sk = Some o'" and "app_quiet env d p"
  shows "\<exists>m w. nt_free_candidates env cs s = Some (s\<lparr>co_candidates := m, co_world := w\<rparr>) \<and> p w = p (co_world s) \<and> d w = d (co_world s) \<and>
     (\<forall>c. c \<notin> set cs \<longrightarrow> m c = co_candidates s c)"
  using assms(1-5)
proof (induction cs arbitrary: s)
  case Nil
  then show ?case by (intro exI [of _ "co_candidates s"] exI [of _ "co_world s"]) simp
next
  case (Cons c cs)
  from Cons.prems(2) obtain ca where "co_candidates s c = Some ca" "candidate_ok f sk ca" by auto
  from free_candidate_ok [OF this Cons.prems(3-5) assms(6)] obtain x w where
    s1: "nt_free_candidate env c s = Some (s\<lparr>co_candidates := (co_candidates s)(c := x), co_world := w\<rparr>)" "p w = p (co_world s)" "d w = d (co_world s)" by blast
  let ?s1 = "s\<lparr>co_candidates := (co_candidates s)(c := x), co_world := w\<rparr>"
  have "\<exists>m w'. nt_free_candidates env cs ?s1 = Some (?s1\<lparr>co_candidates := m, co_world := w'\<rparr>) \<and> p w' = p (co_world ?s1) \<and> d w' = d (co_world ?s1) \<and>
     (\<forall>c. c \<notin> set cs \<longrightarrow> m c = co_candidates ?s1 c)"
    by (rule Cons.IH) (use Cons.prems in auto)
  then obtain m w' where m: "nt_free_candidates env cs ?s1 = Some (?s1\<lparr>co_candidates := m, co_world := w'\<rparr>)" "p w' = p (co_world ?s1)" "d w' = d (co_world ?s1)"
    "\<forall>c. c \<notin> set cs \<longrightarrow> m c = co_candidates ?s1 c" by blast
  show ?case using s1 m by (intro exI [of _ m] exI [of _ w']) simp
qed

lemma free_stream_flow:
  assumes k: "co_flows s f = Some k" "fo_socket k = sk" and o': "co_sockets s sk = Some o'" "multistream (so_socket o')" "sctp_streams_used (so_socket o') \<noteq> 0"
    and ok: "candidates_ok s f" and app: "app_quiet env d p"
  shows "\<exists>s' o''. nt_free_flow env f s = Some s' \<and> co_flows s' = (co_flows s)(f := None) \<and> p (co_world s') = p (co_world s) \<and> d (co_world s') = d (co_world s) \<and>
     (\<forall>c. c \<notin> set (fo_candidates k) \<longrightarrow> co_candidates s' c = co_candidates s c) \<and>
     co_sockets s' sk = Some o'' \<and> same_socket (o'\<lparr>so_socket := (so_socket o')\<lparr>sctp_multistream_flows := remove1 f (sctp_multistream_flows (so_socket o'))\<rparr>\<rparr>) o'' \<and>
     (\<forall>a. a \<noteq> sk \<longrightarrow> rel_option same_socket (co_sockets s a) (co_sockets s' a))"
proof -
  let ?s = "s\<lparr>co_flow_list := remove1 f (co_flow_list s)\<rparr>"
  have "\<exists>m w. nt_free_candidates env (fo_candidates k) ?s = Some (?s\<lparr>co_candidates := m, co_world := w\<rparr>) \<and> p w = p (co_world ?s) \<and> d w = d (co_world ?s) \<and>
     (\<forall>c. c \<notin> set (fo_candidates k) \<longrightarrow> m c = co_candidates ?s c)"
    by (rule free_candidates_ok [where f = f and sk = sk]) (use ok k o'(1) app in \<open>simp_all add: candidates_ok_def\<close>)
  then obtain m w where fc: "nt_free_candidates env (fo_candidates k) ?s = Some (?s\<lparr>co_candidates := m, co_world := w\<rparr>)" "p w = p (co_world s)"
    "d w = d (co_world s)" "\<forall>c. c \<notin> set (fo_candidates k) \<longrightarrow> m c = co_candidates s c" by auto
  let ?s1 = "modify_flow_obj f (\<lambda>k. k\<lparr>fo_candidates := []\<rparr>) (?s\<lparr>co_candidates := m, co_world := w\<rparr>)"
  let ?s2 = "foldl (\<lambda>s l. close_handle l s) ?s1 (fo_listen_sockets k)"
  have rel: "rel_option same_socket (co_sockets s a) (co_sockets ?s2 a)" for a using close_handles(4) [of ?s1 a] by simp
  from rel [of sk] o'(1) obtain o2 where o2: "co_sockets ?s2 sk = Some o2" "same_socket o' o2" by (auto simp: option_rel_Some1)
  let ?s3 = "modify_pollable sk (\<lambda>k. k\<lparr>sctp_multistream_flows := remove1 f (sctp_multistream_flows k)\<rparr>) ?s2"
  let ?s' = "?s3\<lparr>co_flows := (co_flows ?s3)(f := None)\<rparr>"
  have ms: "multistream (so_socket o2)" "sctp_streams_used (so_socket o2) \<noteq> 0" using o2(2) o'(2,3) by (auto simp: same_socket_def)
  have f2: "co_flows ?s2 = co_flows ?s1" "co_world ?s2 = co_world ?s1" "co_candidates ?s2 = co_candidates ?s1" by (simp_all only: close_handles(1-3))
  have "nt_free_flow env f s = synchronous_free f ?s3"
    using k o2(1) ms unfolding nt_free_flow_def Let_def by (simp add: fc(1))
  also have "\<dots> = Some ?s'" using k o2(1) ms f2(1) by (simp add: synchronous_free_def)
  finally have "nt_free_flow env f s = Some ?s'" .
  moreover have "co_flows ?s' = (co_flows s)(f := None)" "p (co_world ?s') = p (co_world s)" "d (co_world ?s') = d (co_world s)"
    "\<forall>c. c \<notin> set (fo_candidates k) \<longrightarrow> co_candidates ?s' c = co_candidates s c" using f2 fc(2-4) by simp_all
  moreover have "\<forall>a. a \<noteq> sk \<longrightarrow> rel_option same_socket (co_sockets s a) (co_sockets ?s' a)" using rel by simp
  moreover have "\<exists>o''. co_sockets ?s' sk = Some o'' \<and>
      same_socket (o'\<lparr>so_socket := (so_socket o')\<lparr>sctp_multistream_flows := remove1 f (sctp_multistream_flows (so_socket o'))\<rparr>\<rparr>) o''"
    using o2 by (simp add: same_socket_def)
  ultimately show ?thesis by blast
qed

lemma find_remove1:
  assumes "inj_on h (set fs)" and "distinct fs" and "f \<in> set fs"
  shows "find (\<lambda>g. h g = t) (remove1 f fs) = (if t = h f then None else find (\<lambda>g. h g = t) fs)"
  using assms
proof (induction fs)
  case (Cons g gs)
  show ?case
  proof (cases "g = f")
    case True
    have "find (\<lambda>x. h x = h f) gs = None" using Cons.prems True by (auto simp: find_None_iff inj_on_def)
    with True show ?thesis by auto
  next
    case False
    then have "h g \<noteq> h f" using Cons.prems by (auto simp: inj_on_def)
    with False Cons show ?thesis by (auto simp: inj_on_def)
  qed
qed simp

section \<open>Closing a stream\<close>

text \<open>A flow has been taken out of its socket and freed; all other objects are as they were.\<close>

definition stream_removed :: "('k \<Rightarrow> nat \<Rightarrow> u8 list list) \<Rightarrow> ('k \<Rightarrow> 'm) \<Rightarrow> nat \<Rightarrow> nat \<Rightarrow> 'k core \<Rightarrow> 'k core \<Rightarrow> bool" where
  "stream_removed d p sk f s s' \<longleftrightarrow> co_flows s' f = None \<and> (\<forall>g. g \<noteq> f \<longrightarrow> rel_option same_flow (co_flows s g) (co_flows s' g)) \<and>
     (\<forall>g. g \<noteq> f \<longrightarrow> d (co_world s') g @ queue_of s' g = d (co_world s) g @ queue_of s g) \<and> p (co_world s') = p (co_world s) \<and>
     (\<forall>c ca. co_candidates s c = Some ca \<longrightarrow> ca_flow ca \<noteq> Some f \<longrightarrow> co_candidates s' c = Some ca) \<and>
     (\<forall>a. a \<noteq> sk \<longrightarrow> rel_option same_socket (co_sockets s a) (co_sockets s' a)) \<and>
     (\<exists>k k'. co_sockets s sk = Some k \<and> co_sockets s' sk = Some k' \<and>
        same_socket (k\<lparr>so_socket := (so_socket k)\<lparr>sctp_streams_used := sctp_streams_used (so_socket k) - 1,
            sctp_multistream_flows := remove1 f (sctp_multistream_flows (so_socket k))\<rparr>\<rparr>) k')"

lemma stream_removedD:
  assumes "stream_removed d p sk f s s'"
  shows "g \<noteq> f \<Longrightarrow> co_flows s g = Some k \<Longrightarrow> \<exists>k'. co_flows s' g = Some k' \<and> same_flow k k'"
    and "a \<noteq> sk \<Longrightarrow> co_sockets s a = Some o' \<Longrightarrow> \<exists>o''. co_sockets s' a = Some o'' \<and> same_socket o' o''"
    and "co_flows s g = None \<Longrightarrow> co_flows s' g = None" and "a \<noteq> sk \<Longrightarrow> co_sockets s a = None \<Longrightarrow> co_sockets s' a = None"
proof -
  have 1: "g \<noteq> f \<Longrightarrow> rel_option same_flow (co_flows s g) (co_flows s' g)" "a \<noteq> sk \<Longrightarrow> rel_option same_socket (co_sockets s a) (co_sockets s' a)"
    "co_flows s' f = None" using assms by (simp_all add: stream_removed_def)
  show "g \<noteq> f \<Longrightarrow> co_flows s g = Some k \<Longrightarrow> \<exists>k'. co_flows s' g = Some k' \<and> same_flow k k'"
    and "a \<noteq> sk \<Longrightarrow> co_sockets s a = Some o' \<Longrightarrow> \<exists>o''. co_sockets s' a = Some o'' \<and> same_socket o' o''" using 1 by (auto simp: option_rel_Some1)
  show "co_flows s g = None \<Longrightarrow> co_flows s' g = None" and "a \<noteq> sk \<Longrightarrow> co_sockets s a = None \<Longrightarrow> co_sockets s' a = None"
    using 1 by (cases "g = f"; simp)+
qed

lemma run_callback_quiet:
  assumes "app_quiet env d p" and "co_flows s f \<noteq> None"
  shows "\<exists>s'. run_callback env isset cb code sid f s = Some s' \<and> quiet d p s s'"
proof -
  have q: "quiet d p s (modify_flow f (ready_callback code sid) s)"
    by (rule quiet_modify_flow) (simp add: ready_callback_def same_flow_def)
  have "quiet d p x (ce_app env cb f x)" for x using assms(1) by (simp add: app_quiet_def)
  from quiet_trans [OF q this] show ?thesis using assms(2) by (auto simp: run_callback_def)
qed

lemma word16_pos: "0 < n \<Longrightarrow> n < 65536 \<Longrightarrow> (of_nat n :: u16) \<noteq> 0"
  by (auto simp: word_of_nat_eq_0_iff dest: dvd_imp_le)

lemma streams_used_minus_1:
  assumes "stream_socket_ok k" and "2 \<le> length (sctp_multistream_flows (so_socket k))"
  shows "sctp_streams_used (so_socket k) - 1 = of_nat (length (sctp_multistream_flows (so_socket k)) - 1)"
  using assms by (simp add: stream_socket_ok_def of_nat_diff)

text \<open>\<open>nt_notify_close\<close> for a flow whose stream has been counted out, while others are left.\<close>

lemma notify_close_removes:
  assumes ok: "assoc_ok sk s" and f: "f \<in> set (flows_of sk s)" and len: "2 \<le> length (flows_of sk s)" "length (flows_of sk s) < 2 ^ 16"
    and app: "app_quiet env d p"
  shows "\<exists>s'. nt_notify_close env f (modify_pollable sk (\<lambda>k. k\<lparr>sctp_streams_used := sctp_streams_used k - 1\<rparr>) s) = Some s' \<and> stream_removed d p sk f s s'"
proof -
  from ok f obtain k where k: "co_flows s f = Some k" "stream_flow_ok sk k" by (auto simp: assoc_ok_def)
  from ok obtain os where os: "co_sockets s sk = Some os" "stream_socket_ok os" by (auto simp: assoc_ok_def)
  have fl: "flows_of sk s = sctp_multistream_flows (so_socket os)" using os(1) by (simp add: flows_of_def)
  let ?s1 = "modify_flow f (\<lambda>k. k\<lparr>flow_state := NEAT_FLOW_CLOSED\<rparr>) (modify_pollable sk (\<lambda>k. k\<lparr>sctp_streams_used := sctp_streams_used k - 1\<rparr>) s)"
  from run_callback_quiet [OF app, of ?s1 f on_close CB_close NEAT_OK "- 1"] k(1) obtain s2 where
    s2: "run_callback env on_close CB_close NEAT_OK (- 1) f ?s1 = Some s2" "quiet d p ?s1 s2" by auto
  define o1 where "o1 = os\<lparr>so_socket := (so_socket os)\<lparr>sctp_streams_used := sctp_streams_used (so_socket os) - 1\<rparr>\<rparr>"
  have o1: "co_sockets ?s1 sk = Some o1" using os(1) by (simp add: o1_def)
  from quietD(1) [OF s2(2), of f] k obtain k2 where k2: "co_flows s2 f = Some k2" "fo_socket k2 = sk"
    by (auto simp: same_flow_def stream_flow_ok_def)
  from quietD(2) [OF s2(2) o1] obtain o2 where o2: "co_sockets s2 sk = Some o2" "same_socket o1 o2" by blast
  have u2: "multistream (so_socket o2)" "sctp_streams_used (so_socket o2) \<noteq> 0"
    using o2(2) os(2) streams_used_minus_1 [OF os(2)] word16_pos [of "length (flows_of sk s) - 1"] len
    by (simp_all add: same_socket_def o1_def stream_socket_ok_def fl)
  have "candidates_ok ?s1 f" using ok f by (auto simp: assoc_ok_def candidates_ok_def)
  from quiet_candidates_ok [OF s2(2) this] have c2: "candidates_ok s2 f" .
  from free_stream_flow [OF k2 o2(1) u2 c2 app] obtain s' o3 where
    s': "nt_free_flow env f s2 = Some s'" "co_flows s' = (co_flows s2)(f := None)" "d (co_world s') = d (co_world s2)" "co_sockets s' sk = Some o3"
      "same_socket (o2\<lparr>so_socket := (so_socket o2)\<lparr>sctp_multistream_flows := remove1 f (sctp_multistream_flows (so_socket o2))\<rparr>\<rparr>) o3"
      "\<forall>a. a \<noteq> sk \<longrightarrow> rel_option same_socket (co_sockets s2 a) (co_sockets s' a)" "p (co_world s') = p (co_world s2)"
      "\<forall>c. c \<notin> set (fo_candidates k2) \<longrightarrow> co_candidates s' c = co_candidates s2 c" by blast
  have "co_candidates s' c = Some ca" if "co_candidates s c = Some ca" "ca_flow ca \<noteq> Some f" for c ca
  proof -
    have c: "co_candidates s2 c = Some ca" using s2(2) that(1) by (simp add: quiet_def)
    then have "c \<notin> set (fo_candidates k2)" using c2 k2(1) that(2) by (auto simp: candidates_ok_def candidate_ok_def)
    with s'(8) c show ?thesis by simp
  qed
  moreover have "rel_option same_socket (co_sockets s a) (co_sockets s' a)" if "a \<noteq> sk" for a
    using rel_same_trans(2) [of "co_sockets s a" "co_sockets s2 a"] quiet_rel(2) [OF s2(2), of a] s'(6) that by simp
  moreover have "d (co_world s') g @ queue_of s' g = d (co_world s) g @ queue_of s g" if "g \<noteq> f" for g
  proof -
    have "d (co_world s2) g @ queue_of s2 g = d (co_world ?s1) g @ queue_of ?s1 g" using s2(2) by (simp add: quiet_def)
    with that s'(2,3) show ?thesis by (simp add: queue_of_def)
  qed
  moreover have "rel_option same_flow (co_flows s g) (co_flows s' g)" if "g \<noteq> f" for g using quiet_rel(1) [OF s2(2), of g] that s'(2) by simp
  moreover have "nt_notify_close env f (modify_pollable sk (\<lambda>k. k\<lparr>sctp_streams_used := sctp_streams_used k - 1\<rparr>) s) = Some s'"
    using k s2(1) s'(1) by (simp add: nt_notify_close_def stream_flow_ok_def)
  ultimately show ?thesis using s' os(1) o2(2) quiet_held [OF s2(2)] by (simp add: stream_removed_def same_socket_def o1_def)
qed

lemma removed_flows:
  assumes "assoc_ok sk s" and "stream_removed d p sk f s s'"
  shows "flows_of sk s' = remove1 f (flows_of sk s)" and "g \<noteq> f \<Longrightarrow> sid_of s' g = sid_of s g" and "distinct (flows_of sk s)"
    and "g \<in> set (remove1 f (flows_of sk s)) \<Longrightarrow> g \<noteq> f \<and> g \<in> set (flows_of sk s)"
proof -
  show "flows_of sk s' = remove1 f (flows_of sk s)" using assms(2) by (auto simp: stream_removed_def flows_of_def same_socket_def)
  show "g \<noteq> f \<Longrightarrow> sid_of s' g = sid_of s g"
    using stream_removedD(1,3) [OF assms(2), of g] by (cases "co_flows s g") (auto simp: sid_of_def same_flow_def)
  show dist: "distinct (flows_of sk s)" using assms(1) by (auto simp: assoc_ok_def stream_socket_ok_def flows_of_def)
  show "g \<in> set (remove1 f (flows_of sk s)) \<Longrightarrow> g \<noteq> f \<and> g \<in> set (flows_of sk s)" using dist by auto
qed

lemma removed_assoc_ok:
  assumes ok: "assoc_ok sk s" and rem: "stream_removed d p sk f s s'" and f: "f \<in> set (flows_of sk s)" and len: "2 \<le> length (flows_of sk s)"
  shows "assoc_ok sk s'"
proof -
  note fl = removed_flows [OF ok rem]
  from rem obtain k k' where k: "co_sockets s sk = Some k" "co_sockets s' sk = Some k'"
    "same_socket (k\<lparr>so_socket := (so_socket k)\<lparr>sctp_streams_used := sctp_streams_used (so_socket k) - 1,
        sctp_multistream_flows := remove1 f (sctp_multistream_flows (so_socket k))\<rparr>\<rparr>) k'" by (auto simp: stream_removed_def)
  have so: "stream_socket_ok k" and flk: "flows_of sk s = sctp_multistream_flows (so_socket k)" using ok k(1) by (auto simp: assoc_ok_def flows_of_def)
  have "stream_socket_ok k'"
    using k(3) so streams_used_minus_1 [OF so] f len by (simp add: same_socket_def stream_socket_ok_def flk length_remove1)
  moreover have "(\<exists>k'. co_flows s' g = Some k' \<and> stream_flow_ok sk k') \<and> candidates_ok s' g" if "g \<in> set (remove1 f (flows_of sk s))" for g
  proof -
    from fl(4) [OF that] ok obtain kg where kg: "co_flows s g = Some kg" "stream_flow_ok sk kg" "g \<noteq> f" "candidates_ok s g" by (auto simp: assoc_ok_def)
    from stream_removedD(1) [OF rem kg(3,1)] obtain kg' where kg': "co_flows s' g = Some kg'" "same_flow kg kg'" by blast
    have "candidates_ok s' g" using kg rem kg' unfolding candidates_ok_def candidate_ok_def stream_removed_def same_flow_def by fastforce
    with kg' kg(2) show ?thesis by (auto simp: same_flow_def stream_flow_ok_def)
  qed
  moreover have "inj_on (sid_of s') (set (remove1 f (flows_of sk s)))"
  proof -
    have "inj_on (sid_of s) (set (remove1 f (flows_of sk s)))"
      by (rule inj_on_subset [OF _ set_remove1_subset]) (use ok in \<open>simp add: assoc_ok_def\<close>)
    moreover have "sid_of s' g = sid_of s g" if "g \<in> set (remove1 f (flows_of sk s))" for g using fl(4) [OF that] fl(2) by blast
    ultimately show ?thesis by (simp cong: inj_on_cong)
  qed
  moreover have "dom (co_flows s') \<subseteq> dom (co_flows s)"
  proof
    fix g assume "g \<in> dom (co_flows s')"
    then show "g \<in> dom (co_flows s)" using stream_removedD(3) [OF rem, of g] by (cases "co_flows s g") auto
  qed
  moreover have "dom (co_sockets s') \<subseteq> dom (co_sockets s)"
  proof
    fix a assume "a \<in> dom (co_sockets s')"
    then show "a \<in> dom (co_sockets s)" using stream_removedD(4) [OF rem, of a] k(1) by (cases "a = sk"; cases "co_sockets s a") auto
  qed
  ultimately show ?thesis using ok k(2) fl(1) by (auto simp: assoc_ok_def intro: finite_subset)
qed

lemma removed_listener_ok:
  assumes ok: "assoc_ok sk s" and rem: "stream_removed d p sk f s s'" and f: "f \<in> set (flows_of sk s)" and lis: "listener_ok sk s"
  shows "listener_ok sk s'"
proof -
  from lis obtain k lsk ol l kl where
    l: "co_sockets s sk = Some k" "so_listen_socket k = Some lsk" "co_sockets s lsk = Some ol" "so_flow ol = Some l" "co_flows s l = Some kl"
      "on_connected (operations (fo_flow kl))" "acceptPending (fo_flow kl)" by (auto simp: listener_ok_def)
  have "l \<noteq> f" using l(5,7) ok f by (auto simp: assoc_ok_def stream_flow_ok_def)
  from stream_removedD(1) [OF rem this l(5)] obtain kl' where kl': "co_flows s' l = Some kl'" "same_flow kl kl'" by blast
  from rem l(1) obtain k' where k': "co_sockets s' sk = Some k'" "so_listen_socket k' = so_listen_socket k" "so_flow k' = so_flow k"
    by (auto simp: stream_removed_def same_socket_def)
  have "\<exists>ol'. co_sockets s' lsk = Some ol' \<and> so_flow ol' = Some l"
  proof (cases "lsk = sk")
    case True
    then show ?thesis using k' l by auto
  next
    case False
    from stream_removedD(2) [OF rem this l(3)] l(4) show ?thesis by (auto simp: same_socket_def)
  qed
  with k' kl' l show ?thesis by (auto simp: listener_ok_def same_flow_def)
qed

lemma removed_contents:
  assumes ok: "assoc_ok sk s" and rem: "stream_removed d p sk f s s'" and f: "f \<in> set (flows_of sk s)"
  shows "contents d sk s' = (contents d sk s)(sid_of s f := None)"
proof
  fix t
  note fl = removed_flows [OF ok rem]
  have "find (\<lambda>g. sid_of s' g = t) (remove1 f (flows_of sk s)) = find (\<lambda>g. sid_of s g = t) (remove1 f (flows_of sk s))"
  proof (rule find_cong)
    fix g assume "g \<in> set (remove1 f (flows_of sk s))"
    from fl(4) [OF this] have "sid_of s' g = sid_of s g" using fl(2) by blast
    then show "(sid_of s' g = t) = (sid_of s g = t)" by simp
  qed simp
  moreover have "d (co_world s') g @ queue_of s' g = d (co_world s) g @ queue_of s g"
    if "find (\<lambda>g. sid_of s g = t) (remove1 f (flows_of sk s)) = Some g" for g
    using that fl(4) [of g] rem nth_mem unfolding stream_removed_def find_Some_iff by metis
  ultimately have "contents d sk s' t = map_option (\<lambda>g. d (co_world s) g @ queue_of s g) (find (\<lambda>g. sid_of s g = t) (remove1 f (flows_of sk s)))"
    by (auto simp: contents_def fl(1) intro!: map_option_cong)
  moreover have "inj_on (sid_of s) (set (flows_of sk s))" using ok by (simp add: assoc_ok_def)
  ultimately show "contents d sk s' t = ((contents d sk s)(sid_of s f := None)) t"
    by (simp add: find_remove1 [OF _ fl(3) f] contents_def)
qed

text \<open>The state after a stream has been closed, as the users of the association see it.\<close>

definition stream_gone :: "('k \<Rightarrow> nat \<Rightarrow> u8 list list) \<Rightarrow> ('k \<Rightarrow> 'm) \<Rightarrow> nat \<Rightarrow> nat \<Rightarrow> 'k core \<Rightarrow> 'k core \<Rightarrow> bool" where
  "stream_gone d p sk f s s' \<longleftrightarrow> assoc_ok sk s' \<and> (listener_ok sk s \<longrightarrow> listener_ok sk s') \<and> co_flows s' f = None \<and>
     flows_of sk s' = remove1 f (flows_of sk s) \<and> contents d sk s' = (contents d sk s)(sid_of s f := None) \<and>
     (\<forall>g. g \<noteq> f \<longrightarrow> rel_option same_flow (co_flows s g) (co_flows s' g)) \<and> p (co_world s') = p (co_world s)"

lemma notify_close_stream:
  assumes "assoc_ok sk s" and "f \<in> set (flows_of sk s)" and "2 \<le> length (flows_of sk s)" and "length (flows_of sk s) < 2 ^ 16"
    and "app_quiet env d p"
  shows "\<exists>s'. nt_notify_close env f (modify_pollable sk (\<lambda>k. k\<lparr>sctp_streams_used := sctp_streams_used k - 1\<rparr>) s) = Some s' \<and> stream_gone d p sk f s s'"
proof -
  from notify_close_removes [OF assms] obtain s' where
    s': "nt_notify_close env f (modify_pollable sk (\<lambda>k. k\<lparr>sctp_streams_used := sctp_streams_used k - 1\<rparr>) s) = Some s'"
      "stream_removed d p sk f s s'" by blast
  have "stream_gone d p sk f s s'" unfolding stream_gone_def
    using removed_assoc_ok [OF assms(1) s'(2) assms(2,3)] removed_listener_ok [OF assms(1) s'(2) assms(2)] removed_contents [OF assms(1) s'(2) assms(2)]
      removed_flows(1) [OF assms(1) s'(2)] s'(2) by (simp add: stream_removed_def)
  with s'(1) show ?thesis by blast
qed

lemma core_close_stream:
  assumes ok: "assoc_ok sk s" and f: "f \<in> set (flows_of sk s)" and len: "2 \<le> length (flows_of sk s)" "length (flows_of sk s) < 2 ^ 16"
    and app: "app_quiet env d p"
  shows "\<exists>s'. core_close env f s = Some (NEAT_OK, s') \<and> stream_gone d p sk f s s'"
proof -
  from ok f obtain k where k: "co_flows s f = Some k" "stream_flow_ok sk k" by (auto simp: assoc_ok_def)
  from ok obtain os where os: "co_sockets s sk = Some os" "stream_socket_ok os" by (auto simp: assoc_ok_def)
  have fl: "flows_of sk s = sctp_multistream_flows (so_socket os)" using os(1) by (simp add: flows_of_def)
  have "sctp_streams_used (so_socket os) - 1 \<noteq> 0" "multistream (so_socket os)"
    using os(2) streams_used_minus_1 [OF os(2)] word16_pos [of "length (flows_of sk s) - 1"] len by (simp_all add: stream_socket_ok_def fl)
  with notify_close_stream [OF assms] k os(1) show ?thesis by (auto simp: core_close_def stream_flow_ok_def)
qed

section \<open>Stream resets\<close>

lemma find_unique:
  assumes "assoc_ok sk s" and "f \<in> set (flows_of sk s)"
  shows "find (\<lambda>g. sid_of s g = sid_of s f) (flows_of sk s) = Some f"
proof -
  obtain g where g: "find (\<lambda>g. sid_of s g = sid_of s f) (flows_of sk s) = Some g"
    using assms(2) by (cases "find (\<lambda>g. sid_of s g = sid_of s f) (flows_of sk s)") (auto simp: find_None_iff)
  then have "g \<in> set (flows_of sk s)" "sid_of s g = sid_of s f" by (auto simp: find_Some_iff)
  with assms g show ?thesis by (auto simp: assoc_ok_def inj_on_def)
qed

text \<open>The peer resets its direction of a stream whose other direction has been reset: the flow is closed.\<close>

lemma reset_incoming_closes:
  assumes ok: "assoc_ok sk s" and f: "f \<in> set (flows_of sk s)" and len: "2 \<le> length (flows_of sk s)" "length (flows_of sk s) < 2 ^ 16"
    and app: "app_quiet env d p" and k: "co_flows s f = Some k" "multistream_reset_out (fo_flow k)" "\<not> multistream_reset_in (fo_flow k)"
  shows "\<exists>s'. nt_sctp_handle_reset_stream env sk True False [sid_of s f] s = Some s' \<and> stream_gone d p sk f s s'"
proof -
  let ?s = "modify_flow f (\<lambda>k. k\<lparr>multistream_reset_in := True\<rparr>) s"
  have q: "quiet d p s ?s" by (rule quiet_modify_flow) (simp add: same_flow_def)
  from quiet_assoc_ok [OF q ok] f len notify_close_stream [of sk ?s f env d p] app obtain s' where
    s': "nt_notify_close env f (modify_pollable sk (\<lambda>k. k\<lparr>sctp_streams_used := sctp_streams_used k - 1\<rparr>) ?s) = Some s'"
      "stream_gone d p sk f ?s s'" unfolding quiet_flows_of [OF q] by blast
  from ok obtain os where os: "co_sockets s sk = Some os" by (auto simp: assoc_ok_def)
  have sk: "fo_socket k = sk" using ok f k(1) by (auto simp: assoc_ok_def stream_flow_ok_def)
  have "nt_sctp_handle_reset_stream env sk True False [sid_of s f] s = Some s'"
    using k sk os s'(1) by (simp add: get_flow_by_sid [OF ok] find_unique [OF ok f] reset_incoming_def stream_reset_close_def)
  moreover have "rel_option same_flow (co_flows s g) (co_flows s' g)" if "g \<noteq> f" for g
    using s'(2) that by (simp add: stream_gone_def)
  ultimately show ?thesis using s'(2) quiet_listener_ok [OF q, of sk] unfolding stream_gone_def
    by (simp add: quiet_contents [OF q] quiet_flows_of [OF q] quiet_sid_of [OF q] quiet_held [OF q] del: modify_flow_simps)
qed

section \<open>The event loop after a reset\<close>

text \<open>The kernel has a reset of the incoming direction of a stream next.\<close>

definition reset_next :: "'k core_env \<Rightarrow> ('k \<Rightarrow> nat \<Rightarrow> u8 list list) \<Rightarrow> ('k \<Rightarrow> 'm) \<Rightarrow> 'm \<Rightarrow> u16 \<Rightarrow> bool" where
  "reset_next env d p h sid \<longleftrightarrow> (\<forall>w x n. p w = h \<longrightarrow> (\<exists>m w'. ce_recvmsg env x n w = (m, w') \<and> 0 < rm_n m \<and> rm_notification m \<and> rm_eor m \<and>
     rm_event m = SCTP_STREAM_RESET_EVENT True False [sid] \<and> d w' = d w))"

text \<open>\<open>io_readable\<close> handles the event whichever flow of the socket it is called for.\<close>

lemma io_readable_reset:
  assumes ok: "assoc_ok sk s" and f: "f \<in> set (flows_of sk s)" and len: "2 \<le> length (flows_of sk s)" "length (flows_of sk s) < 2 ^ 16"
    and app: "app_quiet env d (\<lambda>_. ())" and mem: "memory_ok env d p" and g: "g \<in> set (flows_of sk s)"
    and kernel: "reset_next env d p (p (co_world s)) (sid_of s f)" and reset: "resets_of s f = Some (False, True)"
  shows "\<exists>s'. io_readable env g sk s = Some (READ_OK, s') \<and> stream_gone d (\<lambda>_. ()) sk f s s'"
proof -
  from ok obtain os where os: "co_sockets s sk = Some os" by (auto simp: assoc_ok_def)
  from io_readable_recv [OF ok g mem os] obtain s2 where
    s2: "quiet d p s s2" "resets_of s2 = resets_of s"
      "\<forall>m w r s'. ce_recvmsg env (fd (so_socket os)) (read_size (so_socket os)) (co_world s2) = (m, w) \<longrightarrow> 0 \<le> rm_n m \<longrightarrow>
      sctp_message env g sk m (s2\<lparr>co_world := w\<rparr>) = Some (Some r, s') \<longrightarrow> io_readable env g sk s = Some (r, s')" by blast
  from kernel quiet_held [OF s2(1)] obtain m w where
    m: "ce_recvmsg env (fd (so_socket os)) (read_size (so_socket os)) (co_world s2) = (m, w)" "0 < rm_n m" "rm_notification m" "rm_eor m"
      "rm_event m = SCTP_STREAM_RESET_EVENT True False [sid_of s f]" "d w = d (co_world s2)" unfolding reset_next_def by blast
  let ?s3 = "s2\<lparr>co_world := w\<rparr>"
  let ?s4 = "modify_pollable sk (\<lambda>k. k\<lparr>sctp_notification_recvd := True\<rparr>) ?s3"
  have "quiet d (\<lambda>_. ()) ?s3 ?s4" by (rule quiet_modify_pollable) (simp add: same_socket_def)
  from quiet_trans [OF recv_quiet [OF s2(1) m(6)] this] have q: "quiet d (\<lambda>_. ()) s ?s4" .
  have "resets_of ?s4 f = Some (False, True)" using s2(2) reset by (simp add: resets_of_def fun_eq_iff)
  then obtain k where k: "co_flows ?s4 f = Some k" "multistream_reset_out (fo_flow k)" "\<not> multistream_reset_in (fo_flow k)"
    by (auto simp: resets_of_def)
  from ok g obtain kg where "co_flows s g = Some kg" "fo_socket kg = sk" by (auto simp: assoc_ok_def stream_flow_ok_def)
  with quietD(1) [OF recv_quiet [OF s2(1) m(6)]] obtain kg' where kg: "co_flows ?s3 g = Some kg'" "fo_socket kg' = sk" by (auto simp: same_flow_def)
  from quietD(2) [OF recv_quiet [OF s2(1) m(6)] os] obtain os' where os': "co_sockets ?s3 sk = Some os'" by blast
  from quiet_assoc_ok [OF q ok] f len reset_incoming_closes [of sk ?s4 f env d "\<lambda>_. ()" k] app k obtain s' where
    s': "nt_sctp_handle_reset_stream env sk True False [sid_of s f] ?s4 = Some s'" "stream_gone d (\<lambda>_. ()) sk f ?s4 s'"
    unfolding quiet_flows_of [OF q] quiet_sid_of [OF q] by blast
  have "sctp_message env g sk m ?s3 = Some (Some READ_OK, s')"
    using m(2-5) kg os' s'(1) by (simp add: sctp_message_def handle_sctp_event_def Let_def del: nt_sctp_handle_reset_stream.simps)
  with s2(3) m(1,2) have "io_readable env g sk s = Some (READ_OK, s')" by auto
  moreover have "rel_option same_flow (co_flows s h) (co_flows s' h)" if "h \<noteq> f" for h
    using rel_same_trans(1) [OF quiet_rel(1) [OF q, of h]] s'(2) that unfolding stream_gone_def by blast
  then have "stream_gone d (\<lambda>_. ()) sk f s s'"
    using s'(2) quiet_listener_ok [OF q, of sk] unfolding stream_gone_def
    by (simp add: quiet_contents [OF q] quiet_flows_of [OF q] quiet_sid_of [OF q] del: modify_pollable_simps)
  ultimately show ?thesis by blast
qed

end
