(* ===== verification/Stream_Props.thy ===== *)
theory Stream_Props
  imports Stream_Life
begin

text \<open>
  The properties of multistreaming, with a small server for the witnesses: a listening flow, an
  association with some streams, and an application that reads a flow whenever it is told to.
\<close>

section \<open>A small server\<close>

text \<open>The world: what the application has read from each flow, and the messages the kernel holds.\<close>

type_synonym demo_world = "(nat \<Rightarrow> u8 list list) \<times> (u16 \<times> u8 list) list"

definition demo_app :: "callback \<Rightarrow> nat \<Rightarrow> demo_world core \<Rightarrow> demo_world core" where
  "demo_app cb f s = (case co_flows s f of
      None \<Rightarrow> s
    | Some k \<Rightarrow> if cb = CB_readable
        then modify_flow f (\<lambda>k. k\<lparr>multistream_read_queue := []\<rparr>)
          (s\<lparr>co_world := ((fst (co_world s))(f := fst (co_world s) f @ multistream_read_queue (fo_flow k)), snd (co_world s))\<rparr>)
        else s)"

definition demo_recvmsg :: "nat \<Rightarrow> demo_world \<Rightarrow> recv_result \<times> demo_world" where
  "demo_recvmsg n w = (case snd w of
      [] \<Rightarrow> (\<lparr>rm_n = - 1, rm_data = [], rm_sid = - 1, rm_notification = False, rm_eor = False, rm_event = SCTP_OTHER_EVENT\<rparr>, w)
    | (sid, data) # ms \<Rightarrow> (\<lparr>rm_n = int (length (take n data)), rm_data = take n data, rm_sid = uint sid, rm_notification = False, rm_eor = True,
                             rm_event = SCTP_OTHER_EVENT\<rparr>, (fst w, ms)))"

text \<open>The server, on a kernel; every system call succeeds.\<close>

definition demo_server :: "(nat \<Rightarrow> demo_world \<Rightarrow> recv_result \<times> demo_world) \<Rightarrow> demo_world core_env" where
  "demo_server recvmsg = \<lparr>ce_app = demo_app, ce_calloc = \<lambda>used w. (Some (LEAST a. \<not> used a), w), ce_malloc = \<lambda>n w. (True, w),
     ce_recvmsg = \<lambda>x n w. recvmsg n w, ce_recvfrom = \<lambda>x n w. (None, SS_OTHER 0, w), ce_peek = \<lambda>x w. (1, w),
     ce_sendmsg = \<lambda>w x m. (int (length (msg_iov m)), EOTHER, w), ce_socket = \<lambda>f t x w. (9, w), ce_bind = \<lambda>x a w. (0, w),
     ce_bindx = \<lambda>x as n w. (0, w), ce_listen = \<lambda>x w. (0, w), ce_connect = \<lambda>x a w. (CONNECTED, w), ce_accept = \<lambda>x w. (9, w), ce_getpeername = \<lambda>x w. (True, w), ce_setsockopt = \<lambda>n x v w. (0, w),
     ce_getsockopt = \<lambda>n x w. (Some 200, w), ce_if_indextoname = \<lambda>i w. (None, w), ce_getenv = \<lambda>v w. None, ce_pm_send = \<lambda>path j w. w,
     ce_sctp_status = \<lambda>x w. (Some (10, 10), w), ce_so_error = \<lambda>x w. (None, w), ce_shutdown = \<lambda>x w. (0, w), ce_close = \<lambda>x w. w,
     ce_security_install = \<lambda>f s. (NEAT_OK, s)\<rparr>"

definition demo_stream :: "nat \<times> u16 \<times> bool \<Rightarrow> flow_obj" where
  "demo_stream x = (fresh_flow 4)\<lparr>fo_flow := (fo_flow (fresh_flow 4))\<lparr>flow_state := NEAT_FLOW_OPEN, multistream_id := fst (snd x),
     multistream_reset_out := snd (snd x), operations := (operations (fo_flow (fresh_flow 4)))\<lparr>on_readable := True, on_connected := True\<rparr>\<rparr>\<rparr>"

text \<open>A listening flow 1 on socket 2, and the association of socket 4 with the given flows: address, stream, reset.\<close>

definition demo_streams :: "(nat \<times> u16 \<times> bool) list \<Rightarrow> (u16 \<times> u8 list) list \<Rightarrow> demo_world core" where
  "demo_streams xs ms = \<lparr>
     co_flows = (map_of (map (\<lambda>x. (fst x, demo_stream x)) xs))(1 \<mapsto> (fresh_flow 2)\<lparr>fo_flow := (fo_flow (demo_stream (1, 0, False)))\<lparr>acceptPending := True\<rparr>\<rparr>),
     co_sockets = [2 \<mapsto> fresh_socket 1, 4 \<mapsto> (fresh_socket 3)\<lparr>so_flow := None, so_listen_socket := Some 2,
       so_socket := (so_socket (fresh_socket 3))\<lparr>fd := 7, stack := NEAT_STACK_SCTP, multistream := True, sctp_neat_peer := True, read_size := 100,
         sctp_streams_used := of_nat (length xs), sctp_multistream_flows := map fst xs\<rparr>\<rparr>],
     co_candidates = (\<lambda>_. None), co_flow_list = 1 # map fst xs, co_world = (\<lambda>_. [], ms)\<rparr>"

lemma demo_app_quiet: "app_quiet (demo_server r) fst p" if "\<And>a b c. p (a, c) = (p (b, c) :: 'm)"
proof -
  have "quiet fst p s (demo_app cb f s)" for cb f s
    using that [of _ "snd (co_world s)" "fst (co_world s)"]
    by (auto simp: demo_app_def quiet_def queue_of_def same_flow_def split: option.split)
  then show ?thesis by (simp add: app_quiet_def demo_server_def)
qed

lemma demo_memory: "memory_ok (demo_server r) fst p"
proof -
  have "\<forall>used :: nat \<Rightarrow> bool. finite (Collect used) \<longrightarrow> \<not> used (LEAST a. \<not> used a)"
  proof (intro allI impI)
    fix used :: "nat \<Rightarrow> bool" assume "finite (Collect used)"
    then obtain a where "\<not> used a" using infinite_UNIV_nat by (metis (mono_tags) Collect_cong UNIV_def)
    then show "\<not> used (LEAST a. \<not> used a)" by (rule LeastI)
  qed
  then show ?thesis by (simp add: memory_ok_def demo_server_def)
qed

lemma demo_kernel: "kernel_ok (demo_server demo_recvmsg) fst snd"
  by (simp add: kernel_ok_def demo_server_def demo_recvmsg_def)

lemma demo_streams_ok:
  assumes "distinct (map fst xs)" and "1 \<notin> set (map fst xs)" and "inj_on (\<lambda>x. fst (snd x)) (set xs)"
  shows "streams_ok 4 (demo_streams xs ms)" and "flows_of 4 (demo_streams xs ms) = map fst xs"
    and "x \<in> set xs \<Longrightarrow> sid_of (demo_streams xs ms) (fst x) = fst (snd x)"
    and "x \<in> set xs \<Longrightarrow> resets_of (demo_streams xs ms) (fst x) = Some (False, snd (snd x))"
    and "x \<in> set xs \<Longrightarrow> queue_of (demo_streams xs ms) (fst x) = []"
proof -
  have fl: "flows_of 4 (demo_streams xs ms) = map fst xs" by (simp add: flows_of_def demo_streams_def)
  have at: "co_flows (demo_streams xs ms) (fst x) = Some (demo_stream x)" if "x \<in> set xs" for x
  proof -
    have "map_of (map (\<lambda>x. (fst x, demo_stream x)) xs) (fst x) = Some (demo_stream x)"
      by (rule map_of_is_SomeI) (use assms(1) that in \<open>auto simp: comp_def\<close>)
    moreover have "fst x \<noteq> 1" using assms(2) that by (metis image_eqI list.set_map)
    ultimately show ?thesis by (simp add: demo_streams_def)
  qed
  show sid: "sid_of (demo_streams xs ms) (fst x) = fst (snd x)" if "x \<in> set xs" for x using at [OF that] by (simp add: sid_of_def demo_stream_def)
  show "x \<in> set xs \<Longrightarrow> resets_of (demo_streams xs ms) (fst x) = Some (False, snd (snd x))" using at
    by (simp add: resets_of_def demo_stream_def fresh_flow_def)
  show "x \<in> set xs \<Longrightarrow> queue_of (demo_streams xs ms) (fst x) = []" using at by (simp add: queue_of_def demo_stream_def fresh_flow_def)
  have "listener_ok 4 (demo_streams xs ms)"
    by (simp add: listener_ok_def demo_streams_def fresh_socket_def demo_stream_def)
  moreover have "inj_on (sid_of (demo_streams xs ms)) (set (map fst xs))"
    using assms(3) sid by (auto simp: inj_on_def)
  moreover have "(\<exists>k. co_flows (demo_streams xs ms) f = Some k \<and> stream_flow_ok 4 k) \<and> candidates_ok (demo_streams xs ms) f"
    if "f \<in> set (map fst xs)" for f
    using that at by (auto simp: stream_flow_ok_def demo_stream_def fresh_flow_def candidates_ok_def)
  moreover have "finite (dom (co_flows (demo_streams xs ms)))" "finite (dom (co_sockets (demo_streams xs ms)))"
    by (simp_all add: demo_streams_def finite_dom_map_of)
  moreover have "\<exists>k. co_sockets (demo_streams xs ms) 4 = Some k \<and> stream_socket_ok k"
    using assms(1) by (simp add: demo_streams_def stream_socket_ok_def)
  ultimately show "streams_ok 4 (demo_streams xs ms)" by (simp add: streams_ok_def assoc_ok_def fl)
  show "flows_of 4 (demo_streams xs ms) = map fst xs" by (rule fl)
qed

section \<open>Receiving\<close>

text \<open>C12. On a multistreamed socket every run of readable events, whichever of its flows the event loop looks at, takes
  the messages the kernel holds and hands each to the flow of its stream, in the order of arrival; the first message on
  an unknown stream opens a flow for the stream. What has been received for a stream is what the application has read and
  what is queued; no message is lost, doubled or given to another flow, and the structure of the socket stays sound.\<close>

theorem stream_demux_correct:
  assumes "memory_ok env d p" and "app_quiet env d p" and "kernel_ok env d p"
    and "streams_ok sk s" and "unread_fresh d s" and "contents d sk s 0 \<noteq> None" and "p (co_world s) = ms" and "list_all (msg_fits sk s) ms"
    and "length fs = length ms" and "set fs \<subseteq> set (flows_of sk s)"
  shows "\<exists>s'. receive_run env sk fs s = Some s' \<and> streams_ok sk s' \<and> p (co_world s') = [] \<and> contents d sk s' = fold demux ms (contents d sk s)"
  by (rule receive_run_demux [OF assms])

theorem stream_demux_correct_witness:
  "\<exists>s'. receive_run (demo_server demo_recvmsg) 4 [3, 3, 3, 3] (demo_streams [(3, 0, False)] [(0, [1]), (5, [9]), (5, [7, 7]), (0, [2])]) = Some s' \<and>
     streams_ok 4 s' \<and> contents fst 4 s' = [0 \<mapsto> [[1], [2]], 5 \<mapsto> [[7, 7]]]"
proof -
  let ?ms = "[(0, [1]), (5, [9]), (5, [7, 7]), (0, [2])] :: (u16 \<times> u8 list) list"
  let ?s = "demo_streams [(3, 0, False)] ?ms"
  have ok: "streams_ok 4 ?s" and fl: "flows_of 4 ?s = [3]" and sid: "sid_of ?s 3 = 0" and q: "queue_of ?s 3 = []"
    using demo_streams_ok(1,2) [where xs = "[(3, 0, False)]" and ms = ?ms]
      demo_streams_ok(3-5) [where xs = "[(3, 0, False)]" and ms = ?ms and x = "(3, 0, False)"] by simp_all
  have w: "co_world ?s = (\<lambda>_. [], ?ms)" by (simp add: demo_streams_def)
  have c: "contents fst 4 ?s = [0 \<mapsto> []]" by (auto simp: contents_def fl sid q w)
  have z: "contents fst 4 ?s 0 \<noteq> None" unfolding c by simp
  have app: "app_quiet (demo_server demo_recvmsg) fst snd" by (rule demo_app_quiet) simp
  have u: "unread_fresh fst ?s" by (simp add: unread_fresh_def w)
  have h: "snd (co_world ?s) = ?ms" by (simp add: w)
  have fit: "list_all (msg_fits 4 ?s) ?ms" by (simp add: msg_fits_def demo_streams_def)
  from stream_demux_correct [OF demo_memory app demo_kernel ok u z h fit, of "[3, 3, 3, 3]"] fl obtain s' where
    "receive_run (demo_server demo_recvmsg) 4 [3, 3, 3, 3] ?s = Some s'" "streams_ok 4 s'" "contents fst 4 s' = fold demux ?ms (contents fst 4 ?s)" by auto
  then show ?thesis unfolding c by (auto simp: demux_def)
qed

section \<open>Closing\<close>

text \<open>C13. Closing one of several flows of an association frees this flow and takes its stream out, and does nothing else: the
  association stays open, the count of its streams is right, the other flows keep their streams and what has been received for them,
  and the association still accepts new streams.\<close>

theorem core_close_correct:
  assumes "assoc_ok sk s" and "f \<in> set (flows_of sk s)" and "2 \<le> length (flows_of sk s)" and "length (flows_of sk s) < 2 ^ 16"
    and "app_quiet env d p"
  shows "\<exists>s'. core_close env f s = Some (NEAT_OK, s') \<and> stream_gone d p sk f s s'"
  by (rule core_close_stream [OF assms])

lemma demo_pair:
  "assoc_ok 4 (demo_streams [(5, 2, False), (3, 0, b)] ms)" "flows_of 4 (demo_streams [(5, 2, False), (3, 0, b)] ms) = [5, 3]"
  "sid_of (demo_streams [(5, 2, False), (3, 0, b)] ms) 3 = 0" "resets_of (demo_streams [(5, 2, False), (3, 0, b)] ms) 3 = Some (False, b)"
  using demo_streams_ok(1,2) [where xs = "[(5, 2, False), (3, 0, b)]" and ms = ms]
    demo_streams_ok(3-4) [where xs = "[(5, 2, False), (3, 0, b)]" and ms = ms and x = "(3, 0, b)"] by (simp_all add: streams_ok_assoc)

theorem core_close_correct_witness:
  "\<exists>s'. core_close (demo_server demo_recvmsg) 3 (demo_streams [(5, 2, False), (3, 0, False)] []) = Some (NEAT_OK, s') \<and>
     assoc_ok 4 s' \<and> flows_of 4 s' = [5] \<and> co_flows s' 3 = None"
proof -
  have app: "app_quiet (demo_server demo_recvmsg) fst snd" by (rule demo_app_quiet) simp
  from core_close_correct [OF demo_pair(1), of 3 False "[]" _ fst snd] app demo_pair(2) [of False "[]"] show ?thesis
    by (auto simp: stream_gone_def)
qed

text \<open>C15. A flow of an association is closed while the event loop goes through the flows of the socket: the event loop reads the
  next flow before it calls \<open>io_readable\<close>, and \<open>io_readable\<close> takes whatever the kernel has next. When this is the reset that closes the next
  flow, the flow is freed and the loop goes on with it. The model, in which such an access has no result, does not return.\<close>

theorem poll_reset_use_after_free:
  assumes "assoc_ok sk s" and "flows_of sk s = g # f # fs" and "length (flows_of sk s) < 2 ^ 16" and "co_sockets s sk = Some k"
    and "\<not> sctp_notification_wait (so_socket k)" and "app_quiet env d (\<lambda>_. ())" and "memory_ok env d p"
    and "reset_next env d p (p (co_world s)) (sid_of s f)" and "resets_of s f = Some (False, True)"
  shows "uvpollable_cb env sk 0 True False s = None"
proof -
  have f: "f \<in> set (flows_of sk s)" "g \<in> set (flows_of sk s)" "2 \<le> length (flows_of sk s)" using assms(2) by simp_all
  have fl: "sctp_multistream_flows (so_socket k) = g # f # fs" using assms(2,4) by (simp add: flows_of_def)
  have so: "stream_socket_ok k" using assms(1,4) by (auto simp: assoc_ok_def)
  from assms(1) f(2) obtain kg where kg: "co_flows s g = Some kg" "fo_socket kg = sk" by (auto simp: assoc_ok_def stream_flow_ok_def)
  from io_readable_reset [OF assms(1) f(1,3) assms(3,6,7) f(2) assms(8,9)] obtain s' where
    s': "io_readable env g sk s = Some (READ_OK, s')" "stream_gone d (\<lambda>_. ()) sk f s s'" by blast
  from s'(2) obtain k' where k': "co_sockets s' sk = Some k'" "multistream (so_socket k')" "co_flows s' f = None"
    by (auto simp: stream_gone_def assoc_ok_def stream_socket_ok_def)
  have "poll_flows env (io_readable env) sk True False f s' = None"
    using k'(3) by (subst poll_flows.simps) simp
  then have "poll_flows env (io_readable env) sk True False g s = None"
    using kg assms(4,5) s'(1) k' fl by (subst poll_flows.simps) simp
  then show ?thesis using assms(4) so fl kg by (simp add: uvpollable_cb_def poll_event_def stream_socket_ok_def)
qed

definition demo_reset :: "nat \<Rightarrow> demo_world \<Rightarrow> recv_result \<times> demo_world" where
  "demo_reset n w = (\<lparr>rm_n = 20, rm_data = [], rm_sid = - 1, rm_notification = True, rm_eor = True,
     rm_event = SCTP_STREAM_RESET_EVENT True False [0]\<rparr>, w)"

theorem poll_reset_use_after_free_witness:
  "uvpollable_cb (demo_server demo_reset) 4 0 True False (demo_streams [(5, 2, False), (3, 0, True)] []) = None"
proof -
  let ?s = "demo_streams [(5, 2, False), (3, 0, True)] []"
  have app: "app_quiet (demo_server demo_reset) fst (\<lambda>_. ())" by (rule demo_app_quiet) simp
  obtain k where k: "co_sockets ?s 4 = Some k" "\<not> sctp_notification_wait (so_socket k)" by (simp add: demo_streams_def fresh_socket_def)
  have r: "reset_next (demo_server demo_reset) fst snd (snd (co_world ?s)) (sid_of ?s 3)"
    unfolding demo_pair(3) by (simp add: reset_next_def demo_server_def demo_reset_def)
  have len: "length (flows_of 4 ?s) < 2 ^ 16" by (simp add: demo_pair(2))
  show ?thesis by (rule poll_reset_use_after_free [OF demo_pair(1,2) len k app demo_memory r demo_pair(4)])
qed

section \<open>Joining an association\<close>

lemma he_join_stream:
  assumes "co_sockets s sk = Some k" and "co_flows s f = Some kf"
  shows "\<exists>s2. he_join f sk s = Some (sctp_streams_used (so_socket k) + 1, s2) \<and> sid_of s2 f = sctp_streams_used (so_socket k) + 1 \<and>
     (\<forall>g. g \<noteq> f \<longrightarrow> sid_of s2 g = sid_of s g) \<and> flows_of sk s2 = f # flows_of sk s"
  using assms by (simp add: he_join_def Let_def sid_of_def flows_of_def)

text \<open>C29. A client gives a new flow of an association the number of streams in use as its stream. After a flow has been closed that
  is not the youngest, this number is the stream of the youngest flow: the new flow shares its stream, and the flows of the
  association are no longer told apart.\<close>

theorem he_join_reuses_stream:
  assumes "assoc_ok sk s" and "h \<in> set (flows_of sk s)" and "g \<in> set (flows_of sk s)" and "g \<noteq> h" and "2 \<le> length (flows_of sk s)"
    and "length (flows_of sk s) < 2 ^ 16" and "sid_of s g = of_nat (length (flows_of sk s))" and "app_quiet env d p"
    and "co_flows s f \<noteq> None" and "f \<notin> set (flows_of sk s)"
  shows "\<exists>s1 sid s2. core_close env h s = Some (NEAT_OK, s1) \<and> he_join f sk s1 = Some (sid, s2) \<and> {f, g} \<subseteq> set (flows_of sk s2) \<and>
     sid_of s2 f = sid_of s2 g"
proof -
  from core_close_stream [OF assms(1,2,5,6,8)] obtain s1 where
    s1: "core_close env h s = Some (NEAT_OK, s1)" "stream_gone d p sk h s s1" by blast
  have fl: "flows_of sk s1 = remove1 h (flows_of sk s)" using s1(2) by (simp add: stream_gone_def)
  from s1(2) obtain k where k: "co_sockets s1 sk = Some k" "stream_socket_ok k" by (auto simp: stream_gone_def assoc_ok_def)
  have "sctp_streams_used (so_socket k) = of_nat (length (flows_of sk s) - 1)"
    using k fl assms(2) by (simp add: stream_socket_ok_def flows_of_def length_remove1 split: if_splits)
  then have used: "sctp_streams_used (so_socket k) + 1 = of_nat (length (flows_of sk s))" using assms(5) by (simp add: of_nat_diff)
  have fh: "f \<noteq> h" "f \<noteq> g" using assms(2,3,10) by auto
  have "rel_option same_flow (co_flows s f) (co_flows s1 f)" "rel_option same_flow (co_flows s g) (co_flows s1 g)"
    using s1(2) fh assms(4) by (simp_all add: stream_gone_def)
  then obtain kf where kf: "co_flows s1 f = Some kf" and sid: "sid_of s1 g = sid_of s g"
    using assms(9) by (cases "co_flows s g") (auto simp: option_rel_Some1 sid_of_def same_flow_def)
  have "g \<in> set (flows_of sk s1)" using fl assms(3,4) by (simp add: in_set_remove1)
  moreover from he_join_stream [OF k(1) kf] obtain s2 where
    s2: "he_join f sk s1 = Some (sctp_streams_used (so_socket k) + 1, s2)" "sid_of s2 f = of_nat (length (flows_of sk s))"
      "sid_of s2 g = sid_of s1 g" "flows_of sk s2 = f # flows_of sk s1" unfolding used using fh by auto
  ultimately show ?thesis using s1(1) sid assms(7) by auto
qed

theorem he_join_reuses_stream_witness:
  "\<exists>s1 sid s2. core_close (demo_server demo_recvmsg) 5 (demo_streams [(7, 3, False), (5, 2, False), (3, 0, False)] []) = Some (NEAT_OK, s1) \<and>
     he_join 1 4 s1 = Some (sid, s2) \<and> {1, 7} \<subseteq> set (flows_of 4 s2) \<and> sid_of s2 1 = sid_of s2 7"
proof -
  let ?xs = "[(7, 3, False), (5, 2, False), (3, 0, False)] :: (nat \<times> u16 \<times> bool) list"
  let ?s = "demo_streams ?xs []"
  have ok: "assoc_ok 4 ?s" and fl: "flows_of 4 ?s = [7, 5, 3]" and sid: "sid_of ?s 7 = 3"
    using demo_streams_ok(1,2) [where xs = ?xs and ms = "[]"] demo_streams_ok(3) [where xs = ?xs and ms = "[]" and x = "(7, 3, False)"]
    by (simp_all add: streams_ok_assoc)
  have app: "app_quiet (demo_server demo_recvmsg) fst snd" by (rule demo_app_quiet) simp
  have "co_flows ?s 1 \<noteq> None" by (simp add: demo_streams_def)
  with he_join_reuses_stream [OF ok, of 5 7 _ fst snd 1] app fl sid show ?thesis by auto
qed

end
