(* ===== verification/Udp_Accept.thy ===== *)
theory Udp_Accept
  imports Stream_Props
begin

text \<open>
  Accepting over UDP: the datagram that opens a flow is received into the buffer of the listening flow
  and copied into the buffer of the new one. The two buffers grow by different rules.
\<close>

section \<open>The new flow up to the copy\<close>

text \<open>
  A flow that has just been created for a socket of its own, with an empty buffer, beside the listening
  flow with the buffer \<open>mem\<close>.
\<close>

definition accepting :: "nat \<Rightarrow> u8 list \<Rightarrow> nat \<Rightarrow> nat \<Rightarrow> nat \<Rightarrow> 'k core \<Rightarrow> bool" where
  "accepting l mem g a rsz s \<longleftrightarrow> (\<exists>kl. co_flows s l = Some kl \<and> readBuffer (fo_flow kl) = mem) \<and> l \<noteq> g \<and>
     (\<exists>k o'. co_flows s g = Some k \<and> fo_socket k = a \<and> readBuffer (fo_flow k) = [] \<and> readBufferSize (fo_flow k) = 0 \<and>
        readBufferAllocation (fo_flow k) = 0 \<and> co_sockets s a = Some o' \<and> so_flow o' = Some g \<and> read_size (so_socket o') = rsz \<and>
        stack (so_socket o') = NEAT_STACK_UDP \<and> \<not> multistream (so_socket o') \<and> \<not> is_closed (so_socket o') \<and>
        \<not> sctp_notification_wait (so_socket o') \<and> sctp_multistream_flows (so_socket o') = [])"

text \<open>The application does nothing in its callbacks, memory is not short and the system calls succeed.\<close>

definition benign :: "'k core_env \<Rightarrow> bool" where
  "benign env \<longleftrightarrow> (\<forall>cb f s. ce_app env cb f s = s) \<and> memory_ok env (\<lambda>_ _. []) (\<lambda>_. ()) \<and>
     (\<forall>f t x w. 0 \<le> fst (ce_socket env f t x w)) \<and> (\<forall>x y w. 0 \<le> fst (ce_bind env x y w)) \<and> (\<forall>x y w. fst (ce_connect env x y w) = CONNECTED)"

lemma accepting_world [simp]: "accepting l mem g a rsz (s\<lparr>co_world := w\<rparr>) = accepting l mem g a rsz s"
  by (simp add: accepting_def)

lemma accepting_flow:
  assumes "accepting l mem g a rsz s" and "\<And>k. readBuffer (u k) = readBuffer k \<and> readBufferSize (u k) = readBufferSize k \<and> readBufferAllocation (u k) = readBufferAllocation k"
  shows "accepting l mem g a rsz (modify_flow f u s)"
  using assms by (auto simp: accepting_def)

lemma accepting_flow_obj:
  assumes "accepting l mem g a rsz s" and "\<And>k. fo_flow (v k) = fo_flow k \<and> fo_socket (v k) = fo_socket k"
  shows "accepting l mem g a rsz (modify_flow_obj f v s)"
  using assms by (auto simp: accepting_def)

lemma accepting_fd: "accepting l mem g a rsz s \<Longrightarrow> accepting l mem g a rsz (modify_pollable b (\<lambda>k. k\<lparr>fd := x\<rparr>) s)"
  by (auto simp: accepting_def)

lemma accepting_handle: "accepting l mem g a rsz s \<Longrightarrow> accepting l mem g a rsz (modify_socket_obj b (\<lambda>k. k\<lparr>so_handle := x\<rparr>) s)"
  by (auto simp: accepting_def)

lemma accepting_callback:
  assumes "accepting l mem g a rsz s" and "\<And>cb f s. ce_app env cb f s = s"
  shows "\<exists>s'. run_callback env isset cb code sid g s = Some s' \<and> accepting l mem g a rsz s'"
proof -
  have "accepting l mem g a rsz (modify_flow g (ready_callback code sid) s)" by (rule accepting_flow [OF assms(1)]) (simp add: ready_callback_def)
  moreover obtain k where "co_flows s g = Some k" using assms(1) by (auto simp: accepting_def)
  ultimately show ?thesis using assms by (auto simp: run_callback_def)
qed

lemma accepting_connected:
  assumes "accepting l mem g a rsz s" and "\<And>cb f s. ce_app env cb f s = s"
  shows "\<exists>s'. io_connected env g code s = Some s' \<and> accepting l mem g a rsz s'"
proof -
  from assms(1) obtain k o' where k: "co_flows s g = Some k" "co_sockets s (fo_socket k) = Some o'" "stack (so_socket o') = NEAT_STACK_UDP"
    by (auto simp: accepting_def)
  let ?s = "modify_flow g (\<lambda>k. k\<lparr>operations := (operations k)\<lparr>transport_protocol := stack (so_socket o')\<rparr>, flow_state := NEAT_FLOW_OPEN\<rparr>) s"
  have "accepting l mem g a rsz ?s" by (rule accepting_flow [OF assms(1)]) simp
  from accepting_callback [OF this assms(2)] show ?thesis using k by (simp add: io_connected_def Let_def)
qed

lemma accepting_no_event:
  assumes "accepting l mem g a rsz s"
  shows "\<exists>s'. poll_no_event env a s = Some s' \<and> accepting l mem g a rsz s'"
proof -
  from assms obtain k o' where
    k: "co_flows s g = Some k" "fo_socket k = a" "co_sockets s a = Some o'" "so_flow o' = Some g" "\<not> multistream (so_socket o')"
      "\<not> is_closed (so_socket o')" "\<not> sctp_notification_wait (so_socket o')" "sctp_multistream_flows (so_socket o') = []"
    by (auto simp: accepting_def)
  have "poll_flows env r a False False g s = Some (None, s)" for r using k by (subst poll_flows.simps) simp
  then have run: "poll_no_event env a s = core_update_poll a (Some g) s"
    using k by (simp add: poll_no_event_def poll_event_def poll_finish_def)
  let ?s = "modify_flow g (\<lambda>_. update_polling (so_socket o') (fo_flow k)) s"
  have eq: "?s = modify_flow g (update_polling (so_socket o')) s" using k(1) by (simp add: modify_flow_def)
  have ok: "accepting l mem g a rsz ?s" unfolding eq by (rule accepting_flow [OF assms]) (simp add: update_polling_def)
  show ?thesis using run k assms accepting_handle [OF ok]
    by (auto simp: core_update_poll_def nt_update_poll_handle_def)
qed

lemma accepting_datagram:
  assumes acc: "accepting l mem g a rsz s" and env: "benign env" and sec: "\<And>k. co_flows s g = Some k \<Longrightarrow> \<not> security_needed (fo_flow k)"
  shows "\<exists>s'. accept_datagram env l g a s = Some (Some g, s') \<and> accepting l mem g a rsz s'"
proof -
  from acc obtain k o' where k: "co_flows s g = Some k" "co_sockets s a = Some o'" "stack (so_socket o') = NEAT_STACK_UDP"
    by (auto simp: accepting_def)
  define x where "x = fst (ce_socket env (so_family o') (so_type o') IPPROTO_UDP (co_world s))"
  have app: "\<And>cb f s. ce_app env cb f s = s" and x: "0 \<le> x" using env by (simp_all add: benign_def x_def)
  have pos: "\<not> fst (ce_bind env x y w) < 0" "fst (ce_connect env x y w) = CONNECTED" for y w using env by (simp_all add: benign_def not_less)
  obtain w where run: "accept_datagram env l g a s =
      do { s8 \<leftarrow> accept_connected env g a (init_handle a (modify_flow_obj g (\<lambda>k. k\<lparr>fo_everConnected := True\<rparr>)
             ((modify_pollable a (\<lambda>k. k\<lparr>fd := x\<rparr>) s)\<lparr>co_world := w\<rparr>))); Some (Some g, s8) }"
    using k x sec pos by (simp add: accept_datagram_def world_call_eq x_def [symmetric] modify_pollable_def)
  let ?s = "init_handle a (modify_flow_obj g (\<lambda>k. k\<lparr>fo_everConnected := True\<rparr>) ((modify_pollable a (\<lambda>k. k\<lparr>fd := x\<rparr>) s)\<lparr>co_world := w\<rparr>))"
  have "accepting l mem g a rsz ?s" unfolding init_handle_def
    by (intro accepting_handle accepting_flow_obj) (simp_all add: accepting_fd acc)
  from accepting_connected [OF this app] obtain s1 where s1: "io_connected env g NEAT_OK ?s = Some s1" "accepting l mem g a rsz s1" by blast
  from accepting_no_event [OF s1(2)] obtain s2 where s2: "poll_no_event env a s1 = Some s2" "accepting l mem g a rsz s2" by blast
  from s1(2) obtain k1 where "co_flows s1 g = Some k1" "fo_socket k1 = a" by (auto simp: accepting_def)
  with s1(1) s2 show ?thesis unfolding run by (simp add: accept_connected_def)
qed

lemma accepting_do_accept:
  assumes env: "benign env" and fin: "finite (dom (co_flows s))" "finite (dom (co_sockets s))"
    and l: "co_flows s l = Some kl" "\<not> security_needed (fo_flow kl)" and o': "co_sockets s sk = Some ol" "stack (so_socket ol) = NEAT_STACK_UDP"
  shows "\<exists>g a s'. do_accept env l sk s = Some (Some g, s') \<and> accepting l (readBuffer (fo_flow kl)) g a (read_size (so_socket ol)) s'"
proof -
  have mem: "memory_ok env (\<lambda>_ _. []) (\<lambda>_. ())" using env by (simp add: benign_def)
  from new_flow_quiet [OF mem fin] obtain g a s0 where
    n: "neat_new_flow env s = (Some g, s0\<lparr>co_flows := (co_flows s)(g \<mapsto> fresh_flow a), co_sockets := (co_sockets s)(a \<mapsto> fresh_socket g),
        co_flow_list := g # co_flow_list s\<rparr>)" "co_flows s g = None" "co_sockets s a = None" by blast
  let ?s1 = "s0\<lparr>co_flows := (co_flows s)(g \<mapsto> fresh_flow a), co_sockets := (co_sockets s)(a \<mapsto> fresh_socket g), co_flow_list := g # co_flow_list s\<rparr>"
  from memory_okD(1) [OF mem, of 1 "co_world s0"] obtain w where w: "ce_malloc env 1 (co_world s0) = (True, w)" by blast
  let ?s3 = "modify_socket_obj a (accepted_socket sk ol) (modify_flow_obj g (accepted_flow kl) (?s1\<lparr>co_world := w\<rparr>))"
  have ne: "l \<noteq> g" "sk \<noteq> a" using n(2,3) l(1) o'(1) by auto
  have acc: "accepting l (readBuffer (fo_flow kl)) g a (read_size (so_socket ol)) ?s3"
    using ne l(1) o'(2) by (simp add: accepting_def accepted_flow_def accepted_socket_def fresh_flow_def fresh_socket_def)
  have sec: "\<not> security_needed (fo_flow k)" if "co_flows ?s3 g = Some k" for k using that l(2) by (auto simp: accepted_flow_def)
  from accepting_datagram [OF acc env sec] obtain s' where
    s': "accept_datagram env l g a ?s3 = Some (Some g, s')" "accepting l (readBuffer (fo_flow kl)) g a (read_size (so_socket ol)) s'" by blast
  from s'(2) obtain k' oa where k': "co_flows s' g = Some k'" "co_sockets s' (fo_socket k') = Some oa" "stack (so_socket oa) = NEAT_STACK_UDP"
    by (auto simp: accepting_def)
  have fa: "fo_socket (fresh_flow a) = a" by (simp add: fresh_flow_def)
  have "do_accept env l sk s = accept_streams_available env (Some g, s')"
    using n(1) w ne l(1) o' s'(1) by (simp add: do_accept_def world_call_def fa)
  also have "\<dots> = Some (Some g, s')" using k' by (simp add: accept_streams_available_def)
  finally show ?thesis using s'(2) by blast
qed

section \<open>The copy\<close>

lemma resize_empty:
  assumes "readBuffer flow = []" and "readBufferSize flow = 0" and "readBufferAllocation flow = 0"
  shows "resize_read_buffer True sock flow = (READ_OK, flow\<lparr>readBuffer := replicate (space_threshold sock) 0, readBufferAllocation := space_threshold sock\<rparr>)"
  using assms by (cases flow; cases "space_threshold sock = 0") (simp_all add: resize_read_buffer_def Let_def)

lemma hand_over_overflow:
  assumes env: "benign env" and fin: "finite (dom (co_flows s))" "finite (dom (co_sockets s))" and list: "co_flow_list s = [l]"
    and l: "co_flows s l = Some kl" "acceptPending (fo_flow kl)" "\<not> security_needed (fo_flow kl)" "co_sockets s (fo_socket kl) \<noteq> None"
    and o': "co_sockets s sk = Some ol" "stack (so_socket ol) = NEAT_STACK_UDP"
    and n: "n \<le> length (readBuffer (fo_flow kl))" "space_threshold (so_socket ol) < n"
  shows "udp_hand_over env again l sk peer n s = None"
proof -
  let ?s0 = "modify_flow l (\<lambda>k. k\<lparr>readBufferMsgComplete := False\<rparr>) s"
  let ?s1 = "modify_socket_obj sk (\<lambda>k. k\<lparr>so_dst_sockaddr := peer\<rparr>) ?s0"
  have find: "nt_find_flow src peer ?s0 = Some None" for src using l list by (auto simp: nt_find_flow_def)
  have fin1: "finite (dom (co_flows ?s1))" "finite (dom (co_sockets ?s1))" using fin l(1) o'(1) by (simp_all add: dom_def [of "co_flows s"])
  from accepting_do_accept [OF env fin1, of l "kl\<lparr>fo_flow := (fo_flow kl)\<lparr>readBufferMsgComplete := False\<rparr>\<rparr>" sk "ol\<lparr>so_dst_sockaddr := peer\<rparr>"] l o'
  obtain g a s2 where s2: "do_accept env l sk ?s1 = Some (Some g, s2)" "accepting l (readBuffer (fo_flow kl)) g a (read_size (so_socket ol)) s2"
    by auto
  from s2(2) obtain k2 kg og where
    k2: "co_flows s2 l = Some k2" "readBuffer (fo_flow k2) = readBuffer (fo_flow kl)" "l \<noteq> g" "co_flows s2 g = Some kg" "readBuffer (fo_flow kg) = []"
      "readBufferSize (fo_flow kg) = 0" "readBufferAllocation (fo_flow kg) = 0" "co_sockets s2 (fo_socket kg) = Some og"
      "read_size (so_socket og) = read_size (so_socket ol)" by (auto simp: accepting_def)
  have thr: "space_threshold (so_socket og) = space_threshold (so_socket ol)" using k2(9) by (simp add: space_threshold_def)
  have grow: "resize_read_buffer True (so_socket og) (fo_flow kg) = (READ_OK, (fo_flow kg)\<lparr>readBuffer := replicate (space_threshold (so_socket ol)) 0,
      readBufferAllocation := space_threshold (so_socket ol)\<rparr>)"
    using resize_empty [OF k2(5-7)] thr by simp
  have mem: "memory_ok env (\<lambda>_ _. []) (\<lambda>_. ())" using env by (simp add: benign_def)
  from memory_okD(1) [OF mem, of "space_threshold (so_socket ol)" "co_world s2"] obtain w where
    w: "ce_malloc env (space_threshold (so_socket ol)) (co_world s2) = (True, w)" by blast
  define s3 where "s3 = modify_flow g (\<lambda>_. (fo_flow kg)\<lparr>readBuffer := replicate (space_threshold (so_socket ol)) 0,
      readBufferAllocation := space_threshold (so_socket ol)\<rparr>) (s2\<lparr>co_world := w\<rparr>)"
  have "core_resize env g s2 = Some (READ_OK, s3)"
    using k2 thr w grow by (simp add: core_resize_def world_call_def s3_def)
  moreover have "co_flows s3 l = Some k2" "co_flows s3 g = Some (kg\<lparr>fo_flow := (fo_flow kg)\<lparr>readBuffer := replicate (space_threshold (so_socket ol)) 0,
      readBufferAllocation := space_threshold (so_socket ol)\<rparr>\<rparr>)" using k2 by (simp_all add: s3_def)
  moreover have "memcpy_at (replicate (space_threshold (so_socket ol)) 0) 0 (take n (readBuffer (fo_flow kl))) = None"
    using n by (simp add: memcpy_at_def)
  ultimately show ?thesis using o'(1) find s2(1) k2(2) by (simp add: udp_hand_over_def)
qed

text \<open>C14. A datagram for a listening UDP flow is received into the buffer of the listening flow, whatever this has grown to, and copied
  into the buffer of the new flow, which has been allocated from the receive buffer size of the socket. A datagram that is
  larger than the latter is written past the end of the buffer: the model, in which such an access has no result, does not return.\<close>

theorem udp_accept_overflow:
  assumes "benign env" and "finite (dom (co_flows s))" and "finite (dom (co_sockets s))" and "co_flow_list s = [l]"
    and "co_flows s l = Some kl" and "acceptPending (fo_flow kl)" and "\<not> readBufferMsgComplete (fo_flow kl)" and "\<not> security_needed (fo_flow kl)"
    and "read_wf (fo_flow kl)" and "co_sockets s (fo_socket kl) = Some o0"
    and "space_threshold (so_socket o0) \<le> readBufferAllocation (fo_flow kl) - readBufferSize (fo_flow kl)"
    and "co_sockets s sk = Some ol" and "stack (so_socket ol) = NEAT_STACK_UDP"
    and "\<And>x w. \<exists>w'. ce_recvfrom env x (readBufferAllocation (fo_flow kl)) w = (Some data, peer, w')"
    and "length data \<le> readBufferAllocation (fo_flow kl)" and "space_threshold (so_socket ol) < length data"
  shows "io_readable env l sk s = None"
proof -
  have mem: "memory_ok env (\<lambda>_ _. []) (\<lambda>_. ())" using assms(1) by (simp add: benign_def)
  from memory_okD(1) [OF mem, of "space_threshold (so_socket o0)" "co_world s"] obtain w where
    w: "ce_malloc env (space_threshold (so_socket o0)) (co_world s) = (True, w)" by blast
  have wf: "length (readBuffer (fo_flow kl)) = readBufferAllocation (fo_flow kl)" "readBufferSize (fo_flow kl) \<le> readBufferAllocation (fo_flow kl)"
    using assms(9) by (simp_all add: read_wf_def)
  have "resize_read_buffer True (so_socket o0) (fo_flow kl) = (READ_OK, fo_flow kl)"
    using assms(11) wf(2) by (simp add: resize_read_buffer_def Let_def)
  then have resize: "core_resize env l s = Some (READ_OK, modify_flow l (\<lambda>_. fo_flow kl) (s\<lparr>co_world := w\<rparr>))"
    using assms(5,10) w by (simp add: core_resize_def world_call_def)
  obtain w' where w': "ce_recvfrom env (fd (so_socket ol)) (readBufferAllocation (fo_flow kl)) w = (Some data, peer, w')" using assms(14) by blast
  define buf where "buf = data @ drop (length data) (readBuffer (fo_flow kl))"
  have copy: "memcpy_at (readBuffer (fo_flow kl)) 0 data = Some buf" using assms(15) wf(1) by (simp add: memcpy_at_def buf_def)
  have data: "data \<noteq> []" using assms(16) by auto
  define s3 where "s3 = modify_flow l (\<lambda>k. k\<lparr>readBuffer := buf, readBufferSize := length data, readBufferMsgComplete := True\<rparr>)
     (modify_flow l (\<lambda>_. fo_flow kl) (s\<lparr>co_world := w\<rparr>)\<lparr>co_world := w'\<rparr>)"
  let ?kl = "kl\<lparr>fo_flow := (fo_flow kl)\<lparr>readBuffer := buf, readBufferSize := length data, readBufferMsgComplete := True\<rparr>\<rparr>"
  have "udp_hand_over env again l sk peer (length data) s3 = None" for again
    by (rule hand_over_overflow [OF assms(1), where kl = ?kl and ol = ol])
      (use assms wf in \<open>simp_all add: s3_def buf_def dom_def [of "co_flows s"]\<close>)
  then have "udp_receive env again l sk s = None" for again
    using resize assms(5,6,12) w' copy data unfolding udp_receive_def by (simp add: world_call_def s3_def)
  then show ?thesis using assms(5,6,7,12,13) by (simp add: io_readable_def io_readable_with_def)
qed

text \<open>A listening flow whose buffer has doubled once, and a datagram of 8193 bytes; the receive buffer size is not known.\<close>

definition demo_datagrams :: "demo_world core_env" where
  "demo_datagrams = (demo_server demo_recvmsg)\<lparr>ce_app := \<lambda>cb f s. s, ce_recvfrom := \<lambda>x n w. (Some (take n (replicate 8193 7)), SS_INET 80 1, w)\<rparr>"

definition demo_udp :: "demo_world core" where
  "demo_udp = \<lparr>co_flows = [1 \<mapsto> (fresh_flow 4)\<lparr>fo_flow := (fo_flow (fresh_flow 4))\<lparr>acceptPending := True, readBuffer := replicate 16384 0,
       readBufferAllocation := 16384, readBufferSize := 8192\<rparr>\<rparr>],
     co_sockets = [2 \<mapsto> (fresh_socket 1)\<lparr>so_socket := (so_socket (fresh_socket 1))\<lparr>fd := 7, stack := NEAT_STACK_UDP\<rparr>\<rparr>, 4 \<mapsto> fresh_socket 1],
     co_candidates = (\<lambda>_. None), co_flow_list = [1], co_world = (\<lambda>_. [], [])\<rparr>"

theorem udp_accept_overflow_witness: "io_readable demo_datagrams 1 2 demo_udp = None"
proof -
  have mem: "memory_ok demo_datagrams (\<lambda>_ _. []) (\<lambda>_. ())"
    using demo_memory [of demo_recvmsg "\<lambda>_. ()"] by (simp add: memory_ok_def demo_datagrams_def demo_server_def)
  have env: "benign demo_datagrams" using mem by (simp add: benign_def demo_datagrams_def demo_server_def)
  obtain kl where kl: "co_flows demo_udp 1 = Some kl" "acceptPending (fo_flow kl)" "\<not> readBufferMsgComplete (fo_flow kl)"
    "\<not> security_needed (fo_flow kl)" "read_wf (fo_flow kl)" "fo_socket kl = 4" "readBufferAllocation (fo_flow kl) = 16384" "readBufferSize (fo_flow kl) = 8192"
    by (simp add: demo_udp_def fresh_flow_def read_wf_def)
  obtain o0 ol where so: "co_sockets demo_udp 4 = Some o0" "read_size (so_socket o0) = 0" "co_sockets demo_udp 2 = Some ol"
    "stack (so_socket ol) = NEAT_STACK_UDP" "read_size (so_socket ol) = 0" by (simp add: demo_udp_def fresh_socket_def)
  have thr: "space_threshold (so_socket o0) = 8192" "space_threshold (so_socket ol) = 8192" using so by (simp_all add: space_threshold_def)
  have recv: "\<And>x w. \<exists>w'. ce_recvfrom demo_datagrams x (readBufferAllocation (fo_flow kl)) w = (Some (replicate 8193 7), SS_INET 80 1, w')"
    by (simp add: demo_datagrams_def kl(7))
  have fin: "finite (dom (co_flows demo_udp))" "finite (dom (co_sockets demo_udp))" "co_flow_list demo_udp = [1]" by (simp_all add: demo_udp_def)
  have o0: "co_sockets demo_udp (fo_socket kl) = Some o0" using so(1) kl(6) by simp
  show ?thesis
    by (rule udp_accept_overflow [OF env fin kl(1-5) o0 _ so(3,4) recv]) (simp_all add: thr kl(7,8))
qed

end
