(* ===== verification/Happy_Eyeballs.thy ===== *)
theory Happy_Eyeballs
  imports Core_Streams
begin

text \<open>
  Connecting a flow (\<open>neat_he.c\<close> and the functions of \<open>neat_core.c\<close> it works with). Every candidate, a pair of
  addresses with a protocol stack, gets a timer by its priority; when the timer fires, a socket is created
  and connected (\<open>nt_connect\<close>); when the socket is ready, \<open>he_connected_cb\<close> makes the first candidate that
  has connected the socket of the flow, and closes the others.

  A callback that ends with a call into the rest of the library is modelled in two parts: what it does
  itself, with the call that follows as a value of type \<open>he_action\<close>, and that call.

  Configuration. As in the theories \<open>Neat_Flow\<close> and \<open>Core_Streams\<close>; all options of \<open>nt_prepare_sctp_socket\<close>
  are defined. \<open>setsockopt\<close> returns 0 or -1.
\<close>

section \<open>Preparing a socket\<close>

fun set_options :: "'k core_env \<Rightarrow> (string \<times> int list) list \<Rightarrow> int \<Rightarrow> 'k core \<Rightarrow> bool \<times> 'k core" where
  "set_options env [] d s = (True, s)"
| "set_options env ((n, v) # os) d s =
     (case world_call (ce_setsockopt env n d v) s of (rc, s1) \<Rightarrow> if rc < 0 then (False, s1) else set_options env os d s1)"

definition sctp_options :: "(string \<times> int list) list" where
  "sctp_options = [(''SCTP_ADAPTATION_LAYER'', [uint SCTP_ADAPTATION_NEAT]), (''SCTP_FRAGMENT_INTERLEAVE'', [2]),
     (''SCTP_INTERLEAVING_SUPPORTED'', [1]), (''SCTP_ENABLE_STREAM_RESET'', [1]), (''SCTP_NODELAY'', [1])]"

definition SCTP_STREAMCOUNT :: int where "SCTP_STREAMCOUNT = 123"

definition sctp_receive_options :: "(string \<times> int list) list" where
  "sctp_receive_options = [(''SCTP_RECVRCVINFO'', [1]), (''SCTP_RECVNXTINFO'', [1]),
     (''SCTP_INITMSG'', [SCTP_STREAMCOUNT, SCTP_STREAMCOUNT, 3, 3000])]"

text \<open>The result tells also whether the kernel takes explicit ends of records.\<close>

definition nt_prepare_sctp_socket :: "'k core_env \<Rightarrow> bool \<Rightarrow> int \<Rightarrow> 'k core \<Rightarrow> (neat_error_code \<times> bool \<times> 'k core) option" where
  "nt_prepare_sctp_socket env secure d s =
     (case set_options env sctp_options d s of
        (False, s1) \<Rightarrow> Some (NEAT_ERROR_INTERNAL, False, s1)
      | (True, s1) \<Rightarrow>
          (let (eor, s2) = (if secure then (False, s1)
                            else (case world_call (ce_setsockopt env ''SCTP_EXPLICIT_EOR'' d [1]) s1 of (rc, s2) \<Rightarrow> (rc = 0, s2)))
           in (case set_options env sctp_receive_options d s2 of
                 (False, s3) \<Rightarrow> Some (NEAT_ERROR_INTERNAL, eor, s3)
               | (True, s3) \<Rightarrow> do {
                   s4 \<leftarrow> (if secure then Some s3 else nt_sctp_init_events env sctp_event_types d s3);
                   Some (NEAT_OK, eor, s4) })))"

section \<open>Connecting a candidate\<close>

fun apply_sockopt :: "'k core_env \<Rightarrow> int \<Rightarrow> neat_he_sockopt \<Rightarrow> 'k core \<Rightarrow> 'k core" where
  "apply_sockopt env d (NEAT_SOCKOPT_INT level name v) s = snd (world_call (ce_setsockopt env ''INT'' d [level, name, v]) s)"
| "apply_sockopt env d (NEAT_SOCKOPT_STRING level name v) s =
     snd (world_call (ce_setsockopt env ''STRING'' d ([level, name] @ map of_char v)) s)"

text \<open>Binding to the local address, or to all local addresses of a multihomed SCTP association.\<close>

definition connect_bind :: "'k core_env \<Rightarrow> candidate_obj \<Rightarrow> flow_obj \<Rightarrow> int \<Rightarrow> 'k core \<Rightarrow> bool \<times> 'k core" where
  "connect_bind env ca k d s =
     (let close = (\<lambda>s. s\<lparr>co_world := ce_close env d (co_world s)\<rparr>)
      in if fo_isMultihoming k \<and> nt_base_stack (stack (ca_socket ca)) = NEAT_STACK_SCTP
         then (case world_call (ce_malloc env (Suc (length (ca_src_address ca)))) s of
                 (False, s1) \<Rightarrow> (False, s1)
               | (True, s1) \<Rightarrow>
                   (case world_call (ce_bindx env d (strtok '','' (ca_src_address ca)) (ca_nr_local_addr ca)) s1 of (rc, s2) \<Rightarrow>
                      if rc \<noteq> 0 then (False, close s2) else (True, s2)))
         else (case world_call (ce_bind env d (ca_src_sockaddr ca)) s of (rc, s1) \<Rightarrow>
                 if rc \<noteq> 0 then (False, close s1) else (True, s1)))"

definition bind_to_device :: "'k core_env \<Rightarrow> candidate_obj \<Rightarrow> int \<Rightarrow> 'k core \<Rightarrow> 'k core" where
  "bind_to_device env ca d s =
     (case world_call (ce_if_indextoname env (ca_if_idx ca)) s of
        (None, s1) \<Rightarrow> s1
      | (Some name, s1) \<Rightarrow> snd (world_call (ce_setsockopt env ''SO_BINDTODEVICE'' d (map of_char name)) s1))"

text \<open>The sizes of the buffers of the kernel, 0 when they are not known.\<close>

definition buffer_size :: "'k core_env \<Rightarrow> string \<Rightarrow> int \<Rightarrow> 'k core \<Rightarrow> nat \<times> 'k core" where
  "buffer_size env name d s = (case world_call (ce_getsockopt env name d) s of (r, s1) \<Rightarrow> (case r of None \<Rightarrow> 0 | Some n \<Rightarrow> n, s1))"

definition connect_sizes :: "'k core_env \<Rightarrow> nat \<Rightarrow> int \<Rightarrow> 'k core \<Rightarrow> 'k core" where
  "connect_sizes env c d s =
     (case buffer_size env ''SO_SNDBUF'' d s of (n, s1) \<Rightarrow>
      case buffer_size env ''SO_RCVBUF'' d s1 of (m, s2) \<Rightarrow>
        modify_candidate c (\<lambda>k. k\<lparr>ca_socket := (ca_socket k)\<lparr>write_size := n, read_size := m\<rparr>\<rparr>) s2)"

text \<open>What depends on the stack. The process exits when a socket cannot be prepared for SCTP.\<close>

definition connect_stack :: "'k core_env \<Rightarrow> nat \<Rightarrow> flow_obj \<Rightarrow> int \<Rightarrow> 'k core \<Rightarrow> (bool \<times> 'k core) option" where
  "connect_stack env c k d s = do {
     ca \<leftarrow> co_candidates s c;
     case stack (ca_socket ca) of
       NEAT_STACK_TCP \<Rightarrow> Some (True, case fo_cc_algorithm k of
           None \<Rightarrow> s
         | Some algo \<Rightarrow> snd (world_call (ce_setsockopt env ''TCP_CONGESTION'' d (map of_char algo)) s))
     | NEAT_STACK_SCTP_UDP \<Rightarrow> Some (False, s\<lparr>co_world := ce_close env d (co_world s)\<rparr>)
     | NEAT_STACK_SCTP \<Rightarrow> do {
         (code, eor, s1) \<leftarrow> nt_prepare_sctp_socket env (security_needed (fo_flow k)) d s;
         c_assert (code = NEAT_OK);
         Some (True, modify_candidate c (\<lambda>k. k\<lparr>ca_socket := (ca_socket k)
           \<lparr>write_limit := write_size (ca_socket k) div 4, sctp_explicit_eor := (sctp_explicit_eor (ca_socket k) \<or> eor)\<rparr>\<rparr>) s1) }
     | _ \<Rightarrow> Some (True, s) }"

definition nt_connect :: "'k core_env \<Rightarrow> nat \<Rightarrow> 'k core \<Rightarrow> (int \<times> 'k core) option" where
  "nt_connect env c s = do {
     ca \<leftarrow> co_candidates s c;
     f \<leftarrow> ca_flow ca;
     k \<leftarrow> co_flows s f;
     let protocol = nt_stack_to_protocol (nt_base_stack (stack (ca_socket ca)));
     if protocol = IPPROTO_0 then Some (- 1, s)
     else do {
       let (d, s1) = world_call (ce_socket env (ca_family ca) (ca_type ca) protocol) s;
       let s2 = modify_candidate c (\<lambda>k. k\<lparr>ca_socket := (ca_socket k)\<lparr>fd := d\<rparr>\<rparr>) s1;
       if d < 0 then Some (- 1, s2)
       else do {
         let s3 = snd (world_call (ce_setsockopt env ''SO_REUSEADDR'' d [1]) s2);
         let s4 = snd (world_call (ce_setsockopt env ''SO_REUSEPORT'' d [1]) s3);
         let s5 = fold (apply_sockopt env d) (ca_sock_opts ca) s4;
         let (bound, s6) = connect_bind env ca k d s5;
         if \<not> bound then Some (- 1, s6)
         else do {
           (ok, s7) \<leftarrow> connect_stack env c k d (connect_sizes env c d (bind_to_device env ca d s6));
           if \<not> ok then Some (- 1, s7)
           else do {
             c_assert (ca_handle ca \<noteq> HANDLE_NULL \<and> d \<noteq> 0);
             let s8 = modify_candidate c (\<lambda>k. k\<lparr>ca_handle := HANDLE_OWN UV_STOPPED\<rparr>) s7;
             let (retval, s9) = world_call (ce_connect env d (ca_dst_sockaddr ca)) s8;
             Some (if retval = CONNECT_ERROR then (- 2, s9)
                   else (0, modify_candidate c (\<lambda>k. k\<lparr>ca_handle := HANDLE_OWN UV_POLLING\<rparr>) s9)) } } } } }"

section \<open>Telling the policy manager\<close>

text \<open>The socket of the policy manager: from the environment, or in the home directory.\<close>

definition pm_socket_path :: "'k core_env \<Rightarrow> string \<Rightarrow> string \<Rightarrow> 'k \<Rightarrow> string option" where
  "pm_socket_path env var name w =
     (case ce_getenv env var w of
        Some path \<Rightarrow> Some path
      | None \<Rightarrow> do {
          home \<leftarrow> ce_getenv env ''HOME'' w;
          let path = home @ ''/.neat/'' @ name;
          if length path \<ge> 128 then None else Some path })"

definition json_value :: "json \<Rightarrow> json" where "json_value v = JSON_OBJECT [(''value'', v)]"

definition he_result_json :: "candidate_obj \<Rightarrow> bool \<Rightarrow> json \<Rightarrow> json option" where
  "he_result_json ca result properties = do {
     name \<leftarrow> stack_to_string (stack (ca_socket ca));
     prop_obj \<leftarrow> json_object_update_missing (JSON_OBJECT [
         (''transport'', json_value (JSON_STRING name)),
         (''remote_ip'', json_value (JSON_STRING (ca_dst_address ca))),
         (''port'', json_value (JSON_INTEGER (uint (ca_port ca)))),
         (''__he_candidate_success'', JSON_OBJECT [(''value'', json_bool result), (''score'', JSON_INTEGER (if result then 5 else - 5))]),
         (''__cached'', json_value JSON_TRUE)]) properties;
     Some (JSON_ARRAY [JSON_OBJECT [
         (''match'', JSON_ARRAY [JSON_OBJECT [(''interface'', json_value (JSON_STRING (ca_if_name ca)))]]),
         (''link'', JSON_TRUE),
         (''properties'', json_object_del prop_obj ''interface'')]]) }"

text \<open>Without memory for the message, as without a path, nothing is sent.\<close>

definition send_result_connection_attempt_to_pm :: "'k core_env \<Rightarrow> candidate_obj \<Rightarrow> json \<Rightarrow> bool \<Rightarrow> 'k core \<Rightarrow> 'k core" where
  "send_result_connection_attempt_to_pm env ca properties result s =
     (case pm_socket_path env ''NEAT_CIB_SOCKET'' ''neat_cib_socket'' (co_world s) of
        None \<Rightarrow> s
      | Some path \<Rightarrow>
          (case world_call (ce_malloc env 1) s of
             (False, s1) \<Rightarrow> s1
           | (True, s1) \<Rightarrow>
               (case he_result_json ca result properties of
                  None \<Rightarrow> s1
                | Some j \<Rightarrow> s1\<lparr>co_world := ce_pm_send env path j (co_world s1)\<rparr>)))"

section \<open>The callbacks of the connection attempts\<close>

text \<open>How a callback goes on: not at all, with the callback of the flow's socket, with the installation of TLS, or with an error.\<close>

datatype he_action = HE_CONTINUE | HE_POLL_FLOW | HE_SECURE | HE_ERROR neat_error_code

text \<open>The timer of a candidate has fired: \<open>on_he_connect_req\<close> up to the report of an error.\<close>

definition he_connect_req :: "'k core_env \<Rightarrow> nat \<Rightarrow> 'k core \<Rightarrow> (he_action \<times> 'k core) option" where
  "he_connect_req env c s = do {
     ca \<leftarrow> co_candidates s c;
     f \<leftarrow> ca_flow ca;
     _ \<leftarrow> ca_prio_timer ca;
     (ret, s1) \<leftarrow> nt_connect env c (modify_candidate c (\<lambda>k. k\<lparr>ca_prio_timer := None\<rparr>) s);
     if ret = - 1 \<or> ret = - 2
     then do {
       let s2 = modify_candidate c (\<lambda>k. k\<lparr>ca_handle := HANDLE_NULL\<rparr>) s1;
       let s3 = modify_flow_obj f (\<lambda>k. k\<lparr>fo_heConnectAttemptCount := fo_heConnectAttemptCount k - 1\<rparr>) s2;
       k \<leftarrow> co_flows s3 f;
       if fo_heConnectAttemptCount k = 0 then Some (HE_ERROR NEAT_ERROR_IO, s3)
       else do {
         s4 \<leftarrow> nt_free_candidate env c (modify_flow_obj f (\<lambda>k. k\<lparr>fo_candidates := remove1 c (fo_candidates k)\<rparr>) s3);
         Some (HE_CONTINUE, s4) } }
     else Some (HE_CONTINUE, s1) }"

text \<open>The first candidate that has connected: its descriptor and handle become those of the socket of the flow.\<close>

definition take_candidate :: "candidate_obj \<Rightarrow> nat \<Rightarrow> socket_obj \<Rightarrow> socket_obj" where
  "take_candidate ca f k = k\<lparr>so_flow := Some f, so_handle := UV_POLLING, so_family := ca_family ca, so_type := ca_type ca,
     so_socket := (so_socket k)\<lparr>fd := fd (ca_socket ca), stack := stack (ca_socket ca), write_size := write_size (ca_socket ca),
       write_limit := write_limit (ca_socket ca), read_size := read_size (ca_socket ca),
       sctp_explicit_eor := sctp_explicit_eor (ca_socket ca), sctp_notification_wait := sctp_notification_wait (ca_socket ca)\<rparr>\<rparr>"

definition he_win :: "'k core_env \<Rightarrow> nat \<Rightarrow> nat \<Rightarrow> 'k core \<Rightarrow> (he_action \<times> 'k core) option" where
  "he_win env c f s = do {
     ca \<leftarrow> co_candidates s c;
     k \<leftarrow> co_flows s f;
     let sk = fo_socket k;
     o' \<leftarrow> co_sockets s sk;
     c_assert (so_handle o' = UV_UNKNOWN_HANDLE);
     let s1 = modify_socket_obj sk (take_candidate ca f) s;
     let s2 = modify_candidate c (\<lambda>k. k\<lparr>ca_handle := HANDLE_OF_SOCKET sk\<rparr>) s1;
     let s3 = modify_flow_obj f (\<lambda>k. k\<lparr>fo_hefirstConnect := False, fo_properties := ca_properties ca, fo_everConnected := True\<rparr>) s2;
     let s4 = send_result_connection_attempt_to_pm env ca (ca_properties ca) True (modify_flow f (\<lambda>k. k\<lparr>isPolling := True\<rparr>) s3);
     Some (if security_needed (fo_flow k) \<and> (stack (ca_socket ca) = NEAT_STACK_TCP \<or> stack (ca_socket ca) = NEAT_STACK_UDP)
           then (HE_SECURE, s4) else (HE_POLL_FLOW, modify_flow f (\<lambda>k. k\<lparr>firstWritePending := True\<rparr>) s4)) }"

text \<open>A candidate that has failed, or has connected after another: it is closed, freed and counted out.\<close>

definition he_lose :: "'k core_env \<Rightarrow> nat \<Rightarrow> nat \<Rightarrow> bool \<Rightarrow> 'k core \<Rightarrow> (he_action \<times> 'k core) option" where
  "he_lose env c f result s = do {
     ca \<leftarrow> co_candidates s c;
     k \<leftarrow> co_flows s f;
     let s1 = send_result_connection_attempt_to_pm env ca (fo_properties k) result s;
     let s2 = s1\<lparr>co_world := ce_close env (fd (ca_socket ca)) (co_world s1)\<rparr>;
     let s3 = modify_flow_obj f (\<lambda>k. k\<lparr>fo_candidates := remove1 c (fo_candidates k),
                fo_heConnectAttemptCount := fo_heConnectAttemptCount k - 1\<rparr>) (free_candidate c s2);
     Some (if fo_heConnectAttemptCount k - 1 = 0 then HE_ERROR NEAT_ERROR_UNABLE else HE_CONTINUE, s3) }"

text \<open>The socket of a candidate is ready: \<open>he_connected_cb\<close> up to the call that follows. The argument \<open>status\<close> is not used.\<close>

definition he_connected :: "'k core_env \<Rightarrow> nat \<Rightarrow> 'k core \<Rightarrow> (he_action \<times> 'k core) option" where
  "he_connected env c s = do {
     ca \<leftarrow> co_candidates s c;
     f \<leftarrow> ca_flow ca;
     k \<leftarrow> co_flows s f;
     let (r, s1) = world_call (ce_so_error env (fd (ca_socket ca))) s;
     case r of
       None \<Rightarrow> Some (HE_ERROR NEAT_ERROR_INTERNAL, modify_candidate c (\<lambda>k. k\<lparr>ca_handle := HANDLE_OWN UV_CLOSING\<rparr>) s1)
     | Some status \<Rightarrow> do {
         let (m1, s2) = world_call (ce_malloc env 1) s1;
         let (m2, s3) = (if m1 then world_call (ce_malloc env (Suc (length (ca_if_name ca)))) s2 else (False, s2));
         let (m3, s4) = (if m2 then world_call (ce_malloc env (Suc (length (ca_dst_address ca)))) s3 else (False, s3));
         if \<not> m3 then Some (HE_CONTINUE, s4)
         else if firstWritePending (fo_flow k)
         then Some (HE_POLL_FLOW, send_result_connection_attempt_to_pm env ca (fo_properties k) True s4)
         else if fo_hefirstConnect k \<and> status = SO_NONE then he_win env c f s4
         else he_lose env c f (status = SO_NONE) s4 } }"

definition install_security :: "'k core_env \<Rightarrow> nat \<Rightarrow> 'k core \<Rightarrow> (bool \<times> 'k core) option" where
  "install_security env c s = do {
     ca \<leftarrow> co_candidates s c;
     f \<leftarrow> ca_flow ca;
     k \<leftarrow> co_flows s f;
     if property_is (ca_properties ca) ''security'' TYPE_TRUE
     then do {
       c_assert (\<not> fo_skipCertVerification k);
       let s1 = (if \<not> fo_isServer k \<and> property_is (ca_properties ca) ''verification'' TYPE_FALSE
                 then modify_flow_obj f (\<lambda>k. k\<lparr>fo_skipCertVerification := True\<rparr>) s else s);
       s2 \<leftarrow> (case ce_security_install env f s1 of (code, s2) \<Rightarrow>
               if code \<noteq> NEAT_OK then run_callback env on_error CB_error NEAT_ERROR_SECURITY (- 1) f s2 else Some s2);
       Some (True, s2) }
     else Some (False, s) }"

text \<open>The call that follows.\<close>

definition he_finish :: "'k core_env \<Rightarrow> nat \<Rightarrow> nat \<Rightarrow> bool \<Rightarrow> bool \<Rightarrow> he_action \<Rightarrow> 'k core \<Rightarrow> 'k core option" where
  "he_finish env c f readable writable act s =
     (let poll = (\<lambda>s. do { k \<leftarrow> co_flows s f; uvpollable_cb env (fo_socket k) 0 readable writable s })
      in (case act of
            HE_CONTINUE \<Rightarrow> Some s
          | HE_POLL_FLOW \<Rightarrow> poll s
          | HE_SECURE \<Rightarrow> do {
              (installed, s1) \<leftarrow> install_security env c s;
              if installed then Some s1 else poll (modify_flow f (\<lambda>k. k\<lparr>firstWritePending := True\<rparr>) s1) }
          | HE_ERROR code \<Rightarrow> run_callback env on_error CB_error code (- 1) f s))"

definition on_he_connect_req :: "'k core_env \<Rightarrow> nat \<Rightarrow> 'k core \<Rightarrow> 'k core option" where
  "on_he_connect_req env c s = do {
     ca \<leftarrow> co_candidates s c;
     f \<leftarrow> ca_flow ca;
     (act, s1) \<leftarrow> he_connect_req env c s;
     he_finish env c f False False act s1 }"

definition he_connected_cb :: "'k core_env \<Rightarrow> nat \<Rightarrow> bool \<Rightarrow> bool \<Rightarrow> 'k core \<Rightarrow> 'k core option" where
  "he_connected_cb env c readable writable s = do {
     ca \<leftarrow> co_candidates s c;
     f \<leftarrow> ca_flow ca;
     (act, s1) \<leftarrow> he_connected env c s;
     he_finish env c f readable writable act s1 }"

text \<open>The handle of a candidate that \<open>he_connected_cb\<close> has closed is freed; the candidate may still point to it.\<close>

definition free_he_handle_cb :: "nat \<Rightarrow> 'k core \<Rightarrow> 'k core" where
  "free_he_handle_cb c s = modify_candidate c (\<lambda>k. k\<lparr>ca_handle := HANDLE_FREED\<rparr>) s"

section \<open>Starting the connection attempts\<close>

definition HE_PRIO_DELAY :: int where "HE_PRIO_DELAY = 10"

text \<open>The delay of a candidate, from its priority or from the property \<open>__he_delay\<close>, as the unsigned argument of \<open>uv_timer_start\<close>.\<close>

definition he_delay :: "candidate_obj \<Rightarrow> u64 option" where
  "he_delay ca =
     (case json_object_get (ca_properties ca) ''__he_delay'' of
        None \<Rightarrow> Some (of_int (to_int32 (HE_PRIO_DELAY * ca_priority ca)))
      | Some p \<Rightarrow> do { v \<leftarrow> json_object_get p ''value''; Some (of_int (to_int32 (json_integer_value v * ca_priority ca))) })"

definition delayed_he_connect_req :: "'k core_env \<Rightarrow> nat \<Rightarrow> 'k core \<Rightarrow> 'k core option" where
  "delayed_he_connect_req env c s = do {
     ca \<leftarrow> co_candidates s c;
     delay \<leftarrow> he_delay ca;
     let (ok, s1) = world_call (ce_malloc env 1) s;
     c_assert ok;
     Some (modify_candidate c (\<lambda>k. k\<lparr>ca_prio_timer := Some delay\<rparr>) s1) }"

definition start_candidate :: "nat \<Rightarrow> candidate_obj \<Rightarrow> candidate_obj" where
  "start_candidate f ca = ca\<lparr>ca_handle := HANDLE_OWN UV_UNKNOWN_HANDLE, ca_flow := Some f,
     ca_type := (if stack (ca_socket ca) = NEAT_STACK_UDP \<or> stack (ca_socket ca) = NEAT_STACK_UDPLITE then SOCK_DGRAM else SOCK_STREAM),
     ca_socket := (ca_socket ca)\<lparr>fd := - 1\<rparr>, ca_prio_timer := None\<rparr>"

fun he_start :: "'k core_env \<Rightarrow> nat \<Rightarrow> nat list \<Rightarrow> 'k core \<Rightarrow> 'k core option" where
  "he_start env f [] s = Some s"
| "he_start env f (c # cs) s = do {
     let (ok, s1) = world_call (ce_malloc env 1) s;
     c_assert ok;
     s2 \<leftarrow> delayed_he_connect_req env c (modify_candidate c (start_candidate f) s1);
     he_start env f cs (modify_flow_obj f (\<lambda>k. k\<lparr>fo_heConnectAttemptCount := fo_heConnectAttemptCount k + 1\<rparr>) s2) }"

definition nt_he_open :: "'k core_env \<Rightarrow> nat \<Rightarrow> nat list \<Rightarrow> 'k core \<Rightarrow> 'k core option" where
  "nt_he_open env f candidate_list s = do {
     (finished, s1) \<leftarrow> he_open_stream env f candidate_list s;
     if finished then Some s1
     else he_start env f candidate_list
            (modify_flow_obj f (\<lambda>k. k\<lparr>fo_hefirstConnect := True, fo_heConnectAttemptCount := 0\<rparr>) s1) }"

text \<open>The timer of a flow that has waited for an association to the same host.\<close>

definition on_delayed_he_open :: "'k core_env \<Rightarrow> nat \<Rightarrow> 'k core \<Rightarrow> 'k core option" where
  "on_delayed_he_open env f s = do {
     k \<leftarrow> co_flows s f;
     nt_he_open env f (fo_candidates k) (modify_flow_obj f (\<lambda>k. k\<lparr>fo_multistream_timer := False\<rparr>) s) }"

end
