(* ===== verification/He_Race.thy ===== *)
theory He_Race
  imports Happy_Eyeballs Stream_Props
begin

text \<open>
  The race of the candidates of a flow. As long as no candidate has connected, a timer or a ready socket
  either leaves the race open with one candidate less or one step further, or decides it: the first candidate
  that connects becomes the socket of the flow, or the last one has failed and an error is reported.
\<close>

section \<open>Steps that change the world only\<close>

definition only_world :: "'k core \<Rightarrow> 'k core \<Rightarrow> bool" where
  "only_world s s1 \<longleftrightarrow> s1 = s\<lparr>co_world := co_world s1\<rparr>"

lemma only_world_refl [simp]: "only_world s s"
  by (simp add: only_world_def)

lemma only_world_world [simp]: "only_world s (s\<lparr>co_world := w\<rparr>)"
  by (simp add: only_world_def)

lemma only_world_trans [trans]: "only_world s s1 \<Longrightarrow> only_world s1 s2 \<Longrightarrow> only_world s s2"
  by (cases s; cases s1; cases s2) (simp add: only_world_def)

lemma only_world_then: "only_world s s1 \<Longrightarrow> only_world s (s1\<lparr>co_world := w\<rparr>)"
  by (erule only_world_trans) simp

lemma only_worldD:
  assumes "only_world s s1"
  shows "co_flows s1 = co_flows s" "co_sockets s1 = co_sockets s" "co_candidates s1 = co_candidates s" "co_flow_list s1 = co_flow_list s"
  using assms by (cases s; cases s1; simp add: only_world_def)+

lemma set_options_world: "only_world s (snd (set_options env os d s))"
proof (induction os arbitrary: s)
  case (Cons x os)
  show ?case using only_world_trans [OF only_world_world Cons.IH]
    by (cases x) (auto simp: world_call_eq)
qed simp

lemma set_options_ok:
  assumes "\<And>n d v w. 0 \<le> fst (ce_setsockopt env n d v w)"
  shows "fst (set_options env os d s)"
proof (induction os arbitrary: s)
  case (Cons x os)
  then show ?case using assms by (cases x) (simp add: world_call_eq not_less)
qed simp

lemma init_events_world:
  assumes "\<And>n d v w. 0 \<le> fst (ce_setsockopt env n d v w)"
  shows "\<exists>s1. nt_sctp_init_events env ts d s = Some s1 \<and> only_world s s1"
proof (induction ts arbitrary: s)
  case (Cons t ts)
  let ?s = "s\<lparr>co_world := snd (ce_setsockopt env ''SCTP_EVENT'' d [t, 1] (co_world s))\<rparr>"
  from Cons.IH [of ?s] obtain s1 where "nt_sctp_init_events env ts d ?s = Some s1" "only_world ?s s1" by blast
  with assms show ?case by (auto simp: world_call_eq intro: only_world_trans [OF only_world_world])
qed simp

lemma prepare_sctp_ok:
  assumes "\<And>n d v w. 0 \<le> fst (ce_setsockopt env n d v w)"
  shows "\<exists>eor s1. nt_prepare_sctp_socket env secure d s = Some (NEAT_OK, eor, s1) \<and> only_world s s1"
proof -
  obtain s1 where s1: "set_options env sctp_options d s = (True, s1)" "only_world s s1"
    using set_options_ok [OF assms, of sctp_options d s] set_options_world [of s env sctp_options d] by (cases "set_options env sctp_options d s") auto
  define s2 where "s2 = (if secure then s1 else s1\<lparr>co_world := snd (ce_setsockopt env ''SCTP_EXPLICIT_EOR'' d [1] (co_world s1))\<rparr>)"
  have w2: "only_world s s2" using s1(2) by (simp add: s2_def only_world_then)
  obtain s3 where s3: "set_options env sctp_receive_options d s2 = (True, s3)" "only_world s2 s3"
    using set_options_ok [OF assms, of sctp_receive_options d s2] set_options_world [of s2 env sctp_receive_options d]
    by (cases "set_options env sctp_receive_options d s2") auto
  from init_events_world [OF assms, of sctp_event_types d s3] obtain s4 where
    s4: "nt_sctp_init_events env sctp_event_types d s3 = Some s4" "only_world s3 s4" by blast
  have "only_world s s3" "only_world s s4" using only_world_trans [OF w2 s3(2)] only_world_trans [OF only_world_trans [OF w2 s3(2)] s4(2)] by simp_all
  then show ?thesis using s1(1) s3(1) s4(1) by (cases secure) (auto simp: nt_prepare_sctp_socket_def s2_def world_call_eq intro: exI [of _ False])
qed

section \<open>Steps that set up the socket of one candidate\<close>

definition tuned :: "nat \<Rightarrow> 'k core \<Rightarrow> 'k core \<Rightarrow> bool" where
  "tuned c s s1 \<longleftrightarrow> (\<exists>ca sock h w. co_candidates s c = Some ca \<and> stack sock = stack (ca_socket ca) \<and>
     s1 = s\<lparr>co_candidates := (co_candidates s)(c \<mapsto> ca\<lparr>ca_socket := sock, ca_handle := h\<rparr>), co_world := w\<rparr>)"

lemma tunedI:
  assumes "co_candidates s c = Some ca" and "stack sock = stack (ca_socket ca)"
    and "s1 = s\<lparr>co_candidates := (co_candidates s)(c \<mapsto> ca\<lparr>ca_socket := sock, ca_handle := h\<rparr>), co_world := w\<rparr>"
  shows "tuned c s s1"
  using assms by (auto simp: tuned_def)

lemma tuned_trans [trans]:
  assumes "tuned c s s1" and "tuned c s1 s2" shows "tuned c s s2"
proof -
  from assms(1) obtain ca sock h w where
    1: "co_candidates s c = Some ca" "stack sock = stack (ca_socket ca)" "s1 = s\<lparr>co_candidates := (co_candidates s)(c \<mapsto> ca\<lparr>ca_socket := sock, ca_handle := h\<rparr>), co_world := w\<rparr>"
    by (auto simp: tuned_def)
  with assms(2) obtain sock' h' w' where "stack sock' = stack sock"
    "s2 = s1\<lparr>co_candidates := (co_candidates s1)(c \<mapsto> ca\<lparr>ca_socket := sock', ca_handle := h'\<rparr>), co_world := w'\<rparr>" by (auto simp: tuned_def)
  with 1 show ?thesis by (intro tunedI [where ca = ca and sock = sock' and h = h' and w = w']) auto
qed

lemma tuned_world:
  assumes "only_world s s1" and "co_candidates s c \<noteq> None" shows "tuned c s s1"
proof -
  from assms(2) obtain ca where ca: "co_candidates s c = Some ca" by blast
  have "s1 = s\<lparr>co_candidates := (co_candidates s)(c \<mapsto> ca\<lparr>ca_socket := ca_socket ca, ca_handle := ca_handle ca\<rparr>), co_world := co_world s1\<rparr>"
    using assms(1) ca by (cases s; cases s1) (simp add: only_world_def fun_upd_idem)
  with ca show ?thesis by (blast intro: tunedI)
qed

lemma tuned_then_world: "tuned c s s1 \<Longrightarrow> only_world s1 s2 \<Longrightarrow> tuned c s s2"
  by (rule tuned_trans, assumption, rule tuned_world) (auto simp: tuned_def)

lemma tuned_modify:
  assumes "tuned c s s1" and "\<And>k. \<exists>sock h. stack sock = stack (ca_socket k) \<and> u k = k\<lparr>ca_socket := sock, ca_handle := h\<rparr>"
  shows "tuned c s (modify_candidate c u s1)"
proof -
  from assms(1) obtain ca1 where ca1: "co_candidates s1 c = Some ca1" by (auto simp: tuned_def)
  from assms(2) [of ca1] obtain sock h where "stack sock = stack (ca_socket ca1)" "u ca1 = ca1\<lparr>ca_socket := sock, ca_handle := h\<rparr>" by blast
  with ca1 have "tuned c s1 (modify_candidate c u s1)"
    by (intro tunedI [where ca = ca1 and sock = sock and h = h and w = "co_world s1"]) (simp_all add: modify_candidate_def)
  with assms(1) show ?thesis by (rule tuned_trans)
qed

lemma tunedD:
  assumes "tuned c s s1"
  shows "co_flows s1 = co_flows s" "co_sockets s1 = co_sockets s" "a \<noteq> c \<Longrightarrow> co_candidates s1 a = co_candidates s a"
    "co_candidates s c = Some ca \<Longrightarrow> \<exists>sock h. co_candidates s1 c = Some (ca\<lparr>ca_socket := sock, ca_handle := h\<rparr>) \<and> stack sock = stack (ca_socket ca)"
proof -
  from assms obtain ca' sock h w where 1: "co_candidates s c = Some ca'" "stack sock = stack (ca_socket ca')"
    "s1 = s\<lparr>co_candidates := (co_candidates s)(c \<mapsto> ca'\<lparr>ca_socket := sock, ca_handle := h\<rparr>), co_world := w\<rparr>" by (auto simp: tuned_def)
  show "co_flows s1 = co_flows s" "co_sockets s1 = co_sockets s" "a \<noteq> c \<Longrightarrow> co_candidates s1 a = co_candidates s a" using 1(3) by simp_all
  assume "co_candidates s c = Some ca"
  with 1 show "\<exists>sock h. co_candidates s1 c = Some (ca\<lparr>ca_socket := sock, ca_handle := h\<rparr>) \<and> stack sock = stack (ca_socket ca)"
    by (intro exI [of _ sock] exI [of _ h]) simp
qed

definition fd_is :: "nat \<Rightarrow> int \<Rightarrow> 'k core \<Rightarrow> bool" where
  "fd_is c d s \<longleftrightarrow> (\<exists>ca. co_candidates s c = Some ca \<and> fd (ca_socket ca) = d)"

lemma fd_is_world: "only_world s s1 \<Longrightarrow> fd_is c d s1 = fd_is c d s"
  by (simp add: fd_is_def only_worldD)

lemma fold_sockopt_world: "only_world s (fold (apply_sockopt env d) os s)"
proof (induction os arbitrary: s)
  case (Cons x os)
  have "only_world s (apply_sockopt env d x s)" by (cases x) simp_all
  from only_world_trans [OF this Cons.IH] show ?case by simp
qed simp

lemma connect_bind_world: "only_world s (snd (connect_bind env ca k d s))"
  by (auto simp: connect_bind_def Let_def world_call_eq split: bool.split)

lemma bind_to_device_world: "only_world s (bind_to_device env ca d s)"
  by (auto simp: bind_to_device_def world_call_eq split: option.split)

lemma connect_sizes_tuned:
  assumes "co_candidates s c \<noteq> None" shows "tuned c s (connect_sizes env c d s) \<and> (fd_is c x s \<longrightarrow> fd_is c x (connect_sizes env c d s))"
proof -
  obtain n m w where eq: "connect_sizes env c d s = modify_candidate c (\<lambda>k. k\<lparr>ca_socket := (ca_socket k)\<lparr>write_size := n, read_size := m\<rparr>\<rparr>) (s\<lparr>co_world := w\<rparr>)"
    by (simp add: connect_sizes_def buffer_size_def world_call_eq)
  have "tuned c s (connect_sizes env c d s)" unfolding eq
  proof (rule tuned_modify)
    show "tuned c s (s\<lparr>co_world := w\<rparr>)" by (rule tuned_world) (use assms in simp_all)
    show "\<exists>sock h. stack sock = stack (ca_socket k) \<and> k\<lparr>ca_socket := (ca_socket k)\<lparr>write_size := n, read_size := m\<rparr>\<rparr> = k\<lparr>ca_socket := sock, ca_handle := h\<rparr>" for k
      by (intro exI [of _ "(ca_socket k)\<lparr>write_size := n, read_size := m\<rparr>"] exI [of _ "ca_handle k"]) simp
  qed
  moreover have "fd_is c x s \<longrightarrow> fd_is c x (connect_sizes env c d s)" by (auto simp: eq fd_is_def)
  ultimately show ?thesis by blast
qed

lemma connect_stack_tuned:
  assumes "co_candidates s c = Some ca" and "\<And>n d v w. 0 \<le> fst (ce_setsockopt env n d v w)"
  shows "\<exists>b s1. connect_stack env c k d s = Some (b, s1) \<and> tuned c s s1 \<and> (fd_is c x s \<longrightarrow> fd_is c x s1)"
proof (cases "stack (ca_socket ca) = NEAT_STACK_SCTP")
  case True
  from prepare_sctp_ok [OF assms(2), of "security_needed (fo_flow k)" d s] obtain eor s1 where
    s1: "nt_prepare_sctp_socket env (security_needed (fo_flow k)) d s = Some (NEAT_OK, eor, s1)" "only_world s s1" by blast
  let ?u = "\<lambda>k. k\<lparr>ca_socket := (ca_socket k)\<lparr>write_limit := write_size (ca_socket k) div 4, sctp_explicit_eor := (sctp_explicit_eor (ca_socket k) \<or> eor)\<rparr>\<rparr>"
  have "tuned c s (modify_candidate c ?u s1)"
  proof (rule tuned_modify)
    show "tuned c s s1" by (rule tuned_world) (use s1(2) assms(1) in simp_all)
    show "\<exists>sock h. stack sock = stack (ca_socket k) \<and> ?u k = k\<lparr>ca_socket := sock, ca_handle := h\<rparr>" for k
      by (intro exI [of _ "ca_socket (?u k)"] exI [of _ "ca_handle k"]) simp
  qed
  moreover have "fd_is c x s \<longrightarrow> fd_is c x (modify_candidate c ?u s1)" using only_worldD(3) [OF s1(2)] by (auto simp: fd_is_def)
  moreover have "connect_stack env c k d s = Some (True, modify_candidate c ?u s1)" using True assms(1) s1(1) by (simp add: connect_stack_def)
  ultimately show ?thesis by blast
next
  case False
  then obtain b s1 where "connect_stack env c k d s = Some (b, s1)" "only_world s s1"
    using assms(1) by (cases "stack (ca_socket ca)"; cases "fo_cc_algorithm k") (auto simp: connect_stack_def)
  with tuned_world [of s s1 c] fd_is_world [of s s1 c x] assms(1) show ?thesis by auto
qed

text \<open>What the code relies on: descriptor 0 is in use, so no new socket gets it, the error of an open socket can be asked for, and
  the options the code sets exist.\<close>

definition he_kernel :: "'k core_env \<Rightarrow> bool" where
  "he_kernel env \<longleftrightarrow> (\<forall>d w. fst (ce_so_error env d w) \<noteq> None) \<and> (\<forall>f t x w. fst (ce_socket env f t x w) \<noteq> 0) \<and>
     (\<forall>n d v w. 0 \<le> fst (ce_setsockopt env n d v w))"

lemma nt_connect_tuned:
  assumes kernel: "he_kernel env" and ca: "co_candidates s c = Some ca" "ca_flow ca = Some f" "ca_handle ca \<noteq> HANDLE_NULL" and k: "co_flows s f = Some k"
  shows "\<exists>ret s1. nt_connect env c s = Some (ret, s1) \<and> tuned c s s1 \<and>
     (ret = - 1 \<or> ret = - 2 \<or> ret = 0 \<and> (\<exists>ca1. co_candidates s1 c = Some ca1 \<and> ca_handle ca1 = HANDLE_OWN UV_POLLING \<and> 0 < fd (ca_socket ca1)))"
proof -
  have opt: "\<And>n d v w. 0 \<le> fst (ce_setsockopt env n d v w)" and sock0: "\<And>f t x w. fst (ce_socket env f t x w) \<noteq> 0"
    using kernel by (simp_all add: he_kernel_def)
  define protocol where "protocol = nt_stack_to_protocol (nt_base_stack (stack (ca_socket ca)))"
  have refl: "tuned c s s" by (rule tuned_world) (use ca in simp_all)
  show ?thesis
  proof (cases "protocol = IPPROTO_0")
    case True
    then show ?thesis using ca k refl by (simp add: nt_connect_def protocol_def)
  next
    case p: False
    define d where "d = fst (ce_socket env (ca_family ca) (ca_type ca) protocol (co_world s))"
    define s2 where "s2 = modify_candidate c (\<lambda>k. k\<lparr>ca_socket := (ca_socket k)\<lparr>fd := d\<rparr>\<rparr>)
       (s\<lparr>co_world := snd (ce_socket env (ca_family ca) (ca_type ca) protocol (co_world s))\<rparr>)"
    have t2: "tuned c s s2" unfolding s2_def
    proof (rule tuned_modify)
      show "tuned c s (s\<lparr>co_world := snd (ce_socket env (ca_family ca) (ca_type ca) protocol (co_world s))\<rparr>)" by (rule tuned_world) (use ca in simp_all)
      show "\<exists>sock h. stack sock = stack (ca_socket k) \<and> k\<lparr>ca_socket := (ca_socket k)\<lparr>fd := d\<rparr>\<rparr> = k\<lparr>ca_socket := sock, ca_handle := h\<rparr>" for k
        by (intro exI [of _ "(ca_socket k)\<lparr>fd := d\<rparr>"] exI [of _ "ca_handle k"]) simp
    qed
    show ?thesis
    proof (cases "d < 0")
      case True
      then show ?thesis using ca k p t2 by (simp add: nt_connect_def protocol_def [symmetric] d_def [symmetric] s2_def [symmetric] world_call_eq)
    next
      case False
      then have dpos: "0 < d" using sock0 [of "ca_family ca" "ca_type ca" protocol "co_world s"] by (simp add: d_def)
      define s5 where "s5 = fold (apply_sockopt env d) (ca_sock_opts ca)
        (snd (world_call (ce_setsockopt env ''SO_REUSEPORT'' d [1]) (snd (world_call (ce_setsockopt env ''SO_REUSEADDR'' d [1]) s2))))"
      obtain bound s6 where b: "connect_bind env ca k d s5 = (bound, s6)" by fastforce
      define s6' where "s6' = connect_sizes env c d (bind_to_device env ca d s6)"
      have w5: "only_world s2 s5" unfolding s5_def by (rule only_world_trans [OF _ fold_sockopt_world]) (simp add: only_world_def)
      have w6: "only_world s2 s6" using only_world_trans [OF w5] connect_bind_world [of s5 env ca k d] b by simp
      have wd: "only_world s2 (bind_to_device env ca d s6)" by (rule only_world_trans [OF w6 bind_to_device_world])
      have cand: "co_candidates (bind_to_device env ca d s6) c \<noteq> None" using only_worldD(3) [OF wd] ca(1) by (simp add: s2_def)
      have fd: "fd_is c d (bind_to_device env ca d s6)" using fd_is_world [OF wd] ca(1) by (simp add: fd_is_def s2_def)
      have t6: "tuned c s s6'" "fd_is c d s6'"
        using tuned_trans [OF tuned_then_world [OF t2 wd]] connect_sizes_tuned [OF cand, of env d d] fd by (simp_all add: s6'_def)
      then obtain ca6 where ca6: "co_candidates s6' c = Some ca6" by (auto simp: fd_is_def)
      from connect_stack_tuned [OF ca6 opt, of k d d] t6(2) obtain ok s7 where
        s7: "connect_stack env c k d s6' = Some (ok, s7)" "tuned c s6' s7" "fd_is c d s7" by auto
      have t7: "tuned c s s7" by (rule tuned_trans [OF t6(1) s7(2)])
      have handle: "\<exists>sock h. stack sock = stack (ca_socket k) \<and> k\<lparr>ca_handle := h'\<rparr> = k\<lparr>ca_socket := sock, ca_handle := h\<rparr>" for k h'
        by (intro exI [of _ "ca_socket k"] exI [of _ h']) simp
      define s8 where "s8 = modify_candidate c (\<lambda>k. k\<lparr>ca_handle := HANDLE_OWN UV_STOPPED\<rparr>) s7"
      have t8: "tuned c s s8" unfolding s8_def by (rule tuned_modify [OF t7 handle])
      define w9 where "w9 = snd (ce_connect env d (ca_dst_sockaddr ca) (co_world s8))"
      have t9: "tuned c s (s8\<lparr>co_world := w9\<rparr>)" by (rule tuned_then_world [OF t8]) simp
      define s10 where "s10 = modify_candidate c (\<lambda>k. k\<lparr>ca_handle := HANDLE_OWN UV_POLLING\<rparr>) (s8\<lparr>co_world := w9\<rparr>)"
      have t10: "tuned c s s10" unfolding s10_def by (rule tuned_modify [OF t9 handle])
      have fd10: "\<exists>ca1. co_candidates s10 c = Some ca1 \<and> ca_handle ca1 = HANDLE_OWN UV_POLLING \<and> 0 < fd (ca_socket ca1)"
        using s7(3) dpos by (auto simp: s10_def s8_def fd_is_def)
      have run: "nt_connect env c s = (if \<not> bound then Some (- 1, s6) else if \<not> ok then Some (- 1, s7)
          else Some (if fst (ce_connect env d (ca_dst_sockaddr ca) (co_world s8)) = CONNECT_ERROR then (- 2, s8\<lparr>co_world := w9\<rparr>) else (0, s10)))"
        using ca k p False dpos b s7(1)
        by (simp add: nt_connect_def protocol_def [symmetric] world_call_eq [of _ s] d_def [symmetric] s2_def [symmetric] s5_def [symmetric] s6'_def [symmetric]
            s8_def [symmetric] world_call_eq [of _ s8] w9_def [symmetric] s10_def [symmetric] Let_def del: world_call_simps)
      show ?thesis unfolding run using tuned_then_world [OF t2 w6] t7 t9 t10 fd10 by auto
    qed
  qed
qed

section \<open>The state of the race\<close>

text \<open>A candidate waits for its timer or for its socket.\<close>

definition waiting :: "candidate_obj \<Rightarrow> bool" where
  "waiting ca \<longleftrightarrow> ca_prio_timer ca \<noteq> None \<and> ca_handle ca = HANDLE_OWN UV_UNKNOWN_HANDLE \<and> fd (ca_socket ca) = - 1"

definition connecting :: "candidate_obj \<Rightarrow> bool" where
  "connecting ca \<longleftrightarrow> ca_prio_timer ca = None \<and> ca_handle ca = HANDLE_OWN UV_POLLING \<and> 0 < fd (ca_socket ca)"

definition he_pending :: "nat \<Rightarrow> candidate_obj \<Rightarrow> bool" where
  "he_pending f ca \<longleftrightarrow> ca_flow ca = Some f \<and> (waiting ca \<or> connecting ca)"

text \<open>The race is open: no candidate has connected, and those that have not failed are counted.\<close>

definition he_racing :: "nat \<Rightarrow> nat list \<Rightarrow> 'k core \<Rightarrow> bool" where
  "he_racing f cs s \<longleftrightarrow> (\<exists>k o'. co_flows s f = Some k \<and> co_sockets s (fo_socket k) = Some o' \<and> so_handle o' = UV_UNKNOWN_HANDLE \<and>
     \<not> firstWritePending (fo_flow k) \<and> fo_hefirstConnect k \<and> fo_candidates k = cs \<and> fo_heConnectAttemptCount k = of_nat (length cs)) \<and>
     distinct cs \<and> cs \<noteq> [] \<and> length cs \<le> 256 \<and> (\<forall>c \<in> set cs. \<exists>ca. co_candidates s c = Some ca \<and> he_pending f ca)"

text \<open>A candidate has won: the socket of the flow has its descriptor, its handle and its parameters; the others are still pending.\<close>

definition he_won :: "nat \<Rightarrow> nat \<Rightarrow> nat list \<Rightarrow> 'k core \<Rightarrow> bool" where
  "he_won f c cs s \<longleftrightarrow> (\<exists>k o' ca. co_flows s f = Some k \<and> co_sockets s (fo_socket k) = Some o' \<and> co_candidates s c = Some ca \<and>
     \<not> fo_hefirstConnect k \<and> fo_everConnected k \<and> isPolling (fo_flow k) \<and> fo_candidates k = cs \<and> fo_heConnectAttemptCount k = of_nat (length cs) \<and>
     fo_properties k = ca_properties ca \<and> ca_handle ca = HANDLE_OF_SOCKET (fo_socket k) \<and> take_candidate ca f o' = o' \<and> 0 < fd (so_socket o')) \<and>
     distinct cs \<and> c \<in> set cs \<and> length cs \<le> 256 \<and> (\<forall>b \<in> set cs - {c}. \<exists>ca. co_candidates s b = Some ca \<and> he_pending f ca)"

text \<open>All candidates have failed: the flow has no socket and nothing is pending.\<close>

definition he_lost :: "nat \<Rightarrow> 'k core \<Rightarrow> bool" where
  "he_lost f s \<longleftrightarrow> (\<exists>k o'. co_flows s f = Some k \<and> co_sockets s (fo_socket k) = Some o' \<and> so_handle o' = UV_UNKNOWN_HANDLE \<and> fo_hefirstConnect k \<and>
     fo_heConnectAttemptCount k = 0 \<and> length (fo_candidates k) \<le> 1 \<and>
     (\<forall>c \<in> set (fo_candidates k). \<exists>ca. co_candidates s c = Some ca \<and> ca_handle ca = HANDLE_NULL \<and> ca_prio_timer ca = None))"

lemma count_out:
  assumes "c \<in> set cs" and "length cs \<le> 256"
  shows "(of_nat (length cs) :: u8) - 1 = of_nat (length (remove1 c cs))" and "(of_nat (length cs) :: u8) = 1 \<longleftrightarrow> length cs = 1"
proof -
  have pos: "0 < length cs" using assms(1) by (auto intro: length_pos_if_in_set)
  then obtain n where n: "length cs = Suc n" by (metis gr0_implies_Suc)
  show "(of_nat (length cs) :: u8) - 1 = of_nat (length (remove1 c cs))" using n assms(1) by (simp add: length_remove1)
  have "(of_nat n :: u8) = 0 \<longleftrightarrow> n = 0" using n assms(2) by (auto simp: word_of_nat_eq_0_iff dest: dvd_imp_le)
  then show "(of_nat (length cs) :: u8) = 1 \<longleftrightarrow> length cs = 1" using n by simp
qed

lemma length_1_in: "length cs = 1 \<Longrightarrow> c \<in> set cs \<Longrightarrow> cs = [c]"
  by (cases cs) auto

text \<open>A step on one candidate of a flow leaves all other candidates, flows and sockets alone.\<close>

definition he_frame :: "nat \<Rightarrow> nat \<Rightarrow> 'k core \<Rightarrow> 'k core \<Rightarrow> bool" where
  "he_frame f c s s1 \<longleftrightarrow> (\<forall>b. b \<noteq> c \<longrightarrow> co_candidates s1 b = co_candidates s b) \<and> (\<forall>g. g \<noteq> f \<longrightarrow> co_flows s1 g = co_flows s g) \<and>
     (\<forall>a. (\<forall>k. co_flows s f = Some k \<longrightarrow> a \<noteq> fo_socket k) \<longrightarrow> co_sockets s1 a = co_sockets s a)"

text \<open>What the timer of a candidate can lead to: the socket is connecting, the candidate is out, or it was the last one.\<close>

lemma he_connect_req_run:
  assumes kernel: "he_kernel env" and ca: "co_candidates s c = Some ca" "ca_flow ca = Some f" "waiting ca" and k: "co_flows s f = Some k"
  shows "\<exists>a s1. he_connect_req env c s = Some (a, s1) \<and> co_sockets s1 = co_sockets s \<and> (\<forall>b. b \<noteq> c \<longrightarrow> co_candidates s1 b = co_candidates s b) \<and>
     (a = HE_CONTINUE \<and> co_flows s1 = co_flows s \<and> (\<exists>ca1. co_candidates s1 c = Some ca1 \<and> connecting ca1 \<and> ca_flow ca1 = Some f) \<or>
      a = HE_CONTINUE \<and> fo_heConnectAttemptCount k \<noteq> 1 \<and> co_candidates s1 c = None \<and>
        co_flows s1 = (co_flows s)(f \<mapsto> k\<lparr>fo_heConnectAttemptCount := fo_heConnectAttemptCount k - 1, fo_candidates := remove1 c (fo_candidates k)\<rparr>) \<or>
      a = HE_ERROR NEAT_ERROR_IO \<and> fo_heConnectAttemptCount k = 1 \<and> co_flows s1 = (co_flows s)(f \<mapsto> k\<lparr>fo_heConnectAttemptCount := 0\<rparr>) \<and>
        (\<exists>ca1. co_candidates s1 c = Some ca1 \<and> ca_handle ca1 = HANDLE_NULL \<and> ca_prio_timer ca1 = None))"
proof -
  let ?s = "modify_candidate c (\<lambda>k. k\<lparr>ca_prio_timer := None\<rparr>) s"
  have "\<exists>ret s1. nt_connect env c ?s = Some (ret, s1) \<and> tuned c ?s s1 \<and>
     (ret = - 1 \<or> ret = - 2 \<or> ret = 0 \<and> (\<exists>ca1. co_candidates s1 c = Some ca1 \<and> ca_handle ca1 = HANDLE_OWN UV_POLLING \<and> 0 < fd (ca_socket ca1)))"
    by (rule nt_connect_tuned [OF kernel, of ?s c "ca\<lparr>ca_prio_timer := None\<rparr>" f k]) (use ca k in \<open>simp_all add: waiting_def\<close>)
  then obtain ret s1 where r: "nt_connect env c ?s = Some (ret, s1)" "tuned c ?s s1"
      "ret = - 1 \<or> ret = - 2 \<or> ret = 0 \<and> (\<exists>ca1. co_candidates s1 c = Some ca1 \<and> ca_handle ca1 = HANDLE_OWN UV_POLLING \<and> 0 < fd (ca_socket ca1))" by blast
  from ca(3) obtain t where timer: "ca_prio_timer ca = Some t" by (auto simp: waiting_def)
  have f1: "co_flows s1 = co_flows s" "co_sockets s1 = co_sockets s" "\<forall>b. b \<noteq> c \<longrightarrow> co_candidates s1 b = co_candidates s b"
    using tunedD(1-3) [OF r(2)] by simp_all
  from tunedD(4) [OF r(2), of "ca\<lparr>ca_prio_timer := None\<rparr>"] ca(1) obtain sock h where
    c1: "co_candidates s1 c = Some (ca\<lparr>ca_prio_timer := None, ca_socket := sock, ca_handle := h\<rparr>)" by auto
  show ?thesis
  proof (cases "ret = 0")
    case True
    with r(3) c1 ca(2) have "\<exists>ca1. co_candidates s1 c = Some ca1 \<and> connecting ca1 \<and> ca_flow ca1 = Some f" by (simp add: connecting_def)
    moreover have "he_connect_req env c s = Some (HE_CONTINUE, s1)" using ca timer r(1) True by (simp add: he_connect_req_def)
    ultimately show ?thesis using f1 by blast
  next
    case False
    with r(3) have ret: "ret = - 1 \<or> ret = - 2" by auto
    define s3 where "s3 = modify_flow_obj f (\<lambda>k. k\<lparr>fo_heConnectAttemptCount := fo_heConnectAttemptCount k - 1\<rparr>)
      (modify_candidate c (\<lambda>k. k\<lparr>ca_handle := HANDLE_NULL\<rparr>) s1)"
    define s4 where "s4 = free_candidate c (modify_flow_obj f (\<lambda>k. k\<lparr>fo_candidates := remove1 c (fo_candidates k)\<rparr>) s3)"
    have "nt_free_candidate env c (modify_flow_obj f (\<lambda>k. k\<lparr>fo_candidates := remove1 c (fo_candidates k)\<rparr>) s3) = Some s4"
      using c1 by (simp add: nt_free_candidate_def s4_def s3_def)
    then have run: "he_connect_req env c s = Some (if fo_heConnectAttemptCount k = 1 then (HE_ERROR NEAT_ERROR_IO, s3) else (HE_CONTINUE, s4))"
      using ca timer r(1) ret f1(1) k by (simp add: he_connect_req_def s3_def [symmetric])
    show ?thesis
    proof (cases "fo_heConnectAttemptCount k = 1")
      case True
      then show ?thesis unfolding run using f1 c1 k by (intro exI [of _ "HE_ERROR NEAT_ERROR_IO"] exI [of _ s3]) (simp add: s3_def)
    next
      case False
      then show ?thesis unfolding run using f1 k by (intro exI [of _ HE_CONTINUE] exI [of _ s4]) (simp add: s4_def s3_def)
    qed
  qed
qed

lemma he_racing_remove:
  assumes race: "he_racing f cs s" and c: "c \<in> set cs" and more: "length cs \<noteq> 1" and k: "co_flows s f = Some k"
    and s1: "co_flows s1 f = Some (k\<lparr>fo_heConnectAttemptCount := fo_heConnectAttemptCount k - 1, fo_candidates := remove1 c (fo_candidates k)\<rparr>)"
      "co_sockets s1 = co_sockets s" "\<forall>b. b \<noteq> c \<longrightarrow> co_candidates s1 b = co_candidates s b"
  shows "he_racing f (remove1 c cs) s1"
proof -
  have dist: "distinct cs" and len: "length cs \<le> 256" using race by (simp_all add: he_racing_def)
  have "remove1 c cs \<noteq> []" using more c dist by (cases cs; auto simp: neq_Nil_conv)
  moreover have "length (remove1 c cs) \<le> 256" using len by (auto simp: length_remove1)
  ultimately show ?thesis using race k s1 dist count_out(1) [OF c len] by (auto simp: he_racing_def)
qed

lemma he_connect_req_step:
  assumes kernel: "he_kernel env" and race: "he_racing f cs s" and c: "c \<in> set cs" and ca: "co_candidates s c = Some ca" "waiting ca"
  shows "\<exists>a s1. he_connect_req env c s = Some (a, s1) \<and> he_frame f c s s1 \<and>
     (a = HE_CONTINUE \<and> he_racing f cs s1 \<and> (\<exists>ca1. co_candidates s1 c = Some ca1 \<and> connecting ca1) \<or>
      a = HE_CONTINUE \<and> he_racing f (remove1 c cs) s1 \<and> co_candidates s1 c = None \<or>
      a = HE_ERROR NEAT_ERROR_IO \<and> cs = [c] \<and> he_lost f s1)"
proof -
  from race c ca(1) have flow: "ca_flow ca = Some f" by (auto simp: he_racing_def he_pending_def)
  from race obtain k o' where k: "co_flows s f = Some k" "co_sockets s (fo_socket k) = Some o'" "so_handle o' = UV_UNKNOWN_HANDLE"
      "fo_hefirstConnect k" "fo_candidates k = cs" "fo_heConnectAttemptCount k = of_nat (length cs)" and len: "length cs \<le> 256" by (auto simp: he_racing_def)
  note count = count_out(2) [OF c len]
  from he_connect_req_run [OF kernel ca(1) flow ca(2) k(1)] obtain a s1 where
    s1: "he_connect_req env c s = Some (a, s1)" "co_sockets s1 = co_sockets s" "\<forall>b. b \<noteq> c \<longrightarrow> co_candidates s1 b = co_candidates s b"
      "a = HE_CONTINUE \<and> co_flows s1 = co_flows s \<and> (\<exists>ca1. co_candidates s1 c = Some ca1 \<and> connecting ca1 \<and> ca_flow ca1 = Some f) \<or>
       a = HE_CONTINUE \<and> fo_heConnectAttemptCount k \<noteq> 1 \<and> co_candidates s1 c = None \<and>
        co_flows s1 = (co_flows s)(f \<mapsto> k\<lparr>fo_heConnectAttemptCount := fo_heConnectAttemptCount k - 1, fo_candidates := remove1 c (fo_candidates k)\<rparr>) \<or>
       a = HE_ERROR NEAT_ERROR_IO \<and> fo_heConnectAttemptCount k = 1 \<and> co_flows s1 = (co_flows s)(f \<mapsto> k\<lparr>fo_heConnectAttemptCount := 0\<rparr>) \<and>
        (\<exists>ca1. co_candidates s1 c = Some ca1 \<and> ca_handle ca1 = HANDLE_NULL \<and> ca_prio_timer ca1 = None)" by blast
  from s1(4) show ?thesis
  proof (elim disjE conjE exE)
    fix ca1 assume a: "a = HE_CONTINUE" "co_flows s1 = co_flows s" "co_candidates s1 c = Some ca1" "connecting ca1" "ca_flow ca1 = Some f"
    have "\<exists>ca. co_candidates s1 b = Some ca \<and> he_pending f ca" if "b \<in> set cs" for b
      using a s1(3) race that by (cases "b = c") (auto simp: he_racing_def he_pending_def)
    then have "he_racing f cs s1" using race a(2) s1(2) by (simp add: he_racing_def)
    moreover have "he_frame f c s s1" using s1(2,3) a(2) by (simp add: he_frame_def)
    ultimately show ?thesis using s1(1) a(1,3,4) by blast
  next
    assume a: "a = HE_CONTINUE" "fo_heConnectAttemptCount k \<noteq> 1" "co_candidates s1 c = None"
      "co_flows s1 = (co_flows s)(f \<mapsto> k\<lparr>fo_heConnectAttemptCount := fo_heConnectAttemptCount k - 1, fo_candidates := remove1 c (fo_candidates k)\<rparr>)"
    have "he_racing f (remove1 c cs) s1" by (rule he_racing_remove [OF race c _ k(1) _ s1(2,3)]) (use a(2,4) count k(6) in auto)
    moreover have "he_frame f c s s1" using s1(2,3) a(4) by (simp add: he_frame_def)
    ultimately show ?thesis using s1(1) a(1,3) by blast
  next
    fix ca1 assume a: "a = HE_ERROR NEAT_ERROR_IO" "fo_heConnectAttemptCount k = 1" "co_flows s1 = (co_flows s)(f \<mapsto> k\<lparr>fo_heConnectAttemptCount := 0\<rparr>)"
      "co_candidates s1 c = Some ca1" "ca_handle ca1 = HANDLE_NULL" "ca_prio_timer ca1 = None"
    have one: "cs = [c]" using a(2) k(6) count length_1_in [OF _ c] by simp
    have "he_lost f s1" unfolding he_lost_def using k a s1(2) one by simp
    moreover have "he_frame f c s s1" using s1(2,3) a(3) by (simp add: he_frame_def)
    ultimately show ?thesis using s1(1) a(1) one by blast
  qed
qed

section \<open>A socket is ready\<close>

lemma send_result_world: "only_world s (send_result_connection_attempt_to_pm env ca j b s)"
  by (auto simp: send_result_connection_attempt_to_pm_def world_call_eq split: option.split bool.split)

lemma he_racing_world: "only_world s s1 \<Longrightarrow> he_racing f cs s1 = he_racing f cs s"
  by (simp add: he_racing_def only_worldD)

lemma he_frame_world: "only_world s s1 \<Longrightarrow> he_frame f c s1 s2 = he_frame f c s s2"
  by (simp add: he_frame_def only_worldD)

lemma he_win_step:
  assumes race: "he_racing f cs s" and c: "c \<in> set cs" and ca: "co_candidates s c = Some ca" "connecting ca"
  shows "\<exists>a s1. he_win env c f s = Some (a, s1) \<and> (a = HE_POLL_FLOW \<or> a = HE_SECURE) \<and> he_won f c cs s1 \<and> he_frame f c s s1"
proof -
  from race obtain k o' where k: "co_flows s f = Some k" "co_sockets s (fo_socket k) = Some o'" "so_handle o' = UV_UNKNOWN_HANDLE"
      "fo_candidates k = cs" "fo_heConnectAttemptCount k = of_nat (length cs)" and cs: "distinct cs" "length cs \<le> 256" by (auto simp: he_racing_def)
  define s4 where "s4 = modify_flow f (\<lambda>k. k\<lparr>isPolling := True\<rparr>) (modify_flow_obj f (\<lambda>k. k\<lparr>fo_hefirstConnect := False, fo_properties := ca_properties ca, fo_everConnected := True\<rparr>)
    (modify_candidate c (\<lambda>k'. k'\<lparr>ca_handle := HANDLE_OF_SOCKET (fo_socket k)\<rparr>) (modify_socket_obj (fo_socket k) (take_candidate ca f) s)))"
  define s5 where "s5 = send_result_connection_attempt_to_pm env ca (ca_properties ca) True s4"
  have w: "only_world s4 s5" unfolding s5_def by (rule send_result_world)
  have others: "\<forall>b \<in> set cs - {c}. \<exists>ca. co_candidates s b = Some ca \<and> he_pending f ca" using race by (simp add: he_racing_def)
  have taken: "take_candidate (ca\<lparr>ca_handle := h\<rparr>) f (take_candidate ca f o') = take_candidate ca f o'" for h by (simp add: take_candidate_def)
  have "0 < fd (so_socket (take_candidate ca f o'))" using ca(2) by (simp add: take_candidate_def connecting_def)
  then have won: "he_won f c cs s4" "he_frame f c s s4"
    unfolding he_won_def he_frame_def using k cs c ca(1) others taken by (simp_all add: s4_def)
  then have "he_won f c cs s5" "he_frame f c s s5" by (simp_all add: he_won_def he_frame_def only_worldD [OF w])
  moreover from this have "he_won f c cs (modify_flow f (\<lambda>k. k\<lparr>firstWritePending := True\<rparr>) s5)" "he_frame f c s (modify_flow f (\<lambda>k. k\<lparr>firstWritePending := True\<rparr>) s5)"
    by (auto simp: he_won_def he_frame_def)
  moreover have "he_win env c f s = Some (if security_needed (fo_flow k) \<and> (stack (ca_socket ca) = NEAT_STACK_TCP \<or> stack (ca_socket ca) = NEAT_STACK_UDP)
       then (HE_SECURE, s5) else (HE_POLL_FLOW, modify_flow f (\<lambda>k. k\<lparr>firstWritePending := True\<rparr>) s5))"
    using k(1-3) ca(1) unfolding he_win_def s5_def s4_def Let_def by simp
  ultimately show ?thesis by (cases "security_needed (fo_flow k) \<and> (stack (ca_socket ca) = NEAT_STACK_TCP \<or> stack (ca_socket ca) = NEAT_STACK_UDP)") simp_all
qed

text \<open>The state after a candidate has lost.\<close>

lemma he_lose_run:
  assumes "co_flows s f = Some k" and "co_candidates s c = Some ca"
  shows "\<exists>s1. he_lose env c f result s = Some (if fo_heConnectAttemptCount k - 1 = 0 then HE_ERROR NEAT_ERROR_UNABLE else HE_CONTINUE, s1) \<and>
     co_flows s1 = (co_flows s)(f \<mapsto> k\<lparr>fo_candidates := remove1 c (fo_candidates k), fo_heConnectAttemptCount := fo_heConnectAttemptCount k - 1\<rparr>) \<and>
     co_candidates s1 = (co_candidates s)(c := None) \<and> co_sockets s1 = co_sockets s"
  using assms only_worldD [OF send_result_world [of s env ca "fo_properties k" result]] by (simp add: he_lose_def Let_def)

lemma he_lose_step:
  assumes race: "he_racing f cs s" and c: "c \<in> set cs" and ca: "co_candidates s c = Some ca"
  shows "\<exists>a s1. he_lose env c f result s = Some (a, s1) \<and> he_frame f c s s1 \<and> co_candidates s1 c = None \<and>
     (a = HE_CONTINUE \<and> he_racing f (remove1 c cs) s1 \<or> a = HE_ERROR NEAT_ERROR_UNABLE \<and> cs = [c] \<and> he_lost f s1)"
proof -
  from race obtain k o' where k: "co_flows s f = Some k" "co_sockets s (fo_socket k) = Some o'" "so_handle o' = UV_UNKNOWN_HANDLE"
      "\<not> firstWritePending (fo_flow k)" "fo_hefirstConnect k" "fo_candidates k = cs" "fo_heConnectAttemptCount k = of_nat (length cs)"
      and cs: "distinct cs" "length cs \<le> 256" by (auto simp: he_racing_def)
  from he_lose_run [OF k(1) ca, of env result] obtain s1 where
    s1: "he_lose env c f result s = Some (if (of_nat (length cs) :: u8) - 1 = 0 then HE_ERROR NEAT_ERROR_UNABLE else HE_CONTINUE, s1)"
      "co_flows s1 = (co_flows s)(f \<mapsto> k\<lparr>fo_candidates := remove1 c cs, fo_heConnectAttemptCount := of_nat (length cs) - 1\<rparr>)"
      "co_candidates s1 = (co_candidates s)(c := None)" "co_sockets s1 = co_sockets s" unfolding k(6,7) by blast
  have frame: "he_frame f c s s1" "co_candidates s1 c = None" by (simp_all add: he_frame_def s1(2-4))
  show ?thesis
  proof (cases "length cs = 1")
    case True
    with k s1 count_out(2) [OF c cs(2)] length_1_in [OF True c] frame show ?thesis by (auto simp: he_lost_def)
  next
    case False
    have "he_racing f (remove1 c cs) s1" by (rule he_racing_remove [OF race c False k(1)]) (use k s1 in simp_all)
    with s1(1) frame False count_out(2) [OF c cs(2)] show ?thesis by auto
  qed
qed

text \<open>Up to the decision only the world changes; without memory for the report nothing is decided.\<close>

lemma he_connected_run:
  assumes kernel: "he_kernel env" and ca: "co_candidates s c = Some ca" "ca_flow ca = Some f" and k: "co_flows s f = Some k" "\<not> firstWritePending (fo_flow k)"
  shows "\<exists>s4 b. only_world s s4 \<and> ((\<exists>n w. \<not> fst (ce_malloc env n w)) \<and> he_connected env c s = Some (HE_CONTINUE, s4) \<or>
     b \<and> fo_hefirstConnect k \<and> he_connected env c s = he_win env c f s4 \<or> \<not> (b \<and> fo_hefirstConnect k) \<and> he_connected env c s = he_lose env c f b s4)"
proof -
  from kernel obtain status where status: "fst (ce_so_error env (fd (ca_socket ca)) (co_world s)) = Some status" unfolding he_kernel_def by blast
  define s1 where "s1 = s\<lparr>co_world := snd (ce_so_error env (fd (ca_socket ca)) (co_world s))\<rparr>"
  obtain m1 s2 where m1: "world_call (ce_malloc env 1) s1 = (m1, s2)" by fastforce
  obtain m2 s3 where m2: "(if m1 then world_call (ce_malloc env (Suc (length (ca_if_name ca)))) s2 else (False, s2)) = (m2, s3)" by fastforce
  obtain m3 s4 where m3: "(if m2 then world_call (ce_malloc env (Suc (length (ca_dst_address ca)))) s3 else (False, s3)) = (m3, s4)" by fastforce
  have w: "only_world s s4" using m1 m2 m3 by (auto simp: s1_def world_call_eq split: if_splits)
  have short: "\<exists>n w. \<not> fst (ce_malloc env n w)" if "\<not> m3" using that m1 m2 m3 by (auto simp: world_call_eq split: if_splits)
  have run: "he_connected env c s = (if \<not> m3 then Some (HE_CONTINUE, s4)
      else if fo_hefirstConnect k \<and> status = SO_NONE then he_win env c f s4 else he_lose env c f (status = SO_NONE) s4)"
    using ca k status m1 m2 m3 by (simp add: he_connected_def Let_def world_call_eq [of _ s] s1_def [symmetric])
  show ?thesis
  proof (cases m3)
    case True
    then show ?thesis using w run by (intro exI [of _ s4] exI [of _ "status = SO_NONE"]) auto
  next
    case False
    then show ?thesis using w run short by (intro exI [of _ s4]) auto
  qed
qed

lemma he_connected_step:
  assumes kernel: "he_kernel env" and race: "he_racing f cs s" and c: "c \<in> set cs" and ca: "co_candidates s c = Some ca" "connecting ca"
  shows "\<exists>a s1. he_connected env c s = Some (a, s1) \<and> he_frame f c s s1 \<and>
     (a = HE_CONTINUE \<and> only_world s s1 \<and> (\<exists>n w. \<not> fst (ce_malloc env n w)) \<or>
      a = HE_CONTINUE \<and> he_racing f (remove1 c cs) s1 \<and> co_candidates s1 c = None \<or>
      (a = HE_POLL_FLOW \<or> a = HE_SECURE) \<and> he_won f c cs s1 \<or>
      a = HE_ERROR NEAT_ERROR_UNABLE \<and> cs = [c] \<and> he_lost f s1)"
proof -
  from race c ca(1) have flow: "ca_flow ca = Some f" by (auto simp: he_racing_def he_pending_def)
  from race obtain k where k: "co_flows s f = Some k" "\<not> firstWritePending (fo_flow k)" "fo_hefirstConnect k" by (auto simp: he_racing_def)
  from he_connected_run [OF kernel ca(1) flow k(1,2)] k(3) obtain s4 b where
    w: "only_world s s4" and run: "(\<exists>n w. \<not> fst (ce_malloc env n w)) \<and> he_connected env c s = Some (HE_CONTINUE, s4) \<or>
     he_connected env c s = he_win env c f s4 \<or> he_connected env c s = he_lose env c f b s4" by blast
  have race4: "he_racing f cs s4" and ca4: "co_candidates s4 c = Some ca" using race ca(1) by (simp_all add: he_racing_world [OF w] only_worldD [OF w])
  have frame: "he_frame f c s s4" by (simp add: he_frame_def only_worldD [OF w])
  from run he_win_step [OF race4 c ca4 ca(2), of env] he_lose_step [OF race4 c ca4, of env b] w frame
  show ?thesis unfolding he_frame_world [OF w] by (elim disjE conjE) (simp_all, blast+)
qed

section \<open>Runs\<close>

text \<open>The events of the race, as the event loop delivers them: a timer fires only when it is armed, a socket is ready only when it is polled.\<close>

datatype he_event = HE_TIMER nat | HE_READY nat

fun he_target :: "he_event \<Rightarrow> nat" where
  "he_target (HE_TIMER c) = c"
| "he_target (HE_READY c) = c"

fun he_handle_event :: "'k core_env \<Rightarrow> he_event \<Rightarrow> 'k core \<Rightarrow> (he_action \<times> 'k core) option" where
  "he_handle_event env (HE_TIMER c) s =
     (case co_candidates s c of
        None \<Rightarrow> Some (HE_CONTINUE, s)
      | Some ca \<Rightarrow> if ca_prio_timer ca \<noteq> None then he_connect_req env c s else Some (HE_CONTINUE, s))"
| "he_handle_event env (HE_READY c) s =
     (case co_candidates s c of
        None \<Rightarrow> Some (HE_CONTINUE, s)
      | Some ca \<Rightarrow> if ca_handle ca = HANDLE_OWN UV_POLLING then he_connected env c s else Some (HE_CONTINUE, s))"

text \<open>The race ends with the first callback that does more than to continue.\<close>

fun he_race :: "'k core_env \<Rightarrow> he_event list \<Rightarrow> 'k core \<Rightarrow> (he_action \<times> 'k core) option" where
  "he_race env [] s = Some (HE_CONTINUE, s)"
| "he_race env (ev # evs) s = do {
     (a, s1) \<leftarrow> he_handle_event env ev s;
     if a = HE_CONTINUE then he_race env evs s1 else Some (a, s1) }"

text \<open>What the race has come to.\<close>

fun he_outcome :: "nat \<Rightarrow> nat list \<Rightarrow> he_action \<Rightarrow> 'k core \<Rightarrow> bool" where
  "he_outcome f cs HE_CONTINUE s = (\<exists>cs'. set cs' \<subseteq> set cs \<and> he_racing f cs' s)"
| "he_outcome f cs (HE_ERROR code) s = he_lost f s"
| "he_outcome f cs _ s = (\<exists>c cs'. set cs' \<subseteq> set cs \<and> he_won f c cs' s)"

text \<open>One event that leaves the race open: at most its candidate is out, and a timer or a ready socket has been dealt with.\<close>

definition he_progress :: "'k core_env \<Rightarrow> nat \<Rightarrow> he_event \<Rightarrow> nat list \<Rightarrow> nat list \<Rightarrow> 'k core \<Rightarrow> 'k core \<Rightarrow> bool" where
  "he_progress env f ev cs cs' s s1 \<longleftrightarrow> he_racing f cs' s1 \<and> set cs - {he_target ev} \<subseteq> set cs' \<and> set cs' \<subseteq> set cs \<and>
     (if he_target ev \<in> set cs'
      then (\<exists>ca1. co_candidates s1 (he_target ev) = Some ca1 \<and>
         (case ev of HE_TIMER c \<Rightarrow> connecting ca1 | HE_READY c \<Rightarrow> co_candidates s c = Some ca1 \<and> (waiting ca1 \<or> (\<exists>n w. \<not> fst (ce_malloc env n w)))))
      else co_candidates s1 (he_target ev) = None)"

lemma he_progress_out:
  assumes "he_racing f (remove1 (he_target ev) cs) s1" and "co_candidates s1 (he_target ev) = None" and "distinct cs"
  shows "he_progress env f ev cs (remove1 (he_target ev) cs) s s1"
  using assms by (auto simp: he_progress_def)

lemma he_event_step:
  assumes kernel: "he_kernel env" and race: "he_racing f cs s" and known: "he_target ev \<in> set cs \<or> co_candidates s (he_target ev) = None"
  shows "\<exists>a s1. he_handle_event env ev s = Some (a, s1) \<and> he_frame f (he_target ev) s s1 \<and>
     (a = HE_CONTINUE \<and> (\<exists>cs'. he_progress env f ev cs cs' s s1) \<or> (a = HE_POLL_FLOW \<or> a = HE_SECURE) \<and> he_won f (he_target ev) cs s1 \<or>
      (\<exists>code. a = HE_ERROR code) \<and> he_lost f s1)"
proof (cases "co_candidates s (he_target ev)")
  case None
  then have "he_handle_event env ev s = Some (HE_CONTINUE, s)" by (cases ev) simp_all
  moreover have "he_target ev \<notin> set cs" using race None by (auto simp: he_racing_def)
  then have "he_progress env f ev cs cs s s" using race None by (auto simp: he_progress_def)
  moreover have "he_frame f (he_target ev) s s" by (simp add: he_frame_def)
  ultimately show ?thesis by blast
next
  case (Some ca)
  then have c: "he_target ev \<in> set cs" using known by simp
  then have pend: "he_pending f ca" using race Some by (auto simp: he_racing_def)
  have dist: "distinct cs" using race by (simp add: he_racing_def)
  have frame: "he_frame f (he_target ev) s s" by (simp add: he_frame_def)
  show ?thesis
  proof (cases ev)
    case ev: (HE_TIMER c')
    show ?thesis
    proof (cases "waiting ca")
      case True
      then have eq: "he_handle_event env ev s = he_connect_req env c' s" using ev Some by (simp add: waiting_def)
      have stay: "he_progress env f ev cs cs s s1" if "he_racing f cs s1" "\<exists>ca1. co_candidates s1 c' = Some ca1 \<and> connecting ca1" for s1
        using that ev c by (auto simp: he_progress_def)
      have out: "he_progress env f ev cs (remove1 c' cs) s s1" if "he_racing f (remove1 c' cs) s1" "co_candidates s1 c' = None" for s1
        using that ev he_progress_out [OF _ _ dist, of f ev s1] by simp
      from he_connect_req_step [OF kernel race c Some True] stay out show ?thesis unfolding eq unfolding ev he_target.simps by blast
    next
      case False
      then have "connecting ca" using pend by (simp add: he_pending_def)
      moreover from this have "he_handle_event env ev s = Some (HE_CONTINUE, s)" using ev Some by (simp add: connecting_def)
      ultimately have "he_handle_event env ev s = Some (HE_CONTINUE, s)" "he_progress env f ev cs cs s s"
        using race Some ev c by (auto simp: he_progress_def)
      with frame show ?thesis by blast
    qed
  next
    case ev: (HE_READY c')
    show ?thesis
    proof (cases "connecting ca")
      case True
      then have eq: "he_handle_event env ev s = he_connected env c' s" using ev Some by (simp add: connecting_def)
      have stay: "he_progress env f ev cs cs s s1" if "only_world s s1" "\<exists>n w. \<not> fst (ce_malloc env n w)" for s1
        using that ev c race Some by (auto simp: he_progress_def he_racing_world only_worldD)
      have out: "he_progress env f ev cs (remove1 c' cs) s s1" if "he_racing f (remove1 c' cs) s1" "co_candidates s1 c' = None" for s1
        using that ev he_progress_out [OF _ _ dist, of f ev s1] by simp
      from he_connected_step [OF kernel race c Some True] stay out show ?thesis unfolding eq unfolding ev he_target.simps by blast
    next
      case False
      then have "waiting ca" using pend by (simp add: he_pending_def)
      moreover from this have "he_handle_event env ev s = Some (HE_CONTINUE, s)" using ev Some by (simp add: waiting_def)
      ultimately have "he_handle_event env ev s = Some (HE_CONTINUE, s)" "he_progress env f ev cs cs s s"
        using race Some ev c by (auto simp: he_progress_def)
      with frame show ?thesis by blast
    qed
  qed
qed

text \<open>A schedule serves a candidate: its timer fires, and later its socket is ready.\<close>

fun serves :: "nat \<Rightarrow> bool \<Rightarrow> he_event list \<Rightarrow> bool" where
  "serves c fired [] = False"
| "serves c fired (ev # evs) = (if fired then ev = HE_READY c \<or> serves c True evs else serves c (ev = HE_TIMER c) evs)"

lemma serves_fired: "serves c False evs \<Longrightarrow> serves c True evs"
proof (induction evs)
  case (Cons ev evs)
  then show ?case by (cases "ev = HE_TIMER c") auto
qed simp

lemma he_race_run:
  assumes kernel: "he_kernel env" and race: "he_racing f cs s" and known: "\<forall>ev \<in> set evs. he_target ev \<in> set cs \<or> co_candidates s (he_target ev) = None"
  shows "\<exists>a s1. he_race env evs s = Some (a, s1) \<and> he_outcome f cs a s1 \<and>
     (a = HE_CONTINUE \<longrightarrow> (\<forall>n w. fst (ce_malloc env n w)) \<longrightarrow>
       (\<exists>c \<in> set cs. \<exists>ca. co_candidates s c = Some ca \<and> (waiting ca \<and> \<not> serves c False evs \<or> connecting ca \<and> \<not> serves c True evs)))"
  using race known
proof (induction evs arbitrary: s cs)
  case Nil
  from Nil.prems(1) obtain c where c: "c \<in> set cs" by (cases cs) (auto simp: he_racing_def)
  with Nil.prems(1) have "\<exists>ca. co_candidates s c = Some ca \<and> (waiting ca \<or> connecting ca)" by (auto simp: he_racing_def he_pending_def)
  with c Nil.prems(1) show ?case by auto
next
  case (Cons ev evs)
  let ?c = "he_target ev"
  from he_event_step [OF kernel Cons.prems(1), of ev] Cons.prems(2) obtain a s1 where
    s1: "he_handle_event env ev s = Some (a, s1)" "he_frame f ?c s s1"
      "a = HE_CONTINUE \<and> (\<exists>cs'. he_progress env f ev cs cs' s s1) \<or> (a = HE_POLL_FLOW \<or> a = HE_SECURE) \<and> he_won f ?c cs s1 \<or>
       (\<exists>code. a = HE_ERROR code) \<and> he_lost f s1" by auto
  show ?case
  proof (cases "a = HE_CONTINUE")
    case True
    with s1(3) obtain cs' where p: "he_progress env f ev cs cs' s s1" by auto
    have race': "he_racing f cs' s1" using p by (simp add: he_progress_def)
    have "\<forall>e \<in> set evs. he_target e \<in> set cs' \<or> co_candidates s1 (he_target e) = None"
    proof
      fix e assume "e \<in> set evs"
      then show "he_target e \<in> set cs' \<or> co_candidates s1 (he_target e) = None"
        using p Cons.prems(2) s1(2) by (cases "he_target e = ?c") (auto simp: he_progress_def he_frame_def split: if_splits)
    qed
    from Cons.IH [OF race' this] obtain a' s2 where
      s2: "he_race env evs s1 = Some (a', s2)" "he_outcome f cs' a' s2"
        "a' = HE_CONTINUE \<longrightarrow> (\<forall>n w. fst (ce_malloc env n w)) \<longrightarrow>
         (\<exists>c \<in> set cs'. \<exists>ca. co_candidates s1 c = Some ca \<and> (waiting ca \<and> \<not> serves c False evs \<or> connecting ca \<and> \<not> serves c True evs))" by blast
    have sub: "set cs' \<subseteq> set cs" using p by (simp add: he_progress_def)
    have out: "he_outcome f cs a' s2" using s2(2) sub by (cases a') (simp_all, blast+)
    have "\<exists>c \<in> set cs. \<exists>ca. co_candidates s c = Some ca \<and> (waiting ca \<and> \<not> serves c False (ev # evs) \<or> connecting ca \<and> \<not> serves c True (ev # evs))"
      if cont: "a' = HE_CONTINUE" and mem: "\<forall>n w. fst (ce_malloc env n w)"
    proof -
      from s2(3) cont mem obtain c ca where
        c: "c \<in> set cs'" "co_candidates s1 c = Some ca" "waiting ca \<and> \<not> serves c False evs \<or> connecting ca \<and> \<not> serves c True evs" by blast
      have excl: "\<not> (waiting x \<and> connecting x)" for x by (simp add: waiting_def connecting_def)
      show ?thesis
      proof (cases "c = ?c")
        case False
        then have "co_candidates s c = Some ca" using s1(2) c(2) by (simp add: he_frame_def)
        moreover have ne: "ev \<noteq> HE_TIMER c" "ev \<noteq> HE_READY c" using False by auto
        have "waiting ca \<and> \<not> serves c False (ev # evs) \<or> connecting ca \<and> \<not> serves c True (ev # evs)" using c(3) ne by simp
        ultimately show ?thesis using c(1) sub by blast
      next
        case True
        show ?thesis
        proof (cases ev)
          case ev: (HE_TIMER b)
          then have "connecting ca" using p True c by (auto simp: he_progress_def split: if_splits)
          then have ns: "\<not> serves c True evs" using c(3) excl by blast
          have "c \<in> set cs" using c(1) sub by blast
          then obtain ca0 where ca0: "co_candidates s c = Some ca0" "waiting ca0 \<or> connecting ca0"
            using Cons.prems(1) by (auto simp: he_racing_def he_pending_def)
          moreover have "\<not> serves c False (ev # evs)" "\<not> serves c True (ev # evs)" using ns ev True by auto
          ultimately show ?thesis using \<open>c \<in> set cs\<close> by blast
        next
          case ev: (HE_READY b)
          then have "waiting ca" "co_candidates s c = Some ca" using p True c mem by (auto simp: he_progress_def split: if_splits)
          moreover from this have "\<not> serves c False (ev # evs)" using c(3) excl ev by auto
          ultimately show ?thesis using c(1) sub by blast
        qed
      qed
    qed
    with s1(1) s2(1) True out show ?thesis by auto
  next
    case False
    with s1 show ?thesis by (cases a) auto
  qed
qed

end
