(* ===== verification/He_Props.thy ===== *)
theory He_Props
  imports He_Race
begin

text \<open>
  The properties of the connection attempts: from \<open>nt_he_open\<close> to the decision of the race, what happens to the
  candidates that are left, and two ways in which the code goes wrong.
\<close>

section \<open>Starting the race\<close>

text \<open>A flow that is not connected, with candidates whose delay can be computed.\<close>

definition he_ready :: "nat \<Rightarrow> nat list \<Rightarrow> 'k core \<Rightarrow> bool" where
  "he_ready f cs s \<longleftrightarrow> (\<exists>k o'. co_flows s f = Some k \<and> co_sockets s (fo_socket k) = Some o' \<and> so_handle o' = UV_UNKNOWN_HANDLE \<and>
     \<not> firstWritePending (fo_flow k)) \<and> distinct cs \<and> cs \<noteq> [] \<and> length cs \<le> 256 \<and>
     (\<forall>c \<in> set cs. \<exists>ca. co_candidates s c = Some ca \<and> he_delay ca \<noteq> None)"

lemma he_delay_start [simp]: "he_delay (start_candidate f ca) = he_delay ca"
proof -
  have "ca_properties (start_candidate f ca) = ca_properties ca" "ca_priority (start_candidate f ca) = ca_priority ca"
    by (simp_all add: start_candidate_def)
  then show ?thesis by (simp only: he_delay_def)
qed

lemma he_start_run:
  assumes "\<And>n w. fst (ce_malloc env n w)" and "distinct cs" and "co_flows s f = Some k" and "\<forall>c \<in> set cs. \<exists>ca. co_candidates s c = Some ca \<and> he_delay ca \<noteq> None"
  shows "\<exists>s1. he_start env f cs s = Some s1 \<and> co_sockets s1 = co_sockets s \<and> (\<forall>c. c \<notin> set cs \<longrightarrow> co_candidates s1 c = co_candidates s c) \<and>
     co_flows s1 = (co_flows s)(f \<mapsto> k\<lparr>fo_heConnectAttemptCount := fo_heConnectAttemptCount k + of_nat (length cs)\<rparr>) \<and>
     (\<forall>c \<in> set cs. \<exists>ca delay. co_candidates s c = Some ca \<and> he_delay ca = Some delay \<and>
        co_candidates s1 c = Some ((start_candidate f ca)\<lparr>ca_prio_timer := Some delay\<rparr>))"
  using assms(2-4)
proof (induction cs arbitrary: s k)
  case Nil
  then show ?case by (simp add: fun_upd_idem)
next
  case (Cons c cs)
  from Cons.prems(3) obtain ca delay where ca: "co_candidates s c = Some ca" "he_delay ca = Some delay" by auto
  define s2 where "s2 = modify_flow_obj f (\<lambda>k. k\<lparr>fo_heConnectAttemptCount := fo_heConnectAttemptCount k + 1\<rparr>)
    (s\<lparr>co_world := snd (ce_malloc env 1 (snd (ce_malloc env 1 (co_world s)))),
       co_candidates := (co_candidates s)(c \<mapsto> (start_candidate f ca)\<lparr>ca_prio_timer := Some delay\<rparr>)\<rparr>)"
  have step: "he_start env f (c # cs) s = he_start env f cs s2"
    using ca assms(1) by (simp add: delayed_he_connect_req_def world_call_eq s2_def modify_candidate_def)
  let ?k = "k\<lparr>fo_heConnectAttemptCount := fo_heConnectAttemptCount k + 1\<rparr>"
  have f2: "co_flows s2 f = Some ?k" "co_flows s2 = (co_flows s)(f \<mapsto> ?k)" "co_sockets s2 = co_sockets s" using Cons.prems(2) by (simp_all add: s2_def)
  have c2: "co_candidates s2 = (co_candidates s)(c \<mapsto> (start_candidate f ca)\<lparr>ca_prio_timer := Some delay\<rparr>)" by (simp add: s2_def)
  have "\<forall>b \<in> set cs. \<exists>ca. co_candidates s2 b = Some ca \<and> he_delay ca \<noteq> None" using Cons.prems(1,3) by (auto simp: c2)
  moreover have d: "distinct cs" using Cons.prems(1) by simp
  ultimately obtain s1 where
    s1: "he_start env f cs s2 = Some s1" "co_sockets s1 = co_sockets s2" "\<forall>b. b \<notin> set cs \<longrightarrow> co_candidates s1 b = co_candidates s2 b"
      "co_flows s1 = (co_flows s2)(f \<mapsto> ?k\<lparr>fo_heConnectAttemptCount := fo_heConnectAttemptCount ?k + of_nat (length cs)\<rparr>)"
      "\<forall>b \<in> set cs. \<exists>ca delay. co_candidates s2 b = Some ca \<and> he_delay ca = Some delay \<and>
        co_candidates s1 b = Some ((start_candidate f ca)\<lparr>ca_prio_timer := Some delay\<rparr>)" using Cons.IH [OF d f2(1)] by blast
  have "co_candidates s1 c = Some ((start_candidate f ca)\<lparr>ca_prio_timer := Some delay\<rparr>)" using s1(3) Cons.prems(1) by (simp add: c2)
  moreover have "co_candidates s2 b = co_candidates s b" if "b \<in> set cs" for b using that Cons.prems(1) by (auto simp: c2)
  ultimately have "\<forall>b \<in> set (c # cs). \<exists>ca delay. co_candidates s b = Some ca \<and> he_delay ca = Some delay \<and>
        co_candidates s1 b = Some ((start_candidate f ca)\<lparr>ca_prio_timer := Some delay\<rparr>)" using s1(5) ca by simp
  moreover have "co_flows s1 = (co_flows s)(f \<mapsto> k\<lparr>fo_heConnectAttemptCount := fo_heConnectAttemptCount k + of_nat (length (c # cs))\<rparr>)"
    using s1(4) f2(2) by (simp add: add_ac)
  ultimately show ?case using s1 f2(3) step by (auto simp: c2)
qed

lemma he_open_stream_continue:
  assumes "he_open_stream env f cs s = Some (False, s0)" shows "s0 = modify_flow_obj f (\<lambda>k. k\<lparr>fo_candidates := cs\<rparr>) s"
  using assms by (auto simp: he_open_stream_def Let_def c_assert_def split: bind_splits option.splits if_splits prod.splits)

lemma nt_he_open_racing:
  assumes mem: "\<And>n w. fst (ce_malloc env n w)" and ready: "he_ready f cs s" and join: "he_open_stream env f cs s = Some (False, s0)"
  shows "\<exists>s1. nt_he_open env f cs s = Some s1 \<and> he_racing f cs s1 \<and> (\<forall>c \<in> set cs. \<exists>ca. co_candidates s1 c = Some ca \<and> waiting ca)"
proof -
  from ready obtain k o' where k: "co_flows s f = Some k" "co_sockets s (fo_socket k) = Some o'" "so_handle o' = UV_UNKNOWN_HANDLE"
     "\<not> firstWritePending (fo_flow k)" and cs: "distinct cs" "cs \<noteq> []" "length cs \<le> 256" "\<forall>c \<in> set cs. \<exists>ca. co_candidates s c = Some ca \<and> he_delay ca \<noteq> None"
    by (auto simp: he_ready_def)
  let ?s = "modify_flow_obj f (\<lambda>k. k\<lparr>fo_hefirstConnect := True, fo_heConnectAttemptCount := 0\<rparr>) s0"
  let ?k = "k\<lparr>fo_candidates := cs, fo_hefirstConnect := True, fo_heConnectAttemptCount := 0\<rparr>"
  have s0: "s0 = modify_flow_obj f (\<lambda>k. k\<lparr>fo_candidates := cs\<rparr>) s" by (rule he_open_stream_continue [OF join])
  have f0: "co_flows ?s f = Some ?k" and c0: "co_candidates ?s = co_candidates s" using k(1) by (simp_all add: s0)
  from he_start_run [OF mem cs(1) f0, unfolded c0, OF cs(4)] obtain s1 where
    s1: "he_start env f cs ?s = Some s1" "co_sockets s1 = co_sockets ?s"
      "co_flows s1 = (co_flows ?s)(f \<mapsto> ?k\<lparr>fo_heConnectAttemptCount := fo_heConnectAttemptCount ?k + of_nat (length cs)\<rparr>)"
      "\<forall>c \<in> set cs. \<exists>ca delay. co_candidates s c = Some ca \<and> he_delay ca = Some delay \<and>
        co_candidates s1 c = Some ((start_candidate f ca)\<lparr>ca_prio_timer := Some delay\<rparr>)" by blast
  have waits: "\<exists>ca. co_candidates s1 c = Some ca \<and> waiting ca \<and> ca_flow ca = Some f" if "c \<in> set cs" for c
    using s1(4) that by (auto simp: waiting_def start_candidate_def)
  have "he_racing f cs s1" unfolding he_racing_def
  proof (intro conjI ballI)
    show "\<exists>k o'. co_flows s1 f = Some k \<and> co_sockets s1 (fo_socket k) = Some o' \<and> so_handle o' = UV_UNKNOWN_HANDLE \<and> \<not> firstWritePending (fo_flow k) \<and>
       fo_hefirstConnect k \<and> fo_candidates k = cs \<and> fo_heConnectAttemptCount k = of_nat (length cs)" using k s1(2,3) by (simp add: s0)
    show "\<exists>ca. co_candidates s1 c = Some ca \<and> he_pending f ca" if "c \<in> set cs" for c using waits [OF that] by (auto simp: he_pending_def)
  qed (use cs in simp_all)
  moreover have "nt_he_open env f cs s = Some s1" using join s1(1) by (simp add: nt_he_open_def)
  ultimately show ?thesis using waits by blast
qed

section \<open>The decision\<close>


text \<open>A flow 1 with socket 2 and two candidates: 5 over UDP, 6 over TCP, whose connection is refused.\<close>

definition demo_candidate :: "neat_protocol_stack_type \<Rightarrow> int \<Rightarrow> candidate_obj" where
  "demo_candidate st prio = \<lparr>ca_socket = (so_socket (fresh_socket 1))\<lparr>stack := st\<rparr>, ca_family = 2, ca_type = SOCK_NONE, ca_port = 80,
     ca_dst_address = ''10.0.0.1'', ca_src_address = ''10.0.0.2'', ca_dst_sockaddr = SS_INET 80 1, ca_src_sockaddr = SS_INET 0 2, ca_nr_local_addr = 0,
     ca_flow = None, ca_handle = HANDLE_NULL, ca_prio_timer = None, ca_if_idx = 1, ca_if_name = ''eth0'', ca_priority = prio,
     ca_properties = JSON_OBJECT [], ca_sock_opts = [], ca_to_be_removed = False\<rparr>"

definition demo_race :: "demo_world core" where
  "demo_race = \<lparr>co_flows = [1 \<mapsto> fresh_flow 2], co_sockets = [2 \<mapsto> fresh_socket 1],
     co_candidates = [5 \<mapsto> demo_candidate NEAT_STACK_UDP 0, 6 \<mapsto> demo_candidate NEAT_STACK_TCP 1], co_flow_list = [1], co_world = (\<lambda>_. [], [])\<rparr>"

definition demo_net :: "so_error option \<Rightarrow> demo_world core_env" where
  "demo_net e = (demo_server demo_recvmsg)\<lparr>ce_so_error := \<lambda>d w. (e, w)\<rparr>"


section \<open>After the decision\<close>

text \<open>A candidate that is out after another has won.\<close>

lemma he_won_remove:
  assumes won: "he_won f c cs s" and b: "b \<noteq> c" "b \<in> set cs" and k: "co_flows s f = Some k"
    and s1: "co_flows s1 f = Some (k\<lparr>fo_heConnectAttemptCount := fo_heConnectAttemptCount k - 1, fo_candidates := remove1 b (fo_candidates k)\<rparr>)"
      "co_sockets s1 = co_sockets s" "\<forall>a. a \<noteq> b \<longrightarrow> co_candidates s1 a = co_candidates s a"
  shows "he_won f c (remove1 b cs) s1"
proof -
  have dist: "distinct cs" and len: "length cs \<le> 256" using won by (simp_all add: he_won_def)
  have "length (remove1 b cs) \<le> 256" using len by (auto simp: length_remove1)
  then show ?thesis using won k s1 dist b count_out(1) [OF b(2) len] by (auto simp: he_won_def in_set_remove1)
qed

lemma he_won_pending:
  assumes "he_won f c cs s" and "b \<noteq> c" and "b \<in> set cs" and "co_candidates s b = Some ca" shows "he_pending f ca"
proof -
  have "\<forall>b \<in> set cs - {c}. \<exists>ca. co_candidates s b = Some ca \<and> he_pending f ca" using assms(1) by (simp add: he_won_def)
  from bspec [OF this, of b] assms(2-4) show ?thesis by auto
qed

text \<open>The events of the candidates that are left: they never lead to an error, and the socket of the flow stays as it is.\<close>

definition he_kept :: "nat \<Rightarrow> nat \<Rightarrow> nat list \<Rightarrow> 'k core \<Rightarrow> 'k core \<Rightarrow> bool" where
  "he_kept f b cs s s1 \<longleftrightarrow> co_sockets s1 = co_sockets s \<and> (\<forall>k. co_flows s1 f = Some k \<longrightarrow> \<not> firstWritePending (fo_flow k)) \<and>
     (\<forall>a. a \<noteq> b \<longrightarrow> co_candidates s1 a = co_candidates s a) \<and> (b \<in> set cs \<or> co_candidates s1 b = None)"

lemma he_won_timer:
  assumes kernel: "he_kernel env" and won: "he_won f c cs s" and fwp: "\<forall>k. co_flows s f = Some k \<longrightarrow> \<not> firstWritePending (fo_flow k)"
    and b: "b \<noteq> c" "b \<in> set cs" and ca: "co_candidates s b = Some ca" "waiting ca"
  shows "\<exists>s1 cs'. he_connect_req env b s = Some (HE_CONTINUE, s1) \<and> he_won f c cs' s1 \<and> set cs - {b} \<subseteq> set cs' \<and> he_kept f b cs' s s1"
proof -
  have flow: "ca_flow ca = Some f" using he_won_pending [OF won b ca(1)] by (simp add: he_pending_def)
  from won obtain k where k: "co_flows s f = Some k" "fo_heConnectAttemptCount k = of_nat (length cs)" "c \<in> set cs" "length cs \<le> 256" "distinct cs" by (auto simp: he_won_def)
  have "length cs \<noteq> 1" using b k(3) by (cases cs) auto
  then have count: "fo_heConnectAttemptCount k \<noteq> 1" using count_out(2) [OF b(2) k(4)] k(2) by simp
  have nfwp: "\<not> firstWritePending (fo_flow k)" using fwp k(1) by simp
  from he_connect_req_run [OF kernel ca(1) flow ca(2) k(1)] count obtain s1 where
    s1: "he_connect_req env b s = Some (HE_CONTINUE, s1)" "co_sockets s1 = co_sockets s" "\<forall>a. a \<noteq> b \<longrightarrow> co_candidates s1 a = co_candidates s a"
      "co_flows s1 = co_flows s \<and> (\<exists>ca1. co_candidates s1 b = Some ca1 \<and> connecting ca1 \<and> ca_flow ca1 = Some f) \<or> co_candidates s1 b = None \<and>
        co_flows s1 = (co_flows s)(f \<mapsto> k\<lparr>fo_heConnectAttemptCount := fo_heConnectAttemptCount k - 1, fo_candidates := remove1 b (fo_candidates k)\<rparr>)" by blast
  from s1(4) show ?thesis
  proof (elim disjE conjE exE)
    fix ca1 assume a: "co_flows s1 = co_flows s" "co_candidates s1 b = Some ca1" "connecting ca1" "ca_flow ca1 = Some f"
    have "\<exists>ca. co_candidates s1 x = Some ca \<and> he_pending f ca" if "x \<in> set cs - {c}" for x
      using a s1(3) won that by (cases "x = b") (auto simp: he_won_def he_pending_def)
    then have "he_won f c cs s1" using won a(1) s1(2,3) b(1) by (auto simp: he_won_def)
    moreover have "he_kept f b cs s s1" using s1(2,3) a(1) fwp b(2) by (simp add: he_kept_def)
    ultimately show ?thesis using s1(1) by blast
  next
    assume a: "co_candidates s1 b = None"
      "co_flows s1 = (co_flows s)(f \<mapsto> k\<lparr>fo_heConnectAttemptCount := fo_heConnectAttemptCount k - 1, fo_candidates := remove1 b (fo_candidates k)\<rparr>)"
    have "he_won f c (remove1 b cs) s1" by (rule he_won_remove [OF won b k(1) _ s1(2,3)]) (use a(2) in simp)
    moreover have "he_kept f b (remove1 b cs) s s1" using s1(2,3) a nfwp by (simp add: he_kept_def)
    ultimately show ?thesis using s1(1) k(5) by (intro exI [of _ s1] exI [of _ "remove1 b cs"]) simp
  qed
qed

lemma he_won_ready:
  assumes kernel: "he_kernel env" and won: "he_won f c cs s" and fwp: "\<forall>k. co_flows s f = Some k \<longrightarrow> \<not> firstWritePending (fo_flow k)"
    and b: "b \<noteq> c" "b \<in> set cs" and ca: "co_candidates s b = Some ca" "connecting ca"
  shows "\<exists>s1 cs'. he_connected env b s = Some (HE_CONTINUE, s1) \<and> he_won f c cs' s1 \<and> set cs - {b} \<subseteq> set cs' \<and> he_kept f b cs' s s1"
proof -
  have flow: "ca_flow ca = Some f" using he_won_pending [OF won b ca(1)] by (simp add: he_pending_def)
  from won obtain k where k: "co_flows s f = Some k" "fo_heConnectAttemptCount k = of_nat (length cs)" "c \<in> set cs" "length cs \<le> 256" "distinct cs"
      "\<not> fo_hefirstConnect k" "fo_candidates k = cs" by (auto simp: he_won_def)
  have "length cs \<noteq> 1" using b k(3) by (cases cs) auto
  then have count: "fo_heConnectAttemptCount k - 1 \<noteq> 0" using count_out(2) [OF b(2) k(4)] k(2) by simp
  have nfwp: "\<not> firstWritePending (fo_flow k)" using fwp k(1) by simp
  from he_connected_run [OF kernel ca(1) flow k(1) nfwp] obtain s4 b' where
    w: "only_world s s4" and run: "he_connected env b s = Some (HE_CONTINUE, s4) \<or> he_connected env b s = he_lose env b f b' s4"
    using k(6) by blast
  from run show ?thesis
  proof
    assume r: "he_connected env b s = Some (HE_CONTINUE, s4)"
    have "he_won f c cs s4" using won by (simp add: he_won_def only_worldD [OF w])
    moreover have "he_kept f b cs s s4" using fwp b(2) by (simp add: he_kept_def only_worldD [OF w])
    ultimately show ?thesis using r by blast
  next
    assume r: "he_connected env b s = he_lose env b f b' s4"
    have k4: "co_flows s4 f = Some k" "co_candidates s4 b = Some ca" using k(1) ca(1) by (simp_all add: only_worldD [OF w])
    from he_lose_run [OF k4, of env b'] count obtain s1 where
      s1: "he_lose env b f b' s4 = Some (HE_CONTINUE, s1)" "co_candidates s1 = (co_candidates s4)(b := None)" "co_sockets s1 = co_sockets s4"
      "co_flows s1 = (co_flows s4)(f \<mapsto> k\<lparr>fo_candidates := remove1 b (fo_candidates k), fo_heConnectAttemptCount := fo_heConnectAttemptCount k - 1\<rparr>)" by auto
    have "he_won f c (remove1 b cs) s1" by (rule he_won_remove [OF won b k(1)]) (simp_all add: s1(2-4) only_worldD [OF w])
    moreover have "he_kept f b (remove1 b cs) s s1" using nfwp by (simp add: he_kept_def s1(2-4) only_worldD [OF w])
    ultimately show ?thesis using s1(1) k(5) unfolding r by (intro exI [of _ s1] exI [of _ "remove1 b cs"]) simp
  qed
qed

lemma he_won_event:
  assumes kernel: "he_kernel env" and won: "he_won f c cs s" and fwp: "\<forall>k. co_flows s f = Some k \<longrightarrow> \<not> firstWritePending (fo_flow k)"
    and known: "he_target ev \<noteq> c" "he_target ev \<in> set cs \<or> co_candidates s (he_target ev) = None"
  shows "\<exists>s1 cs'. he_handle_event env ev s = Some (HE_CONTINUE, s1) \<and> he_won f c cs' s1 \<and> set cs - {he_target ev} \<subseteq> set cs' \<and> he_kept f (he_target ev) cs' s s1"
proof (cases "\<exists>ca. co_candidates s (he_target ev) = Some ca \<and> (case ev of HE_TIMER _ \<Rightarrow> waiting ca | HE_READY _ \<Rightarrow> connecting ca)")
  case True
  then obtain ca where ca: "co_candidates s (he_target ev) = Some ca" "case ev of HE_TIMER _ \<Rightarrow> waiting ca | HE_READY _ \<Rightarrow> connecting ca" by blast
  have b: "he_target ev \<in> set cs" using known(2) ca(1) by simp
  show ?thesis
  proof (cases ev)
    case ev: (HE_TIMER x)
    with ca have "he_handle_event env ev s = he_connect_req env x s" by (auto simp: waiting_def)
    with he_won_timer [OF kernel won fwp known(1) b ca(1)] ca(2) ev show ?thesis by simp
  next
    case ev: (HE_READY x)
    with ca have "he_handle_event env ev s = he_connected env x s" by (auto simp: connecting_def)
    with he_won_ready [OF kernel won fwp known(1) b ca(1)] ca(2) ev show ?thesis by simp
  qed
next
  case False
  have pend: "waiting ca \<or> connecting ca" if "co_candidates s (he_target ev) = Some ca" for ca
    using he_won_pending [OF won known(1) _ that] known(2) that by (simp add: he_pending_def)
  have "he_handle_event env ev s = Some (HE_CONTINUE, s)"
  proof (cases "co_candidates s (he_target ev)")
    case None
    then show ?thesis by (cases ev) simp_all
  next
    case (Some ca)
    with pend False show ?thesis by (cases ev) (auto simp: waiting_def connecting_def)
  qed
  moreover have "he_kept f (he_target ev) cs s s" using fwp known(2) by (simp add: he_kept_def)
  ultimately show ?thesis using won by blast
qed


text \<open>The race of the demonstration, won by the UDP candidate, when the timer of the TCP candidate fires.\<close>

definition demo_won :: "demo_world core" where
  "demo_won = \<lparr>co_flows = [1 \<mapsto> (fresh_flow 2)\<lparr>fo_candidates := [5, 6], fo_heConnectAttemptCount := 2, fo_everConnected := True,
       fo_flow := (fo_flow (fresh_flow 2))\<lparr>isPolling := True\<rparr>\<rparr>],
     co_sockets = [2 \<mapsto> take_candidate ((demo_candidate NEAT_STACK_UDP 0)\<lparr>ca_socket := (ca_socket (demo_candidate NEAT_STACK_UDP 0))\<lparr>fd := 9\<rparr>\<rparr>) 1 (fresh_socket 1)],
     co_candidates = [5 \<mapsto> (demo_candidate NEAT_STACK_UDP 0)\<lparr>ca_handle := HANDLE_OF_SOCKET 2, ca_flow := Some 1,
         ca_socket := (ca_socket (demo_candidate NEAT_STACK_UDP 0))\<lparr>fd := 9\<rparr>\<rparr>,
       6 \<mapsto> (start_candidate 1 (demo_candidate NEAT_STACK_TCP 1))\<lparr>ca_prio_timer := Some 10\<rparr>],
     co_flow_list = [1], co_world = (\<lambda>_. [], [])\<rparr>"


section \<open>Errors\<close>

text \<open>C33. When the error of a ready socket cannot be asked for, \<open>he_connected_cb\<close> closes the handle and reports an error, but the candidate
  stays in the list of the flow and keeps the pointer to the handle. After libuv has freed the handle, freeing the flow uses it: the
  model, in which such an access has no result, does not return.\<close>

theorem he_error_dangling_handle:
  assumes "co_candidates s c = Some ca" and "ca_flow ca = Some f" and "co_flows s f = Some k" and "fo_candidates k = c # cs" and "0 \<le> fd (ca_socket ca)"
    and "fst (ce_so_error env (fd (ca_socket ca)) (co_world s)) = None"
  shows "\<exists>s1. he_connected env c s = Some (HE_ERROR NEAT_ERROR_INTERNAL, s1) \<and> nt_free_flow env f (free_he_handle_cb c s1) = None"
proof -
  let ?s1 = "modify_candidate c (\<lambda>k. k\<lparr>ca_handle := HANDLE_OWN UV_CLOSING\<rparr>) (s\<lparr>co_world := snd (ce_so_error env (fd (ca_socket ca)) (co_world s))\<rparr>)"
  have "he_connected env c s = Some (HE_ERROR NEAT_ERROR_INTERNAL, ?s1)" using assms(1-3,6) by (simp add: he_connected_def world_call_eq)
  moreover have "nt_free_candidate env c ((free_he_handle_cb c ?s1)\<lparr>co_flow_list := l\<rparr>) = None" for l
    using assms(1-3,5) by (cases "co_sockets s (fo_socket k)") (auto simp: nt_free_candidate_def free_he_handle_cb_def)
  then have "nt_free_flow env f (free_he_handle_cb c ?s1) = None" using assms(3,4) by (simp add: nt_free_flow_def free_he_handle_cb_def)
  ultimately show ?thesis by blast
qed

theorem he_error_dangling_handle_witness:
  "\<exists>s1. he_connected (demo_net None) 6 (modify_candidate 6 (\<lambda>k. k\<lparr>ca_flow := Some 1\<rparr>) (modify_flow_obj 1 (\<lambda>k. k\<lparr>fo_candidates := [6]\<rparr>) demo_race)) =
     Some (HE_ERROR NEAT_ERROR_INTERNAL, s1) \<and> nt_free_flow (demo_net None) 1 (free_he_handle_cb 6 s1) = None"
  by (rule he_error_dangling_handle [where ca = "(demo_candidate NEAT_STACK_TCP 1)\<lparr>ca_flow := Some 1\<rparr>" and k = "(fresh_flow 2)\<lparr>fo_candidates := [6]\<rparr>" and cs = "[]"])
    (simp_all add: demo_race_def demo_candidate_def fresh_socket_def demo_net_def)

text \<open>A kernel that keeps the list of open descriptors, on which \<open>connect\<close> fails at once.\<close>

definition fd_net :: "int list core_env" where
  "fd_net = \<lparr>ce_app = \<lambda>cb f s. s, ce_calloc = \<lambda>used w. (None, w), ce_malloc = \<lambda>n w. (True, w),
     ce_recvmsg = \<lambda>x n w. (\<lparr>rm_n = - 1, rm_data = [], rm_sid = - 1, rm_notification = False, rm_eor = False, rm_event = SCTP_OTHER_EVENT\<rparr>, w),
     ce_recvfrom = \<lambda>x n w. (None, SS_OTHER 0, w), ce_peek = \<lambda>x w. (1, w), ce_sendmsg = \<lambda>w x m. (- 1, EOTHER, w),
     ce_socket = \<lambda>f t x w. (3 + int (length w), (3 + int (length w)) # w), ce_bind = \<lambda>x a w. (0, w), ce_bindx = \<lambda>x as n w. (0, w),
     ce_listen = \<lambda>x w. (0, w), ce_connect = \<lambda>x a w. (CONNECT_ERROR, w), ce_accept = \<lambda>x w. (- 1, w), ce_getpeername = \<lambda>x w. (True, w),
     ce_setsockopt = \<lambda>n x v w. (0, w), ce_getsockopt = \<lambda>n x w. (None, w), ce_if_indextoname = \<lambda>i w. (None, w), ce_getenv = \<lambda>v w. None,
     ce_pm_send = \<lambda>path j w. w, ce_sctp_status = \<lambda>x w. (None, w), ce_so_error = \<lambda>x w. (Some SO_NONE, w), ce_shutdown = \<lambda>x w. (0, w),
     ce_close = \<lambda>x w. remove1 x w, ce_security_install = \<lambda>f s. (NEAT_OK, s)\<rparr>"

text \<open>A candidate whose \<open>connect\<close> fails at once is freed, but its descriptor stays open.\<close>

lemma connect_failure_leaks:
  "\<exists>s1. he_connect_req fd_net 6 \<lparr>co_flows = [1 \<mapsto> (fresh_flow 2)\<lparr>fo_candidates := [5, 6], fo_heConnectAttemptCount := 2\<rparr>], co_sockets = [2 \<mapsto> fresh_socket 1],
       co_candidates = [6 \<mapsto> (start_candidate 1 (demo_candidate NEAT_STACK_TCP 1))\<lparr>ca_prio_timer := Some 10\<rparr>], co_flow_list = [1], co_world = []\<rparr> =
     Some (HE_CONTINUE, s1) \<and> co_candidates s1 6 = None \<and> co_world s1 = [3]"
  by (simp add: he_connect_req_def nt_connect_def fd_net_def start_candidate_def demo_candidate_def fresh_flow_def fresh_socket_def world_call_def connect_bind_def
      bind_to_device_def connect_sizes_def buffer_size_def connect_stack_def nt_free_candidate_def Let_def)

text \<open>With 257 candidates the counter of 8 bits starts at 1, so the first failure is reported as the failure of all.\<close>

lemma attempt_count_wraps:
  assumes "co_flows s f = Some k" and "length (fo_candidates k) = 257" and "fo_heConnectAttemptCount k = of_nat (length (fo_candidates k))"
    and "co_candidates s c = Some ca"
  shows "\<exists>s1. he_lose env c f False s = Some (HE_ERROR NEAT_ERROR_UNABLE, s1)"
  using he_lose_run [OF assms(1,4), of env False] assms(2,3) by auto

end
