(* ===== verification/Pm_Json.thy ===== *)
theory Pm_Json
  imports Json "HOL-Library.Multiset"
begin

text \<open>
  The policy manager, part one: the operations on requests, candidates and policies of
  \<open>policy_manager/parse_json.c\<close>. A request is an object of properties; a property is an object with the attributes
  \<open>value\<close>, \<open>score\<close>, \<open>evaluated\<close> and \<open>precedence\<close>, or an array of such objects. A string function on a null pointer has
  no result. \<open>qsort\<close> is a parameter: the C standard leaves the order of equal elements open.
\<close>

section \<open>Requests\<close>

definition PRECEDENCE_BASE :: int where "PRECEDENCE_BASE = 0"
definition PRECEDENCE_OPTIONAL :: int where "PRECEDENCE_OPTIONAL = 1"
definition PRECEDENCE_IMMUTABLE :: int where "PRECEDENCE_IMMUTABLE = 2"

text \<open>Whether one of the requests asks for candidates before the resolution of names, and the requests without this attribute.\<close>

fun pre_resolve :: "json list \<Rightarrow> (bool \<times> json list) option" where
  "pre_resolve [] = Some (False, [])"
| "pre_resolve (request # rs) = do {
     (pre, r) \<leftarrow> (case json_object_get request ''__request_type'' of
        None \<Rightarrow> Some (False, request)
      | Some req_type \<Rightarrow> do {
          v \<leftarrow> Option.bind (json_object_get req_type ''value'') json_string_value;
          Some (if v = ''pre-resolve'' then (True, json_object_del request ''__request_type'') else (False, request)) });
     (pres, rest) \<leftarrow> pre_resolve rs;
     Some (pre \<or> pres, r # rest) }"

definition default_props :: "(string \<times> json) list" where
  "default_props = [(''value'', JSON_NULL), (''score'', JSON_INTEGER 0), (''evaluated'', JSON_FALSE),
     (''precedence'', JSON_INTEGER PRECEDENCE_OPTIONAL)]"

definition add_default :: "string \<times> json \<Rightarrow> json \<Rightarrow> json" where
  "add_default d property = (if json_object_get property (fst d) = None then json_object_set property (fst d) (Some (snd d)) else property)"

text \<open>The attributes of one property, or of every property in an array.\<close>

fun default_property :: "json \<Rightarrow> json" where
  "default_property (JSON_ARRAY xs) = JSON_ARRAY (map default_property xs)"
| "default_property property = fold add_default default_props property"

fun add_default_values :: "json \<Rightarrow> json" where
  "add_default_values (JSON_OBJECT ms) = JSON_OBJECT (map (\<lambda>(key, property). (key, default_property property)) ms)"
| "add_default_values request = request"

section \<open>Scores\<close>

record score_t =
  evaluated :: int
  non_evaluated :: int

definition property_score :: "string \<times> json \<Rightarrow> score_t \<Rightarrow> score_t" where
  "property_score m acc =
     (case json_object_get (snd m) ''score'' of
        None \<Rightarrow> acc
      | Some score_obj \<Rightarrow>
          (let score = to_int32 (json_integer_value score_obj)
           in if json_object_get (snd m) ''evaluated'' = Some JSON_TRUE
              then acc\<lparr>evaluated := to_int32 (evaluated acc + score)\<rparr>
              else acc\<lparr>non_evaluated := to_int32 (non_evaluated acc + score)\<rparr>))"

definition property_score_sum :: "json \<Rightarrow> score_t" where
  "property_score_sum candidate = fold property_score (json_members candidate) \<lparr>evaluated = 0, non_evaluated = 0\<rparr>"

definition cmp_score :: "json \<Rightarrow> json \<Rightarrow> int" where
  "cmp_score json1 json2 =
     (let score1 = property_score_sum json1; score2 = property_score_sum json2;
          evaluated_diff = to_int32 (evaluated score2 - evaluated score1);
          non_evaluated_diff = to_int32 (non_evaluated score2 - non_evaluated score1)
      in if evaluated_diff \<noteq> 0 then evaluated_diff else non_evaluated_diff)"

type_synonym qsort = "(json \<Rightarrow> json \<Rightarrow> int) \<Rightarrow> json list \<Rightarrow> json list"

definition sort_json_array :: "qsort \<Rightarrow> json list \<Rightarrow> json list" where
  "sort_json_array qsort array = qsort cmp_score array"

text \<open>\<open>json_array_remove\<close>: an index out of range is only logged.\<close>

definition json_array_remove :: "nat \<Rightarrow> 'a list \<Rightarrow> 'a list" where
  "json_array_remove i xs = take i xs @ drop (Suc i) xs"

text \<open>The index is unsigned: the loop does not end for the limit 0.\<close>

partial_function (option) limit_loop :: "u64 \<Rightarrow> u64 \<Rightarrow> json list \<Rightarrow> json list option" where
  "limit_loop i limit array = (if limit \<le> i then limit_loop (i - 1) limit (json_array_remove (unat i) array) else Some array)"

declare limit_loop.simps [code]

definition limit_json_array :: "json list \<Rightarrow> u64 \<Rightarrow> json list option" where
  "limit_json_array array limit = (if array = [] then Some array else limit_loop (of_nat (length array) - 1) limit array)"

section \<open>Expansion\<close>

definition create_json_array :: "json \<Rightarrow> json list" where
  "create_json_array j = (case j of JSON_ARRAY xs \<Rightarrow> xs | _ \<Rightarrow> [j])"

text \<open>An endpoint \<open>address@interface\<close>. \<open>json_string\<close> of a missing token is a null pointer, which is not set.\<close>

definition parse_local_endpoint :: "json \<Rightarrow> json \<Rightarrow> json option" where
  "parse_local_endpoint local_endpoint element =
     (if json_object_get local_endpoint ''value'' = Some JSON_NULL then Some element
      else do {
        le_value \<leftarrow> Option.bind (json_object_get local_endpoint ''value'') json_string_value;
        Some (if CHR ''@'' \<in> set le_value
              then (let tokens = strtok ''@'' le_value;
                        part = (\<lambda>n. json_object_set local_endpoint ''value'' (if n < length tokens then Some (JSON_STRING (tokens ! n)) else None))
                    in json_object_del (json_object_set (json_object_set element ''interface'' (Some (part 1))) ''local_ip'' (Some (part 0)))
                         ''local_endpoint'')
              else element) })"

fun process_special_properties :: "json list \<Rightarrow> json list option" where
  "process_special_properties [] = Some []"
| "process_special_properties (value # vs) = do {
     xs \<leftarrow> (case json_object_get value ''local_endpoint'' of
        Some (JSON_OBJECT ms) \<Rightarrow> do { x \<leftarrow> parse_local_endpoint (JSON_OBJECT ms) value; Some (create_json_array x) }
      | _ \<Rightarrow> Some [value]);
     rest \<leftarrow> process_special_properties vs;
     Some (xs @ rest) }"

text \<open>The properties of a policy: an object, an array of objects, or an array of arrays, of which every combination is built.\<close>

definition append_value :: "json \<Rightarrow> json \<Rightarrow> json" where
  "append_value j new_value = (case new_value of JSON_OBJECT _ \<Rightarrow> json_object_update j new_value | _ \<Rightarrow> j)"

definition combine_arrays :: "json list \<Rightarrow> json \<Rightarrow> json list" where
  "combine_arrays result value1 =
     concat (map (\<lambda>value2. map (\<lambda>value3. append_value (append_value (JSON_OBJECT []) value3) value2) result) (json_elements value1))"

definition expand_json_arrays :: "json list \<Rightarrow> json list" where
  "expand_json_arrays in_properties = foldl combine_arrays [JSON_ARRAY []] in_properties"

definition expand_json :: "json option \<Rightarrow> json list" where
  "expand_json in_properties =
     (case in_properties of
        Some (JSON_OBJECT ms) \<Rightarrow> [JSON_OBJECT ms]
      | Some (JSON_ARRAY xs) \<Rightarrow> if xs \<noteq> [] \<and> json_typeof (hd xs) = TYPE_ARRAY then expand_json_arrays xs else xs
      | _ \<Rightarrow> [])"

text \<open>The first property of a request that is an array, with the properties before and after it.\<close>

fun first_array :: "(string \<times> json) list \<Rightarrow> ((string \<times> json) list \<times> string \<times> json list \<times> (string \<times> json) list) option" where
  "first_array [] = None"
| "first_array ((key, v) # ms) =
     (case v of JSON_ARRAY vs \<Rightarrow> Some ([], key, vs, ms)
      | _ \<Rightarrow> map_option (\<lambda>(pre, r). ((key, v) # pre, r)) (first_array ms))"

lemma first_array_split: "first_array ms = Some (pre, key, vs, post) \<Longrightarrow> ms = pre @ (key, JSON_ARRAY vs) # post"
  by (induction ms arbitrary: pre) (auto split: json.splits)

lemma size_element: "v \<in> set vs \<Longrightarrow> size v < size (JSON_ARRAY vs)"
  by (induction vs) auto

text \<open>\<open>expand_element_property\<close> and \<open>expand_property\<close>, which call each other: a copy of the element for every element of its first array. As
  the keys are different, setting the property replaces the array in its place.\<close>

function expand_members :: "(string \<times> json) list \<Rightarrow> (string \<times> json) list list" where
  "expand_members ms =
     (case first_array ms of
        None \<Rightarrow> [ms]
      | Some (pre, key, vs, post) \<Rightarrow>
          (let my_return = concat (map (\<lambda>v. expand_members (pre @ (key, v) # post)) vs)
           in if my_return = [] then [ms] else my_return))"
  by auto

termination
proof (relation "measure (size_list (\<lambda>m. size (snd m)))")
  fix ms x pre y key z vs post v
  assume split: "first_array ms = Some x" "(pre, y) = x" "(key, z) = y" "(vs, post) = z" and v: "v \<in> set vs"
  then have "ms = pre @ (key, JSON_ARRAY vs) # post" using first_array_split by blast
  with size_element [OF v] show "(pre @ (key, v) # post, ms) \<in> measure (size_list (\<lambda>m. size (snd m)))"
    by (simp add: size_list_append)
qed simp

declare expand_members.simps [simp del]

definition expand_element_property :: "json \<Rightarrow> json list" where
  "expand_element_property element = (case element of JSON_OBJECT ms \<Rightarrow> map JSON_OBJECT (expand_members ms) | _ \<Rightarrow> [element])"

definition expand_properties :: "json \<Rightarrow> json list" where
  "expand_properties req =
     concat (map (\<lambda>element. if json_typeof element = TYPE_OBJECT then expand_element_property element else []) (create_json_array req))"

text \<open>The values of one property that are an array; only the first such property is expanded.\<close>

definition array_value :: "json \<Rightarrow> json list option" where
  "array_value property = (case json_object_get property ''value'' of Some (JSON_ARRAY vs) \<Rightarrow> Some vs | _ \<Rightarrow> None)"

definition expand_value :: "json \<Rightarrow> string \<Rightarrow> json \<Rightarrow> json list \<Rightarrow> json list" where
  "expand_value element key property value =
     map (\<lambda>v. json_object_set element key (Some (json_object_set property ''value'' (Some v)))) value"

definition expand_element_value :: "json \<Rightarrow> json list" where
  "expand_element_value element =
     (case find (\<lambda>m. array_value (snd m) \<noteq> None) (json_members element) of
        None \<Rightarrow> [element]
      | Some (key, property) \<Rightarrow>
          (let my_return = expand_value element key property (the (array_value property))
           in if my_return = [] then [element] else my_return))"

definition expand_values :: "json list \<Rightarrow> json list" where
  "expand_values req = concat (map (\<lambda>element. if json_typeof element = TYPE_OBJECT then expand_element_value element else []) req)"

section \<open>Matching and merging\<close>

text \<open>Every property of the first is a property of the second with the same value. What is not an object has no properties.\<close>

definition subset :: "json option \<Rightarrow> json \<Rightarrow> bool" where
  "subset prop_a prop_b =
     list_all (\<lambda>(key, a). case json_object_get prop_b key of
                 None \<Rightarrow> False
               | Some b \<Rightarrow> json_equal_ptr (json_object_get a ''value'') (json_object_get b ''value''))
       (case prop_a of None \<Rightarrow> [] | Some j \<Rightarrow> json_members j)"

definition attribute :: "json \<Rightarrow> string \<Rightarrow> int" where
  "attribute property name = (case json_object_get property name of None \<Rightarrow> 0 | Some v \<Rightarrow> to_int32 (json_integer_value v))"

text \<open>The score that the code sets in the old value instead of the property is lost with this value.\<close>

definition merge_do_update_property :: "json \<Rightarrow> json \<Rightarrow> bool \<Rightarrow> json" where
  "merge_do_update_property prop_a prop_b eval =
     (let a1 = json_object_set prop_a ''evaluated'' (Some (json_bool eval)); value_a = json_object_get a1 ''value''
      in case json_object_get prop_b ''value'' of
           None \<Rightarrow> a1
         | Some value_b \<Rightarrow>
             if value_a = None \<or> json_equal_ptr value_a (Some value_b)
             then json_object_set (json_object_set a1 ''score'' (Some (JSON_INTEGER (to_int32 (attribute a1 ''score'' + attribute prop_b ''score'')))))
                    ''precedence'' (Some (JSON_INTEGER (max (attribute a1 ''precedence'') (attribute prop_b ''precedence''))))
             else if attribute a1 ''precedence'' = PRECEDENCE_IMMUTABLE \<and> attribute prop_b ''precedence'' = PRECEDENCE_IMMUTABLE then a1
             else if attribute a1 ''precedence'' \<le> attribute prop_b ''precedence''
             then json_object_set (json_object_set a1 ''value'' (Some value_b)) ''precedence'' (json_object_get prop_b ''precedence'')
             else a1)"

definition merge_update_property :: "json \<Rightarrow> json \<Rightarrow> json" where
  "merge_update_property prop_a prop_b =
     (case json_object_get prop_b ''precedence'' of
        None \<Rightarrow> prop_a
      | Some p \<Rightarrow>
          if to_int32 (json_integer_value p) = PRECEDENCE_BASE then json_object_update prop_a (merge_do_update_property prop_b prop_a False)
          else merge_do_update_property prop_a prop_b True)"

definition merge_property :: "bool \<Rightarrow> string \<times> json \<Rightarrow> json \<Rightarrow> json" where
  "merge_property should_overwrite m prop_b =
     json_object_set prop_b (fst m)
       (Some (case json_object_get prop_b (fst m) of
                Some found_prop \<Rightarrow> if should_overwrite then snd m else merge_update_property found_prop (snd m)
              | None \<Rightarrow> snd m))"

definition merge_properties :: "json \<Rightarrow> json \<Rightarrow> bool \<Rightarrow> json" where
  "merge_properties prop_a prop_b should_overwrite = fold (merge_property should_overwrite) (json_members prop_a) prop_b"

end
