(* ===== verification/Pm_Base.thy ===== *)
theory Pm_Base
  imports Pm_Json
begin

text \<open>
  The policy manager, part two: the lists of nodes (\<open>policy_manager/node.c\<close>), the policy information base with its
  profiles and policies (\<open>pib.c\<close>) and the characteristics information base (\<open>cib.c\<close>). A node is a JSON file that has been
  read; its list is a HOL list from the head on. The files, the clock and the interfaces of the host are parameters; memory
  is always there. The identifier that \<open>get_hash\<close> makes has no terminating zero, so code that uses it reads past its end
  and has no result.
\<close>

section \<open>Nodes\<close>

record pm_node =
  pn_filename :: string
  pn_last_updated :: int
  pn_json :: "json option"

text \<open>The file system: the entries of a directory with whether they are regular files, the time of the last change of a file and its contents.\<close>

record pm_files =
  pf_dir :: "string \<Rightarrow> (string \<times> bool) list option"
  pf_edit_time :: "string \<Rightarrow> int"
  pf_load :: "string \<Rightarrow> json option"
  pf_time :: int

text \<open>\<open>vsprintf\<close> into a buffer of 1000 characters.\<close>

definition new_string :: "string \<Rightarrow> string option" where
  "new_string str = (if length str < 1000 then Some str else None)"

definition update_node_content :: "int \<Rightarrow> json option \<Rightarrow> pm_node \<Rightarrow> pm_node" where
  "update_node_content now j node = (case j of None \<Rightarrow> node | Some _ \<Rightarrow> node\<lparr>pn_json := j, pn_last_updated := now\<rparr>)"

definition node_init :: "string \<Rightarrow> pm_node" where
  "node_init file_path = \<lparr>pn_filename = file_path, pn_last_updated = 0, pn_json = None\<rparr>"

definition create_node :: "pm_files \<Rightarrow> string \<Rightarrow> pm_node option" where
  "create_node files file_path =
     (case pf_load files file_path of
        None \<Rightarrow> None
      | Some j \<Rightarrow> Some (update_node_content (pf_time files) (Some j) (node_init file_path)))"

definition get_node :: "pm_node list \<Rightarrow> string \<Rightarrow> pm_node option" where
  "get_node nodes file_path = find (\<lambda>n. pn_filename n = file_path) nodes"

definition has_node :: "pm_node list \<Rightarrow> string \<Rightarrow> bool" where
  "has_node nodes file_path = (\<exists>n \<in> set nodes. pn_filename n = file_path)"

definition node_priority :: "pm_node \<Rightarrow> int" where
  "node_priority node = (case json_get (pn_json node) ''priority'' of None \<Rightarrow> 0 | Some v \<Rightarrow> to_int32 (json_integer_value v))"

text \<open>The walk of \<open>add_node\<close> behind the head: the node comes before the first one with a greater priority.\<close>

fun insert_node :: "pm_node \<Rightarrow> pm_node list \<Rightarrow> pm_node list" where
  "insert_node node [] = [node]"
| "insert_node node (n # ns) = (if node_priority node < node_priority n then node # n # ns else n # insert_node node ns)"

definition add_node :: "pm_node list \<Rightarrow> pm_node option \<Rightarrow> pm_node list" where
  "add_node head node =
     (case node of
        None \<Rightarrow> head
      | Some n \<Rightarrow>
          (case head of
             [] \<Rightarrow> [n]
           | h # rest \<Rightarrow> if node_priority n < node_priority h then n # head else h # insert_node n rest))"

fun remove_node :: "string \<Rightarrow> pm_node list \<Rightarrow> pm_node list" where
  "remove_node file_path [] = []"
| "remove_node file_path (n # ns) = (if pn_filename n = file_path then ns else n # remove_node file_path ns)"

text \<open>The node that \<open>get_node\<close> finds is changed in its place.\<close>

fun change_node :: "(pm_node \<Rightarrow> pm_node) \<Rightarrow> string \<Rightarrow> pm_node list \<Rightarrow> pm_node list" where
  "change_node g file_path [] = []"
| "change_node g file_path (n # ns) = (if pn_filename n = file_path then g n # ns else n # change_node g file_path ns)"

definition update_node :: "pm_files \<Rightarrow> pm_node list \<Rightarrow> string \<Rightarrow> pm_node list" where
  "update_node files head file_path =
     (case get_node head file_path of
        Some node \<Rightarrow>
          if pn_last_updated node \<le> pf_edit_time files file_path
          then change_node (update_node_content (pf_time files) (pf_load files file_path)) file_path head else head
      | None \<Rightarrow> add_node head (create_node files file_path))"

fun read_entries :: "pm_files \<Rightarrow> string \<Rightarrow> (string \<times> bool) list \<Rightarrow> pm_node list \<Rightarrow> pm_node list option" where
  "read_entries files dir_path [] head = Some head"
| "read_entries files dir_path ((d_name, regular) # es) head =
     (if regular then do { file_path \<leftarrow> new_string (dir_path @ d_name); read_entries files dir_path es (update_node files head file_path) }
      else read_entries files dir_path es head)"

definition read_modified_files :: "pm_files \<Rightarrow> pm_node list \<Rightarrow> string \<Rightarrow> pm_node list option" where
  "read_modified_files files head dir_path =
     (case pf_dir files dir_path of None \<Rightarrow> Some [] | Some es \<Rightarrow> read_entries files dir_path es head)"

definition get_node_properties :: "pm_node option \<Rightarrow> json option" where
  "get_node_properties node = Option.bind node (\<lambda>n. json_get (pn_json n) ''properties'')"

definition node_has_property :: "pm_node option \<Rightarrow> string \<Rightarrow> json option" where
  "node_has_property node prop = json_get (get_node_properties node) prop"

definition node_set_property :: "pm_node \<Rightarrow> string \<Rightarrow> json option \<Rightarrow> pm_node" where
  "node_set_property node prop new_value =
     (case get_node_properties (Some node) of
        None \<Rightarrow> node
      | Some props \<Rightarrow> node\<lparr>pn_json := map_option (\<lambda>j. json_object_set j ''properties'' (Some (json_object_set props prop new_value))) (pn_json node)\<rparr>)"

text \<open>A node without an identifier is a null pointer for \<open>strcmp\<close>.\<close>

fun get_node_by_uid :: "pm_node list \<Rightarrow> string \<Rightarrow> pm_node option option" where
  "get_node_by_uid [] uid = Some None"
| "get_node_by_uid (n # ns) uid = do {
     current_uid \<leftarrow> Option.bind (json_get (pn_json n) ''uid'') json_string_value;
     if current_uid = uid then Some (Some n) else get_node_by_uid ns uid }"

section \<open>The information bases\<close>

text \<open>The global lists, the directories and the files that have been written.\<close>

record pm =
  pib_profiles :: "pm_node list"
  pib_policies :: "pm_node list"
  cib_nodes :: "pm_node list"
  pib_dir :: string
  cib_dir :: string
  profile_dir :: string
  policy_dir :: string
  pm_written :: "(string \<times> json) list"

definition node_list :: "pm_node list \<Rightarrow> json list" where
  "node_list nodes = concat (map (\<lambda>n. case json_get (pn_json n) ''uid'' of None \<Rightarrow> [] | Some u \<Rightarrow> [u]) nodes)"

definition get_pib_list :: "pm \<Rightarrow> json list" where "get_pib_list s = node_list (pib_policies s)"

definition get_cib_list :: "pm \<Rightarrow> json list" where "get_cib_list s = node_list (cib_nodes s)"

definition get_pibnode_by_uid :: "pm \<Rightarrow> string \<Rightarrow> json option option" where
  "get_pibnode_by_uid s uid = map_option (\<lambda>n. Option.bind n pn_json) (get_node_by_uid (pib_policies s) uid)"

definition get_cibnode_by_uid :: "pm \<Rightarrow> string \<Rightarrow> json option option" where
  "get_cibnode_by_uid s uid = map_option (\<lambda>n. Option.bind n pn_json) (get_node_by_uid (cib_nodes s) uid)"

definition set_missing :: "json \<Rightarrow> string \<Rightarrow> json \<Rightarrow> json" where
  "set_missing j key v = (if json_object_get j key = None then json_object_set j key (Some v) else j)"

text \<open>The result of \<open>add_node\<close> is not assigned: the list still starts at the old head, so a node that has become the head is lost.\<close>

definition add_node_at :: "pm_node list \<Rightarrow> pm_node \<Rightarrow> pm_node list" where
  "add_node_at head node =
     (if head = [] \<or> node_priority node < node_priority (hd head) then head else add_node head (Some node))"

definition add_pib_node :: "int \<Rightarrow> json option \<Rightarrow> pm \<Rightarrow> pm option" where
  "add_pib_node now json_for_node s = do {
     uid \<leftarrow> Option.bind (json_get json_for_node ''uid'') json_string_value;
     j \<leftarrow> json_for_node;
     path \<leftarrow> new_string (pib_dir s @ uid @ ''.policy'');
     j1 \<leftarrow> (if json_object_get j ''filename'' = None
            then do { name \<leftarrow> new_string (uid @ ''.policy''); Some (json_object_set j ''filename'' (Some (JSON_STRING name))) } else Some j);
     let j2 = set_missing j1 ''time'' (JSON_INTEGER (to_int32 now));
     Some (s\<lparr>pib_policies := add_node_at (pib_policies s) ((node_init path)\<lparr>pn_json := Some j2\<rparr>), pm_written := pm_written s @ [(path, j2)]\<rparr>) }"

definition replace_matched :: "json option \<Rightarrow> bool" where
  "replace_matched policy = (json_get policy ''replace_matched'' = Some JSON_TRUE)"

text \<open>A candidate that matches a policy is replaced by one for each expansion of the properties of the policy.\<close>

definition pib_match :: "pm_node \<Rightarrow> json \<Rightarrow> bool" where
  "pib_match policy candidate = (json_get (pn_json policy) ''match'' = None \<or> subset (json_get (pn_json policy) ''match'') candidate)"

definition apply_policy :: "json list \<Rightarrow> pm_node \<Rightarrow> json list" where
  "apply_policy candidates policy =
     concat (map (\<lambda>candidate.
       if pib_match policy candidate
       then map (\<lambda>expanded_prop. merge_properties expanded_prop candidate (replace_matched (pn_json policy)))
              (expand_json (json_get (pn_json policy) ''properties''))
       else [candidate]) candidates)"

definition pib_lookup :: "pm_node list \<Rightarrow> json \<Rightarrow> json list" where
  "pib_lookup pib_list input_props = foldl apply_policy [input_props] pib_list"

definition policy_lookup :: "pm \<Rightarrow> json \<Rightarrow> json list" where "policy_lookup s input_props = pib_lookup (pib_policies s) input_props"

definition profile_lookup :: "pm \<Rightarrow> json \<Rightarrow> json list" where "profile_lookup s input_props = pib_lookup (pib_profiles s) input_props"

definition pib_start :: "pm_files \<Rightarrow> pm \<Rightarrow> pm option" where
  "pib_start files s = do {
     profiles \<leftarrow> read_modified_files files (pib_profiles s) (profile_dir s);
     policies \<leftarrow> read_modified_files files (pib_policies s) (policy_dir s);
     Some (s\<lparr>pib_profiles := profiles, pib_policies := policies\<rparr>) }"

definition CIB_DEFAULT_TIMEOUT :: int where "CIB_DEFAULT_TIMEOUT = 600"

definition add_cib_node :: "int \<Rightarrow> json option \<Rightarrow> pm \<Rightarrow> pm option" where
  "add_cib_node now json_for_node s = do {
     uid \<leftarrow> Option.bind (json_get json_for_node ''uid'') json_string_value;
     j \<leftarrow> json_for_node;
     (filename, j1) \<leftarrow> (case Option.bind (json_object_get j ''filename'') json_string_value of
        Some filename \<Rightarrow> Some (filename, j)
      | None \<Rightarrow> do { filename \<leftarrow> new_string (uid @ ''.cib''); Some (filename, json_object_set j ''filename'' (Some (JSON_STRING filename))) });
     path \<leftarrow> new_string (cib_dir s @ filename);
     let j2 = set_missing (set_missing (set_missing (set_missing j1 ''description'' (JSON_STRING '''')) ''priority'' (JSON_INTEGER 0))
                ''root'' JSON_FALSE) ''expire'' (JSON_REAL (now + CIB_DEFAULT_TIMEOUT) 0);
     Some (s\<lparr>cib_nodes := add_node_at (cib_nodes s) ((node_init path)\<lparr>pn_json := Some j2\<rparr>), pm_written := pm_written s @ [(path, j2)]\<rparr>) }"

text \<open>The immutable properties are collected in an array, in which \<^const>\<open>subset\<close> finds no key.\<close>

definition immutable_props :: "json \<Rightarrow> json" where
  "immutable_props input_props =
     JSON_ARRAY (map snd (filter (\<lambda>m. map_option json_integer_value (json_object_get (snd m) ''precedence'') = Some PRECEDENCE_IMMUTABLE)
       (json_members input_props)))"

definition cib_candidate :: "json \<Rightarrow> pm_node \<Rightarrow> json list" where
  "cib_candidate input_props node =
     (let node_props = json_get (pn_json node) ''properties''
      in if subset node_props (immutable_props input_props) then []
         else (case node_props of None \<Rightarrow> [input_props] | Some props \<Rightarrow> [merge_properties props input_props True]))"

definition cib_lookup :: "pm \<Rightarrow> json \<Rightarrow> json list" where
  "cib_lookup s input_props = input_props # concat (map (cib_candidate input_props) (cib_nodes s))"

definition cib_start :: "pm_files \<Rightarrow> pm \<Rightarrow> pm option" where
  "cib_start files s = map_option (\<lambda>nodes. s\<lparr>cib_nodes := nodes\<rparr>) (read_modified_files files (cib_nodes s) (cib_dir s))"

section \<open>The interfaces of the host\<close>

definition cib_property :: "json \<Rightarrow> json" where
  "cib_property v = JSON_OBJECT [(''precedence'', JSON_INTEGER PRECEDENCE_IMMUTABLE), (''value'', v)]"

definition iface_node :: "string \<Rightarrow> json" where
  "iface_node name = JSON_OBJECT [
     (''description'', JSON_STRING (''autogenerated CIB node for local interface '' @ name)), (''filename'', JSON_STRING (name @ ''.cib'')),
     (''expire'', JSON_INTEGER (- 1)), (''link'', JSON_FALSE), (''priority'', JSON_INTEGER 0),
     (''properties'', JSON_ARRAY [
        JSON_ARRAY [JSON_OBJECT [(''interface'', cib_property (JSON_STRING name)), (''local_interface'', cib_property JSON_TRUE)]],
        JSON_ARRAY []])]"

text \<open>An empty object is appended to the array of addresses, but IPv4 addresses are always stored in its first element and IPv6 addresses in its
  second one, if there is one.\<close>

definition ip_object :: "int \<Rightarrow> string \<Rightarrow> json \<Rightarrow> json" where
  "ip_object version address j =
     json_object_set (json_object_set j ''ip_version'' (Some (cib_property (JSON_INTEGER version))))
       ''local_ip'' (Some (cib_property (JSON_STRING address)))"

definition add_ip :: "bool \<Rightarrow> string \<Rightarrow> json list \<Rightarrow> json list" where
  "add_ip v6 address ip_array =
     (let xs = ip_array @ [JSON_OBJECT []]; i = (if v6 then 1 else 0)
      in if i < length xs then xs[i := ip_object (if v6 then 6 else 4) address (xs ! i)] else xs)"

definition add_iface_ip :: "bool \<Rightarrow> string \<Rightarrow> json \<Rightarrow> json" where
  "add_iface_ip v6 address node =
     (case json_object_get node ''properties'' of
        Some (JSON_ARRAY [a, JSON_ARRAY ips]) \<Rightarrow> json_object_set node ''properties'' (Some (JSON_ARRAY [a, JSON_ARRAY (add_ip v6 address ips)]))
      | _ \<Rightarrow> node)"

text \<open>An address of an interface: IPv6 or not, none for another family, and its text.\<close>

type_synonym iface_addr = "string \<times> bool option \<times> string"

definition add_address :: "iface_addr \<Rightarrow> json \<Rightarrow> json" where
  "add_address a root =
     (case a of (name, fam, address) \<Rightarrow>
        (case (fam, json_object_get root name) of
           (Some v6, Some node) \<Rightarrow> json_object_set root name (Some (add_iface_ip v6 address node))
         | _ \<Rightarrow> root))"

definition cib_files :: "string list \<Rightarrow> iface_addr list \<Rightarrow> (string \<times> json) list" where
  "cib_files names addrs =
     map (\<lambda>(name, node). (name, json_object_set (json_object_set node ''root'' (Some JSON_TRUE)) ''uid'' (Some (JSON_STRING name))))
       (json_members (fold add_address addrs (fold (\<lambda>name root. json_object_set root name (Some (iface_node name))) names (JSON_OBJECT []))))"

fun write_cib_files :: "(string \<times> json) list \<Rightarrow> pm \<Rightarrow> pm option" where
  "write_cib_files [] s = Some s"
| "write_cib_files ((name, node) # fs) s = do {
     path \<leftarrow> new_string (cib_dir s @ name @ ''.cib'');
     write_cib_files fs (s\<lparr>pm_written := pm_written s @ [(path, node)]\<rparr>) }"

definition generate_cib_from_ifaces :: "string list \<Rightarrow> iface_addr list \<Rightarrow> pm \<Rightarrow> pm option" where
  "generate_cib_from_ifaces names addrs s = write_cib_files (cib_files names addrs) s"

end
