(* ===== verification/Pm_Lookup.thy ===== *)
theory Pm_Lookup
  imports Pm_Base
begin

text \<open>
  The policy manager, part three: the lookup of candidates for a request and the reading of requests from the sockets
  (\<open>policy_manager/pm.c\<close>). The parser of JSON and \<open>qsort\<close> are parameters.
  The candidates of a characteristics node share its properties; the last step of \<open>lookup\<close> adds default attributes to them in place
  when no policy has been loaded. This change of the node is not modelled.
\<close>

section \<open>Lookup\<close>

definition NUM_CANDIDATES :: u64 where "NUM_CANDIDATES = 10"

definition array_contains_value :: "json list \<Rightarrow> json \<Rightarrow> bool" where
  "array_contains_value array value = list_ex (\<lambda>elem. json_equal elem value) array"

definition append_new_value :: "json \<Rightarrow> json list \<Rightarrow> json list" where
  "append_new_value candidate array = (if array_contains_value array candidate then array else array @ [candidate])"

text \<open>The candidates of the characteristics base are not cleared between the requests.\<close>

definition lookup_request :: "pm \<Rightarrow> json \<Rightarrow> json list \<times> json list \<Rightarrow> json list \<times> json list" where
  "lookup_request s request acc =
     (let cib_candidates = fold (\<lambda>candidate. fold append_new_value (cib_lookup s candidate)) (profile_lookup s request) (fst acc);
          candidates = fold (\<lambda>candidate. fold append_new_value (policy_lookup s candidate)) cib_candidates (snd acc)
      in (cib_candidates, candidates))"

definition lookup :: "qsort \<Rightarrow> pm \<Rightarrow> json \<Rightarrow> json list option" where
  "lookup qsort s reqs = do {
     requests \<leftarrow> process_special_properties (expand_properties reqs);
     (pre, requests1) \<leftarrow> pre_resolve (map add_default_values requests);
     if pre then Some requests1
     else limit_json_array
       (sort_json_array qsort (map add_default_values (snd (fold (lookup_request s) (expand_values requests1) ([], []))))) NUM_CANDIDATES }"

section \<open>Requests\<close>

definition PM_BUFSIZE :: nat where "PM_BUFSIZE = 65536"

text \<open>The buffer comes from \<open>malloc\<close>, so its contents are arbitrary.\<close>

record client_req =
  cr_buffer :: "u8 list"
  cr_len :: u64

text \<open>\<open>strncpy\<close>: the characters up to the zero, filled up with zeros.\<close>

definition strncpy :: "nat \<Rightarrow> u8 list \<Rightarrow> u8 list" where
  "strncpy n src = take n (takeWhile (\<lambda>b. b \<noteq> 0) src @ replicate n 0)"

text \<open>The space that is left is computed without a sign; a write past the end of the buffer has no result.\<close>

definition store_chunk :: "u8 list \<Rightarrow> client_req \<Rightarrow> client_req option" where
  "store_chunk data r =
     (let n = (of_nat PM_BUFSIZE - cr_len r :: u64)
      in if unat (cr_len r) + unat n \<le> PM_BUFSIZE
         then Some (r\<lparr>cr_buffer := take (unat (cr_len r)) (cr_buffer r) @ strncpy (unat n) data, cr_len := cr_len r + of_nat (length data)\<rparr>)
         else None)"

text \<open>The buffer as a string, which needs a zero in it.\<close>

definition c_string :: "u8 list \<Rightarrow> u8 list option" where
  "c_string buffer = (if 0 \<in> set buffer then Some (takeWhile (\<lambda>b. b \<noteq> 0) buffer) else None)"

text \<open>What the socket delivers: data, the end of the request, or an error.\<close>

datatype uv_read = UV_DATA "u8 list" | UV_EOF | UV_READ_ERROR

record pm_json_io =
  pj_loads :: "u8 list \<Rightarrow> json option"
  pj_qsort :: qsort

text \<open>The answer to a request: the candidates that are printed and sent, or nothing when the request cannot be parsed.\<close>

definition handle_request :: "pm_json_io \<Rightarrow> pm \<Rightarrow> client_req \<Rightarrow> json list option option" where
  "handle_request io s r = do {
     text \<leftarrow> c_string (cr_buffer r);
     case pj_loads io text of
       None \<Rightarrow> Some None
     | Some request_json \<Rightarrow> map_option Some (lookup (pj_qsort io) s request_json) }"

definition on_client_read :: "pm_json_io \<Rightarrow> pm \<Rightarrow> uv_read \<Rightarrow> client_req \<Rightarrow> (json list option \<times> client_req) option" where
  "on_client_read io s ev r =
     (case ev of
        UV_EOF \<Rightarrow> do { answer \<leftarrow> handle_request io s r; Some (answer, r) }
      | UV_READ_ERROR \<Rightarrow> Some (None, r)
      | UV_DATA data \<Rightarrow> do { r1 \<leftarrow> store_chunk data r; Some (None, r1) })"

definition handle_pib_request :: "pm_json_io \<Rightarrow> int \<Rightarrow> client_req \<Rightarrow> pm \<Rightarrow> pm option" where
  "handle_pib_request io now r s = do {
     text \<leftarrow> c_string (cr_buffer r);
     add_pib_node now (pj_loads io text) s }"

definition on_pib_socket_read :: "pm_json_io \<Rightarrow> int \<Rightarrow> uv_read \<Rightarrow> client_req \<Rightarrow> pm \<Rightarrow> (client_req \<times> pm) option" where
  "on_pib_socket_read io now ev r s =
     (case ev of
        UV_EOF \<Rightarrow> do { s1 \<leftarrow> handle_pib_request io now r s; Some (r, s1) }
      | UV_READ_ERROR \<Rightarrow> Some (r, s)
      | UV_DATA data \<Rightarrow> do { r1 \<leftarrow> store_chunk data r; Some (r1, s) })"

definition handle_cib_request :: "pm_json_io \<Rightarrow> int \<Rightarrow> client_req \<Rightarrow> pm \<Rightarrow> pm option" where
  "handle_cib_request io now r s = do {
     text \<leftarrow> c_string (cr_buffer r);
     add_cib_node now (case pj_loads io text of Some (JSON_ARRAY (x # _)) \<Rightarrow> Some x | _ \<Rightarrow> None) s }"

definition on_cib_socket_read :: "pm_json_io \<Rightarrow> int \<Rightarrow> uv_read \<Rightarrow> client_req \<Rightarrow> pm \<Rightarrow> (client_req \<times> pm) option" where
  "on_cib_socket_read io now ev r s =
     (case ev of
        UV_EOF \<Rightarrow> do { s1 \<leftarrow> handle_cib_request io now r s; Some (r, s1) }
      | UV_READ_ERROR \<Rightarrow> Some (r, s)
      | UV_DATA data \<Rightarrow> do { r1 \<leftarrow> store_chunk data r; Some (r1, s) })"

text \<open>The request of a new connection.\<close>

definition new_client_req :: "u8 list \<Rightarrow> client_req" where
  "new_client_req garbage = \<lparr>cr_buffer = garbage, cr_len = 0\<rparr>"

end
