(* ===== verification/Pm_Match.thy ===== *)
theory Pm_Match
  imports Pm_Lookup
begin

text \<open>
  Facts on matching and merging: the operations keep values well-formed, and merging without replacement keeps the
  value of a property that is immutable.
\<close>

section \<open>Well-formed values\<close>

lemma json_ok_member: "json_ok (JSON_OBJECT ms) \<Longrightarrow> (key, v) \<in> set ms \<Longrightarrow> json_ok v"
  by (auto simp: list_all_iff)

lemma json_ok_element: "json_ok (JSON_ARRAY xs) \<Longrightarrow> x \<in> set xs \<Longrightarrow> json_ok x"
  by (simp add: list_all_iff)

lemma json_members_ok: "json_ok j \<Longrightarrow> m \<in> set (json_members j) \<Longrightarrow> json_ok (snd m)"
  by (cases j) (auto simp: list_all_iff)

lemma json_bool_ok [simp]: "json_ok (json_bool b)"
  by (simp add: json_bool_def)

lemma merge_do_update_ok: "json_ok a \<Longrightarrow> json_ok b \<Longrightarrow> json_ok (merge_do_update_property a b ev)"
  using json_object_get_ok [of b "''value''"] by (simp add: merge_do_update_property_def Let_def split: option.split)

lemma merge_update_ok: "json_ok a \<Longrightarrow> json_ok b \<Longrightarrow> json_ok (merge_update_property a b)"
  by (simp add: merge_update_property_def merge_do_update_ok split: option.split)

lemma merge_property_ok: "json_ok (snd m) \<Longrightarrow> json_ok b \<Longrightarrow> json_ok (merge_property ow m b)"
  using json_object_get_ok [of b "fst m"] by (simp add: merge_property_def merge_update_ok split: option.split)

lemma fold_merge_ok: "\<forall>m \<in> set ms. json_ok (snd m) \<Longrightarrow> json_ok b \<Longrightarrow> json_ok (fold (merge_property ow) ms b)"
  by (induction ms arbitrary: b) (simp_all add: merge_property_ok)

lemma merge_properties_ok [simp]: "json_ok a \<Longrightarrow> json_ok b \<Longrightarrow> json_ok (merge_properties a b ow)"
  by (simp add: merge_properties_def fold_merge_ok json_members_ok)

lemma append_value_ok: "json_ok j \<Longrightarrow> json_ok v \<Longrightarrow> json_ok (append_value j v)"
  by (auto simp: append_value_def split: json.split)

lemma combine_arrays_ok:
  assumes "\<forall>x \<in> set result. json_ok x" and "json_ok v" shows "\<forall>x \<in> set (combine_arrays result v). json_ok x"
proof -
  have "json_ok x" if "x \<in> set (json_elements v)" for x using assms(2) that by (cases v) (auto simp: list_all_iff)
  then show ?thesis using assms(1) by (auto simp: combine_arrays_def intro!: append_value_ok)
qed

lemma expand_json_arrays_ok: "\<forall>x \<in> set xs. json_ok x \<Longrightarrow> \<forall>x \<in> set rs. json_ok x \<Longrightarrow> \<forall>x \<in> set (foldl combine_arrays rs xs). json_ok x"
proof (induction xs arbitrary: rs)
  case (Cons x xs)
  have "\<forall>y \<in> set (combine_arrays rs x). json_ok y" by (rule combine_arrays_ok [OF Cons.prems(2)]) (use Cons.prems(1) in simp)
  with Cons.IH Cons.prems(1) show ?case by simp
qed simp

lemma expand_json_ok: "pred_option json_ok p \<Longrightarrow> \<forall>x \<in> set (expand_json p). json_ok x"
proof (cases p)
  case (Some j)
  assume "pred_option json_ok p"
  with Some have ok: "json_ok j" by simp
  show ?thesis
  proof (cases j)
    case (JSON_ARRAY xs)
    have "\<forall>x \<in> set xs. json_ok x" using ok JSON_ARRAY by (simp add: list_all_iff)
    then show ?thesis using Some JSON_ARRAY expand_json_arrays_ok [of xs "[JSON_ARRAY []]"] by (simp add: expand_json_def expand_json_arrays_def)
  qed (use Some ok in \<open>simp_all add: expand_json_def\<close>)
qed (simp add: expand_json_def)

definition node_ok :: "pm_node \<Rightarrow> bool" where
  "node_ok node = pred_option json_ok (pn_json node)"

definition pm_ok :: "pm \<Rightarrow> bool" where
  "pm_ok s \<longleftrightarrow> (\<forall>node \<in> set (pib_profiles s) \<union> set (pib_policies s) \<union> set (cib_nodes s). node_ok node)"

lemma node_get_ok: "node_ok node \<Longrightarrow> pred_option json_ok (json_get (pn_json node) key)"
  by (cases "pn_json node") (simp_all add: node_ok_def)

lemma apply_policy_ok:
  assumes "node_ok policy" and "\<forall>c \<in> set cs. json_ok c" shows "\<forall>c \<in> set (apply_policy cs policy). json_ok c"
proof -
  have "\<forall>p \<in> set (expand_json (json_get (pn_json policy) ''properties'')). json_ok p" by (rule expand_json_ok [OF node_get_ok [OF assms(1)]])
  then show ?thesis using assms(2) by (auto simp: apply_policy_def)
qed

lemma pib_lookup_ok_from:
  "\<forall>n \<in> set nodes. node_ok n \<Longrightarrow> \<forall>c \<in> set cs. json_ok c \<Longrightarrow> \<forall>c \<in> set (foldl apply_policy cs nodes). json_ok c"
proof (induction nodes arbitrary: cs)
  case (Cons n nodes)
  have "\<forall>c \<in> set (apply_policy cs n). json_ok c" by (rule apply_policy_ok [OF _ Cons.prems(2)]) (use Cons.prems(1) in simp)
  with Cons.IH Cons.prems(1) show ?case by simp
qed simp

lemma pib_lookup_ok: "\<forall>n \<in> set nodes. node_ok n \<Longrightarrow> json_ok c \<Longrightarrow> c' \<in> set (pib_lookup nodes c) \<Longrightarrow> json_ok c'"
  using bspec [OF pib_lookup_ok_from [of nodes "[c]"], of c'] by (simp add: pib_lookup_def)

lemma profile_lookup_ok: "pm_ok s \<Longrightarrow> json_ok c \<Longrightarrow> c' \<in> set (profile_lookup s c) \<Longrightarrow> json_ok c'"
  unfolding profile_lookup_def by (rule pib_lookup_ok) (auto simp: pm_ok_def)

lemma policy_lookup_ok: "pm_ok s \<Longrightarrow> json_ok c \<Longrightarrow> c' \<in> set (policy_lookup s c) \<Longrightarrow> json_ok c'"
  unfolding policy_lookup_def by (rule pib_lookup_ok) (auto simp: pm_ok_def)

lemma cib_lookup_ok: "pm_ok s \<Longrightarrow> json_ok c \<Longrightarrow> c' \<in> set (cib_lookup s c) \<Longrightarrow> json_ok c'"
proof -
  assume s: "pm_ok s" "json_ok c" "c' \<in> set (cib_lookup s c)"
  have "json_ok c'" if "node \<in> set (cib_nodes s)" "c' \<in> set (cib_candidate c node)" for node
    using that s(1,2) node_get_ok [of node "''properties''"]
    by (cases "json_get (pn_json node) ''properties''") (auto simp: cib_candidate_def pm_ok_def Let_def split: if_splits)
  with s show "json_ok c'" by (auto simp: cib_lookup_def)
qed

section \<open>Immutable properties\<close>

text \<open>A value without structure is only equal to itself.\<close>

definition scalar :: "json \<Rightarrow> bool" where
  "scalar v \<longleftrightarrow> json_typeof v \<notin> {TYPE_OBJECT, TYPE_ARRAY, TYPE_REAL}"

lemma scalar_equal: "scalar v \<Longrightarrow> json_equal u v \<Longrightarrow> u = v"
  by (cases v; cases u) (simp_all add: scalar_def)

text \<open>A property that the application has fixed.\<close>

definition immutable :: "json \<Rightarrow> json \<Rightarrow> bool" where
  "immutable v property \<longleftrightarrow> json_typeof property = TYPE_OBJECT \<and> json_object_get property ''value'' = Some v \<and>
     attribute property ''precedence'' = PRECEDENCE_IMMUTABLE"

lemma attribute_set [simp]:
  "attribute (json_object_set j key (Some v)) name = (if name = key \<and> json_typeof j = TYPE_OBJECT then to_int32 (json_integer_value v) else attribute j name)"
  by (simp add: attribute_def)

lemma get_update:
  assumes "json_ok u" and "json_typeof a = TYPE_OBJECT" and "json_typeof u = TYPE_OBJECT"
  shows "json_object_get (json_object_update a u) key = (case json_object_get u key of None \<Rightarrow> json_object_get a key | Some v \<Rightarrow> Some v)"
proof -
  have "map_of (fold (\<lambda>(key, v). AList.update key v) ns ms) key = (case map_of ns key of None \<Rightarrow> map_of ms key | Some v \<Rightarrow> Some v)"
    if "distinct (map fst ns)" for ms ns :: "(string \<times> json) list"
    using that
  proof (induction ns arbitrary: ms)
    case (Cons n ns)
    then have "map_of ns (fst n) = None" by (simp add: map_of_eq_None_iff)
    with Cons show ?case by (cases n) (auto simp: update_conv split: option.split)
  qed simp
  then show ?thesis using assms by (cases a; cases u) (simp_all split: option.split)
qed

lemma typeof_merge_do [simp]: "json_typeof (merge_do_update_property a b ev) = json_typeof a"
  by (simp add: merge_do_update_property_def Let_def split: option.split)

lemma typeof_update [simp]: "json_typeof (json_object_update a u) = json_typeof a"
  by (cases a; cases u) simp_all

text \<open>With a property of lower or the same precedence, the property that is changed.\<close>

lemma merge_do_immutable:
  assumes a: "immutable v a" and b: "attribute b ''precedence'' \<le> PRECEDENCE_IMMUTABLE"
  shows "immutable v (merge_do_update_property a b ev)"
  using assms by (auto simp: immutable_def merge_do_update_property_def Let_def PRECEDENCE_IMMUTABLE_def split: option.split)

text \<open>With a property of the lowest precedence, the copy of this property.\<close>

lemma merge_base_immutable:
  assumes a: "immutable v a" "scalar v" and b: "json_typeof b = TYPE_OBJECT" "attribute b ''precedence'' = PRECEDENCE_BASE"
  shows "json_object_get (merge_do_update_property b a ev) ''value'' \<in> {None, Some v} \<and>
     attribute (merge_do_update_property b a ev) ''precedence'' = PRECEDENCE_IMMUTABLE"
proof -
  have v: "json_object_get a ''value'' = Some v" "attribute a ''precedence'' = 2" "json_typeof a = TYPE_OBJECT" using a(1) by (simp_all add: immutable_def PRECEDENCE_IMMUTABLE_def)
  then obtain p where p: "json_object_get a ''precedence'' = Some p" "to_int32 (json_integer_value p) = 2"
    by (cases "json_object_get a ''precedence''") (simp_all add: attribute_def)
  show ?thesis
  proof (cases "json_object_get b ''value''")
    case None
    then show ?thesis using v b by (simp add: merge_do_update_property_def PRECEDENCE_BASE_def PRECEDENCE_IMMUTABLE_def)
  next
    case (Some w)
    then show ?thesis using v b p scalar_equal [OF a(2), of w]
      by (cases "json_equal w v") (simp_all add: merge_do_update_property_def PRECEDENCE_BASE_def PRECEDENCE_IMMUTABLE_def)
  qed
qed

lemma merge_update_immutable:
  assumes a: "immutable v a" "scalar v" "json_ok a" and b: "attribute b ''precedence'' \<le> PRECEDENCE_IMMUTABLE" "json_ok b"
  shows "immutable v (merge_update_property a b)"
proof (cases "json_object_get b ''precedence''")
  case None
  then show ?thesis using a(1) by (simp add: merge_update_property_def)
next
  case (Some p)
  show ?thesis
  proof (cases "to_int32 (json_integer_value p) = PRECEDENCE_BASE")
    case base: True
    let ?u = "merge_do_update_property b a False"
    have obj: "json_typeof b = TYPE_OBJECT" using Some by (cases b) simp_all
    moreover have "attribute b ''precedence'' = PRECEDENCE_BASE" using Some base by (simp add: attribute_def)
    ultimately have u: "json_object_get ?u ''value'' \<in> {None, Some v}" "attribute ?u ''precedence'' = PRECEDENCE_IMMUTABLE"
      using merge_base_immutable [OF a(1,2)] by blast+
    have obja: "json_typeof a = TYPE_OBJECT" "json_object_get a ''value'' = Some v" using a(1) by (simp_all add: immutable_def)
    have get: "json_object_get (json_object_update a ?u) key = (case json_object_get ?u key of None \<Rightarrow> json_object_get a key | Some x \<Rightarrow> Some x)" for key
      by (rule get_update) (simp_all add: merge_do_update_ok a(3) b(2) obja obj)
    have "json_object_get (json_object_update a ?u) ''value'' = Some v" using u(1) obja by (auto simp: get)
    moreover have "attribute (json_object_update a ?u) ''precedence'' = PRECEDENCE_IMMUTABLE"
      using u(2) by (auto simp: attribute_def get PRECEDENCE_IMMUTABLE_def split: option.splits)
    ultimately show ?thesis using Some base obja by (simp add: merge_update_property_def immutable_def)
  next
    case False
    then show ?thesis using Some merge_do_immutable [OF a(1) b(1)] by (simp add: merge_update_property_def)
  qed
qed

text \<open>The candidate has a property that the application has fixed to a value.\<close>

definition fixes_property :: "string \<Rightarrow> json \<Rightarrow> json \<Rightarrow> bool" where
  "fixes_property key v candidate \<longleftrightarrow> json_ok candidate \<and> (\<exists>p. json_object_get candidate key = Some p \<and> immutable v p)"

lemma merge_property_fixes:
  assumes "fixes_property key v b" and "scalar v" and "json_ok (snd m)" and "attribute (snd m) ''precedence'' \<le> PRECEDENCE_IMMUTABLE"
  shows "fixes_property key v (merge_property False m b)"
proof -
  from assms(1) obtain p where p: "json_object_get b key = Some p" "immutable v p" "json_ok b" by (auto simp: fixes_property_def)
  have obj: "json_typeof b = TYPE_OBJECT" using p(1) by (cases b) simp_all
  have "json_ok p" by (rule json_object_get_ok [OF p(3,1)])
  then have "immutable v (merge_update_property p (snd m))" using merge_update_immutable p(2) assms(2-4) by blast
  then show ?thesis using p obj assms(3) merge_property_ok [of m b False] by (auto simp: fixes_property_def merge_property_def)
qed

text \<open>A policy that does not replace and whose properties have the precedences of the policy manager.\<close>

definition plain_policy :: "pm_node \<Rightarrow> bool" where
  "plain_policy policy \<longleftrightarrow> node_ok policy \<and> \<not> replace_matched (pn_json policy) \<and>
     (\<forall>p \<in> set (expand_json (json_get (pn_json policy) ''properties'')). \<forall>m \<in> set (json_members p). attribute (snd m) ''precedence'' \<le> PRECEDENCE_IMMUTABLE)"

lemma merge_properties_fixes:
  assumes "\<forall>m \<in> set (json_members p). attribute (snd m) ''precedence'' \<le> PRECEDENCE_IMMUTABLE" and "json_ok p" and "scalar v" and "fixes_property key v c"
  shows "fixes_property key v (merge_properties p c False)"
proof -
  have "fixes_property key v (fold (merge_property False) ms c)"
    if "\<forall>m \<in> set ms. json_ok (snd m) \<and> attribute (snd m) ''precedence'' \<le> PRECEDENCE_IMMUTABLE" for ms
    using that assms(4) by (induction ms arbitrary: c) (simp_all add: merge_property_fixes assms(3))
  then show ?thesis using assms(1,2) json_members_ok by (simp add: merge_properties_def)
qed

lemma apply_policy_fixes:
  assumes "plain_policy policy" and "scalar v" and "\<forall>c \<in> set cs. fixes_property key v c"
  shows "\<forall>c \<in> set (apply_policy cs policy). fixes_property key v c"
proof -
  have "\<forall>p \<in> set (expand_json (json_get (pn_json policy) ''properties'')). json_ok p"
    using assms(1) by (intro expand_json_ok node_get_ok) (simp add: plain_policy_def)
  then have "fixes_property key v (merge_properties p c False)"
    if "p \<in> set (expand_json (json_get (pn_json policy) ''properties''))" "c \<in> set cs" for p c
    using that assms by (intro merge_properties_fixes) (simp_all add: plain_policy_def)
  then show ?thesis using assms(1,3) by (auto simp: apply_policy_def plain_policy_def)
qed

lemma pib_lookup_fixes:
  assumes "\<forall>policy \<in> set nodes. plain_policy policy" and "scalar v" and "\<forall>c \<in> set cs. fixes_property key v c"
  shows "\<forall>c \<in> set (foldl apply_policy cs nodes). fixes_property key v c"
  using assms(1,3)
proof (induction nodes arbitrary: cs)
  case (Cons n nodes)
  have "\<forall>c \<in> set (apply_policy cs n). fixes_property key v c" by (rule apply_policy_fixes [OF _ assms(2) Cons.prems(2)]) (use Cons.prems(1) in simp)
  with Cons.IH Cons.prems(1) show ?case by simp
qed simp

end
