(* ===== verification/Pm_Expand.thy ===== *)
theory Pm_Expand
  imports Pm_Match
begin

text \<open>
  The requests: which requests the expansion of array properties gives, that the preparation keeps values well-formed, and the
  union of the candidates of all requests.
\<close>

section \<open>Expansion as a product\<close>

text \<open>The alternatives of a property that is an array, also of arrays; and that no array is empty.\<close>

fun leaves :: "json \<Rightarrow> json list" where
  "leaves (JSON_ARRAY vs) = concat (map leaves vs)"
| "leaves v = [v]"

fun no_empty_array :: "json \<Rightarrow> bool" where
  "no_empty_array (JSON_ARRAY vs) = (vs \<noteq> [] \<and> list_all no_empty_array vs)"
| "no_empty_array v = True"

definition alternatives :: "string \<times> json \<Rightarrow> (string \<times> json) list" where
  "alternatives m = map (Pair (fst m)) (leaves (snd m))"

lemma leaves_not_empty: "no_empty_array v \<Longrightarrow> leaves v \<noteq> []"
proof (induction v)
  case (JSON_ARRAY vs)
  then show ?case by (cases vs) auto
qed simp_all

lemma product_lists_not_empty: "\<forall>xs \<in> set xss. xs \<noteq> [] \<Longrightarrow> product_lists xss \<noteq> []"
  by (induction xss) auto

lemma product_lists_singletons: "product_lists (map (\<lambda>m. [m]) pre @ xss) = map ((@) pre) (product_lists xss)"
  by (induction pre) (simp_all add: comp_def)

lemma leaves_single: "json_typeof v \<noteq> TYPE_ARRAY \<Longrightarrow> leaves v = [v]"
  by (cases v) simp_all

lemma first_array_pre: "first_array ms = Some (pre, key, vs, post) \<Longrightarrow> list_all (\<lambda>m. json_typeof (snd m) \<noteq> TYPE_ARRAY) pre"
  by (induction ms arbitrary: pre) (auto split: json.splits)

lemma first_array_none: "first_array ms = None \<Longrightarrow> list_all (\<lambda>m. json_typeof (snd m) \<noteq> TYPE_ARRAY) ms"
  by (induction ms) (auto split: json.splits)

lemma alternatives_single: "list_all (\<lambda>m. json_typeof (snd m) \<noteq> TYPE_ARRAY) ms \<Longrightarrow> map alternatives ms = map (\<lambda>m. [m]) ms"
  by (simp add: alternatives_def leaves_single list_all_iff)

lemma expand_members_product:
  "\<forall>m \<in> set ms. no_empty_array (snd m) \<Longrightarrow> expand_members ms = product_lists (map alternatives ms)"
proof (induction ms rule: expand_members.induct)
  case (1 ms)
  show ?case
  proof (cases "first_array ms")
    case None
    then have "map alternatives ms = map (\<lambda>m. [m]) ms" by (intro alternatives_single first_array_none)
    then show ?thesis unfolding expand_members.simps [of ms] None using product_lists_singletons [of ms "[]"] by (simp del: map_eq_conv)
  next
    case (Some x)
    then obtain pre key vs post where x: "first_array ms = Some (pre, key, vs, post)" by (cases x) auto
    have ms: "ms = pre @ (key, JSON_ARRAY vs) # post" by (rule first_array_split [OF x])
    have pre: "map alternatives pre = map (\<lambda>m. [m]) pre" by (rule alternatives_single [OF first_array_pre [OF x]])
    let ?P = "\<lambda>xs. concat (map (\<lambda>y. map (Cons y) (product_lists (map alternatives post))) xs)"
    have "expand_members (pre @ (key, v) # post) = map ((@) pre) (?P (alternatives (key, v)))" if "v \<in> set vs" for v
    proof -
      have "\<forall>m \<in> set (pre @ (key, v) # post). no_empty_array (snd m)" using "1.prems" ms that by (auto simp: list_all_iff)
      from "1.IH" [OF x refl refl refl that this] show ?thesis by (simp add: pre product_lists_singletons)
    qed
    then have "concat (map (\<lambda>v. expand_members (pre @ (key, v) # post)) vs) = concat (map (\<lambda>v. map ((@) pre) (?P (alternatives (key, v)))) vs)"
      by (simp cong: map_cong)
    also have "\<dots> = map ((@) pre) (?P (alternatives (key, JSON_ARRAY vs)))" by (induction vs) (simp_all add: alternatives_def)
    also have "\<dots> = product_lists (map alternatives ms)" by (simp add: ms pre product_lists_singletons)
    finally have my_return: "concat (map (\<lambda>v. expand_members (pre @ (key, v) # post)) vs) = product_lists (map alternatives ms)" .
    have "product_lists (map alternatives ms) \<noteq> []"
      using "1.prems" by (intro product_lists_not_empty) (auto simp: alternatives_def leaves_not_empty)
    then show ?thesis unfolding expand_members.simps [of ms] x option.case prod.case Let_def my_return by simp
  qed
qed

section \<open>The preparation of requests\<close>

lemma add_default_ok: "json_ok (snd d) \<Longrightarrow> json_ok j \<Longrightarrow> json_ok (add_default d j)"
  by (simp add: add_default_def)

lemma fold_default_ok: "\<forall>d \<in> set ds. json_ok (snd d) \<Longrightarrow> json_ok j \<Longrightarrow> json_ok (fold add_default ds j)"
  by (induction ds arbitrary: j) (simp_all add: add_default_ok)

lemma default_property_ok: "json_ok p \<Longrightarrow> json_ok (default_property p)"
proof (induction p rule: default_property.induct)
  case (1 xs)
  then show ?case by (simp add: list_all_iff)
qed (simp_all add: fold_default_ok default_props_def del: fold.simps)

lemma add_default_values_ok: "json_ok r \<Longrightarrow> json_ok (add_default_values r)"
  by (cases r) (auto simp: list_all_iff default_property_ok comp_def case_prod_beta)

lemma pre_resolve_ok: "pre_resolve rs = Some (pre, rs1) \<Longrightarrow> \<forall>r \<in> set rs. json_ok r \<Longrightarrow> \<forall>r \<in> set rs1. json_ok r"
  by (induction rs arbitrary: pre rs1) (auto split: bind_splits option.splits if_splits)

lemma expand_members_ok:
  "json_ok (JSON_OBJECT ms) \<Longrightarrow> \<forall>x \<in> set (expand_members ms). json_ok (JSON_OBJECT x)"
proof (induction ms rule: expand_members.induct)
  case (1 ms)
  show ?case
  proof (cases "first_array ms")
    case None
    then show ?thesis using "1.prems" by (simp add: expand_members.simps [of ms])
  next
    case (Some x)
    then obtain pre key vs post where x: "first_array ms = Some (pre, key, vs, post)" by (cases x) auto
    have ms: "ms = pre @ (key, JSON_ARRAY vs) # post" by (rule first_array_split [OF x])
    have "\<forall>y \<in> set (expand_members (pre @ (key, v) # post)). json_ok (JSON_OBJECT y)" if "v \<in> set vs" for v
      by (rule "1.IH" [OF x refl refl refl that]) (use "1.prems" ms that in \<open>auto simp: list_all_iff\<close>)
    then show ?thesis using "1.prems" x by (auto simp: expand_members.simps [of ms] Let_def)
  qed
qed

lemma create_json_array_ok: "json_ok j \<Longrightarrow> \<forall>x \<in> set (create_json_array j). json_ok x"
  by (cases j) (simp_all add: create_json_array_def list_all_iff)

lemma expand_properties_ok: "json_ok j \<Longrightarrow> \<forall>x \<in> set (expand_properties j). json_ok x"
proof -
  assume j: "json_ok j"
  have "\<forall>x \<in> set (expand_element_property e). json_ok x" if "e \<in> set (create_json_array j)" for e
  proof -
    have "json_ok e" by (rule bspec [OF create_json_array_ok [OF j] that])
    then show ?thesis using expand_members_ok by (cases e) (simp_all add: expand_element_property_def del: json_ok.simps)
  qed
  then show ?thesis by (auto simp: expand_properties_def)
qed

lemma parse_local_endpoint_ok:
  assumes "parse_local_endpoint le e = Some x" and "json_ok le" and "json_ok e" shows "json_ok x"
  using assms by (auto simp: parse_local_endpoint_def Let_def split: if_splits bind_splits)

lemma process_special_properties_ok:
  "process_special_properties rs = Some rs1 \<Longrightarrow> \<forall>r \<in> set rs. json_ok r \<Longrightarrow> \<forall>r \<in> set rs1. json_ok r"
proof (induction rs arbitrary: rs1)
  case (Cons r rs)
  have r: "json_ok r" using Cons.prems(2) by simp
  from Cons.prems(1) obtain xs rest where xs: "process_special_properties rs = Some rest" "rs1 = xs @ rest"
    "(case json_object_get r ''local_endpoint'' of Some (JSON_OBJECT ms) \<Rightarrow> do { x \<leftarrow> parse_local_endpoint (JSON_OBJECT ms) r; Some (create_json_array x) } | _ \<Rightarrow> Some [r]) = Some xs"
    by (auto split: bind_splits)
  have "\<forall>x \<in> set xs. json_ok x"
  proof (cases "\<exists>ms. json_object_get r ''local_endpoint'' = Some (JSON_OBJECT ms)")
    case True
    then obtain ms x where x: "json_object_get r ''local_endpoint'' = Some (JSON_OBJECT ms)" "parse_local_endpoint (JSON_OBJECT ms) r = Some x" "xs = create_json_array x"
      using xs(3) by (auto split: bind_splits)
    have "json_ok x" by (rule parse_local_endpoint_ok [OF x(2) json_object_get_ok [OF r x(1)] r])
    then show ?thesis using create_json_array_ok x(3) by simp
  next
    case False
    then have "xs = [r]" using xs(3) by (auto split: option.splits json.splits)
    then show ?thesis using r by simp
  qed
  moreover have "\<forall>x \<in> set rest. json_ok x" using Cons.IH [OF xs(1)] Cons.prems(2) by simp
  ultimately show ?case using xs(2) by auto
qed simp

lemma expand_values_ok: "\<forall>r \<in> set rs. json_ok r \<Longrightarrow> \<forall>r \<in> set (expand_values rs). json_ok r"
proof -
  assume rs: "\<forall>r \<in> set rs. json_ok r"
  have "\<forall>x \<in> set (expand_element_value r). json_ok x" if "r \<in> set rs" for r
  proof (cases "find (\<lambda>m. array_value (snd m) \<noteq> None) (json_members r)")
    case None
    then show ?thesis using rs that by (simp add: expand_element_value_def)
  next
    case (Some m)
    then have m: "m \<in> set (json_members r)" "array_value (snd m) \<noteq> None" by (auto simp: find_Some_iff)
    have "json_ok r" using rs that by simp
    with json_members_ok [OF this m(1)] have ok: "json_ok (snd m)" "json_ok r" by simp_all
    from m(2) obtain vs where vs: "json_object_get (snd m) ''value'' = Some (JSON_ARRAY vs)" "array_value (snd m) = Some vs"
      by (auto simp: array_value_def split: option.splits json.splits)
    have "\<forall>v \<in> set vs. json_ok v" using json_object_get_ok [OF ok(1) vs(1)] by (simp add: list_all_iff)
    then show ?thesis using Some ok vs(2) by (cases m) (auto simp: expand_element_value_def expand_value_def Let_def)
  qed
  then show ?thesis by (auto simp: expand_values_def)
qed

section \<open>The candidates of all requests\<close>

text \<open>The values without repetition, in the order of their first appearance.\<close>

definition distinct_values :: "json list \<Rightarrow> json list" where
  "distinct_values xs = fold append_new_value xs []"

definition cib_candidates :: "pm \<Rightarrow> json list \<Rightarrow> json list" where
  "cib_candidates s requests = distinct_values (concat (map (cib_lookup s) (concat (map (profile_lookup s) requests))))"

definition all_candidates :: "pm \<Rightarrow> json list \<Rightarrow> json list" where
  "all_candidates s requests = distinct_values (concat (map (policy_lookup s) (cib_candidates s requests)))"

lemma fold_concat_map: "fold (\<lambda>x. fold f (g x)) xs acc = fold f (concat (map g xs)) acc"
  by (induction xs arbitrary: acc) simp_all

lemma contains_append: "array_contains_value acc c \<Longrightarrow> array_contains_value (fold append_new_value xs acc) c"
proof (induction xs arbitrary: acc)
  case (Cons x xs)
  have "array_contains_value (append_new_value x acc) c" using Cons.prems by (simp add: append_new_value_def array_contains_value_def)
  with Cons.IH show ?case by simp
qed simp

lemma contains_added: "x \<in> set xs \<Longrightarrow> json_ok x \<Longrightarrow> array_contains_value (fold append_new_value xs acc) x"
proof (induction xs arbitrary: acc)
  case (Cons y ys)
  have "array_contains_value (append_new_value x acc) x" using Cons.prems(2) by (simp add: append_new_value_def array_contains_value_def)
  then show ?case using Cons contains_append by (cases "x = y") simp_all
qed simp

lemma append_known: "\<forall>x \<in> set xs. array_contains_value acc x \<Longrightarrow> fold append_new_value xs acc = acc"
  by (induction xs) (simp_all add: append_new_value_def)

lemma append_prefix: "\<exists>new. fold append_new_value xs acc = acc @ new \<and> set new \<subseteq> set xs"
proof (induction xs arbitrary: acc)
  case (Cons x xs)
  from Cons.IH [of "append_new_value x acc"] show ?case by (auto simp: append_new_value_def split: if_splits)
qed simp

text \<open>What \<open>lookup\<close> needs of the three bases: from well-formed candidates they make well-formed ones. Then asking again for the same candidates
  adds nothing new.\<close>

locale candidate_source =
  fixes valid :: "'s \<Rightarrow> bool" and source :: "'s \<Rightarrow> json \<Rightarrow> json list"
  assumes source_ok: "valid s \<Longrightarrow> json_ok c \<Longrightarrow> c' \<in> set (source s c) \<Longrightarrow> json_ok c'"
begin

lemma all_ok: "valid s \<Longrightarrow> \<forall>c \<in> set cs. json_ok c \<Longrightarrow> c' \<in> set (concat (map (source s) cs)) \<Longrightarrow> json_ok c'"
proof -
  assume cs: "valid s" "\<forall>c \<in> set cs. json_ok c" "c' \<in> set (concat (map (source s) cs))"
  then obtain c where c: "c \<in> set cs" "c' \<in> set (source s c)" by auto
  show "json_ok c'" by (rule source_ok [OF cs(1) bspec [OF cs(2) c(1)] c(2)])
qed

lemma ask_again:
  assumes "valid s" and "\<forall>c \<in> set cs. json_ok c"
  shows "fold append_new_value (concat (map (source s) cs)) (distinct_values (concat (map (source s) cs))) = distinct_values (concat (map (source s) cs))"
proof (rule append_known, rule ballI)
  fix c assume c: "c \<in> set (concat (map (source s) cs))"
  show "array_contains_value (distinct_values (concat (map (source s) cs))) c"
    unfolding distinct_values_def by (rule contains_added [OF c all_ok [OF assms c]])
qed

end

interpretation profile: candidate_source pm_ok profile_lookup by unfold_locales (rule profile_lookup_ok)

interpretation cib: candidate_source pm_ok cib_lookup by unfold_locales (rule cib_lookup_ok)

interpretation policy: candidate_source pm_ok policy_lookup by unfold_locales (rule policy_lookup_ok)

lemma distinct_values_set: "set (distinct_values xs) \<subseteq> set xs"
  using append_prefix [of xs "[]"] by (auto simp: distinct_values_def)

lemma cib_candidates_ok: "pm_ok s \<Longrightarrow> \<forall>r \<in> set rs. json_ok r \<Longrightarrow> c \<in> set (cib_candidates s rs) \<Longrightarrow> json_ok c"
proof -
  assume s: "pm_ok s" "\<forall>r \<in> set rs. json_ok r" "c \<in> set (cib_candidates s rs)"
  have "\<forall>d \<in> set (concat (map (profile_lookup s) rs)). json_ok d" using profile.all_ok [OF s(1,2)] by blast
  moreover have "c \<in> set (concat (map (cib_lookup s) (concat (map (profile_lookup s) rs))))"
    using s(3) distinct_values_set unfolding cib_candidates_def by blast
  ultimately show "json_ok c" by (rule cib.all_ok [OF s(1)])
qed

text \<open>As the candidates are not cleared between requests, the policies are looked up again for those of earlier requests; this adds nothing.\<close>

lemma lookup_requests:
  assumes s: "pm_ok s"
  shows "\<forall>r \<in> set rs. json_ok r \<Longrightarrow> fold (lookup_request s) rs ([], []) = (cib_candidates s rs, all_candidates s rs)"
proof (induction rs rule: rev_induct)
  case Nil
  show ?case by (simp add: cib_candidates_def all_candidates_def distinct_values_def)
next
  case (snoc r rs)
  let ?ys = "concat (map (cib_lookup s) (profile_lookup s r))" and ?cib = "cib_candidates s rs" and ?pol = "\<lambda>cs. concat (map (policy_lookup s) cs)"
  have cib: "fold append_new_value ?ys ?cib = cib_candidates s (rs @ [r])" by (simp add: cib_candidates_def distinct_values_def)
  obtain new where new: "fold append_new_value ?ys ?cib = ?cib @ new" using append_prefix by blast
  have "\<forall>r \<in> set rs. json_ok r" using snoc.prems by simp
  then have "\<forall>c \<in> set ?cib. json_ok c" using cib_candidates_ok [OF s] by blast
  from policy.ask_again [OF s this] have "fold append_new_value (?pol ?cib) (all_candidates s rs) = all_candidates s rs" by (simp only: all_candidates_def)
  then have "fold append_new_value (?pol (?cib @ new)) (all_candidates s rs) = fold append_new_value (?pol new) (all_candidates s rs)" by simp
  also have "\<dots> = all_candidates s (rs @ [r])" unfolding all_candidates_def cib [symmetric] new by (simp add: distinct_values_def)
  finally have "fold append_new_value (?pol (?cib @ new)) (all_candidates s rs) = all_candidates s (rs @ [r])" .
  with snoc cib new show ?case by (simp add: lookup_request_def fold_concat_map Let_def)
qed

end
