(* ===== verification/Pm_Props.thy ===== *)
theory Pm_Props
  imports Pm_Expand
begin

text \<open>
  The properties of the policy manager: which candidates a request gets, what policies may not change, and where the
  characteristics base, the requests over sockets and the addition of policies go wrong.
\<close>

section \<open>The best candidates\<close>

text \<open>The order of the candidates, and sums of scores whose differences fit into an \<open>int\<close>.\<close>

definition at_least :: "json \<Rightarrow> json \<Rightarrow> bool" where
  "at_least c d \<longleftrightarrow> (let x = property_score_sum c; y = property_score_sum d
     in evaluated y < evaluated x \<or> evaluated y = evaluated x \<and> non_evaluated y \<le> non_evaluated x)"

definition score_fits :: "json \<Rightarrow> bool" where
  "score_fits c \<longleftrightarrow> \<bar>evaluated (property_score_sum c)\<bar> < 2 ^ 30 \<and> \<bar>non_evaluated (property_score_sum c)\<bar> < 2 ^ 30"

lemma to_int32_diff: "\<bar>x\<bar> < 2 ^ 30 \<Longrightarrow> \<bar>y\<bar> < 2 ^ 30 \<Longrightarrow> to_int32 (x - y) = x - y"
  by (rule to_int32_id) (auto simp: abs_less_iff)

lemma cmp_score_order: "score_fits c \<Longrightarrow> score_fits d \<Longrightarrow> cmp_score c d \<le> 0 \<longleftrightarrow> at_least c d"
proof -
  assume "score_fits c" "score_fits d"
  then have diff: "to_int32 (evaluated (property_score_sum d) - evaluated (property_score_sum c)) = evaluated (property_score_sum d) - evaluated (property_score_sum c)"
    "to_int32 (non_evaluated (property_score_sum d) - non_evaluated (property_score_sum c)) = non_evaluated (property_score_sum d) - non_evaluated (property_score_sum c)"
    unfolding score_fits_def by (intro to_int32_diff, blast+)+
  then show ?thesis by (auto simp: cmp_score_def at_least_def Let_def)
qed

text \<open>What the C standard promises of \<open>qsort\<close> when the comparison is an order.\<close>

definition order_on :: "json list \<Rightarrow> (json \<Rightarrow> json \<Rightarrow> int) \<Rightarrow> bool" where
  "order_on xs cmp \<longleftrightarrow> (\<forall>x \<in> set xs. \<forall>y \<in> set xs. (cmp x y \<le> 0 \<or> cmp y x \<le> 0) \<and>
     (\<forall>z \<in> set xs. cmp x y \<le> 0 \<longrightarrow> cmp y z \<le> 0 \<longrightarrow> cmp x z \<le> 0))"

definition qsort_ok :: "qsort \<Rightarrow> bool" where
  "qsort_ok qsort \<longleftrightarrow> (\<forall>cmp xs. order_on xs cmp \<longrightarrow> mset (qsort cmp xs) = mset xs \<and> sorted_wrt (\<lambda>x y. cmp x y \<le> 0) (qsort cmp xs))"

lemma order_on_score: "\<forall>c \<in> set xs. score_fits c \<Longrightarrow> order_on xs cmp_score"
  unfolding order_on_def using cmp_score_order by (auto simp: at_least_def Let_def)

lemma sort_json_array_sorted:
  assumes "qsort_ok qsort" and "\<forall>c \<in> set xs. score_fits c"
  shows "mset (sort_json_array qsort xs) = mset xs \<and> sorted_wrt at_least (sort_json_array qsort xs)"
proof -
  have sorted: "mset (qsort cmp_score xs) = mset xs" "sorted_wrt (\<lambda>x y. cmp_score x y \<le> 0) (qsort cmp_score xs)"
    using assms(1) order_on_score [OF assms(2)] by (auto simp: qsort_ok_def)
  have "set (qsort cmp_score xs) = set xs" using sorted(1) mset_eq_setD by blast
  then have "sorted_wrt at_least (qsort cmp_score xs)"
    using assms(2) by (intro sorted_wrt_mono_rel [OF _ sorted(2)]) (auto simp: cmp_score_order)
  with sorted(1) show ?thesis by (simp add: sort_json_array_def)
qed

lemma limit_loop_take:
  "0 < limit \<Longrightarrow> length xs \<le> Suc (unat i) \<Longrightarrow> limit_loop i limit xs = Some (take (unat limit) xs)"
proof (induction "unat i" arbitrary: i xs)
  case 0
  then have "i = 0" "limit \<noteq> 0" by (simp_all add: unat_eq_0)
  moreover have "1 \<le> unat limit" using \<open>limit \<noteq> 0\<close> by (simp add: unat_gt_0 Suc_le_eq)
  ultimately show ?case using 0 by (subst limit_loop.simps) simp
next
  case (Suc n)
  show ?case
  proof (cases "limit \<le> i")
    case True
    have i: "unat (i - 1) = n" using Suc.hyps(2) by (metis Suc_eq_plus1 add_diff_cancel_right' nat.distinct(1) unat_eq_zero unat_minus_one)
    have "length (json_array_remove (unat i) xs) \<le> Suc (unat (i - 1))" using Suc.prems(2) Suc.hyps(2) i by (simp add: json_array_remove_def)
    from Suc.hyps(1) [OF i [symmetric] Suc.prems(1) this]
    have "limit_loop i limit xs = Some (take (unat limit) (json_array_remove (unat i) xs))" using True by (subst limit_loop.simps) simp
    moreover have "unat limit \<le> unat i" using True by (simp add: word_le_nat_alt)
    ultimately show ?thesis using Suc.prems(2) by (simp add: json_array_remove_def)
  next
    case False
    then have "unat i < unat limit" by (simp add: word_le_nat_alt)
    then show ?thesis using False Suc.prems(2) by (subst limit_loop.simps) simp
  qed
qed

lemma limit_json_array_take: "0 < limit \<Longrightarrow> length xs < 2 ^ 64 \<Longrightarrow> limit_json_array xs limit = Some (take (unat limit) xs)"
proof -
  assume "0 < limit" "length xs < 2 ^ 64"
  moreover have "unat (of_nat (length xs) - 1 :: u64) = length xs - 1" if "xs \<noteq> []"
  proof -
    have n: "unat (of_nat (length xs) :: u64) = length xs" using \<open>length xs < 2 ^ 64\<close> by (simp add: unat_of_nat_small)
    then have "(of_nat (length xs) :: u64) \<noteq> 0" using that by (metis length_0_conv unsigned_0)
    then show ?thesis using n by (simp add: unat_minus_one)
  qed
  ultimately show ?thesis by (cases "xs = []") (simp_all add: limit_json_array_def limit_loop_take)
qed

text \<open>The candidates of a request before they are sorted.\<close>

definition request_candidates :: "pm \<Rightarrow> json list \<Rightarrow> json list" where
  "request_candidates s requests = map add_default_values (all_candidates s (expand_values requests))"

text \<open>C7. A request that is not a pre-resolution gets the best ten of all its candidates: those that profiles, characteristics and policies give
  for its expansion, each once, with default attributes. The answer is sorted by the evaluated and then by the other scores, and no
  candidate that is left out is better than one in it.\<close>

theorem lookup_correct:
  assumes "qsort_ok qsort" and "pm_ok s" and "json_ok reqs" and "process_special_properties (expand_properties reqs) = Some rs"
    and "pre_resolve (map add_default_values rs) = Some (False, requests)" and "\<forall>c \<in> set (request_candidates s requests). score_fits c"
    and "length (request_candidates s requests) < 2 ^ 64"
  shows "\<exists>best others. lookup qsort s reqs = Some best \<and> mset best + mset others = mset (request_candidates s requests) \<and>
     length best = min 10 (length (request_candidates s requests)) \<and> sorted_wrt at_least best \<and> (\<forall>c \<in> set best. \<forall>d \<in> set others. at_least c d)"
proof -
  let ?cs = "request_candidates s requests"
  let ?sorted = "sort_json_array qsort ?cs"
  have rs: "\<forall>r \<in> set rs. json_ok r" by (rule process_special_properties_ok [OF assms(4) expand_properties_ok [OF assms(3)]])
  then have "\<forall>r \<in> set (map add_default_values rs). json_ok r" by (simp add: add_default_values_ok)
  then have "\<forall>r \<in> set (expand_values requests). json_ok r" by (intro expand_values_ok pre_resolve_ok [OF assms(5)])
  from lookup_requests [OF assms(2) this] have lookup: "lookup qsort s reqs = limit_json_array ?sorted NUM_CANDIDATES"
    using assms(4,5) by (simp add: lookup_def request_candidates_def)
  have sorted: "mset ?sorted = mset ?cs" "sorted_wrt at_least ?sorted" using sort_json_array_sorted [OF assms(1,6)] by simp_all
  then have len: "length ?sorted = length ?cs" by (metis size_mset)
  have "lookup qsort s reqs = Some (take 10 ?sorted)" unfolding lookup using assms(7) len by (simp add: limit_json_array_take NUM_CANDIDATES_def)
  moreover have "mset (take 10 ?sorted) + mset (drop 10 ?sorted) = mset ?cs" using sorted(1) by (metis append_take_drop_id mset_append)
  moreover have "sorted_wrt at_least (take 10 ?sorted) \<and> (\<forall>c \<in> set (take 10 ?sorted). \<forall>d \<in> set (drop 10 ?sorted). at_least c d)"
    using sorted(2) by (metis append_take_drop_id sorted_wrt_append)
  moreover have "length (take 10 ?sorted) = min 10 (length ?cs)" by (simp add: len min.commute)
  ultimately show ?thesis by blast
qed

text \<open>A policy manager with one policy, which prefers TCP, and a request for TCP or SCTP.\<close>

fun demo_insert :: "(json \<Rightarrow> json \<Rightarrow> int) \<Rightarrow> json \<Rightarrow> json list \<Rightarrow> json list" where
  "demo_insert cmp x [] = [x]"
| "demo_insert cmp x (y # ys) = (if cmp x y \<le> 0 then x # y # ys else y # demo_insert cmp x ys)"

definition demo_qsort :: qsort where
  "demo_qsort cmp xs = foldr (demo_insert cmp) xs []"

lemma demo_insert_mset [simp]: "mset (demo_insert cmp x ys) = add_mset x (mset ys)"
  by (induction ys) auto

lemma demo_insert_set [simp]: "set (demo_insert cmp x ys) = insert x (set ys)"
  using mset_eq_setD [of "demo_insert cmp x ys" "x # ys"] by simp

lemma demo_qsort_ok: "qsort_ok demo_qsort"
  unfolding qsort_ok_def
proof (intro allI impI)
  fix cmp xs assume ord: "order_on xs cmp"
  have insert: "sorted_wrt (\<lambda>x y. cmp x y \<le> 0) (demo_insert cmp x ys)"
    if "sorted_wrt (\<lambda>x y. cmp x y \<le> 0) ys" "x \<in> set xs" "set ys \<subseteq> set xs" for x ys
    using that
  proof (induction ys)
    case (Cons y ys)
    have y: "y \<in> set xs" using Cons.prems(3) by simp
    show ?case
    proof (cases "cmp x y \<le> 0")
      case True
      have "cmp x z \<le> 0" if "z \<in> set ys" for z
      proof -
        have "cmp y z \<le> 0" "z \<in> set xs" using that Cons.prems(1,3) by auto
        then show ?thesis using ord True Cons.prems(2) y unfolding order_on_def by blast
      qed
      then show ?thesis using True Cons.prems(1) by simp
    next
      case False
      have "cmp y x \<le> 0" using ord False Cons.prems(2) y unfolding order_on_def by blast
      then show ?thesis using False Cons by simp
    qed
  qed simp
  have mset: "mset (foldr (demo_insert cmp) zs []) = mset zs" for zs by (induction zs) simp_all
  have "sorted_wrt (\<lambda>x y. cmp x y \<le> 0) (foldr (demo_insert cmp) zs [])" if "set zs \<subseteq> set xs" for zs
    using that
  proof (induction zs)
    case (Cons z zs)
    have "set (foldr (demo_insert cmp) zs []) = set zs" using mset mset_eq_setD by blast
    with Cons insert show ?case by simp
  qed simp
  with mset show "mset (demo_qsort cmp xs) = mset xs \<and> sorted_wrt (\<lambda>x y. cmp x y \<le> 0) (demo_qsort cmp xs)" by (simp add: demo_qsort_def)
qed

definition demo_policy :: pm_node where
  "demo_policy = \<lparr>pn_filename = ''tcp.policy'', pn_last_updated = 0, pn_json = Some (JSON_OBJECT [(''uid'', JSON_STRING ''tcp''),
     (''match'', JSON_OBJECT [(''transport'', JSON_OBJECT [(''value'', JSON_STRING ''TCP'')])]),
     (''properties'', JSON_OBJECT [(''transport'', JSON_OBJECT [(''value'', JSON_STRING ''TCP''), (''score'', JSON_INTEGER 3), (''precedence'', JSON_INTEGER 1)])])])\<rparr>"

definition demo_pm :: pm where
  "demo_pm = \<lparr>pib_profiles = [], pib_policies = [demo_policy], cib_nodes = [], pib_dir = ''/pib/'', cib_dir = ''/cib/'', profile_dir = ''/profile/'',
     policy_dir = ''/policy/'', pm_written = []\<rparr>"

definition demo_request :: json where
  "demo_request = JSON_OBJECT [(''transport'', JSON_ARRAY [JSON_OBJECT [(''value'', JSON_STRING ''SCTP'')], JSON_OBJECT [(''value'', JSON_STRING ''TCP'')]])]"

definition demo_property :: "string \<Rightarrow> int \<Rightarrow> json \<Rightarrow> json" where
  "demo_property v score ev = JSON_OBJECT [(''transport'',
     JSON_OBJECT [(''value'', JSON_STRING v), (''score'', JSON_INTEGER score), (''evaluated'', ev), (''precedence'', JSON_INTEGER 1)])]"

lemma demo_candidates:
  "request_candidates demo_pm [demo_property ''SCTP'' 0 JSON_FALSE, demo_property ''TCP'' 0 JSON_FALSE] =
     [demo_property ''SCTP'' 0 JSON_FALSE, demo_property ''TCP'' 3 JSON_TRUE]"
  by code_simp

theorem lookup_correct_witness:
  "\<exists>best others. lookup demo_qsort demo_pm demo_request = Some best \<and>
     mset best + mset others = {# demo_property ''SCTP'' 0 JSON_FALSE, demo_property ''TCP'' 3 JSON_TRUE #} \<and>
     length best = 2 \<and> sorted_wrt at_least best \<and> (\<forall>c \<in> set best. \<forall>d \<in> set others. at_least c d)"
proof -
  let ?rs = "[demo_property ''SCTP'' 0 JSON_FALSE, demo_property ''TCP'' 0 JSON_FALSE]"
  have pm: "pm_ok demo_pm" by (simp add: pm_ok_def node_ok_def demo_pm_def demo_policy_def)
  have req: "json_ok demo_request" by (simp add: demo_request_def)
  have special: "process_special_properties (expand_properties demo_request) =
      Some [JSON_OBJECT [(''transport'', JSON_OBJECT [(''value'', JSON_STRING ''SCTP'')])], JSON_OBJECT [(''transport'', JSON_OBJECT [(''value'', JSON_STRING ''TCP'')])]]"
    by code_simp
  have pre: "pre_resolve (map add_default_values [JSON_OBJECT [(''transport'', JSON_OBJECT [(''value'', JSON_STRING ''SCTP'')])],
      JSON_OBJECT [(''transport'', JSON_OBJECT [(''value'', JSON_STRING ''TCP'')])]]) = Some (False, ?rs)"
    by code_simp
  have fits: "\<forall>c \<in> set (request_candidates demo_pm ?rs). score_fits c"
    unfolding demo_candidates by (simp add: score_fits_def property_score_sum_def property_score_def demo_property_def)
  have len: "length (request_candidates demo_pm ?rs) < 2 ^ 64" by (simp add: demo_candidates)
  show ?thesis using lookup_correct [OF demo_qsort_ok pm req special pre fits len] by (simp add: demo_candidates numeral_2_eq_2)
qed

section \<open>Policies and immutable properties\<close>

text \<open>C8. A property of a request that is immutable keeps its value in every candidate that profiles or policies give, whatever they match and
  demand, as long as they do not replace what they match; the property stays immutable.\<close>

theorem pib_keeps_immutable:
  assumes "\<forall>policy \<in> set nodes. plain_policy policy" and "scalar v" and "fixes_property key v request" and "candidate \<in> set (pib_lookup nodes request)"
  shows "fixes_property key v candidate"
  using pib_lookup_fixes [OF assms(1,2), of "[request]" key] assms(3,4) by (simp add: pib_lookup_def)

definition demo_fixed :: json where
  "demo_fixed = JSON_OBJECT [(''transport'', JSON_OBJECT [(''value'', JSON_STRING ''SCTP''), (''precedence'', JSON_INTEGER 2)])]"

definition demo_force :: pm_node where
  "demo_force = \<lparr>pn_filename = ''force.policy'', pn_last_updated = 0, pn_json = Some (JSON_OBJECT [
     (''properties'', JSON_OBJECT [(''transport'', JSON_OBJECT [(''value'', JSON_STRING ''TCP''), (''precedence'', JSON_INTEGER 2)])])])\<rparr>"

theorem pib_keeps_immutable_witness:
  "pib_lookup [demo_force] demo_fixed =
     [JSON_OBJECT [(''transport'', JSON_OBJECT [(''value'', JSON_STRING ''SCTP''), (''precedence'', JSON_INTEGER 2), (''evaluated'', JSON_TRUE)])]] \<and>
   fixes_property ''transport'' (JSON_STRING ''SCTP'')
     (JSON_OBJECT [(''transport'', JSON_OBJECT [(''value'', JSON_STRING ''SCTP''), (''precedence'', JSON_INTEGER 2), (''evaluated'', JSON_TRUE)])])"
proof
  show run: "pib_lookup [demo_force] demo_fixed =
     [JSON_OBJECT [(''transport'', JSON_OBJECT [(''value'', JSON_STRING ''SCTP''), (''precedence'', JSON_INTEGER 2), (''evaluated'', JSON_TRUE)])]]" by code_simp
  have policy: "\<forall>policy \<in> set [demo_force]. plain_policy policy"
    by (simp add: plain_policy_def node_ok_def demo_force_def replace_matched_def expand_json_def attribute_def PRECEDENCE_IMMUTABLE_def)
  have fixed: "fixes_property ''transport'' (JSON_STRING ''SCTP'') demo_fixed"
    by (simp add: fixes_property_def demo_fixed_def immutable_def attribute_def PRECEDENCE_IMMUTABLE_def)
  show "fixes_property ''transport'' (JSON_STRING ''SCTP'')
     (JSON_OBJECT [(''transport'', JSON_OBJECT [(''value'', JSON_STRING ''SCTP''), (''precedence'', JSON_INTEGER 2), (''evaluated'', JSON_TRUE)])])"
    by (rule pib_keeps_immutable [OF policy _ fixed]) (simp_all add: run scalar_def)
qed

section \<open>The characteristics base\<close>

text \<open>Merging with replacement takes over every property.\<close>

lemma typeof_merge_property [simp]: "json_typeof (merge_property ow m b) = json_typeof b"
  by (simp add: merge_property_def)

lemma typeof_fold_merge [simp]: "json_typeof (fold (merge_property ow) ms b) = json_typeof b"
  by (induction ms arbitrary: b) simp_all

lemma get_replace_property:
  "json_typeof b = TYPE_OBJECT \<Longrightarrow> json_object_get (merge_property True m b) key = (if key = fst m then Some (snd m) else json_object_get b key)"
  by (simp add: merge_property_def split: option.split)

lemma merge_overwrites:
  assumes "distinct (map fst ms)" and "(key, p) \<in> set ms" and "json_typeof c = TYPE_OBJECT"
  shows "json_object_get (fold (merge_property True) ms c) key = Some p"
  using assms
proof (induction ms rule: rev_induct)
  case (snoc m ms)
  show ?case
  proof (cases "fst m = key")
    case True
    then have "snd m = p" using snoc.prems(1,2) by (cases m) (auto simp: image_iff)
    then show ?thesis using True snoc.prems(3) by (simp add: get_replace_property)
  next
    case False
    then have "(key, p) \<in> set ms" using snoc.prems(2) by auto
    then show ?thesis using False snoc by (simp add: get_replace_property)
  qed
qed simp

text \<open>C31. The characteristics base does not respect immutable properties: the test that should skip a node without the immutable values of the
  request looks for them in an array and never finds one, so a node with another value for an immutable property replaces it.\<close>

theorem cib_replaces_immutable:
  assumes "node \<in> set (cib_nodes s)" and "json_get (pn_json node) ''properties'' = Some (JSON_OBJECT ms)" and "distinct (map fst ms)"
    and "(key, p) \<in> set ms" and "fixes_property key v request" and "json_object_get p ''value'' \<noteq> Some v"
  shows "\<exists>candidate \<in> set (cib_lookup s request). json_object_get candidate key = Some p \<and> \<not> fixes_property key v candidate"
proof -
  let ?c = "merge_properties (JSON_OBJECT ms) request True"
  from assms(5) obtain q where "json_object_get request key = Some q" by (auto simp: fixes_property_def)
  then have obj: "json_typeof request = TYPE_OBJECT" by (cases request) simp_all
  have "\<not> subset (Some (JSON_OBJECT ms)) (immutable_props request)" using assms(4) by (auto simp: subset_def immutable_props_def list_all_iff)
  then have "?c \<in> set (cib_lookup s request)" using assms(1,2) by (force simp: cib_lookup_def cib_candidate_def)
  moreover have "json_object_get ?c key = Some p" using merge_overwrites [OF assms(3,4) obj] by (simp add: merge_properties_def)
  ultimately show ?thesis using assms(6) by (auto simp: fixes_property_def immutable_def)
qed

definition demo_cib_node :: pm_node where
  "demo_cib_node = \<lparr>pn_filename = ''eth0.cib'', pn_last_updated = 0, pn_json = Some (JSON_OBJECT [
     (''properties'', JSON_OBJECT [(''transport'', JSON_OBJECT [(''value'', JSON_STRING ''UDP'')])])])\<rparr>"

theorem cib_replaces_immutable_witness:
  "\<exists>candidate \<in> set (cib_lookup (demo_pm\<lparr>cib_nodes := [demo_cib_node]\<rparr>) demo_fixed).
     json_object_get candidate ''transport'' = Some (JSON_OBJECT [(''value'', JSON_STRING ''UDP'')]) \<and> \<not> fixes_property ''transport'' (JSON_STRING ''SCTP'') candidate"
  by (rule cib_replaces_immutable [where node = demo_cib_node and ms = "[(''transport'', JSON_OBJECT [(''value'', JSON_STRING ''UDP'')])]"])
    (simp_all add: demo_cib_node_def fixes_property_def demo_fixed_def immutable_def attribute_def PRECEDENCE_IMMUTABLE_def)

text \<open>The files that \<open>generate_cib_from_ifaces\<close> writes have an array of properties.\<close>

definition array_properties :: "json \<Rightarrow> bool" where
  "array_properties node \<longleftrightarrow> (\<exists>a ips. json_typeof node = TYPE_OBJECT \<and> json_object_get node ''properties'' = Some (JSON_ARRAY [a, JSON_ARRAY ips]))"

lemma array_properties_set [simp]: "key \<noteq> ''properties'' \<Longrightarrow> array_properties (json_object_set node key (Some v)) = array_properties node"
  by (simp add: array_properties_def)

lemma iface_node_array [simp]: "array_properties (iface_node name)"
  by (simp add: array_properties_def iface_node_def)

lemma add_iface_ip_array: "array_properties node \<Longrightarrow> array_properties (add_iface_ip v6 address node)"
  by (auto simp: array_properties_def add_iface_ip_def)

lemma members_update: "m \<in> set (AList.update key v ms) \<Longrightarrow> m = (key, v) \<or> m \<in> set ms"
  by (induction ms) (auto split: if_splits)

definition array_nodes :: "json \<Rightarrow> bool" where
  "array_nodes root \<longleftrightarrow> (\<forall>m \<in> set (json_members root). array_properties (snd m))"

lemma array_nodes_set: "array_nodes root \<Longrightarrow> array_properties node \<Longrightarrow> array_nodes (json_object_set root name (Some node))"
  by (cases root) (auto simp: array_nodes_def dest!: members_update)

lemma add_address_array: "array_nodes root \<Longrightarrow> array_nodes (add_address a root)"
proof -
  assume root: "array_nodes root"
  then have "array_properties node" if "json_object_get root name = Some node" for name node
    using that by (cases root) (auto simp: array_nodes_def dest!: map_of_SomeD)
  then show ?thesis using root by (cases a) (simp add: add_address_def array_nodes_set add_iface_ip_array split: option.split)
qed

lemma cib_files_array: "m \<in> set (cib_files names addrs) \<Longrightarrow> array_properties (snd m)"
proof -
  have start: "array_nodes root \<Longrightarrow> array_nodes (fold (\<lambda>name root. json_object_set root name (Some (iface_node name))) ns root)" for root ns
    by (induction ns arbitrary: root) (simp_all add: array_nodes_set)
  have adds: "array_nodes root \<Longrightarrow> array_nodes (fold add_address as root)" for root as
    by (induction as arbitrary: root) (simp_all add: add_address_array)
  have "array_nodes (fold add_address addrs (fold (\<lambda>name root. json_object_set root name (Some (iface_node name))) names (JSON_OBJECT [])))"
    by (rule adds [OF start]) (simp add: array_nodes_def)
  then show "m \<in> set (cib_files names addrs) \<Longrightarrow> array_properties (snd m)" by (force simp: cib_files_def array_nodes_def)
qed

text \<open>The characteristics that the policy manager generates from the interfaces of the host are never used: they are arrays, and the lookup
  takes what is not an object for a set of properties that every request has, and skips it.\<close>

theorem cib_ignores_interfaces:
  assumes "\<forall>node \<in> set (cib_nodes s). pn_json node \<in> Some ` snd ` set (cib_files names addrs)"
  shows "cib_lookup s request = [request]"
proof -
  have "cib_candidate request node = []" if "node \<in> set (cib_nodes s)" for node
  proof -
    from assms that obtain j where "pn_json node = Some j" "array_properties j" using cib_files_array by fastforce
    then show ?thesis by (auto simp: cib_candidate_def array_properties_def subset_def)
  qed
  then show ?thesis by (simp add: cib_lookup_def)
qed

theorem cib_ignores_interfaces_witness:
  "cib_lookup (demo_pm\<lparr>cib_nodes := [\<lparr>pn_filename = ''/cib/eth0.cib'', pn_last_updated = 1,
     pn_json = Some (snd (hd (cib_files [''eth0''] [(''eth0'', Some False, ''10.0.0.2'')])))\<rparr>]\<rparr>) demo_fixed = [demo_fixed]"
proof -
  have "cib_files [''eth0''] [(''eth0'', Some False, ''10.0.0.2'')] \<noteq> []" by code_simp
  then show ?thesis by (intro cib_ignores_interfaces [where names = "[''eth0'']" and addrs = "[(''eth0'', Some False, ''10.0.0.2'')]"]) simp
qed

text \<open>The second IPv4 address of an interface replaces the first, and an IPv6 address is lost when there is no IPv4 address before it.\<close>

lemma iface_addresses_lost:
  "add_ip False ''10.0.0.3'' (add_ip False ''10.0.0.2'' []) = [ip_object 4 ''10.0.0.3'' (JSON_OBJECT []), JSON_OBJECT []]"
  "add_ip True ''fe80::1'' [] = [JSON_OBJECT []]"
  by code_simp+

end
