(* ===== verification/Pm_Io.thy ===== *)
theory Pm_Io
  imports Pm_Props
begin

text \<open>
  More properties of the policy manager: the expansion of requests, the order of the information bases, the addition of
  policies at run time, and the reading of requests from a socket.
\<close>

section \<open>The expansion of requests\<close>

text \<open>C32. The expansion of a request whose properties have no empty array is the product of the alternatives of its properties: one request for
  every choice of one alternative for each property, the alternatives of later properties varying fastest.\<close>

theorem expand_properties_product:
  assumes "\<forall>m \<in> set ms. no_empty_array (snd m)"
  shows "expand_properties (JSON_OBJECT ms) = map JSON_OBJECT (product_lists (map alternatives ms))"
  using expand_members_product [OF assms] by (simp add: expand_properties_def create_json_array_def expand_element_property_def)

theorem expand_properties_product_witness:
  "expand_properties (JSON_OBJECT [(''a'', JSON_ARRAY [JSON_INTEGER 1, JSON_INTEGER 2]), (''b'', JSON_ARRAY [JSON_INTEGER 3, JSON_ARRAY [JSON_INTEGER 4]])]) =
     [JSON_OBJECT [(''a'', JSON_INTEGER 1), (''b'', JSON_INTEGER 3)], JSON_OBJECT [(''a'', JSON_INTEGER 1), (''b'', JSON_INTEGER 4)],
      JSON_OBJECT [(''a'', JSON_INTEGER 2), (''b'', JSON_INTEGER 3)], JSON_OBJECT [(''a'', JSON_INTEGER 2), (''b'', JSON_INTEGER 4)]]"
  by (subst expand_properties_product) (simp_all add: alternatives_def)

text \<open>An empty array stops the expansion: the arrays behind it stay in the request.\<close>

lemma expand_empty_array:
  "expand_properties (JSON_OBJECT [(''a'', JSON_ARRAY []), (''b'', JSON_ARRAY [JSON_INTEGER 3])]) =
     [JSON_OBJECT [(''a'', JSON_ARRAY []), (''b'', JSON_ARRAY [JSON_INTEGER 3])]]"
  by code_simp

text \<open>Of several properties with an array as their value only the first is expanded.\<close>

lemma expand_values_first_only:
  "expand_values [JSON_OBJECT [(''a'', JSON_OBJECT [(''value'', JSON_ARRAY [JSON_INTEGER 1])]), (''b'', JSON_OBJECT [(''value'', JSON_ARRAY [JSON_INTEGER 3])])]] =
     [JSON_OBJECT [(''a'', JSON_OBJECT [(''value'', JSON_INTEGER 1)]), (''b'', JSON_OBJECT [(''value'', JSON_ARRAY [JSON_INTEGER 3])])]]"
  by code_simp

section \<open>The order of the information bases\<close>

lemma mset_insert_node [simp]: "mset (insert_node n ns) = add_mset n (mset ns)"
  by (induction ns) auto

lemma sorted_insert_node: "sorted (map node_priority ns) \<Longrightarrow> sorted (map node_priority (insert_node n ns))"
proof (induction ns)
  case (Cons h ns)
  have "set (insert_node n ns) = insert n (set ns)" using mset_eq_setD [of "insert_node n ns" "n # ns"] by simp
  with Cons show ?case by auto
qed simp

lemma add_node_insert: "add_node ns (Some n) = insert_node n ns"
  by (cases ns) (simp_all add: add_node_def)

lemma get_node_none: "get_node ns path = None \<longleftrightarrow> path \<notin> pn_filename ` set ns"
  by (auto simp: get_node_def find_None_iff)

lemma create_node_filename: "create_node files path = Some n \<Longrightarrow> pn_filename n = path"
  by (auto simp: create_node_def update_node_content_def node_init_def split: option.splits)

text \<open>The nodes of the regular files that can be loaded.\<close>

definition loadable :: "pm_files \<Rightarrow> string \<Rightarrow> (string \<times> bool) list \<Rightarrow> pm_node list" where
  "loadable files dir es = List.map_filter (\<lambda>(name, regular). if regular then create_node files (dir @ name) else None) es"

lemma read_entries_sorted:
  assumes "distinct (map fst es)" and "\<forall>e \<in> set es. length (dir @ fst e) < 1000" and "sorted (map node_priority ns)"
    and "\<forall>e \<in> set es. dir @ fst e \<notin> pn_filename ` set ns"
  shows "\<exists>ns'. read_entries files dir es ns = Some ns' \<and> sorted (map node_priority ns') \<and> mset ns' = mset ns + mset (loadable files dir es)"
  using assms
proof (induction es arbitrary: ns)
  case (Cons e es)
  obtain name regular where e: "e = (name, regular)" by (cases e)
  show ?case
  proof (cases "regular \<and> create_node files (dir @ name) \<noteq> None")
    case True
    then obtain n where n: "create_node files (dir @ name) = Some n" "regular" by auto
    have "get_node ns (dir @ name) = None" using Cons.prems(4) by (simp add: get_node_none e)
    then have step: "read_entries files dir (e # es) ns = read_entries files dir es (insert_node n ns)"
      using n Cons.prems(2) by (simp add: e new_string_def update_node_def add_node_insert)
    have set: "set (insert_node n ns) = insert n (set ns)" using mset_eq_setD [of "insert_node n ns" "n # ns"] by simp
    have "\<forall>d \<in> set es. dir @ fst d \<notin> pn_filename ` set (insert_node n ns)"
      using Cons.prems(1,4) create_node_filename [OF n(1)] by (auto simp: set e)
    from Cons.IH [OF _ _ sorted_insert_node [OF Cons.prems(3)] this] Cons.prems(1,2)
    obtain ns' where ns': "read_entries files dir es (insert_node n ns) = Some ns'" "sorted (map node_priority ns')"
      "mset ns' = mset (insert_node n ns) + mset (loadable files dir es)" by auto
    have "loadable files dir (e # es) = n # loadable files dir es" using n by (simp add: loadable_def e)
    then show ?thesis using step ns' by auto
  next
    case False
    have "get_node ns (dir @ name) = None" using Cons.prems(4) by (simp add: get_node_none e)
    then have step: "read_entries files dir (e # es) ns = read_entries files dir es ns"
      using False Cons.prems(2) by (auto simp: e new_string_def update_node_def add_node_def)
    have "loadable files dir (e # es) = loadable files dir es" using False by (auto simp: loadable_def e)
    then show ?thesis using step Cons by simp
  qed
qed (simp add: loadable_def)

text \<open>At the start an information base is read from its directory: it has exactly the nodes of the regular files that can be parsed, in the order
  of their priority.\<close>

theorem read_modified_files_sorted:
  assumes "pf_dir files dir = Some es" and "distinct (map fst es)" and "\<forall>e \<in> set es. length (dir @ fst e) < 1000"
  shows "\<exists>ns. read_modified_files files [] dir = Some ns \<and> sorted (map node_priority ns) \<and> mset ns = mset (loadable files dir es)"
  using read_entries_sorted [OF assms(2,3), of "[]" files] assms(1) by (simp add: read_modified_files_def)

definition demo_files :: pm_files where
  "demo_files = \<lparr>pf_dir = (\<lambda>d. Some [(''b'', True), (''a'', True), (''sub'', False)]), pf_edit_time = (\<lambda>p. 0),
     pf_load = (\<lambda>p. Some (JSON_OBJECT [(''priority'', JSON_INTEGER (if p = ''/policy/b'' then 5 else 1))])), pf_time = 7\<rparr>"

theorem read_modified_files_sorted_witness:
  "\<exists>ns. read_modified_files demo_files [] ''/policy/'' = Some ns \<and> sorted (map node_priority ns) \<and>
     mset ns = mset (loadable demo_files ''/policy/'' [(''b'', True), (''a'', True), (''sub'', False)])"
  by (rule read_modified_files_sorted) (simp_all add: demo_files_def)

text \<open>A policy that is added at run time is lost when it belongs to the front of the list: when there is no policy yet, or all have a greater
  priority. It is written to a file, but lookups do not see it.\<close>

theorem add_pib_node_lost:
  assumes "add_pib_node now (Some j) s = Some s1"
    and "pib_policies s = [] \<or> (\<exists>h rest. pib_policies s = h # rest \<and> attribute j ''priority'' < node_priority h)"
  shows "policy_lookup s1 request = policy_lookup s request \<and> length (pm_written s1) = Suc (length (pm_written s))"
proof -
  have prio: "attribute (json_object_set i key (Some v)) ''priority'' = attribute i ''priority''" if "key \<noteq> ''priority''" for i key v
    using that by simp
  have node: "node_priority ((node_init path)\<lparr>pn_json := Some i\<rparr>) = attribute i ''priority''" for path i
    by (simp add: node_priority_def node_init_def attribute_def)
  have missing: "attribute (set_missing i ''time'' v) ''priority'' = attribute i ''priority''" for i v by (simp add: set_missing_def)
  from assms show ?thesis
    by (auto simp: add_pib_node_def policy_lookup_def add_node_at_def node missing Let_def split: bind_splits if_splits)
qed

definition demo_put :: json where
  "demo_put = JSON_OBJECT [(''uid'', JSON_STRING ''new''), (''properties'', JSON_OBJECT [])]"

theorem add_pib_node_lost_witness:
  "\<exists>s1. add_pib_node 7 (Some demo_put) (demo_pm\<lparr>pib_policies := []\<rparr>) = Some s1 \<and> policy_lookup s1 demo_request = [demo_request] \<and> length (pm_written s1) = 1"
proof -
  have "\<exists>s1. add_pib_node 7 (Some demo_put) (demo_pm\<lparr>pib_policies := []\<rparr>) = Some s1"
    by (simp add: add_pib_node_def demo_put_def demo_pm_def new_string_def Let_def)
  then obtain s1 where s1: "add_pib_node 7 (Some demo_put) (demo_pm\<lparr>pib_policies := []\<rparr>) = Some s1" by blast
  from add_pib_node_lost [OF s1, of demo_request] s1 show ?thesis by (simp add: policy_lookup_def pib_lookup_def demo_pm_def)
qed

text \<open>A long identifier of a client overflows the buffer of \<open>new_string\<close>.\<close>

lemma add_pib_node_overflow:
  "1000 \<le> length uid \<Longrightarrow> json_object_get j ''uid'' = Some (JSON_STRING uid) \<Longrightarrow> add_pib_node now (Some j) s = None"
  by (simp add: add_pib_node_def new_string_def)

section \<open>Requests over a socket\<close>

fun store_chunks :: "u8 list list \<Rightarrow> client_req \<Rightarrow> client_req option" where
  "store_chunks [] r = Some r"
| "store_chunks (c # cs) r = do { r1 \<leftarrow> store_chunk c r; store_chunks cs r1 }"

text \<open>After a chunk the buffer has the text received so far and zeros up to its end.\<close>

definition filled :: "u8 list \<Rightarrow> client_req" where
  "filled str = \<lparr>cr_buffer = take PM_BUFSIZE (str @ replicate PM_BUFSIZE 0), cr_len = of_nat (length str)\<rparr>"

lemma bufsize_word [simp]: "unat (of_nat PM_BUFSIZE :: u64) = PM_BUFSIZE"
  by (rule unat_of_nat_small) (simp add: PM_BUFSIZE_def)

lemma length_word: "length str \<le> 2 * PM_BUFSIZE \<Longrightarrow> unat (of_nat (length str) :: u64) = length str"
  by (rule unat_of_nat_small) (simp add: PM_BUFSIZE_def)

lemma no_zero_string: "0 \<notin> set c \<Longrightarrow> takeWhile (\<lambda>b. b \<noteq> 0) (c :: u8 list) = c"
  by (induction c) auto

lemma store_chunk_room:
  assumes "cr_len r = of_nat (length str)" and "take (length str) (cr_buffer r) = str" and "length str \<le> PM_BUFSIZE" and "0 \<notin> set c"
  shows "store_chunk c r = Some (filled (str @ c))"
proof -
  have len: "unat (cr_len r) = length str" using assms(1,3) by (simp add: length_word)
  have "unat (of_nat PM_BUFSIZE - cr_len r) = PM_BUFSIZE - length str"
    using len assms(3) by (subst unat_sub) (simp_all add: word_le_nat_alt)
  moreover have "take PM_BUFSIZE ((str @ c) @ replicate PM_BUFSIZE 0) = str @ take (PM_BUFSIZE - length str) (c @ replicate (PM_BUFSIZE - length str) 0)"
    using assms(3) by (simp add: take_replicate min_def)
  ultimately show ?thesis using assms len by (simp add: store_chunk_def strncpy_def no_zero_string filled_def Let_def)
qed

lemma store_chunk_full:
  assumes "PM_BUFSIZE < length str" and "length str \<le> 2 * PM_BUFSIZE" shows "store_chunk c (filled str) = None"
proof -
  have "unat (of_nat PM_BUFSIZE - of_nat (length str) :: u64) = 2 ^ 64 + PM_BUFSIZE - length str"
    using assms by (simp add: unat_sub_if_size word_size length_word)
  then show ?thesis using assms by (simp add: store_chunk_def filled_def length_word Let_def PM_BUFSIZE_def)
qed

lemma c_string_filled: "0 \<notin> set str \<Longrightarrow> c_string (cr_buffer (filled str)) = (if length str < PM_BUFSIZE then Some str else None)"
proof (cases "length str < PM_BUFSIZE")
  case True
  assume "0 \<notin> set str"
  moreover have "take PM_BUFSIZE (str @ replicate PM_BUFSIZE 0) = str @ replicate (PM_BUFSIZE - length str) 0" using True by (simp add: take_replicate min_def)
  moreover have "takeWhile (\<lambda>b. b \<noteq> 0) (str @ replicate (PM_BUFSIZE - length str) (0 :: u8)) = str"
    using \<open>0 \<notin> set str\<close> True by (subst takeWhile_append2) (auto simp: takeWhile_eq_Nil_iff)
  ultimately show ?thesis using True by (simp add: c_string_def filled_def)
next
  case False
  assume "0 \<notin> set str"
  with False show ?thesis by (auto simp: c_string_def filled_def dest: in_set_takeD)
qed

lemma store_chunks_filled:
  assumes "\<forall>c \<in> set chunks. 0 \<notin> set c \<and> length c \<le> PM_BUFSIZE" and "0 \<notin> set str" and "length str \<le> 2 * PM_BUFSIZE"
  shows "Option.bind (store_chunks chunks (filled str)) (\<lambda>r. c_string (cr_buffer r)) =
     (if length (str @ concat chunks) < PM_BUFSIZE then Some (str @ concat chunks) else None)"
  using assms
proof (induction chunks arbitrary: str)
  case (Cons c cs)
  show ?case
  proof (cases "length str \<le> PM_BUFSIZE")
    case True
    have "store_chunk c (filled str) = Some (filled (str @ c))"
      using True Cons.prems(1) by (intro store_chunk_room) (simp_all add: filled_def)
    then show ?thesis using Cons.IH [of "str @ c"] Cons.prems True by simp
  next
    case False
    then show ?thesis using store_chunk_full Cons.prems(3) by simp
  qed
qed (simp add: c_string_filled)

text \<open>C30. A request that a client sends in any number of parts arrives as it was sent when it is shorter than the buffer. A longer one makes the
  policy manager read or write past the end of the buffer: the text is not terminated, and the next part is written behind it.\<close>

theorem request_received:
  assumes "chunks \<noteq> []" and "\<forall>c \<in> set chunks. 0 \<notin> set c \<and> length c \<le> PM_BUFSIZE"
  shows "Option.bind (store_chunks chunks (new_client_req garbage)) (\<lambda>r. c_string (cr_buffer r)) =
     (if length (concat chunks) < PM_BUFSIZE then Some (concat chunks) else None)"
proof -
  obtain c cs where chunks: "chunks = c # cs" using assms(1) by (cases chunks) auto
  have "store_chunk c (new_client_req garbage) = Some (filled c)"
    using store_chunk_room [of "new_client_req garbage" "[]" c] assms(2) by (simp add: chunks new_client_req_def)
  then show ?thesis using store_chunks_filled [of cs c] assms(2) by (simp add: chunks)
qed

theorem request_received_witness:
  "Option.bind (store_chunks [[91], [49, 93]] (new_client_req (replicate PM_BUFSIZE 7))) (\<lambda>r. c_string (cr_buffer r)) = Some [91, 49, 93] \<and>
   Option.bind (store_chunks [replicate PM_BUFSIZE 91, [93]] (new_client_req (replicate PM_BUFSIZE 7))) (\<lambda>r. c_string (cr_buffer r)) = None"
proof
  show "Option.bind (store_chunks [[91], [49, 93]] (new_client_req (replicate PM_BUFSIZE 7))) (\<lambda>r. c_string (cr_buffer r)) = Some [91, 49, 93]"
    by (subst request_received) (simp_all add: PM_BUFSIZE_def)
  show "Option.bind (store_chunks [replicate PM_BUFSIZE 91, [93]] (new_client_req (replicate PM_BUFSIZE 7))) (\<lambda>r. c_string (cr_buffer r)) = None"
    by (subst request_received) (auto simp: PM_BUFSIZE_def)
qed

text \<open>The limit 0 would never be reached.\<close>

lemma limit_zero_loops: "xs \<noteq> [] \<Longrightarrow> limit_json_array xs 0 = None"
proof -
  have "limit \<noteq> 0" if "limit_loop i limit ys = Some zs" for i limit ys zs
    by (rule limit_loop.raw_induct [OF _ that]) (auto split: if_splits)
  then have "limit_loop i 0 xs = None" for i by (cases "limit_loop i 0 xs") auto
  then show "xs \<noteq> [] \<Longrightarrow> ?thesis" by (simp add: limit_json_array_def)
qed

end
