(* ===== verification/Address_List.thy ===== *)
theory Address_List
  imports Neat_Flow
begin

text \<open>
  The source addresses of a context (\<open>neat_addr.c\<close>) and the callbacks that are told of their changes (the event functions of
  \<open>neat_core.c\<close>). The operating system reports an address as new or deleted; a timer counts the lifetimes of IPv6 addresses down.
  An entry of the list is known to others by its pointer, so the list has pairs of an address and the entry. What a callback does is a
  parameter; the contract \<open>listener\<close> says that it leaves the list and the callbacks alone.
\<close>

section \<open>The context\<close>

definition NEAT_NEWADDR :: u8 where "NEAT_NEWADDR = 0"
definition NEAT_UPDATEADDR :: u8 where "NEAT_UPDATEADDR = 1"
definition NEAT_DELADDR :: u8 where "NEAT_DELADDR = 2"
definition NEAT_MAX_EVENT :: u8 where "NEAT_MAX_EVENT = 2"

record neat_addr =
  na_if_idx :: u32
  na_addr :: sockaddr_storage
  na_prefix_length :: u8
  na_ifa_pref :: u32
  na_ifa_valid :: u32

record 'w neat_ctx =
  nc_src_addrs :: "(nat \<times> neat_addr) list"
  nc_src_addr_cnt :: u8
  nc_src_addr_dump_done :: bool
  nc_event_cbs :: "(u8 \<Rightarrow> nat list) option"
  nc_world :: 'w

text \<open>A callback gets the event, its own address and the address of the entry. \<open>calloc\<close> gives a fresh address, or none.\<close>

record 'w addr_env =
  ae_callback :: "u8 \<Rightarrow> nat \<Rightarrow> nat \<Rightarrow> 'w neat_ctx \<Rightarrow> 'w neat_ctx"
  ae_calloc :: "nat set \<Rightarrow> 'w \<Rightarrow> nat option \<times> 'w"

definition entry_ptrs :: "'w neat_ctx \<Rightarrow> nat set" where
  "entry_ptrs s = fst ` set (nc_src_addrs s)"

definition nc_calloc :: "'w addr_env \<Rightarrow> 'w neat_ctx \<Rightarrow> nat option \<times> 'w neat_ctx" where
  "nc_calloc env s = (case ae_calloc env (entry_ptrs s) (nc_world s) of (p, w) \<Rightarrow> (p, s\<lparr>nc_world := w\<rparr>))"

section \<open>Callbacks\<close>

text \<open>The result is whether the callback has been added.\<close>

definition nt_add_event_cb :: "'w addr_env \<Rightarrow> u8 \<Rightarrow> nat \<Rightarrow> 'w neat_ctx \<Rightarrow> bool \<times> 'w neat_ctx" where
  "nt_add_event_cb env event_type cb s =
     (if NEAT_MAX_EVENT < event_type then (False, s)
      else (case (case nc_event_cbs s of
                    Some cbs \<Rightarrow> (Some cbs, s)
                  | None \<Rightarrow> (case nc_calloc env s of
                               (None, s1) \<Rightarrow> (None, s1)
                             | (Some _, s1) \<Rightarrow> (Some (\<lambda>_. []), s1)))
            of (None, s1) \<Rightarrow> (False, s1)
             | (Some cbs, s1) \<Rightarrow>
                 if cb \<in> set (cbs event_type) then (False, s1\<lparr>nc_event_cbs := Some cbs\<rparr>)
                 else (True, s1\<lparr>nc_event_cbs := Some (cbs(event_type := cb # cbs event_type))\<rparr>)))"

definition nt_remove_event_cb :: "u8 \<Rightarrow> nat \<Rightarrow> 'w neat_ctx \<Rightarrow> bool \<times> 'w neat_ctx" where
  "nt_remove_event_cb event_type cb s =
     (case nc_event_cbs s of
        Some cbs \<Rightarrow> if NEAT_MAX_EVENT < event_type then (False, s)
                    else (True, s\<lparr>nc_event_cbs := Some (cbs(event_type := remove1 cb (cbs event_type)))\<rparr>)
      | None \<Rightarrow> (False, s))"

definition nt_run_event_cb :: "'w addr_env \<Rightarrow> u8 \<Rightarrow> nat \<Rightarrow> 'w neat_ctx \<Rightarrow> 'w neat_ctx" where
  "nt_run_event_cb env event_type data s =
     (case nc_event_cbs s of
        Some cbs \<Rightarrow> if NEAT_MAX_EVENT < event_type then s else fold (\<lambda>cb. ae_callback env event_type cb data) (cbs event_type) s
      | None \<Rightarrow> s)"

section \<open>The list\<close>

definition AF_INET :: u8 where "AF_INET = 2"
definition AF_INET6 :: u8 where "AF_INET6 = 10"
definition AF_UNSPEC :: u8 where "AF_UNSPEC = 0"

fun sa_family :: "sockaddr_storage \<Rightarrow> u8" where
  "sa_family (SS_INET _ _) = AF_INET"
| "sa_family (SS_INET6 _ _ _ _) = AF_INET6"
| "sa_family (SS_OTHER _) = AF_UNSPEC"

definition na_family :: "neat_addr \<Rightarrow> u8" where "na_family a = sa_family (na_addr a)"

text \<open>Two addresses of one family are the same host: the ports are not compared.\<close>

fun same_ip :: "sockaddr_storage \<Rightarrow> sockaddr_storage \<Rightarrow> bool" where
  "same_ip (SS_INET _ a) (SS_INET _ b) = (a = b)"
| "same_ip (SS_INET6 _ _ _ a) (SS_INET6 _ _ _ b) = (a = b)"
| "same_ip _ _ = False"

definition find_addr :: "sockaddr_storage \<Rightarrow> u32 \<Rightarrow> 'w neat_ctx \<Rightarrow> (nat \<times> neat_addr) option" where
  "find_addr src_addr if_idx s = find (\<lambda>e. na_if_idx (snd e) = if_idx \<and> same_ip (na_addr (snd e)) src_addr) (nc_src_addrs s)"

definition set_entry :: "nat \<Rightarrow> neat_addr \<Rightarrow> 'w neat_ctx \<Rightarrow> 'w neat_ctx" where
  "set_entry p a s = s\<lparr>nc_src_addrs := map (\<lambda>e. if fst e = p then (p, a) else e) (nc_src_addrs s)\<rparr>"

definition nt_addr_update_src_list :: "'w addr_env \<Rightarrow> sockaddr_storage \<Rightarrow> u32 \<Rightarrow> bool \<Rightarrow> u8 \<Rightarrow> u32 \<Rightarrow> u32 \<Rightarrow> 'w neat_ctx \<Rightarrow> neat_error_code \<times> 'w neat_ctx" where
  "nt_addr_update_src_list env src_addr if_idx newaddr pref_length ifa_pref ifa_valid s =
     (if sa_family src_addr = AF_UNSPEC then (NEAT_ERROR_BAD_ARGUMENT, s)
      else (case find_addr src_addr if_idx s of
        Some (p, a) \<Rightarrow>
          if \<not> newaddr
          then (let s1 = nt_run_event_cb env NEAT_DELADDR p s
                in (NEAT_OK, s1\<lparr>nc_src_addrs := filter (\<lambda>e. fst e \<noteq> p) (nc_src_addrs s1), nc_src_addr_cnt := nc_src_addr_cnt s1 - 1\<rparr>))
          else if na_family a = AF_INET6
          then (NEAT_OK, nt_run_event_cb env NEAT_UPDATEADDR p (set_entry p (a\<lparr>na_ifa_pref := ifa_pref, na_ifa_valid := ifa_valid\<rparr>) s))
          else (NEAT_OK, s)
      | None \<Rightarrow>
          (case nc_calloc env s of
             (None, s1) \<Rightarrow> (NEAT_ERROR_OUT_OF_MEMORY, s1)
           | (Some p, s1) \<Rightarrow>
               (let a = \<lparr>na_if_idx = if_idx, na_addr = src_addr, na_prefix_length = pref_length,
                         na_ifa_pref = (if sa_family src_addr = AF_INET then 0 else ifa_pref), na_ifa_valid = (if sa_family src_addr = AF_INET then 0 else ifa_valid)\<rparr>
                in (NEAT_OK, nt_run_event_cb env NEAT_NEWADDR p
                     (s1\<lparr>nc_src_addrs := (p, a) # nc_src_addrs s1, nc_src_addr_cnt := nc_src_addr_cnt s1 + 1\<rparr>))))))"

section \<open>Lifetimes\<close>

definition NEAT_UNLIMITED_LIFETIME :: u32 where "NEAT_UNLIMITED_LIFETIME = - 1"
definition NEAT_ADDRESS_LIFETIME_TIMEOUT :: u32 where "NEAT_ADDRESS_LIFETIME_TIMEOUT = 1"

text \<open>A lifetime after the timeout, and whether it has come to its end now.\<close>

definition count_down :: "u32 \<Rightarrow> u32 \<times> bool" where
  "count_down t =
     (if t \<noteq> NEAT_UNLIMITED_LIFETIME \<and> 0 < t
      then (let t1 = (if NEAT_ADDRESS_LIFETIME_TIMEOUT \<le> t then t - NEAT_ADDRESS_LIFETIME_TIMEOUT else 0) in (t1, t1 = 0))
      else (t, False))"

definition lifetime_step :: "'w addr_env \<Rightarrow> nat \<times> neat_addr \<Rightarrow> 'w neat_ctx \<Rightarrow> 'w neat_ctx" where
  "lifetime_step env e s =
     (if na_family (snd e) \<noteq> AF_INET6 then s
      else (let (pref, n1) = count_down (na_ifa_pref (snd e)); (valid, n2) = count_down (na_ifa_valid (snd e));
                s1 = set_entry (fst e) ((snd e)\<lparr>na_ifa_pref := pref, na_ifa_valid := valid\<rparr>) s
            in if n1 \<or> n2 then nt_run_event_cb env NEAT_UPDATEADDR (fst e) s1 else s1))"

definition nt_addr_lifetime_timeout_cb :: "'w addr_env \<Rightarrow> 'w neat_ctx \<Rightarrow> 'w neat_ctx" where
  "nt_addr_lifetime_timeout_cb env s = fold (lifetime_step env) (nc_src_addrs s) s"

section \<open>The addresses as a map\<close>

text \<open>The host of an address, without its port. An entry is known by its interface and host.\<close>

datatype host = HOST4 u32 | HOST6 "u8 list"

fun host_of :: "sockaddr_storage \<Rightarrow> host option" where
  "host_of (SS_INET _ a) = Some (HOST4 a)"
| "host_of (SS_INET6 _ _ _ a) = Some (HOST6 a)"
| "host_of (SS_OTHER _) = None"

type_synonym addr_key = "u32 \<times> host option"

definition addr_key :: "neat_addr \<Rightarrow> addr_key" where "addr_key a = (na_if_idx a, host_of (na_addr a))"
definition addr_life :: "neat_addr \<Rightarrow> u32 \<times> u32" where "addr_life a = (na_ifa_pref a, na_ifa_valid a)"

definition addr_map :: "'w neat_ctx \<Rightarrow> addr_key \<rightharpoonup> u32 \<times> u32" where
  "addr_map s = map_of (map (\<lambda>e. (addr_key (snd e), addr_life (snd e))) (nc_src_addrs s))"

definition addr_keys :: "'w neat_ctx \<Rightarrow> addr_key list" where
  "addr_keys s = map (\<lambda>e. addr_key (snd e)) (nc_src_addrs s)"

definition entry_wf :: "neat_addr \<Rightarrow> bool" where
  "entry_wf a = (host_of (na_addr a) \<noteq> None \<and> (na_family a = AF_INET \<longrightarrow> addr_life a = (0, 0)))"

definition addrs_wf :: "'w neat_ctx \<Rightarrow> bool" where
  "addrs_wf s = (distinct (map fst (nc_src_addrs s)) \<and> distinct (addr_keys s) \<and> (\<forall>e \<in> set (nc_src_addrs s). entry_wf (snd e))
     \<and> nc_src_addr_cnt s = of_nat (length (nc_src_addrs s)))"

text \<open>What the reports mean: the lifetimes of IPv4 addresses are not kept, and a deletion of an address that is not known adds it.\<close>

definition report_life :: "sockaddr_storage \<Rightarrow> u32 \<Rightarrow> u32 \<Rightarrow> u32 \<times> u32" where
  "report_life a pref valid = (if sa_family a = AF_INET then (0, 0) else (pref, valid))"

datatype addr_event = ADDR_REPORT sockaddr_storage u32 bool u8 u32 u32 | ADDR_TIMER

fun addr_event_step :: "'w addr_env \<Rightarrow> addr_event \<Rightarrow> 'w neat_ctx \<Rightarrow> neat_error_code \<times> 'w neat_ctx" where
  "addr_event_step env (ADDR_REPORT a i new len pref valid) s = nt_addr_update_src_list env a i new len pref valid s"
| "addr_event_step env ADDR_TIMER s = (NEAT_OK, nt_addr_lifetime_timeout_cb env s)"

fun addr_run :: "'w addr_env \<Rightarrow> addr_event list \<Rightarrow> 'w neat_ctx \<Rightarrow> neat_error_code list \<times> 'w neat_ctx" where
  "addr_run env [] s = ([], s)"
| "addr_run env (e # es) s = (case addr_event_step env e s of (c, s1) \<Rightarrow> case addr_run env es s1 of (cs, s2) \<Rightarrow> (c # cs, s2))"

definition age :: "addr_key \<Rightarrow> u32 \<times> u32 \<Rightarrow> u32 \<times> u32" where
  "age k v = (case snd k of Some (HOST6 _) \<Rightarrow> (fst (count_down (fst v)), fst (count_down (snd v))) | _ \<Rightarrow> v)"

fun spec_event :: "addr_event \<times> neat_error_code \<Rightarrow> (addr_key \<rightharpoonup> u32 \<times> u32) \<Rightarrow> addr_key \<rightharpoonup> u32 \<times> u32" where
  "spec_event (ADDR_REPORT a i new len pref valid, c) m =
     (if c \<noteq> NEAT_OK then m
      else if \<not> new \<and> m (i, host_of a) \<noteq> None then m((i, host_of a) := None)
      else m((i, host_of a) \<mapsto> report_life a pref valid))"
| "spec_event (ADDR_TIMER, c) m = (\<lambda>k. map_option (age k) (m k))"

lemma same_ip_iff: "same_ip a b \<longleftrightarrow> host_of a = host_of b \<and> host_of a \<noteq> None"
  by (cases a; cases b) auto

lemma host_of_None: "host_of a = None \<longleftrightarrow> sa_family a = AF_UNSPEC"
  by (cases a) (auto simp: AF_INET_def AF_INET6_def AF_UNSPEC_def)

lemma host_family: "host_of a = host_of b \<Longrightarrow> sa_family a = sa_family b"
  by (cases a; cases b) auto

lemma find_SomeD: "find P xs = Some x \<Longrightarrow> x \<in> set xs \<and> P x"
  by (auto simp: find_Some_iff)

lemma find_addr_None:
  assumes "host_of a \<noteq> None"
  shows "find_addr a i s = None \<longleftrightarrow> (i, host_of a) \<notin> set (addr_keys s)"
  using assms by (auto simp: find_addr_def find_None_iff addr_keys_def addr_key_def same_ip_iff image_iff)

lemma find_addr_Some:
  assumes "find_addr a i s = Some (p, e)"
  shows "(p, e) \<in> set (nc_src_addrs s)" "addr_key e = (i, host_of a)" "host_of a \<noteq> None"
  using find_SomeD [OF assms [unfolded find_addr_def]] by (simp_all add: addr_key_def same_ip_iff) metis

lemma addr_map_None: "addr_map s k = None \<longleftrightarrow> k \<notin> set (addr_keys s)"
  by (simp add: addr_map_def map_of_eq_None_iff addr_keys_def image_image)

text \<open>Changing and removing the entry of a key.\<close>

lemma map_of_set_entry:
  assumes "distinct (map fst xs)" "distinct (map (\<lambda>e. K (snd e)) xs)" "(p, a) \<in> set xs" "K a' = K a"
  shows "map_of (map (\<lambda>e. (K (snd e), L (snd e))) (map (\<lambda>e. if fst e = p then (p, a') else e) xs)) = (map_of (map (\<lambda>e. (K (snd e), L (snd e))) xs))(K a \<mapsto> L a')"
  using assms
proof (induction xs)
  case (Cons x xs)
  have other: "map (\<lambda>e. if fst e = p then (p, a') else e) xs = xs" if "fst x = p"
    using Cons.prems(1) that by (intro map_idI) (force simp: image_iff)
  show ?case
  proof (cases "fst x = p")
    case True
    then have "x = (p, a)" using Cons.prems by (force simp: image_iff)
    then show ?thesis using other Cons.prems(4) by (simp add: fun_eq_iff)
  next
    case False
    then have "(p, a) \<in> set xs" using Cons.prems(3) by auto
    moreover from this have "K (snd x) \<noteq> K a" using Cons.prems(2) by (force simp: image_iff)
    ultimately show ?thesis using Cons False by (auto simp: fun_upd_twist)
  qed
qed simp

lemma map_of_del_entry:
  assumes "distinct (map fst xs)" "distinct (map (\<lambda>e. K (snd e)) xs)" "(p, a) \<in> set xs"
  shows "map_of (map (\<lambda>e. (K (snd e), L (snd e))) (filter (\<lambda>e. fst e \<noteq> p) xs)) = (map_of (map (\<lambda>e. (K (snd e), L (snd e))) xs))(K a := None)"
  using assms
proof (induction xs)
  case (Cons x xs)
  show ?case
  proof (cases "fst x = p")
    case True
    then have x: "x = (p, a)" using Cons.prems by (force simp: image_iff)
    then have "filter (\<lambda>e. fst e \<noteq> p) xs = xs" using Cons.prems(1) by (auto simp: filter_id_conv image_iff)
    moreover have "map_of (map (\<lambda>e. (K (snd e), L (snd e))) xs) (K a) = None" using Cons.prems(2) x by (auto simp: map_of_eq_None_iff image_iff)
    ultimately show ?thesis using x by (auto simp: fun_eq_iff)
  next
    case False
    then have "(p, a) \<in> set xs" using Cons.prems(3) by auto
    moreover from this have "K (snd x) \<noteq> K a" using Cons.prems(2) by (force simp: image_iff)
    ultimately show ?thesis using Cons False by (auto simp: fun_upd_twist)
  qed
qed simp

lemma del_entry_length: "distinct (map fst xs) \<Longrightarrow> (p, a) \<in> set xs \<Longrightarrow> length xs = Suc (length (filter (\<lambda>e. fst e \<noteq> p) xs))"
proof (induction xs)
  case (Cons x xs)
  show ?case
  proof (cases "fst x = p")
    case True
    then have "filter (\<lambda>e. fst e \<noteq> p) xs = xs" using Cons.prems(1) by (auto simp: filter_id_conv image_iff)
    then show ?thesis using True by simp
  next
    case False
    then show ?thesis using Cons by auto
  qed
qed simp

lemma set_entry_wf:
  assumes "addrs_wf s" "(p, a) \<in> set (nc_src_addrs s)" "addr_key a' = addr_key a" "entry_wf a'"
  shows "addrs_wf (set_entry p a' s)" "addr_map (set_entry p a' s) = (addr_map s)(addr_key a \<mapsto> addr_life a')"
proof -
  have d: "distinct (map fst (nc_src_addrs s))" "distinct (addr_keys s)" using assms(1) by (auto simp: addrs_wf_def)
  have same: "addr_key (snd e) = addr_key a'" if "e \<in> set (nc_src_addrs s)" "fst e = p" for e
    using assms d(1) that by (metis eq_key_imp_eq_value prod.collapse)
  have keys: "addr_keys (set_entry p a' s) = addr_keys s"
    unfolding addr_keys_def set_entry_def by (simp add: same cong: map_cong)
  have fsts: "map fst (nc_src_addrs (set_entry p a' s)) = map fst (nc_src_addrs s)" by (simp add: set_entry_def)
  have host: "\<forall>e \<in> set (nc_src_addrs (set_entry p a' s)). entry_wf (snd e)"
    using assms by (auto simp: set_entry_def addrs_wf_def split: if_splits)
  show "addrs_wf (set_entry p a' s)"
    unfolding addrs_wf_def fsts keys using d host assms(1) by (simp add: addrs_wf_def set_entry_def)
  show "addr_map (set_entry p a' s) = (addr_map s)(addr_key a \<mapsto> addr_life a')"
    using map_of_set_entry [OF d(1) d(2) [unfolded addr_keys_def] assms(2,3)] by (simp add: addr_map_def set_entry_def)
qed

definition aged :: "neat_addr \<Rightarrow> neat_addr" where
  "aged a = (if na_family a \<noteq> AF_INET6 then a
             else a\<lparr>na_ifa_pref := fst (count_down (na_ifa_pref a)), na_ifa_valid := fst (count_down (na_ifa_valid a))\<rparr>)"

lemma aged_wf [simp]: "addr_key (aged a) = addr_key a" "entry_wf a \<Longrightarrow> entry_wf (aged a)"
  by (auto simp: aged_def addr_key_def entry_wf_def na_family_def AF_INET_def AF_INET6_def)

lemma aged_life: "addr_life (aged a) = age (addr_key a) (addr_life a)"
  by (cases "na_addr a") (auto simp: aged_def addr_key_def age_def addr_life_def na_family_def AF_INET_def AF_INET6_def AF_UNSPEC_def)

section \<open>Listeners\<close>

text \<open>What is expected of the callbacks: they leave the addresses and the callbacks of the context alone. Memory is a block that is not in use.\<close>

locale listener =
  fixes env :: "'w addr_env"
  assumes keeps_addrs: "nc_src_addrs (ae_callback env event cb p s) = nc_src_addrs s"
    and keeps_cnt: "nc_src_addr_cnt (ae_callback env event cb p s) = nc_src_addr_cnt s"
    and keeps_cbs: "nc_event_cbs (ae_callback env event cb p s) = nc_event_cbs s"
begin

lemma fold_callback:
  "nc_src_addrs (fold (\<lambda>cb. ae_callback env event cb p) cbs s) = nc_src_addrs s
   \<and> nc_src_addr_cnt (fold (\<lambda>cb. ae_callback env event cb p) cbs s) = nc_src_addr_cnt s
   \<and> nc_event_cbs (fold (\<lambda>cb. ae_callback env event cb p) cbs s) = nc_event_cbs s"
  by (induction cbs arbitrary: s) (simp_all add: keeps_addrs keeps_cnt keeps_cbs)

lemma run_event_keeps [simp]:
  "nc_src_addrs (nt_run_event_cb env event p s) = nc_src_addrs s"
  "nc_src_addr_cnt (nt_run_event_cb env event p s) = nc_src_addr_cnt s"
  "nc_event_cbs (nt_run_event_cb env event p s) = nc_event_cbs s"
  by (simp_all add: nt_run_event_cb_def fold_callback split: option.split)

lemma run_event_map [simp]: "addr_map (nt_run_event_cb env event p s) = addr_map s" "addrs_wf (nt_run_event_cb env event p s) = addrs_wf s"
  by (simp_all add: addr_map_def addrs_wf_def addr_keys_def)

lemma update_src_list_refines:
  assumes "addrs_wf s" "\<And>used w q w'. ae_calloc env used w = (Some q, w') \<Longrightarrow> q \<notin> used"
    and "addr_event_step env (ADDR_REPORT a i new len pref valid) s = (c, s')"
  shows "addrs_wf s' \<and> addr_map s' = spec_event (ADDR_REPORT a i new len pref valid, c) (addr_map s)"
proof (cases "sa_family a = AF_UNSPEC")
  case True
  then show ?thesis using assms by (auto simp: nt_addr_update_src_list_def)
next
  case known: False
  then have host: "host_of a \<noteq> None" by (simp add: host_of_None)
  have d: "distinct (map fst (nc_src_addrs s))" "distinct (addr_keys s)" using assms(1) by (auto simp: addrs_wf_def)
  show ?thesis
  proof (cases "find_addr a i s")
    case None
    then have new: "(i, host_of a) \<notin> set (addr_keys s)" using find_addr_None [OF host] by blast
    then have unmapped: "addr_map s (i, host_of a) = None" by (simp add: addr_map_None)
    obtain q s1 where alloc: "nc_calloc env s = (q, s1)" by fastforce
    then have same: "nc_src_addrs s1 = nc_src_addrs s" "nc_src_addr_cnt s1 = nc_src_addr_cnt s" by (auto simp: nc_calloc_def split: prod.splits)
    then have maps: "addr_map s1 = addr_map s" "addr_keys s1 = addr_keys s" "addrs_wf s1 = addrs_wf s" by (simp_all add: addr_map_def addr_keys_def addrs_wf_def)
    show ?thesis
    proof (cases q)
      case q: None
      then show ?thesis using assms(1,3) known None alloc maps by (auto simp: nt_addr_update_src_list_def)
    next
      case q: (Some p)
      then have fresh: "p \<notin> fst ` set (nc_src_addrs s)"
        using alloc assms(2) by (auto simp: nc_calloc_def entry_ptrs_def split: prod.splits)
      let ?e = "\<lparr>na_if_idx = i, na_addr = a, na_prefix_length = len, na_ifa_pref = (if sa_family a = AF_INET then 0 else pref), na_ifa_valid = (if sa_family a = AF_INET then 0 else valid)\<rparr>"
      let ?s2 = "s1\<lparr>nc_src_addrs := (p, ?e) # nc_src_addrs s1, nc_src_addr_cnt := nc_src_addr_cnt s1 + 1\<rparr>"
      have s': "c = NEAT_OK" "s' = nt_run_event_cb env NEAT_NEWADDR p ?s2" using assms(3) known None alloc q by (auto simp: nt_addr_update_src_list_def)
      have "addrs_wf ?s2" using assms(1) fresh new host by (auto simp: addrs_wf_def same addr_keys_def addr_key_def add.commute entry_wf_def na_family_def addr_life_def)
      moreover have "addr_map ?s2 = (addr_map s)((i, host_of a) \<mapsto> report_life a pref valid)"
        by (simp add: addr_map_def same addr_key_def addr_life_def report_life_def)
      ultimately show ?thesis using s' unmapped by simp
    qed
  next
    case (Some pe)
    obtain p e where pe: "pe = (p, e)" by (cases pe)
    note found = find_addr_Some [OF Some [unfolded pe]]
    have mapped: "addr_map s (i, host_of a) \<noteq> None" using found addr_map_None [of s "(i, host_of a)"] by (force simp: addr_keys_def)
    show ?thesis
    proof (cases "new")
      case False
      let ?s2 = "s\<lparr>nc_src_addrs := filter (\<lambda>e. fst e \<noteq> p) (nc_src_addrs s), nc_src_addr_cnt := nc_src_addr_cnt s - 1\<rparr>"
      have s': "c = NEAT_OK" "nc_src_addrs s' = nc_src_addrs ?s2" "nc_src_addr_cnt s' = nc_src_addr_cnt ?s2"
        using assms(3) known Some pe False by (auto simp: nt_addr_update_src_list_def Let_def)
      then have "addrs_wf s' = addrs_wf ?s2" "addr_map s' = addr_map ?s2" by (simp_all add: addrs_wf_def addr_map_def addr_keys_def)
      moreover have "addrs_wf ?s2"
        using assms(1) found(1) d del_entry_length [OF d(1) found(1)] by (auto simp: addrs_wf_def addr_keys_def distinct_map_filter)
      moreover have "addr_map ?s2 = (addr_map s)((i, host_of a) := None)"
        using map_of_del_entry [OF d(1) d(2) [unfolded addr_keys_def] found(1)] found(2) by (simp add: addr_map_def)
      ultimately show ?thesis using False s'(1) mapped by auto
    next
      case True
      have family: "na_family e = sa_family a" using found(2) by (auto simp: na_family_def addr_key_def intro: host_family)
      have wf: "entry_wf e" using assms(1) found(1) by (force simp: addrs_wf_def)
      show ?thesis
      proof (cases "sa_family a = AF_INET6")
        case six: True
        let ?e = "e\<lparr>na_ifa_pref := pref, na_ifa_valid := valid\<rparr>"
        have e: "addr_key ?e = addr_key e" "entry_wf ?e" using wf family six by (auto simp: addr_key_def entry_wf_def na_family_def AF_INET_def AF_INET6_def)
        have s': "c = NEAT_OK" "s' = nt_run_event_cb env NEAT_UPDATEADDR p (set_entry p ?e s)"
          using assms(3) known Some pe True family six by (auto simp: nt_addr_update_src_list_def)
        show ?thesis using set_entry_wf [OF assms(1) found(1) e] s' found(2) True six
          by (simp add: addr_life_def report_life_def AF_INET_def AF_INET6_def)
      next
        case False
        then have four: "sa_family a = AF_INET" using known by (cases a) auto
        then have "c = NEAT_OK" "s' = s" using assms(3) known Some pe True family False by (auto simp: nt_addr_update_src_list_def)
        moreover have "addr_map s (i, host_of a) = Some (0, 0)"
          unfolding addr_map_def using d(2) found(1,2) wf family four
          by (auto simp: map_of_eq_Some_iff addr_keys_def comp_def entry_wf_def image_iff intro!: bexI [of _ "(p, e)"])
        ultimately show ?thesis using assms(1) True four by (auto simp: report_life_def fun_eq_iff)
      qed
    qed
  qed
qed

lemma lifetime_step_addrs:
  "nc_src_addrs (lifetime_step env e s) = (if na_family (snd e) \<noteq> AF_INET6 then nc_src_addrs s
     else map (\<lambda>d. if fst d = fst e then (fst e, aged (snd e)) else d) (nc_src_addrs s))"
  "nc_src_addr_cnt (lifetime_step env e s) = nc_src_addr_cnt s"
  by (auto simp: lifetime_step_def Let_def set_entry_def aged_def split: prod.splits)

lemma lifetime_fold:
  assumes "nc_src_addrs s = map (\<lambda>e. (fst e, aged (snd e))) pre @ ys" "distinct (map fst (pre @ ys))"
  shows "nc_src_addrs (fold (lifetime_step env) ys s) = map (\<lambda>e. (fst e, aged (snd e))) (pre @ ys)
    \<and> nc_src_addr_cnt (fold (lifetime_step env) ys s) = nc_src_addr_cnt s"
  using assms
proof (induction ys arbitrary: pre s)
  case (Cons y ys)
  have keep: "map (\<lambda>d. if fst d = fst y then (fst y, aged (snd y)) else d) zs = zs" if "fst y \<notin> fst ` set zs" for zs
    using that by (intro map_idI) (auto simp: image_iff)
  have new: "fst y \<notin> fst ` set (map (\<lambda>e. (fst e, aged (snd e))) pre)" "fst y \<notin> fst ` set ys"
    using Cons.prems(2) by (auto simp: image_iff)
  have "nc_src_addrs (lifetime_step env y s) = map (\<lambda>e. (fst e, aged (snd e))) (pre @ [y]) @ ys"
  proof (cases "na_family (snd y) = AF_INET6")
    case True
    then show ?thesis unfolding lifetime_step_addrs Cons.prems(1) map_append keep [OF new(1)] by (simp add: keep [OF new(2)])
  next
    case False
    then have "aged (snd y) = snd y" by (simp add: aged_def)
    then show ?thesis using Cons.prems(1) False by (simp add: lifetime_step_addrs)
  qed
  then show ?case using Cons.IH [of "lifetime_step env y s" "pre @ [y]"] Cons.prems(2) by (simp add: lifetime_step_addrs)
qed simp

lemma timer_refines:
  assumes "addrs_wf s"
  shows "addrs_wf (nt_addr_lifetime_timeout_cb env s) \<and> addr_map (nt_addr_lifetime_timeout_cb env s) = spec_event (ADDR_TIMER, c) (addr_map s)"
proof -
  let ?s' = "nt_addr_lifetime_timeout_cb env s"
  have s': "nc_src_addrs ?s' = map (\<lambda>e. (fst e, aged (snd e))) (nc_src_addrs s)" "nc_src_addr_cnt ?s' = nc_src_addr_cnt s"
    using lifetime_fold [of s "[]" "nc_src_addrs s"] assms by (auto simp: nt_addr_lifetime_timeout_cb_def addrs_wf_def)
  have "addrs_wf ?s'" using assms by (auto simp: addrs_wf_def s' addr_keys_def comp_def aged_wf)
  moreover have "addr_map ?s' = (\<lambda>k. map_option (age k) (addr_map s k))"
  proof -
    have "map_of (map (\<lambda>e. (addr_key (snd e), age (addr_key (snd e)) (addr_life (snd e)))) xs) = (\<lambda>k. map_option (age k) (map_of (map (\<lambda>e. (addr_key (snd e), addr_life (snd e))) xs) k))" for xs :: "(nat \<times> neat_addr) list"
      by (induction xs) auto
    then show ?thesis by (simp add: addr_map_def s' comp_def aged_life)
  qed
  ultimately show ?thesis by simp
qed

lemma addr_run_refines:
  assumes "\<And>used w q w'. ae_calloc env used w = (Some q, w') \<Longrightarrow> q \<notin> used" "addrs_wf s" "addr_run env es s = (cs, s')"
  shows "addrs_wf s' \<and> length cs = length es \<and> addr_map s' = fold spec_event (zip es cs) (addr_map s)"
  using assms(2,3)
proof (induction es arbitrary: s cs)
  case (Cons e es)
  obtain c s1 where 1: "addr_event_step env e s = (c, s1)" by fastforce
  obtain cs' s2 where 2: "addr_run env es s1 = (cs', s2)" by fastforce
  have "addrs_wf s1 \<and> addr_map s1 = spec_event (e, c) (addr_map s)"
  proof (cases e)
    case ADDR_TIMER
    then show ?thesis using timer_refines [OF Cons.prems(1), of c] 1 by auto
  qed (use update_src_list_refines assms(1) Cons.prems(1) 1 in blast)
  then show ?case using Cons 1 2 by auto
qed auto

end

end
