(* ===== verification/Resolver.thy ===== *)
theory Resolver
  imports Address_List
begin

text \<open>
  Name resolution (\<open>neat_resolver.c\<close>, \<open>neat_resolver_helpers.c\<close>, \<open>neat_resolver_conf.c\<close>). A request asks every DNS server from every
  source address of a matching family: one pair for each combination. Replies store up to three addresses in their pair; when the timer
  of the request fires, the results are collected and passed on. Addresses that are literals need no DNS. The resolver hears of new and
  deleted source addresses through the callbacks of the context.

  A pair points to the entry of its source address. The flag \<open>rs_fault\<close> is set by an access to an entry, a request or a handle that has
  been freed; the theorems show where this cannot happen. The timers of libuv start when they are told to. The parser of addresses \<open>inet_pton\<close>, memory, the UDP sockets of libuv, ldns and the
  receiver of the results are parameters; the receiver does not call the resolver. The loop of libuv runs (\<open>uv_backend_fd\<close> is not -1).
\<close>

section \<open>State\<close>

definition MAX_NUM_RESOLVED :: nat where "MAX_NUM_RESOLVED = 3"
definition MAX_DOMAIN_LENGTH :: nat where "MAX_DOMAIN_LENGTH = 254"
definition DNS_TIMEOUT :: u16 where "DNS_TIMEOUT = 5000"
definition DNS_RESOLVED_TIMEOUT :: u16 where "DNS_RESOLVED_TIMEOUT = 100"
definition DNS_LITERAL_TIMEOUT :: u16 where "DNS_LITERAL_TIMEOUT = 1"
definition DNS_ADDRESS_TIMEOUT :: u16 where "DNS_ADDRESS_TIMEOUT = 100"

text \<open>The UDP handle of a pair: not started, receiving, or closing.\<close>

datatype udp_handle = UDP_INACTIVE | UDP_ACTIVE | UDP_CLOSING

text \<open>\<open>struct neat_resolver_src_dst_addr\<close>; \<^const>\<open>None\<close> is a resolved address without a family.\<close>

record resolver_pair =
  pr_ptr :: nat
  pr_src :: nat
  pr_server :: sockaddr_storage
  pr_resolved :: "sockaddr_storage option list"
  pr_handle :: udp_handle
  pr_closed :: bool

record resolver_request =
  rq_ptr :: nat
  rq_dst_port :: u16
  rq_family :: u8
  rq_name_resolved_timeout :: bool
  rq_domain_name :: string
  rq_pairs :: "resolver_pair list"
  rq_timer :: "u16 option"
  rq_is_literal :: bool
  rq_is_localhost :: bool
  rq_freed :: bool

datatype server_mark = NEAT_RESOLVER_SERVER_STATIC | NEAT_RESOLVER_SERVER_ACTIVE | NEAT_RESOLVER_SERVER_DELETE

record resolver =
  rs_dns_t1 :: u16
  rs_dns_t2 :: u16
  rs_free_resolver :: bool
  rs_fs_event_closed :: bool
  rs_servers :: "(sockaddr_storage \<times> server_mark) list"
  rs_pairs_del :: "resolver_pair list"
  rs_idle :: bool
  rs_request_queue :: "resolver_request list"
  rs_dead_requests :: "resolver_request list"
  rs_fault :: bool

record 'k rs_world =
  rw_resolver :: resolver
  rw_kernel :: 'k

type_synonym 'k rctx = "'k rs_world neat_ctx"

record resolver_res =
  res_family :: u8
  res_if_idx :: u32
  res_src_addr :: sockaddr_storage
  res_dst_addr :: sockaddr_storage
  res_internal :: bool

datatype resolve_result = NEAT_RESOLVER_OK "resolver_res list" | NEAT_RESOLVER_ERROR | NEAT_RESOLVER_TIMEOUT

record 'k resolver_env =
  re_pton4 :: "string \<Rightarrow> u32 option"
  re_pton6 :: "string \<Rightarrow> u8 list option"
  re_calloc :: "nat set \<Rightarrow> 'k \<Rightarrow> nat option \<times> 'k"
  re_udp_init :: "'k \<Rightarrow> bool \<times> 'k"
  re_udp_bind :: "sockaddr_storage \<Rightarrow> 'k \<Rightarrow> bool \<times> 'k"
  re_udp_recv_start :: "'k \<Rightarrow> bool \<times> 'k"
  re_bind_to_device :: "u32 \<Rightarrow> 'k \<Rightarrow> bool \<times> 'k"
  re_query :: "string \<Rightarrow> u8 \<Rightarrow> 'k \<Rightarrow> u8 list option \<times> 'k"
  re_udp_send :: "sockaddr_storage \<Rightarrow> u8 list \<Rightarrow> 'k \<Rightarrow> bool \<times> 'k"
  re_result :: "nat \<Rightarrow> resolve_result \<Rightarrow> 'k \<Rightarrow> 'k"
  re_fs_event_init :: "'k \<Rightarrow> bool \<times> 'k"
  re_resolv_conf :: "'k \<Rightarrow> string option \<times> 'k"

definition rs_of :: "'k rctx \<Rightarrow> resolver" where "rs_of s = rw_resolver (nc_world s)"

definition modify_rs :: "(resolver \<Rightarrow> resolver) \<Rightarrow> 'k rctx \<Rightarrow> 'k rctx" where
  "modify_rs g s = s\<lparr>nc_world := (nc_world s)\<lparr>rw_resolver := g (rw_resolver (nc_world s))\<rparr>\<rparr>"

definition kernel_call :: "('k \<Rightarrow> 'a \<times> 'k) \<Rightarrow> 'k rctx \<Rightarrow> 'a \<times> 'k rctx" where
  "kernel_call g s = (case g (rw_kernel (nc_world s)) of (x, k) \<Rightarrow> (x, s\<lparr>nc_world := (nc_world s)\<lparr>rw_kernel := k\<rparr>\<rparr>))"

text \<open>The blocks of memory that the resolver knows by their addresses. \<open>calloc\<close> is told which addresses are in use.\<close>

definition rs_ptrs :: "resolver \<Rightarrow> nat set" where
  "rs_ptrs rs = rq_ptr ` set (rs_request_queue rs) \<union> rq_ptr ` set (rs_dead_requests rs) \<union> pr_ptr ` set (concat (map rq_pairs (rs_request_queue rs)))
     \<union> pr_ptr ` set (rs_pairs_del rs)"

definition rs_calloc :: "'k resolver_env \<Rightarrow> 'k rctx \<Rightarrow> nat option \<times> 'k rctx" where
  "rs_calloc env s = kernel_call (re_calloc env (entry_ptrs s \<union> rs_ptrs (rs_of s))) s"

definition modify_request :: "nat \<Rightarrow> (resolver_request \<Rightarrow> resolver_request) \<Rightarrow> 'k rctx \<Rightarrow> 'k rctx" where
  "modify_request r g = modify_rs (\<lambda>rs. rs\<lparr>rs_request_queue := map (\<lambda>q. if rq_ptr q = r then g q else q) (rs_request_queue rs)\<rparr>)"

definition find_request :: "nat \<Rightarrow> 'k rctx \<Rightarrow> resolver_request option" where
  "find_request r s = find (\<lambda>q. rq_ptr q = r) (rs_request_queue (rs_of s))"

definition set_fault :: "bool \<Rightarrow> 'k rctx \<Rightarrow> 'k rctx" where
  "set_fault b = modify_rs (\<lambda>rs. rs\<lparr>rs_fault := (rs_fault rs \<or> b)\<rparr>)"

definition entry :: "nat \<Rightarrow> 'k rctx \<Rightarrow> neat_addr option" where
  "entry p s = map_of (nc_src_addrs s) p"

section \<open>Helpers\<close>

definition IANA_A_NW :: u32 where "IANA_A_NW = 0x0a000000"
definition IANA_A_MASK :: u32 where "IANA_A_MASK = 0xff000000"
definition IANA_B_NW :: u32 where "IANA_B_NW = 0xac100000"
definition IANA_B_MASK :: u32 where "IANA_B_MASK = 0xfff00000"
definition IANA_C_NW :: u32 where "IANA_C_NW = 0xc0a80000"
definition IANA_C_MASK :: u32 where "IANA_C_MASK = 0xffff0000"

fun nt_resolver_helpers_addr_internal :: "sockaddr_storage \<Rightarrow> bool" where
  "nt_resolver_helpers_addr_internal (SS_INET6 _ _ _ a) = (a ! 0 AND 0xfe \<noteq> 0xfc)"
| "nt_resolver_helpers_addr_internal (SS_INET _ a) =
     (a AND IANA_A_MASK = IANA_A_NW \<or> a AND IANA_B_MASK = IANA_B_NW \<or> a AND IANA_C_MASK = IANA_C_NW)"
| "nt_resolver_helpers_addr_internal (SS_OTHER _) = False"

text \<open>The loop over the parts of a list of addresses: none when a part is not an address, otherwise what the last part is.\<close>

fun check_literals :: "'k resolver_env \<Rightarrow> string list \<Rightarrow> bool \<times> bool \<Rightarrow> (bool \<times> bool) option" where
  "check_literals env [] v = Some v"
| "check_literals env (t # ts) v =
     (let v4 = (re_pton4 env t \<noteq> None); v6 = (re_pton6 env t \<noteq> None)
      in if \<not> v4 \<and> \<not> v6 then None else check_literals env ts (v4, v6))"

text \<open>The result -1, 0 or 1, and the family, which is set for a literal. The copy of the name has its memory.\<close>

definition nt_resolver_helpers_check_for_literal :: "'k resolver_env \<Rightarrow> u8 \<Rightarrow> string \<Rightarrow> int \<times> u8" where
  "nt_resolver_helpers_check_for_literal env family node =
     (if family \<noteq> AF_UNSPEC \<and> family \<noteq> AF_INET \<and> family \<noteq> AF_INET6 then (- 1, family)
      else (case (if CHR '','' \<notin> set node then Some (re_pton4 env node \<noteq> None, re_pton6 env node \<noteq> None)
                  else check_literals env (strtok '','' node) (False, False)) of
        None \<Rightarrow> (0, family)
      | Some (v4, v6) \<Rightarrow>
          if family = AF_INET \<and> v6 \<or> family = AF_INET6 \<and> v4 then (- 1, family)
          else (if v4 \<or> v6 then 1 else 0,
                if family = AF_UNSPEC then (if v6 then AF_INET6 else if v4 then AF_INET else family) else family)))"

fun set_port :: "u16 \<Rightarrow> sockaddr_storage \<Rightarrow> sockaddr_storage" where
  "set_port port (SS_INET _ a) = SS_INET port a"
| "set_port port (SS_INET6 _ f sc a) = SS_INET6 port f sc a"
| "set_port port a = a"

text \<open>One result, put before the others; nothing when there is no memory.\<close>

definition nt_resolver_helpers_fill_results ::
  "'k resolver_env \<Rightarrow> u16 \<Rightarrow> neat_addr \<Rightarrow> sockaddr_storage \<Rightarrow> resolver_res list \<Rightarrow> 'k rctx \<Rightarrow> resolver_res list \<times> 'k rctx" where
  "nt_resolver_helpers_fill_results env port src dst results s =
     (case rs_calloc env s of
        (None, s1) \<Rightarrow> (results, s1)
      | (Some _, s1) \<Rightarrow> (\<lparr>res_family = na_family src, res_if_idx = na_if_idx src, res_src_addr = na_addr src, res_dst_addr = set_port port dst,
          res_internal = nt_resolver_helpers_addr_internal dst\<rparr> # results, s1))"

definition deprecated :: "neat_addr \<Rightarrow> bool" where
  "deprecated a = (na_family a = AF_INET6 \<and> na_ifa_pref a = 0)"

text \<open>The addresses a pair has resolved, up to the first empty place.\<close>

definition resolved_list :: "resolver_pair \<Rightarrow> sockaddr_storage list" where
  "resolved_list p = map the (takeWhile (\<lambda>a. a \<noteq> None) (pr_resolved p))"

fun inet_pton :: "'k resolver_env \<Rightarrow> u8 \<Rightarrow> string \<Rightarrow> sockaddr_storage option" where
  "inet_pton env family str =
     (if family = AF_INET then map_option (SS_INET 0) (re_pton4 env str) else map_option (SS_INET6 0 0 0) (re_pton6 env str))"

text \<open>Whether a pair of the request with the same interface and source has this address already. The flag is false when the source of a pair is not there any more.\<close>

definition neat_resolver_helpers_check_duplicate :: "'k resolver_env \<Rightarrow> resolver_request \<Rightarrow> neat_addr \<Rightarrow> string \<Rightarrow> 'k rctx \<Rightarrow> bool \<times> bool" where
  "neat_resolver_helpers_check_duplicate env q src str s =
     (case inet_pton env (na_family src) str of
        None \<Rightarrow> (True, False)
      | Some a \<Rightarrow>
          (\<forall>p \<in> set (rq_pairs q). entry (pr_src p) s \<noteq> None,
           \<exists>p \<in> set (rq_pairs q). case entry (pr_src p) s of
             None \<Rightarrow> False
           | Some e \<Rightarrow> na_if_idx e = na_if_idx src \<and> same_ip (na_addr e) (na_addr src) \<and> (\<exists>b \<in> set (resolved_list p). same_ip b a)))"

section \<open>Pairs\<close>

text \<open>A pair goes to the list of those that are freed by the idle callback; only a handle that is active is closed.\<close>

definition mark_closing :: "resolver_pair \<Rightarrow> resolver_pair" where
  "mark_closing p = (if pr_handle p = UDP_ACTIVE then p\<lparr>pr_handle := UDP_CLOSING\<rparr> else p)"

definition nt_resolver_mark_pair_del :: "resolver_pair \<Rightarrow> 'k rctx \<Rightarrow> 'k rctx" where
  "nt_resolver_mark_pair_del p = modify_rs (\<lambda>rs. rs\<lparr>rs_pairs_del := mark_closing p # rs_pairs_del rs, rs_idle := True\<rparr>)"

definition new_pair :: "nat \<Rightarrow> nat \<Rightarrow> sockaddr_storage \<Rightarrow> udp_handle \<Rightarrow> resolver_pair" where
  "new_pair ptr src server h = \<lparr>pr_ptr = ptr, pr_src = src, pr_server = server, pr_resolved = replicate MAX_NUM_RESOLVED None, pr_handle = h, pr_closed = False\<rparr>"

definition LDNS_PORT :: u16 where "LDNS_PORT = 53"

text \<open>Only the address of a server is copied to the pair.\<close>

fun pair_dst :: "sockaddr_storage \<Rightarrow> sockaddr_storage" where
  "pair_dst (SS_INET _ a) = SS_INET LDNS_PORT a"
| "pair_dst (SS_INET6 _ _ _ a) = SS_INET6 LDNS_PORT 0 0 a"
| "pair_dst a = a"

text \<open>
  The socket of a pair is bound to the source address and receives; that it cannot be bound to the interface is ignored. The query for the type of record of the family
  is made by ldns.
\<close>

definition neat_resolver_create_pair :: "'k resolver_env \<Rightarrow> neat_addr \<Rightarrow> 'k rctx \<Rightarrow> bool \<times> 'k rctx" where
  "neat_resolver_create_pair env a s =
     (case kernel_call (re_udp_init env) s of
        (False, s1) \<Rightarrow> (False, s1)
      | (True, s1) \<Rightarrow>
          (case kernel_call (re_udp_bind env (na_addr a)) s1 of
             (False, s2) \<Rightarrow> (False, s2)
           | (True, s2) \<Rightarrow>
               (case kernel_call (re_udp_recv_start env) s2 of
                  (False, s3) \<Rightarrow> (False, s3)
                | (True, s3) \<Rightarrow> (True, snd (kernel_call (re_bind_to_device env (na_if_idx a)) s3)))))"

definition neat_resolver_send_query :: "'k resolver_env \<Rightarrow> neat_addr \<Rightarrow> sockaddr_storage \<Rightarrow> string \<Rightarrow> 'k rctx \<Rightarrow> bool \<times> 'k rctx" where
  "neat_resolver_send_query env a dst name s =
     (case kernel_call (re_query env name (na_family a)) s of
        (None, s1) \<Rightarrow> (False, s1)
      | (Some packet, s1) \<Rightarrow> kernel_call (re_udp_send env dst packet) s1)"

text \<open>The servers of the family of the source address. The result is false when there is no memory or no query was sent.\<close>

fun create_pairs :: "'k resolver_env \<Rightarrow> nat \<Rightarrow> neat_addr \<Rightarrow> nat \<Rightarrow> string \<Rightarrow> sockaddr_storage list \<Rightarrow> bool \<Rightarrow> 'k rctx \<Rightarrow> bool \<times> 'k rctx" where
  "create_pairs env src a r name [] found s = (found, s)"
| "create_pairs env src a r name (server # ss) found s =
     (if na_family a \<noteq> sa_family server then create_pairs env src a r name ss found s
      else (case rs_calloc env s of
        (None, s1) \<Rightarrow> (False, s1)
      | (Some ptr, s1) \<Rightarrow>
          (case neat_resolver_create_pair env a s1 of
             (False, s2) \<Rightarrow> create_pairs env src a r name ss found (nt_resolver_mark_pair_del (new_pair ptr src (pair_dst server) UDP_INACTIVE) s2)
           | (True, s2) \<Rightarrow>
               (case neat_resolver_send_query env a (pair_dst server) name s2 of
                  (False, s3) \<Rightarrow> create_pairs env src a r name ss found (nt_resolver_mark_pair_del (new_pair ptr src (pair_dst server) UDP_ACTIVE) s3)
                | (True, s3) \<Rightarrow> create_pairs env src a r name ss True
                    (modify_request r (\<lambda>q. q\<lparr>rq_pairs := new_pair ptr src (pair_dst server) UDP_ACTIVE # rq_pairs q\<rparr>) s3)))))"

definition nt_resolver_create_pairs :: "'k resolver_env \<Rightarrow> nat \<Rightarrow> neat_addr \<Rightarrow> resolver_request \<Rightarrow> 'k rctx \<Rightarrow> bool \<times> 'k rctx" where
  "nt_resolver_create_pairs env src a q s =
     (if rq_domain_name q = [] then (True, s)
      else create_pairs env src a (rq_ptr q) (rq_domain_name q) (map fst (rs_servers (rs_of s))) False s)"

text \<open>The pairs of a request whose source has the address that is deleted; the interface is not compared.\<close>

definition from_addr :: "neat_addr \<Rightarrow> 'k rctx \<Rightarrow> resolver_pair \<Rightarrow> bool" where
  "from_addr a s p = (case entry (pr_src p) s of None \<Rightarrow> False | Some e \<Rightarrow> same_ip (na_addr e) (na_addr a))"

definition nt_resolver_delete_pairs :: "neat_addr \<Rightarrow> resolver_request \<Rightarrow> 'k rctx \<Rightarrow> 'k rctx" where
  "nt_resolver_delete_pairs a q s =
     fold nt_resolver_mark_pair_del (filter (from_addr a s) (rq_pairs q))
       (modify_request (rq_ptr q) (\<lambda>k. k\<lparr>rq_pairs := filter (\<lambda>p. \<not> from_addr a s p) (rq_pairs q)\<rparr>)
         (set_fault (\<exists>p \<in> set (rq_pairs q). entry (pr_src p) s = None) s))"

text \<open>The callbacks of the resolver. The entry is in the list when they are called.\<close>

definition neat_resolver_handle_newaddr :: "'k resolver_env \<Rightarrow> nat \<Rightarrow> 'k rctx \<Rightarrow> 'k rctx" where
  "neat_resolver_handle_newaddr env p s =
     (case entry p s of
        None \<Rightarrow> set_fault True s
      | Some a \<Rightarrow>
          if deprecated a then s
          else fold (\<lambda>q s. if rq_family q \<noteq> 0 \<and> rq_family q \<noteq> na_family a \<or> rq_is_literal q then s
                           else snd (nt_resolver_create_pairs env p a q s)) (rs_request_queue (rs_of s)) s)"

definition neat_resolver_handle_deladdr :: "nat \<Rightarrow> 'k rctx \<Rightarrow> 'k rctx" where
  "neat_resolver_handle_deladdr p s =
     (case entry p s of
        None \<Rightarrow> set_fault True s
      | Some a \<Rightarrow> fold (nt_resolver_delete_pairs a) (rs_request_queue (rs_of s)) s)"

text \<open>The context with the resolver: its two callbacks are known by their addresses; callbacks of others do not touch the resolver.\<close>

definition newaddr_cb :: nat where "newaddr_cb = 1"
definition deladdr_cb :: nat where "deladdr_cb = 2"

definition resolver_addr_env :: "'k resolver_env \<Rightarrow> 'k rs_world addr_env" where
  "resolver_addr_env env = \<lparr>
     ae_callback = (\<lambda>event cb p s. if cb = newaddr_cb then neat_resolver_handle_newaddr env p s
                                   else if cb = deladdr_cb then neat_resolver_handle_deladdr p s else s),
     ae_calloc = (\<lambda>used w. case re_calloc env (used \<union> rs_ptrs (rw_resolver w)) (rw_kernel w) of (p, k) \<Rightarrow> (p, w\<lparr>rw_kernel := k\<rparr>))\<rparr>"

section \<open>Requests\<close>

definition nt_start_request :: "'k resolver_env \<Rightarrow> resolver_request \<Rightarrow> 'k rctx \<Rightarrow> bool \<times> 'k rctx" where
  "nt_start_request env q s =
     (if rq_is_literal q \<or> rq_is_localhost q then (True, modify_request (rq_ptr q) (\<lambda>k. k\<lparr>rq_timer := Some DNS_LITERAL_TIMEOUT\<rparr>) s)
      else (let s1 = modify_request (rq_ptr q) (\<lambda>k. k\<lparr>rq_timer := Some (rs_dns_t1 (rs_of s))\<rparr>) s
            in if nc_src_addr_cnt s1 = 0 then (False, s1)
               else fold (\<lambda>e (found, s). if rq_family q \<noteq> 0 \<and> na_family (snd e) \<noteq> rq_family q \<or> deprecated (snd e) then (found, s)
                                          else (case nt_resolver_create_pairs env (fst e) (snd e) q s of (ok, s') \<Rightarrow> (found \<or> ok, s')))
                      (nc_src_addrs s1) (False, s1)))"

definition nt_resolve :: "'k resolver_env \<Rightarrow> u8 \<Rightarrow> string \<Rightarrow> u16 \<Rightarrow> 'k rctx \<Rightarrow> bool \<times> 'k rctx" where
  "nt_resolve env family node port s =
     (if port = 0 \<or> family \<noteq> AF_UNSPEC \<and> family \<noteq> AF_INET \<and> family \<noteq> AF_INET6 \<or> MAX_DOMAIN_LENGTH < length node + 1 then (False, s)
      else (case rs_calloc env s of
        (None, s1) \<Rightarrow> (False, s1)
      | (Some ptr, s1) \<Rightarrow>
          (let localhost = (node = ''localhost'');
               (literal, family1) = (if localhost then (0, family) else nt_resolver_helpers_check_for_literal env family node)
           in if literal < 0 then (False, s1)
              else (let q = \<lparr>rq_ptr = ptr, rq_dst_port = port, rq_family = family1, rq_name_resolved_timeout = False, rq_domain_name = node, rq_pairs = [],
                             rq_timer = None, rq_is_literal = (literal \<noteq> 0), rq_is_localhost = localhost, rq_freed = False\<rparr>
                    in nt_start_request env q (modify_rs (\<lambda>rs. rs\<lparr>rs_request_queue := rs_request_queue rs @ [q]\<rparr>) s1)))))"

definition nt_resolver_request_cleanup :: "nat \<Rightarrow> 'k rctx \<Rightarrow> 'k rctx" where
  "nt_resolver_request_cleanup r s =
     (case find_request r s of
        None \<Rightarrow> s
      | Some q \<Rightarrow> modify_rs (\<lambda>rs. rs\<lparr>rs_request_queue := remove1 q (rs_request_queue rs),
                                     rs_dead_requests := q\<lparr>rq_pairs := [], rq_timer := None\<rparr> # rs_dead_requests rs\<rparr>)
                    (fold nt_resolver_mark_pair_del (rq_pairs q) s))"

section \<open>Results\<close>

fun localhost_results :: "'k resolver_env \<Rightarrow> u16 \<Rightarrow> neat_addr list \<Rightarrow> resolver_res list \<Rightarrow> 'k rctx \<Rightarrow> resolver_res list \<times> 'k rctx" where
  "localhost_results env port [] rs s = (rs, s)"
| "localhost_results env port (a # as) rs s =
     (if deprecated a then localhost_results env port as rs s
      else (case inet_pton env (na_family a) (if na_family a = AF_INET then ''127.0.0.1'' else ''::1'') of
              None \<Rightarrow> localhost_results env port as rs s
            | Some dst \<Rightarrow> (case nt_resolver_helpers_fill_results env port a dst rs s of (rs1, s1) \<Rightarrow> localhost_results env port as rs1 s1)))"

fun literal_sources :: "'k resolver_env \<Rightarrow> u16 \<Rightarrow> u8 \<Rightarrow> sockaddr_storage \<Rightarrow> neat_addr list \<Rightarrow> resolver_res list \<Rightarrow> 'k rctx \<Rightarrow> resolver_res list \<times> 'k rctx" where
  "literal_sources env port family dst [] rs s = (rs, s)"
| "literal_sources env port family dst (a # as) rs s =
     (if na_family a \<noteq> family \<or> deprecated a then literal_sources env port family dst as rs s
      else (case nt_resolver_helpers_fill_results env port a dst rs s of (rs1, s1) \<Rightarrow> literal_sources env port family dst as rs1 s1))"

fun literal_results :: "'k resolver_env \<Rightarrow> u16 \<Rightarrow> u8 \<Rightarrow> string list \<Rightarrow> resolver_res list \<Rightarrow> 'k rctx \<Rightarrow> resolver_res list \<times> 'k rctx" where
  "literal_results env port family [] rs s = (rs, s)"
| "literal_results env port family (t # ts) rs s =
     (case inet_pton env family t of
        None \<Rightarrow> literal_results env port family ts rs s
      | Some dst \<Rightarrow> (case literal_sources env port family dst (map snd (nc_src_addrs s)) rs s of (rs1, s1) \<Rightarrow> literal_results env port family ts rs1 s1))"

fun pair_results :: "'k resolver_env \<Rightarrow> u16 \<Rightarrow> neat_addr \<Rightarrow> sockaddr_storage list \<Rightarrow> resolver_res list \<Rightarrow> 'k rctx \<Rightarrow> resolver_res list \<times> 'k rctx" where
  "pair_results env port a [] rs s = (rs, s)"
| "pair_results env port a (dst # ds) rs s =
     (if deprecated a then (rs, s)
      else (case nt_resolver_helpers_fill_results env port a dst rs s of (rs1, s1) \<Rightarrow> pair_results env port a ds rs1 s1))"

fun nt_resolver_populate_results :: "'k resolver_env \<Rightarrow> u16 \<Rightarrow> resolver_pair list \<Rightarrow> resolver_res list \<Rightarrow> 'k rctx \<Rightarrow> resolver_res list \<times> 'k rctx" where
  "nt_resolver_populate_results env port [] rs s = (rs, s)"
| "nt_resolver_populate_results env port (p # ps) rs s =
     (if resolved_list p = [] then nt_resolver_populate_results env port ps rs s
      else (case entry (pr_src p) s of
              None \<Rightarrow> nt_resolver_populate_results env port ps rs (set_fault True s)
            | Some a \<Rightarrow> (case pair_results env port a (resolved_list p) rs s of (rs1, s1) \<Rightarrow> nt_resolver_populate_results env port ps rs1 s1)))"

definition nt_resolver_literal_populate_results :: "'k resolver_env \<Rightarrow> resolver_request \<Rightarrow> 'k rctx \<Rightarrow> resolver_res list \<times> 'k rctx" where
  "nt_resolver_literal_populate_results env q s =
     (case rs_calloc env s of
        (None, s1) \<Rightarrow> ([], s1)
      | (Some _, s1) \<Rightarrow> literal_results env (rq_dst_port q) (rq_family q) (strtok '','' (rq_domain_name q)) [] s1)"

definition request_results :: "'k resolver_env \<Rightarrow> resolver_request \<Rightarrow> 'k rctx \<Rightarrow> resolver_res list \<times> 'k rctx" where
  "request_results env q s =
     (if rq_is_literal q then nt_resolver_literal_populate_results env q s
      else if rq_is_localhost q then localhost_results env (rq_dst_port q) (map snd (nc_src_addrs s)) [] s
      else nt_resolver_populate_results env (rq_dst_port q) (rq_pairs q) [] s)"

definition give_result :: "'k resolver_env \<Rightarrow> nat \<Rightarrow> resolve_result \<Rightarrow> 'k rctx \<Rightarrow> 'k rctx" where
  "give_result env r result s = snd (kernel_call (\<lambda>k. ((), re_result env r result k)) s)"

text \<open>The timer of a request has fired.\<close>

definition nt_resolver_timeout_shared :: "'k resolver_env \<Rightarrow> nat \<Rightarrow> 'k rctx \<Rightarrow> 'k rctx" where
  "nt_resolver_timeout_shared env r s0 =
     (case find_request r s0 of
        None \<Rightarrow> s0
      | Some q \<Rightarrow>
          (let s = modify_request r (\<lambda>k. k\<lparr>rq_timer := None\<rparr>) s0; fixed = (rq_is_literal q \<or> rq_is_localhost q)
           in if rs_free_resolver (rs_of s) then s
              else if \<not> fixed \<and> \<not> rq_name_resolved_timeout q
              then nt_resolver_request_cleanup r (give_result env r NEAT_RESOLVER_TIMEOUT s)
              else if fixed \<and> nc_src_addr_cnt s = 0
              then (if nc_src_addr_dump_done s then nt_resolver_request_cleanup r (give_result env r NEAT_RESOLVER_ERROR s)
                    else modify_request r (\<lambda>k. k\<lparr>rq_timer := Some DNS_ADDRESS_TIMEOUT\<rparr>) s)
              else (case rs_calloc env s of
                      (None, s1) \<Rightarrow> nt_resolver_request_cleanup r (give_result env r NEAT_RESOLVER_ERROR s1)
                    | (Some _, s1) \<Rightarrow>
                        (case request_results env q s1 of (rs, s2) \<Rightarrow>
                           nt_resolver_request_cleanup r (give_result env r (if rs = [] then NEAT_RESOLVER_ERROR else NEAT_RESOLVER_OK rs) s2)))))"

section \<open>Replies\<close>

text \<open>
  A datagram that ldns cannot parse, one with an error code, or the records of type A and of type AAAA of the answer as text. \<^const>\<open>None\<close> stands for a record
  for which there is no memory.
\<close>

datatype dns_reply = DNS_INVALID | DNS_RCODE | DNS_RECORDS "string option list" "string option list"

fun records_of :: "u8 \<Rightarrow> dns_reply \<Rightarrow> string option list" where
  "records_of family (DNS_RECORDS a aaaa) = (if family = AF_INET then a else aaaa)"
| "records_of family _ = []"

definition nt_resolver_start_timeout :: "nat \<Rightarrow> 'k rctx \<Rightarrow> 'k rctx" where
  "nt_resolver_start_timeout r s = modify_request r (\<lambda>q. q\<lparr>rq_timer := Some (rs_dns_t2 (rs_of s)), rq_name_resolved_timeout := True\<rparr>) s"

definition set_resolved :: "nat \<Rightarrow> nat \<Rightarrow> nat \<Rightarrow> sockaddr_storage \<Rightarrow> 'k rctx \<Rightarrow> 'k rctx" where
  "set_resolved r p i a = modify_request r (\<lambda>q. q\<lparr>rq_pairs := map (\<lambda>k. if pr_ptr k = p then k\<lparr>pr_resolved := (pr_resolved k)[i := Some a]\<rparr> else k) (rq_pairs q)\<rparr>)"

text \<open>The records go to the places from 0 on, whatever a reply before has stored there.\<close>

fun store_records :: "'k resolver_env \<Rightarrow> neat_addr \<Rightarrow> nat \<Rightarrow> nat \<Rightarrow> string option list \<Rightarrow> nat \<Rightarrow> 'k rctx \<Rightarrow> nat \<times> 'k rctx" where
  "store_records env src r p [] num s = (num, s)"
| "store_records env src r p (None # ts) num s = store_records env src r p ts num s"
| "store_records env src r p (Some t # ts) num s =
     (case find_request r s of
        None \<Rightarrow> (num, s)
      | Some q \<Rightarrow>
          (case neat_resolver_helpers_check_duplicate env q src t s of (ok, dup) \<Rightarrow>
             (let s1 = set_fault (\<not> ok) s
              in if dup then store_records env src r p ts num s1
                 else (case inet_pton env (na_family src) t of
                         None \<Rightarrow> store_records env src r p ts num s1
                       | Some a \<Rightarrow> (let s2 = set_resolved r p num a s1
                                    in if MAX_NUM_RESOLVED \<le> num + 1 then (num + 1, s2) else store_records env src r p ts (num + 1) s2)))))"

text \<open>A reply on the socket of a pair of a request. A socket that is closing does not receive.\<close>

definition neat_resolver_dns_recv_cb :: "'k resolver_env \<Rightarrow> nat \<Rightarrow> nat \<Rightarrow> dns_reply \<Rightarrow> 'k rctx \<Rightarrow> 'k rctx" where
  "neat_resolver_dns_recv_cb env r p reply s =
     (case find_request r s of
        None \<Rightarrow> s
      | Some q \<Rightarrow>
          (case find (\<lambda>k. pr_ptr k = p) (rq_pairs q) of
             None \<Rightarrow> s
           | Some pr \<Rightarrow>
               (case reply of
                  DNS_INVALID \<Rightarrow> s
                | DNS_RCODE \<Rightarrow> nt_resolver_start_timeout r s
                | DNS_RECORDS a aaaa \<Rightarrow>
                    (case entry (pr_src pr) s of
                       None \<Rightarrow> set_fault True s
                     | Some src \<Rightarrow>
                         (case store_records env src r p (records_of (na_family src) reply) 0 s of (num, s1) \<Rightarrow>
                            if 0 < num \<and> \<not> rq_name_resolved_timeout q then nt_resolver_start_timeout r s1 else s1)))))"

section \<open>Handles\<close>

text \<open>A handle has been closed.\<close>

definition neat_resolver_close_cb :: "nat \<Rightarrow> 'k rctx \<Rightarrow> 'k rctx" where
  "neat_resolver_close_cb p = modify_rs (\<lambda>rs. rs\<lparr>rs_pairs_del := map (\<lambda>k. if pr_ptr k = p \<and> pr_handle k = UDP_CLOSING then k\<lparr>pr_closed := True\<rparr> else k) (rs_pairs_del rs)\<rparr>)"

text \<open>The timer of a dead request has been closed: the request is unlinked and freed.\<close>

definition neat_resolver_close_timer :: "nat \<Rightarrow> 'k rctx \<Rightarrow> 'k rctx" where
  "neat_resolver_close_timer r s =
     (case find (\<lambda>q. rq_ptr q = r) (rs_dead_requests (rs_of s)) of
        None \<Rightarrow> s
      | Some q \<Rightarrow> modify_rs (\<lambda>rs. rs\<lparr>rs_dead_requests := remove1 q (rs_dead_requests rs)\<rparr>) (set_fault (rq_freed q) s))"

definition nt_resolver_flush_pairs_del :: "'k rctx \<Rightarrow> 'k rctx" where
  "nt_resolver_flush_pairs_del = modify_rs (\<lambda>rs. rs\<lparr>rs_pairs_del := filter (\<lambda>k. \<not> pr_closed k) (rs_pairs_del rs)\<rparr>)"

text \<open>
  The loop that frees the dead requests follows \<open>next_req\<close>, which \<^const>\<open>nt_resolver_request_cleanup\<close> has set to \<open>NULL\<close>: it frees the first one only,
  and again in each call.
\<close>

definition free_dead_requests :: "'k rctx \<Rightarrow> 'k rctx" where
  "free_dead_requests s =
     (case rs_dead_requests (rs_of s) of
        [] \<Rightarrow> s
      | q # qs \<Rightarrow> modify_rs (\<lambda>rs. rs\<lparr>rs_dead_requests := q\<lparr>rq_freed := True\<rparr> # qs\<rparr>) (set_fault (rq_freed q) s))"

definition neat_resolver_idle_cb :: "'k rctx \<Rightarrow> 'k rctx" where
  "neat_resolver_idle_cb s0 =
     (let s = nt_resolver_flush_pairs_del s0
      in if rs_pairs_del (rs_of s) \<noteq> [] then s
         else if \<not> rs_free_resolver (rs_of s) then modify_rs (\<lambda>rs. rs\<lparr>rs_idle := False\<rparr>) s
         else (let s1 = free_dead_requests s
               in if \<not> rs_fs_event_closed (rs_of s1) then s1 else modify_rs (\<lambda>rs. rs\<lparr>rs_idle := False\<rparr>) s1))"

definition neat_resolver_conf_close_cb :: "'k rctx \<Rightarrow> 'k rctx" where
  "neat_resolver_conf_close_cb = modify_rs (\<lambda>rs. rs\<lparr>rs_fs_event_closed := True\<rparr>)"

section \<open>Servers\<close>

definition nt_resolver_reset_mark :: "'k rctx \<Rightarrow> 'k rctx" where
  "nt_resolver_reset_mark = modify_rs (\<lambda>rs. rs\<lparr>rs_servers :=
     map (\<lambda>(a, m). (a, if m \<noteq> NEAT_RESOLVER_SERVER_STATIC then NEAT_RESOLVER_SERVER_DELETE else m)) (rs_servers rs)\<rparr>)"

definition nt_resolver_delete_servers :: "'k rctx \<Rightarrow> 'k rctx" where
  "nt_resolver_delete_servers = modify_rs (\<lambda>rs. rs\<lparr>rs_servers := filter (\<lambda>(a, m). m \<noteq> NEAT_RESOLVER_SERVER_DELETE) (rs_servers rs)\<rparr>)"

fun mark_active :: "sockaddr_storage \<Rightarrow> (sockaddr_storage \<times> server_mark) list \<Rightarrow> (sockaddr_storage \<times> server_mark) list option" where
  "mark_active dst [] = None"
| "mark_active dst ((a, m) # ss) =
     (if same_ip a dst then Some ((a, NEAT_RESOLVER_SERVER_ACTIVE) # ss) else map_option (\<lambda>ts. (a, m) # ts) (mark_active dst ss))"

definition add_server :: "sockaddr_storage \<Rightarrow> server_mark \<Rightarrow> 'k rctx \<Rightarrow> 'k rctx" where
  "add_server a m = modify_rs (\<lambda>rs. rs\<lparr>rs_servers := (a, m) # rs_servers rs\<rparr>)"

definition nt_resolver_resolv_check_addr :: "'k resolver_env \<Rightarrow> sockaddr_storage \<Rightarrow> 'k rctx \<Rightarrow> 'k rctx" where
  "nt_resolver_resolv_check_addr env dst s =
     (case mark_active dst (rs_servers (rs_of s)) of
        Some ss \<Rightarrow> modify_rs (\<lambda>rs. rs\<lparr>rs_servers := ss\<rparr>) s
      | None \<Rightarrow> (case rs_calloc env s of
                   (None, s1) \<Rightarrow> s1
                 | (Some _, s1) \<Rightarrow> add_server dst NEAT_RESOLVER_SERVER_ACTIVE s1))"

text \<open>\<open>fgets\<close> with a buffer of 1024: a line with its end, or 1023 characters of it; the string ends at the first zero.\<close>

definition fgets_line :: "string \<Rightarrow> string" where
  "fgets_line cs = take (min 1023 (length (takeWhile (\<lambda>c. c \<noteq> CHR 0x0A) cs) + 1)) cs"

function fgets_lines :: "string \<Rightarrow> string list" where
  "fgets_lines [] = []"
| "fgets_lines (c # cs) = takeWhile (\<lambda>c. c \<noteq> CHR 0x00) (fgets_line (c # cs)) # fgets_lines (drop (length (fgets_line (c # cs))) (c # cs))"
  by pat_completeness auto
termination
  by (relation "measure length") (auto simp: fgets_line_def)

text \<open>One line of \<open>resolv.conf\<close>. The port and the scope, which the code leaves uninitialised, are never read.\<close>

definition nameserver_line :: "'k resolver_env \<Rightarrow> string \<Rightarrow> 'k rctx \<Rightarrow> 'k rctx" where
  "nameserver_line env line s =
     (case strtok [CHR '' '', CHR 0x09, CHR 0x0D, CHR 0x0A] line of
        key # token # _ \<Rightarrow>
          if key \<noteq> ''nameserver'' \<and> key \<noteq> ''server'' then s
          else (case re_pton4 env token of
                  Some a \<Rightarrow> nt_resolver_resolv_check_addr env (SS_INET 0 a) s
                | None \<Rightarrow> (case re_pton6 env token of
                             Some a \<Rightarrow> nt_resolver_resolv_check_addr env (SS_INET6 0 0 0 a) s
                           | None \<Rightarrow> s))
      | _ \<Rightarrow> s)"

text \<open>The file has changed; it is read when it can be opened.\<close>

definition nt_resolver_resolv_conf_updated :: "'k resolver_env \<Rightarrow> 'k rctx \<Rightarrow> 'k rctx" where
  "nt_resolver_resolv_conf_updated env s =
     (case kernel_call (re_resolv_conf env) s of
        (None, s1) \<Rightarrow> s1
      | (Some content, s1) \<Rightarrow> nt_resolver_delete_servers (fold (nameserver_line env) (fgets_lines content) (nt_resolver_reset_mark s1)))"

definition INET_DNS_SERVERS :: "string list" where
  "INET_DNS_SERVERS = [''8.8.8.8'', ''8.8.4.4'', ''208.67.222.222'', ''208.67.220.220'']"

definition INET6_DNS_SERVERS :: "string list" where
  "INET6_DNS_SERVERS = [''2001:4860:4860::8888'', ''2001:4860:4860::8844'', ''2620:0:ccc::2'', ''2620:0:ccd::2'']"

text \<open>The servers of a table; false when there is no memory. The second table is read with \<open>AF_INET\<close> too, so what is found are four bytes.\<close>

fun static_servers :: "'k resolver_env \<Rightarrow> (u32 \<Rightarrow> sockaddr_storage) \<Rightarrow> string list \<Rightarrow> 'k rctx \<Rightarrow> bool \<times> 'k rctx" where
  "static_servers env mk [] s = (True, s)"
| "static_servers env mk (t # ts) s =
     (case re_pton4 env t of
        None \<Rightarrow> static_servers env mk ts s
      | Some a \<Rightarrow> (case rs_calloc env s of
                    (None, s1) \<Rightarrow> (False, s1)
                  | (Some _, s1) \<Rightarrow> static_servers env mk ts (add_server (mk a) NEAT_RESOLVER_SERVER_STATIC s1)))"

definition bytes_of_u32 :: "u32 \<Rightarrow> u8 list" where
  "bytes_of_u32 w = [ucast (drop_bit 24 w), ucast (drop_bit 16 w), ucast (drop_bit 8 w), ucast w]"

definition neat_resolver_add_initial_servers :: "'k resolver_env \<Rightarrow> 'k rctx \<Rightarrow> bool \<times> 'k rctx" where
  "neat_resolver_add_initial_servers env s =
     (case static_servers env (SS_INET 0) INET_DNS_SERVERS (modify_rs (\<lambda>rs. rs\<lparr>rs_servers := []\<rparr>) s) of
        (False, s1) \<Rightarrow> (False, s1)
      | (True, s1) \<Rightarrow>
          (case static_servers env (\<lambda>a. SS_INET6 0 0 0 (bytes_of_u32 a @ replicate 12 0)) INET6_DNS_SERVERS s1 of
             (False, s2) \<Rightarrow> (False, s2)
           | (True, s2) \<Rightarrow> (True, nt_resolver_resolv_conf_updated env s2)))"

section \<open>Start and end\<close>

definition new_resolver :: resolver where
  "new_resolver = \<lparr>rs_dns_t1 = DNS_TIMEOUT, rs_dns_t2 = DNS_RESOLVED_TIMEOUT, rs_free_resolver = False, rs_fs_event_closed = False, rs_servers = [],
     rs_pairs_del = [], rs_idle = False, rs_request_queue = [], rs_dead_requests = [], rs_fault = False\<rparr>"

text \<open>Whether there is a resolver. A failure of \<open>uv_fs_event_start\<close> is only logged.\<close>

definition nt_resolver_init :: "'k resolver_env \<Rightarrow> 'k rctx \<Rightarrow> bool \<times> 'k rctx" where
  "nt_resolver_init env s =
     (case rs_calloc env s of
        (None, s1) \<Rightarrow> (False, s1)
      | (Some _, s1) \<Rightarrow>
          (case nt_add_event_cb (resolver_addr_env env) NEAT_NEWADDR newaddr_cb (modify_rs (\<lambda>_. new_resolver) s1) of
             (False, s2) \<Rightarrow> (False, s2)
           | (True, s2) \<Rightarrow>
               (case nt_add_event_cb (resolver_addr_env env) NEAT_DELADDR deladdr_cb s2 of
                  (False, s3) \<Rightarrow> (False, s3)
                | (True, s3) \<Rightarrow>
                    (case kernel_call (re_fs_event_init env) s3 of
                       (False, s4) \<Rightarrow> (False, s4)
                     | (True, s4) \<Rightarrow> neat_resolver_add_initial_servers env s4))))"

definition nt_resolver_cleanup :: "'k rctx \<Rightarrow> 'k rctx" where
  "nt_resolver_cleanup s =
     (let s1 = fold nt_resolver_request_cleanup (map rq_ptr (rs_request_queue (rs_of s))) s;
          s2 = snd (nt_remove_event_cb NEAT_DELADDR deladdr_cb (snd (nt_remove_event_cb NEAT_NEWADDR newaddr_cb s1)))
      in modify_rs (\<lambda>rs. rs\<lparr>rs_servers := []\<rparr>) s2)"

definition nt_resolver_release :: "'k rctx \<Rightarrow> 'k rctx" where
  "nt_resolver_release s = modify_rs (\<lambda>rs. rs\<lparr>rs_idle := True\<rparr>) (nt_resolver_cleanup (modify_rs (\<lambda>rs. rs\<lparr>rs_free_resolver := True\<rparr>) s))"

definition nt_resolver_update_timeouts :: "u16 \<Rightarrow> u16 \<Rightarrow> 'k rctx \<Rightarrow> 'k rctx" where
  "nt_resolver_update_timeouts t1 t2 = modify_rs (\<lambda>rs. rs\<lparr>rs_dns_t1 := t1, rs_dns_t2 := t2\<rparr>)"

section \<open>Runs\<close>

text \<open>What happens to the addresses of a context and its resolver until it is released, in any order.\<close>

inductive rs_step :: "'k resolver_env \<Rightarrow> 'k rctx \<Rightarrow> 'k rctx \<Rightarrow> bool" for env where
  rs_addr: "rs_step env s (snd (nt_addr_update_src_list (resolver_addr_env env) a i new len pref valid s))"
| rs_lifetime: "rs_step env s (nt_addr_lifetime_timeout_cb (resolver_addr_env env) s)"
| rs_resolve: "rs_step env s (snd (nt_resolve env family node port s))"
| rs_timeout: "find_request r s = Some q \<Longrightarrow> rq_timer q \<noteq> None \<Longrightarrow> rs_step env s (nt_resolver_timeout_shared env r s)"
| rs_reply: "rs_step env s (neat_resolver_dns_recv_cb env r p reply s)"
| rs_closed: "rs_step env s (neat_resolver_close_cb p s)"
| rs_timer_closed: "rs_step env s (neat_resolver_close_timer r s)"
| rs_idle: "rs_idle (rs_of s) \<Longrightarrow> rs_step env s (neat_resolver_idle_cb s)"
| rs_conf: "rs_step env s (nt_resolver_resolv_conf_updated env s)"
| rs_timeouts: "rs_step env s (nt_resolver_update_timeouts t1 t2 s)"

text \<open>What the loop of \<open>neat_free_ctx\<close> runs after the release of the resolver.\<close>

inductive rs_end_step :: "'k rctx \<Rightarrow> 'k rctx \<Rightarrow> bool" where
  end_closed: "rs_end_step s (neat_resolver_close_cb p s)"
| end_timer_closed: "rs_end_step s (neat_resolver_close_timer r s)"
| end_conf_closed: "rs_end_step s (neat_resolver_conf_close_cb s)"
| end_idle: "rs_idle (rs_of s) \<Longrightarrow> rs_end_step s (neat_resolver_idle_cb s)"

end
