(* ===== verification/Resolver_Safe.thy ===== *)
theory Resolver_Safe
  imports Resolver
begin

text \<open>
  The resolver keeps its contract as a listener of the addresses, and an invariant of its requests and pairs: pairs point to entries that are in the list,
  every request in the queue has a running timer, and what has been put aside is freed by an idle handle that is active. It follows that no step before the release
  of the resolver uses memory that has been freed.
\<close>

section \<open>What the operations leave alone\<close>

definition addr_side :: "'w neat_ctx \<Rightarrow> (nat \<times> neat_addr) list \<times> u8 \<times> bool \<times> (u8 \<Rightarrow> nat list) option" where
  "addr_side s = (nc_src_addrs s, nc_src_addr_cnt s, nc_src_addr_dump_done s, nc_event_cbs s)"

lemma addr_side_D:
  assumes "addr_side s' = addr_side s"
  shows "nc_src_addrs s' = nc_src_addrs s" "nc_src_addr_cnt s' = nc_src_addr_cnt s" "nc_event_cbs s' = nc_event_cbs s" "entry p s' = entry p s" "entry_ptrs s' = entry_ptrs s"
  using assms by (simp_all add: addr_side_def entry_def entry_ptrs_def)

named_theorems side_simps \<open>the addresses and callbacks are left alone\<close>

lemma modify_rs_side [side_simps]: "addr_side (modify_rs g s) = addr_side s" "rs_of (modify_rs g s) = g (rs_of s)"
  by (simp_all add: addr_side_def modify_rs_def rs_of_def)

lemma kernel_call_same:
  assumes "kernel_call g s = (x, s1)"
  shows "addr_side s1 = addr_side s" "rs_of s1 = rs_of s"
  using assms by (auto simp: kernel_call_def addr_side_def rs_of_def split: prod.splits)

lemma kernel_call_side [side_simps]: "addr_side (snd (kernel_call g s)) = addr_side s" "rs_of (snd (kernel_call g s)) = rs_of s"
  using kernel_call_same by (metis prod.collapse)+

lemma rs_calloc_same:
  assumes "rs_calloc env s = (x, s1)"
  shows "addr_side s1 = addr_side s" "rs_of s1 = rs_of s"
  using kernel_call_same [OF assms [unfolded rs_calloc_def]] by simp_all

lemma create_pair_same:
  assumes "neat_resolver_create_pair env a s = (ok, s')"
  shows "addr_side s' = addr_side s" "rs_of s' = rs_of s"
proof -
  obtain ok1 s1 where 1: "kernel_call (re_udp_init env) s = (ok1, s1)" by fastforce
  obtain ok2 s2 where 2: "kernel_call (re_udp_bind env (na_addr a)) s1 = (ok2, s2)" by fastforce
  obtain ok3 s3 where 3: "kernel_call (re_udp_recv_start env) s2 = (ok3, s3)" by fastforce
  show "addr_side s' = addr_side s" "rs_of s' = rs_of s"
    using assms 1 2 3 kernel_call_same [OF 1] kernel_call_same [OF 2] kernel_call_same [OF 3]
    by (auto simp: neat_resolver_create_pair_def side_simps split: bool.splits)
qed

lemma send_query_same:
  assumes "neat_resolver_send_query env a dst name s = (ok, s')"
  shows "addr_side s' = addr_side s" "rs_of s' = rs_of s"
proof -
  obtain q s1 where 1: "kernel_call (re_query env name (na_family a)) s = (q, s1)" by fastforce
  show "addr_side s' = addr_side s" "rs_of s' = rs_of s"
    using assms 1 kernel_call_same [OF 1] kernel_call_same [of "re_udp_send env dst (the q)" s1 ok s']
    by (auto simp: neat_resolver_send_query_def split: option.splits)
qed

lemma op_side [side_simps]:
  "addr_side (modify_request r g s) = addr_side s"
  "addr_side (set_fault b s) = addr_side s"
  "addr_side (nt_resolver_mark_pair_del p s) = addr_side s"
  "addr_side (nt_resolver_start_timeout r s) = addr_side s"
  "addr_side (set_resolved r q i a s) = addr_side s"
  "addr_side (give_result env r res s) = addr_side s"
  by (simp_all add: modify_request_def set_fault_def nt_resolver_mark_pair_del_def nt_resolver_start_timeout_def set_resolved_def give_result_def side_simps)

lemma fold_side:
  assumes "\<And>x s. addr_side (g x s) = addr_side s"
  shows "addr_side (fold g xs s) = addr_side s"
  by (induction xs arbitrary: s) (simp_all add: assms)

lemma create_pairs_side [side_simps]: "addr_side (snd (create_pairs env src a r name ss found s)) = addr_side s"
proof (induction ss arbitrary: found s)
  case (Cons server ss)
  show ?case
  proof (cases "na_family a = sa_family server")
    case True
    obtain p s1 where 1: "rs_calloc env s = (p, s1)" by fastforce
    obtain ok s2 where 2: "neat_resolver_create_pair env a s1 = (ok, s2)" by fastforce
    obtain sent s3 where 3: "neat_resolver_send_query env a (pair_dst server) name s2 = (sent, s3)" by fastforce
    have "addr_side s1 = addr_side s" "addr_side s2 = addr_side s" "addr_side s3 = addr_side s"
      using rs_calloc_same [OF 1] create_pair_same [OF 2] send_query_same [OF 3] by simp_all
    then show ?thesis using True 1 2 3 Cons.IH by (cases p; cases ok; cases sent) (simp_all add: side_simps)
  qed (simp add: Cons.IH)
qed simp

lemma nt_resolver_create_pairs_side [side_simps]: "addr_side (snd (nt_resolver_create_pairs env src a q s)) = addr_side s"
  by (simp add: nt_resolver_create_pairs_def side_simps)

lemma handlers_side [side_simps]:
  "addr_side (nt_resolver_delete_pairs a q s) = addr_side s"
  "addr_side (neat_resolver_handle_newaddr env p s) = addr_side s"
  "addr_side (neat_resolver_handle_deladdr p s) = addr_side s"
proof -
  show del: "addr_side (nt_resolver_delete_pairs a q s) = addr_side s" for a :: neat_addr and q and s :: "'z rctx"
    by (simp add: nt_resolver_delete_pairs_def fold_side side_simps)
  show "addr_side (neat_resolver_handle_newaddr env p s) = addr_side s"
    by (auto simp: neat_resolver_handle_newaddr_def side_simps split: option.split intro!: fold_side)
  show "addr_side (neat_resolver_handle_deladdr p s) = addr_side s"
    by (auto simp: neat_resolver_handle_deladdr_def side_simps del split: option.split intro!: fold_side)
qed

interpretation resolver_listener: listener "resolver_addr_env env" for env :: "'k resolver_env"
proof
  fix event cb p and s :: "'k rctx"
  have "addr_side (ae_callback (resolver_addr_env env) event cb p s) = addr_side s"
    by (simp add: resolver_addr_env_def side_simps)
  then show "nc_src_addrs (ae_callback (resolver_addr_env env) event cb p s) = nc_src_addrs s"
    "nc_src_addr_cnt (ae_callback (resolver_addr_env env) event cb p s) = nc_src_addr_cnt s"
    "nc_event_cbs (ae_callback (resolver_addr_env env) event cb p s) = nc_event_cbs s"
    by (simp_all add: addr_side_def)
qed


section \<open>The invariant\<close>

definition pair_ok :: "nat set \<Rightarrow> resolver_pair \<Rightarrow> bool" where
  "pair_ok E p = (pr_src p \<in> E \<and> pr_handle p = UDP_ACTIVE \<and> \<not> pr_closed p \<and> length (pr_resolved p) = MAX_NUM_RESOLVED)"

definition del_ok :: "resolver_pair \<Rightarrow> bool" where
  "del_ok p = (pr_handle p \<noteq> UDP_ACTIVE \<and> (pr_closed p \<longrightarrow> pr_handle p = UDP_CLOSING))"

text \<open>The set \<open>X\<close> has the requests whose timer need not run at the moment.\<close>

definition request_ok :: "nat set \<Rightarrow> nat set \<Rightarrow> resolver_request \<Rightarrow> bool" where
  "request_ok X E q = ((rq_ptr q \<notin> X \<longrightarrow> rq_timer q \<noteq> None) \<and> \<not> rq_freed q \<and> (\<forall>p \<in> set (rq_pairs q). pair_ok E p))"

definition resolver_ok :: "nat set \<Rightarrow> nat set \<Rightarrow> resolver \<Rightarrow> bool" where
  "resolver_ok X E rs =
     (distinct (map rq_ptr (rs_request_queue rs)) \<and> (\<forall>q \<in> set (rs_request_queue rs). request_ok X E q) \<and> (\<forall>p \<in> set (rs_pairs_del rs). del_ok p)
      \<and> (rs_pairs_del rs \<noteq> [] \<longrightarrow> rs_idle rs) \<and> (\<forall>q \<in> set (rs_dead_requests rs). \<not> rq_freed q) \<and> \<not> rs_free_resolver rs \<and> \<not> rs_fault rs)"

definition ctx_ok :: "nat set \<Rightarrow> 'k rctx \<Rightarrow> bool" where
  "ctx_ok X s = resolver_ok X (entry_ptrs s) (rs_of s)"

text \<open>The callbacks are registered, and the addresses are well-formed.\<close>

definition rs_inv :: "'k rctx \<Rightarrow> bool" where
  "rs_inv s = (addrs_wf s \<and> ctx_ok {} s \<and> (\<exists>cbs. nc_event_cbs s = Some cbs \<and> deladdr_cb \<in> set (cbs NEAT_DELADDR) \<and> newaddr_cb \<notin> set (cbs NEAT_DELADDR)))"

lemma ctx_ok_same: "addr_side s' = addr_side s \<Longrightarrow> rs_of s' = rs_of s \<Longrightarrow> ctx_ok X s' = ctx_ok X s"
  by (simp add: ctx_ok_def addr_side_def entry_ptrs_def)

lemma ctx_ok_modify_rs [intro?]: "resolver_ok X (entry_ptrs s) (g (rs_of s)) \<Longrightarrow> ctx_ok X (modify_rs g s)"
  by (simp add: ctx_ok_def side_simps addr_side_D(5) [OF modify_rs_side(1)])

named_theorems ok_intros \<open>the invariant is preserved\<close>

lemma mark_pair_del_ok [ok_intros]:
  assumes "ctx_ok X s" "\<not> pr_closed p"
  shows "ctx_ok X (nt_resolver_mark_pair_del p s)"
  unfolding nt_resolver_mark_pair_del_def
  by (rule ctx_ok_modify_rs) (use assms in \<open>auto simp: ctx_ok_def resolver_ok_def del_ok_def mark_closing_def\<close>)

lemma fold_mark_pair_del_ok:
  assumes "ctx_ok X s" "\<forall>p \<in> set ps. \<not> pr_closed p"
  shows "ctx_ok X (fold nt_resolver_mark_pair_del ps s)"
  using assms by (induction ps arbitrary: s) (auto intro: mark_pair_del_ok)

lemma resolver_ok_queue:
  assumes "resolver_ok X E rs" "map rq_ptr qs = map rq_ptr (rs_request_queue rs)" "\<forall>q \<in> set qs. request_ok Y E q"
  shows "resolver_ok Y E (rs\<lparr>rs_request_queue := qs\<rparr>)"
  using assms by (simp add: resolver_ok_def)

lemma modify_request_ok [ok_intros]:
  assumes "ctx_ok X s" "\<And>q. rq_ptr (g q) = rq_ptr q" "\<And>q. request_ok X (entry_ptrs s) q \<Longrightarrow> rq_ptr q = r \<Longrightarrow> request_ok Y (entry_ptrs s) (g q)" "X - {r} \<subseteq> Y"
  shows "ctx_ok Y (modify_request r g s)"
  unfolding modify_request_def
proof (rule ctx_ok_modify_rs, rule resolver_ok_queue)
  show "resolver_ok X (entry_ptrs s) (rs_of s)" using assms(1) by (simp add: ctx_ok_def)
  show "map rq_ptr (map (\<lambda>q. if rq_ptr q = r then g q else q) (rs_request_queue (rs_of s))) = map rq_ptr (rs_request_queue (rs_of s))" by (simp add: assms(2))
  have "request_ok Y (entry_ptrs s) (if rq_ptr q = r then g q else q)" if "q \<in> set (rs_request_queue (rs_of s))" for q
  proof (cases "rq_ptr q = r")
    case True
    then show ?thesis using assms(1,3) that by (simp add: ctx_ok_def resolver_ok_def)
  next
    case False
    have "request_ok X (entry_ptrs s) q" using assms(1) that by (simp add: ctx_ok_def resolver_ok_def)
    then show ?thesis using False assms(4) by (auto simp: request_ok_def)
  qed
  then show "\<forall>q \<in> set (map (\<lambda>q. if rq_ptr q = r then g q else q) (rs_request_queue (rs_of s))). request_ok Y (entry_ptrs s) q"
    unfolding set_map by blast
qed

lemma set_fault_ok [ok_intros]: "ctx_ok X s \<Longrightarrow> \<not> b \<Longrightarrow> ctx_ok X (set_fault b s)"
  unfolding set_fault_def by (rule ctx_ok_modify_rs) (simp add: ctx_ok_def resolver_ok_def)

lemma new_pair_ok: "src \<in> E \<Longrightarrow> pair_ok E (new_pair ptr src server UDP_ACTIVE)" "\<not> pr_closed (new_pair ptr src server h)"
  by (simp_all add: new_pair_def pair_ok_def)

lemma create_pairs_ok [ok_intros]:
  assumes "ctx_ok X s" "src \<in> entry_ptrs s"
  shows "ctx_ok X (snd (create_pairs env src a r name ss found s))"
  using assms
proof (induction ss arbitrary: found s)
  case (Cons server ss)
  show ?case
  proof (cases "na_family a = sa_family server")
    case True
    obtain p s1 where 1: "rs_calloc env s = (p, s1)" by fastforce
    obtain ok s2 where 2: "neat_resolver_create_pair env a s1 = (ok, s2)" by fastforce
    obtain sent s3 where 3: "neat_resolver_send_query env a (pair_dst server) name s2 = (sent, s3)" by fastforce
    have side: "addr_side s1 = addr_side s" "addr_side s2 = addr_side s" "addr_side s3 = addr_side s"
      and rs: "rs_of s1 = rs_of s" "rs_of s2 = rs_of s" "rs_of s3 = rs_of s"
      using rs_calloc_same [OF 1] create_pair_same [OF 2] send_query_same [OF 3] by simp_all
    have ok: "ctx_ok X s1" "ctx_ok X s2" "ctx_ok X s3" using Cons.prems(1) ctx_ok_same side rs by blast+
    have E: "src \<in> entry_ptrs s1" "src \<in> entry_ptrs s2" "src \<in> entry_ptrs s3" using Cons.prems(2) side [THEN addr_side_D(5)] by simp_all
    have "ctx_ok X (snd (create_pairs env src a r name ss found (nt_resolver_mark_pair_del (new_pair q src (pair_dst server) h) t)))"
      if "t = s2 \<or> t = s3" for q h t
      using that ok E by (intro Cons.IH mark_pair_del_ok) (auto simp: new_pair_ok addr_side_D(5) [OF op_side(3)])
    moreover have "ctx_ok X (snd (create_pairs env src a r name ss True (modify_request r (\<lambda>q. q\<lparr>rq_pairs := new_pair p' src (pair_dst server) UDP_ACTIVE # rq_pairs q\<rparr>) s3)))" for p'
      using ok E by (intro Cons.IH modify_request_ok) (auto simp: new_pair_ok addr_side_D(5) [OF op_side(1)] request_ok_def)
    ultimately show ?thesis using True 1 2 3 ok by (cases p; cases ok; cases sent) simp_all
  qed (simp add: Cons)
qed simp

lemma nt_resolver_create_pairs_ok [ok_intros]:
  "ctx_ok X s \<Longrightarrow> src \<in> entry_ptrs s \<Longrightarrow> ctx_ok X (snd (nt_resolver_create_pairs env src a q s))"
  by (simp add: nt_resolver_create_pairs_def create_pairs_ok)

lemma entry_None: "entry p s = None \<longleftrightarrow> p \<notin> entry_ptrs s"
  by (simp add: entry_def entry_ptrs_def map_of_eq_None_iff)

section \<open>Addresses come and go\<close>

lemma queue_ok: "ctx_ok X s \<Longrightarrow> q \<in> set (rs_request_queue (rs_of s)) \<Longrightarrow> request_ok X (entry_ptrs s) q"
  by (simp add: ctx_ok_def resolver_ok_def)

lemma handle_newaddr_ok:
  assumes "ctx_ok X s" "p \<in> entry_ptrs s"
  shows "ctx_ok X (neat_resolver_handle_newaddr env p s)"
proof (cases "entry p s")
  case None
  then show ?thesis using assms(2) entry_None by blast
next
  case (Some a)
  let ?g = "\<lambda>q s. if rq_family q \<noteq> 0 \<and> rq_family q \<noteq> na_family a \<or> rq_is_literal q then s else snd (nt_resolver_create_pairs env p a q s)"
  have "ctx_ok X (fold ?g qs s)" for qs
    using assms
  proof (induction qs arbitrary: s)
    case (Cons q qs)
    have "p \<in> entry_ptrs (?g q s)" using Cons.prems(2) by (simp add: addr_side_D(5) [OF nt_resolver_create_pairs_side])
    then show ?case using Cons by (simp add: nt_resolver_create_pairs_ok)
  qed simp
  then show ?thesis using Some assms(1) by (simp add: neat_resolver_handle_newaddr_def)
qed

lemma delete_pairs_ok:
  assumes "ctx_ok X s" "\<forall>p \<in> set (rq_pairs q). pair_ok (entry_ptrs s) p"
  shows "ctx_ok X (nt_resolver_delete_pairs a q s)"
  unfolding nt_resolver_delete_pairs_def
proof (rule fold_mark_pair_del_ok, rule modify_request_ok)
  show "ctx_ok X (set_fault (\<exists>p\<in>set (rq_pairs q). entry (pr_src p) s = None) s)"
    using assms by (intro set_fault_ok) (auto simp: entry_None pair_ok_def)
  show "\<forall>p\<in>set (filter (from_addr a s) (rq_pairs q)). \<not> pr_closed p" using assms(2) by (auto simp: pair_ok_def)
qed (use assms in \<open>auto simp: request_ok_def addr_side_D(5) [OF op_side(2)]\<close>)

lemma mark_pair_del_queue [simp]: "rs_request_queue (rs_of (nt_resolver_mark_pair_del p s)) = rs_request_queue (rs_of s)"
  by (simp add: nt_resolver_mark_pair_del_def side_simps)

lemma fold_mark_pair_del_queue [simp]: "rs_request_queue (rs_of (fold nt_resolver_mark_pair_del ps s)) = rs_request_queue (rs_of s)"
  by (induction ps arbitrary: s) simp_all

lemma delete_pairs_queue:
  "rs_request_queue (rs_of (nt_resolver_delete_pairs a q s)) =
     map (\<lambda>k. if rq_ptr k = rq_ptr q then k\<lparr>rq_pairs := filter (\<lambda>p. \<not> from_addr a s p) (rq_pairs q)\<rparr> else k) (rs_request_queue (rs_of s))"
  by (simp add: nt_resolver_delete_pairs_def modify_request_def set_fault_def side_simps)

lemma from_addr_side: "addr_side s' = addr_side s \<Longrightarrow> from_addr a s' = from_addr a s"
  by (simp add: fun_eq_iff from_addr_def addr_side_def entry_def)

text \<open>After the callback no pair points to an entry with this address.\<close>

lemma fold_delete_pairs:
  assumes "ctx_ok X s" "\<forall>q \<in> set qs. \<forall>p \<in> set (rq_pairs q). pair_ok (entry_ptrs s) p"
    and "\<forall>k \<in> set (rs_request_queue (rs_of s)). rq_ptr k \<in> D \<longrightarrow> (\<forall>p \<in> set (rq_pairs k). \<not> from_addr a s p)"
  shows "ctx_ok X (fold (nt_resolver_delete_pairs a) qs s)
    \<and> map rq_ptr (rs_request_queue (rs_of (fold (nt_resolver_delete_pairs a) qs s))) = map rq_ptr (rs_request_queue (rs_of s))
    \<and> (\<forall>k \<in> set (rs_request_queue (rs_of (fold (nt_resolver_delete_pairs a) qs s))). rq_ptr k \<in> D \<union> rq_ptr ` set qs \<longrightarrow> (\<forall>p \<in> set (rq_pairs k). \<not> from_addr a s p))"
  using assms
proof (induction qs arbitrary: s D)
  case (Cons q qs)
  let ?s = "nt_resolver_delete_pairs a q s"
  have side: "addr_side ?s = addr_side s" by (simp add: side_simps)
  have "ctx_ok X ?s" using Cons.prems by (intro delete_pairs_ok) auto
  moreover have "\<forall>q \<in> set qs. \<forall>p \<in> set (rq_pairs q). pair_ok (entry_ptrs ?s) p" using Cons.prems(2) addr_side_D(5) [OF side] by simp
  moreover have "\<forall>k \<in> set (rs_request_queue (rs_of ?s)). rq_ptr k \<in> insert (rq_ptr q) D \<longrightarrow> (\<forall>p \<in> set (rq_pairs k). \<not> from_addr a ?s p)"
    using Cons.prems(3) by (auto simp: delete_pairs_queue from_addr_side [OF side])
  moreover have "map rq_ptr (rs_request_queue (rs_of ?s)) = map rq_ptr (rs_request_queue (rs_of s))" by (simp add: delete_pairs_queue)
  ultimately show ?case using Cons.IH [of ?s "insert (rq_ptr q) D"] by (simp add: from_addr_side [OF side])
qed simp

lemma handle_deladdr_ok:
  assumes "ctx_ok X s" "entry p s = Some a" "host_of (na_addr a) \<noteq> None"
  shows "ctx_ok X (neat_resolver_handle_deladdr p s)"
    "\<forall>q \<in> set (rs_request_queue (rs_of (neat_resolver_handle_deladdr p s))). \<forall>k \<in> set (rq_pairs q). pr_src k \<noteq> p"
proof -
  let ?s = "fold (nt_resolver_delete_pairs a) (rs_request_queue (rs_of s)) s"
  have s: "neat_resolver_handle_deladdr p s = ?s" using assms(2) by (simp add: neat_resolver_handle_deladdr_def)
  have "\<forall>q \<in> set (rs_request_queue (rs_of s)). \<forall>k \<in> set (rq_pairs q). pair_ok (entry_ptrs s) k"
    using queue_ok [OF assms(1)] by (simp add: request_ok_def)
  then have f: "ctx_ok X ?s" "map rq_ptr (rs_request_queue (rs_of ?s)) = map rq_ptr (rs_request_queue (rs_of s))"
    "\<forall>k \<in> set (rs_request_queue (rs_of ?s)). rq_ptr k \<in> rq_ptr ` set (rs_request_queue (rs_of s)) \<longrightarrow> (\<forall>p \<in> set (rq_pairs k). \<not> from_addr a s p)"
    using fold_delete_pairs [OF assms(1), of "rs_request_queue (rs_of s)" "{}" a] by auto
  then show "ctx_ok X (neat_resolver_handle_deladdr p s)" using s by simp
  have "from_addr a s k" if "pr_src k = p" for k using assms(2,3) that by (simp add: from_addr_def same_ip_iff)
  moreover have "rq_ptr q \<in> rq_ptr ` set (rs_request_queue (rs_of s))" if "q \<in> set (rs_request_queue (rs_of ?s))" for q
    using f(2) that by (metis imageI list.set_map)
  ultimately show "\<forall>q \<in> set (rs_request_queue (rs_of (neat_resolver_handle_deladdr p s))). \<forall>k \<in> set (rq_pairs q). pr_src k \<noteq> p"
    using f(3) s by metis
qed

lemma resolver_callback:
  "ae_callback (resolver_addr_env env) event cb p s =
     (if cb = newaddr_cb then neat_resolver_handle_newaddr env p s else if cb = deladdr_cb then neat_resolver_handle_deladdr p s else s)"
  by (simp add: resolver_addr_env_def)

lemma callback_side [side_simps]: "addr_side (ae_callback (resolver_addr_env env) event cb p s) = addr_side s"
  by (simp add: resolver_callback side_simps)

lemma callback_ok:
  assumes "ctx_ok X s" "entry p s = Some a" "host_of (na_addr a) \<noteq> None"
  shows "ctx_ok X (ae_callback (resolver_addr_env env) event cb p s)"
  using assms handle_newaddr_ok [OF assms(1)] handle_deladdr_ok(1) [OF assms] entry_None [of p s] by (auto simp: resolver_callback)

definition unused_entry :: "nat \<Rightarrow> 'k rctx \<Rightarrow> bool" where
  "unused_entry p s = (\<forall>q \<in> set (rs_request_queue (rs_of s)). \<forall>k \<in> set (rq_pairs q). pr_src k \<noteq> p)"

lemma fold_callback_ok:
  assumes "ctx_ok X s" "entry p s = Some a" "host_of (na_addr a) \<noteq> None"
  shows "ctx_ok X (fold (\<lambda>cb. ae_callback (resolver_addr_env env) event cb p) cbs s)
    \<and> (newaddr_cb \<notin> set cbs \<and> (deladdr_cb \<in> set cbs \<or> unused_entry p s) \<longrightarrow> unused_entry p (fold (\<lambda>cb. ae_callback (resolver_addr_env env) event cb p) cbs s))"
  using assms
proof (induction cbs arbitrary: s)
  case (Cons cb cbs)
  let ?s = "ae_callback (resolver_addr_env env) event cb p s"
  have "entry p ?s = Some a" using Cons.prems(2) by (simp add: addr_side_D(4) [OF callback_side])
  moreover have "unused_entry p ?s" if "cb \<noteq> newaddr_cb" "cb = deladdr_cb \<or> unused_entry p s"
    using that handle_deladdr_ok(2) [OF Cons.prems] by (auto simp: resolver_callback unused_entry_def)
  ultimately show ?case using Cons.IH [OF callback_ok [OF Cons.prems] _ Cons.prems(3)] by auto
qed simp

lemma run_event_ok:
  assumes "ctx_ok X s" "entry p s = Some a" "host_of (na_addr a) \<noteq> None"
  shows "ctx_ok X (nt_run_event_cb (resolver_addr_env env) event p s)"
  using assms fold_callback_ok [OF assms] by (simp add: nt_run_event_cb_def split: option.split)

lemma run_deladdr_unused:
  assumes "ctx_ok X s" "entry p s = Some a" "host_of (na_addr a) \<noteq> None"
    and "nc_event_cbs s = Some cbs" "deladdr_cb \<in> set (cbs NEAT_DELADDR)" "newaddr_cb \<notin> set (cbs NEAT_DELADDR)"
  shows "unused_entry p (nt_run_event_cb (resolver_addr_env env) NEAT_DELADDR p s)"
  using assms fold_callback_ok [OF assms(1-3)] by (simp add: nt_run_event_cb_def NEAT_DELADDR_def NEAT_MAX_EVENT_def)

lemma resolver_ok_mono:
  assumes "resolver_ok X E rs" "\<And>q k. q \<in> set (rs_request_queue rs) \<Longrightarrow> k \<in> set (rq_pairs q) \<Longrightarrow> pr_src k \<in> E \<Longrightarrow> pr_src k \<in> F"
  shows "resolver_ok X F rs"
  using assms by (auto simp: resolver_ok_def request_ok_def pair_ok_def)

lemma rs_of_addrs [simp]:
  "rs_of (s\<lparr>nc_src_addrs := xs\<rparr>) = rs_of s" "rs_of (s\<lparr>nc_src_addr_cnt := n\<rparr>) = rs_of s" "rs_of (set_entry p a s) = rs_of s"
  by (simp_all add: rs_of_def set_entry_def)

lemma entry_ptrs_set_entry [simp]: "entry_ptrs (set_entry p a s) = entry_ptrs s"
proof -
  have "map fst (nc_src_addrs (set_entry p a s)) = map fst (nc_src_addrs s)" by (simp add: set_entry_def)
  then show ?thesis unfolding entry_ptrs_def by (metis list.set_map)
qed

lemma entry_set_entry:
  assumes "p \<in> entry_ptrs s"
  shows "entry p (set_entry p a s) = Some a"
proof -
  have "p \<in> fst ` set xs \<Longrightarrow> map_of (map (\<lambda>e. if fst e = p then (p, a) else e) xs) p = Some a" for xs :: "(nat \<times> neat_addr) list"
    by (induction xs) auto
  then show ?thesis using assms by (simp add: entry_def set_entry_def entry_ptrs_def)
qed

lemma entry_wf_entry: "addrs_wf s \<Longrightarrow> (p, a) \<in> set (nc_src_addrs s) \<Longrightarrow> entry p s = Some a \<and> host_of (na_addr a) \<noteq> None"
  by (auto simp: addrs_wf_def entry_def entry_wf_def)

definition alloc_fresh :: "'k resolver_env \<Rightarrow> bool" where
  "alloc_fresh env = (\<forall>used k p k'. re_calloc env used k = (Some p, k') \<longrightarrow> p \<notin> used)"

lemma resolver_calloc_fresh:
  assumes "alloc_fresh env" "ae_calloc (resolver_addr_env env) used w = (Some p, w')"
  shows "p \<notin> used"
  using assms unfolding alloc_fresh_def resolver_addr_env_def by (force split: prod.splits)

lemma nc_calloc_side:
  assumes "nc_calloc (resolver_addr_env env) s = (p, s1)"
  shows "addr_side s1 = addr_side s" "rs_of s1 = rs_of s"
  using assms by (auto simp: nc_calloc_def addr_side_def rs_of_def resolver_addr_env_def split: prod.splits)

lemma update_src_list_ok:
  assumes inv: "rs_inv s" and "alloc_fresh env"
  shows "rs_inv (snd (nt_addr_update_src_list (resolver_addr_env env) a i new len pref valid s))"
proof -
  let ?env = "resolver_addr_env env"
  obtain c s' where s': "nt_addr_update_src_list ?env a i new len pref valid s = (c, s')" by fastforce
  from inv obtain cbs where wf: "addrs_wf s" and ok: "ctx_ok {} s"
    and cbs: "nc_event_cbs s = Some cbs" "deladdr_cb \<in> set (cbs NEAT_DELADDR)" "newaddr_cb \<notin> set (cbs NEAT_DELADDR)" by (auto simp: rs_inv_def)
  have "addr_event_step ?env (ADDR_REPORT a i new len pref valid) s = (c, s')" using s' by simp
  then have wf': "addrs_wf s'" using resolver_listener.update_src_list_refines [OF wf] resolver_calloc_fresh [OF assms(2)] by blast
  have "ctx_ok {} s' \<and> nc_event_cbs s' = nc_event_cbs s"
  proof (cases "sa_family a = AF_UNSPEC")
    case True
    then show ?thesis using s' ok by (auto simp: nt_addr_update_src_list_def)
  next
    case known: False
    show ?thesis
    proof (cases "find_addr a i s")
      case None
      obtain p s1 where alloc: "nc_calloc ?env s = (p, s1)" by fastforce
      note same = nc_calloc_side [OF alloc]
      have s1: "ctx_ok {} s1" "nc_event_cbs s1 = nc_event_cbs s" using ok ctx_ok_same [OF same] addr_side_D [OF same(1)] by simp_all
      show ?thesis
      proof (cases p)
        case p: None
        then show ?thesis using s' known None alloc s1 by (auto simp: nt_addr_update_src_list_def)
      next
        case p: (Some q)
        let ?e = "\<lparr>na_if_idx = i, na_addr = a, na_prefix_length = len, na_ifa_pref = (if sa_family a = AF_INET then 0 else pref), na_ifa_valid = (if sa_family a = AF_INET then 0 else valid)\<rparr>"
        let ?s2 = "s1\<lparr>nc_src_addrs := (q, ?e) # nc_src_addrs s1, nc_src_addr_cnt := nc_src_addr_cnt s1 + 1\<rparr>"
        have "ctx_ok {} ?s2" using s1(1) unfolding ctx_ok_def by (auto simp: entry_ptrs_def intro: resolver_ok_mono)
        then have "ctx_ok {} (nt_run_event_cb ?env NEAT_NEWADDR q ?s2)"
          by (rule run_event_ok [where a = ?e]) (use known host_of_None in \<open>auto simp: entry_def\<close>)
        then show ?thesis using s' known None alloc p s1(2) by (auto simp: nt_addr_update_src_list_def)
      qed
    next
      case (Some pe)
      obtain p e where pe: "pe = (p, e)" by (cases pe)
      note found = find_addr_Some [OF Some [unfolded pe]]
      have e: "entry p s = Some e" "host_of (na_addr e) \<noteq> None" using entry_wf_entry [OF wf found(1)] by simp_all
      show ?thesis
      proof (cases new)
        case True
        let ?s2 = "set_entry p (e\<lparr>na_ifa_pref := pref, na_ifa_valid := valid\<rparr>) s"
        have "ctx_ok {} ?s2" using ok by (simp add: ctx_ok_def)
        moreover have "entry p ?s2 = Some (e\<lparr>na_ifa_pref := pref, na_ifa_valid := valid\<rparr>)"
          using found(1) by (intro entry_set_entry) (force simp: entry_ptrs_def)
        ultimately have "ctx_ok {} (nt_run_event_cb ?env NEAT_UPDATEADDR p ?s2)"
          using e(2) by (auto intro!: run_event_ok)
        then show ?thesis using s' known Some pe True ok by (auto simp: nt_addr_update_src_list_def set_entry_def split: if_splits)
      next
        case False
        let ?s1 = "nt_run_event_cb ?env NEAT_DELADDR p s"
        have "ctx_ok {} ?s1" "unused_entry p ?s1" using run_event_ok [OF ok e] run_deladdr_unused [OF ok e cbs] by simp_all
        then have "ctx_ok {} (?s1\<lparr>nc_src_addrs := filter (\<lambda>e. fst e \<noteq> p) (nc_src_addrs ?s1), nc_src_addr_cnt := nc_src_addr_cnt ?s1 - 1\<rparr>)"
          unfolding ctx_ok_def by (auto simp: entry_ptrs_def unused_entry_def elim!: resolver_ok_mono)
        then show ?thesis using s' known Some pe False by (auto simp: nt_addr_update_src_list_def Let_def)
      qed
    qed
  qed
  then show ?thesis using s' wf' cbs by (simp add: rs_inv_def)
qed

lemma lifetime_step_ok:
  assumes "ctx_ok X s" "fst e \<in> entry_ptrs s" "host_of (na_addr (snd e)) \<noteq> None"
  shows "ctx_ok X (lifetime_step (resolver_addr_env env) e s)" "entry_ptrs (lifetime_step (resolver_addr_env env) e s) = entry_ptrs s"
    "nc_event_cbs (lifetime_step (resolver_addr_env env) e s) = nc_event_cbs s"
proof -
  obtain pref n1 where 1: "count_down (na_ifa_pref (snd e)) = (pref, n1)" by fastforce
  obtain valid n2 where 2: "count_down (na_ifa_valid (snd e)) = (valid, n2)" by fastforce
  let ?a = "(snd e)\<lparr>na_ifa_pref := pref, na_ifa_valid := valid\<rparr>"
  let ?s = "set_entry (fst e) ?a s"
  have "ctx_ok X ?s" using assms(1) by (simp add: ctx_ok_def)
  moreover from this have "ctx_ok X (nt_run_event_cb (resolver_addr_env env) NEAT_UPDATEADDR (fst e) ?s)"
    by (rule run_event_ok [OF _ entry_set_entry [OF assms(2)]]) (use assms(3) in simp)
  ultimately show "ctx_ok X (lifetime_step (resolver_addr_env env) e s)" using assms(1) 1 2 by (simp add: lifetime_step_def Let_def)
  have "entry_ptrs (nt_run_event_cb (resolver_addr_env env) event p t) = entry_ptrs t" for event p t by (simp add: entry_ptrs_def)
  then show "entry_ptrs (lifetime_step (resolver_addr_env env) e s) = entry_ptrs s" using 1 2 by (simp add: lifetime_step_def Let_def)
  show "nc_event_cbs (lifetime_step (resolver_addr_env env) e s) = nc_event_cbs s" using 1 2 by (simp add: lifetime_step_def Let_def set_entry_def)
qed

lemma lifetime_timeout_ok:
  assumes "rs_inv s"
  shows "rs_inv (nt_addr_lifetime_timeout_cb (resolver_addr_env env) s)"
proof -
  let ?g = "lifetime_step (resolver_addr_env env)"
  have "ctx_ok {} (fold ?g es t) \<and> nc_event_cbs (fold ?g es t) = nc_event_cbs t"
    if "ctx_ok {} t" "\<forall>e \<in> set es. fst e \<in> entry_ptrs t \<and> host_of (na_addr (snd e)) \<noteq> None" for es t
    using that
  proof (induction es arbitrary: t)
    case (Cons e es)
    then show ?case using lifetime_step_ok [of "{}" t e env] by simp
  qed simp
  moreover have "\<forall>e \<in> set (nc_src_addrs s). fst e \<in> entry_ptrs s \<and> host_of (na_addr (snd e)) \<noteq> None"
    using assms by (auto simp: rs_inv_def addrs_wf_def entry_wf_def entry_ptrs_def)
  ultimately show ?thesis
    using assms resolver_listener.timer_refines [of s env NEAT_OK] unfolding rs_inv_def by (simp add: nt_addr_lifetime_timeout_cb_def)
qed

section \<open>Requests\<close>

lemma start_request_ok:
  assumes "ctx_ok {rq_ptr q} s"
  shows "ctx_ok {} (snd (nt_start_request env q s))" "addr_side (snd (nt_start_request env q s)) = addr_side s"
proof -
  let ?s = "\<lambda>t. modify_request (rq_ptr q) (\<lambda>k. k\<lparr>rq_timer := Some t\<rparr>) s"
  let ?g = "\<lambda>e (found, s). if rq_family q \<noteq> 0 \<and> na_family (snd e) \<noteq> rq_family q \<or> deprecated (snd e) then (found, s)
              else (case nt_resolver_create_pairs env (fst e) (snd e) q s of (ok, s') \<Rightarrow> (found \<or> ok, s'))"
  have ok: "ctx_ok {} (?s t)" for t using assms by (intro modify_request_ok) (auto simp: request_ok_def)
  have side: "addr_side (?s t) = addr_side s" for t by (simp add: side_simps)
  have "ctx_ok {} (snd (fold ?g es r)) \<and> addr_side (snd (fold ?g es r)) = addr_side (snd r)"
    if "ctx_ok {} (snd r)" "\<forall>e \<in> set es. fst e \<in> entry_ptrs (snd r)" for es r
    using that
  proof (induction es arbitrary: r)
    case (Cons e es)
    have "ctx_ok {} (snd (?g e r))" "addr_side (snd (?g e r)) = addr_side (snd r)"
      using Cons.prems nt_resolver_create_pairs_ok [of "{}" "snd r" "fst e" env "snd e" q] nt_resolver_create_pairs_side [of env "fst e" "snd e" q "snd r"]
      by (auto split: prod.splits)
    then show ?case using Cons addr_side_D(5) [of "snd (?g e r)" "snd r"] by simp
  qed simp
  from this [of "(False, ?s t)" "nc_src_addrs (?s t)" for t] ok side
  have "ctx_ok {} (snd (fold ?g (nc_src_addrs (?s t)) (False, ?s t))) \<and> addr_side (snd (fold ?g (nc_src_addrs (?s t)) (False, ?s t))) = addr_side s" for t
    by (simp add: entry_ptrs_def)
  then show "ctx_ok {} (snd (nt_start_request env q s))" "addr_side (snd (nt_start_request env q s)) = addr_side s"
    using ok side unfolding nt_start_request_def Let_def by (simp_all only: if_splits snd_conv split: if_split) simp_all
qed

lemma rs_inv_side: "rs_inv s \<Longrightarrow> addr_side s' = addr_side s \<Longrightarrow> ctx_ok {} s' \<Longrightarrow> rs_inv s'"
  by (simp add: rs_inv_def addr_side_def addrs_wf_def addr_keys_def)

lemma resolve_ok:
  assumes "rs_inv s" "alloc_fresh env"
  shows "rs_inv (snd (nt_resolve env family node port s))"
proof (cases "port = 0 \<or> family \<noteq> AF_UNSPEC \<and> family \<noteq> AF_INET \<and> family \<noteq> AF_INET6 \<or> MAX_DOMAIN_LENGTH < length node + 1")
  case True
  then show ?thesis using assms by (auto simp: nt_resolve_def)
next
  case False
  obtain p s1 where alloc: "rs_calloc env s = (p, s1)" by fastforce
  note same = rs_calloc_same [OF alloc]
  have s1: "rs_inv s1" by (rule rs_inv_side [OF assms(1) same(1)]) (use assms(1) ctx_ok_same [OF same] in \<open>simp add: rs_inv_def\<close>)
  define localhost where "localhost = (node = ''localhost'')"
  obtain literal family1 where lit: "(if localhost then (0, family) else nt_resolver_helpers_check_for_literal env family node) = (literal, family1)" by fastforce
  show ?thesis
  proof (cases p)
    case None
    then show ?thesis using False alloc s1 by (auto simp: nt_resolve_def)
  next
    case (Some ptr)
    define q where "q = \<lparr>rq_ptr = ptr, rq_dst_port = port, rq_family = family1, rq_name_resolved_timeout = False, rq_domain_name = node, rq_pairs = [],
      rq_timer = None, rq_is_literal = (literal \<noteq> 0), rq_is_localhost = localhost, rq_freed = False\<rparr>"
    let ?s2 = "modify_rs (\<lambda>rs. rs\<lparr>rs_request_queue := rs_request_queue rs @ [q]\<rparr>) s1"
    have "ptr \<notin> rs_ptrs (rs_of s)"
      using alloc Some assms(2) unfolding rs_calloc_def kernel_call_def alloc_fresh_def by (force split: prod.splits)
    then have "ptr \<notin> rq_ptr ` set (rs_request_queue (rs_of s1))" using same by (simp add: rs_ptrs_def)
    moreover have "ctx_ok {} s1" using s1 by (simp add: rs_inv_def)
    ultimately have "ctx_ok {rq_ptr q} ?s2"
      by (intro ctx_ok_modify_rs) (auto simp: ctx_ok_def resolver_ok_def request_ok_def q_def)
    from start_request_ok [OF this, of env] have "rs_inv (snd (nt_start_request env q ?s2))"
      using s1 by (auto intro: rs_inv_side simp: side_simps)
    then show ?thesis using False alloc Some lit s1 by (auto simp: nt_resolve_def localhost_def q_def Let_def)
  qed
qed

section \<open>Results\<close>

lemma fill_results_same:
  assumes "nt_resolver_helpers_fill_results env port src dst rs s = (rs', s')"
  shows "addr_side s' = addr_side s \<and> rs_of s' = rs_of s"
proof -
  obtain p s1 where alloc: "rs_calloc env s = (p, s1)" by fastforce
  then show ?thesis using rs_calloc_same [OF alloc] assms by (auto simp: nt_resolver_helpers_fill_results_def split: option.splits)
qed

lemma localhost_results_same: "localhost_results env port as rs s = (rs', s') \<Longrightarrow> addr_side s' = addr_side s \<and> rs_of s' = rs_of s"
proof (induction as arbitrary: rs s)
  case (Cons a as)
  then show ?case using fill_results_same by (fastforce split: if_splits option.splits prod.splits)
qed simp

lemma literal_sources_same: "literal_sources env port family dst as rs s = (rs', s') \<Longrightarrow> addr_side s' = addr_side s \<and> rs_of s' = rs_of s"
proof (induction as arbitrary: rs s)
  case (Cons a as)
  then show ?case using fill_results_same by (fastforce split: if_splits option.splits prod.splits)
qed simp

lemma literal_results_same: "literal_results env port family ts rs s = (rs', s') \<Longrightarrow> addr_side s' = addr_side s \<and> rs_of s' = rs_of s"
proof (induction ts arbitrary: rs s)
  case (Cons t ts)
  then show ?case using literal_sources_same by (fastforce split: option.splits prod.splits)
qed simp

lemma literal_populate_same:
  assumes "nt_resolver_literal_populate_results env q s = (rs', s')"
  shows "addr_side s' = addr_side s \<and> rs_of s' = rs_of s"
proof -
  obtain p s1 where alloc: "rs_calloc env s = (p, s1)" by fastforce
  then show ?thesis using rs_calloc_same [OF alloc] assms literal_results_same [of env "rq_dst_port q" "rq_family q" "strtok '','' (rq_domain_name q)" "[]" s1 rs' s']
    by (cases p) (auto simp: nt_resolver_literal_populate_results_def)
qed

lemma pair_results_same: "pair_results env port a ds rs s = (rs', s') \<Longrightarrow> addr_side s' = addr_side s \<and> rs_of s' = rs_of s"
proof (induction ds arbitrary: rs s)
  case (Cons d ds)
  then show ?case using fill_results_same by (fastforce split: if_splits prod.splits)
qed simp

lemma populate_results_same:
  assumes "nt_resolver_populate_results env port ps rs s = (rs', s')" "\<forall>p \<in> set ps. pair_ok (entry_ptrs s) p"
  shows "addr_side s' = addr_side s \<and> rs_of s' = rs_of s"
  using assms
proof (induction ps arbitrary: rs s)
  case (Cons p ps)
  obtain a where a: "entry (pr_src p) s = Some a" using Cons.prems(2) entry_None [of "pr_src p" s] by (auto simp: pair_ok_def)
  obtain rs1 s1 where 1: "pair_results env port a (resolved_list p) rs s = (rs1, s1)" by fastforce
  have same: "addr_side s1 = addr_side s" "rs_of s1 = rs_of s" using pair_results_same [OF 1] by simp_all
  show ?case
  proof (cases "resolved_list p = []")
    case True
    then show ?thesis using Cons by simp
  next
    case False
    then have "nt_resolver_populate_results env port ps rs1 s1 = (rs', s')" using Cons.prems(1) a 1 by simp
    then show ?thesis using Cons.IH [of rs1 s1] Cons.prems(2) same addr_side_D(5) [OF same(1)] by simp
  qed
qed simp

lemma request_results_same:
  assumes "request_results env q s = (rs, s')" "\<forall>p \<in> set (rq_pairs q). pair_ok (entry_ptrs s) p"
  shows "addr_side s' = addr_side s \<and> rs_of s' = rs_of s"
  using assms literal_populate_same localhost_results_same populate_results_same unfolding request_results_def by (metis (full_types))

lemma find_request_Some:
  assumes "find_request r s = Some q"
  shows "q \<in> set (rs_request_queue (rs_of s))" "rq_ptr q = r"
  using find_SomeD assms unfolding find_request_def by fast+

lemma find_request_same: "rs_of s' = rs_of s \<Longrightarrow> find_request r s' = find_request r s"
  by (simp add: find_request_def)

lemma find_modify_request:
  assumes "\<And>k. rq_ptr (g k) = rq_ptr k"
  shows "find_request r (modify_request r g s) = map_option g (find_request r s)"
proof -
  have "find (\<lambda>q. rq_ptr q = r) (map (\<lambda>q. if rq_ptr q = r then g q else q) qs) = map_option g (find (\<lambda>q. rq_ptr q = r) qs)" for qs
    by (induction qs) (auto simp: assms)
  then show ?thesis by (simp add: find_request_def modify_request_def side_simps)
qed

lemma request_cleanup_side [side_simps]: "addr_side (nt_resolver_request_cleanup r s) = addr_side s"
  by (auto simp: nt_resolver_request_cleanup_def side_simps fold_side split: option.split)

text \<open>A request whose timer does not run is in order again when it has left the queue.\<close>

lemma request_cleanup_ok:
  assumes "ctx_ok {r} s" "find_request r s = Some q"
  shows "ctx_ok {} (nt_resolver_request_cleanup r s)"
proof -
  let ?s1 = "fold nt_resolver_mark_pair_del (rq_pairs q) s"
  have q: "q \<in> set (rs_request_queue (rs_of s))" "rq_ptr q = r" using find_request_Some [OF assms(2)] by simp_all
  have "\<forall>p \<in> set (rq_pairs q). \<not> pr_closed p" using queue_ok [OF assms(1) q(1)] by (auto simp: request_ok_def pair_ok_def)
  then have s1: "ctx_ok {r} ?s1" using assms(1) by (intro fold_mark_pair_del_ok)
  have in1: "q \<in> set (rs_request_queue (rs_of ?s1))" using q by simp
  have "rq_ptr k \<noteq> r" if "k \<in> set (remove1 q (rs_request_queue (rs_of ?s1)))" for k
  proof -
    have "distinct (map rq_ptr (rs_request_queue (rs_of ?s1)))" using s1 by (simp add: ctx_ok_def resolver_ok_def)
    then have "inj_on rq_ptr (set (rs_request_queue (rs_of ?s1)))" "distinct (rs_request_queue (rs_of ?s1))" by (simp_all add: distinct_map)
    then show ?thesis using that in1 q(2) by (auto dest: inj_onD)
  qed
  then have "resolver_ok {} (entry_ptrs ?s1) (rs_of ?s1\<lparr>rs_request_queue := remove1 q (rs_request_queue (rs_of ?s1)),
      rs_dead_requests := q\<lparr>rq_pairs := [], rq_timer := None\<rparr> # rs_dead_requests (rs_of ?s1)\<rparr>)"
    using s1 queue_ok [OF assms(1) q(1)] by (auto simp: ctx_ok_def resolver_ok_def request_ok_def distinct_map distinct_remove1 dest: set_remove1_subset [THEN subsetD] intro: inj_on_diff)
  then show ?thesis using assms(2) by (auto simp: nt_resolver_request_cleanup_def intro!: ctx_ok_modify_rs)
qed

lemma give_result_same [simp]: "rs_of (give_result env r res s) = rs_of s"
  by (simp add: give_result_def side_simps)

lemma give_result_ok: "ctx_ok X (give_result env r res s) = ctx_ok X s"
  by (rule ctx_ok_same) (simp_all add: side_simps)

lemma finish_request:
  assumes "ctx_ok {r} s" "find_request r s = Some q"
  shows "ctx_ok {} (nt_resolver_request_cleanup r (give_result env r res s))"
  by (rule request_cleanup_ok) (use assms in \<open>simp_all add: give_result_ok find_request_same [OF give_result_same]\<close>)

lemma timeout_shared_ok:
  assumes "ctx_ok {} s"
  shows "ctx_ok {} (nt_resolver_timeout_shared env r s)" "addr_side (nt_resolver_timeout_shared env r s) = addr_side s"
proof -
  have "ctx_ok {} (nt_resolver_timeout_shared env r s) \<and> addr_side (nt_resolver_timeout_shared env r s) = addr_side s"
  proof (cases "find_request r s")
    case None
    then show ?thesis using assms by (simp add: nt_resolver_timeout_shared_def)
  next
    case (Some q)
    let ?s = "modify_request r (\<lambda>k. k\<lparr>rq_timer := None\<rparr>) s"
    have ok: "ctx_ok {r} ?s" using assms by (intro modify_request_ok) (auto simp: request_ok_def)
    have found: "find_request r ?s = Some (q\<lparr>rq_timer := None\<rparr>)" using Some by (simp add: find_modify_request)
    have side: "addr_side ?s = addr_side s" by (simp add: side_simps)
    obtain p s1 where alloc: "rs_calloc env ?s = (p, s1)" by fastforce
    note same1 = rs_calloc_same [OF alloc]
    obtain rs s2 where res: "request_results env q s1 = (rs, s2)" by fastforce
    have pairs: "\<forall>p \<in> set (rq_pairs q). pair_ok (entry_ptrs s1) p"
      using queue_ok [OF assms find_request_Some(1) [OF Some]] addr_side_D(5) [OF trans [OF same1(1) side]] by (simp add: request_ok_def)
    have same2: "addr_side s2 = addr_side ?s" "rs_of s2 = rs_of ?s" using request_results_same [OF res pairs] same1 by simp_all
    have s1: "ctx_ok {r} s1" "find_request r s1 = Some (q\<lparr>rq_timer := None\<rparr>)" using ok found ctx_ok_same [OF same1] find_request_same [OF same1(2)] by simp_all
    have s2: "ctx_ok {r} s2" "find_request r s2 = Some (q\<lparr>rq_timer := None\<rparr>)" using ok found ctx_ok_same [OF same2] find_request_same [OF same2(2)] by simp_all
    have again: "ctx_ok {} (modify_request r (\<lambda>k. k\<lparr>rq_timer := Some DNS_ADDRESS_TIMEOUT\<rparr>) ?s)"
      using ok by (rule modify_request_ok) (auto simp: request_ok_def)
    have nofree: "\<not> rs_free_resolver (rs_of ?s)" using ok by (simp add: ctx_ok_def resolver_ok_def)
    show ?thesis
      using Some nofree alloc res finish_request [OF ok found, of env] finish_request [OF s1, of env] finish_request [OF s2, of env] again side same1 same2
      by (cases p) (simp_all add: nt_resolver_timeout_shared_def Let_def side_simps)
  qed
  then show "ctx_ok {} (nt_resolver_timeout_shared env r s)" "addr_side (nt_resolver_timeout_shared env r s) = addr_side s" by simp_all
qed

section \<open>Replies\<close>

lemma set_resolved_ok: "ctx_ok X s \<Longrightarrow> ctx_ok X (set_resolved r p i a s)"
  unfolding set_resolved_def by (rule modify_request_ok) (auto simp: request_ok_def pair_ok_def)

lemma check_duplicate_ok:
  assumes "ctx_ok X s" "find_request r s = Some q"
  shows "fst (neat_resolver_helpers_check_duplicate env q src t s)"
proof -
  have "pr_src p \<in> entry_ptrs s" if "p \<in> set (rq_pairs q)" for p
    using queue_ok [OF assms(1) find_request_Some(1) [OF assms(2)]] that by (simp add: request_ok_def pair_ok_def)
  then have "\<forall>p \<in> set (rq_pairs q). entry (pr_src p) s \<noteq> None" by (simp add: entry_None del: not_None_eq)
  then show ?thesis by (simp add: neat_resolver_helpers_check_duplicate_def split: option.split)
qed

lemma store_records_ok:
  "ctx_ok X s \<Longrightarrow> ctx_ok X (snd (store_records env src r p ts num s)) \<and> addr_side (snd (store_records env src r p ts num s)) = addr_side s"
proof (induction ts arbitrary: num s)
  case (Cons t ts)
  show ?case
  proof (cases t)
    case None
    then show ?thesis using Cons by simp
  next
    case (Some str)
    show ?thesis
    proof (cases "find_request r s")
      case None
      then show ?thesis using Cons.prems Some by simp
    next
      case q: (Some q)
      obtain ok dup where d: "neat_resolver_helpers_check_duplicate env q src str s = (ok, dup)" by fastforce
      then have ok: ok using check_duplicate_ok [OF Cons.prems q, of env src str] by simp
      have s1: "ctx_ok X (set_fault (\<not> ok) s)" using Cons.prems ok by (simp add: set_fault_ok)
      show ?thesis
        using Some q d Cons.IH s1 set_resolved_ok [OF s1] by (simp add: Let_def side_simps split: option.split)
    qed
  qed
qed simp

lemma start_timeout_ok: "ctx_ok X s \<Longrightarrow> ctx_ok X (nt_resolver_start_timeout r s)"
  unfolding nt_resolver_start_timeout_def by (rule modify_request_ok) (auto simp: request_ok_def)

lemma dns_recv_ok:
  assumes "ctx_ok X s"
  shows "ctx_ok X (neat_resolver_dns_recv_cb env r p reply s)" "addr_side (neat_resolver_dns_recv_cb env r p reply s) = addr_side s"
proof -
  have "ctx_ok X (neat_resolver_dns_recv_cb env r p reply s) \<and> addr_side (neat_resolver_dns_recv_cb env r p reply s) = addr_side s"
  proof (cases "find_request r s")
    case None
    then show ?thesis using assms by (simp add: neat_resolver_dns_recv_cb_def)
  next
    case (Some q)
    show ?thesis
    proof (cases "find (\<lambda>k. pr_ptr k = p) (rq_pairs q)")
      case None
      then show ?thesis using assms Some by (simp add: neat_resolver_dns_recv_cb_def)
    next
      case pr: (Some pr)
      then have "pr \<in> set (rq_pairs q)" using find_SomeD by fast
      then have "pr_src pr \<in> entry_ptrs s" using queue_ok [OF assms find_request_Some(1) [OF Some]] by (simp add: request_ok_def pair_ok_def)
      then obtain src where src: "entry (pr_src pr) s = Some src" using entry_None [of "pr_src pr" s] by auto
      have st: "ctx_ok X (snd (store_records env src r p ts 0 s))" "addr_side (snd (store_records env src r p ts 0 s)) = addr_side s" for ts
        using store_records_ok [OF assms] by simp_all
      show ?thesis
        using Some pr src assms st start_timeout_ok [OF assms] start_timeout_ok [OF st(1)]
        by (cases reply) (simp_all add: neat_resolver_dns_recv_cb_def side_simps case_prod_unfold del: records_of.simps)
    qed
  qed
  then show "ctx_ok X (neat_resolver_dns_recv_cb env r p reply s)" "addr_side (neat_resolver_dns_recv_cb env r p reply s) = addr_side s" by simp_all
qed

section \<open>Handles and servers\<close>

lemma handle_callbacks_ok:
  assumes "ctx_ok {} s"
  shows "ctx_ok {} (neat_resolver_close_cb p s)" "ctx_ok {} (neat_resolver_close_timer r s)" "ctx_ok {} (neat_resolver_idle_cb s)"
    "ctx_ok {} (nt_resolver_update_timeouts t1 t2 s)"
proof -
  have rs: "resolver_ok {} (entry_ptrs s) (rs_of s)" using assms by (simp add: ctx_ok_def)
  show "ctx_ok {} (neat_resolver_close_cb p s)"
    unfolding neat_resolver_close_cb_def by (rule ctx_ok_modify_rs) (use rs in \<open>auto simp: resolver_ok_def del_ok_def\<close>)
  show "ctx_ok {} (nt_resolver_update_timeouts t1 t2 s)"
    unfolding nt_resolver_update_timeouts_def by (rule ctx_ok_modify_rs) (use rs in \<open>auto simp: resolver_ok_def\<close>)
  have flush: "ctx_ok {} (nt_resolver_flush_pairs_del s)"
    unfolding nt_resolver_flush_pairs_del_def by (rule ctx_ok_modify_rs) (use rs in \<open>auto simp: resolver_ok_def\<close>)
  then show "ctx_ok {} (neat_resolver_idle_cb s)"
    unfolding neat_resolver_idle_cb_def Let_def by (auto simp: ctx_ok_def resolver_ok_def side_simps addr_side_D(5) [OF modify_rs_side(1)])
  show "ctx_ok {} (neat_resolver_close_timer r s)"
  proof (cases "find (\<lambda>q. rq_ptr q = r) (rs_dead_requests (rs_of s))")
    case (Some q)
    then have "\<not> rq_freed q" using find_SomeD rs unfolding resolver_ok_def by fast
    then have "ctx_ok {} (set_fault (rq_freed q) s)" using assms by (simp add: set_fault_ok)
    then have "ctx_ok {} (modify_rs (\<lambda>rs. rs\<lparr>rs_dead_requests := remove1 q (rs_dead_requests rs)\<rparr>) (set_fault (rq_freed q) s))"
      by (intro ctx_ok_modify_rs) (auto simp: ctx_ok_def resolver_ok_def dest: notin_set_remove1 set_remove1_subset [THEN subsetD])
    then show ?thesis using Some by (simp add: neat_resolver_close_timer_def)
  qed (use assms in \<open>simp add: neat_resolver_close_timer_def\<close>)
qed

lemma handle_callbacks_side [side_simps]:
  "addr_side (neat_resolver_close_cb p s) = addr_side s" "addr_side (neat_resolver_close_timer r s) = addr_side s"
  "addr_side (nt_resolver_flush_pairs_del s) = addr_side s" "addr_side (free_dead_requests s) = addr_side s"
  "addr_side (nt_resolver_update_timeouts t1 t2 s) = addr_side s"
  by (auto simp: neat_resolver_close_cb_def neat_resolver_close_timer_def nt_resolver_flush_pairs_del_def free_dead_requests_def nt_resolver_update_timeouts_def side_simps split: option.split list.split)

lemma idle_side [side_simps]: "addr_side (neat_resolver_idle_cb s) = addr_side s"
  by (simp add: neat_resolver_idle_cb_def Let_def side_simps)

text \<open>The operations on the list of servers change nothing else of the resolver.\<close>

definition servers_only :: "'k rctx \<Rightarrow> 'k rctx \<Rightarrow> bool" where
  "servers_only s s' = (addr_side s' = addr_side s \<and> (\<exists>ss. rs_of s' = rs_of s\<lparr>rs_servers := ss\<rparr>))"

lemma servers_only_trans: "servers_only s t \<Longrightarrow> servers_only t u \<Longrightarrow> servers_only s u"
  by (auto simp: servers_only_def)

lemma servers_only_same: "addr_side s' = addr_side s \<Longrightarrow> rs_of s' = rs_of s \<Longrightarrow> servers_only s s'"
  unfolding servers_only_def by (metis resolver.surjective resolver.update_convs(5))

lemma servers_only_refl: "servers_only s s"
  by (rule servers_only_same) simp_all

lemma servers_only_set: "servers_only s (modify_rs (\<lambda>rs. rs\<lparr>rs_servers := g rs\<rparr>) s)"
  by (auto simp: servers_only_def side_simps)

lemma servers_only_ok:
  assumes "servers_only s s'"
  shows "ctx_ok X s' = ctx_ok X s"
proof -
  obtain ss where "rs_of s' = rs_of s\<lparr>rs_servers := ss\<rparr>" "addr_side s' = addr_side s" using assms by (auto simp: servers_only_def)
  then show ?thesis using addr_side_D(5) [of s' s] by (simp add: ctx_ok_def resolver_ok_def)
qed

lemma check_addr_servers: "servers_only s (nt_resolver_resolv_check_addr env dst s)"
proof (cases "mark_active dst (rs_servers (rs_of s))")
  case None
  obtain p s1 where alloc: "rs_calloc env s = (p, s1)" by fastforce
  have "servers_only s s1" using rs_calloc_same [OF alloc] by (rule servers_only_same)
  then show ?thesis using None alloc servers_only_trans [OF _ servers_only_set]
    by (auto simp: nt_resolver_resolv_check_addr_def add_server_def split: option.split)
qed (simp add: nt_resolver_resolv_check_addr_def servers_only_set)

lemma nameserver_line_servers: "servers_only s (nameserver_line env line s)"
  by (auto simp: nameserver_line_def servers_only_refl check_addr_servers split: list.split option.split)

lemma conf_updated_servers: "servers_only s (nt_resolver_resolv_conf_updated env s)"
proof -
  obtain c s1 where read: "kernel_call (re_resolv_conf env) s = (c, s1)" by fastforce
  have s1: "servers_only s s1" using kernel_call_same [OF read] by (rule servers_only_same)
  have lines: "servers_only t (fold (nameserver_line env) ls t)" for ls t
    by (induction ls arbitrary: t) (auto intro: servers_only_refl servers_only_trans nameserver_line_servers)
  have "servers_only s (nt_resolver_delete_servers (fold (nameserver_line env) ls (nt_resolver_reset_mark s1)))" for ls
    unfolding nt_resolver_delete_servers_def nt_resolver_reset_mark_def
    by (rule servers_only_trans [OF servers_only_trans [OF servers_only_trans [OF s1 servers_only_set] lines] servers_only_set])
  then show ?thesis using s1 read by (simp add: nt_resolver_resolv_conf_updated_def split: option.split)
qed

lemma static_servers_servers: "servers_only s (snd (static_servers env mk ts s))"
proof (induction ts arbitrary: s)
  case (Cons t ts)
  obtain p s1 where alloc: "rs_calloc env s = (p, s1)" by fastforce
  have s1: "servers_only s s1" using rs_calloc_same [OF alloc] by (rule servers_only_same)
  show ?case using alloc s1 Cons.IH servers_only_trans [OF servers_only_trans [OF s1 servers_only_set] Cons.IH]
    by (auto simp: add_server_def split: option.split)
qed (simp add: servers_only_refl)

lemma initial_servers_servers: "servers_only s (snd (neat_resolver_add_initial_servers env s))"
proof -
  let ?mk = "\<lambda>a. SS_INET6 0 0 0 (bytes_of_u32 a @ replicate 12 0)"
  obtain ok1 s1 where 1: "static_servers env (SS_INET 0) INET_DNS_SERVERS (modify_rs (\<lambda>rs. rs\<lparr>rs_servers := []\<rparr>) s) = (ok1, s1)" by fastforce
  obtain ok2 s2 where 2: "static_servers env ?mk INET6_DNS_SERVERS s1 = (ok2, s2)" by fastforce
  have "servers_only s (snd (static_servers env (SS_INET 0) INET_DNS_SERVERS (modify_rs (\<lambda>rs. rs\<lparr>rs_servers := []\<rparr>) s)))"
    by (rule servers_only_trans [OF servers_only_set static_servers_servers])
  then have s1: "servers_only s s1" by (simp add: 1)
  have "servers_only s (snd (static_servers env ?mk INET6_DNS_SERVERS s1))" by (rule servers_only_trans [OF s1 static_servers_servers])
  then have s2: "servers_only s s2" by (simp add: 2)
  show ?thesis using 1 2 s1 s2 servers_only_trans [OF s2 conf_updated_servers]
    by (simp add: neat_resolver_add_initial_servers_def split: bool.split)
qed

section \<open>Every reachable state is safe\<close>

inductive_cases rs_stepE: "rs_step env s s'"

lemma rs_step_inv:
  assumes "rs_step env s s'" "rs_inv s" "alloc_fresh env"
  shows "rs_inv s'"
proof -
  have ok: "ctx_ok {} s" using assms(2) by (simp add: rs_inv_def)
  note side = rs_inv_side [OF assms(2)]
  from assms(1) show ?thesis
  proof cases
    case rs_conf
    have "servers_only s s'" unfolding rs_conf by (rule conf_updated_servers)
    then show ?thesis using servers_only_ok ok by (intro side) (auto simp: servers_only_def)
  next
    case rs_addr
    then show ?thesis using update_src_list_ok assms(2,3) by blast
  next
    case rs_lifetime
    then show ?thesis using lifetime_timeout_ok assms(2) by blast
  next
    case rs_resolve
    then show ?thesis using resolve_ok assms(2,3) by blast
  qed (auto intro!: side simp: timeout_shared_ok [OF ok] dns_recv_ok [OF ok] handle_callbacks_ok [OF ok] side_simps)
qed

lemma rs_reachable_inv: "(rs_step env)\<^sup>*\<^sup>* s s' \<Longrightarrow> rs_inv s \<Longrightarrow> alloc_fresh env \<Longrightarrow> rs_inv s'"
  by (induction rule: rtranclp_induct) (auto intro: rs_step_inv)

lemma add_event_cb_side:
  assumes "nt_add_event_cb (resolver_addr_env env) event cb s = (True, s')"
  shows "rs_of s' = rs_of s" "nc_src_addrs s' = nc_src_addrs s" "nc_src_addr_cnt s' = nc_src_addr_cnt s"
    "\<exists>cbs. nc_event_cbs s' = Some (cbs(event := cb # cbs event)) \<and> cb \<notin> set (cbs event) \<and> (nc_event_cbs s = Some cbs \<or> nc_event_cbs s = None \<and> cbs = (\<lambda>_. []))"
proof -
  obtain p s1 where alloc: "nc_calloc (resolver_addr_env env) s = (p, s1)" by fastforce
  have s1: "rs_of s1 = rs_of s" "nc_src_addrs s1 = nc_src_addrs s" "nc_src_addr_cnt s1 = nc_src_addr_cnt s"
    using nc_calloc_side [OF alloc] by (simp_all add: addr_side_def)
  then show "rs_of s' = rs_of s" "nc_src_addrs s' = nc_src_addrs s" "nc_src_addr_cnt s' = nc_src_addr_cnt s"
    "\<exists>cbs. nc_event_cbs s' = Some (cbs(event := cb # cbs event)) \<and> cb \<notin> set (cbs event) \<and> (nc_event_cbs s = Some cbs \<or> nc_event_cbs s = None \<and> cbs = (\<lambda>_. []))"
    using assms alloc by (auto simp: nt_add_event_cb_def rs_of_def split: if_splits option.splits)
qed

text \<open>A new resolver satisfies the invariant.\<close>

lemma resolver_init_inv:
  assumes "nt_resolver_init env s = (True, s')" "addrs_wf s" "\<And>cbs. nc_event_cbs s = Some cbs \<Longrightarrow> newaddr_cb \<notin> set (cbs NEAT_DELADDR)"
  shows "rs_inv s'"
proof -
  obtain p s1 where 1: "rs_calloc env s = (p, s1)" by fastforce
  obtain ok2 s2 where 2: "nt_add_event_cb (resolver_addr_env env) NEAT_NEWADDR newaddr_cb (modify_rs (\<lambda>_. new_resolver) s1) = (ok2, s2)" by fastforce
  obtain ok3 s3 where 3: "nt_add_event_cb (resolver_addr_env env) NEAT_DELADDR deladdr_cb s2 = (ok3, s3)" by fastforce
  obtain ok4 s4 where 4: "kernel_call (re_fs_event_init env) s3 = (ok4, s4)" by fastforce
  have ok: "ok2" "ok3" "ok4" and s': "neat_resolver_add_initial_servers env s4 = (True, s')"
    using assms(1) 1 2 3 4 by (auto simp: nt_resolver_init_def split: option.splits bool.splits)
  note b = add_event_cb_side [OF 2 [unfolded eqTrueI [OF ok(1)]]] and c = add_event_cb_side [OF 3 [unfolded eqTrueI [OF ok(2)]]]
  have fin: "servers_only s4 s'" using initial_servers_servers [of s4 env] s' by simp
  have s3: "rs_of s3 = new_resolver" "nc_src_addrs s3 = nc_src_addrs s" "nc_src_addr_cnt s3 = nc_src_addr_cnt s"
    using b c rs_calloc_same [OF 1] by (simp_all add: modify_rs_def rs_of_def addr_side_def)
  have "nc_event_cbs (modify_rs (\<lambda>_. new_resolver) s1) = nc_event_cbs s" using rs_calloc_same(1) [OF 1] by (simp add: modify_rs_def addr_side_def)
  then obtain cbs where cbs: "nc_event_cbs s3 = Some cbs" "deladdr_cb \<in> set (cbs NEAT_DELADDR)" "newaddr_cb \<notin> set (cbs NEAT_DELADDR)"
    using b(4) c(4) assms(3) by (fastforce simp: NEAT_NEWADDR_def NEAT_DELADDR_def newaddr_cb_def deladdr_cb_def)
  have s4: "rs_of s4 = new_resolver" "addr_side s4 = addr_side s3" using kernel_call_same [OF 4] s3 by simp_all
  then have "ctx_ok {} s4" by (simp add: ctx_ok_def resolver_ok_def new_resolver_def)
  then have "rs_inv s4" using assms(2) s3 s4 cbs by (auto simp: rs_inv_def addrs_wf_def addr_keys_def addr_side_def)
  then show ?thesis using fin servers_only_ok [OF fin] \<open>ctx_ok {} s4\<close> by (auto simp: servers_only_def intro: rs_inv_side)
qed

end
