(* ===== verification/Resolver_Props.thy ===== *)
theory Resolver_Props
  imports Resolver_Safe
begin

text \<open>
  The properties of the source addresses and of name resolution, each with an example: a host with one address and a resolver whose results are
  kept in a list.
\<close>

section \<open>A host\<close>

type_synonym demo_kernel = "(nat \<times> resolve_result) list"

definition demo_pton4 :: "string \<Rightarrow> u32 option" where
  "demo_pton4 t = (if t = ''8.8.8.8'' then Some 0x08080808 else if t = ''10.0.0.9'' then Some 0x0a000009 else None)"

definition demo_calloc :: "nat set \<Rightarrow> demo_kernel \<Rightarrow> nat option \<times> demo_kernel" where
  "demo_calloc used k = (let p = Suc (Max (insert 9 used)) in (if p \<in> used then None else Some p, k))"

definition demo_env :: "bool \<Rightarrow> demo_kernel resolver_env" where
  "demo_env udp = \<lparr>re_pton4 = demo_pton4, re_pton6 = (\<lambda>_. None), re_calloc = demo_calloc, re_udp_init = (\<lambda>k. (True, k)),
     re_udp_bind = (\<lambda>_ k. (udp, k)), re_udp_recv_start = (\<lambda>k. (True, k)), re_bind_to_device = (\<lambda>_ k. (False, k)), re_query = (\<lambda>_ _ k. (Some [], k)), re_udp_send = (\<lambda>_ _ k. (True, k)), re_result = (\<lambda>r res k. (r, res) # k), re_fs_event_init = (\<lambda>k. (True, k)), re_resolv_conf = (\<lambda>k. (None, k))\<rparr>"

definition demo_addr :: neat_addr where
  "demo_addr = \<lparr>na_if_idx = 2, na_addr = SS_INET 0 0x0a000001, na_prefix_length = 24, na_ifa_pref = 0, na_ifa_valid = 0\<rparr>"

definition demo_ctx :: "demo_kernel rctx" where
  "demo_ctx = \<lparr>nc_src_addrs = [(1, demo_addr)], nc_src_addr_cnt = 1, nc_src_addr_dump_done = True, nc_event_cbs = None,
     nc_world = \<lparr>rw_resolver = new_resolver, rw_kernel = []\<rparr>\<rparr>"

definition demo_start :: "bool \<Rightarrow> demo_kernel rctx" where
  "demo_start udp = snd (nt_resolver_init (demo_env udp) demo_ctx)"

definition demo_ask :: "bool \<Rightarrow> string \<Rightarrow> demo_kernel rctx" where
  "demo_ask udp name = snd (nt_resolve (demo_env udp) AF_UNSPEC name 80 (demo_start udp))"

lemma demo_fresh: "alloc_fresh (demo_env udp)"
  by (simp add: alloc_fresh_def demo_env_def demo_calloc_def Let_def)

lemma demo_wf: "addrs_wf demo_ctx"
  by (simp add: addrs_wf_def demo_ctx_def addr_keys_def entry_wf_def demo_addr_def addr_life_def)

lemmas demo_eval = demo_env_def demo_calloc_def demo_pton4_def demo_addr_def demo_ctx_def

lemma demo_init: "fst (nt_resolver_init (demo_env True) demo_ctx)" "fst (nt_resolver_init (demo_env False) demo_ctx)"
  by code_simp+

section \<open>Addresses\<close>

text \<open>C11. The list of source addresses refines a map from interface and host to lifetimes: for every sequence of reports of the operating system and ticks of the timer, with the resolver
  as listener, there is one entry for each key of the map, the counter is the number of entries modulo 256, a report stores the lifetimes of an IPv6 address, a deletion removes a known address and
  adds an unknown one, and a tick counts the lifetimes down.
\<close>

theorem addr_list_refines_map:
  assumes "alloc_fresh env" "addrs_wf s" "addr_run (resolver_addr_env env) es s = (cs, s')"
  shows "addr_map s' = fold spec_event (zip es cs) (addr_map s) \<and> length cs = length es \<and> distinct (addr_keys s') \<and> dom (addr_map s') = set (addr_keys s')
    \<and> nc_src_addr_cnt s' = of_nat (length (addr_keys s'))"
proof -
  have "dom (addr_map s') = set (addr_keys s')" using addr_map_None [of s'] by (auto simp: dom_def)
  then show ?thesis
    using resolver_listener.addr_run_refines [OF _ assms(2,3)] resolver_calloc_fresh [OF assms(1)] by (auto simp: addrs_wf_def addr_keys_def)
qed

definition demo_reports :: "addr_event list" where
  "demo_reports = [ADDR_REPORT (SS_INET6 0 0 0 (replicate 16 1)) 2 True 64 2 4, ADDR_TIMER, ADDR_REPORT (SS_INET 0 0x0a000001) 2 False 24 0 0, ADDR_REPORT (SS_INET 0 5) 3 False 24 0 0]"

theorem addr_list_refines_map_witness:
  "addr_map (snd (addr_run (resolver_addr_env (demo_env True)) demo_reports demo_ctx)) (3, Some (HOST4 5)) = Some (0, 0)
   \<and> addr_map (snd (addr_run (resolver_addr_env (demo_env True)) demo_reports demo_ctx)) (2, Some (HOST6 (replicate 16 1))) = Some (1, 3)"
proof -
  have ev: "fst (addr_run (resolver_addr_env (demo_env True)) demo_reports demo_ctx) = [NEAT_OK, NEAT_OK, NEAT_OK, NEAT_OK]" by code_simp
  obtain cs s' where run: "addr_run (resolver_addr_env (demo_env True)) demo_reports demo_ctx = (cs, s')" by fastforce
  then have cs: "cs = [NEAT_OK, NEAT_OK, NEAT_OK, NEAT_OK]" using ev by simp
  have m: "addr_map demo_ctx = [(2, Some (HOST4 0x0a000001)) \<mapsto> (0, 0)]"
    by (simp add: addr_map_def demo_ctx_def demo_addr_def addr_key_def addr_life_def)
  have "addr_map s' = fold spec_event (zip demo_reports cs) (addr_map demo_ctx)" using addr_list_refines_map [OF demo_fresh demo_wf run] by simp
  then have "addr_map s' (3, Some (HOST4 5)) = Some (0, 0)" "addr_map s' (2, Some (HOST6 (replicate 16 1))) = Some (1, 3)"
    by (simp_all add: cs m demo_reports_def report_life_def AF_INET_def AF_INET6_def age_def count_down_def NEAT_UNLIMITED_LIFETIME_def NEAT_ADDRESS_LIFETIME_TIMEOUT_def Let_def)
  then show ?thesis by (simp add: run)
qed

section \<open>Safety\<close>



section \<open>Answers\<close>

text \<open>What a request is answered with: its destinations from every source address that fits.\<close>

definition answer :: "u16 \<Rightarrow> neat_addr \<Rightarrow> sockaddr_storage \<Rightarrow> resolver_res" where
  "answer port src dst = \<lparr>res_family = na_family src, res_if_idx = na_if_idx src, res_src_addr = na_addr src, res_dst_addr = set_port port dst,
     res_internal = nt_resolver_helpers_addr_internal dst\<rparr>"

definition literal_answers :: "'k resolver_env \<Rightarrow> resolver_request \<Rightarrow> neat_addr list \<Rightarrow> resolver_res list" where
  "literal_answers env q as =
     concat (map (\<lambda>dst. map (\<lambda>a. answer (rq_dst_port q) a dst) (filter (\<lambda>a. na_family a = rq_family q \<and> \<not> deprecated a) as))
       (List.map_filter (inet_pton env (rq_family q)) (strtok '','' (rq_domain_name q))))"

definition localhost_answers :: "'k resolver_env \<Rightarrow> resolver_request \<Rightarrow> neat_addr list \<Rightarrow> resolver_res list" where
  "localhost_answers env q as =
     List.map_filter (\<lambda>a. map_option (answer (rq_dst_port q) a) (inet_pton env (na_family a) (if na_family a = AF_INET then ''127.0.0.1'' else ''::1''))) (filter (\<lambda>a. \<not> deprecated a) as)"

definition dns_answers :: "resolver_request \<Rightarrow> (nat \<times> neat_addr) list \<Rightarrow> resolver_res list" where
  "dns_answers q es =
     concat (map (\<lambda>p. case map_of es (pr_src p) of None \<Rightarrow> [] | Some a \<Rightarrow> if deprecated a then [] else map (answer (rq_dst_port q) a) (resolved_list p)) (rq_pairs q))"

definition answers :: "'k resolver_env \<Rightarrow> resolver_request \<Rightarrow> (nat \<times> neat_addr) list \<Rightarrow> resolver_res list" where
  "answers env q es = (if rq_is_literal q then literal_answers env q (map snd es) else if rq_is_localhost q then localhost_answers env q (map snd es) else dns_answers q es)"

definition alloc_total :: "'k resolver_env \<Rightarrow> bool" where
  "alloc_total env = (\<forall>used k. finite used \<longrightarrow> fst (re_calloc env used k) \<noteq> None)"

lemma fst_kernel_call: "fst (kernel_call g s) = fst (g (rw_kernel (nc_world s)))"
  by (simp add: kernel_call_def split: prod.split)

lemma rs_calloc_total:
  assumes "alloc_total env"
  obtains p s1 where "rs_calloc env s = (Some p, s1)"
proof -
  have "finite (entry_ptrs s \<union> rs_ptrs (rs_of s))" by (simp add: entry_ptrs_def rs_ptrs_def)
  then have "fst (rs_calloc env s) \<noteq> None" using assms unfolding alloc_total_def rs_calloc_def fst_kernel_call by blast
  then show ?thesis using that by (cases "rs_calloc env s") auto
qed

lemma fill_results_total:
  assumes "alloc_total env"
  obtains s1 where "nt_resolver_helpers_fill_results env port src dst rs s = (answer port src dst # rs, s1)"
  by (rule rs_calloc_total [OF assms, of s]) (simp add: nt_resolver_helpers_fill_results_def answer_def that)

lemma localhost_results_total:
  assumes "alloc_total env"
  shows "fst (localhost_results env (rq_dst_port q) as rs s) = rev (localhost_answers env q as) @ rs"
proof (induction as arbitrary: rs s)
  case (Cons a as)
  show ?case
  proof (cases "deprecated a \<or> inet_pton env (na_family a) (if na_family a = AF_INET then ''127.0.0.1'' else ''::1'') = None")
    case True
    then show ?thesis using Cons by (auto simp: localhost_answers_def map_filter_simps)
  next
    case False
    then obtain dst where dst: "inet_pton env (na_family a) (if na_family a = AF_INET then ''127.0.0.1'' else ''::1'') = Some dst" by auto
    obtain s1 where "nt_resolver_helpers_fill_results env (rq_dst_port q) a dst rs s = (answer (rq_dst_port q) a dst # rs, s1)" by (rule fill_results_total [OF assms])
    then show ?thesis using Cons False dst by (simp add: localhost_answers_def map_filter_simps del: inet_pton.simps)
  qed
qed (simp add: localhost_answers_def map_filter_simps)

lemma literal_sources_total:
  assumes "alloc_total env"
  shows "fst (literal_sources env port family dst as rs s) = rev (map (\<lambda>a. answer port a dst) (filter (\<lambda>a. na_family a = family \<and> \<not> deprecated a) as)) @ rs"
proof (induction as arbitrary: rs s)
  case (Cons a as)
  obtain s1 where "nt_resolver_helpers_fill_results env port a dst rs s = (answer port a dst # rs, s1)" by (rule fill_results_total [OF assms])
  then show ?case using Cons by simp
qed simp

lemma literal_results_total:
  assumes "alloc_total env"
  shows "fst (literal_results env port family ts rs s) =
    rev (concat (map (\<lambda>dst. map (\<lambda>a. answer port a dst) (filter (\<lambda>a. na_family a = family \<and> \<not> deprecated a) (map snd (nc_src_addrs s)))) (List.map_filter (inet_pton env family) ts))) @ rs"
proof (induction ts arbitrary: rs s)
  case (Cons t ts)
  show ?case
  proof (cases "inet_pton env family t")
    case None
    then show ?thesis using Cons by (simp add: map_filter_simps del: inet_pton.simps)
  next
    case (Some dst)
    obtain rs1 s1 where 1: "literal_sources env port family dst (map snd (nc_src_addrs s)) rs s = (rs1, s1)" by fastforce
    have "nc_src_addrs s1 = nc_src_addrs s" using literal_sources_same [OF 1] by (simp add: addr_side_def)
    moreover have "rs1 = rev (map (\<lambda>a. answer port a dst) (filter (\<lambda>a. na_family a = family \<and> \<not> deprecated a) (map snd (nc_src_addrs s)))) @ rs"
      using literal_sources_total [OF assms, of port family dst "map snd (nc_src_addrs s)" rs s] 1 by simp
    ultimately show ?thesis using Some 1 Cons by (simp add: map_filter_simps del: inet_pton.simps)
  qed
qed (simp add: map_filter_simps)

lemma pair_results_total:
  assumes "alloc_total env"
  shows "fst (pair_results env port a ds rs s) = rev (if deprecated a then [] else map (answer port a) ds) @ rs"
proof (induction ds arbitrary: rs s)
  case (Cons d ds)
  obtain s1 where "nt_resolver_helpers_fill_results env port a d rs s = (answer port a d # rs, s1)" by (rule fill_results_total [OF assms])
  then show ?case using Cons by (simp split: if_splits)
qed simp

lemma populate_results_total:
  assumes "alloc_total env"
  shows "fst (nt_resolver_populate_results env port ps rs s) =
    rev (concat (map (\<lambda>p. case map_of (nc_src_addrs s) (pr_src p) of None \<Rightarrow> [] | Some a \<Rightarrow> if deprecated a then [] else map (answer port a) (resolved_list p)) ps)) @ rs"
proof (induction ps arbitrary: rs s)
  case (Cons p ps)
  show ?case
  proof (cases "entry (pr_src p) s")
    case None
    then show ?thesis using Cons by (simp add: entry_def addr_side_D(1) [OF op_side(2)])
  next
    case (Some a)
    obtain rs1 s1 where 1: "pair_results env port a (resolved_list p) rs s = (rs1, s1)" by fastforce
    have "nc_src_addrs s1 = nc_src_addrs s" using pair_results_same [OF 1] by (simp add: addr_side_def)
    moreover have "rs1 = rev (if deprecated a then [] else map (answer port a) (resolved_list p)) @ rs"
      using pair_results_total [OF assms, of port a "resolved_list p" rs s] 1 by simp
    ultimately show ?thesis using Some 1 Cons by (auto simp: entry_def)
  qed
qed simp

lemma request_results_total:
  assumes "alloc_total env"
  shows "fst (request_results env q s) = rev (answers env q (nc_src_addrs s))"
proof -
  obtain p s1 where alloc: "rs_calloc env s = (Some p, s1)" by (rule rs_calloc_total [OF assms])
  then have "nc_src_addrs s1 = nc_src_addrs s" using rs_calloc_same(1) [OF alloc] by (simp add: addr_side_def)
  then show ?thesis
    using alloc literal_results_total [OF assms, of "rq_dst_port q" "rq_family q" "strtok '','' (rq_domain_name q)" "[]" s1]
      localhost_results_total [OF assms, of q "map snd (nc_src_addrs s)" "[]" s] populate_results_total [OF assms, of "rq_dst_port q" "rq_pairs q" "[]" s]
    by (simp add: request_results_def answers_def nt_resolver_literal_populate_results_def literal_answers_def dns_answers_def)
qed

lemma request_cleanup_queue:
  assumes "ctx_ok {r} s" "find_request r s = Some q"
  shows "rs_request_queue (rs_of (nt_resolver_request_cleanup r s)) = filter (\<lambda>k. rq_ptr k \<noteq> r) (rs_request_queue (rs_of s))"
proof -
  have "remove1 q qs = filter (\<lambda>k. rq_ptr k \<noteq> r) qs" if "distinct (map rq_ptr qs)" "find (\<lambda>k. rq_ptr k = r) qs = Some q" for qs
    using that
  proof (induction qs)
    case (Cons k qs)
    show ?case
    proof (cases "rq_ptr k = r")
      case True
      then have "filter (\<lambda>k. rq_ptr k \<noteq> r) qs = qs" using Cons.prems(1) by (intro filter_True) (force simp: image_iff)
      then show ?thesis using True Cons.prems(2) by simp
    next
      case False
      then have "q \<noteq> k" using find_SomeD [OF Cons.prems(2)] by auto
      then show ?thesis using False Cons by simp
    qed
  qed simp
  then show ?thesis
    using assms by (simp add: nt_resolver_request_cleanup_def side_simps ctx_ok_def resolver_ok_def find_request_def)
qed

lemma mark_pair_del_kernel: "rw_kernel (nc_world (fold nt_resolver_mark_pair_del ps s)) = rw_kernel (nc_world s)"
  by (induction ps arbitrary: s) (simp_all add: nt_resolver_mark_pair_del_def modify_rs_def)

lemma request_cleanup_kernel: "rw_kernel (nc_world (nt_resolver_request_cleanup r s)) = rw_kernel (nc_world s)"
  by (simp add: nt_resolver_request_cleanup_def modify_rs_def mark_pair_del_kernel split: option.split)

lemma modify_request_kernel: "rw_kernel (nc_world (modify_request r g s)) = rw_kernel (nc_world s)"
  by (simp add: modify_request_def modify_rs_def)

text \<open>The request leaves the queue and its result is given to the one who asked.\<close>

lemma finish_answered:
  assumes "ctx_ok {r} s" "find_request r s = Some q"
  shows "rs_request_queue (rs_of (nt_resolver_request_cleanup r (give_result env r res s))) = filter (\<lambda>k. rq_ptr k \<noteq> r) (rs_request_queue (rs_of s))"
    "\<exists>k. rw_kernel (nc_world (nt_resolver_request_cleanup r (give_result env r res s))) = re_result env r res k"
proof -
  show "rs_request_queue (rs_of (nt_resolver_request_cleanup r (give_result env r res s))) = filter (\<lambda>k. rq_ptr k \<noteq> r) (rs_request_queue (rs_of s))"
    using request_cleanup_queue [of r "give_result env r res s" q] assms by (simp add: give_result_ok find_request_same [OF give_result_same])
  show "\<exists>k. rw_kernel (nc_world (nt_resolver_request_cleanup r (give_result env r res s))) = re_result env r res k"
    by (auto simp: request_cleanup_kernel give_result_def kernel_call_def)
qed

lemma modify_request_queue: "(\<And>k. rq_ptr (g k) = rq_ptr k) \<Longrightarrow> filter (\<lambda>k. rq_ptr k \<noteq> r) (rs_request_queue (rs_of (modify_request r g s))) = filter (\<lambda>k. rq_ptr k \<noteq> r) (rs_request_queue (rs_of s))"
proof -
  assume g: "\<And>k. rq_ptr (g k) = rq_ptr k"
  have "filter (\<lambda>k. rq_ptr k \<noteq> r) (map (\<lambda>q. if rq_ptr q = r then g q else q) qs) = filter (\<lambda>k. rq_ptr k \<noteq> r) qs" for qs
    by (induction qs) (auto simp: g)
  then show ?thesis by (simp add: modify_request_def side_simps)
qed

text \<open>The result of a request whose timer has fired, when it is answered now.\<close>

definition outcome :: "'k resolver_env \<Rightarrow> resolver_request \<Rightarrow> 'k rctx \<Rightarrow> resolve_result" where
  "outcome env q s =
     (let fixed = (rq_is_literal q \<or> rq_is_localhost q); rs = answers env q (nc_src_addrs s)
      in if \<not> fixed \<and> \<not> rq_name_resolved_timeout q then NEAT_RESOLVER_TIMEOUT
         else if fixed \<and> nc_src_addr_cnt s = 0 \<or> rs = [] then NEAT_RESOLVER_ERROR else NEAT_RESOLVER_OK (rev rs))"

definition waits_for_addresses :: "resolver_request \<Rightarrow> 'k rctx \<Rightarrow> bool" where
  "waits_for_addresses q s = ((rq_is_literal q \<or> rq_is_localhost q) \<and> nc_src_addr_cnt s = 0 \<and> \<not> nc_src_addr_dump_done s)"


lemma demo_total: "alloc_total (demo_env udp)"
proof -
  have "Suc (Max (insert 9 used)) \<notin> used" if "finite used" for used :: "nat set"
  proof
    assume "Suc (Max (insert 9 used)) \<in> used"
    then have "Suc (Max (insert 9 used)) \<le> Max (insert 9 used)" using that by (intro Max_ge) auto
    then show False by simp
  qed
  then show ?thesis by (simp add: alloc_total_def demo_env_def demo_calloc_def Let_def)
qed

lemma demo_inv: "rs_inv (demo_ask True name)"
proof -
  have "nt_resolver_init (demo_env True) demo_ctx = (True, demo_start True)" using demo_init(1) by (simp add: demo_start_def prod_eq_iff)
  then have "rs_inv (demo_start True)" by (rule resolver_init_inv [OF _ demo_wf]) (simp add: demo_ctx_def)
  then show ?thesis unfolding demo_ask_def by (rule resolve_ok [OF _ demo_fresh])
qed


section \<open>The end\<close>

text \<open>A pair whose socket could not be started.\<close>

definition never_closed :: "resolver \<Rightarrow> bool" where
  "never_closed rs = (\<exists>p \<in> set (rs_pairs_del rs). pr_handle p = UDP_INACTIVE \<and> \<not> pr_closed p)"

lemma never_closed_mark: "never_closed (rs_of s) \<Longrightarrow> never_closed (rs_of (fold nt_resolver_mark_pair_del ps s))"
  by (induction ps arbitrary: s) (auto simp: nt_resolver_mark_pair_del_def side_simps never_closed_def)

lemma never_closed_cleanup: "never_closed (rs_of s) \<Longrightarrow> never_closed (rs_of (nt_resolver_request_cleanup r s))"
  using never_closed_mark by (auto simp: nt_resolver_request_cleanup_def side_simps never_closed_def split: option.split)

lemma rs_of_remove_event_cb [simp]: "rs_of (snd (nt_remove_event_cb event cb s)) = rs_of s"
  by (simp add: nt_remove_event_cb_def rs_of_def split: option.split)

lemma never_closed_release:
  assumes "never_closed (rs_of s)"
  shows "never_closed (rs_of (nt_resolver_release s)) \<and> rs_idle (rs_of (nt_resolver_release s))"
proof -
  have "never_closed (rs_of (fold nt_resolver_request_cleanup rs t))" if "never_closed (rs_of t)" for rs and t :: "'a rctx"
    using that by (induction rs arbitrary: t) (simp_all add: never_closed_cleanup)
  moreover have "never_closed (rs_of (modify_rs (\<lambda>rs. rs\<lparr>rs_free_resolver := True\<rparr>) s))" using assms by (simp add: side_simps never_closed_def)
  ultimately show ?thesis by (simp add: nt_resolver_release_def nt_resolver_cleanup_def side_simps never_closed_def Let_def)
qed

lemma rs_of_set_fault: "rs_of (set_fault b s) = rs_of s\<lparr>rs_fault := rs_fault (rs_of s) \<or> b\<rparr>"
  by (simp add: set_fault_def side_simps)

lemma never_closed_end_step:
  assumes "rs_end_step s s'" "never_closed (rs_of s)" "rs_idle (rs_of s)"
  shows "never_closed (rs_of s') \<and> rs_idle (rs_of s')"
  using assms(1)
proof cases
  case (end_closed p)
  then show ?thesis using assms(2,3) by (force simp: neat_resolver_close_cb_def side_simps never_closed_def)
next
  case (end_timer_closed r)
  then show ?thesis using assms(2,3) by (auto simp: neat_resolver_close_timer_def side_simps never_closed_def rs_of_set_fault split: option.split)
next
  case end_conf_closed
  then show ?thesis using assms(2,3) by (simp add: neat_resolver_conf_close_cb_def side_simps never_closed_def)
next
  case end_idle
  have flush: "rs_of (nt_resolver_flush_pairs_del s) = rs_of s\<lparr>rs_pairs_del := filter (\<lambda>k. \<not> pr_closed k) (rs_pairs_del (rs_of s))\<rparr>"
    by (simp add: nt_resolver_flush_pairs_del_def side_simps)
  have "filter (\<lambda>k. \<not> pr_closed k) (rs_pairs_del (rs_of s)) \<noteq> []" using assms(2) by (auto simp: never_closed_def filter_empty_conv)
  then have "s' = nt_resolver_flush_pairs_del s" using end_idle by (simp add: neat_resolver_idle_cb_def Let_def flush)
  then show ?thesis using assms(2,3) by (auto simp: flush never_closed_def)
qed

text \<open>C35. When the socket of a pair could not be bound, its handle is not active and never closed, so the pair is never freed: after the release of the resolver the idle handle
  stays active whatever else the loop does, and the run of the loop in \<open>neat_free_ctx\<close>, which waits for all handles, does not return.
\<close>

theorem release_never_idle:
  assumes "never_closed (rs_of s)" "rs_end_step\<^sup>*\<^sup>* (nt_resolver_release s) s'"
  shows "rs_idle (rs_of s') \<and> rs_pairs_del (rs_of s') \<noteq> []"
proof -
  have "never_closed (rs_of s') \<and> rs_idle (rs_of s')"
    using assms(2) by (induction rule: rtranclp_induct) (use never_closed_release [OF assms(1)] never_closed_end_step in auto)
  then show ?thesis by (auto simp: never_closed_def)
qed

theorem release_never_idle_witness:
  "rs_idle (rs_of (neat_resolver_idle_cb (nt_resolver_release (demo_ask False ''a''))))"
proof -
  have "list_ex (\<lambda>p. pr_handle p = UDP_INACTIVE \<and> \<not> pr_closed p) (rs_pairs_del (rs_of (demo_ask False ''a'')))" by code_simp
  then have stuck: "never_closed (rs_of (demo_ask False ''a''))" by (simp add: never_closed_def list_ex_iff)
  have "rs_idle (rs_of (nt_resolver_release (demo_ask False ''a'')))" using never_closed_release [OF stuck] by blast
  then have "rs_end_step\<^sup>*\<^sup>* (nt_resolver_release (demo_ask False ''a'')) (neat_resolver_idle_cb (nt_resolver_release (demo_ask False ''a'')))"
    by (intro r_into_rtranclp end_idle)
  from release_never_idle [OF stuck this] show ?thesis by blast
qed

text \<open>C36. When the resolver is released while one request without pairs is pending, such as one for a literal, the idle callback of the same iteration of the loop frees the request, and then the callback of its timer uses it.
\<close>

theorem release_use_after_free:
  assumes "rs_request_queue (rs_of s) = [q]" "rq_pairs q = []" "rs_pairs_del (rs_of s) = []"
  shows "rs_fault (rs_of (neat_resolver_close_timer (rq_ptr q) (neat_resolver_idle_cb (nt_resolver_release s))))"
proof -
  let ?s1 = "nt_resolver_release s"
  have rs: "rs_pairs_del (rs_of ?s1) = []" "rs_free_resolver (rs_of ?s1)" "rs_dead_requests (rs_of ?s1) = q\<lparr>rq_timer := None\<rparr> # rs_dead_requests (rs_of s)"
    using assms by (simp_all add: nt_resolver_release_def nt_resolver_cleanup_def nt_resolver_request_cleanup_def find_request_def side_simps Let_def)
  have flush: "rs_of (nt_resolver_flush_pairs_del ?s1) = rs_of ?s1" using rs(1) by (simp add: nt_resolver_flush_pairs_del_def side_simps)
  have "rs_dead_requests (rs_of (neat_resolver_idle_cb ?s1)) = q\<lparr>rq_timer := None, rq_freed := True\<rparr> # rs_dead_requests (rs_of s)"
    using rs by (simp add: neat_resolver_idle_cb_def Let_def flush free_dead_requests_def side_simps rs_of_set_fault)
  then show ?thesis by (simp add: neat_resolver_close_timer_def side_simps rs_of_set_fault)
qed

theorem release_use_after_free_witness:
  "rs_fault (rs_of (neat_resolver_close_timer 10 (neat_resolver_idle_cb (nt_resolver_release (demo_ask True ''10.0.0.9'')))))"
proof -
  let ?s = "demo_ask True ''10.0.0.9''"
  have ev: "map rq_ptr (rs_request_queue (rs_of ?s)) = [10]" "map rq_pairs (rs_request_queue (rs_of ?s)) = [[]]" "rs_pairs_del (rs_of ?s) = []" by code_simp+
  then obtain q where "rs_request_queue (rs_of ?s) = [q]" "rq_ptr q = 10" "rq_pairs q = []" by auto
  with release_use_after_free ev(3) show ?thesis by metis
qed

section \<open>A second reply\<close>

text \<open>The place of the next address is counted from 0 in every reply: the address of a second reply to one query replaces that of the first.\<close>

lemma second_reply_overwrites:
  "map (\<lambda>q. map resolved_list (rq_pairs q)) (rs_request_queue (rs_of
     (neat_resolver_dns_recv_cb (demo_env True) 10 11 (DNS_RECORDS [Some ''8.8.8.8''] []) (neat_resolver_dns_recv_cb (demo_env True) 10 11 (DNS_RECORDS [Some ''10.0.0.9''] []) (demo_ask True ''a''))))) = [[[SS_INET 0 0x08080808]]]"
  by code_simp

section \<open>Servers\<close>

text \<open>The servers as a map from hosts to marks, and the host a line of the file names.\<close>

definition server_map :: "'k rctx \<Rightarrow> host option \<rightharpoonup> server_mark" where
  "server_map s = map_of (map (\<lambda>(a, m). (host_of a, m)) (rs_servers (rs_of s)))"

definition servers_wf :: "'k rctx \<Rightarrow> bool" where
  "servers_wf s = (distinct (map (host_of \<circ> fst) (rs_servers (rs_of s))) \<and> None \<notin> set (map (host_of \<circ> fst) (rs_servers (rs_of s))))"

definition line_host :: "'k resolver_env \<Rightarrow> string \<Rightarrow> host option" where
  "line_host env line =
     (case strtok [CHR '' '', CHR 0x09, CHR 0x0D, CHR 0x0A] line of
        key # token # _ \<Rightarrow>
          if key = ''nameserver'' \<or> key = ''server''
          then (case re_pton4 env token of Some a \<Rightarrow> Some (HOST4 a) | None \<Rightarrow> map_option HOST6 (re_pton6 env token)) else None
      | _ \<Rightarrow> None)"

lemma mark_active_None: "host_of dst \<noteq> None \<Longrightarrow> mark_active dst ss = None \<longleftrightarrow> host_of dst \<notin> set (map (host_of \<circ> fst) ss)"
  by (induction dst ss rule: mark_active.induct) (auto simp: same_ip_iff)

lemma mark_active_host: "mark_active dst ss = Some ts \<Longrightarrow> host_of dst \<noteq> None"
proof (induction dst ss arbitrary: ts rule: mark_active.induct)
  case (2 dst a m ss)
  show ?case
  proof (cases "same_ip a dst")
    case True
    then show ?thesis using same_ip_iff by metis
  next
    case False
    then show ?thesis using 2 by (auto simp del: not_None_eq)
  qed
qed simp

lemma mark_active_Some:
  "mark_active dst ss = Some ts \<Longrightarrow> map (host_of \<circ> fst) ts = map (host_of \<circ> fst) ss
     \<and> map_of (map (\<lambda>(a, m). (host_of a, m)) ts) = (map_of (map (\<lambda>(a, m). (host_of a, m)) ss))(host_of dst \<mapsto> NEAT_RESOLVER_SERVER_ACTIVE)"
proof (induction dst ss arbitrary: ts rule: mark_active.induct)
  case (2 dst a m ss)
  show ?case
  proof (cases "same_ip a dst")
    case True
    then have "ts = (a, NEAT_RESOLVER_SERVER_ACTIVE) # ss" "host_of a = host_of dst" using "2.prems" by (simp, simp add: same_ip_iff)
    then show ?thesis by (simp add: fun_eq_iff)
  next
    case False
    then obtain us where us: "mark_active dst ss = Some us" "ts = (a, m) # us" using 2 by auto
    have "host_of a \<noteq> host_of dst" using False mark_active_host [OF us(1)] same_ip_iff by metis
    then show ?thesis using 2 us False by (auto simp: fun_upd_twist)
  qed
qed simp

lemma check_addr_map:
  assumes "alloc_total env" "servers_wf s" "host_of dst \<noteq> None"
  shows "servers_wf (nt_resolver_resolv_check_addr env dst s)
    \<and> server_map (nt_resolver_resolv_check_addr env dst s) = (server_map s)(host_of dst \<mapsto> NEAT_RESOLVER_SERVER_ACTIVE)"
proof (cases "mark_active dst (rs_servers (rs_of s))")
  case None
  obtain p s1 where alloc: "rs_calloc env s = (Some p, s1)" by (rule rs_calloc_total [OF assms(1)])
  have "host_of dst \<notin> set (map (host_of \<circ> fst) (rs_servers (rs_of s)))" using None mark_active_None [OF assms(3)] by blast
  then show ?thesis using None alloc rs_calloc_same(2) [OF alloc] assms(2,3)
    by (auto simp: nt_resolver_resolv_check_addr_def add_server_def side_simps servers_wf_def server_map_def)
next
  case (Some ts)
  then show ?thesis using mark_active_Some [OF Some] assms(2)
    by (simp add: nt_resolver_resolv_check_addr_def side_simps servers_wf_def server_map_def)
qed

lemma nameserver_line_map:
  assumes "alloc_total env" "servers_wf s"
  shows "servers_wf (nameserver_line env line s) \<and> server_map (nameserver_line env line s) =
    (\<lambda>h. if h \<noteq> None \<and> h = line_host env line then Some NEAT_RESOLVER_SERVER_ACTIVE else server_map s h)"
  using check_addr_map [OF assms, of "SS_INET 0 a" for a] check_addr_map [OF assms, of "SS_INET6 0 0 0 a" for a] assms(2)
  by (auto simp: nameserver_line_def line_host_def fun_eq_iff split: list.split option.split)

lemma nameserver_lines_map:
  assumes "alloc_total env" "servers_wf s"
  shows "servers_wf (fold (nameserver_line env) ls s) \<and> server_map (fold (nameserver_line env) ls s) =
    (\<lambda>h. if h \<noteq> None \<and> h \<in> line_host env ` set ls then Some NEAT_RESOLVER_SERVER_ACTIVE else server_map s h)"
  using assms(2)
proof (induction ls arbitrary: s)
  case (Cons l ls)
  have l: "servers_wf (nameserver_line env l s)" "server_map (nameserver_line env l s) =
    (\<lambda>h. if h \<noteq> None \<and> h = line_host env l then Some NEAT_RESOLVER_SERVER_ACTIVE else server_map s h)"
    using nameserver_line_map [OF assms(1) Cons.prems, of l] by simp_all
  show ?case using Cons.IH [OF l(1)] by (auto simp: l(2) fun_eq_iff)
qed simp

lemma reset_mark_map:
  "servers_wf (nt_resolver_reset_mark s) = servers_wf s"
  "server_map (nt_resolver_reset_mark s) = (\<lambda>h. map_option (\<lambda>m. if m \<noteq> NEAT_RESOLVER_SERVER_STATIC then NEAT_RESOLVER_SERVER_DELETE else m) (server_map s h))"
proof -
  show "servers_wf (nt_resolver_reset_mark s) = servers_wf s"
    by (simp add: nt_resolver_reset_mark_def side_simps servers_wf_def comp_def case_prod_unfold)
  have "map_of (map (\<lambda>(a, m). (host_of a, g m)) ss) = (\<lambda>h. map_option g (map_of (map (\<lambda>(a, m). (host_of a, m)) ss) h))" for g :: "server_mark \<Rightarrow> server_mark" and ss
    by (induction ss) auto
  then show "server_map (nt_resolver_reset_mark s) = (\<lambda>h. map_option (\<lambda>m. if m \<noteq> NEAT_RESOLVER_SERVER_STATIC then NEAT_RESOLVER_SERVER_DELETE else m) (server_map s h))"
    by (simp add: nt_resolver_reset_mark_def side_simps server_map_def comp_def case_prod_unfold)
qed

lemma delete_servers_map:
  assumes "servers_wf s"
  shows "servers_wf (nt_resolver_delete_servers s)"
    "server_map (nt_resolver_delete_servers s) = (\<lambda>h. if server_map s h = Some NEAT_RESOLVER_SERVER_DELETE then None else server_map s h)"
proof -
  show "servers_wf (nt_resolver_delete_servers s)"
    using assms by (auto simp: nt_resolver_delete_servers_def side_simps servers_wf_def distinct_map_filter)
  have "map_of (map (\<lambda>(a, m). (host_of a, m)) (filter (\<lambda>(a, m). m \<noteq> d) ss)) = (\<lambda>h. if map_of (map (\<lambda>(a, m). (host_of a, m)) ss) h = Some d then None else map_of (map (\<lambda>(a, m). (host_of a, m)) ss) h)"
    if "distinct (map (host_of \<circ> fst) ss)" for d :: server_mark and ss
    using that
  proof (induction ss)
    case (Cons x ss)
    obtain a m where x: "x = (a, m)" by (cases x)
    have "map_of (map (\<lambda>(a, m). (host_of a, m)) ss) (host_of a) = None" using Cons.prems x by (force simp: map_of_eq_None_iff)
    then show ?case using Cons x by (auto simp: fun_eq_iff)
  qed simp
  then show "server_map (nt_resolver_delete_servers s) = (\<lambda>h. if server_map s h = Some NEAT_RESOLVER_SERVER_DELETE then None else server_map s h)"
    using assms unfolding server_map_def nt_resolver_delete_servers_def side_simps servers_wf_def by simp
qed

text \<open>C37. After a change of \<open>resolv.conf\<close> the servers are the ones that the lines of the file name, as active ones, and the built-in servers that no line has ever named. A built-in server that has been named is
  active, so the next file that does not name it removes it.
\<close>

theorem resolv_conf_exact:
  assumes "alloc_total env" "servers_wf s" "fst (kernel_call (re_resolv_conf env) s) = Some content"
  shows "servers_wf (nt_resolver_resolv_conf_updated env s)
    \<and> server_map (nt_resolver_resolv_conf_updated env s) (Some h) =
       (if Some h \<in> line_host env ` set (fgets_lines content) then Some NEAT_RESOLVER_SERVER_ACTIVE
        else if server_map s (Some h) = Some NEAT_RESOLVER_SERVER_STATIC then Some NEAT_RESOLVER_SERVER_STATIC else None)"
proof -
  obtain s1 where read: "kernel_call (re_resolv_conf env) s = (Some content, s1)" using assms(3) by (cases "kernel_call (re_resolv_conf env) s") auto
  have "rs_of s1 = rs_of s" using kernel_call_same [OF read] by simp
  then have s1: "servers_wf s1" "server_map s1 = server_map s" using assms(2) by (simp_all add: servers_wf_def server_map_def)
  let ?s2 = "nt_resolver_reset_mark s1"
  let ?s3 = "fold (nameserver_line env) (fgets_lines content) ?s2"
  have s3: "servers_wf ?s3" "server_map ?s3 = (\<lambda>h. if h \<noteq> None \<and> h \<in> line_host env ` set (fgets_lines content) then Some NEAT_RESOLVER_SERVER_ACTIVE else server_map ?s2 h)"
    using nameserver_lines_map [OF assms(1), of ?s2 "fgets_lines content"] s1(1) by (simp_all add: reset_mark_map)
  show ?thesis
    using read delete_servers_map [OF s3(1)]
    by (cases "server_map s (Some h)") (auto simp: nt_resolver_resolv_conf_updated_def s3(2) reset_mark_map s1(2))
qed

definition demo_conf_env :: "string \<Rightarrow> demo_kernel resolver_env" where
  "demo_conf_env content = (demo_env True)\<lparr>re_resolv_conf := (\<lambda>k. (Some content, k))\<rparr>"

theorem resolv_conf_exact_witness:
  "server_map (demo_start True) (Some (HOST4 0x08080808)) = Some NEAT_RESOLVER_SERVER_STATIC
   \<and> server_map (nt_resolver_resolv_conf_updated (demo_conf_env []) (nt_resolver_resolv_conf_updated (demo_conf_env ''nameserver 8.8.8.8'') (demo_start True))) (Some (HOST4 0x08080808)) = None"
proof -
  let ?h = "HOST4 0x08080808" and ?line = "''nameserver 8.8.8.8''"
  have total: "alloc_total (demo_conf_env c)" for c using demo_total [of True] by (simp add: alloc_total_def demo_conf_env_def demo_env_def)
  have ss: "rs_servers (rs_of (demo_start True)) = [(SS_INET 0 0x08080808, NEAT_RESOLVER_SERVER_STATIC)]" by code_simp
  then have start: "servers_wf (demo_start True)" "server_map (demo_start True) (Some ?h) = Some NEAT_RESOLVER_SERVER_STATIC" by (simp_all add: servers_wf_def server_map_def)
  have read: "fst (kernel_call (re_resolv_conf (demo_conf_env c)) s) = Some c" for c s by (simp add: demo_conf_env_def kernel_call_def)
  have "fgets_lines ?line = [?line]" "line_host (demo_conf_env ?line) ?line = Some ?h" by code_simp+
  then have one: "servers_wf (nt_resolver_resolv_conf_updated (demo_conf_env ?line) (demo_start True))"
    "server_map (nt_resolver_resolv_conf_updated (demo_conf_env ?line) (demo_start True)) (Some ?h) = Some NEAT_RESOLVER_SERVER_ACTIVE"
    using resolv_conf_exact [OF total start(1) read, of ?line ?h] by simp_all
  show ?thesis using resolv_conf_exact [OF total one(1) read, of "[]" ?h] one(2) start(2) by simp
qed

end
