(* ===== verification/Spec2Isabelle.thy ===== *)
theory Spec2Isabelle
  imports Identifier_Bitmap Notification_Queue Event_Signal Rbt_Index Socket_Props Udp_Accept He_Props Pm_Io Resolver_Props
begin

text \<open>
  Verification of NEAT, a library that gives applications transport flows independent of the protocol
  below, and of the BSD-style socket API on top of it.

  \<^bold>\<open>The program.\<close> The transport core (\<open>src/neat_core.c\<close>, \<open>src/neat_internal.h\<close>) keeps contexts, flows and
  pollable sockets; an application opens a flow, gives it a table of callbacks
  (\<open>struct neat_flow_operations\<close>) and reads and writes on it from inside the event loop. The socket API
  (\<open>src/socketapi\<close>) turns this into blocking calls: a table maps descriptors to
  \<open>struct neat_socket\<close>, each wrapping a flow or a descriptor of the system; a thread of its own runs the
  event loop of the core, whose callbacks set flags and fire event signals; a call that has to wait
  sleeps on these signals. The table is made of three containers: a bitmap that hands out
  descriptors, an intrusive red-black tree that finds a socket by its descriptor, and event signals
  that propagate from the sockets to the threads that poll them. A daemon, the policy manager
  (\<open>src/policy_manager\<close>), answers the requests of the library for connection candidates from its
  policies, profiles and the characteristics of the host.

  \<^bold>\<open>Conventions\<close> (theory \<open>Prelude\<close>). A failed assertion, a null dereference, a read outside an array and an
  access to freed memory are \<^const>\<open>None\<close>, so a theorem that states \<open>f x = Some y\<close> excludes all of
  them. An \<open>int\<close> that carries small values is an \<^typ>\<open>int\<close>; counters, masks and buffer sizes are words of
  their width. A recursive lock that is held for a whole function makes the function one step; what
  other threads do while it is released is a parameter of the model.

  \<^bold>\<open>Containers.\<close>
  \<^item> \<open>Identifier_Bitmap\<close>: \<open>identifierbitmap.c\<close>. The record, the five operations and their search loops on
    64-bit slots. The locale \<open>id_allocator\<close> is the contract the descriptor table needs: the least free
    identifier, a specific one, and giving back. Shown: the operations implement it, round trip of
    allocation and release.
  \<^item> \<open>Notification_Queue\<close>: \<open>notificationqueue.c\<close> on a heap of nodes. Both queues interpret the locale
    \<open>fifo\<close>; every run of operations refines two lists, and clearing frees exactly the queued nodes.
  \<^item> \<open>Event_Signal\<close>: \<open>eventsignal.c\<close> on a store of signals. Shown: firing reaches exactly the ancestors,
    a parent added to a fired signal is fired at once, the deadline arithmetic of the timed wait is
    exact and the wait consumes the event.
  \<^item> \<open>Redblacktree\<close>: \<open>redblacktree.c\<close> on a heap of nodes, pointer assignment by pointer assignment.
    \<open>Rbt_Shape\<close> relates heaps to functional trees with a hole at the place of work, \<open>Rbt_Insert\<close> and
    \<open>Rbt_Repair\<close> prove the two repair loops, \<open>Rbt_Search\<close> and \<open>Rbt_Remove\<close> insertion and removal, and
    \<open>Rbt_Index\<close> states what the users rely on as the locales \<open>node_index\<close> and \<open>linked_index\<close>.

  \<^bold>\<open>Transport core.\<close>
  \<^item> \<open>Neat_Flow\<close>: error codes, stacks, optional arguments, flows and messages of \<open>neat.h\<close> and
    \<open>neat_internal.h\<close>, and the configuration of the preprocessor.
  \<^item> \<open>Flow_Write\<close>: \<open>nt_write_to_lower_layer\<close>, \<open>nt_write_fillbuffer\<close>, \<open>nt_write_flush\<close> with the kernel's
    \<open>sendmsg\<close> as a parameter. Shown: over any run of writes and flushes no byte is lost, doubled or
    reordered; a write takes everything or nothing; and a flush on a flow that needs security loops.
  \<^item> \<open>Flow_Read\<close>: the read buffer, the read from buffer, stream queue or kernel, filters and
    notifications. Shown: bytes come out in order and once, and the growth of the buffer leaves room.
  \<^item> \<open>Core_Streams\<close>: the event side of \<open>neat_core.c\<close> on a store of flows and sockets: \<open>uvpollable_cb\<close> with
    \<open>io_readable\<close>, \<open>io_writable\<close> and \<open>io_connected\<close>, \<open>do_accept\<close>, the SCTP notifications, multistreaming,
    \<open>neat_close\<close> (here \<open>core_close\<close>), \<open>neat_shutdown\<close> (\<open>core_shutdown\<close>) and the freeing of flows; candidates and their freeing; of
    \<open>nt_he_open\<close> in \<open>neat_he.c\<close> the part that joins an association. The functions call each other; \<open>io_readable\<close> and the
    event callback are tied to the depth the code reaches (\<open>io_readable_no_recursion\<close>, \<open>poll_event_no_event\<close>).
  \<^item> \<open>Stream_Demux\<close>: the invariant of a multistreamed socket and the refinement of its reception to the distribution
    of messages over streams. \<open>quiet\<close> is the relation between states that the callbacks of the application keep.
  \<^item> \<open>Stream_Life\<close>: the end of a stream by \<open>neat_close\<close> or by resets, and the events around it.
  \<^item> \<open>Stream_Props\<close>, \<open>Udp_Accept\<close>: the properties, a small server for the witnesses, and the copy of a
    datagram that opens a UDP flow.
  \<^item> \<open>Json\<close>: JSON values and the operations of Jansson on them, for the core and the policy manager; \<open>Json_Helpers\<close>: \<open>neat_json_helpers.c\<close> on a datatype of JSON values.
  \<^item> \<open>Happy_Eyeballs\<close>: \<open>neat_he.c\<close>, \<open>nt_connect\<close>, \<open>nt_prepare_sctp_socket\<close> and \<open>he_connected_cb\<close>: timers, attempts
    and results of the candidates of a flow. \<open>He_Race\<close> has the states of a race and the effect of each event,
    \<open>He_Props\<close> the properties: the race of \<open>nt_he_open\<close> is decided under every order of events, and the winner stays.

  \<^bold>\<open>Name resolution.\<close>
  \<^item> \<open>Address_List\<close>: the source addresses of a context (\<open>neat_addr.c\<close>) and the event callbacks of \<open>neat_core.c\<close>. The locale
    \<open>listener\<close> is what a callback promises; under it the list refines a map from interface and host to lifetimes.
  \<^item> \<open>Resolver\<close>: \<open>neat_resolver.c\<close>, \<open>neat_resolver_helpers.c\<close> and \<open>neat_resolver_conf.c\<close>. A flag of the state records a use of
    freed memory; the loop of libuv runs, so handles are closed later by steps of their own.
  \<^item> \<open>Resolver_Safe\<close>: the resolver is a \<open>listener\<close>, and its invariant holds in every state before its release.
  \<^item> \<open>Resolver_Props\<close>: the properties: safety, the answers to requests, the servers after a change of \<open>resolv.conf\<close>, and two defects
    of the release.

  \<^bold>\<open>Policy manager.\<close>
  \<^item> \<open>Pm_Json\<close>: \<open>parse_json.c\<close>: expansion of requests, scores and sorting, matching and merging of properties.
  \<^item> \<open>Pm_Base\<close>: \<open>node.c\<close>, \<open>pib.c\<close> and \<open>cib.c\<close>: sorted lists of nodes, the lookups in the policy and the characteristics
    base, the addition of nodes at run time and the generation of characteristics from the interfaces.
  \<^item> \<open>Pm_Lookup\<close>: \<open>lookup\<close> and the reading of requests in \<open>pm.c\<close>.
  \<^item> \<open>Pm_Match\<close>, \<open>Pm_Expand\<close>, \<open>Pm_Props\<close>, \<open>Pm_Io\<close>: a request gets the best ten of its candidates; policies keep
    immutable properties while the characteristics base does not; expansion is a product; a request that fits into
    the buffer arrives as it was sent, and a longer one leaves the buffer.

  \<^bold>\<open>Socket API.\<close> The state \<open>nsa\<close> holds the sockets by address, the tree, the bitmap, the signals, the flows
  the table knows with their operations and user data, \<open>errno\<close> and an uninterpreted world. The
  operating system and the functions of the core that the table calls are the fields of \<open>nsa_env\<close>.
  \<^item> \<open>Socket_Table\<close>: the records, lookup, release and the closing of sockets. \<open>nsa_close\<close>, \<open>neat_close\<close>,
    the callback \<open>on_close\<close> and \<open>nsa_close_internal\<close> call each other; the functions ending in \<open>_at\<close>
    carry the depth of the calls.
  \<^item> \<open>Socket_Close\<close>: the invariant \<open>nsa_inv\<close> (with sets of sockets that are being torn down) and the
    proof that closing ends and keeps it. \<open>nsa_ok\<close> is the invariant between calls: the tree holds
    exactly the live sockets, the bitmap exactly their descriptors, every socket has its signals,
    accept lists and back pointers agree, and the user data of every flow is a live socket.
  \<^item> \<open>Socket_Create\<close>: \<open>nsa_socket_internal\<close> and \<open>nsa_map_socket\<close>.
  \<^item> \<open>Socket_Events\<close>: the callbacks, their dispatch, and a connection that comes in on a listening flow.
  \<^item> \<open>Socket_Poll\<close>, \<open>Socket_Ready\<close>: \<open>nsa_poll\<close>, \<open>nsa_select\<close> and waiting. The other threads are a rely
    condition (\<open>others_ok\<close>): they keep the invariant and do not touch the signals on the stack.
  \<^item> \<open>Socket_Calls\<close>, \<open>Socket_IO\<close>: every call of \<open>neat-socketapi.c\<close>, \<open>neat-socketapi-io.c\<close> and
    \<open>neat-socketapi-file.c\<close>, with initialisation and cleanup.
  \<^item> \<open>Socket_Safe\<close>, \<open>Socket_Accept\<close>, \<open>Socket_Run\<close>: each call returns and keeps the invariant; the step
    relation of calls and callbacks, and the invariant in every reachable state.
  \<^item> \<open>Socket_Demo\<close>, \<open>Socket_Props\<close>: a concrete environment for the witnesses, and the properties.

  \<^bold>\<open>Fuel.\<close> Three bounds occur. \<open>es_depth\<close> is 3: the parents of a signal have lower rank and there are three
  ranks (sockets, the three signals of a poll storage, its global signal). \<open>close_depth\<close> is five nested
  calls for each socket in the tree and one more round: every round of the recursion takes a socket out
  of the tree. Both are proved enough, as the theorems state a result and not only its form. The loop
  of \<open>nsa_accept4\<close> may wait for ever, so \<open>await_connection\<close> takes the number of rounds; one round is
  enough when a connection is there. Loops that follow pointers are partial functions, shown to return
  on well-formed heaps.

  \<^bold>\<open>Environment.\<close> The promises used are named: \<open>sendmsg_ok\<close> (the kernel takes a prefix of the data, or
  fails), \<open>calloc_ok\<close> and \<open>new_flow_ok\<close> (fresh addresses), \<open>calloc_total\<close> (\<open>calloc\<close> succeeds
  while at most 1024 sockets are live), \<open>others_ok\<close>; for the core \<open>memory_ok\<close>, \<open>kernel_ok\<close>, \<open>app_quiet\<close> (a callback reads
  and does not open or close flows) and \<open>benign\<close>, for the connection
  attempts \<open>he_kernel\<close>, for the policy manager \<open>qsort_ok\<close>, for the resolver \<open>alloc_fresh\<close> and \<open>alloc_total\<close>
  (memory that is not in use, and enough of it). Properties that need one have a witness with a concrete function.

  \<^bold>\<open>Two views of the core.\<close> The socket API sees a flow by its operations and user data only
  (\<open>Socket_Table\<close>, with its own \<open>neat_close\<close> and \<open>neat_abort\<close> for the callbacks that come back into the table);
  \<open>Core_Streams\<close> sees the same functions with the buffers, sockets and handles behind them.

  \<^bold>\<open>Defects.\<close> Where the code reads freed memory, writes past a buffer or loops, the model has no result and a theorem
  says so: \<open>flush_secure_never_returns\<close>, \<open>core_accept_full_table\<close>, \<open>poll_reset_use_after_free\<close>,
  \<open>udp_accept_overflow\<close>, \<open>he_error_dangling_handle\<close>, \<open>nt_find_enabled_stacks_bounds\<close>,
  \<open>request_received\<close>; \<open>cib_replaces_immutable\<close>, \<open>cib_ignores_interfaces\<close> and \<open>add_pib_node_lost\<close> show wrong results; \<open>he_join_reuses_stream\<close> shows two flows on one stream. In the
  resolver a flag is set (\<open>release_use_after_free\<close>) or a handle stays active for ever (\<open>release_never_idle\<close>).

  \<^bold>\<open>Not modelled.\<close> The building of candidates in \<open>neat_open\<close> and \<open>neat_accept\<close>,
  provisioning domains, address discovery and the policy client are driven by
  libuv, ldns, netlink and jansson; of the policy manager the REST interface and the start of the daemon; security and WebRTC are glue to OpenSSL and librawrtc; of the socket
  API only \<open>nsa_main_loop\<close>, which runs the event loop, and the printing of the tree are left out.
\<close>

end
